(* ===== verification/Prelude.thy ===== *)
theory Prelude
  imports Main "HOL-Library.AList" "HOL-Library.Multiset" "HOL-Library.Code_Target_Nat"
begin

text \<open>
  What the components share.

  \<^item> Machine integers. A \<open>u64\<close>, \<open>u32\<close> or \<open>usize\<close> is a \<open>nat\<close>; the code's
    \<open>saturating_sub\<close> is the truncating subtraction of \<open>nat\<close>. Where an addition, a
    multiplication or an \<open>as\<close> cast can leave the width, the wrap-around of the release build
    (which has no overflow checks) is written out: \<open>wadd32\<close>, \<open>wadd64\<close>, \<open>wmul64\<close>,
    \<open>as_u32\<close>. Counters that only ever count events (\<open>fetch_add(1)\<close>) are plain \<open>nat\<close>.
  \<^item> Hash maps. A \<open>HashMap\<close> or \<open>BTreeMap\<close> is a \<open>table\<close>: an association list with
    distinct keys. Its list order stands for the iteration order, which Rust leaves open
    for a \<open>HashMap\<close>.
  \<^item> Strings. A \<open>String\<close> is its list of bytes (\<open>string\<close>), so \<open>length\<close> is \<open>len()\<close>.
    The case folding and trimming functions act on ASCII characters; other bytes are left as
    they are, as \<open>eq_ignore_ascii_case\<close> does.
\<close>

named_theorems wrap_simps \<open>wrapping arithmetic inside its width\<close>
named_theorems table_simps \<open>lookups, keys and sums of tables\<close>

section \<open>Machine integers\<close>

definition wadd32 :: "nat \<Rightarrow> nat \<Rightarrow> nat" where
  "wadd32 a b = (a + b) mod 2 ^ 32"

definition as_u32 :: "nat \<Rightarrow> nat" where
  "as_u32 a = a mod 2 ^ 32"

definition wadd64 :: "nat \<Rightarrow> nat \<Rightarrow> nat" where
  "wadd64 a b = (a + b) mod 2 ^ 64"

definition wmul64 :: "nat \<Rightarrow> nat \<Rightarrow> nat" where
  "wmul64 a b = (a * b) mod 2 ^ 64"

lemma wadd32_exact [wrap_simps]: "a + b < 2 ^ 32 \<Longrightarrow> wadd32 a b = a + b"
  by (simp add: wadd32_def)

lemma wadd64_exact [wrap_simps]: "a + b < 2 ^ 64 \<Longrightarrow> wadd64 a b = a + b"
  by (simp add: wadd64_def)

lemma wmul64_exact [wrap_simps]: "a * b < 2 ^ 64 \<Longrightarrow> wmul64 a b = a * b"
  by (simp add: wmul64_def)

lemma as_u32_exact [wrap_simps]: "a < 2 ^ 32 \<Longrightarrow> as_u32 a = a"
  by (simp add: as_u32_def)

lemma as_u32_le: "as_u32 a \<le> a"
  by (simp add: as_u32_def)

lemma wadd64_lt: "wadd64 a b < 2 ^ 64"
  by (simp add: wadd64_def)

lemma wmul64_lt: "wmul64 a b < 2 ^ 64"
  by (simp add: wmul64_def)

section \<open>Tables\<close>

type_synonym ('k, 'v) table = "('k \<times> 'v) list"

abbreviation tkeys :: "('k, 'v) table \<Rightarrow> 'k list" where
  "tkeys m \<equiv> map fst m"

abbreviation tget :: "('k, 'v) table \<Rightarrow> 'k \<Rightarrow> 'v option" where
  "tget m k \<equiv> map_of m k"

abbreviation tput :: "'k \<Rightarrow> 'v \<Rightarrow> ('k, 'v) table \<Rightarrow> ('k, 'v) table" where
  "tput \<equiv> AList.update"

abbreviation tdel :: "'k \<Rightarrow> ('k, 'v) table \<Rightarrow> ('k, 'v) table" where
  "tdel \<equiv> AList.delete"

text \<open>\<open>if let Some(v) = map.get_mut(k) { *v = f(v) }\<close>.\<close>

definition tmod :: "'k \<Rightarrow> ('v \<Rightarrow> 'v) \<Rightarrow> ('k, 'v) table \<Rightarrow> ('k, 'v) table" where
  "tmod k f m = map (\<lambda>(k', v). (k', if k' = k then f v else v)) m"

text \<open>\<open>map.retain(|k, v| p(k, v))\<close>.\<close>

definition tretain :: "('k \<Rightarrow> 'v \<Rightarrow> bool) \<Rightarrow> ('k, 'v) table \<Rightarrow> ('k, 'v) table" where
  "tretain p m = filter (\<lambda>(k, v). p k v) m"

lemma tget_tput [table_simps, simp]: "tget (tput k v m) k' = (if k' = k then Some v else tget m k')"
  by (simp add: update_conv')

lemma tget_tdel [table_simps, simp]: "tget (tdel k m) k' = (if k' = k then None else tget m k')"
  by (simp add: delete_conv')

lemma tkeys_tput [table_simps]:
  "tkeys (tput k v m) = (if k \<in> set (tkeys m) then tkeys m else tkeys m @ [k])"
  by (simp add: update_keys)

lemma tkeys_tdel [table_simps]: "tkeys (tdel k m) = removeAll k (tkeys m)"
  by (simp add: delete_keys)

lemma tkeys_tmod [table_simps, simp]: "tkeys (tmod k f m) = tkeys m"
  by (induction m) (auto simp: tmod_def)

lemma tget_tmod [table_simps, simp]:
  "tget (tmod k f m) k' = (if k' = k then map_option f (tget m k) else tget m k')"
  by (induction m) (auto simp: tmod_def)

lemma tmod_absent: "k \<notin> set (tkeys m) \<Longrightarrow> tmod k f m = m"
  by (induction m) (auto simp: tmod_def)

lemma length_tmod [simp]: "length (tmod k f m) = length m"
  by (simp add: tmod_def)

lemma tget_None_iff: "tget m k = None \<longleftrightarrow> k \<notin> set (tkeys m)"
  by (simp add: map_of_eq_None_iff)

lemma tget_Some_key: "tget m k = Some v \<Longrightarrow> k \<in> set (tkeys m)"
  by (metis tget_None_iff option.distinct(1))

lemma distinct_tput [simp]: "distinct (tkeys m) \<Longrightarrow> distinct (tkeys (tput k v m))"
  by (rule distinct_update)

lemma distinct_tdel [simp]: "distinct (tkeys m) \<Longrightarrow> distinct (tkeys (tdel k m))"
  by (rule distinct_delete)

lemma tkeys_tretain: "tkeys (tretain p m) = map fst (filter (\<lambda>(k, v). p k v) m)"
  by (simp add: tretain_def)

lemma distinct_tretain [simp]: "distinct (tkeys m) \<Longrightarrow> distinct (tkeys (tretain p m))"
  by (simp add: tretain_def distinct_map_filter)

lemma tget_tretain [table_simps]:
  "distinct (tkeys m) \<Longrightarrow>
    tget (tretain p m) k =
      (case tget m k of None \<Rightarrow> None | Some v \<Rightarrow> if p k v then Some v else None)"
  unfolding tretain_def
  by (induction m) (auto split: option.splits simp: map_of_eq_None_iff image_iff)

lemma length_tretain_le: "length (tretain p m) \<le> length m"
  by (simp add: tretain_def)

lemma length_tput:
  "length (tput k v m) = (if k \<in> set (tkeys m) then length m else Suc (length m))"
proof -
  have "length (tput k v m) = length (tkeys (tput k v m))" by simp
  also have "\<dots> = (if k \<in> set (tkeys m) then length m else Suc (length m))"
    by (simp only: tkeys_tput) simp
  finally show ?thesis .
qed

lemma mset_tkeys_tdel:
  assumes "distinct (tkeys m)" and "k \<in> set (tkeys m)"
  shows "mset (tkeys m) = add_mset k (mset (tkeys (tdel k m)))"
proof -
  have "removeAll k (tkeys m) = remove1 k (tkeys m)"
    using assms(1) by (simp add: distinct_remove1_removeAll)
  then show ?thesis using assms(2) by (simp add: tkeys_tdel)
qed

lemma mset_tkeys_tput_new:
  "k \<notin> set (tkeys m) \<Longrightarrow> mset (tkeys (tput k v m)) = add_mset k (mset (tkeys m))"
  by (simp add: tkeys_tput)

lemma length_tdel_mem:
  assumes "distinct (tkeys m)" and "k \<in> set (tkeys m)"
  shows "length m = Suc (length (tdel k m))"
  using mset_tkeys_tdel [OF assms] by (metis length_map size_add_mset size_mset)

subsection \<open>Sums over a table\<close>

definition tsum :: "('k \<Rightarrow> 'v \<Rightarrow> nat) \<Rightarrow> ('k, 'v) table \<Rightarrow> nat" where
  "tsum f m = sum_list (map (\<lambda>(k, v). f k v) m)"

lemma tsum_Nil [simp]: "tsum f [] = 0"
  by (simp add: tsum_def)

lemma tsum_Cons [simp]: "tsum f (x # m) = f (fst x) (snd x) + tsum f m"
  by (simp add: tsum_def case_prod_unfold)

lemma tsum_tput_new:
  "k \<notin> set (tkeys m) \<Longrightarrow> tsum f (tput k v m) = tsum f m + f k v"
  by (induction m) auto

lemma tsum_tdel:
  "distinct (tkeys m) \<Longrightarrow> tget m k = Some v \<Longrightarrow> tsum f m = f k v + tsum f (tdel k m)"
proof (induction m)
  case Nil
  then show ?case by simp
next
  case (Cons x m)
  show ?case
  proof (cases "fst x = k")
    case True
    with Cons.prems have "snd x = v" and "k \<notin> fst ` set m" by auto
    with True show ?thesis by (cases x) (simp add: delete_id)
  next
    case False
    with Cons.prems have "tget m k = Some v" by (cases x) (auto split: if_splits)
    with Cons.IH Cons.prems(1) False show ?thesis by (cases x) simp
  qed
qed

lemma tsum_tmod_same:
  "(\<And>v. f k (g v) = f k v) \<Longrightarrow> tsum f (tmod k g m) = tsum f m"
  by (induction m) (auto simp: tmod_def)

lemma tsum_cong: "(\<And>k v. (k, v) \<in> set m \<Longrightarrow> f k v = g k v) \<Longrightarrow> tsum f m = tsum g m"
  by (induction m) auto

lemma tsum_le: "tget m k = Some v \<Longrightarrow> f k v \<le> tsum f m"
  by (induction m) (auto split: if_splits)

section \<open>Options and lists\<close>

text \<open>\<open>VecDeque::pop_front\<close> while a condition holds is \<open>dropWhile\<close>; on a sorted queue with
  a downward closed condition it keeps exactly the elements that do not satisfy it.\<close>

lemma dropWhile_sorted_filter:
  fixes q :: "nat list"
  assumes "sorted q" and "\<And>a b. p b \<Longrightarrow> a \<le> b \<Longrightarrow> p a"
  shows "dropWhile p q = filter (\<lambda>t. \<not> p t) q"
  using assms(1)
proof (induction q)
  case Nil
  then show ?case by simp
next
  case (Cons x q)
  show ?case
  proof (cases "p x")
    case True
    with Cons show ?thesis by simp
  next
    case False
    with Cons.prems have "\<forall>y \<in> set q. \<not> p y" using assms(2) by auto
    then have "filter (\<lambda>t. \<not> p t) q = q" by (simp add: filter_id_conv)
    with False show ?thesis by simp
  qed
qed

text \<open>\<open>iter().max_by_key(f)\<close> keeps the last of several maxima, \<open>min_by_key(f)\<close> the first of
  several minima.\<close>

fun max_by_key :: "('a \<Rightarrow> 'b :: linorder) \<Rightarrow> 'a list \<Rightarrow> 'a option" where
  "max_by_key f [] = None"
| "max_by_key f (x # xs) =
     (case max_by_key f xs of None \<Rightarrow> Some x | Some y \<Rightarrow> if f y < f x then Some x else Some y)"

fun min_by_key :: "('a \<Rightarrow> 'b :: linorder) \<Rightarrow> 'a list \<Rightarrow> 'a option" where
  "min_by_key f [] = None"
| "min_by_key f (x # xs) =
     (case min_by_key f xs of None \<Rightarrow> Some x | Some y \<Rightarrow> if f y < f x then Some y else Some x)"

lemma max_by_key_None [simp]: "max_by_key f xs = None \<longleftrightarrow> xs = []"
  by (cases xs) (auto split: option.splits)

lemma min_by_key_None [simp]: "min_by_key f xs = None \<longleftrightarrow> xs = []"
  by (cases xs) (auto split: option.splits)

lemma max_by_key_Some: "max_by_key f xs = Some y \<Longrightarrow> y \<in> set xs \<and> (\<forall>x \<in> set xs. f x \<le> f y)"
  by (induction xs arbitrary: y) (fastforce split: option.splits if_splits)+

lemma min_by_key_Some: "min_by_key f xs = Some y \<Longrightarrow> y \<in> set xs \<and> (\<forall>x \<in> set xs. f y \<le> f x)"
  by (induction xs arbitrary: y) (fastforce split: option.splits if_splits)+

text \<open>\<open>if let Some(x) = xs.iter_mut().find(p) { *x = f(x) }\<close>.\<close>

fun upd_first :: "('a \<Rightarrow> bool) \<Rightarrow> ('a \<Rightarrow> 'a) \<Rightarrow> 'a list \<Rightarrow> 'a list" where
  "upd_first p f [] = []"
| "upd_first p f (x # xs) = (if p x then f x # xs else x # upd_first p f xs)"

lemma length_upd_first [simp]: "length (upd_first p f xs) = length xs"
  by (induction xs) auto

lemma map_upd_first: "(\<And>x. p x \<Longrightarrow> g (f x) = g x) \<Longrightarrow> map g (upd_first p f xs) = map g xs"
  by (induction xs) auto

lemma set_upd_first: "x \<in> set (upd_first p f xs) \<Longrightarrow> x \<in> set xs \<or> (\<exists>y \<in> set xs. p y \<and> x = f y)"
  by (induction xs) (auto split: if_splits)

lemma upd_first_none: "(\<forall>x \<in> set xs. \<not> p x) \<Longrightarrow> upd_first p f xs = xs"
  by (induction xs) auto

end
