(* ===== verification/Hive_Core.thy ===== *)
theory Hive_Core
  imports Byte_Strings
begin

text \<open>
  The vocabulary of \<open>crates/hive-core\<close>: the lifecycles of cells and jobs (\<open>state.rs\<close>), the
  resource specification and the build job with its builder (\<open>job.rs\<close>), the build result
  and the log line (\<open>proto.rs\<close>). Identifiers (\<open>ids.rs\<close>) are newtypes over strings.
\<close>

type_synonym box_id = string
type_synonym cell_id = string
type_synonym job_id = string

section \<open>The lifecycle of a cell\<close>

datatype cell_state =
  Provisioning | Warm | Assigned | Running | Draining | Terminated | Cell_Failed

definition cell_is_terminal :: "cell_state \<Rightarrow> bool" where
  "cell_is_terminal s = (s = Terminated \<or> s = Cell_Failed)"

definition is_available :: "cell_state \<Rightarrow> bool" where
  "is_available s = (s = Warm)"

fun can_transition_to :: "cell_state \<Rightarrow> cell_state \<Rightarrow> bool" where
  "can_transition_to Provisioning Warm = True"
| "can_transition_to Provisioning Cell_Failed = True"
| "can_transition_to Warm Assigned = True"
| "can_transition_to Warm Draining = True"
| "can_transition_to Warm Cell_Failed = True"
| "can_transition_to Assigned Running = True"
| "can_transition_to Assigned Cell_Failed = True"
| "can_transition_to Running Draining = True"
| "can_transition_to Running Cell_Failed = True"
| "can_transition_to Draining Terminated = True"
| "can_transition_to Draining Cell_Failed = True"
| "can_transition_to a b = (a = b)"

lemma can_transition_refl [simp]: "can_transition_to a a"
  by (cases a) simp_all

text \<open>Every legal move except a self-loop strictly advances this rank.\<close>

fun cell_rank :: "cell_state \<Rightarrow> nat" where
  "cell_rank Provisioning = 0"
| "cell_rank Warm = 1"
| "cell_rank Assigned = 2"
| "cell_rank Running = 3"
| "cell_rank Draining = 4"
| "cell_rank Terminated = 5"
| "cell_rank Cell_Failed = 6"

lemma can_transition_rank: "can_transition_to a b \<Longrightarrow> a \<noteq> b \<Longrightarrow> cell_rank a < cell_rank b"
  by (cases a; cases b) simp_all

lemma cell_terminal_absorbing: "cell_is_terminal a \<Longrightarrow> can_transition_to a b \<Longrightarrow> b = a"
  by (cases a; cases b) (simp_all add: cell_is_terminal_def)

section \<open>The lifecycle of a job\<close>

datatype job_state =
  Queued | Scheduled | Building | Succeeded | Job_Failed | TimedOut | Canceled

fun job_is_terminal :: "job_state \<Rightarrow> bool" where
  "job_is_terminal Succeeded = True"
| "job_is_terminal Job_Failed = True"
| "job_is_terminal TimedOut = True"
| "job_is_terminal Canceled = True"
| "job_is_terminal _ = False"

text \<open>
  The order of the lifecycle diagram: \<open>s \<le> t\<close> when \<open>t\<close> is \<open>s\<close> or can come after it.
\<close>

fun job_rank :: "job_state \<Rightarrow> nat" where
  "job_rank Queued = 0"
| "job_rank Scheduled = 1"
| "job_rank Building = 2"
| "job_rank _ = 3"

instantiation job_state :: order
begin

definition less_job_state :: "job_state \<Rightarrow> job_state \<Rightarrow> bool" where
  "less_job_state s t = (job_rank s < job_rank t)"

definition less_eq_job_state :: "job_state \<Rightarrow> job_state \<Rightarrow> bool" where
  "less_eq_job_state s t = (s = t \<or> job_rank s < job_rank t)"

instance
  by standard (auto simp: less_job_state_def less_eq_job_state_def)

end

lemma job_terminal_rank: "job_is_terminal s \<longleftrightarrow> job_rank s = 3"
  by (cases s) simp_all

lemma job_terminal_maximal: "job_is_terminal s \<Longrightarrow> s \<le> t \<Longrightarrow> t = s"
  by (cases s; cases t) (simp_all add: less_eq_job_state_def)

lemma queued_least: "Queued \<le> (s :: job_state)"
  by (cases s) (simp_all add: less_eq_job_state_def)

section \<open>Resources and jobs\<close>

record resource_spec =
  vcpus :: nat
  mem_mib :: nat
  disk_mib :: nat
  timeout_secs :: nat

definition resource_default :: resource_spec where
  "resource_default = \<lparr>vcpus = 2, mem_mib = 2048, disk_mib = 8192, timeout_secs = 900\<rparr>"

definition satisfies :: "resource_spec \<Rightarrow> resource_spec \<Rightarrow> bool" where
  "satisfies self req =
     (vcpus self \<ge> vcpus req \<and> mem_mib self \<ge> mem_mib req \<and> disk_mib self \<ge> disk_mib req)"

lemma satisfies_refl [simp]: "satisfies r r"
  by (simp add: satisfies_def)

lemma satisfies_trans: "satisfies a b \<Longrightarrow> satisfies b c \<Longrightarrow> satisfies a c"
  by (auto simp: satisfies_def)

record build_job =
  job_id :: job_id
  job_image :: string
  job_repo :: string
  job_git_ref :: string
  job_commands :: "string list"
  job_env :: "(string, string) table"
  job_resources :: resource_spec
  job_cache_key :: "string option"
  job_cache_paths :: "string list"
  job_submitted_at_ms :: nat

record build_job_builder =
  bb_image :: string
  bb_repo :: string
  bb_git_ref :: string
  bb_commands :: "string list"
  bb_env :: "(string, string) table"
  bb_resources :: resource_spec
  bb_cache_key :: "string option"
  bb_cache_paths :: "string list"

definition builder :: "string \<Rightarrow> build_job_builder" where
  "builder img =
     \<lparr>bb_image = img, bb_repo = [], bb_git_ref = ''HEAD'', bb_commands = [], bb_env = [],
      bb_resources = resource_default, bb_cache_key = None, bb_cache_paths = []\<rparr>"

definition bb_with_repo :: "string \<Rightarrow> string \<Rightarrow> build_job_builder \<Rightarrow> build_job_builder" where
  "bb_with_repo repo git_ref b = b\<lparr>bb_repo := repo, bb_git_ref := git_ref\<rparr>"

definition bb_command :: "string \<Rightarrow> build_job_builder \<Rightarrow> build_job_builder" where
  "bb_command cmd b = b\<lparr>bb_commands := bb_commands b @ [cmd]\<rparr>"

definition bb_add_commands :: "string list \<Rightarrow> build_job_builder \<Rightarrow> build_job_builder" where
  "bb_add_commands cmds b = b\<lparr>bb_commands := bb_commands b @ cmds\<rparr>"

definition bb_with_env :: "string \<Rightarrow> string \<Rightarrow> build_job_builder \<Rightarrow> build_job_builder" where
  "bb_with_env k v b = b\<lparr>bb_env := tput k v (bb_env b)\<rparr>"

definition bb_with_resources :: "resource_spec \<Rightarrow> build_job_builder \<Rightarrow> build_job_builder" where
  "bb_with_resources r b = b\<lparr>bb_resources := r\<rparr>"

definition bb_cache :: "string \<Rightarrow> string list \<Rightarrow> build_job_builder \<Rightarrow> build_job_builder" where
  "bb_cache key paths b = b\<lparr>bb_cache_key := Some key, bb_cache_paths := paths\<rparr>"

text \<open>\<open>build()\<close>; the fresh identifier and the clock are arguments.\<close>

definition bb_build :: "job_id \<Rightarrow> nat \<Rightarrow> build_job_builder \<Rightarrow> build_job" where
  "bb_build fresh now b =
     \<lparr>job_id = fresh, job_image = bb_image b, job_repo = bb_repo b, job_git_ref = bb_git_ref b,
      job_commands = bb_commands b, job_env = bb_env b, job_resources = bb_resources b,
      job_cache_key = bb_cache_key b, job_cache_paths = bb_cache_paths b,
      job_submitted_at_ms = now\<rparr>"

lemma bb_commands_split:
  "bb_add_commands (xs @ ys) b = bb_add_commands ys (bb_add_commands xs b)"
  "bb_add_commands [x] b = bb_command x b"
  by (simp_all add: bb_add_commands_def bb_command_def)

section \<open>Results and log lines\<close>

datatype log_stream = Stdout | Stderr | System_Stream

record log_line =
  ts_ms :: nat
  stream :: log_stream
  line :: string

record build_result =
  br_job_id :: job_id
  br_exit_code :: int
  br_timed_out :: bool
  br_started_at_ms :: nat
  br_finished_at_ms :: nat

definition br_duration_ms :: "build_result \<Rightarrow> nat" where
  "br_duration_ms r = br_finished_at_ms r - br_started_at_ms r"

definition br_job_state :: "build_result \<Rightarrow> job_state" where
  "br_job_state r =
     (if br_timed_out r then TimedOut
      else if br_exit_code r = 0 then Succeeded
      else Job_Failed)"

lemma br_job_state_terminal [simp]: "job_is_terminal (br_job_state r)"
  by (simp add: br_job_state_def)

end
