(* ===== verification/Box_Ledger.thy ===== *)
theory Box_Ledger
  imports Hive_Core
begin

text \<open>
  The records of \<open>crates/hive-controlplane/src/records.rs\<close> (boxes, cells, jobs and their
  public views) and the configuration of \<open>config.rs\<close>. The locale \<open>ledger\<close> is the interface
  between a box and the scheduler: what reserving and releasing capacity promises, and the
  lemma that the scheduler needs of it, that the used amount of every box stays the sum over
  the cells placed on it. It is interpreted for the three amounts a box accounts for: vCPUs,
  memory and the number of cells.
\<close>

section \<open>Boxes\<close>

record box_record =
  b_id :: box_id
  vcpus_total :: nat
  mem_total_mib :: nat
  vcpus_used :: nat
  mem_used_mib :: nat
  b_cells :: nat
  b_warm_cells :: nat

record box_view =
  bv_id :: box_id
  bv_vcpus_total :: nat
  bv_vcpus_used :: nat
  bv_mem_total_mib :: nat
  bv_mem_used_mib :: nat
  bv_cells :: nat
  bv_warm_cells :: nat

definition vcpus_free :: "box_record \<Rightarrow> nat" where
  "vcpus_free b = vcpus_total b - vcpus_used b"

definition mem_free_mib :: "box_record \<Rightarrow> nat" where
  "mem_free_mib b = mem_total_mib b - mem_used_mib b"

definition can_fit :: "resource_spec \<Rightarrow> box_record \<Rightarrow> bool" where
  "can_fit r b = (vcpus_free b \<ge> vcpus r \<and> mem_free_mib b \<ge> mem_mib r)"

definition reserve :: "resource_spec \<Rightarrow> box_record \<Rightarrow> box_record" where
  "reserve r b = b\<lparr>vcpus_used := wadd32 (vcpus_used b) (vcpus r),
     mem_used_mib := wadd32 (mem_used_mib b) (mem_mib r), b_cells := b_cells b + 1\<rparr>"

definition release :: "resource_spec \<Rightarrow> box_record \<Rightarrow> box_record" where
  "release r b = b\<lparr>vcpus_used := vcpus_used b - vcpus r,
     mem_used_mib := mem_used_mib b - mem_mib r, b_cells := b_cells b - 1\<rparr>"

definition box_view_of :: "box_record \<Rightarrow> box_view" where
  "box_view_of b =
     \<lparr>bv_id = b_id b, bv_vcpus_total = vcpus_total b, bv_vcpus_used = vcpus_used b,
      bv_mem_total_mib = mem_total_mib b, bv_mem_used_mib = mem_used_mib b,
      bv_cells = b_cells b, bv_warm_cells = b_warm_cells b\<rparr>"

text \<open>A box never promises more than it has; the totals are \<open>u32\<close> values.\<close>

definition box_ok :: "box_record \<Rightarrow> bool" where
  "box_ok b \<longleftrightarrow> vcpus_used b \<le> vcpus_total b \<and> mem_used_mib b \<le> mem_total_mib b \<and>
     vcpus_total b < 2 ^ 32 \<and> mem_total_mib b < 2 ^ 32"

lemma reserve_simps [simp]:
  "b_id (reserve r b) = b_id b"
  "vcpus_total (reserve r b) = vcpus_total b"
  "mem_total_mib (reserve r b) = mem_total_mib b"
  "b_cells (reserve r b) = b_cells b + 1"
  by (simp_all add: reserve_def)

lemma release_simps [simp]:
  "b_id (release r b) = b_id b"
  "vcpus_total (release r b) = vcpus_total b"
  "mem_total_mib (release r b) = mem_total_mib b"
  "vcpus_used (release r b) = vcpus_used b - vcpus r"
  "mem_used_mib (release r b) = mem_used_mib b - mem_mib r"
  "b_cells (release r b) = b_cells b - 1"
  by (simp_all add: release_def)

lemma reserve_exact:
  assumes "box_ok b" and "can_fit r b"
  shows "vcpus_used (reserve r b) = vcpus_used b + vcpus r"
    and "mem_used_mib (reserve r b) = mem_used_mib b + mem_mib r"
  using assms by (auto simp: reserve_def box_ok_def can_fit_def vcpus_free_def mem_free_mib_def wrap_simps)

lemma box_ok_reserve: "box_ok b \<Longrightarrow> can_fit r b \<Longrightarrow> box_ok (reserve r b)"
  by (simp add: box_ok_def [of "reserve r b"] reserve_exact)
    (auto simp: box_ok_def can_fit_def vcpus_free_def mem_free_mib_def)

lemma box_ok_release: "box_ok b \<Longrightarrow> box_ok (release r b)"
  by (auto simp: box_ok_def)

lemma release_reserve: "box_ok b \<Longrightarrow> can_fit r b \<Longrightarrow> release r (reserve r b) = b"
  by (rule box_record.equality) (simp_all add: reserve_exact, simp_all add: reserve_def release_def)

section \<open>Cells and jobs\<close>

record cell_handle =
  ch_id :: cell_id
  ch_image :: string
  ch_resources :: resource_spec
  ch_root :: string
  ch_endpoint :: "string option"

record cell_record =
  c_id :: cell_id
  c_box_id :: box_id
  c_state :: cell_state
  c_image :: string
  c_resources :: resource_spec
  c_job :: "job_id option"
  c_created_at_ms :: nat
  c_became_warm_at_ms :: "nat option"
  c_handle :: "cell_handle option"

record cell_view =
  cv_id :: cell_id
  cv_box_id :: box_id
  cv_state :: cell_state
  cv_image :: string
  cv_resources :: resource_spec
  cv_job :: "job_id option"
  cv_created_at_ms :: nat

definition cell_view_of :: "cell_record \<Rightarrow> cell_view" where
  "cell_view_of c =
     \<lparr>cv_id = c_id c, cv_box_id = c_box_id c, cv_state = c_state c, cv_image = c_image c,
      cv_resources = c_resources c, cv_job = c_job c, cv_created_at_ms = c_created_at_ms c\<rparr>"

record job_record =
  jr_job :: build_job
  jr_state :: job_state
  jr_assigned_cell :: "cell_id option"
  jr_assigned_box :: "box_id option"
  jr_scheduled_at_ms :: "nat option"
  jr_started_at_ms :: "nat option"
  jr_finished_at_ms :: "nat option"
  jr_exit_code :: "int option"
  jr_provision_latency_ms :: "nat option"

record job_view =
  jv_id :: job_id
  jv_state :: job_state
  jv_image :: string
  jv_assigned_cell :: "cell_id option"
  jv_assigned_box :: "box_id option"
  jv_submitted_at_ms :: nat
  jv_scheduled_at_ms :: "nat option"
  jv_finished_at_ms :: "nat option"
  jv_exit_code :: "int option"
  jv_provision_latency_ms :: "nat option"

definition job_record_new :: "build_job \<Rightarrow> job_record" where
  "job_record_new job =
     \<lparr>jr_job = job, jr_state = Queued, jr_assigned_cell = None, jr_assigned_box = None,
      jr_scheduled_at_ms = None, jr_started_at_ms = None, jr_finished_at_ms = None,
      jr_exit_code = None, jr_provision_latency_ms = None\<rparr>"

definition job_view_of :: "job_record \<Rightarrow> job_view" where
  "job_view_of jr =
     \<lparr>jv_id = job_id (jr_job jr), jv_state = jr_state jr, jv_image = job_image (jr_job jr),
      jv_assigned_cell = jr_assigned_cell jr, jv_assigned_box = jr_assigned_box jr,
      jv_submitted_at_ms = job_submitted_at_ms (jr_job jr),
      jv_scheduled_at_ms = jr_scheduled_at_ms jr, jv_finished_at_ms = jr_finished_at_ms jr,
      jv_exit_code = jr_exit_code jr, jv_provision_latency_ms = jr_provision_latency_ms jr\<rparr>"

section \<open>Configuration\<close>

record box_config =
  bc_vcpus :: nat
  bc_mem_mib :: nat

definition box_config_default :: box_config where
  "box_config_default = \<lparr>bc_vcpus = 16, bc_mem_mib = 32 * 1024\<rparr>"

text \<open>\<open>warm_targets\<close> is a \<open>BTreeMap\<close>: a table in key order. Durations are in milliseconds.\<close>

record hive_config =
  hive_id :: string
  cfg_boxes :: "box_config list"
  warm_targets :: "(string, nat) table"
  default_warm_target :: nat
  warm_spec :: resource_spec
  warm_idle_ttl_ms :: nat
  max_concurrent_builds :: nat
  autoscaler_interval_ms :: nat

definition hive_config_default :: hive_config where
  "hive_config_default =
     \<lparr>hive_id = ''hive-local'', cfg_boxes = [box_config_default, box_config_default],
      warm_targets = [], default_warm_target = 2, warm_spec = resource_default,
      warm_idle_ttl_ms = 120000, max_concurrent_builds = 8, autoscaler_interval_ms = 500\<rparr>"

definition warm_target_for :: "hive_config \<Rightarrow> string \<Rightarrow> nat" where
  "warm_target_for cfg img =
     (case tget (warm_targets cfg) img of Some n \<Rightarrow> n | None \<Rightarrow> default_warm_target cfg)"

definition warm_images :: "hive_config \<Rightarrow> string list" where
  "warm_images cfg = tkeys (warm_targets cfg)"

section \<open>The ledger interface\<close>

text \<open>\<open>fits\<close>, \<open>reserve'\<close> and \<open>release'\<close> are the operations the scheduler calls, \<open>used\<close> is one
  amount a box accounts for and \<open>amount\<close> what one resource request takes of it.\<close>

locale ledger =
  fixes ident :: "'b \<Rightarrow> 'i"
    and used :: "'b \<Rightarrow> nat"
    and ok :: "'b \<Rightarrow> bool"
    and fits :: "'r \<Rightarrow> 'b \<Rightarrow> bool"
    and reserve' :: "'r \<Rightarrow> 'b \<Rightarrow> 'b"
    and release' :: "'r \<Rightarrow> 'b \<Rightarrow> 'b"
    and amount :: "'r \<Rightarrow> nat"
    and box_of :: "'c \<Rightarrow> 'i"
    and needs :: "'c \<Rightarrow> 'r"
  assumes ident_reserve: "ident (reserve' r b) = ident b"
    and ident_release: "ident (release' r b) = ident b"
    and used_reserve: "ok b \<Longrightarrow> fits r b \<Longrightarrow> used (reserve' r b) = used b + amount r"
    and used_release: "used (release' r b) = used b - amount r"
begin

definition charged :: "('k, 'c) table \<Rightarrow> 'b \<Rightarrow> nat" where
  "charged cells b = tsum (\<lambda>_ c. if box_of c = ident b then amount (needs c) else 0) cells"

definition exact :: "'b list \<Rightarrow> ('k, 'c) table \<Rightarrow> bool" where
  "exact boxes cells \<longleftrightarrow> (\<forall>b \<in> set boxes. used b = charged cells b)"

lemma charged_ident: "ident b = ident b' \<Longrightarrow> charged cells b = charged cells b'"
  by (simp add: charged_def)

lemma charged_put:
  "k \<notin> set (tkeys cells) \<Longrightarrow>
    charged (tput k c cells) b = charged cells b + (if box_of c = ident b then amount (needs c) else 0)"
  by (simp add: charged_def tsum_tput_new)

lemma charged_del:
  "distinct (tkeys cells) \<Longrightarrow> tget cells k = Some c \<Longrightarrow>
    charged cells b = (if box_of c = ident b then amount (needs c) else 0) + charged (tdel k cells) b"
  by (simp add: charged_def tsum_tdel)

lemma exact_reserve:
  assumes ex: "exact boxes cells" and i: "i < length boxes"
    and ok: "ok (boxes ! i)" "fits (needs c) (boxes ! i)"
    and dist: "distinct (map ident boxes)" and k: "k \<notin> set (tkeys cells)"
    and c: "box_of c = ident (boxes ! i)"
  shows "exact (boxes[i := reserve' (needs c) (boxes ! i)]) (tput k c cells)"
  unfolding exact_def
proof
  fix b
  assume "b \<in> set (boxes[i := reserve' (needs c) (boxes ! i)])"
  then obtain j where j: "j < length boxes" and b: "b = boxes[i := reserve' (needs c) (boxes ! i)] ! j"
    by (metis in_set_conv_nth length_list_update)
  show "used b = charged (tput k c cells) b"
  proof (cases "j = i")
    case True
    with b i have b': "b = reserve' (needs c) (boxes ! i)" by simp
    have "charged cells b = charged cells (boxes ! i)"
      by (rule charged_ident) (simp add: b' ident_reserve)
    then have "charged (tput k c cells) b = charged cells (boxes ! i) + amount (needs c)"
      using c k b' by (simp add: charged_put ident_reserve)
    then show ?thesis
      using ex i ok b' by (simp add: exact_def used_reserve)
  next
    case False
    with b j have b': "b = boxes ! j" by simp
    then have "ident b \<noteq> box_of c"
      using False dist i j c by (simp add: distinct_conv_nth)
    then show ?thesis using ex j b' k by (simp add: exact_def charged_put)
  qed
qed

lemma exact_release:
  assumes ex: "exact boxes cells" and dist: "distinct (map ident boxes)"
    and keys: "distinct (tkeys cells)" and k: "tget cells k = Some c"
  shows "exact (upd_first (\<lambda>b. ident b = box_of c) (release' (needs c)) boxes) (tdel k cells)"
proof -
  have "used b' = charged (tdel k cells) b'"
    if "\<forall>b \<in> set bs. used b = charged cells b" "distinct (map ident bs)"
      "b' \<in> set (upd_first (\<lambda>b. ident b = box_of c) (release' (needs c)) bs)" for bs b'
    using that
  proof (induction bs)
    case Nil
    then show ?case by simp
  next
    case (Cons x bs)
    show ?case
    proof (cases "ident x = box_of c")
      case True
      have rest: "used b = charged (tdel k cells) b" if "b \<in> set bs" for b
      proof -
        have "ident b \<noteq> box_of c" using that True Cons.prems(2) by (metis distinct.simps(2) image_eqI list.set_map list.simps(9))
        then show ?thesis
          using that Cons.prems(1) charged_del [OF keys k, of b] by simp
      qed
      have "used (release' (needs c) x) = charged (tdel k cells) (release' (needs c) x)"
        using Cons.prems(1) True charged_del [OF keys k, of x]
        by (simp add: used_release charged_ident [of "release' (needs c) x" x] ident_release)
      with rest True Cons.prems(3) show ?thesis by auto
    next
      case False
      then show ?thesis
        using Cons charged_del [OF keys k, of x] by auto
    qed
  qed
  then show ?thesis using ex dist by (simp add: exact_def)
qed

lemma exact_tmod:
  "(\<And>c. box_of (f c) = box_of c) \<Longrightarrow> (\<And>c. needs (f c) = needs c) \<Longrightarrow>
    exact boxes (tmod k f cells) = exact boxes cells"
  by (simp add: exact_def charged_def tsum_tmod_same)

lemma exact_empty: "exact boxes [] \<longleftrightarrow> (\<forall>b \<in> set boxes. used b = 0)"
  by (simp add: exact_def charged_def)

end

interpretation cpu: ledger b_id vcpus_used box_ok can_fit reserve release vcpus c_box_id c_resources
  by unfold_locales (simp_all add: reserve_exact)

interpretation mem: ledger b_id mem_used_mib box_ok can_fit reserve release mem_mib c_box_id c_resources
  by unfold_locales (simp_all add: reserve_exact)

definition one_slot :: "resource_spec \<Rightarrow> nat" where
  "one_slot r = 1"

interpretation slots: ledger b_id b_cells box_ok can_fit reserve release one_slot c_box_id c_resources
  by unfold_locales (simp_all add: one_slot_def)

definition ledger_exact :: "box_record list \<Rightarrow> (cell_id, cell_record) table \<Rightarrow> bool" where
  "ledger_exact bs cells \<longleftrightarrow>
     distinct (map b_id bs) \<and> (\<forall>b \<in> set bs. box_ok b) \<and>
     cpu.exact bs cells \<and> mem.exact bs cells \<and> slots.exact bs cells"

lemma ledger_exact_reserve:
  assumes "ledger_exact bs cells" and "i < length bs" and "can_fit (c_resources c) (bs ! i)"
    and "k \<notin> set (tkeys cells)" and "c_box_id c = b_id (bs ! i)"
  shows "ledger_exact (bs[i := reserve (c_resources c) (bs ! i)]) (tput k c cells)"
proof -
  have ok: "box_ok (bs ! i)" and d: "distinct (map b_id bs)"
    and e: "cpu.exact bs cells" "mem.exact bs cells" "slots.exact bs cells"
    using assms(1,2) by (auto simp: ledger_exact_def)
  have "map b_id (bs[i := reserve (c_resources c) (bs ! i)]) = map b_id bs"
    using assms(2) by (simp add: map_update list_update_same_conv)
  moreover have "\<forall>b \<in> set (bs[i := reserve (c_resources c) (bs ! i)]). box_ok b"
    using assms(1,3) ok by (auto simp: ledger_exact_def box_ok_reserve dest!: set_update_subset_insert [THEN subsetD])
  ultimately show ?thesis
    unfolding ledger_exact_def
    using cpu.exact_reserve [OF e(1) assms(2) ok assms(3) d assms(4,5)]
      mem.exact_reserve [OF e(2) assms(2) ok assms(3) d assms(4,5)]
      slots.exact_reserve [OF e(3) assms(2) ok assms(3) d assms(4,5)] d by simp
qed

lemma ledger_exact_release:
  assumes "ledger_exact bs cells" and "distinct (tkeys cells)" and "tget cells k = Some c"
  shows "ledger_exact (upd_first (\<lambda>b. b_id b = c_box_id c) (release (c_resources c)) bs) (tdel k cells)"
proof -
  have d: "distinct (map b_id bs)"
    and e: "cpu.exact bs cells" "mem.exact bs cells" "slots.exact bs cells"
    using assms(1) by (auto simp: ledger_exact_def)
  have "map b_id (upd_first (\<lambda>b. b_id b = c_box_id c) (release (c_resources c)) bs) = map b_id bs"
    by (rule map_upd_first) simp
  moreover have "\<forall>b \<in> set (upd_first (\<lambda>b. b_id b = c_box_id c) (release (c_resources c)) bs). box_ok b"
    using assms(1) by (auto simp: ledger_exact_def box_ok_release dest!: set_upd_first)
  ultimately show ?thesis
    unfolding ledger_exact_def
    using cpu.exact_release [OF e(1) d assms(2,3)] mem.exact_release [OF e(2) d assms(2,3)]
      slots.exact_release [OF e(3) d assms(2,3)] d by simp
qed

lemma ledger_exact_tmod:
  "(\<And>c. c_box_id (f c) = c_box_id c) \<Longrightarrow> (\<And>c. c_resources (f c) = c_resources c) \<Longrightarrow>
    ledger_exact bs (tmod k f cells) = ledger_exact bs cells"
  by (simp add: ledger_exact_def cpu.exact_tmod mem.exact_tmod slots.exact_tmod)

end
