(* ===== verification/Log_Bus.thy ===== *)
theory Log_Bus
  imports Hive_Core
begin

text \<open>
  The per-job replay buffer of \<open>crates/hive-controlplane/src/logbus.rs\<close>: a ring of log
  lines bounded in lines and in bytes. The broadcast channel for live subscribers is
  tokio's and is not modelled; what a late reader is given (\<open>snapshot\<close>, the backlog of
  \<open>subscribe\<close>) is.
\<close>

section \<open>State and operations\<close>

record ring =
  r_lines :: "log_line list"
  r_bytes :: nat
  r_dropped_lines :: nat
  r_dropped_bytes :: nat

record log_bus =
  lb_ring :: ring
  lb_done :: bool
  lb_warned :: bool

definition MAX_LINES :: nat where
  "MAX_LINES = 5000"

definition MAX_BYTES :: nat where
  "MAX_BYTES = 4 * 1024 * 1024"

text \<open>The environment variable is an argument: \<open>None\<close> when it is not set.\<close>

definition env_usize :: "string option \<Rightarrow> nat \<Rightarrow> nat" where
  "env_usize var default_value =
     (case Option.bind var parse_u64 of
        None \<Rightarrow> default_value
      | Some v \<Rightarrow> if v > 0 then v else default_value)"

definition max_lines :: "string option \<Rightarrow> nat" where
  "max_lines var = env_usize var MAX_LINES"

definition max_bytes :: "string option \<Rightarrow> nat" where
  "max_bytes var = env_usize var MAX_BYTES"

definition ring_default :: ring where
  "ring_default = \<lparr>r_lines = [], r_bytes = 0, r_dropped_lines = 0, r_dropped_bytes = 0\<rparr>"

definition log_bus_new :: log_bus where
  "log_bus_new = \<lparr>lb_ring = ring_default, lb_done = False, lb_warned = False\<rparr>"

text \<open>The \<open>while\<close> loop of \<open>push\<close>: pop from the front while a bound is exceeded. The last
  argument and the second result are \<open>evicted_any\<close>.\<close>

fun ring_evict :: "nat \<Rightarrow> nat \<Rightarrow> log_line list \<Rightarrow> nat \<Rightarrow> nat \<Rightarrow> nat \<Rightarrow> bool \<Rightarrow> ring \<times> bool" where
  "ring_evict max_l max_b [] b dl db ev =
     (\<lparr>r_lines = [], r_bytes = b, r_dropped_lines = dl, r_dropped_bytes = db\<rparr>, ev)"
| "ring_evict max_l max_b (old # ls) b dl db ev =
     (if length (old # ls) > max_l \<or> (b > max_b \<and> length (old # ls) > 1)
      then ring_evict max_l max_b ls (b - length (line old)) (dl + 1) (db + length (line old)) True
      else (\<lparr>r_lines = old # ls, r_bytes = b, r_dropped_lines = dl, r_dropped_bytes = db\<rparr>, ev))"

definition ring_push :: "nat \<Rightarrow> nat \<Rightarrow> log_line \<Rightarrow> ring \<Rightarrow> ring \<times> bool" where
  "ring_push max_l max_b l r =
     ring_evict max_l max_b (r_lines r @ [l]) (r_bytes r + length (line l))
       (r_dropped_lines r) (r_dropped_bytes r) False"

text \<open>\<open>push\<close>: the second result is \<open>first_drop\<close>, whether the warning is logged.\<close>

definition lb_push :: "nat \<Rightarrow> nat \<Rightarrow> log_line \<Rightarrow> log_bus \<Rightarrow> log_bus \<times> bool" where
  "lb_push max_l max_b l bus =
     (let (r, evicted_any) = ring_push max_l max_b l (lb_ring bus)
      in (bus\<lparr>lb_ring := r, lb_warned := lb_warned bus \<or> evicted_any\<rparr>,
          evicted_any \<and> \<not> lb_warned bus))"

definition lb_mark_done :: "log_bus \<Rightarrow> log_bus" where
  "lb_mark_done bus = bus\<lparr>lb_done := True\<rparr>"

definition lb_is_done :: "log_bus \<Rightarrow> bool" where
  "lb_is_done bus = lb_done bus"

definition lb_dropped :: "log_bus \<Rightarrow> nat \<times> nat" where
  "lb_dropped bus = (r_dropped_lines (lb_ring bus), r_dropped_bytes (lb_ring bus))"

definition lb_retained_bytes :: "log_bus \<Rightarrow> nat" where
  "lb_retained_bytes bus = r_bytes (lb_ring bus)"

definition drop_marker :: "ring \<Rightarrow> log_line" where
  "drop_marker r =
     \<lparr>ts_ms = (case r_lines r of [] \<Rightarrow> 0 | l # _ \<Rightarrow> ts_ms l), stream = System_Stream,
      line = ''[hive: '' @ nat_to_string (r_dropped_lines r) @ '' earlier line(s) / ''
        @ nat_to_string (r_dropped_bytes r) @ '' bytes dropped ''
        @ map char_of [226, 128, 148 :: nat] @ '' replay buffer bound reached]''\<rparr>"

definition materialize :: "ring \<Rightarrow> log_line list" where
  "materialize r = (if r_dropped_lines r > 0 then [drop_marker r] else []) @ r_lines r"

definition lb_snapshot :: "log_bus \<Rightarrow> log_line list" where
  "lb_snapshot bus = materialize (lb_ring bus)"

fun lb_push_all :: "nat \<Rightarrow> nat \<Rightarrow> log_line list \<Rightarrow> log_bus \<Rightarrow> log_bus" where
  "lb_push_all max_l max_b [] bus = bus"
| "lb_push_all max_l max_b (l # ls) bus = lb_push_all max_l max_b ls (fst (lb_push max_l max_b l bus))"

section \<open>The invariant\<close>

definition line_bytes :: "log_line list \<Rightarrow> nat" where
  "line_bytes ls = sum_list (map (\<lambda>l. length (line l)) ls)"

lemma line_bytes_simps [simp]:
  "line_bytes [] = 0"
  "line_bytes (l # ls) = length (line l) + line_bytes ls"
  "line_bytes (ls @ ms) = line_bytes ls + line_bytes ms"
  by (simp_all add: line_bytes_def)

text \<open>What a ring says of the lines pushed so far: it holds a suffix of them, its byte gauge
  is exact, and its two counters account for all that is missing.\<close>

definition ring_ok :: "log_line list \<Rightarrow> ring \<Rightarrow> bool" where
  "ring_ok pushed r \<longleftrightarrow>
     r_bytes r = line_bytes (r_lines r) \<and>
     r_lines r = drop (r_dropped_lines r) pushed \<and>
     r_dropped_lines r \<le> length pushed \<and>
     r_dropped_bytes r = line_bytes (take (r_dropped_lines r) pushed)"

definition ring_bounded :: "nat \<Rightarrow> nat \<Rightarrow> ring \<Rightarrow> bool" where
  "ring_bounded max_l max_b r \<longleftrightarrow>
     length (r_lines r) \<le> max_l \<and> (r_bytes r \<le> max_b \<or> length (r_lines r) \<le> 1)"

lemma ring_ok_default [simp]: "ring_ok [] ring_default"
  by (simp add: ring_ok_def ring_default_def)

lemma ring_evict_ok:
  assumes "ls = drop dl pushed" and "dl \<le> length pushed" and "b = line_bytes ls"
    and "db = line_bytes (take dl pushed)"
  shows "ring_ok pushed (fst (ring_evict max_l max_b ls b dl db ev))"
  using assms
proof (induction max_l max_b ls b dl db ev rule: ring_evict.induct)
  case (1 max_l max_b b dl db ev)
  then show ?case by (simp add: ring_ok_def)
next
  case (2 max_l max_b old ls b dl db ev)
  have lt: "dl < length pushed"
    using 2(2) by (cases "dl < length pushed") simp_all
  then have nth: "old = pushed ! dl" and dr: "ls = drop (Suc dl) pushed"
    using 2(2) by (metis Cons_nth_drop_Suc list.inject)+
  have tk: "take (Suc dl) pushed = take dl pushed @ [old]"
    using lt nth by (simp add: take_Suc_conv_app_nth)
  show ?case
  proof (cases "length (old # ls) > max_l \<or> (b > max_b \<and> length (old # ls) > 1)")
    case True
    have "ring_ok pushed
        (fst (ring_evict max_l max_b ls (b - length (line old)) (dl + 1) (db + length (line old)) True))"
      by (rule "2.IH" [OF True]) (use dr lt tk 2(4,5) in auto)
    with True show ?thesis by simp
  next
    case False
    then have "fst (ring_evict max_l max_b (old # ls) b dl db ev) =
        \<lparr>r_lines = old # ls, r_bytes = b, r_dropped_lines = dl, r_dropped_bytes = db\<rparr>"
      by simp
    then show ?thesis
      using 2(2-5) by (simp only: ring_ok_def ring.simps simp_thms)
  qed
qed

lemma ring_evict_bounded:
  "ring_bounded max_l max_b (fst (ring_evict max_l max_b ls b dl db ev))"
  by (induction max_l max_b ls b dl db ev rule: ring_evict.induct) (auto simp: ring_bounded_def)

lemma ring_push_ok:
  assumes "ring_ok pushed r"
  shows "ring_ok (pushed @ [l]) (fst (ring_push max_l max_b l r))"
  unfolding ring_push_def
  by (rule ring_evict_ok) (use assms in \<open>auto simp: ring_ok_def\<close>)

lemma lb_push_ring: "lb_ring (fst (lb_push max_l max_b l bus)) = fst (ring_push max_l max_b l (lb_ring bus))"
  by (simp add: lb_push_def case_prod_unfold Let_def)

lemma lb_push_all_ok:
  "ring_ok pushed (lb_ring bus) \<Longrightarrow>
    ring_ok (pushed @ ls) (lb_ring (lb_push_all max_l max_b ls bus))"
proof (induction ls arbitrary: pushed bus)
  case Nil
  then show ?case by simp
next
  case (Cons l ls)
  then have "ring_ok (pushed @ [l]) (lb_ring (fst (lb_push max_l max_b l bus)))"
    by (simp add: lb_push_ring ring_push_ok)
  from Cons.IH [OF this] show ?case by simp
qed

lemma lb_push_all_bounded:
  "ls \<noteq> [] \<Longrightarrow> ring_bounded max_l max_b (lb_ring (lb_push_all max_l max_b ls bus))"
proof (induction ls arbitrary: bus)
  case Nil
  then show ?case by simp
next
  case (Cons l ls)
  show ?case
  proof (cases "ls = []")
    case True
    then show ?thesis
      by (simp add: lb_push_ring ring_push_def ring_evict_bounded)
  next
    case False
    then show ?thesis using Cons.IH by simp
  qed
qed

end
