(* ===== verification/Control_Plane.thy ===== *)
theory Control_Plane
  imports Box_Ledger Log_Bus
begin

text \<open>
  The orchestrator of \<open>crates/hive-controlplane/src/lib.rs\<close>: job queue, placement, warm pool,
  cell and job lifecycle. Every critical section under the \<open>Inner\<close> lock is one function; a
  spawned or suspended future is a \<open>task\<close> of the state, named after the point where it waits.
  Fresh identifiers, the clock and the answers of the cell backend are arguments.
  The \<open>wake\<close> notification only shortens the time to the next scheduler pass, which also runs
  on a timer, so it carries no state here.
\<close>

section \<open>State\<close>

record inner =
  boxes :: "box_record list"
  cells :: "(cell_id, cell_record) table"
  jobs :: "(job_id, job_record) table"
  queue :: "job_id list"
  warm :: "(string, cell_id list) table"
  warm_pending :: "(string, nat) table"
  running_builds :: nat

datatype decision =
    Idle
  | Run job_id cell_id bool

datatype task =
    Run_Cell job_id cell_id bool        \<comment> \<open>\<open>run_cell\<close> spawned by \<open>schedule_pass\<close>\<close>
  | Await_Provision job_id cell_id      \<comment> \<open>\<open>run_cell\<close> in \<open>backend.provision().await\<close>\<close>
  | Fail_Provision job_id cell_id string  \<comment> \<open>about to call \<open>fail_provision\<close>\<close>
  | After_Fail                          \<comment> \<open>\<open>fail_provision\<close> before its reap\<close>
  | Build_Phase job_id cell_id          \<comment> \<open>about to enter \<open>run_build_phase\<close>\<close>
  | Await_Build job_id cell_id cell_handle  \<comment> \<open>in \<open>backend.run_build().await\<close>\<close>
  | After_Build cell_id                 \<comment> \<open>job recorded, before the reap\<close>
  | Teardown_Cell cell_id               \<comment> \<open>about to call \<open>teardown_cell\<close>\<close>
  | Await_Terminate cell_id             \<comment> \<open>in \<open>backend.terminate().await\<close>\<close>
  | Provision_Warm string cell_id       \<comment> \<open>\<open>provision_warm\<close> spawned\<close>
  | Await_Warm string cell_id           \<comment> \<open>\<open>provision_warm\<close> in \<open>backend.provision().await\<close>\<close>
  | Teardown_Warm cell_id               \<comment> \<open>\<open>teardown_warm\<close> spawned\<close>
  | Await_Warm_Terminate cell_id        \<comment> \<open>in \<open>backend.terminate().await\<close>\<close>

record hive =
  h_inner :: inner
  h_logs :: "(job_id, log_bus) table"
  h_tasks :: "task list"

text \<open>The bounds the code reads from the environment.\<close>

record limits =
  retained_jobs :: nat
  bus_lines :: nat
  bus_bytes :: nat

definition MAX_RETAINED_FINISHED_JOBS :: nat where
  "MAX_RETAINED_FINISHED_JOBS = 200"

definition max_retained_finished_jobs :: "string option \<Rightarrow> nat" where
  "max_retained_finished_jobs var = env_usize var MAX_RETAINED_FINISHED_JOBS"

section \<open>Start and submit\<close>

text \<open>\<open>Hive::start\<close>; the list of identifiers is what \<open>BoxId::new\<close> returns for each box.\<close>

definition box_of_config :: "box_id \<Rightarrow> box_config \<Rightarrow> box_record" where
  "box_of_config i bc =
     \<lparr>b_id = i, vcpus_total = bc_vcpus bc, mem_total_mib = bc_mem_mib bc, vcpus_used = 0,
      mem_used_mib = 0, b_cells = 0, b_warm_cells = 0\<rparr>"

definition start :: "hive_config \<Rightarrow> box_id list \<Rightarrow> hive" where
  "start cfg ids =
     \<lparr>h_inner = \<lparr>boxes = map2 box_of_config ids (cfg_boxes cfg), cells = [], jobs = [], queue = [],
        warm = [], warm_pending = [], running_builds = 0\<rparr>,
      h_logs = [], h_tasks = []\<rparr>"

definition logs_or_insert :: "job_id \<Rightarrow> (job_id, log_bus) table \<Rightarrow> (job_id, log_bus) table" where
  "logs_or_insert j logs = (case tget logs j of None \<Rightarrow> tput j log_bus_new logs | Some _ \<Rightarrow> logs)"

definition submit_inner :: "build_job \<Rightarrow> inner \<Rightarrow> inner" where
  "submit_inner job s = s\<lparr>jobs := tput (job_id job) (job_record_new job) (jobs s),
     queue := queue s @ [job_id job]\<rparr>"

definition submit :: "build_job \<Rightarrow> hive \<Rightarrow> hive" where
  "submit job h = h\<lparr>h_inner := submit_inner job (h_inner h),
     h_logs := logs_or_insert (job_id job) (h_logs h)\<rparr>"

definition get_job_view :: "job_id \<Rightarrow> hive \<Rightarrow> job_view option" where
  "get_job_view j h = map_option job_view_of (tget (jobs (h_inner h)) j)"

definition logs_done :: "job_id \<Rightarrow> hive \<Rightarrow> bool" where
  "logs_done j h = (case tget (h_logs h) j of None \<Rightarrow> False | Some b \<Rightarrow> lb_is_done b)"

definition log_retention_bytes :: "hive \<Rightarrow> nat" where
  "log_retention_bytes h = sum_list (map (\<lambda>(_, b). lb_retained_bytes b) (h_logs h))"

definition retained_job_counts :: "hive \<Rightarrow> nat \<times> nat" where
  "retained_job_counts h = (length (jobs (h_inner h)), length (h_logs h))"

section \<open>Placement\<close>

definition pick_box :: "resource_spec \<Rightarrow> box_record list \<Rightarrow> nat option" where
  "pick_box r bs =
     map_option fst (max_by_key (\<lambda>(_, b). vcpus_free b)
       (filter (\<lambda>(_, b). can_fit r b) (enumerate 0 bs)))"

definition warm_fits :: "resource_spec \<Rightarrow> (cell_id, cell_record) table \<Rightarrow> cell_id \<Rightarrow> bool" where
  "warm_fits req cs cid =
     (case tget cs cid of None \<Rightarrow> False
      | Some c \<Rightarrow> c_state c = Warm \<and> satisfies (c_resources c) req)"

definition take_warm :: "string \<Rightarrow> resource_spec \<Rightarrow> inner \<Rightarrow> (cell_id \<times> inner) option" where
  "take_warm img req s =
     (case tget (warm s) img of
        None \<Rightarrow> None
      | Some pool \<Rightarrow>
          (case List.extract (warm_fits req (cells s)) pool of
             None \<Rightarrow> None
           | Some (front, cid, back) \<Rightarrow> Some (cid, s\<lparr>warm := tput img (front @ back) (warm s)\<rparr>)))"

definition assign_cell :: "job_id \<Rightarrow> bool \<Rightarrow> cell_record \<Rightarrow> cell_record" where
  "assign_cell j cold c =
     (if cold then c\<lparr>c_job := Some j\<rparr> else c\<lparr>c_state := Assigned, c_job := Some j\<rparr>)"

definition assign :: "nat \<Rightarrow> job_id \<Rightarrow> cell_id \<Rightarrow> bool \<Rightarrow> inner \<Rightarrow> inner" where
  "assign now j cid cold s =
     (let cs = tmod cid (assign_cell j cold) (cells s)
      in s\<lparr>cells := cs,
           jobs := tmod j (\<lambda>jr. jr\<lparr>jr_state := Scheduled, jr_assigned_cell := Some cid,
             jr_assigned_box := map_option c_box_id (tget cs cid),
             jr_scheduled_at_ms := Some now\<rparr>) (jobs s)\<rparr>)"

definition new_cell :: "cell_id \<Rightarrow> box_id \<Rightarrow> string \<Rightarrow> resource_spec \<Rightarrow> job_id option \<Rightarrow> nat \<Rightarrow> cell_record" where
  "new_cell cid bid img req j now =
     \<lparr>c_id = cid, c_box_id = bid, c_state = Provisioning, c_image = img, c_resources = req,
      c_job = j, c_created_at_ms = now, c_became_warm_at_ms = None, c_handle = None\<rparr>"

text \<open>Reserve on box \<open>i\<close> and insert a provisioning cell: common to the cold path of
  \<open>decide_one\<close> and to the scale-up of \<open>reconcile_warm_pool\<close>.\<close>

definition place_cell :: "nat \<Rightarrow> cell_id \<Rightarrow> string \<Rightarrow> resource_spec \<Rightarrow> job_id option \<Rightarrow> nat \<Rightarrow> inner \<Rightarrow> inner" where
  "place_cell i cid img req j now s =
     s\<lparr>boxes := (boxes s)[i := reserve req (boxes s ! i)],
       cells := tput cid (new_cell cid (b_id (boxes s ! i)) img req j now) (cells s)\<rparr>"

text \<open>The \<open>for idx in 0..qlen\<close> loop of \<open>decide_one\<close>: \<open>before\<close> is the part of the queue already
  passed over, the list argument the part still to look at.\<close>

fun decide_scan :: "nat \<Rightarrow> cell_id \<Rightarrow> job_id list \<Rightarrow> job_id list \<Rightarrow> inner \<Rightarrow> decision \<times> inner" where
  "decide_scan now fresh before [] s = (Idle, s)"
| "decide_scan now fresh before (j # rest) s =
     (case tget (jobs s) j of
        None \<Rightarrow> decide_scan now fresh (before @ [j]) rest s
      | Some jr \<Rightarrow>
          (let img = job_image (jr_job jr); req = job_resources (jr_job jr)
           in (case take_warm img req s of
                 Some (cid, s1) \<Rightarrow>
                   (let s2 = assign now j cid False (s1\<lparr>queue := before @ rest\<rparr>)
                    in (Run j cid True, s2\<lparr>running_builds := running_builds s2 + 1\<rparr>))
               | None \<Rightarrow>
                   (case pick_box req (boxes s) of
                      Some i \<Rightarrow>
                        (let s1 = place_cell i fresh img req (Some j) now s;
                             s2 = assign now j fresh True (s1\<lparr>queue := before @ rest\<rparr>)
                         in (Run j fresh False, s2\<lparr>running_builds := running_builds s2 + 1\<rparr>))
                    | None \<Rightarrow> decide_scan now fresh (before @ [j]) rest s))))"

definition decide_one :: "hive_config \<Rightarrow> nat \<Rightarrow> cell_id \<Rightarrow> inner \<Rightarrow> decision \<times> inner" where
  "decide_one cfg now fresh s =
     (if running_builds s \<ge> max_concurrent_builds cfg then (Idle, s)
      else decide_scan now fresh [] (queue s) s)"

section \<open>Execution of one cell\<close>

text \<open>\<open>if let Some(cell) = inner.cells.remove(id) { box.release(&cell.resources) }\<close>.\<close>

definition remove_cell :: "cell_id \<Rightarrow> inner \<Rightarrow> inner" where
  "remove_cell cid s =
     (case tget (cells s) cid of
        None \<Rightarrow> s
      | Some c \<Rightarrow> s\<lparr>cells := tdel cid (cells s),
          boxes := upd_first (\<lambda>b. b_id b = c_box_id c) (release (c_resources c)) (boxes s)\<rparr>)"

definition set_cell_state :: "cell_id \<Rightarrow> cell_state \<Rightarrow> inner \<Rightarrow> inner" where
  "set_cell_state cid st s = s\<lparr>cells := tmod cid (\<lambda>c. c\<lparr>c_state := st\<rparr>) (cells s)\<rparr>"

definition system_line :: "nat \<Rightarrow> string \<Rightarrow> log_line" where
  "system_line now msg = \<lparr>ts_ms = now, stream = System_Stream, line = msg\<rparr>"

definition bus_push :: "limits \<Rightarrow> job_id \<Rightarrow> log_line \<Rightarrow> (job_id, log_bus) table \<Rightarrow> (job_id, log_bus) table" where
  "bus_push lim j l logs = tmod j (\<lambda>b. fst (lb_push (bus_lines lim) (bus_bytes lim) l b)) logs"

text \<open>\<open>run_cell\<close> up to its first await.\<close>

definition run_cell_begin :: "job_id \<Rightarrow> cell_id \<Rightarrow> bool \<Rightarrow> inner \<Rightarrow> task list" where
  "run_cell_begin j cid is_warm s =
     (if is_warm then [Build_Phase j cid]
      else (case tget (cells s) cid of None \<Rightarrow> [] | Some _ \<Rightarrow> [Await_Provision j cid]))"

text \<open>The answer of \<open>backend.provision\<close> on the cold path.\<close>

definition cold_provisioned :: "cell_id \<Rightarrow> cell_handle \<Rightarrow> inner \<Rightarrow> inner" where
  "cold_provisioned cid hdl s =
     s\<lparr>cells := tmod cid (\<lambda>c. c\<lparr>c_handle := Some hdl, c_state := Assigned\<rparr>) (cells s)\<rparr>"

text \<open>The first critical section of \<open>run_build_phase\<close>.\<close>

definition start_job :: "nat \<Rightarrow> job_record \<Rightarrow> job_record" where
  "start_job now jr = jr\<lparr>jr_state := Building, jr_started_at_ms := Some now,
     jr_provision_latency_ms := Some (now - job_submitted_at_ms (jr_job jr))\<rparr>"

definition build_phase :: "nat \<Rightarrow> job_id \<Rightarrow> cell_id \<Rightarrow> hive \<Rightarrow> inner \<times> (job_id, log_bus) table \<times> task list" where
  "build_phase now j cid h =
     (let s1 = set_cell_state cid Running (h_inner h)
      in (case tget (jobs s1) j of
            None \<Rightarrow> (s1, h_logs h, [])
          | Some _ \<Rightarrow>
              (let s2 = s1\<lparr>jobs := tmod j (start_job now) (jobs s1)\<rparr>
               in (case Option.bind (tget (cells s2) cid) c_handle of
                     None \<Rightarrow> (s2, h_logs h, [Fail_Provision j cid ''cell has no handle at build time''])
                   | Some hdl \<Rightarrow> (s2, logs_or_insert j (h_logs h), [Await_Build j cid hdl])))))"

text \<open>The answer of \<open>backend.run_build\<close>: a result, or the text of the error.\<close>

definition finish_job :: "nat \<Rightarrow> string + build_result \<Rightarrow> job_record \<Rightarrow> job_record" where
  "finish_job now res jr =
     (case res of
        Inr r \<Rightarrow> jr\<lparr>jr_state := br_job_state r, jr_exit_code := Some (br_exit_code r),
          jr_finished_at_ms := Some (br_finished_at_ms r)\<rparr>
      | Inl _ \<Rightarrow> jr\<lparr>jr_state := Job_Failed, jr_exit_code := Some (-1),
          jr_finished_at_ms := Some now\<rparr>)"

definition finish_build :: "limits \<Rightarrow> nat \<Rightarrow> string + build_result \<Rightarrow> job_id \<Rightarrow> hive \<Rightarrow> inner \<times> (job_id, log_bus) table" where
  "finish_build lim now res j h =
     (let s = h_inner h; logs = tmod j lb_mark_done (h_logs h)
      in (s\<lparr>jobs := tmod j (finish_job now res) (jobs s)\<rparr>,
          (case res of
             Inr _ \<Rightarrow> logs
           | Inl e \<Rightarrow> (case tget (jobs s) j of
                 None \<Rightarrow> logs
               | Some _ \<Rightarrow> bus_push lim j (system_line now (''backend error: '' @ e)) logs))))"

text \<open>The two critical sections of \<open>teardown_cell\<close>.\<close>

definition teardown_begin :: "cell_id \<Rightarrow> inner \<Rightarrow> inner" where
  "teardown_begin cid s = set_cell_state cid Draining s"

definition teardown_finish :: "cell_id \<Rightarrow> inner \<Rightarrow> inner" where
  "teardown_finish cid s =
     (let s1 = remove_cell cid s in s1\<lparr>running_builds := running_builds s1 - 1\<rparr>)"

definition fail_job :: "nat \<Rightarrow> job_record \<Rightarrow> job_record" where
  "fail_job now jr = jr\<lparr>jr_state := Job_Failed, jr_exit_code := Some (-1), jr_finished_at_ms := Some now\<rparr>"

definition fail_provision :: "limits \<Rightarrow> nat \<Rightarrow> job_id \<Rightarrow> cell_id \<Rightarrow> string \<Rightarrow> hive \<Rightarrow> inner \<times> (job_id, log_bus) table" where
  "fail_provision lim now j cid msg h =
     (let s1 = remove_cell cid (h_inner h);
          s2 = s1\<lparr>jobs := tmod j (fail_job now) (jobs s1)\<rparr>
      in (s2\<lparr>running_builds := running_builds s2 - 1\<rparr>,
          tmod j lb_mark_done (bus_push lim j (system_line now msg) (h_logs h))))"

section \<open>Retention of finished jobs\<close>

definition finished_jobs :: "(job_id, job_record) table \<Rightarrow> (nat \<times> job_id) list" where
  "finished_jobs js =
     map (\<lambda>(i, jr). (case jr_finished_at_ms jr of None \<Rightarrow> 0 | Some t \<Rightarrow> t, i))
       (filter (\<lambda>(_, jr). job_is_terminal (jr_state jr)) js)"

definition evicted_jobs :: "nat \<Rightarrow> (job_id, job_record) table \<Rightarrow> job_id list" where
  "evicted_jobs keep js =
     (let fin = finished_jobs js
      in if length fin \<le> keep then []
         else map snd (take (length fin - keep) (sort fin)))"

definition reap_finished_jobs :: "limits \<Rightarrow> hive \<Rightarrow> hive" where
  "reap_finished_jobs lim h =
     (let evict = evicted_jobs (retained_jobs lim) (jobs (h_inner h))
      in h\<lparr>h_inner := (h_inner h)\<lparr>jobs := fold tdel evict (jobs (h_inner h))\<rparr>,
           h_logs := fold tdel evict (h_logs h)\<rparr>)"

section \<open>The warm pool\<close>

definition pool_len :: "string \<Rightarrow> inner \<Rightarrow> nat" where
  "pool_len img s = (case tget (warm s) img of None \<Rightarrow> 0 | Some p \<Rightarrow> length p)"

definition pending_len :: "string \<Rightarrow> inner \<Rightarrow> nat" where
  "pending_len img s = (case tget (warm_pending s) img of None \<Rightarrow> 0 | Some n \<Rightarrow> n)"

text \<open>One round of the scale-up loop of \<open>reconcile_warm_pool\<close> for one image.\<close>

definition scale_up :: "hive_config \<Rightarrow> nat \<Rightarrow> cell_id \<Rightarrow> string \<Rightarrow> inner \<Rightarrow> (inner \<times> task list) option" where
  "scale_up cfg now fresh img s =
     (if pool_len img s + pending_len img s \<ge> warm_target_for cfg img then None
      else (case pick_box (warm_spec cfg) (boxes s) of
              None \<Rightarrow> None
            | Some i \<Rightarrow>
                (let s1 = place_cell i fresh img (warm_spec cfg) None now s
                 in Some (s1\<lparr>warm_pending := tput img (pending_len img s + 1) (warm_pending s1)\<rparr>,
                          [Provision_Warm img fresh]))))"

definition is_stale :: "nat \<Rightarrow> nat \<Rightarrow> (cell_id, cell_record) table \<Rightarrow> cell_id \<Rightarrow> bool" where
  "is_stale ttl now cs cid =
     (case Option.bind (tget cs cid) c_became_warm_at_ms of None \<Rightarrow> False | Some t \<Rightarrow> now - t > ttl)"

text \<open>The inner loop of the reaper over one pool: cells kept, cells to reap.\<close>

fun split_pool :: "(cell_id \<Rightarrow> bool) \<Rightarrow> nat \<Rightarrow> nat \<Rightarrow> cell_id list \<Rightarrow> cell_id list \<times> cell_id list" where
  "split_pool stale target kept [] = ([], [])"
| "split_pool stale target kept (cid # cids) =
     (if kept \<ge> target \<or> stale cid
      then (let (ks, rs) = split_pool stale target kept cids in (ks, cid # rs))
      else (let (ks, rs) = split_pool stale target (Suc kept) cids in (cid # ks, rs)))"

text \<open>The reaper over all images, in the iteration order of the map.\<close>

definition reap_image :: "hive_config \<Rightarrow> nat \<Rightarrow> string \<Rightarrow> inner \<times> cell_id list \<Rightarrow> inner \<times> cell_id list" where
  "reap_image cfg now img acc =
     (let (s, reap) = acc
      in (case tget (warm s) img of
            None \<Rightarrow> (s, reap)
          | Some pool \<Rightarrow>
              (let (ks, rs) = split_pool (is_stale (warm_idle_ttl_ms cfg) now (cells s))
                                (warm_target_for cfg img) 0 pool
               in (fold (\<lambda>cid. set_cell_state cid Draining) rs (s\<lparr>warm := tput img ks (warm s)\<rparr>),
                   reap @ rs))))"

definition reap_warm :: "hive_config \<Rightarrow> nat \<Rightarrow> inner \<Rightarrow> inner \<times> cell_id list" where
  "reap_warm cfg now s = fold (reap_image cfg now) (tkeys (warm s)) (s, [])"

definition pending_dec :: "string \<Rightarrow> inner \<Rightarrow> inner" where
  "pending_dec img s = s\<lparr>warm_pending := tmod img (\<lambda>p. p - 1) (warm_pending s)\<rparr>"

definition warm_ready :: "nat \<Rightarrow> string \<Rightarrow> cell_id \<Rightarrow> cell_handle \<Rightarrow> inner \<Rightarrow> inner" where
  "warm_ready now img cid hdl s =
     (let s1 = s\<lparr>cells := tmod cid (\<lambda>c. c\<lparr>c_handle := Some hdl, c_state := Warm,
                   c_became_warm_at_ms := Some now\<rparr>) (cells s)\<rparr>;
          pool = (case tget (warm s1) img of None \<Rightarrow> [] | Some p \<Rightarrow> p)
      in pending_dec img (s1\<lparr>warm := tput img (pool @ [cid]) (warm s1)\<rparr>))"

definition warm_failed :: "string \<Rightarrow> cell_id \<Rightarrow> inner \<Rightarrow> inner" where
  "warm_failed img cid s = pending_dec img (remove_cell cid s)"

section \<open>Cluster status\<close>

record cluster_status =
  cs_hive :: string
  cs_boxes :: "box_view list"
  cs_cells :: "cell_view list"
  cs_jobs :: "job_view list"
  cs_queued :: nat

definition warm_on_box :: "(cell_id, cell_record) table \<Rightarrow> box_id \<Rightarrow> nat" where
  "warm_on_box cs bid = length (filter (\<lambda>(_, c). c_state c = Warm \<and> c_box_id c = bid) cs)"

definition cluster_status_of :: "hive_config \<Rightarrow> inner \<Rightarrow> cluster_status" where
  "cluster_status_of cfg s =
     \<lparr>cs_hive = hive_id cfg,
      cs_boxes = map (\<lambda>b. (box_view_of b)\<lparr>bv_warm_cells := warm_on_box (cells s) (b_id b)\<rparr>) (boxes s),
      cs_cells = map (\<lambda>(_, c). cell_view_of c) (cells s),
      cs_jobs = sort_key jv_submitted_at_ms (map (\<lambda>(_, j). job_view_of j) (jobs s)),
      cs_queued = length (queue s)\<rparr>"

section \<open>Steps\<close>

text \<open>What the backend can answer to a waiting task.\<close>

datatype reply =
    No_Reply
  | Provisioned cell_handle
  | Provision_Error string
  | Built "string + build_result"

text \<open>The next critical section of one task, and the task it continues as; a task whose reply
  has not come stays as it is.\<close>

fun task_step :: "limits \<Rightarrow> nat \<Rightarrow> reply \<Rightarrow> task \<Rightarrow> hive \<Rightarrow> inner \<times> (job_id, log_bus) table \<times> task list" where
  "task_step lim now r (Run_Cell j cid w) h =
     (h_inner h, h_logs h, run_cell_begin j cid w (h_inner h))"
| "task_step lim now r (Await_Provision j cid) h =
     (case r of
        Provisioned hdl \<Rightarrow> (cold_provisioned cid hdl (h_inner h), h_logs h, [Build_Phase j cid])
      | Provision_Error e \<Rightarrow> (h_inner h, h_logs h, [Fail_Provision j cid (''provision failed: '' @ e)])
      | _ \<Rightarrow> (h_inner h, h_logs h, [Await_Provision j cid]))"
| "task_step lim now r (Fail_Provision j cid msg) h =
     (let (s, logs) = fail_provision lim now j cid msg h in (s, logs, [After_Fail]))"
| "task_step lim now r After_Fail h =
     (let h' = reap_finished_jobs lim h in (h_inner h', h_logs h', []))"
| "task_step lim now r (Build_Phase j cid) h = build_phase now j cid h"
| "task_step lim now r (Await_Build j cid hdl) h =
     (case r of
        Built res \<Rightarrow> (let (s, logs) = finish_build lim now res j h in (s, logs, [After_Build cid]))
      | _ \<Rightarrow> (h_inner h, h_logs h, [Await_Build j cid hdl]))"
| "task_step lim now r (After_Build cid) h =
     (let h' = reap_finished_jobs lim h in (h_inner h', h_logs h', [Teardown_Cell cid]))"
| "task_step lim now r (Teardown_Cell cid) h =
     (teardown_begin cid (h_inner h), h_logs h, [Await_Terminate cid])"
| "task_step lim now r (Await_Terminate cid) h =
     (teardown_finish cid (h_inner h), h_logs h, [])"
| "task_step lim now r (Provision_Warm img cid) h =
     (h_inner h, h_logs h,
      (case tget (cells (h_inner h)) cid of None \<Rightarrow> [] | Some _ \<Rightarrow> [Await_Warm img cid]))"
| "task_step lim now r (Await_Warm img cid) h =
     (case r of
        Provisioned hdl \<Rightarrow> (warm_ready now img cid hdl (h_inner h), h_logs h, [])
      | Provision_Error e \<Rightarrow> (warm_failed img cid (h_inner h), h_logs h, [])
      | _ \<Rightarrow> (h_inner h, h_logs h, [Await_Warm img cid]))"
| "task_step lim now r (Teardown_Warm cid) h = (h_inner h, h_logs h, [Await_Warm_Terminate cid])"
| "task_step lim now r (Await_Warm_Terminate cid) h = (remove_cell cid (h_inner h), h_logs h, [])"

definition decision_tasks :: "decision \<Rightarrow> task list" where
  "decision_tasks d = (case d of Idle \<Rightarrow> [] | Run j cid w \<Rightarrow> [Run_Cell j cid w])"

text \<open>
  The steps of the control plane. \<open>CellId::new\<close> draws a random identifier; the steps that use one
  assume that it is not in use, as the code does. The identifier of a job comes with the job: a submission
  may carry one that is in use, and then replaces the record.
\<close>

definition cell_id_fresh :: "cell_id \<Rightarrow> inner \<Rightarrow> bool" where
  "cell_id_fresh cid s = (cid \<notin> set (tkeys (cells s)))"

inductive hive_move :: "hive_config \<Rightarrow> limits \<Rightarrow> hive \<Rightarrow> hive \<Rightarrow> bool" for cfg lim where
  step_schedule: "cell_id_fresh fresh (h_inner h) \<Longrightarrow> decide_one cfg now fresh (h_inner h) = (d, s) \<Longrightarrow>
    hive_move cfg lim h (h\<lparr>h_inner := s, h_tasks := h_tasks h @ decision_tasks d\<rparr>)"
| step_scale_up: "img \<in> set (warm_images cfg) \<Longrightarrow> cell_id_fresh fresh (h_inner h) \<Longrightarrow>
    scale_up cfg now fresh img (h_inner h) = Some (s, ts) \<Longrightarrow>
    hive_move cfg lim h (h\<lparr>h_inner := s, h_tasks := h_tasks h @ ts\<rparr>)"
| step_reap_warm: "reap_warm cfg now (h_inner h) = (s, reap) \<Longrightarrow>
    hive_move cfg lim h (h\<lparr>h_inner := s, h_tasks := h_tasks h @ map Teardown_Warm reap\<rparr>)"
| step_reap_jobs: "hive_move cfg lim h (reap_finished_jobs lim h)"
| step_log: "hive_move cfg lim h (h\<lparr>h_logs := bus_push lim j l (h_logs h)\<rparr>)"
| step_task: "h_tasks h = ts1 @ t # ts2 \<Longrightarrow> task_step lim now r t h = (s, logs, ts) \<Longrightarrow>
    hive_move cfg lim h (h\<lparr>h_inner := s, h_logs := logs, h_tasks := ts1 @ ts @ ts2\<rparr>)"

inductive hive_step :: "hive_config \<Rightarrow> limits \<Rightarrow> hive \<Rightarrow> hive \<Rightarrow> bool" for cfg lim where
  step_submit: "hive_step cfg lim h (submit job h)"
| step_move: "hive_move cfg lim h h' \<Longrightarrow> hive_step cfg lim h h'"

text \<open>The box sizes of a configuration are \<open>u32\<close> values.\<close>

definition config_ok :: "hive_config \<Rightarrow> bool" where
  "config_ok cfg \<longleftrightarrow> (\<forall>bc \<in> set (cfg_boxes cfg). bc_vcpus bc < 2 ^ 32 \<and> bc_mem_mib bc < 2 ^ 32)"

inductive hive_reachable :: "hive_config \<Rightarrow> limits \<Rightarrow> hive \<Rightarrow> bool" for cfg lim where
  reach_start: "config_ok cfg \<Longrightarrow> distinct ids \<Longrightarrow> length ids = length (cfg_boxes cfg) \<Longrightarrow>
    hive_reachable cfg lim (start cfg ids)"
| reach_step: "hive_reachable cfg lim h \<Longrightarrow> hive_step cfg lim h h' \<Longrightarrow> hive_reachable cfg lim h'"

text \<open>The runs in which no submission carries an identifier of a retained job.\<close>

inductive hive_orderly :: "hive_config \<Rightarrow> limits \<Rightarrow> hive \<Rightarrow> bool" for cfg lim where
  orderly_start: "config_ok cfg \<Longrightarrow> distinct ids \<Longrightarrow> length ids = length (cfg_boxes cfg) \<Longrightarrow>
    hive_orderly cfg lim (start cfg ids)"
| orderly_submit: "hive_orderly cfg lim h \<Longrightarrow> tget (jobs (h_inner h)) (job_id job) = None \<Longrightarrow>
    hive_orderly cfg lim (submit job h)"
| orderly_move: "hive_orderly cfg lim h \<Longrightarrow> hive_move cfg lim h h' \<Longrightarrow> hive_orderly cfg lim h'"

lemma orderly_reachable: "hive_orderly cfg lim h \<Longrightarrow> hive_reachable cfg lim h"
  by (induction rule: hive_orderly.induct) (auto intro: reach_start reach_step step_submit step_move)

inductive_cases hive_stepE: "hive_step cfg lim h h'"

end
