(* ===== verification/Control_Plane_Inv.thy ===== *)
theory Control_Plane_Inv
  imports Control_Plane
begin

text \<open>
  The accounting invariant of the control plane and its preservation: four of its parts by every step, and with
  the fifth, on jobs, by every step of a run whose submissions carry new identifiers. Each part speaks of the components of the state it needs: cells against box capacity,
  cells against their owners (a task or a warm pool), unfinished jobs against queue and tasks,
  running builds against tasks, pending warm cells against tasks.
\<close>

section \<open>What a task holds\<close>

fun task_cells :: "task \<Rightarrow> cell_id list" where
  "task_cells (Run_Cell j c w) = [c]"
| "task_cells (Await_Provision j c) = [c]"
| "task_cells (Fail_Provision j c msg) = [c]"
| "task_cells After_Fail = []"
| "task_cells (Build_Phase j c) = [c]"
| "task_cells (Await_Build j c hdl) = [c]"
| "task_cells (After_Build c) = [c]"
| "task_cells (Teardown_Cell c) = [c]"
| "task_cells (Await_Terminate c) = [c]"
| "task_cells (Provision_Warm img c) = [c]"
| "task_cells (Await_Warm img c) = [c]"
| "task_cells (Teardown_Warm c) = [c]"
| "task_cells (Await_Warm_Terminate c) = [c]"

text \<open>The job a task will still finish.\<close>

fun task_jobs :: "task \<Rightarrow> job_id list" where
  "task_jobs (Run_Cell j c w) = [j]"
| "task_jobs (Await_Provision j c) = [j]"
| "task_jobs (Fail_Provision j c msg) = [j]"
| "task_jobs (Build_Phase j c) = [j]"
| "task_jobs (Await_Build j c hdl) = [j]"
| "task_jobs _ = []"

text \<open>The tasks that \<open>running_builds\<close> counts.\<close>

fun task_builds :: "task \<Rightarrow> nat" where
  "task_builds (Run_Cell j c w) = 1"
| "task_builds (Await_Provision j c) = 1"
| "task_builds (Fail_Provision j c msg) = 1"
| "task_builds (Build_Phase j c) = 1"
| "task_builds (Await_Build j c hdl) = 1"
| "task_builds (After_Build c) = 1"
| "task_builds (Teardown_Cell c) = 1"
| "task_builds (Await_Terminate c) = 1"
| "task_builds _ = 0"

fun task_images :: "task \<Rightarrow> string list" where
  "task_images (Provision_Warm img c) = [img]"
| "task_images (Await_Warm img c) = [img]"
| "task_images _ = []"

definition held_cells :: "task list \<Rightarrow> cell_id multiset" where
  "held_cells ts = mset (concat (map task_cells ts))"

definition held_jobs :: "task list \<Rightarrow> job_id multiset" where
  "held_jobs ts = mset (concat (map task_jobs ts))"

definition held_builds :: "task list \<Rightarrow> nat" where
  "held_builds ts = sum_list (map task_builds ts)"

definition held_images :: "task list \<Rightarrow> string multiset" where
  "held_images ts = mset (concat (map task_images ts))"

lemma held_simps [simp]:
  "held_cells [] = {#}" "held_cells (t # ts) = mset (task_cells t) + held_cells ts"
  "held_cells (ts @ us) = held_cells ts + held_cells us"
  "held_jobs [] = {#}" "held_jobs (t # ts) = mset (task_jobs t) + held_jobs ts"
  "held_jobs (ts @ us) = held_jobs ts + held_jobs us"
  "held_builds [] = 0" "held_builds (t # ts) = task_builds t + held_builds ts"
  "held_builds (ts @ us) = held_builds ts + held_builds us"
  "held_images [] = {#}" "held_images (t # ts) = mset (task_images t) + held_images ts"
  "held_images (ts @ us) = held_images ts + held_images us"
  by (simp_all add: held_cells_def held_jobs_def held_builds_def held_images_def)

lemma held_teardown [simp]:
  "held_cells (map Teardown_Warm cs) = mset cs" "held_jobs (map Teardown_Warm cs) = {#}"
  "held_builds (map Teardown_Warm cs) = 0" "held_images (map Teardown_Warm cs) = {#}"
  by (induction cs) simp_all

section \<open>The five parts\<close>

definition pools :: "(string, cell_id list) table \<Rightarrow> cell_id multiset" where
  "pools wm = mset (concat (map snd wm))"

definition live_jobs :: "(job_id, job_record) table \<Rightarrow> job_id list" where
  "live_jobs js = map fst (filter (\<lambda>(_, jr). \<not> job_is_terminal (jr_state jr)) js)"

definition cells_ok :: "box_record list \<Rightarrow> (cell_id, cell_record) table \<Rightarrow> bool" where
  "cells_ok bs cs \<longleftrightarrow> distinct (tkeys cs) \<and> ledger_exact bs cs"

definition owners_ok :: "(string, cell_id list) table \<Rightarrow> (cell_id, cell_record) table \<Rightarrow> task list \<Rightarrow> bool" where
  "owners_ok wm cs ts \<longleftrightarrow> distinct (tkeys wm) \<and> held_cells ts + pools wm = mset (tkeys cs)"

definition jobs_ok :: "(job_id, job_record) table \<Rightarrow> job_id list \<Rightarrow> task list \<Rightarrow> bool" where
  "jobs_ok js q ts \<longleftrightarrow> distinct (tkeys js) \<and> mset q + held_jobs ts = mset (live_jobs js)"

definition builds_ok :: "hive_config \<Rightarrow> nat \<Rightarrow> task list \<Rightarrow> bool" where
  "builds_ok cfg n ts \<longleftrightarrow> n = held_builds ts \<and> n \<le> max_concurrent_builds cfg"

definition pending_ok :: "(string, nat) table \<Rightarrow> task list \<Rightarrow> bool" where
  "pending_ok wp ts \<longleftrightarrow> (\<forall>img. (case tget wp img of None \<Rightarrow> 0 | Some n \<Rightarrow> n) = count (held_images ts) img)"

definition hive_inv :: "hive_config \<Rightarrow> hive \<Rightarrow> bool" where
  "hive_inv cfg h \<longleftrightarrow>
     (let s = h_inner h; ts = h_tasks h
      in cells_ok (boxes s) (cells s) \<and> owners_ok (warm s) (cells s) ts \<and>
         jobs_ok (jobs s) (queue s) ts \<and> builds_ok cfg (running_builds s) ts \<and>
         pending_ok (warm_pending s) ts)"

text \<open>The four parts that do not speak of jobs, and the whole, on a state and its tasks.\<close>

definition core_ok :: "hive_config \<Rightarrow> inner \<Rightarrow> task list \<Rightarrow> bool" where
  "core_ok cfg s ts \<longleftrightarrow>
     cells_ok (boxes s) (cells s) \<and> owners_ok (warm s) (cells s) ts \<and>
     builds_ok cfg (running_builds s) ts \<and> pending_ok (warm_pending s) ts"

text \<open>When a job is submitted again under an identifier in use, a build task may find its record gone and end without giving its
  cell back. The invariant of all runs therefore has a list of tasks that are gone, and with them their cells.\<close>

definition hive_core :: "hive_config \<Rightarrow> hive \<Rightarrow> bool" where
  "hive_core cfg h \<longleftrightarrow> (\<exists>gone. core_ok cfg (h_inner h) (h_tasks h @ gone))"

lemma hive_inv_core: "hive_inv cfg h \<longleftrightarrow> core_ok cfg (h_inner h) (h_tasks h) \<and> jobs_ok (jobs (h_inner h)) (queue (h_inner h)) (h_tasks h)"
  by (auto simp: hive_inv_def core_ok_def Let_def)

lemma core_ok_last: "core_ok cfg s (ts @ us @ gone) \<longleftrightarrow> core_ok cfg s ((ts @ gone) @ us)"
  by (simp add: core_ok_def owners_ok_def builds_ok_def pending_ok_def union_ac add_ac)

lemma hive_invI:
  assumes "cells_ok (boxes (h_inner h)) (cells (h_inner h))"
    and "owners_ok (warm (h_inner h)) (cells (h_inner h)) (h_tasks h)"
    and "jobs_ok (jobs (h_inner h)) (queue (h_inner h)) (h_tasks h)"
    and "builds_ok cfg (running_builds (h_inner h)) (h_tasks h)"
    and "pending_ok (warm_pending (h_inner h)) (h_tasks h)"
  shows "hive_inv cfg h"
  using assms by (simp add: hive_inv_def Let_def)

lemma hive_invD:
  assumes "hive_inv cfg h"
  shows "cells_ok (boxes (h_inner h)) (cells (h_inner h))"
    and "owners_ok (warm (h_inner h)) (cells (h_inner h)) (h_tasks h)"
    and "jobs_ok (jobs (h_inner h)) (queue (h_inner h)) (h_tasks h)"
    and "builds_ok cfg (running_builds (h_inner h)) (h_tasks h)"
    and "pending_ok (warm_pending (h_inner h)) (h_tasks h)"
  using assms by (simp_all add: hive_inv_def Let_def)

subsection \<open>Cells\<close>

lemma pick_box_Some: "pick_box r bs = Some i \<Longrightarrow> i < length bs \<and> can_fit r (bs ! i)"
  by (auto simp: pick_box_def in_set_enumerate_eq dest!: max_by_key_Some)

lemma pick_box_None: "pick_box r bs = None \<longleftrightarrow> (\<forall>b \<in> set bs. \<not> can_fit r b)"
proof -
  have "pick_box r bs = None \<longleftrightarrow> (\<forall>p \<in> set (enumerate 0 bs). \<not> can_fit r (snd p))"
    by (simp add: pick_box_def filter_empty_conv case_prod_unfold)
  also have "\<dots> \<longleftrightarrow> (\<forall>b \<in> snd ` set (enumerate 0 bs). \<not> can_fit r b)" by blast
  also have "snd ` set (enumerate 0 bs) = set bs"
    by (metis list.set_map map_snd_enumerate)
  finally show ?thesis .
qed

lemma cells_ok_tmod:
  "(\<And>c. c_box_id (f c) = c_box_id c) \<Longrightarrow> (\<And>c. c_resources (f c) = c_resources c) \<Longrightarrow>
    cells_ok bs (tmod cid f cs) = cells_ok bs cs"
  by (simp add: cells_ok_def ledger_exact_tmod)

lemma cells_ok_place:
  assumes "cells_ok (boxes s) (cells s)" and "pick_box req (boxes s) = Some i"
    and "cell_id_fresh cid s"
  shows "cells_ok (boxes (place_cell i cid img req j now s)) (cells (place_cell i cid img req j now s))"
proof -
  define c where "c = new_cell cid (b_id (boxes s ! i)) img req j now"
  have c: "c_resources c = req" "c_box_id c = b_id (boxes s ! i)"
    by (simp_all add: c_def new_cell_def)
  have "ledger_exact ((boxes s)[i := reserve (c_resources c) (boxes s ! i)]) (tput cid c (cells s))"
    by (rule ledger_exact_reserve)
      (use assms pick_box_Some [OF assms(2)] c in \<open>auto simp: cells_ok_def cell_id_fresh_def\<close>)
  then show ?thesis
    using assms(1) by (simp add: place_cell_def cells_ok_def c_def [symmetric] c)
qed

lemma cells_ok_remove:
  "cells_ok (boxes s) (cells s) \<Longrightarrow> cells_ok (boxes (remove_cell cid s)) (cells (remove_cell cid s))"
  by (auto simp: remove_cell_def cells_ok_def ledger_exact_release split: option.split)

lemma remove_cell_other [simp]:
  "warm (remove_cell cid s) = warm s" "jobs (remove_cell cid s) = jobs s"
  "queue (remove_cell cid s) = queue s" "warm_pending (remove_cell cid s) = warm_pending s"
  "running_builds (remove_cell cid s) = running_builds s"
  by (simp_all add: remove_cell_def split: option.split)

lemma place_cell_other [simp]:
  "warm (place_cell i cid img req j now s) = warm s" "jobs (place_cell i cid img req j now s) = jobs s"
  "queue (place_cell i cid img req j now s) = queue s"
  "warm_pending (place_cell i cid img req j now s) = warm_pending s"
  "running_builds (place_cell i cid img req j now s) = running_builds s"
  by (simp_all add: place_cell_def)

lemma set_cell_state_other [simp]:
  "warm (set_cell_state cid st s) = warm s" "jobs (set_cell_state cid st s) = jobs s"
  "queue (set_cell_state cid st s) = queue s" "warm_pending (set_cell_state cid st s) = warm_pending s"
  "running_builds (set_cell_state cid st s) = running_builds s" "boxes (set_cell_state cid st s) = boxes s"
  "tkeys (cells (set_cell_state cid st s)) = tkeys (cells s)"
  "cells_ok bs (cells (set_cell_state cid st s)) = cells_ok bs (cells s)"
  by (simp_all add: set_cell_state_def cells_ok_tmod)

subsection \<open>Owners\<close>

lemma pools_simps [simp]:
  "pools [] = {#}" "pools (x # wm) = mset (snd x) + pools wm"
  by (simp_all add: pools_def)

lemma pools_tput:
  "distinct (tkeys wm) \<Longrightarrow>
    pools (tput img p wm) + (case tget wm img of None \<Rightarrow> {#} | Some q \<Rightarrow> mset q) = pools wm + mset p"
proof (induction wm)
  case Nil
  then show ?case by simp
next
  case (Cons x wm)
  show ?case
  proof (cases "fst x = img")
    case True
    then show ?thesis by (cases x) (simp add: union_ac)
  next
    case False
    with Cons show ?thesis by (cases x) (simp add: union_assoc)
  qed
qed

lemma owners_ok_keys: "tkeys cs' = tkeys cs \<Longrightarrow> owners_ok wm cs' ts = owners_ok wm cs ts"
  by (simp add: owners_ok_def)

lemma owners_ok_cell:
  assumes "owners_ok wm cs ts" and "c \<in># held_cells ts"
  shows "\<exists>cr. tget cs c = Some cr"
proof -
  have "c \<in># mset (tkeys cs)" using assms by (metis UnCI owners_ok_def set_mset_union)
  then show ?thesis by (metis in_multiset_in_set not_None_eq tget_None_iff)
qed

lemma owners_ok_remove:
  assumes "owners_ok (warm s) (cells s) (ts1 @ t # ts2)" and "task_cells t = [cid]"
    and "cells_ok (boxes s) (cells s)" and "held_cells ts = {#}"
  shows "owners_ok (warm s) (cells (remove_cell cid s)) (ts1 @ ts @ ts2)"
proof -
  have "cid \<in># held_cells (ts1 @ t # ts2)" using assms(2) by simp
  then obtain c where c: "tget (cells s) cid = Some c" using owners_ok_cell [OF assms(1)] by blast
  have d: "distinct (tkeys (cells s))" using assms(3) by (simp add: cells_ok_def)
  have "mset (tkeys (cells s)) = add_mset cid (mset (tkeys (tdel cid (cells s))))"
    by (rule mset_tkeys_tdel [OF d]) (rule tget_Some_key [OF c])
  then have "add_mset cid (held_cells ts1 + held_cells ts2 + pools (warm s)) =
      add_mset cid (mset (tkeys (tdel cid (cells s))))"
    using assms(1,2) by (simp add: owners_ok_def)
  with assms(1,4) c show ?thesis
    by (simp add: owners_ok_def remove_cell_def)
qed

subsection \<open>Jobs\<close>

lemma live_jobs_simps [simp]:
  "live_jobs [] = []"
  "live_jobs (x # js) = (if job_is_terminal (jr_state (snd x)) then live_jobs js else fst x # live_jobs js)"
  by (simp_all add: live_jobs_def case_prod_unfold)

lemma live_jobs_subset: "set (live_jobs js) \<subseteq> set (tkeys js)"
  by (auto simp: live_jobs_def)

lemma in_live_jobs:
  "distinct (tkeys js) \<Longrightarrow>
    j \<in> set (live_jobs js) \<longleftrightarrow> (\<exists>jr. tget js j = Some jr \<and> \<not> job_is_terminal (jr_state jr))"
  using live_jobs_subset [of js]
  by (induction js) (auto simp: live_jobs_def image_iff map_of_eq_None_iff)

lemma live_jobs_distinct: "distinct (tkeys js) \<Longrightarrow> distinct (live_jobs js)"
  by (simp add: live_jobs_def distinct_map_filter)

lemma tmod_Cons: "tmod j f (x # js) = (fst x, if fst x = j then f (snd x) else snd x) # tmod j f js"
  by (simp add: tmod_def case_prod_unfold)

lemma live_jobs_tmod_live:
  "distinct (tkeys js) \<Longrightarrow> tget js j = Some jr \<Longrightarrow> \<not> job_is_terminal (jr_state jr) \<Longrightarrow>
    \<not> job_is_terminal (jr_state (f jr)) \<Longrightarrow> live_jobs (tmod j f js) = live_jobs js"
  by (induction js) (auto simp: tmod_Cons tmod_absent split: if_splits)

lemma live_jobs_tmod_done:
  "distinct (tkeys js) \<Longrightarrow> tget js j = Some jr \<Longrightarrow> \<not> job_is_terminal (jr_state jr) \<Longrightarrow>
    job_is_terminal (jr_state (f jr)) \<Longrightarrow>
    mset (live_jobs js) = add_mset j (mset (live_jobs (tmod j f js)))"
  by (induction js) (auto simp: tmod_Cons tmod_absent split: if_splits)

lemma live_jobs_tput_new:
  "j \<notin> set (tkeys js) \<Longrightarrow> \<not> job_is_terminal (jr_state jr) \<Longrightarrow> live_jobs (tput j jr js) = live_jobs js @ [j]"
  by (induction js) auto

lemma live_jobs_tdel:
  "distinct (tkeys js) \<Longrightarrow> j \<notin> set (live_jobs js) \<Longrightarrow> live_jobs (tdel j js) = live_jobs js"
  by (induction js) (auto simp: delete_id split: if_splits)

lemma live_jobs_fold_tdel:
  "distinct (tkeys js) \<Longrightarrow> set ids \<inter> set (live_jobs js) = {} \<Longrightarrow>
    live_jobs (fold tdel ids js) = live_jobs js \<and> distinct (tkeys (fold tdel ids js))"
  by (induction ids arbitrary: js) (simp_all add: live_jobs_tdel)

lemma evicted_terminal:
  assumes "distinct (tkeys js)" and "j \<in> set (evicted_jobs keep js)"
  shows "\<exists>jr. tget js j = Some jr \<and> job_is_terminal (jr_state jr)"
proof -
  have "j \<in> snd ` set (finished_jobs js)"
    using assms(2) by (auto simp: evicted_jobs_def Let_def split: if_splits dest!: in_set_takeD)
  then obtain jr where "(j, jr) \<in> set js" "job_is_terminal (jr_state jr)"
    by (auto simp: finished_jobs_def)
  with assms(1) show ?thesis by auto
qed

lemma evicted_not_live:
  "distinct (tkeys js) \<Longrightarrow> set (evicted_jobs keep js) \<inter> set (live_jobs js) = {}"
  using evicted_terminal by (fastforce simp: in_live_jobs)

lemma jobs_ok_live:
  assumes "jobs_ok js q ts" and "j \<in># mset q + held_jobs ts"
  shows "\<exists>jr. tget js j = Some jr \<and> \<not> job_is_terminal (jr_state jr)"
proof -
  have "j \<in> set (live_jobs js)" using assms by (simp add: jobs_ok_def)
  then show ?thesis using assms(1) by (simp add: in_live_jobs jobs_ok_def)
qed

lemma jobs_ok_step:
  assumes "jobs_ok js q ts" and "j \<in># mset q + held_jobs ts"
    and "\<And>jr. \<not> job_is_terminal (jr_state (f jr))" and "mset q' + held_jobs ts' = mset q + held_jobs ts"
  shows "jobs_ok (tmod j f js) q' ts'"
proof -
  obtain jr where "tget js j = Some jr" "\<not> job_is_terminal (jr_state jr)"
    using jobs_ok_live [OF assms(1,2)] by blast
  then show ?thesis
    using assms(1,3,4) by (simp add: jobs_ok_def live_jobs_tmod_live)
qed

lemma jobs_ok_done:
  assumes "jobs_ok js q ts" and "mset q + held_jobs ts = add_mset j (mset q' + held_jobs ts')"
    and "\<And>jr. job_is_terminal (jr_state (f jr))"
  shows "jobs_ok (tmod j f js) q' ts'"
proof -
  have "j \<in># mset q + held_jobs ts" using assms(2) by simp
  then obtain jr where "tget js j = Some jr" "\<not> job_is_terminal (jr_state jr)"
    using jobs_ok_live [OF assms(1)] by blast
  then have "mset (live_jobs js) = add_mset j (mset (live_jobs (tmod j f js)))"
    using assms(1,3) by (intro live_jobs_tmod_done) (auto simp: jobs_ok_def)
  then show ?thesis using assms(1,2) by (simp add: jobs_ok_def)
qed

section \<open>Preservation\<close>

subsection \<open>Submitting, scheduling\<close>

lemma start_inv:
  assumes "config_ok cfg" and "distinct ids" and "length ids = length (cfg_boxes cfg)"
  shows "hive_inv cfg (start cfg ids)"
proof (rule hive_invI)
  let ?bs = "map2 box_of_config ids (cfg_boxes cfg)"
  have ids: "map b_id ?bs = ids"
    using assms(3) by (induction ids "cfg_boxes cfg" arbitrary: cfg rule: list_induct2')
      (auto simp: box_of_config_def map2_map_map intro: nth_equalityI)
  have "box_ok b \<and> vcpus_used b = 0 \<and> mem_used_mib b = 0 \<and> b_cells b = 0" if "b \<in> set ?bs" for b
    using that assms(1) by (auto simp: box_of_config_def box_ok_def config_ok_def dest!: set_zip_rightD)
  then show "cells_ok (boxes (h_inner (start cfg ids))) (cells (h_inner (start cfg ids)))"
    using assms(2) ids
    by (simp add: start_def cells_ok_def ledger_exact_def cpu.exact_empty mem.exact_empty slots.exact_empty)
qed (simp_all add: start_def owners_ok_def jobs_ok_def builds_ok_def pending_ok_def)

lemma submit_core: "core_ok cfg (submit_inner job s) ts = core_ok cfg s ts"
  by (simp add: core_ok_def submit_inner_def)

lemma submit_inv:
  assumes "hive_inv cfg h" and "tget (jobs (h_inner h)) (job_id job) = None"
  shows "hive_inv cfg (submit job h)"
proof -
  have "job_id job \<notin> set (tkeys (jobs (h_inner h)))" using assms(2) by (simp add: tget_None_iff)
  then have "live_jobs (tput (job_id job) (job_record_new job) (jobs (h_inner h)))
      = live_jobs (jobs (h_inner h)) @ [job_id job]"
    by (rule live_jobs_tput_new) (simp add: job_record_new_def)
  with assms(1) show ?thesis
    by (auto simp: hive_inv_def Let_def submit_def submit_inner_def jobs_ok_def)
qed

lemma assign_simps [simp]:
  "warm (assign now j cid cold s) = warm s" "queue (assign now j cid cold s) = queue s"
  "boxes (assign now j cid cold s) = boxes s" "warm_pending (assign now j cid cold s) = warm_pending s"
  "running_builds (assign now j cid cold s) = running_builds s"
  "tkeys (cells (assign now j cid cold s)) = tkeys (cells s)"
  "cells_ok bs (cells (assign now j cid cold s)) = cells_ok bs (cells s)"
  by (simp_all add: assign_def Let_def cells_ok_tmod assign_cell_def)

lemma assign_jobs_ok:
  assumes "jobs_ok (jobs s) q ts" and "j \<in># mset q"
    and "mset q' + held_jobs ts' = mset q + held_jobs ts"
  shows "jobs_ok (jobs (assign now j cid cold s)) q' ts'"
  unfolding assign_def Let_def
  by (simp, rule jobs_ok_step [OF assms(1) _ _ assms(3)]) (use assms(2) in auto)

lemma take_warm_Some:
  assumes "take_warm img req s = Some (cid, s1)"
  shows "\<exists>front rear. tget (warm s) img = Some (front @ cid # rear) \<and>
    s1 = s\<lparr>warm := tput img (front @ rear) (warm s)\<rparr> \<and> warm_fits req (cells s) cid"
proof -
  obtain pool where pool: "tget (warm s) img = Some pool"
    using assms by (auto simp: take_warm_def split: option.splits)
  then obtain front rear where "List.extract (warm_fits req (cells s)) pool = Some (front, cid, rear)"
    and s1: "s1 = s\<lparr>warm := tput img (front @ rear) (warm s)\<rparr>"
    using assms by (auto simp: take_warm_def split: option.splits)
  then have "pool = front @ cid # rear" and "warm_fits req (cells s) cid"
    by (simp_all add: extract_Some_iff)
  with pool s1 show ?thesis by blast
qed

lemma owners_ok_take:
  assumes "owners_ok (warm s) (cells s) ts" and "take_warm img req s = Some (cid, s1)"
    and "held_cells ts' = add_mset cid (held_cells ts)"
  shows "owners_ok (warm s1) (cells s1) ts'"
proof -
  obtain front rear where w: "tget (warm s) img = Some (front @ cid # rear)"
    and s1: "s1 = s\<lparr>warm := tput img (front @ rear) (warm s)\<rparr>"
    using take_warm_Some [OF assms(2)] by blast
  have d: "distinct (tkeys (warm s))" using assms(1) by (simp add: owners_ok_def)
  have "add_mset cid (pools (tput img (front @ rear) (warm s))) + mset (front @ rear) =
      pools (warm s) + mset (front @ rear)"
    using pools_tput [OF d, of img "front @ rear"] w by (simp add: union_ac)
  then have "add_mset cid (pools (tput img (front @ rear) (warm s))) = pools (warm s)"
    using add_right_imp_eq by blast
  then have "held_cells ts' + pools (tput img (front @ rear) (warm s)) = held_cells ts + pools (warm s)"
    by (metis assms(3) union_mset_add_mset_left union_mset_add_mset_right)
  then show ?thesis using assms(1) s1 d by (simp add: owners_ok_def)
qed

lemma owners_ok_place:
  assumes "owners_ok (warm s) (cells s) ts" and "cell_id_fresh cid s"
    and "held_cells ts' = add_mset cid (held_cells ts)"
  shows "owners_ok (warm s) (cells (place_cell i cid img req j now s)) ts'"
  using assms mset_tkeys_tput_new [of cid "cells s"]
  by (simp add: owners_ok_def place_cell_def cell_id_fresh_def)

text \<open>The scan of the queue keeps the parts of the invariant; the queue it has split is the
  queue of the state.\<close>

lemma decide_scan_core:
  assumes "decide_scan now fresh before rest s = (d, s')" and "cell_id_fresh fresh s"
    and "cells_ok (boxes s) (cells s)" and "owners_ok (warm s) (cells s) ts"
  shows "cells_ok (boxes s') (cells s') \<and> owners_ok (warm s') (cells s') (ts @ decision_tasks d) \<and>
    warm_pending s' = warm_pending s \<and> running_builds s' = running_builds s + held_builds (decision_tasks d) \<and>
    held_images (decision_tasks d) = {#}"
  using assms
proof (induction now fresh before rest s rule: decide_scan.induct)
  case (1 now fresh before s)
  then show ?case by (auto simp: decision_tasks_def)
next
  case (2 now fresh before j rest s)
  show ?case
  proof (cases "tget (jobs s) j")
    case None
    then show ?thesis using "2.IH"(1) [OF None] "2.prems" by simp
  next
    case (Some jr)
    note jr = Some
    let ?img = "job_image (jr_job jr)" and ?req = "job_resources (jr_job jr)"
    show ?thesis
    proof (cases "take_warm ?img ?req s")
      case (Some p)
      obtain cid s1 where p: "p = (cid, s1)" by fastforce
      note tw = Some [unfolded p]
      obtain front rear where s1: "s1 = s\<lparr>warm := tput ?img (front @ rear) (warm s)\<rparr>"
        using take_warm_Some [OF tw] by blast
      have d: "d = Run j cid True" and s': "s' = (assign now j cid False (s1\<lparr>queue := before @ rest\<rparr>))
          \<lparr>running_builds := running_builds s + 1\<rparr>"
        using "2.prems"(1) jr tw s1 by (auto simp: Let_def)
      have "owners_ok (warm s1) (cells s1) (ts @ decision_tasks d)"
        by (rule owners_ok_take [OF "2.prems"(4) tw]) (simp add: d decision_tasks_def)
      then have "owners_ok (warm s') (cells s') (ts @ decision_tasks d)"
        by (simp add: s' owners_ok_def)
      with "2.prems"(3) show ?thesis by (simp add: s' s1 d decision_tasks_def)
    next
      case None
      show ?thesis
      proof (cases "pick_box ?req (boxes s)")
        case (Some i)
        let ?s1 = "place_cell i fresh ?img ?req (Some j) now s"
        have d: "d = Run j fresh False" and s': "s' = (assign now j fresh True (?s1\<lparr>queue := before @ rest\<rparr>))
            \<lparr>running_builds := running_builds s + 1\<rparr>"
          using "2.prems"(1) jr None Some by (auto simp: Let_def)
        have c: "cells_ok (boxes ?s1) (cells ?s1)"
          by (rule cells_ok_place [OF "2.prems"(3) Some "2.prems"(2)])
        have "owners_ok (warm s) (cells ?s1) (ts @ decision_tasks d)"
          by (rule owners_ok_place [OF "2.prems"(4,2)]) (simp add: d decision_tasks_def)
        then have "owners_ok (warm s') (cells s') (ts @ decision_tasks d)"
          by (simp add: s' owners_ok_def)
        with c show ?thesis by (simp add: s' d decision_tasks_def)
      next
        case None2: None
        have "decide_scan now fresh (before @ [j]) rest s = (d, s')"
          using "2.prems"(1) jr None None2 by (simp add: Let_def)
        then show ?thesis
          using "2.IH"(2) [OF jr refl refl None None2] "2.prems"(2-4) by simp
      qed
    qed
  qed
qed

lemma decide_scan_jobs_ok:
  assumes "decide_scan now fresh before rest s = (d, s')" and "queue s = before @ rest"
    and "jobs_ok (jobs s) (queue s) ts"
  shows "jobs_ok (jobs s') (queue s') (ts @ decision_tasks d)"
  using assms
proof (induction now fresh before rest s rule: decide_scan.induct)
  case (1 now fresh before s)
  then show ?case by (auto simp: decision_tasks_def)
next
  case (2 now fresh before j rest s)
  obtain jr where jr: "tget (jobs s) j = Some jr"
    using jobs_ok_live [OF "2.prems"(3), of j] "2.prems"(2) by auto
  let ?img = "job_image (jr_job jr)" and ?req = "job_resources (jr_job jr)"
  have assigned: "jobs_ok (jobs (assign now j cid cold (s1\<lparr>queue := before @ rest\<rparr>))) (before @ rest) (ts @ [Run_Cell j cid w])"
    if "jobs s1 = jobs s" for cid cold w s1
    by (rule assign_jobs_ok [of _ "queue s" ts]) (use "2.prems"(2,3) that in auto)
  show ?case
  proof (cases "take_warm ?img ?req s")
    case (Some p)
    obtain cid s1 where p: "p = (cid, s1)" by fastforce
    obtain front rear where s1: "s1 = s\<lparr>warm := tput ?img (front @ rear) (warm s)\<rparr>"
      using take_warm_Some [OF Some [unfolded p]] by blast
    then show ?thesis
      using "2.prems"(1) jr Some p assigned [of s1 cid False True] by (auto simp: Let_def decision_tasks_def)
  next
    case None
    show ?thesis
    proof (cases "pick_box ?req (boxes s)")
      case (Some i)
      then show ?thesis
        using "2.prems"(1) jr None assigned [of "place_cell i fresh ?img ?req (Some j) now s" fresh True False]
        by (auto simp: Let_def decision_tasks_def)
    next
      case None2: None
      have "decide_scan now fresh (before @ [j]) rest s = (d, s')"
        using "2.prems"(1) jr None None2 by (simp add: Let_def)
      then show ?thesis
        using "2.IH"(2) [OF jr refl refl None None2] "2.prems"(2,3) by simp
    qed
  qed
qed

lemma held_builds_decision: "held_builds (decision_tasks d) \<le> 1"
  by (cases d) (simp_all add: decision_tasks_def)

lemma schedule_core:
  assumes "core_ok cfg s ts" and "cell_id_fresh fresh s" and "decide_one cfg now fresh s = (d, s')"
  shows "core_ok cfg s' (ts @ decision_tasks d)"
proof (cases "running_builds s \<ge> max_concurrent_builds cfg")
  case True
  then show ?thesis using assms(1,3) by (auto simp: decide_one_def decision_tasks_def)
next
  case False
  have "decide_scan now fresh [] (queue s) s = (d, s')" using assms(3) False by (simp add: decide_one_def)
  from decide_scan_core [OF this assms(2)] show ?thesis
    using assms(1) False held_builds_decision [of d] by (auto simp: core_ok_def builds_ok_def pending_ok_def)
qed

lemma schedule_jobs_ok:
  assumes "decide_one cfg now fresh s = (d, s')" and "jobs_ok (jobs s) (queue s) ts"
  shows "jobs_ok (jobs s') (queue s') (ts @ decision_tasks d)"
  using assms decide_scan_jobs_ok [of now fresh "[]" "queue s" s d s' ts]
  by (auto simp: decide_one_def decision_tasks_def split: if_splits)

subsection \<open>The warm pool\<close>

lemma scale_up_core:
  assumes inv: "core_ok cfg s0 ts0" and fresh: "cell_id_fresh fresh s0"
    and up: "scale_up cfg now fresh img s0 = Some (s, ts)"
  shows "core_ok cfg s (ts0 @ ts)" and "jobs s = jobs s0" and "queue s = queue s0" and "held_jobs ts = {#}"
proof -
  obtain i where i: "pick_box (warm_spec cfg) (boxes s0) = Some i"
    and ts: "ts = [Provision_Warm img fresh]"
    and s: "s = (place_cell i fresh img (warm_spec cfg) None now s0)
      \<lparr>warm_pending := tput img (pending_len img s0 + 1) (warm_pending s0)\<rparr>"
    using up by (auto simp: scale_up_def Let_def split: if_splits option.splits)
  have c: "cells_ok (boxes s) (cells s)"
    using cells_ok_place [OF _ i fresh] inv by (simp add: s core_ok_def)
  have o: "owners_ok (warm s) (cells s) (ts0 @ ts)"
    using owners_ok_place [OF _ fresh, of ts0 "ts0 @ ts"] inv by (simp add: s ts core_ok_def)
  have "pending_ok (warm_pending s) (ts0 @ ts)"
    using inv by (auto simp: s ts core_ok_def pending_ok_def pending_len_def)
  with c o inv show "core_ok cfg s (ts0 @ ts)" by (simp add: s ts core_ok_def builds_ok_def)
  show "jobs s = jobs s0" "queue s = queue s0" "held_jobs ts = {#}" by (simp_all add: s ts)
qed

lemma split_pool_mset:
  "split_pool stale target kept pool = (ks, rs) \<Longrightarrow> mset pool = mset ks + mset rs"
  by (induction stale target kept pool arbitrary: ks rs rule: split_pool.induct)
    (auto split: prod.splits if_splits)

lemma fold_set_cell_state [simp]:
  "warm (fold (\<lambda>c. set_cell_state c st) cs s) = warm s"
  "jobs (fold (\<lambda>c. set_cell_state c st) cs s) = jobs s"
  "queue (fold (\<lambda>c. set_cell_state c st) cs s) = queue s"
  "warm_pending (fold (\<lambda>c. set_cell_state c st) cs s) = warm_pending s"
  "running_builds (fold (\<lambda>c. set_cell_state c st) cs s) = running_builds s"
  "boxes (fold (\<lambda>c. set_cell_state c st) cs s) = boxes s"
  "tkeys (cells (fold (\<lambda>c. set_cell_state c st) cs s)) = tkeys (cells s)"
  "cells_ok bs (cells (fold (\<lambda>c. set_cell_state c st) cs s)) = cells_ok bs (cells s)"
  by (induction cs arbitrary: s) simp_all

lemma fold_set_cell_state_keys [simp]:
  "image_mset fst (mset (cells (fold (\<lambda>c. set_cell_state c st) cs s))) = image_mset fst (mset (cells s))"
  by (metis fold_set_cell_state(7) mset_map)

text \<open>The accumulator of the reaper: the cells already taken out are still owned, by the list.\<close>

definition reap_acc_ok :: "inner \<Rightarrow> task list \<Rightarrow> inner \<times> cell_id list \<Rightarrow> bool" where
  "reap_acc_ok s0 ts acc \<longleftrightarrow>
     (let (s, reap) = acc
      in cells_ok (boxes s) (cells s) \<and> owners_ok (warm s) (cells s) (ts @ map Teardown_Warm reap) \<and>
         jobs s = jobs s0 \<and> queue s = queue s0 \<and> warm_pending s = warm_pending s0 \<and>
         running_builds s = running_builds s0)"

lemma reap_image_ok:
  assumes "reap_acc_ok s0 ts acc"
  shows "reap_acc_ok s0 ts (reap_image cfg now img acc)"
proof -
  obtain s reap where acc: "acc = (s, reap)" by fastforce
  show ?thesis
  proof (cases "tget (warm s) img")
    case None
    then show ?thesis using assms by (simp add: reap_image_def acc)
  next
    case (Some pool)
    obtain ks rs where sp: "split_pool (is_stale (warm_idle_ttl_ms cfg) now (cells s))
        (warm_target_for cfg img) 0 pool = (ks, rs)" by fastforce
    have d: "distinct (tkeys (warm s))" using assms by (simp add: reap_acc_ok_def acc owners_ok_def)
    have "pools (tput img ks (warm s)) + mset rs + mset ks = pools (warm s) + mset ks"
      using pools_tput [OF d, of img ks] Some split_pool_mset [OF sp] by (simp add: union_ac)
    then have "pools (tput img ks (warm s)) + mset rs = pools (warm s)"
      by (rule add_right_imp_eq)
    then have "mset rs + pools (tput img ks (warm s)) = pools (warm s)" by (simp add: union_commute)
    then show ?thesis
      using assms d by (simp add: reap_acc_ok_def reap_image_def acc Some sp owners_ok_def add.assoc)
  qed
qed

lemma reap_warm_ok:
  assumes "core_ok cfg s0 ts" and "reap_warm cfg now s0 = (s, reap)"
  shows "reap_acc_ok s0 ts (s, reap)"
proof -
  have "reap_acc_ok s0 ts (fold (reap_image cfg now) ks acc)" if "reap_acc_ok s0 ts acc" for ks acc
    using that by (induction ks arbitrary: acc) (simp_all add: reap_image_ok)
  moreover have "reap_acc_ok s0 ts (s0, [])" using assms(1) by (simp add: reap_acc_ok_def core_ok_def)
  ultimately show ?thesis using assms(2) by (metis reap_warm_def)
qed

lemma reap_warm_core:
  assumes "core_ok cfg s0 ts" and "reap_warm cfg now s0 = (s, reap)"
  shows "core_ok cfg s (ts @ map Teardown_Warm reap)" and "jobs s = jobs s0" and "queue s = queue s0"
  using reap_warm_ok [OF assms] assms(1) by (simp_all add: reap_acc_ok_def core_ok_def builds_ok_def pending_ok_def)

subsection \<open>Finished jobs and logs\<close>

lemma reap_jobs_inner [simp]:
  "boxes (h_inner (reap_finished_jobs lim h)) = boxes (h_inner h)"
  "cells (h_inner (reap_finished_jobs lim h)) = cells (h_inner h)"
  "warm (h_inner (reap_finished_jobs lim h)) = warm (h_inner h)"
  "queue (h_inner (reap_finished_jobs lim h)) = queue (h_inner h)"
  "warm_pending (h_inner (reap_finished_jobs lim h)) = warm_pending (h_inner h)"
  "running_builds (h_inner (reap_finished_jobs lim h)) = running_builds (h_inner h)"
  "h_tasks (reap_finished_jobs lim h) = h_tasks h"
  by (simp_all add: reap_finished_jobs_def Let_def)

lemma reap_jobs_ok:
  "jobs_ok (jobs (h_inner h)) q ts \<Longrightarrow> jobs_ok (jobs (h_inner (reap_finished_jobs lim h))) q ts"
  using live_jobs_fold_tdel [OF _ evicted_not_live]
  by (simp add: reap_finished_jobs_def Let_def jobs_ok_def)

lemma reap_jobs_core [simp]: "core_ok cfg (h_inner (reap_finished_jobs lim h)) ts = core_ok cfg (h_inner h) ts"
  by (simp add: core_ok_def)

subsection \<open>Tasks\<close>

lemma core_ok_swap:
  assumes "core_ok cfg s (ts1 @ t # ts2)" and "task_cells u = task_cells t"
    and "task_builds u = task_builds t" and "task_images u = task_images t"
  shows "core_ok cfg s (ts1 @ u # ts2)"
  using assms by (simp add: core_ok_def owners_ok_def builds_ok_def pending_ok_def)

lemma core_ok_set_cell_state [simp]: "core_ok cfg (set_cell_state cid st s) ts = core_ok cfg s ts"
  by (simp add: core_ok_def owners_ok_def)

lemma core_ok_jobs [simp]:
  "core_ok cfg (s\<lparr>jobs := js\<rparr>) ts = core_ok cfg s ts" "core_ok cfg (s\<lparr>queue := q\<rparr>) ts = core_ok cfg s ts"
  by (simp_all add: core_ok_def)

lemma core_ok_cell: "core_ok cfg s ts \<Longrightarrow> c \<in># held_cells ts \<Longrightarrow> \<exists>cr. tget (cells s) c = Some cr"
  using owners_ok_cell by (auto simp: core_ok_def)

lemma core_ok_remove:
  assumes "core_ok cfg s (ts1 @ t # ts2)" and "task_cells t = [cid]" and "held_cells ts = {#}"
  shows "cells_ok (boxes (remove_cell cid s)) (cells (remove_cell cid s))"
    and "owners_ok (warm s) (cells (remove_cell cid s)) (ts1 @ ts @ ts2)"
  using assms by (auto simp: core_ok_def intro: cells_ok_remove owners_ok_remove)

lemma build_phase_core:
  assumes "core_ok cfg (h_inner h) (ts1 @ Build_Phase j cid # ts2)" and "build_phase now j cid h = (s, logs, ts)"
  shows "(tget (jobs (h_inner h)) j \<noteq> None \<longrightarrow> core_ok cfg s (ts1 @ ts @ ts2)) \<and>
    (\<exists>gone. core_ok cfg s (ts1 @ ts @ ts2 @ gone))"
proof (cases "tget (jobs (h_inner h)) j")
  case None
  then have "s = set_cell_state cid Running (h_inner h)" "ts = []" using assms(2) by (auto simp: build_phase_def Let_def)
  then have "core_ok cfg s (ts1 @ ts @ ts2 @ [Teardown_Cell cid])"
    using assms(1) by (simp add: core_ok_def owners_ok_def builds_ok_def pending_ok_def)
  then show ?thesis using None by blast
next
  case (Some jr)
  let ?s2 = "(set_cell_state cid Running (h_inner h))\<lparr>jobs := tmod j (start_job now) (jobs (h_inner h))\<rparr>"
  have "s = ?s2 \<and> (\<exists>u. ts = [u] \<and> task_cells u = [cid] \<and> task_builds u = 1 \<and> task_images u = [])"
    using assms(2) Some by (auto simp: build_phase_def Let_def split: option.splits)
  then obtain u where u: "s = ?s2" "ts = [u]" "task_cells u = [cid]" "task_builds u = 1" "task_images u = []" by blast
  have "core_ok cfg (h_inner h) (ts1 @ u # ts2)" by (rule core_ok_swap [OF assms(1)]) (simp_all add: u)
  then have "core_ok cfg s (ts1 @ ts @ ts2)" by (simp add: u)
  moreover from this have "core_ok cfg s (ts1 @ ts @ ts2 @ [])" by simp
  ultimately show ?thesis by blast
qed

lemma fail_provision_core:
  assumes "core_ok cfg (h_inner h) (ts1 @ Fail_Provision j cid msg # ts2)"
    and "fail_provision lim now j cid msg' h = (s, logs)"
  shows "core_ok cfg s (ts1 @ [After_Fail] @ ts2)"
proof -
  note ok = assms(1)
  have s: "s = (remove_cell cid (h_inner h))\<lparr>jobs := tmod j (fail_job now) (jobs (h_inner h)),
      running_builds := running_builds (h_inner h) - 1\<rparr>"
    using assms(2) by (auto simp: fail_provision_def Let_def)
  show ?thesis
    using core_ok_remove [OF ok, of cid "[After_Fail]"] ok
    by (simp add: s core_ok_def builds_ok_def pending_ok_def)
qed

lemma finish_build_core:
  assumes "core_ok cfg (h_inner h) (ts1 @ Await_Build j cid hdl # ts2)" and "finish_build lim now res j h = (s, logs)"
  shows "core_ok cfg s (ts1 @ [After_Build cid] @ ts2)"
proof -
  have s: "s = (h_inner h)\<lparr>jobs := tmod j (finish_job now res) (jobs (h_inner h))\<rparr>"
    using assms(2) by (auto simp: finish_build_def Let_def)
  show ?thesis using core_ok_swap [OF assms(1), of "After_Build cid"] by (simp add: s)
qed

lemma teardown_finish_core:
  assumes "core_ok cfg s (ts1 @ Await_Terminate cid # ts2)"
  shows "core_ok cfg (teardown_finish cid s) (ts1 @ ts2)"
  using core_ok_remove [OF assms, of cid "[]"] assms
  by (simp add: teardown_finish_def Let_def core_ok_def builds_ok_def pending_ok_def)

lemma pending_ok_dec:
  assumes "pending_ok wp (ts1 @ Await_Warm img cid # ts2)"
  shows "pending_ok (tmod img (\<lambda>p. p - 1) wp) (ts1 @ ts2)"
  unfolding pending_ok_def
proof
  fix i
  have "(case tget wp i of None \<Rightarrow> 0 | Some n \<Rightarrow> n) = count (held_images (ts1 @ Await_Warm img cid # ts2)) i"
    using assms by (simp add: pending_ok_def)
  then show "(case tget (tmod img (\<lambda>p. p - 1) wp) i of None \<Rightarrow> 0 | Some n \<Rightarrow> n) =
      count (held_images (ts1 @ ts2)) i"
    by (auto split: option.splits if_splits)
qed

lemma warm_ready_core:
  assumes ok: "core_ok cfg s (ts1 @ Await_Warm img cid # ts2)"
  shows "core_ok cfg (warm_ready now img cid hdl s) (ts1 @ ts2)"
proof -
  let ?pool = "case tget (warm s) img of None \<Rightarrow> [] | Some p \<Rightarrow> p"
  have d: "distinct (tkeys (warm s))" using ok by (simp add: core_ok_def owners_ok_def)
  have "pools (tput img (?pool @ [cid]) (warm s)) = add_mset cid (pools (warm s))"
    using pools_tput [OF d, of img "?pool @ [cid]"] by (auto split: option.splits)
  then have "owners_ok (tput img (?pool @ [cid]) (warm s)) (cells s) (ts1 @ ts2)"
    using ok d by (simp add: core_ok_def owners_ok_def)
  then show ?thesis
    using ok pending_ok_dec [of "warm_pending s" ts1 img cid ts2]
    by (simp add: warm_ready_def pending_dec_def Let_def core_ok_def cells_ok_tmod
      owners_ok_def builds_ok_def del: mset_map)
qed

lemma warm_failed_core:
  assumes ok: "core_ok cfg s (ts1 @ Await_Warm img cid # ts2)"
  shows "core_ok cfg (warm_failed img cid s) (ts1 @ ts2)"
  using core_ok_remove [OF ok, of cid "[]"] ok pending_ok_dec [of "warm_pending s" ts1 img cid ts2]
  by (simp add: warm_failed_def pending_dec_def core_ok_def builds_ok_def)

lemma warm_torn_down_core:
  assumes ok: "core_ok cfg s (ts1 @ Await_Warm_Terminate cid # ts2)"
  shows "core_ok cfg (remove_cell cid s) (ts1 @ ts2)"
  using core_ok_remove [OF ok, of cid "[]"] ok by (simp add: core_ok_def builds_ok_def pending_ok_def)

text \<open>No task can lose its cell but \<open>build_phase\<close>, and only when the record of its job is gone.\<close>

lemma task_step_core:
  assumes ok: "core_ok cfg (h_inner h) (ts1 @ t # ts2)" and st: "task_step lim now r t h = (s, logs, ts)"
    and "\<And>j cid. t \<noteq> Build_Phase j cid"
  shows "core_ok cfg s (ts1 @ ts @ ts2)"
proof (cases t)
  case (Run_Cell j cid w)
  then obtain c where "tget (cells (h_inner h)) cid = Some c"
    using core_ok_cell [OF ok, of cid] by auto
  with st Run_Cell show ?thesis
    using core_ok_swap [OF ok, of "Build_Phase j cid"] core_ok_swap [OF ok, of "Await_Provision j cid"]
    by (auto simp: run_cell_begin_def split: if_splits)
next
  case (Await_Provision j cid)
  have "core_ok cfg (cold_provisioned cid hdl (h_inner h)) (ts1 @ t # ts2)" for hdl
    using ok by (simp add: cold_provisioned_def core_ok_def cells_ok_tmod owners_ok_def del: mset_map)
  from core_ok_swap [OF this, of "Build_Phase j cid"] show ?thesis
    using st Await_Provision ok
    by (auto split: reply.splits dest: core_ok_swap [of _ _ _ _ _ "Fail_Provision j cid msg" for msg])
next
  case (Fail_Provision j cid msg)
  then show ?thesis using ok st fail_provision_core [of cfg h ts1 j cid msg ts2] by (auto split: prod.splits)
next
  case After_Fail
  have "core_ok cfg (h_inner h) (ts1 @ ts2)"
    using ok After_Fail by (simp add: core_ok_def owners_ok_def builds_ok_def pending_ok_def)
  then show ?thesis using st After_Fail by (auto simp: Let_def)
next
  case (Build_Phase j cid)
  then show ?thesis using assms(3) by blast
next
  case (Await_Build j cid hdl)
  then show ?thesis
    using ok st finish_build_core [of cfg h ts1 j cid hdl ts2]
    by (auto split: prod.splits reply.splits)
next
  case (After_Build cid)
  then have "core_ok cfg (h_inner h) (ts1 @ Teardown_Cell cid # ts2)"
    by (auto intro: core_ok_swap [OF ok])
  then show ?thesis using st After_Build by (auto simp: Let_def)
next
  case (Teardown_Cell cid)
  then have "core_ok cfg (h_inner h) (ts1 @ Await_Terminate cid # ts2)"
    by (auto intro: core_ok_swap [OF ok])
  then show ?thesis using st Teardown_Cell by (auto simp: teardown_begin_def)
next
  case (Await_Terminate cid)
  then show ?thesis using ok st teardown_finish_core by auto
next
  case (Provision_Warm img cid)
  then obtain c where "tget (cells (h_inner h)) cid = Some c"
    using core_ok_cell [OF ok, of cid] by auto
  with st Provision_Warm show ?thesis using core_ok_swap [OF ok, of "Await_Warm img cid"] by auto
next
  case (Await_Warm img cid)
  then show ?thesis using ok st warm_ready_core warm_failed_core by (auto split: reply.splits)
next
  case (Teardown_Warm cid)
  then show ?thesis using st core_ok_swap [OF ok, of "Await_Warm_Terminate cid"] by auto
next
  case (Await_Warm_Terminate cid)
  then show ?thesis using ok st warm_torn_down_core by auto
qed

lemma task_step_gone:
  assumes "core_ok cfg (h_inner h) (ts1 @ t # ts2)" and "task_step lim now r t h = (s, logs, ts)"
  shows "\<exists>gone. core_ok cfg s (ts1 @ ts @ ts2 @ gone)"
proof (cases "\<exists>j cid. t = Build_Phase j cid")
  case True
  then show ?thesis using assms build_phase_core by fastforce
next
  case False
  then have "core_ok cfg s (ts1 @ ts @ ts2 @ [])" using task_step_core [OF assms] by simp
  then show ?thesis by blast
qed

text \<open>The jobs: a task that finds its cell and its record stays responsible for its job until it has finished it.\<close>

lemma jobs_ok_swap:
  assumes "jobs_ok js q (ts1 @ t # ts2)" and "held_jobs ts = mset (task_jobs t)"
  shows "jobs_ok js q (ts1 @ ts @ ts2)"
  using assms by (simp add: jobs_ok_def)

lemma task_step_jobs_ok:
  assumes ok: "core_ok cfg (h_inner h) (ts1 @ t # ts2)" and jobs: "jobs_ok (jobs (h_inner h)) (queue (h_inner h)) (ts1 @ t # ts2)"
    and st: "task_step lim now r t h = (s, logs, ts)"
  shows "jobs_ok (jobs s) (queue s) (ts1 @ ts @ ts2)"
proof (cases t)
  case (Run_Cell j cid w)
  then obtain c where "tget (cells (h_inner h)) cid = Some c"
    using core_ok_cell [OF ok, of cid] by auto
  with st Run_Cell show ?thesis using jobs by (auto simp: run_cell_begin_def jobs_ok_def split: if_splits)
next
  case (Build_Phase j cid)
  have "j \<in># mset (queue (h_inner h)) + held_jobs (ts1 @ t # ts2)" by (simp add: Build_Phase)
  then obtain jr where jr: "tget (jobs (h_inner h)) j = Some jr" using jobs_ok_live [OF jobs] by blast
  have "jobs_ok (tmod j (start_job now) (jobs (h_inner h))) (queue (h_inner h)) (ts1 @ t # ts2)"
    by (rule jobs_ok_step [OF jobs]) (simp_all add: Build_Phase start_job_def)
  then show ?thesis using st jr by (auto simp: Build_Phase build_phase_def Let_def jobs_ok_def split: option.splits)
next
  case (Fail_Provision j cid msg)
  have "jobs_ok (tmod j (fail_job now) (jobs (h_inner h))) (queue (h_inner h)) (ts1 @ [After_Fail] @ ts2)"
    by (rule jobs_ok_done [OF jobs]) (auto simp: Fail_Provision fail_job_def)
  then show ?thesis using st by (auto simp: Fail_Provision fail_provision_def Let_def)
next
  case (Await_Build j cid hdl)
  have "jobs_ok (tmod j (finish_job now res) (jobs (h_inner h))) (queue (h_inner h)) (ts1 @ [After_Build cid] @ ts2)" for res
    by (rule jobs_ok_done [OF jobs]) (auto simp: Await_Build finish_job_def split: sum.split)
  then show ?thesis using st jobs by (auto simp: Await_Build finish_build_def Let_def split: reply.splits)
next
  case After_Fail
  then show ?thesis using st jobs reap_jobs_ok [of h _ "ts1 @ t # ts2" lim] by (auto simp: jobs_ok_def Let_def)
next
  case (After_Build cid)
  then show ?thesis using st jobs reap_jobs_ok [of h _ "ts1 @ t # ts2" lim] by (auto simp: jobs_ok_def Let_def)
qed (use jobs st in \<open>auto simp: jobs_ok_def cold_provisioned_def teardown_begin_def teardown_finish_def warm_ready_def warm_failed_def
    pending_dec_def Let_def split: reply.splits option.splits\<close>)

lemma task_step_inv:
  assumes "core_ok cfg (h_inner h) (ts1 @ t # ts2)" and "jobs_ok (jobs (h_inner h)) (queue (h_inner h)) (ts1 @ t # ts2)"
    and "task_step lim now r t h = (s, logs, ts)"
  shows "core_ok cfg s (ts1 @ ts @ ts2)" and "jobs_ok (jobs s) (queue s) (ts1 @ ts @ ts2)"
proof -
  show "jobs_ok (jobs s) (queue s) (ts1 @ ts @ ts2)" using task_step_jobs_ok [OF assms] .
  show "core_ok cfg s (ts1 @ ts @ ts2)"
  proof (cases "\<exists>j cid. t = Build_Phase j cid")
    case True
    then obtain j cid where t: "t = Build_Phase j cid" by blast
    have "j \<in># mset (queue (h_inner h)) + held_jobs (ts1 @ t # ts2)" by (simp add: t)
    then have "tget (jobs (h_inner h)) j \<noteq> None" using jobs_ok_live [OF assms(2), of j] by auto
    then show ?thesis using build_phase_core [of cfg h ts1 j cid ts2 now s logs ts] assms(1,3) by (simp add: t)
  next
    case False
    then show ?thesis using task_step_core [OF assms(1,3)] by blast
  qed
qed

text \<open>Core and jobs together.\<close>

definition step_ok :: "hive_config \<Rightarrow> inner \<Rightarrow> task list \<Rightarrow> bool" where
  "step_ok cfg s ts \<longleftrightarrow> core_ok cfg s ts \<and> jobs_ok (jobs s) (queue s) ts"

lemma hive_inv_step_ok: "hive_inv cfg h \<longleftrightarrow> step_ok cfg (h_inner h) (h_tasks h)"
  by (simp add: hive_inv_core step_ok_def)

lemma step_ok_job:
  assumes "step_ok cfg s ts" and "j \<in># held_jobs ts"
  shows "\<exists>jr. tget (jobs s) j = Some jr \<and> \<not> job_is_terminal (jr_state jr)"
  using assms jobs_ok_live [of "jobs s" "queue s" ts j] by (simp add: step_ok_def)

section \<open>Every reachable state\<close>

lemma hive_move_core: "hive_move cfg lim h h' \<Longrightarrow> hive_core cfg h \<Longrightarrow> hive_core cfg h'"
proof (induction rule: hive_move.induct)
  case (step_schedule fresh h now d s)
  then obtain gone where "core_ok cfg (h_inner h) (h_tasks h @ gone)" by (auto simp: hive_core_def)
  then have "core_ok cfg s (h_tasks h @ decision_tasks d @ gone)"
    using schedule_core step_schedule(1,2) unfolding core_ok_last by blast
  then show ?case by (auto simp: hive_core_def)
next
  case (step_scale_up img fresh h now s ts)
  then obtain gone where "core_ok cfg (h_inner h) (h_tasks h @ gone)" by (auto simp: hive_core_def)
  then have "core_ok cfg s (h_tasks h @ ts @ gone)"
    using scale_up_core(1) step_scale_up(2,3) unfolding core_ok_last by blast
  then show ?case by (auto simp: hive_core_def)
next
  case (step_reap_warm now h s reap)
  then obtain gone where "core_ok cfg (h_inner h) (h_tasks h @ gone)" by (auto simp: hive_core_def)
  then have "core_ok cfg s (h_tasks h @ map Teardown_Warm reap @ gone)"
    using reap_warm_core(1) step_reap_warm(1) unfolding core_ok_last by blast
  then show ?case by (auto simp: hive_core_def)
next
  case (step_task h ts1 t ts2 now r s logs ts)
  then obtain gone where "core_ok cfg (h_inner h) (ts1 @ t # (ts2 @ gone))" by (auto simp: hive_core_def)
  from task_step_gone [OF this step_task(2)] show ?case by (auto simp: hive_core_def)
qed (auto simp: hive_core_def)

lemma hive_reachable_core: "hive_reachable cfg lim h \<Longrightarrow> hive_core cfg h"
proof (induction rule: hive_reachable.induct)
  case (reach_start ids)
  then have "core_ok cfg (h_inner (start cfg ids)) (h_tasks (start cfg ids) @ [])"
    using start_inv [of cfg ids] by (simp add: hive_inv_core)
  then show ?case unfolding hive_core_def by blast
next
  case (reach_step h h')
  from reach_step(2,3) show ?case
    by cases (auto simp: hive_core_def submit_def submit_core dest: hive_move_core [unfolded hive_core_def])
qed

lemma hive_move_inv: "hive_move cfg lim h h' \<Longrightarrow> hive_inv cfg h \<Longrightarrow> hive_inv cfg h'"
proof (induction rule: hive_move.induct)
  case (step_schedule fresh h now d s)
  then show ?case
    using schedule_core [of cfg "h_inner h" "h_tasks h" fresh now d s] schedule_jobs_ok [of cfg now fresh "h_inner h" d s "h_tasks h"]
    by (simp add: hive_inv_core)
next
  case (step_scale_up img fresh h now s ts)
  then show ?case using scale_up_core [of cfg "h_inner h" "h_tasks h" fresh now img s ts] by (auto simp: hive_inv_core jobs_ok_def)
next
  case (step_reap_warm now h s reap)
  then show ?case using reap_warm_core [of cfg "h_inner h" "h_tasks h" now s reap] by (auto simp: hive_inv_core jobs_ok_def)
next
  case (step_reap_jobs h)
  then show ?case by (simp add: hive_inv_core reap_jobs_ok)
next
  case (step_log h j l)
  then show ?case by (simp add: hive_inv_core)
next
  case (step_task h ts1 t ts2 now r s logs ts)
  then show ?case using task_step_inv [of cfg h ts1 t ts2 lim now r s logs ts] by (simp add: hive_inv_core)
qed

lemma hive_orderly_inv: "hive_orderly cfg lim h \<Longrightarrow> hive_inv cfg h"
  by (induction rule: hive_orderly.induct) (simp_all add: start_inv submit_inv hive_move_inv)

end
