(* ===== verification/Control_Plane_Phase.thy ===== *)
theory Control_Plane_Phase
  imports Control_Plane_Inv
begin

text \<open>
  The second layer of the control plane's invariant: the state of the cell each task works on,
  the state of the cells of a warm pool, and the state of the queued jobs. From it follow the
  facts about lifecycles: which cell transitions the steps make, and that jobs only advance.
\<close>

section \<open>The phase of a task\<close>

definition cell_phase :: "(cell_id, cell_record) table \<Rightarrow> cell_id \<Rightarrow> (cell_record \<Rightarrow> bool) \<Rightarrow> bool" where
  "cell_phase cs cid p = (case tget cs cid of None \<Rightarrow> False | Some c \<Rightarrow> p c)"

fun phase_ok :: "(cell_id, cell_record) table \<Rightarrow> task \<Rightarrow> bool" where
  "phase_ok cs (Run_Cell j cid w) =
     cell_phase cs cid (\<lambda>c. if w then c_state c = Assigned \<and> c_handle c \<noteq> None else c_state c = Provisioning)"
| "phase_ok cs (Await_Provision j cid) = cell_phase cs cid (\<lambda>c. c_state c = Provisioning)"
| "phase_ok cs (Fail_Provision j cid msg) = True"
| "phase_ok cs After_Fail = True"
| "phase_ok cs (Build_Phase j cid) = cell_phase cs cid (\<lambda>c. c_state c = Assigned \<and> c_handle c \<noteq> None)"
| "phase_ok cs (Await_Build j cid hdl) = cell_phase cs cid (\<lambda>c. c_state c = Running)"
| "phase_ok cs (After_Build cid) = cell_phase cs cid (\<lambda>c. c_state c = Running)"
| "phase_ok cs (Teardown_Cell cid) = cell_phase cs cid (\<lambda>c. c_state c = Running)"
| "phase_ok cs (Await_Terminate cid) = cell_phase cs cid (\<lambda>c. c_state c = Draining)"
| "phase_ok cs (Provision_Warm img cid) = cell_phase cs cid (\<lambda>c. c_state c = Provisioning)"
| "phase_ok cs (Await_Warm img cid) = cell_phase cs cid (\<lambda>c. c_state c = Provisioning)"
| "phase_ok cs (Teardown_Warm cid) = cell_phase cs cid (\<lambda>c. c_state c = Draining)"
| "phase_ok cs (Await_Warm_Terminate cid) = cell_phase cs cid (\<lambda>c. c_state c = Draining)"

definition warm_ok :: "(cell_id, cell_record) table \<Rightarrow> (string, cell_id list) table \<Rightarrow> bool" where
  "warm_ok cs wm \<longleftrightarrow>
     (\<forall>cid. cid \<in># pools wm \<longrightarrow> cell_phase cs cid (\<lambda>c. c_state c = Warm \<and> c_handle c \<noteq> None))"

definition queue_ok :: "(job_id, job_record) table \<Rightarrow> job_id list \<Rightarrow> bool" where
  "queue_ok js q \<longleftrightarrow> (\<forall>j \<in> set q. \<exists>jr. tget js j = Some jr \<and> jr_state jr = Queued)"

definition phases_ok :: "hive \<Rightarrow> bool" where
  "phases_ok h \<longleftrightarrow>
     (\<forall>t \<in> set (h_tasks h). phase_ok (cells (h_inner h)) t) \<and>
     warm_ok (cells (h_inner h)) (warm (h_inner h)) \<and>
     queue_ok (jobs (h_inner h)) (queue (h_inner h))"

lemma cell_phase_Some: "cell_phase cs cid p \<longleftrightarrow> (\<exists>c. tget cs cid = Some c \<and> p c)"
  by (simp add: cell_phase_def split: option.split)

lemma cell_phase_cong: "tget cs' cid = tget cs cid \<Longrightarrow> cell_phase cs' cid p = cell_phase cs cid p"
  by (simp add: cell_phase_def)

lemma phase_ok_cong:
  "(\<And>c. c \<in> set (task_cells t) \<Longrightarrow> tget cs' c = tget cs c) \<Longrightarrow> phase_ok cs' t = phase_ok cs t"
  by (cases t) (simp_all add: cell_phase_def)

text \<open>Cells have one owner, so a step on the cells of one task leaves all others alone.\<close>

lemma owner_unique:
  assumes "cells_ok bs cs" and "owners_ok wm cs (ts1 @ t # ts2)" and "c \<in> set (task_cells t)"
  shows "c \<notin># held_cells (ts1 @ ts2)" and "c \<notin># pools wm"
proof -
  have "held_cells (ts1 @ ts2) + (mset (task_cells t) + pools wm) = mset (tkeys cs)"
    using assms(2) by (simp add: owners_ok_def union_ac)
  moreover have "count (mset (tkeys cs)) c \<le> 1"
    using assms(1) by (metis cells_ok_def count_mset_0_iff distinct_count_atmost_1 le_refl not_one_le_zero
        nat_le_linear)
  ultimately have le: "count (held_cells (ts1 @ ts2)) c + (count (mset (task_cells t)) c + count (pools wm) c) \<le> 1"
    by (metis count_union)
  have "0 < count (mset (task_cells t)) c"
    using assms(3) by (metis count_greater_zero_iff set_mset_mset)
  with le show "c \<notin># held_cells (ts1 @ ts2)" and "c \<notin># pools wm"
    by (simp_all flip: count_greater_zero_iff)
qed

lemma held_cells_mem: "t \<in> set ts \<Longrightarrow> c \<in> set (task_cells t) \<Longrightarrow> c \<in># held_cells ts"
  by (auto simp: held_cells_def)

lemma frame_tasks:
  assumes "cells_ok bs cs" and "owners_ok wm cs (ts1 @ t # ts2)"
    and same: "\<And>c. c \<notin> set (task_cells t) \<Longrightarrow> tget cs' c = tget cs c"
    and "\<forall>u \<in> set (ts1 @ t # ts2). phase_ok cs u" and "warm_ok cs wm"
    and new: "\<forall>u \<in> set ts. phase_ok cs' u"
  shows "(\<forall>u \<in> set (ts1 @ ts @ ts2). phase_ok cs' u) \<and> warm_ok cs' wm"
proof
  have "phase_ok cs' u" if "u \<in> set (ts1 @ ts2)" for u
  proof -
    have "tget cs' c = tget cs c" if "c \<in> set (task_cells u)" for c
      using owner_unique(1) [OF assms(1,2)] held_cells_mem [OF \<open>u \<in> set (ts1 @ ts2)\<close> that] same by blast
    then have "phase_ok cs' u = phase_ok cs u" by (rule phase_ok_cong)
    then show ?thesis using assms(4) that by auto
  qed
  then show "\<forall>u \<in> set (ts1 @ ts @ ts2). phase_ok cs' u" using new by auto
  show "warm_ok cs' wm"
    unfolding warm_ok_def
  proof (intro allI impI)
    fix cid
    assume cid: "cid \<in># pools wm"
    then have "tget cs' cid = tget cs cid" using owner_unique(2) [OF assms(1,2)] same by blast
    then show "cell_phase cs' cid (\<lambda>c. c_state c = Warm \<and> c_handle c \<noteq> None)"
      using assms(5) cid by (simp add: warm_ok_def cell_phase_def)
  qed
qed

section \<open>Preservation by the task steps\<close>

lemma tget_remove_cell: "tget (cells (remove_cell cid s)) c = (if c = cid then None else tget (cells s) c)"
  by (simp add: remove_cell_def split: option.split)

lemma tget_set_cell_state:
  "tget (cells (set_cell_state cid st s)) c =
    (if c = cid then map_option (\<lambda>c. c\<lparr>c_state := st\<rparr>) (tget (cells s) c) else tget (cells s) c)"
  by (simp add: set_cell_state_def)

text \<open>What one step of a task does to the cells: it touches its own cell only, and the task it
  continues as is in phase.\<close>

lemma task_step_cells:
  assumes "task_step lim now r t h = (s, logs, ts)" and "phase_ok (cells (h_inner h)) t"
  shows "(\<forall>c. c \<notin> set (task_cells t) \<longrightarrow> tget (cells s) c = tget (cells (h_inner h)) c) \<and>
    (\<forall>u \<in> set ts. phase_ok (cells s) u)"
  using assms
proof (cases t)
  case (Run_Cell j cid w)
  then show ?thesis using assms
    by (auto simp: run_cell_begin_def cell_phase_Some split: if_splits option.splits)
next
  case (Build_Phase j cid)
  then show ?thesis using assms
    by (auto simp: build_phase_def Let_def tget_set_cell_state cell_phase_Some split: option.splits)
qed (use assms in \<open>auto simp: cold_provisioned_def fail_provision_def finish_build_def Let_def
    teardown_begin_def teardown_finish_def warm_ready_def warm_failed_def pending_dec_def
    tget_remove_cell tget_set_cell_state cell_phase_Some split: reply.splits option.splits\<close>)

lemma task_step_queue:
  assumes "task_step lim now r t h = (s, logs, ts)"
  shows "queue s = queue (h_inner h)"
  using assms
  by (cases t) (auto simp: cold_provisioned_def fail_provision_def finish_build_def Let_def
    teardown_begin_def teardown_finish_def warm_ready_def warm_failed_def pending_dec_def
    build_phase_def split: reply.splits option.splits)

lemma task_step_warm:
  assumes "task_step lim now r t h = (s, logs, ts)"
  shows "warm s = warm (h_inner h) \<or>
    (\<exists>img cid p. t = Await_Warm img cid \<and> r = Provisioned p \<and>
      s = warm_ready now img cid p (h_inner h) \<and> ts = [])"
  using assms
  by (cases t) (auto simp: cold_provisioned_def fail_provision_def finish_build_def Let_def
    teardown_begin_def teardown_finish_def warm_failed_def pending_dec_def
    build_phase_def split: reply.splits option.splits)

lemma fold_tdel_other: "j \<notin> set ids \<Longrightarrow> tget (fold tdel ids m) j = tget m j"
  by (induction ids arbitrary: m) simp_all

lemma fold_tdel_in: "j \<in> set ids \<Longrightarrow> tget (fold tdel ids m) j = None"
proof (induction ids arbitrary: m)
  case (Cons i ids)
  then show ?case by (cases "j \<in> set ids") (simp_all add: fold_tdel_other)
qed simp

lemma reap_jobs_get:
  "tget (jobs (h_inner (reap_finished_jobs lim h))) j =
    (if j \<in> set (evicted_jobs (retained_jobs lim) (jobs (h_inner h))) then None
     else tget (jobs (h_inner h)) j)"
  by (simp add: reap_finished_jobs_def Let_def fold_tdel_other fold_tdel_in)

text \<open>What one step of a task does to the jobs: only the job it holds changes, and forward;
  a reap removes finished jobs.\<close>

lemma start_job_le: "\<not> job_is_terminal (jr_state jr) \<Longrightarrow> jr_state jr \<le> jr_state (start_job now jr)"
  by (cases "jr_state jr") (simp_all add: start_job_def less_eq_job_state_def)

lemma live_le_terminal: "\<not> job_is_terminal s \<Longrightarrow> job_is_terminal t \<Longrightarrow> s \<le> t"
  by (cases s; cases t) (simp_all add: less_eq_job_state_def)

lemma finish_job_terminal [simp]: "job_is_terminal (jr_state (finish_job now res jr))"
  by (simp add: finish_job_def split: sum.split)

lemma fail_job_terminal [simp]: "job_is_terminal (jr_state (fail_job now jr))"
  by (simp add: fail_job_def)

lemma task_step_jobs:
  assumes "task_step lim now r t h = (s, logs, ts)"
    and "step_ok cfg (h_inner h) (ts1 @ t # ts2)"
    and "tget (jobs (h_inner h)) j = Some jr"
  shows "(case tget (jobs s) j of
      None \<Rightarrow> job_is_terminal (jr_state jr)
    | Some jr' \<Rightarrow> jr_state jr \<le> jr_state jr' \<and> (j \<notin> set (task_jobs t) \<longrightarrow> jr' = jr))"
proof -
  have live: "\<not> job_is_terminal (jr_state jr)" if "j \<in> set (task_jobs t)"
    using step_ok_job [OF assms(2), of j] that assms(3) by auto
  have dist: "distinct (tkeys (jobs (h_inner h)))" using assms(2) by (simp add: step_ok_def jobs_ok_def)
  have reap: "job_is_terminal (jr_state jr)"
    if "j \<in> set (evicted_jobs (retained_jobs lim) (jobs (h_inner h)))"
    using evicted_terminal [OF dist that] assms(3) by auto
  show ?thesis
  proof (cases t)
    case (Build_Phase b cid)
    then show ?thesis
      using assms(1,3) live by (auto simp: build_phase_def Let_def start_job_le split: option.splits if_splits)
  qed (use assms(1,3) live reap in \<open>auto simp: cold_provisioned_def fail_provision_def finish_build_def
      Let_def teardown_begin_def teardown_finish_def warm_ready_def warm_failed_def pending_dec_def
      reap_jobs_get live_le_terminal split: reply.splits option.splits if_splits\<close>)
qed

lemma queue_not_held:
  assumes "jobs_ok js q ts" and "j \<in> set q"
  shows "j \<notin># held_jobs ts"
proof -
  have "distinct (live_jobs js)" using assms(1) by (simp add: jobs_ok_def live_jobs_distinct)
  then have "count (mset (live_jobs js)) j \<le> 1"
    by (metis count_mset_0_iff distinct_count_atmost_1 le_refl nat_le_linear not_one_le_zero)
  then have "count (mset q) j + count (held_jobs ts) j \<le> 1"
    using assms(1) by (metis count_union jobs_ok_def)
  moreover have "0 < count (mset q) j"
    using assms(2) by (metis count_greater_zero_iff set_mset_mset)
  ultimately show ?thesis by (simp flip: count_greater_zero_iff)
qed

lemma warm_ok_ready:
  assumes "warm_ok cs wm" and "distinct (tkeys wm)"
    and "cell_phase cs cid (\<lambda>c. c_state c = Warm \<and> c_handle c \<noteq> None)"
  shows "warm_ok cs (tput img ((case tget wm img of None \<Rightarrow> [] | Some p \<Rightarrow> p) @ [cid]) wm)"
proof -
  let ?pool = "case tget wm img of None \<Rightarrow> [] | Some p \<Rightarrow> p"
  have "pools (tput img (?pool @ [cid]) wm) = add_mset cid (pools wm)"
    using pools_tput [OF assms(2), of img "?pool @ [cid]"] by (auto split: option.splits)
  then show ?thesis using assms(1,3) by (simp add: warm_ok_def)
qed

lemma task_step_phases:
  assumes ok: "step_ok cfg (h_inner h) (ts1 @ t # ts2)" and tasks: "h_tasks h = ts1 @ t # ts2"
    and ph: "phases_ok h" and st: "task_step lim now r t h = (s, logs, ts)"
  shows "phases_ok (h\<lparr>h_inner := s, h_logs := logs, h_tasks := ts1 @ ts @ ts2\<rparr>)"
proof -
  note c = ok [unfolded step_ok_def core_ok_def]
  have pt: "\<forall>u \<in> set (ts1 @ t # ts2). phase_ok (cells (h_inner h)) u"
    and pw: "warm_ok (cells (h_inner h)) (warm (h_inner h))"
    and pq: "queue_ok (jobs (h_inner h)) (queue (h_inner h))"
    using ph by (simp_all add: phases_ok_def tasks)
  have ptt: "phase_ok (cells (h_inner h)) t" using pt by simp
  have fr: "(\<forall>u \<in> set (ts1 @ ts @ ts2). phase_ok (cells s) u) \<and> warm_ok (cells s) (warm (h_inner h))"
    by (rule frame_tasks [of "boxes (h_inner h)" "cells (h_inner h)" _ ts1 t])
      (use c pt pw task_step_cells [OF st ptt] in blast)+
  have w: "warm_ok (cells s) (warm s)"
  proof (cases "warm s = warm (h_inner h)")
    case True
    then show ?thesis using fr by simp
  next
    case False
    then obtain img cid p where t: "t = Await_Warm img cid" and s: "s = warm_ready now img cid p (h_inner h)"
      using task_step_warm [OF st] by blast
    have "cell_phase (cells s) cid (\<lambda>c. c_state c = Warm \<and> c_handle c \<noteq> None)"
      using ptt by (auto simp: t s warm_ready_def pending_dec_def Let_def cell_phase_Some)
    then have "warm_ok (cells s) (tput img ((case tget (warm (h_inner h)) img of None \<Rightarrow> [] | Some p \<Rightarrow> p) @ [cid])
        (warm (h_inner h)))"
      by (rule warm_ok_ready [rotated 2]) (use fr c in \<open>auto simp: owners_ok_def\<close>)
    then show ?thesis by (simp add: s warm_ready_def pending_dec_def Let_def)
  qed
  have "queue_ok (jobs s) (queue s)"
    unfolding queue_ok_def task_step_queue [OF st]
  proof
    fix j
    assume j: "j \<in> set (queue (h_inner h))"
    then obtain jr where jr: "tget (jobs (h_inner h)) j = Some jr" "jr_state jr = Queued"
      using pq by (auto simp: queue_ok_def)
    have "j \<notin># held_jobs (ts1 @ t # ts2)" using queue_not_held c j by blast
    then have "j \<notin> set (task_jobs t)" by simp
    then show "\<exists>jr. tget (jobs s) j = Some jr \<and> jr_state jr = Queued"
      using task_step_jobs [OF st ok jr(1)] jr by (auto split: option.splits)
  qed
  then show ?thesis using fr w by (simp add: phases_ok_def)
qed

section \<open>Preservation by the other steps\<close>

lemma start_phases: "phases_ok (start cfg ids)"
  by (simp add: phases_ok_def start_def warm_ok_def queue_ok_def)

lemma submit_phases:
  "phases_ok h \<Longrightarrow> tget (jobs (h_inner h)) (job_id job) = None \<Longrightarrow> phases_ok (submit job h)"
  by (fastforce simp: phases_ok_def submit_def submit_inner_def queue_ok_def job_record_new_def)

lemma reap_jobs_phases:
  assumes "phases_ok h" and "distinct (tkeys (jobs (h_inner h)))"
  shows "phases_ok (reap_finished_jobs lim h)"
proof -
  have "queue_ok (jobs (h_inner (reap_finished_jobs lim h))) (queue (h_inner h))"
    unfolding queue_ok_def
  proof
    fix j
    assume "j \<in> set (queue (h_inner h))"
    then obtain jr where jr: "tget (jobs (h_inner h)) j = Some jr" "jr_state jr = Queued"
      using assms(1) by (auto simp: phases_ok_def queue_ok_def)
    then have "j \<notin> set (evicted_jobs (retained_jobs lim) (jobs (h_inner h)))"
      using evicted_terminal [OF assms(2)] by fastforce
    then show "\<exists>jr. tget (jobs (h_inner (reap_finished_jobs lim h))) j = Some jr \<and> jr_state jr = Queued"
      using jr by (simp add: reap_jobs_get)
  qed
  then show ?thesis using assms(1) by (simp add: phases_ok_def)
qed

text \<open>Tasks and pools that do not hold a cell are unaffected by a change of that cell.\<close>

lemma phases_other_cells:
  assumes "owners_ok wm cs ts" and "\<forall>u \<in> set ts. phase_ok cs u" and "warm_ok cs wm"
    and same: "\<And>c. c \<noteq> cid \<Longrightarrow> tget cs' c = tget cs c" and "cid \<notin> set (tkeys cs)"
  shows "(\<forall>u \<in> set ts. phase_ok cs' u) \<and> warm_ok cs' wm"
proof
  have not: "cid \<notin># held_cells ts + pools wm"
    using assms(1,5) by (simp add: owners_ok_def)
  show "\<forall>u \<in> set ts. phase_ok cs' u"
  proof
    fix u
    assume u: "u \<in> set ts"
    have "cid \<notin> set (task_cells u)" using held_cells_mem [OF u] not by auto
    then have "phase_ok cs' u = phase_ok cs u"
      using same by (intro phase_ok_cong) metis
    then show "phase_ok cs' u" using assms(2) u by simp
  qed
  show "warm_ok cs' wm"
    unfolding warm_ok_def
  proof (intro allI impI)
    fix c
    assume c: "c \<in># pools wm"
    then have "c \<noteq> cid" using not by auto
    then show "cell_phase cs' c (\<lambda>c. c_state c = Warm \<and> c_handle c \<noteq> None)"
      using assms(3) c same by (simp add: warm_ok_def cell_phase_def)
  qed
qed

lemma queue_ok_assign:
  assumes "queue_ok js q" and "set q' \<subseteq> set q" and "j \<notin> set q'"
  shows "queue_ok (tmod j f js) q'"
  using assms by (fastforce simp: queue_ok_def)

lemma distinct_submset:
  assumes "distinct ys" and "mset xs \<subseteq># mset ys"
  shows "distinct xs"
  unfolding distinct_count_atmost_1
proof
  fix a
  have "count (mset ys) a \<le> 1"
    using assms(1) by (simp add: distinct_count_atmost_1)
  then have le: "count (mset xs) a \<le> 1"
    using mset_subset_eq_count [OF assms(2), of a] by linarith
  show "count (mset xs) a = (if a \<in> set xs then 1 else 0)"
  proof (cases "a \<in> set xs")
    case True
    then have "0 < count (mset xs) a" by (metis count_greater_zero_iff set_mset_mset)
    with le have "count (mset xs) a = 1" by linarith
    with True show ?thesis by (simp only: if_True)
  next
    case False
    then show ?thesis by (simp add: count_eq_zero_iff)
  qed
qed

lemma queue_distinct: "jobs_ok js q ts \<Longrightarrow> distinct q"
  by (rule distinct_submset [of "live_jobs js"])
    (simp_all add: jobs_ok_def live_jobs_distinct, metis mset_subset_eq_add_left)

lemma take_warm_cell:
  assumes "take_warm img req s = Some (cid, s1)" and "owners_ok (warm s) (cells s) ts"
  shows "cid \<in># pools (warm s)" and "pools (warm s) = add_mset cid (pools (warm s1))"
    and "cells s1 = cells s" and "jobs s1 = jobs s"
proof -
  obtain front rear where w: "tget (warm s) img = Some (front @ cid # rear)"
    and s1: "s1 = s\<lparr>warm := tput img (front @ rear) (warm s)\<rparr>"
    using take_warm_Some [OF assms(1)] by blast
  have d: "distinct (tkeys (warm s))" using assms(2) by (simp add: owners_ok_def)
  have "add_mset cid (pools (tput img (front @ rear) (warm s))) + mset (front @ rear) =
      pools (warm s) + mset (front @ rear)"
    using pools_tput [OF d, of img "front @ rear"] w by (simp add: union_ac)
  then have "add_mset cid (pools (tput img (front @ rear) (warm s))) = pools (warm s)"
    using add_right_imp_eq by blast
  then show "pools (warm s) = add_mset cid (pools (warm s1))" by (simp add: s1)
  then show "cid \<in># pools (warm s)" by simp
  show "cells s1 = cells s" "jobs s1 = jobs s" by (simp_all add: s1)
qed

lemma warm_decide_phases:
  assumes tw: "take_warm img req s = Some (cid, s1)"
    and c: "cells_ok (boxes s) (cells s)" and o: "owners_ok (warm s) (cells s) ts"
    and pt: "\<forall>u \<in> set ts. phase_ok (cells s) u" and pw: "warm_ok (cells s) (warm s)"
    and cs': "cs' = tmod cid (assign_cell j False) (cells s)"
  shows "(\<forall>u \<in> set (ts @ [Run_Cell j cid True]). phase_ok cs' u) \<and> warm_ok cs' (warm s1)"
proof -
  note take = take_warm_cell [OF tw o]
  have o': "owners_ok (warm s1) (cells s) (ts @ Run_Cell j cid True # [])"
    using owners_ok_take [OF o tw, of "ts @ [Run_Cell j cid True]"] take(3) by simp
  have here: "cell_phase (cells s) cid (\<lambda>c. c_state c = Warm \<and> c_handle c \<noteq> None)"
    using pw take(1) by (simp add: warm_ok_def)
  have w1: "warm_ok (cells s) (warm s1)" using pw take(2) by (simp add: warm_ok_def)
  have new: "phase_ok cs' (Run_Cell j cid True)"
    using here by (auto simp: cs' cell_phase_Some assign_cell_def)
  have "phase_ok cs' u" if u: "u \<in> set ts" for u
  proof -
    have "cid \<notin># held_cells (ts @ [])"
      by (rule owner_unique(1) [OF c o']) simp
    then have "cid \<notin> set (task_cells u)" using held_cells_mem [OF u] by auto
    then have "phase_ok cs' u = phase_ok (cells s) u" by (intro phase_ok_cong) (auto simp: cs')
    then show ?thesis using pt u by simp
  qed
  moreover have "warm_ok cs' (warm s1)"
    unfolding warm_ok_def
  proof (intro allI impI)
    fix c'
    assume c': "c' \<in># pools (warm s1)"
    have "cid \<notin># pools (warm s1)" by (rule owner_unique(2) [OF c o']) simp
    with c' have "c' \<noteq> cid" by auto
    then show "cell_phase cs' c' (\<lambda>c. c_state c = Warm \<and> c_handle c \<noteq> None)"
      using w1 c' by (simp add: warm_ok_def cell_phase_def cs')
  qed
  ultimately show ?thesis using new by auto
qed

lemma decide_scan_phases:
  assumes "decide_scan now fresh before rest s = (d, s')" and "queue s = before @ rest"
    and "cell_id_fresh fresh s"
    and "cells_ok (boxes s) (cells s)" and "owners_ok (warm s) (cells s) ts"
    and "jobs_ok (jobs s) (queue s) ts"
    and "\<forall>u \<in> set ts. phase_ok (cells s) u" and "warm_ok (cells s) (warm s)"
    and "queue_ok (jobs s) (queue s)"
  shows "(\<forall>u \<in> set (ts @ decision_tasks d). phase_ok (cells s') u) \<and> warm_ok (cells s') (warm s') \<and>
    queue_ok (jobs s') (queue s')"
  using assms
proof (induction now fresh before rest s rule: decide_scan.induct)
  case (1 now fresh before s)
  then show ?case by (auto simp: decision_tasks_def)
next
  case (2 now fresh before j rest s)
  obtain jr where jr: "tget (jobs s) j = Some jr"
    using jobs_ok_live [OF "2.prems"(6), of j] "2.prems"(2) by auto
  let ?img = "job_image (jr_job jr)" and ?req = "job_resources (jr_job jr)"
  have nq: "set (before @ rest) \<subseteq> set (queue s)" "j \<notin> set (before @ rest)"
    using queue_distinct [OF "2.prems"(6)] "2.prems"(2) by auto
  show ?case
  proof (cases "take_warm ?img ?req s")
    case (Some p)
    obtain cid s1 where p: "p = (cid, s1)" by fastforce
    note tw = Some [unfolded p]
    note take = take_warm_cell [OF tw "2.prems"(5)]
    have d: "d = Run j cid True" and s': "s' = (assign now j cid False (s1\<lparr>queue := before @ rest\<rparr>))
        \<lparr>running_builds := running_builds s1 + 1\<rparr>"
      using "2.prems"(1) jr tw by (auto simp: Let_def)
    have cells: "cells s' = tmod cid (assign_cell j False) (cells s)"
      by (simp add: s' assign_def Let_def take(3))
    have "queue_ok (jobs s') (queue s')"
      using queue_ok_assign [OF "2.prems"(9) nq] by (simp add: s' assign_def Let_def take(4))
    then show ?thesis
      using warm_decide_phases [OF tw "2.prems"(4,5,7,8) cells] by (simp add: d decision_tasks_def s')
  next
    case None
    show ?thesis
    proof (cases "pick_box ?req (boxes s)")
      case (Some i)
      let ?s1 = "place_cell i fresh ?img ?req (Some j) now s"
      have d: "d = Run j fresh False" and s': "s' = (assign now j fresh True (?s1\<lparr>queue := before @ rest\<rparr>))
          \<lparr>running_builds := running_builds s + 1\<rparr>"
        using "2.prems"(1) jr None Some by (auto simp: Let_def)
      have nk: "fresh \<notin> set (tkeys (cells s))" using "2.prems"(3) by (simp add: cell_id_fresh_def)
      have get: "tget (cells s') c = tget (cells s) c" if "c \<noteq> fresh" for c
        using that by (simp add: s' assign_def Let_def place_cell_def)
      have "(\<forall>u \<in> set ts. phase_ok (cells s') u) \<and> warm_ok (cells s') (warm s)"
        by (rule phases_other_cells [OF "2.prems"(5,7,8) get nk])
      moreover have "phase_ok (cells s') (Run_Cell j fresh False)"
        by (simp add: s' assign_def Let_def place_cell_def cell_phase_Some new_cell_def assign_cell_def)
      moreover have "queue_ok (jobs s') (queue s')"
        using queue_ok_assign [OF "2.prems"(9) nq] by (simp add: s' assign_def Let_def place_cell_def)
      ultimately show ?thesis by (simp add: d decision_tasks_def s' assign_def Let_def)
    next
      case None2: None
      have "decide_scan now fresh (before @ [j]) rest s = (d, s')"
        using "2.prems"(1) jr None None2 by (simp add: Let_def)
      then show ?thesis
        using "2.IH"(2) [OF jr refl refl None None2] "2.prems"(2-9) by simp
    qed
  qed
qed

lemma schedule_phases:
  assumes "hive_inv cfg h" and "phases_ok h" and "cell_id_fresh fresh (h_inner h)"
    and "decide_one cfg now fresh (h_inner h) = (d, s)"
  shows "phases_ok (h\<lparr>h_inner := s, h_tasks := h_tasks h @ decision_tasks d\<rparr>)"
proof (cases "running_builds (h_inner h) \<ge> max_concurrent_builds cfg")
  case True
  then show ?thesis
    using assms(2,4) by (auto simp: decide_one_def decision_tasks_def phases_ok_def)
next
  case False
  have "decide_scan now fresh [] (queue (h_inner h)) (h_inner h) = (d, s)"
    using assms(4) False by (simp add: decide_one_def)
  from decide_scan_phases [OF this _ assms(3) hive_invD(1-3) [OF assms(1)]]
  show ?thesis using assms(2) by (simp add: phases_ok_def)
qed

lemma scale_up_phases:
  assumes inv: "hive_inv cfg h" and ph: "phases_ok h" and fresh: "cell_id_fresh fresh (h_inner h)"
    and up: "scale_up cfg now fresh img (h_inner h) = Some (s, ts)"
  shows "phases_ok (h\<lparr>h_inner := s, h_tasks := h_tasks h @ ts\<rparr>)"
proof -
  let ?s = "h_inner h"
  obtain i where ts: "ts = [Provision_Warm img fresh]"
    and s: "s = (place_cell i fresh img (warm_spec cfg) None now ?s)
      \<lparr>warm_pending := tput img (pending_len img ?s + 1) (warm_pending ?s)\<rparr>"
    using up by (auto simp: scale_up_def Let_def split: if_splits option.splits)
  have nk: "fresh \<notin> set (tkeys (cells ?s))" using fresh by (simp add: cell_id_fresh_def)
  have get: "tget (cells s) c = tget (cells ?s) c" if "c \<noteq> fresh" for c
    using that by (simp add: s place_cell_def)
  have "(\<forall>u \<in> set (h_tasks h). phase_ok (cells s) u) \<and> warm_ok (cells s) (warm ?s)"
    by (rule phases_other_cells [OF hive_invD(2) [OF inv] _ _ get nk]) (use ph in \<open>auto simp: phases_ok_def\<close>)
  moreover have "phase_ok (cells s) (Provision_Warm img fresh)"
    by (simp add: s place_cell_def cell_phase_Some new_cell_def)
  ultimately show ?thesis using ph by (simp add: phases_ok_def s ts)
qed

lemma tget_fold_set_cell_state:
  "tget (cells (fold (\<lambda>c. set_cell_state c st) cs s)) c =
    (if c \<in> set cs then map_option (\<lambda>r. r\<lparr>c_state := st\<rparr>) (tget (cells s) c) else tget (cells s) c)"
proof (induction cs arbitrary: s)
  case Nil
  then show ?case by simp
next
  case (Cons x cs)
  show ?case
    by (cases "tget (cells s) c") (auto simp: Cons.IH tget_set_cell_state)
qed

definition reap_phase_ok :: "task list \<Rightarrow> inner \<times> cell_id list \<Rightarrow> bool" where
  "reap_phase_ok ts acc \<longleftrightarrow>
     (let (s, reap) = acc
      in (\<forall>u \<in> set (ts @ map Teardown_Warm reap). phase_ok (cells s) u) \<and> warm_ok (cells s) (warm s))"

lemma reap_image_phases:
  assumes acc: "reap_acc_ok s0 ts acc" and ph: "reap_phase_ok ts acc"
  shows "reap_phase_ok ts (reap_image cfg now img acc)"
proof -
  obtain s reap where a: "acc = (s, reap)" by fastforce
  show ?thesis
  proof (cases "tget (warm s) img")
    case None
    then show ?thesis using ph by (simp add: reap_image_def a)
  next
    case (Some pool)
    obtain ks rs where sp: "split_pool (is_stale (warm_idle_ttl_ms cfg) now (cells s))
        (warm_target_for cfg img) 0 pool = (ks, rs)" by fastforce
    let ?s' = "fold (\<lambda>cid. set_cell_state cid Draining) rs (s\<lparr>warm := tput img ks (warm s)\<rparr>)"
    have o: "owners_ok (warm s) (cells s) (ts @ map Teardown_Warm reap)"
      and c: "cells_ok (boxes s) (cells s)" using acc by (simp_all add: reap_acc_ok_def a)
    have d: "distinct (tkeys (warm s))" using o by (simp add: owners_ok_def)
    have "pools (tput img ks (warm s)) + mset rs + mset ks = pools (warm s) + mset ks"
      using pools_tput [OF d, of img ks] Some split_pool_mset [OF sp] by (simp add: union_ac)
    then have pl: "pools (warm s) = pools (tput img ks (warm s)) + mset rs" by simp
    have dist: "held_cells (ts @ map Teardown_Warm reap) + pools (tput img ks (warm s)) + mset rs
        = mset (tkeys (cells s))"
      using o pl by (simp add: owners_ok_def union_ac)
    have one: "count (held_cells (ts @ map Teardown_Warm reap)) x + count (pools (tput img ks (warm s))) x
        + count (mset rs) x \<le> 1" for x
    proof -
      have "count (mset (tkeys (cells s))) x \<le> 1"
        using c by (auto simp: cells_ok_def distinct_count_atmost_1 simp del: mset_map)
      then show ?thesis by (metis dist count_union)
    qed
    have not: "x \<notin># held_cells (ts @ map Teardown_Warm reap) \<and> x \<notin># pools (tput img ks (warm s))"
      if "x \<in> set rs" for x
    proof -
      have "0 < count (mset rs) x" using that by (metis count_greater_zero_iff set_mset_mset)
      with one [of x] have "count (held_cells (ts @ map Teardown_Warm reap)) x = 0"
        and "count (pools (tput img ks (warm s))) x = 0" by linarith+
      then show ?thesis by (simp only: not_in_iff)
    qed
    have get: "tget (cells ?s') x = tget (cells s) x" if "x \<notin> set rs" for x
      using that by (simp add: tget_fold_set_cell_state)
    have old: "phase_ok (cells ?s') u" if u: "u \<in> set (ts @ map Teardown_Warm reap)" for u
    proof -
      have "phase_ok (cells ?s') u = phase_ok (cells s) u"
        using held_cells_mem [OF u] not get by (intro phase_ok_cong) blast
      then show ?thesis using ph u by (simp add: reap_phase_ok_def a)
    qed
    have new: "phase_ok (cells ?s') (Teardown_Warm x)" if "x \<in> set rs" for x
    proof -
      have "x \<in># pools (warm s)" using that pl by simp
      then obtain cr where "tget (cells s) x = Some cr"
        using ph by (auto simp: reap_phase_ok_def a warm_ok_def cell_phase_Some)
      with that show ?thesis by (simp add: cell_phase_Some tget_fold_set_cell_state)
    qed
    have "warm_ok (cells ?s') (tput img ks (warm s))"
      unfolding warm_ok_def
    proof (intro allI impI)
      fix x
      assume x: "x \<in># pools (tput img ks (warm s))"
      then have "x \<notin> set rs" using not by blast
      then have "tget (cells ?s') x = tget (cells s) x" by (rule get)
      moreover have "x \<in># pools (warm s)" using x pl by simp
      ultimately show "cell_phase (cells ?s') x (\<lambda>c. c_state c = Warm \<and> c_handle c \<noteq> None)"
        using ph by (simp add: reap_phase_ok_def a warm_ok_def cell_phase_def)
    qed
    then show ?thesis
      using old new by (auto simp: reap_phase_ok_def reap_image_def a Some sp)
  qed
qed

lemma reap_warm_acc:
  assumes "hive_inv cfg h" and "phases_ok h"
  shows "reap_acc_ok (h_inner h) (h_tasks h) (reap_warm cfg now (h_inner h)) \<and>
    reap_phase_ok (h_tasks h) (reap_warm cfg now (h_inner h))"
proof -
  let ?P = "\<lambda>acc. reap_acc_ok (h_inner h) (h_tasks h) acc \<and> reap_phase_ok (h_tasks h) acc"
  have "?P (fold (reap_image cfg now) ks acc)" if "?P acc" for ks acc
    using that
  proof (induction ks arbitrary: acc)
    case Nil
    then show ?case by simp
  next
    case (Cons k ks)
    have "?P (reap_image cfg now k acc)"
      using Cons.prems reap_image_ok reap_image_phases by blast
    then show ?case using Cons.IH by simp
  qed
  moreover have "?P (h_inner h, [])"
    using hive_invD [OF assms(1)] assms(2) by (simp add: reap_acc_ok_def reap_phase_ok_def phases_ok_def)
  ultimately show ?thesis by (metis reap_warm_def)
qed

lemma reap_warm_phases:
  assumes "hive_inv cfg h" and "phases_ok h" and "reap_warm cfg now (h_inner h) = (s, reap)"
  shows "phases_ok (h\<lparr>h_inner := s, h_tasks := h_tasks h @ map Teardown_Warm reap\<rparr>)"
  using reap_warm_acc [OF assms(1,2), of now] assms(2,3)
  by (simp add: reap_acc_ok_def reap_phase_ok_def phases_ok_def)

lemma hive_move_phases: "hive_move cfg lim h h' \<Longrightarrow> hive_inv cfg h \<Longrightarrow> phases_ok h \<Longrightarrow> phases_ok h'"
proof (induction rule: hive_move.induct)
  case (step_schedule fresh h now d s)
  then show ?case by (simp add: schedule_phases)
next
  case (step_scale_up img fresh h now s ts)
  then show ?case by (simp add: scale_up_phases)
next
  case (step_reap_warm now h s reap)
  then show ?case by (simp add: reap_warm_phases)
next
  case (step_reap_jobs h)
  then show ?case using hive_invD(3) by (auto simp: reap_jobs_phases jobs_ok_def)
next
  case (step_log h j l)
  then show ?case by (simp add: phases_ok_def)
next
  case (step_task h ts1 t ts2 now r s logs ts)
  then show ?case using task_step_phases by (simp add: hive_inv_step_ok)
qed

lemma hive_orderly_phases: "hive_orderly cfg lim h \<Longrightarrow> hive_inv cfg h \<and> phases_ok h"
proof (induction rule: hive_orderly.induct)
  case (orderly_start ids)
  then show ?case by (simp add: start_inv start_phases)
next
  case (orderly_submit h job)
  then show ?case by (simp add: submit_inv submit_phases)
next
  case (orderly_move h h')
  then show ?case using hive_move_inv hive_move_phases by blast
qed

end
