(* ===== verification/Control_Plane_Props.thy ===== *)
theory Control_Plane_Props
  imports Control_Plane_Phase
begin

text \<open>
  The properties of the control plane, read off its two invariants, and a small concrete run
  (one box, one build, one warm cell) on which they are exercised.
\<close>

section \<open>A concrete run\<close>

definition demo_spec :: resource_spec where
  "demo_spec = \<lparr>vcpus = 2, mem_mib = 1024, disk_mib = 100, timeout_secs = 60\<rparr>"

definition demo_cfg :: hive_config where
  "demo_cfg = \<lparr>hive_id = ''hive-test'', cfg_boxes = [\<lparr>bc_vcpus = 8, bc_mem_mib = 8192\<rparr>],
     warm_targets = [(''node'', 1)], default_warm_target = 0, warm_spec = demo_spec,
     warm_idle_ttl_ms = 60000, max_concurrent_builds = 4, autoscaler_interval_ms = 50\<rparr>"

definition demo_lim :: limits where
  "demo_lim = \<lparr>retained_jobs = 1, bus_lines = 10, bus_bytes = 100\<rparr>"

definition demo_job :: "job_id \<Rightarrow> build_job" where
  "demo_job j = bb_build j 5 (bb_with_resources demo_spec (bb_command ''make'' (builder ''node'')))"

definition demo_handle :: "cell_id \<Rightarrow> cell_handle" where
  "demo_handle cid = \<lparr>ch_id = cid, ch_image = ''node'', ch_resources = demo_spec, ch_root = ''/'',
     ch_endpoint = None\<rparr>"

definition demo_result :: "job_id \<Rightarrow> nat \<Rightarrow> build_result" where
  "demo_result j t = \<lparr>br_job_id = j, br_exit_code = 0, br_timed_out = False, br_started_at_ms = 9,
     br_finished_at_ms = t\<rparr>"

text \<open>One scheduler decision, one scale-up round, and one step of the first task, as functions
  on the whole state.\<close>

definition schedule_once :: "hive_config \<Rightarrow> nat \<Rightarrow> cell_id \<Rightarrow> hive \<Rightarrow> hive" where
  "schedule_once cfg now fresh h =
     (let (d, s) = decide_one cfg now fresh (h_inner h)
      in h\<lparr>h_inner := s, h_tasks := h_tasks h @ decision_tasks d\<rparr>)"

definition scale_up_once :: "hive_config \<Rightarrow> nat \<Rightarrow> cell_id \<Rightarrow> string \<Rightarrow> hive \<Rightarrow> hive" where
  "scale_up_once cfg now fresh img h =
     (case scale_up cfg now fresh img (h_inner h) of
        None \<Rightarrow> h
      | Some (s, ts) \<Rightarrow> h\<lparr>h_inner := s, h_tasks := h_tasks h @ ts\<rparr>)"

definition run_first :: "limits \<Rightarrow> nat \<Rightarrow> reply \<Rightarrow> hive \<Rightarrow> hive" where
  "run_first lim now r h =
     (case h_tasks h of
        [] \<Rightarrow> h
      | t # rest \<Rightarrow> (let (s, logs, ts) = task_step lim now r t h
                    in h\<lparr>h_inner := s, h_logs := logs, h_tasks := ts @ rest\<rparr>))"

lemma schedule_once_reach:
  "hive_orderly cfg lim h \<Longrightarrow> cell_id_fresh fresh (h_inner h) \<Longrightarrow>
    hive_orderly cfg lim (schedule_once cfg now fresh h)"
  by (auto simp: schedule_once_def split: prod.split intro: orderly_move step_schedule)

lemma scale_up_once_reach:
  "hive_orderly cfg lim h \<Longrightarrow> cell_id_fresh fresh (h_inner h) \<Longrightarrow> img \<in> set (warm_images cfg) \<Longrightarrow>
    hive_orderly cfg lim (scale_up_once cfg now fresh img h)"
  by (auto simp: scale_up_once_def split: option.split intro: orderly_move step_scale_up)

lemma run_first_step:
  assumes "h_tasks h \<noteq> []"
  shows "hive_move cfg lim h (run_first lim now r h)"
proof -
  obtain t rest where t: "h_tasks h = [] @ t # rest" using assms by (cases "h_tasks h") auto
  obtain s logs ts where st: "task_step lim now r t h = (s, logs, ts)" by (metis prod_cases3)
  from step_task [OF t st] show ?thesis
    using t st by (simp add: run_first_def)
qed

lemma run_first_reach: "hive_orderly cfg lim h \<Longrightarrow> hive_orderly cfg lim (run_first lim now r h)"
  by (cases "h_tasks h = []") (auto simp: run_first_def intro: orderly_move dest: run_first_step [unfolded run_first_def])

definition demo_submitted :: hive where
  "demo_submitted = submit (demo_job ''job-1'') (start demo_cfg [''box-1''])"

definition demo_placed :: hive where
  "demo_placed = scale_up_once demo_cfg 7 ''cell-2'' ''node'' (schedule_once demo_cfg 6 ''cell-1'' demo_submitted)"

definition demo_assigned :: hive where
  "demo_assigned = run_first demo_lim 9 (Provisioned (demo_handle ''cell-1''))
     (run_first demo_lim 8 No_Reply demo_placed)"

definition demo_building :: hive where
  "demo_building = run_first demo_lim 10 No_Reply demo_assigned"

definition demo_warmed :: hive where
  "demo_warmed =
     run_first demo_lim 15 (Provisioned (demo_handle ''cell-2'')) (run_first demo_lim 14 No_Reply
       (run_first demo_lim 13 No_Reply (run_first demo_lim 12 No_Reply
         (run_first demo_lim 12 No_Reply (run_first demo_lim 12 (Built (Inr (demo_result ''job-1'' 11)))
           demo_building)))))"

lemma demo_submitted_reach: "hive_orderly demo_cfg demo_lim demo_submitted"
  unfolding demo_submitted_def
  by (rule orderly_submit [OF orderly_start])
    (simp_all add: config_ok_def demo_cfg_def start_def)

lemma demo_placed_reach: "hive_orderly demo_cfg demo_lim demo_placed"
  unfolding demo_placed_def
  by (intro scale_up_once_reach schedule_once_reach demo_submitted_reach) code_simp+

lemma demo_assigned_reach: "hive_orderly demo_cfg demo_lim demo_assigned"
  unfolding demo_assigned_def by (intro run_first_reach demo_placed_reach)

lemma demo_building_reach: "hive_orderly demo_cfg demo_lim demo_building"
  unfolding demo_building_def by (intro run_first_reach demo_assigned_reach)

lemma demo_warmed_reach: "hive_orderly demo_cfg demo_lim demo_warmed"
  unfolding demo_warmed_def by (intro run_first_reach demo_building_reach)

section \<open>Capacity\<close>

lemma tsum_conv: "tsum f m = (\<Sum>(k, v) \<leftarrow> m. f k v)"
  by (simp add: tsum_def)

lemma tsum_count: "tsum (\<lambda>_ v. if p v then 1 else 0) m = length (filter (\<lambda>(_, v). p v) m)"
  by (induction m) auto

text \<open>C8: Every reservation is accounted for: in every reachable state the vCPUs, the memory and
  the number of cells a box has reserved are exactly those of the cells placed on it, and never
  more than the box has.\<close>

theorem capacity_exact:
  assumes "hive_reachable cfg lim h" and "b \<in> set (boxes (h_inner h))"
  shows "vcpus_used b = (\<Sum>(k, c) \<leftarrow> cells (h_inner h). if c_box_id c = b_id b then vcpus (c_resources c) else 0)
    \<and> mem_used_mib b = (\<Sum>(k, c) \<leftarrow> cells (h_inner h). if c_box_id c = b_id b then mem_mib (c_resources c) else 0)
    \<and> b_cells b = length (filter (\<lambda>(_, c). c_box_id c = b_id b) (cells (h_inner h)))
    \<and> vcpus_used b \<le> vcpus_total b \<and> mem_used_mib b \<le> mem_total_mib b"
proof -
  have "ledger_exact (boxes (h_inner h)) (cells (h_inner h))"
    using hive_reachable_core [OF assms(1)] by (auto simp: hive_core_def core_ok_def cells_ok_def)
  then have e: "vcpus_used b = cpu.charged (cells (h_inner h)) b"
      "mem_used_mib b = mem.charged (cells (h_inner h)) b"
      "b_cells b = slots.charged (cells (h_inner h)) b" and "box_ok b"
    using assms(2) by (auto simp: ledger_exact_def cpu.exact_def mem.exact_def slots.exact_def)
  have "slots.charged (cells (h_inner h)) b = length (filter (\<lambda>(_, c). c_box_id c = b_id b) (cells (h_inner h)))"
    unfolding slots.charged_def one_slot_def by (rule tsum_count)
  with e \<open>box_ok b\<close> show ?thesis
    by (simp add: cpu.charged_def mem.charged_def tsum_conv box_ok_def)
qed

lemma demo_has_cell2: "tget (cells (h_inner demo_placed)) ''cell-2'' \<noteq> None"
  by code_simp

theorem capacity_exact_witness:
  "\<exists>b \<in> set (boxes (h_inner demo_placed)). vcpus_used b = 4 \<and>
    vcpus_used b = (\<Sum>(k, c) \<leftarrow> cells (h_inner demo_placed). if c_box_id c = b_id b then vcpus (c_resources c) else 0)"
proof -
  have "map vcpus_used (boxes (h_inner demo_placed)) = [4]" by code_simp
  then obtain b where b: "b \<in> set (boxes (h_inner demo_placed))" "vcpus_used b = 4" by auto
  show ?thesis using capacity_exact [OF orderly_reachable [OF demo_placed_reach] b(1)] b by blast
qed

text \<open>C9: No cell is handed out twice: in every reachable state, whatever identifiers the submitted jobs carry, a cell is held by at most
  one task or place in a warm pool, and only cells of the cell table are held. And as long as no job is submitted under the identifier of
  a job that is still recorded, every cell of the table is held by exactly one, so no reservation is orphaned. (Without that condition one can be: a build
  whose record was replaced and then reaped ends without giving its cell back, see \<open>duplicate_id_leaks\<close>.)\<close>

theorem cell_single_owner:
  assumes "hive_reachable cfg lim h"
  shows "count (held_cells (h_tasks h) + pools (warm (h_inner h))) c \<le> (if tget (cells (h_inner h)) c \<noteq> None then 1 else 0) \<and>
    (hive_orderly cfg lim h \<longrightarrow>
      count (held_cells (h_tasks h) + pools (warm (h_inner h))) c = (if tget (cells (h_inner h)) c \<noteq> None then 1 else 0))"
proof -
  have keys: "distinct (tkeys (cells (h_inner h)))" if "cells_ok (boxes (h_inner h)) (cells (h_inner h))"
    using that by (simp add: cells_ok_def)
  have once: "count (mset (tkeys (cells (h_inner h)))) c = (if tget (cells (h_inner h)) c \<noteq> None then 1 else 0)"
    if "distinct (tkeys (cells (h_inner h)))"
    using that by (simp only: distinct_count_atmost_1 tget_None_iff not_not)
  obtain gone where g: "core_ok cfg (h_inner h) (h_tasks h @ gone)"
    using hive_reachable_core [OF assms] by (auto simp: hive_core_def)
  then have "held_cells (h_tasks h) + held_cells gone + pools (warm (h_inner h)) = mset (tkeys (cells (h_inner h)))"
    by (simp add: core_ok_def owners_ok_def)
  then have le: "count (held_cells (h_tasks h) + pools (warm (h_inner h))) c \<le> count (mset (tkeys (cells (h_inner h)))) c"
    by (metis count_union le_add1 union_assoc union_commute)
  have "distinct (tkeys (cells (h_inner h)))" using g keys by (simp add: core_ok_def)
  note n = once [OF this]
  have eq: "held_cells (h_tasks h) + pools (warm (h_inner h)) = mset (tkeys (cells (h_inner h)))" if "hive_orderly cfg lim h"
    using hive_invD(2) [OF hive_orderly_inv [OF that]] by (simp add: owners_ok_def)
  show ?thesis
  proof (intro conjI impI)
    show "count (held_cells (h_tasks h) + pools (warm (h_inner h))) c \<le> (if tget (cells (h_inner h)) c \<noteq> None then 1 else 0)"
      using le unfolding n .
    show "count (held_cells (h_tasks h) + pools (warm (h_inner h))) c = (if tget (cells (h_inner h)) c \<noteq> None then 1 else 0)"
      if "hive_orderly cfg lim h"
      unfolding eq [OF that] by (rule n)
  qed
qed

theorem cell_single_owner_witness:
  "count (held_cells (h_tasks demo_placed) + pools (warm (h_inner demo_placed))) ''cell-2'' = 1"
  using cell_single_owner [OF orderly_reachable [OF demo_placed_reach], of "''cell-2''"] demo_placed_reach
  by (metis (mono_tags, lifting) demo_has_cell2)

text \<open>No capacity leaks: when no task is in flight and the warm pools are empty, every box is
  entirely free again and no build is counted as running.\<close>

theorem no_leak_at_rest:
  assumes "hive_orderly cfg lim h" and "h_tasks h = []" and "pools (warm (h_inner h)) = {#}"
  shows "cells (h_inner h) = [] \<and> running_builds (h_inner h) = 0 \<and>
    (\<forall>b \<in> set (boxes (h_inner h)). vcpus_free b = vcpus_total b \<and> mem_free_mib b = mem_total_mib b \<and> b_cells b = 0)"
proof -
  note inv = hive_invD [OF hive_orderly_inv [OF assms(1)]]
  have e: "cells (h_inner h) = []" using inv(2) assms(2,3) by (simp add: owners_ok_def)
  then have "\<forall>b \<in> set (boxes (h_inner h)). vcpus_used b = 0 \<and> mem_used_mib b = 0 \<and> b_cells b = 0"
    using inv(1) by (simp add: cells_ok_def ledger_exact_def cpu.exact_empty mem.exact_empty slots.exact_empty)
  with e show ?thesis
    using inv(4) assms(2) by (simp add: builds_ok_def vcpus_free_def mem_free_mib_def)
qed

definition demo_done :: hive where
  "demo_done = run_first demo_lim 21 No_Reply (run_first demo_lim 20 No_Reply
     (let (s, reap) = reap_warm demo_cfg 70000 (h_inner demo_warmed)
      in demo_warmed\<lparr>h_inner := s, h_tasks := h_tasks demo_warmed @ map Teardown_Warm reap\<rparr>))"

lemma demo_done_reach: "hive_orderly demo_cfg demo_lim demo_done"
  unfolding demo_done_def
  by (intro run_first_reach) (auto split: prod.split intro: orderly_move [OF demo_warmed_reach step_reap_warm])

theorem no_leak_at_rest_witness:
  "map b_cells (boxes (h_inner demo_placed)) = [2] \<and> h_tasks demo_done = [] \<and> running_builds (h_inner demo_done) = 0"
proof -
  have t: "h_tasks demo_done = []" by code_simp
  have "concat (map snd (warm (h_inner demo_done))) = []" by code_simp
  then have w: "pools (warm (h_inner demo_done)) = {#}" by (simp only: pools_def mset.simps)
  have "map b_cells (boxes (h_inner demo_placed)) = [2]" by code_simp
  with no_leak_at_rest [OF demo_done_reach t w] t show ?thesis by blast
qed

section \<open>Jobs\<close>

text \<open>C10: No job is lost or run twice, as long as no job is submitted under the identifier of a job that is still recorded: in every state
  reached by such a run, a job that has not finished is waited for in exactly one place, the queue or one build task, and a finished or unknown
  job in none. (A job submitted again under its identifier while the first is queued or runs would be in two places.)\<close>

theorem job_never_lost:
  assumes "hive_orderly cfg lim h"
  shows "count (mset (queue (h_inner h)) + held_jobs (h_tasks h)) j =
    (case tget (jobs (h_inner h)) j of
       None \<Rightarrow> 0
     | Some jr \<Rightarrow> if job_is_terminal (jr_state jr) then 0 else 1)"
proof -
  have ok: "jobs_ok (jobs (h_inner h)) (queue (h_inner h)) (h_tasks h)"
    using hive_invD(3) [OF hive_orderly_inv [OF assms]] .
  then have d: "distinct (tkeys (jobs (h_inner h)))" by (simp add: jobs_ok_def)
  have "count (mset (live_jobs (jobs (h_inner h)))) j = (if j \<in> set (live_jobs (jobs (h_inner h))) then 1 else 0)"
    using live_jobs_distinct [OF d] by (simp only: distinct_count_atmost_1)
  moreover have "mset (queue (h_inner h)) + held_jobs (h_tasks h) = mset (live_jobs (jobs (h_inner h)))"
    using ok by (simp add: jobs_ok_def)
  ultimately show ?thesis
    using in_live_jobs [OF d, of j] by (auto split: option.splits)
qed

theorem job_never_lost_witness:
  "count (mset (queue (h_inner demo_building)) + held_jobs (h_tasks demo_building)) ''job-1'' = 1"
proof -
  have "map_option jr_state (tget (jobs (h_inner demo_building)) ''job-1'') = Some Building" by code_simp
  then show ?thesis
    using job_never_lost [OF demo_building_reach, of "''job-1''"] by (auto split: option.splits)
qed

text \<open>The running-build counter is exactly the number of build tasks in flight, and never
  exceeds the configured concurrency.\<close>

theorem builds_bounded:
  assumes "hive_orderly cfg lim h"
  shows "running_builds (h_inner h) = (\<Sum>t \<leftarrow> h_tasks h. task_builds t) \<and>
    running_builds (h_inner h) \<le> max_concurrent_builds cfg"
  using hive_invD(4) [OF hive_orderly_inv [OF assms]] by (simp add: builds_ok_def held_builds_def)

theorem builds_bounded_witness:
  "running_builds (h_inner demo_building) \<le> 4 \<and> running_builds (h_inner demo_building) = 1"
proof -
  have "running_builds (h_inner demo_building) = 1" by code_simp
  then show ?thesis using builds_bounded [OF demo_building_reach] by (simp add: demo_cfg_def)
qed

lemma decide_scan_jobs:
  assumes "decide_scan now fresh before rest s = (d, s')" and "queue_ok (jobs s) rest"
    and "tget (jobs s) j = Some jr"
  shows "\<exists>jr'. tget (jobs s') j = Some jr' \<and> jr_state jr \<le> jr_state jr'"
  using assms
proof (induction now fresh before rest s rule: decide_scan.induct)
  case (1 now fresh before s)
  then show ?case by simp
next
  case (2 now fresh before i rest s)
  obtain ir where ir: "tget (jobs s) i = Some ir" "jr_state ir = Queued"
    using "2.prems"(2) by (auto simp: queue_ok_def)
  have *: "\<exists>jr'. tget (jobs (assign t i c cold s1)) j = Some jr' \<and> jr_state jr \<le> jr_state jr'"
    if "jobs s1 = jobs s" for t c cold s1
    using that ir "2.prems"(3) by (auto simp: assign_def Let_def less_eq_job_state_def)
  show ?case
  proof (cases "take_warm (job_image (jr_job ir)) (job_resources (jr_job ir)) s")
    case (Some p)
    obtain cid s1 where "p = (cid, s1)" by fastforce
    then show ?thesis
      using "2.prems"(1) ir Some take_warm_Some [of _ _ s cid s1] * by (force simp: Let_def)
  next
    case None
    show ?thesis
    proof (cases "pick_box (job_resources (jr_job ir)) (boxes s)")
      case (Some b)
      then show ?thesis using "2.prems"(1) ir None * by (force simp: Let_def)
    next
      case None2: None
      have "decide_scan now fresh (before @ [i]) rest s = (d, s')"
        using "2.prems"(1) ir None None2 by (simp add: Let_def)
      then show ?thesis
        using "2.IH"(2) [OF ir(1) refl refl None None2] "2.prems"(2,3) by (simp add: queue_ok_def)
    qed
  qed
qed

lemma fold_reap_image_jobs: "jobs (fst (fold (reap_image cfg now) ks acc)) = jobs (fst acc)"
  by (induction ks arbitrary: acc)
    (auto simp: reap_image_def Let_def split: prod.splits option.splits)

text \<open>Jobs only advance: a step never moves a job backwards in its lifecycle (queued,
  scheduled, building, finished), never changes the state of a finished job, and only forgets
  jobs that have finished.\<close>

theorem job_state_monotone:
  assumes "hive_orderly cfg lim h" and "hive_move cfg lim h h'"
    and "tget (jobs (h_inner h)) j = Some jr"
  shows "case tget (jobs (h_inner h')) j of
      None \<Rightarrow> job_is_terminal (jr_state jr)
    | Some jr' \<Rightarrow> jr_state jr \<le> jr_state jr' \<and> (job_is_terminal (jr_state jr) \<longrightarrow> jr_state jr' = jr_state jr)"
proof -
  have inv: "hive_inv cfg h" and ph: "phases_ok h" using hive_orderly_phases [OF assms(1)] by auto
  have dist: "distinct (tkeys (jobs (h_inner h)))" using hive_invD(3) [OF inv] by (simp add: jobs_ok_def)
  have "case tget (jobs (h_inner h')) j of None \<Rightarrow> job_is_terminal (jr_state jr)
      | Some jr' \<Rightarrow> jr_state jr \<le> jr_state jr'"
    using assms(2)
  proof cases
    case (step_schedule fresh now d s)
    have "\<exists>jr'. tget (jobs s) j = Some jr' \<and> jr_state jr \<le> jr_state jr'"
      using decide_scan_jobs [of now fresh "[]" "queue (h_inner h)" "h_inner h" d s j jr]
        step_schedule(3) ph assms(3) by (auto simp: decide_one_def phases_ok_def split: if_splits)
    then show ?thesis using step_schedule(1) by auto
  next
    case (step_scale_up img fresh now s ts)
    then show ?thesis
      using assms(3) by (auto simp: scale_up_def Let_def split: if_splits option.splits)
  next
    case (step_reap_warm now s reap)
    then have "jobs s = jobs (h_inner h)"
      using fold_reap_image_jobs [of cfg now "tkeys (warm (h_inner h))" "(h_inner h, [])"]
      by (simp add: reap_warm_def)
    then show ?thesis using step_reap_warm(1) assms(3) by simp
  next
    case step_reap_jobs
    then show ?thesis using assms(3) evicted_terminal [OF dist] by (fastforce simp: reap_jobs_get)
  next
    case (step_log j l)
    then show ?thesis using assms(3) by simp
  next
    case (step_task ts1 t ts2 now r s logs ts)
    have "step_ok cfg (h_inner h) (ts1 @ t # ts2)" using inv step_task(2) by (simp add: hive_inv_step_ok)
    from task_step_jobs [OF step_task(3) this assms(3)] show ?thesis
      using step_task(1) by (auto split: option.splits)
  qed
  then show ?thesis using job_terminal_maximal by (auto split: option.splits)
qed

theorem job_state_monotone_witness:
  "\<exists>jr'. tget (jobs (h_inner demo_building)) ''job-1'' = Some jr' \<and> Scheduled \<le> jr_state jr'"
proof -
  have "map_option jr_state (tget (jobs (h_inner demo_assigned)) ''job-1'') = Some Scheduled" by code_simp
  then obtain jr where jr: "tget (jobs (h_inner demo_assigned)) ''job-1'' = Some jr" "jr_state jr = Scheduled"
    by auto
  have "h_tasks demo_assigned \<noteq> []" by code_simp
  then have "hive_move demo_cfg demo_lim demo_assigned demo_building"
    unfolding demo_building_def by (rule run_first_step)
  from job_state_monotone [OF demo_assigned_reach this jr(1)] jr(2) show ?thesis
    by (auto split: option.splits)
qed

section \<open>Cells\<close>

text \<open>The moves the control plane makes: those of \<open>can_transition_to\<close>, and the cold path.\<close>

definition cell_move :: "cell_state \<Rightarrow> cell_state \<Rightarrow> bool" where
  "cell_move a b \<longleftrightarrow> can_transition_to a b \<or> (a = Provisioning \<and> b = Assigned)"

definition cell_moves :: "(cell_id, cell_record) table \<Rightarrow> (cell_id, cell_record) table \<Rightarrow> bool" where
  "cell_moves cs cs' \<longleftrightarrow>
     (\<forall>cid c c'. tget cs cid = Some c \<longrightarrow> tget cs' cid = Some c' \<longrightarrow> cell_move (c_state c) (c_state c'))"

lemma cell_moves_refl: "cell_moves cs cs"
  by (simp add: cell_moves_def cell_move_def)

lemma cell_moves_at:
  assumes "\<And>c. c \<noteq> cid \<Longrightarrow> tget cs' c = tget cs c"
    and "\<And>c c'. tget cs cid = Some c \<Longrightarrow> tget cs' cid = Some c' \<Longrightarrow> cell_move (c_state c) (c_state c')"
  shows "cell_moves cs cs'"
  unfolding cell_moves_def
proof (intro allI impI)
  fix i c c'
  assume "tget cs i = Some c" "tget cs' i = Some c'"
  then show "cell_move (c_state c) (c_state c')"
    using assms by (cases "i = cid") (auto simp: cell_move_def)
qed

lemma task_step_moves:
  assumes "task_step lim now r t h = (s, logs, ts)" and "phase_ok (cells (h_inner h)) t"
  shows "cell_moves (cells (h_inner h)) (cells s)"
proof (cases "task_cells t")
  case Nil
  then have "cells s = cells (h_inner h)"
    using assms(1) by (cases t) (auto simp: Let_def)
  then show ?thesis by (simp add: cell_moves_refl)
next
  case (Cons cid rest)
  have one: "rest = []" using Cons by (cases t) auto
  show ?thesis
  proof (rule cell_moves_at [of cid])
    show "tget (cells s) c = tget (cells (h_inner h)) c" if "c \<noteq> cid" for c
      using task_step_cells [OF assms] that Cons one by simp
    fix c c'
    assume c: "tget (cells (h_inner h)) cid = Some c" "tget (cells s) cid = Some c'"
    show "cell_move (c_state c) (c_state c')"
      using assms c Cons
      by (cases t) (auto simp: cell_move_def run_cell_begin_def cold_provisioned_def fail_provision_def
        build_phase_def finish_build_def Let_def teardown_begin_def teardown_finish_def warm_ready_def
        warm_failed_def pending_dec_def tget_remove_cell tget_set_cell_state cell_phase_Some
        split: reply.splits option.splits)
  qed
qed

lemma decide_scan_moves:
  assumes "decide_scan now fresh before rest s = (d, s')" and "cell_id_fresh fresh s"
    and "warm_ok (cells s) (warm s)" and "distinct (tkeys (warm s))"
  shows "cell_moves (cells s) (cells s')"
  using assms
proof (induction now fresh before rest s rule: decide_scan.induct)
  case (1 now fresh before s)
  then show ?case by (simp add: cell_moves_refl)
next
  case (2 now fresh before j rest s)
  show ?case
  proof (cases "tget (jobs s) j")
    case None
    then show ?thesis using "2.IH"(1) [OF None] "2.prems" by simp
  next
    case (Some jr)
    note jr = Some
    let ?img = "job_image (jr_job jr)" and ?req = "job_resources (jr_job jr)"
    show ?thesis
    proof (cases "take_warm ?img ?req s")
      case (Some p)
      obtain cid s1 where p: "p = (cid, s1)" by fastforce
      obtain front rear where w: "tget (warm s) ?img = Some (front @ cid # rear)"
        and s1: "s1 = s\<lparr>warm := tput ?img (front @ rear) (warm s)\<rparr>"
        and f: "warm_fits ?req (cells s) cid"
        using take_warm_Some [OF Some [unfolded p]] by blast
      have cells: "cells s' = tmod cid (assign_cell j False) (cells s)"
        using "2.prems"(1) jr Some p s1 by (auto simp: Let_def assign_def)
      show ?thesis
        by (rule cell_moves_at [of cid])
          (use f in \<open>auto simp: cells assign_cell_def cell_move_def warm_fits_def split: option.splits\<close>)
    next
      case None
      show ?thesis
      proof (cases "pick_box ?req (boxes s)")
        case (Some i)
        have nk: "tget (cells s) fresh = None"
          using "2.prems"(2) by (simp add: cell_id_fresh_def tget_None_iff)
        have "cells s' = tmod fresh (assign_cell j True)
            (tput fresh (new_cell fresh (b_id (boxes s ! i)) ?img ?req (Some j) now) (cells s))"
          using "2.prems"(1) jr None Some by (auto simp: Let_def assign_def place_cell_def)
        then show ?thesis using nk by (intro cell_moves_at [of fresh]) auto
      next
        case None2: None
        then show ?thesis
          using "2.IH"(2) [OF jr refl refl None None2] "2.prems" jr None by (simp add: Let_def)
      qed
    qed
  qed
qed

lemma reap_warm_cells:
  assumes "hive_inv cfg h" and "phases_ok h" and "reap_warm cfg now (h_inner h) = (s, reap)"
  shows "cell_moves (cells (h_inner h)) (cells s)"
proof -
  let ?c0 = "cells (h_inner h)"
  define P where "P = (\<lambda>acc :: inner \<times> cell_id list.
    reap_acc_ok (h_inner h) (h_tasks h) acc \<and> reap_phase_ok (h_tasks h) acc \<and>
    (\<forall>cid c c'. tget ?c0 cid = Some c \<longrightarrow> tget (cells (fst acc)) cid = Some c' \<longrightarrow>
      c_state c' = c_state c \<or> (c_state c = Warm \<and> c_state c' = Draining)) \<and>
    (\<forall>cid. tget (cells (fst acc)) cid = None \<longleftrightarrow> tget ?c0 cid = None))"
  have step: "P (reap_image cfg now img acc)" if P: "P acc" for img acc
  proof -
    obtain s reap where a: "acc = (s, reap)" by fastforce
    have pre: "reap_acc_ok (h_inner h) (h_tasks h) (reap_image cfg now img acc)"
      "reap_phase_ok (h_tasks h) (reap_image cfg now img acc)"
      using P reap_image_ok reap_image_phases unfolding P_def by blast+
    show ?thesis
    proof (cases "tget (warm s) img")
      case None
      then show ?thesis using P by (simp add: reap_image_def a)
    next
      case (Some pool)
      obtain ks rs where sp: "split_pool (is_stale (warm_idle_ttl_ms cfg) now (cells s))
          (warm_target_for cfg img) 0 pool = (ks, rs)" by fastforce
      have "set rs \<subseteq> set pool"
        using split_pool_mset [OF sp] by (metis mset_subset_eq_add_right set_mset_mono set_mset_mset)
      then have "x \<in># pools (warm s)" if "x \<in> set rs" for x
        using that Some by (force simp: pools_def dest!: map_of_SomeD)
      then have warm: "cell_phase (cells s) x (\<lambda>c. c_state c = Warm \<and> c_handle c \<noteq> None)" if "x \<in> set rs" for x
        using P that by (simp add: P_def a reap_phase_ok_def warm_ok_def)
      have "c_state c' = c_state c \<or> (c_state c = Warm \<and> c_state c' = Draining)"
        if "tget ?c0 cid = Some c" "tget (cells (fst (reap_image cfg now img acc))) cid = Some c'" for cid c c'
        using that P warm [of cid]
        by (auto simp: P_def a reap_image_def Some sp tget_fold_set_cell_state cell_phase_Some
            split: if_splits) fastforce+
      moreover have "tget (cells (fst (reap_image cfg now img acc))) cid = None \<longleftrightarrow> tget ?c0 cid = None" for cid
        using P by (auto simp: P_def a reap_image_def Some sp tget_fold_set_cell_state)
      ultimately show ?thesis using pre unfolding P_def by blast
    qed
  qed
  have "P (fold (reap_image cfg now) ks acc)" if "P acc" for ks acc
    using that by (induction ks arbitrary: acc) (simp_all add: step)
  moreover have "P (h_inner h, [])"
    using hive_invD [OF assms(1)] assms(2)
    by (simp add: P_def reap_acc_ok_def reap_phase_ok_def phases_ok_def)
  ultimately have "P (s, reap)" using assms(3) by (metis reap_warm_def)
  then show ?thesis
    by (fastforce simp: P_def cell_moves_def cell_move_def)
qed

text \<open>The lifecycle of cells: every step moves a cell only along \<open>can_transition_to\<close>, except
  that the cold path takes a cell from provisioning to assigned.\<close>

theorem cell_lifecycle:
  assumes "hive_orderly cfg lim h" and "hive_move cfg lim h h'"
    and "tget (cells (h_inner h)) cid = Some c" and "tget (cells (h_inner h')) cid = Some c'"
  shows "can_transition_to (c_state c) (c_state c') \<or> (c_state c = Provisioning \<and> c_state c' = Assigned)"
proof -
  have inv: "hive_inv cfg h" and ph: "phases_ok h" using hive_orderly_phases [OF assms(1)] by auto
  have "cell_moves (cells (h_inner h)) (cells (h_inner h'))"
    using assms(2)
  proof cases
    case (step_schedule fresh now d s)
    then show ?thesis
      using decide_scan_moves [of now fresh "[]" "queue (h_inner h)" "h_inner h" d s] ph hive_invD(2) [OF inv]
      by (auto simp: decide_one_def phases_ok_def owners_ok_def cell_moves_refl split: if_splits)
  next
    case (step_scale_up img fresh now s ts)
    then obtain i where "cells s = tput fresh (new_cell fresh (b_id (boxes (h_inner h) ! i)) img
        (warm_spec cfg) None now) (cells (h_inner h))"
      by (auto simp: scale_up_def place_cell_def Let_def split: if_splits option.splits)
    moreover have "tget (cells (h_inner h)) fresh = None"
      using step_scale_up(3) by (simp add: cell_id_fresh_def tget_None_iff)
    ultimately show ?thesis using step_scale_up(1) by (intro cell_moves_at [of fresh]) auto
  next
    case (step_reap_warm now s reap)
    then show ?thesis using reap_warm_cells [OF inv ph step_reap_warm(2)] by simp
  next
    case step_reap_jobs
    then show ?thesis by (simp add: cell_moves_refl)
  next
    case (step_log j l)
    then show ?thesis by (simp add: cell_moves_refl)
  next
    case (step_task ts1 t ts2 now r s logs ts)
    have "phase_ok (cells (h_inner h)) t" using ph step_task(2) by (simp add: phases_ok_def)
    from task_step_moves [OF step_task(3) this] show ?thesis using step_task(1) by simp
  qed
  then show ?thesis using assms(3,4) unfolding cell_moves_def cell_move_def by blast
qed

theorem cell_lifecycle_witness:
  "\<exists>c c'. tget (cells (h_inner demo_assigned)) ''cell-1'' = Some c \<and> c_state c = Assigned \<and>
    tget (cells (h_inner demo_building)) ''cell-1'' = Some c' \<and> c_state c' = Running \<and>
    can_transition_to (c_state c) (c_state c')"
proof -
  have "map_option c_state (tget (cells (h_inner demo_assigned)) ''cell-1'') = Some Assigned" by code_simp
  then obtain c where c: "tget (cells (h_inner demo_assigned)) ''cell-1'' = Some c" "c_state c = Assigned" by auto
  have "map_option c_state (tget (cells (h_inner demo_building)) ''cell-1'') = Some Running" by code_simp
  then obtain c' where c': "tget (cells (h_inner demo_building)) ''cell-1'' = Some c'" "c_state c' = Running" by auto
  have "h_tasks demo_assigned \<noteq> []" by code_simp
  then have "hive_move demo_cfg demo_lim demo_assigned demo_building"
    unfolding demo_building_def by (rule run_first_step)
  from cell_lifecycle [OF demo_assigned_reach this c(1) c'(1)] c c' show ?thesis by auto
qed

text \<open>The cold path makes a transition that the cell state machine of \<open>hive-core\<close> declares
  illegal: when the backend answers a cold provision, the cell goes straight from provisioning to
  assigned, for which \<open>can_transition_to\<close> is false.\<close>

theorem cold_path_illegal_transition:
  "(\<forall>s cid c hdl. tget (cells s) cid = Some c \<longrightarrow>
      map_option c_state (tget (cells (cold_provisioned cid hdl s)) cid) = Some Assigned) \<and>
    \<not> can_transition_to Provisioning Assigned"
  by (simp add: cold_provisioned_def)

theorem cold_path_illegal_transition_witness:
  "\<exists>c hdl. tget (cells (h_inner demo_placed)) ''cell-1'' = Some c \<and> c_state c = Provisioning \<and>
    map_option c_state (tget (cells (cold_provisioned ''cell-1'' hdl (h_inner demo_placed))) ''cell-1'') = Some Assigned"
proof -
  have "map_option c_state (tget (cells (h_inner demo_placed)) ''cell-1'') = Some Provisioning" by code_simp
  then obtain c where "tget (cells (h_inner demo_placed)) ''cell-1'' = Some c" "c_state c = Provisioning" by auto
  then show ?thesis using cold_path_illegal_transition by blast
qed

section \<open>The scheduler\<close>

lemma extract_None_iff': "List.extract p xs = None \<longleftrightarrow> (\<forall>x \<in> set xs. \<not> p x)"
  by (simp add: extract_None_iff)

lemma take_warm_None:
  "take_warm img req s = None \<longleftrightarrow>
    (\<forall>pool. tget (warm s) img = Some pool \<longrightarrow> (\<forall>cid \<in> set pool. \<not> warm_fits req (cells s) cid))"
  by (auto simp: take_warm_def extract_None_iff' extract_Some_iff split: option.splits)

text \<open>A job that can be placed now: a warm cell of its image satisfies it, or some box fits it.\<close>

definition placeable :: "inner \<Rightarrow> job_record \<Rightarrow> bool" where
  "placeable s jr \<longleftrightarrow>
     (\<exists>pool cid. tget (warm s) (job_image (jr_job jr)) = Some pool \<and> cid \<in> set pool \<and>
        warm_fits (job_resources (jr_job jr)) (cells s) cid) \<or>
     (\<exists>b \<in> set (boxes s). can_fit (job_resources (jr_job jr)) b)"

lemma decide_scan_idle:
  "decide_scan now fresh before rest s = (Idle, s') \<Longrightarrow>
    s' = s \<and> (\<forall>j \<in> set rest. \<forall>jr. tget (jobs s) j = Some jr \<longrightarrow> \<not> placeable s jr)"
proof (induction now fresh before rest s rule: decide_scan.induct)
  case (1 now fresh before s)
  then show ?case by simp
next
  case (2 now fresh before j rest s)
  show ?case
  proof (cases "tget (jobs s) j")
    case None
    then show ?thesis using "2.IH"(1) [OF None] "2.prems" by simp
  next
    case (Some jr)
    have tw: "take_warm (job_image (jr_job jr)) (job_resources (jr_job jr)) s = None"
      using "2.prems" Some by (auto simp: Let_def split: option.splits prod.splits)
    have pb: "pick_box (job_resources (jr_job jr)) (boxes s) = None"
      using "2.prems" Some tw by (auto simp: Let_def split: option.splits prod.splits)
    have "\<not> placeable s jr"
      using tw pb unfolding placeable_def take_warm_None pick_box_None by blast
    then show ?thesis
      using "2.IH"(2) [OF Some refl refl tw pb] "2.prems" Some tw pb by (simp add: Let_def)
  qed
qed

text \<open>The scheduler is work conserving: a pass only stops when the concurrency limit is reached
  or no queued job can be placed at all, and stopping changes nothing.\<close>

theorem scheduler_work_conserving:
  assumes "decide_one cfg now fresh s = (Idle, s')"
  shows "s' = s \<and> (running_builds s \<ge> max_concurrent_builds cfg \<or>
    (\<forall>j \<in> set (queue s). \<forall>jr. tget (jobs s) j = Some jr \<longrightarrow> \<not> placeable s jr))"
  using assms decide_scan_idle [of now fresh "[]" "queue s" s s']
  by (auto simp: decide_one_def split: if_splits)

theorem scheduler_work_conserving_witness:
  "decide_one demo_cfg 1 ''cell-9'' (h_inner (start demo_cfg [''box-1''])) = (Idle, h_inner (start demo_cfg [''box-1'']))
    \<and> (running_builds (h_inner (start demo_cfg [''box-1''])) \<ge> max_concurrent_builds demo_cfg \<or>
    (\<forall>j \<in> set (queue (h_inner (start demo_cfg [''box-1'']))).
      \<forall>jr. tget (jobs (h_inner (start demo_cfg [''box-1'']))) j = Some jr \<longrightarrow>
        \<not> placeable (h_inner (start demo_cfg [''box-1''])) jr))"
proof -
  have d: "decide_one demo_cfg 1 ''cell-9'' (h_inner (start demo_cfg [''box-1''])) = (Idle, h_inner (start demo_cfg [''box-1'']))"
    by (simp add: decide_one_def start_def demo_cfg_def)
  show ?thesis using scheduler_work_conserving [OF d] d by blast
qed

lemma pick_box_best:
  assumes p: "pick_box req bs = Some i"
  shows "i < length bs" and "can_fit req (bs ! i)"
    and "b \<in> set bs \<Longrightarrow> can_fit req b \<Longrightarrow> vcpus_free b \<le> vcpus_free (bs ! i)"
proof -
  obtain b0 where m: "max_by_key (\<lambda>(_, b). vcpus_free b)
      (filter (\<lambda>(_, b). can_fit req b) (enumerate 0 bs)) = Some (i, b0)"
    using p by (auto simp: pick_box_def)
  from max_by_key_Some [OF m] have mem: "(i, b0) \<in> set (enumerate 0 bs)"
    and best: "\<forall>x \<in> set (enumerate 0 bs). can_fit req (snd x) \<longrightarrow> vcpus_free (snd x) \<le> vcpus_free b0"
    by (auto simp: case_prod_unfold)
  have b0: "b0 = bs ! i" using mem by (simp add: in_set_enumerate_eq)
  show "vcpus_free b \<le> vcpus_free (bs ! i)" if "b \<in> set bs" "can_fit req b"
  proof -
    have "b \<in> snd ` set (enumerate 0 bs)" using that(1) by (metis list.set_map map_snd_enumerate)
    then show ?thesis using best that(2) b0 by auto
  qed
  show "i < length bs" and "can_fit req (bs ! i)" using pick_box_Some [OF p] by auto
qed

text \<open>What the scheduler places, it places soundly: a warm hit is a warm cell of the job's image
  that satisfies its request, taken out of the pool; a cold placement is on a box with room, and no
  box that also has room has more free vCPUs.\<close>

theorem placement_sound:
  "(\<forall>cid s1. take_warm img req s = Some (cid, s1) \<longrightarrow>
      (\<exists>front rear. tget (warm s) img = Some (front @ cid # rear) \<and>
        tget (warm s1) img = Some (front @ rear)) \<and>
      (\<exists>c. tget (cells s) cid = Some c \<and> c_state c = Warm \<and> satisfies (c_resources c) req)) \<and>
    (\<forall>i. pick_box req (boxes s) = Some i \<longrightarrow>
      i < length (boxes s) \<and> can_fit req (boxes s ! i) \<and>
      (\<forall>b \<in> set (boxes s). can_fit req b \<longrightarrow> vcpus_free b \<le> vcpus_free (boxes s ! i)))"
  (is "?W \<and> ?P")
proof
  show ?W
  proof (intro allI impI)
    fix cid s1 assume t: "take_warm img req s = Some (cid, s1)"
    then show "(\<exists>front rear. tget (warm s) img = Some (front @ cid # rear) \<and>
        tget (warm s1) img = Some (front @ rear)) \<and>
      (\<exists>c. tget (cells s) cid = Some c \<and> c_state c = Warm \<and> satisfies (c_resources c) req)"
      using take_warm_Some [OF t] by (fastforce simp: warm_fits_def split: option.splits)
  qed
  show ?P using pick_box_best by blast
qed

theorem placement_sound_witness:
  "pick_box (warm_spec demo_cfg) (boxes (h_inner (start demo_cfg [''box-1'']))) = Some 0 \<and>
    can_fit (warm_spec demo_cfg) (boxes (h_inner (start demo_cfg [''box-1''])) ! 0)"
proof -
  have p: "pick_box (warm_spec demo_cfg) (boxes (h_inner (start demo_cfg [''box-1'']))) = Some 0" by code_simp
  then show ?thesis using placement_sound by blast
qed

end
