(* ===== verification/Control_Plane_Bounds.thy ===== *)
theory Control_Plane_Bounds
  imports Control_Plane_Props
begin

text \<open>
  The bounds the control plane promises: retention of finished jobs, size and age of the warm
  pools, and the branch of the build phase that ends a task without giving its cell back.
\<close>

section \<open>Retention of finished jobs\<close>

lemma fold_tdel_filter: "fold tdel ids m = filter (\<lambda>(k, _). k \<notin> set ids) m"
proof (induction ids arbitrary: m)
  case Nil
  then show ?case by simp
next
  case (Cons i ids)
  have "tdel i m = filter (\<lambda>(k, _). k \<noteq> i) m"
    by (simp add: AList.delete_eq case_prod_unfold eq_commute)
  then have "fold tdel (i # ids) m = filter (\<lambda>(k, _). k \<notin> set ids) (filter (\<lambda>(k, _). k \<noteq> i) m)"
    using Cons by simp
  also have "\<dots> = filter (\<lambda>(k, _). k \<notin> set (i # ids)) m"
    unfolding filter_filter by (rule filter_cong) auto
  finally show ?case .
qed

lemma finished_jobs_filter:
  "finished_jobs (filter (\<lambda>(k, _). k \<notin> K) js) = filter (\<lambda>(_, k). k \<notin> K) (finished_jobs js)"
  unfolding finished_jobs_def
  by (simp add: filter_map comp_def case_prod_unfold conj_commute)

lemma finished_jobs_distinct: "distinct (tkeys js) \<Longrightarrow> distinct (map snd (finished_jobs js))"
  by (simp add: finished_jobs_def case_prod_unfold comp_def distinct_map_filter)

lemma filter_snd_notin_take:
  fixes L :: "('t \<times> 'k) list"
  assumes "distinct (map snd L)"
  shows "filter (\<lambda>(_, k). k \<notin> set (map snd (take n L))) L = drop n L"
proof -
  let ?p = "\<lambda>(_ :: 't, k). k \<notin> set (map snd (take n L))"
  have "distinct (map snd (take n L) @ map snd (drop n L))"
    using assms by (simp only: map_append [symmetric] append_take_drop_id)
  then have disj: "set (map snd (take n L)) \<inter> set (map snd (drop n L)) = {}"
    unfolding distinct_append by blast
  have "filter ?p (take n L @ drop n L) = filter ?p (take n L) @ filter ?p (drop n L)"
    by (rule filter_append)
  moreover have "filter ?p (take n L) = []" by (force simp: filter_empty_conv)
  moreover have "filter ?p (drop n L) = drop n L"
    using disj by (force simp: filter_id_conv)
  ultimately show ?thesis by simp
qed

lemma reaped_finished:
  assumes "distinct (tkeys js)"
  shows "mset (finished_jobs (fold tdel (evicted_jobs keep js) js)) =
    mset (drop (length (finished_jobs js) - keep) (sort (finished_jobs js)))"
proof (cases "length (finished_jobs js) \<le> keep")
  case True
  then show ?thesis by (simp add: evicted_jobs_def)
next
  case False
  let ?L = "sort (finished_jobs js)"
  let ?n = "length (finished_jobs js) - keep"
  have ev: "evicted_jobs keep js = map snd (take ?n ?L)"
    using False by (simp add: evicted_jobs_def Let_def)
  have "mset (map snd ?L) = mset (map snd (finished_jobs js))" by (simp only: mset_map mset_sort)
  then have d: "distinct (map snd ?L)"
    using finished_jobs_distinct [OF assms] by (metis distinct_count_atmost_1 set_mset_mset)
  have "mset (finished_jobs (fold tdel (evicted_jobs keep js) js)) =
      filter_mset (\<lambda>(_, k). k \<notin> set (map snd (take ?n ?L))) (mset (finished_jobs js))"
    by (simp only: fold_tdel_filter finished_jobs_filter ev mset_filter)
  also have "\<dots> = mset (filter (\<lambda>(_, k). k \<notin> set (map snd (take ?n ?L))) ?L)"
    by (simp only: mset_filter mset_sort)
  finally show ?thesis by (simp only: filter_snd_notin_take [OF d])
qed

text \<open>Retention is exact and fair: reaping drops no job that is not finished, leaves at most
  the configured number of finished jobs (all of them when there are no more), and every finished
  job it drops finished no later than every finished job it keeps.\<close>

theorem retention_exact:
  assumes "hive_orderly cfg lim h"
  shows "(\<forall>j jr. tget (jobs (h_inner h)) j = Some jr \<longrightarrow> \<not> job_is_terminal (jr_state jr) \<longrightarrow>
        tget (jobs (h_inner (reap_finished_jobs lim h))) j = Some jr)
    \<and> length (finished_jobs (jobs (h_inner (reap_finished_jobs lim h)))) =
        min (retained_jobs lim) (length (finished_jobs (jobs (h_inner h))))
    \<and> (\<forall>x \<in> set (finished_jobs (jobs (h_inner h))) - set (finished_jobs (jobs (h_inner (reap_finished_jobs lim h)))).
        \<forall>y \<in> set (finished_jobs (jobs (h_inner (reap_finished_jobs lim h)))). fst x \<le> fst y)"
proof -
  let ?js = "jobs (h_inner h)"
  let ?js' = "jobs (h_inner (reap_finished_jobs lim h))"
  let ?L = "sort (finished_jobs ?js)"
  let ?n = "length (finished_jobs ?js) - retained_jobs lim"
  have d: "distinct (tkeys ?js)"
    using hive_invD(3) [OF hive_orderly_inv [OF assms]] by (simp add: jobs_ok_def)
  have js': "?js' = fold tdel (evicted_jobs (retained_jobs lim) ?js) ?js"
    by (simp add: reap_finished_jobs_def Let_def)
  have m: "mset (finished_jobs ?js') = mset (drop ?n ?L)"
    unfolding js' by (rule reaped_finished [OF d])
  have keep: "tget ?js' j = Some jr" if "tget ?js j = Some jr" "\<not> job_is_terminal (jr_state jr)" for j jr
    using evicted_terminal [OF d] that unfolding js' by (metis fold_tdel_other option.sel)
  have len: "length (finished_jobs ?js') = min (retained_jobs lim) (length (finished_jobs ?js))"
    using arg_cong [OF m, of size] by simp
  have "fst x \<le> fst y" if "x \<in> set (finished_jobs ?js)" "x \<notin> set (finished_jobs ?js')"
    "y \<in> set (finished_jobs ?js')" for x y
  proof -
    have sets: "set (finished_jobs ?js') = set (drop ?n ?L)" using m by (metis set_mset_mset)
    have "x \<in> set (take ?n ?L @ drop ?n ?L)" using that(1) by simp
    then have x: "x \<in> set (take ?n ?L)" using that(2) sets by (metis Un_iff set_append)
    have "sorted (take ?n ?L @ drop ?n ?L)" by simp
    then have "x \<le> y" using x that(3) sets unfolding sorted_append by blast
    then show ?thesis by (auto simp: less_eq_prod_def)
  qed
  with keep len show ?thesis by blast
qed

text \<open>A second build finishes after the first; with one retained job, the first is dropped.\<close>

definition run_at :: "limits \<Rightarrow> nat \<Rightarrow> nat \<Rightarrow> reply \<Rightarrow> hive \<Rightarrow> hive" where
  "run_at lim i now r h =
     (case drop i (h_tasks h) of
        [] \<Rightarrow> h
      | t # rest \<Rightarrow> (let (s, logs, ts) = task_step lim now r t h
                    in h\<lparr>h_inner := s, h_logs := logs, h_tasks := take i (h_tasks h) @ ts @ rest\<rparr>))"

lemma run_at_reach:
  assumes "hive_orderly cfg lim h"
  shows "hive_orderly cfg lim (run_at lim i now r h)"
proof (cases "drop i (h_tasks h)")
  case Nil
  then show ?thesis using assms by (simp add: run_at_def)
next
  case (Cons t rest)
  then have t: "h_tasks h = take i (h_tasks h) @ t # rest" by (metis append_take_drop_id)
  obtain s logs ts where st: "task_step lim now r t h = (s, logs, ts)" by (metis prod_cases3)
  from orderly_move [OF assms step_task [OF t st]] show ?thesis by (simp add: run_at_def Cons st)
qed

text \<open>The run of the task at position \<open>i\<close> through a cold build that ends at time \<open>t\<close>.\<close>

definition run_cold_build :: "nat \<Rightarrow> job_id \<Rightarrow> cell_id \<Rightarrow> nat \<Rightarrow> hive \<Rightarrow> hive" where
  "run_cold_build i j cid t h =
     run_at demo_lim i t (Built (Inr (demo_result j t))) (run_at demo_lim i t No_Reply
       (run_at demo_lim i t (Provisioned (demo_handle cid)) (run_at demo_lim i t No_Reply h)))"

definition demo_two_done :: hive where
  "demo_two_done =
     run_cold_build 1 ''job-2'' ''cell-2'' 20
       (run_cold_build 0 ''job-1'' ''cell-1'' 10
         (schedule_once demo_cfg 7 ''cell-2'' (submit (demo_job ''job-2'')
           (schedule_once demo_cfg 6 ''cell-1'' demo_submitted))))"

lemma run_cold_build_reach:
  "hive_orderly cfg demo_lim h \<Longrightarrow> hive_orderly cfg demo_lim (run_cold_build i j cid t h)"
  unfolding run_cold_build_def by (intro run_at_reach)

lemma demo_two_done_reach: "hive_orderly demo_cfg demo_lim demo_two_done"
  unfolding demo_two_done_def
  by (intro run_cold_build_reach schedule_once_reach orderly_submit demo_submitted_reach)
    code_simp+

theorem retention_exact_witness:
  "length (finished_jobs (jobs (h_inner demo_two_done))) = 2 \<and>
    length (finished_jobs (jobs (h_inner (reap_finished_jobs demo_lim demo_two_done)))) = 1"
proof -
  have two: "length (finished_jobs (jobs (h_inner demo_two_done))) = 2" by code_simp
  with retention_exact [OF demo_two_done_reach] show ?thesis by (simp add: demo_lim_def)
qed

section \<open>The size of the warm pools\<close>

definition warm_bound :: "hive_config \<Rightarrow> inner \<Rightarrow> task list \<Rightarrow> bool" where
  "warm_bound cfg s ts \<longleftrightarrow>
     (\<forall>img. pool_len img s + count (held_images ts) img \<le> warm_target_for cfg img)"

lemma pending_count: "pending_ok (warm_pending s) ts \<Longrightarrow> pending_len img s = count (held_images ts) img"
  by (simp add: pending_ok_def pending_len_def)

lemma pool_len_simps [simp]:
  "pool_len img (s\<lparr>cells := cs\<rparr>) = pool_len img s"
  "pool_len img (s\<lparr>jobs := js\<rparr>) = pool_len img s"
  "pool_len img (s\<lparr>boxes := bs\<rparr>) = pool_len img s"
  "pool_len img (s\<lparr>queue := q\<rparr>) = pool_len img s"
  "pool_len img (s\<lparr>running_builds := n\<rparr>) = pool_len img s"
  "pool_len img (s\<lparr>warm_pending := wp\<rparr>) = pool_len img s"
  by (simp_all add: pool_len_def)

lemma pool_len_cong: "warm s' = warm s \<Longrightarrow> pool_len img s' = pool_len img s"
  by (simp add: pool_len_def)

lemma pool_len_tput:
  "pool_len img (s\<lparr>warm := tput i p (warm s)\<rparr>) = (if i = img then length p else pool_len img s)"
  by (simp add: pool_len_def)

lemma take_warm_pool_len: "take_warm i req s = Some (cid, s1) \<Longrightarrow> pool_len img s1 \<le> pool_len img s"
  by (drule take_warm_Some) (auto simp: pool_len_def)

lemma decide_scan_pool_len:
  "decide_scan now fresh before rest s = (d, s') \<Longrightarrow>
    pool_len img s' \<le> pool_len img s \<and> held_images (decision_tasks d) = {#}"
proof (induction now fresh before rest s rule: decide_scan.induct)
  case (1 now fresh before s)
  then show ?case by (auto simp: decision_tasks_def)
next
  case (2 now fresh before j rest s)
  show ?case
  proof (cases "tget (jobs s) j")
    case None
    then show ?thesis using 2 by simp
  next
    case (Some jr)
    let ?img = "job_image (jr_job jr)" and ?req = "job_resources (jr_job jr)"
    show ?thesis
    proof (cases "take_warm ?img ?req s")
      case (Some p)
      then obtain cid s1 where t: "take_warm ?img ?req s = Some (cid, s1)" by fastforce
      have "pool_len img s' = pool_len img s1"
        using 2 t \<open>tget (jobs s) j = Some jr\<close>
        by (auto simp: Let_def assign_def intro: pool_len_cong)
      then show ?thesis
        using 2 t \<open>tget (jobs s) j = Some jr\<close> take_warm_pool_len [OF t, of img]
        by (auto simp: Let_def decision_tasks_def)
    next
      case None
      show ?thesis
      proof (cases "pick_box ?req (boxes s)")
        case (Some i)
        then show ?thesis
          using 2 None \<open>tget (jobs s) j = Some jr\<close>
          by (auto simp: Let_def decision_tasks_def assign_def place_cell_def pool_len_def)
      next
        case pb: None
        show ?thesis
          using "2.IH"(2) [OF \<open>tget (jobs s) j = Some jr\<close> refl refl None pb] "2.prems" None pb
            \<open>tget (jobs s) j = Some jr\<close>
          by (simp add: Let_def)
      qed
    qed
  qed
qed

lemma split_pool_bounds:
  "split_pool stale target kept pool = (ks, rs) \<Longrightarrow>
    length ks \<le> target - kept \<and> (\<forall>c \<in> set ks. \<not> stale c) \<and> length ks \<le> length pool"
proof (induction stale target kept pool arbitrary: ks rs rule: split_pool.induct)
  case (1 stale target kept)
  then show ?case by simp
next
  case (2 stale target kept cid cids)
  show ?case
  proof (cases "kept \<ge> target \<or> stale cid")
    case True
    obtain ks' rs' where r: "split_pool stale target kept cids = (ks', rs')" by fastforce
    with "2.IH"(1) [OF True r] "2.prems" True show ?thesis by auto
  next
    case False
    obtain ks' rs' where r: "split_pool stale target (Suc kept) cids = (ks', rs')" by fastforce
    with "2.IH"(2) [OF False r] "2.prems" False show ?thesis by auto
  qed
qed

lemma bind_drain [simp]:
  "Option.bind (map_option (c_state_update (\<lambda>_. st)) x) c_became_warm_at_ms = Option.bind x c_became_warm_at_ms"
  by (cases x) auto

text \<open>The pool that the reaper leaves, and the ages on which it decides: a teardown changes neither.\<close>

definition warm_since :: "inner \<Rightarrow> cell_id \<Rightarrow> nat option" where
  "warm_since s cid = Option.bind (tget (cells s) cid) c_became_warm_at_ms"

lemma is_stale_warm_since:
  "is_stale ttl now (cells s) cid = (case warm_since s cid of None \<Rightarrow> False | Some t \<Rightarrow> now - t > ttl)"
  by (simp add: is_stale_def warm_since_def)

lemma warm_since_fold [simp]:
  "warm_since (fold (\<lambda>cid. set_cell_state cid Draining) rs s) = warm_since s"
  by (rule ext) (simp add: warm_since_def tget_fold_set_cell_state option.map_comp comp_def split: option.splits)

lemma reap_image_effect:
  "warm_since (fst (reap_image cfg now img acc)) = warm_since (fst acc) \<and>
    tget (warm (fst (reap_image cfg now img acc))) i =
      (if i = img then map_option (\<lambda>pool. fst (split_pool (is_stale (warm_idle_ttl_ms cfg) now (cells (fst acc)))
          (warm_target_for cfg img) 0 pool)) (tget (warm (fst acc)) img)
       else tget (warm (fst acc)) i)"
  by (cases acc) (auto simp: reap_image_def warm_since_def Let_def fun_eq_iff tget_fold_set_cell_state
      split: option.splits prod.splits)

lemma reap_fold_effect:
  "distinct imgs \<Longrightarrow>
    tget (warm (fst (fold (reap_image cfg now) imgs acc))) i =
      (if i \<in> set imgs then map_option (\<lambda>pool. fst (split_pool (is_stale (warm_idle_ttl_ms cfg) now (cells (fst acc)))
          (warm_target_for cfg i) 0 pool)) (tget (warm (fst acc)) i)
       else tget (warm (fst acc)) i)"
proof (induction imgs arbitrary: acc)
  case Nil
  then show ?case by simp
next
  case (Cons img imgs)
  have "is_stale (warm_idle_ttl_ms cfg) now (cells (fst (reap_image cfg now img acc))) =
      is_stale (warm_idle_ttl_ms cfg) now (cells (fst acc))"
    by (rule ext) (simp add: is_stale_warm_since reap_image_effect)
  with Cons show ?case by (auto simp: reap_image_effect)
qed

lemma reap_warm_pool:
  assumes "distinct (tkeys (warm s))" and "reap_warm cfg now s = (s', reap)"
  shows "tget (warm s') img = map_option (\<lambda>pool. fst (split_pool (is_stale (warm_idle_ttl_ms cfg) now (cells s))
          (warm_target_for cfg img) 0 pool)) (tget (warm s) img)"
  using reap_fold_effect [OF assms(1), of cfg now "(s, [])" img] assms(2)
  by (cases "img \<in> set (tkeys (warm s))") (auto simp: reap_warm_def tget_None_iff [THEN iffD2])

lemma reap_warm_pool_len:
  assumes "distinct (tkeys (warm s))" and "reap_warm cfg now s = (s', reap)"
  shows "pool_len img s' \<le> pool_len img s"
proof -
  have "length (fst (split_pool st tg 0 pool)) \<le> length pool" for st tg and pool :: "cell_id list"
    using split_pool_bounds [of st tg 0 pool] by (cases "split_pool st tg 0 pool") auto
  then show ?thesis using reap_warm_pool [OF assms, of img]
    by (auto simp: pool_len_def split: option.splits)
qed

lemma task_step_images':
  "held_images (snd (snd (task_step lim now r t h))) \<subseteq># held_images [t]"
  by (cases t)
    (cases r; simp add: Let_def run_cell_begin_def build_phase_def case_prod_unfold split: option.split)+

lemma task_step_images:
  "task_step lim now r t h = (s, logs, ts) \<Longrightarrow> held_images ts \<subseteq># held_images [t]"
  using task_step_images' [of lim now r t h] by simp

lemma held_images_task:
  assumes "task_step lim now r t h = (s, logs, ts)"
  shows "pool_len img s + count (held_images ts) img \<le> pool_len img (h_inner h) + count (held_images [t]) img"
  using task_step_warm [OF assms]
proof (elim disjE exE conjE)
  assume "warm s = warm (h_inner h)"
  from pool_len_cong [OF this, of img] show ?thesis
    using mset_subset_eq_count [OF task_step_images [OF assms], of img] by simp
next
  fix i cid p
  assume t: "t = Await_Warm i cid" and s: "s = warm_ready now i cid p (h_inner h)" and ts: "ts = []"
  have "pool_len img s = pool_len img (h_inner h) + (if i = img then 1 else 0)"
    by (auto simp: s warm_ready_def pending_dec_def Let_def pool_len_def split: option.splits)
  then show ?thesis by (simp add: t ts)
qed

lemma hive_move_warm_bound:
  assumes "hive_move cfg lim h h'" and inv: "hive_inv cfg h"
    and wb: "warm_bound cfg (h_inner h) (h_tasks h)"
  shows "warm_bound cfg (h_inner h') (h_tasks h')"
  using assms(1)
proof cases
  case (step_schedule fresh now d s)
  have "pool_len img s \<le> pool_len img (h_inner h) \<and> held_images (decision_tasks d) = {#}" for img
    using step_schedule(3) decide_scan_pool_len [of now fresh "[]" "queue (h_inner h)" "h_inner h" d s]
    by (auto simp: decide_one_def decision_tasks_def split: if_splits)
  then show ?thesis using wb step_schedule(1)
    by (auto simp: warm_bound_def intro: order_trans [OF add_right_mono])
next
  case (step_scale_up img fresh now s ts)
  then have g: "pool_len img (h_inner h) + pending_len img (h_inner h) < warm_target_for cfg img"
    and ts: "ts = [Provision_Warm img fresh]" and s: "warm s = warm (h_inner h)"
    by (auto simp: scale_up_def Let_def place_cell_def split: if_splits option.splits)
  show ?thesis
    using wb g pending_count [OF hive_invD(5) [OF inv], of img]
    by (auto simp: pool_len_cong [OF s] warm_bound_def step_scale_up(1) ts)
next
  case (step_reap_warm now s reap)
  have "pool_len img s \<le> pool_len img (h_inner h)" for img
    using reap_warm_pool_len [OF _ step_reap_warm(2)] hive_invD(2) [OF inv] by (simp add: owners_ok_def)
  then show ?thesis using wb step_reap_warm(1)
    by (auto simp: warm_bound_def intro: order_trans [OF add_right_mono])
next
  case step_reap_jobs
  then show ?thesis using wb by (simp add: warm_bound_def pool_len_def)
next
  case (step_log j l)
  then show ?thesis using wb by simp
next
  case (step_task ts1 t ts2 now r s logs ts)
  show ?thesis
    unfolding warm_bound_def
  proof
    fix img
    have "pool_len img (h_inner h) + count (held_images (ts1 @ t # ts2)) img \<le> warm_target_for cfg img"
      using wb step_task(2) unfolding warm_bound_def by metis
    with held_images_task [OF step_task(3), of img]
    show "pool_len img (h_inner h') + count (held_images (h_tasks h')) img \<le> warm_target_for cfg img"
      by (simp add: step_task(1))
  qed
qed

lemma orderly_warm_bound: "hive_orderly cfg lim h \<Longrightarrow> warm_bound cfg (h_inner h) (h_tasks h)"
proof (induction rule: hive_orderly.induct)
  case (orderly_start ids)
  then show ?case by (simp add: warm_bound_def start_def pool_len_def)
next
  case (orderly_submit h job)
  then show ?case by (simp add: warm_bound_def submit_def submit_inner_def pool_len_def)
next
  case (orderly_move h h')
  then show ?case using hive_move_warm_bound hive_orderly_inv by blast
qed

text \<open>The warm pool never overshoots: in every state of an orderly run the warm cells of an image and
  the warm cells still being provisioned are together at most the configured target.\<close>

theorem warm_pool_bounded:
  assumes "hive_orderly cfg lim h"
  shows "pool_len img (h_inner h) + pending_len img (h_inner h) \<le> warm_target_for cfg img"
  using orderly_warm_bound [OF assms] pending_count [OF hive_invD(5) [OF hive_orderly_inv [OF assms]]]
  by (simp add: warm_bound_def)

theorem warm_pool_bounded_witness:
  "pool_len ''node'' (h_inner demo_warmed) + pending_len ''node'' (h_inner demo_warmed) \<le> 1 \<and>
    pool_len ''node'' (h_inner demo_warmed) = 1"
proof -
  have "warm_target_for demo_cfg ''node'' = 1 \<and> pool_len ''node'' (h_inner demo_warmed) = 1" by code_simp
  with warm_pool_bounded [OF demo_warmed_reach, of "''node''"] show ?thesis by simp
qed

text \<open>The reaper keeps only young cells, and not more than the target: after it ran, no cell
  left in a pool was idle for longer than the limit, no pool is longer than its target, and what
  is left was there before.\<close>

theorem reaper_exact:
  assumes "hive_orderly cfg lim h" and "reap_warm cfg now (h_inner h) = (s, reap)"
    and "tget (warm s) img = Some ks"
  shows "length ks \<le> warm_target_for cfg img \<and>
    (\<forall>cid \<in> set ks. \<not> is_stale (warm_idle_ttl_ms cfg) now (cells (h_inner h)) cid) \<and>
    (\<exists>pool. tget (warm (h_inner h)) img = Some pool \<and> set ks \<subseteq> set pool)"
proof -
  have "distinct (tkeys (warm (h_inner h)))"
    using hive_invD(2) [OF hive_orderly_inv [OF assms(1)]] by (simp add: owners_ok_def)
  from reap_warm_pool [OF this assms(2), of img] assms(3)
  obtain pool rs where p: "tget (warm (h_inner h)) img = Some pool"
    and sp: "split_pool (is_stale (warm_idle_ttl_ms cfg) now (cells (h_inner h))) (warm_target_for cfg img) 0 pool = (ks, rs)"
    by (cases "tget (warm (h_inner h)) img") (auto simp: prod_eq_iff)
  have "set ks \<subseteq> set pool"
    using split_pool_mset [OF sp] by (metis mset_subset_eq_add_left set_mset_mono set_mset_mset)
  with split_pool_bounds [OF sp] p show ?thesis by simp
qed

theorem reaper_exact_witness:
  "warm (fst (reap_warm demo_cfg 100 (h_inner demo_warmed))) = [(''node'', [''cell-2''])] \<and>
    \<not> is_stale (warm_idle_ttl_ms demo_cfg) 100 (cells (h_inner demo_warmed)) ''cell-2''"
proof -
  have w: "warm (fst (reap_warm demo_cfg 100 (h_inner demo_warmed))) = [(''node'', [''cell-2''])]" by code_simp
  obtain s reap where r: "reap_warm demo_cfg 100 (h_inner demo_warmed) = (s, reap)" by fastforce
  then have "tget (warm s) ''node'' = Some [''cell-2'']" using w by simp
  from reaper_exact [OF demo_warmed_reach r this] w show ?thesis by simp
qed

section \<open>The build phase\<close>

text \<open>A build that reaches its phase is started: in every reachable state a task at its build
  phase finds its job record and the handle of its cell, so it continues as a running build; the
  branches for a missing handle and a missing job are never taken.\<close>

theorem build_phase_starts:
  assumes "hive_orderly cfg lim h" and "Build_Phase j cid \<in> set (h_tasks h)"
  shows "\<exists>hdl. snd (snd (build_phase now j cid h)) = [Await_Build j cid hdl] \<and>
    map_option jr_state (tget (jobs (fst (build_phase now j cid h))) j) = Some Building"
proof -
  have inv: "hive_inv cfg h" and ph: "phases_ok h" using hive_orderly_phases [OF assms(1)] by auto
  have "j \<in># held_jobs (h_tasks h)"
    using assms(2) by (force simp: held_jobs_def)
  then obtain jr where jr: "tget (jobs (h_inner h)) j = Some jr"
    using jobs_ok_live [OF hive_invD(3) [OF inv], of j] by auto
  have "phase_ok (cells (h_inner h)) (Build_Phase j cid)"
    using ph assms(2) by (auto simp: phases_ok_def)
  then obtain c hdl where c: "tget (cells (h_inner h)) cid = Some c" "c_handle c = Some hdl"
    by (auto simp: cell_phase_Some)
  show ?thesis
    using jr c by (simp add: build_phase_def Let_def tget_set_cell_state start_job_def)
qed

theorem build_phase_starts_witness:
  "\<exists>hdl. snd (snd (build_phase 10 ''job-1'' ''cell-1'' demo_assigned)) = [Await_Build ''job-1'' ''cell-1'' hdl]"
proof -
  have "h_tasks demo_assigned \<noteq> [] \<and>
      (case hd (h_tasks demo_assigned) of Build_Phase j cid \<Rightarrow> j = ''job-1'' \<and> cid = ''cell-1'' | _ \<Rightarrow> False)"
    by code_simp
  then have "hd (h_tasks demo_assigned) = Build_Phase ''job-1'' ''cell-1'' \<and> h_tasks demo_assigned \<noteq> []"
    by (cases "hd (h_tasks demo_assigned)") simp_all
  then have "Build_Phase ''job-1'' ''cell-1'' \<in> set (h_tasks demo_assigned)"
    by (metis list.set_sel(1))
  from build_phase_starts [OF demo_assigned_reach this] show ?thesis by blast
qed

text \<open>The same run with an identifier submitted twice: the record of the first submission is
  finished and reaped while the second build is being provisioned.\<close>

definition twice_submitted :: hive where
  "twice_submitted =
     schedule_once demo_cfg 5 ''cell-3'' (submit (demo_job ''job-2'')
       (schedule_once demo_cfg 4 ''cell-2'' (submit (demo_job ''job-1'')
         (schedule_once demo_cfg 3 ''cell-1'' (submit (demo_job ''job-1'') (start demo_cfg [''box-1'']))))))"

definition finish_cell :: "nat \<Rightarrow> hive \<Rightarrow> hive" where
  "finish_cell i h = run_at demo_lim i 40 No_Reply (run_at demo_lim i 40 No_Reply (run_at demo_lim i 40 No_Reply h))"

definition twice_finished :: hive where
  "twice_finished =
     run_at demo_lim 0 50 No_Reply (run_at demo_lim 0 50 (Provisioned (demo_handle ''cell-2''))
       (run_at demo_lim 0 50 No_Reply
         (finish_cell 1 (run_cold_build 1 ''job-2'' ''cell-3'' 30
           (finish_cell 0 (run_cold_build 0 ''job-1'' ''cell-1'' 20 twice_submitted))))))"

text \<open>A job identifier submitted twice can leak a cell and a build slot for good: when the first
  build of the identifier has finished and its record was reaped, the second one returns from
  \<open>run_build_phase\<close> without a teardown; no task is left, and the cell and the slot stay taken.\<close>

theorem duplicate_id_leaks:
  "h_tasks twice_finished = [] \<and> queue (h_inner twice_finished) = [] \<and>
    map_option c_state (tget (cells (h_inner twice_finished)) ''cell-2'') = Some Running \<and>
    running_builds (h_inner twice_finished) = 1 \<and> map vcpus_used (boxes (h_inner twice_finished)) = [2]"
  by code_simp

end
