(* ===== verification/Edge_Limits.thy ===== *)
theory Edge_Limits
  imports Prelude
begin

text \<open>
  The two admission gates of the edge: the per-address rate limiter of
  \<open>crates/hive-edge/src/ratelimit.rs\<close> and the per-region burst limiter of
  \<open>crates/hive-edge/src/concurrency.rs\<close>. Both keep a queue of admission times and differ in
  what they call outdated; what they promise is proved once, in the locale \<open>sliding_window\<close>.
  The clock is an argument.
\<close>

section \<open>The rate limiter\<close>

record rate_limiter =
  rl_enabled :: bool
  rl_limit :: nat
  rl_window_ms :: nat
  rl_blocked_total :: nat
  rl_hits :: "(string, nat list) table"

record rate_limit_stats =
  rls_enabled :: bool
  rls_limit :: nat
  rls_window_ms :: nat
  rls_tracked_ips :: nat
  rls_blocked_total :: nat

definition rl_new :: "nat \<Rightarrow> nat \<Rightarrow> rate_limiter" where
  "rl_new lim window =
     \<lparr>rl_enabled = True, rl_limit = lim, rl_window_ms = window, rl_blocked_total = 0, rl_hits = []\<rparr>"

text \<open>What \<open>check\<close> does to the queue of one address.\<close>

definition rl_admit :: "nat \<Rightarrow> nat \<Rightarrow> nat \<Rightarrow> nat list \<Rightarrow> nat list \<times> bool" where
  "rl_admit window lim now q0 =
     (let cutoff = now - window; q = dropWhile (\<lambda>t. t < cutoff) q0
      in if as_u32 (length q) \<ge> lim then (q, False) else (q @ [now], True))"

definition rl_prune :: "nat \<Rightarrow> (string, nat list) table \<Rightarrow> (string, nat list) table" where
  "rl_prune cutoff m =
     (if length m > 50000
      then tretain (\<lambda>_ q. case q of [] \<Rightarrow> False | _ # _ \<Rightarrow> last q > cutoff) m else m)"

definition rl_check :: "string \<Rightarrow> nat \<Rightarrow> rate_limiter \<Rightarrow> bool \<times> rate_limiter" where
  "rl_check ip now rl =
     (if \<not> rl_enabled rl then (True, rl)
      else
        (let m = rl_prune (now - rl_window_ms rl) (rl_hits rl);
             q0 = (case tget m ip of None \<Rightarrow> [] | Some q \<Rightarrow> q);
             (q, ok) = rl_admit (rl_window_ms rl) (rl_limit rl) now q0
         in (ok, rl\<lparr>rl_hits := tput ip q m,
                   rl_blocked_total := rl_blocked_total rl + (if ok then 0 else 1)\<rparr>)))"

definition rl_set :: "bool \<Rightarrow> nat \<Rightarrow> nat \<Rightarrow> rate_limiter \<Rightarrow> rate_limiter" where
  "rl_set enabled lim window rl =
     rl\<lparr>rl_enabled := enabled,
        rl_limit := (if lim > 0 then lim else rl_limit rl),
        rl_window_ms := (if window > 0 then window else rl_window_ms rl)\<rparr>"

definition rl_stats :: "rate_limiter \<Rightarrow> rate_limit_stats" where
  "rl_stats rl =
     \<lparr>rls_enabled = rl_enabled rl, rls_limit = rl_limit rl, rls_window_ms = rl_window_ms rl,
      rls_tracked_ips = length (rl_hits rl), rls_blocked_total = rl_blocked_total rl\<rparr>"

text \<open>A sequence of requests, each an address and a time, and the decisions on them.\<close>

fun rl_run :: "(string \<times> nat) list \<Rightarrow> rate_limiter \<Rightarrow> bool list \<times> rate_limiter" where
  "rl_run [] rl = ([], rl)"
| "rl_run ((ip, now) # reqs) rl =
     (let (ok, rl1) = rl_check ip now rl; (oks, rl2) = rl_run reqs rl1 in (ok # oks, rl2))"

section \<open>The burst limiter\<close>

datatype plan = Hobby | Pro | Enterprise

fun max_concurrency :: "plan \<Rightarrow> nat" where
  "max_concurrency Hobby = 30000"
| "max_concurrency Pro = 30000"
| "max_concurrency Enterprise = 100000"

record concurrency_limiter =
  cl_region :: string
  cl_plan :: plan
  cl_burst_limit :: nat
  cl_window_ms :: nat
  cl_admissions :: "nat list"
  cl_throttled_total :: nat

record concurrency_stats =
  cls_plan :: plan
  cls_region :: string
  cls_window_count :: nat
  cls_burst_limit :: nat
  cls_window_ms :: nat
  cls_max_concurrency :: nat
  cls_throttled_total :: nat

definition cl_new :: "string \<Rightarrow> plan \<Rightarrow> concurrency_limiter" where
  "cl_new region p =
     \<lparr>cl_region = region, cl_plan = p, cl_burst_limit = 1000, cl_window_ms = 10000,
      cl_admissions = [], cl_throttled_total = 0\<rparr>"

definition with_burst :: "nat \<Rightarrow> nat \<Rightarrow> concurrency_limiter \<Rightarrow> concurrency_limiter" where
  "with_burst lim window cl = cl\<lparr>cl_burst_limit := lim, cl_window_ms := window\<rparr>"

definition cl_admit :: "nat \<Rightarrow> nat \<Rightarrow> nat \<Rightarrow> nat list \<Rightarrow> nat list \<times> bool" where
  "cl_admit window lim now q0 =
     (let q = dropWhile (\<lambda>front. now - front \<ge> window) q0
      in if length q \<ge> lim then (q, False) else (q @ [now], True))"

definition try_admit :: "nat \<Rightarrow> concurrency_limiter \<Rightarrow> bool \<times> concurrency_limiter" where
  "try_admit now cl =
     (let (q, ok) = cl_admit (cl_window_ms cl) (cl_burst_limit cl) now (cl_admissions cl)
      in (ok, cl\<lparr>cl_admissions := q,
                cl_throttled_total := cl_throttled_total cl + (if ok then 0 else 1)\<rparr>))"

definition cl_stats :: "nat \<Rightarrow> concurrency_limiter \<Rightarrow> concurrency_stats \<times> concurrency_limiter" where
  "cl_stats now cl =
     (let q = dropWhile (\<lambda>front. now - front \<ge> cl_window_ms cl) (cl_admissions cl)
      in (\<lparr>cls_plan = cl_plan cl, cls_region = cl_region cl, cls_window_count = length q,
           cls_burst_limit = cl_burst_limit cl, cls_window_ms = cl_window_ms cl,
           cls_max_concurrency = max_concurrency (cl_plan cl),
           cls_throttled_total = cl_throttled_total cl\<rparr>,
          cl\<lparr>cl_admissions := q\<rparr>))"

fun cl_run :: "nat list \<Rightarrow> concurrency_limiter \<Rightarrow> bool list \<times> concurrency_limiter" where
  "cl_run [] cl = ([], cl)"
| "cl_run (now # ts) cl =
     (let (ok, cl1) = try_admit now cl; (oks, cl2) = cl_run ts cl1 in (ok # oks, cl2))"

section \<open>Sliding windows\<close>

text \<open>
  What a gate promises about its queue. \<open>fresh now t\<close> says that \<open>t\<close> must still be counted at
  \<open>now\<close>, \<open>live now t\<close> that it may be. The gate may forget a prefix of its queue that has
  nothing fresh in it; it admits exactly when what is left is shorter than the limit.
\<close>

locale sliding_window =
  fixes fresh :: "nat \<Rightarrow> nat \<Rightarrow> bool"
    and live :: "nat \<Rightarrow> nat \<Rightarrow> bool"
    and lim :: nat
    and admit :: "nat \<Rightarrow> nat list \<Rightarrow> nat list \<times> bool"
  assumes fresh_mono: "fresh now t \<Longrightarrow> now0 \<le> now \<Longrightarrow> fresh now0 t"
    and admit_law: "length q \<le> lim \<Longrightarrow> sorted q \<Longrightarrow> \<exists>old rest. q = old @ rest \<and>
      (\<forall>t \<in> set old. \<not> fresh now t) \<and> (\<forall>t \<in> set rest. live now t) \<and>
      admit now q = (if length rest < lim then (rest @ [now], True) else (rest, False))"
begin

text \<open>\<open>hist\<close> is the list of all admissions so far, \<open>q\<close> the queue after a decision at \<open>now\<close>.\<close>

definition window_inv :: "nat \<Rightarrow> nat list \<Rightarrow> nat list \<Rightarrow> bool" where
  "window_inv now hist q \<longleftrightarrow>
     sorted hist \<and> (\<forall>t \<in> set hist. t \<le> now) \<and> length q \<le> lim \<and>
     (\<exists>old. hist = old @ q \<and> (\<forall>t \<in> set old. \<not> fresh now t)) \<and>
     (\<forall>now'. length (filter (\<lambda>t. fresh now' t \<and> t \<le> now') hist) \<le> lim)"

lemma window_inv_init: "window_inv now [] []"
  by (simp add: window_inv_def)

lemma window_inv_later: "window_inv now0 hist q \<Longrightarrow> now0 \<le> now \<Longrightarrow> window_inv now hist q"
  unfolding window_inv_def using fresh_mono by fastforce

lemma window_inv_forget:
  assumes "window_inv now hist q" and "\<forall>t \<in> set q. \<not> fresh now t"
  shows "window_inv now hist []"
proof -
  obtain old where "hist = old @ q" "\<forall>t \<in> set old. \<not> fresh now t"
    using assms(1) by (auto simp: window_inv_def)
  then have "hist = hist @ [] \<and> (\<forall>t \<in> set hist. \<not> fresh now t)" using assms(2) by auto
  then show ?thesis using assms(1) unfolding window_inv_def by auto
qed

lemma window_inv_bound:
  "window_inv now hist q \<Longrightarrow> length (filter (\<lambda>t. fresh now' t \<and> t \<le> now') hist) \<le> lim"
  by (simp add: window_inv_def)

lemma window_step:
  assumes inv: "window_inv now0 hist q" and le: "now0 \<le> now" and ad: "admit now q = (q', ok)"
  shows "window_inv now (if ok then hist @ [now] else hist) q'"
    and "\<not> ok \<Longrightarrow> lim \<le> length (filter (live now) hist)"
    and "ok \<Longrightarrow> length (filter (fresh now) hist) < lim"
proof -
  have inv': "window_inv now hist q" by (rule window_inv_later [OF inv le])
  then obtain old where old: "hist = old @ q" "\<forall>t \<in> set old. \<not> fresh now t"
    and srt: "sorted hist" and upper: "\<forall>t \<in> set hist. t \<le> now" and len: "length q \<le> lim"
    and bound: "\<And>now'. length (filter (\<lambda>t. fresh now' t \<and> t \<le> now') hist) \<le> lim"
    by (auto simp: window_inv_def)
  have "sorted q" using srt old(1) by (simp add: sorted_append)
  from admit_law [OF len this, of now] obtain o2 rest where q: "q = o2 @ rest"
    and o2: "\<forall>t \<in> set o2. \<not> fresh now t" and lv: "\<forall>t \<in> set rest. live now t"
    and adm: "admit now q = (if length rest < lim then (rest @ [now], True) else (rest, False))"
    by blast
  have split: "hist = (old @ o2) @ rest" and outdated: "\<forall>t \<in> set (old @ o2). \<not> fresh now t"
    using old o2 q by auto
  show "window_inv now (if ok then hist @ [now] else hist) q'"
  proof (cases ok)
    case False
    then have "q' = rest" using ad adm by (auto split: if_splits)
    then show ?thesis using False inv' len q split outdated unfolding window_inv_def
      by (auto intro: exI [of _ "old @ o2"])
  next
    case True
    then have q': "q' = rest @ [now]" and less: "length rest < lim" using ad adm by (auto split: if_splits)
    have "length (filter (\<lambda>t. fresh now' t \<and> t \<le> now') (hist @ [now])) \<le> lim" for now'
    proof (cases "now \<le> now'")
      case True
      have "filter (\<lambda>t. fresh now' t \<and> t \<le> now') (old @ o2) = []"
        using outdated fresh_mono [OF _ True] by (force simp: filter_empty_conv)
      then have "length (filter (\<lambda>t. fresh now' t \<and> t \<le> now') hist) \<le> length rest"
        unfolding split by simp
      then show ?thesis using less by auto
    next
      case False
      then show ?thesis using bound [of now'] by simp
    qed
    moreover have "sorted (hist @ [now])" using srt upper by (simp add: sorted_append)
    ultimately show ?thesis
      using True q' less upper split outdated unfolding window_inv_def by auto
  qed
  show "length (filter (fresh now) hist) < lim" if ok
  proof -
    have "filter (fresh now) (old @ o2) = []" using outdated unfolding filter_empty_conv by blast
    then have "length (filter (fresh now) hist) \<le> length rest"
      unfolding split filter_append by simp
    also have "\<dots> < lim" using that ad adm by (auto split: if_splits)
    finally show ?thesis .
  qed
  assume "\<not> ok"
  then have "lim \<le> length rest" using ad adm by (auto split: if_splits)
  also have "rest = filter (live now) rest" using lv by simp
  also have "length (filter (live now) rest) \<le> length (filter (live now) hist)" unfolding split by simp
  finally show "lim \<le> length (filter (live now) hist)" .
qed

end

definition rl_fresh :: "nat \<Rightarrow> nat \<Rightarrow> nat \<Rightarrow> bool" where
  "rl_fresh window now t = (now - window < t)"

definition rl_live :: "nat \<Rightarrow> nat \<Rightarrow> nat \<Rightarrow> bool" where
  "rl_live window now t = (now - window \<le> t)"

definition cl_fresh :: "nat \<Rightarrow> nat \<Rightarrow> nat \<Rightarrow> bool" where
  "cl_fresh window now t = (now - t < window)"

lemma sorted_dropWhile_all:
  fixes q :: "nat list"
  assumes "sorted q" and "\<And>a b. p b \<Longrightarrow> a \<le> b \<Longrightarrow> p a"
  shows "\<forall>t \<in> set (dropWhile p q). \<not> p t"
  using dropWhile_sorted_filter [of q p] assms by auto

lemma admit_by_dropWhile:
  assumes "adm = (if length (dropWhile p q) < n then (dropWhile p q @ [now], True) else (dropWhile p q, False))"
    and "\<forall>t \<in> set (dropWhile p q). L t" and "\<forall>t \<in> set (takeWhile p q). \<not> F t"
  shows "\<exists>old rest. q = old @ rest \<and> (\<forall>t \<in> set old. \<not> F t) \<and> (\<forall>t \<in> set rest. L t) \<and>
    adm = (if length rest < n then (rest @ [now], True) else (rest, False))"
proof -
  have "q = takeWhile p q @ dropWhile p q" by simp
  with assms show ?thesis by blast
qed

interpretation rlw: sliding_window "rl_fresh window" "rl_live window" "as_u32 lim" "rl_admit window (as_u32 lim)"
  for window lim
proof
  show "rl_fresh window now0 t" if "rl_fresh window now t" "now0 \<le> now" for now t now0
    using that by (simp add: rl_fresh_def)
next
  fix q :: "nat list" and now
  assume len: "length q \<le> as_u32 lim" and srt: "sorted q"
  let ?p = "\<lambda>t. t < now - window"
  have "length (dropWhile ?p q) < 2 ^ 32"
    using len length_dropWhile_le [of ?p q] by (simp add: as_u32_def)
  then have "as_u32 (length (dropWhile ?p q)) = length (dropWhile ?p q)" by (rule as_u32_exact)
  then have adm: "rl_admit window (as_u32 lim) now q =
      (if length (dropWhile ?p q) < as_u32 lim then (dropWhile ?p q @ [now], True) else (dropWhile ?p q, False))"
    by (simp add: rl_admit_def Let_def)
  have rest: "\<forall>t \<in> set (dropWhile ?p q). rl_live window now t"
  proof -
    have "\<forall>t \<in> set (dropWhile ?p q). \<not> ?p t" by (rule sorted_dropWhile_all [OF srt]) simp
    then show ?thesis by (simp add: rl_live_def not_less)
  qed
  have old: "\<forall>t \<in> set (takeWhile ?p q). \<not> rl_fresh window now t"
    by (auto simp: rl_fresh_def dest: set_takeWhileD)
  show "\<exists>old rest. q = old @ rest \<and> (\<forall>t \<in> set old. \<not> rl_fresh window now t) \<and>
      (\<forall>t \<in> set rest. rl_live window now t) \<and> rl_admit window (as_u32 lim) now q =
        (if length rest < as_u32 lim then (rest @ [now], True) else (rest, False))"
    by (rule admit_by_dropWhile [OF adm rest old])
qed

interpretation clw: sliding_window "cl_fresh window" "cl_fresh window" lim "cl_admit window lim"
  for window lim
proof
  show "cl_fresh window now0 t" if "cl_fresh window now t" "now0 \<le> now" for now t now0
    using that by (auto simp: cl_fresh_def)
next
  fix q :: "nat list" and now
  assume srt: "sorted q"
  let ?p = "\<lambda>front. now - front \<ge> window"
  have rest: "\<forall>t \<in> set (dropWhile ?p q). cl_fresh window now t"
  proof -
    have "\<forall>t \<in> set (dropWhile ?p q). \<not> ?p t" by (rule sorted_dropWhile_all [OF srt]) simp
    then show ?thesis by (simp add: cl_fresh_def not_le)
  qed
  have old: "\<forall>t \<in> set (takeWhile ?p q). \<not> cl_fresh window now t"
    by (auto simp: cl_fresh_def dest: set_takeWhileD)
  have adm: "cl_admit window lim now q =
      (if length (dropWhile ?p q) < lim then (dropWhile ?p q @ [now], True) else (dropWhile ?p q, False))"
    by (simp add: cl_admit_def Let_def)
  show "\<exists>old rest. q = old @ rest \<and> (\<forall>t \<in> set old. \<not> cl_fresh window now t) \<and>
      (\<forall>t \<in> set rest. cl_fresh window now t) \<and> cl_admit window lim now q =
        (if length rest < lim then (rest @ [now], True) else (rest, False))"
    by (rule admit_by_dropWhile [OF adm rest old])
qed

section \<open>What the rate limiter promises\<close>

definition admitted_of :: "string \<Rightarrow> (string \<times> nat) list \<Rightarrow> bool list \<Rightarrow> nat list" where
  "admitted_of ip reqs oks = map (snd \<circ> fst) (filter (\<lambda>((i, _), ok). i = ip \<and> ok) (zip reqs oks))"

definition rl_queue :: "rate_limiter \<Rightarrow> string \<Rightarrow> nat list" where
  "rl_queue rl ip = (case tget (rl_hits rl) ip of None \<Rightarrow> [] | Some q \<Rightarrow> q)"

definition rl_inv :: "nat \<Rightarrow> (string \<Rightarrow> nat list) \<Rightarrow> rate_limiter \<Rightarrow> bool" where
  "rl_inv now hist rl \<longleftrightarrow> rl_enabled rl \<and> rl_limit rl < 2 ^ 32 \<and> distinct (tkeys (rl_hits rl)) \<and>
     (\<forall>ip. rlw.window_inv (rl_window_ms rl) (rl_limit rl) now (hist ip) (rl_queue rl ip))"

lemma tget_prune:
  "distinct (tkeys m) \<Longrightarrow> tget (rl_prune cutoff m) ip =
    (case tget m ip of None \<Rightarrow> None
     | Some q \<Rightarrow> if length m > 50000 \<and> (q = [] \<or> last q \<le> cutoff) then None else Some q)"
  by (simp add: rl_prune_def tget_tretain split: option.split list.split)

lemma prune_queue:
  assumes d: "distinct (tkeys m)"
    and w: "rlw.window_inv window lim now hist (case tget m ip of None \<Rightarrow> [] | Some q \<Rightarrow> q)"
  shows "rlw.window_inv window lim now hist
    (case tget (rl_prune (now - window) m) ip of None \<Rightarrow> [] | Some q \<Rightarrow> q)"
proof (cases "tget m ip")
  case None
  then show ?thesis using w by (simp only: tget_prune [OF d]) simp
next
  case (Some q)
  then have wq: "rlw.window_inv window lim now hist q" using w by simp
  have "sorted q" using wq unfolding rlw.window_inv_def by (auto simp: sorted_append)
  then have "\<forall>t \<in> set q. \<not> rl_fresh window now t" if "q = [] \<or> last q \<le> now - window"
    using that by (cases q rule: rev_cases) (force simp: sorted_append rl_fresh_def)+
  then show ?thesis using wq rlw.window_inv_forget [OF wq] by (simp only: tget_prune [OF d] Some) simp
qed

lemma rl_check_step:
  assumes inv: "rl_inv now0 hist rl" and le: "now0 \<le> now" and ck: "rl_check ip now rl = (ok, rl')"
  shows "rl_inv now (hist(ip := if ok then hist ip @ [now] else hist ip)) rl'"
    and "\<not> ok \<Longrightarrow> rl_limit rl \<le> length (filter (rl_live (rl_window_ms rl) now) (hist ip))"
    and "rl_limit rl' = rl_limit rl" and "rl_window_ms rl' = rl_window_ms rl"
    and "rl_blocked_total rl' = rl_blocked_total rl + (if ok then 0 else 1)"
proof -
  let ?w = "rl_window_ms rl" and ?l = "rl_limit rl"
  let ?m = "rl_prune (now - ?w) (rl_hits rl)"
  let ?q0 = "case tget ?m ip of None \<Rightarrow> [] | Some q \<Rightarrow> q"
  have en: "rl_enabled rl" and lim: "as_u32 ?l = ?l" "?l < 2 ^ 32" and d: "distinct (tkeys (rl_hits rl))"
    using inv by (auto simp: rl_inv_def as_u32_exact)
  have w: "rlw.window_inv ?w ?l now (hist i) (case tget ?m i of None \<Rightarrow> [] | Some q \<Rightarrow> q)" for i
    using inv rlw.window_inv_later [OF _ le, of ?w ?l]
    by (intro prune_queue [OF d]) (simp add: rl_inv_def rl_queue_def)
  obtain q ok' where ad: "rl_admit ?w ?l now ?q0 = (q, ok')" by fastforce
  have ok': "ok' = ok" and rl': "rl' = rl\<lparr>rl_hits := tput ip q ?m,
      rl_blocked_total := rl_blocked_total rl + (if ok then 0 else 1)\<rparr>"
    using ck en by (auto simp: rl_check_def Let_def ad)
  have "rl_admit ?w (as_u32 ?l) now ?q0 = (q, ok')" using ad by (simp only: lim(1))
  note st = rlw.window_step [OF w order_refl this]
  show "rl_limit rl' = rl_limit rl" "rl_window_ms rl' = rl_window_ms rl"
    "rl_blocked_total rl' = rl_blocked_total rl + (if ok then 0 else 1)"
    by (simp_all add: rl')
  show "?l \<le> length (filter (rl_live ?w now) (hist ip))" if "\<not> ok"
    using st(2) that by (simp add: ok' lim(1))
  have "distinct (tkeys ?m)" using d by (simp add: rl_prune_def)
  then show "rl_inv now (hist(ip := if ok then hist ip @ [now] else hist ip)) rl'"
    using st(1) w en lim(2) ok'
    by (cases ok) (simp_all add: rl_inv_def rl_queue_def rl' lim(1))
qed

lemma admitted_simps [simp]:
  "admitted_of ip [] oks = []" "admitted_of ip reqs [] = []"
  "admitted_of ip ((i, t) # reqs) (ok # oks) = (if i = ip \<and> ok then [t] else []) @ admitted_of ip reqs oks"
  by (simp_all add: admitted_of_def)

lemma rl_run_inv:
  "rl_run reqs rl = (oks, rl') \<Longrightarrow> rl_inv now0 hist rl \<Longrightarrow> sorted (now0 # map snd reqs) \<Longrightarrow>
    rl_inv (last (now0 # map snd reqs)) (\<lambda>ip. hist ip @ admitted_of ip reqs oks) rl' \<and>
    rl_limit rl' = rl_limit rl \<and> rl_window_ms rl' = rl_window_ms rl \<and> length oks = length reqs \<and>
    rl_blocked_total rl' = rl_blocked_total rl + length (filter Not oks)"
proof (induction reqs arbitrary: rl oks now0 hist)
  case Nil
  then show ?case by simp
next
  case (Cons r reqs)
  obtain ip now where r: "r = (ip, now)" by fastforce
  obtain ok rl1 where ck: "rl_check ip now rl = (ok, rl1)" by fastforce
  obtain oks1 where run: "rl_run reqs rl1 = (oks1, rl')" and oks: "oks = ok # oks1"
    using Cons.prems(1) by (auto simp: r ck split: prod.splits)
  have le: "now0 \<le> now" and srt: "sorted (now # map snd reqs)" using Cons.prems(3) by (auto simp: r)
  note st = rl_check_step [OF Cons.prems(2) le ck]
  let ?h = "hist(ip := if ok then hist ip @ [now] else hist ip)"
  have "(\<lambda>i. ?h i @ admitted_of i reqs oks1) = (\<lambda>i. hist i @ admitted_of i (r # reqs) oks)"
    by (rule ext) (simp add: r oks)
  with Cons.IH [OF run st(1) srt] st(3-5) show ?case by (simp add: r oks)
qed

lemma rl_new_inv: "lim < 2 ^ 32 \<Longrightarrow> rl_inv 0 (\<lambda>_. []) (rl_new lim window)"
  by (simp add: rl_inv_def rl_new_def rl_queue_def rlw.window_inv_init)

text \<open>The rate limiter never lets more than its limit through: however the requests of any
  number of addresses are interleaved in time order, and whatever the pruning of the table forgets,
  in every window that ends at any time the admitted requests of one address are at most the
  limit; and the counter of blocked requests is exact.\<close>

theorem rate_limit_upheld:
  assumes "rl_run reqs (rl_new lim window) = (oks, rl')" and "sorted (map snd reqs)" and "lim < 2 ^ 32"
  shows "length (filter (\<lambda>t. rl_fresh window now t \<and> t \<le> now) (admitted_of ip reqs oks)) \<le> lim \<and>
    rl_blocked_total rl' = length (filter Not oks)"
proof -
  have "sorted (0 # map snd reqs)" using assms(2) by simp
  from rl_run_inv [OF assms(1) rl_new_inv [OF assms(3)] this]
  have i: "rlw.window_inv window lim (last (0 # map snd reqs)) (admitted_of ip reqs oks) (rl_queue rl' ip)"
    and b: "rl_blocked_total rl' = length (filter Not oks)"
    by (auto simp: rl_inv_def rl_new_def)
  show ?thesis using rlw.window_inv_bound [OF i, of now] b assms(3) by (simp add: as_u32_exact)
qed

definition flood :: "(string \<times> nat) list" where
  "flood = [(''1.2.3.4'', 10000), (''1.2.3.4'', 10000), (''1.2.3.4'', 10001), (''1.2.3.4'', 10002),
     (''5.6.7.8'', 10002), (''1.2.3.4'', 11001)]"

theorem rate_limit_upheld_witness:
  "fst (rl_run flood (rl_new 3 1000)) = [True, True, True, False, True, True] \<and>
    length (filter (\<lambda>t. rl_fresh 1000 11000 t \<and> t \<le> 11000) (admitted_of ''1.2.3.4'' flood [True, True, True, False, True, True])) \<le> 3"
proof -
  obtain oks rl' where run: "rl_run flood (rl_new 3 1000) = (oks, rl')" by fastforce
  have "fst (rl_run flood (rl_new 3 1000)) = [True, True, True, False, True, True]" by code_simp
  moreover have "sorted (map snd flood)" by code_simp
  ultimately show ?thesis
    using rate_limit_upheld [OF run, where ip = "''1.2.3.4''" and now = 11000] run by simp
qed

lemma rl_run_append:
  "rl_run (xs @ ys) rl =
    (let (o1, rl1) = rl_run xs rl; (o2, rl2) = rl_run ys rl1 in (o1 @ o2, rl2))"
  by (induction xs arbitrary: rl) (auto split: prod.splits)

text \<open>The rate limiter blocks nobody else: a request is only refused when its own address
  already has the full limit of admitted requests within the window.\<close>

theorem rate_limit_blocks_only_floods:
  assumes "rl_run reqs (rl_new lim window) = (oks, rl)" and "sorted (map snd reqs @ [now])" and "lim < 2 ^ 32"
    and "rl_check ip now rl = (False, rl')"
  shows "lim \<le> length (filter (rl_live window now) (admitted_of ip reqs oks))"
proof -
  have srt: "sorted (0 # map snd reqs)" and le: "last (0 # map snd reqs) \<le> now"
    using assms(2) by (cases reqs rule: rev_cases; auto simp: sorted_append)+
  have i: "rl_inv (last (0 # map snd reqs)) (\<lambda>ip. admitted_of ip reqs oks) rl"
    and c: "rl_limit rl = lim" "rl_window_ms rl = window"
    using rl_run_inv [OF assms(1) rl_new_inv [OF assms(3)] srt] by (auto simp: rl_new_def)
  show ?thesis using rl_check_step(2) [OF i le assms(4)] by (simp add: c)
qed

theorem rate_limit_blocks_only_floods_witness:
  "\<exists>oks rl rl'. rl_run (take 3 flood) (rl_new 3 1000) = (oks, rl) \<and> rl_check ''1.2.3.4'' 10002 rl = (False, rl') \<and>
    3 \<le> length (filter (rl_live 1000 10002) (admitted_of ''1.2.3.4'' (take 3 flood) oks))"
proof -
  obtain oks rl where run: "rl_run (take 3 flood) (rl_new 3 1000) = (oks, rl)" by fastforce
  have "fst (rl_check ''1.2.3.4'' 10002 (snd (rl_run (take 3 flood) (rl_new 3 1000)))) = False" by code_simp
  then obtain rl' where ck: "rl_check ''1.2.3.4'' 10002 rl = (False, rl')" 
    by (cases "rl_check ''1.2.3.4'' 10002 rl") (simp add: run)
  have "sorted (map snd (take 3 flood) @ [10002])" by code_simp
  from rate_limit_blocks_only_floods [OF run this _ ck] run ck show ?thesis by auto
qed

section \<open>What the burst limiter promises\<close>

definition admitted_at :: "nat list \<Rightarrow> bool list \<Rightarrow> nat list" where
  "admitted_at ts oks = map fst (filter snd (zip ts oks))"

definition cl_inv :: "nat \<Rightarrow> nat list \<Rightarrow> concurrency_limiter \<Rightarrow> bool" where
  "cl_inv now hist cl \<longleftrightarrow> clw.window_inv (cl_window_ms cl) (cl_burst_limit cl) now hist (cl_admissions cl)"

lemma try_admit_step:
  assumes inv: "cl_inv now0 hist cl" and le: "now0 \<le> now" and ad: "try_admit now cl = (ok, cl')"
  shows "cl_inv now (if ok then hist @ [now] else hist) cl'"
    and "\<not> ok \<Longrightarrow> cl_burst_limit cl \<le> length (filter (cl_fresh (cl_window_ms cl) now) hist)"
    and "cl_burst_limit cl' = cl_burst_limit cl" and "cl_window_ms cl' = cl_window_ms cl"
    and "cl_throttled_total cl' = cl_throttled_total cl + (if ok then 0 else 1)"
    and "ok \<Longrightarrow> length (filter (cl_fresh (cl_window_ms cl) now) hist) < cl_burst_limit cl"
proof -
  obtain q ok' where a: "cl_admit (cl_window_ms cl) (cl_burst_limit cl) now (cl_admissions cl) = (q, ok')" by fastforce
  then have ok': "ok' = ok" and cl': "cl' = cl\<lparr>cl_admissions := q,
      cl_throttled_total := cl_throttled_total cl + (if ok then 0 else 1)\<rparr>"
    using ad by (auto simp: try_admit_def)
  note st = clw.window_step [OF inv [unfolded cl_inv_def] le a]
  show "cl_burst_limit cl' = cl_burst_limit cl" "cl_window_ms cl' = cl_window_ms cl"
    "cl_throttled_total cl' = cl_throttled_total cl + (if ok then 0 else 1)"
    by (simp_all add: cl')
  show "cl_inv now (if ok then hist @ [now] else hist) cl'"
    using st(1) by (simp add: cl_inv_def cl' ok')
  show "cl_burst_limit cl \<le> length (filter (cl_fresh (cl_window_ms cl) now) hist)" if "\<not> ok"
    using st(2) that by (simp add: ok')
  show "length (filter (cl_fresh (cl_window_ms cl) now) hist) < cl_burst_limit cl" if ok
    using st(3) that by (simp add: ok')
qed

lemma cl_run_inv:
  "cl_run ts cl = (oks, cl') \<Longrightarrow> cl_inv now0 hist cl \<Longrightarrow> sorted (now0 # ts) \<Longrightarrow>
    cl_inv (last (now0 # ts)) (hist @ admitted_at ts oks) cl' \<and>
    cl_burst_limit cl' = cl_burst_limit cl \<and> cl_window_ms cl' = cl_window_ms cl \<and>
    cl_throttled_total cl' = cl_throttled_total cl + length (filter Not oks)"
proof (induction ts arbitrary: cl oks now0 hist)
  case Nil
  then show ?case by (simp add: admitted_at_def)
next
  case (Cons now ts)
  obtain ok cl1 where ck: "try_admit now cl = (ok, cl1)" by fastforce
  obtain oks1 where run: "cl_run ts cl1 = (oks1, cl')" and oks: "oks = ok # oks1"
    using Cons.prems(1) by (auto simp: ck split: prod.splits)
  have le: "now0 \<le> now" and srt: "sorted (now # ts)" using Cons.prems(3) by auto
  note st = try_admit_step [OF Cons.prems(2) le ck]
  have "(if ok then hist @ [now] else hist) @ admitted_at ts oks1 = hist @ admitted_at (now # ts) oks"
    by (simp add: oks admitted_at_def)
  with Cons.IH [OF run st(1) srt] st(3-5) show ?case by (simp add: oks)
qed

text \<open>The burst limiter is exact: over any sequence of requests in time order, no window ever
  holds more admitted executions than the burst limit, and a request is throttled only when its
  window already holds that many.\<close>

theorem burst_limit_exact:
  assumes "cl_run ts (with_burst lim window (cl_new region p)) = (oks, cl)" and "sorted (ts @ [now])"
  shows "length (filter (\<lambda>t. cl_fresh window e t \<and> t \<le> e) (admitted_at ts oks)) \<le> lim \<and>
    (fst (try_admit now cl) \<longleftrightarrow> length (filter (cl_fresh window now) (admitted_at ts oks)) < lim)"
proof -
  let ?cl0 = "with_burst lim window (cl_new region p)"
  have srt: "sorted (0 # ts)" and le: "last (0 # ts) \<le> now" using assms(2) by (auto simp: sorted_append)
  have "cl_inv 0 [] ?cl0"
    by (simp add: cl_inv_def with_burst_def cl_new_def clw.window_inv_init)
  from cl_run_inv [OF assms(1) this srt]
  have i: "cl_inv (last (0 # ts)) (admitted_at ts oks) cl" and c: "cl_burst_limit cl = lim" "cl_window_ms cl = window"
    by (auto simp: with_burst_def)
  obtain ok cl' where ad: "try_admit now cl = (ok, cl')" by fastforce
  have bound: "length (filter (\<lambda>t. cl_fresh window e t \<and> t \<le> e) (admitted_at ts oks)) \<le> lim" for e
    using clw.window_inv_bound [OF i [unfolded cl_inv_def]] by (simp add: c)
  have "length (filter (cl_fresh window now) (admitted_at ts oks)) < lim" if ok
    using try_admit_step(6) [OF i le ad] that by (simp add: c)
  moreover have "ok" if "length (filter (cl_fresh window now) (admitted_at ts oks)) < lim"
    using try_admit_step(2) [OF i le ad] that by (cases ok) (auto simp: c)
  ultimately show ?thesis using bound by (auto simp: ad)
qed

theorem burst_limit_exact_witness:
  "\<exists>oks cl. cl_run [5, 6, 7, 8] (with_burst 3 100 (cl_new ''sfo1'' Pro)) = (oks, cl) \<and> oks = [True, True, True, False] \<and>
    (fst (try_admit 106 cl) \<longleftrightarrow> length (filter (cl_fresh 100 106) (admitted_at [5, 6, 7, 8] oks)) < 3)"
proof -
  obtain oks cl where run: "cl_run [5, 6, 7, 8] (with_burst 3 100 (cl_new ''sfo1'' Pro)) = (oks, cl)" by fastforce
  have "fst (cl_run [5, 6, 7, 8] (with_burst 3 100 (cl_new ''sfo1'' Pro))) = [True, True, True, False]" by code_simp
  with burst_limit_exact [OF run, of 106] run show ?thesis by simp
qed

end
