(* ===== verification/Edge_Rules.thy ===== *)
theory Edge_Rules
  imports Byte_Strings
begin

text \<open>
  The rule engines the edge runs before the cache: redirects and rewrites
  (\<open>crates/hive-edge/src/routing.rs\<close>), the firewall (\<open>waf.rs\<close>) and the bot policy
  (\<open>bot.rs\<close>). Regular expressions are those of the \<open>regex\<close> crate, which is not part of the
  sources: a compiled expression is its matcher, a function from texts to \<open>bool\<close>, and the
  compiler is an argument.
\<close>

section \<open>Redirects and rewrites\<close>

record redirect =
  rd_source :: string
  rd_destination :: string
  rd_status :: nat

record rewrite =
  rw_source :: string
  rw_destination :: string

datatype route_outcome = Redirect string nat | Continue string

record router =
  rt_redirects :: "redirect list"
  rt_rewrites :: "rewrite list"

definition router_new :: router where
  "router_new = \<lparr>rt_redirects = [], rt_rewrites = []\<rparr>"

definition add_redirect :: "redirect \<Rightarrow> router \<Rightarrow> router" where
  "add_redirect r rt = rt\<lparr>rt_redirects := rt_redirects rt @ [r]\<rparr>"

definition add_rewrite :: "rewrite \<Rightarrow> router \<Rightarrow> router" where
  "add_rewrite r rt = rt\<lparr>rt_rewrites := rt_rewrites rt @ [r]\<rparr>"

definition set_redirects :: "redirect list \<Rightarrow> router \<Rightarrow> router" where
  "set_redirects v rt = rt\<lparr>rt_redirects := v\<rparr>"

definition set_rewrites :: "rewrite list \<Rightarrow> router \<Rightarrow> router" where
  "set_rewrites v rt = rt\<lparr>rt_rewrites := v\<rparr>"

definition path_match :: "string \<Rightarrow> string \<Rightarrow> bool" where
  "path_match src path =
     (case strip_suffix ''/'' src of
        Some prefix \<Rightarrow> path = prefix \<or> starts_with src path
      | None \<Rightarrow> path = src)"

definition rewrite_target :: "string \<Rightarrow> string \<Rightarrow> string \<Rightarrow> string" where
  "rewrite_target src dest path =
     (case strip_suffix ''/'' src of
        Some prefix \<Rightarrow>
          (case strip_prefix prefix path of
             Some rest \<Rightarrow> trim_end_matches CHR ''/'' dest @ rest
           | None \<Rightarrow> dest)
      | None \<Rightarrow> dest)"

fun first_redirect :: "redirect list \<Rightarrow> string \<Rightarrow> route_outcome option" where
  "first_redirect [] path = None"
| "first_redirect (r # rs) path =
     (if path_match (rd_source r) path
      then Some (Redirect (rewrite_target (rd_source r) (rd_destination r) path) (rd_status r))
      else first_redirect rs path)"

fun first_rewrite :: "rewrite list \<Rightarrow> string \<Rightarrow> route_outcome" where
  "first_rewrite [] path = Continue path"
| "first_rewrite (r # rs) path =
     (if path_match (rw_source r) path
      then Continue (rewrite_target (rw_source r) (rw_destination r) path)
      else first_rewrite rs path)"

definition route :: "router \<Rightarrow> string \<Rightarrow> route_outcome" where
  "route rt path =
     (case first_redirect (rt_redirects rt) path of
        Some out \<Rightarrow> out
      | None \<Rightarrow> first_rewrite (rt_rewrites rt) path)"

section \<open>The firewall\<close>

datatype waf_action = Waf_Allow | Waf_Deny | Waf_Log

record waf_match =
  wm_path_regex :: "string option"
  wm_method :: "string option"
  wm_ip_prefix :: "string option"
  wm_header_contains :: "(string \<times> string) option"
  wm_contains :: "string option"

definition waf_match_default :: waf_match where
  "waf_match_default = \<lparr>wm_path_regex = None, wm_method = None, wm_ip_prefix = None,
     wm_header_contains = None, wm_contains = None\<rparr>"

record waf_rule =
  wr_id :: string
  wr_description :: string
  wr_action :: waf_action
  wr_enabled :: bool
  wr_when :: waf_match

record request_ctx =
  rq_method :: string
  rq_path :: string
  rq_query :: string
  rq_ip :: string
  rq_headers :: "(string \<times> string) list"

datatype verdict = Verdict_Allow | Verdict_Deny string string

type_synonym regex = "string \<Rightarrow> bool"

record compiled =
  cp_rule :: waf_rule
  cp_path_re :: "regex option"

record waf =
  w_inner :: "compiled list"
  w_managed :: bool
  w_sqli :: regex
  w_xss :: regex
  w_traversal :: regex

definition bslash :: string where
  "bslash = [CHR 0x5C]"

definition sqli_pattern :: string where
  "sqli_pattern = ''(?i)(union'' @ bslash @ ''s+select|or'' @ bslash @ ''s+1'' @ bslash @ ''s*='' @ bslash
     @ ''s*1|;'' @ bslash @ ''s*drop'' @ bslash @ ''s+table|/'' @ bslash @ ''*|--'' @ bslash
     @ ''s|xp_cmdshell)''"

definition xss_pattern :: string where
  "xss_pattern = ''(?i)(<script|onerror'' @ bslash @ ''s*=|onload'' @ bslash @ ''s*=|javascript:|<img[^>]+src)''"

definition traversal_pattern :: string where
  "traversal_pattern = ''('' @ bslash @ ''.'' @ bslash @ ''./|'' @ bslash @ ''.'' @ bslash @ ''.%2f|%2e%2e/)''"

text \<open>\<open>Regex::new(..).unwrap()\<close>: \<open>None\<close> is the panic.\<close>

definition waf_new :: "(string \<Rightarrow> regex option) \<Rightarrow> waf option" where
  "waf_new compile =
     (case (compile sqli_pattern, compile xss_pattern, compile traversal_pattern) of
        (Some sqli, Some xss, Some trav) \<Rightarrow>
          Some \<lparr>w_inner = [], w_managed = True, w_sqli = sqli, w_xss = xss, w_traversal = trav\<rparr>
      | _ \<Rightarrow> None)"

definition set_managed :: "bool \<Rightarrow> waf \<Rightarrow> waf" where
  "set_managed on w = w\<lparr>w_managed := on\<rparr>"

definition waf_rules :: "waf \<Rightarrow> waf_rule list" where
  "waf_rules w = map cp_rule (w_inner w)"

definition compile_rule :: "(string \<Rightarrow> regex option) \<Rightarrow> waf_rule \<Rightarrow> compiled" where
  "compile_rule compile rule =
     \<lparr>cp_rule = rule, cp_path_re = Option.bind (wm_path_regex (wr_when rule)) compile\<rparr>"

definition set_rules :: "(string \<Rightarrow> regex option) \<Rightarrow> waf_rule list \<Rightarrow> waf \<Rightarrow> waf" where
  "set_rules compile rules w = w\<lparr>w_inner := map (compile_rule compile) rules\<rparr>"

definition add_rule :: "(string \<Rightarrow> regex option) \<Rightarrow> waf_rule \<Rightarrow> waf \<Rightarrow> waf" where
  "add_rule compile rule w = w\<lparr>w_inner := w_inner w @ [compile_rule compile rule]\<rparr>"

definition header_found :: "string \<Rightarrow> string \<Rightarrow> (string \<times> string) list \<Rightarrow> bool" where
  "header_found name val hs =
     list_ex (\<lambda>(k, v). eq_ignore_ascii_case k name \<and> str_contains (to_lowercase v) (to_lowercase val)) hs"

definition waf_matches :: "compiled \<Rightarrow> request_ctx \<Rightarrow> string \<Rightarrow> bool" where
  "waf_matches c ctx target =
     (let m = wr_when (cp_rule c)
      in if (case cp_path_re c of Some re \<Rightarrow> \<not> re (rq_path ctx) | None \<Rightarrow> False) then False
         else if (case wm_method m of Some meth \<Rightarrow> \<not> eq_ignore_ascii_case meth (rq_method ctx) | None \<Rightarrow> False) then False
         else if (case wm_ip_prefix m of Some prefix \<Rightarrow> \<not> starts_with prefix (rq_ip ctx) | None \<Rightarrow> False) then False
         else if (case wm_header_contains m of Some (name, val) \<Rightarrow> \<not> header_found name val (rq_headers ctx) | None \<Rightarrow> False) then False
         else if (case wm_contains m of Some sub \<Rightarrow> \<not> str_contains target (to_lowercase sub) | None \<Rightarrow> False) then False
         else wm_path_regex m \<noteq> None \<or> wm_method m \<noteq> None \<or> wm_ip_prefix m \<noteq> None \<or>
              wm_header_contains m \<noteq> None \<or> wm_contains m \<noteq> None)"

text \<open>The loop over the custom rules; \<open>None\<close> when it falls through.\<close>

fun custom_verdict :: "compiled list \<Rightarrow> request_ctx \<Rightarrow> string \<Rightarrow> verdict option" where
  "custom_verdict [] ctx target = None"
| "custom_verdict (c # cs) ctx target =
     (if \<not> wr_enabled (cp_rule c) \<or> \<not> waf_matches c ctx target then custom_verdict cs ctx target
      else (case wr_action (cp_rule c) of
              Waf_Allow \<Rightarrow> Some Verdict_Allow
            | Waf_Deny \<Rightarrow> Some (Verdict_Deny (wr_id (cp_rule c)) (wr_description (cp_rule c)))
            | Waf_Log \<Rightarrow> custom_verdict cs ctx target))"

definition waf_evaluate :: "waf \<Rightarrow> request_ctx \<Rightarrow> verdict" where
  "waf_evaluate w ctx =
     (let target = to_lowercase (rq_path ctx @ '' '' @ rq_query ctx)
      in (case custom_verdict (w_inner w) ctx target of
            Some v \<Rightarrow> v
          | None \<Rightarrow>
              if w_managed w
              then (let probe = rq_path ctx @ '' '' @ rq_query ctx
                    in if w_sqli w probe then Verdict_Deny ''managed-sqli'' ''SQL injection signature''
                       else if w_xss w probe then Verdict_Deny ''managed-xss'' ''Cross-site scripting signature''
                       else if w_traversal w probe then Verdict_Deny ''managed-traversal'' ''Path traversal signature''
                       else Verdict_Allow)
              else Verdict_Allow))"

section \<open>Bots\<close>

datatype ai_kind = Crawler | Assistant | Agent

datatype bot_action = Bot_Allow | Bot_Log | Bot_Block

datatype bot_class = Human | Good_Bot string | Bad_Bot string | Ai_Bot string ai_kind

record bot_policy =
  bp_allow_good :: bool
  bp_block_bad :: bool
  bp_ai_crawler :: bot_action
  bp_ai_assistant :: bot_action
  bp_ai_agent :: bot_action

definition bot_policy_default :: bot_policy where
  "bot_policy_default = \<lparr>bp_allow_good = True, bp_block_bad = True, bp_ai_crawler = Bot_Log,
     bp_ai_assistant = Bot_Allow, bp_ai_agent = Bot_Log\<rparr>"

datatype bot_verdict = BV_Allow | BV_Log string | BV_Block string

text \<open>The tables of \<open>BotManager::new\<close>: pattern, name, and kind for the AI bots.\<close>

definition ai_bots :: "(string \<times> string \<times> ai_kind) list" where
  "ai_bots =
     [(''(?i)gptbot'', ''GPTBot'', Crawler),
      (''(?i)oai-searchbot'', ''OAI-SearchBot'', Crawler),
      (''(?i)(claudebot|claude-web|anthropic-ai)'', ''ClaudeBot'', Crawler),
      (''(?i)ccbot'', ''CCBot'', Crawler),
      (''(?i)google-extended'', ''Google-Extended'', Crawler),
      (''(?i)bytespider'', ''Bytespider'', Crawler),
      (''(?i)amazonbot'', ''Amazonbot'', Crawler),
      (''(?i)applebot-extended'', ''Applebot-Extended'', Crawler),
      (''(?i)(meta-externalagent|facebookbot)'', ''Meta-ExternalAgent'', Crawler),
      (''(?i)(perplexitybot)'', ''PerplexityBot'', Crawler),
      (''(?i)(cohere-ai|diffbot|omgili|youbot|imagesiftbot|dataforseobot|timpibot)'', ''AICrawler'', Crawler),
      (''(?i)chatgpt-user'', ''ChatGPT-User'', Assistant),
      (''(?i)perplexity-user'', ''Perplexity-User'', Assistant),
      (''(?i)claude-user'', ''Claude-User'', Assistant),
      (''(?i)gemini-user'', ''Gemini-User'', Assistant),
      (''(?i)(chatgpt-agent|openai-operator|'' @ bslash @ ''boperator'' @ bslash @ ''b)'', ''AI-Agent'', Agent)]"

definition good_bots :: "(string \<times> string) list" where
  "good_bots =
     [(''(?i)googlebot'', ''Googlebot''), (''(?i)bingbot'', ''Bingbot''),
      (''(?i)duckduckbot'', ''DuckDuckBot''), (''(?i)slackbot'', ''Slackbot''),
      (''(?i)applebot'', ''Applebot''),
      (''(?i)(twitterbot|discordbot|facebookexternalhit)'', ''SocialPreview''),
      (''(?i)uptimerobot'', ''UptimeRobot'')]"

definition bad_bots :: "(string \<times> string) list" where
  "bad_bots =
     [(''(?i)(semrushbot|ahrefsbot|mj12bot|dotbot|petalbot)'', ''SEOScraper''),
      (''(?i)(python-requests|scrapy|go-http-client|httpclient|libwww-perl)'', ''Scraper''),
      (''(?i)(masscan|nikto|sqlmap|nmap|zgrab)'', ''Scanner'')]"

definition generic_bot :: string where
  "generic_bot = ''(?i)(bot|spider|crawler|crawl)''"

text \<open>\<open>rx p t\<close>: the regular expression \<open>p\<close> matches somewhere in \<open>t\<close>.\<close>

definition classify :: "(string \<Rightarrow> string \<Rightarrow> bool) \<Rightarrow> string \<Rightarrow> bot_class" where
  "classify rx ua =
     (case find (\<lambda>(p, _). rx p ua) ai_bots of
        Some (_, name, kind) \<Rightarrow> Ai_Bot name kind
      | None \<Rightarrow>
          (case find (\<lambda>(p, _). rx p ua) good_bots of
             Some (_, name) \<Rightarrow> Good_Bot name
           | None \<Rightarrow>
               (case find (\<lambda>(p, _). rx p ua) bad_bots of
                  Some (_, name) \<Rightarrow> Bad_Bot name
                | None \<Rightarrow> if rx generic_bot ua then Bad_Bot ''UnverifiedBot'' else Human)))"

fun kind_label :: "ai_kind \<Rightarrow> string" where
  "kind_label Crawler = ''crawler''"
| "kind_label Assistant = ''assistant''"
| "kind_label Agent = ''agent''"

definition ai_action :: "bot_policy \<Rightarrow> ai_kind \<Rightarrow> bot_action" where
  "ai_action policy kind =
     (case kind of
        Crawler \<Rightarrow> bp_ai_crawler policy
      | Assistant \<Rightarrow> bp_ai_assistant policy
      | Agent \<Rightarrow> bp_ai_agent policy)"

definition bot_evaluate :: "(string \<Rightarrow> string \<Rightarrow> bool) \<Rightarrow> string \<Rightarrow> bot_policy \<Rightarrow> bot_verdict" where
  "bot_evaluate rx ua policy =
     (case classify rx ua of
        Human \<Rightarrow> BV_Allow
      | Good_Bot name \<Rightarrow>
          if bp_allow_good policy then BV_Allow else BV_Block (''good bot disallowed: '' @ name)
      | Bad_Bot name \<Rightarrow>
          if bp_block_bad policy then BV_Block (''bad bot: '' @ name) else BV_Log (''bad bot (allowed): '' @ name)
      | Ai_Bot name kind \<Rightarrow>
          (let label = ''AI '' @ kind_label kind @ '': '' @ name
           in (case ai_action policy kind of
                 Bot_Allow \<Rightarrow> BV_Allow
               | Bot_Log \<Rightarrow> BV_Log label
               | Bot_Block \<Rightarrow> BV_Block label)))"

definition should_block :: "(string \<Rightarrow> string \<Rightarrow> bool) \<Rightarrow> string \<Rightarrow> bot_policy \<Rightarrow> string option" where
  "should_block rx ua policy = (case bot_evaluate rx ua policy of BV_Block r \<Rightarrow> Some r | _ \<Rightarrow> None)"

section \<open>Routing\<close>

lemma strip_suffix_snoc [simp]: "strip_suffix [c] (p @ [c]) = Some p"
  by (simp add: strip_suffix_iff)

text \<open>A prefix rule of the router only matches at a path segment boundary (its prefix itself, or
  its prefix followed by a slash, never the middle of a segment), and then the target is the
  destination without trailing slashes followed by exactly the rest of the path; a rule without a
  trailing slash matches one path only and its target is the destination as written.\<close>

theorem route_prefix_exact:
  "(path_match (p @ ''/'') path \<longleftrightarrow> (\<exists>rest. path = p @ rest \<and> (rest = [] \<or> hd rest = CHR ''/'')))
    \<and> (\<forall>rest. rewrite_target (p @ ''/'') dest (p @ rest) = trim_end_matches CHR ''/'' dest @ rest)
    \<and> (p \<noteq> [] \<longrightarrow> last p \<noteq> CHR ''/'' \<longrightarrow>
        (path_match p path \<longleftrightarrow> path = p) \<and> rewrite_target p dest path = dest)"
proof (intro conjI allI impI)
  have "path_match (p @ ''/'') path \<longleftrightarrow> path = p \<or> (\<exists>t. path = p @ CHR ''/'' # t)"
    by (simp add: path_match_def starts_with_iff)
  also have "\<dots> \<longleftrightarrow> (\<exists>rest. path = p @ rest \<and> (rest = [] \<or> hd rest = CHR ''/''))"
  proof
    assume "\<exists>rest. path = p @ rest \<and> (rest = [] \<or> hd rest = CHR ''/'')"
    then obtain rest where "path = p @ rest" "rest = [] \<or> hd rest = CHR ''/''" by blast
    then show "path = p \<or> (\<exists>t. path = p @ CHR ''/'' # t)" by (cases rest) auto
  qed fastforce
  finally show "path_match (p @ ''/'') path \<longleftrightarrow> (\<exists>rest. path = p @ rest \<and> (rest = [] \<or> hd rest = CHR ''/''))" .
  show "rewrite_target (p @ ''/'') dest (p @ rest) = trim_end_matches CHR ''/'' dest @ rest" for rest
  proof -
    have "strip_prefix p (p @ rest) = Some rest" by (simp add: strip_prefix_iff)
    then show ?thesis by (simp add: rewrite_target_def)
  qed
next
  assume "p \<noteq> []" "last p \<noteq> CHR ''/''"
  then have "strip_suffix ''/'' p = None"
    by (metis last_snoc not_Some_eq strip_suffix_iff)
  then show "path_match p path \<longleftrightarrow> path = p" "rewrite_target p dest path = dest"
    by (auto simp: path_match_def rewrite_target_def)
qed

theorem route_prefix_exact_witness:
  "path_match ''/blog/'' ''/blog/hello'' \<and> \<not> path_match ''/blog/'' ''/blogger'' \<and>
    rewrite_target ''/blog/'' ''/posts/'' ''/blog/hello'' = ''/posts/hello'' \<and> (path_match ''/old'' ''/older'' \<longleftrightarrow> False)"
proof -
  have "path_match (''/blog'' @ ''/'') ''/blog/hello'' \<longleftrightarrow>
      (\<exists>rest. ''/blog/hello'' = ''/blog'' @ rest \<and> (rest = [] \<or> hd rest = CHR ''/''))"
    using route_prefix_exact by blast
  moreover have "path_match ''/old'' ''/older'' \<longleftrightarrow> ''/older'' = ''/old''"
    using route_prefix_exact [of "''/old''" "''/older''"] by simp
  moreover have "\<not> path_match ''/blog/'' ''/blogger''" "rewrite_target ''/blog/'' ''/posts/'' ''/blog/hello'' = ''/posts/hello''"
    by code_simp+
  ultimately show ?thesis by simp
qed

section \<open>The firewall's verdict\<close>

definition decisive :: "request_ctx \<Rightarrow> compiled \<Rightarrow> bool" where
  "decisive ctx c \<longleftrightarrow> wr_enabled (cp_rule c) \<and> wr_action (cp_rule c) \<noteq> Waf_Log \<and>
     waf_matches c ctx (to_lowercase (rq_path ctx @ '' '' @ rq_query ctx))"

lemma custom_verdict_find:
  "custom_verdict cs ctx (to_lowercase (rq_path ctx @ '' '' @ rq_query ctx)) =
    (case find (decisive ctx) cs of
       None \<Rightarrow> None
     | Some c \<Rightarrow> Some (if wr_action (cp_rule c) = Waf_Allow then Verdict_Allow
         else Verdict_Deny (wr_id (cp_rule c)) (wr_description (cp_rule c))))"
  by (induction cs) (auto simp: decisive_def split: waf_action.split)

text \<open>The firewall lets a request through exactly when the first enabled rule that is not a log
  rule and matches it is an allow rule, or when there is no such rule and, with the managed rules on,
  none of the three signatures matches path and query. Log rules, disabled rules and the order of
  later rules never change the verdict.\<close>

theorem waf_allows_exact:
  "waf_evaluate w ctx = Verdict_Allow \<longleftrightarrow>
    (case find (decisive ctx) (w_inner w) of
       Some c \<Rightarrow> wr_action (cp_rule c) = Waf_Allow
     | None \<Rightarrow> \<not> (w_managed w \<and> list_ex (\<lambda>re. re (rq_path ctx @ '' '' @ rq_query ctx)) [w_sqli w, w_xss w, w_traversal w]))"
  unfolding waf_evaluate_def Let_def custom_verdict_find by (auto split: option.split)

lemma waf_matches_all:
  "waf_matches c ctx target \<longleftrightarrow>
    (let m = wr_when (cp_rule c)
     in (\<forall>re. cp_path_re c = Some re \<longrightarrow> re (rq_path ctx)) \<and>
        (\<forall>x. wm_method m = Some x \<longrightarrow> eq_ignore_ascii_case x (rq_method ctx)) \<and>
        (\<forall>x. wm_ip_prefix m = Some x \<longrightarrow> starts_with x (rq_ip ctx)) \<and>
        (\<forall>n v. wm_header_contains m = Some (n, v) \<longrightarrow> header_found n v (rq_headers ctx)) \<and>
        (\<forall>x. wm_contains m = Some x \<longrightarrow> str_contains target (to_lowercase x)) \<and>
        (wm_path_regex m \<noteq> None \<or> wm_method m \<noteq> None \<or> wm_ip_prefix m \<noteq> None \<or>
         wm_header_contains m \<noteq> None \<or> wm_contains m \<noteq> None))"
  unfolding waf_matches_def Let_def by (auto split: option.splits)

text \<open>A rule whose only condition is a path expression that does not compile matches every
  request: as an allow rule in first place it switches off all later rules and all managed
  signatures, although a rule without conditions is meant to match nothing.\<close>

theorem waf_invalid_regex_allows_all:
  assumes "wr_when rule = waf_match_default\<lparr>wm_path_regex := Some p\<rparr>" and "compile p = None"
    and "wr_enabled rule" and "wr_action rule = Waf_Allow"
  shows "waf_evaluate (set_rules compile (rule # rules) w) ctx = Verdict_Allow"
proof -
  have "decisive ctx (compile_rule compile rule)"
    using assms by (simp add: decisive_def waf_matches_all compile_rule_def waf_match_default_def)
  then show ?thesis
    using assms(4) unfolding waf_evaluate_def Let_def custom_verdict_find by (simp add: set_rules_def compile_rule_def)
qed

theorem waf_invalid_regex_allows_all_witness:
  "\<exists>w rule. w_managed w \<and> w_sqli w ''/ or 1=1'' \<and>
    waf_evaluate (set_rules (\<lambda>_. None) [rule] w)
      \<lparr>rq_method = ''GET'', rq_path = ''/'', rq_query = ''or 1=1'', rq_ip = ''10.0.0.1'', rq_headers = []\<rparr> = Verdict_Allow"
proof -
  let ?w = "\<lparr>w_inner = [], w_managed = True, w_sqli = (\<lambda>t. str_contains t ''or 1=1''), w_xss = (\<lambda>_. False), w_traversal = (\<lambda>_. False)\<rparr>"
  let ?rule = "\<lparr>wr_id = ''r'', wr_description = [], wr_action = Waf_Allow, wr_enabled = True,
    wr_when = waf_match_default\<lparr>wm_path_regex := Some ''(''\<rparr>\<rparr>"
  have "waf_evaluate (set_rules (\<lambda>_. None) [?rule] ?w)
      \<lparr>rq_method = ''GET'', rq_path = ''/'', rq_query = ''or 1=1'', rq_ip = ''10.0.0.1'', rq_headers = []\<rparr> = Verdict_Allow"
    by (rule waf_invalid_regex_allows_all) simp_all
  moreover have "w_managed ?w \<and> w_sqli ?w ''/ or 1=1''" by code_simp
  ultimately show ?thesis by blast
qed

section \<open>The bot policy's verdict\<close>

lemma find_None_all: "find P xs = None \<longleftrightarrow> (\<forall>x \<in> set xs. \<not> P x)"
  by (auto simp: find_None_iff)

text \<open>Bots: a request that matches any AI pattern is classified as an AI bot, whatever else it
  matches; it counts as human exactly when no pattern of any table matches, the generic one
  included; and it is blocked exactly when the policy says so for its class, so a human never is.\<close>

theorem bot_verdict_exact:
  "((\<exists>(p, n, k) \<in> set ai_bots. rx p ua) \<longleftrightarrow> (\<exists>n k. classify rx ua = Ai_Bot n k)) \<and>
    (classify rx ua = Human \<longleftrightarrow>
      \<not> (\<exists>(p, n, k) \<in> set ai_bots. rx p ua) \<and> \<not> (\<exists>(p, n) \<in> set good_bots. rx p ua) \<and>
      \<not> (\<exists>(p, n) \<in> set bad_bots. rx p ua) \<and> \<not> rx generic_bot ua) \<and>
    (should_block rx ua policy \<noteq> None \<longleftrightarrow>
      (case classify rx ua of
         Human \<Rightarrow> False
       | Good_Bot _ \<Rightarrow> \<not> bp_allow_good policy
       | Bad_Bot _ \<Rightarrow> bp_block_bad policy
       | Ai_Bot _ k \<Rightarrow> ai_action policy k = Bot_Block))"
proof (intro conjI)
  have ai: "find (\<lambda>(p, _). rx p ua) ai_bots = None \<longleftrightarrow> \<not> (\<exists>(p, n, k) \<in> set ai_bots. rx p ua)"
    unfolding find_None_all by fastforce
  then show "(\<exists>(p, n, k) \<in> set ai_bots. rx p ua) \<longleftrightarrow> (\<exists>n k. classify rx ua = Ai_Bot n k)"
    by (cases "find (\<lambda>(p, _). rx p ua) ai_bots") (auto simp: classify_def split: option.split)
  have good: "find (\<lambda>(p, _). rx p ua) good_bots = None \<longleftrightarrow> \<not> (\<exists>(p, n) \<in> set good_bots. rx p ua)"
    and bad: "find (\<lambda>(p, _). rx p ua) bad_bots = None \<longleftrightarrow> \<not> (\<exists>(p, n) \<in> set bad_bots. rx p ua)"
    unfolding find_None_all by fastforce+
  show "classify rx ua = Human \<longleftrightarrow>
      \<not> (\<exists>(p, n, k) \<in> set ai_bots. rx p ua) \<and> \<not> (\<exists>(p, n) \<in> set good_bots. rx p ua) \<and>
      \<not> (\<exists>(p, n) \<in> set bad_bots. rx p ua) \<and> \<not> rx generic_bot ua"
    unfolding ai [symmetric] good [symmetric] bad [symmetric]
    by (auto simp: classify_def split: option.split)
  show "should_block rx ua policy \<noteq> None \<longleftrightarrow>
      (case classify rx ua of
         Human \<Rightarrow> False
       | Good_Bot _ \<Rightarrow> \<not> bp_allow_good policy
       | Bad_Bot _ \<Rightarrow> bp_block_bad policy
       | Ai_Bot _ k \<Rightarrow> ai_action policy k = Bot_Block)"
    by (auto simp: should_block_def bot_evaluate_def Let_def split: bot_class.split bot_action.split)
qed

end
