(* ===== verification/Edge_Cache.thy ===== *)
theory Edge_Cache
  imports Byte_Strings
begin

text \<open>
  The two caches of the edge: whole responses (\<open>crates/hive-edge/src/cdn.rs\<close>) and the data of
  tenant functions (\<open>crates/hive-edge/src/runtime_cache.rs\<close>). The clock is an argument; the gzip
  decoder of the \<open>flate2\<close> crate is an argument that says whether a body decodes to its end.
  Expiry times are computed with the wrap-around of \<open>u64\<close>.
\<close>

section \<open>The response cache\<close>

datatype cache_state = CS_Hit | CS_Miss | CS_Stale | CS_Revalidated

fun cache_state_header :: "cache_state \<Rightarrow> string" where
  "cache_state_header CS_Hit = ''HIT''"
| "cache_state_header CS_Miss = ''MISS''"
| "cache_state_header CS_Stale = ''STALE''"
| "cache_state_header CS_Revalidated = ''REVALIDATED''"

type_synonym headers = "(string \<times> string) list"

record cached_response =
  cr_status :: nat
  cr_headers :: headers
  cr_body :: string
  cr_fresh_until_ms :: nat
  cr_usable_until_ms :: nat
  cr_retry_not_before_ms :: nat

definition revalidation_backoff_active :: "nat \<Rightarrow> cached_response \<Rightarrow> bool" where
  "revalidation_backoff_active now e = (now < cr_retry_not_before_ms e)"

definition REVALIDATION_SUCCESS_STATUSES :: "nat list" where
  "REVALIDATION_SUCCESS_STATUSES = [200, 301, 302, 307, 308, 404, 410]"

definition REVALIDATION_FAILURE_BACKOFF_MS :: nat where
  "REVALIDATION_FAILURE_BACKOFF_MS = 30000"

datatype cdn_lookup = Lookup_Hit cached_response | Lookup_Stale cached_response | Lookup_Miss

record cdn_cache =
  cdn_map :: "(string, cached_response) table"
  cdn_hits :: nat
  cdn_misses :: nat
  cdn_stale :: nat
  cdn_stores :: nat
  cdn_max_entries :: nat

definition cdn_new :: cdn_cache where
  "cdn_new = \<lparr>cdn_map = [], cdn_hits = 0, cdn_misses = 0, cdn_stale = 0, cdn_stores = 0,
     cdn_max_entries = 10000\<rparr>"

definition cdn_key :: "string \<Rightarrow> string \<Rightarrow> string" where
  "cdn_key host path_q = host @ path_q"

definition lookup :: "nat \<Rightarrow> string \<Rightarrow> cdn_cache \<Rightarrow> cdn_lookup \<times> cdn_cache" where
  "lookup now key c =
     (case tget (cdn_map c) key of
        Some e \<Rightarrow>
          if now < cr_fresh_until_ms e then (Lookup_Hit e, c\<lparr>cdn_hits := cdn_hits c + 1\<rparr>)
          else if now < cr_usable_until_ms e then (Lookup_Stale e, c\<lparr>cdn_stale := cdn_stale c + 1\<rparr>)
          else (Lookup_Miss, c\<lparr>cdn_map := tdel key (cdn_map c), cdn_misses := cdn_misses c + 1\<rparr>)
      | None \<Rightarrow> (Lookup_Miss, c\<lparr>cdn_misses := cdn_misses c + 1\<rparr>))"

text \<open>Cache directives.\<close>

definition header :: "string \<Rightarrow> headers \<Rightarrow> string option" where
  "header name hs = map_option snd (find (\<lambda>(k, _). eq_ignore_ascii_case k name) hs)"

fun directive_in :: "string list \<Rightarrow> string \<Rightarrow> nat option" where
  "directive_in [] key = None"
| "directive_in (token # ts) key =
     (case Option.bind (strip_prefix key (trim token)) (\<lambda>rest. parse_u64 (trim rest)) of
        Some n \<Rightarrow> Some n
      | None \<Rightarrow> directive_in ts key)"

definition directive :: "string \<Rightarrow> string \<Rightarrow> nat option" where
  "directive cc key = directive_in (split_on CHR '','' cc) key"

definition max_age_of :: "string \<Rightarrow> nat option" where
  "max_age_of v =
     (case directive v ''s-maxage='' of Some n \<Rightarrow> Some n | None \<Rightarrow> directive v ''max-age='')"

fun cache_policy_in :: "string list \<Rightarrow> headers \<Rightarrow> (nat \<times> nat) option" where
  "cache_policy_in [] hs = None"
| "cache_policy_in (name # names) hs =
     (case map_option to_lowercase (header name hs) of
        None \<Rightarrow> cache_policy_in names hs
      | Some v \<Rightarrow>
          if str_contains v ''no-store'' \<or> str_contains v ''private'' \<or> str_contains v ''no-cache'' then None
          else (case max_age_of v of
                  Some ttl \<Rightarrow>
                    Some (ttl, case directive v ''stale-while-revalidate='' of None \<Rightarrow> 0 | Some n \<Rightarrow> n)
                | None \<Rightarrow> cache_policy_in names hs))"

definition cache_policy :: "headers \<Rightarrow> (nat \<times> nat) option" where
  "cache_policy hs =
     cache_policy_in [''vercel-cdn-cache-control'', ''cdn-cache-control'', ''cache-control''] hs"

definition note_revalidation_failed :: "nat \<Rightarrow> string \<Rightarrow> cdn_cache \<Rightarrow> cdn_cache" where
  "note_revalidation_failed now key c =
     c\<lparr>cdn_map := tmod key (\<lambda>e. e\<lparr>cr_retry_not_before_ms := wadd64 now REVALIDATION_FAILURE_BACKOFF_MS\<rparr>)
         (cdn_map c)\<rparr>"

definition length_ok :: "headers \<Rightarrow> string \<Rightarrow> bool" where
  "length_ok hs body =
     (case Option.bind (header ''content-length'' hs) (\<lambda>v. parse_u64 (trim v)) of
        None \<Rightarrow> True
      | Some declared \<Rightarrow> declared = length body)"

definition encoding_ok :: "(string \<Rightarrow> bool) \<Rightarrow> headers \<Rightarrow> string \<Rightarrow> bool" where
  "encoding_ok gunzip hs body =
     (case header ''content-encoding'' hs of
        None \<Rightarrow> True
      | Some v \<Rightarrow> eq_ignore_ascii_case v ''gzip'' \<longrightarrow> gunzip body)"

definition response_of :: "nat \<Rightarrow> nat \<Rightarrow> headers \<Rightarrow> string \<Rightarrow> nat \<Rightarrow> nat \<Rightarrow> cached_response" where
  "response_of now status hs body ttl swr =
     \<lparr>cr_status = status, cr_headers = hs, cr_body = body,
      cr_fresh_until_ms = wadd64 now (wmul64 ttl 1000),
      cr_usable_until_ms = wadd64 now (wmul64 (wadd64 ttl swr) 1000),
      cr_retry_not_before_ms = 0\<rparr>"

definition maybe_store :: "(string \<Rightarrow> bool) \<Rightarrow> nat \<Rightarrow> string \<Rightarrow> nat \<Rightarrow> headers \<Rightarrow> string \<Rightarrow> cdn_cache \<Rightarrow> bool \<times> cdn_cache" where
  "maybe_store gunzip now key status hs body c =
     (if status \<notin> set REVALIDATION_SUCCESS_STATUSES then (False, note_revalidation_failed now key c)
      else if \<not> length_ok hs body then (False, note_revalidation_failed now key c)
      else if \<not> encoding_ok gunzip hs body then (False, note_revalidation_failed now key c)
      else (case cache_policy hs of
              None \<Rightarrow> (False, c)
            | Some (ttl, swr) \<Rightarrow>
                if ttl = 0 \<and> swr = 0 then (False, c)
                else (let m = (if length (cdn_map c) \<ge> cdn_max_entries c then [] else cdn_map c)
                      in (True, c\<lparr>cdn_map := tput key (response_of now status hs body ttl swr) m,
                                  cdn_stores := cdn_stores c + 1\<rparr>))))"

definition purge :: "cdn_cache \<Rightarrow> cdn_cache" where
  "purge c = c\<lparr>cdn_map := []\<rparr>"

text \<open>The counters of \<open>stats\<close>; the hit ratio is the fraction of the last two components.\<close>

definition cdn_stats :: "cdn_cache \<Rightarrow> nat \<times> nat \<times> nat \<times> nat \<times> nat \<times> nat" where
  "cdn_stats c =
     (cdn_hits c, cdn_misses c, cdn_stale c, length (cdn_map c),
      cdn_hits c + cdn_stale c, cdn_hits c + cdn_misses c + cdn_stale c)"

section \<open>The runtime cache\<close>

definition MAX_ITEM_BYTES :: nat where
  "MAX_ITEM_BYTES = 2 * 1024 * 1024"

definition MAX_TAGS_PER_ITEM :: nat where
  "MAX_TAGS_PER_ITEM = 64"

definition MAX_TAG_LEN :: nat where
  "MAX_TAG_LEN = 256"

record rc_entry =
  re_value :: string
  re_expires_ms :: nat
  re_tags :: "string list"
  re_recency :: nat

record runtime_cache =
  rc_map :: "(string, rc_entry) table"
  rc_max_entries :: nat
  rc_tick :: nat
  rc_reads :: nat
  rc_writes :: nat
  rc_hits :: nat
  rc_revalidations :: nat

definition rc_with_capacity :: "nat \<Rightarrow> runtime_cache" where
  "rc_with_capacity n = \<lparr>rc_map = [], rc_max_entries = n, rc_tick = 0, rc_reads = 0, rc_writes = 0,
     rc_hits = 0, rc_revalidations = 0\<rparr>"

definition rc_new :: runtime_cache where
  "rc_new = rc_with_capacity 10000"

definition NUL :: char where
  "NUL = CHR 0x00"

definition full_key :: "string \<Rightarrow> string \<Rightarrow> string" where
  "full_key scope key = scope @ NUL # key"

definition rc_get :: "nat \<Rightarrow> string \<Rightarrow> string \<Rightarrow> runtime_cache \<Rightarrow> string option \<times> runtime_cache" where
  "rc_get now scope key c0 =
     (let c = c0\<lparr>rc_reads := rc_reads c0 + 1\<rparr>; fk = full_key scope key
      in (case tget (rc_map c) fk of
            None \<Rightarrow> (None, c)
          | Some e \<Rightarrow>
              if re_expires_ms e \<noteq> 0 \<and> now \<ge> re_expires_ms e
              then (None, c\<lparr>rc_map := tdel fk (rc_map c)\<rparr>)
              else (Some (re_value e),
                    c\<lparr>rc_map := tput fk (e\<lparr>re_recency := rc_tick c\<rparr>) (rc_map c),
                      rc_tick := rc_tick c + 1, rc_hits := rc_hits c + 1\<rparr>)))"

text \<open>\<open>&t[..n]\<close> on a longer string panics unless byte \<open>n\<close> starts a character.\<close>

definition char_boundary :: "nat \<Rightarrow> string \<Rightarrow> bool" where
  "char_boundary n t \<longleftrightarrow>
     n = length t \<or> n < length t \<and> \<not> (128 \<le> (of_char (t ! n) :: nat) \<and> (of_char (t ! n) :: nat) < 192)"

datatype set_result = Set_Ok | Set_Err string | Set_Panic

definition long_tag_result :: "string \<Rightarrow> set_result" where
  "long_tag_result t =
     (let n = min (length t) 32
      in if char_boundary n t
         then Set_Err (''tag '' @ [CHR 0x27] @ take n t @ [CHR 0x27] @ '' exceeds 256 bytes'')
         else Set_Panic)"

definition lru_evict :: "string \<Rightarrow> nat \<Rightarrow> (string, rc_entry) table \<Rightarrow> (string, rc_entry) table" where
  "lru_evict fk max_entries m =
     (if length m \<ge> max_entries \<and> tget m fk = None
      then (case min_by_key (\<lambda>(_, e). re_recency e) m of None \<Rightarrow> m | Some (victim, _) \<Rightarrow> tdel victim m)
      else m)"

definition rc_set :: "nat \<Rightarrow> string \<Rightarrow> string \<Rightarrow> string \<Rightarrow> nat \<Rightarrow> string list \<Rightarrow> runtime_cache \<Rightarrow> set_result \<times> runtime_cache" where
  "rc_set now scope key value ttl_secs tags c =
     (if length value > MAX_ITEM_BYTES then (Set_Err ''item exceeds 2097152 bytes'', c)
      else if length tags > MAX_TAGS_PER_ITEM then (Set_Err ''more than 64 tags'', c)
      else (case find (\<lambda>t. length t > MAX_TAG_LEN) tags of
              Some t \<Rightarrow> (long_tag_result t, c)
            | None \<Rightarrow>
                (let expires = (if ttl_secs = 0 then 0 else wadd64 now (wmul64 ttl_secs 1000));
                     fk = full_key scope key;
                     e = \<lparr>re_value = value, re_expires_ms = expires, re_tags = tags, re_recency = rc_tick c\<rparr>
                 in (Set_Ok, c\<lparr>rc_map := tput fk e (lru_evict fk (rc_max_entries c) (rc_map c)),
                               rc_tick := rc_tick c + 1, rc_writes := rc_writes c + 1\<rparr>))))"

definition rc_delete :: "string \<Rightarrow> string \<Rightarrow> runtime_cache \<Rightarrow> bool \<times> runtime_cache" where
  "rc_delete scope key c =
     (tget (rc_map c) (full_key scope key) \<noteq> None, c\<lparr>rc_map := tdel (full_key scope key) (rc_map c)\<rparr>)"

definition revalidate_tag :: "string \<Rightarrow> string \<Rightarrow> runtime_cache \<Rightarrow> nat \<times> runtime_cache" where
  "revalidate_tag scope tag c =
     (let m = tretain (\<lambda>k e. \<not> (starts_with (scope @ [NUL]) k \<and> tag \<in> set (re_tags e))) (rc_map c);
          removed = length (rc_map c) - length m
      in (removed, c\<lparr>rc_map := m,
            rc_revalidations := rc_revalidations c + (if removed > 0 then 1 else 0)\<rparr>))"

definition purge_scope :: "string \<Rightarrow> runtime_cache \<Rightarrow> nat \<times> runtime_cache" where
  "purge_scope scope c =
     (let m = tretain (\<lambda>k _. \<not> starts_with (scope @ [NUL]) k) (rc_map c)
      in (length (rc_map c) - length m, c\<lparr>rc_map := m\<rparr>))"

definition purge_all :: "runtime_cache \<Rightarrow> runtime_cache" where
  "purge_all c = c\<lparr>rc_map := []\<rparr>"

definition rc_stats :: "runtime_cache \<Rightarrow> nat \<times> nat \<times> nat \<times> nat \<times> nat" where
  "rc_stats c = (length (rc_map c), rc_reads c, rc_writes c, rc_hits c, rc_revalidations c)"

end
