(* ===== verification/Edge_Cache_Props.thy ===== *)
theory Edge_Cache_Props
  imports Edge_Cache
begin

text \<open>
  What the two caches of the edge promise: an entry is served for exactly its time to live, no
  truncated or uncacheable response is ever stored, a failed refresh keeps what was there, scopes
  of the runtime cache cannot see each other, and eviction takes the least recently used entry.
\<close>

section \<open>The response cache\<close>

datatype cdn_op =
    Op_Lookup nat string
  | Op_Store nat string nat headers string
  | Op_Failed nat string
  | Op_Purge

fun cdn_step :: "(string \<Rightarrow> bool) \<Rightarrow> cdn_op \<Rightarrow> cdn_cache \<Rightarrow> cdn_cache" where
  "cdn_step gunzip (Op_Lookup now key) c = snd (lookup now key c)"
| "cdn_step gunzip (Op_Store now key status hs body) c = snd (maybe_store gunzip now key status hs body c)"
| "cdn_step gunzip (Op_Failed now key) c = note_revalidation_failed now key c"
| "cdn_step gunzip Op_Purge c = purge c"

definition cdn_run :: "(string \<Rightarrow> bool) \<Rightarrow> cdn_op list \<Rightarrow> cdn_cache" where
  "cdn_run gunzip ops = fold (cdn_step gunzip) ops cdn_new"

text \<open>A response that may be in the cache.\<close>

definition sound_entry :: "(string \<Rightarrow> bool) \<Rightarrow> cached_response \<Rightarrow> bool" where
  "sound_entry gunzip e \<longleftrightarrow>
     cr_status e \<in> {200, 301, 302, 307, 308, 404, 410} \<and>
     length_ok (cr_headers e) (cr_body e) \<and> encoding_ok gunzip (cr_headers e) (cr_body e) \<and>
     (\<exists>ttl swr. cache_policy (cr_headers e) = Some (ttl, swr) \<and> (ttl > 0 \<or> swr > 0))"

definition cdn_inv :: "(string \<Rightarrow> bool) \<Rightarrow> cdn_cache \<Rightarrow> bool" where
  "cdn_inv gunzip c \<longleftrightarrow> distinct (tkeys (cdn_map c)) \<and> 0 < cdn_max_entries c \<and>
     length (cdn_map c) \<le> cdn_max_entries c \<and>
     (\<forall>k e. tget (cdn_map c) k = Some e \<longrightarrow> sound_entry gunzip e)"

lemma maybe_store_stored:
  assumes "maybe_store gunzip now key status hs body c = (True, c')"
  obtains ttl swr where "cache_policy hs = Some (ttl, swr)" and "ttl > 0 \<or> swr > 0"
    and "status \<in> {200, 301, 302, 307, 308, 404, 410}" and "length_ok hs body" and "encoding_ok gunzip hs body"
    and "c' = c\<lparr>cdn_map := tput key (response_of now status hs body ttl swr)
           (if length (cdn_map c) \<ge> cdn_max_entries c then [] else cdn_map c),
         cdn_stores := cdn_stores c + 1\<rparr>"
  using assms
  by (auto simp: maybe_store_def Let_def REVALIDATION_SUCCESS_STATUSES_def
      split: if_splits option.splits prod.splits)

lemma maybe_store_refused:
  "maybe_store gunzip now key status hs body c = (False, c') \<Longrightarrow>
    c' = c \<or> c' = note_revalidation_failed now key c"
  by (auto simp: maybe_store_def Let_def split: if_splits option.splits prod.splits)

lemma sound_entry_retry [simp]:
  "sound_entry gunzip (e\<lparr>cr_retry_not_before_ms := t\<rparr>) = sound_entry gunzip e"
  by (simp add: sound_entry_def)

lemma failed_inv: "cdn_inv gunzip c \<Longrightarrow> cdn_inv gunzip (note_revalidation_failed now key c)"
  by (auto simp: cdn_inv_def note_revalidation_failed_def sound_entry_retry simp del: map_of_eq_Some_iff split: if_splits)

lemma cdn_step_inv: "cdn_inv gunzip c \<Longrightarrow> cdn_inv gunzip (cdn_step gunzip op c)"
proof (cases op)
  case (Op_Lookup now key)
  assume inv: "cdn_inv gunzip c"
  have "length (tdel key (cdn_map c)) \<le> length (cdn_map c)" by (simp add: AList.length_delete_le)
  then show ?thesis
    using inv by (auto simp: Op_Lookup lookup_def cdn_inv_def simp del: map_of_eq_Some_iff split: option.split if_splits)
next
  case (Op_Store now key status hs body)
  assume inv: "cdn_inv gunzip c"
  obtain ok c' where r: "maybe_store gunzip now key status hs body c = (ok, c')" by fastforce
  show ?thesis
  proof (cases ok)
    case False
    then show ?thesis using maybe_store_refused [of gunzip now key status hs body c c'] r inv failed_inv
      by (auto simp: Op_Store)
  next
    case True
    with r obtain ttl swr where p: "cache_policy hs = Some (ttl, swr)" "ttl > 0 \<or> swr > 0"
      "status \<in> {200, 301, 302, 307, 308, 404, 410}" "length_ok hs body" "encoding_ok gunzip hs body"
      and c': "c' = c\<lparr>cdn_map := tput key (response_of now status hs body ttl swr)
           (if length (cdn_map c) \<ge> cdn_max_entries c then [] else cdn_map c),
         cdn_stores := cdn_stores c + 1\<rparr>"
      by (auto elim: maybe_store_stored)
    have "sound_entry gunzip (response_of now status hs body ttl swr)"
      using p by (simp add: sound_entry_def response_of_def)
    then show ?thesis using inv by (auto simp: Op_Store r c' cdn_inv_def length_tput simp del: map_of_eq_Some_iff split: if_splits)
  qed
next
  case (Op_Failed now key)
  then show "cdn_inv gunzip c \<Longrightarrow> ?thesis" by (simp add: failed_inv)
next
  case Op_Purge
  then show "cdn_inv gunzip c \<Longrightarrow> ?thesis" by (simp add: purge_def cdn_inv_def)
qed

lemma cdn_run_inv: "cdn_inv gunzip (cdn_run gunzip ops)"
proof -
  have "cdn_inv gunzip (fold (cdn_step gunzip) ops c)" if "cdn_inv gunzip c" for c
    using that by (induction ops arbitrary: c) (simp_all add: cdn_step_inv)
  moreover have "cdn_inv gunzip cdn_new" by (simp add: cdn_inv_def cdn_new_def)
  ultimately show ?thesis by (simp add: cdn_run_def)
qed

text \<open>The response cache is never poisoned: whatever sequence of lookups, store attempts, failed
  refreshes and purges it sees, every entry has one of the seven cacheable statuses, a body of the
  declared length that decodes when it is declared as gzip, and directives that allow caching; and
  there are never more than the maximal number of entries.\<close>

theorem cdn_never_poisoned:
  "length (cdn_map (cdn_run gunzip ops)) \<le> 10000 \<and>
    (\<forall>k e. tget (cdn_map (cdn_run gunzip ops)) k = Some e \<longrightarrow> sound_entry gunzip e)"
proof -
  have "cdn_max_entries (cdn_step gunzip op c) = cdn_max_entries c" for op c
    by (cases op) (auto simp: lookup_def maybe_store_def note_revalidation_failed_def purge_def Let_def
        split: option.split if_splits prod.split)
  then have "cdn_max_entries (fold (cdn_step gunzip) ops c) = cdn_max_entries c" for c
    by (induction ops arbitrary: c) simp_all
  then have "cdn_max_entries (cdn_run gunzip ops) = 10000" by (simp add: cdn_run_def cdn_new_def)
  then show ?thesis using cdn_run_inv [of gunzip ops] by (simp add: cdn_inv_def)
qed

definition page_headers :: headers where
  "page_headers = [(''Content-Length'', ''4''), (''Cache-Control'', ''public, max-age=60, stale-while-revalidate=30'')]"

definition page_ops :: "cdn_op list" where
  "page_ops = [Op_Store 1000 ''app/a'' 200 page_headers ''body'', Op_Store 2000 ''app/b'' 200 page_headers ''bo'']"

theorem cdn_never_poisoned_witness:
  "\<exists>e. cdn_map (cdn_run (\<lambda>_. True) page_ops) = [(''app/a'', e)] \<and> sound_entry (\<lambda>_. True) e"
proof -
  have k: "map fst (cdn_map (cdn_run (\<lambda>_. True) page_ops)) = [''app/a'']" by code_simp
  then obtain e where e: "cdn_map (cdn_run (\<lambda>_. True) page_ops) = [(''app/a'', e)]" by auto
  then have "tget (cdn_map (cdn_run (\<lambda>_. True) page_ops)) ''app/a'' = Some e" by simp
  with cdn_never_poisoned e show ?thesis by blast
qed

text \<open>A stored response is served unchanged, as a hit until its maximal age has passed, as stale
  until the revalidation window has passed too, and not at all after that; the times are those of
  the response's own directives, as long as they fit into 64 bits.\<close>

theorem cdn_serves_by_age:
  assumes "maybe_store gunzip t0 key status hs body c = (True, c')" and "cache_policy hs = Some (ttl, swr)"
    and "t0 + (ttl + swr) * 1000 < 2 ^ 64"
  shows "\<exists>e. cr_status e = status \<and> cr_headers e = hs \<and> cr_body e = body \<and>
    fst (lookup now key c') =
      (if now < t0 + ttl * 1000 then Lookup_Hit e
       else if now < t0 + (ttl + swr) * 1000 then Lookup_Stale e else Lookup_Miss)"
proof -
  let ?e = "response_of t0 status hs body ttl swr"
  have "tget (cdn_map c') key = Some ?e"
    using assms(1,2) by (auto elim!: maybe_store_stored)
  moreover have "cr_fresh_until_ms ?e = t0 + ttl * 1000" "cr_usable_until_ms ?e = t0 + (ttl + swr) * 1000"
    using assms(3) by (simp_all add: response_of_def wrap_simps)
  ultimately have "fst (lookup now key c') =
      (if now < t0 + ttl * 1000 then Lookup_Hit ?e
       else if now < t0 + (ttl + swr) * 1000 then Lookup_Stale ?e else Lookup_Miss)"
    by (simp add: lookup_def)
  then show ?thesis by (intro exI [of _ ?e]) (simp add: response_of_def)
qed

theorem cdn_serves_by_age_witness:
  "\<exists>e c'. maybe_store (\<lambda>_. True) 1000 ''app/a'' 200 page_headers ''body'' cdn_new = (True, c') \<and>
    cr_body e = ''body'' \<and> fst (lookup 60999 ''app/a'' c') = Lookup_Hit e"
proof -
  have "fst (maybe_store (\<lambda>_. True) 1000 ''app/a'' 200 page_headers ''body'' cdn_new)" by code_simp
  then obtain c' where st: "maybe_store (\<lambda>_. True) 1000 ''app/a'' 200 page_headers ''body'' cdn_new = (True, c')"
    by (cases "maybe_store (\<lambda>_. True) 1000 ''app/a'' 200 page_headers ''body'' cdn_new") simp
  have "cache_policy page_headers = Some (60, 30)" by code_simp
  from cdn_serves_by_age [OF st this, of 60999] st show ?thesis by auto
qed

text \<open>A refused response changes nothing that is served: after a store attempt that returns false
  (a failed status, a truncated or undecodable body, or directives against caching) every key has
  the status, headers, body and times it had, only a retry delay may have been set.\<close>

theorem cdn_refused_preserves:
  assumes "maybe_store gunzip now key status hs body c = (False, c')"
  shows "map_option (\<lambda>e. e\<lparr>cr_retry_not_before_ms := 0\<rparr>) (tget (cdn_map c') k) =
    map_option (\<lambda>e. e\<lparr>cr_retry_not_before_ms := 0\<rparr>) (tget (cdn_map c) k)"
  using maybe_store_refused [OF assms]
  by (auto simp: note_revalidation_failed_def option.map_comp comp_def)

theorem cdn_refused_preserves_witness:
  "\<exists>c c'. tget (cdn_map c) ''app/a'' \<noteq> None \<and>
    maybe_store (\<lambda>_. True) 70000 ''app/a'' 500 page_headers ''gone'' c = (False, c') \<and>
    map_option (\<lambda>e. e\<lparr>cr_retry_not_before_ms := 0\<rparr>) (tget (cdn_map c') ''app/a'') =
      map_option (\<lambda>e. e\<lparr>cr_retry_not_before_ms := 0\<rparr>) (tget (cdn_map c) ''app/a'')"
proof -
  let ?c = "cdn_run (\<lambda>_. True) page_ops"
  have "\<not> fst (maybe_store (\<lambda>_. True) 70000 ''app/a'' 500 page_headers ''gone'' ?c)" by code_simp
  then obtain c' where st: "maybe_store (\<lambda>_. True) 70000 ''app/a'' 500 page_headers ''gone'' ?c = (False, c')"
    by (cases "maybe_store (\<lambda>_. True) 70000 ''app/a'' 500 page_headers ''gone'' ?c") simp
  have "''app/a'' \<in> set (tkeys (cdn_map ?c))" by code_simp
  then have "tget (cdn_map ?c) ''app/a'' \<noteq> None" by (simp only: tget_None_iff not_not)
  with st cdn_refused_preserves [OF st] show ?thesis by blast
qed

text \<open>A maximal age close to the largest 64-bit number wraps around in a release build: the
  response is stored, and is already expired when it is looked up in the same millisecond.\<close>

theorem cdn_huge_max_age_expires:
  "let hs = [(''cache-control'', ''max-age=18446744073709551615'')];
       (stored, c) = maybe_store (\<lambda>_. True) 1750000000000 ''k'' 200 hs ''x'' cdn_new
   in stored \<and> fst (lookup 1750000000000 ''k'' c) = Lookup_Miss"
  by code_simp

section \<open>The runtime cache\<close>

datatype rc_op =
    R_Get nat string string
  | R_Set nat string string string nat "string list"
  | R_Delete string string
  | R_Revalidate string string
  | R_Purge string
  | R_Purge_All

fun rc_step :: "rc_op \<Rightarrow> runtime_cache \<Rightarrow> runtime_cache" where
  "rc_step (R_Get now scope key) c = snd (rc_get now scope key c)"
| "rc_step (R_Set now scope key v ttl tags) c = snd (rc_set now scope key v ttl tags c)"
| "rc_step (R_Delete scope key) c = snd (rc_delete scope key c)"
| "rc_step (R_Revalidate scope tag) c = snd (revalidate_tag scope tag c)"
| "rc_step (R_Purge scope) c = snd (purge_scope scope c)"
| "rc_step R_Purge_All c = purge_all c"

definition rc_run :: "nat \<Rightarrow> rc_op list \<Rightarrow> runtime_cache" where
  "rc_run n ops = fold rc_step ops (rc_with_capacity n)"

text \<open>The recency of an entry is the tick of its last use: no two entries share one.\<close>

definition recency_ok :: "nat \<Rightarrow> (string, rc_entry) table \<Rightarrow> bool" where
  "recency_ok tick m \<longleftrightarrow> distinct (tkeys m) \<and> (\<forall>k e. tget m k = Some e \<longrightarrow> re_recency e < tick) \<and>
     (\<forall>k k' e e'. tget m k = Some e \<longrightarrow> tget m k' = Some e' \<longrightarrow> re_recency e = re_recency e' \<longrightarrow> k = k')"

definition rc_inv :: "nat \<Rightarrow> runtime_cache \<Rightarrow> bool" where
  "rc_inv n c \<longleftrightarrow> rc_max_entries c = n \<and> length (rc_map c) \<le> n \<and> recency_ok (rc_tick c) (rc_map c)"

lemma recency_ok_put:
  "recency_ok tick m \<Longrightarrow> re_recency e = tick \<Longrightarrow> recency_ok (tick + 1) (tput k e m)"
  unfolding recency_ok_def
  by (auto simp del: map_of_eq_Some_iff split: if_splits) (metis less_Suc_eq nat_neq_iff)+

lemma recency_ok_del: "recency_ok tick m \<Longrightarrow> recency_ok tick (tdel k m)"
  unfolding recency_ok_def by (simp del: map_of_eq_Some_iff)

lemma recency_ok_retain: "recency_ok tick m \<Longrightarrow> recency_ok tick (tretain p m)"
  unfolding recency_ok_def
  by (auto simp: tget_tretain simp del: map_of_eq_Some_iff split: option.splits if_splits)

lemma lru_evict_cases:
  obtains "lru_evict fk n m = m" and "length m < n \<or> tget m fk \<noteq> None \<or> m = []"
  | victim ev where "n \<le> length m" and "tget m fk = None" and "(victim, ev) \<in> set m"
    and "\<forall>(k, e) \<in> set m. re_recency ev \<le> re_recency e" and "lru_evict fk n m = tdel victim m"
proof (cases "length m \<ge> n \<and> tget m fk = None")
  case False
  then show thesis using that(1) by (auto simp: lru_evict_def)
next
  case True
  show thesis
  proof (cases "min_by_key (\<lambda>(_, e). re_recency e) m")
    case None
    then show thesis using that(1) True by (simp add: lru_evict_def)
  next
    case (Some x)
    obtain victim ev where x: "x = (victim, ev)" by fastforce
    show thesis
      using that(2) [of victim ev] True min_by_key_Some [OF Some] Some by (auto simp: x lru_evict_def case_prod_unfold)
  qed
qed

lemma lru_evict_ok: "recency_ok tick m \<Longrightarrow> recency_ok tick (lru_evict fk n m)"
  by (rule lru_evict_cases [of fk n m]) (simp_all add: recency_ok_del)

lemma lru_evict_length:
  assumes "length m \<le> n" and "0 < n" and "distinct (tkeys m)"
  shows "length (tput fk e (lru_evict fk n m)) \<le> n"
proof (rule lru_evict_cases [of fk n m])
  assume "lru_evict fk n m = m" "length m < n \<or> tget m fk \<noteq> None \<or> m = []"
  then show ?thesis using assms by (auto simp: length_tput tget_None_iff simp del: length_map)
next
  fix victim ev assume "(victim, ev) \<in> set m" and ev: "lru_evict fk n m = tdel victim m"
  then have "victim \<in> set (tkeys m)" by force
  from length_tdel_mem [OF assms(3) this] show ?thesis using assms(1) by (simp add: ev length_tput)
qed

lemma length_tdel_le: "length (tdel k m) \<le> length m"
  by (simp add: AList.length_delete_le)

lemma rc_step_inv:
  assumes "rc_inv n c" and "0 < n"
  shows "rc_inv n (rc_step op c)"
proof (cases op)
  case (R_Get now scope key)
  show ?thesis
  proof (cases "tget (rc_map c) (full_key scope key)")
    case None
    then show ?thesis using assms by (simp add: R_Get rc_get_def rc_inv_def)
  next
    case (Some e)
    then have "full_key scope key \<in> set (tkeys (rc_map c))" by (rule tget_Some_key)
    then have "length (tput (full_key scope key) e' (rc_map c)) = length (rc_map c)" for e'
      by (simp add: length_tput)
    then show ?thesis
      using assms Some recency_ok_put [of "rc_tick c" "rc_map c" "e\<lparr>re_recency := rc_tick c\<rparr>"] recency_ok_del
        order_trans [OF length_tdel_le, of "rc_map c" n]
      by (simp add: R_Get rc_get_def rc_inv_def Let_def)
  qed
next
  case (R_Set now scope key v ttl tags)
  have d: "distinct (tkeys (rc_map c))" using assms(1) by (simp add: rc_inv_def recency_ok_def)
  show ?thesis
    using assms recency_ok_put [OF lru_evict_ok] lru_evict_length [OF _ assms(2) d]
    by (auto simp: R_Set rc_set_def rc_inv_def Let_def split: option.split)
next
  case (R_Delete scope key)
  then show ?thesis using assms recency_ok_del order_trans [OF length_tdel_le, of "rc_map c" n]
    by (simp add: rc_delete_def rc_inv_def)
next
  case (R_Revalidate scope tag)
  then show ?thesis using assms recency_ok_retain order_trans [OF length_tretain_le, of "rc_map c" n]
    by (simp add: revalidate_tag_def rc_inv_def Let_def)
next
  case (R_Purge scope)
  then show ?thesis using assms recency_ok_retain order_trans [OF length_tretain_le, of "rc_map c" n]
    by (simp add: purge_scope_def rc_inv_def Let_def)
next
  case R_Purge_All
  then show ?thesis using assms by (simp add: purge_all_def rc_inv_def recency_ok_def)
qed

lemma rc_run_inv: "0 < n \<Longrightarrow> rc_inv n (rc_run n ops)"
proof -
  assume n: "0 < n"
  have "rc_inv n (fold rc_step ops c)" if "rc_inv n c" for c
    using that n by (induction ops arbitrary: c) (simp_all add: rc_step_inv)
  moreover have "rc_inv n (rc_with_capacity n)"
    by (simp add: rc_with_capacity_def rc_inv_def recency_ok_def)
  ultimately show ?thesis by (simp add: rc_run_def)
qed

text \<open>The runtime cache stays within its capacity and evicts fairly: after any sequence of
  operations it holds at most its capacity, and storing a new key into a full cache drops exactly
  one entry, the one whose last use is strictly the longest ago, and no other.\<close>

theorem rc_evicts_lru:
  assumes "0 < n" and "rc_set now scope key v ttl tags (rc_run n ops) = (Set_Ok, c')"
  shows "length (rc_map c') \<le> n \<and>
    (tget (rc_map (rc_run n ops)) (full_key scope key) = None \<longrightarrow> length (rc_map (rc_run n ops)) = n \<longrightarrow>
      (\<exists>victim ev. tget (rc_map (rc_run n ops)) victim = Some ev \<and>
        (\<forall>k e. k \<noteq> victim \<longrightarrow> tget (rc_map (rc_run n ops)) k = Some e \<longrightarrow> re_recency ev < re_recency e) \<and>
        (\<forall>k. k \<noteq> full_key scope key \<longrightarrow>
          tget (rc_map c') k = (if k = victim then None else tget (rc_map (rc_run n ops)) k))))"
proof -
  let ?c = "rc_run n ops" and ?fk = "full_key scope key"
  let ?m = "rc_map ?c"
  have inv: "rc_inv n ?c" by (rule rc_run_inv [OF assms(1)])
  then have d: "distinct (tkeys ?m)" and ok: "recency_ok (rc_tick ?c) ?m" and mx: "rc_max_entries ?c = n"
    by (auto simp: rc_inv_def recency_ok_def)
  have "rc_inv n c'"
    using rc_step_inv [OF inv assms(1), of "R_Set now scope key v ttl tags"] assms(2) by simp
  then have len: "length (rc_map c') \<le> n" by (simp add: rc_inv_def)
  have c': "\<exists>e. rc_map c' = tput ?fk e (lru_evict ?fk n ?m)"
    using assms(2) mx by (auto simp: rc_set_def Let_def long_tag_result_def split: if_splits option.splits)
  show ?thesis
  proof (intro conjI impI len)
    assume new: "tget ?m ?fk = None" and full: "length ?m = n"
    show "\<exists>victim ev. tget ?m victim = Some ev \<and>
        (\<forall>k e. k \<noteq> victim \<longrightarrow> tget ?m k = Some e \<longrightarrow> re_recency ev < re_recency e) \<and>
        (\<forall>k. k \<noteq> ?fk \<longrightarrow> tget (rc_map c') k = (if k = victim then None else tget ?m k))"
    proof (rule lru_evict_cases [of ?fk n ?m])
      assume "length ?m < n \<or> tget ?m ?fk \<noteq> None \<or> ?m = []"
      then show ?thesis using new full assms(1) by auto
    next
      fix victim ev
      assume "(victim, ev) \<in> set ?m" and least: "\<forall>(k, e) \<in> set ?m. re_recency ev \<le> re_recency e"
        and ev: "lru_evict ?fk n ?m = tdel victim ?m"
      then have v: "tget ?m victim = Some ev" using d by simp
      have "re_recency ev < re_recency e" if "k \<noteq> victim" "tget ?m k = Some e" for k e
      proof -
        have "(k, e) \<in> set ?m" using that(2) by (rule map_of_SomeD)
        then have "re_recency ev \<le> re_recency e" using least by auto
        moreover have "re_recency ev \<noteq> re_recency e" using ok v that unfolding recency_ok_def by metis
        ultimately show ?thesis by simp
      qed
      moreover have "tget (rc_map c') k = (if k = victim then None else tget ?m k)" if "k \<noteq> ?fk" for k
        using c' that by (auto simp: ev)
      ultimately show ?thesis using v by blast
    qed
  qed
qed

theorem rc_evicts_lru_witness:
  "\<exists>c'. rc_set 5 ''p'' ''c'' ''3'' 0 [] (rc_run 2 [R_Set 1 ''p'' ''a'' ''1'' 0 [], R_Set 2 ''p'' ''b'' ''2'' 0 [], R_Get 3 ''p'' ''a'']) = (Set_Ok, c') \<and>
    length (rc_map c') \<le> 2 \<and> map fst (rc_map c') = [full_key ''p'' ''a'', full_key ''p'' ''c'']"
proof -
  let ?ops = "[R_Set 1 ''p'' ''a'' ''1'' 0 [], R_Set 2 ''p'' ''b'' ''2'' 0 [], R_Get 3 ''p'' ''a'']"
  have "fst (rc_set 5 ''p'' ''c'' ''3'' 0 [] (rc_run 2 ?ops)) = Set_Ok \<and>
      map fst (rc_map (snd (rc_set 5 ''p'' ''c'' ''3'' 0 [] (rc_run 2 ?ops)))) = [full_key ''p'' ''a'', full_key ''p'' ''c'']"
    by code_simp
  then obtain c' where st: "rc_set 5 ''p'' ''c'' ''3'' 0 [] (rc_run 2 ?ops) = (Set_Ok, c')"
    and k: "map fst (rc_map c') = [full_key ''p'' ''a'', full_key ''p'' ''c'']"
    by (cases "rc_set 5 ''p'' ''c'' ''3'' 0 [] (rc_run 2 ?ops)") auto
  from rc_evicts_lru [OF _ st] st k show ?thesis by auto
qed

subsection \<open>Scopes and times\<close>

lemma append_NUL_eq:
  assumes "NUL \<notin> set s" and "NUL \<notin> set s'"
  shows "s @ NUL # k = s' @ NUL # k' \<longleftrightarrow> s = s' \<and> k = k'"
  using assms by (induction s arbitrary: s') (case_tac s'; auto)+

lemma scope_prefix:
  "NUL \<notin> set s \<Longrightarrow> NUL \<notin> set s' \<Longrightarrow> starts_with (s @ [NUL]) (full_key s' k) \<longleftrightarrow> s = s'"
  using append_NUL_eq [of s' s k] by (auto simp: starts_with_iff full_key_def)

text \<open>Scopes are isolated: for scopes without a NUL byte, purging one scope, revalidating a tag in
  it or deleting a key of it leaves every entry of every other scope as it is; the purge leaves
  nothing of its own scope, and the revalidation nothing of its scope that carries the tag.\<close>

theorem rc_scopes_isolated:
  assumes "0 < n" and "NUL \<notin> set s" and "NUL \<notin> set s'" and "s \<noteq> s'"
    and c: "c = rc_run n ops"
  shows "tget (rc_map (snd (purge_scope s c))) (full_key s' k) = tget (rc_map c) (full_key s' k)
    \<and> tget (rc_map (snd (revalidate_tag s tag c))) (full_key s' k) = tget (rc_map c) (full_key s' k)
    \<and> tget (rc_map (snd (rc_delete s k' c))) (full_key s' k) = tget (rc_map c) (full_key s' k)
    \<and> tget (rc_map (snd (purge_scope s c))) (full_key s k) = None
    \<and> (\<forall>e. tget (rc_map (snd (revalidate_tag s tag c))) (full_key s k) = Some e \<longrightarrow> tag \<notin> set (re_tags e))"
proof -
  have d: "distinct (tkeys (rc_map c))"
    using rc_run_inv [OF assms(1), of ops] by (simp add: c rc_inv_def recency_ok_def)
  have own: "starts_with (s @ [NUL]) (full_key s k)" using scope_prefix assms(2) by blast
  have other: "\<not> starts_with (s @ [NUL]) (full_key s' k)" using scope_prefix assms(2-4) by blast
  have ne: "full_key s k' \<noteq> full_key s' k"
    using append_NUL_eq [OF assms(2,3)] assms(4) by (simp add: full_key_def)
  show ?thesis
    using own other ne
    by (auto simp: purge_scope_def revalidate_tag_def rc_delete_def Let_def tget_tretain [OF d]
        simp del: map_of_eq_Some_iff split: option.splits if_splits)
qed

theorem rc_scopes_isolated_witness:
  "tget (rc_map (snd (purge_scope ''app:prod'' (rc_run 4 [R_Set 1 ''app:prod'' ''k'' ''1'' 0 [], R_Set 2 ''app:preview'' ''k'' ''2'' 0 []]))))
      (full_key ''app:preview'' ''k'') =
    tget (rc_map (rc_run 4 [R_Set 1 ''app:prod'' ''k'' ''1'' 0 [], R_Set 2 ''app:preview'' ''k'' ''2'' 0 []]))
      (full_key ''app:preview'' ''k'')"
proof -
  have "NUL \<notin> set ''app:prod''" "NUL \<notin> set ''app:preview''" "''app:prod'' \<noteq> ''app:preview''"
    by code_simp+
  from rc_scopes_isolated [OF _ this refl, of 4] show ?thesis by simp
qed

text \<open>A value that was set is returned until its time to live has passed, and for ever when that
  is zero, as long as the expiry time fits into 64 bits; limits on the size of the value, the number
  of tags and their length are enforced.\<close>

theorem rc_get_after_set:
  assumes "rc_set t0 scope key v ttl tags c = (Set_Ok, c')" and "t0 + ttl * 1000 < 2 ^ 64"
  shows "fst (rc_get now scope key c') = (if ttl = 0 \<or> now < t0 + ttl * 1000 then Some v else None) \<and>
    length v \<le> 2 * 1024 * 1024 \<and> length tags \<le> 64 \<and> list_all (\<lambda>t. length t \<le> 256) tags"
proof -
  have l: "length v \<le> 2 * 1024 * 1024" "length tags \<le> 64" "find (\<lambda>t. length t > MAX_TAG_LEN) tags = None"
    and c': "tget (rc_map c') (full_key scope key) =
      Some \<lparr>re_value = v, re_expires_ms = (if ttl = 0 then 0 else wadd64 t0 (wmul64 ttl 1000)), re_tags = tags,
        re_recency = rc_tick c\<rparr>"
    using assms(1)
    by (auto simp: rc_set_def Let_def long_tag_result_def MAX_ITEM_BYTES_def MAX_TAGS_PER_ITEM_def
        simp del: map_of_eq_Some_iff split: if_splits option.splits)
  have "list_all (\<lambda>t. length t \<le> 256) tags"
    using l(3) by (auto simp: find_None_iff list_all_iff MAX_TAG_LEN_def)
  moreover have "wadd64 t0 (wmul64 ttl 1000) = t0 + ttl * 1000" using assms(2) by (simp add: wrap_simps)
  ultimately show ?thesis using l c' by (simp add: rc_get_def Let_def)
qed

theorem rc_get_after_set_witness:
  "\<exists>c'. rc_set 1000 ''p'' ''k'' ''v'' 60 [''t''] rc_new = (Set_Ok, c') \<and>
    fst (rc_get 60999 ''p'' ''k'' c') = Some ''v'' \<and> fst (rc_get 61000 ''p'' ''k'' c') = None"
proof -
  have "fst (rc_set 1000 ''p'' ''k'' ''v'' 60 [''t''] rc_new) = Set_Ok" by code_simp
  then obtain c' where st: "rc_set 1000 ''p'' ''k'' ''v'' 60 [''t''] rc_new = (Set_Ok, c')"
    by (cases "rc_set 1000 ''p'' ''k'' ''v'' 60 [''t''] rc_new") auto
  from rc_get_after_set [OF st, of 60999] rc_get_after_set [OF st, of 61000] st show ?thesis by simp
qed

text \<open>Storing a value with an overlong tag panics instead of returning the error when byte 32 of
  the tag is inside a multi-byte character, because the error message slices the tag there.\<close>

theorem rc_long_tag_panics:
  "fst (rc_set 0 ''p'' ''k'' ''v'' 0 [replicate 31 CHR ''a'' @ [CHR 0xC3, CHR 0xA9] @ replicate 300 CHR ''a''] rc_new) = Set_Panic
    \<and> fst (rc_set 0 ''p'' ''k'' ''v'' 0 [replicate 333 CHR ''a''] rc_new) \<noteq> Set_Panic"
  by code_simp

end
