(* ===== verification/Edge_Jobs.thy ===== *)
theory Edge_Jobs
  imports Byte_Strings
begin

text \<open>
  Scheduled and multi-step work at the edge: the cron scheduler
  (\<open>crates/hive-edge/src/cron.rs\<close>) and the workflow engine
  (\<open>crates/hive-edge/src/workflows.rs\<close>). Parsing a cron expression and finding its next time is
  the \<open>cron\<close> crate's, an argument here; so are the clock, fresh run identifiers and the outcomes
  of the invoked functions.
\<close>

section \<open>Cron\<close>

record cron_job =
  cj_id :: string
  cj_name :: string
  cj_schedule :: string
  cj_deployment :: string
  cj_path :: string
  cj_enabled :: bool
  cj_last_run_ms :: "nat option"
  cj_next_run_ms :: "nat option"
  cj_runs :: nat
  cj_source :: string
  cj_tenant :: string

text \<open>\<open>nxt expr after\<close>: the next time of a six-field expression strictly after a time, \<open>None\<close> when
  the expression does not parse or has no further time.\<close>

type_synonym cron_oracle = "string \<Rightarrow> nat \<Rightarrow> nat option"

definition normalize :: "string \<Rightarrow> string" where
  "normalize expr = (if length (split_whitespace expr) = 5 then ''0 '' @ expr else expr)"

definition next_after :: "cron_oracle \<Rightarrow> string \<Rightarrow> nat \<Rightarrow> nat option" where
  "next_after nxt expr after_ms = nxt (normalize expr) after_ms"

definition cron_add :: "cron_oracle \<Rightarrow> nat \<Rightarrow> cron_job \<Rightarrow> cron_job list \<Rightarrow> (string + cron_job) \<times> cron_job list" where
  "cron_add nxt now job js =
     (case next_after nxt (cj_schedule job) now of
        None \<Rightarrow> (Inl (''invalid cron expression: '' @ cj_schedule job), js)
      | Some n \<Rightarrow> (let job' = job\<lparr>cj_next_run_ms := Some n\<rparr> in (Inr job', js @ [job'])))"

definition cron_remove :: "string \<Rightarrow> cron_job list \<Rightarrow> cron_job list" where
  "cron_remove i js = filter (\<lambda>j. cj_id j \<noteq> i) js"

definition schedulable :: "cron_oracle \<Rightarrow> nat \<Rightarrow> cron_job list \<Rightarrow> cron_job list" where
  "schedulable nxt now js =
     concat (map (\<lambda>j. case next_after nxt (cj_schedule j) now of
                        None \<Rightarrow> [] | Some n \<Rightarrow> [j\<lparr>cj_next_run_ms := Some n\<rparr>]) js)"

definition set_source_jobs ::
  "cron_oracle \<Rightarrow> nat \<Rightarrow> string \<Rightarrow> string \<Rightarrow> cron_job list \<Rightarrow> cron_job list \<Rightarrow> nat \<times> cron_job list" where
  "set_source_jobs nxt now deployment source new js =
     (let kept = filter (\<lambda>j. \<not> (cj_deployment j = deployment \<and> cj_source j = source)) js;
          added = schedulable nxt now new
      in (length added, kept @ added))"

fun dedup_ids :: "string set \<Rightarrow> cron_job list \<Rightarrow> cron_job list" where
  "dedup_ids seen [] = []"
| "dedup_ids seen (j # js) =
     (if cj_id j \<in> seen then dedup_ids seen js else j # dedup_ids (insert (cj_id j) seen) js)"

definition replace_all :: "cron_job list \<Rightarrow> cron_job list \<Rightarrow> cron_job list" where
  "replace_all new js = dedup_ids {} new"

definition recompute_all :: "cron_oracle \<Rightarrow> nat \<Rightarrow> cron_job list \<Rightarrow> cron_job list" where
  "recompute_all nxt now js = map (\<lambda>j. j\<lparr>cj_next_run_ms := next_after nxt (cj_schedule j) now\<rparr>) js"

definition cron_get :: "string \<Rightarrow> cron_job list \<Rightarrow> cron_job option" where
  "cron_get i js = find (\<lambda>j. cj_id j = i) js"

definition manual_run :: "nat \<Rightarrow> cron_job \<Rightarrow> cron_job" where
  "manual_run now j = j\<lparr>cj_last_run_ms := Some now, cj_runs := cj_runs j + 1\<rparr>"

definition record_manual_run :: "string \<Rightarrow> nat \<Rightarrow> cron_job list \<Rightarrow> cron_job option \<times> cron_job list" where
  "record_manual_run i now js =
     (map_option (manual_run now) (find (\<lambda>j. cj_id j = i) js),
      upd_first (\<lambda>j. cj_id j = i) (manual_run now) js)"

definition fire :: "cron_oracle \<Rightarrow> nat \<Rightarrow> cron_job \<Rightarrow> cron_job" where
  "fire nxt now j = j\<lparr>cj_last_run_ms := Some now, cj_runs := cj_runs j + 1,
     cj_next_run_ms := next_after nxt (cj_schedule j) now\<rparr>"

text \<open>The loop of \<open>tick\<close>: the due jobs, and all jobs afterwards.\<close>

fun cron_tick :: "cron_oracle \<Rightarrow> nat \<Rightarrow> cron_job list \<Rightarrow> cron_job list \<times> cron_job list" where
  "cron_tick nxt now [] = ([], [])"
| "cron_tick nxt now (j # js) =
     (let (due, js') = cron_tick nxt now js
      in if \<not> cj_enabled j then (due, j # js')
         else (case cj_next_run_ms j of
                 None \<Rightarrow> (due, j\<lparr>cj_next_run_ms := next_after nxt (cj_schedule j) now\<rparr> # js')
               | Some n \<Rightarrow> if now \<ge> n then (fire nxt now j # due, fire nxt now j # js')
                           else (due, j # js')))"

section \<open>Workflows\<close>

record workflow_step =
  ws_name :: string
  ws_deployment :: string
  ws_path :: string

record workflow_def =
  wd_id :: string
  wd_name :: string
  wd_project :: string
  wd_steps :: "workflow_step list"

datatype run_status = RS_Pending | RS_Running | RS_Succeeded | RS_Failed | RS_Cancelled

record step_run =
  sr_name :: string
  sr_status :: run_status
  sr_output :: string
  sr_started_ms :: nat
  sr_finished_ms :: "nat option"

record workflow_run =
  wf_id :: string
  wf_def_id :: string
  wf_name :: string
  wf_project :: string
  wf_status :: run_status
  wf_steps :: "step_run list"
  wf_started_ms :: nat
  wf_finished_ms :: "nat option"

record workflow_engine =
  we_defs :: "(string, workflow_def) table"
  we_runs :: "(string, workflow_run) table"

definition engine_new :: workflow_engine where
  "engine_new = \<lparr>we_defs = [], we_runs = []\<rparr>"

definition define_workflow :: "workflow_def \<Rightarrow> workflow_engine \<Rightarrow> workflow_engine" where
  "define_workflow d e = e\<lparr>we_defs := tput (wd_id d) d (we_defs e)\<rparr>"

definition workflow_runs :: "workflow_engine \<Rightarrow> workflow_run list" where
  "workflow_runs e = rev (sort_key wf_started_ms (rev (map snd (we_runs e))))"

definition get_run :: "string \<Rightarrow> workflow_engine \<Rightarrow> workflow_run option" where
  "get_run i e = tget (we_runs e) i"

definition in_flight :: "run_status \<Rightarrow> bool" where
  "in_flight s = (s = RS_Pending \<or> s = RS_Running)"

definition get_or_insert :: "nat \<Rightarrow> nat option \<Rightarrow> nat option" where
  "get_or_insert now t = (case t of None \<Rightarrow> Some now | Some _ \<Rightarrow> t)"

definition fail_step :: "nat \<Rightarrow> step_run \<Rightarrow> step_run" where
  "fail_step now sr =
     (if in_flight (sr_status sr)
      then sr\<lparr>sr_status := RS_Failed, sr_finished_ms := get_or_insert now (sr_finished_ms sr)\<rparr> else sr)"

definition reconcile_run :: "nat \<Rightarrow> workflow_run \<Rightarrow> workflow_run" where
  "reconcile_run now r =
     (if in_flight (wf_status r)
      then r\<lparr>wf_status := RS_Failed, wf_finished_ms := get_or_insert now (wf_finished_ms r),
             wf_steps := map (fail_step now) (wf_steps r)\<rparr>
      else r)"

definition runs_load :: "nat \<Rightarrow> workflow_run list \<Rightarrow> workflow_engine \<Rightarrow> workflow_engine" where
  "runs_load now rs e = e\<lparr>we_runs := fold (\<lambda>r. tput (wf_id r) (reconcile_run now r)) rs (we_runs e)\<rparr>"

text \<open>\<open>out.chars().take(n)\<close> on UTF-8 bytes: a continuation byte belongs to the character before it.\<close>

fun take_chars :: "nat \<Rightarrow> string \<Rightarrow> string" where
  "take_chars n [] = []"
| "take_chars n (c # s) =
     (if 128 \<le> (of_char c :: nat) \<and> (of_char c :: nat) < 192 then c # take_chars n s
      else (case n of 0 \<Rightarrow> [] | Suc m \<Rightarrow> c # take_chars m s))"

text \<open>The background task of a run: before a step, waiting for it, and after a failed one.\<close>

datatype wf_task =
    Wf_Next string "workflow_step list"
  | Wf_Await string "workflow_step list"
  | Wf_Broken string

definition start_run :: "nat \<Rightarrow> string \<Rightarrow> string \<Rightarrow> workflow_engine \<Rightarrow> string + (workflow_engine \<times> wf_task)" where
  "start_run now run_id def_id e =
     (case tget (we_defs e) def_id of
        None \<Rightarrow> Inl (''no such workflow '' @ [CHR 0x27] @ def_id @ [CHR 0x27])
      | Some d \<Rightarrow>
          Inr (e\<lparr>we_runs := tput run_id
                 \<lparr>wf_id = run_id, wf_def_id = wd_id d, wf_name = wd_name d, wf_project = wd_project d,
                  wf_status = RS_Running, wf_steps = [], wf_started_ms = now, wf_finished_ms = None\<rparr>
                 (we_runs e)\<rparr>,
               Wf_Next run_id (wd_steps d)))"

definition push_step :: "nat \<Rightarrow> workflow_step \<Rightarrow> workflow_run \<Rightarrow> workflow_run" where
  "push_step now st r = r\<lparr>wf_steps := wf_steps r @
     [\<lparr>sr_name = ws_name st, sr_status = RS_Running, sr_output = [], sr_started_ms = now, sr_finished_ms = None\<rparr>]\<rparr>"

definition finish_step :: "nat \<Rightarrow> string + string \<Rightarrow> step_run \<Rightarrow> step_run" where
  "finish_step now res sr =
     (case res of
        Inr out \<Rightarrow> sr\<lparr>sr_finished_ms := Some now, sr_status := RS_Succeeded, sr_output := take_chars 2000 out\<rparr>
      | Inl err \<Rightarrow> sr\<lparr>sr_finished_ms := Some now, sr_status := RS_Failed, sr_output := err\<rparr>)"

definition finish_last :: "nat \<Rightarrow> string + string \<Rightarrow> workflow_run \<Rightarrow> workflow_run" where
  "finish_last now res r =
     (case wf_steps r of
        [] \<Rightarrow> r
      | _ # _ \<Rightarrow> r\<lparr>wf_steps := butlast (wf_steps r) @ [finish_step now res (last (wf_steps r))]\<rparr>)"

definition finish_run :: "nat \<Rightarrow> bool \<Rightarrow> workflow_run \<Rightarrow> workflow_run" where
  "finish_run now all_ok r =
     r\<lparr>wf_status := (if all_ok then RS_Succeeded else RS_Failed), wf_finished_ms := Some now\<rparr>"

definition mod_run :: "string \<Rightarrow> (workflow_run \<Rightarrow> workflow_run) \<Rightarrow> workflow_engine \<Rightarrow> workflow_engine" where
  "mod_run rid f e = e\<lparr>we_runs := tmod rid f (we_runs e)\<rparr>"

text \<open>The next critical section of a run's task; the result is only read by a waiting task.\<close>

fun wf_task_step :: "nat \<Rightarrow> string + string \<Rightarrow> wf_task \<Rightarrow> workflow_engine \<Rightarrow> workflow_engine \<times> wf_task option" where
  "wf_task_step now res (Wf_Next rid []) e = (mod_run rid (finish_run now True) e, None)"
| "wf_task_step now res (Wf_Next rid (st # rest)) e = (mod_run rid (push_step now st) e, Some (Wf_Await rid rest))"
| "wf_task_step now res (Wf_Await rid rest) e =
     (mod_run rid (finish_last now res) e,
      Some (case res of Inr _ \<Rightarrow> Wf_Next rid rest | Inl _ \<Rightarrow> Wf_Broken rid))"
| "wf_task_step now res (Wf_Broken rid) e = (mod_run rid (finish_run now False) e, None)"

end
