(* ===== verification/Edge_Jobs_Props.thy ===== *)
theory Edge_Jobs_Props
  imports Edge_Jobs
begin

text \<open>
  What the cron scheduler and the workflow engine promise: a job fires exactly when it is due and
  once per due time, a restored job set has no duplicates, and the record of a workflow run
  follows the order of its definition and tells honestly how it ended.
\<close>

section \<open>Cron\<close>

definition due_at :: "nat \<Rightarrow> cron_job \<Rightarrow> bool" where
  "due_at now j \<longleftrightarrow> cj_enabled j \<and> (case cj_next_run_ms j of None \<Rightarrow> False | Some n \<Rightarrow> n \<le> now)"

definition after_tick :: "cron_oracle \<Rightarrow> nat \<Rightarrow> cron_job \<Rightarrow> cron_job" where
  "after_tick nxt now j =
     (if due_at now j then fire nxt now j
      else if cj_enabled j \<and> cj_next_run_ms j = None
      then j\<lparr>cj_next_run_ms := next_after nxt (cj_schedule j) now\<rparr> else j)"

lemma cron_tick_maps:
  "cron_tick nxt now js = (map (fire nxt now) (filter (due_at now) js), map (after_tick nxt now) js)"
  by (induction js) (auto simp: due_at_def after_tick_def split: option.split)

text \<open>A tick fires exactly the enabled jobs whose time has come, each once and in order, whatever
  number of times was missed; and when the next time of an expression is always later than the
  time asked for, no job fires a second time until the clock reaches its next time.\<close>

theorem cron_fires_once:
  assumes "\<forall>expr t n. nxt expr t = Some n \<longrightarrow> t < n"
  shows "fst (cron_tick nxt now js) = map (fire nxt now) (filter (due_at now) js) \<and>
    fst (cron_tick nxt now (snd (cron_tick nxt now js))) = [] \<and>
    (\<forall>j \<in> set (fst (cron_tick nxt now js)). \<forall>n. cj_next_run_ms j = Some n \<longrightarrow> now < n)"
proof -
  have later: "now < n" if "next_after nxt e now = Some n" for e n
    using assms that unfolding next_after_def by blast
  have "\<not> due_at now (after_tick nxt now j)" for j
    using later by (auto simp: after_tick_def due_at_def fire_def not_le split: option.splits)
  then have "filter (due_at now) (map (after_tick nxt now) js) = []" by (simp add: filter_empty_conv)
  moreover have "now < n" if "j \<in> set (map (fire nxt now) (filter (due_at now) js))" "cj_next_run_ms j = Some n" for j n
    using that later by (auto simp: fire_def)
  ultimately show ?thesis by (simp add: cron_tick_maps)
qed

definition minute_job :: "string \<Rightarrow> nat \<Rightarrow> cron_job" where
  "minute_job i n = \<lparr>cj_id = i, cj_name = i, cj_schedule = ''* * * * *'', cj_deployment = ''dpl'', cj_path = ''/api'',
     cj_enabled = True, cj_last_run_ms = None, cj_next_run_ms = Some n, cj_runs = 0, cj_source = ''vercel.json'',
     cj_tenant = []\<rparr>"

definition every_minute :: cron_oracle where
  "every_minute expr t = Some ((t div 60000 + 1) * 60000)"

lemma every_minute_later: "\<forall>expr t n. every_minute expr t = Some n \<longrightarrow> t < n"
proof -
  have "t < (t div 60000 + 1) * 60000" for t :: nat
    by (simp add: mult.commute dividend_less_times_div [of 60000 t, simplified add.commute])
  then show ?thesis by (simp add: every_minute_def)
qed

theorem cron_fires_once_witness:
  "map cj_id (fst (cron_tick every_minute 300000 [minute_job ''a'' 60000, minute_job ''b'' 360000])) = [''a''] \<and>
    fst (cron_tick every_minute 300000 (snd (cron_tick every_minute 300000 [minute_job ''a'' 60000, minute_job ''b'' 360000]))) = []"
proof -
  have "map cj_id (fst (cron_tick every_minute 300000 [minute_job ''a'' 60000, minute_job ''b'' 360000])) = [''a'']"
    by code_simp
  with cron_fires_once [OF every_minute_later] show ?thesis by blast
qed

lemma dedup_ids_seen: "j \<in> set (dedup_ids seen js) \<Longrightarrow> cj_id j \<notin> seen \<and> j \<in> set js"
  by (induction seen js rule: dedup_ids.induct) (auto split: if_splits)

lemma dedup_ids_distinct: "distinct (map cj_id (dedup_ids seen js))"
proof (induction seen js rule: dedup_ids.induct)
  case (2 seen j js)
  then show ?case by (auto dest: dedup_ids_seen)
qed simp

lemma dedup_ids_all_seen: "cj_id ` set js \<subseteq> seen \<Longrightarrow> dedup_ids seen js = []"
  by (induction seen js rule: dedup_ids.induct) auto

lemma dedup_ids_append:
  "dedup_ids seen (xs @ ys) = dedup_ids seen xs @ dedup_ids (seen \<union> cj_id ` set xs) ys"
  by (induction seen xs rule: dedup_ids.induct) (auto simp: insert_absorb)

lemma dedup_ids_ids: "set (map cj_id (dedup_ids seen js)) = cj_id ` set js - seen"
  by (induction seen js rule: dedup_ids.induct) auto

lemma dedup_ids_id: "distinct (map cj_id js) \<Longrightarrow> cj_id ` set js \<inter> seen = {} \<Longrightarrow> dedup_ids seen js = js"
  by (induction seen js rule: dedup_ids.induct) auto

text \<open>Restoring the jobs from a snapshot removes duplicates: every identifier of the snapshot is
  kept exactly once, a snapshot that carries everything twice restores to the same set, and
  restoring a clean set is the identity, so restarts do not multiply jobs.\<close>

theorem cron_restore_dedups:
  "distinct (map cj_id (replace_all new js)) \<and>
    set (map cj_id (replace_all new js)) = set (map cj_id new) \<and>
    set (replace_all new js) \<subseteq> set new \<and>
    replace_all (new @ new) js = replace_all new js \<and>
    replace_all (replace_all new js) js' = replace_all new js"
proof -
  have "set (dedup_ids {} new) \<subseteq> set new" using dedup_ids_seen by blast
  then show ?thesis
    unfolding replace_all_def dedup_ids_append
    by (simp add: dedup_ids_distinct dedup_ids_all_seen dedup_ids_id dedup_ids_ids [unfolded list.set_map]
        del: list.set_map add: list.set_map)
qed

text \<open>Registering the jobs of a deployment leaves the jobs of every other deployment or source
  untouched and in order, replaces its own ones by exactly those whose expression is valid, and
  doing it again with the same jobs at the same time changes nothing.\<close>

theorem cron_source_replaced:
  assumes "\<forall>j \<in> set new. cj_deployment j = dep \<and> cj_source j = src"
  shows "filter (\<lambda>j. \<not> (cj_deployment j = dep \<and> cj_source j = src)) (snd (set_source_jobs nxt now dep src new js)) =
      filter (\<lambda>j. \<not> (cj_deployment j = dep \<and> cj_source j = src)) js \<and>
    map cj_id (filter (\<lambda>j. cj_deployment j = dep \<and> cj_source j = src) (snd (set_source_jobs nxt now dep src new js))) =
      map cj_id (filter (\<lambda>j. next_after nxt (cj_schedule j) now \<noteq> None) new) \<and>
    snd (set_source_jobs nxt now dep src new (snd (set_source_jobs nxt now dep src new js))) =
      snd (set_source_jobs nxt now dep src new js)"
proof -
  let ?own = "\<lambda>j. cj_deployment j = dep \<and> cj_source j = src"
  let ?added = "schedulable nxt now new"
  have own: "\<forall>j \<in> set ?added. ?own j"
    using assms by (auto simp: schedulable_def split: option.splits)
  have ids: "map cj_id ?added = map cj_id (filter (\<lambda>j. next_after nxt (cj_schedule j) now \<noteq> None) new)"
    by (induction new) (auto simp: schedulable_def split: option.split)
  have "filter ?own ?added = ?added" and "filter (\<lambda>j. \<not> ?own j) ?added = []"
    using own unfolding filter_id_conv filter_empty_conv by blast+
  moreover have "filter ?own (filter (\<lambda>j. \<not> ?own j) js) = []" by (auto simp: filter_empty_conv)
  moreover have "filter (\<lambda>j. \<not> ?own j) (filter (\<lambda>j. \<not> ?own j) js) = filter (\<lambda>j. \<not> ?own j) js"
    by (simp only: filter_filter conj_absorb)
  ultimately show ?thesis
    unfolding set_source_jobs_def Let_def snd_conv filter_append ids [symmetric]
    by (simp only: append_Nil append_Nil2 simp_thms)
qed

theorem cron_source_replaced_witness:
  "map cj_id (snd (set_source_jobs every_minute 0 ''dpl'' ''vercel.json'' [minute_job ''n'' 0]
      [minute_job ''old'' 5, (minute_job ''m'' 5)\<lparr>cj_source := ''manual''\<rparr>])) = [''m'', ''n''] \<and>
    filter (\<lambda>j. \<not> (cj_deployment j = ''dpl'' \<and> cj_source j = ''vercel.json''))
      (snd (set_source_jobs every_minute 0 ''dpl'' ''vercel.json'' [minute_job ''n'' 0] [minute_job ''old'' 5])) =
    filter (\<lambda>j. \<not> (cj_deployment j = ''dpl'' \<and> cj_source j = ''vercel.json'')) [minute_job ''old'' 5]"
proof -
  have "\<forall>j \<in> set [minute_job ''n'' 0]. cj_deployment j = ''dpl'' \<and> cj_source j = ''vercel.json''" by code_simp
  note cron_source_replaced [OF this, of every_minute 0 "[minute_job ''old'' 5]"]
  moreover have "map cj_id (snd (set_source_jobs every_minute 0 ''dpl'' ''vercel.json'' [minute_job ''n'' 0]
      [minute_job ''old'' 5, (minute_job ''m'' 5)\<lparr>cj_source := ''manual''\<rparr>])) = [''m'', ''n'']" by code_simp
  ultimately show ?thesis by blast
qed

section \<open>Workflows\<close>

text \<open>The engine with its background tasks. \<open>ww_plan\<close> is a history variable: the steps each run
  was started with, which the code keeps in the closure of the run's task.\<close>

record workflow_world =
  ww_engine :: workflow_engine
  ww_tasks :: "wf_task list"
  ww_plan :: "string \<Rightarrow> workflow_step list"

fun task_run :: "wf_task \<Rightarrow> string" where
  "task_run (Wf_Next rid rest) = rid"
| "task_run (Wf_Await rid rest) = rid"
| "task_run (Wf_Broken rid) = rid"

inductive wf_step :: "workflow_world \<Rightarrow> workflow_world \<Rightarrow> bool" where
  wf_define: "wf_step w (w\<lparr>ww_engine := define_workflow d (ww_engine w)\<rparr>)"
| wf_start: "tget (we_runs (ww_engine w)) rid = None \<Longrightarrow> start_run now rid did (ww_engine w) = Inr (e, Wf_Next rid plan) \<Longrightarrow>
    wf_step w (w\<lparr>ww_engine := e, ww_tasks := ww_tasks w @ [Wf_Next rid plan], ww_plan := (ww_plan w)(rid := plan)\<rparr>)"
| wf_task: "ww_tasks w = ts1 @ t # ts2 \<Longrightarrow> wf_task_step now res t (ww_engine w) = (e, t') \<Longrightarrow>
    wf_step w (w\<lparr>ww_engine := e, ww_tasks := ts1 @ (case t' of None \<Rightarrow> [] | Some u \<Rightarrow> [u]) @ ts2\<rparr>)"

inductive wf_reachable :: "workflow_world \<Rightarrow> bool" where
  wf_init: "wf_reachable \<lparr>ww_engine = engine_new, ww_tasks = [], ww_plan = (\<lambda>_. [])\<rparr>"
| wf_more: "wf_reachable w \<Longrightarrow> wf_step w w' \<Longrightarrow> wf_reachable w'"

text \<open>The steps \<open>done\<close> of a plan were executed in order, the last one with status \<open>st\<close>.\<close>

definition all_succeeded :: "workflow_step list \<Rightarrow> step_run list \<Rightarrow> bool" where
  "all_succeeded ss rs \<longleftrightarrow> map sr_name rs = map ws_name ss \<and> (\<forall>r \<in> set rs. sr_status r = RS_Succeeded)"

definition stopped_at :: "workflow_step list \<Rightarrow> run_status \<Rightarrow> step_run list \<Rightarrow> bool" where
  "stopped_at plan status rs \<longleftrightarrow>
     (\<exists>ss s rest us u. plan = ss @ s # rest \<and> rs = us @ [u] \<and> all_succeeded ss us \<and>
        sr_name u = ws_name s \<and> sr_status u = status)"

fun task_ok :: "workflow_step list \<Rightarrow> step_run list \<Rightarrow> wf_task \<Rightarrow> bool" where
  "task_ok plan rs (Wf_Next rid rest) = (\<exists>ss. plan = ss @ rest \<and> all_succeeded ss rs)"
| "task_ok plan rs (Wf_Await rid rest) =
     (\<exists>ss s us u. plan = ss @ s # rest \<and> rs = us @ [u] \<and> all_succeeded ss us \<and>
        sr_name u = ws_name s \<and> sr_status u = RS_Running)"
| "task_ok plan rs (Wf_Broken rid) = stopped_at plan RS_Failed rs"

definition run_ok :: "wf_task list \<Rightarrow> workflow_step list \<Rightarrow> string \<Rightarrow> workflow_run \<Rightarrow> bool" where
  "run_ok ts plan rid r \<longleftrightarrow>
     (if rid \<in> task_run ` set ts
      then wf_status r = RS_Running \<and> wf_finished_ms r = None \<and>
           (\<forall>t \<in> set ts. task_run t = rid \<longrightarrow> task_ok plan (wf_steps r) t)
      else wf_finished_ms r \<noteq> None \<and>
           (wf_status r = RS_Succeeded \<and> all_succeeded plan (wf_steps r) \<or>
            wf_status r = RS_Failed \<and> stopped_at plan RS_Failed (wf_steps r)))"

definition wf_inv :: "workflow_world \<Rightarrow> bool" where
  "wf_inv w \<longleftrightarrow> distinct (map task_run (ww_tasks w)) \<and>
     (\<forall>t \<in> set (ww_tasks w). tget (we_runs (ww_engine w)) (task_run t) \<noteq> None) \<and>
     (\<forall>rid r. tget (we_runs (ww_engine w)) rid = Some r \<longrightarrow> run_ok (ww_tasks w) (ww_plan w rid) rid r)"

lemma all_succeeded_snoc:
  "all_succeeded ss us \<Longrightarrow> sr_name u = ws_name s \<Longrightarrow> sr_status u = RS_Succeeded \<Longrightarrow> all_succeeded (ss @ [s]) (us @ [u])"
  by (auto simp: all_succeeded_def)

lemma finish_last_steps:
  "wf_steps r = us @ [u] \<Longrightarrow> wf_steps (finish_last now res r) = us @ [finish_step now res u]"
  by (cases us) (simp_all add: finish_last_def)

lemma finish_last_keeps [simp]:
  "wf_status (finish_last now res r) = wf_status r" "wf_finished_ms (finish_last now res r) = wf_finished_ms r"
  by (simp_all add: finish_last_def split: list.split)

lemma finish_step_fields [simp]:
  "sr_name (finish_step now res u) = sr_name u"
  "sr_status (finish_step now (Inr out) u) = RS_Succeeded"
  "sr_status (finish_step now (Inl err) u) = RS_Failed"
  by (simp_all add: finish_step_def split: sum.split)

definition continued :: "workflow_step list \<Rightarrow> wf_task option \<Rightarrow> workflow_run \<Rightarrow> bool" where
  "continued plan t' r \<longleftrightarrow>
     (case t' of
        Some u \<Rightarrow> wf_status r = RS_Running \<and> wf_finished_ms r = None \<and> task_ok plan (wf_steps r) u
      | None \<Rightarrow> wf_finished_ms r \<noteq> None \<and>
          (wf_status r = RS_Succeeded \<and> all_succeeded plan (wf_steps r) \<or>
           wf_status r = RS_Failed \<and> stopped_at plan RS_Failed (wf_steps r)))"

lemma task_step_runs:
  assumes "wf_task_step now res t e = (e', t')"
  obtains f where "we_runs e' = tmod (task_run t) f (we_runs e)"
    and "\<forall>u. t' = Some u \<longrightarrow> task_run u = task_run t"
    and "\<forall>plan r. task_ok plan (wf_steps r) t \<and> wf_status r = RS_Running \<and> wf_finished_ms r = None \<longrightarrow>
      continued plan t' (f r)"
proof (cases t)
  case (Wf_Next rid rest)
  show thesis
  proof (cases rest)
    case Nil
    then show thesis
      using assms Wf_Next by (intro that [of "finish_run now True"]) (auto simp: continued_def mod_run_def finish_run_def)
  next
    case (Cons st rest')
    then show thesis
      using assms Wf_Next
      by (intro that [of "push_step now st"]) (fastforce simp: continued_def mod_run_def push_step_def)+
  qed
next
  case (Wf_Await rid rest)
  show thesis
  proof (cases res)
    case (Inr out)
    have e': "we_runs e' = tmod rid (finish_last now (Inr out)) (we_runs e)" and t': "t' = Some (Wf_Next rid rest)"
      using assms by (auto simp: Wf_Await Inr mod_run_def)
    have "continued plan t' (finish_last now (Inr out) r)"
      if ok: "task_ok plan (wf_steps r) t" "wf_status r = RS_Running" "wf_finished_ms r = None" for plan r
    proof -
      obtain ss s us u where "plan = ss @ s # rest" and p2: "wf_steps r = us @ [u]" "all_succeeded ss us" "sr_name u = ws_name s"
        using ok(1) by (auto simp: Wf_Await)
      then have p: "plan = (ss @ [s]) @ rest" by simp
      have "all_succeeded (ss @ [s]) (us @ [finish_step now (Inr out) u])"
        using p2 by (intro all_succeeded_snoc) simp_all
      then have "task_ok plan (wf_steps (finish_last now (Inr out) r)) (Wf_Next rid rest)"
        using p finish_last_steps [OF p2(1)] by (simp only: task_ok.simps) blast
      then show ?thesis using ok by (simp add: continued_def t')
    qed
    with e' t' show thesis by (intro that [of "finish_last now (Inr out)"]) (simp_all add: Wf_Await)
  next
    case (Inl err)
    have stop: "stopped_at plan RS_Failed (us @ [finish_step now (Inl err) u])"
      if "plan = ss @ s # rest" "all_succeeded ss us" "sr_name u = ws_name s" for plan ss s us u
      unfolding stopped_at_def
      by (intro exI [of _ ss] exI [of _ s] exI [of _ rest] exI [of _ us] exI [of _ "finish_step now (Inl err) u"])
        (simp add: that)
    have e': "we_runs e' = tmod rid (finish_last now (Inl err)) (we_runs e)" and t': "t' = Some (Wf_Broken rid)"
      using assms by (auto simp: Wf_Await Inl mod_run_def)
    have "continued plan t' (finish_last now (Inl err) r)"
      if ok: "task_ok plan (wf_steps r) t" "wf_status r = RS_Running" "wf_finished_ms r = None" for plan r
    proof -
      obtain ss s us u where "plan = ss @ s # rest" "wf_steps r = us @ [u]" "all_succeeded ss us" "sr_name u = ws_name s"
        using ok(1) by (auto simp: Wf_Await)
      then have st: "stopped_at plan RS_Failed (wf_steps (finish_last now (Inl err) r))"
        using stop by (simp add: finish_last_steps)
      then show ?thesis using ok by (simp add: continued_def t')
    qed
    with e' t' show thesis by (intro that [of "finish_last now (Inl err)"]) (simp_all add: Wf_Await)
  qed
next
  case (Wf_Broken rid)
  then show thesis
    using assms by (intro that [of "finish_run now False"]) (auto simp: continued_def mod_run_def finish_run_def)
qed

lemma run_ok_other:
  assumes "rid \<notin> task_run ` set us" and "rid \<notin> task_run ` set us'"
  shows "run_ok (ts1 @ us @ ts2) plan rid r = run_ok (ts1 @ us' @ ts2) plan rid r"
proof -
  have "rid \<in> task_run ` set (ts1 @ us @ ts2) \<longleftrightarrow> rid \<in> task_run ` set (ts1 @ us' @ ts2)"
    using assms by auto
  moreover have "(\<forall>t \<in> set (ts1 @ us @ ts2). task_run t = rid \<longrightarrow> task_ok plan (wf_steps r) t) \<longleftrightarrow>
      (\<forall>t \<in> set (ts1 @ us' @ ts2). task_run t = rid \<longrightarrow> task_ok plan (wf_steps r) t)"
    using assms by auto
  ultimately show ?thesis unfolding run_ok_def by simp
qed

lemma wf_step_inv:
  assumes "wf_step w w'" and inv: "wf_inv w"
  shows "wf_inv w'"
  using assms(1)
proof cases
  case (wf_define d)
  then show ?thesis using inv by (simp add: wf_inv_def define_workflow_def)
next
  case (wf_start rid now did e plan)
  then obtain r where e: "we_runs e = tput rid r (we_runs (ww_engine w))"
    and r: "wf_steps r = []" "wf_status r = RS_Running" "wf_finished_ms r = None"
    by (auto simp: start_run_def split: option.splits)
  have new: "rid \<notin> task_run ` set (ww_tasks w)"
    using inv wf_start(2) by (auto simp: wf_inv_def)
  have "run_ok (ww_tasks w @ [Wf_Next rid plan]) plan rid r"
    using new r by (auto simp: run_ok_def all_succeeded_def)
  moreover have "run_ok (ww_tasks w @ [Wf_Next rid plan]) (ww_plan w i) i x"
    if "i \<noteq> rid" "tget (we_runs (ww_engine w)) i = Some x" for i x
    using that inv run_ok_other [of i "[Wf_Next rid plan]" "[]" "ww_tasks w" "[]"]
    by (simp add: wf_inv_def)
  ultimately show ?thesis
    using inv new unfolding wf_start(1) wf_inv_def
    by (auto simp: e simp del: map_of_eq_Some_iff)
next
  case (wf_task ts1 t ts2 now res e t')
  obtain f where f: "we_runs e = tmod (task_run t) f (we_runs (ww_engine w))"
    and same: "\<forall>u. t' = Some u \<longrightarrow> task_run u = task_run t"
    and eff: "\<forall>plan r. task_ok plan (wf_steps r) t \<and> wf_status r = RS_Running \<and> wf_finished_ms r = None \<longrightarrow>
      continued plan t' (f r)"
    by (rule task_step_runs [OF wf_task(3)])
  let ?us = "case t' of None \<Rightarrow> [] | Some u \<Rightarrow> [u]"
  have d: "distinct (map task_run (ts1 @ [t] @ ts2))" using inv wf_task(2) by (simp add: wf_inv_def)
  then have alone: "task_run t \<notin> task_run ` set (ts1 @ ts2)" by auto
  have us: "set ?us \<subseteq> {u. task_run u = task_run t}" using same by (auto split: option.split)
  have ok: "run_ok (ts1 @ [t] @ ts2) (ww_plan w i) i x" if "tget (we_runs (ww_engine w)) i = Some x" for i x
    using inv that wf_task(2) by (simp add: wf_inv_def)
  have "run_ok (ts1 @ ?us @ ts2) (ww_plan w (task_run t)) (task_run t) (f x)"
    if "tget (we_runs (ww_engine w)) (task_run t) = Some x" for x
  proof -
    have "task_ok (ww_plan w (task_run t)) (wf_steps x) t" "wf_status x = RS_Running" "wf_finished_ms x = None"
      using ok [OF that] by (auto simp: run_ok_def)
    then have c: "continued (ww_plan w (task_run t)) t' (f x)" using eff by blast
    show ?thesis
    proof (cases t')
      case None
      then show ?thesis using alone c by (simp add: run_ok_def continued_def image_Un)
    next
      case (Some u)
      then have "task_run u = task_run t" using same by simp
      moreover have "s = u" if "s \<in> set (ts1 @ [u] @ ts2)" "task_run s = task_run t" for s
        using that alone image_eqI [of "task_run t" task_run s "set (ts1 @ ts2)"] by auto
      ultimately show ?thesis using c Some by (auto simp: run_ok_def continued_def)
    qed
  qed
  moreover have "run_ok (ts1 @ ?us @ ts2) (ww_plan w i) i x"
    if "i \<noteq> task_run t" "tget (we_runs (ww_engine w)) i = Some x" for i x
  proof -
    have "i \<notin> task_run ` set [t]" and "i \<notin> task_run ` set ?us" using that(1) us by auto
    from run_ok_other [OF this, of ts1 ts2] ok [OF that(2)] show ?thesis by simp
  qed
  moreover have "distinct (map task_run (ts1 @ ?us @ ts2))"
    using d same by (cases t') simp_all
  moreover have "tget (we_runs e) (task_run u) \<noteq> None" if "u \<in> set (ts1 @ ?us @ ts2)" for u
  proof -
    have "u \<in> set (ts1 @ ts2) \<or> task_run u = task_run t" using that same by (cases t') auto
    then have "tget (we_runs (ww_engine w)) (task_run u) \<noteq> None"
      using inv wf_task(2) by (auto simp: wf_inv_def)
    then show ?thesis by (auto simp: f)
  qed
  ultimately show ?thesis
    unfolding wf_task(1) wf_inv_def by (auto simp: f simp del: map_of_eq_Some_iff)
qed

lemma wf_reachable_inv: "wf_reachable w \<Longrightarrow> wf_inv w"
proof (induction rule: wf_reachable.induct)
  case wf_init
  then show ?case by (simp add: wf_inv_def engine_new_def)
next
  case (wf_more w w')
  then show ?case using wf_step_inv by blast
qed

text \<open>The record of a workflow run is honest, however runs are interleaved: a run is succeeded only
  when every step of its definition ran, in order, and succeeded; failed only when some step failed,
  all steps before it succeeded and none after it was started; and as long as it is running it has
  exactly one task that will continue it.\<close>

theorem workflow_runs_honest:
  assumes "wf_reachable w" and "tget (we_runs (ww_engine w)) rid = Some r"
  shows "(wf_status r = RS_Succeeded \<and> wf_finished_ms r \<noteq> None \<and> all_succeeded (ww_plan w rid) (wf_steps r)) \<or>
    (wf_status r = RS_Failed \<and> wf_finished_ms r \<noteq> None \<and> stopped_at (ww_plan w rid) RS_Failed (wf_steps r)) \<or>
    (wf_status r = RS_Running \<and> (\<exists>t. filter (\<lambda>t. task_run t = rid) (ww_tasks w) = [t]))"
proof -
  have inv: "wf_inv w" by (rule wf_reachable_inv [OF assms(1)])
  have ok: "run_ok (ww_tasks w) (ww_plan w rid) rid r" using inv assms(2) by (simp add: wf_inv_def)
  show ?thesis
  proof (cases "rid \<in> task_run ` set (ww_tasks w)")
    case False
    then show ?thesis using ok by (auto simp: run_ok_def)
  next
    case True
    then obtain t ts1 ts2 where ts: "ww_tasks w = ts1 @ t # ts2" "task_run t = rid"
      by (auto dest!: split_list)
    then have "filter (\<lambda>t. task_run t = rid) ts1 = []" "filter (\<lambda>t. task_run t = rid) ts2 = []"
      using inv by (auto simp: wf_inv_def filter_empty_conv rev_image_eqI)
    then have "filter (\<lambda>t. task_run t = rid) (ww_tasks w) = [t]" using ts by simp
    then show ?thesis using ok True by (simp add: run_ok_def)
  qed
qed

definition demo_flow :: workflow_def where
  "demo_flow = \<lparr>wd_id = ''wf'', wd_name = ''demo'', wd_project = ''p'', wd_steps =
     [\<lparr>ws_name = ''one'', ws_deployment = ''d'', ws_path = ''/1''\<rparr>, \<lparr>ws_name = ''two'', ws_deployment = ''d'', ws_path = ''/2''\<rparr>]\<rparr>"

text \<open>One step of the only task of a world.\<close>

definition run_task :: "nat \<Rightarrow> string + string \<Rightarrow> workflow_world \<Rightarrow> workflow_world" where
  "run_task now res w =
     (case ww_tasks w of
        [] \<Rightarrow> w
      | t # ts \<Rightarrow> (let (e, t') = wf_task_step now res t (ww_engine w)
                 in w\<lparr>ww_engine := e, ww_tasks := (case t' of None \<Rightarrow> [] | Some u \<Rightarrow> [u]) @ ts\<rparr>))"

lemma run_task_reach: "wf_reachable w \<Longrightarrow> wf_reachable (run_task now res w)"
proof (cases "ww_tasks w")
  case (Cons t ts)
  assume "wf_reachable w"
  obtain e t' where st: "wf_task_step now res t (ww_engine w) = (e, t')" by fastforce
  have "ww_tasks w = [] @ t # ts" using Cons by simp
  from wf_more [OF \<open>wf_reachable w\<close> wf_task [OF this st]] show ?thesis by (simp add: run_task_def Cons st)
qed (simp add: run_task_def)

definition demo_started :: workflow_world where
  "demo_started =
     \<lparr>ww_engine = define_workflow demo_flow engine_new, ww_tasks = [], ww_plan = (\<lambda>_. [])\<rparr>
       \<lparr>ww_engine := (case start_run 5 ''r1'' ''wf'' (define_workflow demo_flow engine_new) of Inr (e, _) \<Rightarrow> e | Inl _ \<Rightarrow> engine_new),
        ww_tasks := [Wf_Next ''r1'' (wd_steps demo_flow)], ww_plan := (\<lambda>_. [])(''r1'' := wd_steps demo_flow)\<rparr>"

lemma demo_started_reach: "wf_reachable demo_started"
proof -
  let ?w0 = "\<lparr>ww_engine = engine_new, ww_tasks = [], ww_plan = (\<lambda>_. [])\<rparr> :: workflow_world"
  let ?w1 = "?w0\<lparr>ww_engine := define_workflow demo_flow (ww_engine ?w0)\<rparr>"
  have r1: "wf_reachable ?w1" by (rule wf_more [OF wf_init wf_define])
  obtain e where st: "start_run 5 ''r1'' ''wf'' (define_workflow demo_flow engine_new) = Inr (e, Wf_Next ''r1'' (wd_steps demo_flow))"
    by (simp add: start_run_def define_workflow_def engine_new_def demo_flow_def)
  have "tget (we_runs (ww_engine ?w1)) ''r1'' = None" by (simp add: define_workflow_def engine_new_def)
  from wf_more [OF r1 wf_start [OF this, of 5 "''wf''" e "wd_steps demo_flow"]] st
  show ?thesis by (simp add: demo_started_def)
qed

definition demo_failed :: workflow_world where
  "demo_failed = run_task 10 (Inr []) (run_task 9 (Inl ''boom'') (run_task 8 (Inr [])
     (run_task 7 (Inr ''ok'') (run_task 6 (Inr []) demo_started))))"

theorem workflow_runs_honest_witness:
  "\<exists>r. tget (we_runs (ww_engine demo_failed)) ''r1'' = Some r \<and> wf_status r = RS_Failed \<and>
    map sr_status (wf_steps r) = [RS_Succeeded, RS_Failed] \<and> stopped_at (ww_plan demo_failed ''r1'') RS_Failed (wf_steps r)"
proof -
  have reach: "wf_reachable demo_failed"
    unfolding demo_failed_def by (intro run_task_reach demo_started_reach)
  have "map_option (\<lambda>r. (wf_status r, map sr_status (wf_steps r))) (tget (we_runs (ww_engine demo_failed)) ''r1'') =
      Some (RS_Failed, [RS_Succeeded, RS_Failed])" by code_simp
  then obtain r where r: "tget (we_runs (ww_engine demo_failed)) ''r1'' = Some r" "wf_status r = RS_Failed"
    "map sr_status (wf_steps r) = [RS_Succeeded, RS_Failed]" by auto
  from workflow_runs_honest [OF reach r(1)] r show ?thesis by auto
qed

lemma loaded_run:
  "tget (fold (\<lambda>r. tput (wf_id r) (reconcile_run now r)) rs m) i = Some r \<Longrightarrow>
    tget m i = Some r \<or> (\<exists>r0 \<in> set rs. wf_id r0 = i \<and> r = reconcile_run now r0)"
  by (induction rs rule: rev_induct) (auto split: if_splits)

text \<open>After a restart no run pretends to be in progress: of the runs restored from a snapshot every
  one that was pending or running is failed with an end time, the others come back as they were.\<close>

theorem workflow_restore_honest:
  assumes "tget (we_runs (runs_load now rs engine_new)) i = Some r"
  shows "\<not> in_flight (wf_status r) \<and>
    (\<exists>r0 \<in> set rs. wf_id r0 = i \<and>
      (if in_flight (wf_status r0) then wf_status r = RS_Failed \<and> wf_finished_ms r \<noteq> None \<and>
           map sr_name (wf_steps r) = map sr_name (wf_steps r0) \<and> (\<forall>s \<in> set (wf_steps r). \<not> in_flight (sr_status s))
       else r = r0))"
proof -
  obtain r0 where r0: "r0 \<in> set rs" "wf_id r0 = i" "r = reconcile_run now r0"
    using loaded_run [OF assms [unfolded runs_load_def, simplified]] by (auto simp: engine_new_def)
  show ?thesis
  proof (cases "in_flight (wf_status r0)")
    case False
    then have "r = r0" using r0(3) by (simp add: reconcile_run_def)
    then show ?thesis using r0(1,2) False by auto
  next
    case True
    have "wf_status r = RS_Failed" "wf_finished_ms r \<noteq> None" "map sr_name (wf_steps r) = map sr_name (wf_steps r0)"
      using r0(3) True by (auto simp: reconcile_run_def get_or_insert_def fail_step_def split: option.split)
    moreover have "\<not> in_flight (sr_status (fail_step now s))" for s
      by (simp add: fail_step_def in_flight_def)
    then have "\<forall>s \<in> set (wf_steps r). \<not> in_flight (sr_status s)"
      by (simp add: r0(3) reconcile_run_def True)
    moreover have "\<not> in_flight (wf_status r)" by (simp add: calculation(1) in_flight_def)
    ultimately show ?thesis using r0(1,2) True by (intro conjI bexI [of _ r0]) simp_all
  qed
qed

theorem workflow_restore_honest_witness:
  "\<exists>r. tget (we_runs (runs_load 99 (map snd (we_runs (ww_engine (run_task 6 (Inr []) demo_started)))) engine_new)) ''r1'' = Some r \<and>
    \<not> in_flight (wf_status r) \<and> map sr_status (wf_steps r) = [RS_Failed]"
proof -
  have "map_option (\<lambda>r. map sr_status (wf_steps r))
      (tget (we_runs (runs_load 99 (map snd (we_runs (ww_engine (run_task 6 (Inr []) demo_started)))) engine_new)) ''r1'') =
      Some [RS_Failed]" by code_simp
  then obtain r where r: "tget (we_runs (runs_load 99 (map snd (we_runs (ww_engine (run_task 6 (Inr []) demo_started)))) engine_new)) ''r1'' = Some r"
    "map sr_status (wf_steps r) = [RS_Failed]" by auto
  show ?thesis
    by (rule exI [of _ r]) (intro conjI r workflow_restore_honest [OF r(1), THEN conjunct1])
qed

end
