(* ===== verification/Cloud_Lease.thy ===== *)
theory Cloud_Lease
  imports Byte_Strings "HOL-Library.Word"
begin

text \<open>
  Coordination of stateful containers without consensus: the fenced leases and the rendezvous
  hash of \<open>crates/hive-cloud/src/lease.rs\<close>, and the retry policy of the mesh router
  (\<open>crates/hive-cloud/src/retry.rs\<close>). The hash is computed on 64-bit words as in the code; the
  sums of times and epochs wrap around at \<open>2 ^ 64\<close> (\<open>wadd64\<close>), as they do in a build without overflow checks.
\<close>

unbundle bit_operations_syntax

section \<open>Leases\<close>

record container_lease =
  cl_key :: string
  cl_owner :: string
  cl_epoch :: nat
  cl_lease_region :: string
  cl_acquired_ms :: nat
  cl_expires_ms :: nat

type_synonym lease_store = "(string, container_lease) table"

definition is_live :: "nat \<Rightarrow> container_lease \<Rightarrow> bool" where
  "is_live now l = (cl_expires_ms l > now)"

definition lease_get :: "string \<Rightarrow> lease_store \<Rightarrow> container_lease option" where
  "lease_get key m = tget m key"

definition owner_of :: "nat \<Rightarrow> string \<Rightarrow> lease_store \<Rightarrow> string option" where
  "owner_of now key m =
     (case tget m key of None \<Rightarrow> None | Some l \<Rightarrow> if is_live now l then Some (cl_owner l) else None)"

definition is_owner :: "nat \<Rightarrow> string \<Rightarrow> string \<Rightarrow> lease_store \<Rightarrow> bool" where
  "is_owner now key node m = (owner_of now key m = Some node)"

definition lease_merge :: "container_lease \<Rightarrow> lease_store \<Rightarrow> lease_store" where
  "lease_merge inc m =
     (case tget m (cl_key inc) of
        Some cur \<Rightarrow>
          if cl_epoch cur > cl_epoch inc \<or>
             (cl_epoch cur = cl_epoch inc \<and> cl_expires_ms cur \<ge> cl_expires_ms inc)
          then m else tput (cl_key inc) inc m
      | None \<Rightarrow> tput (cl_key inc) inc m)"

definition acquire_or_renew ::
  "nat \<Rightarrow> string \<Rightarrow> string \<Rightarrow> string \<Rightarrow> nat \<Rightarrow> lease_store \<Rightarrow> container_lease option \<times> lease_store" where
  "acquire_or_renew now key self region ttl_ms m =
     (let take = (\<lambda>epoch.
            (let l = \<lparr>cl_key = key, cl_owner = self, cl_epoch = epoch, cl_lease_region = region,
                      cl_acquired_ms = now, cl_expires_ms = wadd64 now ttl_ms\<rparr>
             in (Some l, tput key l m)))
      in (case tget m key of
            Some cur \<Rightarrow>
              if cl_owner cur = self
              then (let renewed = cur\<lparr>cl_expires_ms := wadd64 now ttl_ms\<rparr> in (Some renewed, tput key renewed m))
              else if is_live now cur then (None, m)
              else take (wadd64 (cl_epoch cur) 1)
          | None \<Rightarrow> take 1))"

definition lease_release :: "string \<Rightarrow> string \<Rightarrow> lease_store \<Rightarrow> lease_store" where
  "lease_release key self m =
     tmod key (\<lambda>cur. if cl_owner cur = self then cur\<lparr>cl_expires_ms := 0\<rparr> else cur) m"

section \<open>Rendezvous hashing\<close>

definition fnv_offset :: "64 word" where
  "fnv_offset = 0xcbf29ce484222325"

definition fnv_prime :: "64 word" where
  "fnv_prime = 0x100000001b3"

definition fnv1a :: "string \<Rightarrow> 64 word" where
  "fnv1a s = fold (\<lambda>c h. (h XOR of_nat (of_char c :: nat)) * fnv_prime) s fnv_offset"

definition hrw_weight :: "string \<Rightarrow> string \<Rightarrow> 64 word" where
  "hrw_weight key n = fnv1a (key @ CHR 0x00 # n)"

definition hrw_owner :: "string \<Rightarrow> string list \<Rightarrow> string option" where
  "hrw_owner key nodes = max_by_key (hrw_weight key) nodes"

section \<open>Retries\<close>

datatype body_replay = Buffered | Non_Replayable

datatype response_state = Not_Started | Started

record retry_decision =
  rd_allowed :: bool
  rd_reason :: string

definition is_idempotent :: "string \<Rightarrow> bool" where
  "is_idempotent meth =
     (to_ascii_uppercase meth \<in> set [''GET'', ''HEAD'', ''OPTIONS'', ''PUT'', ''DELETE'', ''TRACE''])"

definition can_retry :: "string \<Rightarrow> bool \<Rightarrow> body_replay \<Rightarrow> response_state \<Rightarrow> retry_decision" where
  "can_retry meth has_key body response =
     (if response = Started then \<lparr>rd_allowed = False, rd_reason = ''response_already_started''\<rparr>
      else if body = Non_Replayable then \<lparr>rd_allowed = False, rd_reason = ''body_not_replayable''\<rparr>
      else if \<not> is_idempotent meth \<and> \<not> has_key then \<lparr>rd_allowed = False, rd_reason = ''non_idempotent_no_key''\<rparr>
      else \<lparr>rd_allowed = True, rd_reason = ''safe''\<rparr>)"

section \<open>Merging converges\<close>

text \<open>The order of the merge: epoch first, expiry second.\<close>

definition rank :: "container_lease \<Rightarrow> nat \<times> nat" where
  "rank l = (cl_epoch l, cl_expires_ms l)"

lemma lease_merge_rank:
  "lease_merge inc m =
    (case tget m (cl_key inc) of
       Some cur \<Rightarrow> if rank inc \<le> rank cur then m else tput (cl_key inc) inc m
     | None \<Rightarrow> tput (cl_key inc) inc m)"
  by (auto simp: lease_merge_def rank_def less_eq_prod_def split: option.split)

lemma tget_lease_merge:
  "tget (lease_merge x m) k =
    (if cl_key x \<noteq> k then tget m k
     else (case tget m k of
             None \<Rightarrow> Some x
           | Some cur \<Rightarrow> Some (if rank x \<le> rank cur then cur else x)))"
  by (auto simp: lease_merge_rank split: option.split)

lemma merge_all_None:
  "tget (fold lease_merge xs []) k = None \<longleftrightarrow> (\<forall>x \<in> set xs. cl_key x \<noteq> k)"
  by (induction xs rule: rev_induct) (auto simp: tget_lease_merge split: option.split)

lemma merge_all_Some:
  "tget (fold lease_merge xs []) k = Some l \<Longrightarrow>
    l \<in> set xs \<and> cl_key l = k \<and> (\<forall>x \<in> set xs. cl_key x = k \<longrightarrow> rank x \<le> rank l)"
proof (induction xs arbitrary: l rule: rev_induct)
  case Nil
  then show ?case by simp
next
  case (snoc x xs)
  show ?case
  proof (cases "tget (fold lease_merge xs []) k")
    case None
    then have "\<forall>x \<in> set xs. cl_key x \<noteq> k" by (simp only: merge_all_None)
    then show ?thesis using snoc.prems None by (auto simp: tget_lease_merge split: if_splits)
  next
    case (Some cur)
    note ih = snoc.IH [OF Some]
    have l: "l = (if cl_key x = k \<and> \<not> rank x \<le> rank cur then x else cur)"
      using snoc.prems by (simp only: fold_append o_apply fold_simps tget_lease_merge Some option.case) (simp split: if_splits)
    show ?thesis
    proof (cases "cl_key x = k \<and> \<not> rank x \<le> rank cur")
      case True
      then have le: "rank cur \<le> rank x" by (metis linear)
      have "rank y \<le> rank x" if "y \<in> set xs" "cl_key y = k" for y
        using ih that order_trans [OF _ le] by blast
      then show ?thesis unfolding l using True by simp
    next
      case False
      then have "rank x \<le> rank cur" if "cl_key x = k" using that by blast
      then show ?thesis using ih unfolding l if_not_P [OF False] by simp
    qed
  qed
qed

text \<open>Lease state converges by gossip: nodes that have heard of the same leases, in whatever order
  and however often, agree on the lease of every key, provided no two different leases of a key have
  both the same epoch and the same expiry; and the lease they agree on has the highest epoch.\<close>

theorem lease_merge_converges:
  assumes "set xs = set ys"
    and "\<forall>a \<in> set xs. \<forall>b \<in> set xs. cl_key a = cl_key b \<and> cl_epoch a = cl_epoch b \<and> cl_expires_ms a = cl_expires_ms b \<longrightarrow> a = b"
  shows "lease_get k (fold lease_merge xs []) = lease_get k (fold lease_merge ys []) \<and>
    (\<forall>l. lease_get k (fold lease_merge xs []) = Some l \<longrightarrow> (\<forall>x \<in> set xs. cl_key x = k \<longrightarrow> cl_epoch x \<le> cl_epoch l))"
proof -
  have "lease_get k (fold lease_merge xs []) = lease_get k (fold lease_merge ys [])"
  proof (cases "tget (fold lease_merge xs []) k")
    case None
    then have "tget (fold lease_merge ys []) k = None" unfolding merge_all_None assms(1) .
    then show ?thesis using None by (simp add: lease_get_def)
  next
    case (Some l)
    then have "tget (fold lease_merge ys []) k \<noteq> None"
      using merge_all_None [of xs k] merge_all_None [of ys k] assms(1) by simp
    then obtain l' where l': "tget (fold lease_merge ys []) k = Some l'" by blast
    note x = merge_all_Some [OF Some] and y = merge_all_Some [OF l']
    have "rank l \<le> rank l'" "rank l' \<le> rank l" using x y assms(1) by blast+
    then have "rank l = rank l'" by (rule order_antisym)
    then have "l = l'" using assms x y by (simp add: rank_def)
    then show ?thesis using Some l' by (simp add: lease_get_def)
  qed
  moreover have "cl_epoch x \<le> cl_epoch l"
    if "lease_get k (fold lease_merge xs []) = Some l" "x \<in> set xs" "cl_key x = k" for l x
  proof -
    have "rank x \<le> rank l" using merge_all_Some that by (auto simp: lease_get_def)
    then show ?thesis by (auto simp: rank_def less_eq_prod_def)
  qed
  ultimately show ?thesis by blast
qed

definition demo_lease :: "string \<Rightarrow> nat \<Rightarrow> nat \<Rightarrow> container_lease" where
  "demo_lease owner epoch expires =
     \<lparr>cl_key = ''app'', cl_owner = owner, cl_epoch = epoch, cl_lease_region = ''fra1'', cl_acquired_ms = 0,
      cl_expires_ms = expires\<rparr>"

theorem lease_merge_converges_witness:
  "lease_get ''app'' (fold lease_merge [demo_lease ''a'' 1 50, demo_lease ''b'' 2 40, demo_lease ''a'' 1 60] []) =
    lease_get ''app'' (fold lease_merge [demo_lease ''a'' 1 60, demo_lease ''a'' 1 50, demo_lease ''b'' 2 40, demo_lease ''a'' 1 50] [])"
  by (rule lease_merge_converges [THEN conjunct1]) (simp_all add: demo_lease_def insert_commute)

section \<open>Fencing\<close>

text \<open>The life of a node's store: what it hears from other nodes, its own attempts, what it gives up.\<close>

datatype lease_op =
    Hear container_lease
  | Acquire nat string string nat
  | Give_Up string

fun lease_exec :: "string \<Rightarrow> lease_op \<Rightarrow> lease_store \<Rightarrow> lease_store" where
  "lease_exec self (Hear l) m = lease_merge l m"
| "lease_exec self (Acquire now key region ttl) m = snd (acquire_or_renew now key self region ttl m)"
| "lease_exec self (Give_Up key) m = lease_release key self m"

text \<open>The leases a node has ever known, heard of or its own.\<close>

definition learned :: "string \<Rightarrow> lease_op \<Rightarrow> lease_store \<Rightarrow> container_lease list" where
  "learned self op m =
     (case op of
        Hear l \<Rightarrow> [l]
      | Acquire now key region ttl \<Rightarrow> (case fst (acquire_or_renew now key self region ttl m) of None \<Rightarrow> [] | Some l \<Rightarrow> [l])
      | Give_Up _ \<Rightarrow> [])"

fun known_leases :: "string \<Rightarrow> lease_op list \<Rightarrow> lease_store \<Rightarrow> container_lease list" where
  "known_leases self [] m = []"
| "known_leases self (op # ops) m = learned self op m @ known_leases self ops (lease_exec self op m)"

text \<open>The record of a key carries the highest epoch of all that was known of the key.\<close>

definition on_top :: "container_lease list \<Rightarrow> lease_store \<Rightarrow> bool" where
  "on_top known m \<longleftrightarrow>
     (\<forall>k. case tget m k of
            None \<Rightarrow> \<forall>x \<in> set known. cl_key x \<noteq> k
          | Some cur \<Rightarrow> cl_key cur = k \<and> (\<exists>x \<in> set known. cl_epoch x = cl_epoch cur) \<and>
              (\<forall>x \<in> set known. cl_key x = k \<longrightarrow> cl_epoch x \<le> cl_epoch cur))"

lemma on_top_None: "on_top known m \<Longrightarrow> tget m k = None \<Longrightarrow> x \<in> set known \<Longrightarrow> cl_key x \<noteq> k"
  unfolding on_top_def by (erule allE [of _ k]) simp

lemma on_top_Some:
  assumes "on_top known m" and "tget m k = Some cur"
  shows "cl_key cur = k" "\<exists>x \<in> set known. cl_epoch x = cl_epoch cur"
    "x \<in> set known \<Longrightarrow> cl_key x = k \<Longrightarrow> cl_epoch x \<le> cl_epoch cur"
proof -
  have "cl_key cur = k \<and> (\<exists>x \<in> set known. cl_epoch x = cl_epoch cur) \<and> (\<forall>x \<in> set known. cl_key x = k \<longrightarrow> cl_epoch x \<le> cl_epoch cur)"
    using assms(1) unfolding on_top_def by (rule allE [of _ k]) (simp add: assms(2))
  then show "cl_key cur = k" "\<exists>x \<in> set known. cl_epoch x = cl_epoch cur"
    "x \<in> set known \<Longrightarrow> cl_key x = k \<Longrightarrow> cl_epoch x \<le> cl_epoch cur" by blast+
qed

lemma on_topI:
  assumes "\<And>k x. tget m k = None \<Longrightarrow> x \<in> set known \<Longrightarrow> cl_key x \<noteq> k"
    and "\<And>k cur. tget m k = Some cur \<Longrightarrow> cl_key cur = k \<and> (\<exists>x \<in> set known. cl_epoch x = cl_epoch cur)"
    and "\<And>k cur x. tget m k = Some cur \<Longrightarrow> x \<in> set known \<Longrightarrow> cl_key x = k \<Longrightarrow> cl_epoch x \<le> cl_epoch cur"
  shows "on_top known m"
  using assms unfolding on_top_def by (auto split: option.split simp del: map_of_eq_Some_iff map_of_eq_None_iff)

text \<open>A record of at least the highest epoch is put under its key, and becomes known.\<close>

lemma on_top_put:
  assumes "on_top known m" and "\<And>cur. tget m (cl_key l) = Some cur \<Longrightarrow> cl_epoch cur \<le> cl_epoch l"
  shows "on_top (known @ [l]) (tput (cl_key l) l m)"
proof (rule on_topI)
  show "cl_key x \<noteq> k" if "tget (tput (cl_key l) l m) k = None" "x \<in> set (known @ [l])" for k x
    using that on_top_None [OF assms(1), of k x] by (auto split: if_splits simp del: map_of_eq_Some_iff map_of_eq_None_iff)
  show "cl_key cur = k \<and> (\<exists>x \<in> set (known @ [l]). cl_epoch x = cl_epoch cur)" if "tget (tput (cl_key l) l m) k = Some cur" for k cur
    using that on_top_Some(1,2) [OF assms(1), of k cur]
    by (auto split: if_splits simp del: map_of_eq_Some_iff map_of_eq_None_iff)
  show "cl_epoch x \<le> cl_epoch cur"
    if "tget (tput (cl_key l) l m) k = Some cur" "x \<in> set (known @ [l])" "cl_key x = k" for k cur x
  proof (cases "k = cl_key l")
    case False
    then show ?thesis
      using that on_top_Some(3) [OF assms(1), of k cur x] by (auto simp del: map_of_eq_Some_iff map_of_eq_None_iff)
  next
    case True
    show ?thesis
    proof (cases "tget m k")
      case None
      then show ?thesis using that True on_top_None [OF assms(1) None, of x]
        by (auto simp del: map_of_eq_Some_iff map_of_eq_None_iff)
    next
      case (Some old)
      then have "cl_epoch old \<le> cl_epoch l" using assms(2) True by blast
      then show ?thesis using that True on_top_Some(3) [OF assms(1) Some, of x]
        by (auto simp del: map_of_eq_Some_iff map_of_eq_None_iff)
    qed
  qed
qed

lemma on_top_more:
  assumes "on_top known m" and "tget m (cl_key l) = Some cur" and "cl_epoch l \<le> cl_epoch cur"
  shows "on_top (known @ [l]) m"
proof (rule on_topI)
  show "cl_key x \<noteq> k" if "tget m k = None" "x \<in> set (known @ [l])" for k x
    using that assms(2) on_top_None [OF assms(1) that(1), of x] by auto
  show "cl_key c = k \<and> (\<exists>x \<in> set (known @ [l]). cl_epoch x = cl_epoch c)" if "tget m k = Some c" for k c
    using on_top_Some(1,2) [OF assms(1) that] by auto
  show "cl_epoch x \<le> cl_epoch c" if "tget m k = Some c" "x \<in> set (known @ [l])" "cl_key x = k" for k c x
    using that assms(2,3) on_top_Some(3) [OF assms(1) that(1), of x] by auto
qed

lemma acquire_key: "on_top known m \<Longrightarrow> acquire_or_renew now key self region ttl m = (Some l, m') \<Longrightarrow> cl_key l = key"
  using on_top_Some(1) [of known m key]
  by (cases "tget m key") (auto simp: acquire_or_renew_def Let_def split: if_splits simp del: map_of_eq_Some_iff map_of_eq_None_iff)

lemma top_epoch_small:
  "on_top known m \<Longrightarrow> \<forall>x \<in> set known. cl_epoch x < 2 ^ 64 - 1 \<Longrightarrow> tget m k = Some cur \<Longrightarrow>
    wadd64 (cl_epoch cur) 1 = cl_epoch cur + 1"
  using on_top_Some(2) [of known m k cur] by (fastforce simp: wadd64_exact)

lemma acquire_put:
  assumes "on_top known m" "\<forall>x \<in> set known. cl_epoch x < 2 ^ 64 - 1" "acquire_or_renew now key self region ttl m = (Some l, m')"
  shows "m' = tput (cl_key l) l m" "tget m (cl_key l) = Some cur \<Longrightarrow> cl_epoch cur \<le> cl_epoch l"
proof -
  note k = acquire_key [OF assms(1,3)]
  have "m' = tput key l m \<and> (\<forall>cur. tget m key = Some cur \<longrightarrow> cl_epoch cur \<le> cl_epoch l)"
  proof (cases "tget m key")
    case None
    then show ?thesis using assms(3) by (auto simp: acquire_or_renew_def Let_def simp del: map_of_eq_Some_iff)
  next
    case (Some c)
    then show ?thesis using assms(3) top_epoch_small [OF assms(1,2) Some]
      by (auto simp: acquire_or_renew_def Let_def split: if_splits simp del: map_of_eq_Some_iff)
  qed
  then show "m' = tput (cl_key l) l m" "tget m (cl_key l) = Some cur \<Longrightarrow> cl_epoch cur \<le> cl_epoch l" unfolding k by blast+
qed

lemma on_top_exec:
  assumes "on_top known m" and "\<forall>x \<in> set known. cl_epoch x < 2 ^ 64 - 1"
  shows "on_top (known @ learned self op m) (lease_exec self op m)"
proof (cases op)
  case (Hear l)
  show ?thesis
  proof (cases "tget m (cl_key l)")
    case None
    then show ?thesis using on_top_put [OF assms(1), of l] by (simp add: Hear learned_def lease_merge_def)
  next
    case (Some cur)
    show ?thesis
    proof (cases "rank l \<le> rank cur")
      case True
      then have "cl_epoch l \<le> cl_epoch cur" by (auto simp: rank_def less_eq_prod_def)
      then show ?thesis using on_top_more [OF assms(1) Some] Some True by (simp add: Hear learned_def lease_merge_rank)
    next
      case False
      then have "cl_epoch cur \<le> cl_epoch l" by (auto simp: rank_def less_eq_prod_def)
      then show ?thesis using on_top_put [OF assms(1), of l] Some False by (simp add: Hear learned_def lease_merge_rank)
    qed
  qed
next
  case (Acquire now key region ttl)
  obtain r m' where r: "acquire_or_renew now key self region ttl m = (r, m')" by fastforce
  show ?thesis
  proof (cases r)
    case None
    then have "m' = m" using r by (auto simp: acquire_or_renew_def Let_def split: option.splits if_splits)
    then show ?thesis using assms(1) r None by (simp add: Acquire learned_def)
  next
    case (Some l)
    note p = acquire_put [OF assms r [unfolded Some]]
    show ?thesis using on_top_put [OF assms(1), of l] p r Some by (simp add: Acquire learned_def)
  qed
next
  case (Give_Up key)
  have "on_top known (lease_release key self m)"
  proof (rule on_topI)
    show "cl_key x \<noteq> k" if "tget (lease_release key self m) k = None" "x \<in> set known" for k x
      using that on_top_None [OF assms(1), of k x]
      by (auto simp: lease_release_def split: if_splits simp del: map_of_eq_Some_iff map_of_eq_None_iff)
    show "cl_key cur = k \<and> (\<exists>x \<in> set known. cl_epoch x = cl_epoch cur)" if "tget (lease_release key self m) k = Some cur" for k cur
      using that on_top_Some(1,2) [OF assms(1), of k]
      by (auto simp: lease_release_def split: if_splits simp del: map_of_eq_Some_iff map_of_eq_None_iff)
    show "cl_epoch x \<le> cl_epoch cur"
      if "tget (lease_release key self m) k = Some cur" "x \<in> set known" "cl_key x = k" for k cur x
      using that on_top_Some(3) [OF assms(1), of k _ x]
      by (auto simp: lease_release_def split: if_splits simp del: map_of_eq_Some_iff map_of_eq_None_iff)
  qed
  then show ?thesis by (simp add: Give_Up learned_def)
qed

lemma on_top_run:
  "on_top known m \<Longrightarrow> \<forall>x \<in> set (known @ known_leases self ops m). cl_epoch x < 2 ^ 64 - 1 \<Longrightarrow>
    on_top (known @ known_leases self ops m) (fold (lease_exec self) ops m)"
proof (induction ops arbitrary: known m)
  case (Cons op ops)
  have "on_top (known @ learned self op m) (lease_exec self op m)" using on_top_exec [OF Cons.prems(1)] Cons.prems(2) by simp
  then show ?case using Cons.IH [of "known @ learned self op m" "lease_exec self op m"] Cons.prems(2) by simp
qed simp

lemma lease_merge_outranked: "tget m (cl_key x) = Some l \<Longrightarrow> cl_epoch x < cl_epoch l \<Longrightarrow> lease_merge x m = m"
  by (simp add: lease_merge_def)



text \<open>Two nodes that cannot hear each other both take over an expired lease with the same epoch:
  both are live owners at once, and after they exchange their leases each keeps the record with the
  later expiry, so fencing by epoch does not tell them apart. And a lease that was given up comes
  back to life when a peer that has not heard of it sends its copy.\<close>

theorem lease_split_brain:
  "let expired = [(''app'', demo_lease ''a'' 4 90)];
       (lb, mb) = acquire_or_renew 100 ''app'' ''b'' ''fra1'' 30 expired;
       (lc, mc) = acquire_or_renew 101 ''app'' ''c'' ''sin1'' 30 expired
   in owner_of 110 ''app'' mb = Some ''b'' \<and> owner_of 110 ''app'' mc = Some ''c'' \<and>
      map_option cl_epoch lb = map_option cl_epoch lc \<and>
      owner_of 110 ''app'' (lease_release ''app'' ''b'' mb) = None \<and>
      owner_of 110 ''app'' (lease_merge (the lb) (lease_release ''app'' ''b'' mb)) = Some ''b''"
  by code_simp

section \<open>Rendezvous hashing is stable\<close>

lemma hrw_owner_max:
  "hrw_owner key nodes = Some n \<Longrightarrow> n \<in> set nodes \<and> (\<forall>x \<in> set nodes. hrw_weight key x \<le> hrw_weight key n)"
  unfolding hrw_owner_def by (rule max_by_key_Some)

text \<open>Rendezvous hashing moves as little as it can: all nodes that see the same members agree on the
  preferred owner whatever the order of their lists, and when members leave, a key whose owner is
  still there keeps it, as long as no two members have the same hash for the key.\<close>

theorem hrw_stable:
  assumes "hrw_owner key nodes = Some n" and "n \<in> set nodes'" and "set nodes' \<subseteq> set nodes"
    and "inj_on (hrw_weight key) (set nodes)"
  shows "hrw_owner key nodes' = Some n"
proof -
  obtain n' where n': "hrw_owner key nodes' = Some n'"
    using assms(2) by (cases "hrw_owner key nodes'") (auto simp: hrw_owner_def)
  note a = hrw_owner_max [OF assms(1)] and b = hrw_owner_max [OF n']
  have "hrw_weight key n \<le> hrw_weight key n'" "hrw_weight key n' \<le> hrw_weight key n"
    using a b assms(2,3) by auto
  then have "hrw_weight key n = hrw_weight key n'" by (rule order_antisym)
  then have "n = n'" using assms(3,4) a b by (auto simp: inj_on_def)
  with n' show ?thesis by simp
qed

theorem hrw_stable_witness:
  "hrw_owner ''app'' [''node-a'', ''node-b'', ''node-c''] =
    hrw_owner ''app'' (the (hrw_owner ''app'' [''node-a'', ''node-b'', ''node-c'']) # [''node-b''])"
proof -
  have o1: "hrw_owner ''app'' [''node-a'', ''node-b'', ''node-c''] \<noteq> None" by (simp add: hrw_owner_def)
  then obtain n where n: "hrw_owner ''app'' [''node-a'', ''node-b'', ''node-c''] = Some n" by auto
  have "distinct (map (hrw_weight ''app'') [''node-a'', ''node-b'', ''node-c''])" by code_simp
  then have "inj_on (hrw_weight ''app'') (set [''node-a'', ''node-b'', ''node-c''])" by (simp only: distinct_map)
  moreover have "n \<in> set [''node-a'', ''node-b'', ''node-c'']" using hrw_owner_max [OF n] by blast
  ultimately show ?thesis using hrw_stable [OF n, of "n # [''node-b'']"] n by simp
qed

section \<open>Retries\<close>

text \<open>The router retries a request only when that cannot execute it twice or garble its answer:
  nothing was sent to the client, the body can be sent again, and the method is idempotent (in any
  letter case) or carries an idempotency key; and in exactly these cases it does.\<close>

theorem retry_safe:
  "rd_allowed (can_retry meth has_key body response) \<longleftrightarrow>
    response = Not_Started \<and> body = Buffered \<and> (is_idempotent meth \<or> has_key)"
  by (cases response; cases body) (auto simp: can_retry_def)

end
