(* ===== verification/Cloud_Queues.thy ===== *)
theory Cloud_Queues
  imports Byte_Strings
begin

text \<open>
  The message queues of \<open>crates/hive-cloud/src/queues.rs\<close>: queue and consumer records that are
  replicated with tombstones, and the messages of each queue on the node that owns it. What the
  code writes to the GuardianDB mirror is returned as a list of commands; the contents of the
  mirror, fresh identifiers and the clock are arguments. Message metadata is an opaque value of
  type \<open>'m\<close>, the JSON of the sender.
\<close>

section \<open>Settings\<close>

definition TOMBSTONE_RETENTION_MS :: nat where
  "TOMBSTONE_RETENTION_MS = 30 * 24 * 60 * 60 * 1000"

definition DELIVERY_DELAY_MIN_SECS :: nat where "DELIVERY_DELAY_MIN_SECS = 0"
definition DELIVERY_DELAY_MAX_SECS :: nat where "DELIVERY_DELAY_MAX_SECS = 86400"
definition RETENTION_MIN_SECS :: nat where "RETENTION_MIN_SECS = 60"
definition RETENTION_MAX_SECS :: nat where "RETENTION_MAX_SECS = 1209600"
definition RETENTION_DEFAULT_SECS :: nat where "RETENTION_DEFAULT_SECS = 345600"
definition BATCH_SIZE_MIN :: nat where "BATCH_SIZE_MIN = 1"
definition BATCH_SIZE_MAX :: nat where "BATCH_SIZE_MAX = 100"
definition BATCH_SIZE_DEFAULT :: nat where "BATCH_SIZE_DEFAULT = 10"
definition BATCH_TIMEOUT_MIN_SECS :: nat where "BATCH_TIMEOUT_MIN_SECS = 0"
definition BATCH_TIMEOUT_MAX_SECS :: nat where "BATCH_TIMEOUT_MAX_SECS = 60"
definition BATCH_TIMEOUT_DEFAULT_SECS :: nat where "BATCH_TIMEOUT_DEFAULT_SECS = 5"
definition MAX_RETRIES_DEFAULT :: nat where "MAX_RETRIES_DEFAULT = 3"
definition VISIBILITY_TIMEOUT_DEFAULT_MS :: nat where "VISIBILITY_TIMEOUT_DEFAULT_MS = 30000"
definition VISIBILITY_TIMEOUT_MAX_MS :: nat where "VISIBILITY_TIMEOUT_MAX_MS = 12 * 60 * 60 * 1000"
definition MAX_MESSAGE_BODY_BYTES :: nat where "MAX_MESSAGE_BODY_BYTES = 128 * 1024"

definition clamp :: "nat \<Rightarrow> nat \<Rightarrow> nat \<Rightarrow> nat" where
  "clamp lo hi x = (if x < lo then lo else if x > hi then hi else x)"

datatype consumer_type = Worker | Http_Pull

record queue_settings =
  qs_delivery_delay :: nat
  qs_delivery_paused :: bool
  qs_message_retention_period :: nat

definition queue_settings_default :: queue_settings where
  "queue_settings_default = \<lparr>qs_delivery_delay = DELIVERY_DELAY_MIN_SECS, qs_delivery_paused = False,
     qs_message_retention_period = RETENTION_DEFAULT_SECS\<rparr>"

definition qs_clamped :: "queue_settings \<Rightarrow> queue_settings" where
  "qs_clamped s = s\<lparr>
     qs_delivery_delay := clamp DELIVERY_DELAY_MIN_SECS DELIVERY_DELAY_MAX_SECS (qs_delivery_delay s),
     qs_message_retention_period := clamp RETENTION_MIN_SECS RETENTION_MAX_SECS (qs_message_retention_period s)\<rparr>"

record queue_record =
  q_id :: string
  q_name :: string
  q_tenant :: string
  q_created_on :: nat
  q_modified_on :: nat
  q_settings :: queue_settings

record consumer_settings =
  cs_batch_size :: nat
  cs_max_batch_timeout :: nat
  cs_max_retries :: nat
  cs_max_concurrency :: "nat option"
  cs_retry_delay :: nat
  cs_visibility_timeout_ms :: nat

definition consumer_settings_default :: consumer_settings where
  "consumer_settings_default = \<lparr>cs_batch_size = BATCH_SIZE_DEFAULT, cs_max_batch_timeout = BATCH_TIMEOUT_DEFAULT_SECS,
     cs_max_retries = MAX_RETRIES_DEFAULT, cs_max_concurrency = None, cs_retry_delay = 0,
     cs_visibility_timeout_ms = VISIBILITY_TIMEOUT_DEFAULT_MS\<rparr>"

definition cs_clamped :: "consumer_settings \<Rightarrow> consumer_settings" where
  "cs_clamped s = s\<lparr>
     cs_batch_size := clamp BATCH_SIZE_MIN BATCH_SIZE_MAX (cs_batch_size s),
     cs_max_batch_timeout := clamp BATCH_TIMEOUT_MIN_SECS BATCH_TIMEOUT_MAX_SECS (cs_max_batch_timeout s),
     cs_visibility_timeout_ms := clamp 1000 VISIBILITY_TIMEOUT_MAX_MS (cs_visibility_timeout_ms s)\<rparr>"

record consumer =
  cn_id :: string
  cn_queue_id :: string
  cn_kind :: consumer_type
  cn_settings :: consumer_settings
  cn_script_name :: string
  cn_dead_letter_queue :: "string option"
  cn_created_on :: nat

section \<open>Messages and the store\<close>

record 'm queue_message =
  qm_id :: string
  qm_body :: string
  qm_timestamp_ms :: nat
  qm_attempts :: nat
  qm_metadata :: 'm
  qm_lease :: "(string \<times> nat) option"

record 'm message_log =
  ml_messages :: "'m queue_message list"
  ml_synced_once :: bool

record 'm queue_store =
  st_queues :: "queue_record list"
  st_consumers :: "consumer list"
  st_queue_tombstones :: "(string, nat) table"
  st_consumer_tombstones :: "(string, nat) table"
  st_logs :: "(string, 'm message_log) table"

definition store_new :: "'m queue_store" where
  "store_new = \<lparr>st_queues = [], st_consumers = [], st_queue_tombstones = [], st_consumer_tombstones = [],
     st_logs = []\<rparr>"

datatype 'm guardian_cmd = Guardian_Put string "'m queue_message" | Guardian_Delete string

definition guardian_key :: "string \<Rightarrow> string \<Rightarrow> string" where
  "guardian_key queue_id message_id = ''queues/msg/'' @ queue_id @ ''/'' @ message_id"

definition log_default :: "'m message_log" where
  "log_default = \<lparr>ml_messages = [], ml_synced_once = False\<rparr>"

definition log_for :: "string \<Rightarrow> 'm queue_store \<Rightarrow> 'm message_log \<times> 'm queue_store" where
  "log_for qid s =
     (case tget (st_logs s) qid of
        Some l \<Rightarrow> (l, s)
      | None \<Rightarrow> (log_default, s\<lparr>st_logs := tput qid log_default (st_logs s)\<rparr>))"

definition messages_of :: "string \<Rightarrow> 'm queue_store \<Rightarrow> 'm queue_message list" where
  "messages_of qid s = ml_messages (fst (log_for qid s))"

text \<open>Replace the messages of one queue, creating its log when it does not exist.\<close>

definition set_messages :: "string \<Rightarrow> 'm queue_message list \<Rightarrow> 'm queue_store \<Rightarrow> 'm queue_store" where
  "set_messages qid ms s =
     (let (l, s1) = log_for qid s in s1\<lparr>st_logs := tput qid (l\<lparr>ml_messages := ms\<rparr>) (st_logs s1)\<rparr>)"

subsection \<open>Records\<close>

definition q_list :: "string \<Rightarrow> 'm queue_store \<Rightarrow> queue_record list" where
  "q_list tenant s = filter (\<lambda>q. q_tenant q = tenant) (st_queues s)"

definition q_get :: "string \<Rightarrow> string \<Rightarrow> 'm queue_store \<Rightarrow> queue_record option" where
  "q_get tenant qid s = find (\<lambda>q. q_tenant q = tenant \<and> q_id q = qid) (st_queues s)"

definition find_by_name :: "string \<Rightarrow> string \<Rightarrow> 'm queue_store \<Rightarrow> queue_record option" where
  "find_by_name tenant name s = find (\<lambda>q. q_tenant q = tenant \<and> q_name q = name) (st_queues s)"

definition q_create :: "nat \<Rightarrow> string \<Rightarrow> string \<Rightarrow> string \<Rightarrow> 'm queue_store \<Rightarrow> queue_record \<times> 'm queue_store" where
  "q_create now fresh tenant name s =
     (let q = \<lparr>q_id = fresh, q_name = name, q_tenant = tenant, q_created_on = now, q_modified_on = now,
               q_settings = queue_settings_default\<rparr>
      in (q, s\<lparr>st_queues := st_queues s @ [q]\<rparr>))"

definition update_settings ::
  "nat \<Rightarrow> string \<Rightarrow> string \<Rightarrow> queue_settings \<Rightarrow> 'm queue_store \<Rightarrow> queue_record option \<times> 'm queue_store" where
  "update_settings now tenant qid settings s =
     (let p = (\<lambda>q. q_tenant q = tenant \<and> q_id q = qid);
          f = (\<lambda>q. q\<lparr>q_settings := qs_clamped settings, q_modified_on := now\<rparr>)
      in (map_option f (find p (st_queues s)), s\<lparr>st_queues := upd_first p f (st_queues s)\<rparr>))"

definition q_delete :: "nat \<Rightarrow> string \<Rightarrow> string \<Rightarrow> 'm queue_store \<Rightarrow> bool \<times> 'm queue_store" where
  "q_delete now tenant qid s =
     (let kept = filter (\<lambda>q. \<not> (q_tenant q = tenant \<and> q_id q = qid)) (st_queues s)
      in if length kept = length (st_queues s) then (False, s\<lparr>st_queues := kept\<rparr>)
         else (True, s\<lparr>st_queues := kept,
                st_queue_tombstones := tput qid now (st_queue_tombstones s),
                st_consumers := filter (\<lambda>c. cn_queue_id c \<noteq> qid) (st_consumers s),
                st_consumer_tombstones :=
                  fold (\<lambda>c. tput (cn_id c) now) (filter (\<lambda>c. cn_queue_id c = qid) (st_consumers s)) (st_consumer_tombstones s),
                st_logs := tdel qid (st_logs s)\<rparr>))"

definition list_consumers :: "string \<Rightarrow> 'm queue_store \<Rightarrow> consumer list" where
  "list_consumers qid s = filter (\<lambda>c. cn_queue_id c = qid) (st_consumers s)"

definition consumers_total_count :: "string \<Rightarrow> 'm queue_store \<Rightarrow> nat" where
  "consumers_total_count qid s = length (filter (\<lambda>c. cn_queue_id c = qid) (st_consumers s))"

definition create_consumer ::
  "nat \<Rightarrow> string \<Rightarrow> string \<Rightarrow> consumer_type \<Rightarrow> consumer_settings \<Rightarrow> string \<Rightarrow> string option \<Rightarrow> 'm queue_store \<Rightarrow>
    consumer \<times> 'm queue_store" where
  "create_consumer now fresh qid kind settings script dlq s =
     (let c = \<lparr>cn_id = fresh, cn_queue_id = qid, cn_kind = kind, cn_settings = cs_clamped settings,
               cn_script_name = script, cn_dead_letter_queue = dlq, cn_created_on = now\<rparr>
      in (c, s\<lparr>st_consumers := st_consumers s @ [c]\<rparr>))"

definition delete_consumer :: "nat \<Rightarrow> string \<Rightarrow> string \<Rightarrow> 'm queue_store \<Rightarrow> bool \<times> 'm queue_store" where
  "delete_consumer now qid cid s =
     (let kept = filter (\<lambda>c. \<not> (cn_queue_id c = qid \<and> cn_id c = cid)) (st_consumers s);
          removed = (length kept \<noteq> length (st_consumers s));
          s1 = s\<lparr>st_consumers := kept\<rparr>
      in (removed, if removed then s1\<lparr>st_consumer_tombstones := tput cid now (st_consumer_tombstones s1)\<rparr> else s1))"

definition get_consumer :: "string \<Rightarrow> string \<Rightarrow> 'm queue_store \<Rightarrow> consumer option" where
  "get_consumer qid cid s = find (\<lambda>c. cn_queue_id c = qid \<and> cn_id c = cid) (st_consumers s)"

subsection \<open>Messages\<close>

definition available :: "nat \<Rightarrow> 'm queue_message \<Rightarrow> bool" where
  "available now m \<longleftrightarrow> qm_timestamp_ms m \<le> now \<and> (case qm_lease m of None \<Rightarrow> True | Some (_, ex) \<Rightarrow> ex \<le> now)"

definition leased_by :: "nat \<Rightarrow> string \<Rightarrow> 'm queue_message \<Rightarrow> bool" where
  "leased_by now lid m = (case qm_lease m of None \<Rightarrow> False | Some (i, ex) \<Rightarrow> i = lid \<and> ex > now)"

definition send ::
  "nat \<Rightarrow> string \<Rightarrow> string \<Rightarrow> string \<Rightarrow> 'm \<Rightarrow> nat \<Rightarrow> 'm queue_store \<Rightarrow>
    (string + string) \<times> 'm queue_store \<times> 'm guardian_cmd list" where
  "send now fresh qid body metadata delay_secs s =
     (if length body > MAX_MESSAGE_BODY_BYTES then (Inl ''message body exceeds the 131072-byte limit'', s, [])
      else (let m = \<lparr>qm_id = fresh, qm_body = body, qm_timestamp_ms = now + delay_secs * 1000, qm_attempts = 0,
                     qm_metadata = metadata, qm_lease = None\<rparr>
            in (Inr fresh, set_messages qid (messages_of qid s @ [m]) s, [Guardian_Put (guardian_key qid fresh) m])))"

definition backlog_stats :: "nat \<Rightarrow> 'm queue_message list \<Rightarrow> nat \<times> nat \<times> nat option" where
  "backlog_stats now ms =
     (let av = filter (available now) ms
      in (length av, sum_list (map (\<lambda>m. length (qm_body m)) av),
          min_by_key id (map qm_timestamp_ms av)))"

definition lease_message :: "string \<Rightarrow> nat \<Rightarrow> 'm queue_message \<Rightarrow> 'm queue_message" where
  "lease_message lid ex m = m\<lparr>qm_lease := Some (lid, ex), qm_attempts := qm_attempts m + 1\<rparr>"

text \<open>The loop of \<open>pull\<close>; \<open>lids n\<close> is the lease identifier drawn for the \<open>n\<close>-th message taken.\<close>

fun pull_loop ::
  "nat \<Rightarrow> nat \<Rightarrow> nat \<Rightarrow> (nat \<Rightarrow> string) \<Rightarrow> nat \<Rightarrow> 'm queue_message list \<Rightarrow>
    'm queue_message list \<times> 'm queue_message list" where
  "pull_loop now ex batch lids n [] = ([], [])"
| "pull_loop now ex batch lids n (m # ms) =
     (if as_u32 n \<ge> batch then ([], m # ms)
      else if \<not> available now m
      then (let (out, ms') = pull_loop now ex batch lids n ms in (out, m # ms'))
      else (let (out, ms') = pull_loop now ex batch lids (n + 1) ms
            in (lease_message (lids n) ex m # out, lease_message (lids n) ex m # ms')))"

definition pull ::
  "nat \<Rightarrow> (nat \<Rightarrow> string) \<Rightarrow> nat \<Rightarrow> nat \<Rightarrow> 'm queue_message list \<Rightarrow> 'm queue_message list \<times> 'm queue_message list" where
  "pull now lids batch visibility_ms ms = pull_loop now (now + visibility_ms) batch lids 0 ms"

definition ack ::
  "nat \<Rightarrow> string \<Rightarrow> string \<Rightarrow> 'm queue_message list \<Rightarrow> bool \<times> 'm queue_message list \<times> 'm guardian_cmd list" where
  "ack now qid lid ms =
     (let kept = filter (\<lambda>m. \<not> leased_by now lid m) ms;
          acked = filter (leased_by now lid) ms
      in (length kept \<noteq> length ms, kept,
          if acked = [] then [] else [Guardian_Delete (guardian_key qid (qm_id (last acked)))]))"

definition retry :: "nat \<Rightarrow> string \<Rightarrow> nat \<Rightarrow> 'm queue_message list \<Rightarrow> bool \<times> 'm queue_message list" where
  "retry now lid delay_secs ms =
     (list_ex (leased_by now lid) ms,
      upd_first (leased_by now lid) (\<lambda>m. m\<lparr>qm_lease := None, qm_timestamp_ms := now + delay_secs * 1000\<rparr>) ms)"

text \<open>The loop of \<open>take_due_for_push\<close>; \<open>n\<close> messages are taken so far.\<close>

fun take_due :: "nat \<Rightarrow> nat \<Rightarrow> nat \<Rightarrow> 'm queue_message list \<Rightarrow> 'm queue_message list \<times> 'm queue_message list" where
  "take_due now max_batch n [] = ([], [])"
| "take_due now max_batch n (m # ms) =
     (if as_u32 n \<ge> max_batch \<or> qm_timestamp_ms m > now \<or> qm_lease m \<noteq> None
      then (let (taken, rest) = take_due now max_batch n ms in (taken, m # rest))
      else (let (taken, rest) = take_due now max_batch (n + 1) ms
            in (m\<lparr>qm_attempts := qm_attempts m + 1\<rparr> # taken, rest)))"

definition take_due_for_push :: "nat \<Rightarrow> nat \<Rightarrow> 'm queue_message list \<Rightarrow> 'm queue_message list \<times> 'm queue_message list" where
  "take_due_for_push now max_batch ms = take_due now max_batch 0 ms"

definition dead_message :: "nat \<Rightarrow> 'm queue_message \<Rightarrow> 'm queue_message" where
  "dead_message now m = m\<lparr>qm_attempts := 0, qm_lease := None, qm_timestamp_ms := now\<rparr>"

definition dead_letter ::
  "nat \<Rightarrow> string \<Rightarrow> string option \<Rightarrow> 'm queue_message list \<Rightarrow> 'm queue_store \<Rightarrow> 'm queue_store \<times> 'm guardian_cmd list" where
  "dead_letter now qid dlq ms s =
     (if ms = [] then (s, [])
      else (let dels = map (\<lambda>m. Guardian_Delete (guardian_key qid (qm_id m))) ms
            in (case dlq of
                  None \<Rightarrow> (s, dels)
                | Some d \<Rightarrow>
                    (let dead = map (dead_message now) ms
                     in (set_messages d (messages_of d s @ dead) s,
                         dels @ map (\<lambda>m. Guardian_Put (guardian_key d (qm_id m)) m) dead)))))"

definition reschedule ::
  "nat \<Rightarrow> string \<Rightarrow> 'm queue_message \<Rightarrow> nat \<Rightarrow> 'm queue_message list \<Rightarrow> 'm queue_message list \<times> 'm guardian_cmd list" where
  "reschedule now qid m backoff_ms ms =
     (let m' = m\<lparr>qm_timestamp_ms := now + backoff_ms, qm_lease := None\<rparr>
      in (ms @ [m'], [Guardian_Put (guardian_key qid (qm_id m)) m']))"

definition mark_delivered :: "string \<Rightarrow> string \<Rightarrow> 'm guardian_cmd list" where
  "mark_delivered qid mid = [Guardian_Delete (guardian_key qid mid)]"

definition sweep_expired ::
  "nat \<Rightarrow> string \<Rightarrow> nat \<Rightarrow> 'm queue_message list \<Rightarrow> nat \<times> 'm queue_message list \<times> 'm guardian_cmd list" where
  "sweep_expired now qid retention_secs ms =
     (if ms = [] then (0, ms, [])
      else (let expired = map qm_id (filter (\<lambda>m. now - qm_timestamp_ms m > retention_secs * 1000) ms);
                to_reap = remdups (take (max (length ms div 2) 1) expired)
            in if to_reap = [] then (0, ms, [])
               else (length to_reap, filter (\<lambda>m. qm_id m \<notin> set to_reap) ms,
                     map (\<lambda>i. Guardian_Delete (guardian_key qid i)) to_reap)))"

text \<open>\<open>entries\<close> is what the mirror lists: a key and the message it decodes to, if any.\<close>

fun adopt :: "string \<Rightarrow> (string \<times> 'm queue_message option) list \<Rightarrow> 'm queue_message list \<Rightarrow> 'm queue_message list" where
  "adopt prefix [] ms = ms"
| "adopt prefix ((key, m) # entries) ms =
     (if \<not> starts_with prefix key then adopt prefix entries ms
      else (case m of
              None \<Rightarrow> adopt prefix entries ms
            | Some m' \<Rightarrow> adopt prefix entries
                (if list_ex (\<lambda>x. qm_id x = qm_id m') ms then ms else ms @ [m'])))"

definition sync_from_guardian ::
  "string \<Rightarrow> (string \<times> 'm queue_message option) list \<Rightarrow> 'm queue_message list \<Rightarrow> 'm queue_message list" where
  "sync_from_guardian qid entries ms = adopt (''queues/msg/'' @ qid @ ''/'') entries ms"

definition ensure_synced :: "string \<Rightarrow> (string \<times> 'm queue_message option) list \<Rightarrow> 'm message_log \<Rightarrow> 'm message_log" where
  "ensure_synced qid entries l =
     (if ml_synced_once l then l
      else \<lparr>ml_messages = sync_from_guardian qid entries (ml_messages l), ml_synced_once = True\<rparr>)"

text \<open>The first use of a queue on a node reads its messages back from the mirror.\<close>

definition sync_log :: "string \<Rightarrow> (string \<times> 'm queue_message option) list \<Rightarrow> 'm queue_store \<Rightarrow> 'm queue_store" where
  "sync_log qid entries s =
     (let (l, s1) = log_for qid s in s1\<lparr>st_logs := tput qid (ensure_synced qid entries l) (st_logs s1)\<rparr>)"

definition store_pull ::
  "nat \<Rightarrow> (nat \<Rightarrow> string) \<Rightarrow> string \<Rightarrow> (string \<times> 'm queue_message option) list \<Rightarrow> nat \<Rightarrow> nat \<Rightarrow>
    'm queue_store \<Rightarrow> 'm queue_message list \<times> 'm queue_store" where
  "store_pull now lids qid entries batch visibility_ms s =
     (let s1 = sync_log qid entries s;
          (out, ms) = pull now lids batch visibility_ms (messages_of qid s1)
      in (out, set_messages qid ms s1))"

definition store_backlog ::
  "nat \<Rightarrow> string \<Rightarrow> (string \<times> 'm queue_message option) list \<Rightarrow> 'm queue_store \<Rightarrow>
    (nat \<times> nat \<times> nat option) \<times> 'm queue_store" where
  "store_backlog now qid entries s =
     (let s1 = sync_log qid entries s in (backlog_stats now (messages_of qid s1), s1))"

subsection \<open>Push delivery\<close>

text \<open>What \<open>spawn_delivery_loop\<close> does with the messages of a batch that failed: those past the retries of the consumer are
  dead-lettered, the others go back one by one, each after a pause.\<close>

definition exhausted :: "consumer \<Rightarrow> 'm queue_message \<Rightarrow> bool" where
  "exhausted c m \<longleftrightarrow> cs_max_retries (cn_settings c) < qm_attempts m"

definition push_backoff :: "consumer \<Rightarrow> 'm queue_message \<Rightarrow> nat" where
  "push_backoff c m =
     (if 0 < cs_retry_delay (cn_settings c) then cs_retry_delay (cn_settings c) * 1000
      else min (1000 * 2 ^ min (qm_attempts m) 6) 60000)"

subsection \<open>Replication\<close>

record synced_queues =
  sy_queues :: "queue_record list"
  sy_consumers :: "consumer list"
  sy_queue_tombstones :: "(string, nat) table"
  sy_consumer_tombstones :: "(string, nat) table"

definition load :: "synced_queues \<Rightarrow> 'm queue_store \<Rightarrow> 'm queue_store" where
  "load sy s = s\<lparr>st_queues := sy_queues sy, st_consumers := sy_consumers sy,
     st_queue_tombstones := sy_queue_tombstones sy, st_consumer_tombstones := sy_consumer_tombstones sy\<rparr>"

definition snapshot_synced :: "'m queue_store \<Rightarrow> synced_queues" where
  "snapshot_synced s = \<lparr>sy_queues = sort_key q_id (st_queues s), sy_consumers = sort_key cn_id (st_consumers s),
     sy_queue_tombstones = st_queue_tombstones s, sy_consumer_tombstones = st_consumer_tombstones s\<rparr>"

definition merge_tombstones :: "nat \<Rightarrow> (string, nat) table \<Rightarrow> (string, nat) table \<Rightarrow> (string, nat) table" where
  "merge_tombstones now remote local =
     tretain (\<lambda>_ ms. now - ms < TOMBSTONE_RETENTION_MS)
       (fold (\<lambda>(i, ms) t. tput i (case tget t i of None \<Rightarrow> ms | Some e \<Rightarrow> if ms > e then ms else e) t) remote local)"

definition merge_queue :: "queue_record \<Rightarrow> queue_record list \<Rightarrow> queue_record list" where
  "merge_queue r qs =
     (if list_ex (\<lambda>q. q_id q = q_id r) qs
      then upd_first (\<lambda>q. q_id q = q_id r) (\<lambda>l. if q_modified_on r \<ge> q_modified_on l then r else l) qs
      else qs @ [r])"

definition merge_consumer :: "consumer \<Rightarrow> consumer list \<Rightarrow> consumer list" where
  "merge_consumer r cs = (if list_ex (\<lambda>c. cn_id c = cn_id r) cs then cs else cs @ [r])"

definition not_buried :: "(string, nat) table \<Rightarrow> string \<Rightarrow> nat \<Rightarrow> bool" where
  "not_buried tombs i created = (case tget tombs i of None \<Rightarrow> True | Some ts \<Rightarrow> ts < created)"

definition merge_synced :: "nat \<Rightarrow> synced_queues \<Rightarrow> 'm queue_store \<Rightarrow> nat \<times> 'm queue_store" where
  "merge_synced now remote s =
     (let qt = merge_tombstones now (sy_queue_tombstones remote) (st_queue_tombstones s);
          ct = merge_tombstones now (sy_consumer_tombstones remote) (st_consumer_tombstones s);
          qs = filter (\<lambda>q. not_buried qt (q_id q) (q_created_on q)) (fold merge_queue (sy_queues remote) (st_queues s));
          cs = filter (\<lambda>c. not_buried ct (cn_id c) (cn_created_on c)) (fold merge_consumer (sy_consumers remote) (st_consumers s))
      in (length qs, s\<lparr>st_queues := qs, st_consumers := cs, st_queue_tombstones := qt, st_consumer_tombstones := ct\<rparr>))"

end
