(* ===== verification/Cloud_Queues_Props.thy ===== *)
theory Cloud_Queues_Props
  imports Cloud_Queues
begin

text \<open>
  What the message queues promise: no message is lost or duplicated by any sequence of operations
  on its owner, a pulled message is exclusive until its lease ends, an acknowledgement only works
  with a live lease, the sweep is bounded, and a deleted queue is not brought back by a merge.
\<close>

section \<open>Lookup of messages\<close>

lemma messages_set [simp]:
  "messages_of qid' (set_messages qid ms s) = (if qid' = qid then ms else messages_of qid' s)"
  by (auto simp: messages_of_def set_messages_def log_for_def log_default_def Let_def split: option.split)

definition synced :: "string \<Rightarrow> 'm queue_store \<Rightarrow> bool" where
  "synced qid s \<longleftrightarrow> ml_synced_once (fst (log_for qid s))"

lemma synced_set [simp]: "synced qid (set_messages qid' ms s) = synced qid s"
  by (auto simp: synced_def set_messages_def log_for_def log_default_def Let_def split: option.split)

lemma synced_sync: "synced qid s \<Longrightarrow> synced qid (sync_log qid entries s)"
  by (auto simp: synced_def sync_log_def log_for_def ensure_synced_def log_default_def split: option.splits)

lemma messages_sync: "synced qid s \<Longrightarrow> messages_of qid (sync_log qid entries s) = messages_of qid s"
  by (auto simp: synced_def sync_log_def messages_of_def log_for_def ensure_synced_def log_default_def split: option.splits)

lemma store_pull_synced:
  "synced qid s \<Longrightarrow>
    messages_of qid (snd (store_pull now lids qid entries batch vis s)) = snd (pull now lids batch vis (messages_of qid s)) \<and>
    synced qid (snd (store_pull now lids qid entries batch vis s))"
  by (simp add: store_pull_def Let_def case_prod_unfold synced_sync messages_sync)

section \<open>The loops\<close>

lemma lease_message_fields [simp]:
  "qm_id (lease_message lid ex m) = qm_id m" "qm_body (lease_message lid ex m) = qm_body m"
  "qm_lease (lease_message lid ex m) = Some (lid, ex)"
  "qm_timestamp_ms (lease_message lid ex m) = qm_timestamp_ms m"
  by (simp_all add: lease_message_def)

text \<open>What \<open>pull\<close> does to each message: nothing, or lease it when it is available.\<close>

lemma pull_loop_all2:
  "list_all2 (\<lambda>m m'. m' = m \<or>
      (\<exists>i. m' = lease_message (lids i) ex m \<and> available now m \<and> m' \<in> set (fst (pull_loop now ex batch lids n ms))))
    ms (snd (pull_loop now ex batch lids n ms))"
proof (induction now ex batch lids n ms rule: pull_loop.induct)
  case (1 now ex batch lids n)
  then show ?case by simp
next
  case (2 now ex batch lids n m ms)
  consider "as_u32 n \<ge> batch" | "\<not> as_u32 n \<ge> batch" "\<not> available now m" | "\<not> as_u32 n \<ge> batch" "available now m" by blast
  then show ?case
  proof cases
    case 1
    then show ?thesis by (simp add: list_all2_same)
  next
    case 2
    then show ?thesis using "2.IH"(1) [OF 2] by (simp add: case_prod_unfold Let_def)
  next
    case 3
    have "\<not> \<not> available now m" using 3(2) by simp
    from "2.IH"(2) [OF 3(1) this] 3 show ?thesis
      by (auto simp: case_prod_unfold Let_def elim!: list_all2_mono)
  qed
qed

lemma pull_loop_out:
  "m' \<in> set (fst (pull_loop now ex batch lids n ms)) \<Longrightarrow>
    \<exists>m \<in> set ms. available now m \<and> (\<exists>i. m' = lease_message (lids i) ex m)"
  by (induction now ex batch lids n ms rule: pull_loop.induct) (auto simp: case_prod_unfold Let_def split: if_splits)

lemma pull_loop_subset:
  "set (fst (pull_loop now ex batch lids n ms)) \<subseteq> set (snd (pull_loop now ex batch lids n ms))"
  by (induction now ex batch lids n ms rule: pull_loop.induct) (auto simp: case_prod_unfold Let_def)

lemma pull_loop_ids: "map qm_id (snd (pull_loop now ex batch lids n ms)) = map qm_id ms"
  by (induction now ex batch lids n ms rule: pull_loop.induct) (auto simp: case_prod_unfold Let_def)

lemma pull_loop_batch:
  "pull_loop now ex batch lids n ms = (out, ms') \<Longrightarrow> n \<le> batch \<Longrightarrow> batch < 2 ^ 32 \<Longrightarrow> length out \<le> batch - n"
proof (induction now ex batch lids n ms arbitrary: out ms' rule: pull_loop.induct)
  case (1 now ex batch lids n)
  then show ?case by simp
next
  case (2 now ex batch lids n m ms)
  have n: "as_u32 n = n" using "2.prems" by (simp add: as_u32_exact)
  show ?case
  proof (cases "as_u32 n \<ge> batch")
    case True
    then show ?thesis using "2.prems" by simp
  next
    case False
    show ?thesis
    proof (cases "available now m")
      case True
      obtain o' r where r: "pull_loop now ex batch lids (n + 1) ms = (o', r)" by fastforce
      then have "length o' \<le> batch - (n + 1)" using "2.IH"(2) [OF False] True "2.prems" False n by auto
      then show ?thesis using "2.prems"(1) True False r n by (auto simp: Let_def)
    next
      case na: False
      obtain o' r where r: "pull_loop now ex batch lids n ms = (o', r)" by fastforce
      then show ?thesis using "2.IH"(1) [OF False na r] "2.prems" na False by (auto simp: Let_def)
    qed
  qed
qed

lemma take_due_ids:
  "take_due now max_batch n ms = (taken, rest) \<Longrightarrow>
    mset (map qm_id taken) + mset (map qm_id rest) = mset (map qm_id ms)"
  by (induction now max_batch n ms arbitrary: taken rest rule: take_due.induct)
    (auto simp: Let_def split: if_splits prod.splits)

lemma take_due_unleased:
  "take_due now max_batch n ms = (taken, rest) \<Longrightarrow> m \<in> set taken \<Longrightarrow> qm_lease m = None \<and> qm_timestamp_ms m \<le> now"
proof (induction now max_batch n ms arbitrary: taken rest rule: take_due.induct)
  case (2 now max_batch n x ms)
  show ?case
  proof (cases "as_u32 n \<ge> max_batch \<or> qm_timestamp_ms x > now \<or> qm_lease x \<noteq> None")
    case True
    then show ?thesis using "2.IH"(1) [OF True] "2.prems" by (auto simp: case_prod_unfold Let_def prod_eq_iff)
  next
    case False
    then have "qm_lease x = None" by blast
    then show ?thesis using False "2.IH"(2) [OF False] "2.prems" by (auto simp: case_prod_unfold Let_def prod_eq_iff)
  qed
qed simp

lemma upd_first_ids: "(\<And>m. qm_id (f m) = qm_id m) \<Longrightarrow> map qm_id (upd_first p f ms) = map qm_id ms"
  by (rule map_upd_first)

lemma mset_filter_split: "mset (map f (filter P xs)) + mset (map f (filter (\<lambda>x. \<not> P x) xs)) = mset (map f xs)"
  by (induction xs) auto

section \<open>Conservation\<close>

text \<open>The queues of a node: the store, the messages taken out for a push delivery (each with its queue), and what became of every message
  that left for good, with the reason. \<open>qw_accepted\<close> are the messages a queue was given, by a sender or as a dead letter of
  another queue; \<open>qw_adopted\<close> those it read back from the mirror.\<close>

datatype 'm settlement =
    Acknowledged string nat "'m queue_message"
  | Delivered "'m queue_message"
  | Dead_Lettered consumer "'m queue_message"
  | Expired nat nat "nat list" "'m queue_message"
  | Deleted_With_Queue "'m queue_message"

fun settled_message :: "'m settlement \<Rightarrow> 'm queue_message" where
  "settled_message (Acknowledged lid now m) = m"
| "settled_message (Delivered m) = m"
| "settled_message (Dead_Lettered c m) = m"
| "settled_message (Expired now retention ts m) = m"
| "settled_message (Deleted_With_Queue m) = m"

text \<open>The reason is one: the message was leased under the identifier of the acknowledgement and the lease still ran; it had
  been tried more often than its consumer allows; it, or a copy of it under the same identifier (\<open>ts\<close> are those of all copies), was older than
  the retention.\<close>

fun reason_holds :: "'m settlement \<Rightarrow> bool" where
  "reason_holds (Acknowledged lid now m) = leased_by now lid m"
| "reason_holds (Delivered m) = True"
| "reason_holds (Dead_Lettered c m) = exhausted c m"
| "reason_holds (Expired now retention ts m) = list_ex (\<lambda>t. retention * 1000 < now - t) ts"
| "reason_holds (Deleted_With_Queue m) = True"

record 'm queue_world =
  qw_store :: "'m queue_store"
  qw_in_push :: "(string \<times> 'm queue_message) list"
  qw_settled :: "(string \<times> 'm settlement) list"
  qw_accepted :: "(string \<times> string) list"
  qw_adopted :: "(string \<times> string) list"

definition of_queue :: "string \<Rightarrow> (string \<times> 'a) list \<Rightarrow> 'a list" where
  "of_queue qid xs = map snd (filter (\<lambda>x. fst x = qid) xs)"

lemma of_queue_simps [simp]:
  "of_queue q [] = []" "of_queue q (x # xs) = (if fst x = q then snd x # of_queue q xs else of_queue q xs)"
  "of_queue q (xs @ ys) = of_queue q xs @ of_queue q ys"
  by (simp_all add: of_queue_def)

lemma of_queue_map_Pair [simp]: "of_queue q (map (\<lambda>x. (q', f x)) xs) = (if q' = q then map f xs else [])"
  by (induction xs) auto

datatype 'm queue_op =
    Q_Send nat string string string 'm nat
  | Q_Pull nat "nat \<Rightarrow> string" string "(string \<times> 'm queue_message option) list" nat nat
  | Q_Ack nat string string
  | Q_Retry nat string string nat
  | Q_Take nat string nat
  | Q_Delivered string
  | Q_Dead_Letter nat string consumer
  | Q_Reschedule nat string consumer
  | Q_Sweep nat string nat
  | Q_Sync string "(string \<times> 'm queue_message option) list"
  | Q_Delete nat string string

text \<open>The first message in push of a queue, and the others.\<close>

fun pop_queue :: "string \<Rightarrow> (string \<times> 'a) list \<Rightarrow> ('a \<times> (string \<times> 'a) list) option" where
  "pop_queue qid [] = None"
| "pop_queue qid ((q, m) # xs) =
     (if q = qid then Some (m, xs) else map_option (\<lambda>(m', ys). (m', (q, m) # ys)) (pop_queue qid xs))"

text \<open>\<open>Q_Delivered\<close>, \<open>Q_Dead_Letter\<close> and \<open>Q_Reschedule\<close> are the critical sections at the end of a batch; other operations may come between
  them. \<open>Q_Sync\<close> is the periodic \<open>sync_from_guardian\<close>, which takes its lock once per entry, so a sync in pieces is several of them.\<close>

fun queue_exec :: "'m queue_op \<Rightarrow> 'm queue_world \<Rightarrow> 'm queue_world" where
  "queue_exec (Q_Send now fresh qid body meta delay) w =
     (case send now fresh qid body meta delay (qw_store w) of
        (Inl _, _) \<Rightarrow> w
      | (Inr i, s, _) \<Rightarrow> w\<lparr>qw_store := s, qw_accepted := qw_accepted w @ [(qid, i)]\<rparr>)"
| "queue_exec (Q_Pull now lids qid entries batch vis) w =
     w\<lparr>qw_store := snd (store_pull now lids qid entries batch vis (qw_store w)),
       qw_adopted := qw_adopted w @ map (\<lambda>m. (qid, qm_id m))
         (drop (length (messages_of qid (qw_store w))) (messages_of qid (sync_log qid entries (qw_store w))))\<rparr>"
| "queue_exec (Q_Ack now qid lid) w =
     (let ms = messages_of qid (qw_store w)
      in w\<lparr>qw_store := set_messages qid (fst (snd (ack now qid lid ms))) (qw_store w),
           qw_settled := qw_settled w @ map (\<lambda>m. (qid, Acknowledged lid now m)) (filter (leased_by now lid) ms)\<rparr>)"
| "queue_exec (Q_Retry now qid lid delay) w =
     w\<lparr>qw_store := set_messages qid (snd (retry now lid delay (messages_of qid (qw_store w)))) (qw_store w)\<rparr>"
| "queue_exec (Q_Take now qid n) w =
     (let (taken, rest) = take_due_for_push now n (messages_of qid (qw_store w))
      in w\<lparr>qw_store := set_messages qid rest (qw_store w), qw_in_push := qw_in_push w @ map (\<lambda>m. (qid, m)) taken\<rparr>)"
| "queue_exec (Q_Delivered qid) w =
     w\<lparr>qw_in_push := filter (\<lambda>x. fst x \<noteq> qid) (qw_in_push w),
       qw_settled := qw_settled w @ map (\<lambda>m. (qid, Delivered m)) (of_queue qid (qw_in_push w))\<rparr>"
| "queue_exec (Q_Dead_Letter now qid c) w =
     (let dead = filter (exhausted c) (of_queue qid (qw_in_push w))
      in w\<lparr>qw_store := fst (dead_letter now qid (cn_dead_letter_queue c) dead (qw_store w)),
           qw_in_push := filter (\<lambda>x. \<not> (fst x = qid \<and> exhausted c (snd x))) (qw_in_push w),
           qw_settled := qw_settled w @ map (\<lambda>m. (qid, Dead_Lettered c m)) dead,
           qw_accepted := qw_accepted w @
             (case cn_dead_letter_queue c of None \<Rightarrow> [] | Some d \<Rightarrow> map (\<lambda>m. (d, qm_id m)) dead)\<rparr>)"
| "queue_exec (Q_Reschedule now qid c) w =
     (case pop_queue qid (qw_in_push w) of
        None \<Rightarrow> w
      | Some (m, rest) \<Rightarrow>
          w\<lparr>qw_store := set_messages qid (fst (reschedule now qid m (push_backoff c m) (messages_of qid (qw_store w)))) (qw_store w),
            qw_in_push := rest\<rparr>)"
| "queue_exec (Q_Sweep now qid retention) w =
     (let ms = messages_of qid (qw_store w); kept = fst (snd (sweep_expired now qid retention ms))
      in w\<lparr>qw_store := set_messages qid kept (qw_store w),
           qw_settled := qw_settled w @ map (\<lambda>m. (qid, Expired now retention (map qm_timestamp_ms (filter (\<lambda>x. qm_id x = qm_id m) ms)) m))
             (filter (\<lambda>m. m \<notin> set kept) ms)\<rparr>)"
| "queue_exec (Q_Sync qid entries) w =
     (let ms = messages_of qid (qw_store w); ms' = sync_from_guardian qid entries ms
      in w\<lparr>qw_store := set_messages qid ms' (qw_store w),
           qw_adopted := qw_adopted w @ map (\<lambda>m. (qid, qm_id m)) (drop (length ms) ms')\<rparr>)"
| "queue_exec (Q_Delete now tenant qid) w =
     (let (existed, s) = q_delete now tenant qid (qw_store w)
      in w\<lparr>qw_store := s,
           qw_settled := qw_settled w @
             (if existed then map (\<lambda>m. (qid, Deleted_With_Queue m)) (messages_of qid (qw_store w)) else [])\<rparr>)"

definition queue_world_new :: "queue_record list \<Rightarrow> 'm queue_world" where
  "queue_world_new qs = \<lparr>qw_store = store_new\<lparr>st_queues := qs\<rparr>, qw_in_push = [], qw_settled = [], qw_accepted = [], qw_adopted = []\<rparr>"

definition ids_in_log :: "string \<Rightarrow> 'm queue_world \<Rightarrow> string multiset" where
  "ids_in_log qid w = mset (map qm_id (messages_of qid (qw_store w)))"

definition ids_in_push :: "string \<Rightarrow> 'm queue_world \<Rightarrow> string multiset" where
  "ids_in_push qid w = mset (map qm_id (of_queue qid (qw_in_push w)))"

definition ids_settled :: "string \<Rightarrow> 'm queue_world \<Rightarrow> string multiset" where
  "ids_settled qid w = mset (map (\<lambda>x. qm_id (settled_message x)) (of_queue qid (qw_settled w)))"

definition balanced :: "string \<Rightarrow> 'm queue_world \<Rightarrow> bool" where
  "balanced qid w \<longleftrightarrow> ids_in_log qid w + ids_in_push qid w + ids_settled qid w =
     mset (of_queue qid (qw_accepted w)) + mset (of_queue qid (qw_adopted w))"

lemmas queue_counts = balanced_def ids_in_log_def ids_in_push_def ids_settled_def

text \<open>Reading the mirror only appends.\<close>

lemma adopt_appends: "\<exists>new. adopt prefix entries ms = ms @ new"
proof (induction prefix entries ms rule: adopt.induct)
  case (2 prefix key m entries ms)
  then show ?case by (auto split: option.split)
qed simp

lemma adopt_drop: "ms @ drop (length ms) (adopt prefix entries ms) = adopt prefix entries ms"
  using adopt_appends [of prefix entries ms] by force

lemma messages_sync_log:
  "messages_of q (sync_log qid entries s) =
    (if q = qid \<and> \<not> ml_synced_once (fst (log_for qid s)) then sync_from_guardian qid entries (messages_of qid s) else messages_of q s)"
  by (auto simp: sync_log_def messages_of_def log_for_def ensure_synced_def log_default_def Let_def split: option.splits)

lemma sync_log_drop:
  "messages_of qid s @ drop (length (messages_of qid s)) (messages_of qid (sync_log qid entries s)) = messages_of qid (sync_log qid entries s)"
  by (simp add: messages_sync_log sync_from_guardian_def adopt_drop)

lemma sync_log_ids:
  "mset (map qm_id (messages_of qid (sync_log qid entries s))) =
    mset (map qm_id (messages_of qid s)) + mset (map qm_id (drop (length (messages_of qid s)) (messages_of qid (sync_log qid entries s))))"
  by (subst sync_log_drop [symmetric]) (simp del: mset_map)

lemma store_pull_messages:
  "messages_of q (snd (store_pull now lids qid entries batch vis s)) =
    (if q = qid then snd (pull now lids batch vis (messages_of qid (sync_log qid entries s))) else messages_of q s)"
  by (simp add: store_pull_def Let_def case_prod_unfold messages_sync_log)

lemma sweep_kept:
  "fst (snd (sweep_expired now qid retention ms)) = ms \<or>
    (\<exists>ids. fst (snd (sweep_expired now qid retention ms)) = filter (\<lambda>m. qm_id m \<notin> ids) ms)"
  by (auto simp: sweep_expired_def Let_def)

lemma sweep_ids:
  "mset (map qm_id (fst (snd (sweep_expired now qid retention ms)))) +
    mset (map qm_id (filter (\<lambda>m. m \<notin> set (fst (snd (sweep_expired now qid retention ms)))) ms)) = mset (map qm_id ms)"
  using sweep_kept [of now qid retention ms]
proof (elim disjE exE)
  let ?kept = "fst (snd (sweep_expired now qid retention ms))"
  fix ids assume k: "?kept = filter (\<lambda>m. qm_id m \<notin> ids) ms"
  have "filter (\<lambda>m. m \<notin> set ?kept) ms = filter (\<lambda>m. \<not> (qm_id m \<notin> ids)) ms"
    unfolding k by (rule filter_cong) auto
  then show ?thesis using mset_filter_split [of qm_id "\<lambda>m. qm_id m \<notin> ids" ms] unfolding k by simp
qed simp

lemma pop_queue_Some:
  "pop_queue qid xs = Some (m, ys) \<Longrightarrow> mset (of_queue q xs) = (if q = qid then add_mset m else id) (mset (of_queue q ys))"
  by (induction xs arbitrary: ys) (auto split: if_splits)

lemma of_queue_filter_out: "of_queue q (filter (\<lambda>x. fst x \<noteq> qid) xs) = (if q = qid then [] else of_queue q xs)"
  by (induction xs) auto

lemma of_queue_filter:
  "of_queue q (filter (\<lambda>x. fst x = qid \<longrightarrow> \<not> P (snd x)) xs) =
    (if q = qid then filter (\<lambda>m. \<not> P m) (of_queue q xs) else of_queue q xs)"
  by (induction xs) auto

lemma dead_letter_messages:
  "messages_of q (fst (dead_letter now qid dlq ms s)) =
    messages_of q s @ (if dlq = Some q then map (dead_message now) ms else [])"
  by (auto simp: dead_letter_def Let_def split: option.split)

lemma dead_message_id [simp]: "qm_id (dead_message now m) = qm_id m"
  by (simp add: dead_message_def)

lemma delete_messages:
  "messages_of q (snd (q_delete now tenant qid s)) =
    (if fst (q_delete now tenant qid s) \<and> q = qid then [] else messages_of q s)"
  by (auto simp: q_delete_def messages_of_def log_for_def log_default_def Let_def split: option.split simp del: map_of_eq_Some_iff)

lemma queue_exec_balanced:
  assumes "balanced q w"
  shows "balanced q (queue_exec op w)"
proof (cases op)
  case (Q_Send now fresh qid body meta delay)
  then show ?thesis using assms by (auto simp: queue_counts send_def Let_def)
next
  case (Q_Pull now lids qid entries batch vis)
  then show ?thesis using assms sync_log_ids [of qid entries "qw_store w"]
    by (cases "qid = q") (simp_all add: queue_counts store_pull_messages pull_def pull_loop_ids comp_def union_ac del: mset_map)
next
  case (Q_Ack now qid lid)
  show ?thesis
    using assms mset_filter_split [of qm_id "leased_by now lid" "messages_of qid (qw_store w)"]
    by (auto simp: Q_Ack queue_counts ack_def Let_def comp_def union_ac simp del: mset_map)
next
  case (Q_Retry now qid lid delay)
  then show ?thesis using assms by (auto simp: queue_counts retry_def upd_first_ids simp del: mset_map)
next
  case (Q_Take now qid n)
  obtain taken rest where t: "take_due now n 0 (messages_of qid (qw_store w)) = (taken, rest)" by fastforce
  show ?thesis using assms take_due_ids [OF t]
    by (auto simp: queue_counts Q_Take take_due_for_push_def t union_ac simp del: mset_map)
next
  case (Q_Delivered qid)
  then show ?thesis using assms by (auto simp: queue_counts of_queue_filter_out comp_def union_ac simp del: mset_map)
next
  case (Q_Dead_Letter now qid c)
  have f: "mset (map qm_id (filter P xs)) + mset (map qm_id (filter (\<lambda>x. \<not> P x) xs)) = mset (map qm_id xs)" for P and xs :: "'a queue_message list"
    by (rule mset_filter_split)
  show ?thesis
    using assms f [of "exhausted c" "of_queue qid (qw_in_push w)"]
    by (cases "cn_dead_letter_queue c")
      (auto simp: queue_counts Q_Dead_Letter Let_def of_queue_filter dead_letter_messages comp_def union_ac simp del: mset_map)
next
  case (Q_Reschedule now qid c)
  show ?thesis
  proof (cases "pop_queue qid (qw_in_push w)")
    case (Some p)
    then show ?thesis using assms pop_queue_Some [of qid "qw_in_push w" "fst p" "snd p" q]
      by (cases p) (auto simp: queue_counts Q_Reschedule reschedule_def Let_def)
  qed (use assms in \<open>simp add: Q_Reschedule\<close>)
next
  case (Q_Sweep now qid retention)
  then show ?thesis using assms sweep_ids [of now qid retention "messages_of qid (qw_store w)"]
    by (auto simp: queue_counts Let_def comp_def union_ac simp del: mset_map)
next
  case (Q_Sync qid entries)
  have "mset (map qm_id (sync_from_guardian qid entries ms)) =
      mset (map qm_id ms) + mset (map qm_id (drop (length ms) (sync_from_guardian qid entries ms)))" for ms :: "'a queue_message list"
    unfolding sync_from_guardian_def by (subst adopt_drop [symmetric]) (simp del: mset_map)
  from this [of "messages_of qid (qw_store w)"] show ?thesis using assms
    by (cases "qid = q") (simp_all add: Q_Sync queue_counts Let_def comp_def union_ac del: mset_map)
next
  case (Q_Delete now tenant qid)
  then show ?thesis using assms delete_messages [of q now tenant qid "qw_store w"]
    by (auto simp: queue_counts case_prod_unfold Let_def comp_def union_ac simp del: mset_map)
qed

lemma sweep_expired_old:
  assumes "m \<in> set ms" and "m \<notin> set (fst (snd (sweep_expired now qid retention ms)))"
  shows "\<exists>x \<in> set ms. qm_id x = qm_id m \<and> retention * 1000 < now - qm_timestamp_ms x"
proof -
  let ?old = "filter (\<lambda>m. now - qm_timestamp_ms m > retention * 1000) ms"
  have "qm_id m \<in> set (take (max (length ms div 2) 1) (map qm_id ?old))"
    using assms by (auto simp: sweep_expired_def Let_def split: if_splits)
  then have "qm_id m \<in> qm_id ` set ?old" by (metis in_set_takeD list.set_map)
  then show ?thesis by auto
qed

lemma queue_exec_reasons:
  "list_all (\<lambda>x. reason_holds (snd x)) (qw_settled w) \<Longrightarrow> list_all (\<lambda>x. reason_holds (snd x)) (qw_settled (queue_exec op w))"
proof (cases op)
  case (Q_Sweep now qid retention)
  assume "list_all (\<lambda>x. reason_holds (snd x)) (qw_settled w)"
  then show ?thesis using sweep_expired_old [of _ "messages_of qid (qw_store w)" now qid retention]
    by (fastforce simp: Q_Sweep Let_def list_all_iff list_ex_iff)
qed (auto simp: list_all_iff Let_def case_prod_unfold split: option.split sum.split)


definition demo_consumer :: consumer where
  "demo_consumer = \<lparr>cn_id = ''c'', cn_queue_id = ''q'', cn_kind = Worker, cn_settings = consumer_settings_default\<lparr>cs_max_retries := 0\<rparr>,
     cn_script_name = ''app'', cn_dead_letter_queue = Some ''dlq'', cn_created_on = 0\<rparr>"

definition demo_ops :: "nat queue_op list" where
  "demo_ops =
     [Q_Send 1 ''m1'' ''q'' ''a'' 7 0, Q_Send 2 ''m2'' ''q'' ''b'' 7 0, Q_Send 3 ''m3'' ''q'' ''c'' 7 0,
      Q_Pull 4 (\<lambda>n. nat_to_string n) ''q'' [] 1 100, Q_Take 5 ''q'' 1, Q_Dead_Letter 6 ''q'' demo_consumer, Q_Ack 50 ''q'' ''0'',
      Q_Pull 60 (\<lambda>n. ''l'') ''q'' [] 9 10]"


text \<open>A message that was delivered by push is delivered again when the node reads the mirror before the deletion it sent off has
  reached it.\<close>

lemma delivered_message_returns:
  "let m = \<lparr>qm_id = ''m1'', qm_body = ''a'', qm_timestamp_ms = 1, qm_attempts = 0, qm_metadata = 7, qm_lease = None\<rparr>;
       w = fold queue_exec [Q_Send 1 ''m1'' ''q'' ''a'' 7 0, Q_Take 5 ''q'' 1, Q_Delivered ''q'',
         Q_Sync ''q'' [(guardian_key ''q'' ''m1'', Some m)], Q_Take 9 ''q'' 1] (queue_world_new [] :: nat queue_world)
   in map (\<lambda>x. qm_id (snd x)) (qw_in_push w) = [''m1''] \<and> length (qw_settled w) = 1"
  by code_simp

section \<open>Leases of messages\<close>

text \<open>Pulled messages are exclusive: a pull returns only available messages, at most as many as
  asked for, leased to the caller until the visibility timeout; and no later pull before that time
  returns any of them again, however many messages it asks for.\<close>

theorem pull_exclusive:
  assumes "distinct (map qm_id ms)" and "batch < 2 ^ 32" and "pull now lids batch vis ms = (out, ms')"
    and "now' < now + vis" and "m \<in> set out"
  shows "length out \<le> batch \<and> (\<exists>i. qm_lease m = Some (lids i, now + vis)) \<and>
    (\<exists>m0 \<in> set ms. qm_id m0 = qm_id m \<and> available now m0) \<and>
    qm_id m \<notin> qm_id ` set (fst (pull now' lids' batch' vis' ms'))"
proof -
  have p: "pull_loop now (now + vis) batch lids 0 ms = (out, ms')" using assms(3) by (simp add: pull_def)
  have out: "\<exists>m0 \<in> set ms. available now m0 \<and> (\<exists>i. m = lease_message (lids i) (now + vis) m0)"
    using pull_loop_out [of m now "now + vis" batch lids 0 ms] assms(5) p by simp
  have len: "length out \<le> batch" using pull_loop_batch [OF p _ assms(2)] by simp
  have ids: "map qm_id ms' = map qm_id ms" using pull_loop_ids [of now "now + vis" batch lids 0 ms] p by simp
  have mem: "m \<in> set ms'"
    using pull_loop_subset [of now "now + vis" batch lids 0 ms] assms(5) p by auto
  have "\<not> available now' x" if "x \<in> set ms'" "qm_id x = qm_id m" for x
  proof -
    have "distinct (map qm_id ms')" using ids assms(1) by simp
    then have "x = m" using that mem by (auto simp: distinct_map inj_on_def)
    then show ?thesis using out assms(4) by (auto simp: available_def)
  qed
  then have "qm_id m \<notin> qm_id ` set (fst (pull now' lids' batch' vis' ms'))"
    using pull_loop_out [of _ now' "now' + vis'" batch' lids' 0 ms'] by (force simp: pull_def)
  then show ?thesis using len out by force
qed

definition two_messages :: "nat queue_message list" where
  "two_messages = ml_messages (the (tget (st_logs (qw_store (fold queue_exec (take 2 demo_ops) (queue_world_new [])))) ''q''))"

theorem pull_exclusive_witness:
  "\<exists>m \<in> set (fst (pull 4 (\<lambda>n. nat_to_string n) 1 100 two_messages)). qm_id m = ''m1'' \<and>
    qm_id m \<notin> qm_id ` set (fst (pull 103 (\<lambda>n. ''x'') 9 10 (snd (pull 4 (\<lambda>n. nat_to_string n) 1 100 two_messages))))"
proof -
  obtain m out ms' where p: "pull 4 (\<lambda>n. nat_to_string n) 1 100 two_messages = (out, ms')" and o: "out = [m]" and i: "qm_id m = ''m1''"
  proof -
    have "map qm_id (fst (pull 4 (\<lambda>n. nat_to_string n) 1 100 two_messages)) = [''m1'']" by code_simp
    then show ?thesis using that by (cases "pull 4 (\<lambda>n. nat_to_string n) 1 100 two_messages") auto
  qed
  have d: "distinct (map qm_id two_messages)" by code_simp
  have "qm_id m \<notin> qm_id ` set (fst (pull 103 (\<lambda>n. ''x'') 9 10 ms'))"
    using pull_exclusive [OF d _ p, of 103 m "\<lambda>n. ''x''" 9 10] o by simp
  then show ?thesis using p o i by simp
qed

text \<open>The lease identifiers a pull hands out are drawn in order.\<close>

lemma pull_loop_leases:
  "\<exists>k. map qm_lease (fst (pull_loop now ex batch lids n ms)) = map (\<lambda>i. Some (lids i, ex)) [n..<n + k]"
proof (induction now ex batch lids n ms rule: pull_loop.induct)
  case (1 now ex batch lids n)
  show ?case by (rule exI [of _ 0]) simp
next
  case (2 now ex batch lids n m ms)
  consider "as_u32 n \<ge> batch" | "\<not> as_u32 n \<ge> batch" "\<not> available now m" | "\<not> as_u32 n \<ge> batch" "available now m" by blast
  then show ?case
  proof cases
    case 1
    show ?thesis by (rule exI [of _ 0]) (simp add: 1)
  next
    case 2
    then show ?thesis using "2.IH"(1) [OF 2] by (simp add: case_prod_unfold Let_def)
  next
    case 3
    have "\<not> \<not> available now m" using 3(2) by simp
    from "2.IH"(2) [OF 3(1) this] obtain k where
      k: "map qm_lease (fst (pull_loop now ex batch lids (n + 1) ms)) = map (\<lambda>i. Some (lids i, ex)) [n + 1..<n + 1 + k]" by blast
    have "[n..<n + Suc k] = n # [n + 1..<n + 1 + k]" by (simp add: upt_conv_Cons)
    then show ?thesis using 3 k by (intro exI [of _ "Suc k"]) (simp add: case_prod_unfold Let_def)
  qed
qed

lemma pull_loop_elem:
  "x \<in> set (snd (pull_loop now ex batch lids n ms)) \<Longrightarrow> x \<in> set ms \<or> x \<in> set (fst (pull_loop now ex batch lids n ms))"
  by (induction now ex batch lids n ms rule: pull_loop.induct) (auto simp: case_prod_unfold Let_def split: if_splits)

text \<open>Acknowledgement of a pulled message: with the lease a pull returned, \<open>ack\<close> removes exactly that
  message from the log and from the mirror while the lease lives, and does nothing at all
  once the lease has expired.\<close>

theorem ack_exactly_pulled:
  assumes "distinct (map qm_id ms)" and "inj lids" and "\<forall>x \<in> set ms. \<forall>i e. qm_lease x \<noteq> Some (lids i, e)"
    and "pull now lids batch vis ms = (out, ms')" and "m \<in> set out" and "qm_lease m = Some (lid, ex)"
  shows "ack t qid lid ms' =
    (if t < now + vis then (True, filter (\<lambda>x. qm_id x \<noteq> qm_id m) ms', [Guardian_Delete (guardian_key qid (qm_id m))])
     else (False, ms', []))"
proof -
  have p: "pull_loop now (now + vis) batch lids 0 ms = (out, ms')" using assms(4) by (simp add: pull_def)
  obtain i where i: "lid = lids i" "ex = now + vis"
    using pull_loop_out [of m now "now + vis" batch lids 0 ms] assms(5,6) p by auto
  obtain k where k: "map qm_lease out = map (\<lambda>i. Some (lids i, now + vis)) [0..<0 + k]"
    using pull_loop_leases [of now "now + vis" batch lids 0 ms] p by auto
  have "distinct (map qm_lease out)"
    unfolding k using assms(2) by (auto simp: distinct_map inj_on_def)
  then have uniq_out: "x = m" if "x \<in> set out" "qm_lease x = qm_lease m" for x
    using that assms(5) by (auto simp: distinct_map inj_on_def)
  have mem: "m \<in> set ms'" using pull_loop_subset [of now "now + vis" batch lids 0 ms] assms(5) p by auto
  have ids: "map qm_id ms' = map qm_id ms" using pull_loop_ids [of now "now + vis" batch lids 0 ms] p by simp
  then have uniq_id: "x = m" if "x \<in> set ms'" "qm_id x = qm_id m" for x
    using that mem assms(1) by (metis distinct_map inj_onD)
  have iff: "leased_by t lid x \<longleftrightarrow> x = m \<and> t < now + vis" if x: "x \<in> set ms'" for x
  proof
    assume l: "leased_by t lid x"
    then obtain e where e: "qm_lease x = Some (lids i, e)" "t < e" by (auto simp: leased_by_def i split: option.splits)
    then have "x \<notin> set ms" using assms(3) by blast
    then have xo: "x \<in> set out" using pull_loop_elem [of x now "now + vis" batch lids 0 ms] x p by auto
    then have "e = now + vis" using pull_loop_out [of x now "now + vis" batch lids 0 ms] p e by auto
    then show "x = m \<and> t < now + vis" using uniq_out [OF xo] e assms(6) i by simp
  next
    assume "x = m \<and> t < now + vis"
    then show "leased_by t lid x" using assms(6) i by (simp add: leased_by_def)
  qed
  show ?thesis
  proof (cases "t < now + vis")
    case True
    have kept: "filter (\<lambda>x. \<not> leased_by t lid x) ms' = filter (\<lambda>x. qm_id x \<noteq> qm_id m) ms'"
      by (rule filter_cong) (use iff True uniq_id in auto)
    have acked: "filter (leased_by t lid) ms' = filter (\<lambda>x. x = m) ms'"
      by (rule filter_cong) (use iff True in auto)
    have "filter (\<lambda>x. x = m) ms' \<noteq> []" using mem by (simp add: filter_empty_conv)
    moreover from this have "last (filter (\<lambda>x. x = m) ms') = m" using last_in_set by fastforce
    moreover have "length (filter (\<lambda>x. qm_id x \<noteq> qm_id m) ms') < length ms'"
      using mem by (simp add: length_filter_less)
    ultimately show ?thesis using True by (simp add: ack_def kept acked)
  next
    case False
    have "filter (\<lambda>x. \<not> leased_by t lid x) ms' = ms'" "filter (leased_by t lid) ms' = []"
      using iff False by (auto simp: filter_id_conv filter_empty_conv)
    then show ?thesis using False by (simp add: ack_def)
  qed
qed

theorem ack_exactly_pulled_witness:
  "fst (ack 50 ''q'' ''a0'' (snd (pull 4 (\<lambda>n. replicate n CHR ''b'' @ ''a0'') 1 100 two_messages))) \<and>
   \<not> fst (ack 104 ''q'' ''a0'' (snd (pull 4 (\<lambda>n. replicate n CHR ''b'' @ ''a0'') 1 100 two_messages)))"
proof -
  let ?p = "pull 4 (\<lambda>n. replicate n CHR ''b'' @ ''a0'') 1 100 two_messages"
  have "map (\<lambda>m. (qm_id m, qm_lease m)) (fst ?p) = [(''m1'', Some (''a0'', 104))]" by code_simp
  then obtain m where m: "fst ?p = [m]" "qm_lease m = Some (''a0'', 104)" by auto
  have d: "distinct (map qm_id two_messages)" by code_simp
  have j: "inj (\<lambda>n. replicate n CHR ''b'' @ ''a0'')" by (rule injI) (metis append_same_eq length_replicate)
  have n: "\<forall>x \<in> set two_messages. qm_lease x = None" by code_simp
  have p: "?p = (fst ?p, snd ?p)" by simp
  show ?thesis
    using ack_exactly_pulled [OF d j _ p, of m "''a0''" 104 50 "''q''"]
      ack_exactly_pulled [OF d j _ p, of m "''a0''" 104 104 "''q''"] m n by simp
qed

section \<open>Push delivery\<close>

lemma take_due_keeps:
  "m \<in> set ms \<Longrightarrow> qm_lease m \<noteq> None \<Longrightarrow> m \<in> set (snd (take_due now max_batch n ms))"
  by (induction now max_batch n ms rule: take_due.induct) (auto simp: case_prod_unfold Let_def)

lemma take_due_length:
  "take_due now max_batch n ms = (taken, rest) \<Longrightarrow> max_batch < 2 ^ 32 \<Longrightarrow> n \<le> max_batch \<Longrightarrow> length taken \<le> max_batch - n"
proof (induction now max_batch n ms arbitrary: taken rest rule: take_due.induct)
  case (1 now max_batch n)
  then show ?case by simp
next
  case (2 now max_batch n m ms)
  have n: "as_u32 n = n" using "2.prems" by (simp add: as_u32_exact)
  show ?case
  proof (cases "as_u32 n \<ge> max_batch \<or> qm_timestamp_ms m > now \<or> qm_lease m \<noteq> None")
    case True
    then show ?thesis using "2.IH"(1) [OF True] "2.prems" by (auto simp: case_prod_unfold Let_def prod_eq_iff)
  next
    case False
    obtain t r where r: "take_due now max_batch (n + 1) ms = (t, r)" by fastforce
    have le: "n + 1 \<le> max_batch" using False n by simp
    from "2.IH"(2) [OF False r "2.prems"(2) le] have "length t \<le> max_batch - (n + 1)" .
    then show ?thesis using "2.prems"(1) False r le by (auto simp: Let_def)
  qed
qed

text \<open>Push delivery takes only messages that are due and carry no lease, at most as many as asked
  for; a message with a lease is left where it is even when that lease has expired, so a message
  whose puller died can be pulled again but is never pushed.\<close>

theorem push_takes_unleased_only:
  assumes "take_due_for_push now max_batch ms = (taken, rest)" and "max_batch < 2 ^ 32"
  shows "length taken \<le> max_batch \<and> (\<forall>m \<in> set taken. qm_lease m = None \<and> qm_timestamp_ms m \<le> now) \<and>
    (\<forall>m \<in> set ms. qm_lease m \<noteq> None \<longrightarrow> m \<in> set rest) \<and>
    mset (map qm_id taken) + mset (map qm_id rest) = mset (map qm_id ms)"
proof -
  have t: "take_due now max_batch 0 ms = (taken, rest)" using assms(1) by (simp add: take_due_for_push_def)
  have "m \<in> set rest" if "m \<in> set ms" "qm_lease m \<noteq> None" for m
    using take_due_keeps [OF that, of now max_batch 0] t by simp
  then show ?thesis
    using take_due_length [OF t assms(2)] take_due_unleased [OF t] take_due_ids [OF t] by (simp del: mset_map)
qed

theorem push_takes_unleased_only_witness:
  "map qm_id (fst (take_due_for_push 5000 9 (snd (pull 4 (\<lambda>n. nat_to_string n) 1 100 two_messages)))) = [''m2''] \<and>
   map qm_id (snd (take_due_for_push 5000 9 (snd (pull 4 (\<lambda>n. nat_to_string n) 1 100 two_messages)))) = [''m1''] \<and>
   map qm_id (fst (pull 5000 (\<lambda>n. ''x'') 9 10 (snd (pull 4 (\<lambda>n. nat_to_string n) 1 100 two_messages)))) = [''m1'', ''m2''] \<and>
   map qm_lease (fst (take_due_for_push 5000 9 (snd (pull 4 (\<lambda>n. nat_to_string n) 1 100 two_messages)))) = [None]"
proof -
  let ?ms = "snd (pull 4 (\<lambda>n. nat_to_string n) 1 100 two_messages)"
  have e: "map qm_id (fst (take_due_for_push 5000 9 ?ms)) = [''m2'']"
    "map qm_id (snd (take_due_for_push 5000 9 ?ms)) = [''m1'']"
    "map qm_id (fst (pull 5000 (\<lambda>n. ''x'') 9 10 ?ms)) = [''m1'', ''m2'']" by code_simp+
  have "take_due_for_push 5000 9 ?ms = (fst (take_due_for_push 5000 9 ?ms), snd (take_due_for_push 5000 9 ?ms))" by simp
  from push_takes_unleased_only [OF this] e show ?thesis by (auto simp: Cons_eq_map_conv)
qed

section \<open>Retention\<close>

text \<open>A sweep removes only messages older than the retention period and never more than half of
  the log at once (or one message), and it tells the mirror of every message it removes.\<close>

theorem sweep_bounded:
  assumes "distinct (map qm_id ms)" and "sweep_expired now qid retention ms = (n, kept, cmds)"
  shows "n \<le> max (length ms div 2) 1 \<and> length kept + n = length ms \<and> set kept \<subseteq> set ms \<and>
    (\<forall>m \<in> set ms. m \<notin> set kept \<longrightarrow> now - qm_timestamp_ms m > retention * 1000) \<and>
    set cmds = (\<lambda>m. Guardian_Delete (guardian_key qid (qm_id m))) ` (set ms - set kept) \<and>
    (kept = ms \<longrightarrow> (\<forall>m \<in> set ms. now - qm_timestamp_ms m \<le> retention * 1000))"
proof (cases "ms = []")
  case True
  then show ?thesis using assms(2) by (simp add: sweep_expired_def)
next
  case False
  define old where "old m \<longleftrightarrow> now - qm_timestamp_ms m > retention * 1000" for m :: "'a queue_message"
  define reap where "reap = take (max (length ms div 2) 1) (map qm_id (filter old ms))"
  have inj: "x = y" if "x \<in> set ms" "y \<in> set ms" "qm_id x = qm_id y" for x y
    using that assms(1) by (metis distinct_map inj_onD)
  have dold: "distinct (map qm_id (filter old ms))" using assms(1) by (rule distinct_map_filter)
  then have d: "distinct reap" by (simp add: reap_def distinct_take)
  have old: "old m" if "m \<in> set ms" "qm_id m \<in> set reap" for m
  proof -
    have "qm_id m \<in> set (map qm_id (filter old ms))" using that(2) unfolding reap_def by (rule in_set_takeD)
    then obtain x where "x \<in> set ms" "old x" "qm_id m = qm_id x" by auto
    then show ?thesis using inj that(1) by metis
  qed
  have sub: "set reap \<subseteq> set (map qm_id ms)"
    unfolding reap_def by (rule subset_trans [OF set_take_subset]) auto
  have res: "n = length reap" "kept = filter (\<lambda>m. qm_id m \<notin> set reap) ms"
    "cmds = map (\<lambda>i. Guardian_Delete (guardian_key qid i)) reap"
    using assms(2) False d
    by (auto simp: sweep_expired_def Let_def old_def [abs_def] reap_def distinct_remdups_id split: if_splits)
  have "length (filter (\<lambda>m. qm_id m \<in> set reap) ms) = length reap"
  proof -
    have "set (map qm_id (filter (\<lambda>m. qm_id m \<in> set reap) ms)) = set reap" using sub by auto
    moreover have "distinct (map qm_id (filter (\<lambda>m. qm_id m \<in> set reap) ms))" using assms(1) by (rule distinct_map_filter)
    ultimately show ?thesis using d by (metis distinct_card length_map)
  qed
  then have len: "length kept + n = length ms"
    using sum_length_filter_compl [of "\<lambda>m. qm_id m \<in> set reap" ms] res by simp
  have gone: "qm_id m \<in> set reap" if "m \<in> set ms" "m \<notin> set kept" for m using that res(2) by simp
  have cmds: "set cmds = (\<lambda>m. Guardian_Delete (guardian_key qid (qm_id m))) ` (set ms - set kept)"
    using sub res by force
  have "\<not> old m" if "kept = ms" "m \<in> set ms" for m
  proof
    assume "old m"
    then have "map qm_id (filter old ms) \<noteq> []" using that(2) by (simp add: filter_empty_conv) blast
    then have "reap \<noteq> []" by (simp add: reap_def)
    then show False using that(1) len res(1) by simp
  qed
  moreover have "n \<le> max (length ms div 2) 1" by (simp add: res(1) reap_def)
  moreover have "\<forall>m \<in> set ms. m \<notin> set kept \<longrightarrow> now - qm_timestamp_ms m > retention * 1000"
    using old gone unfolding old_def by blast
  moreover have "set kept \<subseteq> set ms" using res(2) by auto
  moreover have "\<forall>m \<in> set ms. now - qm_timestamp_ms m \<le> retention * 1000" if "kept = ms"
    using calculation(1) [OF that] unfolding old_def not_less by blast
  ultimately show ?thesis using len cmds by blast
qed

theorem sweep_bounded_witness:
  "fst (sweep_expired 100000 ''q'' 1 two_messages) = 1 \<and> length (fst (snd (sweep_expired 100000 ''q'' 1 two_messages))) = 1"
proof -
  obtain n kept cmds where r: "sweep_expired 100000 ''q'' 1 two_messages = (n, kept, cmds)" using prod_cases3 by blast
  have d: "distinct (map qm_id two_messages)" by code_simp
  have "length two_messages = 2" "fst (sweep_expired 100000 ''q'' 1 two_messages) = 1" by code_simp+
  then show ?thesis using sweep_bounded [OF d r] r by simp
qed

section \<open>Replication of the records\<close>

lemma fold_tombstone_mono:
  fixes t :: "('i, nat) table"
  shows "tget t i = Some a \<Longrightarrow>
    \<exists>b \<ge> a. tget (fold (\<lambda>(i, ms) t. tput i (case tget t i of None \<Rightarrow> ms | Some e \<Rightarrow> if ms > e then ms else e) t) rem t) i = Some b"
proof (induction rem arbitrary: t a)
  case Nil
  then show ?case by auto
next
  case (Cons x rem)
  obtain j ms where x: "x = (j, ms)" by (cases x)
  show ?case
  proof (cases "j = i")
    case True
    have "\<exists>b \<ge> (if ms > a then ms else a). tget (fold (\<lambda>(i, ms) t. tput i (case tget t i of None \<Rightarrow> ms | Some e \<Rightarrow> if ms > e then ms else e) t) (x # rem) t) i = Some b"
      using Cons.IH [of "tput i (if ms > a then ms else a) t" "if ms > a then ms else a"] Cons.prems x True by simp
    then show ?thesis by (auto split: if_splits)
  next
    case False
    then show ?thesis using Cons.IH [of "tput j (case tget t j of None \<Rightarrow> ms | Some e \<Rightarrow> if ms > e then ms else e) t" a] Cons.prems x by simp
  qed
qed

lemma fold_tombstone_distinct:
  "distinct (tkeys t) \<Longrightarrow>
    distinct (tkeys (fold (\<lambda>(i, ms) t. tput i (case tget t i of None \<Rightarrow> ms | Some e \<Rightarrow> if ms > e then ms else e) t) rem t))"
  by (induction rem arbitrary: t) (auto split: prod.split)

lemma merge_tombstones_keeps:
  assumes "distinct (tkeys t)" and "tget t i = Some a" and "now - a < TOMBSTONE_RETENTION_MS"
  shows "\<exists>b \<ge> a. tget (merge_tombstones now rem t) i = Some b"
proof -
  obtain b where "b \<ge> a" and
    "tget (fold (\<lambda>(i, ms) t. tput i (case tget t i of None \<Rightarrow> ms | Some e \<Rightarrow> if ms > e then ms else e) t) rem t) i = Some b"
    using fold_tombstone_mono [OF assms(2)] by blast
  then show ?thesis using assms(3) fold_tombstone_distinct [OF assms(1), of rem]
    by (auto simp: merge_tombstones_def tget_tretain)
qed

lemma merge_tombstones_distinct: "distinct (tkeys t) \<Longrightarrow> distinct (tkeys (merge_tombstones now rem t))"
  unfolding merge_tombstones_def by (intro distinct_tretain fold_tombstone_distinct)

lemma set_merge_queue: "q \<in> set (merge_queue r qs) \<Longrightarrow> q = r \<or> q \<in> set qs"
  unfolding merge_queue_def using set_upd_first by (fastforce split: if_splits)

lemma set_fold_merge_queue: "q \<in> set (fold merge_queue rs qs) \<Longrightarrow> q \<in> set rs \<or> q \<in> set qs"
  by (induction rs arbitrary: qs) (auto dest: set_merge_queue)

definition buried :: "string \<Rightarrow> nat \<Rightarrow> 'm queue_store \<Rightarrow> bool" where
  "buried qid t s \<longleftrightarrow> distinct (tkeys (st_queue_tombstones s)) \<and> (\<exists>b \<ge> t. tget (st_queue_tombstones s) qid = Some b) \<and>
     (\<forall>q \<in> set (st_queues s). q_id q = qid \<longrightarrow> q_created_on q \<le> t)"

lemma merge_buried:
  assumes "buried qid t s" and "now - t < TOMBSTONE_RETENTION_MS"
    and "\<forall>q \<in> set (sy_queues r). q_id q = qid \<longrightarrow> q_created_on q \<le> t"
  shows "buried qid t (snd (merge_synced now r s))" and "qid \<notin> q_id ` set (st_queues (snd (merge_synced now r s)))"
proof -
  obtain a where a: "tget (st_queue_tombstones s) qid = Some a" "a \<ge> t" using assms(1) by (auto simp: buried_def)
  have d: "distinct (tkeys (st_queue_tombstones s))" using assms(1) by (simp add: buried_def)
  have "now - a < TOMBSTONE_RETENTION_MS" using a assms(2) by simp
  then obtain b where b: "b \<ge> a" "tget (merge_tombstones now (sy_queue_tombstones r) (st_queue_tombstones s)) qid = Some b"
    using merge_tombstones_keeps [OF d a(1)] by blast
  have "q_created_on q \<le> t" if "q \<in> set (fold merge_queue (sy_queues r) (st_queues s))" "q_id q = qid" for q
    using set_fold_merge_queue [OF that(1)] that(2) assms by (auto simp: buried_def)
  then have gone: "\<not> (q \<in> set (st_queues (snd (merge_synced now r s))) \<and> q_id q = qid)" for q
    using a b by (fastforce simp: merge_synced_def Let_def not_buried_def)
  then show "qid \<notin> q_id ` set (st_queues (snd (merge_synced now r s)))" by blast
  show "buried qid t (snd (merge_synced now r s))"
    using gone b a merge_tombstones_distinct [OF d]
    by (auto simp: buried_def merge_synced_def Let_def intro!: exI [of _ b])
qed

text \<open>A deleted queue stays deleted: after its owner deleted it, no sequence of merges within the
  tombstone retention brings it back, whatever old copies of it the other nodes still send.\<close>

theorem deleted_queue_stays_deleted:
  assumes "q_delete t tenant qid s = (True, s')" and "distinct (tkeys (st_queue_tombstones s))"
    and "\<forall>q \<in> set (st_queues s). q_id q = qid \<longrightarrow> q_created_on q \<le> t"
    and "\<forall>(now, r) \<in> set merges. now - t < TOMBSTONE_RETENTION_MS \<and>
      (\<forall>q \<in> set (sy_queues r). q_id q = qid \<longrightarrow> q_created_on q \<le> t)"
  shows "q_get tenant qid (fold (\<lambda>(now, r) s. snd (merge_synced now r s)) merges s') = None"
proof -
  have b: "buried qid t s'"
    using assms(1-3) by (auto simp: q_delete_def buried_def Let_def split: if_splits)
  have "q_get tenant qid s' = None"
    using assms(1) by (auto simp: q_delete_def q_get_def find_None_iff Let_def split: if_splits)
  moreover have "q_get tenant qid (fold (\<lambda>(now, r) s. snd (merge_synced now r s)) ms s0) = None"
    if "q_get tenant qid s0 = None" "buried qid t s0" "set ms \<subseteq> set merges" for ms and s0 :: "'a queue_store"
    using that
  proof (induction ms arbitrary: s0)
    case Nil
    then show ?case by simp
  next
    case (Cons x ms)
    obtain now r where x: "x = (now, r)" by (cases x)
    have ok: "now - t < TOMBSTONE_RETENTION_MS" "\<forall>q \<in> set (sy_queues r). q_id q = qid \<longrightarrow> q_created_on q \<le> t"
      using Cons.prems(3) assms(4) x by auto
    note m = merge_buried [OF Cons.prems(2) ok]
    have "q_get tenant qid (snd (merge_synced now r s0)) = None"
      using m(2) by (auto simp: q_get_def find_None_iff)
    then show ?case using Cons.IH [OF _ m(1)] Cons.prems(3) x by simp
  qed
  ultimately show ?thesis using b by blast
qed

definition two_nodes :: "nat queue_store" where
  "two_nodes = snd (q_create 6 ''q2'' ''t'' ''other'' (snd (q_create 5 ''q1'' ''t'' ''jobs'' store_new)))"

theorem deleted_queue_stays_deleted_witness:
  "q_get ''t'' ''q1'' (snd (merge_synced 20 (snapshot_synced two_nodes) (snd (q_delete 10 ''t'' ''q1'' two_nodes)))) = None \<and>
   q_get ''t'' ''q2'' (snd (merge_synced 20 (snapshot_synced two_nodes) (snd (q_delete 10 ''t'' ''q1'' two_nodes)))) \<noteq> None"
proof -
  have "q_get ''t'' ''q2'' (snd (merge_synced 20 (snapshot_synced two_nodes) (snd (q_delete 10 ''t'' ''q1'' two_nodes)))) \<noteq> None"
    by code_simp
  moreover have "fst (q_delete 10 ''t'' ''q1'' two_nodes)" by code_simp
  then have d: "q_delete 10 ''t'' ''q1'' two_nodes = (True, snd (q_delete 10 ''t'' ''q1'' two_nodes))"
    by (cases "q_delete 10 ''t'' ''q1'' two_nodes") simp
  have "distinct (tkeys (st_queue_tombstones two_nodes))" "\<forall>q \<in> set (st_queues two_nodes). q_id q = ''q1'' \<longrightarrow> q_created_on q \<le> 10"
    "\<forall>q \<in> set (sy_queues (snapshot_synced two_nodes)). q_id q = ''q1'' \<longrightarrow> q_created_on q \<le> 10"
    "(20::nat) - 10 < TOMBSTONE_RETENTION_MS" by code_simp+
  then have "q_get ''t'' ''q1'' (fold (\<lambda>(now, r) s. snd (merge_synced now r s)) [(20, snapshot_synced two_nodes)]
      (snd (q_delete 10 ''t'' ''q1'' two_nodes))) = None"
    by (intro deleted_queue_stays_deleted [OF d]) simp_all
  ultimately show ?thesis by simp
qed

text \<open>Two nodes that changed the same queue in the same millisecond swap their versions.\<close>

lemma merge_queue_tie_swaps:
  assumes "q_id a = q_id b" and "q_modified_on a = q_modified_on b"
  shows "merge_queue b [a] = [b]" and "merge_queue a [b] = [a]"
  using assms by (simp_all add: merge_queue_def)

end
