(* ===== verification/Wire_Bytes.thy ===== *)
theory Wire_Bytes
  imports Byte_Strings
begin

text \<open>
  Bytes on the wire, shared by the protocol components: big-endian integers, exact reads from a
  byte stream, the validity check of \<open>str::from_utf8\<close>, searching, hexadecimal numbers, and
  a locale for self-delimiting message formats.
\<close>

section \<open>Big-endian integers\<close>

text \<open>\<open>x.to_be_bytes()\<close> for an integer of \<open>k\<close> bytes, and \<open>from_be_bytes\<close>.\<close>

fun be_bytes :: "nat \<Rightarrow> nat \<Rightarrow> string" where
  "be_bytes 0 x = []"
| "be_bytes (Suc k) x = char_of (x div 256 ^ k mod 256) # be_bytes k x"

definition be_val :: "string \<Rightarrow> nat" where
  "be_val s = foldl (\<lambda>a c. 256 * a + of_char c) 0 s"

lemma length_be_bytes [simp]: "length (be_bytes k x) = k"
  by (induction k) auto

lemma be_val_from: "foldl (\<lambda>a c. 256 * a + of_char c) a (be_bytes k x) = a * 256 ^ k + x mod 256 ^ k"
proof (induction k arbitrary: a)
  case 0
  then show ?case by simp
next
  case (Suc k)
  have "foldl (\<lambda>a c. 256 * a + of_char c) a (be_bytes (Suc k) x)
      = (256 * a + x div 256 ^ k mod 256) * 256 ^ k + x mod 256 ^ k"
    by (simp add: Suc.IH of_char_of)
  also have "\<dots> = a * 256 ^ Suc k + (256 ^ k * (x div 256 ^ k mod 256) + x mod 256 ^ k)"
    by (simp add: algebra_simps)
  also have "256 ^ k * (x div 256 ^ k mod 256) + x mod 256 ^ k = x mod 256 ^ Suc k"
    using mod_mult2_eq [of x "256 ^ k" 256] by (simp add: mult.commute)
  finally show ?case .
qed

lemma be_val_be_bytes [simp]: "x < 256 ^ k \<Longrightarrow> be_val (be_bytes k x) = x"
  using be_val_from [of 0 k x] by (simp add: be_val_def)

lemma be_val_bound: "be_val s < 256 ^ length s"
proof -
  have "foldl (\<lambda>a c. 256 * a + of_char c) a s < (a + 1) * 256 ^ length s" for a :: nat
  proof (induction s arbitrary: a)
    case Nil
    then show ?case by simp
  next
    case (Cons c s)
    have c: "(of_char c :: nat) \<le> 255" using nat_of_char_less_256 [of c] by linarith
    have "foldl (\<lambda>a c. 256 * a + of_char c) (256 * a + of_char c) s < (256 * a + of_char c + 1) * 256 ^ length s"
      by (rule Cons.IH)
    also have "\<dots> \<le> (256 * (a + 1)) * 256 ^ length s"
      using c by (intro mult_right_mono) auto
    finally show ?case by (simp add: algebra_simps)
  qed
  from this [of 0] show ?thesis by (simp add: be_val_def)
qed

section \<open>Exact reads\<close>

text \<open>\<open>read_exact\<close> on the bytes a stream will still deliver; \<open>None\<close> is the early end.\<close>

definition read_exact :: "nat \<Rightarrow> string \<Rightarrow> (string \<times> string) option" where
  "read_exact n s = (if length s < n then None else Some (take n s, drop n s))"

lemma read_exact_append [simp]: "length a = n \<Longrightarrow> read_exact n (a @ s) = Some (a, s)"
  by (simp add: read_exact_def)

lemma read_exact_Some: "read_exact n s = Some (a, r) \<Longrightarrow> s = a @ r \<and> length a = n"
  by (auto simp: read_exact_def split: if_splits)

text \<open>A connection or a pipe as the results of its reads: \<open>None\<close> is an error.\<close>

definition conn_bytes :: "string option list \<Rightarrow> string" where
  "conn_bytes conn = concat (map (\<lambda>r. case r of None \<Rightarrow> [] | Some d \<Rightarrow> d) conn)"

lemma conn_bytes_simps [simp]:
  "conn_bytes [] = []" "conn_bytes (None # conn) = conn_bytes conn" "conn_bytes (Some d # conn) = d @ conn_bytes conn"
  by (simp_all add: conn_bytes_def)

section \<open>Searching\<close>

text \<open>\<open>s.windows(k).position(|w| w == p)\<close> for a pattern of length \<open>k\<close>.\<close>

fun find_sub :: "string \<Rightarrow> string \<Rightarrow> nat option" where
  "find_sub p [] = (if p = [] then Some 0 else None)"
| "find_sub p (c # s) = (if starts_with p (c # s) then Some 0 else map_option Suc (find_sub p s))"

lemma find_sub_Some: "find_sub p s = Some i \<Longrightarrow> i + length p \<le> length s \<and> take (length p) (drop i s) = p"
proof (induction p s arbitrary: i rule: find_sub.induct)
  case (1 p)
  then show ?case by (auto split: if_splits)
next
  case (2 p c s)
  show ?case
  proof (cases "starts_with p (c # s)")
    case True
    then obtain r where r: "c # s = p @ r" by (auto simp: starts_with_iff)
    have i: "i = 0" using "2.prems" True by simp
    show ?thesis unfolding i r by simp
  next
    case False
    then show ?thesis using 2 by auto
  qed
qed

text \<open>\<open>s.split("\\r\\n")\<close>.\<close>

definition crlf :: string where
  "crlf = [CHR 0x0D, CHR 0x0A]"

fun split_crlf :: "string \<Rightarrow> string list" where
  "split_crlf [] = [[]]"
| "split_crlf [c] = [[c]]"
| "split_crlf (c # d # s) =
     (if [c, d] = crlf then [] # split_crlf s
      else (case split_crlf (d # s) of [] \<Rightarrow> [[c]] | w # ws \<Rightarrow> (c # w) # ws))"

text \<open>\<open>s.split_once(c)\<close>.\<close>

fun split_once :: "char \<Rightarrow> string \<Rightarrow> (string \<times> string) option" where
  "split_once c [] = None"
| "split_once c (x # s) = (if x = c then Some ([], s) else map_option (\<lambda>(a, b). (x # a, b)) (split_once c s))"

section \<open>UTF-8\<close>

definition cont :: "nat \<Rightarrow> bool" where
  "cont b \<longleftrightarrow> 0x80 \<le> b \<and> b \<le> 0xBF"

text \<open>The first sequence of \<open>a # s\<close>: whether it is well formed, and how many bytes of \<open>s\<close> belong to it; an
  ill-formed one extends as far as it could have become well formed.\<close>

definition second3 :: "nat \<Rightarrow> nat \<Rightarrow> bool" where
  "second3 a b = (if a = 0xE0 then 0xA0 \<le> b \<and> b \<le> 0xBF else if a = 0xED then 0x80 \<le> b \<and> b \<le> 0x9F else cont b)"

definition second4 :: "nat \<Rightarrow> nat \<Rightarrow> bool" where
  "second4 a b = (if a = 0xF0 then 0x90 \<le> b \<and> b \<le> 0xBF else if a = 0xF4 then 0x80 \<le> b \<and> b \<le> 0x8F else cont b)"

fun conts :: "(nat \<Rightarrow> bool) list \<Rightarrow> nat list \<Rightarrow> bool \<times> nat" where
  "conts [] s = (True, 0)"
| "conts (p # ps) [] = (False, 0)"
| "conts (p # ps) (b # s) = (if p b then (let (ok, k) = conts ps s in (ok, Suc k)) else (False, 0))"

definition utf8_head :: "nat \<Rightarrow> nat list \<Rightarrow> bool \<times> nat" where
  "utf8_head a s =
     (if a < 0x80 then (True, 0)
      else if 0xC2 \<le> a \<and> a \<le> 0xDF then conts [cont] s
      else if 0xE0 \<le> a \<and> a \<le> 0xEF then conts [second3 a, cont] s
      else if 0xF0 \<le> a \<and> a \<le> 0xF4 then conts [second4 a, cont, cont] s
      else (False, 0))"

fun utf8_bytes :: "nat list \<Rightarrow> bool" where
  "utf8_bytes [] = True"
| "utf8_bytes (a # s) = (fst (utf8_head a s) \<and> utf8_bytes (drop (snd (utf8_head a s)) s))"

text \<open>\<open>String::from_utf8_lossy\<close> replaces every ill-formed sequence by U+FFFD.\<close>

definition fffd :: "nat list" where
  "fffd = [0xEF, 0xBF, 0xBD]"

fun lossy_bytes :: "nat list \<Rightarrow> nat list" where
  "lossy_bytes [] = []"
| "lossy_bytes (a # s) =
     (if fst (utf8_head a s) then a # take (snd (utf8_head a s)) s else fffd) @ lossy_bytes (drop (snd (utf8_head a s)) s)"

definition from_utf8_lossy :: "string \<Rightarrow> string" where
  "from_utf8_lossy s = map char_of (lossy_bytes (map of_char s))"

definition utf8_valid :: "string \<Rightarrow> bool" where
  "utf8_valid s = utf8_bytes (map of_char s)"

lemma utf8_bytes_ascii: "list_all (\<lambda>b. b < 0x80) bs \<Longrightarrow> utf8_bytes (bs @ s) = utf8_bytes s"
  by (induction bs) (auto simp: utf8_head_def)

lemma utf8_valid_ascii: "list_all (\<lambda>c. (of_char c :: nat) < 0x80) s \<Longrightarrow> utf8_valid s"
  using utf8_bytes_ascii [of "map of_char s" "[]"] by (simp add: utf8_valid_def list_all_iff)

lemma lossy_valid: "utf8_bytes s \<Longrightarrow> lossy_bytes s = s"
  by (induction s rule: lossy_bytes.induct) auto

lemma lossy_length: "length (lossy_bytes s) \<le> 3 * length s"
  by (induction s rule: lossy_bytes.induct) (auto simp: fffd_def)

lemma from_utf8_lossy_valid: "utf8_valid s \<Longrightarrow> from_utf8_lossy s = s"
  by (simp add: from_utf8_lossy_def utf8_valid_def lossy_valid comp_def)

lemma from_utf8_lossy_length: "length (from_utf8_lossy s) \<le> 3 * length s"
  using lossy_length [of "map of_char s"] by (simp add: from_utf8_lossy_def)

section \<open>Hexadecimal numbers\<close>

definition hex_digit :: "char \<Rightarrow> nat option" where
  "hex_digit c =
     (let n = of_char c :: nat
      in if 48 \<le> n \<and> n \<le> 57 then Some (n - 48)
         else if 65 \<le> n \<and> n \<le> 70 then Some (n - 55)
         else if 97 \<le> n \<and> n \<le> 102 then Some (n - 87) else None)"

fun hex_val :: "nat \<Rightarrow> string \<Rightarrow> nat option" where
  "hex_val acc [] = Some acc"
| "hex_val acc (c # s) =
     (case hex_digit c of None \<Rightarrow> None
      | Some d \<Rightarrow> if 16 * acc + d < 2 ^ 64 then hex_val (16 * acc + d) s else None)"

text \<open>\<open>usize::from_str_radix(s, 16)\<close>.\<close>

definition parse_hex :: "string \<Rightarrow> nat option" where
  "parse_hex s =
     (let ds = (case s of [] \<Rightarrow> [] | c # r \<Rightarrow> if c = CHR ''+'' then r else s)
      in if ds = [] then None else hex_val 0 ds)"

definition hex_char :: "nat \<Rightarrow> char" where
  "hex_char d = (if d < 10 then char_of (48 + d) else char_of (87 + d))"

fun nat_to_hex :: "nat \<Rightarrow> string" where
  "nat_to_hex n = (if n < 16 then [hex_char n] else nat_to_hex (n div 16) @ [hex_char (n mod 16)])"

declare nat_to_hex.simps [simp del]

lemma hex_digit_char: "d < 16 \<Longrightarrow> hex_digit (hex_char d) = Some d"
  by (auto simp: hex_digit_def hex_char_def of_char_of Let_def)

lemma hex_val_snoc:
  "hex_val acc s = Some a \<Longrightarrow> d < 16 \<Longrightarrow> 16 * a + d < 2 ^ 64 \<Longrightarrow> hex_val acc (s @ [hex_char d]) = Some (16 * a + d)"
  by (induction acc s rule: hex_val.induct) (auto simp: hex_digit_char split: option.splits if_splits)

lemma hex_val_nat_to_hex: "n < 2 ^ 64 \<Longrightarrow> hex_val 0 (nat_to_hex n) = Some n"
proof (induction n rule: nat_to_hex.induct)
  case (1 n)
  show ?case
  proof (cases "n < 16")
    case True
    then show ?thesis by (subst nat_to_hex.simps) (simp add: hex_digit_char)
  next
    case False
    have "n div 16 < 2 ^ 64" using "1.prems" by simp
    then have "hex_val 0 (nat_to_hex (n div 16)) = Some (n div 16)" using "1.IH" False by blast
    then have "hex_val 0 (nat_to_hex (n div 16) @ [hex_char (n mod 16)]) = Some (16 * (n div 16) + n mod 16)"
      by (rule hex_val_snoc) (use "1.prems" in auto)
    then show ?thesis using False by (subst nat_to_hex.simps) simp
  qed
qed

definition is_hex :: "char \<Rightarrow> bool" where
  "is_hex c \<longleftrightarrow> (\<exists>d < 16. c = hex_char d)"

lemma nat_to_hex_chars: "nat_to_hex n \<noteq> [] \<and> (\<forall>c \<in> set (nat_to_hex n). is_hex c)"
proof (induction n rule: nat_to_hex.induct)
  case (1 n)
  show ?case
  proof (cases "n < 16")
    case True
    then show ?thesis by (subst (1 2) nat_to_hex.simps) (auto simp: is_hex_def)
  next
    case False
    have "is_hex (hex_char (n mod 16))" unfolding is_hex_def by (rule exI [of _ "n mod 16"]) simp
    with "1.IH" False show ?thesis by (subst (1 2) nat_to_hex.simps) auto
  qed
qed

lemma is_hex_range: "is_hex c \<Longrightarrow> 48 \<le> (of_char c :: nat) \<and> (of_char c :: nat) \<le> 102"
  by (auto simp: is_hex_def hex_char_def of_char_of)

lemma parse_hex_nat_to_hex: "n < 2 ^ 64 \<Longrightarrow> parse_hex (nat_to_hex n) = Some n"
proof -
  assume n: "n < 2 ^ 64"
  obtain c r where cr: "nat_to_hex n = c # r" using nat_to_hex_chars [of n] by (cases "nat_to_hex n") auto
  have "is_hex c" using nat_to_hex_chars [of n] cr by simp
  then have "c \<noteq> CHR ''+''" using is_hex_range [of c] by auto
  then show ?thesis using hex_val_nat_to_hex [OF n] cr by (simp add: parse_hex_def)
qed

lemma length_nat_to_hex: "n < 16 ^ Suc k \<Longrightarrow> length (nat_to_hex n) \<le> Suc k"
proof (induction k arbitrary: n)
  case 0
  then show ?case by (subst nat_to_hex.simps) simp
next
  case (Suc k)
  show ?case
  proof (cases "n < 16")
    case True
    then show ?thesis by (subst nat_to_hex.simps) simp
  next
    case False
    have "n div 16 < 16 ^ Suc k" using Suc.prems by (simp add: less_mult_imp_div_less mult.commute)
    then have "length (nat_to_hex (n div 16)) \<le> Suc k" by (rule Suc.IH)
    then show ?thesis using False by (subst nat_to_hex.simps) simp
  qed
qed

section \<open>Self-delimiting formats\<close>

text \<open>Reading \<open>n\<close> messages one after the other from a stream.\<close>

fun read_n :: "(string \<Rightarrow> ('a \<times> string) option) \<Rightarrow> nat \<Rightarrow> string \<Rightarrow> ('a list \<times> string) option" where
  "read_n dec 0 s = Some ([], s)"
| "read_n dec (Suc n) s =
     (case dec s of None \<Rightarrow> None
      | Some (x, s') \<Rightarrow> map_option (\<lambda>(xs, r). (x # xs, r)) (read_n dec n s'))"

text \<open>A format whose decoder finds the end of a message by itself: messages can be sent back to
  back on one stream and none is ever misread.\<close>

locale self_delimiting =
  fixes enc :: "'a \<Rightarrow> string" and dec :: "string \<Rightarrow> ('a \<times> string) option" and ok :: "'a \<Rightarrow> bool"
  assumes dec_enc: "ok x \<Longrightarrow> dec (enc x @ rest) = Some (x, rest)"
begin

lemma read_n_stream: "list_all ok xs \<Longrightarrow> read_n dec (length xs) (concat (map enc xs) @ rest) = Some (xs, rest)"
  by (induction xs) (simp_all add: dec_enc)

lemma prefix_free:
  assumes "ok x" and "ok y" and "enc x @ r = enc y @ r'"
  shows "x = y" and "r = r'"
proof -
  have "Some (x, r) = dec (enc x @ r)" by (rule dec_enc [OF assms(1), symmetric])
  also have "\<dots> = Some (y, r')" unfolding assms(3) by (rule dec_enc [OF assms(2)])
  finally have "Some (x, r) = Some (y, r')" .
  then show "x = y" and "r = r'" by simp_all
qed

end

end
