(* ===== verification/Log_Capture.thy ===== *)
theory Log_Capture
  imports Wire_Bytes
begin

text \<open>
  Bounded capture of the output of tenant processes, \<open>crates/hive-core/src/logcap.rs\<close>. The pipe is
  the list of the pieces that \<open>fill_buf\<close> will return (\<open>None\<close> is an I/O error, an empty piece or the end of the
  list is the end of the file); the blocking and the asynchronous reader are the same loop.
\<close>

section \<open>Lines\<close>

definition MAX_LOG_LINE_BYTES :: nat where
  "MAX_LOG_LINE_BYTES = 16 * 1024"

text \<open>The suffix begins with the three bytes of an ellipsis.\<close>

definition TRUNCATION_SUFFIX :: string where
  "TRUNCATION_SUFFIX = map char_of [0xE2::nat, 0x80, 0xA6] @ ''[hive: line truncated, ''"

record log_cap_stats =
  lc_lines_truncated :: nat
  lc_bytes_dropped :: nat
  lc_lines_total :: nat

definition lc_record :: "nat \<Rightarrow> log_cap_stats \<Rightarrow> log_cap_stats" where
  "lc_record dropped st =
     (let st1 = st\<lparr>lc_lines_total := lc_lines_total st + 1\<rparr>
      in if dropped > 0
         then st1\<lparr>lc_lines_truncated := lc_lines_truncated st1 + 1, lc_bytes_dropped := lc_bytes_dropped st1 + dropped\<rparr>
         else st1)"

definition lc_snapshot :: "log_cap_stats \<Rightarrow> nat \<times> nat \<times> nat" where
  "lc_snapshot st = (lc_lines_total st, lc_lines_truncated st, lc_bytes_dropped st)"

record capped_line =
  cp_text :: string
  cp_dropped_bytes :: nat

definition cp_truncated :: "capped_line \<Rightarrow> bool" where
  "cp_truncated l \<longleftrightarrow> cp_dropped_bytes l > 0"

text \<open>\<open>finish\<close>; what it adds to the counters is \<open>lc_record (cp_dropped_bytes l)\<close>.\<close>

definition finish_line :: "string \<Rightarrow> nat \<Rightarrow> capped_line" where
  "finish_line buf dropped =
     (let buf1 = (if buf \<noteq> [] \<and> last buf = CHR 0x0D then butlast buf else buf);
          text = from_utf8_lossy buf1
      in \<lparr>cp_text = (if dropped > 0 then text @ TRUNCATION_SUFFIX @ nat_to_string dropped @ '' bytes dropped]'' else text),
          cp_dropped_bytes = dropped\<rparr>)"

definition split_at_newline :: "string \<Rightarrow> string \<times> nat \<times> bool" where
  "split_at_newline avail =
     (let seg = takeWhile (\<lambda>c. c \<noteq> CHR 0x0A) avail
      in if length seg < length avail then (seg, length seg + 1, True) else (avail, length avail, False))"

section \<open>The reader\<close>

datatype read_result = Line capped_line | End_Of_File | Io_Error

definition at_eof :: "nat \<Rightarrow> string \<Rightarrow> nat \<Rightarrow> bool \<Rightarrow> read_result" where
  "at_eof cap out dropped saw = (if saw then Line (finish_line out dropped) else End_Of_File)"

fun read_capped :: "nat \<Rightarrow> string \<Rightarrow> nat \<Rightarrow> bool \<Rightarrow> string option list \<Rightarrow> read_result \<times> string option list" where
  "read_capped cap out dropped saw [] = (at_eof cap out dropped saw, [])"
| "read_capped cap out dropped saw (None # pipe) = (Io_Error, pipe)"
| "read_capped cap out dropped saw (Some avail # pipe) =
     (if avail = [] then (at_eof cap out dropped saw, pipe)
      else (let (seg, n, done) = split_at_newline avail;
                taken = min (cap - length out) (length seg);
                out' = out @ take taken seg;
                dropped' = dropped + (length seg - taken)
            in if done
               then (Line (finish_line out' dropped'), if drop n avail = [] then pipe else Some (drop n avail) # pipe)
               else read_capped cap out' dropped' True pipe))"

definition read_capped_line :: "nat \<Rightarrow> string option list \<Rightarrow> read_result \<times> string option list" where
  "read_capped_line cap pipe = read_capped cap [] 0 False pipe"

text \<open>The callers read until the end of the file.\<close>

definition pipe_size :: "string option list \<Rightarrow> nat" where
  "pipe_size pipe = sum_list (map (\<lambda>r. case r of None \<Rightarrow> 1 | Some d \<Rightarrow> length d + 1) pipe)"

lemma pipe_size_simps [simp]:
  "pipe_size [] = 0" "pipe_size (None # pipe) = Suc (pipe_size pipe)"
  "pipe_size (Some d # pipe) = Suc (length d + pipe_size pipe)"
  by (simp_all add: pipe_size_def)

lemma read_capped_size: "read_capped cap out dropped saw pipe = (r, pipe') \<Longrightarrow> pipe_size pipe' \<le> pipe_size pipe"
proof (induction cap out dropped saw pipe rule: read_capped.induct)
  case (3 cap out dropped saw avail pipe)
  obtain seg n fin where s: "split_at_newline avail = (seg, n, fin)" using prod_cases3 by blast
  show ?case
  proof (cases "avail = [] \<or> fin")
    case True
    then show ?thesis using "3.prems" by (auto simp: Let_def s split: if_splits)
  next
    case False
    then show ?thesis using "3.IH" [OF _ s [symmetric] refl refl refl refl] "3.prems" by (auto simp: s Let_def)
  qed
qed auto

lemma read_line_size:
  assumes "read_capped cap out dropped False pipe = (Line l, pipe')"
  shows "pipe_size pipe' < pipe_size pipe"
proof (cases pipe)
  case Nil
  then show ?thesis using assms by (simp add: at_eof_def)
next
  case (Cons r rest)
  then obtain avail where a: "r = Some avail" "avail \<noteq> []"
    using assms by (cases r) (auto simp: at_eof_def split: if_splits)
  obtain seg n fin where s: "split_at_newline avail = (seg, n, fin)" using prod_cases3 by blast
  have n: "0 < n" using s a(2) by (auto simp: split_at_newline_def Let_def split: if_splits)
  show ?thesis
  proof (cases fin)
    case True
    then show ?thesis using assms Cons a s n by (auto simp: Let_def split: if_splits)
  next
    case False
    then have "pipe_size pipe' \<le> pipe_size rest"
      using assms Cons a s by (auto simp: Let_def dest: read_capped_size)
    then show ?thesis using Cons a by simp
  qed
qed

function read_all :: "nat \<Rightarrow> string option list \<Rightarrow> capped_line list \<times> bool" where
  "read_all cap pipe =
     (case read_capped_line cap pipe of
        (End_Of_File, _) \<Rightarrow> ([], True)
      | (Io_Error, _) \<Rightarrow> ([], False)
      | (Line l, pipe') \<Rightarrow> (let (ls, ok) = read_all cap pipe' in (l # ls, ok)))"
  by pat_completeness auto
termination
  by (relation "measure (\<lambda>(cap, pipe). pipe_size pipe)")
    (auto simp: read_capped_line_def intro: read_line_size [OF sym])

declare read_all.simps [simp del]

section \<open>What is captured\<close>

text \<open>The reference: the lines of the whole output, each cut to the cap.\<close>

fun lines_from :: "string \<Rightarrow> bool \<Rightarrow> string \<Rightarrow> string list" where
  "lines_from acc saw [] = (if saw then [acc] else [])"
| "lines_from acc saw (c # s) =
     (if c = CHR 0x0A then acc # lines_from [] False s else lines_from (acc @ [c]) True s)"

definition capped :: "nat \<Rightarrow> string \<Rightarrow> capped_line" where
  "capped cap l = finish_line (take cap l) (length l - cap)"

definition pieces_ok :: "string option list \<Rightarrow> bool" where
  "pieces_ok pipe \<longleftrightarrow> None \<notin> set pipe \<and> Some [] \<notin> set pipe"

lemma pieces_ok_simps [simp]:
  "pieces_ok []" "pieces_ok (r # pipe) \<longleftrightarrow> (\<exists>d. r = Some d \<and> d \<noteq> []) \<and> pieces_ok pipe"
   by (simp add: pieces_ok_def, cases r) (auto simp: pieces_ok_def)

lemma capture_segment:
  "take cap acc @ take (min (cap - length (take cap acc)) (length seg)) seg = take cap (acc @ seg)"
  "length acc - cap + (length seg - min (cap - length (take cap acc)) (length seg)) = length (acc @ seg) - cap"
  by (auto simp: min_def)

lemma split_at_newline_cases:
  assumes "split_at_newline avail = (seg, n, fin)"
  shows "fin \<Longrightarrow> avail = seg @ CHR 0x0A # drop n avail \<and> CHR 0x0A \<notin> set seg"
    and "\<not> fin \<Longrightarrow> seg = avail \<and> CHR 0x0A \<notin> set seg"
proof -
  let ?w = "takeWhile (\<lambda>c. c \<noteq> CHR 0x0A) avail"
  have w: "CHR 0x0A \<notin> set ?w" by (auto dest: set_takeWhileD)
  show "fin \<Longrightarrow> avail = seg @ CHR 0x0A # drop n avail \<and> CHR 0x0A \<notin> set seg"
  proof -
    assume fin
    then have l: "length ?w < length avail" and e: "seg = ?w" "n = length ?w + 1"
      using assms by (auto simp: split_at_newline_def Let_def split: if_splits)
    have "avail ! length ?w = CHR 0x0A" using nth_length_takeWhile [OF l] by simp
    then have "avail = take (length ?w) avail @ CHR 0x0A # drop (length ?w + 1) avail"
      using id_take_nth_drop [OF l] by simp
    then show ?thesis using w e by (simp add: takeWhile_eq_take [symmetric])
  qed
  show "\<not> fin \<Longrightarrow> seg = avail \<and> CHR 0x0A \<notin> set seg"
  proof -
    assume "\<not> fin"
    then have "\<not> length ?w < length avail" "seg = avail"
      using assms by (auto simp: split_at_newline_def Let_def split: if_splits)
    moreover from this have "?w = avail"
      by (metis length_takeWhile_le linorder_not_less order_antisym take_all takeWhile_eq_take)
    moreover have "?w = avail \<Longrightarrow> CHR 0x0A \<notin> set avail" using w by metis
    ultimately show ?thesis by blast
  qed
qed

lemma lines_from_seg: "CHR 0x0A \<notin> set seg \<Longrightarrow> lines_from acc saw (seg @ s) = lines_from (acc @ seg) (saw \<or> seg \<noteq> []) s"
  by (induction seg arbitrary: acc saw) auto

lemma read_capped_lines:
  assumes "pieces_ok pipe"
  shows "\<exists>pipe'. pieces_ok pipe' \<and>
    (case lines_from acc saw (conn_bytes pipe) of
       [] \<Rightarrow> read_capped cap (take cap acc) (length acc - cap) saw pipe = (End_Of_File, pipe')
     | l # ls \<Rightarrow> read_capped cap (take cap acc) (length acc - cap) saw pipe = (Line (capped cap l), pipe') \<and>
         ls = lines_from [] False (conn_bytes pipe'))"
  using assms
proof (induction pipe arbitrary: acc saw)
  case Nil
  then show ?case by (intro exI [of _ "[]"]) (simp add: at_eof_def capped_def)
next
  case (Cons r pipe)
  obtain avail where a: "r = Some avail" "avail \<noteq> []" "pieces_ok pipe" using Cons.prems by auto
  obtain seg n fin where s: "split_at_newline avail = (seg, n, fin)" using prod_cases3 by blast
  show ?case
  proof (cases fin)
    case True
    let ?pipe' = "if drop n avail = [] then pipe else Some (drop n avail) # pipe"
    have sp: "avail = seg @ CHR 0x0A # drop n avail" "CHR 0x0A \<notin> set seg"
      using split_at_newline_cases(1) [OF s True] by blast+
    have bytes: "conn_bytes ?pipe' = drop n avail @ conn_bytes pipe" by simp
    have "lines_from acc saw (avail @ conn_bytes pipe) = lines_from acc saw (seg @ CHR 0x0A # (drop n avail @ conn_bytes pipe))"
      using arg_cong [OF sp(1), of "\<lambda>x. lines_from acc saw (x @ conn_bytes pipe)"] by simp
    also have "\<dots> = (acc @ seg) # lines_from [] False (conn_bytes ?pipe')"
      unfolding bytes using lines_from_seg [OF sp(2)] by simp
    finally have "lines_from acc saw (conn_bytes (r # pipe)) = (acc @ seg) # lines_from [] False (conn_bytes ?pipe')"
      by (simp add: a)
    moreover have "read_capped cap (take cap acc) (length acc - cap) saw (r # pipe) = (Line (capped cap (acc @ seg)), ?pipe')"
      using a True by (simp only: a read_capped.simps s Let_def prod.case capture_segment capped_def if_True if_False)
    moreover have "pieces_ok ?pipe'" using a by simp
    ultimately show ?thesis by (intro exI [of _ ?pipe']) simp
  next
    case False
    have sp: "seg = avail" "CHR 0x0A \<notin> set seg" using split_at_newline_cases(2) [OF s False] by blast+
    have rc: "read_capped cap (take cap acc) (length acc - cap) saw (r # pipe) =
        read_capped cap (take cap (acc @ seg)) (length (acc @ seg) - cap) True pipe"
      using a False by (simp only: a read_capped.simps s Let_def prod.case capture_segment if_False)
    have lf: "lines_from acc saw (conn_bytes (r # pipe)) = lines_from (acc @ seg) True (conn_bytes pipe)"
      using lines_from_seg [OF sp(2)] a sp(1) by simp
    show ?thesis unfolding rc lf by (rule Cons.IH [OF a(3)])
  qed
qed

text \<open>C14: Capture is independent of timing: whatever pieces the pipe delivers, the captured lines are those of
  the whole output, each cut to the cap; every byte is read (the child never blocks), and what is not
  kept is counted as dropped.\<close>

theorem capture_exact:
  assumes "pieces_ok pipe"
  shows "read_all cap pipe = (map (\<lambda>l. finish_line (take cap l) (length l - cap)) (lines_from [] False (conn_bytes pipe)), True)"
  using assms
proof (induction cap pipe rule: read_all.induct)
  case (1 cap pipe)
  from read_capped_lines [OF "1.prems", where acc = "[]" and saw = False and cap = cap] obtain pipe' where p: "pieces_ok pipe'"
    "case lines_from [] False (conn_bytes pipe) of
       [] \<Rightarrow> read_capped cap [] 0 False pipe = (End_Of_File, pipe')
     | l # ls \<Rightarrow> read_capped cap [] 0 False pipe = (Line (capped cap l), pipe') \<and> ls = lines_from [] False (conn_bytes pipe')"
    unfolding list.size(3) take_Nil diff_0_eq_0 by blast
  show ?case
  proof (cases "lines_from [] False (conn_bytes pipe)")
    case Nil
    then show ?thesis using p by (subst read_all.simps) (simp add: read_capped_line_def)
  next
    case (Cons l ls)
    then have r: "read_capped_line cap pipe = (Line (capped cap l), pipe')" and ls: "ls = lines_from [] False (conn_bytes pipe')"
      using p by (simp_all add: read_capped_line_def)
    from "1.IH" [OF r [symmetric] refl p(1)] show ?thesis
      unfolding Cons ls by (subst read_all.simps) (simp add: r capped_def)
  qed
qed

theorem capture_exact_witness:
  "map cp_dropped_bytes (fst (read_all 3 [Some ''ab'', Some (''cdef'' @ [CHR 0x0A] @ ''x'')])) = [3, 0]"
proof -
  have p: "pieces_ok [Some ''ab'', Some (''cdef'' @ [CHR 0x0A] @ ''x'')]" by simp
  have "map cp_dropped_bytes (map (\<lambda>l. finish_line (take 3 l) (length l - 3))
      (lines_from [] False (conn_bytes [Some ''ab'', Some (''cdef'' @ [CHR 0x0A] @ ''x'')]))) = [3, 0]" by code_simp
  then show ?thesis unfolding capture_exact [OF p] by simp
qed

text \<open>The documented bound on the text does not hold: bytes that are not UTF-8 triple in the conversion. And
  a line of exactly the cap that ends in CR LF counts as truncated.\<close>

lemma capture_text_exceeds_cap:
  "length (cp_text (finish_line (replicate 8 (CHR 0xFF)) 0)) = 24" "cp_dropped_bytes (capped 2 [CHR ''a'', CHR ''b'', CHR 0x0D]) = 1"
  by code_simp+

lemma finish_line_length: "length (cp_text (finish_line buf 0)) \<le> 3 * length buf"
  using from_utf8_lossy_length [of buf] from_utf8_lossy_length [of "butlast buf"] by (auto simp: finish_line_def Let_def)

end
