(* ===== verification/Tunnel_Codec.thy ===== *)
theory Tunnel_Codec
  imports Wire_Bytes
begin

text \<open>
  The frames of the multiplexed tunnel, \<open>crates/fluid-tunnel/src/codec.rs\<close>:
  a stream identifier (8 bytes), a kind (1 byte), a length (4 bytes) and the payload.
\<close>

datatype frame_kind = FK_Request | FK_RespHead | FK_RespBody | FK_RespEnd | FK_Ping | FK_Pong | FK_Metrics | FK_Nack

fun kind_u8 :: "frame_kind \<Rightarrow> nat" where
  "kind_u8 FK_Request = 1"
| "kind_u8 FK_RespHead = 4"
| "kind_u8 FK_RespBody = 5"
| "kind_u8 FK_RespEnd = 6"
| "kind_u8 FK_Ping = 7"
| "kind_u8 FK_Pong = 8"
| "kind_u8 FK_Metrics = 9"
| "kind_u8 FK_Nack = 10"

definition kind_from_u8 :: "nat \<Rightarrow> frame_kind option" where
  "kind_from_u8 b =
     (if b = 1 then Some FK_Request else if b = 4 then Some FK_RespHead else if b = 5 then Some FK_RespBody
      else if b = 6 then Some FK_RespEnd else if b = 7 then Some FK_Ping else if b = 8 then Some FK_Pong
      else if b = 9 then Some FK_Metrics else if b = 10 then Some FK_Nack else None)"

record frame =
  f_stream_id :: nat
  f_kind :: frame_kind
  f_payload :: string

definition frame_of :: "nat \<Rightarrow> frame_kind \<Rightarrow> string \<Rightarrow> frame" where
  "frame_of sid k p = \<lparr>f_stream_id = sid, f_kind = k, f_payload = p\<rparr>"

definition frame_encode :: "frame \<Rightarrow> string" where
  "frame_encode f = be_bytes 8 (f_stream_id f) @ [char_of (kind_u8 (f_kind f))] @
     be_bytes 4 (as_u32 (length (f_payload f))) @ f_payload f"

datatype frame_error = Frame_Eof | Unknown_Kind nat | Frame_Too_Large nat

definition MAX_FRAME :: nat where
  "MAX_FRAME = 64 * 1024 * 1024"

definition read_frame :: "string \<Rightarrow> frame_error + (frame \<times> string)" where
  "read_frame s =
     (case read_exact 13 s of
        None \<Rightarrow> Inl Frame_Eof
      | Some (hdr, s1) \<Rightarrow>
          (case kind_from_u8 (of_char (hdr ! 8)) of
             None \<Rightarrow> Inl (Unknown_Kind (of_char (hdr ! 8)))
           | Some k \<Rightarrow>
               (let len = be_val (drop 9 hdr)
                in if len > MAX_FRAME then Inl (Frame_Too_Large len)
                   else (case read_exact len s1 of
                           None \<Rightarrow> Inl Frame_Eof
                         | Some (p, s2) \<Rightarrow> Inr (frame_of (be_val (take 8 hdr)) k p, s2)))))"

lemma kind_from_u8_kind [simp]: "kind_from_u8 (kind_u8 k) = Some k"
  by (cases k) (simp_all add: kind_from_u8_def)

lemma kind_u8_lt: "kind_u8 k < 256"
  by (cases k) simp_all

definition frame_ok :: "frame \<Rightarrow> bool" where
  "frame_ok f \<longleftrightarrow> f_stream_id f < 2 ^ 64 \<and> length (f_payload f) \<le> MAX_FRAME"

lemma frame_header:
  assumes "f_stream_id f < 2 ^ 64"
  shows "read_frame (frame_encode f @ rest) =
    (if as_u32 (length (f_payload f)) > MAX_FRAME then Inl (Frame_Too_Large (as_u32 (length (f_payload f))))
     else case read_exact (as_u32 (length (f_payload f))) (f_payload f @ rest) of
            None \<Rightarrow> Inl Frame_Eof
          | Some (p, s2) \<Rightarrow> Inr (frame_of (f_stream_id f) (f_kind f) p, s2))"
proof -
  let ?hdr = "be_bytes 8 (f_stream_id f) @ char_of (kind_u8 (f_kind f)) # be_bytes 4 (as_u32 (length (f_payload f)))"
  have e: "frame_encode f @ rest = ?hdr @ (f_payload f @ rest)" by (simp add: frame_encode_def)
  have l: "length ?hdr = 13" by simp
  have "?hdr ! 8 = char_of (kind_u8 (f_kind f))" by (simp add: nth_append)
  then have k: "kind_from_u8 (of_char (?hdr ! 8)) = Some (f_kind f)"
    using kind_u8_lt [of "f_kind f"] by (simp add: of_char_of)
  have s: "be_val (take 8 ?hdr) = f_stream_id f" using assms by simp
  have n: "be_val (drop 9 ?hdr) = as_u32 (length (f_payload f))" by (simp add: as_u32_def)
  show ?thesis
    unfolding e read_frame_def read_exact_append [OF l] option.case prod.case k s n Let_def by simp
qed

definition frame_dec :: "string \<Rightarrow> (frame \<times> string) option" where
  "frame_dec s = (case read_frame s of Inl _ \<Rightarrow> None | Inr r \<Rightarrow> Some r)"

lemma frame_dec_enc: "frame_ok f \<Longrightarrow> frame_dec (frame_encode f @ rest) = Some (f, rest)"
  by (simp add: frame_dec_def frame_ok_def frame_header MAX_FRAME_def as_u32_exact frame_of_def)

interpretation frames: self_delimiting frame_encode frame_dec frame_ok
  by unfold_locales (rule frame_dec_enc)

text \<open>C15: Frames survive the wire: any sequence of frames of at most 64 MiB, written back to back, is
  read back exactly and in order, whatever follows; and a frame that is larger, but shorter than
  4 GiB, is still written, but the reader gives the connection up at its header. (Stream identifiers are 64-bit
  values; from 4 GiB on, the length field of the header wraps around and this says nothing.)\<close>

theorem frame_stream_roundtrip:
  "(list_all frame_ok fs \<longrightarrow> read_n frame_dec (length fs) (concat (map frame_encode fs) @ rest) = Some (fs, rest)) \<and>
   (f_stream_id f < 2 ^ 64 \<and> MAX_FRAME < length (f_payload f) \<and> length (f_payload f) < 2 ^ 32 \<longrightarrow>
     read_frame (frame_encode f @ rest) = Inl (Frame_Too_Large (length (f_payload f))))"
  by (simp add: frames.read_n_stream frame_header as_u32_exact)

theorem frame_stream_roundtrip_witness:
  "read_n frame_dec 2 (frame_encode (frame_of 1 FK_RespBody ''abc'') @ frame_encode (frame_of 1 FK_RespEnd []) @ ''x'') =
     Some ([frame_of 1 FK_RespBody ''abc'', frame_of 1 FK_RespEnd []], ''x'')"
proof -
  let ?fs = "[frame_of 1 FK_RespBody ''abc'', frame_of 1 FK_RespEnd []]"
  have "list_all frame_ok ?fs" by (simp add: frame_ok_def frame_of_def MAX_FRAME_def)
  then show ?thesis using frame_stream_roundtrip [of ?fs "''x''"] by (simp del: read_n.simps add: numeral_2_eq_2)
qed

end
