(* ===== verification/Tunnel_Client.thy ===== *)
theory Tunnel_Client
  imports Tunnel_Codec
begin

text \<open>
  The gateway side of the tunnel, \<open>crates/fluid-tunnel/src/client.rs\<close>: many requests share
  one connection, and a reader task hands each response frame to the caller it belongs to.
  What a caller has received through its channels is part of the state (\<open>tc_heads\<close>, \<open>tc_bodies\<close>). The
  JSON of metadata (serde) is decoded by the arguments \<open>parse_head\<close> and \<open>parse_metrics\<close>. At the end,
  the refinement: what one stream sees is a small automaton of its own events.
\<close>

section \<open>Messages of \<open>lib.rs\<close>\<close>

record req_meta =
  rq_method :: string
  rq_path :: string
  rq_headers :: "(string \<times> string) list"
  rq_body_len :: nat

record resp_meta =
  rp_status :: nat
  rp_headers :: "(string \<times> string) list"
  rp_wait_until_ms :: nat

record metrics =
  mt_inflight :: nat
  mt_max_concurrency :: nat
  mt_bytes_in :: nat
  mt_bytes_out :: nat
  mt_queue_depth :: nat
  mt_backpressure_events :: nat

record health =
  he_inflight :: nat
  he_max_concurrency :: nat
  he_last_update_ms :: nat
  he_alive :: bool
  he_bytes_in :: nat
  he_bytes_out :: nat
  he_queue_depth :: nat
  he_backpressure_events :: nat

section \<open>State\<close>

text \<open>\<open>Pending\<close>: whether the head sender is still there; the body sender exists as long as the entry. \<open>tc_calls\<close> are the calls
  of \<open>request\<close> that have drawn an identifier and not yet sent their frame, with the frame and whether the entry is inserted. \<open>tc_writer_gone\<close>: the
  writer task has ended, so the channel of outgoing frames has no receiver.\<close>

record tunnel_client =
  tc_pending :: "(nat, bool) table"
  tc_health :: health
  tc_closed :: bool
  tc_writer_gone :: bool
  tc_next_id :: nat
  tc_calls :: "(nat, frame \<times> bool) table"
  tc_out :: "frame list"
  tc_heads :: "(nat, string + resp_meta) table"
  tc_bodies :: "(nat, string list) table"

definition health_default :: health where
  "health_default = \<lparr>he_inflight = 0, he_max_concurrency = 0, he_last_update_ms = 0, he_alive = False, he_bytes_in = 0,
     he_bytes_out = 0, he_queue_depth = 0, he_backpressure_events = 0\<rparr>"

definition client_new :: tunnel_client where
  "client_new = \<lparr>tc_pending = [], tc_health = health_default\<lparr>he_alive := True\<rparr>, tc_closed = False, tc_writer_gone = False, tc_next_id = 1,
     tc_calls = [], tc_out = [], tc_heads = [], tc_bodies = []\<rparr>"

section \<open>The reader task\<close>

text \<open>\<open>if let Some(h) = p.head.take() { let _ = h.send(r) }\<close>: nothing arrives when the caller has its answer already.\<close>

definition send_head :: "nat \<Rightarrow> bool \<Rightarrow> string + resp_meta \<Rightarrow> tunnel_client \<Rightarrow> tunnel_client" where
  "send_head sid has_head r c = (if has_head \<and> tget (tc_heads c) sid = None then c\<lparr>tc_heads := tput sid r (tc_heads c)\<rparr> else c)"

definition push_body :: "nat \<Rightarrow> string \<Rightarrow> tunnel_client \<Rightarrow> tunnel_client" where
  "push_body sid p c = c\<lparr>tc_bodies := tmod sid (\<lambda>b. b @ [p]) (tc_bodies c)\<rparr>"

definition health_of :: "nat \<Rightarrow> metrics \<Rightarrow> health" where
  "health_of now m = \<lparr>he_inflight = mt_inflight m, he_max_concurrency = mt_max_concurrency m, he_last_update_ms = now,
     he_alive = True, he_bytes_in = mt_bytes_in m, he_bytes_out = mt_bytes_out m, he_queue_depth = mt_queue_depth m,
     he_backpressure_events = mt_backpressure_events m\<rparr>"

definition on_frame ::
  "(string \<Rightarrow> resp_meta option) \<Rightarrow> (string \<Rightarrow> metrics option) \<Rightarrow> nat \<Rightarrow> frame \<Rightarrow> tunnel_client \<Rightarrow> tunnel_client" where
  "on_frame parse_head parse_metrics now f c =
     (let sid = f_stream_id f
      in (case f_kind f of
            FK_RespHead \<Rightarrow>
              (case parse_head (f_payload f) of
                 None \<Rightarrow> c
               | Some meta \<Rightarrow>
                   (case tget (tc_pending c) sid of
                      None \<Rightarrow> c
                    | Some has_head \<Rightarrow>
                        send_head sid has_head (Inr meta) (c\<lparr>tc_pending := tput sid False (tc_pending c)\<rparr>)))
          | FK_RespBody \<Rightarrow>
              (case tget (tc_pending c) sid of None \<Rightarrow> c | Some _ \<Rightarrow> push_body sid (f_payload f) c)
          | FK_RespEnd \<Rightarrow> c\<lparr>tc_pending := tdel sid (tc_pending c)\<rparr>
          | FK_Nack \<Rightarrow>
              (case tget (tc_pending c) sid of
                 None \<Rightarrow> c
               | Some has_head \<Rightarrow>
                   send_head sid has_head (Inl ''instance nack (overloaded)'')
                     (c\<lparr>tc_pending := tdel sid (tc_pending c)\<rparr>))
          | FK_Metrics \<Rightarrow>
              (case parse_metrics (f_payload f) of None \<Rightarrow> c | Some m \<Rightarrow> c\<lparr>tc_health := health_of now m\<rparr>)
          | _ \<Rightarrow> c))"

text \<open>The reader leaves its loop: it marks the tunnel closed, and then everything outstanding fails.\<close>

definition mark_closed :: "tunnel_client \<Rightarrow> tunnel_client" where
  "mark_closed c = c\<lparr>tc_closed := True, tc_health := (tc_health c)\<lparr>he_alive := False\<rparr>\<rparr>"

definition drain_pending :: "tunnel_client \<Rightarrow> tunnel_client" where
  "drain_pending c = fold (\<lambda>(sid, has_head) c. send_head sid has_head (Inl ''tunnel closed'') c) (tc_pending c) (c\<lparr>tc_pending := []\<rparr>)"

section \<open>Requests\<close>

text \<open>\<open>request\<close> in its pieces: the check and the identifier, the entry, the frame, and what comes after the await. Other tasks
  run between them. \<open>encode_req\<close> is the JSON of the metadata.\<close>

definition request_payload :: "(req_meta \<Rightarrow> string) \<Rightarrow> req_meta \<Rightarrow> string \<Rightarrow> string" where
  "request_payload encode_req meta body =
     be_bytes 4 (as_u32 (length (encode_req meta))) @ encode_req meta @ body"

definition request_begin ::
  "(req_meta \<Rightarrow> string) \<Rightarrow> string \<Rightarrow> string \<Rightarrow> (string \<times> string) list \<Rightarrow> string \<Rightarrow> tunnel_client \<Rightarrow>
    (string + nat) \<times> tunnel_client" where
  "request_begin encode_req method path headers body c =
     (if tc_closed c then (Inl ''tunnel closed'', c)
      else (let sid = tc_next_id c;
                meta = \<lparr>rq_method = method, rq_path = path, rq_headers = headers, rq_body_len = as_u32 (length body)\<rparr>
            in (Inr sid, c\<lparr>tc_next_id := sid + 1,
                  tc_calls := tput sid (frame_of sid FK_Request (request_payload encode_req meta body), False) (tc_calls c)\<rparr>)))"

definition request_insert :: "nat \<Rightarrow> tunnel_client \<Rightarrow> tunnel_client" where
  "request_insert sid c =
     (case tget (tc_calls c) sid of
        Some (f, False) \<Rightarrow>
          c\<lparr>tc_calls := tput sid (f, True) (tc_calls c), tc_pending := tput sid True (tc_pending c),
            tc_bodies := tput sid [] (tc_bodies c)\<rparr>
      | _ \<Rightarrow> c)"

text \<open>Without a writer the call fails here; its entry stays.\<close>

definition request_send :: "nat \<Rightarrow> tunnel_client \<Rightarrow> tunnel_client" where
  "request_send sid c =
     (case tget (tc_calls c) sid of
        Some (f, True) \<Rightarrow>
          (let c1 = c\<lparr>tc_calls := tdel sid (tc_calls c)\<rparr>
           in if tc_writer_gone c then c1\<lparr>tc_heads := tput sid (Inl ''tunnel writer gone'') (tc_heads c1)\<rparr>
              else c1\<lparr>tc_out := tc_out c1 @ [f]\<rparr>)
      | _ \<Rightarrow> c)"

text \<open>\<open>request\<close> after its await: the head arrived, its sender was dropped, or the time ran out.\<close>

definition request_end :: "nat \<Rightarrow> tunnel_client \<Rightarrow> (string + resp_meta) \<times> tunnel_client" where
  "request_end sid c =
     (case tget (tc_heads c) sid of
        Some r \<Rightarrow> (r, c)
      | None \<Rightarrow>
          (if tget (tc_pending c) sid = None
           then (Inl ''tunnel closed before response'', c)
           else (Inl ''timed out waiting for response head'', c\<lparr>tc_pending := tdel sid (tc_pending c)\<rparr>)))"

datatype client_event =
    Ev_Request string string "(string \<times> string) list" string
  | Ev_Insert nat
  | Ev_Send nat
  | Ev_End nat
  | Ev_Frame nat frame
  | Ev_Writer_Gone
  | Ev_Closed
  | Ev_Drain

fun client_step ::
  "(req_meta \<Rightarrow> string) \<Rightarrow> (string \<Rightarrow> resp_meta option) \<Rightarrow> (string \<Rightarrow> metrics option) \<Rightarrow> client_event \<Rightarrow>
    tunnel_client \<Rightarrow> tunnel_client" where
  "client_step enc ph pm (Ev_Request method path headers body) c = snd (request_begin enc method path headers body c)"
| "client_step enc ph pm (Ev_Insert sid) c = request_insert sid c"
| "client_step enc ph pm (Ev_Send sid) c = request_send sid c"
| "client_step enc ph pm (Ev_End sid) c = (if tget (tc_calls c) sid = None then snd (request_end sid c) else c)"
| "client_step enc ph pm (Ev_Frame now f) c = on_frame ph pm now f c"
| "client_step enc ph pm Ev_Writer_Gone c = c\<lparr>tc_writer_gone := True\<rparr>"
| "client_step enc ph pm Ev_Closed c = mark_closed c"
| "client_step enc ph pm Ev_Drain c = drain_pending c"

section \<open>What one stream sees\<close>

text \<open>The abstract stream: not started, or open or closed with the head and the body chunks received.\<close>

datatype stream_view = Idle_Stream | Stream (sv_open: bool) (sv_head: "(string + resp_meta) option") (sv_body: "string list")

definition view :: "nat \<Rightarrow> tunnel_client \<Rightarrow> stream_view" where
  "view sid c =
     (case tget (tc_bodies c) sid of
        None \<Rightarrow> Idle_Stream
      | Some b \<Rightarrow> Stream (tget (tc_pending c) sid \<noteq> None) (tget (tc_heads c) sid) b)"

text \<open>The first head wins.\<close>

definition first_head :: "(string + resp_meta) option \<Rightarrow> string + resp_meta \<Rightarrow> (string + resp_meta) option" where
  "first_head h r = (case h of None \<Rightarrow> Some r | Some _ \<Rightarrow> h)"

fun stream_frame :: "(string \<Rightarrow> resp_meta option) \<Rightarrow> frame \<Rightarrow> stream_view \<Rightarrow> stream_view" where
  "stream_frame ph f (Stream True h b) =
     (case f_kind f of
        FK_RespHead \<Rightarrow> (case ph (f_payload f) of None \<Rightarrow> Stream True h b | Some m \<Rightarrow> Stream True (first_head h (Inr m)) b)
      | FK_RespBody \<Rightarrow> Stream True h (b @ [f_payload f])
      | FK_RespEnd \<Rightarrow> Stream False h b
      | FK_Nack \<Rightarrow> Stream False (first_head h (Inl ''instance nack (overloaded)'')) b
      | _ \<Rightarrow> Stream True h b)"
| "stream_frame ph f v = v"

fun stream_close :: "stream_view \<Rightarrow> stream_view" where
  "stream_close (Stream True h b) = Stream False (first_head h (Inl ''tunnel closed'')) b"
| "stream_close v = v"

fun stream_end :: "stream_view \<Rightarrow> stream_view" where
  "stream_end (Stream opened None b) = Stream False None b"
| "stream_end v = v"

fun stream_fail :: "string \<Rightarrow> stream_view \<Rightarrow> stream_view" where
  "stream_fail e (Stream opened h b) = Stream opened (Some (Inl e)) b"
| "stream_fail e v = v"

text \<open>How far the call of a stream is: whether the entry is inserted, as long as the frame is not sent.\<close>

definition call_stage :: "nat \<Rightarrow> tunnel_client \<Rightarrow> bool option" where
  "call_stage sid c = map_option snd (tget (tc_calls c) sid)"

text \<open>The events of the connection as stream \<open>sid\<close> sees them; \<open>next\<close> is the identifier the next request
  will get.\<close>

fun stream_step ::
  "nat \<Rightarrow> (string \<Rightarrow> resp_meta option) \<Rightarrow> client_event \<Rightarrow> bool \<Rightarrow> bool \<Rightarrow> nat \<Rightarrow> bool option \<times> stream_view \<Rightarrow> bool option \<times> stream_view" where
  "stream_step sid ph (Ev_Request _ _ _ _) closed gone next (st, v) = (if \<not> closed \<and> next = sid then (Some False, v) else (st, v))"
| "stream_step sid ph (Ev_Insert i) closed gone next (st, v) =
     (if i = sid \<and> st = Some False then (Some True, Stream True None []) else (st, v))"
| "stream_step sid ph (Ev_Send i) closed gone next (st, v) =
     (if i = sid \<and> st = Some True then (None, if gone then stream_fail ''tunnel writer gone'' v else v) else (st, v))"
| "stream_step sid ph (Ev_End i) closed gone next (st, v) = (st, if i = sid \<and> st = None then stream_end v else v)"
| "stream_step sid ph (Ev_Frame _ f) closed gone next (st, v) = (st, if f_stream_id f = sid then stream_frame ph f v else v)"
| "stream_step sid ph Ev_Drain closed gone next (st, v) = (st, stream_close v)"
| "stream_step sid ph ev closed gone next (st, v) = (st, v)"

text \<open>Entries belong to identifiers already given out, and a head sender is gone only when the caller has its answer.\<close>

definition client_inv :: "tunnel_client \<Rightarrow> bool" where
  "client_inv c \<longleftrightarrow> distinct (tkeys (tc_pending c)) \<and>
     (\<forall>sid b. tget (tc_bodies c) sid = Some b \<longrightarrow> sid < tc_next_id c) \<and>
     (\<forall>sid h. tget (tc_heads c) sid = Some h \<longrightarrow> sid < tc_next_id c \<and> tget (tc_bodies c) sid \<noteq> None) \<and>
     (\<forall>sid p. tget (tc_pending c) sid = Some p \<longrightarrow>
        tget (tc_bodies c) sid \<noteq> None \<and> (p \<or> tget (tc_heads c) sid \<noteq> None)) \<and>
     (\<forall>sid f i. tget (tc_calls c) sid = Some (f, i) \<longrightarrow> sid < tc_next_id c \<and> (i \<longleftrightarrow> tget (tc_bodies c) sid \<noteq> None))"

lemma send_head_simps [simp]:
  "tc_pending (send_head sid b r c) = tc_pending c" "tc_bodies (send_head sid b r c) = tc_bodies c"
  "tc_next_id (send_head sid b r c) = tc_next_id c" "tc_closed (send_head sid b r c) = tc_closed c"
  "tc_calls (send_head sid b r c) = tc_calls c" "tc_writer_gone (send_head sid b r c) = tc_writer_gone c"
  "tget (tc_heads (send_head sid b r c)) i =
    (if b \<and> i = sid then Some (case tget (tc_heads c) sid of None \<Rightarrow> r | Some h \<Rightarrow> h) else tget (tc_heads c) i)"
  by (auto simp: send_head_def split: option.split simp del: map_of_eq_Some_iff)

lemma drain_fold:
  fixes ps :: "(nat \<times> bool) list"
  defines "g \<equiv> \<lambda>(sid, has_head) c. send_head sid has_head (Inl ''tunnel closed'') c"
  shows "tc_pending (fold g ps c) = tc_pending c" "tc_bodies (fold g ps c) = tc_bodies c"
    "tc_next_id (fold g ps c) = tc_next_id c" "tc_closed (fold g ps c) = tc_closed c" "tc_calls (fold g ps c) = tc_calls c"
    "tc_writer_gone (fold g ps c) = tc_writer_gone c"
    "distinct (tkeys ps) \<Longrightarrow>
      tget (tc_heads (fold g ps c)) sid =
        (if tget ps sid = Some True then first_head (tget (tc_heads c) sid) (Inl ''tunnel closed'') else tget (tc_heads c) sid)"
proof -
  show "tc_pending (fold g ps c) = tc_pending c" "tc_bodies (fold g ps c) = tc_bodies c"
    "tc_next_id (fold g ps c) = tc_next_id c" "tc_closed (fold g ps c) = tc_closed c" "tc_calls (fold g ps c) = tc_calls c"
    "tc_writer_gone (fold g ps c) = tc_writer_gone c"
    by (induction ps arbitrary: c) (simp_all add: g_def case_prod_unfold)
  show "distinct (tkeys ps) \<Longrightarrow>
      tget (tc_heads (fold g ps c)) sid =
        (if tget ps sid = Some True then first_head (tget (tc_heads c) sid) (Inl ''tunnel closed'') else tget (tc_heads c) sid)"
  proof (induction ps arbitrary: c)
    case Nil
    then show ?case by simp
  next
    case (Cons x ps)
    obtain i b where x: "x = (i, b)" by (cases x)
    have "tget ps i = None" using Cons.prems x by (simp add: tget_None_iff)
    then show ?case using Cons.IH [of "g x c"] Cons.prems x
      by (auto simp: g_def first_head_def split: option.split simp del: map_of_eq_Some_iff)
  qed
qed

lemma client_invI:
  assumes "distinct (tkeys (tc_pending c))"
    and "\<And>sid b. tget (tc_bodies c) sid = Some b \<Longrightarrow> sid < tc_next_id c"
    and "\<And>sid h. tget (tc_heads c) sid = Some h \<Longrightarrow> sid < tc_next_id c \<and> tget (tc_bodies c) sid \<noteq> None"
    and "\<And>sid p. tget (tc_pending c) sid = Some p \<Longrightarrow>
      tget (tc_bodies c) sid \<noteq> None \<and> (p \<or> tget (tc_heads c) sid \<noteq> None)"
    and "\<And>sid f i. tget (tc_calls c) sid = Some (f, i) \<Longrightarrow> sid < tc_next_id c \<and> (i \<longleftrightarrow> tget (tc_bodies c) sid \<noteq> None)"
  shows "client_inv c"
  using assms unfolding client_inv_def by blast

lemma client_invD:
  assumes "client_inv c"
  shows "distinct (tkeys (tc_pending c))"
    and "tget (tc_bodies c) sid = Some b \<Longrightarrow> sid < tc_next_id c"
    and "tget (tc_heads c) sid = Some h \<Longrightarrow> sid < tc_next_id c \<and> tget (tc_bodies c) sid \<noteq> None"
    and "tget (tc_pending c) sid = Some p \<Longrightarrow>
      tget (tc_bodies c) sid \<noteq> None \<and> (p \<or> tget (tc_heads c) sid \<noteq> None)"
    and "tget (tc_calls c) sid = Some (f, i) \<Longrightarrow> sid < tc_next_id c \<and> (i \<longleftrightarrow> tget (tc_bodies c) sid \<noteq> None)"
  using assms unfolding client_inv_def by blast+

lemma pending_head:
  "client_inv c \<Longrightarrow> tget (tc_pending c) sid = Some p \<Longrightarrow> p \<or> tget (tc_heads c) sid \<noteq> None"
  using client_invD(4) by blast

lemma pending_body:
  "client_inv c \<Longrightarrow> tget (tc_pending c) sid = Some p \<Longrightarrow> \<exists>b. tget (tc_bodies c) sid = Some b"
  using client_invD(4) [of c sid p] by (simp del: map_of_eq_Some_iff)

lemma view_None: "client_inv c \<Longrightarrow> tget (tc_bodies c) sid = None \<Longrightarrow> tget (tc_pending c) sid = None \<and> tget (tc_heads c) sid = None"
  using client_invD(3,4) [of c sid] by (metis not_None_eq)

text \<open>The invariant under an update that leaves most of the state alone.\<close>

lemma client_inv_frame_rule:
  assumes "client_inv c"
    and "tc_next_id c' = tc_next_id c" "tc_calls c' = tc_calls c"
    and "\<And>i. (tget (tc_bodies c') i = None) = (tget (tc_bodies c) i = None)"
    and "distinct (tkeys (tc_pending c'))"
    and "\<And>i p. tget (tc_pending c') i = Some p \<Longrightarrow> tget (tc_pending c) i \<noteq> None \<and> (p \<or> tget (tc_heads c') i \<noteq> None)"
    and "\<And>i h. tget (tc_heads c') i = Some h \<Longrightarrow> tget (tc_heads c) i \<noteq> None \<or> tget (tc_pending c) i \<noteq> None"
  shows "client_inv c'"
proof (rule client_invI)
  note D = client_invD [OF assms(1)]
  have low: "i < tc_next_id c" if "tget (tc_bodies c) i \<noteq> None" for i using that D(2) by blast
  show "distinct (tkeys (tc_pending c'))" by (rule assms(5))
  show "sid < tc_next_id c'" if "tget (tc_bodies c') sid = Some b" for sid b
    using that assms(2,4) low by (metis option.distinct(1))
  show "sid < tc_next_id c' \<and> tget (tc_bodies c') sid \<noteq> None" if "tget (tc_heads c') sid = Some h" for sid h
    using assms(7) [OF that] D(3,4) low assms(2,4) by (metis not_None_eq)
  show "tget (tc_bodies c') sid \<noteq> None \<and> (p \<or> tget (tc_heads c') sid \<noteq> None)" if "tget (tc_pending c') sid = Some p" for sid p
    using assms(6) [OF that] D(4) assms(4) by (metis not_None_eq)
  show "sid < tc_next_id c' \<and> (i \<longleftrightarrow> tget (tc_bodies c') sid \<noteq> None)" if "tget (tc_calls c') sid = Some (f, i)" for sid f i
    using D(5) [of sid f i] that assms(2-4) by metis
qed

lemma client_inv_put:
  assumes "client_inv c" and "tget (tc_pending c) sid = Some p"
  shows "client_inv (send_head sid p r (c\<lparr>tc_pending := tput sid False (tc_pending c)\<rparr>))"
proof (rule client_inv_frame_rule [OF assms(1)])
  let ?c = "send_head sid p r (c\<lparr>tc_pending := tput sid False (tc_pending c)\<rparr>)"
  note D = client_invD(1,4) [OF assms(1)]
  show "distinct (tkeys (tc_pending ?c))" using D(1) by simp
  show "tget (tc_pending c) i \<noteq> None \<and> (q \<or> tget (tc_heads ?c) i \<noteq> None)" if "tget (tc_pending ?c) i = Some q" for i q
    using that D(2) [of i q] D(2) [OF assms(2)] assms(2) by (cases "i = sid") (auto simp del: map_of_eq_Some_iff)
  show "tget (tc_heads c) i \<noteq> None \<or> tget (tc_pending c) i \<noteq> None" if "tget (tc_heads ?c) i = Some h" for i h
    using that assms(2) by (cases "i = sid") (simp_all del: map_of_eq_Some_iff)
qed simp_all

lemma client_inv_del:
  assumes "client_inv c"
  shows "client_inv (c\<lparr>tc_pending := tdel sid (tc_pending c)\<rparr>)"
proof (rule client_inv_frame_rule [OF assms(1)])
  let ?c = "c\<lparr>tc_pending := tdel sid (tc_pending c)\<rparr>"
  note D = client_invD(1,4) [OF assms(1)]
  show "distinct (tkeys (tc_pending ?c))" using D(1) by simp
  show "tget (tc_pending c) i \<noteq> None \<and> (q \<or> tget (tc_heads ?c) i \<noteq> None)" if "tget (tc_pending ?c) i = Some q" for i q
    using that D(2) [of i q] by (cases "i = sid") (simp_all del: map_of_eq_Some_iff)
qed simp_all

lemma client_inv_nack:
  assumes "client_inv c" and "tget (tc_pending c) sid = Some p"
  shows "client_inv (send_head sid p r (c\<lparr>tc_pending := tdel sid (tc_pending c)\<rparr>))"
proof (rule client_inv_frame_rule [OF assms(1)])
  let ?c = "send_head sid p r (c\<lparr>tc_pending := tdel sid (tc_pending c)\<rparr>)"
  note D = client_invD(1,4) [OF assms(1)]
  show "distinct (tkeys (tc_pending ?c))" using D(1) by simp
  show "tget (tc_pending c) i \<noteq> None \<and> (q \<or> tget (tc_heads ?c) i \<noteq> None)" if "tget (tc_pending ?c) i = Some q" for i q
    using that D(2) [of i q] D(2) [OF assms(2)] assms(2) by (cases "i = sid") (auto simp del: map_of_eq_Some_iff)
  show "tget (tc_heads c) i \<noteq> None \<or> tget (tc_pending c) i \<noteq> None" if "tget (tc_heads ?c) i = Some h" for i h
    using that assms(2) by (cases "i = sid") (simp_all del: map_of_eq_Some_iff)
qed simp_all

lemma client_inv_body: "client_inv c \<Longrightarrow> client_inv (push_body sid x c)"
proof (rule client_inv_frame_rule)
  assume c: "client_inv c"
  note D = client_invD(1,4) [OF c]
  show "client_inv c" by (rule c)
  show "distinct (tkeys (tc_pending (push_body sid x c)))" using D(1) by (simp add: push_body_def)
  show "tget (tc_pending c) i \<noteq> None \<and> (q \<or> tget (tc_heads (push_body sid x c)) i \<noteq> None)"
    if "tget (tc_pending (push_body sid x c)) i = Some q" for i q
    using that D(2) [of i q] by (simp add: push_body_def)
qed (simp_all add: push_body_def)

lemma client_inv_same:
  "client_inv c \<Longrightarrow> client_inv (c\<lparr>tc_health := x\<rparr>)" "client_inv c \<Longrightarrow> client_inv (mark_closed c)"
  "client_inv c \<Longrightarrow> client_inv (c\<lparr>tc_writer_gone := y\<rparr>)"
  by (simp_all add: client_inv_def mark_closed_def del: map_of_eq_Some_iff)

lemma client_inv_frame: "client_inv c \<Longrightarrow> client_inv (on_frame ph pm now f c)"
  by (cases "f_kind f")
    (simp_all add: on_frame_def Let_def client_inv_put client_inv_nack client_inv_body client_inv_del client_inv_same
      split: option.split del: map_of_eq_Some_iff)

lemma fresh_stream:
  assumes "client_inv c"
  shows "tget (tc_heads c) (tc_next_id c) = None" and "tget (tc_bodies c) (tc_next_id c) = None"
  using client_invD(2,3) [OF assms] by (metis less_irrefl option.exhaust)+

lemma client_inv_request:
  assumes "client_inv c"
  shows "client_inv (snd (request_begin enc m p hs b c))"
proof (cases "tc_closed c")
  case True
  then show ?thesis using assms by (simp add: request_begin_def)
next
  case False
  note D = client_invD [OF assms(1)]
  show ?thesis
  proof (rule client_invI)
    let ?c = "snd (request_begin enc m p hs b c)"
    show "distinct (tkeys (tc_pending ?c))" using D(1) False by (simp add: request_begin_def Let_def)
    fix i
    show "i < tc_next_id ?c" if "tget (tc_bodies ?c) i = Some x" for x
      using that D(2) [of i x] False by (simp add: request_begin_def Let_def del: map_of_eq_Some_iff)
    show "i < tc_next_id ?c \<and> tget (tc_bodies ?c) i \<noteq> None" if "tget (tc_heads ?c) i = Some h" for h
      using that D(3) [of i h] False by (simp add: request_begin_def Let_def del: map_of_eq_Some_iff)
    show "tget (tc_bodies ?c) i \<noteq> None \<and> (q \<or> tget (tc_heads ?c) i \<noteq> None)" if "tget (tc_pending ?c) i = Some q" for q
      using that D(4) [of i q] False by (simp add: request_begin_def Let_def del: map_of_eq_Some_iff)
    show "i < tc_next_id ?c \<and> (q \<longleftrightarrow> tget (tc_bodies ?c) i \<noteq> None)" if "tget (tc_calls ?c) i = Some (f, q)" for f q
      using that D(5) [of i f q] False fresh_stream(2) [OF assms]
      by (auto simp: request_begin_def Let_def split: if_splits simp del: map_of_eq_Some_iff)
  qed
qed

lemma client_inv_insert:
  assumes "client_inv c"
  shows "client_inv (request_insert sid c)"
proof (cases "\<exists>f. tget (tc_calls c) sid = Some (f, False)")
  case True
  then obtain f where f: "tget (tc_calls c) sid = Some (f, False)" by blast
  note D = client_invD [OF assms(1)]
  have new: "sid < tc_next_id c" "tget (tc_bodies c) sid = None" using D(5) [OF f] by simp_all
  show ?thesis
  proof (rule client_invI)
    let ?c = "request_insert sid c"
    show "distinct (tkeys (tc_pending ?c))" using D(1) f by (simp add: request_insert_def)
    fix i
    show "i < tc_next_id ?c" if "tget (tc_bodies ?c) i = Some x" for x
      using that D(2) [of i x] f new by (auto simp: request_insert_def split: if_splits simp del: map_of_eq_Some_iff)
    show "i < tc_next_id ?c \<and> tget (tc_bodies ?c) i \<noteq> None" if "tget (tc_heads ?c) i = Some h" for h
      using that D(3) [of i h] f by (auto simp: request_insert_def simp del: map_of_eq_Some_iff)
    show "tget (tc_bodies ?c) i \<noteq> None \<and> (q \<or> tget (tc_heads ?c) i \<noteq> None)" if "tget (tc_pending ?c) i = Some q" for q
      using that D(4) [of i q] f by (auto simp: request_insert_def split: if_splits simp del: map_of_eq_Some_iff)
    show "i < tc_next_id ?c \<and> (q \<longleftrightarrow> tget (tc_bodies ?c) i \<noteq> None)" if "tget (tc_calls ?c) i = Some (g, q)" for g q
      using that D(5) [of i g q] f new by (auto simp: request_insert_def split: if_splits simp del: map_of_eq_Some_iff)
  qed
next
  case False
  then have "request_insert sid c = c" by (auto simp: request_insert_def split: option.split prod.split bool.split simp del: map_of_eq_Some_iff)
  then show ?thesis using assms by simp
qed

lemma client_inv_send:
  assumes "client_inv c"
  shows "client_inv (request_send sid c)"
proof (cases "\<exists>f. tget (tc_calls c) sid = Some (f, True)")
  case True
  then obtain f where f: "tget (tc_calls c) sid = Some (f, True)" by blast
  note D = client_invD [OF assms(1)]
  have old: "sid < tc_next_id c" "tget (tc_bodies c) sid \<noteq> None" using D(5) [OF f] by simp_all
  show ?thesis
  proof (rule client_invI)
    let ?c = "request_send sid c"
    show "distinct (tkeys (tc_pending ?c))" using D(1) f by (simp add: request_send_def Let_def)
    fix i
    show "i < tc_next_id ?c" if "tget (tc_bodies ?c) i = Some x" for x
      using that D(2) [of i x] f by (auto simp: request_send_def Let_def split: if_splits simp del: map_of_eq_Some_iff)
    show "i < tc_next_id ?c \<and> tget (tc_bodies ?c) i \<noteq> None" if "tget (tc_heads ?c) i = Some h" for h
      using that D(3) [of i h] f old by (auto simp: request_send_def Let_def split: if_splits simp del: map_of_eq_Some_iff)
    show "tget (tc_bodies ?c) i \<noteq> None \<and> (q \<or> tget (tc_heads ?c) i \<noteq> None)" if "tget (tc_pending ?c) i = Some q" for q
      using that D(4) [of i q] f by (auto simp: request_send_def Let_def split: if_splits simp del: map_of_eq_Some_iff)
    show "i < tc_next_id ?c \<and> (q \<longleftrightarrow> tget (tc_bodies ?c) i \<noteq> None)" if "tget (tc_calls ?c) i = Some (g, q)" for g q
      using that D(5) [of i g q] f by (auto simp: request_send_def Let_def split: if_splits simp del: map_of_eq_Some_iff)
  qed
next
  case False
  then have "request_send sid c = c" by (auto simp: request_send_def split: option.split prod.split bool.split simp del: map_of_eq_Some_iff)
  then show ?thesis using assms by simp
qed

lemma drain_fields:
  assumes "client_inv c"
  shows "tc_pending (drain_pending c) = []" "tc_bodies (drain_pending c) = tc_bodies c" "tc_next_id (drain_pending c) = tc_next_id c"
    "tc_closed (drain_pending c) = tc_closed c" "tc_calls (drain_pending c) = tc_calls c" "tc_writer_gone (drain_pending c) = tc_writer_gone c"
    "tget (tc_heads (drain_pending c)) sid =
      (if tget (tc_pending c) sid = Some True then first_head (tget (tc_heads c) sid) (Inl ''tunnel closed'') else tget (tc_heads c) sid)"
  using client_invD(1) [OF assms] by (simp_all add: drain_pending_def drain_fold del: map_of_eq_Some_iff)

lemma client_inv_drain:
  assumes "client_inv c"
  shows "client_inv (drain_pending c)"
  by (rule client_inv_frame_rule [OF assms])
    (auto simp: drain_fields [OF assms] first_head_def split: if_splits option.splits simp del: map_of_eq_Some_iff)

lemma client_inv_end: "client_inv c \<Longrightarrow> client_inv (snd (request_end sid c))"
  by (simp add: request_end_def client_inv_del split: option.split del: map_of_eq_Some_iff)

lemma client_step_inv: "client_inv c \<Longrightarrow> client_inv (client_step enc ph pm ev c)"
  by (cases ev) (simp_all add: client_inv_frame client_inv_request client_inv_insert client_inv_send client_inv_drain client_inv_end client_inv_same)

text \<open>Each operation acts on the view of a stream as the automaton does.\<close>

lemma view_frame:
  assumes "client_inv c"
  shows "view sid (on_frame ph pm now f c) = (if f_stream_id f = sid then stream_frame ph f (view sid c) else view sid c)"
proof (cases "tget (tc_bodies c) sid")
  case None
  then show ?thesis
    using view_None [OF assms None]
    by (cases "f_kind f") (auto simp: on_frame_def view_def Let_def push_body_def split: option.split simp del: map_of_eq_Some_iff)
next
  case (Some b)
  show ?thesis
  proof (cases "tget (tc_pending c) sid")
    case None
    then show ?thesis using Some
      by (cases "f_kind f") (auto simp: on_frame_def view_def Let_def push_body_def split: option.split simp del: map_of_eq_Some_iff)
  next
    case (Some p)
    then show ?thesis using \<open>tget (tc_bodies c) sid = Some b\<close> pending_head [OF assms Some]
      by (cases "f_kind f")
        (auto simp: on_frame_def view_def Let_def push_body_def first_head_def split: option.split simp del: map_of_eq_Some_iff)
  qed
qed

lemma request_stage_frame [simp]: "call_stage sid (on_frame ph pm now f c) = call_stage sid c"
  by (cases "f_kind f") (auto simp: on_frame_def call_stage_def Let_def push_body_def split: option.split simp del: map_of_eq_Some_iff)

lemma view_request:
  assumes "client_inv c"
  shows "view sid (snd (request_begin enc m p hs b c)) = view sid c"
    and "call_stage sid (snd (request_begin enc m p hs b c)) = (if \<not> tc_closed c \<and> tc_next_id c = sid then Some False else call_stage sid c)"
proof -
  show "view sid (snd (request_begin enc m p hs b c)) = view sid c"
    by (cases "tc_closed c") (simp_all add: request_begin_def view_def Let_def split: option.split del: map_of_eq_Some_iff map_of_eq_None_iff)
  show "call_stage sid (snd (request_begin enc m p hs b c)) = (if \<not> tc_closed c \<and> tc_next_id c = sid then Some False else call_stage sid c)"
    by (cases "tc_closed c") (simp_all add: request_begin_def call_stage_def Let_def del: map_of_eq_Some_iff map_of_eq_None_iff)
qed

lemma view_insert:
  assumes "client_inv c"
  shows "(call_stage sid (request_insert i c), view sid (request_insert i c)) =
    (if i = sid \<and> call_stage sid c = Some False then (Some True, Stream True None []) else (call_stage sid c, view sid c))"
proof (cases "tget (tc_calls c) i")
  case (Some x)
  obtain f b where x: "x = (f, b)" by (cases x)
  have "tget (tc_heads c) i = None" if "\<not> b" using client_invD(5) [OF assms Some [unfolded x]] view_None [OF assms, of i] that by simp
  then show ?thesis using Some
    by (cases b) (auto simp: x request_insert_def call_stage_def view_def split: option.split simp del: map_of_eq_Some_iff)
qed (auto simp: request_insert_def call_stage_def simp del: map_of_eq_Some_iff)

lemma view_send:
  assumes "client_inv c"
  shows "(call_stage sid (request_send i c), view sid (request_send i c)) =
    (if i = sid \<and> call_stage sid c = Some True
     then (None, if tc_writer_gone c then stream_fail ''tunnel writer gone'' (view sid c) else view sid c)
     else (call_stage sid c, view sid c))"
proof (cases "tget (tc_calls c) i")
  case (Some x)
  obtain f b where x: "x = (f, b)" by (cases x)
  have "\<exists>y. tget (tc_bodies c) i = Some y" if b using client_invD(5) [OF assms Some [unfolded x]] that by (simp del: map_of_eq_Some_iff)
  then show ?thesis using Some
    by (cases b) (auto simp: x request_send_def call_stage_def view_def Let_def split: option.split simp del: map_of_eq_Some_iff)
qed (auto simp: request_send_def call_stage_def simp del: map_of_eq_Some_iff)

lemma view_drain:
  assumes "client_inv c"
  shows "view sid (drain_pending c) = stream_close (view sid c)" and "call_stage sid (drain_pending c) = call_stage sid c"
proof -
  show "view sid (drain_pending c) = stream_close (view sid c)"
  proof (cases "tget (tc_bodies c) sid")
    case None
    then show ?thesis by (simp add: view_def drain_fields [OF assms])
  next
    case (Some b)
    then show ?thesis
      using pending_head [OF assms, of sid]
      by (cases "tget (tc_pending c) sid")
        (auto simp: view_def drain_fields [OF assms] first_head_def split: option.split simp del: map_of_eq_Some_iff)
  qed
qed (simp add: call_stage_def drain_fields [OF assms] del: map_of_eq_Some_iff)

lemma view_end:
  assumes "client_inv c"
  shows "view sid (snd (request_end i c)) = (if i = sid then stream_end (view sid c) else view sid c)"
    and "call_stage sid (snd (request_end i c)) = call_stage sid c"
  using view_None [OF assms, of sid]
  by (cases "tget (tc_heads c) i"; auto simp: request_end_def view_def call_stage_def split: option.split simp del: map_of_eq_Some_iff)+

lemma view_same [simp]:
  "view sid (mark_closed c) = view sid c" "view sid (c\<lparr>tc_writer_gone := g\<rparr>) = view sid c"
  "call_stage sid (mark_closed c) = call_stage sid c" "call_stage sid (c\<lparr>tc_writer_gone := g\<rparr>) = call_stage sid c"
  by (simp_all add: view_def call_stage_def mark_closed_def split: option.split del: map_of_eq_Some_iff map_of_eq_None_iff)

lemma stage_None: "tget (tc_calls c) i = None \<longleftrightarrow> call_stage i c = None"
  by (simp add: call_stage_def)

lemma client_step_view:
  assumes "client_inv c"
  shows "(call_stage sid (client_step enc ph pm ev c), view sid (client_step enc ph pm ev c)) =
    stream_step sid ph ev (tc_closed c) (tc_writer_gone c) (tc_next_id c) (call_stage sid c, view sid c)"
  using view_insert [OF assms] view_send [OF assms]
  by (cases ev) (auto simp: view_frame [OF assms] view_request [OF assms] view_drain [OF assms] view_end [OF assms] stage_None
      simp del: map_of_eq_None_iff)

end
