(* ===== verification/Tunnel_Server.thy ===== *)
theory Tunnel_Server
  imports Tunnel_Client
begin

text \<open>
  The instance side of the tunnel, \<open>crates/fluid-tunnel/src/server.rs\<close>: the reader loop that admits or
  refuses requests, the retry policy of a request and the HTTP exchange with the local function. The
  connection to the function is what it will deliver: a list of the results of \<open>read\<close> into the 8 KiB
  buffer (\<open>None\<close> an error, \<open>Some []\<close> and the end of the list the end of the stream).
  The JSON of metadata (serde) is an argument. Frames are sent while the tunnel is open.
\<close>

section \<open>Metering\<close>

definition BACKPRESSURE_HWM :: nat where
  "BACKPRESSURE_HWM = 256"

record tunnel_meter =
  tm_bytes_in :: nat
  tm_bytes_out :: nat
  tm_queued :: nat
  tm_backpressure_events :: nat

text \<open>\<open>MeteredSender::send\<close>; the receiver is gone when \<open>up\<close> is false.\<close>

definition metered_send :: "bool \<Rightarrow> tunnel_meter \<Rightarrow> bool \<times> tunnel_meter" where
  "metered_send up m =
     (let depth = tm_queued m + 1;
          m1 = m\<lparr>tm_queued := depth,
                 tm_backpressure_events := (if depth \<ge> BACKPRESSURE_HWM then tm_backpressure_events m + 1 else tm_backpressure_events m)\<rparr>
      in if up then (True, m1) else (False, m1\<lparr>tm_queued := tm_queued m1 - 1\<rparr>))"

text \<open>The writer task takes one frame and writes it.\<close>

definition writer_take :: "frame \<Rightarrow> tunnel_meter \<Rightarrow> tunnel_meter" where
  "writer_take f m = m\<lparr>tm_queued := tm_queued m - 1, tm_bytes_out := tm_bytes_out m + length (frame_encode f)\<rparr>"

section \<open>The exchange with the function\<close>

datatype proxy_result = Proxy_Ok | Proxy_Err string | Proxy_Panic

definition is_hop_by_hop :: "string \<Rightarrow> bool" where
  "is_hop_by_hop h \<longleftrightarrow>
     h \<in> {''connection'', ''keep-alive'', ''transfer-encoding'', ''upgrade'', ''te'', ''trailers''}"

subsection \<open>The request\<close>

text \<open>\<open>[u32 meta_len][meta json][body]\<close>.\<close>

definition split_payload :: "(string \<Rightarrow> req_meta option) \<Rightarrow> string \<Rightarrow> string + (req_meta \<times> string)" where
  "split_payload dec payload =
     (if length payload < 4 then Inl ''short request payload''
      else (let meta_len = be_val (take 4 payload)
            in if length payload < 4 + meta_len then Inl ''truncated request meta''
               else (case dec (take meta_len (drop 4 payload)) of
                       None \<Rightarrow> Inl ''json''
                     | Some meta \<Rightarrow> Inr (meta, drop (4 + meta_len) payload))))"

definition forwarded :: "string \<times> string \<Rightarrow> bool" where
  "forwarded kv = (let kl = map ascii_lower (fst kv) in \<not> (is_hop_by_hop kl \<or> kl = ''content-length''))"

definition header_line :: "string \<times> string \<Rightarrow> string" where
  "header_line kv = fst kv @ '': '' @ snd kv @ crlf"

definition http_request :: "req_meta \<Rightarrow> string \<Rightarrow> string" where
  "http_request meta body =
     (let hs = filter forwarded (rq_headers meta)
      in rq_method meta @ '' '' @ rq_path meta @ '' HTTP/1.1'' @ crlf @
         concat (map header_line hs) @
         (if list_ex (\<lambda>kv. map ascii_lower (fst kv) = ''host'') hs then [] else ''host: fluid.internal'' @ crlf) @
         ''content-length: '' @ nat_to_string (length body) @ crlf @
         ''connection: keep-alive'' @ crlf @ crlf @ body)"

subsection \<open>The response head\<close>

definition crlf2 :: string where
  "crlf2 = crlf @ crlf"

fun read_head :: "string \<Rightarrow> string option list \<Rightarrow> string + (nat \<times> string \<times> string option list)" where
  "read_head raw [] =
     (case find_sub crlf2 raw of Some i \<Rightarrow> Inr (i, raw, []) | None \<Rightarrow> Inl ''function closed before headers'')"
| "read_head raw (r # conn) =
     (case find_sub crlf2 raw of
        Some i \<Rightarrow> Inr (i, raw, r # conn)
      | None \<Rightarrow>
          (case r of
             None \<Rightarrow> Inl ''read error''
           | Some d \<Rightarrow>
               if d = [] then Inl ''function closed before headers''
               else if length (raw @ d) \<ge> 1024 * 1024 then Inl ''function headers too large''
               else read_head (raw @ d) conn))"

record head_scan =
  hs_headers :: "(string \<times> string) list"
  hs_wait_until_ms :: nat
  hs_content_length :: "nat option"
  hs_chunked :: bool

definition scan_line :: "string \<Rightarrow> head_scan \<Rightarrow> head_scan" where
  "scan_line l h =
     (case split_once (CHR '':'') l of
        None \<Rightarrow> h
      | Some (k0, v0) \<Rightarrow>
          (let k = trim k0; v = trim v0; kl = map ascii_lower k;
               h1 = (if kl = ''content-length'' then h\<lparr>hs_content_length := parse_u64 v\<rparr> else h);
               h2 = (if kl = ''transfer-encoding'' \<and> str_contains (map ascii_lower v) ''chunked'' then h1\<lparr>hs_chunked := True\<rparr> else h1)
           in if kl = ''x-fluid-wait-until-ms''
              then h2\<lparr>hs_wait_until_ms := (case parse_u64 v of None \<Rightarrow> 0 | Some n \<Rightarrow> n)\<rparr>
              else if is_hop_by_hop kl then h2
              else h2\<lparr>hs_headers := hs_headers h2 @ [(k, v)]\<rparr>))"

definition parse_u16 :: "string \<Rightarrow> nat option" where
  "parse_u16 s = (case parse_u64 s of None \<Rightarrow> None | Some n \<Rightarrow> if n < 2 ^ 16 then Some n else None)"

definition status_of :: "string \<Rightarrow> nat" where
  "status_of l =
     (case split_whitespace l of
        _ # c # _ \<Rightarrow> (case parse_u16 c of None \<Rightarrow> 502 | Some n \<Rightarrow> n)
      | _ \<Rightarrow> 502)"

definition scan_head :: "string \<Rightarrow> nat \<times> head_scan" where
  "scan_head head =
     (let lines = split_crlf head
      in (status_of (hd lines),
          fold scan_line (tl lines)
            \<lparr>hs_headers = [], hs_wait_until_ms = 0, hs_content_length = None, hs_chunked = False\<rparr>))"

definition bodiless :: "req_meta \<Rightarrow> nat \<Rightarrow> bool" where
  "bodiless meta status \<longleftrightarrow>
     eq_ignore_ascii_case (rq_method meta) ''HEAD'' \<or> (100 \<le> status \<and> status < 200) \<or> status = 204 \<or> status = 304"

subsection \<open>The response body\<close>

text \<open>Each mode returns the body chunks it sends and how it ends.\<close>

fun read_exactly :: "nat \<Rightarrow> nat \<Rightarrow> string option list \<Rightarrow> string list \<times> proxy_result" where
  "read_exactly n sent [] = (if sent < n then ([], Proxy_Err ''function closed mid-body'') else ([], Proxy_Ok))"
| "read_exactly n sent (r # conn) =
     (if \<not> sent < n then ([], Proxy_Ok)
      else (case r of
              None \<Rightarrow> ([], Proxy_Err ''read error'')
            | Some d0 \<Rightarrow>
                (let d = take (n - sent) d0
                 in if d = [] then ([], Proxy_Err ''function closed mid-body'')
                    else (let (ds, res) = read_exactly n (sent + length d) conn in (d # ds, res)))))"

fun read_to_end :: "string option list \<Rightarrow> string list \<times> proxy_result" where
  "read_to_end [] = ([], Proxy_Ok)"
| "read_to_end (r # conn) =
     (case r of
        None \<Rightarrow> ([], Proxy_Err ''read error'')
      | Some d \<Rightarrow> if d = [] then ([], Proxy_Ok) else (let (ds, res) = read_to_end conn in (d # ds, res)))"

definition plain_body :: "nat option \<Rightarrow> string \<Rightarrow> string option list \<Rightarrow> string list \<times> proxy_result" where
  "plain_body content_length leftover conn =
     (let first = (if leftover = [] then []
                   else [case content_length of Some n \<Rightarrow> take n leftover | None \<Rightarrow> leftover]);
          sent = length (concat first);
          (rest, res) = (case content_length of Some n \<Rightarrow> read_exactly n sent conn | None \<Rightarrow> read_to_end conn)
      in (first @ rest, res))"

text \<open>The chunked mode: \<open>size_line\<close> reads until the buffer holds a complete size line, \<open>fill\<close> until it
  holds \<open>need\<close> bytes.\<close>

fun size_line :: "string \<Rightarrow> string option list \<Rightarrow> string + (nat \<times> string \<times> string option list)" where
  "size_line buf [] =
     (case find_sub crlf buf of Some i \<Rightarrow> Inr (i, buf, []) | None \<Rightarrow> Inl ''function closed before chunk size'')"
| "size_line buf (r # conn) =
     (case find_sub crlf buf of
        Some i \<Rightarrow> Inr (i, buf, r # conn)
      | None \<Rightarrow>
          (case r of
             None \<Rightarrow> Inl ''read error''
           | Some d \<Rightarrow>
               if d = [] then Inl ''function closed before chunk size''
               else if length (buf @ d) \<ge> 64 * 1024 then Inl ''chunk size line too long''
               else size_line (buf @ d) conn))"

fun fill :: "nat \<Rightarrow> string \<Rightarrow> string option list \<Rightarrow> string + (string \<times> string option list)" where
  "fill need buf [] = (if length buf < need then Inl ''function closed mid-chunk'' else Inr (buf, []))"
| "fill need buf (r # conn) =
     (if \<not> length buf < need then Inr (buf, r # conn)
      else (case r of
              None \<Rightarrow> Inl ''read error''
            | Some d \<Rightarrow> if d = [] then Inl ''function closed mid-chunk'' else fill need (buf @ d) conn))"

definition chunk_size :: "string \<Rightarrow> string + nat" where
  "chunk_size l =
     (let hex = takeWhile (\<lambda>c. c \<noteq> CHR '';'') l
      in if \<not> utf8_valid hex then Inl ''utf-8''
         else (case parse_hex (trim hex) of None \<Rightarrow> Inl ''invalid chunk size'' | Some n \<Rightarrow> Inr n))"

text \<open>The bytes that are still to come, buffered or not.\<close>

definition to_come :: "string \<Rightarrow> string option list \<Rightarrow> nat" where
  "to_come buf conn = length buf + sum_list (map (\<lambda>r. case r of None \<Rightarrow> 0 | Some d \<Rightarrow> length d) conn)"

lemma size_line_bytes:
  "size_line buf conn = Inr (i, buf', conn') \<Longrightarrow> to_come buf' conn' = to_come buf conn \<and> i + 2 \<le> length buf'"
proof (induction buf conn rule: size_line.induct)
  case (1 buf)
  then show ?case by (auto simp: crlf_def dest: find_sub_Some split: option.splits)
next
  case (2 buf r conn)
  show ?case
  proof (cases "find_sub crlf buf")
    case None
    then obtain d where d: "r = Some d" "d \<noteq> []" "\<not> length (buf @ d) \<ge> 64 * 1024"
      using "2.prems" by (auto split: option.splits if_splits)
    have "size_line (buf @ d) conn = Inr (i, buf', conn')" using "2.prems" None d by simp
    from "2.IH" [OF None d(1) d(2,3) this] show ?thesis using d by (simp add: to_come_def)
  next
    case (Some j)
    then show ?thesis using "2.prems" find_sub_Some [OF Some] by (simp add: crlf_def)
  qed
qed

lemma fill_bytes: "fill need buf conn = Inr (buf', conn') \<Longrightarrow> to_come buf' conn' = to_come buf conn \<and> length buf \<le> length buf'"
proof (induction need buf conn rule: fill.induct)
  case (1 need buf)
  then show ?case by (simp split: if_splits)
next
  case (2 need buf r conn)
  show ?case
  proof (cases "length buf < need")
    case True
    then obtain d where d: "r = Some d" "d \<noteq> []"
      using "2.prems" by (auto split: option.splits if_splits)
    have "fill need (buf @ d) conn = Inr (buf', conn')" using "2.prems" True d by simp
    moreover have "\<not> \<not> length buf < need" using True by simp
    ultimately show ?thesis using "2.IH" [OF _ d] d by (simp add: to_come_def)
  qed (use "2.prems" in simp)
qed

function chunk_loop :: "string \<Rightarrow> string option list \<Rightarrow> string list \<times> proxy_result" where
  "chunk_loop buf conn =
     (case size_line buf conn of
        Inl e \<Rightarrow> ([], Proxy_Err e)
      | Inr (line_end, buf1, conn1) \<Rightarrow>
          (case chunk_size (take line_end buf1) of
             Inl e \<Rightarrow> ([], Proxy_Err e)
           | Inr sz \<Rightarrow>
               (let buf2 = drop (line_end + 2) buf1
                in if sz = 0 then ([], Proxy_Ok)
                   else (case fill (wadd64 sz 2) buf2 conn1 of
                           Inl e \<Rightarrow> ([], Proxy_Err e)
                         | Inr (buf3, conn2) \<Rightarrow>
                             if length buf3 < sz then ([], Proxy_Panic)
                             else (let (ds, res) = chunk_loop (drop (sz + 2) buf3) conn2
                                   in (take sz buf3 # ds, res))))))"
  by pat_completeness auto
termination
proof (relation "measure (\<lambda>(buf, conn). to_come buf conn)", simp)
  fix buf conn x line_end y buf1 conn1 sz buf2 z buf3 conn2
  assume s: "size_line buf conn = Inr x" and x: "(line_end, y) = x" "(buf1, conn1) = y"
    and f: "fill (wadd64 sz 2) buf2 conn1 = Inr z" "(buf3, conn2) = z"
    and b: "buf2 = drop (line_end + 2) buf1"
  have sl: "to_come buf1 conn1 = to_come buf conn" "line_end + 2 \<le> length buf1"
    using size_line_bytes s x by metis+
  have fi: "to_come buf3 conn2 = to_come buf2 conn1" using fill_bytes f by metis
  have "to_come (drop (sz + 2) buf3) conn2 \<le> to_come buf3 conn2" by (simp add: to_come_def)
  moreover have "to_come buf2 conn1 < to_come buf1 conn1" using sl(2) b by (simp add: to_come_def)
  ultimately show "((drop (sz + 2) buf3, conn2), (buf, conn)) \<in> measure (\<lambda>(buf, conn). to_come buf conn)"
    using sl fi by simp
qed

declare chunk_loop.simps [simp del]

subsection \<open>One attempt\<close>

datatype upstream = Up_Connect_Error string | Up_Write_Error string | Up_Reads "string option list"

definition body_of :: "req_meta \<Rightarrow> nat \<Rightarrow> head_scan \<Rightarrow> string \<Rightarrow> string option list \<Rightarrow> string list \<times> proxy_result" where
  "body_of meta status h leftover conn =
     (if bodiless meta status then ([], Proxy_Ok)
      else if hs_chunked h then chunk_loop leftover conn
      else plain_body (hs_content_length h) leftover conn)"

text \<open>The results are \<open>head_sent\<close>, the frames sent and how the attempt ends.\<close>

definition proxy_local ::
  "(string \<Rightarrow> req_meta option) \<Rightarrow> (resp_meta \<Rightarrow> string) \<Rightarrow> nat \<Rightarrow> string \<Rightarrow> upstream \<Rightarrow> bool \<times> frame list \<times> proxy_result" where
  "proxy_local dec enc sid payload up =
     (case split_payload dec payload of
        Inl e \<Rightarrow> (False, [], Proxy_Err e)
      | Inr (meta, body) \<Rightarrow>
          (case up of
             Up_Connect_Error e \<Rightarrow> (False, [], Proxy_Err e)
           | Up_Write_Error e \<Rightarrow> (False, [], Proxy_Err e)
           | Up_Reads conn \<Rightarrow>
               (case read_head [] conn of
                  Inl e \<Rightarrow> (False, [], Proxy_Err e)
                | Inr (split, raw, conn1) \<Rightarrow>
                    if \<not> utf8_valid (take split raw) then (False, [], Proxy_Err ''utf-8'')
                    else (let (status, h) = scan_head (take split raw);
                              rmeta = \<lparr>rp_status = status, rp_headers = hs_headers h, rp_wait_until_ms = hs_wait_until_ms h\<rparr>;
                              (ds, res) = body_of meta status h (drop (split + 4) raw) conn1
                          in (True, frame_of sid FK_RespHead (enc rmeta) # map (frame_of sid FK_RespBody) ds @
                                (if res = Proxy_Ok then [frame_of sid FK_RespEnd []] else []), res)))))"

subsection \<open>The retry policy\<close>

definition MAX_ATTEMPTS :: nat where
  "MAX_ATTEMPTS = 5"

definition retriable :: "(string \<Rightarrow> req_meta option) \<Rightarrow> string \<Rightarrow> bool" where
  "retriable dec payload =
     (case split_payload dec payload of
        Inl _ \<Rightarrow> False
      | Inr (meta, _) \<Rightarrow> rq_method meta = ''GET'' \<or> rq_method meta = ''HEAD'')"

definition error_frames :: "(resp_meta \<Rightarrow> string) \<Rightarrow> nat \<Rightarrow> string \<Rightarrow> frame list" where
  "error_frames enc sid e =
     [frame_of sid FK_RespHead (enc \<lparr>rp_status = 502, rp_headers = [], rp_wait_until_ms = 0\<rparr>),
      frame_of sid FK_RespBody (''upstream error: '' @ e), frame_of sid FK_RespEnd []]"

datatype request_result = Req_Done | Req_Truncated | Req_Failed string | Req_Panicked

text \<open>\<open>ups i\<close> is what the function does on attempt \<open>i\<close>; the number is of the attempts that are left.\<close>

fun attempt_loop ::
  "(string \<Rightarrow> req_meta option) \<Rightarrow> (resp_meta \<Rightarrow> string) \<Rightarrow> nat \<Rightarrow> string \<Rightarrow> bool \<Rightarrow> (nat \<Rightarrow> upstream) \<Rightarrow> nat \<Rightarrow>
    frame list \<times> request_result" where
  "attempt_loop dec enc sid payload idem ups 0 = ([], Req_Done)"
| "attempt_loop dec enc sid payload idem ups (Suc k) =
     (let (head_sent, fs, res) = proxy_local dec enc sid payload (ups (MAX_ATTEMPTS - Suc k))
      in (case res of
            Proxy_Ok \<Rightarrow> (fs, Req_Done)
          | Proxy_Panic \<Rightarrow> (fs, Req_Panicked)
          | Proxy_Err e \<Rightarrow>
              if head_sent then (fs, Req_Truncated)
              else if \<not> idem \<or> k = 0 then (fs @ error_frames enc sid e, Req_Failed e)
              else (let (fs', r) = attempt_loop dec enc sid payload idem ups k in (fs @ fs', r))))"

definition handle_request ::
  "(string \<Rightarrow> req_meta option) \<Rightarrow> (resp_meta \<Rightarrow> string) \<Rightarrow> nat \<Rightarrow> string \<Rightarrow> (nat \<Rightarrow> upstream) \<Rightarrow> frame list \<times> request_result" where
  "handle_request dec enc sid payload ups = attempt_loop dec enc sid payload (retriable dec payload) ups MAX_ATTEMPTS"

section \<open>The server\<close>

text \<open>A task is a request in progress: the frames it has still to send and whether it ends in a panic,
  which skips the decrement of \<open>inflight\<close>.\<close>

record request_task =
  rt_frames :: "frame list"
  rt_panics :: bool

record tunnel_server =
  sv_inflight :: nat
  sv_max :: nat
  sv_tasks :: "request_task list"
  sv_sent :: "frame list"
  sv_meter :: tunnel_meter

definition server_new :: "nat \<Rightarrow> tunnel_server" where
  "server_new max_concurrency =
     \<lparr>sv_inflight = 0, sv_max = max_concurrency, sv_tasks = [], sv_sent = [],
      sv_meter = \<lparr>tm_bytes_in = 0, tm_bytes_out = 0, tm_queued = 0, tm_backpressure_events = 0\<rparr>\<rparr>"

definition server_send :: "frame \<Rightarrow> tunnel_server \<Rightarrow> tunnel_server" where
  "server_send f s = s\<lparr>sv_sent := sv_sent s @ [f], sv_meter := snd (metered_send True (sv_meter s))\<rparr>"

text \<open>The reader loop handles one frame; \<open>ups\<close> is what the function will do for a request it admits.\<close>

definition serve_frame ::
  "(string \<Rightarrow> req_meta option) \<Rightarrow> (resp_meta \<Rightarrow> string) \<Rightarrow> (nat \<Rightarrow> upstream) \<Rightarrow> frame \<Rightarrow> tunnel_server \<Rightarrow> tunnel_server" where
  "serve_frame dec enc ups f s0 =
     (let s = s0\<lparr>sv_meter := (sv_meter s0)\<lparr>tm_bytes_in := tm_bytes_in (sv_meter s0) + length (f_payload f)\<rparr>\<rparr>
      in (case f_kind f of
            FK_Ping \<Rightarrow> server_send (frame_of 0 FK_Pong []) s
          | FK_Request \<Rightarrow>
              if sv_inflight s \<ge> sv_max s then server_send (frame_of (f_stream_id f) FK_Nack []) s
              else (let (fs, res) = handle_request dec enc (f_stream_id f) (f_payload f) ups
                    in s\<lparr>sv_inflight := sv_inflight s + 1,
                         sv_tasks := sv_tasks s @ [\<lparr>rt_frames = fs, rt_panics = (res = Req_Panicked)\<rparr>]\<rparr>)
          | _ \<Rightarrow> s))"

text \<open>The task at position \<open>i\<close> goes on: it sends its next frame or ends.\<close>

definition task_next :: "nat \<Rightarrow> tunnel_server \<Rightarrow> tunnel_server" where
  "task_next i s =
     (case rt_frames (sv_tasks s ! i) of
        f # fs \<Rightarrow> server_send f (s\<lparr>sv_tasks := (sv_tasks s)[i := (sv_tasks s ! i)\<lparr>rt_frames := fs\<rparr>]\<rparr>)
      | [] \<Rightarrow> s\<lparr>sv_tasks := take i (sv_tasks s) @ drop (Suc i) (sv_tasks s),
               sv_inflight := (if rt_panics (sv_tasks s ! i) then sv_inflight s else sv_inflight s - 1)\<rparr>)"

definition metrics_of :: "tunnel_server \<Rightarrow> metrics" where
  "metrics_of s = \<lparr>mt_inflight = sv_inflight s, mt_max_concurrency = sv_max s,
     mt_bytes_in = tm_bytes_in (sv_meter s), mt_bytes_out = tm_bytes_out (sv_meter s),
     mt_queue_depth = as_u32 (tm_queued (sv_meter s)), mt_backpressure_events = tm_backpressure_events (sv_meter s)\<rparr>"

definition metrics_tick :: "(metrics \<Rightarrow> string) \<Rightarrow> tunnel_server \<Rightarrow> tunnel_server" where
  "metrics_tick enc_metrics s = server_send (frame_of 0 FK_Metrics (enc_metrics (metrics_of s))) s"

inductive server_step ::
  "(string \<Rightarrow> req_meta option) \<Rightarrow> (resp_meta \<Rightarrow> string) \<Rightarrow> (metrics \<Rightarrow> string) \<Rightarrow> tunnel_server \<Rightarrow> tunnel_server \<Rightarrow> bool"
  for dec enc enc_metrics where
  server_frame: "server_step dec enc enc_metrics s (serve_frame dec enc ups f s)"
| server_task: "i < length (sv_tasks s) \<Longrightarrow> server_step dec enc enc_metrics s (task_next i s)"
| server_metrics: "server_step dec enc enc_metrics s (metrics_tick enc_metrics s)"
| server_write: "server_step dec enc enc_metrics s (s\<lparr>sv_meter := writer_take f (sv_meter s)\<rparr>)"

inductive server_reachable ::
  "(string \<Rightarrow> req_meta option) \<Rightarrow> (resp_meta \<Rightarrow> string) \<Rightarrow> (metrics \<Rightarrow> string) \<Rightarrow> nat \<Rightarrow> tunnel_server \<Rightarrow> bool"
  for dec enc enc_metrics n where
  server_init: "server_reachable dec enc enc_metrics n (server_new n)"
| server_go: "server_reachable dec enc enc_metrics n s \<Longrightarrow> server_step dec enc enc_metrics s s' \<Longrightarrow>
    server_reachable dec enc enc_metrics n s'"

inductive_cases server_stepE: "server_step dec enc enc_metrics s s'"

end
