(* ===== verification/Tunnel_Props.thy ===== *)
theory Tunnel_Props
  imports Tunnel_Server
begin

text \<open>
  What the tunnel promises: callers only see their own stream, requests and responses
  cross it unchanged however the bytes are cut into reads, retries never duplicate a response, and
  the number of requests in progress stays within the limit.
\<close>

section \<open>Demultiplexing\<close>

fun stream_run ::
  "nat \<Rightarrow> (string \<Rightarrow> resp_meta option) \<Rightarrow> client_event list \<Rightarrow> bool \<Rightarrow> bool \<Rightarrow> nat \<Rightarrow> bool option \<times> stream_view \<Rightarrow>
    bool option \<times> stream_view" where
  "stream_run sid ph [] closed gone next v = v"
| "stream_run sid ph (ev # evs) closed gone next v =
     stream_run sid ph evs (closed \<or> ev = Ev_Closed) (gone \<or> ev = Ev_Writer_Gone)
       (case ev of Ev_Request _ _ _ _ \<Rightarrow> if closed then next else next + 1 | _ \<Rightarrow> next)
       (stream_step sid ph ev closed gone next v)"

lemma client_step_env:
  assumes "client_inv c"
  shows "tc_closed (client_step enc ph pm ev c) \<longleftrightarrow> tc_closed c \<or> ev = Ev_Closed"
    and "tc_writer_gone (client_step enc ph pm ev c) \<longleftrightarrow> tc_writer_gone c \<or> ev = Ev_Writer_Gone"
    and "tc_next_id (client_step enc ph pm ev c) =
      (case ev of Ev_Request _ _ _ _ \<Rightarrow> if tc_closed c then tc_next_id c else tc_next_id c + 1 | _ \<Rightarrow> tc_next_id c)"
  by (cases ev; auto simp: request_begin_def request_insert_def request_send_def request_end_def on_frame_def push_body_def mark_closed_def
      Let_def drain_fields [OF assms] split: option.split frame_kind.split prod.split bool.split)+

lemma client_new_inv: "client_inv client_new"
  by (simp add: client_inv_def client_new_def)

lemma client_run_view:
  "client_inv c \<Longrightarrow> (call_stage sid (fold (client_step enc ph pm) evs c), view sid (fold (client_step enc ph pm) evs c)) =
    stream_run sid ph evs (tc_closed c) (tc_writer_gone c) (tc_next_id c) (call_stage sid c, view sid c)"
proof (induction evs arbitrary: c)
  case Nil
  then show ?case by simp
next
  case (Cons ev evs)
  show ?case
    using Cons.IH [OF client_step_inv [OF Cons.prems, of enc ph pm ev]]
      client_step_view [OF Cons.prems] client_step_env [OF Cons.prems] by simp
qed

text \<open>C12: Each caller sees its own stream. Let anything happen on the connection, the pieces of every request, the frames that arrive,
  the end of the writer, the closing of the tunnel and its draining, in any order. How far the call of a stream is, and what has been put into
  its channels (the head or the error its caller gets, its body chunks in order, whether more may come), is what the one-stream
  automaton computes from its own request, its own frames, its own timeout, and whether the writer is gone and the tunnel closed and drained;
  frames and failures of other streams never reach it. (A call that finds the tunnel open and inserts its entry after the draining is
  among these runs: it waits for its own timeout.)\<close>

theorem tunnel_demux_refines:
  "(call_stage sid (fold (client_step enc ph pm) evs client_new), view sid (fold (client_step enc ph pm) evs client_new)) =
    stream_run sid ph evs False False 1 (None, Idle_Stream)"
  using client_run_view [OF client_new_inv, of sid enc ph pm evs] by (simp add: client_new_def view_def call_stage_def)

text \<open>A request that passes the check just before the tunnel closes waits in vain: its entry is made after everything outstanding
  was failed, so its caller has no answer and the entry stays until the timeout.\<close>

lemma late_request_waits:
  "let c = fold (client_step enc ph pm) [Ev_Request m p hs b, Ev_Closed, Ev_Drain, Ev_Insert 1, Ev_Send 1] client_new
   in tc_closed c \<and> view 1 c = Stream True None []"
  by (simp add: client_new_def request_begin_def mark_closed_def drain_pending_def request_insert_def request_send_def view_def Let_def)

section \<open>The request\<close>

text \<open>A request crosses the tunnel unchanged: the function side reads back from the payload exactly the
  metadata and the body the gateway put in, provided the JSON library reads back what it wrote and
  the metadata is shorter than 4 GiB; and whether it is retried depends on its method only.\<close>

theorem request_roundtrip:
  assumes "\<And>m. dec (encode_req m) = Some m" and "length (encode_req meta) < 2 ^ 32"
  shows "split_payload dec (request_payload encode_req meta body) = Inr (meta, body) \<and>
    (retriable dec (request_payload encode_req meta body) \<longleftrightarrow> rq_method meta \<in> {''GET'', ''HEAD''})"
proof -
  have "be_val (take 4 (request_payload encode_req meta body)) = length (encode_req meta)"
    using assms(2) by (simp add: request_payload_def as_u32_exact)
  then have "split_payload dec (request_payload encode_req meta body) = Inr (meta, body)"
    using assms(1) by (simp add: split_payload_def request_payload_def Let_def)
  then show ?thesis by (simp add: retriable_def)
qed

text \<open>A toy codec: the method is the text.\<close>

definition toy_meta :: "string \<Rightarrow> req_meta" where
  "toy_meta m = \<lparr>rq_method = m, rq_path = ''/'', rq_headers = [], rq_body_len = 0\<rparr>"

definition hexes :: "string \<Rightarrow> string" where
  "hexes s = concat (map (\<lambda>c. [CHR ''x'', c]) s) @ ''.''"

fun unhexes :: "string \<Rightarrow> (string \<times> string) option" where
  "unhexes [] = None"
| "unhexes [c] = (if c = CHR ''.'' then Some ([], []) else None)"
| "unhexes (c # d # s) =
     (if c = CHR ''.'' then Some ([], d # s)
      else if c = CHR ''x'' then map_option (\<lambda>(a, r). (d # a, r)) (unhexes s) else None)"

lemma unhexes_hexes: "unhexes (hexes s @ r) = Some (s, r)"
proof (induction s)
  case Nil
  then show ?case by (cases r) (simp_all add: hexes_def)
next
  case (Cons c s)
  then show ?case by (simp add: hexes_def)
qed

fun hex_headers :: "(string \<times> string) list \<Rightarrow> string" where
  "hex_headers [] = ''!''"
| "hex_headers ((k, v) # hs) = ''+'' @ hexes k @ hexes v @ hex_headers hs"

fun unhex_headers :: "nat \<Rightarrow> string \<Rightarrow> ((string \<times> string) list \<times> string) option" where
  "unhex_headers 0 s = None"
| "unhex_headers (Suc n) s =
     (case s of
        [] \<Rightarrow> None
      | c # s1 \<Rightarrow>
          if c = CHR ''!'' then Some ([], s1)
          else (case unhexes s1 of
                  None \<Rightarrow> None
                | Some (k, s2) \<Rightarrow>
                    (case unhexes s2 of
                       None \<Rightarrow> None
                     | Some (v, s3) \<Rightarrow> map_option (\<lambda>(hs, r). ((k, v) # hs, r)) (unhex_headers n s3))))"

lemma unhex_headers: "length hs < n \<Longrightarrow> unhex_headers n (hex_headers hs @ r) = Some (hs, r)"
proof (induction hs arbitrary: n)
  case Nil
  then show ?case by (cases n) simp_all
next
  case (Cons kv hs)
  then show ?case by (cases n; cases kv) (simp_all add: unhexes_hexes)
qed

definition toy_encode :: "req_meta \<Rightarrow> string" where
  "toy_encode m = hexes (rq_method m) @ hexes (rq_path m) @ hexes (nat_to_string (rq_body_len m)) @ hex_headers (rq_headers m)"

definition toy_decode :: "string \<Rightarrow> req_meta option" where
  "toy_decode s =
     (case unhexes s of None \<Rightarrow> None | Some (m, s1) \<Rightarrow>
     (case unhexes s1 of None \<Rightarrow> None | Some (p, s2) \<Rightarrow>
     (case unhexes s2 of None \<Rightarrow> None | Some (n, s3) \<Rightarrow>
     (case unhex_headers (Suc (length s)) s3 of None \<Rightarrow> None | Some (hs, _) \<Rightarrow>
        Some \<lparr>rq_method = m, rq_path = p, rq_headers = hs, rq_body_len = digits_val 0 n\<rparr>))))"

lemma length_hex_headers: "length hs \<le> length (hex_headers hs)"
  by (induction hs rule: hex_headers.induct) auto

lemma toy_decode_encode: "toy_decode (toy_encode m) = Some m"
proof -
  have "length (rq_headers m) < Suc (length (toy_encode m))"
    using length_hex_headers [of "rq_headers m"] by (simp add: toy_encode_def)
  from unhex_headers [OF this, of "[]"] show ?thesis
    by (simp add: toy_decode_def unhexes_hexes [of _ "_ @ _"] unhexes_hexes [of _ "hex_headers _"]
        digits_val_nat_to_string toy_encode_def)
qed

theorem request_roundtrip_witness:
  "split_payload toy_decode (request_payload toy_encode (toy_meta ''GET'') ''body'') = Inr (toy_meta ''GET'', ''body'') \<and>
   retriable toy_decode (request_payload toy_encode (toy_meta ''GET'') ''body'')"
proof -
  have "length (toy_encode (toy_meta ''GET'')) < 2 ^ 32" by code_simp
  from request_roundtrip [where meta = "toy_meta ''GET''" and body = "''body''", OF toy_decode_encode this]
  show ?thesis by (simp add: toy_meta_def)
qed

section \<open>The response body\<close>

text \<open>A healthy connection: every read delivers something and at most the buffer.\<close>

definition conn_ok :: "string option list \<Rightarrow> bool" where
  "conn_ok conn \<longleftrightarrow> (\<forall>r \<in> set conn. \<exists>d. r = Some d \<and> d \<noteq> [] \<and> length d \<le> 8192)"

lemma conn_ok_simps [simp]:
  "conn_ok []" "conn_ok (r # conn) \<longleftrightarrow> (\<exists>d. r = Some d \<and> d \<noteq> [] \<and> length d \<le> 8192) \<and> conn_ok conn"
  by (simp_all add: conn_ok_def)

lemma find_sub_crlf:
  "CHR 0x0D \<notin> set l \<Longrightarrow> find_sub crlf (l @ crlf @ r) = Some (length l)"
proof (induction l)
  case Nil
  have "starts_with crlf (crlf @ r)" by simp
  then show ?case by (simp add: crlf_def)
next
  case (Cons c l)
  then have "\<not> starts_with crlf (c # l @ crlf @ r)" by (auto simp: starts_with_iff crlf_def)
  with Cons show ?case by simp
qed

lemma size_line_ok:
  assumes "CHR 0x0D \<notin> set l" and "length l \<le> 16" and "conn_ok conn" and "buf @ conn_bytes conn = l @ crlf @ rest"
  shows "\<exists>buf' conn'. size_line buf conn = Inr (length l, buf', conn') \<and> conn_ok conn' \<and>
    buf' @ conn_bytes conn' = l @ crlf @ rest \<and> length l + 2 \<le> length buf'"
  using assms(3,4)
proof (induction conn arbitrary: buf)
  case Nil
  then show ?case using find_sub_crlf [OF assms(1), of rest] by (simp add: crlf_def)
next
  case (Cons r conn)
  obtain d where d: "r = Some d" "d \<noteq> []" "length d \<le> 8192" using Cons.prems(1) by auto
  show ?case
  proof (cases "length l + 2 \<le> length buf")
    case True
    have "buf = take (length buf) (l @ crlf @ rest)" using Cons.prems(2) by (metis append_eq_conv_conj)
    moreover have "take (length buf) (l @ crlf @ rest) = l @ crlf @ take (length buf - length l - 2) rest"
      using True by (simp add: crlf_def take_Cons')
    ultimately obtain r' where "buf = l @ crlf @ r'" by metis
    then have "find_sub crlf buf = Some (length l)" using find_sub_crlf [OF assms(1)] by simp
    then show ?thesis using Cons.prems True d by simp
  next
    case False
    have none: "find_sub crlf buf = None"
    proof (rule ccontr)
      assume "find_sub crlf buf \<noteq> None"
      then obtain i where "find_sub crlf buf = Some i" by blast
      from find_sub_Some [OF this] have i: "i + 2 \<le> length buf" "take 2 (drop i buf) = crlf" by (simp_all add: crlf_def numeral_2_eq_2)
      then have "buf ! i = CHR 0x0D" by (cases "drop i buf") (auto simp: crlf_def Cons_nth_drop_Suc [symmetric])
      moreover have "i < length l" using i(1) False by simp
      moreover have "buf ! i = (l @ crlf @ rest) ! i"
        unfolding Cons.prems(2) [symmetric] using i(1) by (simp add: nth_append)
      ultimately show False using assms(1) by (metis nth_append nth_mem)
    qed
    have "length (buf @ d) < 64 * 1024" using False assms(2) d(3) by simp
    moreover have "\<exists>buf' conn'. size_line (buf @ d) conn = Inr (length l, buf', conn') \<and> conn_ok conn' \<and>
        buf' @ conn_bytes conn' = l @ crlf @ rest \<and> length l + 2 \<le> length buf'"
      by (rule Cons.IH) (use Cons.prems d in simp_all)
    ultimately show ?thesis using none d by simp
  qed
qed

lemma fill_ok:
  assumes "conn_ok conn" and "need \<le> length (buf @ conn_bytes conn)"
  shows "\<exists>buf' conn'. fill need buf conn = Inr (buf', conn') \<and> conn_ok conn' \<and>
    buf' @ conn_bytes conn' = buf @ conn_bytes conn \<and> need \<le> length buf'"
  using assms
proof (induction conn arbitrary: buf)
  case (Cons r conn)
  obtain d where d: "r = Some d" "d \<noteq> []" using Cons.prems(1) by auto
  show ?case using Cons.IH [of "buf @ d"] Cons.prems d by (cases "length buf < need") auto
qed simp

text \<open>The chunked transfer coding of HTTP/1.1.\<close>

definition chunk_encode :: "string list \<Rightarrow> string" where
  "chunk_encode ds = concat (map (\<lambda>d. nat_to_hex (length d) @ crlf @ d @ crlf) ds) @ ''0'' @ crlf"

lemma is_hex_cases: "is_hex c \<Longrightarrow> c \<noteq> CHR '';'' \<and> \<not> is_ws c \<and> c \<noteq> CHR 0x0D \<and> (of_char c :: nat) < 128"
proof -
  assume "is_hex c"
  then obtain d where d: "d < 16" "c = hex_char d" by (auto simp: is_hex_def)
  then have "(48 \<le> (of_char c :: nat) \<and> (of_char c :: nat) \<le> 57) \<or> (97 \<le> (of_char c :: nat) \<and> (of_char c :: nat) \<le> 102)"
    by (simp add: hex_char_def of_char_of)
  then show ?thesis by (auto simp: is_ws_def)
qed

lemma dropWhile_none: "(\<forall>c \<in> set s. \<not> P c) \<Longrightarrow> dropWhile P s = s"
  by (cases s) auto

lemma trim_no_ws: "(\<forall>c \<in> set s. \<not> is_ws c) \<Longrightarrow> trim s = s"
  by (simp add: trim_def trim_end_def trim_start_def dropWhile_none)

lemma chunk_size_hex: "n < 2 ^ 64 \<Longrightarrow> chunk_size (nat_to_hex n) = Inr n"
proof -
  assume n: "n < 2 ^ 64"
  have h: "c \<noteq> CHR '';'' \<and> \<not> is_ws c \<and> (of_char c :: nat) < 128" if "c \<in> set (nat_to_hex n)" for c
    using is_hex_cases [of c] nat_to_hex_chars [of n] that by simp
  have t: "takeWhile (\<lambda>c. c \<noteq> CHR '';'') (nat_to_hex n) = nat_to_hex n"
    using h by (simp add: takeWhile_eq_all_conv)
  have "list_all (\<lambda>c. (of_char c :: nat) < 128) (nat_to_hex n)"
    unfolding list_all_iff by (intro ballI) (simp only: h)
  then have "utf8_valid (nat_to_hex n)" by (simp add: utf8_valid_ascii)
  moreover have "trim (nat_to_hex n) = nat_to_hex n" by (rule trim_no_ws) (intro ballI, simp only: h, simp)
  ultimately show ?thesis unfolding chunk_size_def t Let_def using parse_hex_nat_to_hex [OF n] by simp
qed

lemma chunk_loop_step:
  assumes "n < 2 ^ 60" and "conn_ok conn" and "buf @ conn_bytes conn = nat_to_hex n @ crlf @ rest"
    and "n = 0 \<or> n + 2 \<le> length rest"
  shows "n = 0 \<Longrightarrow> chunk_loop buf conn = ([], Proxy_Ok)"
    and "0 < n \<Longrightarrow> \<exists>buf' conn'. conn_ok conn' \<and> buf' @ conn_bytes conn' = drop (n + 2) rest \<and>
      chunk_loop buf conn = (take n rest # fst (chunk_loop buf' conn'), snd (chunk_loop buf' conn'))"
proof -
  have cr: "CHR 0x0D \<notin> set (nat_to_hex n)" using nat_to_hex_chars [of n] is_hex_cases by blast
  have len: "length (nat_to_hex n) \<le> 16" using length_nat_to_hex [of n 15] assms(1) by simp
  obtain buf1 conn1 where s: "size_line buf conn = Inr (length (nat_to_hex n), buf1, conn1)" "conn_ok conn1"
    "buf1 @ conn_bytes conn1 = nat_to_hex n @ crlf @ rest" "length (nat_to_hex n) + 2 \<le> length buf1"
    using size_line_ok [OF cr len assms(2,3)] by blast
  have "take (length (nat_to_hex n)) (buf1 @ conn_bytes conn1) = nat_to_hex n" using s(3) by simp
  then have t: "take (length (nat_to_hex n)) buf1 = nat_to_hex n" using s(4) by simp
  have "drop (length (nat_to_hex n) + 2) (buf1 @ conn_bytes conn1) = rest" using s(3) by (simp add: crlf_def)
  then have dr: "drop (length (nat_to_hex n) + 2) buf1 @ conn_bytes conn1 = rest" using s(4) by simp
  have c: "chunk_size (nat_to_hex n) = Inr n" using assms(1) by (intro chunk_size_hex) simp
  show "n = 0 \<Longrightarrow> chunk_loop buf conn = ([], Proxy_Ok)"
    using c t by (subst chunk_loop.simps) (simp add: s(1))
  assume n: "0 < n"
  obtain buf3 conn2 where f: "fill (n + 2) (drop (length (nat_to_hex n) + 2) buf1) conn1 = Inr (buf3, conn2)" "conn_ok conn2"
    "buf3 @ conn_bytes conn2 = rest" "n + 2 \<le> length buf3"
    using fill_ok [OF s(2), of "n + 2" "drop (length (nat_to_hex n) + 2) buf1"] dr assms(4) n by auto
  have w: "wadd64 n 2 = n + 2" using assms(1) by (simp add: wadd64_exact)
  have "take n rest = take n buf3" "drop (n + 2) rest = drop (n + 2) buf3 @ conn_bytes conn2"
    unfolding f(3) [symmetric] using f(4) by simp_all
  then show "\<exists>buf' conn'. conn_ok conn' \<and> buf' @ conn_bytes conn' = drop (n + 2) rest \<and>
      chunk_loop buf conn = (take n rest # fst (chunk_loop buf' conn'), snd (chunk_loop buf' conn'))"
    using n f s(1) t c w
    by (intro exI [of _ "drop (n + 2) buf3"] exI [of _ conn2], subst chunk_loop.simps) (simp add: Let_def case_prod_unfold)
qed

text \<open>Chunked bodies are decoded exactly: however the bytes of a chunked response are cut into reads, the
  caller receives its chunks one by one, in order and complete, and the framing never leaks into
  the body; what follows the last chunk is ignored.\<close>

theorem chunked_body_exact:
  assumes "\<forall>d \<in> set ds. d \<noteq> [] \<and> length d < 2 ^ 60" and "conn_ok conn"
    and "leftover @ conn_bytes conn = chunk_encode ds @ trailer"
  shows "chunk_loop leftover conn = (ds, Proxy_Ok)"
  using assms
proof (induction ds arbitrary: leftover conn)
  case Nil
  have "nat_to_hex 0 = ''0''" by code_simp
  then show ?case using chunk_loop_step(1) [of 0 conn leftover trailer] Nil.prems by (simp add: chunk_encode_def)
next
  case (Cons d ds)
  have e: "leftover @ conn_bytes conn = nat_to_hex (length d) @ crlf @ (d @ crlf @ chunk_encode ds @ trailer)"
    using Cons.prems(3) by (simp add: chunk_encode_def)
  have l: "length d < 2 ^ 60" "0 < length d" "length d + 2 \<le> length (d @ crlf @ chunk_encode ds @ trailer)"
    using Cons.prems(1) by (simp_all add: crlf_def)
  obtain buf' conn' where c: "conn_ok conn'" "buf' @ conn_bytes conn' = chunk_encode ds @ trailer"
    "chunk_loop leftover conn = (d # fst (chunk_loop buf' conn'), snd (chunk_loop buf' conn'))"
    using chunk_loop_step(2) [OF l(1) Cons.prems(2) e] l by (auto simp: crlf_def)
  then show ?case using Cons.IH [OF _ c(1,2)] Cons.prems(1) by simp
qed

theorem chunked_body_exact_witness:
  "chunk_loop ''3'' [Some (crlf @ ''ab''), Some (''c'' @ crlf @ ''1''), Some (crlf @ ''d'' @ crlf @ ''0''), Some (crlf @ crlf)] =
    ([''abc'', ''d''], Proxy_Ok)"
proof (rule chunked_body_exact [where trailer = crlf])
  show "\<forall>d \<in> set [''abc'', ''d'']. d \<noteq> [] \<and> length d < 2 ^ 60" by simp
  show "conn_ok [Some (crlf @ ''ab''), Some (''c'' @ crlf @ ''1''), Some (crlf @ ''d'' @ crlf @ ''0''), Some (crlf @ crlf)]"
    by (simp add: crlf_def)
  show "''3'' @ conn_bytes [Some (crlf @ ''ab''), Some (''c'' @ crlf @ ''1''), Some (crlf @ ''d'' @ crlf @ ''0''), Some (crlf @ crlf)] =
      chunk_encode [''abc'', ''d''] @ crlf"
    by code_simp
qed

lemma read_exactly_ok:
  "conn_ok conn \<Longrightarrow> sent \<le> n \<Longrightarrow>
    concat (fst (read_exactly n sent conn)) = take (n - sent) (conn_bytes conn) \<and>
    (snd (read_exactly n sent conn) = Proxy_Ok \<longleftrightarrow> n - sent \<le> length (conn_bytes conn))"
proof (induction n sent conn rule: read_exactly.induct)
  case (2 n sent r conn)
  show ?case
  proof (cases "sent < n")
    case True
    obtain d0 where d0: "r = Some d0" "d0 \<noteq> []" using "2.prems" by auto
    let ?d = "take (n - sent) d0"
    have d: "?d \<noteq> []" "sent + length ?d \<le> n" using True d0 by auto
    have s: "\<not> \<not> sent < n" using True by simp
    note IH = "2.IH" [OF s d0(1) refl d(1)]
    have "take (n - (sent + length ?d)) (conn_bytes conn) = take (n - sent - length d0) (conn_bytes conn)"
      by (simp add: min_def)
    then show ?thesis using IH "2.prems" d d0 True by (auto simp: case_prod_unfold Let_def min_def split: if_splits)
  qed (use 2 in auto)
qed auto

lemma read_to_end_ok: "conn_ok conn \<Longrightarrow> concat (fst (read_to_end conn)) = conn_bytes conn \<and> snd (read_to_end conn) = Proxy_Ok"
  by (induction conn) (auto simp: case_prod_unfold Let_def)

text \<open>A body with a declared length is forwarded to exactly that length, one without to the end of the
  stream, whatever the reads look like; if the function closes early the exchange
  ends in an error, never as a complete response.\<close>

theorem plain_body_exact:
  assumes "conn_ok conn"
  shows "concat (fst (plain_body (Some n) leftover conn)) = take n (leftover @ conn_bytes conn) \<and>
    (snd (plain_body (Some n) leftover conn) = Proxy_Ok \<longleftrightarrow> n \<le> length (leftover @ conn_bytes conn)) \<and>
    concat (fst (plain_body None leftover conn)) = leftover @ conn_bytes conn \<and>
    snd (plain_body None leftover conn) = Proxy_Ok"
proof -
  have r: "concat (fst (read_exactly n (length (take n leftover)) conn)) = take (n - length (take n leftover)) (conn_bytes conn) \<and>
      (snd (read_exactly n (length (take n leftover)) conn) = Proxy_Ok \<longleftrightarrow> n - length (take n leftover) \<le> length (conn_bytes conn))"
    by (rule read_exactly_ok [OF assms]) simp
  have p: "fst (plain_body (Some n) leftover conn) =
        (if leftover = [] then [] else [take n leftover]) @ fst (read_exactly n (length (take n leftover)) conn)"
      "snd (plain_body (Some n) leftover conn) = snd (read_exactly n (length (take n leftover)) conn)"
    by (simp_all add: plain_body_def case_prod_unfold Let_def)
  have "concat (fst (plain_body (Some n) leftover conn)) = take n (leftover @ conn_bytes conn)"
    using r by (auto simp: p min_def)
  moreover have "snd (plain_body (Some n) leftover conn) = Proxy_Ok \<longleftrightarrow> n \<le> length (leftover @ conn_bytes conn)"
    using r by (auto simp: p min_def split: if_splits)
  moreover have "concat (fst (plain_body None leftover conn)) = leftover @ conn_bytes conn \<and> snd (plain_body None leftover conn) = Proxy_Ok"
    using read_to_end_ok [OF assms] by (simp add: plain_body_def case_prod_unfold Let_def)
  ultimately show ?thesis by blast
qed

theorem plain_body_exact_witness:
  "concat (fst (plain_body (Some 4) ''a'' [Some ''bc'', Some ''def''])) = ''abcd''"
proof -
  have "conn_ok [Some ''bc'', Some ''def'']" by simp
  from plain_body_exact [OF this, of 4 "''a''"] show ?thesis by simp
qed

section \<open>Retries\<close>

text \<open>An attempt that has sent nothing failed with an error; one that has sent something sent a head first.\<close>

lemma proxy_local_cases:
  assumes "proxy_local dec enc sid payload up = (head_sent, fs, res)"
  shows "\<not> head_sent \<Longrightarrow> fs = [] \<and> (\<exists>e. res = Proxy_Err e)"
    and "head_sent \<Longrightarrow> \<exists>m ds. fs = frame_of sid FK_RespHead (enc m) # map (frame_of sid FK_RespBody) ds @
      (if res = Proxy_Ok then [frame_of sid FK_RespEnd []] else [])"
  using assms
  by (auto simp: proxy_local_def Let_def case_prod_unfold split: sum.splits upstream.splits if_splits)

definition ends_with_result :: "(resp_meta \<Rightarrow> string) \<Rightarrow> nat \<Rightarrow> bool \<times> frame list \<times> proxy_result \<Rightarrow> frame list \<Rightarrow> request_result \<Rightarrow> bool" where
  "ends_with_result enc sid attempt fs r =
     (case attempt of (head_sent, fs', res) \<Rightarrow>
        (case r of
           Req_Done \<Rightarrow> res = Proxy_Ok \<and> fs = fs'
         | Req_Panicked \<Rightarrow> res = Proxy_Panic \<and> fs = fs'
         | Req_Truncated \<Rightarrow> head_sent \<and> fs = fs' \<and> (\<exists>e. res = Proxy_Err e)
         | Req_Failed e \<Rightarrow> \<not> head_sent \<and> res = Proxy_Err e \<and> fs = error_frames enc sid e))"

lemma attempt_loop_cases:
  assumes "attempt_loop dec enc sid payload idem ups n = (fs, r)" and "0 < n" and "n \<le> MAX_ATTEMPTS"
  shows "\<exists>k. MAX_ATTEMPTS - n \<le> k \<and> k < MAX_ATTEMPTS \<and>
    (\<forall>i. MAX_ATTEMPTS - n \<le> i \<and> i < k \<longrightarrow> idem \<and> (\<exists>e. proxy_local dec enc sid payload (ups i) = (False, [], Proxy_Err e))) \<and>
    ends_with_result enc sid (proxy_local dec enc sid payload (ups k)) fs r"
  using assms
proof (induction n arbitrary: fs)
  case (Suc n)
  let ?k = "MAX_ATTEMPTS - Suc n"
  obtain head_sent fs1 res where p: "proxy_local dec enc sid payload (ups ?k) = (head_sent, fs1, res)"
    using prod_cases3 by blast
  have k: "?k < MAX_ATTEMPTS" using Suc.prems(3) by simp
  show ?case
  proof (cases "\<exists>e. res = Proxy_Err e \<and> \<not> head_sent \<and> idem \<and> 0 < n")
    case True
    then obtain e where e: "res = Proxy_Err e" "\<not> head_sent" "idem" "0 < n" by blast
    have fs1: "fs1 = []" using proxy_local_cases(1) [OF p] e by simp
    have rec: "attempt_loop dec enc sid payload idem ups n = (fs, r)"
      using Suc.prems(1) e by (simp add: p fs1 case_prod_unfold)
    have nle: "n \<le> MAX_ATTEMPTS" using Suc.prems(3) by simp
    have next_k: "MAX_ATTEMPTS - n = Suc ?k" using Suc.prems(3) by simp
    obtain k where kk: "Suc ?k \<le> k" "k < MAX_ATTEMPTS"
      "\<forall>i. Suc ?k \<le> i \<and> i < k \<longrightarrow> idem \<and> (\<exists>e. proxy_local dec enc sid payload (ups i) = (False, [], Proxy_Err e))"
      "ends_with_result enc sid (proxy_local dec enc sid payload (ups k)) fs r"
      using Suc.IH [OF rec e(4) nle] unfolding next_k by blast
    have early: "idem \<and> (\<exists>e. proxy_local dec enc sid payload (ups i) = (False, [], Proxy_Err e))" if "?k \<le> i" "i < k" for i
    proof (cases "i = ?k")
      case True
      then show ?thesis using p e fs1 by simp
    next
      case False
      then have "Suc ?k \<le> i" using that by simp
      then show ?thesis using kk(3) that by blast
    qed
    have "?k \<le> k" using kk(1) by simp
    then show ?thesis using kk(2,4) early by blast
  next
    case False
    have "ends_with_result enc sid (proxy_local dec enc sid payload (ups ?k)) fs r"
      using Suc.prems(1) False proxy_local_cases(1) [OF p]
      by (cases res) (auto simp: p ends_with_result_def split: if_splits)
    then show ?thesis using k by (intro exI [of _ ?k]) auto
  qed
qed simp

text \<open>Retries are safe: a request makes at most five attempts; a further attempt happens only for GET and
  HEAD and only when every attempt before it failed before it sent anything; so the
  caller gets the frames of exactly one attempt, or one 502 answer when the last one failed early.\<close>

theorem retry_never_duplicates:
  assumes "handle_request dec enc sid payload ups = (fs, r)"
  shows "\<exists>k < 5. (\<forall>i < k. retriable dec payload \<and> (\<exists>e. proxy_local dec enc sid payload (ups i) = (False, [], Proxy_Err e))) \<and>
    (case r of
       Req_Failed e \<Rightarrow> proxy_local dec enc sid payload (ups k) = (False, [], Proxy_Err e) \<and> fs = error_frames enc sid e
     | _ \<Rightarrow> fst (snd (proxy_local dec enc sid payload (ups k))) = fs)"
proof -
  have five: "MAX_ATTEMPTS = 5" by (simp add: MAX_ATTEMPTS_def)
  obtain k where k: "k < 5"
    "\<forall>i < k. retriable dec payload \<and> (\<exists>e. proxy_local dec enc sid payload (ups i) = (False, [], Proxy_Err e))"
    "ends_with_result enc sid (proxy_local dec enc sid payload (ups k)) fs r"
    using attempt_loop_cases [OF assms [unfolded handle_request_def]] by (auto simp: five)
  obtain h fs1 res where p: "proxy_local dec enc sid payload (ups k) = (h, fs1, res)" using prod_cases3 by blast
  show ?thesis
    using k proxy_local_cases(1) [OF p] by (intro exI [of _ k]) (cases r; auto simp: p ends_with_result_def)
qed

lemma handle_request_frames:
  assumes "handle_request dec enc sid payload ups = (fs, r)"
  shows "\<exists>m ds. fs = frame_of sid FK_RespHead (enc m) # map (frame_of sid FK_RespBody) ds @
    (if r = Req_Truncated \<or> r = Req_Panicked then [] else [frame_of sid FK_RespEnd []])"
proof -
  obtain k where k: "ends_with_result enc sid (proxy_local dec enc sid payload (ups k)) fs r"
    using attempt_loop_cases [OF assms [unfolded handle_request_def]] by (auto simp: MAX_ATTEMPTS_def)
  obtain h fs1 res where p: "proxy_local dec enc sid payload (ups k) = (h, fs1, res)" using prod_cases3 by blast
  show ?thesis
  proof (cases r)
    case (Req_Failed e)
    then have "fs = error_frames enc sid e" using k p by (simp add: ends_with_result_def)
    then show ?thesis unfolding Req_Failed
      by (intro exI [of _ "\<lparr>rp_status = 502, rp_headers = [], rp_wait_until_ms = 0\<rparr>"] exI [of _ "[''upstream error: '' @ e]"])
        (simp add: error_frames_def)
  qed (use k p proxy_local_cases [OF p] in \<open>cases h; force simp: ends_with_result_def\<close>)+
qed

text \<open>A function that refuses the first connection and then answers with one chunk.\<close>

definition toy_response :: string where
  "toy_response = ''HTTP/1.1 200 OK'' @ crlf @ ''transfer-encoding: chunked'' @ crlf2"

definition toy_ups :: "nat \<Rightarrow> upstream" where
  "toy_ups i = (if i = 0 then Up_Connect_Error ''refused'' else Up_Reads [Some (toy_response @ chunk_encode [''hi''])])"

definition toy_enc :: "resp_meta \<Rightarrow> string" where
  "toy_enc m = nat_to_string (rp_status m)"

definition toy_request :: "string \<Rightarrow> string" where
  "toy_request m = request_payload toy_encode (toy_meta m) []"

theorem retry_never_duplicates_witness:
  "fst (handle_request toy_decode toy_enc 7 (toy_request ''GET'') toy_ups) =
     [frame_of 7 FK_RespHead ''200'', frame_of 7 FK_RespBody ''hi'', frame_of 7 FK_RespEnd []] \<and>
   (\<exists>k < 5. fst (snd (proxy_local toy_decode toy_enc 7 (toy_request ''GET'') (toy_ups k))) =
     [frame_of 7 FK_RespHead ''200'', frame_of 7 FK_RespBody ''hi'', frame_of 7 FK_RespEnd []])"
proof -
  have e: "handle_request toy_decode toy_enc 7 (toy_request ''GET'') toy_ups =
      ([frame_of 7 FK_RespHead ''200'', frame_of 7 FK_RespBody ''hi'', frame_of 7 FK_RespEnd []], Req_Done)"
    by code_simp
  from retry_never_duplicates [OF e] show ?thesis unfolding e by auto
qed

section \<open>The response from end to end\<close>

lemma frames_view:
  "client_inv c \<Longrightarrow>
    client_inv (fold (\<lambda>(now, f). on_frame ph pm now f) tfs c) \<and>
    view sid (fold (\<lambda>(now, f). on_frame ph pm now f) tfs c) =
      fold (stream_frame ph) (filter (\<lambda>f. f_stream_id f = sid) (map snd tfs)) (view sid c)"
proof (induction tfs arbitrary: c)
  case Nil
  then show ?case by simp
next
  case (Cons tf tfs)
  obtain now f where tf: "tf = (now, f)" by (cases tf)
  show ?case
    using Cons.IH [OF client_inv_frame [OF Cons.prems, of ph pm now f]] view_frame [OF Cons.prems, of sid ph pm now f]
    by (simp add: tf)
qed

lemma bodies_view: "fold (stream_frame ph) (map (frame_of sid FK_RespBody) ds) (Stream True h b) = Stream True h (b @ ds)"
  by (induction ds arbitrary: b) (simp_all add: frame_of_def)

text \<open>C1: Responses arrive from end to end: when the frames of one request reach the gateway, mixed in any way with
  the frames of other streams, its caller has the head and the body chunks the instance sent, and the
  stream ends if and only if the exchange did not break off after the head: after a truncation or a panic the
  caller's stream stays open for as long as the tunnel lives.\<close>

theorem tunnel_end_to_end:
  assumes "\<And>m. ph (enc m) = Some m" and "client_inv c" and "view sid c = Stream True None []"
    and "handle_request dec enc sid payload ups = (fs, r)"
    and "filter (\<lambda>f. f_stream_id f = sid) (map snd tfs) = fs"
  shows "\<exists>m ds. fs = frame_of sid FK_RespHead (enc m) # map (frame_of sid FK_RespBody) ds @
      (if r = Req_Truncated \<or> r = Req_Panicked then [] else [frame_of sid FK_RespEnd []]) \<and>
    view sid (fold (\<lambda>(now, f). on_frame ph pm now f) tfs c) = Stream (r = Req_Truncated \<or> r = Req_Panicked) (Some (Inr m)) ds"
proof -
  obtain m ds where fs: "fs = frame_of sid FK_RespHead (enc m) # map (frame_of sid FK_RespBody) ds @
      (if r = Req_Truncated \<or> r = Req_Panicked then [] else [frame_of sid FK_RespEnd []])"
    using handle_request_frames [OF assms(4)] by blast
  have "view sid (fold (\<lambda>(now, f). on_frame ph pm now f) tfs c) = fold (stream_frame ph) fs (Stream True None [])"
    using frames_view [OF assms(2), of ph pm tfs sid] assms(3,5) by simp
  also have "\<dots> = Stream (r = Req_Truncated \<or> r = Req_Panicked) (Some (Inr m)) ds"
    by (auto simp: fs bodies_view assms(1) frame_of_def [of sid FK_RespHead] frame_of_def [of sid FK_RespEnd] first_head_def)
  finally show ?thesis using fs by blast
qed

text \<open>The JSON of a response head, with numbers and headers.\<close>

definition toy_enc_resp :: "resp_meta \<Rightarrow> string" where
  "toy_enc_resp m = hexes (nat_to_string (rp_status m)) @ hexes (nat_to_string (rp_wait_until_ms m)) @ hex_headers (rp_headers m)"

definition toy_dec_resp :: "string \<Rightarrow> resp_meta option" where
  "toy_dec_resp s =
     (case unhexes s of None \<Rightarrow> None | Some (n, s1) \<Rightarrow>
     (case unhexes s1 of None \<Rightarrow> None | Some (w, s2) \<Rightarrow>
     (case unhex_headers (Suc (length s)) s2 of None \<Rightarrow> None | Some (hs, _) \<Rightarrow>
        Some \<lparr>rp_status = digits_val 0 n, rp_headers = hs, rp_wait_until_ms = digits_val 0 w\<rparr>)))"

lemma toy_dec_enc_resp: "toy_dec_resp (toy_enc_resp m) = Some m"
proof -
  have "length (rp_headers m) < Suc (length (toy_enc_resp m))"
    using length_hex_headers [of "rp_headers m"] by (simp add: toy_enc_resp_def)
  from unhex_headers [OF this, of "[]"] show ?thesis
    by (simp add: toy_dec_resp_def unhexes_hexes [of _ "_ @ _"] unhexes_hexes [of _ "hex_headers _"]
        digits_val_nat_to_string toy_enc_resp_def)
qed

definition open_client :: tunnel_client where
  "open_client = request_send 1 (request_insert 1 (snd (request_begin toy_encode ''GET'' ''/'' [] [] client_new)))"

theorem tunnel_end_to_end_witness:
  "view 1 (fold (\<lambda>(now, f). on_frame toy_dec_resp (\<lambda>_. None) now f)
      (map (Pair 0) (fst (handle_request toy_decode toy_enc_resp 1 (toy_request ''GET'') toy_ups))) open_client) =
    Stream False (Some (Inr \<lparr>rp_status = 200, rp_headers = [], rp_wait_until_ms = 0\<rparr>)) [''hi'']"
proof -
  let ?m = "\<lparr>rp_status = 200, rp_headers = [], rp_wait_until_ms = 0\<rparr>"
  let ?fs = "[frame_of 1 FK_RespHead (toy_enc_resp ?m), frame_of 1 FK_RespBody ''hi'', frame_of 1 FK_RespEnd []]"
  have e: "handle_request toy_decode toy_enc_resp 1 (toy_request ''GET'') toy_ups = (?fs, Req_Done)"
    by code_simp
  have i: "client_inv open_client" unfolding open_client_def by (intro client_inv_send client_inv_insert client_inv_request client_new_inv)
  have v: "view 1 open_client = Stream True None []"
    by code_simp
  have f: "filter (\<lambda>f. f_stream_id f = 1) (map snd (map (Pair 0) ?fs)) = ?fs" by (simp add: frame_of_def)
  obtain m ds where a: "?fs = frame_of 1 FK_RespHead (toy_enc_resp m) # map (frame_of 1 FK_RespBody) ds @
      (if Req_Done = Req_Truncated \<or> Req_Done = Req_Panicked then [] else [frame_of 1 FK_RespEnd []])"
    and b: "view 1 (fold (\<lambda>(now, f). on_frame toy_dec_resp (\<lambda>_. None) now f) (map (Pair 0) ?fs) open_client) =
      Stream (Req_Done = Req_Truncated \<or> Req_Done = Req_Panicked) (Some (Inr m)) ds"
    using tunnel_end_to_end [OF toy_dec_enc_resp i v e f, of "\<lambda>_. None"] by blast
  have "map f_payload ?fs = toy_enc_resp m # ds @ [[]]" unfolding a by (simp add: frame_of_def comp_def)
  then have p: "toy_enc_resp ?m = toy_enc_resp m" "ds = [''hi'']" by (simp_all add: frame_of_def)
  have "Some ?m = Some m" using toy_dec_enc_resp [of ?m] toy_dec_enc_resp [of m] unfolding p(1) by simp
  then show ?thesis unfolding e using b p(2) by simp
qed

section \<open>Admission\<close>

definition server_inv :: "nat \<Rightarrow> tunnel_server \<Rightarrow> bool" where
  "server_inv n s \<longleftrightarrow> sv_max s = n \<and> length (sv_tasks s) \<le> sv_inflight s \<and> sv_inflight s \<le> n"

lemma server_send_fields [simp]:
  "sv_max (server_send f s) = sv_max s" "sv_tasks (server_send f s) = sv_tasks s" "sv_inflight (server_send f s) = sv_inflight s"
  by (simp_all add: server_send_def)

lemma server_step_inv: "server_step dec enc em s s' \<Longrightarrow> server_inv n s \<Longrightarrow> server_inv n s'"
proof (induction rule: server_step.induct)
  case (server_frame s ups f)
  then show ?case
    by (cases "f_kind f") (auto simp: serve_frame_def server_inv_def Let_def case_prod_unfold)
next
  case (server_task i s)
  then show ?case
    by (cases "rt_frames (sv_tasks s ! i)") (auto simp: task_next_def server_inv_def)
qed (simp_all add: server_inv_def metrics_tick_def)

text \<open>An instance never works on more requests than its limit: in every reachable state of the server the requests in
  progress are counted, and the count is at most \<open>max_concurrency\<close>; what comes on top is refused
  with a nack.\<close>

theorem tunnel_inflight_bounded:
  assumes "server_reachable dec enc em n s"
  shows "length (sv_tasks s) \<le> sv_inflight s \<and> sv_inflight s \<le> n \<and>
    (sv_inflight s = n \<and> f_kind f = FK_Request \<longrightarrow>
      sv_sent (serve_frame dec enc ups f s) = sv_sent s @ [frame_of (f_stream_id f) FK_Nack []] \<and>
      sv_tasks (serve_frame dec enc ups f s) = sv_tasks s)"
proof -
  have "server_inv n s"
    using assms by (induction rule: server_reachable.induct) (simp add: server_new_def server_inv_def, blast intro: server_step_inv)
  then show ?thesis by (auto simp: server_inv_def serve_frame_def server_send_def Let_def)
qed

definition toy_frame :: "nat \<Rightarrow> frame" where
  "toy_frame sid = frame_of sid FK_Request (toy_request ''GET'')"

theorem tunnel_inflight_bounded_witness:
  "sv_sent (serve_frame toy_decode toy_enc toy_ups (toy_frame 2) (serve_frame toy_decode toy_enc toy_ups (toy_frame 1) (server_new 1))) =
    [frame_of 2 FK_Nack []]"
proof -
  let ?s = "serve_frame toy_decode toy_enc toy_ups (toy_frame 1) (server_new 1)"
  have r: "server_reachable toy_decode toy_enc (\<lambda>_. []) 1 ?s"
    by (rule server_go [OF server_init server_frame])
  have "sv_inflight ?s = 1" "sv_sent ?s = []"
    by (simp_all add: serve_frame_def toy_frame_def frame_of_def server_new_def Let_def case_prod_unfold)
  then show ?thesis
    using tunnel_inflight_bounded [OF r, of "toy_frame 2" toy_ups] by (simp add: toy_frame_def frame_of_def)
qed

text \<open>A function can take its own instance out of service: an answer whose chunk size is the largest 64 bit
  number panics the request's task before it gives its slot back, so with a limit of one every later
  request is refused, although nothing is in progress.\<close>

theorem chunk_overflow_wedges_instance:
  "let bad = (\<lambda>i::nat. Up_Reads [Some (toy_response @ ''ffffffffffffffff'' @ crlf @ ''x'')]);
       s1 = serve_frame toy_decode toy_enc bad (toy_frame 1) (server_new 1);
       s2 = task_next 0 (task_next 0 s1);
       s3 = serve_frame toy_decode toy_enc toy_ups (toy_frame 2) s2
   in sv_tasks s2 = [] \<and> sv_inflight s2 = 1 \<and> last (sv_sent s3) = frame_of 2 FK_Nack []"
  by code_simp

end
