(* ===== verification/Fluid_Pool.thy ===== *)
theory Fluid_Pool
  imports Byte_Strings Complex_Main
begin

text \<open>
  The function pool of \<open>crates/fluid-compute/src/lib.rs\<close> and the parts of the function configuration of
  \<open>crates/fluid-core/src/lib.rs\<close> it computes with: records, and one function per decision that the code
  takes on a pool under the registry lock. A cell, its handle and its endpoint are one
  identifier; a CPU sample is a rational number; the derived floating point fields of the
  statistics are left out.
\<close>

section \<open>Configuration\<close>

datatype service_protocol = Http | Https | Ws | Wss | Grpc | JsonRpc | Tcp | Udp

definition needs_raw_proxy :: "service_protocol \<Rightarrow> bool" where
  "needs_raw_proxy p \<longleftrightarrow> p \<in> {Grpc, Tcp, Udp}"

fun protocol_str :: "service_protocol \<Rightarrow> string" where
  "protocol_str Http = ''http''"
| "protocol_str Https = ''https''"
| "protocol_str Ws = ''ws''"
| "protocol_str Wss = ''wss''"
| "protocol_str Grpc = ''grpc''"
| "protocol_str JsonRpc = ''json-rpc''"
| "protocol_str Tcp = ''tcp''"
| "protocol_str Udp = ''udp''"

text \<open>\<open>FromStr\<close> is strict, the deserializer of stored state is lenient.\<close>

definition protocol_from_str :: "string \<Rightarrow> string + service_protocol" where
  "protocol_from_str s =
     (if s = [] \<or> s = ''http'' then Inr Http else if s = ''https'' then Inr Https else if s = ''ws'' then Inr Ws
      else if s = ''wss'' then Inr Wss else if s = ''grpc'' then Inr Grpc else if s = ''json-rpc'' then Inr JsonRpc
      else if s = ''tcp'' then Inr Tcp else if s = ''udp'' then Inr Udp else Inl s)"

definition protocol_deserialize :: "string \<Rightarrow> service_protocol" where
  "protocol_deserialize s = (case protocol_from_str s of Inr p \<Rightarrow> p | Inl _ \<Rightarrow> Http)"

lemma protocol_roundtrip: "protocol_from_str (protocol_str p) = Inr p" "protocol_deserialize (protocol_str p) = p"
  by (cases p; simp add: protocol_from_str_def protocol_deserialize_def)+

record port_spec =
  pt_container_port :: nat
  pt_protocol :: service_protocol
  pt_label :: "string option"
  pt_public_port :: "nat option"
  pt_preferred_public_port :: "nat option"

definition port_single :: "nat \<Rightarrow> service_protocol \<Rightarrow> port_spec" where
  "port_single p pr = \<lparr>pt_container_port = p, pt_protocol = pr, pt_label = None, pt_public_port = None,
     pt_preferred_public_port = None\<rparr>"

definition from_legacy_port :: "nat option \<Rightarrow> service_protocol \<Rightarrow> port_spec list" where
  "from_legacy_port port pr = (case port of None \<Rightarrow> [] | Some p \<Rightarrow> [port_single p pr])"

record fn_config =
  fc_runtime :: string
  fc_start_cmd :: "string list"
  fc_vcpus :: nat
  fc_memory_mib :: nat
  fc_max_concurrency :: nat
  fc_min_instances :: nat
  fc_max_instances :: nat
  fc_idle_ttl_secs :: nat
  fc_max_duration_secs :: nat
  fc_protocol :: service_protocol
  fc_ports :: "port_spec list"
  fc_gpu :: bool

definition fn_config_default :: fn_config where
  "fn_config_default = \<lparr>fc_runtime = ''command'', fc_start_cmd = [], fc_vcpus = 1, fc_memory_mib = 2048,
     fc_max_concurrency = 10, fc_min_instances = 0, fc_max_instances = 10, fc_idle_ttl_secs = 30,
     fc_max_duration_secs = 300, fc_protocol = Http, fc_ports = [], fc_gpu = False\<rparr>"

text \<open>\<open>FluidConfig\<close>, the interval of the autoscaler left out.\<close>

record fluid_config =
  fg_lease_timeout_ms :: nat
  fg_max_instances_per_tenant :: nat
  fg_max_requests_per_instance :: nat
  fg_max_instance_age_secs :: nat

definition fluid_config_default :: fluid_config where
  "fluid_config_default = \<lparr>fg_lease_timeout_ms = 20000, fg_max_instances_per_tenant = 0,
     fg_max_requests_per_instance = 10000, fg_max_instance_age_secs = 3600\<rparr>"

definition recommended_safe_concurrency :: "string \<Rightarrow> nat \<Rightarrow> nat" where
  "recommended_safe_concurrency runtime configured_max =
     (let r = to_lowercase (trim runtime);
          cap = (if r \<in> {''node'', ''nodejs'', ''js'', ''bun'', ''edge'', ''isolate'', ''edge-isolate''} then configured_max
                 else if r \<in> {''python'', ''py''} then min configured_max 8
                 else if r \<in> {''container'', ''docker'', ''microvm'', ''firecracker''} then min configured_max 16
                 else configured_max)
      in max cap 1)"

definition norm_tenant :: "string \<Rightarrow> string" where
  "norm_tenant t = (if trim t = [] then ''personal'' else t)"

definition func_key :: "string \<Rightarrow> string \<Rightarrow> string" where
  "func_key deployment function_name = deployment @ ''/'' @ function_name"

section \<open>Instances and pools\<close>

type_synonym cell = nat

record fn_instance =
  in_cell :: cell
  in_udp_ports :: "(nat \<times> nat) list"
  in_tcp_ports :: "(nat \<times> nat) list"
  in_inflight :: nat
  in_started_at_ms :: nat
  in_last_active_ms :: nat
  in_draining :: bool
  in_requests_served :: nat

record pool_spec =
  ps_key :: string
  ps_cfg :: fn_config
  ps_image :: string
  ps_workdir :: string
  ps_tenant :: string

record function_pool =
  fp_cfg :: fn_config
  fp_tenant :: string
  fp_image :: string
  fp_workdir :: string
  fp_instances :: "fn_instance list"
  fp_provisioning :: nat
  fp_requests :: nat
  fp_served_ms_sum :: nat
  fp_instance_ms_retired :: nat
  fp_dead_reaped :: nat
  fp_browser_requests :: nat
  fp_browser_served_ms :: nat
  fp_warm_backoff_until_ms :: nat
  fp_warm_fail_streak :: nat
  fp_last_warm_ok_ms :: nat
  fp_crash_streak :: nat
  fp_circuit_probe_after_ms :: nat
  fp_last_node_fault :: "string option"
  fp_safe_concurrency :: "nat option"
  fp_nack_concurrency :: nat
  fp_nack_quota :: nat
  fp_scale_out_total :: nat
  fp_coldstart_deduped :: nat
  fp_recycled :: nat
  fp_last_provision_ms :: nat
  fp_last_runtime_init_ms :: nat
  fp_last_cpu_pct :: rat

text \<open>The dynamic ceiling is stored only when it is below the static one.\<close>

definition baseline_concurrency :: "fn_config \<Rightarrow> nat option" where
  "baseline_concurrency cfg =
     (let r = recommended_safe_concurrency (fc_runtime cfg) (fc_max_concurrency cfg)
      in if r < fc_max_concurrency cfg then Some r else None)"

definition pool_from_spec :: "pool_spec \<Rightarrow> function_pool" where
  "pool_from_spec spec =
     \<lparr>fp_cfg = ps_cfg spec, fp_tenant = norm_tenant (ps_tenant spec), fp_image = ps_image spec,
      fp_workdir = ps_workdir spec, fp_instances = [], fp_provisioning = 0, fp_requests = 0, fp_served_ms_sum = 0,
      fp_instance_ms_retired = 0, fp_dead_reaped = 0, fp_browser_requests = 0, fp_browser_served_ms = 0,
      fp_warm_backoff_until_ms = 0, fp_warm_fail_streak = 0, fp_last_warm_ok_ms = 0, fp_crash_streak = 0,
      fp_circuit_probe_after_ms = 0, fp_last_node_fault = None, fp_safe_concurrency = baseline_concurrency (ps_cfg spec),
      fp_nack_concurrency = 0, fp_nack_quota = 0, fp_scale_out_total = 0, fp_coldstart_deduped = 0, fp_recycled = 0,
      fp_last_provision_ms = 0, fp_last_runtime_init_ms = 0, fp_last_cpu_pct = 0\<rparr>"

definition active_instances :: "function_pool \<Rightarrow> fn_instance list" where
  "active_instances p = filter (\<lambda>i. \<not> in_draining i) (fp_instances p)"

definition live_count :: "function_pool \<Rightarrow> nat" where
  "live_count p = length (active_instances p) + fp_provisioning p"

definition total_inflight :: "function_pool \<Rightarrow> nat" where
  "total_inflight p = sum_list (map in_inflight (fp_instances p))"

text \<open>What Fluid bills: the time of the instances already retired and of those that are there.\<close>

definition fluid_ms :: "nat \<Rightarrow> function_pool \<Rightarrow> nat" where
  "fluid_ms now p = fp_instance_ms_retired p + sum_list (map (\<lambda>i. now - in_started_at_ms i) (fp_instances p))"

definition instance_recyclable :: "nat \<Rightarrow> nat \<Rightarrow> nat \<Rightarrow> nat \<Rightarrow> bool" where
  "instance_recyclable requests_served age_ms max_requests max_age_ms \<longleftrightarrow>
     max_requests > 0 \<and> requests_served \<ge> max_requests \<or>
     max_age_ms > 0 \<and> requests_served > 0 \<and> age_ms \<ge> max_age_ms"

section \<open>Leases\<close>

definition CRASH_LOOP_WINDOW_MS :: nat where
  "CRASH_LOOP_WINDOW_MS = 30000"

definition CRASH_CIRCUIT_THRESHOLD :: nat where
  "CRASH_CIRCUIT_THRESHOLD = 3"

definition CIRCUIT_PROBE_INTERVAL_MS :: nat where
  "CIRCUIT_PROBE_INTERVAL_MS = 30000"

text \<open>The circuit in front of \<open>lease\<close>.\<close>

datatype gate_error = Node_Broken string nat | Crash_Looping nat | Cannot_Start nat

definition lease_gate :: "nat \<Rightarrow> function_pool \<Rightarrow> gate_error option" where
  "lease_gate now p =
     (if fp_instances p \<noteq> [] then None
      else let failing = fp_warm_fail_streak p \<ge> CRASH_CIRCUIT_THRESHOLD \<and> now < fp_circuit_probe_after_ms p in
        (case fp_last_node_fault p of
           Some marker \<Rightarrow>
             if failing then Some (Node_Broken marker (fp_warm_fail_streak p))
             else if fp_crash_streak p \<ge> CRASH_CIRCUIT_THRESHOLD then Some (Crash_Looping (fp_crash_streak p))
             else None
         | None \<Rightarrow>
             if fp_crash_streak p \<ge> CRASH_CIRCUIT_THRESHOLD then Some (Crash_Looping (fp_crash_streak p))
             else if failing then Some (Cannot_Start (fp_warm_fail_streak p))
             else None))"

datatype nack_reason = Concurrency_Limit | Tenant_Quota

datatype lease_decision =
    Ld_Ready cell
  | Ld_Cold_Start
  | Ld_Wait_For_Warm
  | Ld_Saturated nack_reason
  | Ld_Not_Found

definition effective_concurrency :: "function_pool \<Rightarrow> nat" where
  "effective_concurrency p =
     max (min (fc_max_concurrency (fp_cfg p)) (case fp_safe_concurrency p of None \<Rightarrow> 2 ^ 32 - 1 | Some n \<Rightarrow> n)) 1"

definition free_slot :: "nat \<Rightarrow> fn_instance \<Rightarrow> bool" where
  "free_slot max_c i \<longleftrightarrow> \<not> in_draining i \<and> in_inflight i < max_c"

text \<open>\<open>iter_mut().filter(..).min_by_key(..)\<close>: the first of the least loaded is changed.\<close>

definition take_slot :: "nat \<Rightarrow> nat \<Rightarrow> fn_instance list \<Rightarrow> (cell \<times> fn_instance list) option" where
  "take_slot max_c now is =
     (case min_by_key in_inflight (filter (free_slot max_c) is) of
        None \<Rightarrow> None
      | Some i \<Rightarrow>
          Some (in_cell i,
            upd_first (\<lambda>j. free_slot max_c j \<and> in_inflight j = in_inflight i)
              (\<lambda>j. j\<lparr>in_inflight := in_inflight j + 1, in_last_active_ms := now\<rparr>) is))"

type_synonym registry = "(string, function_pool) table"

definition tenant_live :: "string \<Rightarrow> registry \<Rightarrow> nat" where
  "tenant_live t reg = tsum (\<lambda>k p. if fp_tenant p = t then live_count p else 0) reg"

definition tenant_live_instances :: "string \<Rightarrow> registry \<Rightarrow> nat" where
  "tenant_live_instances t reg = tenant_live (norm_tenant t) reg"

definition bump_nack :: "nack_reason \<Rightarrow> function_pool \<Rightarrow> function_pool" where
  "bump_nack r p =
     (case r of
        Concurrency_Limit \<Rightarrow> p\<lparr>fp_nack_concurrency := fp_nack_concurrency p + 1\<rparr>
      | Tenant_Quota \<Rightarrow> p\<lparr>fp_nack_quota := fp_nack_quota p + 1\<rparr>)"

definition reserve_start :: "function_pool \<Rightarrow> function_pool" where
  "reserve_start p = p\<lparr>fp_provisioning := fp_provisioning p + 1, fp_scale_out_total := fp_scale_out_total p + 1\<rparr>"

definition decide_lease :: "fluid_config \<Rightarrow> string \<Rightarrow> bool \<Rightarrow> nat \<Rightarrow> registry \<Rightarrow> lease_decision \<times> registry" where
  "decide_lease cfg key coalesce now reg =
     (case tget reg key of
        None \<Rightarrow> (Ld_Not_Found, reg)
      | Some p \<Rightarrow>
          (case take_slot (effective_concurrency p) now (fp_instances p) of
             Some (c, is) \<Rightarrow> (Ld_Ready c, tput key (p\<lparr>fp_instances := is\<rparr>) reg)
           | None \<Rightarrow>
               if coalesce \<and> fp_provisioning p > 0 then (Ld_Wait_For_Warm, reg)
               else if live_count p \<ge> fc_max_instances (fp_cfg p)
               then (Ld_Saturated Concurrency_Limit, tput key (bump_nack Concurrency_Limit p) reg)
               else if fg_max_instances_per_tenant cfg > 0 \<and> tenant_live (fp_tenant p) reg \<ge> fg_max_instances_per_tenant cfg
               then (Ld_Saturated Tenant_Quota, tput key (bump_nack Tenant_Quota p) reg)
               else (Ld_Cold_Start, tput key (reserve_start p) reg)))"

text \<open>One turn of the loop of \<open>lease\<close>: return, go on, start a cell, or fail (\<open>late\<close>: the deadline has passed).\<close>

datatype lease_outcome = Lease_Granted cell | Lease_Retry | Lease_Start | Lease_Failed string

definition lease_turn :: "bool \<Rightarrow> lease_decision \<Rightarrow> lease_outcome" where
  "lease_turn late d =
     (case d of
        Ld_Ready c \<Rightarrow> Lease_Granted c
      | Ld_Cold_Start \<Rightarrow> Lease_Start
      | Ld_Wait_For_Warm \<Rightarrow> if late then Lease_Failed ''cold-start coalesce timed out'' else Lease_Retry
      | Ld_Saturated r \<Rightarrow> if late then Lease_Failed ''saturated'' else Lease_Retry
      | Ld_Not_Found \<Rightarrow> Lease_Failed ''no such function'')"

definition find_instance :: "cell \<Rightarrow> function_pool \<Rightarrow> fn_instance option" where
  "find_instance c p = List.find (\<lambda>i. in_cell i = c) (fp_instances p)"

definition lease_udp_host_port :: "cell \<Rightarrow> nat \<Rightarrow> function_pool \<Rightarrow> nat option" where
  "lease_udp_host_port c port p =
     (case find_instance c p of None \<Rightarrow> None | Some i \<Rightarrow> tget (in_udp_ports i) port)"

definition lease_tcp_host_port :: "cell \<Rightarrow> nat \<Rightarrow> function_pool \<Rightarrow> nat option" where
  "lease_tcp_host_port c port p =
     (case find_instance c p of None \<Rightarrow> None | Some i \<Rightarrow> tget (in_tcp_ports i) port)"

definition release_lease :: "cell \<Rightarrow> nat \<Rightarrow> nat \<Rightarrow> function_pool \<Rightarrow> function_pool" where
  "release_lease c active_ms now p =
     p\<lparr>fp_requests := fp_requests p + 1, fp_served_ms_sum := fp_served_ms_sum p + active_ms,
       fp_instances := upd_first (\<lambda>i. in_cell i = c)
         (\<lambda>i. i\<lparr>in_inflight := in_inflight i - 1, in_last_active_ms := now,
               in_requests_served := in_requests_served i + 1\<rparr>) (fp_instances p)\<rparr>"

definition record_browser_request :: "nat \<Rightarrow> function_pool \<Rightarrow> function_pool" where
  "record_browser_request active_ms p =
     p\<lparr>fp_browser_requests := fp_browser_requests p + 1, fp_browser_served_ms := fp_browser_served_ms p + active_ms\<rparr>"

section \<open>Cold starts\<close>

definition sat_succ32 :: "nat \<Rightarrow> nat" where
  "sat_succ32 n = min (2 ^ 32 - 1) (n + 1)"

definition NODE_FAULTS :: "string list" where
  "NODE_FAULTS = [''NodeImageMissing'', ''NodeBackendUnavailable'', ''NodeLockPoolExhausted'', ''NodeRuntimeMissing'']"

definition node_fault_marker :: "string \<Rightarrow> string option" where
  "node_fault_marker es = List.find (\<lambda>m. str_contains es m) NODE_FAULTS"

definition backoff_ms :: "nat \<Rightarrow> nat" where
  "backoff_ms streak = 1000 * 2 ^ min streak 6"

text \<open>The drop of an armed \<open>ColdStartGuard\<close>; no error means that the caller gave up.\<close>

definition cold_start_failed :: "string option \<Rightarrow> nat \<Rightarrow> function_pool \<Rightarrow> function_pool" where
  "cold_start_failed error now p0 =
     (let p1 = p0\<lparr>fp_provisioning := fp_provisioning p0 - 1\<rparr>;
          p2 = (case error of
                  None \<Rightarrow> p1
                | Some _ \<Rightarrow> p1\<lparr>fp_warm_fail_streak := sat_succ32 (fp_warm_fail_streak p1),
                             fp_circuit_probe_after_ms := now + CIRCUIT_PROBE_INTERVAL_MS\<rparr>);
          p3 = p2\<lparr>fp_warm_backoff_until_ms := now + backoff_ms (fp_warm_fail_streak p2)\<rparr>
      in (case error of None \<Rightarrow> p3 | Some e \<Rightarrow> p3\<lparr>fp_last_node_fault := node_fault_marker e\<rparr>))"

definition publish_instance :: "cell \<Rightarrow> (nat \<times> nat) list \<Rightarrow> (nat \<times> nat) list \<Rightarrow> nat \<Rightarrow> nat \<Rightarrow> nat \<Rightarrow> function_pool \<Rightarrow> function_pool" where
  "publish_instance c udp tcp provision_ms init_ms now p =
     p\<lparr>fp_provisioning := fp_provisioning p - 1, fp_last_provision_ms := provision_ms, fp_last_runtime_init_ms := init_ms,
       fp_instances := fp_instances p @
         [\<lparr>in_cell = c, in_udp_ports = udp, in_tcp_ports = tcp, in_inflight = 1, in_started_at_ms = now,
           in_last_active_ms = now, in_draining = False, in_requests_served = 0\<rparr>]\<rparr>"

text \<open>After a start on the request path, and after one of keep-warm.\<close>

definition close_circuit :: "function_pool \<Rightarrow> function_pool" where
  "close_circuit p = p\<lparr>fp_warm_fail_streak := 0, fp_warm_backoff_until_ms := 0, fp_circuit_probe_after_ms := 0,
     fp_last_node_fault := None\<rparr>"

definition warm_started :: "cell \<Rightarrow> nat \<Rightarrow> function_pool \<Rightarrow> function_pool" where
  "warm_started c now p =
     (close_circuit p)\<lparr>fp_instances := upd_first (\<lambda>i. in_cell i = c) (\<lambda>i. i\<lparr>in_inflight := 0, in_last_active_ms := now\<rparr>)
        (fp_instances p), fp_last_warm_ok_ms := now\<rparr>"

subsection \<open>The launch\<close>

definition is_container :: "string list \<Rightarrow> bool" where
  "is_container start_cmd \<longleftrightarrow> (case start_cmd of [] \<Rightarrow> False | c # _ \<Rightarrow> c = ''__container__'')"

text \<open>\<open>probes\<close> are the answers of \<open>free_udp_port\<close> (\<open>free_port\<close>), one for each call, \<open>None\<close> is an error.\<close>

fun publish_udp :: "nat list \<Rightarrow> nat option list \<Rightarrow> port_spec list \<Rightarrow> (nat \<times> nat) list" where
  "publish_udp seen probes [] = []"
| "publish_udp seen probes (s # ss) =
     (if pt_protocol s = Udp \<and> pt_container_port s \<notin> set seen
      then (case probes of
              Some hp # ps \<Rightarrow> (pt_container_port s, hp) # publish_udp (pt_container_port s # seen) ps ss
            | _ \<Rightarrow> publish_udp (pt_container_port s # seen) (tl probes) ss)
      else publish_udp seen probes ss)"

definition raw_tcp_spec :: "port_spec \<Rightarrow> bool" where
  "raw_tcp_spec s \<longleftrightarrow> pt_protocol s = Tcp \<or> pt_protocol s = Grpc \<or>
     pt_protocol s = Http \<and> pt_preferred_public_port s \<noteq> None"

fun publish_tcp :: "nat \<Rightarrow> nat option \<Rightarrow> nat list \<Rightarrow> nat option list \<Rightarrow> port_spec list \<Rightarrow> (nat \<times> nat) list" where
  "publish_tcp port primary seen probes [] = []"
| "publish_tcp port primary seen probes (s # ss) =
     (if raw_tcp_spec s \<and> pt_container_port s \<notin> set seen
      then (if Some (pt_container_port s) = primary
            then (pt_container_port s, port) # publish_tcp port primary (pt_container_port s # seen) probes ss
            else (case probes of
                    Some hp # ps \<Rightarrow>
                      if hp = port then publish_tcp port primary (pt_container_port s # seen) ps ss
                      else (pt_container_port s, hp) # publish_tcp port primary (pt_container_port s # seen) ps ss
                  | _ \<Rightarrow> publish_tcp port primary (pt_container_port s # seen) (tl probes) ss))
      else publish_tcp port primary seen probes ss)"

definition parse_port :: "string \<Rightarrow> nat option" where
  "parse_port s = (case parse_u64 s of None \<Rightarrow> None | Some n \<Rightarrow> if n < 2 ^ 16 then Some n else None)"

definition primary_port :: "string list \<Rightarrow> nat option" where
  "primary_port start_cmd = (case drop 2 start_cmd of [] \<Rightarrow> None | s # _ \<Rightarrow> parse_port s)"

definition launch_ports :: "fn_config \<Rightarrow> nat \<Rightarrow> nat option list \<Rightarrow> nat option list \<Rightarrow> (nat \<times> nat) list \<times> (nat \<times> nat) list" where
  "launch_ports cfg port udp_probes tcp_probes =
     (if is_container (fc_start_cmd cfg)
      then (publish_udp [] udp_probes (fc_ports cfg),
            publish_tcp port (primary_port (fc_start_cmd cfg)) [] tcp_probes (fc_ports cfg))
      else ([], []))"

text \<open>The ports of the \<open>ContainerSpec\<close>: the primary one, then the UDP and the other TCP ones.\<close>

definition container_ports :: "string list \<Rightarrow> nat \<Rightarrow> (nat \<times> nat) list \<Rightarrow> (nat \<times> nat) list \<Rightarrow> (nat \<times> nat \<times> service_protocol) list" where
  "container_ports start_cmd port udp tcp =
     ((case primary_port start_cmd of None \<Rightarrow> 8080 | Some p \<Rightarrow> p), port, Tcp) #
     map (\<lambda>(c, h). (c, h, Udp)) udp @ map (\<lambda>(c, h). (c, h, Tcp)) (filter (\<lambda>(c, h). h \<noteq> port) tcp)"

text \<open>The identity of an isolated artifact: identifier, protocol, digest. \<open>required\<close> is the answer of the
  backend, \<open>version\<close> the protocol version of this build.\<close>

definition hex_lower :: "char \<Rightarrow> bool" where
  "hex_lower c \<longleftrightarrow> is_digit c \<or> c \<in> set ''abcdef''"

definition artifact_authorized :: "bool \<Rightarrow> nat \<Rightarrow> string \<Rightarrow> string list \<Rightarrow> string \<Rightarrow> (string \<times> nat \<times> string) option \<Rightarrow> bool" where
  "artifact_authorized required version img start_cmd workdir identity \<longleftrightarrow>
     (if starts_with ''dpl-'' img \<and> \<not> is_container start_cmd \<and> required
      then (case identity of
              None \<Rightarrow> False
            | Some (ident, proto, digest) \<Rightarrow>
                trim workdir \<noteq> [] \<and> ident = img \<and> proto = version \<and> length digest = 64 \<and> list_all hex_lower digest)
      else True)"

section \<open>The autoscaler\<close>

text \<open>The scan over the instances of one pool: recycling, scaling to zero, and the cells to terminate.\<close>

fun scale_down ::
  "(nat \<Rightarrow> nat \<Rightarrow> bool) \<Rightarrow> nat \<Rightarrow> nat \<Rightarrow> nat \<Rightarrow> nat \<Rightarrow> fn_instance list \<Rightarrow> fn_instance list \<times> (cell \<times> nat) list \<times> nat \<times> nat" where
  "scale_down recyclable now ttl_ms min_i live [] = ([], [], 0, 0)"
| "scale_down recyclable now ttl_ms min_i live (i # is) =
     (let age = now - in_started_at_ms i; it = (in_cell i, in_requests_served i)
      in if in_draining i
         then (let (js, ds, ret, rec) = scale_down recyclable now ttl_ms min_i live is
               in (i # js, (if in_inflight i = 0 then [it] else []) @ ds, ret, rec))
         else if recyclable (in_requests_served i) age
         then (let (js, ds, ret, rec) = scale_down recyclable now ttl_ms min_i live is
               in (i\<lparr>in_draining := True\<rparr> # js, (if in_inflight i = 0 then [it] else []) @ ds, ret + age, rec + 1))
         else if in_inflight i = 0 \<and> now - in_last_active_ms i > ttl_ms \<and> live > min_i
         then (let (js, ds, ret, rec) = scale_down recyclable now ttl_ms min_i (live - 1) is
               in (i\<lparr>in_draining := True\<rparr> # js, it # ds, ret + age, rec))
         else (let (js, ds, ret, rec) = scale_down recyclable now ttl_ms min_i live is in (i # js, ds, ret, rec)))"

definition crash_check :: "nat \<Rightarrow> function_pool \<Rightarrow> function_pool" where
  "crash_check now p =
     (let young = now - fp_last_warm_ok_ms p < CRASH_LOOP_WINDOW_MS; mi = fc_min_instances (fp_cfg p)
      in if live_count p < mi \<and> fp_last_warm_ok_ms p \<noteq> 0 \<and> young
         then p\<lparr>fp_crash_streak := sat_succ32 (fp_crash_streak p), fp_last_warm_ok_ms := 0,
                fp_warm_backoff_until_ms := now + backoff_ms (sat_succ32 (fp_crash_streak p))\<rparr>
         else if live_count p \<ge> mi \<and> fp_last_warm_ok_ms p \<noteq> 0 \<and> \<not> young then p\<lparr>fp_crash_streak := 0\<rparr>
         else p)"

text \<open>How many cells to warm.\<close>

definition warm_deficit :: "nat \<Rightarrow> function_pool \<Rightarrow> nat" where
  "warm_deficit now p = (if now \<ge> fp_warm_backoff_until_ms p then fc_min_instances (fp_cfg p) - live_count p else 0)"

definition recycle_policy :: "fluid_config \<Rightarrow> nat \<Rightarrow> nat \<Rightarrow> bool" where
  "recycle_policy cfg reqs age =
     instance_recyclable reqs age (fg_max_requests_per_instance cfg) (min (2 ^ 64 - 1) (fg_max_instance_age_secs cfg * 1000))"

definition reconcile_pool :: "fluid_config \<Rightarrow> nat \<Rightarrow> function_pool \<Rightarrow> nat \<times> (cell \<times> nat) list \<times> function_pool" where
  "reconcile_pool cfg now p0 =
     (let p = crash_check now p0; n = warm_deficit now p;
          (is, ds, ret, rec) = scale_down (recycle_policy cfg) now (wmul64 (fc_idle_ttl_secs (fp_cfg p)) 1000)
             (fc_min_instances (fp_cfg p)) (length (active_instances p)) (fp_instances p)
      in (n, ds, p\<lparr>fp_provisioning := fp_provisioning p + n, fp_instances := is,
            fp_instance_ms_retired := fp_instance_ms_retired p + ret, fp_recycled := fp_recycled p + rec\<rparr>))"

text \<open>Over the whole registry: the keys to warm, the cells to drain with their keys.\<close>

fun reconcile :: "fluid_config \<Rightarrow> nat \<Rightarrow> registry \<Rightarrow> string list \<times> (string \<times> cell \<times> nat) list \<times> registry" where
  "reconcile cfg now [] = ([], [], [])"
| "reconcile cfg now ((k, p) # reg) =
     (let (n, ds, p') = reconcile_pool cfg now p; (ws, dss, reg') = reconcile cfg now reg
      in (replicate n k @ ws, map (\<lambda>(c, r). (k, c, r)) ds @ dss, (k, p') # reg'))"

section \<open>Adaptive concurrency\<close>

definition AIMD_CPU_HIGH :: rat where
  "AIMD_CPU_HIGH = 85"

definition AIMD_CPU_LOW :: rat where
  "AIMD_CPU_LOW = 60"

definition aimd_step :: "rat \<Rightarrow> nat \<Rightarrow> nat \<Rightarrow> nat" where
  "aimd_step cpu cur mx =
     (let nxt = (if cpu \<ge> AIMD_CPU_HIGH then max (cur div 2) 1 else if cpu \<le> AIMD_CPU_LOW then sat_succ32 cur else cur)
      in min (max nxt 1) (max mx 1))"

text \<open>The most pressed instance; no sample at all means to hold.\<close>

definition max_cpu :: "rat option list \<Rightarrow> rat option" where
  "max_cpu samples =
     (case List.map_filter id samples of
        [] \<Rightarrow> None
      | cs \<Rightarrow> Some (fold (\<lambda>c m. if c > m then c else m) cs 0))"

definition adapt_target :: "function_pool \<Rightarrow> (cell list \<times> nat \<times> nat) option" where
  "adapt_target p =
     (if active_instances p = [] then None
      else Some (map in_cell (active_instances p),
        (case fp_safe_concurrency p of None \<Rightarrow> fc_max_concurrency (fp_cfg p) | Some n \<Rightarrow> n), fc_max_concurrency (fp_cfg p)))"

definition adapt_apply :: "rat option list \<Rightarrow> nat \<Rightarrow> nat \<Rightarrow> function_pool \<Rightarrow> function_pool" where
  "adapt_apply samples cur mx p =
     (case max_cpu samples of
        None \<Rightarrow> p
      | Some cpu \<Rightarrow>
          (let nxt = aimd_step cpu cur mx
           in p\<lparr>fp_last_cpu_pct := cpu,
                fp_safe_concurrency := (if nxt \<ge> fc_max_concurrency (fp_cfg p) then None else Some nxt)\<rparr>))"

text \<open>The hook; \<open>clamp\<close> panics when the bounds cross (\<open>None\<close>).\<close>

definition set_safe_concurrency :: "nat option \<Rightarrow> function_pool \<Rightarrow> function_pool option" where
  "set_safe_concurrency n p =
     (case n of
        None \<Rightarrow> Some (p\<lparr>fp_safe_concurrency := None\<rparr>)
      | Some v \<Rightarrow>
          if fc_max_concurrency (fp_cfg p) < 1 then None
          else Some (p\<lparr>fp_safe_concurrency := Some (min (max v 1) (fc_max_concurrency (fp_cfg p)))\<rparr>))"

definition update_config :: "fn_config \<Rightarrow> function_pool \<Rightarrow> function_pool" where
  "update_config cfg p = p\<lparr>fp_cfg := cfg, fp_safe_concurrency := baseline_concurrency cfg\<rparr>"

definition set_min_instances :: "nat \<Rightarrow> function_pool \<Rightarrow> function_pool" where
  "set_min_instances n p = p\<lparr>fp_cfg := (fp_cfg p)\<lparr>fc_min_instances := n\<rparr>\<rparr>"

end
