(* ===== verification/Fluid_Life.thy ===== *)
theory Fluid_Life
  imports Fluid_Pool "HOL-Library.Char_ord" "HOL-Library.List_Lexorder"
begin

text \<open>
  The runtime of \<open>crates/fluid-compute/src/lib.rs\<close> as a state machine. The state is the struct \<open>Fluid\<close> with
  its tasks: cold starts (a future each, with the phase it is suspended in), leases in
  the hands of callers, the drains of the autoscaler, calls of \<open>unregister_many\<close>, the termination
  worker and the shutdown. One event is one critical section together with what its task does up to the
  next await; what the backend answers, the clock and the scheduling are in the event. An event that
  is not enabled changes nothing. \<open>fl_cells\<close> are the cells the backend runs; a start that is
  cancelled while the backend provisions is taken to leave no cell. A caller that awaits the worker's answer
  may go on at any time here, which only adds behaviours.
\<close>

section \<open>State\<close>

record end_context =
  ec_deployment :: string
  ec_requests :: nat
  ec_outcome :: string

record pending_termination =
  pe_execution :: "end_context option"
  pe_in_progress :: bool

datatype start_kind = Demand | Keep_Warm

datatype start_phase = Ph_Waiting | Ph_Provisioning | Ph_Starting cell nat | Ph_Published cell

record cold_start =
  cs_key :: string
  cs_kind :: start_kind
  cs_phase :: start_phase

record drain_task =
  dr_key :: string
  dr_cell :: cell
  dr_requests :: nat
  dr_enqueued :: bool

text \<open>\<open>termination_loop\<close>: waiting in \<open>notified().await\<close>, between two entries, in \<open>backend.terminate\<close>, returned.\<close>

datatype worker_state = Worker_Waiting | Worker_Looping | Worker_Busy cell | Worker_Returned

datatype shutdown_state = Running | Closing | Complete

record fluid =
  fl_config :: fluid_config
  fl_capacity :: nat
  fl_permits :: nat
  fl_registry :: registry
  fl_terminating :: "(cell, pending_termination) table"
  fl_worker :: worker_state
  fl_notified :: bool
  fl_term_closing :: bool
  fl_shutdown :: shutdown_state
  fl_barrier :: "nat option"
  fl_result :: "(nat + nat) option"
  fl_next :: nat
  fl_starts :: "(nat, cold_start) table"
  fl_leases :: "(string \<times> cell) list"
  fl_drains :: "drain_task list"
  fl_unregs :: "(nat, (cell \<times> end_context) list) table"
  fl_cells :: "cell list"
  fl_started :: "(string \<times> cell) list"
  fl_ended :: "(cell \<times> end_context) list"

definition max_concurrent_cold_starts :: "string option \<Rightarrow> nat option \<Rightarrow> nat" where
  "max_concurrent_cold_starts env cores =
     (case (case env of None \<Rightarrow> None | Some v \<Rightarrow> parse_u64 (trim v)) of
        Some n \<Rightarrow> if n > 0 then n else min (max ((case cores of None \<Rightarrow> 4 | Some c \<Rightarrow> c) div 2) 4) 32
      | None \<Rightarrow> min (max ((case cores of None \<Rightarrow> 4 | Some c \<Rightarrow> c) div 2) 4) 32)"

definition fluid_new :: "fluid_config \<Rightarrow> nat \<Rightarrow> fluid" where
  "fluid_new cfg capacity =
     \<lparr>fl_config = cfg, fl_capacity = capacity, fl_permits = capacity, fl_registry = [], fl_terminating = [],
      fl_worker = Worker_Waiting, fl_notified = False, fl_term_closing = False, fl_shutdown = Running, fl_barrier = None, fl_result = None, fl_next = 0,
      fl_starts = [], fl_leases = [], fl_drains = [], fl_unregs = [], fl_cells = [], fl_started = [], fl_ended = []\<rparr>"

definition deployment_of :: "string \<Rightarrow> string" where
  "deployment_of key = takeWhile (\<lambda>c. c \<noteq> CHR ''/'') key"

definition end_of :: "string \<Rightarrow> nat \<Rightarrow> string \<Rightarrow> end_context" where
  "end_of key requests outcome = \<lparr>ec_deployment = deployment_of key, ec_requests = requests, ec_outcome = outcome\<rparr>"

section \<open>Terminations\<close>

definition enqueue_termination :: "cell \<Rightarrow> end_context option \<Rightarrow> fluid \<Rightarrow> fluid" where
  "enqueue_termination c ctx s =
     s\<lparr>fl_notified := True,
       fl_terminating :=
         (case tget (fl_terminating s) c of
            Some e \<Rightarrow> tput c (if pe_execution e = None then e\<lparr>pe_execution := ctx\<rparr> else e) (fl_terminating s)
          | None \<Rightarrow> tput c \<lparr>pe_execution = ctx, pe_in_progress = False\<rparr> (fl_terminating s))\<rparr>"

text \<open>The worker takes the smallest identifier that is not in progress; when there is none it waits again. While it
  waits, it starts with the stored notification, and returns when the shutdown has begun to close it.\<close>

definition worker_take :: "fluid \<Rightarrow> fluid" where
  "worker_take s =
     (case min_by_key fst (filter (\<lambda>(c, e). \<not> pe_in_progress e) (fl_terminating s)) of
        None \<Rightarrow> s\<lparr>fl_worker := Worker_Waiting\<rparr>
      | Some (c, e) \<Rightarrow> s\<lparr>fl_worker := Worker_Busy c, fl_terminating := tput c (e\<lparr>pe_in_progress := True\<rparr>) (fl_terminating s)\<rparr>)"

definition term_pick :: "fluid \<Rightarrow> fluid" where
  "term_pick s =
     (case fl_worker s of
        Worker_Waiting \<Rightarrow>
          if \<not> fl_notified s then s
          else if fl_term_closing s then s\<lparr>fl_notified := False, fl_worker := Worker_Returned\<rparr>
          else worker_take (s\<lparr>fl_notified := False\<rparr>)
      | Worker_Looping \<Rightarrow> worker_take s
      | _ \<Rightarrow> s)"

text \<open>The answer of the backend. After a failure the worker leaves its loop and waits for the next notification, with the entry still
  in the queue.\<close>

definition term_done :: "bool \<Rightarrow> fluid \<Rightarrow> fluid" where
  "term_done ok s =
     (case fl_worker s of
        Worker_Busy c \<Rightarrow>
          if ok
          then s\<lparr>fl_worker := (if fl_term_closing s then Worker_Returned else Worker_Looping), fl_cells := removeAll c (fl_cells s), fl_terminating := tdel c (fl_terminating s),
                 fl_ended := fl_ended s @
                   (case tget (fl_terminating s) c of
                      None \<Rightarrow> []
                    | Some e \<Rightarrow> (case pe_execution e of None \<Rightarrow> [] | Some ctx \<Rightarrow> [(c, ctx)]))\<rparr>
          else s\<lparr>fl_worker := Worker_Waiting, fl_terminating := tmod c (\<lambda>e. e\<lparr>pe_in_progress := False\<rparr>) (fl_terminating s)\<rparr>
      | _ \<Rightarrow> s)"

section \<open>Registration\<close>

definition specs_ok :: "pool_spec list \<Rightarrow> bool" where
  "specs_ok specs \<longleftrightarrow> list_all (\<lambda>sp. ps_key sp \<noteq> []) specs \<and> distinct (map ps_key specs)"

text \<open>A pool that is replaced leaves its instances, draining, to the new one.\<close>

definition orphans :: "registry \<Rightarrow> string \<Rightarrow> fn_instance list" where
  "orphans reg key =
     (case tget reg key of None \<Rightarrow> [] | Some p \<Rightarrow> map (\<lambda>i. i\<lparr>in_draining := True\<rparr>) (fp_instances p))"

definition register_many :: "pool_spec list \<Rightarrow> fluid \<Rightarrow> fluid" where
  "register_many specs s =
     (if fl_shutdown s \<noteq> Running \<or> \<not> specs_ok specs then s
      else s\<lparr>fl_registry :=
        fold (\<lambda>sp reg. tput (ps_key sp) ((pool_from_spec sp)\<lparr>fp_instances := orphans (fl_registry s) (ps_key sp)\<rparr>) reg)
          specs (fl_registry s)\<rparr>)"

definition removed_cells :: "registry \<Rightarrow> string list \<Rightarrow> (cell \<times> end_context) list" where
  "removed_cells reg keys =
     concat (map (\<lambda>k. case tget reg k of
                       None \<Rightarrow> []
                     | Some p \<Rightarrow> map (\<lambda>i. (in_cell i, end_of k (in_requests_served i) ''killed'')) (fp_instances p)) keys)"

text \<open>The loop of \<open>unregister_many\<close>: the next cell is handed to the worker, then its answer is awaited.\<close>

definition unreg_next :: "nat \<Rightarrow> fluid \<Rightarrow> fluid" where
  "unreg_next u s =
     (case tget (fl_unregs s) u of
        None \<Rightarrow> s
      | Some [] \<Rightarrow> s\<lparr>fl_unregs := tdel u (fl_unregs s)\<rparr>
      | Some ((c, ctx) # rest) \<Rightarrow> enqueue_termination c (Some ctx) (s\<lparr>fl_unregs := tput u rest (fl_unregs s)\<rparr>))"

definition unregister_many :: "string list \<Rightarrow> fluid \<Rightarrow> fluid" where
  "unregister_many keys s =
     (let unique = remdups_adj (sort keys); u = fl_next s
      in unreg_next u (s\<lparr>fl_next := u + 1, fl_registry := fold tdel unique (fl_registry s),
           fl_unregs := tput u (removed_cells (fl_registry s) unique) (fl_unregs s)\<rparr>))"

section \<open>Cold starts\<close>

definition new_start :: "start_kind \<Rightarrow> string \<Rightarrow> fluid \<Rightarrow> fluid" where
  "new_start kind key s =
     s\<lparr>fl_next := fl_next s + 1,
       fl_starts := tput (fl_next s) \<lparr>cs_key = key, cs_kind = kind, cs_phase = Ph_Waiting\<rparr> (fl_starts s)\<rparr>"

definition set_phase :: "nat \<Rightarrow> start_phase \<Rightarrow> fluid \<Rightarrow> fluid" where
  "set_phase i ph s = s\<lparr>fl_starts := tmod i (\<lambda>t. t\<lparr>cs_phase := ph\<rparr>) (fl_starts s)\<rparr>"

text \<open>The start ends without an instance, by an error or because its future is dropped: an unpublished
  cell is scheduled for termination, the permit goes back, the guard releases the reservation.\<close>

definition fail_start :: "nat \<Rightarrow> string option \<Rightarrow> nat \<Rightarrow> fluid \<Rightarrow> fluid" where
  "fail_start i error now s =
     (case tget (fl_starts s) i of
        None \<Rightarrow> s
      | Some t \<Rightarrow>
          (let s1 = s\<lparr>fl_starts := tdel i (fl_starts s),
                      fl_registry := tmod (cs_key t) (cold_start_failed error now) (fl_registry s)\<rparr>
           in (case cs_phase t of
                 Ph_Waiting \<Rightarrow> s1
               | Ph_Provisioning \<Rightarrow> s1\<lparr>fl_permits := fl_permits s1 + 1\<rparr>
               | Ph_Starting c _ \<Rightarrow> enqueue_termination c None (s1\<lparr>fl_permits := fl_permits s1 + 1\<rparr>)
               | Ph_Published _ \<Rightarrow> s)))"

definition admit_start :: "nat \<Rightarrow> nat \<Rightarrow> fluid \<Rightarrow> fluid" where
  "admit_start i now s =
     (case tget (fl_starts s) i of
        None \<Rightarrow> s
      | Some t \<Rightarrow>
          if cs_phase t \<noteq> Ph_Waiting then s
          else if fl_shutdown s \<noteq> Running then fail_start i (Some ''Fluid shutdown began'') now s
          else if fl_permits s = 0 then s
          else if tget (fl_registry s) (cs_key t) = None then fail_start i (Some ''no such function'') now s
          else set_phase i Ph_Provisioning (s\<lparr>fl_permits := fl_permits s - 1\<rparr>))"

definition cell_provisioned :: "nat \<Rightarrow> nat \<Rightarrow> fluid \<Rightarrow> fluid" where
  "cell_provisioned i provision_ms s =
     (case tget (fl_starts s) i of
        None \<Rightarrow> s
      | Some t \<Rightarrow>
          if cs_phase t \<noteq> Ph_Provisioning then s
          else set_phase i (Ph_Starting (fl_next s) provision_ms)
                 (s\<lparr>fl_next := fl_next s + 1, fl_cells := fl_next s # fl_cells s\<rparr>))"

definition publish_start ::
  "nat \<Rightarrow> (nat \<times> nat) list \<Rightarrow> (nat \<times> nat) list \<Rightarrow> nat \<Rightarrow> nat \<Rightarrow> fluid \<Rightarrow> fluid" where
  "publish_start i udp tcp init_ms now s =
     (case tget (fl_starts s) i of
        None \<Rightarrow> s
      | Some t \<Rightarrow>
          (case cs_phase t of
             Ph_Starting c pm \<Rightarrow>
               if tget (fl_registry s) (cs_key t) = None
               then fail_start i (Some ''unregistered during cold start'') now s
               else set_phase i (Ph_Published c)
                      (s\<lparr>fl_registry := tmod (cs_key t) (publish_instance c udp tcp pm init_ms now) (fl_registry s),
                         fl_permits := fl_permits s + 1, fl_started := fl_started s @ [(deployment_of (cs_key t), c)]\<rparr>)
           | _ \<Rightarrow> s))"

definition finish_start :: "nat \<Rightarrow> nat \<Rightarrow> fluid \<Rightarrow> fluid" where
  "finish_start i now s =
     (case tget (fl_starts s) i of
        None \<Rightarrow> s
      | Some t \<Rightarrow>
          (case cs_phase t of
             Ph_Published c \<Rightarrow>
               (let s1 = s\<lparr>fl_starts := tdel i (fl_starts s)\<rparr>
                in (case cs_kind t of
                      Demand \<Rightarrow> s1\<lparr>fl_registry := tmod (cs_key t) close_circuit (fl_registry s1),
                                   fl_leases := (cs_key t, c) # fl_leases s1\<rparr>
                    | Keep_Warm \<Rightarrow> s1\<lparr>fl_registry := tmod (cs_key t) (warm_started c now) (fl_registry s1)\<rparr>))
           | _ \<Rightarrow> s))"

section \<open>Requests\<close>

text \<open>A turn of the loop of \<open>lease\<close>; the circuit is consulted on the first turn.\<close>

definition lease_request :: "string \<Rightarrow> bool \<Rightarrow> bool \<Rightarrow> nat \<Rightarrow> fluid \<Rightarrow> fluid" where
  "lease_request key is_first coalesce now s =
     (if fl_shutdown s \<noteq> Running \<or>
         is_first \<and> (case tget (fl_registry s) key of None \<Rightarrow> False | Some p \<Rightarrow> lease_gate now p \<noteq> None)
      then s
      else (let (d, reg) = decide_lease (fl_config s) key coalesce now (fl_registry s); s1 = s\<lparr>fl_registry := reg\<rparr>
            in (case d of
                  Ld_Ready c \<Rightarrow> s1\<lparr>fl_leases := (key, c) # fl_leases s1\<rparr>
                | Ld_Cold_Start \<Rightarrow> new_start Demand key s1
                | _ \<Rightarrow> s1)))"

definition drop_lease :: "string \<Rightarrow> cell \<Rightarrow> nat \<Rightarrow> nat \<Rightarrow> fluid \<Rightarrow> fluid" where
  "drop_lease key c active_ms now s =
     (if (key, c) \<in> set (fl_leases s)
      then s\<lparr>fl_leases := remove1 (key, c) (fl_leases s), fl_registry := tmod key (release_lease c active_ms now) (fl_registry s)\<rparr>
      else s)"

definition without_first :: "cell \<Rightarrow> fn_instance list \<Rightarrow> fn_instance list" where
  "without_first c is = takeWhile (\<lambda>i. in_cell i \<noteq> c) is @ drop 1 (dropWhile (\<lambda>i. in_cell i \<noteq> c) is)"

definition mark_dead :: "string \<Rightarrow> cell \<Rightarrow> nat \<Rightarrow> fluid \<Rightarrow> fluid" where
  "mark_dead key c now s =
     (case tget (fl_registry s) key of
        None \<Rightarrow> s
      | Some p \<Rightarrow>
          (case find_instance c p of
             None \<Rightarrow> s
           | Some i \<Rightarrow>
               enqueue_termination c (Some (end_of key (in_requests_served i) ''crashed''))
                 (s\<lparr>fl_registry := tput key (p\<lparr>fp_instances := without_first c (fp_instances p),
                      fp_dead_reaped := fp_dead_reaped p + 1,
                      fp_instance_ms_retired := fp_instance_ms_retired p + (now - in_started_at_ms i)\<rparr>) (fl_registry s)\<rparr>)))"

text \<open>The health loop probes the idle instances and marks those dead that do not answer.\<close>

definition health_candidates :: "registry \<Rightarrow> (string \<times> cell) list" where
  "health_candidates reg =
     concat (map (\<lambda>(k, p). map (\<lambda>i. (k, in_cell i)) (filter (\<lambda>i. in_inflight i = 0) (active_instances p))) reg)"

section \<open>The autoscaler\<close>

text \<open>\<open>reconcile\<close> awaits its starts and drains before the next tick.\<close>

definition autoscale :: "nat \<Rightarrow> fluid \<Rightarrow> fluid" where
  "autoscale now s =
     (if fl_shutdown s \<noteq> Running \<or> fl_drains s \<noteq> [] \<or> list_ex (\<lambda>(i, t). cs_kind t = Keep_Warm) (fl_starts s) then s
      else (let (ws, ds, reg) = reconcile (fl_config s) now (fl_registry s)
            in fold (new_start Keep_Warm) ws
                 (s\<lparr>fl_registry := reg,
                    fl_drains := map (\<lambda>(k, c, r). \<lparr>dr_key = k, dr_cell = c, dr_requests = r, dr_enqueued = False\<rparr>) ds\<rparr>)))"

definition drain_enqueue :: "nat \<Rightarrow> fluid \<Rightarrow> fluid" where
  "drain_enqueue j s =
     (if j < length (fl_drains s) \<and> \<not> dr_enqueued (fl_drains s ! j)
      then (let d = fl_drains s ! j
            in enqueue_termination (dr_cell d) (Some (end_of (dr_key d) (dr_requests d) ''drained''))
                 (s\<lparr>fl_drains := (fl_drains s)[j := d\<lparr>dr_enqueued := True\<rparr>]\<rparr>))
      else s)"

definition forget_cell :: "cell \<Rightarrow> function_pool \<Rightarrow> function_pool" where
  "forget_cell c p = p\<lparr>fp_instances := filter (\<lambda>i. in_cell i \<noteq> c) (fp_instances p)\<rparr>"

definition drain_finish :: "nat \<Rightarrow> fluid \<Rightarrow> fluid" where
  "drain_finish j s =
     (if j < length (fl_drains s) \<and> dr_enqueued (fl_drains s ! j)
      then (let d = fl_drains s ! j
            in s\<lparr>fl_drains := take j (fl_drains s) @ drop (Suc j) (fl_drains s),
                 fl_registry := tmod (dr_key d) (forget_cell (dr_cell d)) (fl_registry s)\<rparr>)
      else s)"

section \<open>Shutdown\<close>

text \<open>The background tasks are aborted: the starts of keep-warm are dropped, the drains forgotten.\<close>

definition warm_ids :: "fluid \<Rightarrow> nat list" where
  "warm_ids s = map fst (filter (\<lambda>(i, t). cs_kind t = Keep_Warm) (fl_starts s))"

definition begin_shutdown :: "nat \<Rightarrow> fluid \<Rightarrow> fluid" where
  "begin_shutdown now s =
     (if fl_shutdown s \<noteq> Running then s
      else fold (\<lambda>i. fail_start i None now) (warm_ids s) (s\<lparr>fl_shutdown := Closing, fl_drains := []\<rparr>))"

definition registry_cells :: "registry \<Rightarrow> cell list" where
  "registry_cells reg = concat (map (\<lambda>(k, p). map in_cell (fp_instances p)) reg)"

text \<open>With all permits in hand no cold start is under way: the registry is moved to the terminations.\<close>

definition own_cell :: "cell \<Rightarrow> (cell, pending_termination) table \<Rightarrow> (cell, pending_termination) table" where
  "own_cell c m = (if tget m c = None then tput c \<lparr>pe_execution = None, pe_in_progress = False\<rparr> m else m)"

definition shutdown_barrier :: "fluid \<Rightarrow> fluid" where
  "shutdown_barrier s =
     (if fl_shutdown s = Closing \<and> fl_barrier s = None \<and> fl_permits s = fl_capacity s
      then (let m = fold own_cell (registry_cells (fl_registry s)) (fl_terminating s)
            in s\<lparr>fl_permits := 0, fl_registry := [], fl_terminating := m, fl_barrier := Some (length m)\<rparr>)
      else s)"

text \<open>\<open>notify_waiters\<close> wakes the worker only if it waits at this moment; the final drain begins when it has returned.\<close>

definition stop_worker :: "fluid \<Rightarrow> fluid" where
  "stop_worker s =
     (if fl_barrier s \<noteq> None
      then s\<lparr>fl_term_closing := True, fl_worker := (if fl_worker s = Worker_Waiting then Worker_Returned else fl_worker s)\<rparr>
      else s)"

definition draining_down :: "fluid \<Rightarrow> bool" where
  "draining_down s \<longleftrightarrow> fl_shutdown s = Closing \<and> fl_barrier s \<noteq> None \<and> fl_term_closing s \<and> fl_worker s = Worker_Returned"

definition final_terminate :: "cell \<Rightarrow> bool \<Rightarrow> fluid \<Rightarrow> fluid" where
  "final_terminate c ok s =
     (if draining_down s \<and> ok \<and> tget (fl_terminating s) c \<noteq> None
      then s\<lparr>fl_cells := removeAll c (fl_cells s), fl_terminating := tdel c (fl_terminating s)\<rparr>
      else s)"

text \<open>The result: the number of cells owned, or of those that could not be terminated. \<open>shutdown_timeout\<close> is any of the
  deadlines.\<close>

definition shutdown_done :: "fluid \<Rightarrow> fluid" where
  "shutdown_done s =
     (if draining_down s
      then s\<lparr>fl_shutdown := Complete, fl_permits := fl_capacity s,
             fl_result := Some (case fl_barrier s of
               Some owned \<Rightarrow> if fl_terminating s = [] then Inr owned else Inl (length (fl_terminating s))
             | None \<Rightarrow> Inl 0)\<rparr>
      else s)"

definition shutdown_timeout :: "fluid \<Rightarrow> fluid" where
  "shutdown_timeout s =
     (if fl_shutdown s = Closing
      then s\<lparr>fl_shutdown := Complete, fl_term_closing := True, fl_result := Some (Inl (length (fl_terminating s))),
             fl_permits := (if fl_barrier s = None then fl_permits s else fl_capacity s)\<rparr>
      else s)"

section \<open>Runs\<close>

datatype fluid_event =
    Fe_Register "pool_spec list"
  | Fe_Set_Safe string "nat option"
  | Fe_Update_Config string fn_config
  | Fe_Set_Min string nat
  | Fe_Request string bool bool nat
  | Fe_Dedupe string
  | Fe_Admit nat nat
  | Fe_Provisioned nat nat
  | Fe_Publish nat "(nat \<times> nat) list" "(nat \<times> nat) list" nat nat
  | Fe_Finish nat nat
  | Fe_Fail nat "string option" nat
  | Fe_Release string cell nat nat
  | Fe_Browser string nat
  | Fe_Mark_Dead string cell nat
  | Fe_Unregister "string list"
  | Fe_Unreg_Next nat
  | Fe_Unreg_Cancel nat
  | Fe_Autoscale nat
  | Fe_Drain_Enqueue nat
  | Fe_Drain_Finish nat
  | Fe_Adapt string "rat option list" nat nat
  | Fe_Term_Pick
  | Fe_Term_Done bool
  | Fe_Shutdown nat
  | Fe_Barrier
  | Fe_Stop_Worker
  | Fe_Final cell bool
  | Fe_Shutdown_Done
  | Fe_Shutdown_Timeout

definition on_pool :: "string \<Rightarrow> (function_pool \<Rightarrow> function_pool) \<Rightarrow> fluid \<Rightarrow> fluid" where
  "on_pool key f s = s\<lparr>fl_registry := tmod key f (fl_registry s)\<rparr>"

fun fluid_step :: "fluid_event \<Rightarrow> fluid \<Rightarrow> fluid" where
  "fluid_step (Fe_Register specs) s = register_many specs s"
| "fluid_step (Fe_Set_Safe key n) s =
     on_pool key (\<lambda>p. case set_safe_concurrency n p of None \<Rightarrow> p | Some p' \<Rightarrow> p') s"
| "fluid_step (Fe_Update_Config key cfg) s = on_pool key (update_config cfg) s"
| "fluid_step (Fe_Set_Min key n) s = on_pool key (set_min_instances n) s"
| "fluid_step (Fe_Request key is_first coalesce now) s = lease_request key is_first coalesce now s"
| "fluid_step (Fe_Dedupe key) s = on_pool key (\<lambda>p. p\<lparr>fp_coldstart_deduped := fp_coldstart_deduped p + 1\<rparr>) s"
| "fluid_step (Fe_Admit i now) s = admit_start i now s"
| "fluid_step (Fe_Provisioned i ms) s = cell_provisioned i ms s"
| "fluid_step (Fe_Publish i udp tcp ms now) s = publish_start i udp tcp ms now s"
| "fluid_step (Fe_Finish i now) s = finish_start i now s"
| "fluid_step (Fe_Fail i error now) s = fail_start i error now s"
| "fluid_step (Fe_Release key c active_ms now) s = drop_lease key c active_ms now s"
| "fluid_step (Fe_Browser key ms) s = on_pool key (record_browser_request ms) s"
| "fluid_step (Fe_Mark_Dead key c now) s = mark_dead key c now s"
| "fluid_step (Fe_Unregister keys) s = unregister_many keys s"
| "fluid_step (Fe_Unreg_Next u) s = unreg_next u s"
| "fluid_step (Fe_Unreg_Cancel u) s = s\<lparr>fl_unregs := tdel u (fl_unregs s)\<rparr>"
| "fluid_step (Fe_Autoscale now) s = autoscale now s"
| "fluid_step (Fe_Drain_Enqueue j) s = drain_enqueue j s"
| "fluid_step (Fe_Drain_Finish j) s = drain_finish j s"
| "fluid_step (Fe_Adapt key samples cur mx) s = on_pool key (adapt_apply samples cur mx) s"
| "fluid_step Fe_Term_Pick s = term_pick s"
| "fluid_step (Fe_Term_Done ok) s = term_done ok s"
| "fluid_step (Fe_Shutdown now) s = begin_shutdown now s"
| "fluid_step Fe_Barrier s = shutdown_barrier s"
| "fluid_step Fe_Stop_Worker s = stop_worker s"
| "fluid_step (Fe_Final c ok) s = final_terminate c ok s"
| "fluid_step Fe_Shutdown_Done s = shutdown_done s"
| "fluid_step Fe_Shutdown_Timeout s = shutdown_timeout s"

definition fluid_run :: "fluid_config \<Rightarrow> nat \<Rightarrow> fluid_event list \<Rightarrow> fluid" where
  "fluid_run cfg capacity evs = fold fluid_step evs (fluid_new cfg capacity)"

end
