(* ===== verification/Fluid_Inv.thy ===== *)
theory Fluid_Inv
  imports Fluid_Life
begin

text \<open>
  Invariants of every run of the Fluid runtime: identifiers are fresh, every cell the backend runs is
  known to somebody who will terminate it, reservations never outlive the cold starts that made
  them, and permits are never lost.
\<close>

section \<open>Runs\<close>

lemma fluid_run_Nil [simp]: "fluid_run cfg cap [] = fluid_new cfg cap"
  by (simp add: fluid_run_def)

lemma fluid_run_snoc [simp]: "fluid_run cfg cap (evs @ [e]) = fluid_step e (fluid_run cfg cap evs)"
  by (simp add: fluid_run_def)

lemma fluid_run_invariant:
  assumes "P (fluid_new cfg cap)" and "\<And>e s. ok e \<Longrightarrow> P s \<Longrightarrow> P (fluid_step e s)" and "list_all ok evs"
  shows "P (fluid_run cfg cap evs)"
  using assms(3)
proof (induction evs rule: rev_induct)
  case Nil
  then show ?case using assms(1) by simp
next
  case (snoc e evs)
  then show ?case using assms(2) by simp
qed

section \<open>Sums over tables\<close>

lemma tsum_tput:
  "distinct (tkeys m) \<Longrightarrow> tget m k = Some v \<Longrightarrow> tsum f (tput k w m) + f k v = tsum f m + f k w"
  by (induction m) auto

lemma tsum_tmod:
  "distinct (tkeys m) \<Longrightarrow> tget m k = Some v \<Longrightarrow> tsum f (tmod k g m) + f k v = tsum f m + f k (g v)"
proof (induction m)
  case (Cons x m)
  show ?case
  proof (cases "fst x = k")
    case True
    then have "k \<notin> set (tkeys m)" using Cons.prems by auto
    then have "tmod k g m = m" by (rule tmod_absent)
    then show ?thesis using True Cons.prems by (simp add: tmod_def case_prod_unfold)
  next
    case False
    then have "tget m k = Some v" using Cons.prems by (auto split: if_splits)
    then show ?thesis using False Cons by (simp add: tmod_def case_prod_unfold)
  qed
qed simp


text \<open>How many entries satisfy a condition.\<close>

definition tcount :: "('v \<Rightarrow> bool) \<Rightarrow> ('k, 'v) table \<Rightarrow> nat" where
  "tcount P m = tsum (\<lambda>k v. if P v then 1 else 0) m"

lemma tcount_Nil [simp]: "tcount P [] = 0"
  by (simp add: tcount_def)

lemma tcount_tdel: "distinct (tkeys m) \<Longrightarrow> tget m k = Some v \<Longrightarrow> tcount P m = (if P v then 1 else 0) + tcount P (tdel k m)"
  unfolding tcount_def by (rule tsum_tdel)

lemma tcount_tmod: "distinct (tkeys m) \<Longrightarrow> tget m k = Some v \<Longrightarrow>
    tcount P (tmod k g m) + (if P v then 1 else 0) = tcount P m + (if P (g v) then 1 else 0)"
  unfolding tcount_def by (rule tsum_tmod)

lemma tcount_new: "k \<notin> set (tkeys m) \<Longrightarrow> tcount P (tput k v m) = tcount P m + (if P v then 1 else 0)"
  unfolding tcount_def by (rule tsum_tput_new)

lemma tcount_pos: "tget m k = Some v \<Longrightarrow> P v \<Longrightarrow> 0 < tcount P m"
  unfolding tcount_def using tsum_le [of m k v "\<lambda>k v. if P v then 1 else 0"] by simp

section \<open>Cells of a registry\<close>

definition cells_at :: "registry \<Rightarrow> string \<Rightarrow> cell list" where
  "cells_at reg k = (case tget reg k of None \<Rightarrow> [] | Some p \<Rightarrow> map in_cell (fp_instances p))"

definition has_cell :: "registry \<Rightarrow> cell \<Rightarrow> bool" where
  "has_cell reg c \<longleftrightarrow> (\<exists>k. c \<in> set (cells_at reg k))"

abbreviation cells :: "function_pool \<Rightarrow> cell list" where
  "cells p \<equiv> map in_cell (fp_instances p)"

named_theorems same_cells \<open>operations on a pool that keep its cells\<close>

lemma cells_upd_first [same_cells]: "(\<And>i. in_cell (f i) = in_cell i) \<Longrightarrow> map in_cell (upd_first q f is) = map in_cell is"
  by (rule map_upd_first)

lemma cells_release [same_cells]: "cells (release_lease c ms now p) = cells p"
  by (simp add: release_lease_def cells_upd_first)

lemma cells_cold_failed [same_cells]: "cells (cold_start_failed err now p) = cells p"
  by (simp add: cold_start_failed_def Let_def split: option.splits)

lemma cells_close [same_cells]: "cells (close_circuit p) = cells p"
  by (simp add: close_circuit_def)

lemma cells_warm [same_cells]: "cells (warm_started c now p) = cells p"
  by (simp add: warm_started_def cells_upd_first)

lemma cells_adapt [same_cells]: "cells (adapt_apply samples cur mx p) = cells p"
  by (simp add: adapt_apply_def Let_def split: option.splits)

lemma cells_set_safe [same_cells]: "set_safe_concurrency n p = Some p' \<Longrightarrow> cells p' = cells p"
  by (auto simp: set_safe_concurrency_def split: option.splits if_splits)

lemma cells_update [same_cells]: "cells (update_config cfg p) = cells p" "cells (set_min_instances n p) = cells p"
  "cells (record_browser_request ms p) = cells p" "cells (bump_nack r p) = cells p" "cells (reserve_start p) = cells p"
  by (simp_all add: update_config_def set_min_instances_def record_browser_request_def bump_nack_def reserve_start_def
      split: nack_reason.splits)

lemma cells_take_slot [same_cells]: "take_slot mc now is = Some (c, is') \<Longrightarrow> map in_cell is' = map in_cell is"
  by (auto simp: take_slot_def cells_upd_first split: option.splits)

lemma cells_publish: "cells (publish_instance c udp tcp pm im now p) = cells p @ [c]"
  by (simp add: publish_instance_def)

lemma cells_at_tmod: "(\<And>p. cells (f p) = cells p) \<Longrightarrow> cells_at (tmod key f reg) k = cells_at reg k"
  by (simp add: cells_at_def split: option.splits)

lemma cells_at_tput_same: "tget reg key = Some p \<Longrightarrow> cells p' = cells p \<Longrightarrow> cells_at (tput key p' reg) k = cells_at reg k"
  by (simp add: cells_at_def split: option.splits)

text \<open>The autoscaler only sets draining marks, and what it hands out is idle and marked.\<close>

definition drained_like :: "fn_instance \<Rightarrow> fn_instance \<Rightarrow> bool" where
  "drained_like i j \<longleftrightarrow> j = i \<or> j = i\<lparr>in_draining := True\<rparr>"

definition idle_in :: "fn_instance list \<Rightarrow> cell \<Rightarrow> bool" where
  "idle_in js c \<longleftrightarrow> (\<exists>j \<in> set js. in_cell j = c \<and> in_draining j \<and> in_inflight j = 0)"

lemma idle_in_Cons [simp]: "idle_in (j # js) c \<longleftrightarrow> in_cell j = c \<and> in_draining j \<and> in_inflight j = 0 \<or> idle_in js c"
  by (auto simp: idle_in_def)

lemma idle_in_cell: "idle_in js c \<Longrightarrow> c \<in> set (map in_cell js)"
  by (auto simp: idle_in_def)

lemma scale_down_spec: "scale_down R now ttl mi live is = (js, ds, ret, rec) \<Longrightarrow>
    list_all2 drained_like is js \<and>
    (\<forall>x \<in> set ds. idle_in js (fst x))"
proof (induction "is" arbitrary: live js ds ret rec)
  case (Cons i "is")
  obtain j1 d1 t1 r1 where a: "scale_down R now ttl mi live is = (j1, d1, t1, r1)" using prod_cases4 by blast
  obtain j2 d2 t2 r2 where b: "scale_down R now ttl mi (live - 1) is = (j2, d2, t2, r2)" using prod_cases4 by blast
  show ?case using Cons.prems Cons.IH [OF a] Cons.IH [OF b]
    by (auto simp: a b [simplified] drained_like_def Let_def split: if_splits; fastforce)
qed simp

lemma drained_like_cells: "list_all2 drained_like is js \<Longrightarrow> map in_cell js = map in_cell is"
  by (induction rule: list_all2_induct) (auto simp: drained_like_def)

lemma reconcile_pool_spec:
  assumes "reconcile_pool cfg now p = (n, ds, p')"
  shows "list_all2 drained_like (fp_instances p) (fp_instances p')" "fp_provisioning p' = fp_provisioning p + n"
    "\<forall>x \<in> set ds. idle_in (fp_instances p') (fst x)"
    "fp_cfg p' = fp_cfg p" "n = warm_deficit now (crash_check now p)" "fp_tenant p' = fp_tenant p"
proof -
  let ?p = "crash_check now p"
  obtain js d t r where sc: "scale_down (recycle_policy cfg) now (wmul64 (fc_idle_ttl_secs (fp_cfg ?p)) 1000)
    (fc_min_instances (fp_cfg ?p)) (length (active_instances ?p)) (fp_instances ?p) = (js, d, t, r)" using prod_cases4 by blast
  have c: "fp_instances ?p = fp_instances p" "fp_provisioning ?p = fp_provisioning p" "fp_cfg ?p = fp_cfg p" "fp_tenant ?p = fp_tenant p"
    by (simp_all add: crash_check_def Let_def)
  have e: "n = warm_deficit now ?p" "ds = d" "fp_instances p' = js" "fp_provisioning p' = fp_provisioning ?p + n" "fp_cfg p' = fp_cfg ?p"
    "fp_tenant p' = fp_tenant ?p"
    using assms by (auto simp: reconcile_pool_def Let_def sc)
  show "list_all2 drained_like (fp_instances p) (fp_instances p')" "fp_provisioning p' = fp_provisioning p + n"
    "\<forall>x \<in> set ds. idle_in (fp_instances p') (fst x)"
    "fp_cfg p' = fp_cfg p" "n = warm_deficit now ?p" "fp_tenant p' = fp_tenant p"
    using scale_down_spec [OF sc] by (auto simp: e c)
qed

text \<open>The registry after \<open>reconcile\<close>, pool by pool.\<close>

lemma reconcile_at:
  "reconcile cfg now reg = (ws, ds, reg') \<Longrightarrow>
     tkeys reg' = tkeys reg \<and>
     tget reg' k = map_option (\<lambda>p. snd (snd (reconcile_pool cfg now p))) (tget reg k)"
  by (induction reg arbitrary: ws ds reg') (auto split: prod.splits)

lemma reconcile_drains:
  "reconcile cfg now reg = (ws, ds, reg') \<Longrightarrow> (k, c, r) \<in> set ds \<Longrightarrow>
     \<exists>p. (k, p) \<in> set reg \<and> (c, r) \<in> set (fst (snd (reconcile_pool cfg now p)))"
  by (induction reg arbitrary: ws ds reg') (fastforce split: prod.splits)+

lemma reconcile_cells_at: "reconcile cfg now reg = (ws, ds, reg') \<Longrightarrow> cells_at reg' k = cells_at reg k"
proof -
  assume a: "reconcile cfg now reg = (ws, ds, reg')"
  have "cells (snd (snd (reconcile_pool cfg now p))) = cells p" for p
    using reconcile_pool_spec(1) [of cfg now p] drained_like_cells by (metis prod.collapse)
  then show ?thesis using reconcile_at [OF a] by (auto simp: cells_at_def split: option.splits)
qed

section \<open>Identifiers\<close>

definition phase_cell :: "start_phase \<Rightarrow> cell option" where
  "phase_cell ph = (case ph of Ph_Starting c _ \<Rightarrow> Some c | Ph_Published c \<Rightarrow> Some c | _ \<Rightarrow> None)"

lemma phase_cell_simps [simp]: "phase_cell Ph_Waiting = None" "phase_cell Ph_Provisioning = None"
  "phase_cell (Ph_Starting c ms) = Some c" "phase_cell (Ph_Published c) = Some c"
  by (simp_all add: phase_cell_def)

definition task_cell :: "(nat, cold_start) table \<Rightarrow> cell \<Rightarrow> bool" where
  "task_cell m c \<longleftrightarrow> (\<exists>i t. tget m i = Some t \<and> phase_cell (cs_phase t) = Some c)"

lemma task_cell_Nil [simp]: "\<not> task_cell [] c"
  by (simp add: task_cell_def)

lemma task_cell_tdel: "task_cell (tdel i m) c \<Longrightarrow> task_cell m c"
  by (auto simp: task_cell_def split: if_splits)

lemma task_cell_new: "task_cell (tput i t m) c \<Longrightarrow> task_cell m c \<or> phase_cell (cs_phase t) = Some c"
  by (auto simp: task_cell_def split: if_splits)

lemma task_cell_phase: "task_cell (tmod i (\<lambda>t. t\<lparr>cs_phase := ph\<rparr>) m) c \<Longrightarrow> task_cell m c \<or> phase_cell ph = Some c"
  by (auto simp: task_cell_def split: if_splits)

lemma task_cellI: "tget m i = Some t \<Longrightarrow> phase_cell (cs_phase t) = Some c \<Longrightarrow> task_cell m c"
  by (auto simp: task_cell_def)

definition known :: "fluid \<Rightarrow> cell \<Rightarrow> bool" where
  "known s c \<longleftrightarrow> has_cell (fl_registry s) c \<or> task_cell (fl_starts s) c \<or> c \<in> dr_cell ` set (fl_drains s) \<or>
     c \<in> snd ` set (fl_leases s) \<or> c \<in> set (fl_cells s)"

definition ids_inv :: "fluid \<Rightarrow> bool" where
  "ids_inv s \<longleftrightarrow> distinct (tkeys (fl_starts s)) \<and> distinct (tkeys (fl_registry s)) \<and>
     (\<forall>i \<in> set (tkeys (fl_starts s)). i < fl_next s) \<and> (\<forall>u \<in> set (tkeys (fl_unregs s)). u < fl_next s) \<and>
     (\<forall>c. known s c \<longrightarrow> c < fl_next s)"

text \<open>It is enough that an operation adds no key or cell but fresh ones.\<close>

lemma ids_invI:
  assumes "ids_inv s" and "fl_next s \<le> fl_next s'"
    and "distinct (tkeys (fl_starts s'))" and "distinct (tkeys (fl_registry s'))"
    and "\<And>i. i \<in> set (tkeys (fl_starts s')) \<Longrightarrow> i \<in> set (tkeys (fl_starts s)) \<or> fl_next s \<le> i \<and> i < fl_next s'"
    and "\<And>u. u \<in> set (tkeys (fl_unregs s')) \<Longrightarrow> u \<in> set (tkeys (fl_unregs s)) \<or> fl_next s \<le> u \<and> u < fl_next s'"
    and "\<And>c. known s' c \<Longrightarrow> known s c \<or> fl_next s \<le> c \<and> c < fl_next s'"
  shows "ids_inv s'"
  unfolding ids_inv_def
proof (intro conjI ballI allI impI)
  note a = assms(1) [unfolded ids_inv_def]
  show "i < fl_next s'" if "i \<in> set (tkeys (fl_starts s'))" for i
    using assms(5) [OF that] a assms(2) by fastforce
  show "u < fl_next s'" if "u \<in> set (tkeys (fl_unregs s'))" for u
    using assms(6) [OF that] a assms(2) by fastforce
  show "c < fl_next s'" if "known s' c" for c
    using assms(7) [OF that] a assms(2) by fastforce
qed (use assms in auto)

lemma ids_distinct: "ids_inv s \<Longrightarrow> distinct (tkeys (fl_starts s))" "ids_inv s \<Longrightarrow> distinct (tkeys (fl_registry s))"
  by (simp_all add: ids_inv_def)

lemma ids_fresh:
  "ids_inv s \<Longrightarrow> fl_next s \<notin> set (tkeys (fl_starts s))" "ids_inv s \<Longrightarrow> fl_next s \<notin> set (tkeys (fl_unregs s))"
  "ids_inv s \<Longrightarrow> known s c \<Longrightarrow> c \<noteq> fl_next s"
  by (auto simp: ids_inv_def)

lemma has_cell_eq: "(\<And>k. cells_at reg' k = cells_at reg k) \<Longrightarrow> has_cell reg' c = has_cell reg c"
  by (simp add: has_cell_def)

lemma has_cell_tmod: "(\<And>p. cells (f p) = cells p) \<Longrightarrow> has_cell (tmod k f reg) c = has_cell reg c"
  by (rule has_cell_eq) (rule cells_at_tmod)

lemma has_cell_pool: "tget reg k = Some p \<Longrightarrow> c \<in> set (cells p) \<Longrightarrow> has_cell reg c"
  unfolding has_cell_def cells_at_def by (metis option.simps(5))

lemma has_cell_tput: "has_cell (tput k p reg) c \<Longrightarrow> c \<in> set (cells p) \<or> has_cell reg c"
  by (auto simp: has_cell_def cells_at_def split: if_splits option.splits)

lemma has_cellE: assumes "has_cell reg c" obtains k p where "tget reg k = Some p" "c \<in> set (cells p)"
proof -
  from assms obtain k where k: "c \<in> set (cells_at reg k)" by (auto simp: has_cell_def)
  then obtain p where "tget reg k = Some p" by (cases "tget reg k") (simp_all add: cells_at_def)
  then show thesis using k by (intro that) (simp_all add: cells_at_def)
qed

lemma key_tdel: "j \<in> set (tkeys (tdel i m)) \<Longrightarrow> j \<in> set (tkeys m)"
  by (metis tget_None_iff tget_tdel)

lemma mem_tdel: "x \<in> set (tdel i m) \<Longrightarrow> x \<in> set m"
  by (simp add: AList.delete_eq)

lemma has_cell_tmod_sub:
  assumes "has_cell (tmod k f reg) c" and "\<And>p. set (cells (f p)) \<subseteq> D \<union> set (cells p)"
  shows "has_cell reg c \<or> c \<in> D"
proof -
  obtain k' q where q: "tget (tmod k f reg) k' = Some q" "c \<in> set (cells q)" using assms(1) by (rule has_cellE)
  show ?thesis
  proof (cases "k' = k")
    case True
    then obtain p where p: "tget reg k = Some p" "q = f p" using q(1) by auto
    then have "c \<in> D \<union> set (cells p)" using assms(2) [of p] q(2) by blast
    then show ?thesis using has_cell_pool [OF p(1)] by blast
  next
    case False
    then have "tget reg k' = Some q" using q(1) by simp
    then show ?thesis using has_cell_pool q(2) by blast
  qed
qed

lemma tget_fold_tdel: "tget (fold tdel ks reg) k = (if k \<in> set ks then None else tget reg k)"
  by (induction ks arbitrary: reg) auto

lemma distinct_fold_tdel: "distinct (tkeys reg) \<Longrightarrow> distinct (tkeys (fold tdel ks reg))"
  by (induction ks arbitrary: reg) auto

lemma has_cell_fold_tdel: "has_cell (fold tdel ks reg) c \<Longrightarrow> has_cell reg c"
  by (auto simp: has_cell_def cells_at_def tget_fold_tdel split: if_splits)

lemma enqueue_fields [simp]:
  "fl_starts (enqueue_termination c ctx s) = fl_starts s" "fl_registry (enqueue_termination c ctx s) = fl_registry s"
  "fl_next (enqueue_termination c ctx s) = fl_next s" "fl_unregs (enqueue_termination c ctx s) = fl_unregs s"
  "fl_drains (enqueue_termination c ctx s) = fl_drains s" "fl_leases (enqueue_termination c ctx s) = fl_leases s"
  "fl_cells (enqueue_termination c ctx s) = fl_cells s" "fl_permits (enqueue_termination c ctx s) = fl_permits s"
  "fl_capacity (enqueue_termination c ctx s) = fl_capacity s" "fl_shutdown (enqueue_termination c ctx s) = fl_shutdown s"
  "fl_barrier (enqueue_termination c ctx s) = fl_barrier s" "fl_config (enqueue_termination c ctx s) = fl_config s"
  "fl_worker (enqueue_termination c ctx s) = fl_worker s" "fl_ended (enqueue_termination c ctx s) = fl_ended s"
  "fl_result (enqueue_termination c ctx s) = fl_result s" "fl_term_closing (enqueue_termination c ctx s) = fl_term_closing s"
  "fl_started (enqueue_termination c ctx s) = fl_started s"
  by (simp_all add: enqueue_termination_def)

lemma known_enqueue [simp]: "known (enqueue_termination c ctx s) = known s"
  by (simp add: known_def fun_eq_iff)

lemma ids_enqueue [simp]: "ids_inv (enqueue_termination c ctx s) = ids_inv s"
  by (simp add: ids_inv_def)

text \<open>Each operation.\<close>

lemma ids_tmod:
  assumes "ids_inv s" and "\<And>p. cells (f p) = cells p"
  shows "ids_inv (s\<lparr>fl_registry := tmod k f (fl_registry s)\<rparr>)"
  by (rule ids_invI [OF assms(1)]) (use assms in \<open>auto simp: ids_inv_def known_def has_cell_tmod\<close>)

lemma fail_start_fields [simp]:
  "fl_next (fail_start i err now s) = fl_next s" "fl_unregs (fail_start i err now s) = fl_unregs s"
  "fl_drains (fail_start i err now s) = fl_drains s" "fl_leases (fail_start i err now s) = fl_leases s"
  "fl_cells (fail_start i err now s) = fl_cells s" "fl_shutdown (fail_start i err now s) = fl_shutdown s"
  "fl_barrier (fail_start i err now s) = fl_barrier s" "fl_capacity (fail_start i err now s) = fl_capacity s"
  "fl_config (fail_start i err now s) = fl_config s" "fl_result (fail_start i err now s) = fl_result s"
  "fl_worker (fail_start i err now s) = fl_worker s" "fl_ended (fail_start i err now s) = fl_ended s"
  "fl_term_closing (fail_start i err now s) = fl_term_closing s"
  by (auto simp: fail_start_def Let_def split: option.splits start_phase.splits)

lemma fail_start_registry:
  "fl_registry (fail_start i err now s) = fl_registry s \<or>
   (\<exists>k. fl_registry (fail_start i err now s) = tmod k (cold_start_failed err now) (fl_registry s))"
  by (auto simp: fail_start_def Let_def split: option.splits start_phase.splits)

lemma fail_start_starts: "fl_starts (fail_start i err now s) = fl_starts s \<or> fl_starts (fail_start i err now s) = tdel i (fl_starts s)"
  by (auto simp: fail_start_def Let_def split: option.splits start_phase.splits)

lemma has_cell_fail [simp]: "has_cell (fl_registry (fail_start i err now s)) c = has_cell (fl_registry s) c"
  using fail_start_registry [of i err now s] by (auto simp: has_cell_tmod cells_cold_failed)

lemma ids_fail: assumes "ids_inv s" shows "ids_inv (fail_start i err now s)"
proof (rule ids_invI [OF assms])
  show "distinct (tkeys (fl_starts (fail_start i err now s)))"
    using fail_start_starts [of i err now s] ids_distinct [OF assms] by auto
  show "distinct (tkeys (fl_registry (fail_start i err now s)))"
    using fail_start_registry [of i err now s] ids_distinct [OF assms] by auto
  show "j \<in> set (tkeys (fl_starts s)) \<or> fl_next s \<le> j \<and> j < fl_next (fail_start i err now s)"
    if "j \<in> set (tkeys (fl_starts (fail_start i err now s)))" for j
    using that fail_start_starts [of i err now s] key_tdel by metis
  show "known s c \<or> fl_next s \<le> c \<and> c < fl_next (fail_start i err now s)" if "known (fail_start i err now s) c" for c
  proof -
    have "task_cell (fl_starts (fail_start i err now s)) c \<Longrightarrow> task_cell (fl_starts s) c"
      using fail_start_starts [of i err now s] task_cell_tdel by metis
    then show ?thesis using that by (auto simp: known_def)
  qed
qed auto

lemma ids_phase:
  assumes "ids_inv s" and "\<And>c. phase_cell ph = Some c \<Longrightarrow> known s c"
  shows "ids_inv (set_phase i ph s)"
proof (rule ids_invI [OF assms(1)])
  show "known s c \<or> fl_next s \<le> c \<and> c < fl_next (set_phase i ph s)" if "known (set_phase i ph s) c" for c
  proof -
    have "task_cell (fl_starts (set_phase i ph s)) c \<Longrightarrow> task_cell (fl_starts s) c \<or> phase_cell ph = Some c"
      using task_cell_phase [of i ph "fl_starts s" c] by (simp add: set_phase_def)
    then show ?thesis using that assms(2) by (auto simp: known_def set_phase_def)
  qed
qed (use ids_distinct [OF assms(1)] in \<open>auto simp: set_phase_def\<close>)

lemma ids_permits [simp]: "ids_inv (s\<lparr>fl_permits := n\<rparr>) = ids_inv s"
  by (simp add: ids_inv_def known_def)

lemma ids_admit: "ids_inv s \<Longrightarrow> ids_inv (admit_start i now s)"
  by (auto simp: admit_start_def intro!: ids_fail ids_phase split: option.splits)

lemma ids_provisioned: assumes "ids_inv s" shows "ids_inv (cell_provisioned i ms s)"
proof -
  have "ids_inv (s\<lparr>fl_next := fl_next s + 1, fl_cells := fl_next s # fl_cells s\<rparr>)"
    by (rule ids_invI [OF assms]) (use ids_distinct [OF assms] in \<open>auto simp: known_def\<close>)
  then show ?thesis using assms
    by (auto simp: cell_provisioned_def known_def intro!: ids_phase split: option.splits)
qed

lemma ids_publish: assumes "ids_inv s" shows "ids_inv (publish_start i udp tcp ms now s)"
proof -
  have "ids_inv (set_phase i (Ph_Published c)
      (s\<lparr>fl_registry := tmod k (publish_instance c udp tcp pm ms now) (fl_registry s), fl_permits := n, fl_started := st\<rparr>))"
    if t: "tget (fl_starts s) i = Some t" "cs_phase t = Ph_Starting c pm" for k n st t c pm
  proof -
    let ?reg = "tmod k (publish_instance c udp tcp pm ms now) (fl_registry s)"
    have kc: "known s c" using t by (auto simp: known_def intro: task_cellI)
    have "has_cell ?reg d \<Longrightarrow> has_cell (fl_registry s) d \<or> d \<in> {c}" for d
      by (erule has_cell_tmod_sub, unfold cells_publish) auto
    then have "ids_inv (s\<lparr>fl_registry := ?reg, fl_permits := n, fl_started := st\<rparr>)"
      by (intro ids_invI [OF assms]) (use ids_distinct [OF assms] kc in \<open>auto simp: known_def\<close>)
    then show ?thesis using kc t by (intro ids_phase) (auto simp: known_def intro: task_cellI)
  qed
  then show ?thesis using assms
    by (auto simp: publish_start_def intro!: ids_fail split: option.splits start_phase.splits)
qed

lemma ids_finish: assumes "ids_inv s" shows "ids_inv (finish_start i now s)"
proof -
  have "ids_inv (s\<lparr>fl_starts := tdel i (fl_starts s), fl_registry := tmod k f (fl_registry s), fl_leases := l\<rparr>)"
    if "\<And>p. cells (f p) = cells p" "snd ` set l \<subseteq> {c. known s c}" for k f l
  proof (rule ids_invI [OF assms])
    show "known s c \<or> fl_next s \<le> c \<and> c < fl_next (s\<lparr>fl_starts := tdel i (fl_starts s), fl_registry := tmod k f (fl_registry s), fl_leases := l\<rparr>)"
      if "known (s\<lparr>fl_starts := tdel i (fl_starts s), fl_registry := tmod k f (fl_registry s), fl_leases := l\<rparr>) c" for c
      using that \<open>snd ` set l \<subseteq> {c. known s c}\<close> task_cell_tdel [of i "fl_starts s" c]
      by (auto simp: known_def has_cell_tmod [OF \<open>\<And>p. cells (f p) = cells p\<close>])
  qed (use ids_distinct [OF assms] in \<open>auto dest: mem_tdel\<close>)
  note l = this
  show ?thesis
  proof (cases "tget (fl_starts s) i")
    case (Some t)
    show ?thesis
    proof (cases "cs_phase t")
      case (Ph_Published c)
      have k: "known s c" using Some Ph_Published by (auto simp: known_def intro: task_cellI)
      have own: "snd ` set (fl_leases s) \<subseteq> {c. known s c}" by (auto simp: known_def)
      show ?thesis
        using l [of close_circuit "(cs_key t, c) # fl_leases s" "cs_key t"] l [of "warm_started c now" "fl_leases s" "cs_key t"] k own
        by (auto simp: finish_start_def Let_def Some Ph_Published cells_close cells_warm split: start_kind.splits)
    qed (use Some assms in \<open>auto simp: finish_start_def\<close>)
  qed (use assms in \<open>simp add: finish_start_def\<close>)
qed

lemma ids_new_start: assumes "ids_inv s" shows "ids_inv (new_start kind key s)"
proof (rule ids_invI [OF assms])
  show "known s c \<or> fl_next s \<le> c \<and> c < fl_next (new_start kind key s)" if "known (new_start kind key s) c" for c
    using that task_cell_new [of "fl_next s" "\<lparr>cs_key = key, cs_kind = kind, cs_phase = Ph_Waiting\<rparr>" "fl_starts s" c]
    by (auto simp: known_def new_start_def)
qed (use ids_distinct [OF assms] in \<open>auto simp: new_start_def tkeys_tput split: if_splits\<close>)


lemma take_slot_in: "take_slot mc now is = Some (c, is') \<Longrightarrow> c \<in> in_cell ` set is"
  by (auto simp: take_slot_def dest!: min_by_key_Some split: option.splits)

lemma decide_lease_spec:
  assumes "decide_lease cfg key co now reg = (d, reg')"
  shows "cells_at reg' k = cells_at reg k" "d = Ld_Ready c \<Longrightarrow> has_cell reg c"
    "distinct (tkeys reg) \<Longrightarrow> distinct (tkeys reg')"
proof -
  have a: "cells_at reg' k = cells_at reg k \<and> (d = Ld_Ready c \<longrightarrow> has_cell reg c) \<and> (distinct (tkeys reg) \<longrightarrow> distinct (tkeys reg'))"
  proof (cases "tget reg key")
    case None
    then show ?thesis using assms by (simp add: decide_lease_def)
  next
    case (Some p)
    show ?thesis
    proof (cases "take_slot (effective_concurrency p) now (fp_instances p)")
      case None
      then show ?thesis using assms Some
        by (auto simp: decide_lease_def cells_at_def same_cells split: if_splits)
    next
      case (Some sl)
      obtain c' is' where sl: "sl = (c', is')" by fastforce
      have "d = Ld_Ready c'" "reg' = tput key (p\<lparr>fp_instances := is'\<rparr>) reg"
        using assms \<open>tget reg key = Some p\<close> Some by (simp_all add: decide_lease_def sl)
      then show ?thesis
        using \<open>tget reg key = Some p\<close> cells_take_slot [OF Some [unfolded sl]] take_slot_in [OF Some [unfolded sl]]
        by (auto simp: cells_at_def intro: has_cell_pool)
    qed
  qed
  then show "cells_at reg' k = cells_at reg k" "d = Ld_Ready c \<Longrightarrow> has_cell reg c" "distinct (tkeys reg) \<Longrightarrow> distinct (tkeys reg')"
    by auto
qed

lemma ids_request: assumes "ids_inv s" shows "ids_inv (lease_request key f co now s)"
proof -
  obtain d reg where d: "decide_lease (fl_config s) key co now (fl_registry s) = (d, reg)" by fastforce
  have 1: "ids_inv (s\<lparr>fl_registry := reg, fl_leases := l\<rparr>)" if "snd ` set l \<subseteq> {c. known s c}" for l
    by (rule ids_invI [OF assms])
      (use ids_distinct [OF assms] that has_cell_eq [OF decide_lease_spec(1) [OF d]] decide_lease_spec(3) [OF d]
        in \<open>auto simp: known_def\<close>)
  have own: "snd ` set (fl_leases s) \<subseteq> {c. known s c}" by (auto simp: known_def)
  have "snd ` set ((key, c) # fl_leases s) \<subseteq> {c. known s c}" if "d = Ld_Ready c" for c
    using own decide_lease_spec(2) [OF d that] by (auto simp: known_def)
  then show ?thesis using assms 1 [OF own] 1 ids_new_start
    by (auto simp: lease_request_def d Let_def split: lease_decision.splits)
qed

lemma ids_drop: assumes "ids_inv s" shows "ids_inv (drop_lease key c ms now s)"
proof -
  have "ids_inv (s\<lparr>fl_leases := remove1 (key, c) (fl_leases s), fl_registry := tmod key (release_lease c ms now) (fl_registry s)\<rparr>)"
    by (rule ids_invI [OF assms])
      (use ids_distinct [OF assms] in \<open>auto simp: known_def has_cell_tmod cells_release dest: subsetD [OF set_remove1_subset]\<close>)
  then show ?thesis using assms by (simp add: drop_lease_def)
qed

lemma without_first_sub: "set (without_first c is) \<subseteq> set is"
  by (auto simp: without_first_def dest: set_takeWhileD in_set_dropD set_dropWhileD)

lemma without_first_other: "i \<in> set is \<Longrightarrow> in_cell i \<noteq> c \<Longrightarrow> i \<in> set (without_first c is)"
proof -
  assume a: "i \<in> set is" "in_cell i \<noteq> c"
  then have "i \<in> set (takeWhile (\<lambda>i. in_cell i \<noteq> c) is) \<or> i \<in> set (dropWhile (\<lambda>i. in_cell i \<noteq> c) is)"
    by (metis Un_iff set_append takeWhile_dropWhile_id)
  moreover have "i \<in> set (drop 1 (dropWhile (\<lambda>i. in_cell i \<noteq> c) is))" if d: "i \<in> set (dropWhile (\<lambda>i. in_cell i \<noteq> c) is)"
  proof -
    obtain x xs where x: "dropWhile (\<lambda>i. in_cell i \<noteq> c) is = x # xs" using d by (metis empty_iff empty_set neq_Nil_conv)
    have "in_cell x = c" using hd_dropWhile [of "\<lambda>i. in_cell i \<noteq> c" "is"] x by fastforce
    then show ?thesis using d x a(2) by auto
  qed
  ultimately show ?thesis by (auto simp: without_first_def)
qed

lemma ids_mark_dead: assumes "ids_inv s" shows "ids_inv (mark_dead key c now s)"
proof -
  have "ids_inv (s\<lparr>fl_registry := tput key p' (fl_registry s)\<rparr>)"
    if "tget (fl_registry s) key = Some p" "set (cells p') \<subseteq> set (cells p)" for p p'
  proof (rule ids_invI [OF assms])
    show "known s d \<or> fl_next s \<le> d \<and> d < fl_next (s\<lparr>fl_registry := tput key p' (fl_registry s)\<rparr>)"
      if "known (s\<lparr>fl_registry := tput key p' (fl_registry s)\<rparr>) d" for d
    proof -
      have "has_cell (tput key p' (fl_registry s)) d \<Longrightarrow> has_cell (fl_registry s) d"
        using has_cell_tput [of key p' "fl_registry s" d] has_cell_pool [OF \<open>tget (fl_registry s) key = Some p\<close>, of d]
          \<open>set (cells p') \<subseteq> set (cells p)\<close> by blast
      then show ?thesis using that by (auto simp: known_def)
    qed
  qed (use ids_distinct [OF assms] in auto)
  note t = this
  show ?thesis
    using assms without_first_sub [of c] by (auto simp: mark_dead_def intro!: t split: option.splits) blast
qed

lemma ids_unreg_next: assumes "ids_inv s" shows "ids_inv (unreg_next u s)"
proof -
  have "ids_inv (s\<lparr>fl_unregs := m\<rparr>)" if "set (tkeys m) \<subseteq> set (tkeys (fl_unregs s))" for m
    by (rule ids_invI [OF assms]) (use ids_distinct [OF assms] that in \<open>auto simp: known_def\<close>)
  note m = this
  have pu: "set (tkeys (tput u r (fl_unregs s))) \<subseteq> set (tkeys (fl_unregs s))" if "tget (fl_unregs s) u = Some q" for q r
    using tget_Some_key [OF that] tkeys_tput [of u r "fl_unregs s"] by (metis subset_refl)
  have de: "set (tkeys (tdel u (fl_unregs s))) \<subseteq> set (tkeys (fl_unregs s))" by (rule subsetI) (rule key_tdel)
  show ?thesis
  proof (cases "tget (fl_unregs s) u")
    case (Some q)
    then show ?thesis by (cases q) (auto simp: unreg_next_def simp del: set_map intro: m [OF de] m [OF pu [OF Some]])
  qed (use assms in \<open>simp add: unreg_next_def\<close>)
qed

lemma fold_invariant: "P s \<Longrightarrow> (\<And>x s. P s \<Longrightarrow> P (f x s)) \<Longrightarrow> P (fold f xs s)"
  by (induction xs arbitrary: s) auto

definition install :: "registry \<Rightarrow> pool_spec \<Rightarrow> registry \<Rightarrow> registry" where
  "install reg0 sp reg = tput (ps_key sp) ((pool_from_spec sp)\<lparr>fp_instances := orphans reg0 (ps_key sp)\<rparr>) reg"

lemma orphans_cells: "map in_cell (orphans reg k) = cells_at reg k"
  by (auto simp: orphans_def cells_at_def split: option.splits)

lemma install_cells_at:
  "(\<And>k. cells_at reg k = cells_at reg0 k) \<Longrightarrow> cells_at (fold (install reg0) specs reg) k = cells_at reg0 k"
proof (induction specs arbitrary: reg)
  case (Cons sp specs)
  have "cells_at (install reg0 sp reg) k = cells_at reg0 k" for k
    using Cons.prems [of k] orphans_cells [of reg0 "ps_key sp"] by (auto simp: install_def cells_at_def split: option.splits)
  then show ?case using Cons.IH by simp
qed simp

lemma register_registry: "fl_registry (register_many specs s) = fl_registry s \<or>
    fl_registry (register_many specs s) = fold (install (fl_registry s)) specs (fl_registry s)"
  by (simp add: register_many_def install_def [abs_def])

lemma ids_register: assumes "ids_inv s" shows "ids_inv (register_many specs s)"
proof -
  have d: "distinct (tkeys (fold (install (fl_registry s)) specs (fl_registry s)))"
    by (rule fold_invariant [where P = "\<lambda>m. distinct (tkeys m)"]) (use ids_distinct [OF assms] in \<open>auto simp: install_def\<close>)
  have "ids_inv (s\<lparr>fl_registry := fold (install (fl_registry s)) specs (fl_registry s)\<rparr>)"
    by (rule ids_invI [OF assms])
      (use ids_distinct [OF assms] d has_cell_eq [OF install_cells_at] in \<open>auto simp: known_def\<close>)
  then show ?thesis using assms by (simp add: register_many_def install_def [abs_def])
qed

lemma ids_unregister: assumes "ids_inv s" shows "ids_inv (unregister_many keys s)"
proof -
  have "ids_inv (s\<lparr>fl_next := Suc (fl_next s), fl_registry := fold tdel ks (fl_registry s), fl_unregs := tput (fl_next s) l (fl_unregs s)\<rparr>)" for ks l
    by (rule ids_invI [OF assms])
      (use ids_distinct [OF assms] in \<open>auto simp: known_def distinct_fold_tdel tkeys_tput dest: has_cell_fold_tdel split: if_splits\<close>)
  then show ?thesis by (simp add: unregister_many_def Let_def ids_unreg_next)
qed

abbreviation drains_of :: "(string \<times> cell \<times> nat) list \<Rightarrow> drain_task list" where
  "drains_of ds \<equiv> map (\<lambda>(k, c, r). \<lparr>dr_key = k, dr_cell = c, dr_requests = r, dr_enqueued = False\<rparr>) ds"

lemma ids_reconciled:
  assumes "ids_inv s" and r: "reconcile (fl_config s) now (fl_registry s) = (ws, ds, reg)"
  shows "ids_inv (s\<lparr>fl_registry := reg, fl_drains := drains_of ds\<rparr>)"
proof -
  have dk: "has_cell (fl_registry s) c" if "(k, c, n) \<in> set ds" for k c n
  proof -
    obtain p where p: "(k, p) \<in> set (fl_registry s)" "(c, n) \<in> set (fst (snd (reconcile_pool (fl_config s) now p)))"
      using reconcile_drains [OF r \<open>(k, c, n) \<in> set ds\<close>] by blast
    obtain m d1 p1 where rp: "reconcile_pool (fl_config s) now p = (m, d1, p1)" using prod_cases3 by blast
    have "idle_in (fp_instances p1) c" using reconcile_pool_spec(3) [OF rp] p(2) rp by fastforce
    then have "c \<in> set (cells p)"
      using drained_like_cells [OF reconcile_pool_spec(1) [OF rp]] idle_in_cell by metis
    moreover have "tget (fl_registry s) k = Some p" using p(1) ids_distinct(2) [OF assms(1)] by simp
    ultimately show ?thesis by (rule has_cell_pool [rotated])
  qed
  show ?thesis
    by (rule ids_invI [OF assms(1)])
      (use ids_distinct [OF assms(1)] reconcile_at [OF r] has_cell_eq [OF reconcile_cells_at [OF r]] dk in \<open>auto simp: known_def\<close>)
qed

lemma ids_autoscale: assumes "ids_inv s" shows "ids_inv (autoscale now s)"
proof -
  obtain ws ds reg where r: "reconcile (fl_config s) now (fl_registry s) = (ws, ds, reg)" using prod_cases3 by blast
  have "ids_inv (fold (new_start Keep_Warm) ws (s\<lparr>fl_registry := reg, fl_drains := drains_of ds\<rparr>))"
    by (rule fold_invariant) (rule ids_reconciled [OF assms r], rule ids_new_start)
  then show ?thesis using assms by (simp add: autoscale_def r Let_def)
qed

lemma ids_drain_enqueue: assumes "ids_inv s" shows "ids_inv (drain_enqueue j s)"
proof -
  have "ids_inv (s\<lparr>fl_drains := (fl_drains s)[j := (fl_drains s ! j)\<lparr>dr_enqueued := True\<rparr>]\<rparr>)" if "j < length (fl_drains s)"
    by (rule ids_invI [OF assms])
      (use ids_distinct [OF assms] that nth_mem [OF that] in \<open>auto simp: known_def dest!: subsetD [OF set_update_subset_insert]\<close>)
  then show ?thesis using assms by (simp add: drain_enqueue_def Let_def)
qed

lemma cells_forget: "set (cells (forget_cell c p)) = set (cells p) - {c}"
  by (auto simp: forget_cell_def)

lemma ids_drain_finish: assumes "ids_inv s" shows "ids_inv (drain_finish j s)"
proof -
  have "ids_inv (s\<lparr>fl_drains := take j (fl_drains s) @ drop (Suc j) (fl_drains s), fl_registry := tmod k (forget_cell c) (fl_registry s)\<rparr>)" for k c
  proof (rule ids_invI [OF assms])
    fix d assume a: "known (s\<lparr>fl_drains := take j (fl_drains s) @ drop (Suc j) (fl_drains s), fl_registry := tmod k (forget_cell c) (fl_registry s)\<rparr>) d"
    have "has_cell (tmod k (forget_cell c) (fl_registry s)) d \<Longrightarrow> has_cell (fl_registry s) d"
      using has_cell_tmod_sub [of k "forget_cell c" "fl_registry s" d "{}"] cells_forget by blast
    then show "known s d \<or> fl_next s \<le> d \<and> d < fl_next (s\<lparr>fl_drains := take j (fl_drains s) @ drop (Suc j) (fl_drains s), fl_registry := tmod k (forget_cell c) (fl_registry s)\<rparr>)"
      using a by (auto simp: known_def dest: in_set_takeD in_set_dropD)
  qed (use ids_distinct [OF assms] in auto)
  then show ?thesis using assms by (simp add: drain_finish_def Let_def)
qed

lemma ids_frame [simp]:
  "ids_inv (s\<lparr>fl_terminating := a\<rparr>) = ids_inv s" "ids_inv (s\<lparr>fl_worker := b\<rparr>) = ids_inv s" "ids_inv (s\<lparr>fl_notified := n\<rparr>) = ids_inv s"
  "ids_inv (s\<lparr>fl_ended := d\<rparr>) = ids_inv s" "ids_inv (s\<lparr>fl_shutdown := e\<rparr>) = ids_inv s"
  "ids_inv (s\<lparr>fl_barrier := f\<rparr>) = ids_inv s" "ids_inv (s\<lparr>fl_result := g\<rparr>) = ids_inv s"
  "ids_inv (s\<lparr>fl_term_closing := h\<rparr>) = ids_inv s"
  by (simp_all add: ids_inv_def known_def)

lemma ids_step: assumes "ids_inv s" shows "ids_inv (fluid_step e s)"
proof -
  have on: "ids_inv (on_pool k f s)" if "\<And>p. cells (f p) = cells p" for k f
    unfolding on_pool_def using ids_tmod [OF assms that] .
  show ?thesis
  proof (cases e)
    case (Fe_Unreg_Cancel u)
    show ?thesis unfolding Fe_Unreg_Cancel fluid_step.simps
      by (rule ids_invI [OF assms]) (use ids_distinct [OF assms] in \<open>auto simp: known_def dest: mem_tdel\<close>)
  next
    case (Fe_Shutdown now)
    have "ids_inv (s\<lparr>fl_shutdown := Closing, fl_drains := []\<rparr>)"
      by (rule ids_invI [OF assms]) (use ids_distinct [OF assms] in \<open>auto simp: known_def\<close>)
    then show ?thesis using assms by (auto simp: Fe_Shutdown begin_shutdown_def intro!: fold_invariant [where P = ids_inv] ids_fail)
  next
    case Fe_Barrier
    have "ids_inv (s\<lparr>fl_permits := 0, fl_registry := [], fl_terminating := m, fl_barrier := b\<rparr>)" for m b
      by (rule ids_invI [OF assms]) (use ids_distinct [OF assms] in \<open>auto simp: known_def has_cell_def cells_at_def\<close>)
    then show ?thesis using assms by (simp add: Fe_Barrier shutdown_barrier_def Let_def)
  next
    case (Fe_Term_Done ok)
    have "ids_inv (s\<lparr>fl_worker := w, fl_cells := removeAll c (fl_cells s), fl_terminating := m, fl_ended := x\<rparr>)" for w c m x
      by (rule ids_invI [OF assms]) (use ids_distinct [OF assms] in \<open>auto simp: known_def\<close>)
    then show ?thesis using assms by (auto simp: Fe_Term_Done term_done_def split: option.splits worker_state.splits)
  next
    case (Fe_Final c ok)
    have "ids_inv (s\<lparr>fl_cells := removeAll c (fl_cells s), fl_terminating := m\<rparr>)" for m
      by (rule ids_invI [OF assms]) (use ids_distinct [OF assms] in \<open>auto simp: known_def\<close>)
    then show ?thesis using assms by (simp add: Fe_Final final_terminate_def)
  qed (use assms in \<open>auto simp: same_cells term_pick_def worker_take_def stop_worker_def shutdown_done_def shutdown_timeout_def
      split: option.splits worker_state.splits intro: on ids_register ids_request ids_admit ids_provisioned ids_publish ids_finish ids_fail
        ids_drop ids_mark_dead ids_unregister ids_unreg_next ids_autoscale ids_drain_enqueue ids_drain_finish\<close>)
qed

lemma ids_new: "ids_inv (fluid_new cfg cap)"
  by (simp add: ids_inv_def known_def fluid_new_def has_cell_def cells_at_def)

lemma ids_run: "ids_inv (fluid_run cfg cap evs)"
  by (rule fluid_run_invariant [where ok = "\<lambda>_. True"]) (simp_all add: ids_new ids_step list_all_iff)

end
