(* ===== verification/Fluid_Own.thy ===== *)
theory Fluid_Own
  imports Fluid_Inv
begin

text \<open>
  Who owns a cell. Unless a caller of \<open>unregister_many\<close> is cancelled, every cell the backend runs is in
  the registry, with the termination worker, in a cold start that has not published it, or in the
  list of an unregistration under way; so a shutdown that reports success leaves none. Cancelling an
  unregistration loses cells for good.
\<close>

section \<open>Ownership\<close>

definition starting :: "(nat, cold_start) table \<Rightarrow> cell \<Rightarrow> bool" where
  "starting m c \<longleftrightarrow> (\<exists>i t pm. tget m i = Some t \<and> cs_phase t = Ph_Starting c pm)"

definition unregistering :: "(nat, (cell \<times> end_context) list) table \<Rightarrow> cell \<Rightarrow> bool" where
  "unregistering m c \<longleftrightarrow> (\<exists>u l. tget m u = Some l \<and> c \<in> fst ` set l)"

definition held :: "(cell, pending_termination) table \<Rightarrow> cell \<Rightarrow> bool" where
  "held m c \<longleftrightarrow> tget m c \<noteq> None"

definition owned :: "fluid \<Rightarrow> cell \<Rightarrow> bool" where
  "owned s c \<longleftrightarrow> has_cell (fl_registry s) c \<or> held (fl_terminating s) c \<or> starting (fl_starts s) c \<or>
     unregistering (fl_unregs s) c"

definition tracked :: "fluid \<Rightarrow> bool" where
  "tracked s \<longleftrightarrow> (\<forall>c \<in> set (fl_cells s). owned s c) \<and>
     (\<forall>d \<in> set (fl_drains s). dr_enqueued d \<longrightarrow> held (fl_terminating s) (dr_cell d) \<or> dr_cell d \<notin> set (fl_cells s))"

lemma trackedI:
  assumes "tracked s" and "\<And>c. c \<in> set (fl_cells s') \<Longrightarrow> c \<in> set (fl_cells s)"
    and "\<And>c. c \<in> set (fl_cells s') \<Longrightarrow> owned s c \<Longrightarrow> owned s' c"
    and "\<And>d. d \<in> set (fl_drains s') \<Longrightarrow> dr_enqueued d \<Longrightarrow> d \<in> set (fl_drains s) \<or> held (fl_terminating s') (dr_cell d)"
    and "\<And>c. c \<in> set (fl_cells s') \<Longrightarrow> held (fl_terminating s) c \<Longrightarrow> held (fl_terminating s') c"
  shows "tracked s'"
  unfolding tracked_def
proof (intro conjI ballI impI)
  note a = assms(1) [unfolded tracked_def]
  show "owned s' c" if "c \<in> set (fl_cells s')" for c using assms(2,3) that a by blast
  show "held (fl_terminating s') (dr_cell d) \<or> dr_cell d \<notin> set (fl_cells s')"
    if "d \<in> set (fl_drains s')" "dr_enqueued d" for d
    using assms(2,4,5) that a by blast
qed

lemma held_table [simp]: "held (tput c e m) d \<longleftrightarrow> d = c \<or> held m d" "held (tdel c m) d \<longleftrightarrow> d \<noteq> c \<and> held m d"
  "held (tmod c f m) d \<longleftrightarrow> held m d"
  by (auto simp: held_def)

lemma held_enqueue [simp]: "held (fl_terminating (enqueue_termination c ctx s)) d \<longleftrightarrow> d = c \<or> held (fl_terminating s) d"
  by (simp add: enqueue_termination_def split: option.splits)

lemma owned_enqueue [simp]: "owned (enqueue_termination c ctx s) d \<longleftrightarrow> d = c \<or> owned s d"
  by (auto simp: owned_def)

lemma tracked_enqueue: "tracked s \<Longrightarrow> tracked (enqueue_termination c ctx s)"
  by (rule trackedI) auto

lemma starting_tdel: "starting m c \<Longrightarrow> (\<And>t pm. tget m i = Some t \<Longrightarrow> cs_phase t \<noteq> Ph_Starting c pm) \<Longrightarrow> starting (tdel i m) c"
  unfolding starting_def by (metis tget_tdel)

lemma starting_tmod:
  assumes "starting m c" and "\<And>t pm. tget m i = Some t \<Longrightarrow> cs_phase t \<noteq> Ph_Starting c pm"
  shows "starting (tmod i f m) c"
  using assms unfolding starting_def by (metis tget_tmod)

lemma starting_tput: "starting m c \<Longrightarrow> i \<notin> set (tkeys m) \<Longrightarrow> starting (tput i t m) c"
  unfolding starting_def by (metis tget_tput tget_Some_key)

lemma unregistering_tput: "unregistering m c \<Longrightarrow> u \<notin> set (tkeys m) \<Longrightarrow> unregistering (tput u l m) c"
  unfolding unregistering_def by (metis tget_tput tget_Some_key)

section \<open>Each operation\<close>

lemma tracked_registry:
  assumes "tracked s" and "\<And>c. has_cell (fl_registry s) c \<Longrightarrow> has_cell reg c"
  shows "tracked (s\<lparr>fl_registry := reg\<rparr>)"
  by (rule trackedI [OF assms(1)]) (use assms(2) in \<open>auto simp: owned_def\<close>)

lemma tracked_on_pool: "tracked s \<Longrightarrow> (\<And>p. cells (f p) = cells p) \<Longrightarrow> tracked (on_pool k f s)"
  unfolding on_pool_def by (rule tracked_registry) (simp_all add: has_cell_tmod)

lemma has_cell_mono_pool:
  assumes "has_cell reg c" and "\<And>p. set (cells p) \<subseteq> set (cells (f p))"
  shows "has_cell (tmod k f reg) c"
proof -
  obtain k' p where p: "tget reg k' = Some p" "c \<in> set (cells p)" using assms(1) by (rule has_cellE)
  have "tget (tmod k f reg) k' = Some (if k' = k then f p else p)" using p(1) by auto
  then show ?thesis by (rule has_cell_pool) (use p(2) assms(2) [of p] in auto)
qed

lemma tracked_fail: assumes "tracked s" shows "tracked (fail_start i err now s)"
proof (rule trackedI [OF assms])
  show "owned (fail_start i err now s) c" if "owned s c" for c
  proof (cases "tget (fl_starts s) i")
    case (Some t)
    then show ?thesis using that
      by (auto simp: fail_start_def owned_def Let_def has_cell_tmod cells_cold_failed dest: starting_tdel [where i = i]
          split: start_phase.splits)
  qed (use that in \<open>simp add: fail_start_def\<close>)
qed (auto simp: fail_start_def Let_def split: option.splits start_phase.splits if_splits)

lemma tracked_phase:
  assumes "tracked s" and "tget (fl_starts s) i = Some t" and "\<And>c pm. cs_phase t \<noteq> Ph_Starting c pm"
  shows "tracked (set_phase i ph s)"
  by (rule trackedI [OF assms(1)]) (use assms(2,3) in \<open>auto simp: set_phase_def owned_def intro: starting_tmod\<close>)

lemma tracked_permits [simp]: "tracked (s\<lparr>fl_permits := n\<rparr>) = tracked s"
  by (simp add: tracked_def owned_def)

lemma tracked_admit: "tracked s \<Longrightarrow> tracked (admit_start i now s)"
  by (auto simp: admit_start_def intro!: tracked_fail tracked_phase split: option.splits)

lemma tracked_provisioned: assumes "tracked s" "ids_inv s" shows "tracked (cell_provisioned i ms s)"
proof (cases "tget (fl_starts s) i")
  case (Some t)
  let ?s = "set_phase i (Ph_Starting (fl_next s) ms) (s\<lparr>fl_next := fl_next s + 1, fl_cells := fl_next s # fl_cells s\<rparr>)"
  show ?thesis
  proof (cases "cs_phase t = Ph_Provisioning")
    case True
    have "owned ?s c" if "owned s c" for c
      using that Some True by (auto simp: owned_def set_phase_def intro: starting_tmod)
    moreover have "owned ?s (fl_next s)"
      using Some by (auto simp: owned_def starting_def set_phase_def intro!: exI [of _ i])
    moreover have "dr_cell d \<noteq> fl_next s" if "d \<in> set (fl_drains s)" for d
      using ids_fresh(3) [OF assms(2), of "dr_cell d"] that by (auto simp: known_def)
    ultimately have "tracked ?s" using assms(1) by (auto simp: tracked_def) (auto simp: set_phase_def)
    then show ?thesis by (simp add: cell_provisioned_def Some True)
  qed (use assms Some in \<open>simp add: cell_provisioned_def\<close>)
qed (use assms in \<open>simp add: cell_provisioned_def\<close>)

lemma tracked_publish: assumes "tracked s" shows "tracked (publish_start i udp tcp ms now s)"
proof (cases "tget (fl_starts s) i")
  case (Some t)
  show ?thesis
  proof (cases "cs_phase t")
    case (Ph_Starting c pm)
    show ?thesis
    proof (cases "tget (fl_registry s) (cs_key t)")
      case None
      then show ?thesis using assms Some Ph_Starting by (simp add: publish_start_def tracked_fail)
    next
      case reg: (Some p)
      let ?reg = "tmod (cs_key t) (publish_instance c udp tcp pm ms now) (fl_registry s)"
      let ?s = "set_phase i (Ph_Published c) (s\<lparr>fl_registry := ?reg, fl_permits := fl_permits s + 1,
        fl_started := fl_started s @ [(deployment_of (cs_key t), c)]\<rparr>)"
      have "has_cell ?reg c"
        by (rule has_cell_pool [of _ "cs_key t" "publish_instance c udp tcp pm ms now p"])
          (use reg in \<open>simp_all add: publish_instance_def\<close>)
      moreover have "has_cell ?reg d" if "has_cell (fl_registry s) d" for d
        using that by (rule has_cell_mono_pool) (simp add: publish_instance_def subset_insertI)
      moreover have "starting (tmod i (\<lambda>t. t\<lparr>cs_phase := Ph_Published c\<rparr>) (fl_starts s)) d"
        if "starting (fl_starts s) d" "d \<noteq> c" for d
        using that Some Ph_Starting by (intro starting_tmod) auto
      ultimately have own: "owned ?s d" if "owned s d" for d
        using that by (cases "d = c") (auto simp: owned_def set_phase_def)
      have "tracked ?s" by (rule trackedI [OF assms]) (use own in \<open>auto simp: set_phase_def\<close>)
      then show ?thesis by (simp add: publish_start_def Some Ph_Starting reg)
    qed
  qed (use assms Some in \<open>auto simp: publish_start_def\<close>)
qed (use assms in \<open>simp add: publish_start_def\<close>)

lemma tracked_finish: assumes "tracked s" shows "tracked (finish_start i now s)"
proof (rule trackedI [OF assms])
  show "owned (finish_start i now s) c" if "owned s c" for c
  proof (cases "tget (fl_starts s) i")
    case (Some t)
    then show ?thesis using that
      by (auto simp: finish_start_def owned_def Let_def has_cell_tmod cells_close cells_warm
          dest: starting_tdel [where i = i] split: start_phase.splits start_kind.splits)
  qed (use that in \<open>simp add: finish_start_def\<close>)
qed (auto simp: finish_start_def Let_def split: option.splits start_phase.splits start_kind.splits)

lemma tracked_new_start: assumes "tracked s" "ids_inv s" shows "tracked (new_start kind key s)"
  by (rule trackedI [OF assms(1)])
    (use ids_fresh(1) [OF assms(2)] in \<open>auto simp: new_start_def owned_def simp del: set_map intro: starting_tput\<close>)

lemma tracked_leases [simp]: "tracked (s\<lparr>fl_leases := l\<rparr>) = tracked s"
  by (simp add: tracked_def owned_def)

lemma tracked_request: assumes "tracked s" "ids_inv s" shows "tracked (lease_request key f co now s)"
proof -
  obtain d reg where d: "decide_lease (fl_config s) key co now (fl_registry s) = (d, reg)" by fastforce
  have 1: "tracked (s\<lparr>fl_registry := reg\<rparr>)"
    using has_cell_eq [OF decide_lease_spec(1) [OF d]] by (intro tracked_registry [OF assms(1)]) simp
  have "ids_inv (s\<lparr>fl_registry := reg\<rparr>)"
    by (rule ids_invI [OF assms(2)])
      (use ids_distinct [OF assms(2)] has_cell_eq [OF decide_lease_spec(1) [OF d]] decide_lease_spec(3) [OF d] in \<open>auto simp: known_def\<close>)
  then show ?thesis using assms 1
    by (auto simp: lease_request_def d Let_def tracked_new_start split: lease_decision.splits)
qed

lemma tracked_drop: "tracked s \<Longrightarrow> tracked (drop_lease key c ms now s)"
  using tracked_on_pool [of "s\<lparr>fl_leases := remove1 (key, c) (fl_leases s)\<rparr>" "release_lease c ms now" key]
  by (simp add: drop_lease_def on_pool_def cells_release)

lemma tracked_mark_dead: assumes "tracked s" shows "tracked (mark_dead key c now s)"
proof (cases "tget (fl_registry s) key")
  case (Some p)
  show ?thesis
  proof (cases "find_instance c p")
    case i: (Some i)
    have own: "owned (mark_dead key c now s) d" if o: "owned s d" for d
    proof (cases "d = c")
      case False
      have "has_cell (fl_registry (mark_dead key c now s)) d" if "has_cell (fl_registry s) d"
      proof -
        obtain k q where q: "tget (fl_registry s) k = Some q" "d \<in> set (cells q)" using \<open>has_cell (fl_registry s) d\<close> by (rule has_cellE)
        show ?thesis
        proof (cases "k = key")
          case True
          then have "d \<in> in_cell ` set (without_first c (fp_instances p))"
            using q Some False by (auto intro!: imageI without_first_other)
          then show ?thesis
            unfolding has_cell_def by (intro exI [of _ key]) (simp add: cells_at_def mark_dead_def Some i)
        next
          case False
          then show ?thesis using q by (intro has_cell_pool [of _ k q]) (simp_all add: mark_dead_def Some i)
        qed
      qed
      then show ?thesis using o by (auto simp: owned_def) (simp_all add: mark_dead_def Some i)
    qed (simp add: mark_dead_def Some i)
    show ?thesis by (rule trackedI [OF assms]) (use own in \<open>auto simp: mark_dead_def Some i\<close>)
  qed (use assms Some in \<open>simp add: mark_dead_def\<close>)
qed (use assms in \<open>simp add: mark_dead_def\<close>)

lemma tracked_unreg_next: assumes "tracked s" shows "tracked (unreg_next u s)"
proof (cases "tget (fl_unregs s) u")
  case (Some q)
  show ?thesis
  proof (cases q)
    case Nil
    have "unregistering (tdel u (fl_unregs s)) c" if "unregistering (fl_unregs s) c" for c
    proof -
      obtain v l where v: "tget (fl_unregs s) v = Some l" "c \<in> fst ` set l"
        using \<open>unregistering (fl_unregs s) c\<close> by (auto simp: unregistering_def)
      then have "v \<noteq> u" using Some Nil by auto
      then show ?thesis using v unfolding unregistering_def by (metis tget_tdel)
    qed
    then show ?thesis using Some Nil by (intro trackedI [OF assms]) (auto simp: unreg_next_def owned_def)
  next
    case (Cons x rest)
    obtain c ctx where x: "x = (c, ctx)" by fastforce
    have "unregistering (tput u rest (fl_unregs s)) d" if "unregistering (fl_unregs s) d" "d \<noteq> c" for d
    proof -
      obtain v l where v: "tget (fl_unregs s) v = Some l" "d \<in> fst ` set l"
        using \<open>unregistering (fl_unregs s) d\<close> by (auto simp: unregistering_def)
      have "tget (tput u rest (fl_unregs s)) v = Some (if v = u then rest else l)" using v(1) by simp
      moreover have "d \<in> fst ` set (if v = u then rest else l)" using v Some Cons x \<open>d \<noteq> c\<close> by (cases "v = u") force+
      ultimately show ?thesis unfolding unregistering_def by blast
    qed
    then show ?thesis using Some Cons x by (intro trackedI [OF assms]) (auto simp: unreg_next_def owned_def)
  qed
qed (use assms in \<open>simp add: unreg_next_def\<close>)

lemma removed_cells_has:
  assumes "tget reg k = Some p" "c \<in> set (cells p)" "k \<in> set ks"
  shows "c \<in> fst ` set (removed_cells reg ks)"
proof -
  obtain i where "i \<in> set (fp_instances p)" "c = in_cell i" using assms(2) by auto
  then have "(c, end_of k (in_requests_served i) ''killed'') \<in> set (removed_cells reg ks)"
    unfolding removed_cells_def using assms(1,3) by (auto intro!: bexI [of _ k])
  then show ?thesis by force
qed

lemma tracked_unregister: assumes "tracked s" "ids_inv s" shows "tracked (unregister_many keys s)"
proof -
  let ?ks = "remdups_adj (sort keys)"
  let ?l = "removed_cells (fl_registry s) ?ks"
  let ?s = "s\<lparr>fl_next := Suc (fl_next s), fl_registry := fold tdel ?ks (fl_registry s), fl_unregs := tput (fl_next s) ?l (fl_unregs s)\<rparr>"
  have own: "owned ?s c" if "owned s c" for c
  proof -
    have "has_cell (fl_registry ?s) c \<or> unregistering (fl_unregs ?s) c" if h: "has_cell (fl_registry s) c"
    proof -
      obtain k p where p: "tget (fl_registry s) k = Some p" "c \<in> set (cells p)" using h by (rule has_cellE)
      show ?thesis
      proof (cases "k \<in> set ?ks")
        case True
        then have "c \<in> fst ` set ?l" using removed_cells_has [OF p] by blast
        then show ?thesis by (auto simp: unregistering_def intro!: exI [of _ "fl_next s"])
      next
        case False
        then show ?thesis using has_cell_pool [of "fold tdel ?ks (fl_registry s)" k p] p by (simp add: tget_fold_tdel)
      qed
    qed
    then show ?thesis using that ids_fresh(2) [OF assms(2)] unregistering_tput [of "fl_unregs s" c "fl_next s" ?l]
      by (auto simp: owned_def)
  qed
  have "tracked ?s" by (rule trackedI [OF assms(1)]) (use own in auto)
  then show ?thesis using tracked_unreg_next by (simp add: unregister_many_def Let_def)
qed

lemma tracked_fold_new:
  "tracked s \<Longrightarrow> ids_inv s \<Longrightarrow> tracked (fold (new_start kind) ws s)"
  by (induction ws arbitrary: s) (auto intro: tracked_new_start ids_new_start)

lemma tracked_autoscale: assumes "tracked s" "ids_inv s" shows "tracked (autoscale now s)"
proof -
  obtain ws ds reg where r: "reconcile (fl_config s) now (fl_registry s) = (ws, ds, reg)" using prod_cases3 by blast
  have "tracked (s\<lparr>fl_registry := reg, fl_drains := drains_of ds\<rparr>)"
    by (rule trackedI [OF assms(1)]) (use has_cell_eq [OF reconcile_cells_at [OF r]] in \<open>auto simp: owned_def\<close>)
  then show ?thesis
    using assms(1) tracked_fold_new [OF _ ids_reconciled [OF assms(2) r]] by (simp add: autoscale_def r Let_def)
qed

lemma tracked_drain_enqueue: assumes "tracked s" shows "tracked (drain_enqueue j s)"
proof -
  have "d \<in> set (fl_drains s) \<or> dr_cell d = dr_cell (fl_drains s ! j)"
    if "d \<in> set ((fl_drains s)[j := (fl_drains s ! j)\<lparr>dr_enqueued := True\<rparr>])" for d
    using that by (auto dest!: subsetD [OF set_update_subset_insert])
  then show ?thesis using assms by (intro trackedI [OF assms]) (auto simp: drain_enqueue_def Let_def owned_def split: if_splits)
qed

lemma tracked_drain_finish: assumes "tracked s" shows "tracked (drain_finish j s)"
proof (cases "j < length (fl_drains s) \<and> dr_enqueued (fl_drains s ! j)")
  case True
  let ?d = "fl_drains s ! j"
  have d: "held (fl_terminating s) (dr_cell ?d) \<or> dr_cell ?d \<notin> set (fl_cells s)"
    using assms True by (auto simp: tracked_def)
  have "has_cell (tmod (dr_key ?d) (forget_cell (dr_cell ?d)) (fl_registry s)) c" if h: "has_cell (fl_registry s) c" "c \<noteq> dr_cell ?d" for c
  proof -
    obtain k p where p: "tget (fl_registry s) k = Some p" "c \<in> set (cells p)" using h(1) by (rule has_cellE)
    let ?p = "if k = dr_key ?d then forget_cell (dr_cell ?d) p else p"
    show ?thesis by (rule has_cell_pool [of _ k ?p]) (use p h(2) cells_forget in \<open>auto simp del: set_map\<close>)
  qed
  then have own: "owned (drain_finish j s) c" if "owned s c" "c \<in> set (fl_cells s)" for c
    using that d True by (cases "c = dr_cell ?d") (auto simp: owned_def drain_finish_def Let_def)
  show ?thesis by (rule trackedI [OF assms]) (use True own in \<open>auto simp: drain_finish_def Let_def dest: in_set_takeD in_set_dropD\<close>)
qed (use assms in \<open>auto simp: drain_finish_def\<close>)

lemma held_own_cells: "held (fold own_cell cs m) c \<longleftrightarrow> c \<in> set cs \<or> held m c"
  by (induction cs arbitrary: m) (auto simp: own_cell_def held_def)

lemma registry_cells_has: "has_cell reg c \<Longrightarrow> c \<in> set (registry_cells reg)"
proof -
  assume "has_cell reg c"
  then obtain k p where "tget reg k = Some p" "c \<in> set (cells p)" by (rule has_cellE)
  then have "(k, p) \<in> set reg" "c \<in> set (cells p)" by (auto dest: map_of_SomeD)
  then show ?thesis unfolding registry_cells_def by fastforce
qed

lemma tracked_step:
  assumes "tracked s" "ids_inv s" and "\<And>u. e \<noteq> Fe_Unreg_Cancel u"
  shows "tracked (fluid_step e s)"
proof (cases e)
  case (Fe_Unreg_Cancel u)
  then show ?thesis using assms(3) by blast
next
  case (Fe_Shutdown now)
  have "tracked (s\<lparr>fl_shutdown := Closing, fl_drains := []\<rparr>)" by (rule trackedI [OF assms(1)]) (auto simp: owned_def)
  then show ?thesis using assms(1) by (auto simp: Fe_Shutdown begin_shutdown_def intro!: fold_invariant [where P = tracked] tracked_fail)
next
  case Fe_Barrier
  show ?thesis
    by (rule trackedI [OF assms(1)])
      (use registry_cells_has in \<open>auto simp: Fe_Barrier shutdown_barrier_def Let_def owned_def held_own_cells split: if_splits\<close>)
next
  case Fe_Term_Pick
  show ?thesis
    by (rule trackedI [OF assms(1)])
      (auto simp: Fe_Term_Pick term_pick_def worker_take_def owned_def split: option.splits worker_state.splits if_splits)
next
  case (Fe_Term_Done ok)
  show ?thesis
    by (rule trackedI [OF assms(1)])
      (auto simp: Fe_Term_Done term_done_def owned_def split: option.splits worker_state.splits if_splits)
next
  case (Fe_Final c ok)
  show ?thesis
    by (rule trackedI [OF assms(1)]) (auto simp: Fe_Final final_terminate_def owned_def split: if_splits)
next
  case Fe_Stop_Worker
  show ?thesis by (rule trackedI [OF assms(1)]) (auto simp: Fe_Stop_Worker stop_worker_def owned_def split: if_splits)
next
  case Fe_Shutdown_Done
  show ?thesis by (rule trackedI [OF assms(1)]) (auto simp: Fe_Shutdown_Done shutdown_done_def owned_def split: if_splits)
next
  case Fe_Shutdown_Timeout
  show ?thesis by (rule trackedI [OF assms(1)]) (auto simp: Fe_Shutdown_Timeout shutdown_timeout_def owned_def split: if_splits)
next
  case (Fe_Register specs)
  show ?thesis
    using tracked_registry [OF assms(1), of "fold (install (fl_registry s)) specs (fl_registry s)"] assms(1)
      has_cell_eq [OF install_cells_at, of "fl_registry s" "fl_registry s"]
    by (auto simp: Fe_Register register_many_def install_def [abs_def])
next
  case (Fe_Set_Safe k n)
  show ?thesis unfolding Fe_Set_Safe fluid_step.simps
    by (rule tracked_on_pool [OF assms(1)]) (auto split: option.splits dest: cells_set_safe)
qed (use assms in \<open>auto simp: same_cells intro: tracked_on_pool tracked_request tracked_admit tracked_provisioned
    tracked_publish tracked_finish tracked_fail tracked_drop tracked_mark_dead tracked_unregister tracked_unreg_next
    tracked_autoscale tracked_drain_enqueue tracked_drain_finish\<close>)

section \<open>Permits\<close>

definition holds_permit :: "start_phase \<Rightarrow> bool" where
  "holds_permit ph = (case ph of Ph_Provisioning \<Rightarrow> True | Ph_Starting _ _ \<Rightarrow> True | _ \<Rightarrow> False)"

lemma holds_permit_simps [simp]: "\<not> holds_permit Ph_Waiting" "holds_permit Ph_Provisioning" "holds_permit (Ph_Starting c ms)"
  "\<not> holds_permit (Ph_Published c)"
  by (simp_all add: holds_permit_def)

abbreviation active_starts :: "(nat, cold_start) table \<Rightarrow> nat" where
  "active_starts \<equiv> tcount (\<lambda>t. holds_permit (cs_phase t))"

lemmas active_tdel = tcount_tdel [where P = "\<lambda>t. holds_permit (cs_phase t)"]

lemma active_phase: "distinct (tkeys m) \<Longrightarrow> tget m i = Some t \<Longrightarrow>
    active_starts (tmod i (\<lambda>t. t\<lparr>cs_phase := ph\<rparr>) m) + (if holds_permit (cs_phase t) then 1 else 0) =
    active_starts m + (if holds_permit ph then 1 else 0)"
  using tcount_tmod [of m i t "\<lambda>t. holds_permit (cs_phase t)" "\<lambda>t. t\<lparr>cs_phase := ph\<rparr>"] by simp

lemma active_new: "i \<notin> set (tkeys m) \<Longrightarrow> active_starts (tput i \<lparr>cs_key = k, cs_kind = kd, cs_phase = Ph_Waiting\<rparr> m) = active_starts m"
  by (subst tcount_new) simp_all

lemma starting_active: "starting m c \<Longrightarrow> active_starts m \<noteq> 0"
  using tcount_pos [of m _ _ "\<lambda>t. holds_permit (cs_phase t)"] by (fastforce simp: starting_def)

definition held_back :: "fluid \<Rightarrow> bool" where
  "held_back s \<longleftrightarrow> fl_shutdown s = Closing \<and> fl_barrier s \<noteq> None"

definition permit_inv :: "fluid \<Rightarrow> bool" where
  "permit_inv s \<longleftrightarrow> fl_permits s + active_starts (fl_starts s) + (if held_back s then fl_capacity s else 0) = fl_capacity s \<and>
     (fl_barrier s \<noteq> None \<longrightarrow> fl_shutdown s \<noteq> Running \<and> fl_registry s = [])"

lemma permit_fail: assumes "permit_inv s" "ids_inv s" shows "permit_inv (fail_start i err now s)"
proof (cases "tget (fl_starts s) i")
  case (Some t)
  show ?thesis
    using assms(1) active_tdel [OF ids_distinct(1) [OF assms(2)] Some]
    by (cases "cs_phase t") (auto simp: permit_inv_def held_back_def fail_start_def Some Let_def tmod_def split: if_splits)
qed (use assms in \<open>simp add: fail_start_def\<close>)

lemma permit_new_start: assumes "permit_inv s" "ids_inv s" shows "permit_inv (new_start kind key s)"
  using assms(1) active_new [OF ids_fresh(1) [OF assms(2)], of key kind] by (auto simp: permit_inv_def held_back_def new_start_def split: if_splits)

lemma permit_admit: assumes "permit_inv s" "ids_inv s" shows "permit_inv (admit_start i now s)"
proof (cases "tget (fl_starts s) i")
  case (Some t)
  then show ?thesis
    using assms active_phase [OF ids_distinct(1) [OF assms(2)] Some, of Ph_Provisioning]
    by (auto simp: admit_start_def permit_fail) (auto simp: set_phase_def permit_inv_def held_back_def split: if_splits)
qed (use assms in \<open>simp add: admit_start_def\<close>)

lemma permit_provisioned: assumes "permit_inv s" "ids_inv s" shows "permit_inv (cell_provisioned i ms s)"
proof (cases "tget (fl_starts s) i")
  case (Some t)
  then show ?thesis
    using assms active_phase [OF ids_distinct(1) [OF assms(2)] Some, of "Ph_Starting (fl_next s) ms"]
    by (auto simp: cell_provisioned_def) (auto simp: set_phase_def permit_inv_def held_back_def split: if_splits)
qed (use assms in \<open>simp add: cell_provisioned_def\<close>)

lemma permit_publish: assumes "permit_inv s" "ids_inv s" shows "permit_inv (publish_start i udp tcp ms now s)"
proof (cases "tget (fl_starts s) i")
  case (Some t)
  show ?thesis
  proof (cases "cs_phase t")
    case (Ph_Starting c pm)
    then show ?thesis
      using assms active_phase [OF ids_distinct(1) [OF assms(2)] Some, of "Ph_Published c"]
      by (auto simp: publish_start_def Some permit_fail)
        (auto simp: set_phase_def permit_inv_def held_back_def tmod_def split: if_splits)
  qed (use assms Some in \<open>auto simp: publish_start_def\<close>)
qed (use assms in \<open>simp add: publish_start_def\<close>)

lemma permit_finish: assumes "permit_inv s" "ids_inv s" shows "permit_inv (finish_start i now s)"
proof (cases "tget (fl_starts s) i")
  case (Some t)
  show ?thesis
  proof (cases "cs_phase t")
    case (Ph_Published c)
    then show ?thesis
      using assms active_tdel [OF ids_distinct(1) [OF assms(2)] Some]
      by (auto simp: finish_start_def Some Let_def permit_inv_def held_back_def tmod_def split: start_kind.splits)
  qed (use assms Some in \<open>auto simp: finish_start_def\<close>)
qed (use assms in \<open>simp add: finish_start_def\<close>)

lemma permit_frame:
  assumes "permit_inv s" and "fl_permits s' = fl_permits s" "fl_starts s' = fl_starts s" "fl_capacity s' = fl_capacity s"
    "fl_shutdown s' = fl_shutdown s" "fl_barrier s' = fl_barrier s" "fl_registry s = [] \<Longrightarrow> fl_barrier s \<noteq> None \<Longrightarrow> fl_registry s' = []"
  shows "permit_inv s'"
  using assms by (auto simp: permit_inv_def held_back_def)

lemma permit_request: assumes "permit_inv s" "ids_inv s" shows "permit_inv (lease_request key f co now s)"
proof (cases "fl_shutdown s = Running")
  case True
  obtain d reg where d: "decide_lease (fl_config s) key co now (fl_registry s) = (d, reg)" by fastforce
  have 1: "ids_inv (s\<lparr>fl_registry := reg\<rparr>)"
    by (rule ids_invI [OF assms(2)])
      (use ids_distinct [OF assms(2)] has_cell_eq [OF decide_lease_spec(1) [OF d]] decide_lease_spec(3) [OF d] in \<open>auto simp: known_def\<close>)
  have "permit_inv (s\<lparr>fl_registry := reg, fl_leases := l\<rparr>)" "permit_inv (s\<lparr>fl_registry := reg\<rparr>)" for l
    using assms(1) True by (auto simp: permit_inv_def held_back_def)
  then show ?thesis using assms permit_new_start [OF _ 1]
    by (auto simp: lease_request_def d Let_def split: lease_decision.splits)
qed (use assms in \<open>simp add: lease_request_def\<close>)

lemma permit_fold_new: "permit_inv s \<Longrightarrow> ids_inv s \<Longrightarrow> permit_inv (fold (new_start kind) ws s)"
  by (induction ws arbitrary: s) (auto intro: permit_new_start ids_new_start)

lemma permit_fold_fail: "permit_inv s \<Longrightarrow> ids_inv s \<Longrightarrow> permit_inv (fold (\<lambda>i. fail_start i err now) ws s)"
  by (induction ws arbitrary: s) (auto intro: permit_fail ids_fail)

lemma fold_tdel_Nil [simp]: "fold tdel ks [] = []"
  by (induction ks) auto

lemma permit_unreg_next: "permit_inv s \<Longrightarrow> permit_inv (unreg_next u s)"
  by (erule permit_frame) (auto simp: unreg_next_def split: option.splits list.splits)

lemma permit_step: assumes "permit_inv s" "ids_inv s" shows "permit_inv (fluid_step e s)"
proof (cases e)
  case (Fe_Register specs)
  show ?thesis using assms(1) by (auto simp: Fe_Register register_many_def permit_inv_def held_back_def)
next
  case (Fe_Autoscale now)
  obtain ws ds reg where r: "reconcile (fl_config s) now (fl_registry s) = (ws, ds, reg)" using prod_cases3 by blast
  have "permit_inv (s\<lparr>fl_registry := reg, fl_drains := drains_of ds\<rparr>)" if "fl_shutdown s = Running"
    using assms(1) that by (auto simp: permit_inv_def held_back_def)
  then show ?thesis using assms(1) permit_fold_new [OF _ ids_reconciled [OF assms(2) r]]
    by (simp add: Fe_Autoscale autoscale_def r Let_def)
next
  case (Fe_Shutdown now)
  have "ids_inv (s\<lparr>fl_shutdown := Closing, fl_drains := []\<rparr>)"
    by (rule ids_invI [OF assms(2)]) (use ids_distinct [OF assms(2)] in \<open>auto simp: known_def\<close>)
  moreover have "permit_inv (s\<lparr>fl_shutdown := Closing, fl_drains := []\<rparr>)" if "fl_shutdown s = Running"
    using assms(1) that by (auto simp: permit_inv_def held_back_def)
  ultimately show ?thesis using assms(1) by (simp add: Fe_Shutdown begin_shutdown_def permit_fold_fail)
next
  case (Fe_Unregister keys)
  have "permit_inv (s\<lparr>fl_next := Suc (fl_next s), fl_registry := fold tdel ks (fl_registry s), fl_unregs := l\<rparr>)" for ks l
    by (rule permit_frame [OF assms(1)]) auto
  then show ?thesis by (simp add: Fe_Unregister unregister_many_def Let_def permit_unreg_next)
next
  case Fe_Barrier
  then show ?thesis using assms(1) by (auto simp: shutdown_barrier_def Let_def permit_inv_def held_back_def split: if_splits)
next
  case Fe_Shutdown_Done
  then show ?thesis using assms(1) by (auto simp: shutdown_done_def draining_down_def permit_inv_def held_back_def split: if_splits)
next
  case Fe_Shutdown_Timeout
  then show ?thesis using assms(1) by (auto simp: shutdown_timeout_def permit_inv_def held_back_def split: if_splits)
next
  case (Fe_Mark_Dead key c now)
  show ?thesis unfolding Fe_Mark_Dead fluid_step.simps
    by (rule permit_frame [OF assms(1)]) (auto simp: mark_dead_def split: option.splits)
qed (use assms in \<open>auto simp: permit_unreg_next intro: permit_request permit_admit permit_provisioned permit_publish permit_finish
    permit_fail\<close>,
  (rule permit_frame [OF assms(1)]; simp add: on_pool_def tmod_def drop_lease_def drain_enqueue_def drain_finish_def term_pick_def worker_take_def
      term_done_def stop_worker_def final_terminate_def Let_def split: option.splits worker_state.splits)+)

lemma capacity_step: "fl_capacity (fluid_step e s) = fl_capacity s"
proof -
  have n: "fl_capacity (fold (new_start kind) ws t) = fl_capacity t" for kind ws t
    by (rule fold_invariant [where P = "\<lambda>u. fl_capacity u = fl_capacity t"]) (simp_all add: new_start_def)
  have f: "fl_capacity (fold (\<lambda>i. fail_start i err now) ws t) = fl_capacity t" for err now ws t
    by (rule fold_invariant [where P = "\<lambda>u. fl_capacity u = fl_capacity t"]) simp_all
  have u: "fl_capacity (unreg_next v t) = fl_capacity t" for v t
    by (simp add: unreg_next_def split: option.splits list.splits)
  show ?thesis
    by (cases e) (auto simp: n f u on_pool_def register_many_def lease_request_def admit_start_def cell_provisioned_def set_phase_def
        publish_start_def finish_start_def drop_lease_def mark_dead_def unregister_many_def autoscale_def drain_enqueue_def
        drain_finish_def term_pick_def worker_take_def term_done_def begin_shutdown_def shutdown_barrier_def stop_worker_def final_terminate_def
        shutdown_done_def shutdown_timeout_def new_start_def Let_def split: option.splits start_phase.splits start_kind.splits
        prod.splits lease_decision.splits worker_state.splits)
qed

lemma permit_run: "permit_inv (fluid_run cfg cap evs) \<and> fl_capacity (fluid_run cfg cap evs) = cap"
proof (rule fluid_run_invariant [where ok = "\<lambda>_. True" and P = "\<lambda>s. (ids_inv s \<and> permit_inv s) \<and> fl_capacity s = cap", THEN conj_forward])
  show "(ids_inv (fluid_new cfg cap) \<and> permit_inv (fluid_new cfg cap)) \<and> fl_capacity (fluid_new cfg cap) = cap"
    by (simp add: ids_new) (simp add: fluid_new_def permit_inv_def held_back_def)
qed (simp_all add: ids_step permit_step capacity_step list_all_iff)

section \<open>Nothing is lost\<close>

definition attentive :: "fluid_event \<Rightarrow> bool" where
  "attentive e = (case e of Fe_Unreg_Cancel _ \<Rightarrow> False | _ \<Rightarrow> True)"

lemma tracked_run: "list_all attentive evs \<Longrightarrow> tracked (fluid_run cfg cap evs)"
proof (rule fluid_run_invariant [where P = "\<lambda>s. ids_inv s \<and> tracked s", THEN conjunct2])
  show "ids_inv (fluid_new cfg cap) \<and> tracked (fluid_new cfg cap)"
    by (simp add: ids_new) (simp add: fluid_new_def tracked_def)
  show "ids_inv (fluid_step e s) \<and> tracked (fluid_step e s)" if "attentive e" "ids_inv s \<and> tracked s" for e s
    using that by (auto simp: attentive_def intro!: ids_step tracked_step)
qed

text \<open>C2: No cell leaks: as long as nobody who unregisters pools is cancelled, every cell the backend runs
  is in the registry, queued for termination, in a cold start that will publish or terminate it, or in
  the hands of an unregistration; and never more cold starts hold a permit than the node allows.\<close>

theorem fluid_no_cell_lost:
  assumes "list_all attentive evs"
  shows "list_all (owned (fluid_run cfg cap evs)) (fl_cells (fluid_run cfg cap evs)) \<and>
    active_starts (fl_starts (fluid_run cfg cap evs)) \<le> cap"
  using tracked_run [OF assms, of cfg cap] permit_run [of cfg cap evs] by (auto simp: tracked_def permit_inv_def list_all_iff)

definition demo_spec :: "string \<Rightarrow> nat \<Rightarrow> pool_spec" where
  "demo_spec key min_i = \<lparr>ps_key = key, ps_cfg = fn_config_default\<lparr>fc_min_instances := min_i, fc_max_concurrency := 1\<rparr>,
     ps_image = ''img'', ps_workdir = ''/srv'', ps_tenant = []\<rparr>"

definition demo_start :: "fluid_event list" where
  "demo_start = [Fe_Register [demo_spec ''d/f'' 0], Fe_Request ''d/f'' True True 10, Fe_Admit 0 10, Fe_Provisioned 0 3,
     Fe_Publish 0 [] [] 2 20, Fe_Finish 0 20, Fe_Request ''d/f'' True True 30, Fe_Admit 2 30, Fe_Provisioned 2 3]"

theorem fluid_no_cell_lost_witness:
  "fl_cells (fluid_run fluid_config_default 4 demo_start) = [3, 1] \<and>
   list_all (owned (fluid_run fluid_config_default 4 demo_start)) [3, 1]"
proof -
  have "fl_cells (fluid_run fluid_config_default 4 demo_start) = [3, 1]" by code_simp
  moreover have "list_all attentive demo_start" by (simp add: attentive_def demo_start_def)
  ultimately show ?thesis using fluid_no_cell_lost [of demo_start fluid_config_default 4] by simp
qed

text \<open>C6: A shutdown that reports success leaves nothing running, in a run in which nobody who unregistered pools was cancelled before all
  of their cells were enqueued, and when no unregistration is under way as it ends: all permits were taken back, so no cold start is under
  way, and every cell has been terminated. (The first condition is needed: \<open>unregister_cancel_leaks\<close> is a run with such a cancellation where
  the shutdown reports success and a cell still runs.)\<close>

theorem fluid_shutdown_clean:
  assumes "list_all attentive evs" and "s = fluid_run cfg cap evs" and "fl_unregs s = []" and "draining_down s"
    and "fl_result (shutdown_done s) = Some (Inr n)"
  shows "fl_cells (shutdown_done s) = [] \<and> fl_registry (shutdown_done s) = [] \<and> fl_terminating (shutdown_done s) = [] \<and>
    active_starts (fl_starts (shutdown_done s)) = 0 \<and> fl_shutdown (shutdown_done s) = Complete"
proof -
  have p: "permit_inv s" and t: "tracked s" using permit_run [of cfg cap evs] tracked_run [OF assms(1)] assms(2) by auto
  have b: "held_back s" using assms(4) by (simp add: draining_down_def held_back_def)
  have tm: "fl_terminating s = []"
    using assms(4,5) by (auto simp: shutdown_done_def draining_down_def split: if_splits option.splits)
  have a: "active_starts (fl_starts s) = 0" "fl_registry s = []"
    using p b by (auto simp: permit_inv_def held_back_def)
  have "\<not> owned s c" for c
    using starting_active [of "fl_starts s" c] a tm assms(3)
    by (auto simp: owned_def has_cell_def cells_at_def held_def unregistering_def)
  then have "fl_cells s = []" using t by (metis tracked_def list.set_intros(1) neq_Nil_conv)
  then show ?thesis using a tm assms(4) by (simp add: shutdown_done_def)
qed

definition demo_shutdown :: "fluid_event list" where
  "demo_shutdown = demo_start @ [Fe_Shutdown 40, Fe_Fail 2 (Some ''boom'') 41, Fe_Term_Pick, Fe_Barrier, Fe_Stop_Worker,
     Fe_Term_Done True, Fe_Final 1 True]"

theorem fluid_shutdown_clean_witness:
  "fl_cells (shutdown_done (fluid_run fluid_config_default 4 demo_shutdown)) = []"
proof -
  have "fl_unregs (fluid_run fluid_config_default 4 demo_shutdown) = []" "draining_down (fluid_run fluid_config_default 4 demo_shutdown)"
    "fl_result (shutdown_done (fluid_run fluid_config_default 4 demo_shutdown)) = Some (Inr 2)" by code_simp+
  moreover have "list_all attentive demo_shutdown" by (simp add: attentive_def demo_start_def demo_shutdown_def)
  ultimately show ?thesis
    using fluid_shutdown_clean [of demo_shutdown "fluid_run fluid_config_default 4 demo_shutdown" fluid_config_default 4 2] by simp
qed

text \<open>A caller of \<open>unregister_many\<close> that is cancelled after its first cell loses the others: here the shutdown
  reports success, and one cell still runs.\<close>

definition demo_leak :: "fluid_event list" where
  "demo_leak = demo_start @ [Fe_Publish 2 [] [] 2 40, Fe_Finish 2 40, Fe_Unregister [''d/f''], Fe_Unreg_Cancel 4, Fe_Term_Pick,
     Fe_Term_Done True, Fe_Term_Pick, Fe_Shutdown 50, Fe_Barrier, Fe_Stop_Worker, Fe_Shutdown_Done]"

lemma unregister_cancel_leaks:
  "fl_result (fluid_run fluid_config_default 4 demo_leak) = Some (Inr 0)" "fl_cells (fluid_run fluid_config_default 4 demo_leak) = [3]"
  by code_simp+

end
