(* ===== verification/Fluid_Count.thy ===== *)
theory Fluid_Count
  imports Fluid_Inv
begin

text \<open>
  Reservations and requests in flight. Two counters of the code mirror the tasks: \<open>provisioning\<close> of a pool the
  cold starts that have not published, \<open>inflight\<close> of an instance the leases on it. The locale
  \<open>counting\<close> relates counters to what they count by a relation that increments and decrements keep;
  it is used with \<open>\<le>\<close>, which every run keeps, and with \<open>=\<close>, which runs keep that replace no pool under a
  cold start and lease no instance before keep-warm has finished with it.
\<close>

section \<open>Counters\<close>

locale counting =
  fixes R :: "nat \<Rightarrow> nat \<Rightarrow> bool" and loose :: bool
  assumes succ: "R a b \<Longrightarrow> R (Suc a) (Suc b)"
    and pred: "R a (Suc b) \<Longrightarrow> R (a - 1) b"
    and zero: "R 0 0"
    and reset: "loose \<Longrightarrow> R 0 b"
begin

lemma add: "R a b \<Longrightarrow> R (a + n) (b + n)"
  by (induction n) (auto dest: succ)

lemma one: "R 1 1"
  using succ [OF zero] by simp

lemma drop_one: "R a b \<Longrightarrow> b = Suc b' \<Longrightarrow> R (a - 1) b'"
  using pred by blast

end

interpretation upper: counting "(\<le>)" True
  by unfold_locales auto

interpretation exact: counting "(=)" False
  by unfold_locales auto

section \<open>What is counted\<close>

definition unpublished :: "cold_start \<Rightarrow> bool" where
  "unpublished t = (case cs_phase t of Ph_Published _ \<Rightarrow> False | _ \<Rightarrow> True)"

definition pending :: "string \<Rightarrow> fluid \<Rightarrow> nat" where
  "pending k s = tcount (\<lambda>t. cs_key t = k \<and> unpublished t) (fl_starts s)"

definition users :: "string \<Rightarrow> cell \<Rightarrow> fluid \<Rightarrow> nat" where
  "users k c s = count_list (fl_leases s) (k, c) + tcount (\<lambda>t. cs_key t = k \<and> cs_phase t = Ph_Published c) (fl_starts s)"

text \<open>The events that keep the counters exact in a state.\<close>

definition settled :: "fluid_event \<Rightarrow> fluid \<Rightarrow> bool" where
  "settled e s =
     (case e of
        Fe_Register specs \<Rightarrow> list_all (\<lambda>sp. pending (ps_key sp) s = 0) specs
      | Fe_Finish i now \<Rightarrow>
          (case tget (fl_starts s) i of
             None \<Rightarrow> True
           | Some t \<Rightarrow> (case cs_phase t of Ph_Published c \<Rightarrow> cs_kind t = Demand \<or> users (cs_key t) c s = 1 | _ \<Rightarrow> True))
      | _ \<Rightarrow> True)"

fun orderly :: "fluid_event list \<Rightarrow> fluid \<Rightarrow> bool" where
  "orderly [] s = True"
| "orderly (e # es) s = (settled e s \<and> orderly es (fluid_step e s))"

lemma orderly_snoc: "orderly (es @ [e]) s \<longleftrightarrow> orderly es s \<and> settled e (fold fluid_step es s)"
  by (induction es arbitrary: s) auto

lemma orderly_invariant:
  assumes "P (fluid_new cfg cap)" and "\<And>e s. settled e s \<Longrightarrow> ok e \<Longrightarrow> P s \<Longrightarrow> P (fluid_step e s)"
    and "orderly evs (fluid_new cfg cap)" and "list_all ok evs"
  shows "P (fluid_run cfg cap evs)"
  using assms(3,4)
proof (induction evs rule: rev_induct)
  case (snoc e evs)
  then have "settled e (fluid_run cfg cap evs)" by (simp add: orderly_snoc fluid_run_def)
  then show ?case using snoc assms(2) by (auto simp: orderly_snoc)
qed (simp add: assms(1))

section \<open>Reservations\<close>

lemma pending_frame: "fl_starts s' = fl_starts s \<Longrightarrow> pending k s' = pending k s"
  by (simp add: pending_def)

lemma pending_new_start: "ids_inv s \<Longrightarrow> pending k (new_start kind key s) = pending k s + (if key = k then 1 else 0)"
  using ids_fresh(1) [of s] by (simp add: pending_def new_start_def tcount_new unpublished_def del: set_map)

lemma pending_fold_new: "ids_inv s \<Longrightarrow> pending k (fold (new_start kind) ws s) = pending k s + count_list ws k"
  by (induction ws arbitrary: s) (auto simp: pending_new_start ids_new_start)

lemma pending_phase:
  assumes "ids_inv s" "tget (fl_starts s) i = Some t" "unpublished t"
  shows "pending k (set_phase i ph s) + (if cs_key t = k \<and> \<not> unpublished (t\<lparr>cs_phase := ph\<rparr>) then 1 else 0) = pending k s"
  using tcount_tmod [OF ids_distinct(1) [OF assms(1)] assms(2), of "\<lambda>t. cs_key t = k \<and> unpublished t" "\<lambda>t. t\<lparr>cs_phase := ph\<rparr>"] assms(3)
  by (auto simp: pending_def set_phase_def split: if_splits)

lemma pending_tdel:
  assumes "ids_inv s" "tget (fl_starts s) i = Some t"
  shows "pending k s = (if cs_key t = k \<and> unpublished t then 1 else 0) + pending k (s\<lparr>fl_starts := tdel i (fl_starts s)\<rparr>)"
  using tcount_tdel [OF ids_distinct(1) [OF assms(1)] assms(2), of "\<lambda>t. cs_key t = k \<and> unpublished t"] by (simp add: pending_def)

named_theorems same_prov \<open>operations on a pool that keep its reservations\<close>

lemma prov_simps [same_prov, simp]:
  "fp_provisioning (release_lease c ms now p) = fp_provisioning p" "fp_provisioning (close_circuit p) = fp_provisioning p"
  "fp_provisioning (warm_started c now p) = fp_provisioning p" "fp_provisioning (adapt_apply samples cur mx p) = fp_provisioning p"
  "fp_provisioning (update_config cf p) = fp_provisioning p" "fp_provisioning (set_min_instances n p) = fp_provisioning p"
  "fp_provisioning (record_browser_request ms p) = fp_provisioning p" "fp_provisioning (bump_nack r p) = fp_provisioning p"
  "fp_provisioning (forget_cell c p) = fp_provisioning p"
  by (auto simp: release_lease_def close_circuit_def warm_started_def adapt_apply_def update_config_def set_min_instances_def
      record_browser_request_def bump_nack_def forget_cell_def Let_def split: option.splits nack_reason.splits)

lemma prov_set_safe: "set_safe_concurrency n p = Some p' \<Longrightarrow> fp_provisioning p' = fp_provisioning p"
  by (auto simp: set_safe_concurrency_def split: option.splits if_splits)

lemma prov_changes [simp]:
  "fp_provisioning (reserve_start p) = Suc (fp_provisioning p)"
  "fp_provisioning (cold_start_failed err now p) = fp_provisioning p - 1"
  "fp_provisioning (publish_instance c udp tcp pm ms now p) = fp_provisioning p - 1"
  by (auto simp: reserve_start_def cold_start_failed_def publish_instance_def Let_def split: option.splits)

text \<open>What \<open>decide_lease\<close> does to the registry.\<close>

lemma decide_lease_cases:
  assumes "decide_lease cfg key co now reg = (d, reg')"
  obtains (none) "reg' = reg" "d \<noteq> Ld_Cold_Start" "\<And>c. d \<noteq> Ld_Ready c"
  | (nack) p r where "tget reg key = Some p" "reg' = tput key (bump_nack r p) reg" "d = Ld_Saturated r"
  | (ready) p c "is" where "tget reg key = Some p" "take_slot (effective_concurrency p) now (fp_instances p) = Some (c, is)"
      "reg' = tput key (p\<lparr>fp_instances := is\<rparr>) reg" "d = Ld_Ready c"
  | (start) p where "tget reg key = Some p" "reg' = tput key (reserve_start p) reg" "d = Ld_Cold_Start"
      "live_count p < fc_max_instances (fp_cfg p)"
      "fg_max_instances_per_tenant cfg > 0 \<longrightarrow> tenant_live (fp_tenant p) reg < fg_max_instances_per_tenant cfg"
      "take_slot (effective_concurrency p) now (fp_instances p) = None"
proof (cases "tget reg key")
  case None
  then show ?thesis using assms none by (simp add: decide_lease_def)
next
  case (Some p)
  show ?thesis
  proof (cases "take_slot (effective_concurrency p) now (fp_instances p)")
    case None
    then show ?thesis using assms Some none nack start by (auto simp: decide_lease_def split: if_splits)
  next
    case sl: (Some x)
    then show ?thesis using assms Some ready [OF Some] by (cases x) (auto simp: decide_lease_def)
  qed
qed

lemma ids_decided:
  assumes "ids_inv s" "decide_lease cfg key co now (fl_registry s) = (d, reg)"
  shows "ids_inv (s\<lparr>fl_registry := reg\<rparr>)"
  by (rule ids_invI [OF assms(1)])
    (use ids_distinct [OF assms(1)] has_cell_eq [OF decide_lease_spec(1) [OF assms(2)]] decide_lease_spec(3) [OF assms(2)]
      in \<open>auto simp: known_def\<close>)

lemma reconcile_warm_count:
  "distinct (tkeys reg) \<Longrightarrow> reconcile cfg now reg = (ws, ds, reg') \<Longrightarrow>
    count_list ws k = (case tget reg k of None \<Rightarrow> 0 | Some p \<Rightarrow> fst (reconcile_pool cfg now p))"
proof (induction reg arbitrary: ws ds reg')
  case (Cons x reg)
  obtain k' p where x: "x = (k', p)" by fastforce
  obtain n d1 p1 where r1: "reconcile_pool cfg now p = (n, d1, p1)" using prod_cases3 by blast
  obtain w2 d2 reg2 where r2: "reconcile cfg now reg = (w2, d2, reg2)" using prod_cases3 by blast
  have c: "count_list (replicate n k') k = (if k' = k then n else 0)" by (induction n) auto
  have "ws = replicate n k' @ w2" using Cons.prems by (auto simp: x r1 r2)
  moreover have "tget reg k' = None" using Cons.prems(1) by (simp add: x tget_None_iff)
  ultimately show ?case using Cons.IH [OF _ r2] Cons.prems(1) by (auto simp: x c r1 split: option.splits)
qed simp

text \<open>Events that concern neither pools nor requests.\<close>

fun aside :: "fluid_event \<Rightarrow> bool" where
  "aside (Fe_Unreg_Next u) = True"
| "aside (Fe_Unreg_Cancel u) = True"
| "aside (Fe_Drain_Enqueue j) = True"
| "aside Fe_Term_Pick = True"
| "aside (Fe_Term_Done ok) = True"
| "aside Fe_Stop_Worker = True"
| "aside (Fe_Final c ok) = True"
| "aside Fe_Shutdown_Done = True"
| "aside Fe_Shutdown_Timeout = True"
| "aside e = False"

lemma aside_frame:
  "aside e \<Longrightarrow> fl_registry (fluid_step e s) = fl_registry s \<and> fl_starts (fluid_step e s) = fl_starts s \<and>
     fl_leases (fluid_step e s) = fl_leases s \<and> fl_config (fluid_step e s) = fl_config s"
  by (cases e) (auto simp: unreg_next_def drain_enqueue_def term_pick_def worker_take_def term_done_def stop_worker_def final_terminate_def
      shutdown_done_def shutdown_timeout_def Let_def split: option.splits list.splits worker_state.splits)

context counting
begin

definition reserved :: "fluid \<Rightarrow> bool" where
  "reserved s \<longleftrightarrow> (\<forall>k p. tget (fl_registry s) k = Some p \<longrightarrow> R (fp_provisioning p) (pending k s))"

lemma reserved_on_pool: "reserved s \<Longrightarrow> (\<And>p. fp_provisioning (f p) = fp_provisioning p) \<Longrightarrow> reserved (on_pool k f s)"
  by (auto simp: reserved_def on_pool_def pending_def split: if_splits)

lemma reserved_fail: assumes "reserved s" "ids_inv s" shows "reserved (fail_start i err now s)"
proof (cases "tget (fl_starts s) i")
  case (Some t)
  show ?thesis
  proof (cases "unpublished t")
    case True
    have st: "fl_starts (fail_start i err now s) = tdel i (fl_starts s)"
      "fl_registry (fail_start i err now s) = tmod (cs_key t) (cold_start_failed err now) (fl_registry s)"
      using True by (auto simp: fail_start_def Some Let_def unpublished_def split: start_phase.splits)
    have pk: "pending k s = (if cs_key t = k then 1 else 0) + pending k (fail_start i err now s)" for k
      using pending_tdel [OF assms(2) Some, of k] True st by (simp add: pending_def)
    show ?thesis unfolding reserved_def
    proof (intro allI impI)
      fix k p assume "tget (fl_registry (fail_start i err now s)) k = Some p"
      then obtain q where q: "tget (fl_registry s) k = Some q" "p = (if k = cs_key t then cold_start_failed err now q else q)"
        by (auto simp: st split: if_splits)
      then have "R (fp_provisioning q) (pending k s)" using assms(1) by (auto simp: reserved_def)
      then show "R (fp_provisioning p) (pending k (fail_start i err now s))"
        using q(2) pk [of k] by (auto dest: drop_one split: if_splits)
    qed
  next
    case False
    then have "fail_start i err now s = s" by (auto simp: fail_start_def Some Let_def unpublished_def split: start_phase.splits)
    then show ?thesis using assms by simp
  qed
qed (use assms in \<open>simp add: fail_start_def\<close>)

text \<open>A change of the registry and the starts that keeps the relation.\<close>

lemma reserved_by:
  assumes "reserved s" and "\<And>k p'. tget (fl_registry s') k = Some p' \<Longrightarrow> \<exists>p. tget (fl_registry s) k = Some p \<and>
    ((\<exists>n. fp_provisioning p' = fp_provisioning p + n \<and> pending k s' = pending k s + n) \<or>
     fp_provisioning p' = fp_provisioning p - 1 \<and> pending k s = Suc (pending k s'))"
  shows "reserved s'"
  unfolding reserved_def
proof (intro allI impI)
  fix k p' assume k: "tget (fl_registry s') k = Some p'"
  obtain p where p: "tget (fl_registry s) k = Some p"
    "(\<exists>n. fp_provisioning p' = fp_provisioning p + n \<and> pending k s' = pending k s + n) \<or>
     fp_provisioning p' = fp_provisioning p - 1 \<and> pending k s = Suc (pending k s')" using assms(2) [OF k] by blast
  moreover have "R (fp_provisioning p) (pending k s)" using assms(1) p(1) by (simp add: reserved_def)
  ultimately show "R (fp_provisioning p') (pending k s')" using add pred by auto
qed

lemma reserved_same:
  assumes "reserved s" and "fl_starts s' = fl_starts s"
    and "\<And>k p'. tget (fl_registry s') k = Some p' \<Longrightarrow> \<exists>p. tget (fl_registry s) k = Some p \<and> fp_provisioning p' = fp_provisioning p"
  shows "reserved s'"
  using assms(3) pending_frame [OF assms(2)] by (intro reserved_by [OF assms(1)]) fastforce

lemma reserved_phase:
  assumes "reserved s" "ids_inv s" "tget (fl_starts s) i = Some t" "unpublished t" "unpublished (t\<lparr>cs_phase := ph\<rparr>)"
    "fl_starts s' = fl_starts (set_phase i ph s)" "fl_registry s' = fl_registry s"
  shows "reserved s'"
proof -
  have "pending k s' = pending k s" for k
    using pending_phase [OF assms(2-4), of k ph] assms(5) pending_frame [OF assms(6)] by simp
  then show ?thesis using assms(7) by (intro reserved_by [OF assms(1)]) auto
qed

lemma reserved_admit: assumes "reserved s" "ids_inv s" shows "reserved (admit_start i now s)"
proof (cases "tget (fl_starts s) i")
  case (Some t)
  show ?thesis
    using assms reserved_fail [OF assms] by (auto simp: admit_start_def Some set_phase_def unpublished_def intro!: reserved_phase [OF assms Some, of Ph_Provisioning])
qed (use assms in \<open>simp add: admit_start_def\<close>)

lemma reserved_provisioned: assumes "reserved s" "ids_inv s" shows "reserved (cell_provisioned i ms s)"
proof (cases "tget (fl_starts s) i")
  case (Some t)
  show ?thesis
    using assms by (auto simp: cell_provisioned_def Some set_phase_def unpublished_def
      intro!: reserved_phase [OF assms Some, of "Ph_Starting (fl_next s) ms"])
qed (use assms in \<open>simp add: cell_provisioned_def\<close>)

lemma reserved_publish: assumes "reserved s" "ids_inv s" shows "reserved (publish_start i udp tcp ms now s)"
proof (cases "tget (fl_starts s) i")
  case (Some t)
  show ?thesis
  proof (cases "cs_phase t")
    case (Ph_Starting c pm)
    show ?thesis
    proof (cases "tget (fl_registry s) (cs_key t)")
      case None
      then show ?thesis using reserved_fail [OF assms] by (simp add: publish_start_def Some Ph_Starting)
    next
      case (Some p)
      let ?s = "publish_start i udp tcp ms now s"
      have st: "fl_starts ?s = fl_starts (set_phase i (Ph_Published c) s)"
        "fl_registry ?s = tmod (cs_key t) (publish_instance c udp tcp pm ms now) (fl_registry s)"
        using \<open>tget (fl_starts s) i = Some t\<close> Ph_Starting Some by (simp_all add: publish_start_def set_phase_def)
      have pk: "pending k ?s + (if cs_key t = k then 1 else 0) = pending k s" for k
        using pending_phase [OF assms(2) \<open>tget (fl_starts s) i = Some t\<close>, of k "Ph_Published c"] Ph_Starting pending_frame [OF st(1)]
        by (simp add: unpublished_def)
      show ?thesis
      proof (rule reserved_by [OF assms(1)])
        fix k p' assume "tget (fl_registry ?s) k = Some p'"
        then show "\<exists>p. tget (fl_registry s) k = Some p \<and>
            ((\<exists>n. fp_provisioning p' = fp_provisioning p + n \<and> pending k ?s = pending k s + n) \<or>
             fp_provisioning p' = fp_provisioning p - 1 \<and> pending k s = Suc (pending k ?s))"
          using pk [of k] by (auto simp: st split: if_splits)
      qed
    qed
  qed (use assms Some in \<open>simp_all add: publish_start_def\<close>)
qed (use assms in \<open>simp add: publish_start_def\<close>)

lemma reserved_finish: assumes "reserved s" "ids_inv s" shows "reserved (finish_start i now s)"
proof (cases "tget (fl_starts s) i")
  case (Some t)
  show ?thesis
  proof (cases "cs_phase t")
    case (Ph_Published c)
    have pk: "pending k (finish_start i now s) = pending k s" for k
      using pending_tdel [OF assms(2) Some, of k] Ph_Published
      by (auto simp: finish_start_def Some unpublished_def Let_def pending_def split: start_kind.splits)
    show ?thesis
      by (rule reserved_by [OF assms(1)])
        (use pk Ph_Published in \<open>auto simp: finish_start_def Some Let_def split: start_kind.splits if_splits\<close>)
  qed (use assms Some in \<open>simp_all add: finish_start_def\<close>)
qed (use assms in \<open>simp add: finish_start_def\<close>)

lemma reserved_request: assumes "reserved s" "ids_inv s" shows "reserved (lease_request key f co now s)"
proof -
  obtain d reg where d: "decide_lease (fl_config s) key co now (fl_registry s) = (d, reg)" by fastforce
  have "reserved (case d of Ld_Ready c \<Rightarrow> s\<lparr>fl_registry := reg, fl_leases := (key, c) # fl_leases s\<rparr>
      | Ld_Cold_Start \<Rightarrow> new_start Demand key (s\<lparr>fl_registry := reg\<rparr>) | _ \<Rightarrow> s\<lparr>fl_registry := reg\<rparr>)"
    using d
  proof (cases rule: decide_lease_cases)
    case none
    then show ?thesis by (cases d) (auto intro: reserved_same [OF assms(1)])
  next
    case (nack p r)
    then show ?thesis by (auto intro!: reserved_same [OF assms(1)] split: if_splits)
  next
    case (ready p c "is")
    then show ?thesis by (auto intro!: reserved_same [OF assms(1)] split: if_splits)
  next
    case (start p)
    have "pending k (new_start Demand key (s\<lparr>fl_registry := reg\<rparr>)) = pending k s + (if key = k then 1 else 0)" for k
      using pending_new_start [OF ids_decided [OF assms(2) d], of k Demand key] by (simp add: pending_def)
    then show ?thesis using start by (auto intro!: reserved_by [OF assms(1)] simp: new_start_def split: if_splits)
  qed
  then show ?thesis using assms(1) by (simp add: lease_request_def d Let_def split: lease_decision.splits)
qed

lemma reserved_autoscale: assumes "reserved s" "ids_inv s" shows "reserved (autoscale now s)"
proof -
  obtain ws ds reg where r: "reconcile (fl_config s) now (fl_registry s) = (ws, ds, reg)" using prod_cases3 by blast
  let ?s = "s\<lparr>fl_registry := reg, fl_drains := drains_of ds\<rparr>"
  have pk: "pending k (fold (new_start Keep_Warm) ws ?s) = pending k s + count_list ws k" for k
    using pending_fold_new [OF ids_reconciled [OF assms(2) r], of k Keep_Warm ws] by (simp add: pending_def)
  have fr: "fl_registry (fold (new_start Keep_Warm) ws ?s) = reg" by (rule fold_invariant) (simp_all add: new_start_def)
  have "reserved (fold (new_start Keep_Warm) ws ?s)"
  proof (rule reserved_by [OF assms(1)])
    fix k p' assume "tget (fl_registry (fold (new_start Keep_Warm) ws ?s)) k = Some p'"
    then obtain p where p: "tget (fl_registry s) k = Some p" "p' = snd (snd (reconcile_pool (fl_config s) now p))"
      using reconcile_at [OF r, of k] fr by auto
    obtain n d q where q: "reconcile_pool (fl_config s) now p = (n, d, q)" using prod_cases3 by blast
    have "count_list ws k = n" using reconcile_warm_count [OF ids_distinct(2) [OF assms(2)] r, of k] p(1) q by simp
    then show "\<exists>p. tget (fl_registry s) k = Some p \<and>
        ((\<exists>n. fp_provisioning p' = fp_provisioning p + n \<and> pending k (fold (new_start Keep_Warm) ws ?s) = pending k s + n) \<or>
         fp_provisioning p' = fp_provisioning p - 1 \<and> pending k s = Suc (pending k (fold (new_start Keep_Warm) ws ?s)))"
      using p q pk [of k] reconcile_pool_spec(2) [OF q] by auto
  qed
  then show ?thesis using assms(1) by (simp add: autoscale_def r Let_def)
qed

lemma reserved_shutdown: assumes "reserved s" "ids_inv s" shows "reserved (begin_shutdown now s)"
proof -
  have "reserved (s\<lparr>fl_shutdown := Closing, fl_drains := []\<rparr>)" by (rule reserved_same [OF assms(1)]) auto
  moreover have "ids_inv (s\<lparr>fl_shutdown := Closing, fl_drains := []\<rparr>)"
    by (rule ids_invI [OF assms(2)]) (use ids_distinct [OF assms(2)] in \<open>auto simp: known_def\<close>)
  ultimately have "reserved (fold (\<lambda>i. fail_start i None now) ws (s\<lparr>fl_shutdown := Closing, fl_drains := []\<rparr>)) \<and>
      ids_inv (fold (\<lambda>i. fail_start i None now) ws (s\<lparr>fl_shutdown := Closing, fl_drains := []\<rparr>))" for ws
    by (intro fold_invariant [where P = "\<lambda>s. reserved s \<and> ids_inv s"]) (auto intro: reserved_fail ids_fail)
  then show ?thesis using assms(1) by (simp add: begin_shutdown_def)
qed

text \<open>Replacing a pool is right when nothing starts in it, or when only the upper bound is asked for.\<close>

lemma reserved_register:
  assumes "reserved s" and "loose \<or> list_all (\<lambda>sp. pending (ps_key sp) s = 0) specs"
  shows "reserved (register_many specs s)"
proof -
  define good where "good reg \<longleftrightarrow> (\<forall>k p. tget reg k = Some p \<longrightarrow> R (fp_provisioning p) (pending k s))" for reg :: registry
  have start: "good (fl_registry s)" using assms(1) by (simp add: good_def reserved_def)
  have "good (fold (install reg0) specs reg)" if "good reg" "\<forall>sp \<in> set sps. R 0 (pending (ps_key sp) s)" "specs = sps" for reg0 reg sps
    using that
  proof (induction specs arbitrary: reg sps)
    case (Cons sp specs)
    have "good (install reg0 sp reg)"
      using Cons.prems by (auto simp: good_def install_def pool_from_spec_def)
    then show ?case using Cons by auto
  qed simp
  moreover have "\<forall>sp \<in> set specs. R 0 (pending (ps_key sp) s)"
    using assms(2) zero reset by (auto simp: list_all_iff)
  ultimately have "good (fold (install (fl_registry s)) specs (fl_registry s))" using start by blast
  moreover have "fl_starts (register_many specs s) = fl_starts s" by (simp add: register_many_def)
  ultimately show ?thesis
    using register_registry [of specs s] assms(1) start pending_frame [of "register_many specs s" s] by (auto simp: reserved_def good_def)
qed

lemma reserved_step:
  assumes "reserved s" "ids_inv s" "loose \<or> settled e s"
  shows "reserved (fluid_step e s)"
proof (cases "aside e")
  case True
  show ?thesis by (rule reserved_same [OF assms(1)]) (use aside_frame [OF True, of s] in auto)
next
  case False
  note same = reserved_same [OF assms(1)]
  show ?thesis
  proof (cases e)
    case (Fe_Register specs)
    then show ?thesis using reserved_register [OF assms(1), of specs] assms(3) by (auto simp: settled_def)
  next
    case (Fe_Set_Safe key n)
    then show ?thesis by (auto intro!: reserved_on_pool [OF assms(1)] simp: prov_set_safe split: option.splits)
  next
    case (Fe_Mark_Dead key c now)
    then show ?thesis using assms(1) by (auto simp: mark_dead_def intro!: same split: option.splits if_splits)
  next
    case (Fe_Unregister keys)
    show ?thesis
      by (rule same) (auto simp: Fe_Unregister unregister_many_def unreg_next_def Let_def tget_fold_tdel split: option.splits list.splits if_splits)
  next
    case (Fe_Release key c ms now)
    show ?thesis by (rule same) (auto simp: Fe_Release drop_lease_def split: if_splits)
  next
    case (Fe_Drain_Finish j)
    show ?thesis by (rule same) (auto simp: Fe_Drain_Finish drain_finish_def Let_def split: if_splits)
  next
    case (Fe_Adapt key samples cur mx)
    then show ?thesis by (auto intro: reserved_on_pool [OF assms(1)])
  next
    case Fe_Barrier
    show ?thesis by (rule same) (auto simp: Fe_Barrier shutdown_barrier_def Let_def split: if_splits)
  next
    case (Fe_Shutdown now)
    then show ?thesis using reserved_shutdown [OF assms(1,2)] by simp
  qed (use assms False in \<open>auto intro: reserved_on_pool reserved_fail reserved_admit reserved_provisioned
      reserved_publish reserved_finish reserved_request reserved_autoscale\<close>)
qed

lemma reserved_new: "reserved (fluid_new cfg cap)"
  by (simp add: reserved_def fluid_new_def)

end

end
