(* ===== verification/Fluid_Users.thy ===== *)
theory Fluid_Users
  imports Fluid_Count
begin

text \<open>
  Requests in flight. What a pool knows of an instance's load (\<open>in_inflight\<close>) is compared with the leases that
  callers hold on its cell and with the starts that have published it and not yet returned.
\<close>

section \<open>Loads\<close>

abbreviation load_of :: "function_pool \<Rightarrow> (cell \<times> nat) list" where
  "load_of p \<equiv> map (\<lambda>i. (in_cell i, in_inflight i)) (fp_instances p)"

definition loads :: "registry \<Rightarrow> string \<Rightarrow> (cell \<times> nat) list" where
  "loads reg k = (case tget reg k of None \<Rightarrow> [] | Some p \<Rightarrow> load_of p)"

definition at_load :: "cell \<Rightarrow> (nat \<Rightarrow> nat) \<Rightarrow> (cell \<times> nat) list \<Rightarrow> (cell \<times> nat) list" where
  "at_load c g = map (\<lambda>(d, n). (d, if d = c then g n else n))"

lemma at_load_simps [simp]: "at_load c g [] = []" "at_load c g ((d, n) # xs) = (d, if d = c then g n else n) # at_load c g xs"
  by (simp_all add: at_load_def)

lemma at_load_fst [simp]: "map fst (at_load c g xs) = map fst xs"
  by (induction xs) (auto simp: at_load_def)

lemma at_load_id: "c \<notin> set (map fst xs) \<Longrightarrow> at_load c g xs = xs"
  by (induction xs) (auto simp: at_load_def)

lemma in_at_load: "(d, n) \<in> set (at_load c g xs) \<longleftrightarrow> (\<exists>m. (d, m) \<in> set xs \<and> n = (if d = c then g m else m))"
  by (auto simp: at_load_def image_iff split: if_splits; force)

lemma cells_at_loads: "cells_at reg k = map fst (loads reg k)"
  by (simp add: cells_at_def loads_def split: option.splits)

lemma loads_tmod: "loads (tmod key f reg) k = (if k = key then (case tget reg k of None \<Rightarrow> [] | Some p \<Rightarrow> load_of (f p)) else loads reg k)"
  by (auto simp: loads_def split: option.splits)

lemma loads_tput: "loads (tput key p reg) k = (if k = key then load_of p else loads reg k)"
  by (simp add: loads_def)

lemma loads_pool: "tget reg k = Some p \<Longrightarrow> loads reg k = load_of p"
  by (simp add: loads_def)

text \<open>In a list without a cell twice, a change at the first match is one at the cell.\<close>

lemma load_upd_first:
  assumes "distinct (map in_cell is)" "\<And>i. in_cell (f i) = in_cell i" "\<And>i. in_inflight (f i) = g (in_inflight i)"
  shows "map (\<lambda>i. (in_cell i, in_inflight i)) (upd_first (\<lambda>i. in_cell i = c) f is) = at_load c g (map (\<lambda>i. (in_cell i, in_inflight i)) is)"
  using assms(1)
proof (induction "is")
  case (Cons i "is")
  then show ?case using assms(2,3)
    by (cases "in_cell i = c") (auto simp: at_load_id comp_def)
qed simp

lemma load_take_slot_choice:
  assumes "take_slot mc now is = Some (c, is')"
  shows "\<exists>i \<in> set is. in_cell i = c \<and> free_slot mc i \<and> (\<forall>j \<in> set is. free_slot mc j \<longrightarrow> in_inflight i \<le> in_inflight j)"
  using assms by (fastforce simp: take_slot_def dest!: min_by_key_Some split: option.splits)

lemma load_take_slot:
  assumes "take_slot mc now is = Some (c, is')" "distinct (map in_cell is)"
  shows "map (\<lambda>i. (in_cell i, in_inflight i)) is' = at_load c Suc (map (\<lambda>i. (in_cell i, in_inflight i)) is)"
proof -
  obtain i where i: "min_by_key in_inflight (filter (free_slot mc) is) = Some i" "c = in_cell i"
    "is' = upd_first (\<lambda>j. free_slot mc j \<and> in_inflight j = in_inflight i)
      (\<lambda>j. j\<lparr>in_inflight := in_inflight j + 1, in_last_active_ms := now\<rparr>) is"
    using assms(1) by (auto simp: take_slot_def split: option.splits)
  have "map (\<lambda>i. (in_cell i, in_inflight i)) (upd_first (\<lambda>j. free_slot mc j \<and> in_inflight j = in_inflight i)
      (\<lambda>j. j\<lparr>in_inflight := in_inflight j + 1, in_last_active_ms := now\<rparr>) js) =
      at_load (in_cell i) Suc (map (\<lambda>i. (in_cell i, in_inflight i)) js)"
    if "min_by_key in_inflight (filter (free_slot mc) js) = Some i" "distinct (map in_cell js)" for js
    using that
  proof (induction js)
    case (Cons j js)
    have later: "i \<in> set js" if "min_by_key in_inflight (filter (free_slot mc) js) = Some i"
      using min_by_key_Some [OF that] by simp
    show ?case
    proof (cases "free_slot mc j \<and> in_inflight j = in_inflight i")
      case True
      then have "j = i"
        using Cons.prems min_by_key_Some by (auto split: option.splits if_splits)
      then show ?thesis using True Cons.prems(2) by (simp add: at_load_id comp_def)
    next
      case False
      then have m: "min_by_key in_inflight (filter (free_slot mc) js) = Some i"
        using Cons.prems(1) by (auto split: if_splits option.splits)
      have "in_cell j \<noteq> in_cell i" using later [OF m] Cons.prems(2) by (auto simp: rev_image_eqI)
      then show ?thesis using Cons.IH [OF m] Cons.prems(2) False by auto
    qed
  qed simp
  then show "map (\<lambda>i. (in_cell i, in_inflight i)) is' = at_load c Suc (map (\<lambda>i. (in_cell i, in_inflight i)) is)"
    using i assms(2) by simp
qed

named_theorems same_load \<open>operations on a pool that keep its loads\<close>

lemma same_load_simps [same_load, simp]:
  "fp_instances (cold_start_failed err now p) = fp_instances p" "fp_instances (close_circuit p) = fp_instances p"
  "fp_instances (adapt_apply samples cur mx p) = fp_instances p" "fp_instances (update_config cf p) = fp_instances p"
  "fp_instances (set_min_instances n p) = fp_instances p" "fp_instances (record_browser_request ms p) = fp_instances p"
  "fp_instances (bump_nack r p) = fp_instances p" "fp_instances (reserve_start p) = fp_instances p"
  by (auto simp: cold_start_failed_def close_circuit_def adapt_apply_def update_config_def set_min_instances_def
      record_browser_request_def bump_nack_def reserve_start_def Let_def split: option.splits nack_reason.splits)

lemma load_set_safe: "set_safe_concurrency n p = Some p' \<Longrightarrow> fp_instances p' = fp_instances p"
  by (auto simp: set_safe_concurrency_def split: option.splits if_splits)

lemma load_release: "distinct (cells p) \<Longrightarrow> load_of (release_lease c ms now p) = at_load c (\<lambda>n. n - 1) (load_of p)"
  by (simp add: release_lease_def load_upd_first)

lemma load_warm: "distinct (cells p) \<Longrightarrow> load_of (warm_started c now p) = at_load c (\<lambda>n. 0) (load_of p)"
  by (simp add: warm_started_def load_upd_first [where g = "\<lambda>n. 0"])

lemma load_publish: "load_of (publish_instance c udp tcp pm im now p) = load_of p @ [(c, 1)]"
  by (simp add: publish_instance_def)

lemma load_drained: "list_all2 drained_like is js \<Longrightarrow>
    map (\<lambda>i. (in_cell i, in_inflight i)) js = map (\<lambda>i. (in_cell i, in_inflight i)) is"
  by (induction rule: list_all2_induct) (auto simp: drained_like_def)

lemma reconcile_loads: "reconcile cfg now reg = (ws, ds, reg') \<Longrightarrow> loads reg' k = loads reg k"
proof -
  assume a: "reconcile cfg now reg = (ws, ds, reg')"
  have "load_of (snd (snd (reconcile_pool cfg now p))) = load_of p" for p
    using reconcile_pool_spec(1) [of cfg now p] load_drained by (metis prod.collapse)
  then show ?thesis using reconcile_at [OF a] by (auto simp: loads_def split: option.splits)
qed

lemma install_loads:
  "(\<And>k. loads reg k = loads reg0 k) \<Longrightarrow> loads (fold (install reg0) specs reg) k = loads reg0 k"
proof (induction specs arbitrary: reg)
  case (Cons sp specs)
  have "map (\<lambda>i. (in_cell i, in_inflight i)) (orphans reg0 k) = loads reg0 k" for k
    by (auto simp: orphans_def loads_def split: option.splits)
  then have "loads (install reg0 sp reg) k = loads reg0 k" for k
    using Cons.prems [of k] by (auto simp: install_def loads_def split: option.splits)
  then show ?case using Cons.IH by simp
qed simp

section \<open>Whose cell it is\<close>

definition starts_at :: "fluid \<Rightarrow> nat \<Rightarrow> cell \<Rightarrow> bool" where
  "starts_at s i c \<longleftrightarrow> (\<exists>t pm. tget (fl_starts s) i = Some t \<and> cs_phase t = Ph_Starting c pm)"

definition published_at :: "fluid \<Rightarrow> string \<Rightarrow> cell \<Rightarrow> bool" where
  "published_at s k c \<longleftrightarrow> (\<exists>i t. tget (fl_starts s) i = Some t \<and> cs_key t = k \<and> cs_phase t = Ph_Published c)"

definition public_cell :: "fluid \<Rightarrow> cell \<Rightarrow> bool" where
  "public_cell s c \<longleftrightarrow> (\<exists>k. c \<in> set (map fst (loads (fl_registry s) k))) \<or> c \<in> snd ` set (fl_leases s) \<or> (\<exists>k. published_at s k c)"

definition unique_cells :: "fluid \<Rightarrow> bool" where
  "unique_cells s \<longleftrightarrow> (\<forall>k. distinct (map fst (loads (fl_registry s) k))) \<and> (\<forall>c i. public_cell s c \<longrightarrow> \<not> starts_at s i c) \<and>
     (\<forall>c i j. starts_at s i c \<longrightarrow> starts_at s j c \<longrightarrow> i = j)"

lemma starts_known: "starts_at s i c \<Longrightarrow> known s c"
  by (auto simp: starts_at_def known_def intro!: task_cellI)

lemma public_known: "public_cell s c \<Longrightarrow> known s c"
  unfolding public_cell_def published_at_def known_def has_cell_def cells_at_loads
proof (elim disjE exE conjE)
  fix i t assume "tget (fl_starts s) i = Some t" "cs_phase t = Ph_Published c"
  then have "task_cell (fl_starts s) c" using task_cellI [of "fl_starts s" i t c] by simp
  then show "(\<exists>k. c \<in> set (map fst (loads (fl_registry s) k))) \<or> task_cell (fl_starts s) c \<or>
      c \<in> dr_cell ` set (fl_drains s) \<or> c \<in> snd ` set (fl_leases s) \<or> c \<in> set (fl_cells s)" by blast
qed blast+

lemma unique_cellsI:
  assumes u: "unique_cells s" and i: "ids_inv s" and d: "\<And>k. distinct (map fst (loads (fl_registry s') k))"
    and st: "\<And>i c. starts_at s' i c \<Longrightarrow> starts_at s i c \<or> fl_next s \<le> c \<and> (\<forall>j. starts_at s' j c \<longrightarrow> j = i)"
    and pu: "\<And>c. public_cell s' c \<Longrightarrow> public_cell s c \<or> (\<exists>i. starts_at s i c \<and> \<not> starts_at s' i c)"
  shows "unique_cells s'"
proof -
  have lt: "c < fl_next s" if "known s c" for c using i that by (auto simp: ids_inv_def)
  have un: "starts_at s i c \<Longrightarrow> starts_at s j c \<Longrightarrow> i = j" "public_cell s c \<Longrightarrow> \<not> starts_at s i c" for i j c
    using u unfolding unique_cells_def by blast+
  have "\<not> starts_at s' i c" if p: "public_cell s' c" for c i
  proof
    assume a: "starts_at s' i c"
    have "c < fl_next s" using pu [OF p] lt starts_known public_known by blast
    then have i: "starts_at s i c" using st [OF a] by auto
    then have "\<not> public_cell s c" using un(2) by blast
    then obtain j where "starts_at s j c" "\<not> starts_at s' j c" using pu [OF p] by blast
    moreover have "i = j" by (rule un(1) [OF i \<open>starts_at s j c\<close>])
    ultimately show False using a by simp
  qed
  moreover have "i = j" if ij: "starts_at s' i c" "starts_at s' j c" for i j c
    using st [OF ij(1)] st [OF ij(2)] ij un(1) by blast
  ultimately show ?thesis using d unfolding unique_cells_def by blast
qed

text \<open>The common case: the starts are the same, or fewer, and no cell is added.\<close>

lemma unique_cells_mono:
  assumes "unique_cells s" "ids_inv s" and "\<And>k. distinct (map fst (loads (fl_registry s') k))"
    and "\<And>i t. tget (fl_starts s') i = Some t \<Longrightarrow> tget (fl_starts s) i = Some t"
    and "\<And>k c. c \<in> set (map fst (loads (fl_registry s') k)) \<Longrightarrow> public_cell s c"
    and "snd ` set (fl_leases s') \<subseteq> {c. public_cell s c}"
  shows "unique_cells s'"
proof (rule unique_cellsI [OF assms(1-3)])
  show "starts_at s i c \<or> fl_next s \<le> c \<and> (\<forall>j. starts_at s' j c \<longrightarrow> j = i)" if "starts_at s' i c" for i c
    using that assms(4) by (auto simp: starts_at_def)
  have "public_cell s c" if "public_cell s' c" for c
    using that unfolding public_cell_def [of s']
  proof (elim disjE exE)
    show "public_cell s c" if "published_at s' k c" for k
      using that assms(4) unfolding public_cell_def published_at_def by blast
  qed (use assms(5,6) in blast)+
  then show "public_cell s c \<or> (\<exists>i. starts_at s i c \<and> \<not> starts_at s' i c)" if "public_cell s' c" for c
    using that by blast
qed

lemma public_load: "c \<in> set (map fst (loads (fl_registry s) k)) \<Longrightarrow> public_cell s c"
  by (auto simp: public_cell_def)

lemma public_in: "(c, n) \<in> set (loads (fl_registry s) k) \<Longrightarrow> public_cell s c"
  by (force intro: public_load)

lemma public_lease: "c \<in> snd ` set (fl_leases s) \<Longrightarrow> public_cell s c"
  by (simp add: public_cell_def)

lemma public_published: "tget (fl_starts s) i = Some t \<Longrightarrow> cs_phase t = Ph_Published c \<Longrightarrow> public_cell s c"
  by (auto simp: public_cell_def published_at_def)

lemma unique_distinct: "unique_cells s \<Longrightarrow> distinct (map fst (loads (fl_registry s) k))"
  by (simp add: unique_cells_def)

lemma unique_same:
  assumes "unique_cells s" "ids_inv s" "fl_starts s' = fl_starts s" "fl_leases s' = fl_leases s"
    "\<And>k. map fst (loads (fl_registry s') k) = map fst (loads (fl_registry s) k)"
  shows "unique_cells s'"
  using unique_distinct [OF assms(1)] public_load public_lease assms(3-5)
  by (intro unique_cells_mono [OF assms(1,2)]) (fastforce simp: assms(3-5))+

lemma unique_on_pool: "unique_cells s \<Longrightarrow> ids_inv s \<Longrightarrow> (\<And>p. cells (f p) = cells p) \<Longrightarrow> unique_cells (on_pool k f s)"
  by (rule unique_same) (simp_all add: on_pool_def flip: cells_at_loads, simp add: cells_at_tmod)

lemma loads_on: "(\<And>p. fp_instances (f p) = fp_instances p) \<Longrightarrow> loads (tmod key f reg) k = loads reg k"
  by (auto simp: loads_tmod loads_def split: option.splits)

lemma fail_loads [simp]: "loads (fl_registry (fail_start i err now s)) k = loads (fl_registry s) k"
  using fail_start_registry [of i err now s] by (auto simp: loads_on)

lemma unique_fail: assumes "unique_cells s" "ids_inv s" shows "unique_cells (fail_start i err now s)"
proof (rule unique_cells_mono [OF assms])
  show "tget (fl_starts s) j = Some t" if "tget (fl_starts (fail_start i err now s)) j = Some t" for j t
    using fail_start_starts [of i err now s] that by (auto split: if_splits)
qed (use unique_distinct [OF assms(1)] in \<open>auto intro: public_in public_lease\<close>)

text \<open>A start that changes its phase, together with the registry.\<close>

lemma unique_phase:
  assumes "unique_cells s" "ids_inv s" "fl_starts s' = fl_starts (set_phase i ph s)" "fl_leases s' = fl_leases s"
    and ph: "\<And>c. phase_cell ph = Some c \<Longrightarrow> starts_at s i c \<and> ph = Ph_Published c \<or> c = fl_next s \<and> (\<exists>pm. ph = Ph_Starting c pm)"
    and lo: "\<And>k. loads (fl_registry s') k = loads (fl_registry s) k \<or> (\<exists>c. ph = Ph_Published c \<and> loads (fl_registry s') k = loads (fl_registry s) k @ [(c, 1)])"
  shows "unique_cells s'"
proof (rule unique_cellsI [OF assms(1,2)])
  show "starts_at s j c \<or> fl_next s \<le> c \<and> (\<forall>j'. starts_at s' j' c \<longrightarrow> j' = j)" if "starts_at s' j c" for j c
  proof (cases "j = i")
    case True
    then have "c = fl_next s" using ph [of c] that by (auto simp: starts_at_def assms(3) set_phase_def)
    moreover have "j' = i" if "starts_at s' j' (fl_next s)" for j'
    proof (rule ccontr)
      assume "j' \<noteq> i"
      then have "starts_at s j' (fl_next s)" using that by (simp add: starts_at_def assms(3) set_phase_def)
      then show False using starts_known ids_fresh(3) [OF assms(2)] by blast
    qed
    ultimately show ?thesis using True by auto
  qed (use that in \<open>simp add: starts_at_def assms(3) set_phase_def\<close>)
  have gone: "starts_at s i c \<and> \<not> starts_at s' i c" if "ph = Ph_Published c" for c
    using ph [of c] that by (auto simp: starts_at_def assms(3) set_phase_def)
  show "public_cell s c \<or> (\<exists>j. starts_at s j c \<and> \<not> starts_at s' j c)" if p: "public_cell s' c" for c
    using p unfolding public_cell_def [of s']
  proof (elim disjE exE)
    show ?thesis if "c \<in> set (map fst (loads (fl_registry s') k))" for k
    proof -
      have "c \<in> set (map fst (loads (fl_registry s) k)) \<or> ph = Ph_Published c" using lo [of k] that by auto
      then show ?thesis using gone [of c] public_load by blast
    qed
    show ?thesis if "c \<in> snd ` set (fl_leases s')" using that assms(4) by (simp add: public_lease)
    show ?thesis if pb: "published_at s' k c" for k
    proof -
      obtain j t where t: "tget (fl_starts s') j = Some t" "cs_phase t = Ph_Published c" using pb by (auto simp: published_at_def)
      then have "ph = Ph_Published c \<or> tget (fl_starts s) j = Some t" by (auto simp: assms(3) set_phase_def split: if_splits)
      then show ?thesis using gone public_published t(2) by blast
    qed
  qed
  show "distinct (map fst (loads (fl_registry s') k))" for k
  proof (cases "loads (fl_registry s') k = loads (fl_registry s) k")
    case False
    then obtain c where c: "ph = Ph_Published c" "loads (fl_registry s') k = loads (fl_registry s) k @ [(c, 1)]" using lo by blast
    have "c \<notin> set (map fst (loads (fl_registry s) k))"
      using gone [OF c(1)] assms(1) public_load unfolding unique_cells_def by blast
    then show ?thesis using c(2) unique_distinct [OF assms(1), of k] by simp
  qed (use unique_distinct [OF assms(1)] in simp)
qed

lemma unique_new_start: assumes "unique_cells s" "ids_inv s" shows "unique_cells (new_start kind key s)"
proof (rule unique_cellsI [OF assms])
  have ne: "tget (fl_starts (new_start kind key s)) j = (if j = fl_next s then Some \<lparr>cs_key = key, cs_kind = kind, cs_phase = Ph_Waiting\<rparr>
      else tget (fl_starts s) j)" for j by (simp add: new_start_def)
  have fields: "fl_registry (new_start kind key s) = fl_registry s" "fl_leases (new_start kind key s) = fl_leases s"
    by (simp_all add: new_start_def)
  have old: "starts_at s j c" if "starts_at (new_start kind key s) j c" for j c
    using that by (auto simp: starts_at_def ne split: if_splits)
  have pb: "published_at s k c" if "published_at (new_start kind key s) k c" for k c
    using that by (auto simp: published_at_def ne split: if_splits)
  show "distinct (map fst (loads (fl_registry (new_start kind key s)) k))" for k
    using unique_distinct [OF assms(1)] by (simp add: fields)
  show "starts_at s j c \<or> fl_next s \<le> c \<and> (\<forall>j'. starts_at (new_start kind key s) j' c \<longrightarrow> j' = j)"
    if "starts_at (new_start kind key s) j c" for j c using old [OF that] by blast
  show "public_cell s c \<or> (\<exists>j. starts_at s j c \<and> \<not> starts_at (new_start kind key s) j c)"
    if "public_cell (new_start kind key s) c" for c
    using that pb unfolding public_cell_def fields by blast
qed

lemma unique_admit: assumes "unique_cells s" "ids_inv s" shows "unique_cells (admit_start i now s)"
  using assms by (auto simp: admit_start_def set_phase_def split: option.splits
      intro!: unique_fail unique_phase [OF assms, where i = i and ph = Ph_Provisioning])

lemma unique_provisioned: assumes "unique_cells s" "ids_inv s" shows "unique_cells (cell_provisioned i ms s)"
  using assms by (auto simp: cell_provisioned_def set_phase_def split: option.splits
      intro!: unique_phase [OF assms, where i = i and ph = "Ph_Starting (fl_next s) ms"])

lemma unique_publish: assumes "unique_cells s" "ids_inv s" shows "unique_cells (publish_start i udp tcp ms now s)"
proof (cases "tget (fl_starts s) i")
  case (Some t)
  show ?thesis
  proof (cases "cs_phase t")
    case (Ph_Starting c pm)
    have "starts_at s i c" using Some Ph_Starting by (simp add: starts_at_def)
    then show ?thesis using unique_fail [OF assms]
      by (auto simp: publish_start_def Some Ph_Starting set_phase_def loads_tmod loads_pool load_publish split: option.splits
          intro!: unique_phase [OF assms, where i = i and ph = "Ph_Published c"])
  qed (use assms Some in \<open>simp_all add: publish_start_def\<close>)
qed (use assms in \<open>simp add: publish_start_def\<close>)

lemma loads_release: assumes "unique_cells s"
  shows "loads (tmod key (release_lease c ms now) (fl_registry s)) k = (if k = key then at_load c (\<lambda>n. n - 1) (loads (fl_registry s) k) else loads (fl_registry s) k)"
  using unique_distinct [OF assms, of key]
  by (auto simp: loads_tmod loads_def comp_def load_release split: option.splits)

lemma loads_warm: assumes "unique_cells s"
  shows "loads (tmod key (warm_started c now) (fl_registry s)) k = (if k = key then at_load c (\<lambda>n. 0) (loads (fl_registry s) k) else loads (fl_registry s) k)"
  using unique_distinct [OF assms, of key]
  by (auto simp: loads_tmod loads_def comp_def load_warm split: option.splits)

lemma unique_finish: assumes "unique_cells s" "ids_inv s" shows "unique_cells (finish_start i now s)"
proof (cases "tget (fl_starts s) i")
  case (Some t)
  show ?thesis
  proof (cases "cs_phase t")
    case (Ph_Published c)
    have fst_same: "map fst (loads (fl_registry (finish_start i now s)) k) = map fst (loads (fl_registry s) k)" for k
      by (auto simp: finish_start_def Some Ph_Published Let_def loads_on loads_warm [OF assms(1)] split: start_kind.splits)
    show ?thesis
    proof (rule unique_cells_mono [OF assms])
      show "snd ` set (fl_leases (finish_start i now s)) \<subseteq> {c. public_cell s c}"
        using public_published [OF Some Ph_Published]
        by (auto simp: finish_start_def Some Ph_Published Let_def intro: public_lease split: start_kind.splits)
      show "tget (fl_starts s) j = Some u" if "tget (fl_starts (finish_start i now s)) j = Some u" for j u
        using that by (auto simp: finish_start_def Some Ph_Published Let_def split: start_kind.splits if_splits)
    qed (use unique_distinct [OF assms(1)] public_load in \<open>simp_all only: fst_same\<close>)
  qed (use assms Some in \<open>simp_all add: finish_start_def\<close>)
qed (use assms in \<open>simp add: finish_start_def\<close>)

lemma unique_request: assumes "unique_cells s" "ids_inv s" shows "unique_cells (lease_request key f co now s)"
proof -
  obtain d reg where d: "decide_lease (fl_config s) key co now (fl_registry s) = (d, reg)" by fastforce
  have fs: "map fst (loads reg k) = map fst (loads (fl_registry s) k)" for k
    using decide_lease_spec(1) [OF d] by (simp add: cells_at_loads)
  note i = ids_decided [OF assms(2) d]
  have u: "unique_cells (s\<lparr>fl_registry := reg\<rparr>)" by (rule unique_same [OF assms]) (simp_all add: fs)
  have "unique_cells (s\<lparr>fl_registry := reg, fl_leases := (key, c) # fl_leases s\<rparr>)" if "d = Ld_Ready c" for c
  proof (rule unique_cells_mono [OF assms])
    have "public_cell s c" using decide_lease_spec(2) [OF d that] by (auto simp: has_cell_def cells_at_loads intro: public_in)
    then show "snd ` set (fl_leases (s\<lparr>fl_registry := reg, fl_leases := (key, c) # fl_leases s\<rparr>)) \<subseteq> {c. public_cell s c}"
      by (auto intro: public_lease)
  qed (use unique_distinct [OF assms(1)] public_load in \<open>simp_all add: fs del: set_map\<close>)
  then show ?thesis using u assms unique_new_start [OF u i]
    by (auto simp: lease_request_def d Let_def split: lease_decision.splits)
qed

lemma unique_sub:
  assumes "unique_cells s" "ids_inv s" "fl_starts s' = fl_starts s" "set (fl_leases s') \<subseteq> set (fl_leases s)"
    "\<And>k. distinct (map fst (loads (fl_registry s') k))" "\<And>k. set (loads (fl_registry s') k) \<subseteq> set (loads (fl_registry s) k)"
  shows "unique_cells s'"
proof (rule unique_cells_mono [OF assms(1,2,5)])
  show "public_cell s c" if "c \<in> set (map fst (loads (fl_registry s') k))" for k c
    using that assms(6) [of k] by (auto intro: public_in)
  show "snd ` set (fl_leases s') \<subseteq> {c. public_cell s c}" using assms(4) by (auto intro: public_lease)
qed (simp add: assms(3))

lemma loads_without_first:
  "set (map (\<lambda>i. (in_cell i, in_inflight i)) (without_first c is)) \<subseteq> set (map (\<lambda>i. (in_cell i, in_inflight i)) is)"
  "distinct (map in_cell is) \<Longrightarrow> distinct (map in_cell (without_first c is))"
proof -
  show "set (map (\<lambda>i. (in_cell i, in_inflight i)) (without_first c is)) \<subseteq> set (map (\<lambda>i. (in_cell i, in_inflight i)) is)"
    using without_first_sub [of c "is"] by auto
  assume "distinct (map in_cell is)"
  then have "distinct (map in_cell (takeWhile (\<lambda>i. in_cell i \<noteq> c) is @ dropWhile (\<lambda>i. in_cell i \<noteq> c) is))" by simp
  moreover have "distinct (map in_cell (xs @ drop 1 ys))" if "distinct (map in_cell (xs @ ys))" for xs ys
    using that by (cases ys) auto
  ultimately show "distinct (map in_cell (without_first c is))" unfolding without_first_def by blast
qed

lemma loads_fold_tdel: "loads (fold tdel ks reg) k = (if k \<in> set ks then [] else loads reg k)"
  by (simp add: loads_def tget_fold_tdel)

lemma loads_mark_dead: assumes "unique_cells s"
  shows "set (loads (fl_registry (mark_dead key c now s)) k) \<subseteq> set (loads (fl_registry s) k)"
    "distinct (map fst (loads (fl_registry (mark_dead key c now s)) k))"
  using unique_distinct [OF assms, of k] loads_without_first
  by (auto simp: mark_dead_def loads_tput loads_pool comp_def split: option.splits)

lemma loads_forget: assumes "unique_cells s"
  shows "set (loads (tmod key (forget_cell c) (fl_registry s)) k) \<subseteq> set (loads (fl_registry s) k)"
    "distinct (map fst (loads (tmod key (forget_cell c) (fl_registry s)) k))"
  using unique_distinct [OF assms, of k]
  by (auto simp: loads_tmod loads_pool loads_def forget_cell_def comp_def distinct_map_filter split: option.splits if_splits)

lemma loads_register: "loads (fl_registry (register_many specs s)) k = loads (fl_registry s) k"
  using register_registry [of specs s] install_loads [of "fl_registry s" "fl_registry s" specs k] by auto

lemma unique_fold_new: "unique_cells s \<Longrightarrow> ids_inv s \<Longrightarrow> unique_cells (fold (new_start kind) ws s)"
  by (induction ws arbitrary: s) (simp_all add: unique_new_start ids_new_start)

lemma unique_autoscale: assumes "unique_cells s" "ids_inv s" shows "unique_cells (autoscale now s)"
proof -
  obtain ws ds reg where r: "reconcile (fl_config s) now (fl_registry s) = (ws, ds, reg)" using prod_cases3 by blast
  have "unique_cells (s\<lparr>fl_registry := reg, fl_drains := drains_of ds\<rparr>)"
    by (rule unique_same [OF assms]) (simp_all add: reconcile_loads [OF r])
  then have "unique_cells (fold (new_start Keep_Warm) ws (s\<lparr>fl_registry := reg, fl_drains := drains_of ds\<rparr>))"
    by (rule unique_fold_new) (rule ids_reconciled [OF assms(2) r])
  then show ?thesis using assms by (simp add: autoscale_def r Let_def)
qed

lemma unique_shutdown: assumes "unique_cells s" "ids_inv s" shows "unique_cells (begin_shutdown now s)"
proof -
  let ?s = "s\<lparr>fl_shutdown := Closing, fl_drains := []\<rparr>"
  have "unique_cells ?s" by (rule unique_same [OF assms]) simp_all
  moreover have "ids_inv ?s" by (rule ids_invI [OF assms(2)]) (use ids_distinct [OF assms(2)] in \<open>auto simp: known_def\<close>)
  ultimately have "unique_cells (fold (\<lambda>i. fail_start i None now) ws ?s) \<and> ids_inv (fold (\<lambda>i. fail_start i None now) ws ?s)" for ws
    by (intro fold_invariant [where P = "\<lambda>s. unique_cells s \<and> ids_inv s"]) (auto intro: unique_fail ids_fail)
  then show ?thesis using assms(1) by (simp add: begin_shutdown_def)
qed

lemma unique_step: assumes "unique_cells s" "ids_inv s" shows "unique_cells (fluid_step e s)"
proof (cases "aside e")
  case True
  show ?thesis by (rule unique_same [OF assms]) (simp_all add: aside_frame [OF True])
next
  case False
  note on = unique_on_pool [OF assms] and sub = unique_sub [OF assms]
  note di = unique_distinct [OF assms(1)]
  show ?thesis
  proof (cases e)
    case (Fe_Register specs)
    show ?thesis by (rule unique_same [OF assms]) (simp_all add: Fe_Register loads_register, simp_all add: register_many_def)
  next
    case (Fe_Release key c ms now)
    have "unique_cells (s\<lparr>fl_leases := remove1 (key, c) (fl_leases s), fl_registry := tmod key (release_lease c ms now) (fl_registry s)\<rparr>)"
      by (rule unique_cells_mono [OF assms])
        (use di in \<open>auto simp: loads_release [OF assms(1)] in_at_load intro: public_in public_lease split: if_splits dest!: subsetD [OF set_remove1_subset]\<close>)
    then show ?thesis using assms by (simp add: Fe_Release drop_lease_def)
  next
    case (Fe_Mark_Dead key c now)
    show ?thesis by (rule sub) (use loads_mark_dead [OF assms(1), of key c now] in \<open>auto simp: Fe_Mark_Dead\<close>, auto simp: mark_dead_def split: option.splits)
  next
    case (Fe_Unregister keys)
    have r: "fl_registry (unregister_many keys s) = fold tdel (remdups_adj (sort keys)) (fl_registry s)"
      "fl_starts (unregister_many keys s) = fl_starts s" "fl_leases (unregister_many keys s) = fl_leases s"
      by (auto simp: unregister_many_def unreg_next_def Let_def split: option.splits list.splits)
    show ?thesis by (rule sub) (use di in \<open>auto simp: Fe_Unregister r loads_fold_tdel\<close>)
  next
    case (Fe_Drain_Finish j)
    have "unique_cells (s\<lparr>fl_drains := ds, fl_registry := tmod k (forget_cell c) (fl_registry s)\<rparr>)" for ds k c
      by (rule sub) (use loads_forget [OF assms(1), of k c] in simp_all)
    then show ?thesis using assms by (simp add: Fe_Drain_Finish drain_finish_def Let_def)
  next
    case Fe_Barrier
    have "unique_cells (s\<lparr>fl_permits := 0, fl_registry := [], fl_terminating := m, fl_barrier := b\<rparr>)" for m b
      by (rule sub) (simp_all add: loads_def)
    then show ?thesis using assms by (simp add: Fe_Barrier shutdown_barrier_def Let_def)
  qed (use assms False in \<open>auto simp: same_cells split: option.splits intro: on unique_request unique_admit unique_provisioned
      unique_publish unique_finish unique_fail unique_autoscale unique_shutdown\<close>)
qed

lemma unique_new: "unique_cells (fluid_new cfg cap)"
  by (simp add: unique_cells_def public_cell_def starts_at_def published_at_def fluid_new_def loads_def)

lemma unique_run: "unique_cells (fluid_run cfg cap evs)"
proof -
  have "unique_cells (fluid_run cfg cap evs) \<and> ids_inv (fluid_run cfg cap evs)"
  proof (rule fluid_run_invariant [where ok = "\<lambda>_. True"])
    show "unique_cells (fluid_step e s) \<and> ids_inv (fluid_step e s)" if "unique_cells s \<and> ids_inv s" for e s
      using that unique_step ids_step by blast
  qed (simp_all add: unique_new ids_new list_all_iff)
  then show ?thesis by simp
qed

section \<open>Users\<close>

lemma users_frame: "fl_starts s' = fl_starts s \<Longrightarrow> fl_leases s' = fl_leases s \<Longrightarrow> users k c s' = users k c s"
  by (simp add: users_def)

lemma users_new_start: "ids_inv s \<Longrightarrow> users k c (new_start kind key s) = users k c s"
  using ids_fresh(1) [of s] by (simp add: users_def new_start_def tcount_new del: set_map)

lemma users_fold_new: "ids_inv s \<Longrightarrow> users k c (fold (new_start kind) ws s) = users k c s"
  by (induction ws arbitrary: s) (simp_all add: users_new_start ids_new_start)

lemma users_phase:
  assumes "ids_inv s" "tget (fl_starts s) i = Some t" "unpublished t"
  shows "users k c (set_phase i ph s) = users k c s + (if cs_key t = k \<and> ph = Ph_Published c then 1 else 0)"
proof -
  have "cs_phase t \<noteq> Ph_Published c" using assms(3) by (auto simp: unpublished_def)
  then show ?thesis
    using tcount_tmod [OF ids_distinct(1) [OF assms(1)] assms(2), of "\<lambda>t. cs_key t = k \<and> cs_phase t = Ph_Published c" "\<lambda>t. t\<lparr>cs_phase := ph\<rparr>"]
    by (auto simp: users_def set_phase_def split: if_splits)
qed

lemma users_fail: assumes "ids_inv s" shows "users k c (fail_start i err now s) = users k c s"
proof (cases "tget (fl_starts s) i")
  case (Some t)
  show ?thesis
    using tcount_tdel [OF ids_distinct(1) [OF assms] Some, of "\<lambda>t. cs_key t = k \<and> cs_phase t = Ph_Published c"]
    by (auto simp: users_def fail_start_def Some Let_def split: start_phase.splits)
qed (simp add: fail_start_def)

lemma users_finish:
  assumes "ids_inv s" "tget (fl_starts s) i = Some t" "cs_phase t = Ph_Published d"
  shows "users k c (finish_start i now s) + (if cs_kind t = Keep_Warm \<and> cs_key t = k \<and> d = c then 1 else 0) = users k c s"
  using tcount_tdel [OF ids_distinct(1) [OF assms(1)] assms(2), of "\<lambda>t. cs_key t = k \<and> cs_phase t = Ph_Published c"] assms(3)
  by (cases "cs_kind t") (auto simp: users_def finish_start_def assms(2) Let_def)

lemma tcount_zero:
  assumes "distinct (tkeys m)" "\<And>i t. tget m i = Some t \<Longrightarrow> \<not> P t"
  shows "tcount P m = 0"
proof -
  have "tcount P m = 0" if "\<forall>x \<in> set m. \<not> P (snd x)" for m :: "('a \<times> 'b) list"
    using that by (induction m) (simp_all add: tcount_def)
  moreover have "\<forall>x \<in> set m. \<not> P (snd x)" using assms by force
  ultimately show ?thesis by blast
qed

lemma users_private:
  assumes "unique_cells s" "ids_inv s" "starts_at s i c"
  shows "users k c s = 0"
proof -
  have np: "\<not> public_cell s c" using assms(1,3) by (auto simp: unique_cells_def)
  then have "(k, c) \<notin> set (fl_leases s)" by (force simp: public_cell_def)
  moreover have "tcount (\<lambda>t. cs_key t = k \<and> cs_phase t = Ph_Published c) (fl_starts s) = 0"
    by (rule tcount_zero [OF ids_distinct(1) [OF assms(2)]]) (use np public_published in blast)
  ultimately show ?thesis by (simp add: users_def)
qed

text \<open>The relation between the load of an instance and its users.\<close>

context counting
begin

definition accounted :: "fluid \<Rightarrow> bool" where
  "accounted s \<longleftrightarrow> (\<forall>k c n. (c, n) \<in> set (loads (fl_registry s) k) \<longrightarrow> R n (users k c s))"

lemma accounted_by:
  assumes "accounted s" and "\<And>k c n. (c, n) \<in> set (loads (fl_registry s') k) \<Longrightarrow> R n (users k c s') \<or>
    (\<exists>m. (c, m) \<in> set (loads (fl_registry s) k) \<and> (n = m \<and> users k c s' = users k c s \<or>
      n = Suc m \<and> users k c s' = Suc (users k c s) \<or> n = m - 1 \<and> users k c s = Suc (users k c s')))"
  shows "accounted s'"
  unfolding accounted_def
proof (intro allI impI)
  fix k c n assume n: "(c, n) \<in> set (loads (fl_registry s') k)"
  have "R m (users k c s)" if "(c, m) \<in> set (loads (fl_registry s) k)" for m using assms(1) that by (simp add: accounted_def)
  then show "R n (users k c s')" using assms(2) [OF n] succ pred by metis
qed

lemma accounted_same:
  assumes "accounted s" "\<And>k c. users k c s' = users k c s" "\<And>k. set (loads (fl_registry s') k) \<subseteq> set (loads (fl_registry s) k)"
  shows "accounted s'"
  by (rule accounted_by [OF assms(1)]) (use assms(2,3) in blast)

lemma accounted_fail: "accounted s \<Longrightarrow> ids_inv s \<Longrightarrow> accounted (fail_start i err now s)"
  by (erule accounted_same) (simp_all only: users_fail fail_loads subset_refl)

lemma accounted_admit: assumes "accounted s" "ids_inv s" shows "accounted (admit_start i now s)"
proof (cases "tget (fl_starts s) i")
  case (Some t)
  have u: "users k c (s\<lparr>fl_permits := n, fl_starts := tmod i (\<lambda>t. t\<lparr>cs_phase := Ph_Provisioning\<rparr>) (fl_starts s)\<rparr>) = users k c s"
    if "unpublished t" for k c n
    using users_phase [OF assms(2) Some that, of k c Ph_Provisioning] by (simp add: users_def set_phase_def)
  show ?thesis
    using assms by (auto simp: admit_start_def Some set_phase_def unpublished_def users_fail intro!: accounted_same [OF assms(1)] u)
qed (use assms in \<open>simp add: admit_start_def\<close>)

lemma accounted_provisioned: assumes "accounted s" "ids_inv s" shows "accounted (cell_provisioned i ms s)"
proof (cases "tget (fl_starts s) i")
  case (Some t)
  have u: "users k c (s\<lparr>fl_next := m, fl_cells := cs, fl_starts := tmod i (\<lambda>t. t\<lparr>cs_phase := Ph_Starting d n\<rparr>) (fl_starts s)\<rparr>) = users k c s"
    if "unpublished t" for k c n d m cs
    using users_phase [OF assms(2) Some that, of k c "Ph_Starting d n"] by (simp add: users_def set_phase_def)
  show ?thesis
    using assms by (auto simp: cell_provisioned_def Some set_phase_def unpublished_def intro!: accounted_same [OF assms(1)] u)
qed (use assms in \<open>simp add: cell_provisioned_def\<close>)

lemma accounted_publish:
  assumes "accounted s" "ids_inv s" "unique_cells s"
  shows "accounted (publish_start i udp tcp ms now s)"
proof (cases "tget (fl_starts s) i")
  case (Some t)
  show ?thesis
  proof (cases "cs_phase t")
    case (Ph_Starting c pm)
    show ?thesis
    proof (cases "tget (fl_registry s) (cs_key t)")
      case None
      then show ?thesis using accounted_fail [OF assms(1,2)] by (simp add: publish_start_def Some Ph_Starting)
    next
      case (Some p)
      let ?s = "publish_start i udp tcp ms now s"
      note st = \<open>tget (fl_starts s) i = Some t\<close>
      have at: "starts_at s i c" using st Ph_Starting by (simp add: starts_at_def)
      have us: "users k d ?s = users k d s + (if cs_key t = k \<and> c = d then 1 else 0)" for k d
        using users_phase [OF assms(2) st, of k d "Ph_Published c"] Ph_Starting Some st
        by (simp add: unpublished_def publish_start_def users_def set_phase_def)
      have ld: "loads (fl_registry ?s) k = (if k = cs_key t then loads (fl_registry s) k @ [(c, 1)] else loads (fl_registry s) k)" for k
        using st Ph_Starting Some by (simp add: publish_start_def set_phase_def loads_tmod load_publish loads_pool)
      have np: "c \<notin> set (map fst (loads (fl_registry s) k))" for k
        using at assms(3) public_load unfolding unique_cells_def by blast
      show ?thesis
      proof (rule accounted_by [OF assms(1)])
        fix k d n assume "(d, n) \<in> set (loads (fl_registry ?s) k)"
        then consider "k = cs_key t" "d = c" "n = 1" | "(d, n) \<in> set (loads (fl_registry s) k)" by (auto simp: ld split: if_splits)
        then show "R n (users k d ?s) \<or> (\<exists>m. (d, m) \<in> set (loads (fl_registry s) k) \<and> (n = m \<and> users k d ?s = users k d s \<or>
            n = Suc m \<and> users k d ?s = Suc (users k d s) \<or> n = m - 1 \<and> users k d s = Suc (users k d ?s)))"
        proof cases
          case 1
          then show ?thesis using us [of k d] users_private [OF assms(3,2) at, of k] one by simp
        next
          case 2
          then have "d \<noteq> c" using np [of k] by force
          then show ?thesis using 2 us [of k d] by auto
        qed
      qed
    qed
  qed (use assms Some in \<open>simp_all add: publish_start_def\<close>)
qed (use assms in \<open>simp add: publish_start_def\<close>)

lemma accounted_finish:
  assumes "accounted s" "ids_inv s" "unique_cells s" "loose \<or> settled (Fe_Finish i now) s"
  shows "accounted (finish_start i now s)"
proof (cases "tget (fl_starts s) i")
  case (Some t)
  show ?thesis
  proof (cases "cs_phase t")
    case (Ph_Published c)
    let ?s = "finish_start i now s"
    note us = users_finish [OF assms(2) Some Ph_Published, of _ _ now]
    have ld: "loads (fl_registry ?s) k = (if cs_kind t = Keep_Warm \<and> k = cs_key t then at_load c (\<lambda>n. 0) (loads (fl_registry s) k) else loads (fl_registry s) k)" for k
      by (cases "cs_kind t") (auto simp: finish_start_def Some Ph_Published Let_def loads_on loads_warm [OF assms(3)])
    have warm: "R 0 (users (cs_key t) c ?s)" if "cs_kind t = Keep_Warm"
      using assms(4) reset zero us [of "cs_key t" c] that by (auto simp: settled_def Some Ph_Published)
    show ?thesis
    proof (rule accounted_by [OF assms(1)])
      fix k d n assume n: "(d, n) \<in> set (loads (fl_registry ?s) k)"
      show "R n (users k d ?s) \<or> (\<exists>m. (d, m) \<in> set (loads (fl_registry s) k) \<and> (n = m \<and> users k d ?s = users k d s \<or>
            n = Suc m \<and> users k d ?s = Suc (users k d s) \<or> n = m - 1 \<and> users k d s = Suc (users k d ?s)))"
      proof (cases "cs_kind t = Keep_Warm \<and> k = cs_key t \<and> d = c")
        case True
        then show ?thesis using n warm by (auto simp: ld in_at_load)
      next
        case False
        then have "users k d ?s = users k d s" using us [of k d] by auto
        moreover have "(d, n) \<in> set (loads (fl_registry s) k)" using n False by (auto simp: ld in_at_load split: if_splits)
        ultimately show ?thesis by blast
      qed
    qed
  qed (use assms Some in \<open>simp_all add: finish_start_def\<close>)
qed (use assms in \<open>simp add: finish_start_def\<close>)

lemma accounted_request:
  assumes "accounted s" "ids_inv s" "unique_cells s"
  shows "accounted (lease_request key f co now s)"
proof -
  obtain d reg where d: "decide_lease (fl_config s) key co now (fl_registry s) = (d, reg)" by fastforce
  note i = ids_decided [OF assms(2) d]
  have keep: "accounted (s\<lparr>fl_registry := reg\<rparr>)" "accounted (new_start Demand key (s\<lparr>fl_registry := reg\<rparr>))"
    if "\<And>k. loads reg k = loads (fl_registry s) k"
  proof -
    show "accounted (s\<lparr>fl_registry := reg\<rparr>)"
      by (rule accounted_same [OF assms(1)]) (simp_all add: users_def that)
    then show "accounted (new_start Demand key (s\<lparr>fl_registry := reg\<rparr>))"
      by (rule accounted_same) (simp_all add: users_new_start [OF i], simp add: new_start_def)
  qed
  have "accounted (case d of Ld_Ready c \<Rightarrow> s\<lparr>fl_registry := reg, fl_leases := (key, c) # fl_leases s\<rparr>
      | Ld_Cold_Start \<Rightarrow> new_start Demand key (s\<lparr>fl_registry := reg\<rparr>) | _ \<Rightarrow> s\<lparr>fl_registry := reg\<rparr>)"
    using d
  proof (cases rule: decide_lease_cases)
    case none
    then show ?thesis using keep by (cases d) auto
  next
    case (nack p r)
    then show ?thesis using keep by (simp add: loads_tput loads_pool)
  next
    case (start p)
    then show ?thesis using keep by (simp add: loads_tput loads_pool)
  next
    case (ready p c "is")
    let ?s = "s\<lparr>fl_registry := reg, fl_leases := (key, c) # fl_leases s\<rparr>"
    have "distinct (map in_cell (fp_instances p))"
      using unique_distinct [OF assms(3), of key] ready(1) by (simp add: loads_pool comp_def)
    then have ld: "loads reg k = (if k = key then at_load c Suc (loads (fl_registry s) k) else loads (fl_registry s) k)" for k
      using load_take_slot [OF ready(2)] ready(1,3) by (auto simp: loads_tput loads_pool)
    have us: "users k e ?s = users k e s + (if k = key \<and> e = c then 1 else 0)" for k e by (auto simp: users_def)
    have "accounted ?s"
      by (rule accounted_by [OF assms(1)]) (auto simp: ld us in_at_load split: if_splits)
    then show ?thesis using ready(4) by simp
  qed
  then show ?thesis using assms(1) by (simp add: lease_request_def d Let_def split: lease_decision.splits)
qed

lemma accounted_release:
  assumes "accounted s" "unique_cells s"
  shows "accounted (drop_lease key c ms now s)"
proof (cases "(key, c) \<in> set (fl_leases s)")
  case True
  let ?s = "s\<lparr>fl_leases := remove1 (key, c) (fl_leases s), fl_registry := tmod key (release_lease c ms now) (fl_registry s)\<rparr>"
  have us: "users k e s = users k e ?s + (if k = key \<and> e = c then 1 else 0)" for k e
    using True count_list_0_iff [of "fl_leases s" "(key, c)"] by (auto simp: users_def count_list_remove1)
  have "accounted ?s"
    by (rule accounted_by [OF assms(1)]) (use us in \<open>auto simp: loads_release [OF assms(2)] in_at_load split: if_splits\<close>)
  then show ?thesis using True by (simp add: drop_lease_def)
qed (use assms in \<open>simp add: drop_lease_def\<close>)

lemma accounted_autoscale: assumes "accounted s" "ids_inv s" shows "accounted (autoscale now s)"
proof -
  obtain ws ds reg where r: "reconcile (fl_config s) now (fl_registry s) = (ws, ds, reg)" using prod_cases3 by blast
  let ?s = "s\<lparr>fl_registry := reg, fl_drains := drains_of ds\<rparr>"
  have fr: "fl_registry (fold (new_start Keep_Warm) ws ?s) = reg" by (rule fold_invariant) (simp_all add: new_start_def)
  have "accounted (fold (new_start Keep_Warm) ws ?s)"
    by (rule accounted_same [OF assms(1)])
      (simp_all only: users_fold_new [OF ids_reconciled [OF assms(2) r]] fr reconcile_loads [OF r] subset_refl, simp add: users_def)
  then show ?thesis using assms(1) by (simp add: autoscale_def r Let_def)
qed

lemma accounted_shutdown: assumes "accounted s" "ids_inv s" shows "accounted (begin_shutdown now s)"
proof -
  let ?s = "s\<lparr>fl_shutdown := Closing, fl_drains := []\<rparr>"
  have "accounted ?s" by (rule accounted_same [OF assms(1)]) (simp_all add: users_def)
  moreover have "ids_inv ?s" by (rule ids_invI [OF assms(2)]) (use ids_distinct [OF assms(2)] in \<open>auto simp: known_def\<close>)
  ultimately have "accounted (fold (\<lambda>i. fail_start i None now) ws ?s) \<and> ids_inv (fold (\<lambda>i. fail_start i None now) ws ?s)" for ws
    by (intro fold_invariant [where P = "\<lambda>s. accounted s \<and> ids_inv s"]) (auto intro: accounted_fail ids_fail)
  then show ?thesis using assms(1) by (simp add: begin_shutdown_def)
qed

lemma accounted_step:
  assumes "accounted s" "ids_inv s" "unique_cells s" "loose \<or> settled e s"
  shows "accounted (fluid_step e s)"
proof (cases "aside e")
  case True
  show ?thesis by (rule accounted_same [OF assms(1)]) (simp_all add: aside_frame [OF True] users_def)
next
  case False
  note same = accounted_same [OF assms(1)]
  have on: "accounted (on_pool k f s)" if "\<And>p. fp_instances (f p) = fp_instances p" for k f
    by (rule same) (simp_all add: on_pool_def users_def loads_on [OF that])
  show ?thesis
  proof (cases e)
    case (Fe_Register specs)
    show ?thesis by (rule same) (simp_all add: Fe_Register loads_register, simp_all add: register_many_def users_def)
  next
    case (Fe_Set_Safe key n)
    then show ?thesis by (auto intro!: on simp: load_set_safe split: option.splits)
  next
    case (Fe_Mark_Dead key c now)
    have "users k d (mark_dead key c now s) = users k d s" for k d
      by (rule users_frame) (auto simp: mark_dead_def split: option.splits)
    then show ?thesis unfolding Fe_Mark_Dead fluid_step.simps by (rule same) (rule loads_mark_dead [OF assms(3)])
  next
    case (Fe_Unregister keys)
    have r: "fl_registry (unregister_many keys s) = fold tdel (remdups_adj (sort keys)) (fl_registry s)"
      "fl_starts (unregister_many keys s) = fl_starts s" "fl_leases (unregister_many keys s) = fl_leases s"
      by (auto simp: unregister_many_def unreg_next_def Let_def split: option.splits list.splits)
    show ?thesis by (rule same) (auto simp: Fe_Unregister r loads_fold_tdel users_def)
  next
    case (Fe_Drain_Finish j)
    have "accounted (s\<lparr>fl_drains := ds, fl_registry := tmod k (forget_cell c) (fl_registry s)\<rparr>)" for ds k c
      by (rule same) (use loads_forget [OF assms(3), of k c] in \<open>simp_all add: users_def\<close>)
    then show ?thesis using assms by (simp add: Fe_Drain_Finish drain_finish_def Let_def)
  next
    case Fe_Barrier
    have "accounted (s\<lparr>fl_permits := 0, fl_registry := [], fl_terminating := m, fl_barrier := b\<rparr>)" for m b
      by (rule same) (simp_all add: loads_def users_def)
    then show ?thesis using assms by (simp add: Fe_Barrier shutdown_barrier_def Let_def)
  qed (use assms False in \<open>auto intro: on accounted_request accounted_admit accounted_provisioned
      accounted_publish accounted_finish accounted_fail accounted_release accounted_autoscale accounted_shutdown\<close>)
qed

lemma accounted_new: "accounted (fluid_new cfg cap)"
  by (simp add: accounted_def fluid_new_def loads_def)

end

end
