(* ===== verification/Fluid_Drain.thy ===== *)
theory Fluid_Drain
  imports Fluid_Users
begin

text \<open>
  What takes new requests. The cells of the instances that are not draining decide where a lease may go and how
  many instances count against the limits. A cell handed to the drain is no longer among them, and in
  orderly runs nobody uses it; the number of live instances of a pool stays below the limits of its
  configurations.
\<close>

section \<open>Accepting cells\<close>

abbreviation accepting :: "fn_instance list \<Rightarrow> cell list" where
  "accepting is \<equiv> map in_cell (filter (\<lambda>i. \<not> in_draining i) is)"

definition accepting_at :: "registry \<Rightarrow> string \<Rightarrow> cell list" where
  "accepting_at reg k = (case tget reg k of None \<Rightarrow> [] | Some p \<Rightarrow> accepting (fp_instances p))"

lemma active_accepting: "length (active_instances p) = length (accepting (fp_instances p))"
  by (simp add: active_instances_def)

lemma accepting_upd_first:
  "(\<And>i. in_cell (f i) = in_cell i \<and> in_draining (f i) = in_draining i) \<Longrightarrow> accepting (upd_first q f is) = accepting is"
  by (induction "is") auto

lemma accepting_take_slot: "take_slot mc now is = Some (c, is') \<Longrightarrow> accepting is' = accepting is \<and> c \<in> set (accepting is)"
  by (auto simp: take_slot_def accepting_upd_first free_slot_def dest!: min_by_key_Some split: option.splits)

lemma accepting_simps [simp]:
  "accepting (fp_instances (release_lease c ms now p)) = accepting (fp_instances p)"
  "accepting (fp_instances (warm_started c now p)) = accepting (fp_instances p)"
  "accepting (fp_instances (publish_instance c udp tcp pm im now p)) = accepting (fp_instances p) @ [c]"
  by (simp_all add: release_lease_def warm_started_def publish_instance_def accepting_upd_first)

lemma accepting_drained: "list_all2 drained_like is js \<Longrightarrow>
    set (accepting js) \<subseteq> set (accepting is) \<and> length (accepting js) \<le> length (accepting is)"
  by (induction rule: list_all2_induct) (auto simp: drained_like_def)

lemma accepting_sub: "set is \<subseteq> set js \<Longrightarrow> set (accepting is) \<subseteq> set (accepting js)"
  by auto

lemma accepting_without_first: "length (accepting (without_first c is)) \<le> length (accepting is)"
proof -
  have "length (accepting (xs @ drop 1 ys)) \<le> length (accepting (xs @ ys))" for xs ys
    by (cases ys) auto
  then show ?thesis unfolding without_first_def by (metis takeWhile_dropWhile_id)
qed

lemma accepting_forget: "length (accepting (fp_instances (forget_cell c p))) \<le> length (accepting (fp_instances p))"
proof -
  have "length (accepting (filter P is)) \<le> length (accepting is)" for P "is" by (induction "is") auto
  then show ?thesis unfolding forget_cell_def by simp
qed

lemma accepting_orphans [simp]: "accepting (orphans reg k) = []"
  by (simp add: orphans_def filter_map comp_def split: option.splits)

lemma accepting_tmod: "accepting_at (tmod key f reg) k =
    (if k = key then (case tget reg k of None \<Rightarrow> [] | Some p \<Rightarrow> accepting (fp_instances (f p))) else accepting_at reg k)"
  by (auto simp: accepting_at_def split: option.splits)

lemma accepting_on: "(\<And>p. accepting (fp_instances (f p)) = accepting (fp_instances p)) \<Longrightarrow> accepting_at (tmod key f reg) k = accepting_at reg k"
  by (auto simp: accepting_tmod accepting_at_def split: option.splits)

lemma accepting_publish: "set (accepting_at (tmod key (publish_instance c udp tcp pm im now) reg) k) \<subseteq> insert c (set (accepting_at reg k))"
  by (cases "tget reg key") (auto simp: accepting_tmod accepting_at_def simp del: set_map split: if_splits)

lemma accepting_at_forget: "set (accepting_at (tmod key (forget_cell c) reg) k) \<subseteq> set (accepting_at reg k)"
  by (cases "tget reg key") (auto simp: accepting_tmod accepting_at_def forget_cell_def split: if_splits)

lemma accepting_tput: "accepting_at (tput key p reg) k = (if k = key then accepting (fp_instances p) else accepting_at reg k)"
  by (simp add: accepting_at_def)

lemma accepting_pool: "tget reg k = Some p \<Longrightarrow> accepting_at reg k = accepting (fp_instances p)"
  by (simp add: accepting_at_def)

lemma accepting_fold_tdel: "accepting_at (fold tdel ks reg) k = (if k \<in> set ks then [] else accepting_at reg k)"
  by (simp add: accepting_at_def tget_fold_tdel)

lemma accepting_fail [simp]: "accepting_at (fl_registry (fail_start i err now s)) k = accepting_at (fl_registry s) k"
  using fail_start_registry [of i err now s] by (auto simp: accepting_on)

lemma accepting_install: "set (accepting_at (fold (install reg0) specs reg) k) \<subseteq> set (accepting_at reg k)"
proof (induction specs arbitrary: reg)
  case (Cons sp specs)
  have "set (accepting_at (install reg0 sp reg) k) \<subseteq> set (accepting_at reg k)"
    by (simp add: install_def accepting_tput)
  then show ?case using Cons.IH [of "install reg0 sp reg"] by auto
qed simp

lemma accepting_decide:
  assumes "decide_lease cfg key co now reg = (d, reg')"
  shows "accepting_at reg' k = accepting_at reg k" "d = Ld_Ready c \<Longrightarrow> c \<in> set (accepting_at reg key)"
proof -
  have "accepting_at reg' k = accepting_at reg k \<and> (d = Ld_Ready c \<longrightarrow> c \<in> set (accepting_at reg key))"
    using assms
  proof (cases rule: decide_lease_cases)
    case (ready p c' "is")
    then show ?thesis using accepting_take_slot [OF ready(2)] by (auto simp: accepting_tput accepting_pool)
  qed (auto simp: accepting_tput accepting_pool)
  then show "accepting_at reg' k = accepting_at reg k" "d = Ld_Ready c \<Longrightarrow> c \<in> set (accepting_at reg key)" by auto
qed

lemma accepting_reconcile: "reconcile cfg now reg = (ws, ds, reg') \<Longrightarrow> set (accepting_at reg' k) \<subseteq> set (accepting_at reg k)"
proof -
  assume a: "reconcile cfg now reg = (ws, ds, reg')"
  have "set (accepting (fp_instances (snd (snd (reconcile_pool cfg now p))))) \<subseteq> set (accepting (fp_instances p))" for p
    using reconcile_pool_spec(1) [of cfg now p] accepting_drained by (metis prod.collapse)
  note sub = this
  show ?thesis
  proof (cases "tget reg k")
    case (Some p)
    then show ?thesis using reconcile_at [OF a, of k] sub [of p] by (simp add: accepting_pool)
  qed (use reconcile_at [OF a, of k] in \<open>simp add: accepting_at_def\<close>)
qed

section \<open>Drained cells\<close>

text \<open>Nobody uses a cell that was handed to the drain, no lease can reach it, and no start will publish it.\<close>

definition off_duty :: "fluid \<Rightarrow> string \<Rightarrow> cell \<Rightarrow> bool" where
  "off_duty s k c \<longleftrightarrow> users k c s = 0 \<and> c \<notin> set (accepting_at (fl_registry s) k) \<and> (\<forall>i. \<not> starts_at s i c)"

definition drains_off_duty :: "fluid \<Rightarrow> bool" where
  "drains_off_duty s \<longleftrightarrow> (\<forall>d \<in> set (fl_drains s). off_duty s (dr_key d) (dr_cell d))"

lemma off_dutyI:
  assumes "off_duty s k c" "users k c s' \<le> users k c s" "set (accepting_at (fl_registry s') k) \<subseteq> set (accepting_at (fl_registry s) k)"
    "\<And>i. starts_at s' i c \<Longrightarrow> starts_at s i c"
  shows "off_duty s' k c"
  using assms by (auto simp: off_duty_def)

lemma starts_at_frame: "fl_starts s' = fl_starts s \<Longrightarrow> starts_at s' i c = starts_at s i c"
  by (simp add: starts_at_def)

lemma off_duty_frame:
  assumes "off_duty s k c" "fl_starts s' = fl_starts s" "set (fl_leases s') \<subseteq> set (fl_leases s)"
    "set (accepting_at (fl_registry s') k) \<subseteq> set (accepting_at (fl_registry s) k)"
  shows "off_duty s' k c"
proof (rule off_dutyI [OF assms(1) _ assms(4)])
  have "count_list (fl_leases s) (k, c) = 0" using assms(1) by (simp add: off_duty_def users_def)
  then have "count_list (fl_leases s') (k, c) = 0" using assms(3) by (auto simp: count_list_0_iff)
  then show "users k c s' \<le> users k c s" by (simp add: users_def assms(2))
qed (simp add: starts_at_def assms(2))

lemma off_duty_fail: assumes "off_duty s k c" "ids_inv s" shows "off_duty (fail_start i err now s) k c"
  by (rule off_dutyI [OF assms(1)])
    (use fail_start_starts [of i err now s] in \<open>auto simp: users_fail [OF assms(2)] starts_at_def split: if_splits\<close>)

lemma off_duty_new_start: assumes "off_duty s k c" "ids_inv s" shows "off_duty (new_start kind key s) k c"
  by (rule off_dutyI [OF assms(1)])
    (auto simp: users_new_start [OF assms(2)] starts_at_def, auto simp: new_start_def split: if_splits)

lemma off_duty_phase:
  assumes "off_duty s k c" "ids_inv s" "tget (fl_starts s) i = Some t" "unpublished t"
    "\<And>pm. ph \<noteq> Ph_Starting c pm" "\<not> (cs_key t = k \<and> ph = Ph_Published c)"
    "fl_starts s' = fl_starts (set_phase i ph s)" "fl_leases s' = fl_leases s"
    "set (accepting_at (fl_registry s') k) \<subseteq> insert d (set (accepting_at (fl_registry s) k))" "d \<noteq> c"
  shows "off_duty s' k c"
proof -
  have "users k c s' = users k c (set_phase i ph s)" using assms(7,8) by (simp add: users_def set_phase_def)
  then have "users k c s' = 0" using users_phase [OF assms(2-4), of k c ph] assms(1,6) by (simp add: off_duty_def)
  moreover have "\<not> starts_at s' j c" for j
    using assms(1,5) by (auto simp: off_duty_def starts_at_def assms(7) set_phase_def)
  ultimately show ?thesis using assms(1,9,10) by (auto simp: off_duty_def)
qed

lemma off_duty_admit: assumes "off_duty s k c" "ids_inv s" shows "off_duty (admit_start i now s) k c"
proof (cases "tget (fl_starts s) i")
  case (Some t)
  then show ?thesis using assms
    by (auto simp: admit_start_def unpublished_def set_phase_def off_duty_fail [OF assms] split: option.splits
        intro!: off_duty_phase [OF assms Some, where ph = Ph_Provisioning and d = "Suc c"])
qed (use assms in \<open>simp add: admit_start_def\<close>)

lemma off_duty_provisioned: assumes "off_duty s k c" "ids_inv s" "c < fl_next s" shows "off_duty (cell_provisioned i ms s) k c"
proof (cases "tget (fl_starts s) i")
  case (Some t)
  then show ?thesis using assms
    by (auto simp: cell_provisioned_def unpublished_def set_phase_def split: option.splits
        intro!: off_duty_phase [OF assms(1,2) Some, where ph = "Ph_Starting (fl_next s) ms" and d = "Suc c"])
qed (use assms in \<open>simp add: cell_provisioned_def\<close>)

lemma off_duty_publish: assumes "off_duty s k c" "ids_inv s" shows "off_duty (publish_start i udp tcp ms now s) k c"
proof (cases "tget (fl_starts s) i")
  case (Some t)
  show ?thesis
  proof (cases "cs_phase t")
    case (Ph_Starting d pm)
    have "d \<noteq> c" using assms(1) Some Ph_Starting by (auto simp: off_duty_def starts_at_def)
    then show ?thesis using off_duty_fail [OF assms]
      by (auto simp: publish_start_def Some Ph_Starting set_phase_def unpublished_def split: option.splits
          dest: subsetD [OF accepting_publish] intro!: off_duty_phase [OF assms Some, where ph = "Ph_Published d" and d = d])
  qed (use assms Some in \<open>simp_all add: publish_start_def\<close>)
qed (use assms in \<open>simp add: publish_start_def\<close>)

lemma off_duty_finish: assumes "off_duty s k c" "ids_inv s" shows "off_duty (finish_start i now s) k c"
proof (cases "tget (fl_starts s) i")
  case (Some t)
  show ?thesis
  proof (cases "cs_phase t")
    case (Ph_Published d)
    show ?thesis
    proof (rule off_dutyI [OF assms(1)])
      show "users k c (finish_start i now s) \<le> users k c s" using users_finish [OF assms(2) Some Ph_Published, of k c now] by linarith
      show "set (accepting_at (fl_registry (finish_start i now s)) k) \<subseteq> set (accepting_at (fl_registry s) k)"
        by (simp add: finish_start_def Some Ph_Published Let_def accepting_on split: start_kind.splits)
      show "starts_at s j c" if "starts_at (finish_start i now s) j c" for j
        using that by (auto simp: finish_start_def Some Ph_Published Let_def starts_at_def split: start_kind.splits if_splits)
    qed
  qed (use assms Some in \<open>simp_all add: finish_start_def\<close>)
qed (use assms in \<open>simp add: finish_start_def\<close>)

lemma off_duty_request: assumes "off_duty s k c" "ids_inv s" shows "off_duty (lease_request key f co now s) k c"
proof -
  obtain d reg where d: "decide_lease (fl_config s) key co now (fl_registry s) = (d, reg)" by fastforce
  have o: "off_duty (s\<lparr>fl_registry := reg\<rparr>) k c"
    by (rule off_duty_frame [OF assms(1)]) (simp_all add: accepting_decide(1) [OF d])
  have "off_duty (s\<lparr>fl_registry := reg, fl_leases := (key, e) # fl_leases s\<rparr>) k c" if "d = Ld_Ready e" for e
  proof (rule off_dutyI [OF assms(1)])
    have "(key, e) \<noteq> (k, c)" using accepting_decide(2) [OF d that] assms(1) by (auto simp: off_duty_def)
    then show "users k c (s\<lparr>fl_registry := reg, fl_leases := (key, e) # fl_leases s\<rparr>) \<le> users k c s" by (simp add: users_def)
  qed (simp_all add: accepting_decide(1) [OF d] starts_at_def)
  then show ?thesis using o assms(1) off_duty_new_start [OF o ids_decided [OF assms(2) d]]
    by (auto simp: lease_request_def d Let_def split: lease_decision.splits)
qed

lemma off_duty_step:
  assumes "off_duty s k c" "ids_inv s" "c < fl_next s" and e: "\<And>now. e \<noteq> Fe_Autoscale now" "\<And>now. e \<noteq> Fe_Shutdown now"
  shows "off_duty (fluid_step e s) k c"
proof (cases "aside e")
  case True
  show ?thesis by (rule off_duty_frame [OF assms(1)]) (simp_all add: aside_frame [OF True])
next
  case False
  note frame = off_duty_frame [OF assms(1)]
  have on: "off_duty (on_pool key f s) k c" if "\<And>p. accepting (fp_instances (f p)) = accepting (fp_instances p)" for key f
    by (rule frame) (simp_all add: on_pool_def accepting_on [OF that] del: set_map)
  show ?thesis
  proof (cases e)
    case (Fe_Register specs)
    have "fl_starts (register_many specs s) = fl_starts s" "fl_leases (register_many specs s) = fl_leases s"
      by (simp_all add: register_many_def)
    moreover have "set (accepting_at (fl_registry (register_many specs s)) k) \<subseteq> set (accepting_at (fl_registry s) k)"
      using register_registry [of specs s] accepting_install [of "fl_registry s" specs "fl_registry s" k] by auto
    ultimately show ?thesis unfolding Fe_Register fluid_step.simps by (intro frame) simp_all
  next
    case (Fe_Set_Safe key n)
    then show ?thesis by (auto intro!: on simp: load_set_safe split: option.splits)
  next
    case (Fe_Request key fi co now)
    show ?thesis unfolding Fe_Request fluid_step.simps by (rule off_duty_request [OF assms(1,2)])
  next
    case (Fe_Admit i now)
    show ?thesis unfolding Fe_Admit fluid_step.simps by (rule off_duty_admit [OF assms(1,2)])
  next
    case (Fe_Provisioned i ms)
    show ?thesis unfolding Fe_Provisioned fluid_step.simps by (rule off_duty_provisioned [OF assms(1,2,3)])
  next
    case (Fe_Publish i udp tcp ms now)
    show ?thesis unfolding Fe_Publish fluid_step.simps by (rule off_duty_publish [OF assms(1,2)])
  next
    case (Fe_Finish i now)
    show ?thesis unfolding Fe_Finish fluid_step.simps by (rule off_duty_finish [OF assms(1,2)])
  next
    case (Fe_Release key d ms now)
    show ?thesis by (rule frame) (auto simp: Fe_Release drop_lease_def accepting_on dest: subsetD [OF set_remove1_subset])
  next
    case (Fe_Mark_Dead key d now)
    have "fl_starts (mark_dead key d now s) = fl_starts s" "fl_leases (mark_dead key d now s) = fl_leases s"
      by (auto simp: mark_dead_def split: option.splits)
    moreover have "set (accepting_at (fl_registry (mark_dead key d now s)) k) \<subseteq> set (accepting_at (fl_registry s) k)"
      using accepting_sub [OF without_first_sub] by (auto simp: mark_dead_def accepting_tput accepting_pool split: option.splits)
    ultimately show ?thesis unfolding Fe_Mark_Dead fluid_step.simps by (intro frame) simp_all
  next
    case (Fe_Unregister keys)
    have r: "fl_registry (unregister_many keys s) = fold tdel (remdups_adj (sort keys)) (fl_registry s)"
      "fl_starts (unregister_many keys s) = fl_starts s" "fl_leases (unregister_many keys s) = fl_leases s"
      by (auto simp: unregister_many_def unreg_next_def Let_def split: option.splits list.splits)
    show ?thesis by (rule frame) (simp_all add: Fe_Unregister r accepting_fold_tdel)
  next
    case (Fe_Drain_Finish j)
    have "off_duty (s\<lparr>fl_drains := ds, fl_registry := tmod key (forget_cell d) (fl_registry s)\<rparr>) k c" for key d ds
      by (intro frame) (simp_all add: accepting_at_forget del: set_map)
    then show ?thesis using assms(1) by (simp add: Fe_Drain_Finish drain_finish_def Let_def)
  next
    case Fe_Barrier
    have "off_duty (s\<lparr>fl_permits := 0, fl_registry := [], fl_terminating := m, fl_barrier := b\<rparr>) k c" for m b
      by (rule frame) (simp_all add: accepting_at_def)
    then show ?thesis using assms(1) by (simp add: Fe_Barrier shutdown_barrier_def Let_def)
  qed (use assms False e in \<open>auto intro: on off_duty_fail\<close>)
qed

text \<open>The drains of a state go on from one step to the next, or start in \<open>reconcile\<close>.\<close>

abbreviation drain_at :: "drain_task \<Rightarrow> string \<times> cell" where
  "drain_at d \<equiv> (dr_key d, dr_cell d)"

lemma drains_kept:
  assumes "\<And>now. e \<noteq> Fe_Autoscale now" "\<And>now. e \<noteq> Fe_Shutdown now"
  shows "drain_at ` set (fl_drains (fluid_step e s)) \<subseteq> drain_at ` set (fl_drains s)"
proof (cases e)
  case (Fe_Drain_Enqueue j)
  have "drain_at ` set ((fl_drains s)[j := (fl_drains s ! j)\<lparr>dr_enqueued := True\<rparr>]) \<subseteq> drain_at ` set (fl_drains s)" if "j < length (fl_drains s)"
    using that nth_mem [OF that] by (auto dest!: subsetD [OF set_update_subset_insert])
  then show ?thesis by (simp add: Fe_Drain_Enqueue drain_enqueue_def Let_def)
next
  case (Fe_Drain_Finish j)
  then show ?thesis by (auto simp: drain_finish_def Let_def dest: in_set_takeD in_set_dropD)
next
  case (Fe_Unregister keys)
  then show ?thesis by (auto simp: unregister_many_def unreg_next_def Let_def split: option.splits list.splits)
next
  case (Fe_Request key f co now)
  then show ?thesis by (auto simp: lease_request_def new_start_def Let_def split: option.splits prod.splits lease_decision.splits)
qed (use assms in \<open>auto simp: on_pool_def register_many_def admit_start_def set_phase_def cell_provisioned_def publish_start_def finish_start_def
  drop_lease_def mark_dead_def unreg_next_def term_pick_def worker_take_def term_done_def shutdown_barrier_def stop_worker_def final_terminate_def
  shutdown_done_def shutdown_timeout_def Let_def split: option.splits start_phase.splits start_kind.splits list.splits worker_state.splits if_splits\<close>)

lemma drain_off_duty:
  assumes "ids_inv s" "unique_cells s" "exact.accounted s" and r: "reconcile (fl_config s) now (fl_registry s) = (ws, ds, reg)"
    and k: "(k, c, n) \<in> set ds"
  shows "off_duty (s\<lparr>fl_registry := reg, fl_drains := x\<rparr>) k c"
proof -
  obtain p where p: "(k, p) \<in> set (fl_registry s)" "(c, n) \<in> set (fst (snd (reconcile_pool (fl_config s) now p)))"
    using reconcile_drains [OF r k] by blast
  obtain m d1 p1 where rp: "reconcile_pool (fl_config s) now p = (m, d1, p1)" using prod_cases3 by blast
  have "tget (fl_registry s) k = Some p" using p(1) ids_distinct(2) [OF assms(1)] by simp
  then have p1: "tget reg k = Some p1" using reconcile_at [OF r, of k] rp by simp
  obtain j where j: "j \<in> set (fp_instances p1)" "in_cell j = c" "in_draining j" "in_inflight j = 0"
    using reconcile_pool_spec(3) [OF rp] p(2) rp by (fastforce simp: idle_in_def)
  have l: "(c, 0) \<in> set (loads reg k)" using j by (force simp: loads_pool [OF p1])
  then have old: "(c, 0) \<in> set (loads (fl_registry s) k)" using reconcile_loads [OF r] by simp
  then have u: "users k c s = 0" using assms(3) by (auto simp: exact.accounted_def)
  have "map in_cell (fp_instances p1) = map fst (loads reg k)" by (simp add: loads_pool [OF p1] comp_def)
  then have "distinct (map in_cell (fp_instances p1))"
    using unique_distinct [OF assms(2), of k] reconcile_loads [OF r, of k] by simp
  then have "\<not> (i \<in> set (fp_instances p1) \<and> in_cell i = c \<and> \<not> in_draining i)" for i
    using j by (metis distinct_map inj_on_eq_iff)
  then have "c \<notin> set (accepting_at reg k)" by (auto simp: accepting_pool [OF p1])
  moreover have "\<not> starts_at s i c" for i using public_in [OF old] assms(2) by (auto simp: unique_cells_def)
  ultimately show ?thesis using u by (simp add: off_duty_def users_def starts_at_def)
qed

lemma drains_step:
  assumes "drains_off_duty s" "ids_inv s" "unique_cells s" "exact.accounted s"
  shows "drains_off_duty (fluid_step e s)"
proof -
  have kept: "drains_off_duty (fluid_step e s)" if e: "\<And>now. e \<noteq> Fe_Autoscale now" "\<And>now. e \<noteq> Fe_Shutdown now"
    unfolding drains_off_duty_def
  proof
    fix d assume "d \<in> set (fl_drains (fluid_step e s))"
    then obtain d0 where d0: "d0 \<in> set (fl_drains s)" "dr_key d0 = dr_key d" "dr_cell d0 = dr_cell d"
      using drains_kept [OF e, of s] by auto
    have "dr_cell d < fl_next s" using assms(2) d0 by (auto simp: ids_inv_def known_def)
    moreover have "off_duty s (dr_key d) (dr_cell d)" using assms(1) d0 by (auto simp: drains_off_duty_def)
    ultimately show "off_duty (fluid_step e s) (dr_key d) (dr_cell d)" using assms(2) e by (intro off_duty_step)
  qed
  show ?thesis
  proof (cases e)
    case (Fe_Autoscale now)
    obtain ws ds reg where r: "reconcile (fl_config s) now (fl_registry s) = (ws, ds, reg)" using prod_cases3 by blast
    let ?s = "s\<lparr>fl_registry := reg, fl_drains := drains_of ds\<rparr>"
    have "drains_off_duty ?s" using drain_off_duty [OF assms(2-4) r] by (auto simp: drains_off_duty_def)
    moreover have "ids_inv ?s" by (rule ids_reconciled [OF assms(2) r])
    moreover have "drains_off_duty (new_start kind key t)" if "drains_off_duty t" "ids_inv t" for kind key t
      using that off_duty_new_start by (auto simp: drains_off_duty_def) (simp add: new_start_def)
    ultimately have "drains_off_duty (fold (new_start Keep_Warm) ws ?s) \<and> ids_inv (fold (new_start Keep_Warm) ws ?s)"
      by (intro fold_invariant [where P = "\<lambda>s. drains_off_duty s \<and> ids_inv s"]) (simp_all add: ids_new_start)
    then show ?thesis using assms(1) by (simp add: Fe_Autoscale autoscale_def r Let_def)
  next
    case (Fe_Shutdown now)
    have "fl_drains (fold (\<lambda>i. fail_start i None now) ws (s\<lparr>fl_shutdown := Closing, fl_drains := []\<rparr>)) = []" for ws
      by (rule fold_invariant) simp_all
    then show ?thesis using assms(1) by (simp add: Fe_Shutdown begin_shutdown_def) (simp add: drains_off_duty_def)
  qed (use kept in simp_all)
qed

lemma drains_new: "drains_off_duty (fluid_new cfg cap)"
  by (simp add: drains_off_duty_def fluid_new_def)

end
