(* ===== verification/Fluid_Limits.thy ===== *)
theory Fluid_Limits
  imports Fluid_Drain
begin

text \<open>
  The limits of a pool. The live instances of a pool stay within the instance limits of its configurations,
  the load of an instance within the concurrency of them, and the live instances of a tenant within its quota
  as long as nothing is kept warm.
\<close>

section \<open>One pool\<close>

definition fits :: "nat \<Rightarrow> nat \<Rightarrow> function_pool \<Rightarrow> bool" where
  "fits m c p \<longleftrightarrow> live_count p \<le> m \<and> fc_max_instances (fp_cfg p) \<le> m \<and> fc_min_instances (fp_cfg p) \<le> m \<and>
     fc_max_concurrency (fp_cfg p) \<le> c \<and> (\<forall>i \<in> set (fp_instances p). in_inflight i \<le> max 1 c)"

definition cfg_fits :: "nat \<Rightarrow> nat \<Rightarrow> fn_config \<Rightarrow> bool" where
  "cfg_fits m c cfg \<longleftrightarrow> fc_max_instances cfg \<le> m \<and> fc_min_instances cfg \<le> m \<and> fc_max_concurrency cfg \<le> c"

text \<open>An operation that makes no instance live and adds no load.\<close>

lemma fits_mono:
  assumes "fits m c p" "live_count p' \<le> live_count p" "fp_cfg p' = fp_cfg p"
    "\<And>i. i \<in> set (fp_instances p') \<Longrightarrow> \<exists>j \<in> set (fp_instances p). in_inflight i \<le> in_inflight j"
  shows "fits m c p'"
proof -
  have "in_inflight i \<le> max 1 c" if "i \<in> set (fp_instances p')" for i
    using assms(4) [OF that] assms(1) by (auto simp: fits_def)
  then show ?thesis using assms by (auto simp: fits_def)
qed

lemma live_simps [simp]:
  "live_count (release_lease c ms now p) = live_count p" "live_count (warm_started c now p) = live_count p"
  "live_count (close_circuit p) = live_count p" "live_count (bump_nack r p) = live_count p"
  "live_count (record_browser_request ms p) = live_count p" "live_count (adapt_apply samples cur mx p) = live_count p"
  "live_count (update_config cfg p) = live_count p" "live_count (set_min_instances n p) = live_count p"
  "live_count (reserve_start p) = Suc (live_count p)" "live_count (crash_check now p) = live_count p"
  by (simp_all add: live_count_def active_accepting) (simp_all add: crash_check_def Let_def)

lemma live_failed: "live_count (cold_start_failed err now p) \<le> live_count p"
  by (simp add: live_count_def active_accepting)

lemma live_published: "fp_provisioning p > 0 \<Longrightarrow> live_count (publish_instance c udp tcp pm im now p) = live_count p"
  by (simp add: live_count_def active_accepting)

lemma cfg_simps [simp]:
  "fp_cfg (release_lease c ms now p) = fp_cfg p" "fp_cfg (warm_started c now p) = fp_cfg p"
  "fp_cfg (close_circuit p) = fp_cfg p" "fp_cfg (bump_nack r p) = fp_cfg p"
  "fp_cfg (record_browser_request ms p) = fp_cfg p" "fp_cfg (adapt_apply samples cur mx p) = fp_cfg p"
  "fp_cfg (reserve_start p) = fp_cfg p" "fp_cfg (cold_start_failed err now p) = fp_cfg p"
  "fp_cfg (publish_instance d udp tcp pm im now p) = fp_cfg p" "fp_cfg (forget_cell d p) = fp_cfg p"
  by (auto simp: release_lease_def warm_started_def close_circuit_def bump_nack_def record_browser_request_def adapt_apply_def
      reserve_start_def cold_start_failed_def publish_instance_def forget_cell_def Let_def split: option.splits nack_reason.splits)

lemma upd_first_load:
  "i \<in> set (upd_first q f is) \<Longrightarrow> (\<And>i. in_inflight (f i) \<le> in_inflight i) \<Longrightarrow> \<exists>j \<in> set is. in_inflight i \<le> in_inflight j"
  by (metis order_refl set_upd_first)

lemma fits_release: "fits m c p \<Longrightarrow> fits m c (release_lease d ms now p)"
  by (erule fits_mono) (simp_all, auto simp: release_lease_def intro: upd_first_load)

lemma fits_warm: "fits m c p \<Longrightarrow> fits m c (warm_started d now p)"
  by (erule fits_mono) (simp_all, auto simp: warm_started_def intro: upd_first_load)

lemma fits_simple:
  "fits m c p \<Longrightarrow> fits m c (close_circuit p)" "fits m c p \<Longrightarrow> fits m c (bump_nack r p)"
  "fits m c p \<Longrightarrow> fits m c (record_browser_request ms p)" "fits m c p \<Longrightarrow> fits m c (adapt_apply samples cur mx p)"
  "fits m c p \<Longrightarrow> fits m c (cold_start_failed err now p)"
  by (erule fits_mono; auto simp: live_failed)+

lemma fits_forget: "fits m c p \<Longrightarrow> fits m c (forget_cell d p)"
  using accepting_forget [of d p] by (elim fits_mono) (auto simp: live_count_def active_accepting, auto simp: forget_cell_def)

lemma fits_dead: "fits m c p \<Longrightarrow>
    fits m c (p\<lparr>fp_instances := without_first d (fp_instances p), fp_dead_reaped := x, fp_instance_ms_retired := y\<rparr>)"
  using accepting_without_first [of d "fp_instances p"] without_first_sub [of d "fp_instances p"]
  by (elim fits_mono) (auto simp: live_count_def active_accepting)

lemma fits_publish: "fits m c p \<Longrightarrow> fp_provisioning p > 0 \<Longrightarrow> fits m c (publish_instance d udp tcp pm im now p)"
  by (auto simp: fits_def live_published) (auto simp: publish_instance_def)

lemma fits_reserve: "fits m c p \<Longrightarrow> live_count p < fc_max_instances (fp_cfg p) \<Longrightarrow> fits m c (reserve_start p)"
  by (auto simp: fits_def)

lemma take_slot_load:
  assumes "take_slot mc now is = Some (d, is')" "i \<in> set is'"
  shows "i \<in> set is \<or> in_inflight i \<le> mc"
  using assms by (auto simp: take_slot_def free_slot_def dest!: set_upd_first split: option.splits)

lemma effective_le: "effective_concurrency p \<le> max 1 (fc_max_concurrency (fp_cfg p))"
  by (auto simp: effective_concurrency_def)

lemma fits_slot:
  assumes "fits m c p" "take_slot (effective_concurrency p) now (fp_instances p) = Some (d, is)"
  shows "fits m c (p\<lparr>fp_instances := is\<rparr>)"
proof -
  have "in_inflight i \<le> max 1 c" if "i \<in> set is" for i
    using take_slot_load [OF assms(2) that] effective_le [of p] assms(1) by (auto simp: fits_def)
  then show ?thesis using assms(1) accepting_take_slot [OF assms(2)] by (simp add: fits_def live_count_def active_accepting)
qed

lemma fits_config: "fits m c p \<Longrightarrow> cfg_fits m c cfg \<Longrightarrow> fits m c (update_config cfg p)"
  by (auto simp: fits_def cfg_fits_def) (simp_all add: update_config_def)

lemma fits_min: "fits m c p \<Longrightarrow> n \<le> m \<Longrightarrow> fits m c (set_min_instances n p)"
  by (auto simp: fits_def) (simp_all add: set_min_instances_def)

lemma fits_safe: "fits m c p \<Longrightarrow> set_safe_concurrency n p = Some p' \<Longrightarrow> fits m c p'"
  by (erule fits_mono) (auto simp: set_safe_concurrency_def live_count_def active_accepting split: option.splits if_splits)

lemma fits_reconcile:
  assumes "fits m c p" "reconcile_pool cfg now p = (n, ds, p')"
  shows "fits m c p'"
proof -
  note r = reconcile_pool_spec [OF assms(2)]
  have "n \<le> fc_min_instances (fp_cfg p) - live_count p"
    using r(5) by (simp add: warm_deficit_def) (simp add: crash_check_def Let_def)
  moreover have "length (accepting (fp_instances p')) \<le> length (accepting (fp_instances p))" using accepting_drained [OF r(1)] by blast
  moreover have "fc_min_instances (fp_cfg p) \<le> m" "live_count p \<le> m" using assms(1) by (simp_all add: fits_def)
  ultimately have "live_count p' \<le> m" using r(2) unfolding live_count_def active_accepting by linarith
  moreover have "in_inflight i \<le> max 1 c" if i: "i \<in> set (fp_instances p')" for i
  proof -
    have "(in_cell i, in_inflight i) \<in> set (load_of p')" using i by auto
    then have "(in_cell i, in_inflight i) \<in> set (load_of p)" unfolding load_drained [OF r(1)] .
    then show ?thesis using assms(1) by (auto simp: fits_def)
  qed
  ultimately show ?thesis using assms(1) by (simp add: fits_def r(4))
qed

section \<open>All pools\<close>

definition all_fit :: "nat \<Rightarrow> nat \<Rightarrow> fluid \<Rightarrow> bool" where
  "all_fit m c s \<longleftrightarrow> (\<forall>k p. tget (fl_registry s) k = Some p \<longrightarrow> fits m c p)"

text \<open>The configurations that the events bring.\<close>

fun event_fits :: "nat \<Rightarrow> nat \<Rightarrow> fluid_event \<Rightarrow> bool" where
  "event_fits m c (Fe_Register specs) = list_all (\<lambda>sp. cfg_fits m c (ps_cfg sp)) specs"
| "event_fits m c (Fe_Update_Config k cfg) = cfg_fits m c cfg"
| "event_fits m c (Fe_Set_Min k n) = (n \<le> m)"
| "event_fits m c e = True"

lemma all_fit_by:
  assumes "\<And>k p'. tget (fl_registry s') k = Some p' \<Longrightarrow> fits m c p'"
  shows "all_fit m c s'"
  using assms by (simp add: all_fit_def)

lemma all_fit_tmod: "all_fit m c s \<Longrightarrow> (\<And>p. fits m c p \<Longrightarrow> fits m c (f p)) \<Longrightarrow> fl_registry s' = tmod k f (fl_registry s) \<Longrightarrow> all_fit m c s'"
  by (auto simp: all_fit_def split: if_splits)

lemma all_fit_same: "all_fit m c s \<Longrightarrow> fl_registry s' = fl_registry s \<Longrightarrow> all_fit m c s'"
  by (simp add: all_fit_def)

lemma all_fit_fail: "all_fit m c s \<Longrightarrow> all_fit m c (fail_start i err now s)"
  using fail_start_registry [of i err now s] by (elim disjE exE) (auto intro: all_fit_same all_fit_tmod fits_simple)

lemma all_fit_fold_new [simp]: "fl_registry (fold (new_start kind) ws s) = fl_registry s"
  by (rule fold_invariant) (simp_all add: new_start_def)

lemma all_fit_register:
  assumes "all_fit m c s" "list_all (\<lambda>sp. cfg_fits m c (ps_cfg sp)) specs"
  shows "all_fit m c (register_many specs s)"
proof -
  have o: "in_inflight i \<le> max 1 c" if "i \<in> set (orphans (fl_registry s) k)" for i k
  proof (cases "tget (fl_registry s) k")
    case (Some p)
    then have "fits m c p" using assms(1) by (simp add: all_fit_def)
    then show ?thesis using that Some by (auto simp: orphans_def fits_def)
  qed (use that in \<open>simp add: orphans_def\<close>)
  have "fits m c ((pool_from_spec sp)\<lparr>fp_instances := orphans (fl_registry s) (ps_key sp)\<rparr>)" if "cfg_fits m c (ps_cfg sp)" for sp
    using that o by (auto simp: fits_def cfg_fits_def live_count_def active_accepting simp del: length_map) (simp_all add: pool_from_spec_def)
  note p = this
  have "\<forall>k p. tget (fold (install (fl_registry s)) specs reg) k = Some p \<longrightarrow> fits m c p"
    if "\<forall>k p. tget reg k = Some p \<longrightarrow> fits m c p" for reg
    using assms(2) that
  proof (induction specs arbitrary: reg)
    case (Cons sp specs)
    have "\<forall>k p. tget (install (fl_registry s) sp reg) k = Some p \<longrightarrow> fits m c p"
      using Cons.prems p by (simp add: install_def)
    then show ?case using Cons.IH Cons.prems(1) by simp
  qed simp
  then show ?thesis using register_registry [of specs s] assms(1) by (auto simp: all_fit_def)
qed

lemma all_fit_request: assumes "all_fit m c s" shows "all_fit m c (lease_request key f co now s)"
proof -
  obtain d reg where d: "decide_lease (fl_config s) key co now (fl_registry s) = (d, reg)" by fastforce
  have "all_fit m c (s\<lparr>fl_registry := reg\<rparr>)"
    using d
  proof (cases rule: decide_lease_cases)
    case (ready p e "is")
    then show ?thesis using assms fits_slot by (auto simp: all_fit_def)
  qed (use assms fits_simple fits_reserve in \<open>auto simp: all_fit_def\<close>)
  then show ?thesis using assms
    by (auto simp: lease_request_def d Let_def new_start_def split: lease_decision.splits intro: all_fit_same)
qed

lemma all_fit_publish:
  assumes "all_fit m c s" "exact.reserved s"
  shows "all_fit m c (publish_start i udp tcp ms now s)"
proof (cases "tget (fl_starts s) i")
  case (Some t)
  show ?thesis
  proof (cases "cs_phase t")
    case (Ph_Starting d pm)
    have "0 < pending (cs_key t) s"
      unfolding pending_def by (rule tcount_pos [OF Some]) (simp add: unpublished_def Ph_Starting)
    then have "fp_provisioning p > 0" if "tget (fl_registry s) (cs_key t) = Some p" for p
      using assms(2) that by (simp add: exact.reserved_def)
    then show ?thesis using assms(1)
      by (auto simp: publish_start_def Some Ph_Starting set_phase_def split: option.splits intro: all_fit_fail)
        (auto simp: all_fit_def intro: fits_publish split: if_splits)
  qed (use assms Some in \<open>simp_all add: publish_start_def\<close>)
qed (use assms in \<open>simp add: publish_start_def\<close>)

lemma all_fit_finish: assumes "all_fit m c s" shows "all_fit m c (finish_start i now s)"
  using assms by (auto simp: finish_start_def Let_def split: option.splits start_phase.splits start_kind.splits)
    (auto simp: all_fit_def intro: fits_simple fits_warm split: if_splits)

lemma all_fit_autoscale: assumes "all_fit m c s" shows "all_fit m c (autoscale now s)"
proof -
  obtain ws ds reg where r: "reconcile (fl_config s) now (fl_registry s) = (ws, ds, reg)" using prod_cases3 by blast
  have f: "fits m c (snd (snd (reconcile_pool (fl_config s) now p)))" if "fits m c p" for p
    using fits_reconcile [OF that, of "fl_config s" now] by (metis prod.collapse)
  have "fits m c p'" if "tget reg k = Some p'" for k p'
    using that assms f reconcile_at [OF r, of k] by (auto simp: all_fit_def)
  then show ?thesis using assms by (auto simp: autoscale_def r Let_def all_fit_def)
qed

lemma all_fit_shutdown: assumes "all_fit m c s" shows "all_fit m c (begin_shutdown now s)"
proof -
  have "all_fit m c (fold (\<lambda>i. fail_start i None now) ws (s\<lparr>fl_shutdown := Closing, fl_drains := []\<rparr>))" for ws
    by (rule fold_invariant [where P = "all_fit m c"]) (use assms in \<open>auto intro: all_fit_same all_fit_fail\<close>)
  then show ?thesis using assms by (simp add: begin_shutdown_def)
qed

lemma all_fit_step:
  assumes "all_fit m c s" "exact.reserved s" "event_fits m c e"
  shows "all_fit m c (fluid_step e s)"
proof (cases "aside e")
  case True
  show ?thesis by (rule all_fit_same [OF assms(1)]) (simp add: aside_frame [OF True])
next
  case False
  note same = all_fit_same [OF assms(1)]
  have on: "all_fit m c (on_pool k f s)" if "\<And>p. fits m c p \<Longrightarrow> fits m c (f p)" for k f
    by (rule all_fit_tmod [OF assms(1) that]) (simp_all add: on_pool_def)
  show ?thesis
  proof (cases e)
    case (Fe_Register specs)
    then show ?thesis using all_fit_register [OF assms(1)] assms(3) by simp
  next
    case (Fe_Set_Safe key n)
    then show ?thesis by (auto intro!: on intro: fits_safe split: option.splits)
  next
    case (Fe_Dedupe key)
    have "fits m c p \<Longrightarrow> fits m c (p\<lparr>fp_coldstart_deduped := x\<rparr>)" for p x
      by (erule fits_mono) (auto simp: live_count_def active_instances_def)
    then show ?thesis using Fe_Dedupe by (auto intro: on)
  next
    case (Fe_Admit i now)
    then show ?thesis using all_fit_fail [OF assms(1)] assms(1)
      by (auto simp: admit_start_def set_phase_def split: option.splits intro: same)
  next
    case (Fe_Provisioned i ms)
    then show ?thesis using assms(1) by (auto simp: cell_provisioned_def set_phase_def split: option.splits intro: same)
  next
    case (Fe_Release key d ms now)
    then show ?thesis using assms(1) by (auto simp: drop_lease_def intro: all_fit_tmod [OF assms(1)] fits_release)
  next
    case (Fe_Mark_Dead key d now)
    then show ?thesis using assms(1) by (auto simp: mark_dead_def all_fit_def intro: fits_dead split: option.splits)
  next
    case (Fe_Unregister keys)
    have "fl_registry (unregister_many keys s) = fold tdel (remdups_adj (sort keys)) (fl_registry s)"
      by (auto simp: unregister_many_def unreg_next_def Let_def split: option.splits list.splits)
    then show ?thesis using assms(1) by (auto simp: Fe_Unregister all_fit_def tget_fold_tdel split: if_splits)
  next
    case (Fe_Drain_Finish j)
    then show ?thesis using assms(1) by (auto simp: drain_finish_def Let_def intro: all_fit_tmod [OF assms(1)] fits_forget)
  next
    case Fe_Barrier
    then show ?thesis using assms(1) by (auto simp: shutdown_barrier_def Let_def all_fit_def)
  qed (use assms False in \<open>auto intro: on fits_simple fits_config fits_min all_fit_request all_fit_publish all_fit_finish all_fit_fail
      all_fit_autoscale all_fit_shutdown\<close>)
qed

lemma all_fit_new: "all_fit m c (fluid_new cfg cap)"
  by (simp add: all_fit_def fluid_new_def)

end
