(* ===== verification/Fluid_Worker.thy ===== *)
theory Fluid_Worker
  imports Fluid_Inv
begin

text \<open>
  The termination worker gets through its queue: the flag \<open>in_progress\<close> belongs to the one cell the worker
  has in hand, so a worker between two entries can take any entry; unless a termination failed, a worker that waits before an entry
  has been notified; and as many rounds with a good answer of the backend as there are entries empty the queue.
\<close>

definition in_hand :: "(cell, pending_termination) table \<Rightarrow> cell \<Rightarrow> bool" where
  "in_hand m c \<longleftrightarrow> (case tget m c of None \<Rightarrow> False | Some e \<Rightarrow> pe_in_progress e)"

lemma in_hand_tput [simp]: "in_hand (tput c e m) d = (if d = c then pe_in_progress e else in_hand m d)"
  by (simp add: in_hand_def)

lemma in_hand_tdel [simp]: "in_hand (tdel c m) d \<longleftrightarrow> d \<noteq> c \<and> in_hand m d"
  by (simp add: in_hand_def)

lemma in_hand_release [simp]: "in_hand (tmod c (\<lambda>e. e\<lparr>pe_in_progress := False\<rparr>) m) d \<longleftrightarrow> d \<noteq> c \<and> in_hand m d"
  by (auto simp: in_hand_def split: option.splits)

lemma in_hand_entry: "tget m c = Some e \<Longrightarrow> pe_in_progress e = in_hand m c"
  by (simp add: in_hand_def)

lemma in_hand_absent: "tget m c = None \<Longrightarrow> \<not> in_hand m c"
  by (simp add: in_hand_def)

definition queue_inv :: "fluid \<Rightarrow> bool" where
  "queue_inv s \<longleftrightarrow> distinct (tkeys (fl_terminating s)) \<and> (\<forall>c. in_hand (fl_terminating s) c \<longrightarrow> fl_worker s = Worker_Busy c)"

lemma queue_same: "queue_inv s \<Longrightarrow> fl_terminating s' = fl_terminating s \<Longrightarrow> fl_worker s' = fl_worker s \<Longrightarrow> queue_inv s'"
  by (simp add: queue_inv_def)

lemma queue_enqueue: "queue_inv s \<Longrightarrow> queue_inv (enqueue_termination c ctx s)"
proof (cases "tget (fl_terminating s) c")
  case (Some e)
  assume "queue_inv s"
  then show ?thesis using in_hand_entry [OF Some]
    by (auto simp: queue_inv_def enqueue_termination_def Some simp del: map_of_eq_Some_iff)
qed (auto simp: queue_inv_def enqueue_termination_def simp del: map_of_eq_Some_iff)

lemma queue_fail: "queue_inv s \<Longrightarrow> queue_inv (fail_start i err now s)"
  by (auto simp: fail_start_def Let_def split: option.splits start_phase.splits intro!: queue_enqueue intro: queue_same)

lemma queue_unreg_next: "queue_inv s \<Longrightarrow> queue_inv (unreg_next u s)"
  by (auto simp: unreg_next_def split: option.splits list.splits intro!: queue_enqueue intro: queue_same)

lemma queue_take: assumes "queue_inv s" "\<And>c. fl_worker s \<noteq> Worker_Busy c" shows "queue_inv (worker_take s)"
proof (cases "min_by_key fst (filter (\<lambda>(c, e). \<not> pe_in_progress e) (fl_terminating s))")
  case (Some x)
  then show ?thesis using assms by (cases x) (auto simp: worker_take_def queue_inv_def)
qed (use assms in \<open>auto simp: worker_take_def queue_inv_def\<close>)

lemma queue_pick: "queue_inv s \<Longrightarrow> queue_inv (term_pick s)"
  by (auto simp: term_pick_def split: worker_state.split intro!: queue_take) (auto simp: queue_inv_def)

lemma queue_done: assumes "queue_inv s" shows "queue_inv (term_done ok s)"
  using assms by (auto simp: term_done_def queue_inv_def split: worker_state.splits)

lemma queue_own: "queue_inv s \<Longrightarrow> queue_inv (s\<lparr>fl_terminating := fold own_cell cs (fl_terminating s)\<rparr>)"
proof (induction cs arbitrary: s)
  case (Cons c cs)
  have "queue_inv (s\<lparr>fl_terminating := own_cell c (fl_terminating s)\<rparr>)"
    using Cons.prems by (auto simp: queue_inv_def own_cell_def)
  then show ?case using Cons.IH [of "s\<lparr>fl_terminating := own_cell c (fl_terminating s)\<rparr>"] by simp
qed simp

lemma queue_step: assumes "queue_inv s" shows "queue_inv (fluid_step e s)"
proof -
  note same = queue_same [OF assms]
  show ?thesis
  proof (cases e)
    case (Fe_Request key f co now)
    then show ?thesis using assms
      by (auto simp: lease_request_def new_start_def Let_def split: option.splits prod.splits lease_decision.splits intro: same)
  next
    case (Fe_Publish i udp tcp ms now)
    then show ?thesis using assms queue_fail [OF assms]
      by (auto simp: publish_start_def set_phase_def split: option.splits start_phase.splits intro: same)
  next
    case (Fe_Mark_Dead key c now)
    then show ?thesis using assms
      by (auto simp: mark_dead_def split: option.splits intro!: queue_enqueue intro: same)
  next
    case (Fe_Unregister keys)
    then show ?thesis unfolding Fe_Unregister fluid_step.simps unregister_many_def Let_def
      by (intro queue_unreg_next) (auto intro: same)
  next
    case (Fe_Autoscale now)
    have "queue_inv (fold (new_start Keep_Warm) ws (s\<lparr>fl_registry := r, fl_drains := d\<rparr>))" for ws r d
      by (rule fold_invariant) (auto intro: same queue_same simp: new_start_def)
    then show ?thesis using assms by (auto simp: Fe_Autoscale autoscale_def Let_def split: prod.splits)
  next
    case (Fe_Drain_Enqueue j)
    then show ?thesis using assms by (auto simp: drain_enqueue_def Let_def intro!: queue_enqueue intro: same)
  next
    case (Fe_Shutdown now)
    have "queue_inv (fold (\<lambda>i. fail_start i None now) ws (s\<lparr>fl_shutdown := Closing, fl_drains := []\<rparr>))" for ws
      by (rule fold_invariant) (auto intro: same queue_fail)
    then show ?thesis using assms by (simp add: Fe_Shutdown begin_shutdown_def)
  next
    case Fe_Barrier
    have "queue_inv (s\<lparr>fl_permits := 0, fl_registry := [], fl_terminating := fold own_cell cs (fl_terminating s), fl_barrier := b\<rparr>)" for cs b
      by (rule queue_same [OF queue_own [OF assms, of cs]]) simp_all
    then show ?thesis using assms by (simp add: Fe_Barrier shutdown_barrier_def Let_def)
  next
    case (Fe_Final c ok)
    then show ?thesis using assms by (auto simp: final_terminate_def queue_inv_def split: if_splits)
  next
    case Fe_Stop_Worker
    then show ?thesis using assms by (auto simp: stop_worker_def queue_inv_def)
  next
    case (Fe_Unreg_Next u)
    then show ?thesis using queue_unreg_next [OF assms] by simp
  qed (use assms in \<open>auto simp: on_pool_def register_many_def admit_start_def set_phase_def cell_provisioned_def finish_start_def
    drop_lease_def drain_finish_def stop_worker_def shutdown_done_def shutdown_timeout_def Let_def
    split: option.splits start_phase.splits start_kind.splits intro: same queue_fail queue_pick queue_done\<close>)
qed

lemma queue_run: "queue_inv (fluid_run cfg cap evs)"
  by (rule fluid_run_invariant [where ok = "\<lambda>_. True"])
    (auto intro: queue_step simp: list_all_iff, simp add: queue_inv_def fluid_new_def in_hand_def)

text \<open>Between two entries the worker holds none.\<close>

lemma none_in_progress:
  assumes "queue_inv s" "\<And>c. fl_worker s \<noteq> Worker_Busy c"
  shows "filter (\<lambda>(c, e). \<not> pe_in_progress e) (fl_terminating s) = fl_terminating s"
proof (rule filter_True)
  have "\<not> pe_in_progress e" if "(c, e) \<in> set (fl_terminating s)" for c e
    using assms that in_hand_entry [of "fl_terminating s" c e] by (auto simp: queue_inv_def)
  then show "\<forall>x \<in> set (fl_terminating s). case x of (c, e) \<Rightarrow> \<not> pe_in_progress e" by auto
qed

section \<open>No wake-up is lost\<close>

definition no_failure :: "fluid_event \<Rightarrow> bool" where
  "no_failure e = (e \<noteq> Fe_Term_Done False)"

text \<open>Before the barrier of the shutdown, every entry that waits for the worker has notified it.\<close>

definition wake_inv :: "fluid \<Rightarrow> bool" where
  "wake_inv s \<longleftrightarrow> (fl_barrier s = None \<and> fl_worker s = Worker_Waiting \<and> fl_terminating s \<noteq> [] \<longrightarrow> fl_notified s)"

lemma wake_same:
  "wake_inv s \<Longrightarrow> fl_terminating s' = fl_terminating s \<Longrightarrow> fl_worker s' = fl_worker s \<Longrightarrow> fl_notified s' = fl_notified s \<Longrightarrow>
    fl_barrier s' = fl_barrier s \<Longrightarrow> wake_inv s'"
  by (simp add: wake_inv_def)

lemma wake_enqueue [simp]: "wake_inv (enqueue_termination c ctx s)"
  by (simp add: wake_inv_def enqueue_termination_def)

lemma wake_fail: "wake_inv s \<Longrightarrow> wake_inv (fail_start i err now s)"
  by (auto simp: fail_start_def Let_def split: option.splits start_phase.splits intro: wake_same)

lemma wake_unreg_next: "wake_inv s \<Longrightarrow> wake_inv (unreg_next u s)"
  by (auto simp: unreg_next_def split: option.splits list.splits intro: wake_same)

lemma wake_take: assumes "queue_inv s" "\<And>c. fl_worker s \<noteq> Worker_Busy c" shows "wake_inv (worker_take s)"
  using none_in_progress [OF assms]
  by (cases "min_by_key fst (fl_terminating s)") (auto simp: worker_take_def wake_inv_def)

lemma wake_pick: assumes "queue_inv s" "wake_inv s" shows "wake_inv (term_pick s)"
proof -
  have "queue_inv (s\<lparr>fl_notified := False\<rparr>)" using assms(1) by (simp add: queue_inv_def)
  then have "fl_worker s = Worker_Waiting \<Longrightarrow> wake_inv (worker_take (s\<lparr>fl_notified := False\<rparr>))" by (intro wake_take) auto
  then show ?thesis using assms wake_take [OF assms(1)] by (auto simp: term_pick_def split: worker_state.split) (simp add: wake_inv_def)
qed

lemma wake_step: assumes "no_failure e" "queue_inv s" "wake_inv s" shows "wake_inv (fluid_step e s)"
proof -
  note same = wake_same [OF assms(3)]
  show ?thesis
  proof (cases e)
    case (Fe_Request key f co now)
    then show ?thesis using assms(3)
      by (auto simp: lease_request_def new_start_def Let_def split: option.splits prod.splits lease_decision.splits intro: same)
  next
    case (Fe_Publish i udp tcp ms now)
    then show ?thesis using assms(3) wake_fail [OF assms(3)]
      by (auto simp: publish_start_def set_phase_def split: option.splits start_phase.splits intro: same)
  next
    case (Fe_Unregister keys)
    then show ?thesis unfolding Fe_Unregister fluid_step.simps unregister_many_def Let_def
      by (intro wake_unreg_next) (auto intro: same)
  next
    case (Fe_Autoscale now)
    have "wake_inv (fold (new_start Keep_Warm) ws (s\<lparr>fl_registry := r, fl_drains := d\<rparr>))" for ws r d
      by (rule fold_invariant) (auto intro: same wake_same simp: new_start_def)
    then show ?thesis using assms(3) by (auto simp: Fe_Autoscale autoscale_def Let_def split: prod.splits)
  next
    case (Fe_Shutdown now)
    have "wake_inv (fold (\<lambda>i. fail_start i None now) ws (s\<lparr>fl_shutdown := Closing, fl_drains := []\<rparr>))" for ws
      by (rule fold_invariant) (auto intro: same wake_fail)
    then show ?thesis using assms(3) by (simp add: Fe_Shutdown begin_shutdown_def)
  next
    case Fe_Barrier
    then show ?thesis using assms(3) by (simp add: shutdown_barrier_def Let_def) (simp add: wake_inv_def)
  next
    case (Fe_Term_Done ok)
    then show ?thesis using assms(1,3) by (auto simp: term_done_def no_failure_def wake_inv_def split: worker_state.split)
  next
    case (Fe_Final c ok)
    then show ?thesis using assms(3) by (auto simp: final_terminate_def wake_inv_def draining_down_def)
  next
    case (Fe_Unreg_Next u)
    then show ?thesis using wake_unreg_next [OF assms(3)] by simp
  qed (use assms in \<open>auto simp: on_pool_def register_many_def admit_start_def set_phase_def cell_provisioned_def finish_start_def
    drop_lease_def mark_dead_def drain_enqueue_def drain_finish_def shutdown_done_def shutdown_timeout_def stop_worker_def Let_def
    split: option.splits start_phase.splits start_kind.splits intro: same wake_fail wake_pick\<close>,
    (simp_all add: wake_inv_def)?)
qed

lemma wake_run: "list_all no_failure evs \<Longrightarrow> wake_inv (fluid_run cfg cap evs)"
  by (rule fluid_run_invariant [where ok = no_failure and P = "\<lambda>s. queue_inv s \<and> wake_inv s", THEN conjunct2])
    (auto intro: queue_step wake_step, simp_all add: queue_inv_def wake_inv_def fluid_new_def in_hand_def)

section \<open>Rounds\<close>

text \<open>One round of the worker.\<close>

abbreviation worker_round :: "fluid_event list" where
  "worker_round \<equiv> [Fe_Term_Pick, Fe_Term_Done True]"

text \<open>The worker will take an entry at its next step.\<close>

definition worker_ready :: "fluid \<Rightarrow> bool" where
  "worker_ready s \<longleftrightarrow> \<not> fl_term_closing s \<and> (fl_worker s = Worker_Looping \<or> fl_worker s = Worker_Waiting \<and> fl_notified s)"

lemma round_effect:
  assumes "queue_inv s" "worker_ready s" "fl_terminating s \<noteq> []"
  shows "\<exists>c. c \<in> set (tkeys (fl_terminating s)) \<and> fl_terminating (fold fluid_step worker_round s) = tdel c (fl_terminating s) \<and>
    fl_cells (fold fluid_step worker_round s) = removeAll c (fl_cells s) \<and> worker_ready (fold fluid_step worker_round s)"
proof -
  have f: "filter (\<lambda>(c, e). \<not> pe_in_progress e) (fl_terminating s) = fl_terminating s"
    by (rule none_in_progress) (use assms(1,2) in \<open>auto simp: worker_ready_def\<close>)
  obtain c e where m: "min_by_key fst (fl_terminating s) = Some (c, e)"
    using assms(3) by (cases "min_by_key fst (fl_terminating s)") auto
  have c: "(c, e) \<in> set (fl_terminating s)" using min_by_key_Some [OF m] by simp
  have td: "tdel c (tput c v m) = tdel c m" for v and m :: "(cell, pending_termination) table"
    by (induction m) auto
  show ?thesis
    by (rule exI [of _ c])
      (use c assms in \<open>auto simp: worker_ready_def term_pick_def worker_take_def f m term_done_def td image_iff intro!: bexI [of _ "(c, e)"]\<close>)
qed

lemma rounds_empty:
  assumes "queue_inv s" "worker_ready s \<or> fl_terminating s = []" "n = length (fl_terminating s)"
  shows "fl_terminating (fold fluid_step (concat (replicate n worker_round)) s) = [] \<and>
    fl_cells (fold fluid_step (concat (replicate n worker_round)) s) = filter (\<lambda>c. c \<notin> set (tkeys (fl_terminating s))) (fl_cells s)"
  using assms
proof (induction n arbitrary: s)
  case (Suc n)
  let ?t = "fold fluid_step worker_round s"
  have ne: "fl_terminating s \<noteq> []" using Suc.prems(3) by auto
  then have ready: "worker_ready s" using Suc.prems(2) by blast
  obtain c where c: "c \<in> set (tkeys (fl_terminating s))" "fl_terminating ?t = tdel c (fl_terminating s)"
    "fl_cells ?t = removeAll c (fl_cells s)" "worker_ready ?t"
    using round_effect [OF Suc.prems(1) ready ne] by blast
  have q: "queue_inv ?t" using queue_done [OF queue_pick [OF Suc.prems(1)]] by simp
  have "distinct (tkeys (fl_terminating s))" using Suc.prems(1) by (simp add: queue_inv_def)
  then have "length (fl_terminating ?t) = n" using length_tdel_mem [of "fl_terminating s" c] c Suc.prems(3) by simp
  then have "fl_terminating (fold fluid_step (concat (replicate n worker_round)) ?t) = [] \<and>
    fl_cells (fold fluid_step (concat (replicate n worker_round)) ?t) = filter (\<lambda>c. c \<notin> set (tkeys (fl_terminating ?t))) (fl_cells ?t)"
    using Suc.IH [OF q] c(4) by simp
  moreover have "fold fluid_step (concat (replicate (Suc n) worker_round)) s = fold fluid_step (concat (replicate n worker_round)) ?t" by simp
  moreover have "filter (\<lambda>d. d \<notin> set (tkeys (fl_terminating ?t))) (fl_cells ?t) = filter (\<lambda>d. d \<notin> set (tkeys (fl_terminating s))) (fl_cells s)"
    using c(1) unfolding c(2,3) tkeys_tdel by (auto simp: removeAll_filter_not_eq intro!: filter_cong)
  ultimately show ?case by simp
qed simp

end
