(* ===== verification/Fluid_Props.thy ===== *)
theory Fluid_Props
  imports Fluid_Own Fluid_Limits Fluid_Worker
begin

text \<open>
  The properties of Fluid compute: reservations, requests in flight, the drain, the limits, the decision on a
  lease, the circuit, the termination worker, adaptive concurrency. Runs named \<open>demo_\<close> are
  the concrete inputs; the last section has those where the code departs from its comments.
\<close>

section \<open>Orderly runs\<close>

definition orderly_run :: "fluid_config \<Rightarrow> nat \<Rightarrow> fluid_event list \<Rightarrow> bool" where
  "orderly_run cfg cap evs = orderly evs (fluid_new cfg cap)"

lemma upper_invariants: "upper.reserved (fluid_run cfg cap evs) \<and> upper.accounted (fluid_run cfg cap evs)"
proof -
  have "upper.reserved s \<and> upper.accounted s \<and> ids_inv s \<and> unique_cells s" if "s = fluid_run cfg cap evs" for s
    unfolding that
  proof (rule fluid_run_invariant [where ok = "\<lambda>_. True"])
    show "upper.reserved (fluid_step e s) \<and> upper.accounted (fluid_step e s) \<and> ids_inv (fluid_step e s) \<and> unique_cells (fluid_step e s)"
      if "upper.reserved s \<and> upper.accounted s \<and> ids_inv s \<and> unique_cells s" for e s
      using that upper.reserved_step upper.accounted_step ids_step unique_step by blast
  qed (simp_all add: upper.reserved_new upper.accounted_new ids_new unique_new list_all_iff)
  then show ?thesis by blast
qed

lemma exact_invariants:
  assumes "orderly_run cfg cap evs" "list_all (event_fits m c) evs"
  shows "exact.reserved (fluid_run cfg cap evs) \<and> exact.accounted (fluid_run cfg cap evs) \<and> drains_off_duty (fluid_run cfg cap evs) \<and>
    all_fit m c (fluid_run cfg cap evs)"
proof -
  have "exact.reserved s \<and> exact.accounted s \<and> ids_inv s \<and> unique_cells s \<and> drains_off_duty s \<and> all_fit m c s"
    if "s = fluid_run cfg cap evs" for s
    unfolding that
  proof (rule orderly_invariant [where ok = "event_fits m c"])
    show "exact.reserved (fluid_step e s) \<and> exact.accounted (fluid_step e s) \<and> ids_inv (fluid_step e s) \<and> unique_cells (fluid_step e s) \<and>
        drains_off_duty (fluid_step e s) \<and> all_fit m c (fluid_step e s)"
      if "settled e s" "event_fits m c e"
        "exact.reserved s \<and> exact.accounted s \<and> ids_inv s \<and> unique_cells s \<and> drains_off_duty s \<and> all_fit m c s" for e s
      using that exact.reserved_step exact.accounted_step ids_step unique_step drains_step all_fit_step by blast
  qed (use assms in \<open>simp_all add: orderly_run_def exact.reserved_new exact.accounted_new ids_new unique_new drains_new all_fit_new\<close>)
  then show ?thesis by blast
qed

text \<open>Bounds for the configurations of any given list of events.\<close>

lemma some_fit: "\<exists>m c. list_all (event_fits m c) evs"
proof (induction evs)
  case (Cons e evs)
  then obtain m c where mc: "list_all (event_fits m c) evs" by blast
  have up: "event_fits (max m m') (max c c') e'" if "event_fits m c e'" for e' m' c'
    using that by (cases e') (auto simp: cfg_fits_def list_all_iff le_max_iff_disj)
  have up': "event_fits (max m m') (max c c') e'" if "event_fits m' c' e'" for e' m' c'
    using that by (cases e') (auto simp: cfg_fits_def list_all_iff le_max_iff_disj)
  have "\<exists>m' c'. event_fits m' c' e"
  proof (cases e)
    case (Fe_Register specs)
    have "\<exists>m' c'. list_all (\<lambda>sp. cfg_fits m' c' (ps_cfg sp)) specs"
    proof (induction specs)
      case (Cons sp specs)
      then obtain m' c' where "list_all (\<lambda>sp. cfg_fits m' c' (ps_cfg sp)) specs" by blast
      then have "list_all (\<lambda>sp. cfg_fits (m' + fc_max_instances (ps_cfg sp) + fc_min_instances (ps_cfg sp)) (c' + fc_max_concurrency (ps_cfg sp)) (ps_cfg sp)) [sp] \<and>
          list_all (\<lambda>sp'. cfg_fits (m' + fc_max_instances (ps_cfg sp) + fc_min_instances (ps_cfg sp)) (c' + fc_max_concurrency (ps_cfg sp)) (ps_cfg sp')) specs"
        by (auto simp: list_all_iff cfg_fits_def intro: trans_le_add1)
      then show ?case by (intro exI) auto
    qed simp
    then show ?thesis by (simp add: Fe_Register)
  next
    case (Fe_Update_Config k cfg)
    have "event_fits (fc_max_instances cfg + fc_min_instances cfg) (fc_max_concurrency cfg) e"
      by (simp add: Fe_Update_Config cfg_fits_def)
    then show ?thesis by blast
  next
    case (Fe_Set_Min k n)
    then show ?thesis by auto
  qed auto
  then obtain m' c' where "event_fits m' c' e" by blast
  then have "list_all (event_fits (max m m') (max c c')) (e # evs)" using mc up up' by (auto simp: list_all_iff)
  then show ?case by blast
qed simp

section \<open>Counters\<close>

text \<open>C3: Reservations never outlive the cold starts they stand for: in every run the counter \<open>provisioning\<close> of a
  pool is at most the number of its cold starts that have not published, so a failed, cancelled or
  published start never blocks capacity; in orderly runs the two are equal.\<close>

theorem fluid_reservations_exact:
  assumes "tget (fl_registry (fluid_run cfg cap evs)) k = Some p"
  shows "fp_provisioning p \<le> pending k (fluid_run cfg cap evs) \<and>
    (orderly_run cfg cap evs \<longrightarrow> fp_provisioning p = pending k (fluid_run cfg cap evs))"
proof -
  obtain m c where "list_all (event_fits m c) evs" using some_fit by blast
  then show ?thesis
    using upper_invariants [of cfg cap evs] exact_invariants [of cfg cap evs m c] assms
    by (auto simp: upper.reserved_def exact.reserved_def)
qed

lemma demo_orderly: "orderly_run fluid_config_default 4 demo_start"
  unfolding orderly_run_def by code_simp

theorem fluid_reservations_exact_witness:
  "\<exists>p. tget (fl_registry (fluid_run fluid_config_default 4 demo_start)) ''d/f'' = Some p \<and>
     fp_provisioning p = pending ''d/f'' (fluid_run fluid_config_default 4 demo_start) \<and> fp_provisioning p = 1"
proof -
  have "tget (fl_registry (fluid_run fluid_config_default 4 demo_start)) ''d/f'' \<noteq> None \<and>
     pending ''d/f'' (fluid_run fluid_config_default 4 demo_start) = 1" by code_simp
  moreover have "orderly_run fluid_config_default 4 demo_start" by (rule demo_orderly)
  ultimately show ?thesis using fluid_reservations_exact [of fluid_config_default 4 demo_start "''d/f''"] by (auto simp del: map_of_eq_None_iff)
qed

text \<open>C4: The load of an instance is never above the number of its users, the leases on its cell and the start
  that has just published it, so no request is counted for ever and every instance can become idle;
  in orderly runs it is exactly that number.\<close>

theorem fluid_inflight_exact:
  assumes "tget (fl_registry (fluid_run cfg cap evs)) k = Some p" and "i \<in> set (fp_instances p)"
  shows "in_inflight i \<le> users k (in_cell i) (fluid_run cfg cap evs) \<and>
    (orderly_run cfg cap evs \<longrightarrow> in_inflight i = users k (in_cell i) (fluid_run cfg cap evs))"
proof -
  have l: "(in_cell i, in_inflight i) \<in> set (loads (fl_registry (fluid_run cfg cap evs)) k)"
    using assms by (auto simp: loads_pool)
  obtain m c where "list_all (event_fits m c) evs" using some_fit by blast
  then show ?thesis
    using l upper_invariants [of cfg cap evs] exact_invariants [of cfg cap evs m c]
    by (auto simp: upper.accounted_def exact.accounted_def)
qed

theorem fluid_inflight_exact_witness:
  "\<exists>p i. tget (fl_registry (fluid_run fluid_config_default 4 demo_start)) ''d/f'' = Some p \<and> i \<in> set (fp_instances p) \<and>
     in_inflight i = users ''d/f'' 1 (fluid_run fluid_config_default 4 demo_start) \<and> in_inflight i = 1"
proof -
  let ?s = "fluid_run fluid_config_default 4 demo_start"
  have a: "map_option (\<lambda>p. map in_cell (fp_instances p)) (tget (fl_registry ?s) ''d/f'') = Some [1]" "users ''d/f'' 1 ?s = 1"
    by code_simp+
  then obtain p where p: "tget (fl_registry ?s) ''d/f'' = Some p" "map in_cell (fp_instances p) = [1]" by auto
  then obtain i where i: "i \<in> set (fp_instances p)" "in_cell i = 1" by auto
  then show ?thesis using fluid_inflight_exact [OF p(1) i(1)] demo_orderly a(2) p(1) by auto
qed

section \<open>Draining and limits\<close>

text \<open>C5: A cell that is handed to the drain is free: in orderly runs, from the tick that hands it over until it is
  removed, no lease holds it, no start will publish it, and it takes no new requests, so
  terminating it kills no request.\<close>

theorem fluid_drain_safe:
  assumes "orderly_run cfg cap evs" and "d \<in> set (fl_drains (fluid_run cfg cap evs))"
  shows "users (dr_key d) (dr_cell d) (fluid_run cfg cap evs) = 0 \<and>
    dr_cell d \<notin> set (accepting_at (fl_registry (fluid_run cfg cap evs)) (dr_key d)) \<and>
    (\<forall>i. \<not> starts_at (fluid_run cfg cap evs) i (dr_cell d))"
proof -
  obtain m c where "list_all (event_fits m c) evs" using some_fit by blast
  then have "drains_off_duty (fluid_run cfg cap evs)" using exact_invariants assms(1) by blast
  then show ?thesis using assms(2) by (auto simp: drains_off_duty_def off_duty_def)
qed

definition demo_drain :: "fluid_event list" where
  "demo_drain = [Fe_Register [demo_spec ''d/f'' 0], Fe_Request ''d/f'' True True 10, Fe_Admit 0 10, Fe_Provisioned 0 3,
     Fe_Publish 0 [] [] 2 20, Fe_Finish 0 20, Fe_Release ''d/f'' 1 5 25, Fe_Autoscale 90000]"

theorem fluid_drain_safe_witness:
  "map drain_at (fl_drains (fluid_run fluid_config_default 4 demo_drain)) = [(''d/f'', 1)] \<and>
   users ''d/f'' 1 (fluid_run fluid_config_default 4 demo_drain) = 0"
proof -
  let ?s = "fluid_run fluid_config_default 4 demo_drain"
  have a: "map drain_at (fl_drains ?s) = [(''d/f'', 1)]" by code_simp
  then obtain d where d: "d \<in> set (fl_drains ?s)" "dr_key d = ''d/f''" "dr_cell d = 1" by auto
  have "orderly_run fluid_config_default 4 demo_drain" unfolding orderly_run_def by code_simp
  then show ?thesis using fluid_drain_safe [of fluid_config_default 4 demo_drain d] a d by auto
qed

text \<open>C7: The limits are upheld: in an orderly run whose configurations allow at most \<open>m\<close> instances (maximum and
  keep-warm) and \<open>c\<close> concurrent requests, no pool ever has more than \<open>m\<close> live
  instances, reserved ones included, and no instance of it ever has more than \<open>max 1 c\<close> users.\<close>

theorem fluid_limits_upheld:
  assumes "orderly_run cfg cap evs" and "list_all (event_fits m c) evs"
    and "tget (fl_registry (fluid_run cfg cap evs)) k = Some p"
  shows "live_count p \<le> m \<and> list_all (\<lambda>i. users k (in_cell i) (fluid_run cfg cap evs) \<le> max 1 c) (fp_instances p)"
proof -
  have "fits m c p" using exact_invariants [OF assms(1,2)] assms(3) by (simp add: all_fit_def)
  moreover have "in_inflight i = users k (in_cell i) (fluid_run cfg cap evs)" if "i \<in> set (fp_instances p)" for i
  proof -
    have "(in_cell i, in_inflight i) \<in> set (loads (fl_registry (fluid_run cfg cap evs)) k)"
      using assms(3) that by (auto simp: loads_pool)
    then show ?thesis using exact_invariants [OF assms(1,2)] by (simp add: exact.accounted_def)
  qed
  ultimately show ?thesis by (auto simp: fits_def list_all_iff)
qed

theorem fluid_limits_upheld_witness:
  "\<exists>p. tget (fl_registry (fluid_run fluid_config_default 4 demo_start)) ''d/f'' = Some p \<and> live_count p \<le> 10"
proof -
  have "tget (fl_registry (fluid_run fluid_config_default 4 demo_start)) ''d/f'' \<noteq> None" by code_simp
  then obtain p where p: "tget (fl_registry (fluid_run fluid_config_default 4 demo_start)) ''d/f'' = Some p" by auto
  have "list_all (event_fits 10 1) demo_start" by code_simp
  then show ?thesis using fluid_limits_upheld [OF demo_orderly _ p] p by auto
qed

section \<open>The decision on a lease\<close>

text \<open>A lease goes to the least loaded instance that is not draining and has room; only when there is none does
  the request wait for a start (if it may), fail on the limit of the pool or the quota of the
  tenant, or start an instance, which then fits both.\<close>

theorem lease_decision_exact:
  assumes "tget reg key = Some p" and "decide_lease cfg key co now reg = (d, reg')"
  shows "case d of
      Ld_Ready c \<Rightarrow> \<exists>i \<in> set (fp_instances p). in_cell i = c \<and> free_slot (effective_concurrency p) i \<and>
        list_all (\<lambda>j. free_slot (effective_concurrency p) j \<longrightarrow> in_inflight i \<le> in_inflight j) (fp_instances p)
    | Ld_Cold_Start \<Rightarrow> \<not> list_ex (free_slot (effective_concurrency p)) (fp_instances p) \<and> live_count p < fc_max_instances (fp_cfg p) \<and>
        (fg_max_instances_per_tenant cfg = 0 \<or> tenant_live (fp_tenant p) reg < fg_max_instances_per_tenant cfg) \<and>
        \<not> (co \<and> fp_provisioning p > 0)
    | Ld_Wait_For_Warm \<Rightarrow> \<not> list_ex (free_slot (effective_concurrency p)) (fp_instances p) \<and> co \<and> fp_provisioning p > 0
    | Ld_Saturated Concurrency_Limit \<Rightarrow> \<not> list_ex (free_slot (effective_concurrency p)) (fp_instances p) \<and> live_count p \<ge> fc_max_instances (fp_cfg p)
    | Ld_Saturated Tenant_Quota \<Rightarrow> \<not> list_ex (free_slot (effective_concurrency p)) (fp_instances p) \<and>
        tenant_live (fp_tenant p) reg \<ge> fg_max_instances_per_tenant cfg
    | Ld_Not_Found \<Rightarrow> False"
proof (cases "take_slot (effective_concurrency p) now (fp_instances p)")
  case None
  then have "\<not> list_ex (free_slot (effective_concurrency p)) (fp_instances p)"
    by (auto simp: take_slot_def list_ex_iff filter_empty_conv split: option.splits)
  then show ?thesis using assms None by (auto simp: decide_lease_def split: if_splits)
next
  case (Some x)
  obtain c "is" where x: "x = (c, is)" by fastforce
  then have "d = Ld_Ready c" using assms Some by (simp add: decide_lease_def)
  then show ?thesis using load_take_slot_choice [OF Some [unfolded x]] by (fastforce simp: list_all_iff)
qed

definition demo_pool :: function_pool where
  "demo_pool = (pool_from_spec (demo_spec ''d/f'' 0))\<lparr>fp_instances :=
     [\<lparr>in_cell = 1, in_udp_ports = [], in_tcp_ports = [], in_inflight = 0, in_started_at_ms = 5, in_last_active_ms = 9,
       in_draining = True, in_requests_served = 3\<rparr>,
      \<lparr>in_cell = 2, in_udp_ports = [], in_tcp_ports = [], in_inflight = 0, in_started_at_ms = 6, in_last_active_ms = 9,
       in_draining = False, in_requests_served = 1\<rparr>]\<rparr>"

theorem lease_decision_exact_witness:
  "fst (decide_lease fluid_config_default ''d/f'' True 20 [(''d/f'', demo_pool)]) = Ld_Ready 2 \<and>
   (\<exists>i \<in> set (fp_instances demo_pool). in_cell i = 2 \<and> free_slot (effective_concurrency demo_pool) i)"
proof -
  let ?r = "decide_lease fluid_config_default ''d/f'' True 20 [(''d/f'', demo_pool)]"
  have d: "fst ?r = Ld_Ready 2" by code_simp
  then have "?r = (Ld_Ready 2, snd ?r)" by (metis prod.collapse)
  then show ?thesis
    using lease_decision_exact [of "[(''d/f'', demo_pool)]" "''d/f''" demo_pool fluid_config_default True 20 "Ld_Ready 2" "snd ?r"] d by auto
qed

text \<open>The circuit: a pool with an instance is never refused; one without is refused when its instances crash, or
  while the gate holds after three failed starts; and with the gate expired and no
  crash loop the request passes.\<close>

theorem lease_gate_exact:
  "(lease_gate now p = None) =
     (\<not> (fp_instances p = [] \<and> (fp_crash_streak p \<ge> CRASH_CIRCUIT_THRESHOLD \<or>
        fp_warm_fail_streak p \<ge> CRASH_CIRCUIT_THRESHOLD \<and> now < fp_circuit_probe_after_ms p)))"
  by (auto simp: lease_gate_def Let_def not_le not_less split: option.splits)

section \<open>Terminations\<close>

text \<open>C16: Every termination finishes: take any run whose worker waits or is between two entries, before its closing begins. If it is between two
  entries, or has been notified since it began to wait, or if no termination failed so far and the shutdown has not moved the registry, then
  as many rounds of the worker as there are entries, with the backend succeeding, empty the queue, and none of the cells it held runs any
  more. (After a failed termination the worker waits, with the entry still queued, until something else is enqueued.)\<close>

theorem fluid_terminations_finish:
  assumes "s = fluid_run cfg cap evs" and "fl_worker s \<in> {Worker_Waiting, Worker_Looping}" and "\<not> fl_term_closing s"
    and "fl_worker s = Worker_Looping \<or> fl_notified s \<or> list_all no_failure evs \<and> fl_barrier s = None"
  shows "fl_terminating (fold fluid_step (concat (replicate (length (fl_terminating s)) [Fe_Term_Pick, Fe_Term_Done True])) s) = [] \<and>
    list_all (\<lambda>c. tget (fl_terminating s) c = None)
      (fl_cells (fold fluid_step (concat (replicate (length (fl_terminating s)) [Fe_Term_Pick, Fe_Term_Done True])) s))"
proof -
  have "worker_ready s \<or> fl_terminating s = []"
    using assms(2-4) wake_run [of evs cfg cap] assms(1) by (auto simp: worker_ready_def wake_inv_def)
  then show ?thesis
    using rounds_empty [of s, OF _ _ refl] queue_run [of cfg cap evs] assms(1)
    by (auto simp: list_all_iff tget_None_iff simp del: set_map)
qed

definition demo_crash :: "fluid_event list" where
  "demo_crash = demo_start @ [Fe_Mark_Dead ''d/f'' 1 40, Fe_Fail 2 (Some ''boom'') 41]"

theorem fluid_terminations_finish_witness:
  "length (fl_terminating (fluid_run fluid_config_default 4 demo_crash)) = 2 \<and>
   fl_terminating (fold fluid_step (concat (replicate 2 [Fe_Term_Pick, Fe_Term_Done True])) (fluid_run fluid_config_default 4 demo_crash)) = []"
proof -
  have a: "length (fl_terminating (fluid_run fluid_config_default 4 demo_crash)) = 2"
    "fl_worker (fluid_run fluid_config_default 4 demo_crash) = Worker_Waiting" "\<not> fl_term_closing (fluid_run fluid_config_default 4 demo_crash)"
    "fl_barrier (fluid_run fluid_config_default 4 demo_crash) = None" by code_simp+
  have n: "list_all no_failure demo_crash" by (simp add: no_failure_def demo_crash_def demo_start_def)
  show ?thesis using fluid_terminations_finish [OF refl _ a(3)] a n by simp
qed

text \<open>A termination that fails is not tried again by itself: the entry stays, the worker waits and takes no step, until the next
  cell is enqueued.\<close>

lemma failed_termination_waits:
  "map fst (fl_terminating (fluid_run fluid_config_default 4 (demo_crash @ [Fe_Term_Pick, Fe_Term_Done False]))) = [1, 3]"
  "fl_worker (fluid_run fluid_config_default 4 (demo_crash @ [Fe_Term_Pick, Fe_Term_Done False])) = Worker_Waiting"
  "term_pick (fluid_run fluid_config_default 4 (demo_crash @ [Fe_Term_Pick, Fe_Term_Done False])) =
    fluid_run fluid_config_default 4 (demo_crash @ [Fe_Term_Pick, Fe_Term_Done False])"
proof -
  let ?s = "fluid_run fluid_config_default 4 (demo_crash @ [Fe_Term_Pick, Fe_Term_Done False])"
  show "map fst (fl_terminating ?s) = [1, 3]" by code_simp
  show w: "fl_worker ?s = Worker_Waiting" by code_simp
  have "\<not> fl_notified ?s" by code_simp
  then show "term_pick ?s = ?s" by (simp add: term_pick_def w)
qed

section \<open>Adaptive concurrency\<close>

text \<open>The adaptive ceiling always stays between one and the configured maximum, grows by exactly one per
  relaxed step until it is reached, and under pressure is halved down to one, so it recovers in
  at most \<open>mx - cur\<close> steps.\<close>

theorem aimd_exact:
  assumes "1 \<le> cur" and "cur \<le> mx" and "mx < 2 ^ 32"
  shows "(cpu \<le> AIMD_CPU_LOW \<longrightarrow> ((\<lambda>x. aimd_step cpu x mx) ^^ n) cur = min (cur + n) mx) \<and>
    (AIMD_CPU_HIGH \<le> cpu \<longrightarrow> ((\<lambda>x. aimd_step cpu x mx) ^^ n) cur = max 1 (cur div 2 ^ n)) \<and>
    (AIMD_CPU_LOW < cpu \<and> cpu < AIMD_CPU_HIGH \<longrightarrow> aimd_step cpu cur mx = cur)"
proof (intro conjI impI)
  have cl: "\<not> AIMD_CPU_HIGH \<le> cpu" if "cpu \<le> AIMD_CPU_LOW" using that by (simp add: AIMD_CPU_LOW_def AIMD_CPU_HIGH_def)
  show "((\<lambda>x. aimd_step cpu x mx) ^^ n) cur = min (cur + n) mx" if l: "cpu \<le> AIMD_CPU_LOW"
  proof (induction n)
    case (Suc n)
    have "min (max (sat_succ32 x) 1) mx = min (Suc x) mx" for x using assms(3) by (auto simp: sat_succ32_def)
    then have "aimd_step cpu x mx = min (Suc x) mx" if "1 \<le> x" "x \<le> mx" for x
      using that l cl [OF l] assms by (simp add: aimd_step_def Let_def)
    then show ?case using Suc assms by simp
  qed (use assms in simp)
  show "((\<lambda>x. aimd_step cpu x mx) ^^ n) cur = max 1 (cur div 2 ^ n)" if "AIMD_CPU_HIGH \<le> cpu"
  proof (induction n)
    case (Suc n)
    have h: "aimd_step cpu x mx = max 1 (x div 2)" if "x \<le> mx" for x
      using that \<open>AIMD_CPU_HIGH \<le> cpu\<close> assms by (simp add: aimd_step_def Let_def)
    have "max 1 (cur div 2 ^ n) \<le> mx" using assms div_le_dividend [of cur "2 ^ n"] by linarith
    then have "((\<lambda>x. aimd_step cpu x mx) ^^ Suc n) cur = max 1 (max 1 (cur div 2 ^ n) div 2)" using h Suc by simp
    also have "\<dots> = max 1 (cur div 2 ^ n div 2)" by (cases "cur div 2 ^ n") (auto simp: max_def)
    also have "\<dots> = max 1 (cur div 2 ^ Suc n)" by (simp only: power_Suc2 div_mult2_eq)
    finally show ?case .
  qed (use assms in simp)
  show "aimd_step cpu cur mx = cur" if "AIMD_CPU_LOW < cpu \<and> cpu < AIMD_CPU_HIGH"
    using that assms by (simp add: aimd_step_def)
qed

theorem aimd_exact_witness:
  "((\<lambda>x. aimd_step 50 x 10) ^^ 4) 3 = 7 \<and> ((\<lambda>x. aimd_step 90 x 10) ^^ 2) 9 = 2"
  using aimd_exact [of 3 10 50 4] aimd_exact [of 9 10 90 2] by (simp add: AIMD_CPU_LOW_def AIMD_CPU_HIGH_def)

section \<open>Departures\<close>

text \<open>A pool whose instances crashed three times and that is then no longer kept warm stays closed: without an
  instance every lease is refused, at any time, and the autoscaler, which alone resets the streak, leaves the
  pool as it is.\<close>

lemma circuit_stays_open:
  assumes "fp_instances p = []" "fp_provisioning p = 0" "fp_crash_streak p \<ge> CRASH_CIRCUIT_THRESHOLD"
    "fp_last_warm_ok_ms p = 0" "fc_min_instances (fp_cfg p) = 0"
  shows "lease_gate now p \<noteq> None" "reconcile_pool cfg now' p = (0, [], p)"
  using assms by (auto simp: lease_gate_def Let_def reconcile_pool_def crash_check_def warm_deficit_def live_count_def active_instances_def
      split: option.splits)

definition demo_cycle :: "nat \<Rightarrow> nat \<Rightarrow> fluid_event list" where
  "demo_cycle i t = [Fe_Autoscale t, Fe_Admit i t, Fe_Provisioned i 3, Fe_Publish i [] [] 2 (t + 10), Fe_Finish i (t + 20),
     Fe_Mark_Dead ''d/f'' (Suc i) (t + 30), Fe_Autoscale (t + 40)]"

definition demo_wedge :: "fluid_event list" where
  "demo_wedge = [Fe_Register [demo_spec ''d/f'' 1]] @ demo_cycle 0 1000 @ demo_cycle 2 20000 @ demo_cycle 4 40000 @ [Fe_Set_Min ''d/f'' 0]"

lemma wedge_reached:
  "(case tget (fl_registry (fluid_run fluid_config_default 4 demo_wedge)) ''d/f'' of None \<Rightarrow> False
    | Some p \<Rightarrow> fp_instances p = [] \<and> fp_provisioning p = 0 \<and> fp_crash_streak p = 3 \<and> fp_last_warm_ok_ms p = 0 \<and> fc_min_instances (fp_cfg p) = 0)"
  by code_simp

text \<open>A lease taken between the publication of a warm instance and the end of its start is forgotten, and the
  instance can be drained under the request.\<close>

definition wide_spec :: "nat \<Rightarrow> pool_spec" where
  "wide_spec min_i = \<lparr>ps_key = ''d/f'', ps_cfg = fn_config_default\<lparr>fc_min_instances := min_i, fc_max_instances := 1\<rparr>,
     ps_image = ''img'', ps_workdir = ''/srv'', ps_tenant = []\<rparr>"

definition demo_race :: "fluid_event list" where
  "demo_race = [Fe_Register [wide_spec 1], Fe_Autoscale 10, Fe_Admit 0 10, Fe_Provisioned 0 3, Fe_Publish 0 [] [] 2 20,
     Fe_Request ''d/f'' True True 21, Fe_Finish 0 22, Fe_Set_Min ''d/f'' 0, Fe_Autoscale 60000]"

lemma warm_race_drains_in_use:
  "map drain_at (fl_drains (fluid_run fluid_config_default 4 demo_race)) = [(''d/f'', 1)]"
  "users ''d/f'' 1 (fluid_run fluid_config_default 4 demo_race) = 1"
  by code_simp+

text \<open>Registering a pool again forgets its starts that are under way, and the limit of instances is exceeded.\<close>

definition demo_redeploy :: "fluid_event list" where
  "demo_redeploy = [Fe_Register [wide_spec 0], Fe_Request ''d/f'' True True 10, Fe_Register [wide_spec 0], Fe_Request ''d/f'' True True 11,
     Fe_Admit 0 12, Fe_Admit 1 12, Fe_Provisioned 0 3, Fe_Provisioned 1 3, Fe_Publish 0 [] [] 2 20, Fe_Publish 1 [] [] 2 20]"

lemma redeploy_exceeds_limit:
  "map_option (\<lambda>p. (live_count p, fc_max_instances (fp_cfg p))) (tget (fl_registry (fluid_run fluid_config_default 4 demo_redeploy)) ''d/f'') = Some (2, 1)"
  by code_simp

text \<open>Recycling does not count against the instances kept warm: one tick takes both.\<close>

definition recycle_demo :: function_pool where
  "recycle_demo = (pool_from_spec (demo_spec ''d/f'' 1))\<lparr>fp_last_warm_ok_ms := 80000, fp_instances :=
     [\<lparr>in_cell = 1, in_udp_ports = [], in_tcp_ports = [], in_inflight = 1, in_started_at_ms = 5, in_last_active_ms = 90000,
       in_draining = False, in_requests_served = 10000\<rparr>,
      \<lparr>in_cell = 2, in_udp_ports = [], in_tcp_ports = [], in_inflight = 0, in_started_at_ms = 6, in_last_active_ms = 9,
       in_draining = False, in_requests_served = 1\<rparr>]\<rparr>"

lemma recycle_below_min:
  "live_count (snd (snd (reconcile_pool fluid_config_default 90000 recycle_demo))) = 0" "fc_min_instances (fp_cfg recycle_demo) = 1"
  by code_simp+

text \<open>On the next tick that is taken for a crash; and the time of the recycled instance is billed twice while it drains.\<close>

lemma recycle_counts_as_crash:
  "fp_crash_streak (snd (snd (reconcile_pool fluid_config_default 95000 (snd (snd (reconcile_pool fluid_config_default 90000 recycle_demo)))))) = 1"
  by code_simp

lemma recycle_bills_twice:
  "fluid_ms 90000 recycle_demo = 179989" "fluid_ms 90000 (snd (snd (reconcile_pool fluid_config_default 90000 recycle_demo))) = 359978"
  by code_simp+

text \<open>The circuit does not count probes: starts that are under way do not close the gate.\<close>

lemma gate_ignores_starts: "lease_gate now (p\<lparr>fp_provisioning := n\<rparr>) = lease_gate now p"
  by (auto simp: lease_gate_def Let_def split: option.splits)

text \<open>\<open>set_safe_concurrency\<close> panics on a function with a maximum concurrency of zero.\<close>

lemma set_safe_panics: "fc_max_concurrency (fp_cfg p) = 0 \<Longrightarrow> set_safe_concurrency (Some n) p = None"
  by (simp add: set_safe_concurrency_def)

end
