(* ===== verification/Fluid_Routes.thy ===== *)
theory Fluid_Routes
  imports Fluid_Pool Wire_Bytes
begin

text \<open>
  The routing of a deployment (\<open>crates/fluid-core/src/lib.rs\<close>): route classes with their cache policies,
  the rules of a manifest (redirects, rewrites, response headers) with their conditions and
  parametrised sources, prefix routes, the Next.js route patterns and trailing slashes. The
  regular expression engine (crate regex) is a parameter: \<open>esc\<close> is its \<open>escape\<close>, and \<open>rx\<close> compiles a pattern to
  a matcher that answers with the named groups.
\<close>

section \<open>Strings\<close>

definition trim_matches :: "char \<Rightarrow> string \<Rightarrow> string" where
  "trim_matches c s = trim_end_matches c (dropWhile (\<lambda>x. x = c) s)"

definition ascii_alpha :: "char \<Rightarrow> bool" where
  "ascii_alpha c \<longleftrightarrow> (let n = (of_char c :: nat) in 65 \<le> n \<and> n \<le> 90 \<or> 97 \<le> n \<and> n \<le> 122)"

definition name_char :: "char \<Rightarrow> bool" where
  "name_char c \<longleftrightarrow> ascii_alpha c \<or> is_digit c \<or> c = CHR ''_''"

section \<open>Route classes\<close>

datatype route_class = Class_Static | Class_Isr | Class_Api_Node | Class_Route_Handler | Class_Ssr_Page | Class_Edge | Class_Middleware

definition class_from_name :: "string \<Rightarrow> route_class" where
  "class_from_name s =
     (if s = ''static'' then Class_Static else if s = ''isr'' then Class_Isr else if s = ''api_node'' then Class_Api_Node
      else if s = ''route_handler'' then Class_Route_Handler else if s = ''ssr_page'' then Class_Ssr_Page
      else if s = ''edge'' then Class_Edge else if s = ''middleware'' then Class_Middleware else Class_Ssr_Page)"

fun class_name :: "route_class \<Rightarrow> string" where
  "class_name Class_Static = ''static''"
| "class_name Class_Isr = ''isr''"
| "class_name Class_Api_Node = ''api_node''"
| "class_name Class_Route_Handler = ''route_handler''"
| "class_name Class_Ssr_Page = ''ssr_page''"
| "class_name Class_Edge = ''edge''"
| "class_name Class_Middleware = ''middleware''"

datatype route_cache_policy = Immutable_Policy | Revalidate_Policy int | Origin_Policy

definition class_cache_policy :: "int option \<Rightarrow> route_class \<Rightarrow> route_cache_policy" where
  "class_cache_policy revalidate c =
     (case c of
        Class_Static \<Rightarrow> Immutable_Policy
      | Class_Isr \<Rightarrow> Revalidate_Policy (max (case revalidate of None \<Rightarrow> 0 | Some n \<Rightarrow> n) 0)
      | _ \<Rightarrow> Origin_Policy)"

definition always_replayable :: "route_class \<Rightarrow> bool" where
  "always_replayable c \<longleftrightarrow> c \<in> {Class_Static, Class_Isr, Class_Ssr_Page}"

definition uses_runtime :: "route_class \<Rightarrow> bool" where
  "uses_runtime c \<longleftrightarrow> c \<notin> {Class_Static, Class_Isr}"

definition policy_cache_control :: "route_cache_policy \<Rightarrow> string option" where
  "policy_cache_control p =
     (case p of
        Immutable_Policy \<Rightarrow> Some ''public, max-age=31536000, immutable''
      | Revalidate_Policy n \<Rightarrow> Some (''public, s-maxage='' @ nat_to_string (nat (max n 1)) @ '', stale-while-revalidate'')
      | Origin_Policy \<Rightarrow> None)"

section \<open>Conditions\<close>

datatype cond_value = Cond_Text string | Cond_Expr "string option" "string option"

definition cond_value_matches :: "cond_value \<Rightarrow> string \<Rightarrow> bool" where
  "cond_value_matches v candidate =
     (case v of
        Cond_Text t \<Rightarrow> candidate = t
      | Cond_Expr pre suf \<Rightarrow>
          (case pre of None \<Rightarrow> True | Some p \<Rightarrow> starts_with p candidate) \<and>
          (case suf of None \<Rightarrow> True | Some s \<Rightarrow> ends_with s candidate))"

record rule_condition =
  rk_kind :: string
  rk_key :: "string option"
  rk_value :: "cond_value option"

record req_ctx =
  cx_host :: string
  cx_headers :: "(string \<times> string) list"
  cx_query :: string

definition ctx_default :: req_ctx where
  "ctx_default = \<lparr>cx_host = [], cx_headers = [], cx_query = []\<rparr>"

definition ctx_header :: "req_ctx \<Rightarrow> string \<Rightarrow> string option" where
  "ctx_header ctx key = tget (cx_headers ctx) (to_lowercase key)"

fun cookie_in :: "string \<Rightarrow> string list \<Rightarrow> string option" where
  "cookie_in key [] = None"
| "cookie_in key (part # ps) =
     (case split_once CHR ''='' (trim part) of
        Some (k, v) \<Rightarrow> if trim k = key then Some (trim v) else cookie_in key ps
      | None \<Rightarrow> cookie_in key ps)"

definition ctx_cookie :: "req_ctx \<Rightarrow> string \<Rightarrow> string option" where
  "ctx_cookie ctx key =
     (case ctx_header ctx ''cookie'' of None \<Rightarrow> None | Some raw \<Rightarrow> cookie_in key (split_on CHR '';'' raw))"

fun query_in :: "string \<Rightarrow> string list \<Rightarrow> string option" where
  "query_in key [] = None"
| "query_in key (part # ps) =
     (case split_once CHR ''='' part of
        Some (k, v) \<Rightarrow> if k = key then Some v else query_in key ps
      | None \<Rightarrow> if part = key then Some [] else query_in key ps)"

definition query_param :: "req_ctx \<Rightarrow> string \<Rightarrow> string option" where
  "query_param ctx key = query_in key (split_on CHR ''&'' (cx_query ctx))"

definition cond_actual :: "rule_condition \<Rightarrow> req_ctx \<Rightarrow> string option" where
  "cond_actual c ctx =
     (if rk_kind c = ''host'' then Some (cx_host ctx)
      else if rk_kind c = ''header'' then Option.bind (rk_key c) (ctx_header ctx)
      else if rk_kind c = ''cookie'' then Option.bind (rk_key c) (ctx_cookie ctx)
      else if rk_kind c = ''query'' then Option.bind (rk_key c) (query_param ctx)
      else None)"

definition cond_matches :: "rule_condition \<Rightarrow> req_ctx \<Rightarrow> bool" where
  "cond_matches c ctx =
     (case (rk_value c, cond_actual c ctx) of
        (None, Some _) \<Rightarrow> True
      | (Some v, Some a) \<Rightarrow> cond_value_matches v a
      | (_, None) \<Rightarrow> False)"

definition conditions_pass :: "rule_condition list \<Rightarrow> rule_condition list \<Rightarrow> req_ctx \<Rightarrow> bool" where
  "conditions_pass has missing ctx \<longleftrightarrow>
     list_all (\<lambda>c. cond_matches c ctx) has \<and> list_all (\<lambda>c. \<not> cond_matches c ctx) missing"

definition redirect_status :: "bool option \<Rightarrow> nat option \<Rightarrow> nat" where
  "redirect_status permanent status_code =
     (case status_code of Some sc \<Rightarrow> sc | None \<Rightarrow> (case permanent of Some False \<Rightarrow> 307 | _ \<Rightarrow> 308))"

section \<open>Parametrised sources\<close>

type_synonym captures = "string \<Rightarrow> string option"
type_synonym matcher = "string \<Rightarrow> captures option"
type_synonym regex_engine = "string \<Rightarrow> matcher option"

text \<open>The body of a group whose opening parenthesis has been read, at nesting \<open>d\<close>, and the text after it.\<close>

fun group_body :: "nat \<Rightarrow> string \<Rightarrow> string \<times> string" where
  "group_body d [] = ([], [])"
| "group_body d (c # s) =
     (if c = CHR ''('' then (let (b, r) = group_body (d + 1) s in (c # b, r))
      else if c = CHR '')'' then if d = 1 then ([], s) else (let (b, r) = group_body (d - 1) s in (c # b, r))
      else (let (b, r) = group_body d s in (c # b, r)))"

text \<open>A raw group, copied with its parentheses; the last one is missing when the group is not closed.\<close>

fun raw_group :: "nat \<Rightarrow> string \<Rightarrow> string \<times> string" where
  "raw_group d [] = ([], [])"
| "raw_group d (c # s) =
     (if c = CHR ''('' then (let (b, r) = raw_group (d + 1) s in (c # b, r))
      else if c = CHR '')'' then if d = 1 then ([c], s) else (let (b, r) = raw_group (d - 1) s in (c # b, r))
      else (let (b, r) = raw_group d s in (c # b, r)))"

lemma group_body_length: "length (snd (group_body d s)) \<le> length s"
  by (induction d s rule: group_body.induct) (auto simp: Let_def split: prod.splits if_splits)

lemma raw_group_length: "length (snd (raw_group d s)) \<le> length s"
  by (induction d s rule: raw_group.induct) (auto simp: Let_def split: prod.splits if_splits)

definition flush_lit :: "(string \<Rightarrow> string) \<Rightarrow> string \<Rightarrow> string" where
  "flush_lit esc lit = (if lit = [] then [] else esc lit)"

lemma dropWhile_cons_length: "d # r = dropWhile p s \<Longrightarrow> Suc (length r) \<le> length s"
  using length_dropWhile_le [of p s] by (metis length_Cons)

function source_pattern :: "(string \<Rightarrow> string) \<Rightarrow> string \<Rightarrow> string \<Rightarrow> string" where
  "source_pattern esc lit [] = flush_lit esc lit"
| "source_pattern esc lit (c # s) =
     (if c = CHR '':'' then
        (let name = takeWhile name_char s; r = dropWhile name_char s; grp = (\<lambda>b. ''(?P<'' @ name @ ''>'' @ b @ '')'')
         in if name = [] then flush_lit esc lit @ source_pattern esc '':'' s
            else flush_lit esc lit @
              (case r of
                 [] \<Rightarrow> grp ''[^/]+''
               | d # r' \<Rightarrow>
                   if d = CHR ''('' then grp (fst (group_body 1 r')) @ source_pattern esc [] (snd (group_body 1 r'))
                   else if d = CHR ''*'' then grp ''.*'' @ source_pattern esc [] r'
                   else if d = CHR ''+'' then grp ''.+'' @ source_pattern esc [] r'
                   else grp ''[^/]+'' @ source_pattern esc [] r))
      else if c = CHR ''('' then flush_lit esc lit @ c # fst (raw_group 1 s) @ source_pattern esc [] (snd (raw_group 1 s))
      else if c = CHR ''*'' then flush_lit esc lit @ ''.*'' @ source_pattern esc [] s
      else source_pattern esc (lit @ [c]) s)"
  by pat_completeness auto

termination
  by (relation "measure (\<lambda>(esc, lit, s). length s)")
    (auto simp: less_Suc_eq_le length_dropWhile_le intro: le_trans [OF group_body_length] le_trans [OF raw_group_length]
      dest!: dropWhile_cons_length)

definition source_regex :: "(string \<Rightarrow> string) \<Rightarrow> string \<Rightarrow> string option" where
  "source_regex esc source =
     (if CHR '':'' \<in> set source \<or> CHR ''('' \<in> set source \<or> CHR ''*'' \<in> set source
      then Some (''^'' @ source_pattern esc [] source @ ''$'') else None)"

definition compile_source :: "(string \<Rightarrow> string) \<Rightarrow> regex_engine \<Rightarrow> string \<Rightarrow> matcher option" where
  "compile_source esc rx source = Option.bind (source_regex esc source) rx"

fun skip_modifier :: "string \<Rightarrow> string" where
  "skip_modifier [] = []"
| "skip_modifier (d # ds) = (if d = CHR ''*'' \<or> d = CHR ''+'' then ds else d # ds)"

lemma skip_modifier_length: "length (skip_modifier r) \<le> length r"
  by (cases r) auto

function subst_dest :: "captures \<Rightarrow> string \<Rightarrow> string" where
  "subst_dest caps [] = []"
| "subst_dest caps (c # s) =
     (if c = CHR '':'' then
        (let name = takeWhile name_char s
         in (case caps name of Some m \<Rightarrow> m | None \<Rightarrow> if name = [] then '':'' else []) @
            subst_dest caps (skip_modifier (dropWhile name_char s)))
      else c # subst_dest caps s)"
  by pat_completeness auto

termination
  by (relation "measure (\<lambda>(caps, s). length s)")
    (auto simp: less_Suc_eq_le intro: le_trans [OF skip_modifier_length length_dropWhile_le])

definition rule_match :: "string \<Rightarrow> string \<Rightarrow> bool" where
  "rule_match source path =
     (case strip_suffix ''/'' source of Some prefix \<Rightarrow> path = prefix \<or> starts_with source path | None \<Rightarrow> path = source)"

definition rule_target :: "string \<Rightarrow> string \<Rightarrow> string \<Rightarrow> string" where
  "rule_target source destination path =
     (case strip_suffix ''/'' source of
        Some prefix \<Rightarrow>
          (case strip_prefix prefix path of Some rest \<Rightarrow> trim_end_matches CHR ''/'' destination @ rest | None \<Rightarrow> destination)
      | None \<Rightarrow> destination)"

definition rule_apply :: "(string \<Rightarrow> string) \<Rightarrow> regex_engine \<Rightarrow> string \<Rightarrow> string \<Rightarrow> string \<Rightarrow> string option" where
  "rule_apply esc rx source dest path =
     (case Option.bind (compile_source esc rx source) (\<lambda>re. re path) of
        Some caps \<Rightarrow> Some (subst_dest caps dest)
      | None \<Rightarrow> if rule_match source path then Some (rule_target source dest path) else None)"

definition rule_matches :: "(string \<Rightarrow> string) \<Rightarrow> regex_engine \<Rightarrow> string \<Rightarrow> string \<Rightarrow> bool" where
  "rule_matches esc rx source path \<longleftrightarrow>
     (case compile_source esc rx source of Some re \<Rightarrow> re path \<noteq> None \<or> rule_match source path | None \<Rightarrow> rule_match source path)"

section \<open>The manifest\<close>

datatype route_target = Static_Target | Function_Target string

record path_route =
  pr_pattern :: string
  pr_target :: route_target

record manifest_redirect =
  md_source :: string
  md_destination :: string
  md_status :: nat
  md_has :: "rule_condition list"
  md_missing :: "rule_condition list"

record manifest_rewrite =
  mw_source :: string
  mw_destination :: string
  mw_has :: "rule_condition list"
  mw_missing :: "rule_condition list"

record header_rule =
  hr_source :: string
  hr_headers :: "(string \<times> string) list"
  hr_has :: "rule_condition list"
  hr_missing :: "rule_condition list"

record route_policy_entry =
  re_pattern :: string
  re_class :: route_class
  re_revalidate :: "int option"

text \<open>\<open>mf_functions\<close> are the functions by name.\<close>

record manifest =
  mf_functions :: "(string \<times> fn_config) list"
  mf_routes :: "path_route list"
  mf_redirects :: "manifest_redirect list"
  mf_rewrites :: "manifest_rewrite list"
  mf_headers :: "header_rule list"
  mf_trailing_slash :: "bool option"
  mf_route_policies :: "route_policy_entry list"

record raw_port_binding =
  rb_public_port :: nat
  rb_function :: string
  rb_container_port :: nat
  rb_protocol :: service_protocol
  rb_label :: "string option"

definition raw_port_bindings :: "manifest \<Rightarrow> raw_port_binding list" where
  "raw_port_bindings mf =
     concat (map (\<lambda>(name, f). List.map_filter (\<lambda>sp. map_option (\<lambda>pp. \<lparr>rb_public_port = pp, rb_function = name,
       rb_container_port = pt_container_port sp, rb_protocol = pt_protocol sp, rb_label = pt_label sp\<rparr>) (pt_public_port sp))
       (fc_ports f)) (mf_functions mf))"

definition route_prefix :: "string \<Rightarrow> string" where
  "route_prefix pattern = trim_end_matches CHR ''/'' (trim_end_matches CHR ''*'' (trim pattern))"

definition path_matches :: "string \<Rightarrow> string \<Rightarrow> bool" where
  "path_matches pattern path \<longleftrightarrow>
     route_prefix pattern = [] \<or>
     (case strip_prefix (route_prefix pattern) path of Some rest \<Rightarrow> rest = [] \<or> starts_with ''/'' rest | None \<Rightarrow> False)"

text \<open>A later route takes over only when its prefix is strictly longer.\<close>

definition better_route :: "string \<Rightarrow> path_route \<Rightarrow> path_route option \<Rightarrow> path_route option" where
  "better_route path r best =
     (if path_matches (pr_pattern r) path
      then (case best of
              Some b \<Rightarrow> if length (route_prefix (pr_pattern b)) \<ge> length (route_prefix (pr_pattern r)) then best else Some r
            | None \<Rightarrow> Some r)
      else best)"

definition mf_resolve :: "manifest \<Rightarrow> string \<Rightarrow> route_target" where
  "mf_resolve mf path = (case fold (better_route path) (mf_routes mf) None of None \<Rightarrow> Static_Target | Some r \<Rightarrow> pr_target r)"

definition route_matched :: "manifest \<Rightarrow> string \<Rightarrow> bool" where
  "route_matched mf path = list_ex (\<lambda>r. path_matches (pr_pattern r) path) (mf_routes mf)"

section \<open>Next.js patterns\<close>

fun match_segments :: "nat \<Rightarrow> string list \<Rightarrow> string list \<Rightarrow> nat option" where
  "match_segments score [] rs = (if rs = [] then Some score else None)"
| "match_segments score (p # ps) rs =
     (if starts_with ''[[...'' p \<and> ends_with '']]'' p then Some (score + 1)
      else if starts_with ''[...'' p \<and> ends_with '']'' p then (if rs \<noteq> [] then Some (score + 2) else None)
      else (case rs of
              [] \<Rightarrow> None
            | r # rs' \<Rightarrow>
                if starts_with ''['' p \<and> ends_with '']'' p then match_segments (score + 10) ps rs'
                else if p = r then match_segments (score + 100) ps rs' else None))"

definition route_segments :: "string \<Rightarrow> string list" where
  "route_segments s = (if trim_matches CHR ''/'' s = [] then [] else split_on CHR ''/'' (trim_matches CHR ''/'' s))"

definition next_route_match :: "string \<Rightarrow> string \<Rightarrow> nat option" where
  "next_route_match pattern path = match_segments 0 (route_segments pattern) (route_segments path)"

definition better_policy :: "string \<Rightarrow> route_policy_entry \<Rightarrow> (route_policy_entry \<times> nat) option \<Rightarrow> (route_policy_entry \<times> nat) option" where
  "better_policy req p best =
     (case next_route_match (re_pattern p) req of
        None \<Rightarrow> best
      | Some spec \<Rightarrow> (case best of Some (b, bs) \<Rightarrow> if bs \<ge> spec then best else Some (p, spec) | None \<Rightarrow> Some (p, spec)))"

definition route_policy :: "manifest \<Rightarrow> string \<Rightarrow> route_policy_entry option" where
  "route_policy mf path =
     (let req = takeWhile (\<lambda>c. c \<noteq> CHR ''?'' \<and> c \<noteq> CHR ''#'') path
      in map_option fst (fold (better_policy req) (mf_route_policies mf) None))"

section \<open>Applying the rules\<close>

fun redirect_in :: "(string \<Rightarrow> string) \<Rightarrow> regex_engine \<Rightarrow> string \<Rightarrow> req_ctx \<Rightarrow> manifest_redirect list \<Rightarrow> (string \<times> nat) option" where
  "redirect_in esc rx path ctx [] = None"
| "redirect_in esc rx path ctx (r # rs) =
     (if \<not> conditions_pass (md_has r) (md_missing r) ctx then redirect_in esc rx path ctx rs
      else (case rule_apply esc rx (md_source r) (md_destination r) path of
              Some dest \<Rightarrow> Some (dest, md_status r)
            | None \<Rightarrow> redirect_in esc rx path ctx rs))"

definition redirect_for_ctx :: "(string \<Rightarrow> string) \<Rightarrow> regex_engine \<Rightarrow> manifest \<Rightarrow> string \<Rightarrow> req_ctx \<Rightarrow> (string \<times> nat) option" where
  "redirect_for_ctx esc rx mf path ctx = redirect_in esc rx path ctx (mf_redirects mf)"

fun rewrite_in :: "(string \<Rightarrow> string) \<Rightarrow> regex_engine \<Rightarrow> string \<Rightarrow> req_ctx \<Rightarrow> manifest_rewrite list \<Rightarrow> string" where
  "rewrite_in esc rx path ctx [] = path"
| "rewrite_in esc rx path ctx (r # rs) =
     (if \<not> conditions_pass (mw_has r) (mw_missing r) ctx then rewrite_in esc rx path ctx rs
      else (case rule_apply esc rx (mw_source r) (mw_destination r) path of
              Some dest \<Rightarrow> dest
            | None \<Rightarrow> rewrite_in esc rx path ctx rs))"

definition rewrite_path_ctx :: "(string \<Rightarrow> string) \<Rightarrow> regex_engine \<Rightarrow> manifest \<Rightarrow> string \<Rightarrow> req_ctx \<Rightarrow> string" where
  "rewrite_path_ctx esc rx mf path ctx = rewrite_in esc rx path ctx (mf_rewrites mf)"

definition headers_for :: "(string \<Rightarrow> string) \<Rightarrow> regex_engine \<Rightarrow> manifest \<Rightarrow> string \<Rightarrow> req_ctx \<Rightarrow> (string \<times> string) list" where
  "headers_for esc rx mf path ctx =
     concat (map hr_headers
       (filter (\<lambda>r. conditions_pass (hr_has r) (hr_missing r) ctx \<and> rule_matches esc rx (hr_source r) path) (mf_headers mf)))"

definition trailing_slash_redirect :: "manifest \<Rightarrow> string \<Rightarrow> string option" where
  "trailing_slash_redirect mf path =
     (case mf_trailing_slash mf of
        None \<Rightarrow> None
      | Some want \<Rightarrow>
          if path = ''/'' then None
          else if want \<and> \<not> ends_with ''/'' path
          then if CHR ''.'' \<in> set (last (split_on CHR ''/'' path)) then None else Some (path @ ''/'')
          else if \<not> want \<and> ends_with ''/'' path then Some (trim_end_matches CHR ''/'' path)
          else None)"

definition edge_function_count :: "manifest \<Rightarrow> nat" where
  "edge_function_count mf = length (filter (\<lambda>(n, f). fc_runtime f = ''edge'') (mf_functions mf))"

end
