(* ===== verification/Fluid_Routes_Props.thy ===== *)
theory Fluid_Routes_Props
  imports Fluid_Routes
begin

text \<open>
  What the routing of a deployment promises: the longest prefix wins, prefixes end at path segments, literal
  sources behave without the regular expression engine, the patterns of Next.js match exactly segment by segment
  with a closed form of their score, and a trailing slash is redirected at most once.
\<close>

section \<open>Prefix routes\<close>

lemma path_matches_iff:
  "path_matches pattern path \<longleftrightarrow>
     route_prefix pattern = [] \<or> path = route_prefix pattern \<or> (\<exists>rest. path = route_prefix pattern @ CHR ''/'' # rest)"
  by (auto simp: path_matches_def starts_with_iff strip_prefix_iff split: option.splits)
    (metis append_Nil2 not_Some_eq strip_prefix_iff)+

abbreviation prefix_length :: "path_route \<Rightarrow> nat" where
  "prefix_length r \<equiv> length (route_prefix (pr_pattern r))"

definition longest_route :: "string \<Rightarrow> path_route list \<Rightarrow> path_route option" where
  "longest_route path rs =
     (let ms = filter (\<lambda>r. path_matches (pr_pattern r) path) rs
      in find (\<lambda>r. list_all (\<lambda>r'. prefix_length r' \<le> prefix_length r) ms) ms)"

text \<open>The accumulator is the first of the longest matches so far.\<close>

lemma fold_better_Some:
  "fold (better_route path) rs (Some b) =
     find (\<lambda>r. list_all (\<lambda>r'. prefix_length r' \<le> prefix_length r) (b # filter (\<lambda>r. path_matches (pr_pattern r) path) rs))
       (b # filter (\<lambda>r. path_matches (pr_pattern r) path) rs)"
proof (induction rs arbitrary: b)
  case (Cons r rs)
  let ?ms = "filter (\<lambda>r. path_matches (pr_pattern r) path) rs"
  show ?case
  proof (cases "path_matches (pr_pattern r) path")
    case True
    show ?thesis
    proof (cases "prefix_length r \<le> prefix_length b")
      case le: True
      have "find (\<lambda>x. list_all (\<lambda>r'. prefix_length r' \<le> prefix_length x) (b # r # ?ms)) (b # r # ?ms) =
          find (\<lambda>x. list_all (\<lambda>r'. prefix_length r' \<le> prefix_length x) (b # ?ms)) (b # ?ms)"
      proof (cases "list_all (\<lambda>r'. prefix_length r' \<le> prefix_length b) ?ms")
        case False
        have n: "\<not> list_all (\<lambda>r'. prefix_length r' \<le> prefix_length x) ?ms" if "prefix_length x \<le> prefix_length b" for x
          using False that by (auto simp: list_all_iff intro: le_trans)
        have "find (\<lambda>x. list_all (\<lambda>r'. prefix_length r' \<le> prefix_length x) (b # r # ?ms)) ?ms =
            find (\<lambda>x. list_all (\<lambda>r'. prefix_length r' \<le> prefix_length x) (b # ?ms)) ?ms"
          using le by (intro find_cong) (auto intro: le_trans)
        then show ?thesis using n [of b] n [OF le] by simp
      qed (use le in simp)
      then show ?thesis using True le Cons.IH [of b] by (simp add: better_route_def)
    next
      case gt: False
      have "find (\<lambda>x. list_all (\<lambda>r'. prefix_length r' \<le> prefix_length x) (b # r # ?ms)) (b # r # ?ms) =
          find (\<lambda>x. list_all (\<lambda>r'. prefix_length r' \<le> prefix_length x) (r # ?ms)) (r # ?ms)"
      proof -
        have "find (\<lambda>x. list_all (\<lambda>r'. prefix_length r' \<le> prefix_length x) (b # r # ?ms)) (r # ?ms) =
            find (\<lambda>x. list_all (\<lambda>r'. prefix_length r' \<le> prefix_length x) (r # ?ms)) (r # ?ms)"
          using gt by (intro find_cong) (auto intro: le_trans)
        then show ?thesis using gt by simp
      qed
      then show ?thesis using True gt Cons.IH [of r] by (simp add: better_route_def)
    qed
  next
    case False
    then show ?thesis using Cons.IH [of b] by (simp add: better_route_def)
  qed
qed simp

lemma better_route_None:
  "better_route path r None = (if path_matches (pr_pattern r) path then Some r else None)"
  by (simp add: better_route_def)

lemma fold_better_None: "fold (better_route path) rs None = longest_route path rs"
proof (induction rs)
  case (Cons r rs)
  show ?case
  proof (cases "path_matches (pr_pattern r) path")
    case True
    then show ?thesis
      by (simp only: fold_simps better_route_None if_True fold_better_Some longest_route_def Let_def filter.simps)
  next
    case False
    then show ?thesis using Cons by (simp add: better_route_None longest_route_def)
  qed
qed (simp add: longest_route_def)

lemma longest_exists:
  fixes ms :: "path_route list"
  shows "find (\<lambda>r. list_all (\<lambda>r'. prefix_length r' \<le> prefix_length r) ms) ms = None \<longleftrightarrow> ms = []"
proof -
  have "\<exists>r \<in> set ms. \<forall>r' \<in> set ms. prefix_length r' \<le> prefix_length r" if "ms \<noteq> []"
    using max_by_key_Some [of prefix_length ms] max_by_key_None [of prefix_length ms] that by (metis not_None_eq)
  then have "ms \<noteq> [] \<Longrightarrow> find (\<lambda>r. list_all (\<lambda>r'. prefix_length r' \<le> prefix_length r) ms) ms \<noteq> None"
    unfolding find_None_iff list_all_iff by blast
  then show ?thesis by fastforce
qed

text \<open>A path is routed to the first of the routes with the longest matching prefix, wildcards stripped; to the static
  files exactly when no route matches or that one says so.\<close>

theorem resolve_longest_prefix:
  "mf_resolve mf path = (case longest_route path (mf_routes mf) of None \<Rightarrow> Static_Target | Some r \<Rightarrow> pr_target r) \<and>
   route_matched mf path = (longest_route path (mf_routes mf) \<noteq> None)"
proof
  show "mf_resolve mf path = (case longest_route path (mf_routes mf) of None \<Rightarrow> Static_Target | Some r \<Rightarrow> pr_target r)"
    by (simp add: mf_resolve_def fold_better_None)
  show "route_matched mf path = (longest_route path (mf_routes mf) \<noteq> None)"
    by (auto simp: longest_route_def Let_def longest_exists route_matched_def list_ex_iff filter_empty_conv)
qed

section \<open>Rules\<close>

lemma class_roundtrip: "class_from_name (class_name c) = c"
  by (cases c) (simp_all add: class_from_name_def)

lemma subst_literal: "CHR '':'' \<notin> set dest \<Longrightarrow> subst_dest caps dest = dest"
  by (induction dest) auto

text \<open>A source without \<open>:\<close>, \<open>(\<close> and \<open>*\<close> needs no regular expression: it matches exactly, or, ending in a slash, as
  a prefix at a segment boundary, and then the rest of the path is kept behind the destination.\<close>

theorem rule_apply_literal:
  assumes "CHR '':'' \<notin> set source" and "CHR ''('' \<notin> set source" and "CHR ''*'' \<notin> set source"
  shows "rule_apply esc rx source dest path =
    (case strip_suffix ''/'' source of
       None \<Rightarrow> if path = source then Some dest else None
     | Some prefix \<Rightarrow>
         (case strip_prefix prefix path of
            None \<Rightarrow> None
          | Some rest \<Rightarrow> if rest = [] \<or> starts_with ''/'' rest then Some (trim_end_matches CHR ''/'' dest @ rest) else None))"
proof -
  have c: "compile_source esc rx source = None" using assms by (simp add: compile_source_def source_regex_def)
  show ?thesis
  proof (cases "strip_suffix ''/'' source")
    case None
    then show ?thesis by (simp add: rule_apply_def c rule_match_def rule_target_def)
  next
    case (Some prefix)
    then have s: "source = prefix @ ''/''" by (simp add: strip_suffix_iff)
    show ?thesis
    proof (cases "strip_prefix prefix path")
      case None
      then have "\<And>r. path \<noteq> prefix @ r" by (metis strip_prefix_iff not_Some_eq)
      then have "\<not> rule_match source path" using Some by (auto simp: rule_match_def s starts_with_iff)
      then show ?thesis using Some None by (simp add: rule_apply_def c)
    next
      case r: (Some rest)
      then have p: "path = prefix @ rest" by (simp add: strip_prefix_iff)
      have m: "rule_match source path \<longleftrightarrow> rest = [] \<or> starts_with ''/'' rest"
        using Some by (auto simp: rule_match_def s p starts_with_iff)
      have t: "rule_target source dest path = trim_end_matches CHR ''/'' dest @ rest" using Some r by (simp add: rule_target_def)
      show ?thesis using Some r by (simp add: rule_apply_def c m t)
    qed
  qed
qed

theorem rule_apply_literal_witness:
  "rule_apply id (\<lambda>_. None) ''/old/'' ''/new/'' ''/old/a/b'' = Some ''/new/a/b''"
  using rule_apply_literal [of "''/old/''" id "\<lambda>_. None" "''/new/''" "''/old/a/b''"] by code_simp

text \<open>Slash normalisation redirects at most once: the target of the redirect differs from the path and is not
  redirected again.\<close>

theorem trailing_slash_settles:
  assumes "trailing_slash_redirect mf path = Some q"
  shows "q \<noteq> path \<and> trailing_slash_redirect mf q = None"
proof (cases "mf_trailing_slash mf")
  case (Some want)
  show ?thesis
  proof (cases want)
    case True
    then show ?thesis using assms Some
      by (auto simp: trailing_slash_redirect_def ends_with_def strip_suffix_iff split: if_splits)
  next
    case False
    have e: "ends_with ''/'' path" "q = trim_end_matches CHR ''/'' path"
      using assms Some False by (auto simp: trailing_slash_redirect_def split: if_splits)
    then obtain r where r: "path = r @ ''/''" by (auto simp: ends_with_def strip_suffix_iff)
    have "\<not> ends_with ''/'' q"
      using trim_end_matches_last [of "CHR ''/''" path] e(2) by (auto simp: ends_with_def strip_suffix_iff)
    then show ?thesis using e(1) Some False by (auto simp: trailing_slash_redirect_def)
  qed
qed (use assms in \<open>simp add: trailing_slash_redirect_def\<close>)

definition demo_manifest :: manifest where
  "demo_manifest = \<lparr>mf_functions = [], mf_routes = [\<lparr>pr_pattern = ''/*'', pr_target = Function_Target ''web''\<rparr>,
     \<lparr>pr_pattern = ''/api'', pr_target = Function_Target ''api''\<rparr>], mf_redirects = [], mf_rewrites = [], mf_headers = [],
     mf_trailing_slash = Some False, mf_route_policies = []\<rparr>"

theorem trailing_slash_settles_witness:
  "trailing_slash_redirect demo_manifest ''/a/'' = Some ''/a'' \<and> trailing_slash_redirect demo_manifest ''/a'' = None"
proof -
  have "trailing_slash_redirect demo_manifest ''/a/'' = Some ''/a''" by code_simp
  then show ?thesis using trailing_slash_settles [of demo_manifest "''/a/''" "''/a''"] by simp
qed

text \<open>The path of two slashes is redirected to the empty location.\<close>

lemma double_slash_redirects_nowhere: "trailing_slash_redirect demo_manifest ''//'' = Some []"
  by code_simp

text \<open>A path that begins with two slashes is redirected to a location that names another host.\<close>

lemma slash_redirect_leaves_host: "trailing_slash_redirect demo_manifest ''//evil.example/'' = Some ''//evil.example''"
  by code_simp

text \<open>A port in a destination reads as a parameter and disappears.\<close>

lemma destination_port_dropped: "subst_dest (\<lambda>n. if n = ''p'' then Some ''x'' else None) ''http://host:8080/:p'' = ''http://host/x''"
  by code_simp

section \<open>Next.js patterns\<close>

definition optional_rest :: "string \<Rightarrow> bool" where
  "optional_rest p \<longleftrightarrow> starts_with ''[[...'' p \<and> ends_with '']]'' p"

definition required_rest :: "string \<Rightarrow> bool" where
  "required_rest p \<longleftrightarrow> \<not> optional_rest p \<and> starts_with ''[...'' p \<and> ends_with '']'' p"

definition one_segment :: "string \<Rightarrow> bool" where
  "one_segment p \<longleftrightarrow> starts_with ''['' p \<and> ends_with '']'' p"

definition segment_ok :: "string \<Rightarrow> string \<Rightarrow> bool" where
  "segment_ok p r \<longleftrightarrow> one_segment p \<or> p = r"

definition segment_score :: "string \<Rightarrow> nat" where
  "segment_score p = (if one_segment p then 10 else 100)"

lemma match_optional: "optional_rest p \<Longrightarrow> match_segments score (p # ps) rs = Some (score + 1)"
  by (simp add: optional_rest_def)

lemma match_required: "required_rest p \<Longrightarrow> match_segments score (p # ps) rs = (if rs = [] then None else Some (score + 2))"
  by (auto simp: required_rest_def optional_rest_def)

lemma match_plain_segment:
  assumes "\<not> optional_rest p" and "\<not> required_rest p"
  shows "match_segments score (p # ps) rs =
    (case rs of [] \<Rightarrow> None | r # rs' \<Rightarrow> if segment_ok p r then match_segments (score + segment_score p) ps rs' else None)"
proof -
  have o: "\<not> (starts_with ''[[...'' p \<and> ends_with '']]'' p)" using assms(1) by (simp add: optional_rest_def)
  then have q: "\<not> (starts_with ''[...'' p \<and> ends_with '']'' p)" using assms by (simp add: optional_rest_def required_rest_def)
  show ?thesis
    unfolding match_segments.simps(2) if_not_P [OF o] if_not_P [OF q] one_segment_def [symmetric] segment_ok_def segment_score_def
    by (cases rs) simp_all
qed

lemma match_plain:
  assumes "list_all (\<lambda>p. \<not> optional_rest p \<and> \<not> required_rest p) ps"
  shows "match_segments score (ps @ qs) rs =
    (if length ps \<le> length rs \<and> list_all2 segment_ok ps (take (length ps) rs)
     then match_segments (score + sum_list (map segment_score ps)) qs (drop (length ps) rs) else None)"
  using assms
proof (induction ps arbitrary: score rs)
  case (Cons p ps)
  have p: "\<not> optional_rest p" "\<not> required_rest p" using Cons.prems by simp_all
  have ih: "match_segments n (ps @ qs) ys = (if length ps \<le> length ys \<and> list_all2 segment_ok ps (take (length ps) ys)
      then match_segments (n + sum_list (map segment_score ps)) qs (drop (length ps) ys) else None)" for n ys
    using Cons.prems by (intro Cons.IH) simp
  show ?case
  proof (cases rs)
    case (Cons r rs')
    have "match_segments score ((p # ps) @ qs) rs = (if segment_ok p r then match_segments (score + segment_score p) (ps @ qs) rs' else None)"
      by (simp add: match_plain_segment [OF p] Cons del: match_segments.simps)
    then show ?thesis unfolding ih by (simp add: Cons add.assoc del: match_segments.simps)
  qed (simp add: match_plain_segment [OF p] del: match_segments.simps)
qed simp

text \<open>A route pattern of plain segments, closed by no, a required or an optional catch-all, matches a path exactly
  when its segments are equal to those of the path or dynamic, and the path has no more, some more, or any
  further segments; the score counts 100 for a literal and 10 for a dynamic segment.\<close>

theorem next_match_exact:
  assumes "list_all (\<lambda>p. \<not> optional_rest p \<and> \<not> required_rest p) ps"
  shows "match_segments 0 ps rs =
      (if list_all2 segment_ok ps rs then Some (sum_list (map segment_score ps)) else None) \<and>
    (required_rest q \<longrightarrow> match_segments 0 (ps @ [q]) rs =
      (if length ps < length rs \<and> list_all2 segment_ok ps (take (length ps) rs) then Some (sum_list (map segment_score ps) + 2) else None)) \<and>
    (optional_rest q \<longrightarrow> match_segments 0 (ps @ [q]) rs =
      (if length ps \<le> length rs \<and> list_all2 segment_ok ps (take (length ps) rs) then Some (sum_list (map segment_score ps) + 1) else None))"
proof (intro conjI impI)
  have "length ps \<le> length rs \<and> list_all2 segment_ok ps (take (length ps) rs) \<and> drop (length ps) rs = [] \<longleftrightarrow> list_all2 segment_ok ps rs"
    by (cases "length ps = length rs") (auto dest: list_all2_lengthD)
  then show "match_segments 0 ps rs = (if list_all2 segment_ok ps rs then Some (sum_list (map segment_score ps)) else None)"
    using match_plain [OF assms, of 0 "[]" rs] by auto
  show "match_segments 0 (ps @ [q]) rs =
      (if length ps < length rs \<and> list_all2 segment_ok ps (take (length ps) rs) then Some (sum_list (map segment_score ps) + 2) else None)"
    if "required_rest q"
    unfolding match_plain [OF assms, of 0 "[q]" rs] match_required [OF that] by auto
  show "match_segments 0 (ps @ [q]) rs =
      (if length ps \<le> length rs \<and> list_all2 segment_ok ps (take (length ps) rs) then Some (sum_list (map segment_score ps) + 1) else None)"
    if "optional_rest q"
    unfolding match_plain [OF assms, of 0 "[q]" rs] match_optional [OF that] by simp
qed

theorem next_match_exact_witness:
  "match_segments 0 [''blog'', ''[slug]''] [''blog'', ''hello''] = Some 110 \<and>
   match_segments 0 [''blog'', ''[slug]'', ''[...rest]''] [''blog'', ''hello''] = None"
proof -
  have p: "list_all (\<lambda>p. \<not> optional_rest p \<and> \<not> required_rest p) [''blog'', ''[slug]'']" "required_rest ''[...rest]''" by code_simp+
  have q: "list_all2 segment_ok [''blog'', ''[slug]''] [''blog'', ''hello'']" "sum_list (map segment_score [''blog'', ''[slug]'']) = 110"
    by code_simp+
  show ?thesis using next_match_exact [OF p(1), of "[''blog'', ''hello'']" "''[...rest]''"] p(2) q by simp
qed

text \<open>The score is not a preference for fewer dynamic segments: eleven of them beat one literal and a catch-all.\<close>

lemma policy_prefers_more_dynamic:
  "match_segments 0 (replicate 11 ''[x]'') (replicate 11 ''a'') = Some 110"
  "match_segments 0 [''a'', ''[...rest]''] (replicate 11 ''a'') = Some 102"
  by code_simp+

end
