(* ===== verification/Build_Schema.thy ===== *)
theory Build_Schema
  imports Wire_Bytes
begin

text \<open>
  The descriptor of a prebuilt deployment (Build Output API v3, \<open>crates/fluid-core/src/lib.rs\<close>): JSON values, the
  structs with their serde attributes (defaults, options, and a flattened rest that keeps unknown fields), and
  the checks of texts, paths and headers. Strings are byte strings. A refusal keeps its variant and field; its
  message, and the names quoted inside a field, are left out.
\<close>

section \<open>JSON values\<close>

text \<open>A number is a \<open>u64\<close>, a negative \<open>i64\<close>, or anything else, by its text.\<close>

datatype json =
    J_Null
  | J_Bool bool
  | J_Nat nat
  | J_Neg int
  | J_Float string
  | J_Str string
  | J_Arr "json list"
  | J_Obj "(string \<times> json) list"

type_synonym fields = "(string \<times> json) list"

fun as_object :: "json \<Rightarrow> fields option" where
  "as_object (J_Obj fs) = Some fs"
| "as_object _ = None"

fun as_array :: "json \<Rightarrow> json list option" where
  "as_array (J_Arr vs) = Some vs"
| "as_array _ = None"

fun as_str :: "json \<Rightarrow> string option" where
  "as_str (J_Str s) = Some s"
| "as_str _ = None"

fun as_u64 :: "json \<Rightarrow> nat option" where
  "as_u64 (J_Nat n) = Some n"
| "as_u64 _ = None"

fun as_bool :: "json \<Rightarrow> bool option" where
  "as_bool (J_Bool b) = Some b"
| "as_bool _ = None"

definition json_get :: "json \<Rightarrow> string \<Rightarrow> json option" where
  "json_get v key = Option.bind (as_object v) (\<lambda>fs. tget fs key)"

section \<open>The structs\<close>

record bo_function =
  bf_name :: string
  bf_config :: json
  bf_prerender :: "json option"
  bf_files :: "string list"
  bf_prerender_files :: "string list"

record build_output =
  bo_config :: json
  bo_functions :: "bo_function list"
  bo_assets :: "string list"

definition function_runtime :: "bo_function \<Rightarrow> string option" where
  "function_runtime f = Option.bind (json_get (bf_config f) ''runtime'') as_str"

record bo_route =
  br_src :: "string option"
  br_dest :: "string option"
  br_headers :: "(string \<times> string) list"
  br_status :: "nat option"
  br_handle :: "string option"
  br_cont :: bool
  br_middleware_path :: "string option"
  br_methods :: "string list"
  br_extra :: fields

record bo_wildcard =
  bw_domain :: string
  bw_value :: string
  bw_extra :: fields

record bo_override =
  bv_content_type :: "string option"
  bv_path :: "string option"
  bv_extra :: fields

record bo_remote_pattern =
  bp_protocol :: "string option"
  bp_hostname :: string
  bp_port :: "string option"
  bp_pathname :: "string option"
  bp_search :: "string option"
  bp_extra :: fields

record bo_local_pattern =
  bl_pathname :: "string option"
  bl_search :: "string option"
  bl_extra :: fields

record bo_images =
  bi_sizes :: "nat list option"
  bi_domains :: "string list option"
  bi_remote_patterns :: "bo_remote_pattern list"
  bi_local_patterns :: "bo_local_pattern list option"
  bi_qualities :: "nat list"
  bi_minimum_cache_ttl :: "nat option"
  bi_formats :: "string list"
  bi_allow_svg :: "bool option"
  bi_csp :: "string option"
  bi_disposition :: "string option"
  bi_extra :: fields

record bo_cron =
  bc_path :: string
  bc_schedule :: string
  bc_extra :: fields

record bo_config =
  bg_version :: nat
  bg_routes :: "bo_route list"
  bg_images :: "bo_images option"
  bg_wildcard :: "bo_wildcard list"
  bg_overrides :: "(string \<times> bo_override) list"
  bg_cache :: "string list"
  bg_framework :: "json option"
  bg_crons :: "bo_cron list"
  bg_extra :: fields

section \<open>Reading the structs\<close>

definition de_default :: "fields \<Rightarrow> string \<Rightarrow> 'a \<Rightarrow> (json \<Rightarrow> 'a option) \<Rightarrow> 'a option" where
  "de_default fs key d dec = (case tget fs key of None \<Rightarrow> Some d | Some v \<Rightarrow> dec v)"

definition de_required :: "fields \<Rightarrow> string \<Rightarrow> (json \<Rightarrow> 'a option) \<Rightarrow> 'a option" where
  "de_required fs key dec = Option.bind (tget fs key) dec"

definition de_option :: "(json \<Rightarrow> 'a option) \<Rightarrow> json \<Rightarrow> 'a option option" where
  "de_option dec v = (if v = J_Null then Some None else map_option Some (dec v))"

definition de_list :: "(json \<Rightarrow> 'a option) \<Rightarrow> json \<Rightarrow> 'a list option" where
  "de_list dec v = Option.bind (as_array v) (\<lambda>vs. those (map dec vs))"

definition de_map :: "(json \<Rightarrow> 'a option) \<Rightarrow> json \<Rightarrow> (string \<times> 'a) list option" where
  "de_map dec v = Option.bind (as_object v) (\<lambda>fs. those (map (\<lambda>(k, w). map_option (Pair k) (dec w)) fs))"

definition de_uint :: "nat \<Rightarrow> json \<Rightarrow> nat option" where
  "de_uint width v = Option.bind (as_u64 v) (\<lambda>n. if n < 2 ^ width then Some n else None)"

definition de_opt_str :: "fields \<Rightarrow> string \<Rightarrow> string option option" where
  "de_opt_str fs key = de_default fs key None (de_option as_str)"

definition de_rest :: "string list \<Rightarrow> fields \<Rightarrow> fields" where
  "de_rest known fs = filter (\<lambda>(k, v). k \<notin> set known) fs"

definition de_route :: "json \<Rightarrow> bo_route option" where
  "de_route v =
     Option.bind (as_object v) (\<lambda>fs.
     Option.bind (de_opt_str fs ''src'') (\<lambda>src.
     Option.bind (de_opt_str fs ''dest'') (\<lambda>dest.
     Option.bind (de_default fs ''headers'' [] (de_map as_str)) (\<lambda>headers.
     Option.bind (de_default fs ''status'' None (de_option (de_uint 16))) (\<lambda>status.
     Option.bind (de_opt_str fs ''handle'') (\<lambda>handle.
     Option.bind (de_default fs ''continue'' False as_bool) (\<lambda>cont.
     Option.bind (de_opt_str fs ''middlewarePath'') (\<lambda>middleware.
     map_option (\<lambda>methods.
       \<lparr>br_src = src, br_dest = dest, br_headers = headers, br_status = status, br_handle = handle, br_cont = cont,
        br_middleware_path = middleware, br_methods = methods,
        br_extra = de_rest [''src'', ''dest'', ''headers'', ''status'', ''handle'', ''continue'', ''middlewarePath'', ''methods''] fs\<rparr>)
       (de_default fs ''methods'' [] (de_list as_str))))))))))"

definition de_wildcard :: "json \<Rightarrow> bo_wildcard option" where
  "de_wildcard v =
     Option.bind (as_object v) (\<lambda>fs.
     Option.bind (de_required fs ''domain'' as_str) (\<lambda>domain.
     map_option (\<lambda>val. \<lparr>bw_domain = domain, bw_value = val, bw_extra = de_rest [''domain'', ''value''] fs\<rparr>)
       (de_required fs ''value'' as_str)))"

definition de_override :: "json \<Rightarrow> bo_override option" where
  "de_override v =
     Option.bind (as_object v) (\<lambda>fs.
     Option.bind (de_opt_str fs ''contentType'') (\<lambda>ct.
     map_option (\<lambda>p. \<lparr>bv_content_type = ct, bv_path = p, bv_extra = de_rest [''contentType'', ''path''] fs\<rparr>)
       (de_opt_str fs ''path'')))"

definition de_remote :: "json \<Rightarrow> bo_remote_pattern option" where
  "de_remote v =
     Option.bind (as_object v) (\<lambda>fs.
     Option.bind (de_opt_str fs ''protocol'') (\<lambda>protocol.
     Option.bind (de_required fs ''hostname'' as_str) (\<lambda>host.
     Option.bind (de_opt_str fs ''port'') (\<lambda>port.
     Option.bind (de_opt_str fs ''pathname'') (\<lambda>pathname.
     map_option (\<lambda>search. \<lparr>bp_protocol = protocol, bp_hostname = host, bp_port = port, bp_pathname = pathname,
        bp_search = search, bp_extra = de_rest [''protocol'', ''hostname'', ''port'', ''pathname'', ''search''] fs\<rparr>)
       (de_opt_str fs ''search''))))))"

definition de_local :: "json \<Rightarrow> bo_local_pattern option" where
  "de_local v =
     Option.bind (as_object v) (\<lambda>fs.
     Option.bind (de_opt_str fs ''pathname'') (\<lambda>pathname.
     map_option (\<lambda>search. \<lparr>bl_pathname = pathname, bl_search = search, bl_extra = de_rest [''pathname'', ''search''] fs\<rparr>)
       (de_opt_str fs ''search'')))"

definition de_images :: "json \<Rightarrow> bo_images option" where
  "de_images v =
     Option.bind (as_object v) (\<lambda>fs.
     Option.bind (de_default fs ''sizes'' None (de_option (de_list (de_uint 32)))) (\<lambda>sizes.
     Option.bind (de_default fs ''domains'' None (de_option (de_list as_str))) (\<lambda>domains.
     Option.bind (de_default fs ''remotePatterns'' [] (de_list de_remote)) (\<lambda>remote.
     Option.bind (de_default fs ''localPatterns'' None (de_option (de_list de_local))) (\<lambda>local_patterns.
     Option.bind (de_default fs ''qualities'' [] (de_list (de_uint 32))) (\<lambda>qualities.
     Option.bind (de_default fs ''minimumCacheTTL'' None (de_option (de_uint 64))) (\<lambda>ttl.
     Option.bind (de_default fs ''formats'' [] (de_list as_str)) (\<lambda>formats.
     Option.bind (de_default fs ''dangerouslyAllowSVG'' None (de_option as_bool)) (\<lambda>svg.
     Option.bind (de_opt_str fs ''contentSecurityPolicy'') (\<lambda>csp.
     map_option (\<lambda>disp.
       \<lparr>bi_sizes = sizes, bi_domains = domains, bi_remote_patterns = remote, bi_local_patterns = local_patterns,
        bi_qualities = qualities, bi_minimum_cache_ttl = ttl, bi_formats = formats, bi_allow_svg = svg, bi_csp = csp,
        bi_disposition = disp,
        bi_extra = de_rest [''sizes'', ''domains'', ''remotePatterns'', ''localPatterns'', ''qualities'', ''minimumCacheTTL'',
          ''formats'', ''dangerouslyAllowSVG'', ''contentSecurityPolicy'', ''contentDispositionType''] fs\<rparr>)
       (de_opt_str fs ''contentDispositionType'')))))))))))"

definition de_cron :: "json \<Rightarrow> bo_cron option" where
  "de_cron v =
     Option.bind (as_object v) (\<lambda>fs.
     Option.bind (de_required fs ''path'' as_str) (\<lambda>path.
     map_option (\<lambda>schedule. \<lparr>bc_path = path, bc_schedule = schedule, bc_extra = de_rest [''path'', ''schedule''] fs\<rparr>)
       (de_required fs ''schedule'' as_str)))"

definition de_config :: "json \<Rightarrow> bo_config option" where
  "de_config v =
     Option.bind (as_object v) (\<lambda>fs.
     Option.bind (de_default fs ''version'' 0 (de_uint 32)) (\<lambda>version.
     Option.bind (de_default fs ''routes'' [] (de_list de_route)) (\<lambda>routes.
     Option.bind (de_default fs ''images'' None (de_option de_images)) (\<lambda>images.
     Option.bind (de_default fs ''wildcard'' [] (de_list de_wildcard)) (\<lambda>wildcard.
     Option.bind (de_default fs ''overrides'' [] (de_map de_override)) (\<lambda>overrides.
     Option.bind (de_default fs ''cache'' [] (de_list as_str)) (\<lambda>cache.
     Option.bind (de_default fs ''framework'' None (de_option Some)) (\<lambda>framework.
     map_option (\<lambda>crons.
       \<lparr>bg_version = version, bg_routes = routes, bg_images = images, bg_wildcard = wildcard, bg_overrides = overrides,
        bg_cache = cache, bg_framework = framework, bg_crons = crons,
        bg_extra = de_rest [''version'', ''routes'', ''images'', ''wildcard'', ''overrides'', ''cache'', ''framework'', ''crons''] fs\<rparr>)
       (de_default fs ''crons'' [] (de_list de_cron))))))))))"

section \<open>Refusals\<close>

datatype refusal = Refusal_Invalid string | Refusal_Unsupported string

definition refusal_code :: "refusal \<Rightarrow> string" where
  "refusal_code r =
     (case r of
        Refusal_Invalid _ \<Rightarrow> ''BUILD_OUTPUT_V3_INVALID''
      | Refusal_Unsupported _ \<Rightarrow> ''BUILD_OUTPUT_V3_CAPABILITY_UNSUPPORTED'')"

text \<open>A check answers \<open>None\<close> when it passes; a sequence of checks stops at the first that does not.\<close>

type_synonym check = "refusal option"

definition require :: "bool \<Rightarrow> refusal \<Rightarrow> check" where
  "require ok r = (if ok then None else Some r)"

fun first_refusal :: "check list \<Rightarrow> check" where
  "first_refusal [] = None"
| "first_refusal (c # cs) = (case c of None \<Rightarrow> first_refusal cs | Some r \<Rightarrow> Some r)"

lemma require_None [simp]: "require ok r = None \<longleftrightarrow> ok"
  by (simp add: require_def)

lemma first_refusal_None: "first_refusal cs = None \<longleftrightarrow> (\<forall>c \<in> set cs. c = None)"
  by (induction cs) (auto split: option.splits)

declare first_refusal.simps [simp del]

section \<open>Texts, paths and headers\<close>

definition V3_MAX_VALUE_BYTES :: nat where "V3_MAX_VALUE_BYTES = 65536"
definition V3_MAX_PATH_BYTES :: nat where "V3_MAX_PATH_BYTES = 4096"

definition is_control :: "char \<Rightarrow> bool" where
  "is_control c \<longleftrightarrow> (of_char c :: nat) < 32 \<or> (of_char c :: nat) = 127"

definition alnum :: "char \<Rightarrow> bool" where
  "alnum c \<longleftrightarrow> is_digit c \<or> (let n = (of_char c :: nat) in 65 \<le> n \<and> n \<le> 90 \<or> 97 \<le> n \<and> n \<le> 122)"

definition check_text :: "string \<Rightarrow> string \<Rightarrow> check" where
  "check_text value field =
     first_refusal [require (length value \<le> V3_MAX_VALUE_BYTES) (Refusal_Invalid field),
       require (CHR 0x00 \<notin> set value) (Refusal_Invalid field)]"

definition sorted_unique :: "string list \<Rightarrow> bool" where
  "sorted_unique values \<longleftrightarrow> list_all (\<lambda>(a, b). \<not> b \<le> a) (zip values (tl values))"

definition check_sorted_unique :: "string list \<Rightarrow> string \<Rightarrow> check" where
  "check_sorted_unique values field = require (sorted_unique values) (Refusal_Invalid field)"

definition check_relative_path :: "string \<Rightarrow> string \<Rightarrow> check" where
  "check_relative_path value field =
     first_refusal [check_text value field,
       require (\<not> (value = [] \<or> V3_MAX_PATH_BYTES < length value \<or> starts_with ''/'' value \<or> ends_with ''/'' value \<or>
         list_ex (\<lambda>b. b = CHR 0x5C \<or> b = CHR '':'' \<or> is_control b) value \<or>
         list_ex (\<lambda>seg. seg = [] \<or> seg = ''.'' \<or> seg = ''..'') (split_on CHR ''/'' value)))
         (Refusal_Invalid field)]"

definition trim_start_matches :: "char \<Rightarrow> string \<Rightarrow> string" where
  "trim_start_matches c s = dropWhile (\<lambda>x. x = c) s"

definition normalize_public :: "string \<Rightarrow> refusal + string" where
  "normalize_public value =
     (case first_refusal [check_text value ''public path'',
        require (\<not> (list_ex (\<lambda>c. c = CHR ''?'' \<or> c = CHR ''#'') value \<or> str_contains value ''://'' \<or> starts_with ''//'' value \<or>
          list_ex (\<lambda>b. b = CHR 0x5C \<or> is_control b) value)) (Refusal_Invalid ''public path'')] of
        Some r \<Rightarrow> Inl r
      | None \<Rightarrow>
          let trimmed = trim_start_matches CHR ''/'' value
          in if trimmed = [] then Inr ''/''
             else case check_relative_path (trim_end_matches CHR ''/'' trimmed) ''public path'' of
                    Some r \<Rightarrow> Inl r
                  | None \<Rightarrow> Inr (if ends_with ''/'' value then ''/'' @ trim_end_matches CHR ''/'' trimmed @ ''/''
                             else ''/'' @ trimmed))"

definition check_public_path :: "string \<Rightarrow> string \<Rightarrow> check" where
  "check_public_path value field =
     (case normalize_public value of
        Inr _ \<Rightarrow> None
      | Inl (Refusal_Invalid _) \<Rightarrow> Some (Refusal_Invalid field)
      | Inl r \<Rightarrow> Some r)"

definition normalize_internal :: "string \<Rightarrow> refusal + string" where
  "normalize_internal value =
     (case first_refusal [check_text value ''route destination'',
        require (\<not> (CHR ''#'' \<in> set value \<or> str_contains value ''://'' \<or> starts_with ''//'' value \<or>
          list_ex (\<lambda>b. b = CHR 0x5C \<or> is_control b) value)) (Refusal_Unsupported ''route destination'')] of
        Some r \<Rightarrow> Inl r
      | None \<Rightarrow>
          let (path, query) = (case split_once CHR ''?'' value of Some (p, q) \<Rightarrow> (p, q) | None \<Rightarrow> (value, []))
          in case normalize_public (if path = [] then ''/'' else path) of
               Inl r \<Rightarrow> Inl r
             | Inr normalized \<Rightarrow>
                 if query = [] then Inr normalized
                 else case check_text query ''route destination query'' of
                        Some r \<Rightarrow> Inl r
                      | None \<Rightarrow> Inr (normalized @ ''?'' @ query))"

definition path_only :: "string \<Rightarrow> string" where
  "path_only value = (case split_once CHR ''?'' value of Some (p, q) \<Rightarrow> p | None \<Rightarrow> value)"

definition http_token_byte :: "char \<Rightarrow> bool" where
  "http_token_byte b \<longleftrightarrow> alnum b \<or> b \<in> set ''!#$%&*+-.^_|~'' \<or> b = CHR 0x27 \<or> b = CHR 0x60"

definition hop_by_hop :: "string list" where
  "hop_by_hop = [''connection'', ''keep-alive'', ''proxy-authenticate'', ''proxy-authorization'', ''te'', ''trailer'',
     ''transfer-encoding'', ''upgrade'', ''content-length'']"

definition line_break :: "string \<Rightarrow> bool" where
  "line_break s \<longleftrightarrow> list_ex (\<lambda>c. c = CHR 0x0D \<or> c = CHR 0x0A) s"

definition check_header :: "string \<Rightarrow> string \<Rightarrow> check" where
  "check_header name value =
     first_refusal [require (name \<noteq> [] \<and> list_all http_token_byte name) (Refusal_Invalid ''config.routes[].headers''),
       require (to_lowercase name \<notin> set hop_by_hop) (Refusal_Unsupported ''config.routes[] hop-by-hop header''),
       check_text value ''route header value'',
       require (\<not> line_break value) (Refusal_Invalid ''config.routes[].headers[]'')]"

end
