(* ===== verification/Build_Output.thy ===== *)
theory Build_Output
  imports Build_Schema
begin

text \<open>
  Validating, compiling and evaluating a Build Output descriptor (\<open>crates/fluid-core/src/lib.rs\<close>). Parameters:
  \<open>bytes_of\<close> is the length of the serialised descriptor (serde_json), and \<open>rx\<close> the regular expression engine, which
  builds an expression under its size limits; matching a path gives the expansion of templates by its captures.
\<close>

section \<open>Limits\<close>

definition V3_VERSION :: nat where "V3_VERSION = 3"
definition V3_MAX_DESCRIPTOR_BYTES :: nat where "V3_MAX_DESCRIPTOR_BYTES = 8 * 1024 * 1024"
definition V3_MAX_ROUTES :: nat where "V3_MAX_ROUTES = 4096"
definition V3_MAX_FUNCTIONS :: nat where "V3_MAX_FUNCTIONS = 1024"
definition V3_MAX_FILES :: nat where "V3_MAX_FILES = 100000"
definition V3_MAX_JSON_NODES :: nat where "V3_MAX_JSON_NODES = 100000"
definition V3_MAX_DEPTH :: nat where "V3_MAX_DEPTH = 64"
definition V3_MAX_METHODS :: nat where "V3_MAX_METHODS = 32"
definition V3_MAX_HEADERS :: nat where "V3_MAX_HEADERS = 128"
definition V3_MAX_WILDCARDS :: nat where "V3_MAX_WILDCARDS = 1024"
definition V3_MAX_OVERRIDES :: nat where "V3_MAX_OVERRIDES = 10000"
definition V3_MAX_CRONS :: nat where "V3_MAX_CRONS = 1024"
definition V3_MAX_CACHE_PATHS :: nat where "V3_MAX_CACHE_PATHS = 1024"
definition V3_MAX_IMAGE_VALUES :: nat where "V3_MAX_IMAGE_VALUES = 1024"

section \<open>Validation\<close>

text \<open>The number of nodes seen so far is threaded through the whole descriptor.\<close>

fun check_json :: "string \<Rightarrow> nat \<Rightarrow> nat \<Rightarrow> json \<Rightarrow> refusal + nat"
  and check_values :: "string \<Rightarrow> nat \<Rightarrow> nat \<Rightarrow> json list \<Rightarrow> refusal + nat"
  and check_fields :: "string \<Rightarrow> nat \<Rightarrow> nat \<Rightarrow> fields \<Rightarrow> refusal + nat" where
  "check_json field depth nodes v =
     (if V3_MAX_DEPTH < depth then Inl (Refusal_Invalid field)
      else if V3_MAX_JSON_NODES < nodes + 1 then Inl (Refusal_Invalid field)
      else (case v of
              J_Str s \<Rightarrow> (case check_text s field of Some r \<Rightarrow> Inl r | None \<Rightarrow> Inr (nodes + 1))
            | J_Arr vs \<Rightarrow> check_values field (depth + 1) (nodes + 1) vs
            | J_Obj fs \<Rightarrow> check_fields field (depth + 1) (nodes + 1) fs
            | _ \<Rightarrow> Inr (nodes + 1)))"
| "check_values field depth nodes [] = Inr nodes"
| "check_values field depth nodes (v # vs) =
     (case check_json field depth nodes v of Inl r \<Rightarrow> Inl r | Inr n \<Rightarrow> check_values field depth n vs)"
| "check_fields field depth nodes [] = Inr nodes"
| "check_fields field depth nodes ((k, v) # fs) =
     (case check_text k field of
        Some r \<Rightarrow> Inl r
      | None \<Rightarrow> (case check_json field depth nodes v of Inl r \<Rightarrow> Inl r | Inr n \<Rightarrow> check_fields field depth n fs))"

definition check_opt_text :: "string option \<Rightarrow> string \<Rightarrow> check" where
  "check_opt_text v field = (case v of None \<Rightarrow> None | Some s \<Rightarrow> check_text s field)"

definition check_domain :: "string \<Rightarrow> check" where
  "check_domain d =
     first_refusal [check_text d ''config.images.domains[]'',
       require (\<not> (d = [] \<or> str_contains d ''://'' \<or>
         list_ex (\<lambda>c. c = CHR ''/'' \<or> c = CHR 0x5C \<or> c = CHR 0x0D \<or> c = CHR 0x0A) d))
         (Refusal_Invalid ''config.images.domains[]'')]"

definition check_format :: "string \<Rightarrow> check" where
  "check_format f =
     first_refusal [check_text f ''config.images.formats[]'',
       require (f = ''image/avif'' \<or> f = ''image/webp'') (Refusal_Invalid ''config.images.formats[]'')]"

definition check_remote :: "bo_remote_pattern \<Rightarrow> check" where
  "check_remote p =
     first_refusal [
       require (case bp_protocol p of None \<Rightarrow> True | Some s \<Rightarrow> s = ''http'' \<or> s = ''https'')
         (Refusal_Invalid ''config.images.remotePatterns[].protocol''),
       check_text (bp_hostname p) ''config.images.remotePatterns[].hostname'',
       require (bp_hostname p \<noteq> []) (Refusal_Invalid ''config.images.remotePatterns[].hostname''),
       check_opt_text (bp_port p) ''config.images.remotePatterns[].port'',
       check_opt_text (bp_pathname p) ''config.images.remotePatterns[].pathname'',
       check_opt_text (bp_search p) ''config.images.remotePatterns[].search'']"

definition check_local :: "bo_local_pattern \<Rightarrow> check" where
  "check_local p =
     first_refusal [check_opt_text (bl_pathname p) ''config.images.localPatterns[].pathname'',
       check_opt_text (bl_search p) ''config.images.localPatterns[].search'']"

definition check_one_line :: "string option \<Rightarrow> string \<Rightarrow> check" where
  "check_one_line v field =
     (case v of None \<Rightarrow> None | Some s \<Rightarrow> first_refusal [check_text s field, require (\<not> line_break s) (Refusal_Invalid field)])"

definition check_count :: "nat \<Rightarrow> string \<Rightarrow> check" where
  "check_count n field = require (n \<le> V3_MAX_IMAGE_VALUES) (Refusal_Invalid field)"

definition check_images :: "bo_images \<Rightarrow> check" where
  "check_images im =
     (case (bi_sizes im, bi_domains im) of
        (None, _) \<Rightarrow> Some (Refusal_Invalid ''config.images.sizes'')
      | (Some _, None) \<Rightarrow> Some (Refusal_Invalid ''config.images.domains'')
      | (Some sizes, Some domains) \<Rightarrow>
          first_refusal ([
            check_count (length sizes) ''config.images.sizes'',
            check_count (length domains) ''config.images.domains'',
            check_count (length (bi_remote_patterns im)) ''config.images.remotePatterns'',
            check_count (case bi_local_patterns im of None \<Rightarrow> 0 | Some ps \<Rightarrow> length ps) ''config.images.localPatterns'',
            check_count (length (bi_qualities im)) ''config.images.qualities'',
            check_count (length (bi_formats im)) ''config.images.formats'',
            require (\<not> list_ex (\<lambda>n. \<not> (1 \<le> n \<and> n \<le> 4096)) sizes) (Refusal_Invalid ''config.images.sizes''),
            require (\<not> list_ex (\<lambda>n. \<not> (1 \<le> n \<and> n \<le> 100)) (bi_qualities im)) (Refusal_Invalid ''config.images.qualities'')] @
            map check_domain domains @ map check_format (bi_formats im) @ map check_remote (bi_remote_patterns im) @
            (case bi_local_patterns im of None \<Rightarrow> [] | Some ps \<Rightarrow> map check_local ps) @
            [check_one_line (bi_csp im) ''config.images.contentSecurityPolicy'',
             check_one_line (bi_disposition im) ''config.images.contentDispositionType'']))"

text \<open>\<open>object.get(field).is_some_and(bad)\<close> refuses.\<close>

definition check_field :: "fields \<Rightarrow> string \<Rightarrow> (json \<Rightarrow> bool) \<Rightarrow> check" where
  "check_field fs key good =
     require (case tget fs key of None \<Rightarrow> True | Some v \<Rightarrow> good v) (Refusal_Invalid (''functions[].prerender.'' @ key))"

definition parent_of :: "string \<Rightarrow> string option" where
  "parent_of name =
     (if CHR ''/'' \<in> set name then Some (butlast (rev (dropWhile (\<lambda>c. c \<noteq> CHR ''/'') (rev name)))) else None)"

definition fallback_path :: "string \<Rightarrow> string \<Rightarrow> string" where
  "fallback_path name fallback = (case parent_of name of Some d \<Rightarrow> d @ ''/'' @ fallback | None \<Rightarrow> fallback)"

definition check_prerender :: "string \<Rightarrow> json \<Rightarrow> string list \<Rightarrow> check" where
  "check_prerender name v files =
     (case as_object v of
        None \<Rightarrow> Some (Refusal_Invalid ''functions[].prerender'')
      | Some fs \<Rightarrow>
          first_refusal ([
            require (case tget fs ''expiration'' of
                       Some (J_Bool b) \<Rightarrow> \<not> b
                     | Some v \<Rightarrow> as_u64 v \<noteq> None
                     | None \<Rightarrow> False) (Refusal_Invalid ''functions[].prerender.expiration''),
            check_field fs ''group'' (\<lambda>v. as_u64 v \<noteq> None),
            check_field fs ''bypassToken'' (\<lambda>v. as_str v \<noteq> None),
            check_field fs ''fallback'' (\<lambda>v. as_str v \<noteq> None),
            check_field fs ''allowQuery'' (\<lambda>v. case as_array v of
               Some vs \<Rightarrow> length vs \<le> 1024 \<and> list_all (\<lambda>x. as_str x \<noteq> None) vs | None \<Rightarrow> False),
            check_field fs ''passQuery'' (\<lambda>v. as_bool v \<noteq> None),
            check_field fs ''exposeErrBody'' (\<lambda>v. as_bool v \<noteq> None),
            check_field fs ''initialHeaders'' (\<lambda>v. case as_object v of
               Some hs \<Rightarrow> length hs \<le> V3_MAX_HEADERS \<and> list_all (\<lambda>(k, x). as_str x \<noteq> None) hs | None \<Rightarrow> False),
            check_field fs ''initialStatus'' (\<lambda>v. case as_u64 v of Some n \<Rightarrow> 100 \<le> n \<and> n \<le> 599 | None \<Rightarrow> False)] @
            (case Option.bind (tget fs ''fallback'') as_str of
               Some fallback \<Rightarrow>
                 [check_relative_path fallback ''prerender fallback'',
                  check_relative_path (fallback_path name fallback) ''prerender fallback'',
                  require (files = [fallback_path name fallback]) (Refusal_Invalid ''functions[].prerender_files'')]
             | None \<Rightarrow> [require (files = []) (Refusal_Invalid ''functions[].prerender_files'')])))"

definition entry_key :: "string \<Rightarrow> string" where
  "entry_key runtime = (if runtime = ''edge'' then ''entrypoint'' else ''handler'')"

definition text_field :: "fields \<Rightarrow> string \<Rightarrow> string option" where
  "text_field fs key = (case Option.bind (tget fs key) as_str of Some s \<Rightarrow> if s = [] then None else Some s | None \<Rightarrow> None)"

definition check_entry :: "bo_function \<Rightarrow> check" where
  "check_entry f =
     (case as_object (bf_config f) of
        None \<Rightarrow> Some (Refusal_Invalid ''functions[].config'')
      | Some fs \<Rightarrow>
          (case text_field fs ''runtime'' of
             None \<Rightarrow> Some (Refusal_Invalid ''functions[].config.runtime'')
           | Some runtime \<Rightarrow>
               (case text_field fs (entry_key runtime) of
                  None \<Rightarrow> Some (Refusal_Invalid (''functions[].config.'' @ entry_key runtime))
                | Some entry \<Rightarrow>
                    if entry_key runtime = ''handler''
                    then first_refusal [check_relative_path entry ''functions[].config.handler'',
                      require (entry \<in> set (bf_files f)) (Refusal_Invalid ''functions[].config.handler'')]
                    else None)))"

definition check_function_files :: "bo_function \<Rightarrow> check" where
  "check_function_files f =
     first_refusal (check_sorted_unique (bf_files f) ''functions[].files'' #
       map (\<lambda>p. check_relative_path p ''functions[].files'') (bf_files f) @
       check_sorted_unique (bf_prerender_files f) ''functions[].prerender_files'' #
       map (\<lambda>p. check_relative_path p ''functions[].prerender_files'') (bf_prerender_files f))"

definition check_function :: "nat \<Rightarrow> bo_function \<Rightarrow> refusal + nat" where
  "check_function nodes f =
     (case check_relative_path (bf_name f) ''functions[].name'' of
        Some r \<Rightarrow> Inl r
      | None \<Rightarrow>
     (case check_json ''functions[].config'' 0 nodes (bf_config f) of
        Inl r \<Rightarrow> Inl r
      | Inr nodes1 \<Rightarrow>
     (case check_entry f of
        Some r \<Rightarrow> Inl r
      | None \<Rightarrow>
     (case (case bf_prerender f of
              Some p \<Rightarrow>
                (if as_object p = None then Inl (Refusal_Invalid ''functions[].prerender'')
                 else (case check_json ''functions[].prerender'' 0 nodes1 p of
                         Inl r \<Rightarrow> Inl r
                       | Inr n \<Rightarrow> (case check_prerender (bf_name f) p (bf_prerender_files f) of Some r \<Rightarrow> Inl r | None \<Rightarrow> Inr n)))
            | None \<Rightarrow> if bf_prerender_files f \<noteq> [] then Inl (Refusal_Invalid ''functions[].prerender_files'') else Inr nodes1) of
        Inl r \<Rightarrow> Inl r
      | Inr nodes2 \<Rightarrow>
     (case check_function_files f of Some r \<Rightarrow> Inl r | None \<Rightarrow> Inr nodes2)))))"

fun check_functions :: "string option \<Rightarrow> nat \<Rightarrow> nat \<Rightarrow> bo_function list \<Rightarrow> check" where
  "check_functions prior files nodes [] = None"
| "check_functions prior files nodes (f # fs) =
     (if (case prior of Some p \<Rightarrow> bf_name f \<le> p | None \<Rightarrow> False) then Some (Refusal_Invalid ''functions'')
      else (case check_function nodes f of
              Inl r \<Rightarrow> Some r
            | Inr n \<Rightarrow>
                let total = files + length (bf_files f) + length (bf_prerender_files f)
                in if V3_MAX_FILES < total then Some (Refusal_Invalid ''files'')
                   else check_functions (Some (bf_name f)) total n fs))"

definition config_view :: "build_output \<Rightarrow> refusal + bo_config" where
  "config_view d = (case de_config (bo_config d) of Some c \<Rightarrow> Inr c | None \<Rightarrow> Inl (Refusal_Invalid ''config''))"

definition check_config :: "bo_config \<Rightarrow> check" where
  "check_config c =
     first_refusal ([
       require (bg_version c = V3_VERSION) (Refusal_Invalid ''config.version''),
       require (length (bg_routes c) \<le> V3_MAX_ROUTES) (Refusal_Invalid ''config.routes''),
       require (length (bg_wildcard c) \<le> V3_MAX_WILDCARDS) (Refusal_Invalid ''config.wildcard''),
       require (length (bg_overrides c) \<le> V3_MAX_OVERRIDES) (Refusal_Invalid ''config.overrides''),
       require (length (bg_crons c) \<le> V3_MAX_CRONS) (Refusal_Invalid ''config.crons''),
       require (length (bg_cache c) \<le> V3_MAX_CACHE_PATHS) (Refusal_Invalid ''config.cache'')] @
       map (\<lambda>p. check_text p ''config.cache[]'') (bg_cache c) @
       [case bg_images c of Some im \<Rightarrow> check_images im | None \<Rightarrow> None])"

definition check_assets :: "string list \<Rightarrow> check" where
  "check_assets assets = first_refusal (check_sorted_unique assets ''assets'' # map (\<lambda>a. check_relative_path a ''assets'') assets)"

definition validate :: "(build_output \<Rightarrow> nat) \<Rightarrow> build_output \<Rightarrow> check" where
  "validate bytes_of d =
     (if V3_MAX_DESCRIPTOR_BYTES < bytes_of d then Some (Refusal_Invalid ''descriptor'')
      else (case check_json ''config'' 0 0 (bo_config d) of
              Inl r \<Rightarrow> Some r
            | Inr nodes \<Rightarrow>
                (case config_view d of
                   Inl r \<Rightarrow> Some r
                 | Inr c \<Rightarrow>
                     first_refusal [check_config c,
                       require (length (bo_functions d) \<le> V3_MAX_FUNCTIONS) (Refusal_Invalid ''functions''),
                       require (length (bo_assets d) \<le> V3_MAX_FILES) (Refusal_Invalid ''assets''),
                       check_assets (bo_assets d),
                       check_functions None (length (bo_assets d)) nodes (bo_functions d)])))"

definition from_parser_value :: "(json \<Rightarrow> build_output option) \<Rightarrow> (build_output \<Rightarrow> nat) \<Rightarrow> json \<Rightarrow> refusal + build_output" where
  "from_parser_value envelope bytes_of v =
     (case envelope v of
        None \<Rightarrow> Inl (Refusal_Invalid ''descriptor'')
      | Some d \<Rightarrow> (case validate bytes_of d of Some r \<Rightarrow> Inl r | None \<Rightarrow> Inr d))"

section \<open>Compilation\<close>

datatype bo_target = Target_Static string "string option" | Target_Function string | Target_Response nat "string option"

type_synonym outputs = "(string, bo_target) table"
type_synonym expansion = "string \<Rightarrow> string"
type_synonym route_regex = "string \<Rightarrow> expansion option"

record source_rule =
  sr_source :: string
  sr_regex :: route_regex
  sr_dest :: "string option"
  sr_headers :: "(string \<times> string) list"
  sr_status :: "nat option"
  sr_cont :: bool
  sr_methods :: "string list"

datatype compiled_route = Filesystem_Route | Source_Route source_rule

record evaluator =
  ev_routes :: "compiled_route list"
  ev_outputs :: outputs

definition no_extra :: "fields \<Rightarrow> string \<Rightarrow> check" where
  "no_extra fs field = require (fs = []) (Refusal_Unsupported field)"

text \<open>\<open>assets\<close> has been validated to be strictly sorted, so the binary search is membership.\<close>

definition check_override :: "string list \<Rightarrow> string \<times> bo_override \<Rightarrow> check" where
  "check_override assets = (\<lambda>(path, ov).
     first_refusal [no_extra (bv_extra ov) ''config.overrides[]'',
       check_relative_path path ''config.overrides key'',
       require (path \<in> set assets) (Refusal_Invalid ''config.overrides[]''),
       (case bv_content_type ov of
          None \<Rightarrow> None
        | Some ct \<Rightarrow> first_refusal [check_text ct ''config.overrides.contentType'',
            require (\<not> line_break ct) (Refusal_Invalid ''config.overrides[].contentType'')])])"

definition check_cron :: "bo_cron \<Rightarrow> check" where
  "check_cron c =
     first_refusal [no_extra (bc_extra c) ''config.crons[]'', check_public_path (bc_path c) ''config.crons[].path'',
       check_text (bc_schedule c) ''config.crons[].schedule'']"

definition check_image_extras :: "bo_images \<Rightarrow> check" where
  "check_image_extras im =
     first_refusal (no_extra (bi_extra im) ''config.images'' #
       map (\<lambda>p. no_extra (bp_extra p) ''config.images.remotePatterns[]'') (bi_remote_patterns im) @
       (case bi_local_patterns im of None \<Rightarrow> [] | Some ps \<Rightarrow> map (\<lambda>p. no_extra (bl_extra p) ''config.images.localPatterns[]'') ps))"

text \<open>The checks before the outputs are indexed. The loop over the fields of the wildcards comes after wildcards have been
  refused, so it has nothing to do.\<close>

definition check_capabilities :: "build_output \<Rightarrow> bo_config \<Rightarrow> check" where
  "check_capabilities d c =
     first_refusal ([no_extra (bg_extra c) ''config'', require (bg_wildcard c = []) (Refusal_Unsupported ''config.wildcard domain routing'')] @
       map (\<lambda>w. no_extra (bw_extra w) ''config.wildcard[]'') (bg_wildcard c) @
       map (check_override (bo_assets d)) (bg_overrides c) @ map check_cron (bg_crons c) @
       [case bg_images c of Some im \<Rightarrow> check_image_extras im | None \<Rightarrow> None,
        require (\<not> list_ex (\<lambda>f. bf_prerender f \<noteq> None) (bo_functions d)) (Refusal_Unsupported ''prerender/ISR function'')])"

definition insert_target :: "string \<Rightarrow> bo_target \<Rightarrow> outputs \<Rightarrow> refusal + outputs" where
  "insert_target path target outs =
     (case normalize_public path of
        Inl r \<Rightarrow> Inl r
      | Inr p \<Rightarrow> if tget outs p \<noteq> None then Inl (Refusal_Invalid ''outputs'') else Inr (tput p target outs))"

fun insert_targets :: "(string \<times> bo_target) list \<Rightarrow> outputs \<Rightarrow> refusal + outputs" where
  "insert_targets [] outs = Inr outs"
| "insert_targets ((p, t) # ts) outs = (case insert_target p t outs of Inl r \<Rightarrow> Inl r | Inr o1 \<Rightarrow> insert_targets ts o1)"

text \<open>The public paths of one asset: its override, or its own path and, for an index file, its directory.\<close>

definition asset_targets :: "(string \<times> bo_override) list \<Rightarrow> string \<Rightarrow> refusal + (string \<times> bo_target) list" where
  "asset_targets overrides a =
     (let ov = tget overrides a; t = Target_Static a (Option.bind ov bv_content_type)
      in case Option.bind ov bv_path of
           Some p \<Rightarrow> (case normalize_public p of Inl r \<Rightarrow> Inl r | Inr q \<Rightarrow> Inr [(q, t)])
         | None \<Rightarrow>
             Inr ((''/'' @ a, t) #
               (if a = ''index.html'' then [(''/'', t)]
                else case strip_suffix ''/index.html'' a of Some d \<Rightarrow> [(''/'' @ d @ ''/'', t)] | None \<Rightarrow> [])))"

fun add_assets :: "(string \<times> bo_override) list \<Rightarrow> string list \<Rightarrow> outputs \<Rightarrow> refusal + outputs" where
  "add_assets overrides [] outs = Inr outs"
| "add_assets overrides (a # as) outs =
     (case asset_targets overrides a of
        Inl r \<Rightarrow> Inl r
      | Inr ts \<Rightarrow> (case insert_targets ts outs of Inl r \<Rightarrow> Inl r | Inr o1 \<Rightarrow> add_assets overrides as o1))"

definition function_targets :: "bo_function list \<Rightarrow> (string \<times> bo_target) list" where
  "function_targets fs = map (\<lambda>f. (''/'' @ bf_name f, Target_Function (bf_name f))) fs"

definition check_method :: "string \<Rightarrow> check" where
  "check_method m = require (\<not> (m = [] \<or> 32 < length m \<or> \<not> list_all http_token_byte m)) (Refusal_Invalid ''config.routes[].methods'')"

fun check_headers :: "string list \<Rightarrow> (string \<times> string) list \<Rightarrow> check" where
  "check_headers seen [] = None"
| "check_headers seen ((name, value) # hs) =
     (case check_header name value of
        Some r \<Rightarrow> Some r
      | None \<Rightarrow> if to_lowercase name \<in> set seen then Some (Refusal_Invalid ''config.routes[].headers'')
                else check_headers (seen @ [to_lowercase name]) hs)"

definition check_status :: "bo_route \<Rightarrow> check" where
  "check_status r =
     (case br_status r of
        None \<Rightarrow> None
      | Some st \<Rightarrow>
          first_refusal [require (200 \<le> st \<and> st \<le> 599) (Refusal_Invalid ''config.routes[].status''),
            require (\<not> br_cont r) (Refusal_Unsupported ''config.routes[] combines status with continue''),
            require (br_dest r = None) (Refusal_Unsupported ''config.routes[] combines status with destination'')])"

definition check_dest :: "bo_route \<Rightarrow> check" where
  "check_dest r =
     (case br_dest r of
        None \<Rightarrow> None
      | Some dest \<Rightarrow>
          first_refusal [check_text dest ''config.routes[].dest'',
            require (\<not> line_break dest) (Refusal_Invalid ''config.routes[].dest''),
            require (\<not> ((str_contains dest ''://'' \<or> starts_with ''//'' dest) \<and>
                \<not> (case br_status r of Some st \<Rightarrow> 300 \<le> st \<and> st \<le> 399 | None \<Rightarrow> False)))
              (Refusal_Unsupported ''config.routes[] external rewrite destination'')])"

definition route_methods :: "bo_route \<Rightarrow> string list" where
  "route_methods r = remdups_adj (sort (map to_ascii_uppercase (br_methods r)))"

definition compile_handle :: "bo_route \<Rightarrow> string \<Rightarrow> refusal + compiled_route" where
  "compile_handle r handle =
     (if br_src r \<noteq> None \<or> br_dest r \<noteq> None \<or> br_headers r \<noteq> [] \<or> br_status r \<noteq> None \<or> br_cont r \<or> br_methods r \<noteq> []
      then Inl (Refusal_Unsupported ''config.routes[] handle with src/dest/status fields'')
      else if handle \<noteq> ''filesystem'' then Inl (Refusal_Unsupported ''config.routes[] handle'')
      else Inr Filesystem_Route)"

definition check_source :: "bo_route \<Rightarrow> string \<Rightarrow> check" where
  "check_source r source =
     first_refusal ([check_text source ''config.routes[].src'',
       require (source \<noteq> []) (Refusal_Invalid ''config.routes[].src''),
       require (length (br_methods r) \<le> V3_MAX_METHODS) (Refusal_Invalid ''config.routes[].methods'')] @
       map check_method (br_methods r) @
       [require (length (br_headers r) \<le> V3_MAX_HEADERS) (Refusal_Invalid ''config.routes[].headers''),
        check_headers [] (br_headers r), check_status r, check_dest r])"

definition compile_route :: "(string \<Rightarrow> route_regex option) \<Rightarrow> bo_route \<Rightarrow> refusal + compiled_route" where
  "compile_route rx r =
     (case first_refusal [no_extra (br_extra r) ''config.routes[]'',
        require (br_middleware_path r = None) (Refusal_Unsupported ''config.routes[].middlewarePath'')] of
        Some e \<Rightarrow> Inl e
      | None \<Rightarrow>
          (case br_handle r of
             Some handle \<Rightarrow> compile_handle r handle
           | None \<Rightarrow>
               (case br_src r of
                  None \<Rightarrow> Inl (Refusal_Invalid ''config.routes[].src'')
                | Some source \<Rightarrow>
                    (case check_source r source of
                       Some e \<Rightarrow> Inl e
                     | None \<Rightarrow>
                         (case rx source of
                            None \<Rightarrow> Inl (Refusal_Unsupported ''config.routes[].src regex'')
                          | Some re \<Rightarrow>
                              Inr (Source_Route \<lparr>sr_source = source, sr_regex = re, sr_dest = br_dest r,
                                sr_headers = br_headers r, sr_status = br_status r, sr_cont = br_cont r,
                                sr_methods = route_methods r\<rparr>))))))"

fun compile_routes :: "(string \<Rightarrow> route_regex option) \<Rightarrow> bo_route list \<Rightarrow> refusal + compiled_route list" where
  "compile_routes rx [] = Inr []"
| "compile_routes rx (r # rs) =
     (case compile_route rx r of
        Inl e \<Rightarrow> Inl e
      | Inr c \<Rightarrow> (case compile_routes rx rs of Inl e \<Rightarrow> Inl e | Inr cs \<Rightarrow> Inr (c # cs)))"

definition compile_output :: "(string \<Rightarrow> route_regex option) \<Rightarrow> (build_output \<Rightarrow> nat) \<Rightarrow> build_output \<Rightarrow> refusal + evaluator" where
  "compile_output rx bytes_of d =
     (case validate bytes_of d of
        Some e \<Rightarrow> Inl e
      | None \<Rightarrow>
     (case config_view d of
        Inl e \<Rightarrow> Inl e
      | Inr c \<Rightarrow>
     (case check_capabilities d c of
        Some e \<Rightarrow> Inl e
      | None \<Rightarrow>
     (case add_assets (bg_overrides c) (bo_assets d) [] of
        Inl e \<Rightarrow> Inl e
      | Inr o1 \<Rightarrow>
     (case insert_targets (function_targets (bo_functions d)) o1 of
        Inl e \<Rightarrow> Inl e
      | Inr o2 \<Rightarrow>
     (case compile_routes rx (bg_routes c) of
        Inl e \<Rightarrow> Inl e
      | Inr cs \<Rightarrow> Inr \<lparr>ev_routes = cs, ev_outputs = o2\<rparr>))))))"

section \<open>Evaluation\<close>

record resolution =
  rs_target :: "bo_target option"
  rs_path :: string
  rs_headers :: "(string, string) table"
  rs_matched :: bool

definition output_for :: "evaluator \<Rightarrow> string \<Rightarrow> bo_target option" where
  "output_for ev path = tget (ev_outputs ev) (path_only path)"

fun expand_headers :: "expansion \<Rightarrow> (string \<times> string) list \<Rightarrow> (string, string) table \<Rightarrow> refusal + (string, string) table" where
  "expand_headers ex [] hs = Inr hs"
| "expand_headers ex ((name, template) # ts) hs =
     (case first_refusal [check_text (ex template) ''expanded header'', require (\<not> line_break (ex template)) (Refusal_Invalid ''route header'')] of
        Some r \<Rightarrow> Inl r
      | None \<Rightarrow> expand_headers ex ts (tput name (ex template) hs))"

text \<open>A method list that is empty admits every method; a route that does not match is skipped.\<close>

definition rule_captures :: "source_rule \<Rightarrow> string \<Rightarrow> string \<Rightarrow> expansion option" where
  "rule_captures r meth path =
     (if sr_methods r \<noteq> [] \<and> meth \<notin> set (sr_methods r) then None else sr_regex r (path_only path))"

fun run_routes :: "evaluator \<Rightarrow> string \<Rightarrow> compiled_route list \<Rightarrow> string \<Rightarrow> (string, string) table \<Rightarrow> bool \<Rightarrow> refusal + resolution" where
  "run_routes ev meth [] path hs matched =
     Inr \<lparr>rs_target = output_for ev path, rs_path = path, rs_headers = hs, rs_matched = matched\<rparr>"
| "run_routes ev meth (Filesystem_Route # rs) path hs matched =
     (case output_for ev path of
        Some t \<Rightarrow> Inr \<lparr>rs_target = Some t, rs_path = path, rs_headers = hs, rs_matched = matched\<rparr>
      | None \<Rightarrow> run_routes ev meth rs path hs matched)"
| "run_routes ev meth (Source_Route r # rs) path hs matched =
     (case rule_captures r meth path of
        None \<Rightarrow> run_routes ev meth rs path hs matched
      | Some ex \<Rightarrow>
          (case expand_headers ex (sr_headers r) hs of
             Inl e \<Rightarrow> Inl e
           | Inr hs1 \<Rightarrow>
               (case sr_status r of
                  Some st \<Rightarrow> Inr \<lparr>rs_target = Some (Target_Response st None), rs_path = path, rs_headers = hs1, rs_matched = True\<rparr>
                | None \<Rightarrow>
                    (case (case sr_dest r of None \<Rightarrow> Inr path | Some dest \<Rightarrow> normalize_internal (ex dest)) of
                       Inl e \<Rightarrow> Inl e
                     | Inr p \<Rightarrow>
                         if sr_cont r then run_routes ev meth rs p hs1 True
                         else Inr \<lparr>rs_target = output_for ev p, rs_path = p, rs_headers = hs1, rs_matched = True\<rparr>))))"

definition resolve_output :: "evaluator \<Rightarrow> string \<Rightarrow> string \<Rightarrow> refusal + resolution" where
  "resolve_output ev meth path =
     (case normalize_internal path of
        Inl e \<Rightarrow> Inl e
      | Inr p \<Rightarrow> run_routes ev (to_ascii_uppercase meth) (ev_routes ev) p [] False)"

end
