(* ===== verification/Build_Output_Props.thy ===== *)
theory Build_Output_Props
  imports Build_Output
begin

text \<open>
  What the evaluator of a Build Output descriptor promises: it serves only what the validated inventory names,
  under portable paths; its headers cannot split a response; its index is exact; normalisation is idempotent; and
  nothing of the descriptor is silently ignored.
\<close>

section \<open>Portable paths\<close>

definition portable :: "string \<Rightarrow> bool" where
  "portable p \<longleftrightarrow> length p \<le> V3_MAX_PATH_BYTES \<and>
     list_all (\<lambda>seg. seg \<noteq> [] \<and> seg \<noteq> ''.'' \<and> seg \<noteq> ''..'') (split_on CHR ''/'' p) \<and>
     list_all (\<lambda>b. b \<noteq> CHR 0x5C \<and> b \<noteq> CHR '':'' \<and> \<not> is_control b) p"

lemma split_on_trailing: "\<exists>w ws. split_on c (s @ [c]) = w # ws @ [[]]"
proof (induction s)
  case (Cons a s)
  then obtain w ws where "split_on c (s @ [c]) = w # ws @ [[]]" by blast
  then show ?case by (cases "a = c") (auto intro: exI [of _ "w # ws"])
qed simp

lemma split_on_trailing_mem: "[] \<in> set (split_on c (s @ [c]))"
proof -
  obtain w ws where "split_on c (s @ [c]) = w # ws @ [[]]" using split_on_trailing by blast
  then show ?thesis by simp
qed

lemma text_ok_iff: "check_text s f = None \<longleftrightarrow> length s \<le> V3_MAX_VALUE_BYTES \<and> CHR 0x00 \<notin> set s"
  by (simp add: check_text_def first_refusal_None)

lemma portable_char: "portable p \<Longrightarrow> b \<in> set p \<Longrightarrow> b \<noteq> CHR 0x5C \<and> b \<noteq> CHR '':'' \<and> \<not> is_control b"
  unfolding portable_def list_all_iff by blast

lemma control_NUL: "is_control CHR 0x00"
  by (simp add: is_control_def)

lemma portable_props:
  assumes "portable p"
  shows "p \<noteq> []" and "\<not> starts_with ''/'' p" and "\<not> ends_with ''/'' p" and "check_text p f = None"
proof -
  show "p \<noteq> []" using assms by (auto simp: portable_def)
  show "\<not> starts_with ''/'' p" using assms by (auto simp: portable_def starts_with_iff)
  show "\<not> ends_with ''/'' p"
  proof
    assume "ends_with ''/'' p"
    then obtain r where "p = r @ ''/''" by (auto simp: ends_with_def strip_suffix_iff)
    then have "[] \<in> set (split_on CHR ''/'' p)" using split_on_trailing_mem [of "CHR ''/''" r] by simp
    then show False using assms by (auto simp: portable_def list_all_iff)
  qed
  have "CHR 0x00 \<notin> set p" using portable_char [OF assms] control_NUL by blast
  then show "check_text p f = None"
    using assms by (simp add: portable_def text_ok_iff V3_MAX_PATH_BYTES_def V3_MAX_VALUE_BYTES_def)
qed

lemma check_relative_iff: "check_relative_path p f = None \<longleftrightarrow> portable p"
proof
  assume "check_relative_path p f = None"
  then show "portable p"
    by (auto simp: check_relative_path_def first_refusal_None portable_def list_ex_iff list_all_iff)
next
  assume p: "portable p"
  then show "check_relative_path p f = None"
    using portable_props [OF p]
    by (auto simp: check_relative_path_def first_refusal_None list_ex_iff portable_def list_all_iff)
qed

lemma str_contains_set: "str_contains s p \<Longrightarrow> set p \<subseteq> set s"
  by (auto simp: str_contains_iff)

section \<open>Public paths\<close>

definition public_form :: "string \<Rightarrow> bool" where
  "public_form p \<longleftrightarrow> p = ''/'' \<or>
     (\<exists>s. portable s \<and> CHR ''?'' \<notin> set s \<and> CHR ''#'' \<notin> set s \<and> (p = ''/'' @ s \<or> p = ''/'' @ s @ ''/''))"

lemma trim_start_suffix: "\<exists>k. s = replicate k c @ trim_start_matches c s"
  by (induction s) (auto simp: trim_start_matches_def intro: exI [of _ 0] exI [of _ "Suc _"])

lemma trim_start_set: "set (trim_start_matches c s) \<subseteq> set s"
  by (auto simp: trim_start_matches_def dest: set_dropWhileD)

lemma trim_end_prefix: "\<exists>k. s = trim_end_matches c s @ replicate k c"
proof -
  obtain k where "rev s = replicate k c @ trim_start_matches c (rev s)" using trim_start_suffix [of "rev s" c] by blast
  then have "s = rev (trim_start_matches c (rev s)) @ replicate k c" by (metis rev_append rev_replicate rev_rev_ident)
  then show ?thesis by (auto simp: trim_end_matches_def trim_start_matches_def)
qed

lemma trim_end_id: "\<not> ends_with [c] s \<Longrightarrow> trim_end_matches c s = s"
proof -
  assume n: "\<not> ends_with [c] s"
  obtain k where k: "s = trim_end_matches c s @ replicate k c" using trim_end_prefix by blast
  show ?thesis
  proof (cases k)
    case (Suc j)
    then have "s = (trim_end_matches c s @ replicate j c) @ [c]" using k by (simp add: replicate_append_same)
    then have "ends_with [c] s" unfolding ends_with_def by (metis option.distinct(1) strip_suffix_iff)
    then show ?thesis using n by simp
  qed (use k in simp)
qed

lemma ends_with_suffix: "t \<noteq> [] \<Longrightarrow> ends_with [c] (s @ t) = ends_with [c] t"
proof -
  have e: "ends_with [c] x \<longleftrightarrow> (\<exists>r. x = r @ [c])" for x by (auto simp: ends_with_def strip_suffix_iff)
  show "t \<noteq> [] \<Longrightarrow> ends_with [c] (s @ t) = ends_with [c] t"
    by (cases t rule: rev_cases) (auto simp: e)
qed

lemma normalize_public_form: "normalize_public v = Inr p \<Longrightarrow> public_form p"
proof -
  assume n: "normalize_public v = Inr p"
  define t where "t = trim_start_matches CHR ''/'' v"
  define u where "u = trim_end_matches CHR ''/'' t"
  have q: "CHR ''?'' \<notin> set v" "CHR ''#'' \<notin> set v"
    using n by (auto simp: normalize_public_def first_refusal_None list_ex_iff split: option.splits)
  show ?thesis
  proof (cases "t = []")
    case True
    then show ?thesis using n by (auto simp: normalize_public_def t_def public_form_def split: option.splits)
  next
    case False
    have u: "portable u" and p: "p = (if ends_with ''/'' v then ''/'' @ u @ ''/'' else ''/'' @ t)"
      using n False by (auto simp: normalize_public_def t_def u_def check_relative_iff Let_def split: option.splits if_splits)
    have tv: "set t \<subseteq> set v" by (simp add: t_def trim_start_set)
    have "set u \<subseteq> set t" unfolding u_def by (metis UnCI set_append subsetI trim_end_prefix)
    then have set: "set u \<subseteq> set v" "set t \<subseteq> set v" using tv by auto
    have "ends_with ''/'' v = ends_with ''/'' t"
      using trim_start_suffix [of v "CHR ''/''"] ends_with_suffix [OF False] unfolding t_def by metis
    then have "\<not> ends_with ''/'' v \<Longrightarrow> u = t" by (simp add: u_def trim_end_id)
    then show ?thesis using u p q set unfolding public_form_def by (auto split: if_splits)
  qed
qed

lemma normalize_public_fixed: "public_form p \<Longrightarrow> normalize_public p = Inr p"
proof -
  assume f: "public_form p"
  show ?thesis
  proof (cases "p = ''/''")
    case True
    have "normalize_public ''/'' = Inr ''/''" by code_simp
    then show ?thesis using True by simp
  next
    case False
    then obtain s where s: "portable s" "CHR ''?'' \<notin> set s" "CHR ''#'' \<notin> set s" and p: "p = ''/'' @ s \<or> p = ''/'' @ s @ ''/''"
      using f by (auto simp: public_form_def)
    note pp = portable_props [OF s(1)]
    have c: "CHR '':'' \<notin> set s" "\<forall>b \<in> set s. b \<noteq> CHR 0x5C \<and> \<not> is_control b"
      using portable_char [OF s(1)] by blast+
    have "CHR '':'' \<notin> set p" using p c(1) by auto
    then have n: "\<not> str_contains p ''://''" using str_contains_set [of p "''://''"] by auto
    have d: "\<not> starts_with ''//'' p" using p pp(1,2) by (auto simp: starts_with_iff neq_Nil_conv)
    have l: "length s \<le> V3_MAX_PATH_BYTES" using s(1) by (simp add: portable_def)
    then have t: "check_text p f = None" for f
      using p pp(4) by (auto simp: text_ok_iff V3_MAX_PATH_BYTES_def V3_MAX_VALUE_BYTES_def)
    obtain a r where ar: "s = a # r" "a \<noteq> CHR ''/''" using pp(1,2) by (cases s) (auto simp: starts_with_iff)
    have ts: "trim_start_matches CHR ''/'' p = (if p = ''/'' @ s then s else s @ ''/'')"
      using p ar by (auto simp: trim_start_matches_def)
    have te: "trim_end_matches CHR ''/'' s = s" "trim_end_matches CHR ''/'' (s @ ''/'') = s"
      using pp(3) trim_end_id [of "CHR ''/''" s] by (simp_all add: trim_end_matches_def)
    have e: "ends_with ''/'' (''/'' @ s) = False" "ends_with ''/'' (''/'' @ s @ ''/'') = True"
      using pp(1,3) ends_with_suffix [of s "CHR ''/''" "''/''"] by (simp_all add: ends_with_def strip_suffix_def)
    have sl: "\<not> is_control CHR ''/''" by (simp add: is_control_def)
    have sp: "set p \<subseteq> insert CHR ''/'' (set s)" using p by auto
    have "\<forall>x \<in> set p. x \<noteq> CHR ''?'' \<and> x \<noteq> CHR ''#''" using sp s(2,3) by fastforce
    moreover have "\<forall>x \<in> set p. x \<noteq> CHR 0x5C \<and> \<not> is_control x" using sp c(2) sl by fastforce
    ultimately have g: "\<not> (list_ex (\<lambda>c. c = CHR ''?'' \<or> c = CHR ''#'') p \<or> str_contains p ''://'' \<or> starts_with ''//'' p \<or>
          list_ex (\<lambda>b. b = CHR 0x5C \<or> is_control b) p)"
      using n d unfolding list_ex_iff by blast
    have r: "check_relative_path s f = None" for f using s(1) by (simp add: check_relative_iff)
    have ok: "first_refusal [check_text p ''public path'', None] = None" using t by (simp add: first_refusal_None)
    have n: "normalize_public p = Inr (if ends_with ''/'' p then ''/'' @ s @ ''/'' else ''/'' @ trim_start_matches CHR ''/'' p)"
      unfolding normalize_public_def require_def if_P [OF g] ok using ts te r pp(1) by (simp add: Let_def)
    show ?thesis using p
    proof
      assume "p = ''/'' @ s"
      then show ?thesis using n ts e(1) by simp
    next
      assume "p = ''/'' @ s @ ''/''"
      then show ?thesis using n e(2) by simp
    qed
  qed
qed

lemma normalize_public_iff: "public_form p \<longleftrightarrow> normalize_public p = Inr p"
  using normalize_public_form normalize_public_fixed by blast

section \<open>Internal paths\<close>

lemma split_once_parts: "split_once c s = Some (a, b) \<Longrightarrow> s = a @ c # b \<and> c \<notin> set a"
  by (induction s arbitrary: a) (auto split: if_splits option.splits)

lemma split_once_append: "c \<notin> set a \<Longrightarrow> split_once c (a @ c # b) = Some (a, b)"
  by (induction a) auto

lemma split_once_none: "split_once c s = None \<longleftrightarrow> c \<notin> set s"
  by (induction s) (auto split: option.splits)

lemma contains_around:
  assumes "str_contains (a @ x # b) p" and "x \<notin> set p"
  shows "str_contains a p \<or> str_contains b p"
proof -
  obtain u w where e: "a @ x # b = u @ p @ w" using assms(1) by (auto simp: str_contains_iff)
  show ?thesis
  proof (cases "length a < length (u @ p)")
    case True
    show ?thesis
    proof (cases "length a < length u")
      case less: True
      then have "take (Suc (length a)) u = a @ [x]" using arg_cong [OF e, of "take (Suc (length a))"] by simp
      then have "u = a @ x # drop (Suc (length a)) u" by (metis append_take_drop_id append.assoc append_Cons append_Nil)
      then have "b = drop (Suc (length a)) u @ p @ w" using e by (metis append.assoc append_Cons same_append_eq list.inject)
      then show ?thesis by (auto simp: str_contains_iff)
    next
      case False
      then have "x = (u @ p) ! length a" using arg_cong [OF e, of "\<lambda>l. l ! length a"] True by (metis append.assoc nth_append nth_append_length)
      then have "x \<in> set p" using False True by (auto simp: nth_append)
      then show ?thesis using assms(2) by simp
    qed
  next
    case False
    then have "take (length (u @ p)) a = u @ p" using arg_cong [OF e, of "take (length (u @ p))"] by simp
    then have "a = u @ p @ drop (length (u @ p)) a" by (metis append_take_drop_id append.assoc)
    then show ?thesis by (metis str_contains_iff)
  qed
qed

lemma public_form_chars:
  assumes "public_form p"
  shows "CHR ''?'' \<notin> set p" and "CHR ''#'' \<notin> set p" and "CHR '':'' \<notin> set p" and "\<not> starts_with ''//'' p"
    and "\<forall>b \<in> set p. b \<noteq> CHR 0x5C \<and> \<not> is_control b" and "p \<noteq> []"
proof -
  have n: "normalize_public p = Inr p" using assms by (rule normalize_public_fixed)
  then show "CHR ''?'' \<notin> set p" "CHR ''#'' \<notin> set p" "\<not> starts_with ''//'' p" "\<forall>b \<in> set p. b \<noteq> CHR 0x5C \<and> \<not> is_control b"
    by (auto simp: normalize_public_def first_refusal_None list_ex_iff split: option.splits)
  show "CHR '':'' \<notin> set p" "p \<noteq> []" using assms by (auto simp: public_form_def dest: portable_char)
qed

lemma normalize_internal_canonical:
  assumes "normalize_internal v = Inr q"
  shows "public_form (path_only q) \<and> (length q \<le> V3_MAX_VALUE_BYTES \<longrightarrow> normalize_internal q = Inr q)"
proof -
  obtain path query where pq: "(case split_once CHR ''?'' v of Some (p, q) \<Rightarrow> (p, q) | None \<Rightarrow> (v, [])) = (path, query)"
    by fastforce
  have g: "CHR ''#'' \<notin> set v" "\<not> str_contains v ''://''" "\<forall>b \<in> set v. b \<noteq> CHR 0x5C \<and> \<not> is_control b"
    using assms by (auto simp: normalize_internal_def first_refusal_None list_ex_iff split: option.splits)
  obtain n where n: "normalize_public (if path = [] then ''/'' else path) = Inr n"
    using assms pq by (auto simp: normalize_internal_def Let_def split: option.splits sum.splits)
  have pf: "public_form n" using n by (rule normalize_public_form)
  note pc = public_form_chars [OF pf]
  have q: "q = (if query = [] then n else n @ ''?'' @ query)" and qt: "check_text query ''route destination query'' = None \<or> query = []"
    using assms pq n by (auto simp: normalize_internal_def Let_def split: option.splits if_splits)
  have sq: "set query \<subseteq> set v" and cq: "\<not> str_contains query ''://''"
    using pq g(2) by (auto simp: str_contains_iff split: option.splits dest!: split_once_parts) (metis append.assoc append_Cons)+
  have po: "path_only q = n"
    using q pc(1) by (auto simp: path_only_def split_once_append split_once_none split: option.splits dest!: split_once_parts)
  have "normalize_internal q = Inr q" if len: "length q \<le> V3_MAX_VALUE_BYTES"
  proof -
    have chars: "CHR ''#'' \<notin> set q" "\<forall>b \<in> set q. b \<noteq> CHR 0x5C \<and> \<not> is_control b"
      using q pc(2,5) sq g(1,3) by (auto simp: is_control_def)
    have ncol: "\<not> str_contains n ''://''" using pc(3) str_contains_set [of n "''://''"] by auto
    have c: "\<not> str_contains q ''://''"
      using q ncol cq contains_around [of n "CHR ''?''" query "''://''"] by (auto split: if_splits)
    have d: "\<not> starts_with ''//'' q"
      using q pc(4,6) by (cases n rule: list.exhaust; cases "tl n") (auto simp: starts_with_iff split: if_splits)
    have t: "check_text q f = None" for f using len chars(2) control_NUL by (auto simp: text_ok_iff)
    have so: "(case split_once CHR ''?'' q of Some (p, q) \<Rightarrow> (p, q) | None \<Rightarrow> (q, [])) = (n, query)"
    proof (cases "query = []")
      case True
      then show ?thesis using q pc(1) split_once_none [of "CHR ''?''" n] by simp
    next
      case False
      then show ?thesis using q pc(1) split_once_append [of "CHR ''?''" n query] by simp
    qed
    have gd: "\<not> (CHR ''#'' \<in> set q \<or> str_contains q ''://'' \<or> starts_with ''//'' q \<or> list_ex (\<lambda>b. b = CHR 0x5C \<or> is_control b) q)"
      using chars c d unfolding list_ex_iff by blast
    have ok: "first_refusal [check_text q ''route destination'', None] = None" using t by (simp add: first_refusal_None)
    show ?thesis
      unfolding normalize_internal_def require_def if_P [OF gd] ok so
      using q qt pc(6) normalize_public_fixed [OF pf] by (auto simp: Let_def)
  qed
  then show ?thesis using po pf by simp
qed

lemma normalize_internal_form: "normalize_internal v = Inr q \<Longrightarrow> public_form (path_only q)"
  by (simp add: normalize_internal_canonical)

text \<open>The path of a normalised request or destination is absolute and portable: no segment is empty, \<open>.\<close> or
  \<open>..\<close>, and no backslash, colon or control character is left; and normalising again changes nothing, unless a
  leading slash has made it longer than a text may be.\<close>

theorem normalize_canonical:
  assumes "normalize_internal v = Inr q"
  shows "public_form (path_only q) \<and> (length q \<le> V3_MAX_VALUE_BYTES \<longrightarrow> normalize_internal q = Inr q)"
  by (rule normalize_internal_canonical [OF assms])

theorem normalize_canonical_witness:
  "normalize_internal ''blog/a//?x=../..'' = Inr ''/blog/a/?x=../..'' \<and> public_form ''/blog/a/'' \<and>
   normalize_internal ''/blog/a/?x=../..'' = Inr ''/blog/a/?x=../..''"
proof -
  have n: "normalize_internal ''blog/a//?x=../..'' = Inr ''/blog/a/?x=../..''" by code_simp
  have p: "path_only ''/blog/a/?x=../..'' = ''/blog/a/''" by code_simp
  show ?thesis using normalize_canonical [OF n] n p by (simp add: V3_MAX_VALUE_BYTES_def)
qed

text \<open>A colon in a path, which URLs allow, is refused, also when a function would answer.\<close>

lemma colon_in_path_refused:
  "resolve_output \<lparr>ev_routes = [Source_Route \<lparr>sr_source = ''/(.*)'', sr_regex = (\<lambda>p. Some (\<lambda>t. t)), sr_dest = Some ''/render'',
      sr_headers = [], sr_status = None, sr_cont = False, sr_methods = []\<rparr>],
    ev_outputs = [(''/render'', Target_Function ''render'')]\<rparr> ''GET'' ''/wiki/Special:Search'' = Inl (Refusal_Invalid ''public path'')"
  by code_simp

end
