(* ===== verification/Build_Serving.thy ===== *)
theory Build_Serving
  imports Build_Output_Props
begin

text \<open>
  What a compiled Build Output serves: its index is exact, a resolution names only the inventory, headers cannot
  split a response, a validated descriptor is bounded, and compilation ignores no part of the configuration.
\<close>

section \<open>Validated descriptors\<close>

primrec json_nodes :: "json \<Rightarrow> nat" where
  "json_nodes J_Null = 1"
| "json_nodes (J_Bool b) = 1"
| "json_nodes (J_Nat n) = 1"
| "json_nodes (J_Neg i) = 1"
| "json_nodes (J_Float s) = 1"
| "json_nodes (J_Str s) = 1"
| "json_nodes (J_Arr vs) = Suc (sum_list (map json_nodes vs))"
| "json_nodes (J_Obj fs) = Suc (sum_list (map snd (map (map_prod id json_nodes) fs)))"

primrec json_depth :: "json \<Rightarrow> nat" where
  "json_depth J_Null = 0"
| "json_depth (J_Bool b) = 0"
| "json_depth (J_Nat n) = 0"
| "json_depth (J_Neg i) = 0"
| "json_depth (J_Float s) = 0"
| "json_depth (J_Str s) = 0"
| "json_depth (J_Arr vs) = foldr max (map Suc (map json_depth vs)) 0"
| "json_depth (J_Obj fs) = foldr max (map Suc (map snd (map (map_prod id json_depth) fs))) 0"

lemma check_json_bounds:
  "check_json f d n v = Inr m \<Longrightarrow> m = n + json_nodes v \<and> m \<le> V3_MAX_JSON_NODES \<and> d + json_depth v \<le> V3_MAX_DEPTH"
  "check_values f d n vs = Inr m \<Longrightarrow> n \<le> V3_MAX_JSON_NODES \<Longrightarrow>
     m = n + sum_list (map json_nodes vs) \<and> m \<le> V3_MAX_JSON_NODES \<and> (\<forall>v \<in> set vs. d + json_depth v \<le> V3_MAX_DEPTH)"
  "check_fields f d n fs = Inr m \<Longrightarrow> n \<le> V3_MAX_JSON_NODES \<Longrightarrow>
     m = n + sum_list (map snd (map (map_prod id json_nodes) fs)) \<and> m \<le> V3_MAX_JSON_NODES \<and> (\<forall>kv \<in> set fs. d + json_depth (snd kv) \<le> V3_MAX_DEPTH)"
proof (induction f d n v and f d n vs and f d n fs arbitrary: m and m and m rule: check_json_check_values_check_fields.induct)
  case (1 field depth nodes v)
  have mx: "foldr max xs 0 \<le> b" if "\<forall>x \<in> set xs. x \<le> b" for xs and b :: nat using that by (induction xs) auto
  have c: "\<not> V3_MAX_DEPTH < depth" "\<not> V3_MAX_JSON_NODES < nodes + 1" using "1.prems" by (auto split: if_splits)
  show ?case
  proof (cases v)
    case (J_Arr vs)
    have "check_values field (depth + 1) (nodes + 1) vs = Inr m" using "1.prems" c J_Arr by simp
    then have i: "m = nodes + 1 + sum_list (map json_nodes vs)" "m \<le> V3_MAX_JSON_NODES" "\<forall>v \<in> set vs. depth + 1 + json_depth v \<le> V3_MAX_DEPTH"
      using "1.IH"(1) [OF c J_Arr] c(2) by auto
    have "json_depth v \<le> V3_MAX_DEPTH - depth" unfolding J_Arr json_depth.simps by (rule mx) (use i(3) in fastforce)
    then show ?thesis using i c J_Arr by simp
  next
    case (J_Obj fs)
    have "check_fields field (depth + 1) (nodes + 1) fs = Inr m" using "1.prems" c J_Obj by simp
    then have i: "m = nodes + 1 + sum_list (map snd (map (map_prod id json_nodes) fs))" "m \<le> V3_MAX_JSON_NODES"
      "\<forall>kv \<in> set fs. depth + 1 + json_depth (snd kv) \<le> V3_MAX_DEPTH"
      using "1.IH"(2) [OF c J_Obj] c(2) by auto
    have "json_depth v \<le> V3_MAX_DEPTH - depth" unfolding J_Obj json_depth.simps by (rule mx) (use i(3) in fastforce)
    then show ?thesis using i c J_Obj by simp
  qed (use "1.prems" c in \<open>auto split: option.splits\<close>)
next
  case (3 field depth nodes v vs)
  then obtain k where k: "check_json field depth nodes v = Inr k" "check_values field depth k vs = Inr m" by (auto split: sum.splits)
  then show ?case using "3.IH"(1) [OF k(1)] "3.IH"(2) [OF k(1) k(2)] by auto
next
  case (5 field depth nodes key v fs)
  then obtain k where k: "check_text key field = None" "check_json field depth nodes v = Inr k" "check_fields field depth k fs = Inr m"
    by (auto split: sum.splits option.splits)
  then show ?case using "5.IH"(1) [OF k(1,2)] "5.IH"(2) [OF k(1,2,3)] by auto
qed auto

lemma sorted_unique_iff: "sorted_unique xs \<longleftrightarrow> sorted_wrt (<) xs"
proof (induction xs)
  case (Cons a xs)
  have "sorted_unique (a # xs) \<longleftrightarrow> (case xs of [] \<Rightarrow> True | b # _ \<Rightarrow> a < b) \<and> sorted_unique xs"
    by (cases xs) (auto simp: sorted_unique_def)
  also have "\<dots> \<longleftrightarrow> sorted_wrt (<) (a # xs)"
    unfolding Cons.IH by (cases xs) (auto intro: less_trans)
  finally show ?case .
qed (simp add: sorted_unique_def)

definition function_ok :: "bo_function \<Rightarrow> bool" where
  "function_ok f \<longleftrightarrow> portable (bf_name f) \<and> sorted_wrt (<) (bf_files f) \<and> list_all portable (bf_files f) \<and>
     sorted_wrt (<) (bf_prerender_files f) \<and> list_all portable (bf_prerender_files f) \<and>
     (case function_runtime f of
        None \<Rightarrow> False
      | Some runtime \<Rightarrow> runtime \<noteq> [] \<and>
          (runtime \<noteq> ''edge'' \<longrightarrow>
             (case json_get (bf_config f) ''handler'' of Some (J_Str h) \<Rightarrow> h \<in> set (bf_files f) \<and> portable h | _ \<Rightarrow> False)))"

definition function_nodes :: "bo_function \<Rightarrow> nat" where
  "function_nodes f = json_nodes (bf_config f) + (case bf_prerender f of None \<Rightarrow> 0 | Some p \<Rightarrow> json_nodes p)"

definition function_file_count :: "bo_function \<Rightarrow> nat" where
  "function_file_count f = length (bf_files f) + length (bf_prerender_files f)"

lemma as_str_iff: "as_str v = Some s \<longleftrightarrow> v = J_Str s"
  by (cases v) auto

lemma text_field_iff: "text_field fs key = Some s \<longleftrightarrow> tget fs key = Some (J_Str s) \<and> s \<noteq> []"
  by (auto simp: text_field_def Option.bind_eq_Some_conv as_str_iff split: option.splits)

lemma check_entry_ok:
  assumes "check_entry f = None"
  obtains runtime where "function_runtime f = Some runtime" and "runtime \<noteq> []"
    and "runtime \<noteq> ''edge'' \<longrightarrow> (\<exists>h. json_get (bf_config f) ''handler'' = Some (J_Str h) \<and> h \<in> set (bf_files f) \<and> portable h)"
proof -
  obtain fs runtime entry where e: "as_object (bf_config f) = Some fs" "text_field fs ''runtime'' = Some runtime"
    "text_field fs (entry_key runtime) = Some entry"
    and h: "entry_key runtime = ''handler'' \<longrightarrow> portable entry \<and> entry \<in> set (bf_files f)"
    using assms by (auto simp: check_entry_def first_refusal_None check_relative_iff split: option.splits if_splits)
  show ?thesis
    by (rule that [of runtime]) (use e h in \<open>auto simp: function_runtime_def json_get_def text_field_iff entry_key_def split: if_splits\<close>)
qed

lemma check_function_ok:
  assumes "check_function n f = Inr m"
  shows "function_ok f \<and> m = n + function_nodes f \<and> m \<le> V3_MAX_JSON_NODES"
proof -
  obtain n1 where a: "check_relative_path (bf_name f) ''functions[].name'' = None"
      "check_json ''functions[].config'' 0 n (bf_config f) = Inr n1" "check_entry f = None"
      and b: "check_function_files f = None"
      and p: "case bf_prerender f of Some p \<Rightarrow> check_json ''functions[].prerender'' 0 n1 p = Inr m | None \<Rightarrow> m = n1"
    using assms by (auto simp: check_function_def split: option.splits sum.splits if_splits)
  note n1 = check_json_bounds(1) [OF a(2)]
  have m: "m = n + function_nodes f \<and> m \<le> V3_MAX_JSON_NODES"
  proof (cases "bf_prerender f")
    case (Some pr)
    then have "check_json ''functions[].prerender'' 0 n1 pr = Inr m" using p by simp
    from check_json_bounds(1) [OF this] show ?thesis using n1 Some by (simp add: function_nodes_def)
  qed (use p n1 in \<open>simp add: function_nodes_def\<close>)
  obtain runtime where r: "function_runtime f = Some runtime" "runtime \<noteq> []"
    "runtime \<noteq> ''edge'' \<longrightarrow> (\<exists>h. json_get (bf_config f) ''handler'' = Some (J_Str h) \<and> h \<in> set (bf_files f) \<and> portable h)"
    using check_entry_ok [OF a(3)] by blast
  have fl: "sorted_unique (bf_files f)" "sorted_unique (bf_prerender_files f)" "\<forall>x \<in> set (bf_files f). portable x"
    "\<forall>x \<in> set (bf_prerender_files f). portable x"
    using b by (auto simp: check_function_files_def first_refusal_None check_sorted_unique_def check_relative_iff ball_Un)
  show ?thesis
    using a(1) m r fl by (auto simp: function_ok_def check_relative_iff sorted_unique_iff list_all_iff)
qed

lemma check_functions_ok:
  "check_functions prior files nodes fs = None \<Longrightarrow> files \<le> V3_MAX_FILES \<Longrightarrow> nodes \<le> V3_MAX_JSON_NODES \<Longrightarrow>
     list_all function_ok fs \<and> sorted_wrt (<) (map bf_name fs) \<and> (\<forall>p. prior = Some p \<longrightarrow> (\<forall>f \<in> set fs. p < bf_name f)) \<and>
     files + sum_list (map function_file_count fs) \<le> V3_MAX_FILES \<and>
     nodes + sum_list (map function_nodes fs) \<le> V3_MAX_JSON_NODES"
proof (induction fs arbitrary: prior files nodes)
  case (Cons f fs)
  obtain n where n: "check_function nodes f = Inr n" and o: "\<forall>p. prior = Some p \<longrightarrow> p < bf_name f"
    and t: "files + function_file_count f \<le> V3_MAX_FILES"
    and c: "check_functions (Some (bf_name f)) (files + function_file_count f) n fs = None"
    using Cons.prems(1) by (auto simp: Let_def function_file_count_def add.assoc split: if_splits sum.splits option.splits)
  note f = check_function_ok [OF n]
  have i: "list_all function_ok fs" "sorted_wrt (<) (map bf_name fs)" "\<forall>g \<in> set fs. bf_name f < bf_name g"
    "files + function_file_count f + sum_list (map function_file_count fs) \<le> V3_MAX_FILES"
    "n + sum_list (map function_nodes fs) \<le> V3_MAX_JSON_NODES"
    using Cons.IH [OF c t] f by auto
  show ?case using f o i by (auto intro: less_trans)
qed simp

lemma validate_parts:
  assumes "validate bytes_of d = None"
  obtains nodes c where "check_json ''config'' 0 0 (bo_config d) = Inr nodes" and "config_view d = Inr c" and "check_config c = None"
    and "length (bo_functions d) \<le> V3_MAX_FUNCTIONS" and "length (bo_assets d) \<le> V3_MAX_FILES"
    and "check_assets (bo_assets d) = None" and "check_functions None (length (bo_assets d)) nodes (bo_functions d) = None"
    and "bytes_of d \<le> V3_MAX_DESCRIPTOR_BYTES"
  using assms by (auto simp: validate_def first_refusal_None split: if_splits sum.splits)

lemma validated_facts:
  assumes "validate bytes_of d = None"
  shows "bytes_of d \<le> V3_MAX_DESCRIPTOR_BYTES \<and> length (bo_functions d) \<le> V3_MAX_FUNCTIONS \<and>
    length (bo_assets d) + sum_list (map function_file_count (bo_functions d)) \<le> V3_MAX_FILES \<and>
    json_nodes (bo_config d) + sum_list (map function_nodes (bo_functions d)) \<le> V3_MAX_JSON_NODES \<and>
    json_depth (bo_config d) \<le> V3_MAX_DEPTH \<and>
    sorted_wrt (<) (bo_assets d) \<and> list_all portable (bo_assets d) \<and>
    sorted_wrt (<) (map bf_name (bo_functions d)) \<and> list_all function_ok (bo_functions d)"
proof -
  obtain nodes c where v: "check_json ''config'' 0 0 (bo_config d) = Inr nodes" "length (bo_functions d) \<le> V3_MAX_FUNCTIONS"
    "length (bo_assets d) \<le> V3_MAX_FILES" "check_assets (bo_assets d) = None"
    "check_functions None (length (bo_assets d)) nodes (bo_functions d) = None" "bytes_of d \<le> V3_MAX_DESCRIPTOR_BYTES"
    using validate_parts [OF assms] by blast
  note j = check_json_bounds(1) [OF v(1)]
  have a: "sorted_wrt (<) (bo_assets d)" "list_all portable (bo_assets d)"
    using v(4) by (auto simp: check_assets_def first_refusal_None check_sorted_unique_def sorted_unique_iff check_relative_iff list_all_iff)
  show ?thesis using check_functions_ok [OF v(5,3)] v j a by auto
qed

text \<open>A validated descriptor is bounded (bytes, functions, files in all, JSON nodes in all, nesting), its assets, function
  names and files are strictly sorted, hence distinct, and portable, and the handler of a function that is not an
  edge function is one of its files.\<close>

theorem validated_bounded:
  assumes "validate bytes_of d = None"
  shows "bytes_of d \<le> V3_MAX_DESCRIPTOR_BYTES \<and> length (bo_functions d) \<le> V3_MAX_FUNCTIONS \<and>
    length (bo_assets d) + sum_list (map function_file_count (bo_functions d)) \<le> V3_MAX_FILES \<and>
    json_nodes (bo_config d) + sum_list (map function_nodes (bo_functions d)) \<le> V3_MAX_JSON_NODES \<and>
    json_depth (bo_config d) \<le> V3_MAX_DEPTH \<and>
    sorted_wrt (<) (bo_assets d) \<and> list_all portable (bo_assets d) \<and>
    sorted_wrt (<) (map bf_name (bo_functions d)) \<and> list_all function_ok (bo_functions d)"
  by (rule validated_facts [OF assms])

section \<open>The output index\<close>

lemma insert_targets_ok:
  "insert_targets ts outs = Inr outs' \<Longrightarrow>
     (\<forall>(p, t) \<in> set ts. \<exists>k. normalize_public p = Inr k) \<and>
     (\<forall>k t. tget outs' k = Some t \<longleftrightarrow> tget outs k = Some t \<or> (\<exists>p. (p, t) \<in> set ts \<and> normalize_public p = Inr k))"
proof (induction ts outs rule: insert_targets.induct)
  case (2 p t ts outs)
  obtain q where q: "normalize_public p = Inr q" "tget outs q = None" "insert_targets ts (tput q t outs) = Inr outs'"
    using "2.prems" by (auto simp: insert_target_def split: sum.splits if_splits)
  then have i: "insert_target p t outs = Inr (tput q t outs)" by (simp add: insert_target_def)
  note ih = "2.IH" [OF i q(3)]
  have "tget outs' k = Some u \<longleftrightarrow> tget outs k = Some u \<or> (\<exists>r. (r, u) \<in> set ((p, t) # ts) \<and> normalize_public r = Inr k)" for k u
    using ih q(1,2) by (cases "k = q") auto
  then show ?case using ih q(1) by auto
qed simp

lemma add_assets_ok:
  "add_assets ovs as outs = Inr outs' \<Longrightarrow>
     (\<forall>a \<in> set as. \<exists>ts. asset_targets ovs a = Inr ts \<and> (\<forall>(p, t) \<in> set ts. \<exists>k. normalize_public p = Inr k)) \<and>
     (\<forall>k t. tget outs' k = Some t \<longleftrightarrow> tget outs k = Some t \<or>
        (\<exists>a \<in> set as. \<exists>ts p. asset_targets ovs a = Inr ts \<and> (p, t) \<in> set ts \<and> normalize_public p = Inr k))"
proof (induction ovs as outs rule: add_assets.induct)
  case (2 ovs a as outs)
  obtain ts o1 where t: "asset_targets ovs a = Inr ts" "insert_targets ts outs = Inr o1" "add_assets ovs as o1 = Inr outs'"
    using "2.prems" by (auto split: sum.splits)
  note ih = "2.IH" [OF t(1,2,3)] and it = insert_targets_ok [OF t(2)]
  have "tget outs' k = Some u \<longleftrightarrow> tget outs k = Some u \<or>
        (\<exists>b \<in> set (a # as). \<exists>ts p. asset_targets ovs b = Inr ts \<and> (p, u) \<in> set ts \<and> normalize_public p = Inr k)" for k u
    using ih it t(1) by auto
  then show ?case using ih it t(1) by auto
qed simp

text \<open>The public paths an asset has, by its override or by its name.\<close>

definition claims :: "(string \<times> bo_override) list \<Rightarrow> string \<Rightarrow> string \<Rightarrow> bool" where
  "claims ovs a k \<longleftrightarrow>
     (case Option.bind (tget ovs a) bv_path of
        Some p \<Rightarrow> normalize_public p = Inr k
      | None \<Rightarrow> k = ''/'' @ a \<or> a = ''index.html'' \<and> k = ''/'' \<or> (\<exists>d. a = d @ ''/index.html'' \<and> k = ''/'' @ d @ ''/''))"

definition asset_target :: "(string \<times> bo_override) list \<Rightarrow> string \<Rightarrow> bo_target" where
  "asset_target ovs a = Target_Static a (Option.bind (tget ovs a) bv_content_type)"

lemma split_on_nonempty: "split_on c s \<noteq> []"
  by (cases s) (auto split: list.splits)

lemma split_on_append_sep: "split_on c (a @ c # b) = split_on c a @ split_on c b"
  by (induction a) (auto split: list.splits simp: split_on_nonempty)

lemma normalize_slash:
  assumes "portable a" and "normalize_public (''/'' @ a) = Inr k"
  shows "k = ''/'' @ a \<and> CHR ''?'' \<notin> set a \<and> CHR ''#'' \<notin> set a"
proof -
  have q: "CHR ''?'' \<notin> set a" "CHR ''#'' \<notin> set a"
    using assms(2) by (auto simp: normalize_public_def first_refusal_None list_ex_iff split: option.splits)
  then have "public_form (''/'' @ a)" using assms(1) by (auto simp: public_form_def)
  then show ?thesis using normalize_public_fixed assms(2) q by fastforce
qed

lemma normalize_directory:
  assumes "portable (d @ ''/index.html'')" and "CHR ''?'' \<notin> set d" and "CHR ''#'' \<notin> set d"
  shows "normalize_public (''/'' @ d @ ''/'') = Inr (''/'' @ d @ ''/'')"
proof -
  have "portable d"
    using assms(1) split_on_append_sep [of "CHR ''/''" d "''index.html''"] by (auto simp: portable_def)
  then show ?thesis using assms(2,3) by (intro normalize_public_fixed) (auto simp: public_form_def)
qed

lemma asset_claims:
  assumes "portable a" and "asset_targets ovs a = Inr ts" and "\<forall>(p, t) \<in> set ts. \<exists>k. normalize_public p = Inr k"
  shows "(\<exists>p. (p, t) \<in> set ts \<and> normalize_public p = Inr k) \<longleftrightarrow> t = asset_target ovs a \<and> claims ovs a k"
proof (cases "Option.bind (tget ovs a) bv_path")
  case (Some p)
  then obtain q where q: "normalize_public p = Inr q" "ts = [(q, asset_target ovs a)]"
    using assms(2) by (auto simp: asset_targets_def asset_target_def Let_def split: sum.splits)
  have "normalize_public q = Inr q" using q(1) normalize_public_form normalize_public_fixed by blast
  then show ?thesis using q Some by (auto simp: claims_def)
next
  case None
  have m: "(''/'' @ a, asset_target ovs a) \<in> set ts"
    using assms(2) None by (auto simp: asset_targets_def asset_target_def Let_def)
  then obtain k0 where "normalize_public (''/'' @ a) = Inr k0" using assms(3) by blast
  note n = normalize_slash [OF assms(1) this]
  have na: "normalize_public (''/'' @ a) = Inr (''/'' @ a)" using n \<open>normalize_public (''/'' @ a) = Inr k0\<close> by simp
  have nr: "normalize_public ''/'' = Inr ''/''" by code_simp
  consider (index) "a = ''index.html''" | (dir) d where "a = d @ ''/index.html''" "a \<noteq> ''index.html''"
    | (plain) "a \<noteq> ''index.html''" "\<nexists>d. a = d @ ''/index.html''" by blast
  then show ?thesis
  proof cases
    case index
    then have "ts = [(''/'' @ a, asset_target ovs a), (''/'', asset_target ovs a)]"
      using assms(2) None by (simp add: asset_targets_def asset_target_def Let_def)
    moreover have "\<nexists>d. a = d @ ''/index.html''"
    proof
      assume "\<exists>d. a = d @ ''/index.html''"
      then show False using arg_cong [OF index, of length] by auto
    qed
    ultimately show ?thesis using na nr index None by (auto simp: claims_def)
  next
    case (dir d)
    have ts: "ts = [(''/'' @ a, asset_target ovs a), (''/'' @ d @ ''/'', asset_target ovs a)]"
      using assms(2) None dir by (auto simp: asset_targets_def asset_target_def Let_def strip_suffix_iff split: option.splits)
        (metis not_None_eq strip_suffix_iff)
    have "normalize_public (''/'' @ d @ ''/'') = Inr (''/'' @ d @ ''/'')"
      using normalize_directory [of d] assms(1) n dir by simp
    then show ?thesis using ts na None dir by (auto simp: claims_def)
  next
    case plain
    then have "strip_suffix ''/index.html'' a = None" by (metis not_None_eq strip_suffix_iff)
    then have "ts = [(''/'' @ a, asset_target ovs a)]"
      using assms(2) None plain by (simp add: asset_targets_def asset_target_def Let_def)
    then show ?thesis using na None plain by (auto simp: claims_def)
  qed
qed

lemma compile_parts:
  assumes "compile_output rx bytes_of d = Inr ev"
  shows "\<exists>c outs. validate bytes_of d = None \<and> config_view d = Inr c \<and> check_capabilities d c = None \<and>
    add_assets (bg_overrides c) (bo_assets d) [] = Inr outs \<and>
    insert_targets (function_targets (bo_functions d)) outs = Inr (ev_outputs ev) \<and>
    compile_routes rx (bg_routes c) = Inr (ev_routes ev)"
  using assms by (auto simp: compile_output_def split: option.splits sum.splits)

lemma output_index:
  assumes "compile_output rx bytes_of d = Inr ev" and "config_view d = Inr c"
  shows "tget (ev_outputs ev) k = Some t \<longleftrightarrow>
    (\<exists>a \<in> set (bo_assets d). t = asset_target (bg_overrides c) a \<and> claims (bg_overrides c) a k) \<or>
    (\<exists>f \<in> set (bo_functions d). t = Target_Function (bf_name f) \<and> k = ''/'' @ bf_name f)"
proof -
  obtain outs where v: "validate bytes_of d = None" and a: "add_assets (bg_overrides c) (bo_assets d) [] = Inr outs"
    and f: "insert_targets (function_targets (bo_functions d)) outs = Inr (ev_outputs ev)"
    using compile_parts [OF assms(1)] assms(2) by (metis sum.inject(2))
  have p: "\<forall>a \<in> set (bo_assets d). portable a" "\<forall>f \<in> set (bo_functions d). portable (bf_name f)"
    using validated_facts [OF v] by (auto simp: list_all_iff function_ok_def)
  note ao = add_assets_ok [OF a] and fo = insert_targets_ok [OF f]
  have assets: "tget outs k = Some t \<longleftrightarrow> (\<exists>a \<in> set (bo_assets d). t = asset_target (bg_overrides c) a \<and> claims (bg_overrides c) a k)"
  proof -
    have "(\<exists>ts p. asset_targets (bg_overrides c) b = Inr ts \<and> (p, t) \<in> set ts \<and> normalize_public p = Inr k) \<longleftrightarrow>
        t = asset_target (bg_overrides c) b \<and> claims (bg_overrides c) b k" if mem: "b \<in> set (bo_assets d)" for b
    proof -
      obtain ts where ts: "asset_targets (bg_overrides c) b = Inr ts" "\<forall>(p, t) \<in> set ts. \<exists>k. normalize_public p = Inr k"
        using bspec [OF conjunct1 [OF ao] mem] by blast
      have "portable b" using p(1) mem by blast
      from asset_claims [OF this ts] show ?thesis using ts(1) by simp
    qed
    moreover have "tget outs k = Some t \<longleftrightarrow> (\<exists>a \<in> set (bo_assets d). \<exists>ts p. asset_targets (bg_overrides c) a = Inr ts \<and> (p, t) \<in> set ts \<and> normalize_public p = Inr k)"
      using spec [OF spec [OF conjunct2 [OF ao], of k], of t] unfolding map_of.simps by blast
    ultimately show ?thesis by blast
  qed
  have n: "normalize_public (''/'' @ bf_name g) = Inr k \<longleftrightarrow> k = ''/'' @ bf_name g" if mem: "g \<in> set (bo_functions d)" for g
  proof -
    have m: "(''/'' @ bf_name g, Target_Function (bf_name g)) \<in> set (function_targets (bo_functions d))"
      using mem by (auto simp: function_targets_def)
    obtain j where j: "normalize_public (''/'' @ bf_name g) = Inr j" using bspec [OF conjunct1 [OF fo] m] by auto
    have "portable (bf_name g)" using p(2) mem by blast
    from normalize_slash [OF this j] j show ?thesis by auto
  qed
  have fns: "(\<exists>q. (q, t) \<in> set (function_targets (bo_functions d)) \<and> normalize_public q = Inr k) \<longleftrightarrow>
      (\<exists>f \<in> set (bo_functions d). t = Target_Function (bf_name f) \<and> normalize_public (''/'' @ bf_name f) = Inr k)"
    by (auto simp: function_targets_def)
  have "tget (ev_outputs ev) k = Some t \<longleftrightarrow> tget outs k = Some t \<or>
      (\<exists>q. (q, t) \<in> set (function_targets (bo_functions d)) \<and> normalize_public q = Inr k)"
    using spec [OF spec [OF conjunct2 [OF fo], of k], of t] .
  then show ?thesis unfolding fns assets using n by blast
qed

text \<open>The index of a compiled descriptor holds exactly the public paths of its assets (the override, or the name and, for
  an index file, its directory) and of its functions, each with its own target.\<close>

theorem output_index_exact:
  assumes "compile_output rx bytes_of d = Inr ev" and "config_view d = Inr c"
  shows "tget (ev_outputs ev) k = Some t \<longleftrightarrow>
    (\<exists>a \<in> set (bo_assets d). t = asset_target (bg_overrides c) a \<and> claims (bg_overrides c) a k) \<or>
    (\<exists>f \<in> set (bo_functions d). t = Target_Function (bf_name f) \<and> k = ''/'' @ bf_name f)"
  by (rule output_index [OF assms])

text \<open>A small deployment: a page, a function, a header for everything, files first, then the function.\<close>

definition any_path :: route_regex where
  "any_path p = Some (\<lambda>t. t)"

definition demo_engine :: "string \<Rightarrow> route_regex option" where
  "demo_engine source = (if source = ''/(.*)'' then Some any_path else None)"

definition demo_output :: build_output where
  "demo_output = \<lparr>
     bo_config = J_Obj [(''version'', J_Nat 3), (''routes'', J_Arr [
       J_Obj [(''src'', J_Str ''/(.*)''), (''headers'', J_Obj [(''x-frame'', J_Str ''deny'')]), (''continue'', J_Bool True)],
       J_Obj [(''handle'', J_Str ''filesystem'')],
       J_Obj [(''src'', J_Str ''/(.*)''), (''dest'', J_Str ''/render'')]])],
     bo_functions = [\<lparr>bf_name = ''render'', bf_config = J_Obj [(''handler'', J_Str ''index.js''), (''runtime'', J_Str ''nodejs22.x'')],
       bf_prerender = None, bf_files = [''index.js''], bf_prerender_files = []\<rparr>],
     bo_assets = [''docs/index.html'', ''index.html'']\<rparr>"

definition demo_header_route :: bo_route where
  "demo_header_route = \<lparr>br_src = Some ''/(.*)'', br_dest = None, br_headers = [(''x-frame'', ''deny'')], br_status = None,
     br_handle = None, br_cont = True, br_middleware_path = None, br_methods = [], br_extra = []\<rparr>"

definition demo_files_route :: bo_route where
  "demo_files_route = \<lparr>br_src = None, br_dest = None, br_headers = [], br_status = None, br_handle = Some ''filesystem'',
     br_cont = False, br_middleware_path = None, br_methods = [], br_extra = []\<rparr>"

definition demo_render_route :: bo_route where
  "demo_render_route = \<lparr>br_src = Some ''/(.*)'', br_dest = Some ''/render'', br_headers = [], br_status = None,
     br_handle = None, br_cont = False, br_middleware_path = None, br_methods = [], br_extra = []\<rparr>"

definition demo_config :: bo_config where
  "demo_config = \<lparr>bg_version = 3, bg_routes = [demo_header_route, demo_files_route, demo_render_route],
     bg_images = None, bg_wildcard = [], bg_overrides = [], bg_cache = [], bg_framework = None, bg_crons = [], bg_extra = []\<rparr>"

definition demo_evaluator :: evaluator where
  "demo_evaluator = \<lparr>ev_routes = [
     Source_Route \<lparr>sr_source = ''/(.*)'', sr_regex = any_path, sr_dest = None, sr_headers = [(''x-frame'', ''deny'')], sr_status = None,
       sr_cont = True, sr_methods = []\<rparr>,
     Filesystem_Route,
     Source_Route \<lparr>sr_source = ''/(.*)'', sr_regex = any_path, sr_dest = Some ''/render'', sr_headers = [], sr_status = None,
       sr_cont = False, sr_methods = []\<rparr>],
     ev_outputs = [(''/docs/index.html'', Target_Static ''docs/index.html'' None), (''/docs/'', Target_Static ''docs/index.html'' None),
       (''/index.html'', Target_Static ''index.html'' None), (''/'', Target_Static ''index.html'' None), (''/render'', Target_Function ''render'')]\<rparr>"

lemma demo_view: "config_view demo_output = Inr demo_config"
  by code_simp

lemma demo_validates: "validate (\<lambda>d. 700) demo_output = None"
  by code_simp

lemma demo_routes: "compile_routes demo_engine (bg_routes demo_config) = Inr (ev_routes demo_evaluator)"
proof -
  have c: "check_source demo_header_route ''/(.*)'' = None" "check_source demo_render_route ''/(.*)'' = None" by code_simp+
  have "compile_route demo_engine demo_header_route = Inr (ev_routes demo_evaluator ! 0)"
    "compile_route demo_engine demo_render_route = Inr (ev_routes demo_evaluator ! 2)"
    using c by (simp_all add: compile_route_def first_refusal.simps no_extra_def require_def route_methods_def demo_engine_def
      demo_header_route_def demo_render_route_def demo_evaluator_def)
  moreover have "compile_route demo_engine demo_files_route = Inr (ev_routes demo_evaluator ! 1)"
    by (simp add: compile_route_def first_refusal.simps no_extra_def require_def compile_handle_def demo_files_route_def demo_evaluator_def)
  ultimately show ?thesis by (simp add: demo_config_def) (simp add: demo_evaluator_def)
qed

lemma demo_compiles: "compile_output demo_engine (\<lambda>d. 700) demo_output = Inr demo_evaluator"
proof -
  have c: "check_capabilities demo_output demo_config = None" by code_simp
  have o1: "(case add_assets (bg_overrides demo_config) (bo_assets demo_output) [] of
      Inl e \<Rightarrow> False | Inr o1 \<Rightarrow> insert_targets (function_targets (bo_functions demo_output)) o1 = Inr (ev_outputs demo_evaluator))"
    by code_simp
  then obtain o1 where o1: "add_assets (bg_overrides demo_config) (bo_assets demo_output) [] = Inr o1"
    "insert_targets (function_targets (bo_functions demo_output)) o1 = Inr (ev_outputs demo_evaluator)" by (auto split: sum.splits)
  show ?thesis using c o1 by (simp add: compile_output_def demo_validates demo_view demo_routes)
qed

theorem output_index_exact_witness:
  "tget (ev_outputs demo_evaluator) ''/docs/'' = Some (Target_Static ''docs/index.html'' None) \<longleftrightarrow>
    (\<exists>a \<in> set (bo_assets demo_output). Target_Static ''docs/index.html'' None = asset_target (bg_overrides demo_config) a \<and>
       claims (bg_overrides demo_config) a ''/docs/'') \<or>
    (\<exists>f \<in> set (bo_functions demo_output). Target_Static ''docs/index.html'' None = Target_Function (bf_name f) \<and> ''/docs/'' = ''/'' @ bf_name f)"
  using output_index_exact [OF demo_compiles demo_view] by blast

theorem validated_bounded_witness:
  "sorted_wrt (<) [''docs/index.html'', ''index.html''] \<and> portable ''docs/index.html'' \<and> json_depth (bo_config demo_output) \<le> 64"
  using validated_bounded [OF demo_validates] by (simp add: demo_output_def V3_MAX_DEPTH_def)

section \<open>What is served\<close>

definition header_name_ok :: "string \<Rightarrow> bool" where
  "header_name_ok n \<longleftrightarrow> n \<noteq> [] \<and> list_all http_token_byte n \<and> to_lowercase n \<notin> set hop_by_hop"

definition header_value_ok :: "string \<Rightarrow> bool" where
  "header_value_ok v \<longleftrightarrow> \<not> line_break v \<and> CHR 0x00 \<notin> set v \<and> length v \<le> V3_MAX_VALUE_BYTES"

definition rule_ok :: "source_rule \<Rightarrow> bool" where
  "rule_ok r \<longleftrightarrow> (\<forall>(n, v) \<in> set (sr_headers r). header_name_ok n) \<and> (case sr_status r of None \<Rightarrow> True | Some st \<Rightarrow> 200 \<le> st \<and> st \<le> 599)"

definition headers_ok :: "(string, string) table \<Rightarrow> bool" where
  "headers_ok hs \<longleftrightarrow> (\<forall>n v. tget hs n = Some v \<longrightarrow> header_name_ok n \<and> header_value_ok v)"

lemma expand_headers_ok:
  "expand_headers ex ts hs = Inr hs' \<Longrightarrow> \<forall>(n, v) \<in> set ts. header_name_ok n \<Longrightarrow> headers_ok hs \<Longrightarrow> headers_ok hs'"
proof (induction ex ts hs rule: expand_headers.induct)
  case (2 ex name template ts hs)
  have c: "first_refusal [check_text (ex template) ''expanded header'', require (\<not> line_break (ex template)) (Refusal_Invalid ''route header'')] = None"
    and r: "expand_headers ex ts (tput name (ex template) hs) = Inr hs'"
    using "2.prems"(1) by (auto split: option.splits)
  have "header_value_ok (ex template)" using c by (auto simp: first_refusal_None header_value_ok_def text_ok_iff)
  then have "headers_ok (tput name (ex template) hs)" using "2.prems"(2,3) by (auto simp: headers_ok_def)
  then show ?case using "2.IH" [OF c r] "2.prems"(2) by simp
qed simp

definition served_by :: "evaluator \<Rightarrow> bo_target \<Rightarrow> bool" where
  "served_by ev t \<longleftrightarrow> (\<exists>k. tget (ev_outputs ev) k = Some t) \<or> (\<exists>st. t = Target_Response st None \<and> 200 \<le> st \<and> st \<le> 599)"

lemma output_for_served: "output_for ev p = Some t \<Longrightarrow> served_by ev t"
  by (auto simp: output_for_def served_by_def)

lemma run_routes_ok:
  "run_routes ev meth rs path hs matched = Inr r \<Longrightarrow> \<forall>s. Source_Route s \<in> set rs \<longrightarrow> rule_ok s \<Longrightarrow>
     public_form (path_only path) \<Longrightarrow> headers_ok hs \<Longrightarrow>
     (\<forall>t. rs_target r = Some t \<longrightarrow> served_by ev t) \<and> public_form (path_only (rs_path r)) \<and> headers_ok (rs_headers r)"
proof (induction ev meth rs path hs matched rule: run_routes.induct)
  case (1 ev meth path hs matched)
  then show ?case by (auto dest: output_for_served)
next
  case (2 ev meth rs path hs matched)
  then show ?case by (cases "output_for ev path") (auto dest: output_for_served)
next
  case (3 ev meth s rs path hs matched)
  show ?case
  proof (cases "rule_captures s meth path")
    case None
    then show ?thesis using 3 by simp
  next
    case (Some ex)
    obtain hs1 where hs1: "expand_headers ex (sr_headers s) hs = Inr hs1" using "3.prems"(1) Some by (auto split: sum.splits)
    have ro: "rule_ok s" using "3.prems"(2) by simp
    then have h: "headers_ok hs1" using expand_headers_ok [OF hs1] "3.prems"(4) by (simp add: rule_ok_def)
    show ?thesis
    proof (cases "sr_status s")
      case st: (Some st)
      then show ?thesis using "3.prems"(1,3) Some hs1 ro h by (auto simp: rule_ok_def served_by_def)
    next
      case none: None
      obtain p where p: "(case sr_dest s of None \<Rightarrow> Inr path | Some dest \<Rightarrow> normalize_internal (ex dest)) = Inr p"
        using "3.prems"(1) Some hs1 none by (auto split: sum.splits)
      have pf: "public_form (path_only p)"
        using p "3.prems"(3) normalize_internal_form by (auto split: option.splits)
      show ?thesis
      proof (cases "sr_cont s")
        case True
        then have "run_routes ev meth rs p hs1 True = Inr r" using "3.prems"(1) Some hs1 none p by simp
        then show ?thesis using "3.IH"(2) [OF Some hs1 none p True] "3.prems"(2) pf h by simp
      next
        case False
        then have "r = \<lparr>rs_target = output_for ev p, rs_path = p, rs_headers = hs1, rs_matched = True\<rparr>"
          using "3.prems"(1) Some hs1 none p by simp
        then show ?thesis using pf h by (auto dest: output_for_served)
      qed
    qed
  qed
qed

lemma check_headers_names: "check_headers seen hs = None \<Longrightarrow> \<forall>(n, v) \<in> set hs. header_name_ok n"
  by (induction seen hs rule: check_headers.induct)
    (auto simp: check_header_def first_refusal_None header_name_ok_def split: option.splits if_splits)

text \<open>What the compilation of one route keeps of it.\<close>

definition route_kept :: "(string \<Rightarrow> route_regex option) \<Rightarrow> bo_route \<Rightarrow> compiled_route \<Rightarrow> bool" where
  "route_kept rx r c \<longleftrightarrow> br_extra r = [] \<and> br_middleware_path r = None \<and>
     (case c of
        Filesystem_Route \<Rightarrow> br_handle r = Some ''filesystem'' \<and> br_src r = None \<and> br_dest r = None \<and> br_headers r = [] \<and>
          br_status r = None \<and> \<not> br_cont r \<and> br_methods r = []
      | Source_Route s \<Rightarrow> br_handle r = None \<and> br_src r = Some (sr_source s) \<and> rx (sr_source s) = Some (sr_regex s) \<and>
          br_dest r = sr_dest s \<and> br_headers r = sr_headers s \<and> br_status r = sr_status s \<and> br_cont r = sr_cont s \<and>
          to_ascii_uppercase ` set (br_methods r) = set (sr_methods s))"

lemma compile_route_ok:
  assumes "compile_route rx r = Inr c"
  shows "route_kept rx r c \<and> (\<forall>s. c = Source_Route s \<longrightarrow> rule_ok s)"
proof -
  have e: "br_extra r = []" "br_middleware_path r = None"
    using assms by (auto simp: compile_route_def first_refusal_None no_extra_def split: option.splits)
  show ?thesis
  proof (cases "br_handle r")
    case (Some h)
    then have "compile_handle r h = Inr c" using assms by (auto simp: compile_route_def split: option.splits)
    then show ?thesis using Some e by (auto simp: compile_handle_def route_kept_def split: if_splits)
  next
    case None
    obtain source re where s: "br_src r = Some source" "check_source r source = None" "rx source = Some re"
      and c: "c = Source_Route \<lparr>sr_source = source, sr_regex = re, sr_dest = br_dest r, sr_headers = br_headers r,
        sr_status = br_status r, sr_cont = br_cont r, sr_methods = route_methods r\<rparr>"
      using assms None by (auto simp: compile_route_def split: option.splits)
    have k: "route_kept rx r c" using s c e None by (simp add: route_kept_def route_methods_def)
    have "check_headers [] (br_headers r) = None" "check_status r = None"
      using s(2) by (auto simp: check_source_def first_refusal_None ball_Un)
    then show ?thesis using k c check_headers_names
      by (auto simp: rule_ok_def check_status_def first_refusal_None split: option.splits)
  qed
qed

lemma compile_routes_ok:
  "compile_routes rx rs = Inr cs \<Longrightarrow> list_all2 (route_kept rx) rs cs \<and> (\<forall>s. Source_Route s \<in> set cs \<longrightarrow> rule_ok s)"
proof (induction rs arbitrary: cs)
  case (Cons r rs)
  then obtain c cs' where "compile_route rx r = Inr c" "compile_routes rx rs = Inr cs'" "cs = c # cs'"
    by (auto split: sum.splits)
  then show ?case using Cons.IH compile_route_ok by auto
qed simp

lemma resolved:
  assumes "compile_output rx bytes_of d = Inr ev" and "resolve_output ev meth path = Inr r"
  shows "(\<forall>t. rs_target r = Some t \<longrightarrow> served_by ev t) \<and> public_form (path_only (rs_path r)) \<and> headers_ok (rs_headers r)"
proof -
  obtain c :: bo_config where "compile_routes rx (bg_routes c) = Inr (ev_routes ev)" using compile_parts [OF assms(1)] by blast
  then have rules: "\<forall>s. Source_Route s \<in> set (ev_routes ev) \<longrightarrow> rule_ok s" using compile_routes_ok by blast
  obtain p where p: "normalize_internal path = Inr p" "run_routes ev (to_ascii_uppercase meth) (ev_routes ev) p [] False = Inr r"
    using assms(2) by (auto simp: resolve_output_def split: sum.splits)
  show ?thesis by (rule run_routes_ok [OF p(2) rules normalize_internal_form [OF p(1)]]) (simp add: headers_ok_def)
qed

text \<open>C31: Whatever the request, a resolution names only the inventory of the descriptor: a static file is one of its assets, by a
  portable path without dot segments, a function is one of its functions, a response has a status from 200 to
  599 and no location; and the rewritten path is absolute and free of dot segments.\<close>

theorem served_from_inventory:
  assumes "compile_output rx bytes_of d = Inr ev" and "resolve_output ev meth path = Inr r"
  shows "(case rs_target r of
            Some (Target_Static a ct) \<Rightarrow> a \<in> set (bo_assets d) \<and> portable a
          | Some (Target_Function n) \<Rightarrow> n \<in> bf_name ` set (bo_functions d)
          | Some (Target_Response st loc) \<Rightarrow> 200 \<le> st \<and> st \<le> 599 \<and> loc = None
          | None \<Rightarrow> True) \<and> public_form (path_only (rs_path r))"
proof -
  obtain c :: bo_config where c: "validate bytes_of d = None" "config_view d = Inr c" using compile_parts [OF assms(1)] by blast
  note res = resolved [OF assms] and port = validated_facts [OF c(1)]
  show ?thesis
  proof (cases "rs_target r")
    case (Some t)
    then have "served_by ev t" using res by blast
    then show ?thesis unfolding served_by_def
    proof
      assume "\<exists>k. tget (ev_outputs ev) k = Some t"
      then show ?thesis using output_index [OF assms(1) c(2)] Some res port by (auto simp: asset_target_def list_all_iff)
    qed (use Some res in auto)
  qed (use res in simp)
qed

theorem served_from_inventory_witness:
  "\<exists>r. resolve_output demo_evaluator ''get'' ''/docs/'' = Inr r \<and> rs_target r = Some (Target_Static ''docs/index.html'' None) \<and>
     portable ''docs/index.html''"
proof -
  have r: "resolve_output demo_evaluator ''get'' ''/docs/'' = Inr \<lparr>rs_target = Some (Target_Static ''docs/index.html'' None),
    rs_path = ''/docs/'', rs_headers = [(''x-frame'', ''deny'')], rs_matched = True\<rparr>" by code_simp
  show ?thesis using served_from_inventory [OF demo_compiles r] r by simp
qed

text \<open>No header of a resolution can split the response or change its framing: names are HTTP tokens and not hop by hop, values,
  captured text included, hold no line break and no NUL and are bounded.\<close>

theorem headers_cannot_split:
  assumes "compile_output rx bytes_of d = Inr ev" and "resolve_output ev meth path = Inr r" and "tget (rs_headers r) n = Some v"
  shows "n \<noteq> [] \<and> list_all http_token_byte n \<and> to_lowercase n \<notin> set hop_by_hop \<and>
    CHR 0x0D \<notin> set v \<and> CHR 0x0A \<notin> set v \<and> CHR 0x00 \<notin> set v \<and> length v \<le> V3_MAX_VALUE_BYTES"
proof -
  have h: "headers_ok (rs_headers r)" using resolved [OF assms(1,2)] by blast
  have "header_name_ok n \<and> header_value_ok v" using h assms(3) unfolding headers_ok_def by blast
  then show ?thesis by (auto simp: header_name_ok_def header_value_ok_def line_break_def list_ex_iff)
qed

theorem headers_cannot_split_witness:
  "\<exists>r. resolve_output demo_evaluator ''get'' ''/a'' = Inr r \<and> tget (rs_headers r) ''x-frame'' = Some ''deny'' \<and> CHR 0x0D \<notin> set ''deny''"
proof -
  have r: "resolve_output demo_evaluator ''get'' ''/a'' = Inr \<lparr>rs_target = Some (Target_Function ''render''),
    rs_path = ''/render'', rs_headers = [(''x-frame'', ''deny'')], rs_matched = True\<rparr>" by code_simp
  show ?thesis using headers_cannot_split [OF demo_compiles r, of "''x-frame''" "''deny''"] r by simp
qed

text \<open>What is understood of a configuration, read off its JSON: the fields of each object in it.\<close>

definition only_fields :: "string list \<Rightarrow> json \<Rightarrow> bool" where
  "only_fields known v = (case as_object v of None \<Rightarrow> False | Some fs \<Rightarrow> list_all (\<lambda>(k, w). k \<in> set known) fs)"

fun members :: "json option \<Rightarrow> json list" where
  "members (Some (J_Arr vs)) = vs"
| "members (Some (J_Obj fs)) = map snd fs"
| "members v = []"

definition images_known :: "json \<Rightarrow> bool" where
  "images_known v \<longleftrightarrow>
     only_fields [''sizes'', ''domains'', ''remotePatterns'', ''localPatterns'', ''qualities'', ''minimumCacheTTL'', ''formats'',
       ''dangerouslyAllowSVG'', ''contentSecurityPolicy'', ''contentDispositionType''] v \<and>
     list_all (only_fields [''protocol'', ''hostname'', ''port'', ''pathname'', ''search'']) (members (json_get v ''remotePatterns'')) \<and>
     list_all (only_fields [''pathname'', ''search'']) (members (json_get v ''localPatterns''))"

definition config_known :: "json \<Rightarrow> bool" where
  "config_known v \<longleftrightarrow>
     only_fields [''version'', ''routes'', ''images'', ''wildcard'', ''overrides'', ''cache'', ''framework'', ''crons''] v \<and>
     list_all (only_fields [''src'', ''dest'', ''headers'', ''status'', ''handle'', ''continue'', ''middlewarePath'', ''methods''])
       (members (json_get v ''routes'')) \<and>
     list_all (only_fields [''contentType'', ''path'']) (members (json_get v ''overrides'')) \<and>
     list_all (only_fields [''path'', ''schedule'']) (members (json_get v ''crons'')) \<and>
     (case json_get v ''images'' of None \<Rightarrow> True | Some im \<Rightarrow> im = J_Null \<or> images_known im)"

lemma rest_only: "as_object v = Some fs \<Longrightarrow> de_rest known fs = [] \<longleftrightarrow> only_fields known v"
  by (auto simp: de_rest_def only_fields_def filter_empty_conv list_all_iff)

lemma those_all: "those (map dec vs) = Some xs \<Longrightarrow> (\<And>v x. v \<in> set vs \<Longrightarrow> dec v = Some x \<Longrightarrow> Q x \<Longrightarrow> P v) \<Longrightarrow> list_all Q xs \<Longrightarrow> list_all P vs"
proof (induction vs arbitrary: xs)
  case (Cons v vs)
  then obtain x ys where x: "dec v = Some x" "those (map dec vs) = Some ys" "xs = x # ys" by (auto split: option.splits)
  then show ?case using Cons.IH [OF x(2)] Cons.prems by auto
qed simp

lemma list_members:
  assumes "de_default fs key d (de_list dec) = Some xs" and "\<And>v x. dec v = Some x \<Longrightarrow> Q x \<Longrightarrow> P v" and "list_all Q xs"
    and "as_object v = Some fs"
  shows "list_all P (members (json_get v key))"
proof (cases "tget fs key")
  case (Some w)
  then obtain vs where w: "w = J_Arr vs" "those (map dec vs) = Some xs"
    using assms(1) by (cases w) (auto simp: de_default_def de_list_def Option.bind_eq_Some_conv)
  have "list_all P vs" using those_all [OF w(2) _ assms(3), of P] assms(2) by blast
  then show ?thesis using Some w(1) assms(4) by (simp add: json_get_def)
qed (simp add: json_get_def assms(4))

lemma option_list_members:
  assumes "de_default fs key None (de_option (de_list dec)) = Some xs" and "\<And>v x. dec v = Some x \<Longrightarrow> Q x \<Longrightarrow> P v"
    and "case xs of None \<Rightarrow> True | Some ys \<Rightarrow> list_all Q ys" and "as_object v = Some fs"
  shows "list_all P (members (json_get v key))"
proof (cases "tget fs key = None \<or> tget fs key = Some J_Null")
  case False
  then obtain w where w: "tget fs key = Some w" "w \<noteq> J_Null" by auto
  then obtain ys where ys: "xs = Some ys" "de_list dec w = Some ys" using assms(1) by (auto simp: de_default_def de_option_def)
  have "de_default fs key [] (de_list dec) = Some ys" using w(1) ys(2) by (simp add: de_default_def)
  then show ?thesis using list_members assms(2-4) ys(1) by (metis option.simps(5))
qed (auto simp: json_get_def assms(4))

lemma map_members:
  assumes "de_default fs key [] (de_map dec) = Some xs" and "\<And>v x. dec v = Some x \<Longrightarrow> Q x \<Longrightarrow> P v"
    and "list_all (\<lambda>(k, x). Q x) xs" and "as_object v = Some fs"
  shows "list_all P (members (json_get v key))"
proof (cases "tget fs key")
  case (Some w)
  then obtain ws where w: "w = J_Obj ws" "those (map (\<lambda>(k, w). map_option (Pair k) (dec w)) ws) = Some xs"
    using assms(1) by (cases w) (auto simp: de_default_def de_map_def Option.bind_eq_Some_conv)
  have "list_all (\<lambda>(k, w). P w) ws" using those_all [OF w(2) _ assms(3), of "\<lambda>(k, w). P w"] assms(2) by (auto split: prod.splits)
  then show ?thesis using Some w(1) assms(4) by (auto simp: json_get_def list_all_iff)
qed (simp add: json_get_def assms(4))

lemma known_parts:
  "de_route v = Some r \<Longrightarrow> br_extra r = [] \<Longrightarrow>
     only_fields [''src'', ''dest'', ''headers'', ''status'', ''handle'', ''continue'', ''middlewarePath'', ''methods''] v"
  "de_override v = Some ov \<Longrightarrow> bv_extra ov = [] \<Longrightarrow> only_fields [''contentType'', ''path''] v"
  "de_cron v = Some cr \<Longrightarrow> bc_extra cr = [] \<Longrightarrow> only_fields [''path'', ''schedule''] v"
  "de_remote v = Some p \<Longrightarrow> bp_extra p = [] \<Longrightarrow> only_fields [''protocol'', ''hostname'', ''port'', ''pathname'', ''search''] v"
  "de_local v = Some l \<Longrightarrow> bl_extra l = [] \<Longrightarrow> only_fields [''pathname'', ''search''] v"
  by (auto simp: de_route_def de_override_def de_cron_def de_remote_def de_local_def Option.bind_eq_Some_conv rest_only)

lemma known_images:
  assumes "de_images v = Some im" and "check_image_extras im = None"
  shows "images_known v"
proof -
  obtain fs where fs: "as_object v = Some fs" "de_default fs ''remotePatterns'' [] (de_list de_remote) = Some (bi_remote_patterns im)"
    "de_default fs ''localPatterns'' None (de_option (de_list de_local)) = Some (bi_local_patterns im)"
    "bi_extra im = de_rest [''sizes'', ''domains'', ''remotePatterns'', ''localPatterns'', ''qualities'', ''minimumCacheTTL'', ''formats'',
       ''dangerouslyAllowSVG'', ''contentSecurityPolicy'', ''contentDispositionType''] fs"
    using assms(1) by (auto simp: de_images_def Option.bind_eq_Some_conv)
  have x: "bi_extra im = []" "list_all (\<lambda>p. bp_extra p = []) (bi_remote_patterns im)"
    "case bi_local_patterns im of None \<Rightarrow> True | Some ps \<Rightarrow> list_all (\<lambda>p. bl_extra p = []) ps"
    using assms(2) by (cases "bi_local_patterns im"; simp add: check_image_extras_def first_refusal_None no_extra_def list_all_iff ball_Un)+
  show ?thesis unfolding images_known_def
    using x(1) fs(4) rest_only [OF fs(1)] list_members [OF fs(2) known_parts(4) x(2) fs(1)]
      option_list_members [OF fs(3) known_parts(5) x(3) fs(1)] by simp
qed

text \<open>C32: Compilation ignores nothing it does not understand: in the JSON of the configuration every field is known, and so is every
  field of its routes, its overrides, its crons, its image configuration and the remote and local patterns in it; there is no domain
  wildcard and no prerendered function, overrides name assets, and the compiled routes are the configured ones,
  one for one and in order, with all their fields. (The values of \<open>cache\<close> and \<open>framework\<close> are known fields that nothing reads.)\<close>

theorem nothing_ignored:
  assumes "compile_output rx bytes_of d = Inr ev"
  shows "\<exists>c. config_view d = Inr c \<and> config_known (bo_config d) \<and>
    bg_version c = 3 \<and> bg_wildcard c = [] \<and> list_all (\<lambda>f. bf_prerender f = None) (bo_functions d) \<and>
    list_all (\<lambda>(a, ov). a \<in> set (bo_assets d)) (bg_overrides c) \<and>
    list_all2 (route_kept rx) (bg_routes c) (ev_routes ev)"
proof -
  obtain c where c: "validate bytes_of d = None" "config_view d = Inr c" "check_capabilities d c = None"
    "compile_routes rx (bg_routes c) = Inr (ev_routes ev)" using compile_parts [OF assms] by blast
  obtain fs where fs: "as_object (bo_config d) = Some fs" "de_default fs ''routes'' [] (de_list de_route) = Some (bg_routes c)"
    "de_default fs ''overrides'' [] (de_map de_override) = Some (bg_overrides c)"
    "de_default fs ''images'' None (de_option de_images) = Some (bg_images c)"
    "de_default fs ''crons'' [] (de_list de_cron) = Some (bg_crons c)"
    and ex: "bg_extra c = de_rest [''version'', ''routes'', ''images'', ''wildcard'', ''overrides'', ''cache'', ''framework'', ''crons''] fs"
    using c(2) by (auto simp: config_view_def de_config_def Option.bind_eq_Some_conv split: option.splits)
  have v: "check_config c = None" using validate_parts [OF c(1)] c(2) by (metis sum.inject(2))
  have cap: "bg_extra c = []" "bg_wildcard c = []" "\<forall>f \<in> set (bo_functions d). bf_prerender f = None"
    "\<forall>w \<in> set (bg_overrides c). check_override (bo_assets d) w = None" "\<forall>cr \<in> set (bg_crons c). check_cron cr = None"
    and im: "\<And>im. bg_images c = Some im \<Longrightarrow> check_image_extras im = None"
    using c(3) by (simp_all add: check_capabilities_def first_refusal_None no_extra_def ball_Un list_ex_iff)
  have rk: "list_all2 (route_kept rx) (bg_routes c) (ev_routes ev)" using compile_routes_ok [OF c(4)] by blast
  have rt: "list_all (\<lambda>r. br_extra r = []) (bg_routes c)"
    using rk by (auto simp: list_all2_conv_all_nth list_all_length route_kept_def)
  have ov: "list_all (\<lambda>(a, ov). bv_extra ov = []) (bg_overrides c)" "list_all (\<lambda>(a, ov). a \<in> set (bo_assets d)) (bg_overrides c)"
    using cap(4) by (auto simp: list_all_iff check_override_def first_refusal_None no_extra_def)
  have cr: "list_all (\<lambda>cr. bc_extra cr = []) (bg_crons c)"
    using cap(5) by (auto simp: list_all_iff check_cron_def first_refusal_None no_extra_def)
  have imgs: "case json_get (bo_config d) ''images'' of None \<Rightarrow> True | Some im \<Rightarrow> im = J_Null \<or> images_known im"
  proof (cases "tget fs ''images'' = None \<or> tget fs ''images'' = Some J_Null")
    case False
    then obtain w where w: "tget fs ''images'' = Some w" "w \<noteq> J_Null" by auto
    then obtain i where i: "de_images w = Some i" "bg_images c = Some i" using fs(4) by (cases "bg_images c") (auto simp: de_default_def de_option_def)
    show ?thesis using w(1) fs(1) known_images [OF i(1) im [OF i(2)]] by (simp add: json_get_def)
  qed (auto simp: json_get_def fs(1))
  have known: "config_known (bo_config d)" unfolding config_known_def
    using cap(1) ex rest_only [OF fs(1)] list_members [OF fs(2) known_parts(1) rt fs(1)] map_members [OF fs(3) known_parts(2) ov(1) fs(1)]
      list_members [OF fs(5) known_parts(3) cr fs(1)] imgs by simp
  have "bg_version c = 3" using v by (simp add: check_config_def first_refusal_None V3_VERSION_def)
  then show ?thesis using c(2) known cap(2,3) ov(2) rk by (auto simp: list_all_iff)
qed

theorem nothing_ignored_witness:
  "\<exists>c. config_view demo_output = Inr c \<and> list_all2 (route_kept demo_engine) (bg_routes c) (ev_routes demo_evaluator)"
  using nothing_ignored [OF demo_compiles] by blast

text \<open>Two outputs never share a public path: a descriptor in which two assets claim one path, or an asset the path of a
  function, is refused.\<close>

theorem output_conflict_refused:
  assumes "config_view d = Inr c" and "a \<in> set (bo_assets d)" and "claims (bg_overrides c) a k"
    and "(\<exists>b \<in> set (bo_assets d). a \<noteq> b \<and> claims (bg_overrides c) b k) \<or> (\<exists>f \<in> set (bo_functions d). k = ''/'' @ bf_name f)"
  shows "\<exists>refusal. compile_output rx bytes_of d = Inl refusal"
proof (rule ccontr)
  assume "\<nexists>refusal. compile_output rx bytes_of d = Inl refusal"
  then obtain ev where ev: "compile_output rx bytes_of d = Inr ev" by (metis sumE)
  note ix = output_index [OF ev assms(1)]
  have a: "tget (ev_outputs ev) k = Some (asset_target (bg_overrides c) a)" using ix assms(2,3) by blast
  show False using assms(4)
  proof
    assume "\<exists>b \<in> set (bo_assets d). a \<noteq> b \<and> claims (bg_overrides c) b k"
    then obtain b where b: "b \<in> set (bo_assets d)" "a \<noteq> b" "claims (bg_overrides c) b k" by blast
    then have "tget (ev_outputs ev) k = Some (asset_target (bg_overrides c) b)"
      using ix [of k "asset_target (bg_overrides c) b"] by blast
    then show False using a b(2) by (simp add: asset_target_def)
  next
    assume "\<exists>f \<in> set (bo_functions d). k = ''/'' @ bf_name f"
    then obtain f where f: "f \<in> set (bo_functions d)" "k = ''/'' @ bf_name f" by blast
    then have "tget (ev_outputs ev) k = Some (Target_Function (bf_name f))"
      using ix [of k "Target_Function (bf_name f)"] by blast
    then show False using a by (simp add: asset_target_def)
  qed
qed

definition conflict_output :: build_output where
  "conflict_output = demo_output\<lparr>bo_assets := [''index.html'', ''render'']\<rparr>"

theorem output_conflict_refused_witness:
  "\<exists>refusal. compile_output demo_engine (\<lambda>d. 700) conflict_output = Inl refusal"
proof -
  have v: "config_view conflict_output = Inr demo_config" using demo_view by (simp add: conflict_output_def config_view_def)
  have a: "''render'' \<in> set (bo_assets conflict_output)" by code_simp
  have c: "claims (bg_overrides demo_config) ''render'' ''/render''" by (simp add: claims_def demo_config_def)
  have f: "\<exists>f \<in> set (bo_functions conflict_output). ''/render'' = ''/'' @ bf_name f" by (simp add: conflict_output_def demo_output_def)
  show ?thesis using output_conflict_refused [OF v a c] f by blast
qed

text \<open>Header names are compared without case within one route, but not across the routes a request runs through.\<close>

lemma header_case_duplicates:
  "run_routes \<lparr>ev_routes = [], ev_outputs = []\<rparr> ''GET''
     [Source_Route \<lparr>sr_source = ''/(.*)'', sr_regex = any_path, sr_dest = None, sr_headers = [(''X-Frame'', ''deny'')], sr_status = None,
       sr_cont = True, sr_methods = []\<rparr>,
      Source_Route \<lparr>sr_source = ''/(.*)'', sr_regex = any_path, sr_dest = None, sr_headers = [(''x-frame'', ''allow'')], sr_status = None,
       sr_cont = True, sr_methods = []\<rparr>] ''/'' [] False =
   Inr \<lparr>rs_target = None, rs_path = ''/'', rs_headers = [(''X-Frame'', ''deny''), (''x-frame'', ''allow'')], rs_matched = True\<rparr>"
  by code_simp

end
