(* ===== verification/Gateway_Registry.thy ===== *)
theory Gateway_Registry
  imports Fluid_Pool Build_Output
begin

text \<open>
  The deployment registry of the gateway (\<open>crates/fluid-gateway/src/lib.rs\<close>): the state behind its mutex, the
  operations that stage, publish, promote, restore and remove deployments and attach custom domains, and the
  resolution of hosts. Every operation is one critical section; the removals, which wait for Fluid in
  between, are two. Identifiers, the clock, the answer of Fluid to a registration and whether a static root
  opens are arguments. A deployment keeps what the registry looks at; incarnations are numbers, and text is ASCII.
\<close>

section \<open>Records\<close>

datatype deploy_state = Ds_Queued | Ds_Building | Ds_Ready | Ds_Error | Ds_Cancelled

record git_source =
  gt_repo_url :: string
  gt_branch :: string
  gt_commit :: string
  gt_message :: string

definition is_real_git :: "git_source \<Rightarrow> bool" where
  "is_real_git g \<longleftrightarrow> \<not> starts_with ''upload://'' (gt_repo_url g) \<and> \<not> starts_with ''img://'' (gt_repo_url g)"

type_synonym deployment_id = string
type_synonym incarnation = nat

record gw_deployment =
  gd_id :: deployment_id
  gd_project :: string
  gd_incarnation :: "incarnation option"
  gd_root :: string
  gd_workdir :: "string option"
  gd_functions :: "(string \<times> fn_config) list"
  gd_image :: "string option"
  gd_created :: nat
  gd_state :: deploy_state
  gd_creator :: string
  gd_git :: "git_source option"
  gd_production :: bool
  gd_target :: string
  gd_tenant :: string

datatype v3_state = V3_Ready evaluator | V3_Refused refusal

definition v3_refused :: "v3_state option \<Rightarrow> bool" where
  "v3_refused v \<longleftrightarrow> (case v of Some (V3_Refused r) \<Rightarrow> True | _ \<Rightarrow> False)"

text \<open>\<open>gs_roots\<close> are the open static roots, by the path they were opened at.\<close>

record gw_state =
  gs_accepting :: bool
  gs_deployments :: "(deployment_id, gw_deployment) table"
  gs_roots :: "(deployment_id, string) table"
  gs_aliases :: "(string, deployment_id) table"
  gs_aliases_full :: "(string, deployment_id) table"
  gs_v3 :: "(deployment_id, v3_state) table"
  gs_default :: "deployment_id option"

definition gw_new :: gw_state where
  "gw_new = \<lparr>gs_accepting = True, gs_deployments = [], gs_roots = [], gs_aliases = [], gs_aliases_full = [], gs_v3 = [], gs_default = None\<rparr>"

section \<open>Labels\<close>

definition join_with :: "string \<Rightarrow> string list \<Rightarrow> string" where
  "join_with sep ws = (case ws of [] \<Rightarrow> [] | w # r \<Rightarrow> w @ concat (map (\<lambda>x. sep @ x) r))"

definition slug :: "string \<Rightarrow> string" where
  "slug s = join_with ''-'' (filter (\<lambda>p. p \<noteq> [])
     (split_on CHR ''-'' (map (\<lambda>c. if alnum c then ascii_lower c else CHR ''-'') s)))"

definition commit_alias :: "string \<Rightarrow> string \<Rightarrow> string" where
  "commit_alias project commit = slug project @ ''-'' @ slug (take 7 commit)"

definition branch_alias :: "string \<Rightarrow> string \<Rightarrow> string" where
  "branch_alias project branch = slug project @ ''-git-'' @ slug branch"

section \<open>Aliases\<close>

definition rank :: "gw_deployment \<Rightarrow> bool \<times> nat" where
  "rank d = (gd_production d, gd_created d)"

definition set_alias_if_newer :: "string \<Rightarrow> deployment_id \<Rightarrow> gw_state \<Rightarrow> gw_state" where
  "set_alias_if_newer key did st =
     (case tget (gs_deployments st) did of
        None \<Rightarrow> st
      | Some cand \<Rightarrow>
          (case Option.bind (tget (gs_aliases st) key) (tget (gs_deployments st)) of
             None \<Rightarrow> st\<lparr>gs_aliases := tput key did (gs_aliases st)\<rparr>
           | Some ex \<Rightarrow> if rank ex < rank cand then st\<lparr>gs_aliases := tput key did (gs_aliases st)\<rparr> else st))"

definition insert_deploy_aliases :: "deployment_id \<Rightarrow> gw_state \<Rightarrow> gw_state" where
  "insert_deploy_aliases did st0 =
     (let st = st0\<lparr>gs_aliases := tput did did (gs_aliases st0)\<rparr>
      in case tget (gs_deployments st) did of
           None \<Rightarrow> st
         | Some d \<Rightarrow>
             (case gd_git d of
                None \<Rightarrow> st
              | Some g \<Rightarrow>
                  let st1 = (if gt_commit g \<noteq> [] then set_alias_if_newer (commit_alias (gd_project d) (gt_commit g)) did st else st)
                  in if gt_branch g \<noteq> [] then set_alias_if_newer (branch_alias (gd_project d) (gt_branch g)) did st1 else st1))"

text \<open>Custom domains follow the production deployment: those of \<open>old\<close> move to \<open>new\<close>.\<close>

definition follow :: "deployment_id option \<Rightarrow> deployment_id \<Rightarrow> (string, deployment_id) table \<Rightarrow> (string, deployment_id) table" where
  "follow old new m = (case old of None \<Rightarrow> m | Some cur \<Rightarrow> if cur = new then m else map (\<lambda>(k, v). (k, if v = cur then new else v)) m)"

text \<open>The target of the project alias, when it belongs to the incarnation asked for.\<close>

definition old_production :: "gw_state \<Rightarrow> string \<Rightarrow> incarnation option \<Rightarrow> deployment_id option" where
  "old_production st project inc =
     (case tget (gs_aliases st) project of
        None \<Rightarrow> None
      | Some cur \<Rightarrow>
          (case inc of
             None \<Rightarrow> Some cur
           | Some i \<Rightarrow> (case tget (gs_deployments st) cur of
                          Some d \<Rightarrow> if gd_incarnation d = Some i then Some cur else None
                        | None \<Rightarrow> None)))"

section \<open>Deploying\<close>

record deploy_args =
  da_root :: string
  da_workdir :: "string option"
  da_project :: string
  da_functions :: "(string \<times> fn_config) list"
  da_image :: "string option"
  da_v3 :: "v3_state option"
  da_creator :: string
  da_git :: "git_source option"
  da_production :: bool
  da_state :: deploy_state
  da_tenant :: string
  da_incarnation :: "incarnation option"
  da_publish :: bool

text \<open>What the environment answers: a fresh identifier, the clock, the directory a function launches from, whether Fluid accepts
  the pools, and whether the static root opens.\<close>

record deploy_env =
  de_id :: deployment_id
  de_now :: nat
  de_launch_dir :: "string \<Rightarrow> fn_config \<Rightarrow> string"
  de_register :: "pool_spec list \<Rightarrow> bool"
  de_root_opens :: bool
  de_image :: string

definition pool_specs :: "deploy_env \<Rightarrow> deployment_id \<Rightarrow> string \<Rightarrow> string option \<Rightarrow> string \<Rightarrow> (string \<times> fn_config) list \<Rightarrow> pool_spec list" where
  "pool_specs env did tenant img workdir fns =
     map (\<lambda>(name, f). \<lparr>ps_key = func_key did name, ps_cfg = f, ps_image = (case img of Some i \<Rightarrow> i | None \<Rightarrow> de_image env),
       ps_workdir = de_launch_dir env workdir f, ps_tenant = tenant\<rparr>) fns"

definition provisioned_state ::
    "deploy_env \<Rightarrow> (deploy_state \<Rightarrow> bool) \<Rightarrow> v3_state option \<Rightarrow> string option \<Rightarrow> pool_spec list \<Rightarrow> deploy_state \<Rightarrow> deploy_state" where
  "provisioned_state env eligible v3 workdir specs s =
     (if v3_refused v3 then Ds_Error
      else if \<not> eligible s then s
      else (case workdir of
              Some w \<Rightarrow> if de_register env specs then s else Ds_Error
            | None \<Rightarrow> if specs \<noteq> [] then Ds_Error else s))"

definition deploy_record :: "deploy_env \<Rightarrow> deploy_args \<Rightarrow> gw_deployment" where
  "deploy_record env a =
     (let tenant = (if trim (da_tenant a) = [] then ''personal'' else da_tenant a);
          specs = pool_specs env (de_id env) tenant (da_image a) (case da_workdir a of Some w \<Rightarrow> w | None \<Rightarrow> []) (da_functions a);
          s = provisioned_state env (\<lambda>s. s = Ds_Building \<or> s = Ds_Ready) (da_v3 a) (da_workdir a) specs (da_state a)
      in \<lparr>gd_id = de_id env, gd_project = da_project a, gd_incarnation = da_incarnation a, gd_root = da_root a,
          gd_workdir = da_workdir a, gd_functions = da_functions a, gd_image = da_image a, gd_created = de_now env, gd_state = s,
          gd_creator = da_creator a, gd_git = da_git a, gd_production = (da_production a \<and> da_publish a \<and> s = Ds_Ready),
          gd_target = (if da_production a then ''production'' else ''preview''), gd_tenant = tenant\<rparr>)"

definition has_production :: "gw_state \<Rightarrow> deployment_id \<Rightarrow> (gw_deployment \<Rightarrow> bool) \<Rightarrow> string \<Rightarrow> bool" where
  "has_production st did same project \<longleftrightarrow>
     list_ex (\<lambda>(k, d). gd_project d = project \<and> gd_production d \<and> gd_state d = Ds_Ready \<and> gd_id d \<noteq> did \<and> same d) (gs_deployments st)"

definition scoped :: "incarnation option \<Rightarrow> gw_deployment \<Rightarrow> bool" where
  "scoped inc d \<longleftrightarrow> (case inc of None \<Rightarrow> True | Some i \<Rightarrow> gd_incarnation d = Some i)"

definition map_deployments :: "(gw_deployment \<Rightarrow> gw_deployment) \<Rightarrow> gw_state \<Rightarrow> gw_state" where
  "map_deployments f st = st\<lparr>gs_deployments := map (\<lambda>(k, d). (k, f d)) (gs_deployments st)\<rparr>"

definition keep_handles :: "deploy_env \<Rightarrow> deployment_id \<Rightarrow> string \<Rightarrow> v3_state option \<Rightarrow> gw_state \<Rightarrow> gw_state" where
  "keep_handles env did root_dir v3 st =
     (let st1 = (if de_root_opens env then st\<lparr>gs_roots := tput did root_dir (gs_roots st)\<rparr> else st)
      in case v3 of Some v \<Rightarrow> st1\<lparr>gs_v3 := tput did v (gs_v3 st1)\<rparr> | None \<Rightarrow> st1)"

text \<open>The project alias moves to \<open>did\<close>, and the custom domains of its predecessor with it.\<close>

definition take_over :: "string \<Rightarrow> deployment_id \<Rightarrow> deployment_id option \<Rightarrow> gw_state \<Rightarrow> gw_state" where
  "take_over project did old st =
     st\<lparr>gs_aliases := tput project did (gs_aliases st), gs_aliases_full := follow old did (gs_aliases_full st)\<rparr>"

definition deploy_full :: "deploy_env \<Rightarrow> deploy_args \<Rightarrow> gw_state \<Rightarrow> gw_deployment \<times> gw_state" where
  "deploy_full env a st0 =
     (let d = deploy_record env a; did = de_id env; project = da_project a; inc = da_incarnation a
      in if v3_refused (da_v3 a) then (d, st0)
         else
           (let st1 = keep_handles env did (gd_root d) (da_v3 a) st0
            in if \<not> da_publish a \<or> gd_state d \<noteq> Ds_Ready
               then (d, st1\<lparr>gs_deployments := tput did d (gs_deployments st1)\<rparr>)
               else
                 (let has = has_production st1 did (scoped inc) project;
                      st2 = (if da_production a
                             then map_deployments (\<lambda>x. if gd_project x = project \<and> scoped inc x then x\<lparr>gd_production := False\<rparr> else x) st1
                             else st1);
                      st3 = insert_deploy_aliases did (st2\<lparr>gs_deployments := tput did d (gs_deployments st2)\<rparr>)
                  in if da_production a \<or> \<not> has
                     then (d, (take_over project did (old_production st3 project inc) st3)\<lparr>gs_default := Some did\<rparr>)
                     else (d, st3))))"

text \<open>\<open>deploy_full\<close> and its variants give an incarnation or not, and always publish.\<close>

definition deploy_legacy :: "deploy_env \<Rightarrow> deploy_args \<Rightarrow> gw_state \<Rightarrow> gw_deployment \<times> gw_state" where
  "deploy_legacy env a = deploy_full env (a\<lparr>da_incarnation := None, da_publish := True\<rparr>)"

definition deploy_exact :: "deploy_env \<Rightarrow> incarnation \<Rightarrow> deploy_args \<Rightarrow> gw_state \<Rightarrow> gw_deployment \<times> gw_state" where
  "deploy_exact env inc a = deploy_full env (a\<lparr>da_incarnation := Some inc, da_publish := True\<rparr>)"

section \<open>Staging\<close>

definition drop_record :: "deployment_id \<Rightarrow> gw_state \<Rightarrow> gw_state" where
  "drop_record did st = st\<lparr>gs_deployments := tdel did (gs_deployments st), gs_roots := tdel did (gs_roots st), gs_v3 := tdel did (gs_v3 st)\<rparr>"

definition discard_unpublished :: "deployment_id \<Rightarrow> gw_state \<Rightarrow> gw_state" where
  "discard_unpublished did st =
     (case tget (gs_deployments st) did of Some d \<Rightarrow> if gd_state d \<noteq> Ds_Ready then drop_record did st else st | None \<Rightarrow> st)"

text \<open>A candidate is registered as building and hidden; \<open>None\<close> is a refusal. Nothing else knows the fresh identifier before
  staging answers, so the registration and the discarding of a refused candidate are one step.\<close>

definition stage :: "deploy_env \<Rightarrow> deploy_args \<Rightarrow> gw_state \<Rightarrow> deployment_id option \<times> gw_state" where
  "stage env a st =
     (if \<not> gs_accepting st then (None, st)
      else (let (d, st1) = deploy_full env (a\<lparr>da_state := Ds_Building, da_publish := False\<rparr>) st
            in if gd_state d \<noteq> Ds_Building then (None, discard_unpublished (gd_id d) st1) else (Some (gd_id d), st1)))"

definition take_staged :: "deployment_id \<Rightarrow> gw_state \<Rightarrow> string list option \<times> gw_state" where
  "take_staged did st =
     (case tget (gs_deployments st) did of
        None \<Rightarrow> (None, st)
      | Some d \<Rightarrow> if gd_state d \<noteq> Ds_Building then (None, st)
                  else (Some (map (\<lambda>(n, f). func_key did n) (gd_functions d)), drop_record did st))"

definition publish_staged :: "deployment_id \<Rightarrow> bool option \<Rightarrow> gw_state \<Rightarrow> gw_deployment option \<times> gw_state" where
  "publish_staged did publish st0 =
     (if \<not> gs_accepting st0 then (None, st0)
      else (case tget (gs_deployments st0) did of
              None \<Rightarrow> (None, st0)
            | Some d \<Rightarrow>
                if gd_state d \<noteq> Ds_Building then (None, st0)
                else
                  (let project = gd_project d; inc = gd_incarnation d;
                       has = has_production st0 did (\<lambda>x. gd_incarnation x = inc) project;
                       st1 = st0\<lparr>gs_deployments := tmod did (\<lambda>x. x\<lparr>gd_state := Ds_Ready, gd_production := (publish = Some True)\<rparr>) (gs_deployments st0)\<rparr>;
                       st2 = (if publish = Some True
                              then map_deployments (\<lambda>x. if gd_project x = project \<and> gd_incarnation x = inc
                                     then x\<lparr>gd_production := (gd_id x = did)\<rparr> else x) st1
                              else st1);
                       old = old_production st2 project inc;
                       st3 = insert_deploy_aliases did st2;
                       st4 = (case gs_default st3 of None \<Rightarrow> st3\<lparr>gs_default := Some did\<rparr> | Some _ \<Rightarrow> st3);
                       st5 = (if publish \<noteq> None \<and> (publish = Some True \<or> \<not> has) then take_over project did old st4 else st4)
                   in (tget (gs_deployments st5) did, st5))))"

section \<open>Managing published deployments\<close>

definition restamp_created :: "deployment_id \<Rightarrow> nat \<Rightarrow> gw_state \<Rightarrow> gw_state" where
  "restamp_created did ms st = st\<lparr>gs_deployments := tmod did (\<lambda>d. d\<lparr>gd_created := ms\<rparr>) (gs_deployments st)\<rparr>"

definition normal_host :: "string \<Rightarrow> string" where
  "normal_host domain = to_lowercase (trim_end_matches CHR ''.'' (trim domain))"

definition add_alias :: "string \<Rightarrow> string \<Rightarrow> gw_state \<Rightarrow> bool \<times> gw_state" where
  "add_alias domain project st =
     (case find (\<lambda>(k, d). gd_project d = project \<and> gd_production d \<and> gd_state d = Ds_Ready) (gs_deployments st) of
        Some (k, d) \<Rightarrow> (True, st\<lparr>gs_aliases_full := tput (normal_host domain) (gd_id d) (gs_aliases_full st)\<rparr>)
      | None \<Rightarrow> (False, st))"

definition remove_alias :: "string \<Rightarrow> gw_state \<Rightarrow> gw_state" where
  "remove_alias domain st = st\<lparr>gs_aliases_full := tdel (normal_host domain) (gs_aliases_full st)\<rparr>"

definition set_project_alias :: "string \<Rightarrow> deployment_id \<Rightarrow> gw_state \<Rightarrow> gw_state" where
  "set_project_alias project did st = st\<lparr>gs_aliases := tput project did (gs_aliases st)\<rparr>"

definition promote_incarnation :: "deployment_id \<Rightarrow> incarnation option \<Rightarrow> gw_state \<Rightarrow> gw_deployment option \<times> gw_state" where
  "promote_incarnation did expected st =
     (case tget (gs_deployments st) did of
        None \<Rightarrow> (None, st)
      | Some sel \<Rightarrow>
          if gd_state sel \<noteq> Ds_Ready then (None, st)
          else if expected \<noteq> None \<and> gd_incarnation sel \<noteq> expected then (None, st)
          else
            (let project = gd_project sel; inc = gd_incarnation sel;
                 st1 = map_deployments (\<lambda>x. if gd_project x = project \<and> (expected = None \<or> gd_incarnation x = inc)
                         then x\<lparr>gd_production := (gd_id x = did)\<rparr> else x) st;
                 old = old_production st1 project expected;
                 st2 = (take_over project did old st1)\<lparr>gs_default := Some did\<rparr>
             in (tget (gs_deployments st2) did, st2)))"

definition promote :: "deployment_id \<Rightarrow> gw_state \<Rightarrow> gw_deployment option \<times> gw_state" where
  "promote did = promote_incarnation did None"

definition promote_exact :: "deployment_id \<Rightarrow> incarnation \<Rightarrow> gw_state \<Rightarrow> gw_deployment option \<times> gw_state" where
  "promote_exact did inc = promote_incarnation did (Some inc)"

text \<open>A change of the manifest; the new function configurations are also sent to the pools of Fluid.\<close>

definition update_manifest ::
    "deployment_id \<Rightarrow> (string \<times> fn_config) list \<Rightarrow> string option \<Rightarrow> v3_state option \<Rightarrow> gw_state \<Rightarrow> (string \<times> fn_config) list option \<times> gw_state" where
  "update_manifest did fns img v3 st =
     (case tget (gs_deployments st) did of
        None \<Rightarrow> (None, st)
      | Some d \<Rightarrow>
          (let st1 = st\<lparr>gs_deployments := tmod did (\<lambda>d. d\<lparr>gd_functions := fns, gd_image := img,
                 gd_state := (if v3_refused v3 then Ds_Error else gd_state d)\<rparr>) (gs_deployments st)\<rparr>
           in (Some (map (\<lambda>(n, f). (func_key did n, f)) fns),
               st1\<lparr>gs_v3 := (case v3 of Some v \<Rightarrow> tput did v (gs_v3 st1) | None \<Rightarrow> tdel did (gs_v3 st1))\<rparr>)))"

text \<open>The minimum of instances each pool is told to keep.\<close>

definition reconcile_keepwarm :: "gw_state \<Rightarrow> (string \<times> nat) list" where
  "reconcile_keepwarm st =
     concat (map (\<lambda>(k, d). map (\<lambda>(n, f). (func_key (gd_id d) n,
       if gd_production d \<and> gd_state d = Ds_Ready then fc_min_instances f else 0)) (gd_functions d)) (gs_deployments st))"

definition newest :: "(gw_deployment \<Rightarrow> bool) \<Rightarrow> gw_state \<Rightarrow> deployment_id option" where
  "newest p st = map_option gd_id (max_by_key gd_created (filter p (map snd (gs_deployments st))))"

definition function_keys :: "gw_deployment \<Rightarrow> string list" where
  "function_keys d = map (\<lambda>(n, f). func_key (gd_id d) n) (gd_functions d)"

definition remove_begin :: "deployment_id \<Rightarrow> gw_state \<Rightarrow> (string \<times> string list) option" where
  "remove_begin did st =
     map_option (\<lambda>d. (gd_project d, map (\<lambda>(n, f). func_key did n) (gd_functions d))) (tget (gs_deployments st) did)"

text \<open>Removal of a record and of everything that points to it; the project alias moves to the newest ready deployment left.\<close>

definition unlink :: "deployment_id \<Rightarrow> gw_state \<Rightarrow> gw_state" where
  "unlink did st0 =
     (let st = drop_record did st0;
          st1 = st\<lparr>gs_aliases := tretain (\<lambda>k v. v \<noteq> did) (gs_aliases st), gs_aliases_full := tretain (\<lambda>k v. v \<noteq> did) (gs_aliases_full st)\<rparr>
      in if gs_default st1 = Some did then st1\<lparr>gs_default := newest (\<lambda>d. gd_state d = Ds_Ready) st1\<rparr> else st1)"

definition repoint :: "string \<Rightarrow> deployment_id option \<Rightarrow> gw_state \<Rightarrow> gw_state" where
  "repoint project target st = (case target of Some n \<Rightarrow> st\<lparr>gs_aliases := tput project n (gs_aliases st)\<rparr> | None \<Rightarrow> st)"

definition remove_finish :: "deployment_id \<Rightarrow> string \<Rightarrow> gw_state \<Rightarrow> gw_state" where
  "remove_finish did project st =
     (let st1 = unlink did st
      in repoint project (newest (\<lambda>d. gd_project d = project \<and> gd_state d = Ds_Ready) st1) st1)"

definition remove_exact_begin :: "deployment_id \<Rightarrow> incarnation \<Rightarrow> gw_state \<Rightarrow> (string \<times> string list) option" where
  "remove_exact_begin did inc st =
     (case find (\<lambda>(k, d). gd_id d = did \<and> gd_incarnation d = Some inc) (gs_deployments st) of
        Some (k, d) \<Rightarrow> Some (gd_project d, function_keys d)
      | None \<Rightarrow> None)"

definition remove_exact_finish :: "deployment_id \<Rightarrow> incarnation \<Rightarrow> string \<Rightarrow> gw_state \<Rightarrow> gw_state" where
  "remove_exact_finish did inc project st =
     (case tget (gs_deployments st) did of
        Some d \<Rightarrow>
          if gd_incarnation d = Some inc
          then (let st1 = unlink did st
                in repoint project (newest (\<lambda>d. gd_project d = project \<and> gd_incarnation d = Some inc \<and> gd_state d = Ds_Ready) st1) st1)
          else st
      | None \<Rightarrow> st)"

text \<open>The end of removing an incarnation: every route to the project goes.\<close>

definition close_project :: "string \<Rightarrow> gw_state \<Rightarrow> gw_state" where
  "close_project project st =
     (let ids = map gd_id (filter (\<lambda>d. gd_project d = project) (map snd (gs_deployments st)));
          st1 = st\<lparr>gs_aliases := tretain (\<lambda>k v. k \<noteq> project \<and> v \<notin> set ids) (gs_aliases st),
                   gs_aliases_full := tretain (\<lambda>k v. v \<notin> set ids) (gs_aliases_full st)\<rparr>
      in case gs_default st1 of
           Some t \<Rightarrow> if t \<in> set ids then st1\<lparr>gs_default := newest (\<lambda>d. gd_project d \<noteq> project) st1\<rparr> else st1
         | None \<Rightarrow> st1)"

definition superseded_ids :: "string \<Rightarrow> gw_state \<Rightarrow> deployment_id list" where
  "superseded_ids project st = map gd_id (filter (\<lambda>d. gd_project d = project \<and> gd_target d \<noteq> ''preview'') (map snd (gs_deployments st)))"

definition ids_through :: "string \<Rightarrow> nat \<Rightarrow> gw_state \<Rightarrow> deployment_id list" where
  "ids_through project deleted_ms st = map gd_id (filter (\<lambda>d. gd_project d = project \<and> gd_created d \<le> deleted_ms) (map snd (gs_deployments st)))"

definition adoptable :: "string \<Rightarrow> string list \<Rightarrow> gw_deployment \<Rightarrow> bool" where
  "adoptable project allowed d \<longleftrightarrow> gd_project d = project \<and> gd_incarnation d = None \<and> gd_id d \<in> set allowed"

definition adopt_legacy :: "string \<Rightarrow> incarnation \<Rightarrow> string list \<Rightarrow> gw_state \<Rightarrow> string list \<times> gw_state" where
  "adopt_legacy project inc allowed st =
     (if allowed = [] then ([], st)
      else (sort (map gd_id (filter (adoptable project allowed) (map snd (gs_deployments st)))),
            map_deployments (\<lambda>d. if adoptable project allowed d then d\<lparr>gd_incarnation := Some inc\<rparr> else d) st))"

definition begin_gateway_shutdown :: "gw_state \<Rightarrow> gw_state" where
  "begin_gateway_shutdown st = st\<lparr>gs_accepting := False\<rparr>"

section \<open>Persistence\<close>

definition deployment_records :: "gw_state \<Rightarrow> gw_deployment list" where
  "deployment_records st = map snd (gs_deployments st)"

definition restored :: "deploy_env \<Rightarrow> v3_state option \<Rightarrow> gw_deployment \<Rightarrow> gw_deployment" where
  "restored env v3 saved =
     (let tenant = (if trim (gd_tenant saved) = [] then ''__untagged__'' else gd_tenant saved);
          specs = pool_specs env (gd_id saved) tenant (gd_image saved) (case gd_workdir saved of Some w \<Rightarrow> w | None \<Rightarrow> []) (gd_functions saved)
      in saved\<lparr>gd_state := provisioned_state env (\<lambda>s. s = Ds_Ready) v3 (gd_workdir saved) specs (gd_state saved),
             gd_target := (if gd_target saved = [] then (if gd_production saved then ''production'' else ''preview'') else gd_target saved),
             gd_tenant := tenant\<rparr>)"

definition restore :: "deploy_env \<Rightarrow> v3_state option \<Rightarrow> gw_deployment \<Rightarrow> gw_state \<Rightarrow> gw_state" where
  "restore env v3 saved st0 =
     (let d = restored env v3 saved; did = gd_id saved;
          st1 = keep_handles env did (gd_root d) v3 st0;
          st2 = st1\<lparr>gs_deployments := tput did d (gs_deployments st1)\<rparr>
      in if gd_state d = Ds_Ready
         then (let st3 = insert_deploy_aliases did (set_alias_if_newer (gd_project d) did st2)
               in case gs_default st3 of None \<Rightarrow> st3\<lparr>gs_default := Some did\<rparr> | Some _ \<Rightarrow> st3)
         else st2)"

section \<open>Resolving hosts\<close>

definition host_name :: "string \<Rightarrow> string" where
  "host_name h = takeWhile (\<lambda>c. c \<noteq> CHR '':'') h"

definition first_label :: "string \<Rightarrow> string" where
  "first_label h = takeWhile (\<lambda>c. c \<noteq> CHR ''.'') h"

definition host_deployment_id :: "string \<Rightarrow> gw_state \<Rightarrow> deployment_id option" where
  "host_deployment_id host st =
     (let h = host_name host
      in case tget (gs_aliases_full st) (to_lowercase h) of Some did \<Rightarrow> Some did | None \<Rightarrow> tget (gs_aliases st) (first_label h))"

record selected =
  sd_deployment :: gw_deployment
  sd_root :: "string option"
  sd_v3 :: "v3_state option"

definition ready_deployment :: "gw_state \<Rightarrow> deployment_id \<Rightarrow> selected option" where
  "ready_deployment st did =
     (case tget (gs_deployments st) did of
        Some d \<Rightarrow> if gd_state d = Ds_Ready then Some \<lparr>sd_deployment = d, sd_root = tget (gs_roots st) did, sd_v3 = tget (gs_v3 st) did\<rparr> else None
      | None \<Rightarrow> None)"

definition select :: "string option \<Rightarrow> gw_state \<Rightarrow> selected option" where
  "select host st =
     (case host of
        Some h0 \<Rightarrow>
          (let h = host_name h0
           in case tget (gs_aliases_full st) (to_lowercase h) of
                Some did \<Rightarrow> ready_deployment st did
              | None \<Rightarrow>
                  (case tget (gs_aliases st) (first_label h) of
                     Some did \<Rightarrow> ready_deployment st did
                   | None \<Rightarrow> Option.bind (gs_default st) (ready_deployment st)))
      | None \<Rightarrow> Option.bind (gs_default st) (ready_deployment st))"

definition project_for_host :: "string \<Rightarrow> gw_state \<Rightarrow> string option" where
  "project_for_host h st = map_option (\<lambda>s. gd_project (sd_deployment s)) (select (Some h) st)"

definition deployment_for_host :: "string \<Rightarrow> gw_state \<Rightarrow> gw_deployment option" where
  "deployment_for_host h st = map_option sd_deployment (select (Some h) st)"

definition alias_points_at_project :: "string \<Rightarrow> string \<Rightarrow> gw_state \<Rightarrow> bool" where
  "alias_points_at_project domain project st \<longleftrightarrow>
     (case Option.bind (tget (gs_aliases_full st) (to_lowercase (host_name domain))) (tget (gs_deployments st)) of
        Some d \<Rightarrow> gd_project d = project
      | None \<Rightarrow> False)"

definition attribution_for_host :: "string \<Rightarrow> gw_state \<Rightarrow> (deployment_id \<times> string) option" where
  "attribution_for_host host st =
     Option.bind (host_deployment_id host st) (\<lambda>did. map_option (\<lambda>d. (did, gd_project d)) (tget (gs_deployments st) did))"

definition serves_host :: "string \<Rightarrow> gw_state \<Rightarrow> bool" where
  "serves_host host st \<longleftrightarrow>
     (let h = host_name host
      in tget (gs_aliases_full st) (to_lowercase h) \<noteq> None \<or> tget (gs_aliases st) (first_label h) \<noteq> None)"

definition host_deploy_state :: "string \<Rightarrow> gw_state \<Rightarrow> deploy_state option" where
  "host_deploy_state host st = map_option gd_state (Option.bind (host_deployment_id host st) (tget (gs_deployments st)))"

definition served_hosts :: "gw_state \<Rightarrow> string list" where
  "served_hosts st = tkeys (gs_aliases st) @ tkeys (gs_aliases_full st)"

definition served_hosts_ready :: "gw_state \<Rightarrow> string list" where
  "served_hosts_ready st =
     map fst (filter (\<lambda>(l, did). case tget (gs_deployments st) did of Some d \<Rightarrow> gd_state d = Ds_Ready | None \<Rightarrow> False)
       (gs_aliases st @ gs_aliases_full st))"

definition alias_labels_for_project :: "string \<Rightarrow> gw_state \<Rightarrow> string list" where
  "alias_labels_for_project project st =
     (let ids = map gd_id (filter (\<lambda>d. eq_ignore_ascii_case (gd_project d) project) (map snd (gs_deployments st)))
      in map fst (filter (\<lambda>(l, did). did \<in> set ids) (gs_aliases st @ gs_aliases_full st)))"

definition runs_container :: "gw_deployment \<Rightarrow> bool" where
  "runs_container d \<longleftrightarrow> list_ex (\<lambda>(n, f). fc_runtime f = ''container'') (gd_functions d)"

definition container_projects :: "gw_state \<Rightarrow> string list" where
  "container_projects st = remdups_adj (sort (map gd_project (filter runs_container (map snd (gs_deployments st)))))"

definition is_container_host :: "string \<Rightarrow> gw_state \<Rightarrow> bool" where
  "is_container_host host st \<longleftrightarrow>
     (case Option.bind (host_deployment_id host st) (tget (gs_deployments st)) of Some d \<Rightarrow> runs_container d | None \<Rightarrow> False)"

definition image_is_referenced :: "string \<Rightarrow> gw_state \<Rightarrow> bool" where
  "image_is_referenced img st \<longleftrightarrow> list_ex (\<lambda>(k, d). gd_image d = Some img) (gs_deployments st)"

definition git_for_project :: "string \<Rightarrow> gw_state \<Rightarrow> git_source option" where
  "git_for_project project st =
     Option.bind (max_by_key gd_created (filter (\<lambda>d. gd_project d = project \<and> (case gd_git d of Some g \<Rightarrow> is_real_git g | None \<Rightarrow> False))
       (map snd (gs_deployments st)))) gd_git"

end
