(* ===== verification/Gateway_Inv.thy ===== *)
theory Gateway_Inv
  imports Gateway_Registry
begin

text \<open>
  The registry of the gateway as a state machine and its invariants: records are stored under their identifiers, a
  project has one production deployment per incarnation, and every custom domain names a deployment that exists
  and has been ready.
\<close>

section \<open>Events\<close>

datatype gw_event =
    Ev_Deploy deploy_env deploy_args
  | Ev_Stage deploy_env deploy_args
  | Ev_Publish deployment_id "bool option"
  | Ev_Take_Staged deployment_id
  | Ev_Restamp deployment_id nat
  | Ev_Add_Alias string string
  | Ev_Remove_Alias string
  | Ev_Set_Project_Alias string deployment_id
  | Ev_Promote deployment_id "incarnation option"
  | Ev_Update deployment_id "(string \<times> fn_config) list" "string option" "v3_state option"
  | Ev_Remove deployment_id string
  | Ev_Remove_Exact deployment_id incarnation string
  | Ev_Close_Project string
  | Ev_Adopt string incarnation "string list"
  | Ev_Restore deploy_env "v3_state option" gw_deployment
  | Ev_Shutdown

fun gw_step :: "gw_event \<Rightarrow> gw_state \<Rightarrow> gw_state" where
  "gw_step (Ev_Deploy env a) st = snd (deploy_full env (a\<lparr>da_publish := True\<rparr>) st)"
| "gw_step (Ev_Stage env a) st = snd (stage env a st)"
| "gw_step (Ev_Publish did pub) st = snd (publish_staged did pub st)"
| "gw_step (Ev_Take_Staged did) st = snd (take_staged did st)"
| "gw_step (Ev_Restamp did ms) st = restamp_created did ms st"
| "gw_step (Ev_Add_Alias domain project) st = snd (add_alias domain project st)"
| "gw_step (Ev_Remove_Alias domain) st = remove_alias domain st"
| "gw_step (Ev_Set_Project_Alias project did) st = set_project_alias project did st"
| "gw_step (Ev_Promote did expected) st = snd (promote_incarnation did expected st)"
| "gw_step (Ev_Update did fns img v3) st = snd (update_manifest did fns img v3 st)"
| "gw_step (Ev_Remove did project) st = remove_finish did project st"
| "gw_step (Ev_Remove_Exact did inc project) st = remove_exact_finish did inc project st"
| "gw_step (Ev_Close_Project project) st = close_project project st"
| "gw_step (Ev_Adopt project inc allowed) st = snd (adopt_legacy project inc allowed st)"
| "gw_step (Ev_Restore env v3 saved) st = restore env v3 saved st"
| "gw_step Ev_Shutdown st = begin_gateway_shutdown st"

text \<open>Deployment identifiers are fresh: a deployment or a candidate gets one that no record has, and a record is restored where
  there is none.\<close>

fun gw_ok :: "gw_event \<Rightarrow> gw_state \<Rightarrow> bool" where
  "gw_ok (Ev_Deploy env a) st = (de_id env \<notin> set (tkeys (gs_deployments st)))"
| "gw_ok (Ev_Stage env a) st = (de_id env \<notin> set (tkeys (gs_deployments st)))"
| "gw_ok (Ev_Restore env v3 saved) st = (gd_id saved \<notin> set (tkeys (gs_deployments st)))"
| "gw_ok _ st = True"

inductive gw_reach :: "gw_state \<Rightarrow> bool" where
  start: "gw_reach gw_new"
| step: "gw_reach st \<Longrightarrow> gw_ok e st \<Longrightarrow> gw_reach (gw_step e st)"

text \<open>The orderly histories, which the registry does not enforce: a restored production record is the only one of its project and
  incarnation, and an incarnation adopts legacy records before it has a production deployment of its own.\<close>

definition production_of :: "gw_state \<Rightarrow> string \<Rightarrow> incarnation option \<Rightarrow> deployment_id \<Rightarrow> bool" where
  "production_of st project inc did \<longleftrightarrow>
     (case tget (gs_deployments st) did of
        Some d \<Rightarrow> gd_production d \<and> gd_project d = project \<and> gd_incarnation d = inc
      | None \<Rightarrow> False)"

definition in_production :: "gw_state \<Rightarrow> string \<Rightarrow> incarnation option \<Rightarrow> deployment_id list" where
  "in_production st project inc = filter (production_of st project inc) (tkeys (gs_deployments st))"

fun gw_undoubled :: "gw_event \<Rightarrow> gw_state \<Rightarrow> bool" where
  "gw_undoubled (Ev_Restore env v3 saved) st = (gd_production saved \<longrightarrow> in_production st (gd_project saved) (gd_incarnation saved) = [])"
| "gw_undoubled (Ev_Adopt project inc allowed) st = (in_production st project (Some inc) = [])"
| "gw_undoubled _ st = True"

inductive gw_orderly :: "gw_state \<Rightarrow> bool" where
  start: "gw_orderly gw_new"
| step: "gw_orderly st \<Longrightarrow> gw_ok e st \<Longrightarrow> gw_undoubled e st \<Longrightarrow> gw_orderly (gw_step e st)"

lemma in_production_Nil: "in_production st project inc = [] \<longleftrightarrow> (\<forall>did. \<not> production_of st project inc did)"
proof -
  have "did \<in> set (tkeys (gs_deployments st))" if "production_of st project inc did" for did
    using that tget_Some_key [of "gs_deployments st" did] unfolding production_of_def
    by (cases "tget (gs_deployments st) did") (simp_all only: option.case)
  then show ?thesis unfolding in_production_def filter_empty_conv by blast
qed

lemma orderly_reach: "gw_orderly st \<Longrightarrow> gw_reach st"
  by (induction rule: gw_orderly.induct) (auto intro: gw_reach.intros)

section \<open>What the helpers leave alone\<close>

named_theorems gw_frame \<open>fields a helper does not change\<close>

lemma set_alias_frame [gw_frame, simp]:
  "gs_deployments (set_alias_if_newer k did st) = gs_deployments st"
  "gs_aliases_full (set_alias_if_newer k did st) = gs_aliases_full st"
  "gs_default (set_alias_if_newer k did st) = gs_default st"
  "gs_roots (set_alias_if_newer k did st) = gs_roots st"
  "gs_v3 (set_alias_if_newer k did st) = gs_v3 st"
  "gs_accepting (set_alias_if_newer k did st) = gs_accepting st"
  by (simp_all add: set_alias_if_newer_def split: option.splits)

lemma insert_aliases_frame [gw_frame, simp]:
  "gs_deployments (insert_deploy_aliases did st) = gs_deployments st"
  "gs_aliases_full (insert_deploy_aliases did st) = gs_aliases_full st"
  "gs_default (insert_deploy_aliases did st) = gs_default st"
  "gs_roots (insert_deploy_aliases did st) = gs_roots st"
  "gs_v3 (insert_deploy_aliases did st) = gs_v3 st"
  "gs_accepting (insert_deploy_aliases did st) = gs_accepting st"
  by (simp_all add: insert_deploy_aliases_def Let_def split: option.splits)

lemma keep_handles_frame [gw_frame, simp]:
  "gs_deployments (keep_handles env did dir v3 st) = gs_deployments st"
  "gs_aliases (keep_handles env did dir v3 st) = gs_aliases st"
  "gs_aliases_full (keep_handles env did dir v3 st) = gs_aliases_full st"
  "gs_default (keep_handles env did dir v3 st) = gs_default st"
  "gs_accepting (keep_handles env did dir v3 st) = gs_accepting st"
  by (simp_all add: keep_handles_def Let_def split: option.splits)

lemma take_over_frame [gw_frame, simp]:
  "gs_deployments (take_over p did old st) = gs_deployments st"
  "gs_aliases (take_over p did old st) = tput p did (gs_aliases st)"
  "gs_aliases_full (take_over p did old st) = follow old did (gs_aliases_full st)"
  "gs_default (take_over p did old st) = gs_default st"
  "gs_roots (take_over p did old st) = gs_roots st"
  "gs_v3 (take_over p did old st) = gs_v3 st"
  by (simp_all add: take_over_def)

lemma map_deployments_frame [gw_frame, simp]:
  "gs_aliases (map_deployments f st) = gs_aliases st"
  "gs_aliases_full (map_deployments f st) = gs_aliases_full st"
  "gs_default (map_deployments f st) = gs_default st"
  "gs_roots (map_deployments f st) = gs_roots st"
  "gs_v3 (map_deployments f st) = gs_v3 st"
  by (simp_all add: map_deployments_def)

lemma map_of_map_snd: "map_of (map (\<lambda>(k, v). (k, f v)) m) k = map_option f (map_of m k)"
  by (induction m) auto

lemma tget_map_deployments [simp]: "tget (gs_deployments (map_deployments f st)) did = map_option f (tget (gs_deployments st) did)"
  by (simp add: map_deployments_def map_of_map_snd)

lemma tkeys_map_deployments [simp]: "tkeys (gs_deployments (map_deployments f st)) = tkeys (gs_deployments st)"
  by (simp add: map_deployments_def case_prod_beta comp_def)

lemma tget_follow:
  "tget (follow old new m) h = (case old of None \<Rightarrow> tget m h | Some c \<Rightarrow> map_option (\<lambda>v. if v = c then new else v) (tget m h))"
proof -
  have "map_option (\<lambda>v. if v = new then new else v) x = x" for x :: "string option" by (cases x) auto
  then show ?thesis
    using map_of_map_snd [of "\<lambda>v. if v = the old then new else v" m h]
    by (cases old) (auto simp: follow_def if_distrib [of "\<lambda>f. map_option f _"])
qed

lemma tkeys_follow [simp]: "tkeys (follow old new m) = tkeys m"
  by (auto simp: follow_def case_prod_beta comp_def split: option.splits)

lemma repoint_frame [gw_frame, simp]:
  "gs_deployments (repoint p t st) = gs_deployments st"
  "gs_aliases_full (repoint p t st) = gs_aliases_full st"
  "gs_default (repoint p t st) = gs_default st"
  "gs_roots (repoint p t st) = gs_roots st"
  "gs_v3 (repoint p t st) = gs_v3 st"
  by (simp_all add: repoint_def split: option.splits)

lemma unlink_frame [gw_frame, simp]:
  "gs_deployments (unlink did st) = tdel did (gs_deployments st)"
  "gs_aliases (unlink did st) = tretain (\<lambda>k v. v \<noteq> did) (gs_aliases st)"
  "gs_aliases_full (unlink did st) = tretain (\<lambda>k v. v \<noteq> did) (gs_aliases_full st)"
  "gs_roots (unlink did st) = tdel did (gs_roots st)"
  "gs_v3 (unlink did st) = tdel did (gs_v3 st)"
  by (simp_all add: unlink_def drop_record_def Let_def)

definition project_ids :: "string \<Rightarrow> gw_state \<Rightarrow> deployment_id list" where
  "project_ids project st = map gd_id (filter (\<lambda>d. gd_project d = project) (map snd (gs_deployments st)))"

lemma close_project_frame [gw_frame, simp]:
  "gs_deployments (close_project p st) = gs_deployments st"
  "gs_aliases (close_project p st) = tretain (\<lambda>k v. k \<noteq> p \<and> v \<notin> set (project_ids p st)) (gs_aliases st)"
  "gs_aliases_full (close_project p st) = tretain (\<lambda>k v. v \<notin> set (project_ids p st)) (gs_aliases_full st)"
  unfolding close_project_def Let_def project_ids_def [symmetric] by (simp_all split: option.splits)

section \<open>Well-formedness\<close>

definition wf_table :: "(deployment_id, gw_deployment) table \<Rightarrow> bool" where
  "wf_table m \<longleftrightarrow> distinct (tkeys m) \<and> (\<forall>did d. tget m did = Some d \<longrightarrow> gd_id d = did)"

definition gw_wf :: "gw_state \<Rightarrow> bool" where
  "gw_wf st \<longleftrightarrow> wf_table (gs_deployments st) \<and> distinct (tkeys (gs_aliases st)) \<and> distinct (tkeys (gs_aliases_full st))"

lemma gw_wf_id: "gw_wf st \<Longrightarrow> tget (gs_deployments st) did = Some d \<Longrightarrow> gd_id d = did"
  by (simp add: gw_wf_def wf_table_def)

lemma gw_wf_set: "gw_wf st \<Longrightarrow> (did, d) \<in> set (gs_deployments st) \<Longrightarrow> tget (gs_deployments st) did = Some d \<and> gd_id d = did"
  unfolding gw_wf_def wf_table_def by (meson map_of_is_SomeI)

lemma wf_table_tput: "wf_table m \<Longrightarrow> gd_id d = did \<Longrightarrow> wf_table (tput did d m)"
  by (auto simp: wf_table_def simp del: map_of_eq_Some_iff)

lemma wf_table_tmod: "wf_table m \<Longrightarrow> (\<And>d. gd_id (f d) = gd_id d) \<Longrightarrow> wf_table (tmod did f m)"
  by (auto simp: wf_table_def simp del: map_of_eq_Some_iff split: if_splits)

lemma wf_table_tdel: "wf_table m \<Longrightarrow> wf_table (tdel did m)"
  by (auto simp: wf_table_def simp del: map_of_eq_Some_iff split: if_splits)

lemma wf_table_of: "gw_wf st \<Longrightarrow> wf_table (gs_deployments st)"
  by (simp add: gw_wf_def)

lemma wf_set_deployments: "gw_wf st \<Longrightarrow> wf_table m \<Longrightarrow> gw_wf (st\<lparr>gs_deployments := m\<rparr>)"
  by (simp add: gw_wf_def)

lemma wf_set_alias: "gw_wf st \<Longrightarrow> gw_wf (set_alias_if_newer k did st)"
  by (auto simp: gw_wf_def set_alias_if_newer_def split: option.splits)

lemma wf_insert_aliases: "gw_wf st \<Longrightarrow> gw_wf (insert_deploy_aliases did st)"
proof -
  assume "gw_wf st"
  then have "gw_wf (st\<lparr>gs_aliases := tput did did (gs_aliases st)\<rparr>)" by (simp add: gw_wf_def)
  then show ?thesis by (auto simp: insert_deploy_aliases_def Let_def wf_set_alias split: option.splits)
qed

lemma wf_keep_handles: "gw_wf st \<Longrightarrow> gw_wf (keep_handles env did dir v3 st)"
  by (simp add: gw_wf_def)

lemma wf_take_over: "gw_wf st \<Longrightarrow> gw_wf (take_over p did old st)"
  by (simp add: gw_wf_def)

lemma wf_map_deployments: "gw_wf st \<Longrightarrow> (\<And>d. gd_id (f d) = gd_id d) \<Longrightarrow> gw_wf (map_deployments f st)"
  by (auto simp: gw_wf_def wf_table_def simp del: map_of_eq_Some_iff)

lemma wf_drop: "gw_wf st \<Longrightarrow> gw_wf (drop_record did st)"
  by (simp add: gw_wf_def drop_record_def wf_table_tdel)

lemma wf_default: "gw_wf (st\<lparr>gs_default := x\<rparr>) = gw_wf st"
  by (simp add: gw_wf_def)

lemma wf_unlink: "gw_wf st \<Longrightarrow> gw_wf (unlink did st)"
  by (simp add: gw_wf_def wf_table_tdel)

lemma wf_repoint: "gw_wf st \<Longrightarrow> gw_wf (repoint p t st)"
  by (auto simp: gw_wf_def repoint_def split: option.splits)

lemmas gw_wf_rules = wf_set_alias wf_insert_aliases wf_keep_handles wf_take_over wf_map_deployments wf_set_deployments
  wf_table_tput wf_table_tmod wf_table_tdel wf_drop wf_unlink wf_repoint wf_table_of

lemma deploy_record_id [simp]: "gd_id (deploy_record env a) = de_id env"
  by (simp add: deploy_record_def Let_def)

lemma deploy_record_more [simp]:
  "gd_project (deploy_record env a) = da_project a" "gd_incarnation (deploy_record env a) = da_incarnation a"
  "gd_root (deploy_record env a) = da_root a"
  by (simp_all add: deploy_record_def Let_def)

lemma deploy_record_production:
  "gd_production (deploy_record env a) \<longleftrightarrow> da_production a \<and> da_publish a \<and> gd_state (deploy_record env a) = Ds_Ready"
  by (simp add: deploy_record_def Let_def)

lemma wf_deploy: "gw_wf st \<Longrightarrow> gw_wf (snd (deploy_full env a st))"
  by (auto simp: deploy_full_def Let_def wf_default intro!: gw_wf_rules)

lemma wf_stage: "gw_wf st \<Longrightarrow> gw_wf (snd (stage env a st))"
proof -
  assume w: "gw_wf st"
  obtain d st1 where d: "deploy_full env (a\<lparr>da_state := Ds_Building, da_publish := False\<rparr>) st = (d, st1)" by fastforce
  have "gw_wf st1" using wf_deploy [OF w, of env "a\<lparr>da_state := Ds_Building, da_publish := False\<rparr>"] d by simp
  then show ?thesis using w d by (auto simp: stage_def discard_unpublished_def wf_drop split: option.splits)
qed

lemma wf_publish: "gw_wf st \<Longrightarrow> gw_wf (snd (publish_staged did pub st))"
  by (auto simp: publish_staged_def Let_def wf_default split: option.splits intro!: gw_wf_rules)

lemma wf_promote: "gw_wf st \<Longrightarrow> gw_wf (snd (promote_incarnation did expected st))"
  by (auto simp: promote_incarnation_def Let_def wf_default split: option.splits intro!: gw_wf_rules)

lemma restored_id [simp]: "gd_id (restored env v3 saved) = gd_id saved"
  "gd_project (restored env v3 saved) = gd_project saved" "gd_incarnation (restored env v3 saved) = gd_incarnation saved"
  "gd_production (restored env v3 saved) = gd_production saved" "gd_created (restored env v3 saved) = gd_created saved"
  "gd_git (restored env v3 saved) = gd_git saved"
  by (simp_all add: restored_def Let_def)

lemma wf_restore: "gw_wf st \<Longrightarrow> gw_wf (restore env v3 saved st)"
  by (auto simp: restore_def Let_def wf_default split: option.splits intro!: gw_wf_rules)

lemma wf_step: "gw_wf st \<Longrightarrow> gw_wf (gw_step e st)"
proof (cases e)
  case (Ev_Update did fns img v3)
  then show "gw_wf st \<Longrightarrow> ?thesis" by (auto simp: update_manifest_def Let_def gw_wf_def split: option.splits intro!: wf_table_tmod)
next
  case (Ev_Close_Project project)
  then show "gw_wf st \<Longrightarrow> ?thesis" by (simp add: gw_wf_def)
next
  case (Ev_Adopt project inc allowed)
  then show "gw_wf st \<Longrightarrow> ?thesis" by (auto simp: adopt_legacy_def intro: wf_map_deployments)
qed (auto simp: wf_deploy wf_stage wf_publish wf_promote wf_restore take_staged_def restamp_created_def add_alias_def remove_alias_def
    set_project_alias_def remove_finish_def remove_exact_finish_def begin_gateway_shutdown_def Let_def wf_drop wf_repoint wf_unlink
    split: option.splits, auto simp: gw_wf_def intro!: wf_table_tmod)

lemma wf_reach: "gw_reach st \<Longrightarrow> gw_wf st"
  by (induction rule: gw_reach.induct) (simp_all add: wf_step, simp add: gw_wf_def gw_new_def wf_table_def)

section \<open>What a deployment, a publication and a promotion change\<close>

definition demoted :: "string \<Rightarrow> (gw_deployment \<Rightarrow> bool) \<Rightarrow> gw_deployment \<Rightarrow> gw_deployment" where
  "demoted project same x = (if gd_project x = project \<and> same x then x\<lparr>gd_production := False\<rparr> else x)"

lemma demoted_frame [simp]:
  "gd_id (demoted p q x) = gd_id x" "gd_project (demoted p q x) = gd_project x" "gd_incarnation (demoted p q x) = gd_incarnation x"
  "gd_state (demoted p q x) = gd_state x" "gd_created (demoted p q x) = gd_created x"
  by (simp_all add: demoted_def)

definition goes_live :: "deploy_env \<Rightarrow> deploy_args \<Rightarrow> bool" where
  "goes_live env a \<longleftrightarrow> \<not> v3_refused (da_v3 a) \<and> da_publish a \<and> gd_state (deploy_record env a) = Ds_Ready"

lemma deploy_lookup:
  "tget (gs_deployments (snd (deploy_full env a st))) k =
     (if v3_refused (da_v3 a) then tget (gs_deployments st) k
      else if k = de_id env then Some (deploy_record env a)
      else map_option (if goes_live env a \<and> da_production a then demoted (da_project a) (scoped (da_incarnation a)) else id)
        (tget (gs_deployments st) k))"
  by (auto simp: deploy_full_def goes_live_def Let_def demoted_def[abs_def] option.map_id id_def option.map_ident)

lemma deploy_domains:
  "\<exists>old st3. gs_aliases_full (snd (deploy_full env a st)) = follow old (de_id env) (gs_aliases_full st) \<and>
     (old \<noteq> None \<longrightarrow> goes_live env a \<and> old = old_production st3 (da_project a) (da_incarnation a) \<and>
        gs_deployments st3 = gs_deployments (snd (deploy_full env a st)))"
proof (cases "goes_live env a \<and> (da_production a \<or> \<not> has_production (keep_handles env (de_id env) (da_root a) (da_v3 a) st)
    (de_id env) (scoped (da_incarnation a)) (da_project a))")
  case True
  define st1 where "st1 = keep_handles env (de_id env) (da_root a) (da_v3 a) st"
  define st2 where "st2 = (if da_production a
      then map_deployments (\<lambda>x. if gd_project x = da_project a \<and> scoped (da_incarnation a) x then x\<lparr>gd_production := False\<rparr> else x) st1 else st1)"
  define st3 where "st3 = insert_deploy_aliases (de_id env) (st2\<lparr>gs_deployments := tput (de_id env) (deploy_record env a) (gs_deployments st2)\<rparr>)"
  have e: "snd (deploy_full env a st) =
      (take_over (da_project a) (de_id env) (old_production st3 (da_project a) (da_incarnation a)) st3)\<lparr>gs_default := Some (de_id env)\<rparr>"
    using True unfolding st3_def st2_def st1_def goes_live_def deploy_full_def Let_def by (auto simp only: deploy_record_more snd_conv if_True if_False simp_thms)
  have "gs_aliases_full st3 = gs_aliases_full st" by (simp add: st3_def st2_def st1_def)
  then show ?thesis unfolding e using True by (intro exI [of _ "old_production st3 (da_project a) (da_incarnation a)"] exI [of _ st3]) simp
next
  case False
  then have "gs_aliases_full (snd (deploy_full env a st)) = gs_aliases_full st"
    by (auto simp: deploy_full_def goes_live_def Let_def)
  then show ?thesis by (intro exI [of _ None]) (simp add: follow_def)
qed

lemma publish_lookup:
  "tget (gs_deployments (snd (publish_staged did pub st))) k =
     (case tget (gs_deployments st) did of
        Some d \<Rightarrow>
          if gs_accepting st \<and> gd_state d = Ds_Building
          then map_option (\<lambda>x.
            let y = (if k = did then x\<lparr>gd_state := Ds_Ready, gd_production := (pub = Some True)\<rparr> else x)
            in if pub = Some True \<and> gd_project y = gd_project d \<and> gd_incarnation y = gd_incarnation d
               then y\<lparr>gd_production := (gd_id y = did)\<rparr> else y) (tget (gs_deployments st) k)
          else tget (gs_deployments st) k
      | None \<Rightarrow> tget (gs_deployments st) k)"
  by (cases "tget (gs_deployments st) k")
    (auto simp: publish_staged_def Let_def option.map_ident simp del: map_of_eq_Some_iff split: option.splits)

lemma publish_domains:
  "\<exists>old st2. gs_aliases_full (snd (publish_staged did pub st)) = follow old did (gs_aliases_full st) \<and>
     (old \<noteq> None \<longrightarrow> (\<exists>d. tget (gs_deployments st) did = Some d \<and> gs_accepting st \<and> gd_state d = Ds_Building \<and>
        old = old_production st2 (gd_project d) (gd_incarnation d) \<and> gs_deployments st2 = gs_deployments (snd (publish_staged did pub st))))"
proof -
  have n: "gs_aliases_full (snd (publish_staged did pub st)) = gs_aliases_full st \<Longrightarrow> ?thesis"
    by (intro exI [of _ None]) (simp add: follow_def)
  show ?thesis
  proof (cases "tget (gs_deployments st) did")
    case None
    then show ?thesis by (intro n) (simp add: publish_staged_def del: map_of_eq_None_iff)
  next
    case (Some d)
    define st1 where "st1 = st\<lparr>gs_deployments := tmod did (\<lambda>x. x\<lparr>gd_state := Ds_Ready, gd_production := (pub = Some True)\<rparr>) (gs_deployments st)\<rparr>"
    define st2 where "st2 = (if pub = Some True
        then map_deployments (\<lambda>x. if gd_project x = gd_project d \<and> gd_incarnation x = gd_incarnation d
          then x\<lparr>gd_production := (gd_id x = did)\<rparr> else x) st1 else st1)"
    define st3 where "st3 = insert_deploy_aliases did st2"
    define st4 where "st4 = (case gs_default st3 of None \<Rightarrow> st3\<lparr>gs_default := Some did\<rparr> | Some _ \<Rightarrow> st3)"
    have f4: "gs_aliases_full st4 = gs_aliases_full st" "gs_deployments st4 = gs_deployments st2"
      by (simp_all add: st4_def st3_def st2_def st1_def split: option.splits)
    show ?thesis
    proof (cases "gs_accepting st \<and> gd_state d = Ds_Building")
      case True
      have e: "snd (publish_staged did pub st) =
          (if pub \<noteq> None \<and> (pub = Some True \<or> \<not> has_production st did (\<lambda>x. gd_incarnation x = gd_incarnation d) (gd_project d))
           then take_over (gd_project d) did (old_production st2 (gd_project d) (gd_incarnation d)) st4 else st4)"
        unfolding st4_def st3_def st2_def st1_def publish_staged_def Let_def using True Some by (simp del: map_of_eq_Some_iff)
      show ?thesis
        by (rule exI [of _ "if pub \<noteq> None \<and> (pub = Some True \<or> \<not> has_production st did (\<lambda>x. gd_incarnation x = gd_incarnation d) (gd_project d))
            then old_production st2 (gd_project d) (gd_incarnation d) else None"], rule exI [of _ st2])
          (use Some True f4 in \<open>simp add: e follow_def del: map_of_eq_Some_iff\<close>)
    next
      case False
      then show ?thesis using Some by (intro n) (auto simp: publish_staged_def simp del: map_of_eq_Some_iff)
    qed
  qed
qed

definition promotable :: "deployment_id \<Rightarrow> incarnation option \<Rightarrow> gw_state \<Rightarrow> gw_deployment option" where
  "promotable did expected st =
     (case tget (gs_deployments st) did of
        Some d \<Rightarrow> if gd_state d = Ds_Ready \<and> (expected = None \<or> gd_incarnation d = expected) then Some d else None
      | None \<Rightarrow> None)"

definition promoted :: "gw_deployment \<Rightarrow> incarnation option \<Rightarrow> gw_deployment \<Rightarrow> gw_deployment" where
  "promoted sel expected x = (if gd_project x = gd_project sel \<and> (expected = None \<or> gd_incarnation x = gd_incarnation sel)
     then x\<lparr>gd_production := (gd_id x = gd_id sel)\<rparr> else x)"

lemma promoted_frame [simp]:
  "gd_id (promoted d e x) = gd_id x" "gd_project (promoted d e x) = gd_project x" "gd_incarnation (promoted d e x) = gd_incarnation x"
  "gd_state (promoted d e x) = gd_state x" "gd_created (promoted d e x) = gd_created x"
  by (simp_all add: promoted_def)

lemma promote_form:
  assumes "gw_wf st"
  shows "snd (promote_incarnation did expected st) =
    (case promotable did expected st of
       None \<Rightarrow> st
     | Some d \<Rightarrow>
         (let st1 = map_deployments (promoted d expected) st
          in (take_over (gd_project d) did (old_production st1 (gd_project d) expected) st1)\<lparr>gs_default := Some did\<rparr>))"
proof (cases "tget (gs_deployments st) did")
  case (Some d)
  then have "gd_id d = did" using gw_wf_id [OF assms] by simp
  then show ?thesis using Some
    by (auto simp: promote_incarnation_def promotable_def promoted_def[abs_def] Let_def simp del: map_of_eq_Some_iff)
qed (simp add: promote_incarnation_def promotable_def)

lemma restore_lookup:
  "tget (gs_deployments (restore env v3 saved st)) k =
     (if k = gd_id saved then Some (restored env v3 saved) else tget (gs_deployments st) k)"
  by (simp add: restore_def Let_def split: option.splits)

lemma restore_domains: "gs_aliases_full (restore env v3 saved st) = gs_aliases_full st"
  by (simp add: restore_def Let_def split: option.splits)

lemma stage_lookup:
  assumes "tget (gs_deployments st) (de_id env) = None"
  shows "tget (gs_deployments (snd (stage env a st))) k =
    (if k = de_id env \<and> fst (stage env a st) \<noteq> None
     then Some (deploy_record env (a\<lparr>da_state := Ds_Building, da_publish := False\<rparr>)) else tget (gs_deployments st) k) \<and>
    (fst (stage env a st) \<noteq> None \<longrightarrow> gd_state (deploy_record env (a\<lparr>da_state := Ds_Building, da_publish := False\<rparr>)) = Ds_Building)"
proof -
  define b where "b = a\<lparr>da_state := Ds_Building, da_publish := False\<rparr>"
  have live: "\<not> goes_live env b" by (simp add: goes_live_def b_def)
  have d: "fst (deploy_full env b st) = deploy_record env b" by (simp add: deploy_full_def Let_def)
  obtain st1 where st1: "deploy_full env b st = (deploy_record env b, st1)" using d by (metis prod.collapse)
  have lk: "tget (gs_deployments st1) k = (if v3_refused (da_v3 b) then tget (gs_deployments st) k
      else if k = de_id env then Some (deploy_record env b) else tget (gs_deployments st) k)" for k
    using deploy_lookup [of env b st k] st1 live by (simp add: option.map_id id_def option.map_ident)
  have r: "v3_refused (da_v3 b) \<Longrightarrow> gd_state (deploy_record env b) = Ds_Error"
    by (simp add: deploy_record_def provisioned_state_def Let_def)
  show ?thesis
  proof (cases "gs_accepting st \<and> gd_state (deploy_record env b) = Ds_Building")
    case True
    then have "\<not> v3_refused (da_v3 b)" using r by auto
    then show ?thesis using True st1 lk by (simp add: stage_def b_def [symmetric])
  next
    case False
    then have "stage env a st = (None, if gs_accepting st then discard_unpublished (de_id env) st1 else st)"
      using st1 by (simp add: stage_def b_def [symmetric])
    moreover have "tget (gs_deployments (discard_unpublished (de_id env) st1)) k = tget (gs_deployments st) k"
      if "gs_accepting st"
    proof -
      have nb: "gd_state (deploy_record env b) \<noteq> Ds_Building" using False that by simp
      have nr: "gd_state (deploy_record env b) \<noteq> Ds_Ready"
        using nb by (auto simp: deploy_record_def provisioned_state_def Let_def b_def split: if_splits option.splits)
      show ?thesis using lk lk [of "de_id env"] nr assms
        by (cases "v3_refused (da_v3 b)") (auto simp: discard_unpublished_def drop_record_def simp del: map_of_eq_Some_iff)
    qed
    ultimately show ?thesis by simp
  qed
qed

lemma stage_frame:
  "gs_aliases (snd (stage env a st)) = gs_aliases st" "gs_aliases_full (snd (stage env a st)) = gs_aliases_full st"
  "gs_default (snd (stage env a st)) = gs_default st"
  by (auto simp: stage_def deploy_full_def discard_unpublished_def drop_record_def Let_def split: option.splits)

section \<open>One production deployment\<close>

definition gw_single :: "gw_state \<Rightarrow> bool" where
  "gw_single st \<longleftrightarrow> (\<forall>p inc i j. production_of st p inc i \<longrightarrow> production_of st p inc j \<longrightarrow> i = j)"

lemma production_of_mono:
  assumes "gw_single st" and "\<And>p inc i. production_of st' p inc i \<Longrightarrow> production_of st p inc i"
  shows "gw_single st'"
  using assms unfolding gw_single_def by blast

lemma single_deploy:
  assumes "gw_single st" and "de_id env \<notin> set (tkeys (gs_deployments st))"
  shows "gw_single (snd (deploy_full env a st))"
proof -
  let ?st = "snd (deploy_full env a st)"
  have old: "production_of st p inc i" if "production_of ?st p inc i" "i \<noteq> de_id env" for p inc i
  proof (cases "tget (gs_deployments st) i")
    case (Some x)
    have "tget (gs_deployments ?st) i = Some x \<or> tget (gs_deployments ?st) i = Some (demoted (da_project a) (scoped (da_incarnation a)) x)"
      using Some that(2) by (simp add: deploy_lookup id_def del: map_of_eq_Some_iff)
    then show ?thesis using that(1) Some by (auto simp: production_of_def demoted_def simp del: map_of_eq_Some_iff split: if_splits)
  qed (use that in \<open>simp add: production_of_def deploy_lookup del: map_of_eq_None_iff split: if_splits\<close>)
  have new: "i = de_id env" if n: "production_of ?st p inc (de_id env)" and i: "production_of ?st p inc i" for p inc i
  proof (rule ccontr)
    assume ne: "i \<noteq> de_id env"
    have r: "\<not> v3_refused (da_v3 a)"
    proof
      assume "v3_refused (da_v3 a)"
      then have "tget (gs_deployments st) (de_id env) \<noteq> None" using n by (auto simp: production_of_def deploy_lookup split: option.splits)
      then show False using assms(2) by (simp add: tget_None_iff)
    qed
    then have g: "goes_live env a \<and> da_production a" and p: "p = da_project a" and inc: "inc = da_incarnation a"
      using n by (auto simp: production_of_def deploy_lookup goes_live_def deploy_record_production)
    show False
    proof (cases "tget (gs_deployments st) i")
      case (Some x)
      have "tget (gs_deployments ?st) i = Some (demoted (da_project a) (scoped (da_incarnation a)) x)"
        using Some ne r g by (simp add: deploy_lookup del: map_of_eq_Some_iff)
      then show False using i p inc
        by (cases "da_incarnation a") (simp_all add: production_of_def demoted_def scoped_def del: map_of_eq_Some_iff split: if_splits)
    qed (use i ne r in \<open>simp add: production_of_def deploy_lookup del: map_of_eq_None_iff split: if_splits\<close>)
  qed
  show ?thesis unfolding gw_single_def using assms(1) old new unfolding gw_single_def by blast
qed

lemma single_publish:
  assumes "gw_single st" and "gw_wf st"
  shows "gw_single (snd (publish_staged did pub st))"
proof (cases "\<exists>d. tget (gs_deployments st) did = Some d \<and> gs_accepting st \<and> gd_state d = Ds_Building")
  case True
  then obtain d where d: "tget (gs_deployments st) did = Some d" "gs_accepting st" "gd_state d = Ds_Building" by blast
  let ?st = "snd (publish_staged did pub st)"
  have id: "gd_id x = k" if "tget (gs_deployments st) k = Some x" for k x using gw_wf_id [OF assms(2) that] .
  have old: "production_of st p inc i" if "production_of ?st p inc i" "i \<noteq> did" for p inc i
    using that d id [of i] by (auto simp: production_of_def publish_lookup Let_def simp del: map_of_eq_Some_iff split: option.splits if_splits)
  have new: "i = did" if n: "production_of ?st p inc did" and i: "production_of ?st p inc i" for p inc i
  proof (rule ccontr)
    assume ne: "i \<noteq> did"
    have "pub = Some True" "p = gd_project d" "inc = gd_incarnation d"
      using n d by (auto simp: production_of_def publish_lookup Let_def simp del: map_of_eq_Some_iff split: if_splits)
    then show False using i ne d id [of i]
      by (auto simp: production_of_def publish_lookup Let_def simp del: map_of_eq_Some_iff split: option.splits if_splits)
  qed
  show ?thesis unfolding gw_single_def using assms(1) old new unfolding gw_single_def by blast
next
  case False
  then show ?thesis
    by (intro production_of_mono [OF assms(1)]) (auto simp: production_of_def publish_lookup simp del: map_of_eq_Some_iff split: option.splits)
qed

lemma single_promote:
  assumes "gw_single st" and "gw_wf st"
  shows "gw_single (snd (promote_incarnation did expected st))"
proof (cases "promotable did expected st")
  case (Some d)
  then have d: "tget (gs_deployments st) did = Some d" "expected = None \<or> gd_incarnation d = expected"
    by (auto simp: promotable_def simp del: map_of_eq_Some_iff split: option.splits if_splits)
  have id: "gd_id x = k" if "tget (gs_deployments st) k = Some x" for k x using gw_wf_id [OF assms(2) that] .
  let ?st = "snd (promote_incarnation did expected st)"
  have lk: "tget (gs_deployments ?st) k = map_option (promoted d expected) (tget (gs_deployments st) k)" for k
    using Some by (simp add: promote_form [OF assms(2)] Let_def)
  have old: "production_of st p inc i" if "production_of ?st p inc i" "i \<noteq> did" for p inc i
    using that id [of i] id [OF d(1)] by (auto simp: production_of_def lk promoted_def simp del: map_of_eq_Some_iff split: option.splits if_splits)
  have new: "i = did" if n: "production_of ?st p inc did" and i: "production_of ?st p inc i" for p inc i
  proof (rule ccontr)
    assume ne: "i \<noteq> did"
    have "p = gd_project d" "inc = gd_incarnation d" using n d(1) by (auto simp: production_of_def lk simp del: map_of_eq_Some_iff)
    then show False using i ne id [of i] id [OF d(1)] by (auto simp: production_of_def lk promoted_def simp del: map_of_eq_Some_iff split: option.splits if_splits)
  qed
  show ?thesis unfolding gw_single_def using assms(1) old new unfolding gw_single_def by blast
qed (simp add: promote_form [OF assms(2)] assms(1))

lemma single_adopt:
  assumes "gw_single st" and "\<forall>did. \<not> production_of st project (Some inc) did"
  shows "gw_single (snd (adopt_legacy project inc allowed st))"
proof (cases "allowed = []")
  case False
  let ?st = "snd (adopt_legacy project inc allowed st)"
  have lk: "tget (gs_deployments ?st) k =
      map_option (\<lambda>d. if adoptable project allowed d then d\<lparr>gd_incarnation := Some inc\<rparr> else d) (tget (gs_deployments st) k)" for k
    using False by (simp add: adopt_legacy_def)
  have k: "production_of st p (if p = project \<and> c = Some inc then None else c) i" if "production_of ?st p c i" for p c i
  proof (cases "tget (gs_deployments st) i")
    case (Some d)
    then have "\<not> (gd_production d \<and> gd_project d = project \<and> gd_incarnation d = Some inc)"
      using assms(2) by (auto simp: production_of_def simp del: map_of_eq_Some_iff split: option.splits)
    then show ?thesis using that Some
      by (auto simp: production_of_def lk adoptable_def simp del: map_of_eq_Some_iff split: if_splits)
  qed (use that in \<open>simp add: production_of_def lk del: map_of_eq_None_iff\<close>)
  show ?thesis unfolding gw_single_def using assms(1) k unfolding gw_single_def by blast
qed (simp add: adopt_legacy_def assms(1))

lemma single_step:
  assumes "gw_single st" and "gw_wf st" and "gw_ok e st" and "gw_undoubled e st"
  shows "gw_single (gw_step e st)"
proof (cases e)
  case (Ev_Stage env a)
  have n: "tget (gs_deployments st) (de_id env) = None" using assms(3) Ev_Stage by (simp add: tget_None_iff)
  show ?thesis
    by (rule production_of_mono [OF assms(1)])
      (auto simp: Ev_Stage production_of_def stage_lookup [OF n] deploy_record_production simp del: map_of_eq_Some_iff split: if_splits)
next
  case (Ev_Restore env v3 saved)
  have n: "tget (gs_deployments st) (gd_id saved) = None" using assms(3) Ev_Restore by (simp add: tget_None_iff)
  have k: "production_of st p c i" if "production_of (gw_step e st) p c i" "i \<noteq> gd_id saved" for p c i
    using that by (auto simp: Ev_Restore production_of_def restore_lookup)
  have "i = gd_id saved" if "production_of (gw_step e st) p c (gd_id saved)" "production_of (gw_step e st) p c i" for p c i
    using that k [OF that(2)] assms(4) by (auto simp: Ev_Restore in_production_Nil production_of_def restore_lookup)
  then show ?thesis unfolding gw_single_def using assms(1) k unfolding gw_single_def by blast
next
  case (Ev_Update did fns img v3)
  show ?thesis by (rule production_of_mono [OF assms(1)])
    (auto simp: Ev_Update production_of_def update_manifest_def Let_def simp del: map_of_eq_Some_iff split: option.splits if_splits)
next
  case (Ev_Deploy env a)
  then show ?thesis using assms single_deploy by simp
next
  case (Ev_Publish did pub)
  then show ?thesis using assms single_publish by simp
next
  case (Ev_Promote did expected)
  then show ?thesis using assms single_promote by simp
next
  case (Ev_Adopt project inc allowed)
  then show ?thesis using assms single_adopt by (simp add: in_production_Nil)
next
  case (Ev_Close_Project project)
  show ?thesis by (rule production_of_mono [OF assms(1)]) (simp add: Ev_Close_Project production_of_def)
qed (rule production_of_mono [OF assms(1)];
    auto simp: production_of_def take_staged_def drop_record_def restamp_created_def add_alias_def remove_alias_def set_project_alias_def
      remove_finish_def remove_exact_finish_def begin_gateway_shutdown_def Let_def simp del: map_of_eq_Some_iff split: option.splits if_splits)+

lemma single_reach: "gw_orderly st \<Longrightarrow> gw_single st"
  by (induction rule: gw_orderly.induct) (auto simp: single_step wf_reach orderly_reach, simp add: gw_single_def production_of_def gw_new_def)

section \<open>Records over a step\<close>

text \<open>A record that is still there after a step is the same deployment of the same project, and one that was ready or failed stays
  so.\<close>

definition settled :: "gw_deployment \<Rightarrow> bool" where
  "settled d \<longleftrightarrow> gd_state d = Ds_Ready \<or> gd_state d = Ds_Error"

definition kept :: "gw_deployment \<Rightarrow> gw_deployment option \<Rightarrow> bool" where
  "kept d d' \<longleftrightarrow> (case d' of None \<Rightarrow> True | Some e \<Rightarrow> gd_project e = gd_project d \<and> gd_id e = gd_id d \<and> (settled d \<longrightarrow> settled e))"

lemma kept_same [simp]: "kept d (Some d)" "kept d None"
  by (simp_all add: kept_def)

lemma publish_kept:
  assumes "tget (gs_deployments st) i = Some d"
  shows "kept d (tget (gs_deployments (snd (publish_staged did pub st))) i)"
proof (cases "tget (gs_deployments st) did")
  case (Some x)
  show ?thesis
    unfolding publish_lookup Some option.case assms option.map Let_def by (simp add: kept_def settled_def)
qed (use assms in \<open>simp add: publish_lookup del: map_of_eq_Some_iff map_of_eq_None_iff\<close>)

lemma kept_map: "kept d (Some d') \<Longrightarrow> kept d (Some (promoted x e d'))"
  by (simp add: kept_def settled_def)

lemma promote_kept:
  assumes "tget (gs_deployments st) i = Some d" and "gw_wf st"
  shows "kept d (tget (gs_deployments (snd (promote_incarnation did expected st))) i)"
proof (cases "promotable did expected st")
  case (Some x)
  have "tget (gs_deployments (snd (promote_incarnation did expected st))) i = Some (promoted x expected d)"
    unfolding promote_form [OF assms(2)] Some option.case Let_def using assms(1) by simp
  then show ?thesis by (simp only: kept_map kept_same)
qed (simp only: promote_form [OF assms(2)] option.case assms(1) kept_same)

lemma update_kept:
  assumes "tget (gs_deployments st) i = Some d"
  shows "kept d (tget (gs_deployments (snd (update_manifest did fns img v3 st))) i)"
proof (cases "tget (gs_deployments st) did")
  case (Some x)
  show ?thesis unfolding update_manifest_def Some option.case Let_def
    using assms Some by (cases "i = did") (simp_all add: kept_def settled_def del: map_of_eq_Some_iff)
qed (simp only: update_manifest_def option.case snd_conv assms kept_same)

lemma kept_step:
  assumes "tget (gs_deployments st) i = Some d" and "gw_wf st" and "gw_ok e st"
  shows "kept d (tget (gs_deployments (gw_step e st)) i)"
proof -
  note m = map_of_eq_Some_iff
  show ?thesis
  proof (cases e)
    case (Ev_Deploy env a)
    then have "i \<noteq> de_id env" using assms by (auto dest: tget_Some_key)
    then show ?thesis using assms(1) by (simp add: Ev_Deploy deploy_lookup kept_def settled_def del: m)
  next
    case (Ev_Stage env a)
    then have n: "tget (gs_deployments st) (de_id env) = None" using assms(3) by (simp add: tget_None_iff)
    then have "i \<noteq> de_id env" using assms(1) by auto
    then show ?thesis using assms(1) by (simp add: Ev_Stage stage_lookup [OF n] del: m)
  next
    case (Ev_Publish did pub)
    then show ?thesis using publish_kept [OF assms(1)] by simp
  next
    case (Ev_Promote did expected)
    then show ?thesis using promote_kept [OF assms(1,2)] by simp
  next
    case (Ev_Restore env v3 saved)
    then have "i \<noteq> gd_id saved" using assms by (auto dest: tget_Some_key)
    then show ?thesis using assms(1) by (simp add: Ev_Restore restore_lookup del: m)
  next
    case (Ev_Update did fns img v3)
    then show ?thesis using update_kept [OF assms(1)] by simp
  next
    case (Ev_Adopt p inc allowed)
    then show ?thesis using assms(1) by (auto simp: adopt_legacy_def kept_def settled_def simp del: m)
  next
    case (Ev_Take_Staged did)
    then show ?thesis using assms(1) by (auto simp: take_staged_def drop_record_def simp del: m split: option.splits)
  next
    case (Ev_Remove_Exact did inc p)
    then show ?thesis using assms(1) by (auto simp: remove_exact_finish_def Let_def simp del: m split: option.splits)
  next
    case (Ev_Restamp did ms)
    then show ?thesis using assms(1) by (auto simp: restamp_created_def kept_def settled_def simp del: m)
  next
    case (Ev_Add_Alias domain p)
    then show ?thesis using assms(1) by (auto simp: add_alias_def simp del: m split: option.splits)
  qed (use assms(1) in \<open>auto simp: remove_alias_def set_project_alias_def remove_finish_def begin_gateway_shutdown_def Let_def simp del: m\<close>)
qed

section \<open>Custom domains\<close>

definition gw_domains :: "gw_state \<Rightarrow> bool" where
  "gw_domains st \<longleftrightarrow> (\<forall>h did. tget (gs_aliases_full st) h = Some did \<longrightarrow> (\<exists>d. tget (gs_deployments st) did = Some d \<and> settled d))"

lemma follow_cases:
  assumes "tget (follow old new m) h = Some did"
  shows "tget m h = Some did \<or> (did = new \<and> old \<noteq> None \<and> tget m h = old)"
  using assms by (auto simp: tget_follow simp del: map_of_eq_Some_iff split: option.splits if_splits)

lemma domain_step:
  assumes "gw_wf st" and "tget (gs_aliases_full (gw_step e st)) h = Some did"
  shows "tget (gs_aliases_full st) h = Some did \<and> (\<forall>id project. e \<noteq> Ev_Remove did project) \<or>
    (\<exists>env a st3. tget (gs_aliases_full st) h \<noteq> None \<and> e = Ev_Deploy env a \<and> did = de_id env \<and> goes_live env (a\<lparr>da_publish := True\<rparr>) \<and>
       tget (gs_aliases_full st) h = old_production st3 (da_project a) (da_incarnation a) \<and>
       gs_deployments st3 = gs_deployments (gw_step e st)) \<or>
    (\<exists>pub d st3. tget (gs_aliases_full st) h \<noteq> None \<and> e = Ev_Publish did pub \<and> tget (gs_deployments st) did = Some d \<and> gs_accepting st \<and> gd_state d = Ds_Building \<and>
       tget (gs_aliases_full st) h = old_production st3 (gd_project d) (gd_incarnation d) \<and>
       gs_deployments st3 = gs_deployments (gw_step e st)) \<or>
    (\<exists>expected d st3. tget (gs_aliases_full st) h \<noteq> None \<and> e = Ev_Promote did expected \<and> promotable did expected st = Some d \<and>
       tget (gs_aliases_full st) h = old_production st3 (gd_project d) expected \<and>
       gs_deployments st3 = gs_deployments (gw_step e st)) \<or>
    (\<exists>domain project. e = Ev_Add_Alias domain project \<and> h = normal_host domain \<and>
       (\<exists>d. tget (gs_deployments st) did = Some d \<and> gd_project d = project \<and> gd_state d = Ds_Ready))"
proof -
  note m = map_of_eq_Some_iff
  have dist: "distinct (tkeys (gs_aliases_full st))" using assms(1) by (simp add: gw_wf_def)
  show ?thesis
  proof (cases e)
    case (Ev_Deploy env a)
    obtain old st3 where o: "gs_aliases_full (gw_step e st) = follow old (de_id env) (gs_aliases_full st)"
      "old \<noteq> None \<longrightarrow> goes_live env (a\<lparr>da_publish := True\<rparr>) \<and> old = old_production st3 (da_project a) (da_incarnation a) \<and>
         gs_deployments st3 = gs_deployments (gw_step e st)"
      using deploy_domains [of env "a\<lparr>da_publish := True\<rparr>" st] Ev_Deploy by auto
    show ?thesis using follow_cases [of old "de_id env" "gs_aliases_full st" h did] assms(2) o Ev_Deploy by auto
  next
    case (Ev_Publish k pub)
    obtain old st3 where o: "gs_aliases_full (gw_step e st) = follow old k (gs_aliases_full st)"
      "old \<noteq> None \<longrightarrow> (\<exists>d. tget (gs_deployments st) k = Some d \<and> gs_accepting st \<and> gd_state d = Ds_Building \<and>
         old = old_production st3 (gd_project d) (gd_incarnation d) \<and> gs_deployments st3 = gs_deployments (gw_step e st))"
      using publish_domains [of k pub st] Ev_Publish by auto
    show ?thesis using follow_cases [of old k "gs_aliases_full st" h did] assms(2) o Ev_Publish by (auto simp del: m)
  next
    case (Ev_Promote k expected)
    show ?thesis
    proof (cases "promotable k expected st")
      case (Some d)
      define st1 where "st1 = map_deployments (promoted d expected) st"
      have o: "gs_aliases_full (gw_step e st) = follow (old_production st1 (gd_project d) expected) k (gs_aliases_full st)"
        "gs_deployments st1 = gs_deployments (gw_step e st)"
        using Some Ev_Promote by (simp_all add: promote_form [OF assms(1)] st1_def Let_def)
      show ?thesis using follow_cases [of "old_production st1 (gd_project d) expected" k "gs_aliases_full st" h did] assms(2) o Some Ev_Promote by auto
    qed (use assms(2) Ev_Promote in \<open>simp add: promote_form [OF assms(1)] del: m\<close>)
  next
    case (Ev_Add_Alias domain project)
    show ?thesis
    proof (cases "find (\<lambda>(k, d). gd_project d = project \<and> gd_production d \<and> gd_state d = Ds_Ready) (gs_deployments st)")
      case (Some kd)
      obtain k d where kd: "kd = (k, d)" by fastforce
      have d: "(k, d) \<in> set (gs_deployments st)" "gd_project d = project" "gd_state d = Ds_Ready"
        using Some kd by (auto simp: find_Some_iff) (metis nth_mem)
      have t: "tget (gs_deployments st) (gd_id d) = Some d" using gw_wf_set [OF assms(1) d(1)] by simp
      show ?thesis using assms(2) Some kd d t Ev_Add_Alias by (auto simp: add_alias_def simp del: m split: if_splits)
    qed (use assms(2) Ev_Add_Alias in \<open>simp add: add_alias_def del: m\<close>)
  next
    case (Ev_Remove k project)
    then show ?thesis using assms(2) dist by (auto simp: remove_finish_def Let_def tget_tretain simp del: m split: option.splits if_splits)
  next
    case (Ev_Remove_Exact k inc project)
    then show ?thesis using assms(2) dist
      by (auto simp: remove_exact_finish_def Let_def tget_tretain simp del: m split: option.splits if_splits)
  next
    case (Ev_Close_Project project)
    then show ?thesis using assms(2) dist by (auto simp: tget_tretain simp del: m split: option.splits if_splits)
  next
    case (Ev_Stage env a)
    then show ?thesis using assms(2) by (simp add: stage_frame del: m)
  next
    case (Ev_Restore env v3 saved)
    then show ?thesis using assms(2) by (simp add: restore_domains del: m)
  next
    case (Ev_Take_Staged k)
    then show ?thesis using assms(2) by (auto simp: take_staged_def drop_record_def simp del: m split: option.splits if_splits)
  next
    case (Ev_Update k fns img v3)
    then show ?thesis using assms(2) by (auto simp: update_manifest_def Let_def simp del: m split: option.splits)
  next
    case (Ev_Adopt project inc allowed)
    then show ?thesis using assms(2) by (auto simp: adopt_legacy_def simp del: m split: if_splits)
  qed (use assms(2) in \<open>auto simp: restamp_created_def remove_alias_def set_project_alias_def begin_gateway_shutdown_def simp del: m split: if_splits\<close>)
qed

text \<open>A settled record goes together with the domains that named it.\<close>

lemma gone_step:
  assumes "tget (gs_deployments st) i = Some d" and "settled d" and "gw_wf st" and "gw_ok e st"
    and "tget (gs_deployments (gw_step e st)) i = None"
  shows "tget (gs_aliases_full (gw_step e st)) h \<noteq> Some i"
proof -
  note m = map_of_eq_Some_iff map_of_eq_None_iff
  have dist: "distinct (tkeys (gs_aliases_full st))" using assms(3) by (simp add: gw_wf_def)
  show ?thesis
  proof (cases e)
    case (Ev_Remove k project)
    then have "i = k" using assms(1,5) by (auto simp: remove_finish_def Let_def simp del: m split: if_splits)
    then show ?thesis using Ev_Remove dist by (auto simp: remove_finish_def Let_def tget_tretain simp del: m split: option.splits)
  next
    case (Ev_Remove_Exact k inc project)
    then have "i = k" using assms(1,5) by (auto simp: remove_exact_finish_def Let_def simp del: m split: if_splits option.splits)
    then show ?thesis using Ev_Remove_Exact assms(1,5) dist
      by (auto simp: remove_exact_finish_def Let_def tget_tretain simp del: m split: option.splits if_splits)
  next
    case (Ev_Take_Staged k)
    then show ?thesis using assms(1,2,5) by (auto simp: take_staged_def drop_record_def settled_def simp del: m split: option.splits if_splits)
  next
    case (Ev_Publish k pub)
    then show ?thesis using assms(1,5) by (simp add: publish_lookup del: m split: option.splits if_splits)
  next
    case (Ev_Promote k expected)
    then show ?thesis using assms(1,5) by (simp add: promote_form [OF assms(3)] Let_def del: m split: option.splits)
  next
    case (Ev_Deploy env a)
    then show ?thesis using assms(1,5) by (simp add: deploy_lookup del: m split: if_splits)
  next
    case (Ev_Stage env a)
    then have n: "tget (gs_deployments st) (de_id env) = None" using assms(4) by (simp add: tget_None_iff)
    then show ?thesis using assms(1,5) Ev_Stage by (simp add: stage_lookup [OF n] del: m split: if_splits)
  next
    case (Ev_Restore env v3 saved)
    then show ?thesis using assms(1,5) by (simp add: restore_lookup del: m split: if_splits)
  next
    case (Ev_Update k fns img v3)
    then show ?thesis using assms(1,5) by (auto simp: update_manifest_def Let_def simp del: m split: option.splits if_splits)
  next
    case (Ev_Adopt project inc allowed)
    then show ?thesis using assms(1,5) by (auto simp: adopt_legacy_def simp del: m split: if_splits)
  next
    case (Ev_Add_Alias domain project)
    then show ?thesis using assms(1,5) by (auto simp: add_alias_def simp del: m split: option.splits)
  qed (use assms(1,5) in \<open>auto simp: restamp_created_def remove_alias_def set_project_alias_def begin_gateway_shutdown_def simp del: m
    split: if_splits\<close>)
qed

lemma domain_target_ready:
  assumes "gw_wf st" and "gw_ok e st" and "tget (gs_aliases_full (gw_step e st)) h = Some did" and "tget (gs_aliases_full st) h \<noteq> Some did"
  shows "\<exists>d. tget (gs_deployments (gw_step e st)) did = Some d \<and> gd_state d = Ds_Ready"
proof -
  note m = map_of_eq_Some_iff map_of_eq_None_iff
  consider (deploy) env a where "e = Ev_Deploy env a" "did = de_id env" "goes_live env (a\<lparr>da_publish := True\<rparr>)"
    | (publish) pub d where "e = Ev_Publish did pub" "tget (gs_deployments st) did = Some d" "gs_accepting st" "gd_state d = Ds_Building"
    | (promote) expected d where "e = Ev_Promote did expected" "promotable did expected st = Some d"
    | (attach) domain project d where "e = Ev_Add_Alias domain project" "tget (gs_deployments st) did = Some d" "gd_state d = Ds_Ready"
    using domain_step [OF assms(1,3)] assms(4) by (auto simp del: m)
  then show ?thesis
  proof cases
    case deploy
    then show ?thesis by (auto simp: deploy_lookup goes_live_def simp del: m)
  next
    case publish
    then show ?thesis by (auto simp: publish_lookup Let_def simp del: m)
  next
    case promote
    have d: "tget (gs_deployments st) did = Some d" "gd_state d = Ds_Ready"
      using promote(2) by (auto simp: promotable_def simp del: m split: option.splits if_splits)
    then show ?thesis using promote by (simp add: promote_form [OF assms(1)] Let_def del: m)
  next
    case attach
    then show ?thesis by (auto simp: add_alias_def simp del: m split: option.splits)
  qed
qed

lemma domains_step:
  assumes "gw_domains st" and "gw_wf st" and "gw_ok e st"
  shows "gw_domains (gw_step e st)"
  unfolding gw_domains_def
proof (intro allI impI)
  fix h did
  assume a: "tget (gs_aliases_full (gw_step e st)) h = Some did"
  show "\<exists>d. tget (gs_deployments (gw_step e st)) did = Some d \<and> settled d"
  proof (cases "tget (gs_aliases_full st) h = Some did")
    case True
    then obtain d where d: "tget (gs_deployments st) did = Some d" "settled d" using assms(1) unfolding gw_domains_def by blast
    have "tget (gs_deployments (gw_step e st)) did \<noteq> None" using gone_step [OF d assms(2,3)] a by blast
    then show ?thesis using kept_step [OF d(1) assms(2,3)] d(2) unfolding kept_def by (cases "tget (gs_deployments (gw_step e st)) did") auto
  qed (use domain_target_ready [OF assms(2,3) a] settled_def in blast)
qed

lemma domains_reach: "gw_reach st \<Longrightarrow> gw_domains st"
  by (induction rule: gw_reach.induct) (simp_all add: domains_step wf_reach, simp add: gw_domains_def gw_new_def)

end
