(* ===== verification/Gateway_Props.thy ===== *)
theory Gateway_Props
  imports Gateway_Inv
begin

text \<open>
  What the registry of the gateway promises: one production deployment, hidden candidates, publications that
  serve, removals that leave nothing behind, restarts that restore the same routing, custom domains that stay in
  their project, and attribution that agrees with serving.
\<close>

section \<open>Restart\<close>

text \<open>The labels a deployment is offered for, besides its own identifier.\<close>

definition deploy_labels :: "gw_deployment \<Rightarrow> string list" where
  "deploy_labels d = gd_project d # (case gd_git d of None \<Rightarrow> []
     | Some g \<Rightarrow> (if gt_commit g \<noteq> [] then [commit_alias (gd_project d) (gt_commit g)] else []) @
         (if gt_branch g \<noteq> [] then [branch_alias (gd_project d) (gt_branch g)] else []))"

definition restart :: "(gw_deployment \<Rightarrow> deploy_env) \<Rightarrow> (gw_deployment \<Rightarrow> v3_state option) \<Rightarrow> gw_deployment list \<Rightarrow> gw_state" where
  "restart env v3 recs = fold (\<lambda>r. restore (env r) (v3 r) r) recs gw_new"

definition comes_back :: "(gw_deployment \<Rightarrow> deploy_env) \<Rightarrow> (gw_deployment \<Rightarrow> v3_state option) \<Rightarrow> gw_deployment \<Rightarrow> bool" where
  "comes_back env v3 r \<longleftrightarrow> gd_state (restored (env r) (v3 r) r) = Ds_Ready"

text \<open>The alias of \<open>k\<close> names the best of the deployments \<open>X\<close> that were offered for it.\<close>

definition alias_best :: "gw_state \<Rightarrow> string \<Rightarrow> deployment_id set \<Rightarrow> bool" where
  "alias_best st k X \<longleftrightarrow>
     (case tget (gs_aliases st) k of
        None \<Rightarrow> X = {}
      | Some did \<Rightarrow> did \<in> X \<and> (\<forall>j \<in> X. \<exists>e d. tget (gs_deployments st) j = Some e \<and> tget (gs_deployments st) did = Some d \<and> rank e \<le> rank d))"

lemma alias_best_other: "k \<noteq> key \<Longrightarrow> alias_best (set_alias_if_newer key did st) k X = alias_best st k X"
  by (simp add: alias_best_def) (simp add: set_alias_if_newer_def del: map_of_eq_Some_iff map_of_eq_None_iff split: option.splits)

lemma alias_best_offer:
  assumes "alias_best st k X" and "tget (gs_deployments st) did = Some d"
  shows "alias_best (set_alias_if_newer k did st) k (insert did X)"
proof (cases "tget (gs_aliases st) k")
  case None
  then show ?thesis using assms by (simp add: alias_best_def set_alias_if_newer_def del: map_of_eq_Some_iff map_of_eq_None_iff)
next
  case (Some cur)
  then have cur: "cur \<in> X" and all: "\<forall>j \<in> X. \<exists>e d. tget (gs_deployments st) j = Some e \<and> tget (gs_deployments st) cur = Some d \<and> rank e \<le> rank d"
    using assms(1) by (simp_all add: alias_best_def del: map_of_eq_Some_iff map_of_eq_None_iff)
  then obtain c where c: "tget (gs_deployments st) cur = Some c" "cur \<in> X" by blast
  have X: "\<exists>e. tget (gs_deployments st) j = Some e \<and> rank e \<le> rank c" if "j \<in> X" for j
    using all that c(1) by force
  show ?thesis
  proof (cases "rank c < rank d")
    case True
    then have "\<exists>e. tget (gs_deployments st) j = Some e \<and> rank e \<le> rank d" if "j \<in> X" for j
      using X [OF that] by (meson order.strict_implies_order order.trans)
    then show ?thesis using True Some c assms(2)
      by (simp add: alias_best_def set_alias_if_newer_def del: map_of_eq_Some_iff map_of_eq_None_iff)
  next
    case False
    then have e: "set_alias_if_newer k did st = st"
      using Some c assms(2) by (simp add: set_alias_if_newer_def del: map_of_eq_Some_iff)
    have "rank d \<le> rank c" using False by (simp only: not_less)
    then show ?thesis unfolding e using Some c assms(2) X by (simp add: alias_best_def del: map_of_eq_Some_iff map_of_eq_None_iff)
  qed
qed

lemma alias_best_same: "did \<in> X \<Longrightarrow> insert did X = X"
  by (rule insert_absorb)

definition offered :: "gw_state \<Rightarrow> string \<Rightarrow> deployment_id set" where
  "offered st k = {j. \<exists>d. tget (gs_deployments st) j = Some d \<and> gd_state d = Ds_Ready \<and> k \<in> set (deploy_labels d)}"

lemma alias_best_insert:
  assumes "tget (gs_deployments st) did = Some d" and "k \<noteq> did" and "alias_best st k X"
  shows "alias_best (insert_deploy_aliases did st) k (if k \<in> set (tl (deploy_labels d)) then insert did X else X)"
proof -
  define st1 where "st1 = st\<lparr>gs_aliases := tput did did (gs_aliases st)\<rparr>"
  have b1: "alias_best st1 k X" using assms(2,3)
    by (simp add: alias_best_def st1_def del: map_of_eq_Some_iff map_of_eq_None_iff split: option.splits)
  have d1: "tget (gs_deployments st1) did = Some d" using assms(1) by (simp add: st1_def)
  have offer: "alias_best (set_alias_if_newer key did s) k (if k = key then insert did Y else Y)"
    if "alias_best s k Y" "tget (gs_deployments s) did = Some d" for s key Y
    using alias_best_offer [OF that] alias_best_other [of k key did s Y] that(1) by (cases "k = key") auto
  show ?thesis
  proof (cases "gd_git d")
    case None
    then show ?thesis using b1 assms(1) by (simp add: insert_deploy_aliases_def deploy_labels_def st1_def Let_def del: map_of_eq_Some_iff)
  next
    case (Some g)
    define c where "c = commit_alias (gd_project d) (gt_commit g)"
    define b where "b = branch_alias (gd_project d) (gt_branch g)"
    define st2 where "st2 = (if gt_commit g \<noteq> [] then set_alias_if_newer c did st1 else st1)"
    define Y where "Y = (if gt_commit g \<noteq> [] \<and> k = c then insert did X else X)"
    have b2: "alias_best st2 k Y" using offer [OF b1 d1, of c] b1 by (auto simp: st2_def Y_def)
    have d2: "tget (gs_deployments st2) did = Some d" using d1 by (simp add: st2_def)
    have e: "insert_deploy_aliases did st = (if gt_branch g \<noteq> [] then set_alias_if_newer b did st2 else st2)"
      using Some assms(1) by (simp add: insert_deploy_aliases_def st2_def st1_def c_def b_def Let_def del: map_of_eq_Some_iff)
    have "alias_best (insert_deploy_aliases did st) k (if gt_branch g \<noteq> [] \<and> k = b then insert did Y else Y)"
      unfolding e using offer [OF b2 d2, of b] b2 by (auto split: if_splits)
    moreover have "(if gt_branch g \<noteq> [] \<and> k = b then insert did Y else Y) = (if k \<in> set (tl (deploy_labels d)) then insert did X else X)"
      using Some by (auto simp: deploy_labels_def Y_def c_def b_def)
    ultimately show ?thesis by simp
  qed
qed

lemma alias_best_restore:
  assumes "alias_best st k (offered st k)" and "tget (gs_deployments st) (gd_id r) = None" and "k \<noteq> gd_id r"
  shows "alias_best (restore env v3 r st) k (offered (restore env v3 r st) k)"
proof -
  define d where "d = restored env v3 r"
  define did where "did = gd_id r"
  define st1 where "st1 = keep_handles env did (gd_root d) v3 st"
  define st2 where "st2 = st1\<lparr>gs_deployments := tput did d (gs_deployments st1)\<rparr>"
  have lk: "tget (gs_deployments st2) j = (if j = did then Some d else tget (gs_deployments st) j)" for j
    by (simp add: st2_def st1_def)
  have old: "tget (gs_deployments st) did = None" using assms(2) by (simp add: did_def)
  have al: "gs_aliases st2 = gs_aliases st" by (simp add: st2_def st1_def)
  have notin: "did \<notin> offered st k" using old by (simp add: offered_def del: map_of_eq_None_iff)
  have b2: "alias_best st2 k (offered st k)"
  proof (cases "tget (gs_aliases st) k")
    case (Some cur)
    then have cur: "cur \<in> offered st k" using assms(1) by (simp add: alias_best_def del: map_of_eq_Some_iff)
    then have "cur \<noteq> did" using notin by blast
    then show ?thesis using assms(1) Some notin
      by (auto simp: alias_best_def al lk simp del: map_of_eq_Some_iff map_of_eq_None_iff)
  qed (use assms(1) in \<open>simp add: alias_best_def al del: map_of_eq_None_iff\<close>)
  show ?thesis
  proof (cases "gd_state d = Ds_Ready")
    case True
    define st3 where "st3 = insert_deploy_aliases did (set_alias_if_newer (gd_project d) did st2)"
    define X where "X = (if k = gd_project d then insert did (offered st k) else offered st k)"
    have d2: "tget (gs_deployments st2) did = Some d" by (simp add: lk)
    have "alias_best (set_alias_if_newer (gd_project d) did st2) k X"
      using alias_best_offer [OF b2 d2] alias_best_other [of k "gd_project d" did st2 "offered st k"] b2 by (auto simp: X_def)
    then have b3: "alias_best st3 k (if k \<in> set (tl (deploy_labels d)) then insert did X else X)"
      unfolding st3_def using d2 assms(3) by (intro alias_best_insert) (simp_all add: did_def)
    have f: "restore env v3 r st = (case gs_default st3 of None \<Rightarrow> st3\<lparr>gs_default := Some did\<rparr> | Some _ \<Rightarrow> st3)"
      unfolding restore_def Let_def st3_def st2_def st1_def using True by (simp add: d_def did_def split: option.splits)
    have g: "alias_best (restore env v3 r st) k Y = alias_best st3 k Y" for Y
      unfolding f by (simp add: alias_best_def split: option.splits)
    have "offered (restore env v3 r st) k = (if k \<in> set (deploy_labels d) then insert did (offered st k) else offered st k)"
      using True notin old
      by (auto simp: offered_def restore_lookup d_def [symmetric] did_def [symmetric] simp del: map_of_eq_Some_iff map_of_eq_None_iff split: if_splits)
    moreover have "\<dots> = (if k \<in> set (tl (deploy_labels d)) then insert did X else X)"
      by (auto simp: X_def deploy_labels_def)
    ultimately show ?thesis using b3 g by simp
  next
    case False
    then have "restore env v3 r st = st2" by (simp add: restore_def Let_def st2_def st1_def d_def did_def)
    moreover have "offered st2 k = offered st k"
      using False old by (auto simp: offered_def lk simp del: map_of_eq_Some_iff map_of_eq_None_iff split: if_splits)
    ultimately show ?thesis using b2 by simp
  qed
qed

lemma restart_lookup:
  assumes "distinct (map gd_id recs)"
  shows "tget (gs_deployments (restart env v3 recs)) i = Some d \<longleftrightarrow> (\<exists>r \<in> set recs. gd_id r = i \<and> d = restored (env r) (v3 r) r)"
  using assms
proof (induction recs rule: rev_induct)
  case (snoc x xs)
  have e: "tget (gs_deployments (restart env v3 (xs @ [x]))) i =
      (if i = gd_id x then Some (restored (env x) (v3 x) x) else tget (gs_deployments (restart env v3 xs)) i)"
    by (simp add: restart_def restore_lookup)
  have n: "gd_id r \<noteq> gd_id x" if "r \<in> set xs" for r
    using snoc.prems imageI [OF that, of gd_id] by auto
  show ?case unfolding e using snoc n by (auto simp del: map_of_eq_Some_iff)
qed (simp add: restart_def gw_new_def)

lemma restart_best:
  "distinct (map gd_id recs) \<Longrightarrow> k \<notin> set (map gd_id recs) \<Longrightarrow> alias_best (restart env v3 recs) k (offered (restart env v3 recs) k)"
proof (induction recs rule: rev_induct)
  case Nil
  then show ?case by (simp add: alias_best_def offered_def restart_def gw_new_def)
next
  case (snoc r recs)
  have "tget (gs_deployments (restart env v3 recs)) (gd_id r) = None"
  proof (cases "tget (gs_deployments (restart env v3 recs)) (gd_id r)")
    case (Some d)
    then obtain s where "s \<in> set recs" "gd_id s = gd_id r" using restart_lookup [of recs] snoc.prems(1) by auto
    then have "gd_id r \<in> gd_id ` set recs" by (metis imageI)
    then show ?thesis using snoc.prems(1) by simp
  qed
  then have "alias_best (restore (env r) (v3 r) r (restart env v3 recs)) k (offered (restore (env r) (v3 r) r (restart env v3 recs)) k)"
    using snoc by (intro alias_best_restore) auto
  then show ?case by (simp add: restart_def)
qed

lemma restored_labels [simp]: "deploy_labels (restored env v3 r) = deploy_labels r" "rank (restored env v3 r) = rank r"
  by (simp_all add: deploy_labels_def rank_def split: option.splits)

text \<open>After a restart every label names the best of the restored deployments that carry it, a production deployment
  before any preview and the newest of equals, whatever the order the records come in; and a label no restored
  deployment carries names nothing.
\<close>
theorem restart_routes_best:
  assumes "distinct (map gd_id recs)" and "k \<notin> set (map gd_id recs)"
  shows "case tget (gs_aliases (restart env v3 recs)) k of
      None \<Rightarrow> \<not> (\<exists>r \<in> set recs. comes_back env v3 r \<and> k \<in> set (deploy_labels r))
    | Some did \<Rightarrow> \<exists>r \<in> set recs. gd_id r = did \<and> comes_back env v3 r \<and> k \<in> set (deploy_labels r) \<and>
        (\<forall>s \<in> set recs. comes_back env v3 s \<and> k \<in> set (deploy_labels s) \<longrightarrow> rank s \<le> rank r)"
proof -
  let ?st = "restart env v3 recs"
  note lk = restart_lookup [OF assms(1), of env v3]
  have off: "offered ?st k = {gd_id r | r. r \<in> set recs \<and> comes_back env v3 r \<and> k \<in> set (deploy_labels r)}"
    unfolding offered_def lk comes_back_def by auto
  have best: "alias_best ?st k (offered ?st k)" by (rule restart_best [OF assms])
  show ?thesis
  proof (cases "tget (gs_aliases ?st) k")
    case None
    then have "offered ?st k = {}" using best by (simp add: alias_best_def del: map_of_eq_None_iff)
    then show ?thesis unfolding None option.case off by blast
  next
    case (Some did)
    then have did: "did \<in> offered ?st k"
      and top: "\<And>j. j \<in> offered ?st k \<Longrightarrow> \<exists>e d. tget (gs_deployments ?st) j = Some e \<and> tget (gs_deployments ?st) did = Some d \<and> rank e \<le> rank d"
      using best by (auto simp: alias_best_def simp del: map_of_eq_Some_iff)
    obtain r where r: "r \<in> set recs" "gd_id r = did" "comes_back env v3 r" "k \<in> set (deploy_labels r)"
      using did unfolding off by blast
    have uniq: "a = b" if "a \<in> set recs" "b \<in> set recs" "gd_id a = gd_id b" for a b
      using that assms(1) by (auto simp: distinct_map inj_on_def)
    have "rank s \<le> rank r" if s: "s \<in> set recs" "comes_back env v3 s" "k \<in> set (deploy_labels s)" for s
    proof -
      have "gd_id s \<in> offered ?st k" unfolding off using s by blast
      then obtain e d where "tget (gs_deployments ?st) (gd_id s) = Some e" "tget (gs_deployments ?st) did = Some d" "rank e \<le> rank d"
        using top by blast
      then show ?thesis unfolding lk using uniq s(1) r(1,2) by (metis restored_labels(2))
    qed
    then show ?thesis unfolding Some option.case using r by blast
  qed
qed

section \<open>Candidates and publication\<close>

text \<open>Staging a candidate under a fresh identifier is invisible: every host selects what it selected before, the
  aliases, custom domains and default are the same, and so are all other records. The candidate itself is there only
  if staging accepted it, and then it is building.
\<close>
theorem stage_is_hidden:
  assumes "tget (gs_deployments st) (de_id env) = None"
  shows "gs_aliases (snd (stage env a st)) = gs_aliases st \<and> gs_aliases_full (snd (stage env a st)) = gs_aliases_full st \<and>
    gs_default (snd (stage env a st)) = gs_default st \<and>
    (\<forall>host. map_option sd_deployment (select host (snd (stage env a st))) = map_option sd_deployment (select host st)) \<and>
    (\<forall>did. did \<noteq> de_id env \<longrightarrow> tget (gs_deployments (snd (stage env a st))) did = tget (gs_deployments st) did) \<and>
    (case tget (gs_deployments (snd (stage env a st))) (de_id env) of
       None \<Rightarrow> fst (stage env a st) = None
     | Some d \<Rightarrow> fst (stage env a st) = Some (de_id env) \<and> gs_accepting st \<and> gd_state d = Ds_Building)"
proof -
  let ?st = "snd (stage env a st)"
  note m = map_of_eq_Some_iff map_of_eq_None_iff
  have r: "map_option sd_deployment (ready_deployment ?st i) = map_option sd_deployment (ready_deployment st i)" for i
    using stage_lookup [OF assms, of a i] assms by (auto simp: ready_deployment_def simp del: m split: option.splits)
  have b: "map_option sd_deployment (Option.bind x (ready_deployment ?st)) = map_option sd_deployment (Option.bind x (ready_deployment st))" for x
    using r by (cases x) simp_all
  have s: "map_option sd_deployment (select host ?st) = map_option sd_deployment (select host st)" for host
    using r b by (simp add: select_def stage_frame Let_def del: m split: option.splits)
  have f: "fst (stage env a st) \<noteq> None \<Longrightarrow> fst (stage env a st) = Some (de_id env) \<and> gs_accepting st"
    by (auto simp: stage_def deploy_full_def Let_def split: if_splits)
  show ?thesis
    using s f stage_lookup [OF assms, of a] assms by (auto simp: stage_frame simp del: m split: option.splits if_splits)
qed

lemma host_of_project:
  assumes "host_name h = h" and "tget (gs_aliases_full st) (to_lowercase h) = None"
  shows "select (Some h) st = (case tget (gs_aliases st) (first_label h) of Some did \<Rightarrow> ready_deployment st did
    | None \<Rightarrow> Option.bind (gs_default st) (ready_deployment st))"
  using assms by (simp add: select_def Let_def del: map_of_eq_None_iff)

text \<open>C33: Publishing a candidate to production makes it serve at once: any host whose first label is the name of its
  project, and which is not a custom domain, selects it; it is ready and in production, and no other deployment of
  its project and incarnation is in production any more.
\<close>
theorem publication_serves:
  assumes "gw_reach st" and "gs_accepting st" and "tget (gs_deployments st) did = Some d" and "gd_state d = Ds_Building"
    and "host_name h = h" and "first_label h = gd_project d" and "tget (gs_aliases_full st) (to_lowercase h) = None"
  shows "(case select (Some h) (snd (publish_staged did (Some True) st)) of
      Some s \<Rightarrow> sd_deployment s = d\<lparr>gd_state := Ds_Ready, gd_production := True\<rparr>
    | None \<Rightarrow> False) \<and>
    (\<forall>i x. tget (gs_deployments (snd (publish_staged did (Some True) st))) i = Some x \<and> gd_production x \<and>
       gd_project x = gd_project d \<and> gd_incarnation x = gd_incarnation d \<longrightarrow> i = did)"
proof -
  let ?st = "snd (publish_staged did (Some True) st)"
  note m = map_of_eq_Some_iff map_of_eq_None_iff
  have wf: "gw_wf st" by (rule wf_reach [OF assms(1)])
  have id: "gd_id x = i" if "tget (gs_deployments st) i = Some x" for x i using gw_wf_id [OF wf that] .
  have l: "tget (gs_deployments ?st) did = Some (d\<lparr>gd_state := Ds_Ready, gd_production := True\<rparr>)"
    using assms(2-4) id [OF assms(3)] by (simp add: publish_lookup Let_def del: m)
  have a: "tget (gs_aliases ?st) (gd_project d) = Some did"
    unfolding publish_staged_def Let_def using assms(2-4) by (simp del: m)
  have full: "tget (gs_aliases_full ?st) (to_lowercase h) = None"
    using publish_domains [of did "Some True" st] assms(7) by (auto simp: tget_follow simp del: m split: option.splits)
  have g: "gs_accepting st \<and> gd_state d = Ds_Building" using assms(2,4) by simp
  have only: "i = did" if x: "tget (gs_deployments ?st) i = Some x" "gd_production x" "gd_project x = gd_project d" "gd_incarnation x = gd_incarnation d" for i x
  proof (rule ccontr)
    assume ne: "i \<noteq> did"
    obtain y where y: "tget (gs_deployments st) i = Some y"
      using x(1) unfolding publish_lookup assms(3) option.case if_P [OF g] by (cases "tget (gs_deployments st) i") simp_all
    have "x = (if gd_project y = gd_project d \<and> gd_incarnation y = gd_incarnation d then y\<lparr>gd_production := (gd_id y = did)\<rparr> else y)"
      using x(1) ne unfolding publish_lookup assms(3) option.case if_P [OF g] y by simp
    then show False using x(2-4) id [OF y] ne by (simp split: if_splits)
  qed
  show ?thesis
    using only unfolding host_of_project [OF assms(5) full] assms(6) a by (auto simp: ready_deployment_def l simp del: m)
qed

section \<open>Production\<close>

text \<open>The minimum of instances reaches every pool of every deployment, and is positive only for the functions of the
  production deployment: a pool that is kept warm belongs to a ready production deployment, has the minimum of its
  function, and, in an orderly history, no other deployment of the project and incarnation is in production.
\<close>
theorem keepwarm_only_production:
  assumes "gw_orderly st"
  shows "map fst (reconcile_keepwarm st) = concat (map (\<lambda>(i, d). function_keys d) (gs_deployments st)) \<and>
    (\<forall>key k. (key, k) \<in> set (reconcile_keepwarm st) \<and> 0 < k \<longrightarrow>
      (\<exists>i d n f. tget (gs_deployments st) i = Some d \<and> key = func_key i n \<and> (n, f) \<in> set (gd_functions d) \<and>
         k = fc_min_instances f \<and> gd_production d \<and> gd_state d = Ds_Ready \<and>
         (\<forall>j e. tget (gs_deployments st) j = Some e \<and> gd_production e \<and> gd_project e = gd_project d \<and>
            gd_incarnation e = gd_incarnation d \<longrightarrow> j = i)))"
proof (intro conjI allI impI, goal_cases)
  case 1
  show ?case by (auto simp: reconcile_keepwarm_def function_keys_def map_concat comp_def intro!: arg_cong [of _ _ concat])
next
  case (2 key k)
  then obtain i d n f where f: "(i, d) \<in> set (gs_deployments st)" "(n, f) \<in> set (gd_functions d)" "key = func_key (gd_id d) n"
    "gd_production d" "gd_state d = Ds_Ready" "k = fc_min_instances f"
    by (auto simp: reconcile_keepwarm_def split: if_splits)
  have d: "tget (gs_deployments st) i = Some d" "gd_id d = i" using gw_wf_set [OF wf_reach [OF orderly_reach [OF assms]] f(1)] by auto
  have "j = i" if e: "tget (gs_deployments st) j = Some e" "gd_production e" "gd_project e = gd_project d" "gd_incarnation e = gd_incarnation d" for j e
  proof -
    have "production_of st (gd_project d) (gd_incarnation d) j" unfolding production_of_def e(1) option.case using e by simp
    moreover have "production_of st (gd_project d) (gd_incarnation d) i" unfolding production_of_def d(1) option.case using f by simp
    ultimately show ?thesis using single_reach [OF assms] unfolding gw_single_def by blast
  qed
  then show ?case using d f by blast
qed

section \<open>Custom domains\<close>

text \<open>An operation that names the incarnation it acts for.\<close>

definition exact_event :: "gw_event \<Rightarrow> gw_state \<Rightarrow> bool" where
  "exact_event e st \<longleftrightarrow>
     (case e of
        Ev_Deploy env a \<Rightarrow> da_incarnation a \<noteq> None
      | Ev_Publish did pub \<Rightarrow> (case tget (gs_deployments st) did of Some d \<Rightarrow> gd_incarnation d \<noteq> None | None \<Rightarrow> True)
      | Ev_Promote did expected \<Rightarrow> expected \<noteq> None
      | _ \<Rightarrow> True)"

definition incarnations_owned :: "gw_state \<Rightarrow> bool" where
  "incarnations_owned st \<longleftrightarrow>
     list_all (\<lambda>(i, x). list_all (\<lambda>(j, y). gd_incarnation x = None \<or> gd_incarnation x \<noteq> gd_incarnation y \<or> gd_project x = gd_project y)
       (gs_deployments st)) (gs_deployments st)"

lemma owned_same:
  assumes "incarnations_owned st" and "tget (gs_deployments st) i = Some x" and "tget (gs_deployments st) j = Some y"
    and "gd_incarnation x = Some inc" and "gd_incarnation y = Some inc"
  shows "gd_project x = gd_project y"
  using assms map_of_SomeD [OF assms(2)] map_of_SomeD [OF assms(3)]
  by (fastforce simp: incarnations_owned_def list_all_iff simp del: map_of_eq_Some_iff)

lemma old_production_exact:
  "old_production st p (Some inc) = Some did \<Longrightarrow> \<exists>c. tget (gs_deployments st) did = Some c \<and> gd_incarnation c = Some inc"
  by (auto simp: old_production_def simp del: map_of_eq_Some_iff split: option.splits if_splits)

text \<open>What takes over a domain belongs to the incarnation that the step acts for.\<close>

lemma domain_moved:
  assumes "gw_wf st" and "gw_ok e st" and "exact_event e st" and "did' \<noteq> did"
    and "tget (gs_aliases_full st) h = Some did" and "tget (gs_aliases_full (gw_step e st)) h = Some did'"
    and "tget (gs_deployments (gw_step e st)) did' = Some d'"
    and "\<And>domain project. e = Ev_Add_Alias domain project \<Longrightarrow> h \<noteq> normal_host domain"
  shows "\<exists>st3 p inc. old_production st3 p (Some inc) = Some did \<and> gs_deployments st3 = gs_deployments (gw_step e st) \<and> gd_incarnation d' = Some inc"
proof -
  note m = map_of_eq_Some_iff map_of_eq_None_iff
  consider (deploy) env a st3 where "e = Ev_Deploy env a" "did' = de_id env" "Some did = old_production st3 (da_project a) (da_incarnation a)"
        "gs_deployments st3 = gs_deployments (gw_step e st)" "goes_live env (a\<lparr>da_publish := True\<rparr>)"
    | (publish) pub x st3 where "e = Ev_Publish did' pub" "tget (gs_deployments st) did' = Some x" "gs_accepting st" "gd_state x = Ds_Building"
        "Some did = old_production st3 (gd_project x) (gd_incarnation x)" "gs_deployments st3 = gs_deployments (gw_step e st)"
    | (promote) expected x st3 where "e = Ev_Promote did' expected" "promotable did' expected st = Some x"
        "Some did = old_production st3 (gd_project x) expected" "gs_deployments st3 = gs_deployments (gw_step e st)"
    using domain_step [OF assms(1,6)] assms(4,5,8) by (auto simp del: m)
  then show ?thesis
  proof cases
    case deploy
    obtain inc where inc: "da_incarnation a = Some inc" using assms(3) deploy(1) by (auto simp: exact_event_def)
    have "gd_incarnation d' = Some inc"
      using assms(7) deploy(1,2,5) inc by (auto simp: deploy_lookup goes_live_def simp del: m)
    then show ?thesis using deploy(3,4) inc by metis
  next
    case publish
    obtain inc where inc: "gd_incarnation x = Some inc" using assms(3) publish(1,2) by (auto simp: exact_event_def simp del: m)
    have "gd_incarnation d' = Some inc"
      using assms(7) publish(1-4) inc by (auto simp: publish_lookup Let_def simp del: m split: if_splits)
    then show ?thesis using publish(5,6) inc by metis
  next
    case promote
    obtain inc where inc: "expected = Some inc" using assms(3) promote(1) by (auto simp: exact_event_def)
    have x: "tget (gs_deployments st) did' = Some x" "gd_incarnation x = Some inc"
      using promote(2) inc by (auto simp: promotable_def simp del: m split: option.splits if_splits)
    have "gd_incarnation d' = Some inc"
      using assms(7) promote(1,2) x by (auto simp: promote_form [OF assms(1)] Let_def simp del: m)
    then show ?thesis using promote(3,4) inc by metis
  qed
qed

text \<open>What attaching names, and that nothing else names a domain that named nothing.\<close>

lemma attached_target:
  assumes "gw_wf st" and "fst (add_alias domain project st)"
    and "tget (gs_aliases_full (snd (add_alias domain project st))) (normal_host domain) = Some did"
    and "tget (gs_deployments (snd (add_alias domain project st))) did = Some d"
  shows "gd_state d = Ds_Ready \<and> gd_production d \<and> gd_project d = project"
proof -
  note m = map_of_eq_Some_iff map_of_eq_None_iff
  obtain k x where f: "find (\<lambda>(k, d). gd_project d = project \<and> gd_production d \<and> gd_state d = Ds_Ready) (gs_deployments st) = Some (k, x)"
    using assms(2) by (auto simp: add_alias_def split: option.splits)
  have x: "(k, x) \<in> set (gs_deployments st)" "gd_project x = project" "gd_production x" "gd_state x = Ds_Ready"
    using f by (auto simp: find_Some_iff) (metis nth_mem)
  have "did = gd_id x" "tget (gs_deployments st) did = Some d" using assms(3,4) f by (simp_all add: add_alias_def del: m)
  then have "d = x" using gw_wf_set [OF assms(1) x(1)] by (simp del: m)
  then show ?thesis using x by simp
qed

lemma domain_before:
  assumes "gw_wf st" and "tget (gs_aliases_full (gw_step e st)) h = Some did"
  shows "tget (gs_aliases_full st) h \<noteq> None \<or> (\<exists>domain project. e = Ev_Add_Alias domain project)"
  using domain_step [OF assms] by (elim disjE) (auto simp del: map_of_eq_Some_iff map_of_eq_None_iff)

text \<open>C34: Every custom domain names a deployment that exists and was ready when the domain came to name it (a deployment
  that was ready can later only be put in error, by an update whose build output is refused), and it keeps its project: take any history in
  which deployments, candidates and restored records get identifiers that no record has, and a step that names the incarnation it acts for,
  when an incarnation belongs to one project. Unless the step attaches the domain itself, the domain names after it a deployment of
  the project it named before; if the step attaches it to a project, it names the ready deployment that project has in
  production.
\<close>
theorem custom_domain_keeps_project:
  assumes "gw_reach st" and "gw_ok e st" and "exact_event e st" and "incarnations_owned (gw_step e st)"
    and "tget (gs_aliases_full (gw_step e st)) h = Some did'"
  shows "\<exists>d'. tget (gs_deployments (gw_step e st)) did' = Some d' \<and> gd_state d' \<in> {Ds_Ready, Ds_Error} \<and>
    (tget (gs_aliases_full st) h = Some did' \<or> gd_state d' = Ds_Ready) \<and>
    (if \<exists>domain project. e = Ev_Add_Alias domain project \<and> h = normal_host domain \<and> fst (add_alias domain project st)
     then gd_state d' = Ds_Ready \<and> gd_production d' \<and> (\<exists>domain. e = Ev_Add_Alias domain (gd_project d'))
     else \<exists>did d. tget (gs_aliases_full st) h = Some did \<and> tget (gs_deployments st) did = Some d \<and> gd_project d' = gd_project d)"
proof -
  note m = map_of_eq_Some_iff map_of_eq_None_iff
  have wf: "gw_wf st" by (rule wf_reach [OF assms(1)])
  let ?st = "gw_step e st"
  obtain d' where d': "tget (gs_deployments ?st) did' = Some d'" "settled d'"
    using domains_reach [OF gw_reach.step [OF assms(1,2)]] assms(5) unfolding gw_domains_def by blast
  have ready: "tget (gs_aliases_full st) h = Some did' \<or> gd_state d' = Ds_Ready"
    using domain_target_ready [OF wf assms(2,5)] d'(1) by auto
  show ?thesis
  proof (cases "\<exists>domain project. e = Ev_Add_Alias domain project \<and> h = normal_host domain \<and> fst (add_alias domain project st)")
    case True
    then obtain domain project where e: "e = Ev_Add_Alias domain project" "h = normal_host domain" "fst (add_alias domain project st)" by blast
    have "gd_state d' = Ds_Ready \<and> gd_production d' \<and> gd_project d' = project"
      using attached_target [OF wf e(3)] assms(5) d'(1) e(1,2) by simp
    then show ?thesis using True d' ready e(1) by (auto simp: settled_def simp del: m)
  next
    case False
    have keep: "tget (gs_aliases_full ?st) h = tget (gs_aliases_full st) h" if "e = Ev_Add_Alias domain project" for domain project
      using False that by (auto simp: add_alias_def simp del: m split: option.splits)
    have "tget (gs_aliases_full st) h \<noteq> None" using domain_before [OF wf assms(5)] keep assms(5) by fastforce
    then obtain did where h: "tget (gs_aliases_full st) h = Some did" by blast
    obtain d where d: "tget (gs_deployments st) did = Some d" using domains_reach [OF assms(1)] h unfolding gw_domains_def by blast
    have "gd_project d' = gd_project d"
    proof (cases "did' = did")
      case True
      then show ?thesis using kept_step [OF d wf assms(2)] d' by (simp add: kept_def del: m)
    next
      case False
      have "\<And>domain project. e = Ev_Add_Alias domain project \<Longrightarrow> h \<noteq> normal_host domain"
        using keep h assms(5) False by (metis option.inject)
      then obtain st3 p inc where o: "old_production st3 p (Some inc) = Some did" "gs_deployments st3 = gs_deployments ?st" "gd_incarnation d' = Some inc"
        using domain_moved [OF wf assms(2,3) False h assms(5) d'(1)] by blast
      obtain c where c: "tget (gs_deployments ?st) did = Some c" "gd_incarnation c = Some inc" using old_production_exact [OF o(1)] o(2) by auto
      have "gd_project c = gd_project d" using kept_step [OF d wf assms(2)] c(1) by (simp add: kept_def del: m)
      then show ?thesis using owned_same [OF assms(4) d'(1) c(1) o(3) c(2)] by simp
    qed
    then show ?thesis using False d d'(1,2) ready h unfolding settled_def by (simp only: if_False) blast
  qed
qed

section \<open>Removal\<close>

lemma newest_key:
  assumes "gw_wf st" and "newest p st = Some i"
  shows "tget (gs_deployments st) i \<noteq> None"
proof -
  obtain d where d: "max_by_key gd_created (filter p (map snd (gs_deployments st))) = Some d" "gd_id d = i"
    using assms(2) by (auto simp: newest_def)
  then obtain k where "(k, d) \<in> set (gs_deployments st)" using max_by_key_Some [OF d(1)] by auto
  then show ?thesis using gw_wf_set [OF assms(1)] d(2) by fastforce
qed

lemma tget_tretain_other: "distinct (tkeys m) \<Longrightarrow> tget (tretain (\<lambda>k v. v \<noteq> x) m) k \<noteq> Some x"
  by (simp add: tget_tretain del: map_of_eq_Some_iff split: option.splits)

lemma unlink_default:
  assumes "gw_wf st"
  shows "gs_default (unlink did st) \<noteq> Some did"
proof -
  define st1 where "st1 = (drop_record did st)\<lparr>gs_aliases := tretain (\<lambda>k v. v \<noteq> did) (gs_aliases st),
    gs_aliases_full := tretain (\<lambda>k v. v \<noteq> did) (gs_aliases_full st)\<rparr>"
  have u: "unlink did st = (if gs_default st1 = Some did then st1\<lparr>gs_default := newest (\<lambda>d. gd_state d = Ds_Ready) st1\<rparr> else st1)"
    by (simp add: unlink_def st1_def drop_record_def Let_def)
  have w: "gw_wf st1" using assms by (simp add: st1_def gw_wf_def drop_record_def wf_table_tdel)
  have "tget (gs_deployments st1) did = None" by (simp add: st1_def drop_record_def)
  then have "newest (\<lambda>d. gd_state d = Ds_Ready) st1 \<noteq> Some did" using newest_key [OF w] by blast
  then show ?thesis unfolding u by simp
qed

text \<open>Removing a deployment leaves nothing that refers to it: its record and handles are gone, and no alias, custom
  domain or default names it, so no host serves it or is attributed to it; every other record is as it was.
\<close>
theorem removal_leaves_nothing:
  assumes "gw_reach st"
  shows "tget (gs_deployments (remove_finish did project st)) did = None \<and> tget (gs_roots (remove_finish did project st)) did = None \<and>
    tget (gs_v3 (remove_finish did project st)) did = None \<and>
    (\<forall>k. tget (gs_aliases (remove_finish did project st)) k \<noteq> Some did) \<and>
    (\<forall>h. tget (gs_aliases_full (remove_finish did project st)) h \<noteq> Some did) \<and>
    gs_default (remove_finish did project st) \<noteq> Some did \<and>
    (\<forall>h. host_deployment_id h (remove_finish did project st) \<noteq> Some did \<and> (\<forall>p. attribution_for_host h (remove_finish did project st) \<noteq> Some (did, p))) \<and>
    (\<forall>i. i \<noteq> did \<longrightarrow> tget (gs_deployments (remove_finish did project st)) i = tget (gs_deployments st) i)"
proof -
  note m = map_of_eq_Some_iff map_of_eq_None_iff
  let ?st = "remove_finish did project st"
  have wf: "gw_wf st" by (rule wf_reach [OF assms])
  have da: "distinct (tkeys (gs_aliases st))" "distinct (tkeys (gs_aliases_full st))" using wf by (simp_all add: gw_wf_def)
  have f: "tget (gs_aliases_full ?st) h \<noteq> Some did" for h
    using tget_tretain_other [OF da(2)] by (simp add: remove_finish_def Let_def)
  have a: "tget (gs_aliases ?st) k \<noteq> Some did" for k
    using tget_tretain_other [OF da(1)] newest_key [OF wf_unlink [OF wf, of did], of _ did]
    by (auto simp: remove_finish_def repoint_def Let_def simp del: m split: option.splits)
  have h: "host_deployment_id h ?st \<noteq> Some did" for h
    using a f by (auto simp: host_deployment_id_def Let_def simp del: m split: option.splits)
  have "attribution_for_host h ?st \<noteq> Some (did, p)" for h p
    using h [of h] by (auto simp: attribution_for_host_def simp del: m split: option.splits bind_splits)
  then show ?thesis using a f h unlink_default [OF wf] by (simp add: remove_finish_def Let_def del: m)
qed

section \<open>Attribution\<close>

text \<open>Attribution never falls back: a host with an alias or a custom domain selects exactly the deployment it is
  attributed to, when that is ready, and nothing otherwise; a host with neither is attributed to nobody and is
  served by the default. The deployments a host selects are always ready.
\<close>
theorem attribution_agrees:
  "(if serves_host host st
    then map_option (\<lambda>s. (host_deployment_id host st, gd_project (sd_deployment s))) (select (Some host) st) =
      (if host_deploy_state host st = Some Ds_Ready then map_option (\<lambda>(i, p). (Some i, p)) (attribution_for_host host st) else None)
    else attribution_for_host host st = None \<and> select (Some host) st = select None st) \<and>
   (case select h st of Some s \<Rightarrow> gd_state (sd_deployment s) = Ds_Ready | None \<Rightarrow> True)"
proof (intro conjI)
  show "if serves_host host st
    then map_option (\<lambda>s. (host_deployment_id host st, gd_project (sd_deployment s))) (select (Some host) st) =
      (if host_deploy_state host st = Some Ds_Ready then map_option (\<lambda>(i, p). (Some i, p)) (attribution_for_host host st) else None)
    else attribution_for_host host st = None \<and> select (Some host) st = select None st"
    by (auto simp: serves_host_def select_def host_deployment_id_def host_deploy_state_def attribution_for_host_def ready_deployment_def Let_def
      simp del: map_of_eq_Some_iff map_of_eq_None_iff split: option.splits)
  have "gd_state (sd_deployment s) = Ds_Ready" if "ready_deployment st i = Some s" for i s
    using that by (auto simp: ready_deployment_def simp del: map_of_eq_Some_iff split: option.splits if_splits)
  then show "case select h st of Some s \<Rightarrow> gd_state (sd_deployment s) = Ds_Ready | None \<Rightarrow> True"
    by (auto simp: select_def Let_def simp del: map_of_eq_Some_iff split: option.splits bind_splits)
qed

section \<open>Concrete registries\<close>

definition sample_env :: "deployment_id \<Rightarrow> nat \<Rightarrow> deploy_env" where
  "sample_env did now = \<lparr>de_id = did, de_now = now, de_launch_dir = (\<lambda>_ _. ''.''), de_register = (\<lambda>_. True), de_root_opens = True, de_image = ''node''\<rparr>"

definition sample_args :: "string \<Rightarrow> incarnation option \<Rightarrow> string \<Rightarrow> bool \<Rightarrow> deploy_args" where
  "sample_args project inc branch production =
     \<lparr>da_root = ''/www'', da_workdir = None, da_project = project, da_functions = [], da_image = None, da_v3 = None, da_creator = ''ci'',
       da_git = Some \<lparr>gt_repo_url = ''repo'', gt_branch = branch, gt_commit = [], gt_message = []\<rparr>, da_production = production,
       da_state = Ds_Ready, da_tenant = ''acme'', da_incarnation = inc, da_publish = True\<rparr>"

primrec gw_run :: "gw_event list \<Rightarrow> gw_state \<Rightarrow> gw_state" where
  "gw_run [] st = st"
| "gw_run (e # es) st = gw_run es (gw_step e st)"

primrec gw_run_ok :: "gw_event list \<Rightarrow> gw_state \<Rightarrow> bool" where
  "gw_run_ok [] st \<longleftrightarrow> True"
| "gw_run_ok (e # es) st \<longleftrightarrow> gw_ok e st \<and> gw_undoubled e st \<and> gw_run_ok es (gw_step e st)"

lemma orderly_run: "gw_orderly st \<Longrightarrow> gw_run_ok es st \<Longrightarrow> gw_orderly (gw_run es st)"
  by (induction es arbitrary: st) (auto intro: gw_orderly.step)

definition routing :: "gw_state \<Rightarrow> (deployment_id \<times> string \<times> bool \<times> deploy_state) list \<times> (string \<times> deployment_id) list \<times>
    (string \<times> deployment_id) list \<times> deployment_id option" where
  "routing st = (map (\<lambda>(k, d). (k, gd_project d, gd_production d, gd_state d)) (gs_deployments st), gs_aliases st, gs_aliases_full st, gs_default st)"

definition live_site :: gw_state where
  "live_site = gw_run [Ev_Deploy (sample_env ''d1'' 10) (sample_args ''shop'' (Some 1) ''main'' True), Ev_Add_Alias ''Shop.example'' ''shop'',
     Ev_Stage (sample_env ''d2'' 20) (sample_args ''shop'' (Some 1) ''main'' True)] gw_new"

lemma live_site_routing:
  "routing live_site = ([(''d1'', ''shop'', True, Ds_Ready), (''d2'', ''shop'', False, Ds_Building)],
     [(''d1'', ''d1''), (''shop-git-main'', ''d1''), (''shop'', ''d1'')], [(''shop.example'', ''d1'')], Some ''d1'')"
  by code_simp

lemma live_site_orderly: "gw_orderly live_site"
  unfolding live_site_def by (rule orderly_run [OF gw_orderly.start]) code_simp

lemmas live_site_reach = orderly_reach [OF live_site_orderly]

definition takeover_site :: gw_state where
  "takeover_site = gw_run [Ev_Deploy (sample_env ''d1'' 10) (sample_args ''a-git-x'' None ''main'' True), Ev_Add_Alias ''x.example'' ''a-git-x'',
     Ev_Deploy (sample_env ''d2'' 20) (sample_args ''a'' None ''x'' True), Ev_Add_Alias ''a.example'' ''a''] gw_new"

lemma branch_label_takes_project_alias:
  "tget (gs_aliases takeover_site) ''a-git-x'' = Some ''d2'' \<and> tget (gs_aliases_full takeover_site) ''a.example'' = Some ''d2'' \<and>
   project_for_host ''a-git-x.host'' takeover_site = Some ''a'' \<and>
   project_for_host ''a.example'' (snd (deploy_legacy (sample_env ''d3'' 30) (sample_args ''a-git-x'' None ''main'' True) takeover_site)) = Some ''a-git-x''"
  by code_simp

definition preview_site :: gw_state where
  "preview_site = gw_run [Ev_Deploy (sample_env ''d1'' 10) (sample_args ''shop'' (Some 1) ''main'' True),
     Ev_Deploy (sample_env ''d2'' 20) (sample_args ''shop'' (Some 1) ''fix'' False),
     Ev_Deploy (sample_env ''d3'' 30) (sample_args ''shop'' (Some 1) ''exp'' False)] gw_new"

lemma removing_a_preview:
  "map_option gd_production (deployment_for_host ''shop.host'' preview_site) = Some True \<and>
   map_option gd_id (deployment_for_host ''shop.host'' (remove_finish ''d2'' ''shop'' preview_site)) = Some ''d3'' \<and>
   map_option gd_production (deployment_for_host ''shop.host'' (remove_finish ''d2'' ''shop'' preview_site)) = Some False"
  by code_simp

definition two_sites :: gw_state where
  "two_sites = gw_run [Ev_Deploy (sample_env ''d1'' 10) (sample_args ''blog'' (Some 2) ''main'' True),
     Ev_Deploy (sample_env ''d2'' 20) (sample_args ''shop'' (Some 1) ''main'' True), Ev_Add_Alias ''Shop.example.'' ''shop'',
     Ev_Stage (sample_env ''d3'' 30) (sample_args ''blog'' (Some 2) ''main'' True)] gw_new"

lemma closing_defaults_to_a_candidate:
  "project_for_host ''other.host'' two_sites = Some ''shop'' \<and>
   gs_default (close_project ''shop'' two_sites) = Some ''d3'' \<and>
   project_for_host ''other.host'' (close_project ''shop'' two_sites) = None"
  by code_simp

lemma trailing_dot_not_served:
  "project_for_host ''SHOP.example:443'' two_sites = Some ''shop'' \<and> serves_host ''SHOP.example:443'' two_sites \<and>
   \<not> serves_host ''SHOP.example.:443'' two_sites"
  by code_simp

lemma two_sites_orderly: "gw_orderly two_sites"
  unfolding two_sites_def by (rule orderly_run [OF gw_orderly.start]) code_simp

section \<open>Witnesses\<close>

lemma restart_routes_best_witness:
  "distinct (map gd_id (deployment_records two_sites)) \<and> ''shop'' \<notin> set (map gd_id (deployment_records two_sites)) \<and>
   tget (gs_aliases (restart (\<lambda>r. sample_env (gd_id r) 40) (\<lambda>_. None) (deployment_records two_sites))) ''shop'' = Some ''d2'' \<and>
   (\<exists>r \<in> set (deployment_records two_sites). gd_id r = ''d2'' \<and> comes_back (\<lambda>r. sample_env (gd_id r) 40) (\<lambda>_. None) r)"
proof -
  have h: "distinct (map gd_id (deployment_records two_sites))" "''shop'' \<notin> set (map gd_id (deployment_records two_sites))"
    by code_simp+
  have a: "tget (gs_aliases (restart (\<lambda>r. sample_env (gd_id r) 40) (\<lambda>_. None) (deployment_records two_sites))) ''shop'' = Some ''d2''"
    by code_simp
  show ?thesis using h a restart_routes_best [OF h, of "\<lambda>r. sample_env (gd_id r) 40" "\<lambda>_. None"] unfolding a option.case by blast
qed

lemma stage_is_hidden_witness:
  "tget (gs_deployments live_site) (de_id (sample_env ''d9'' 50)) = None \<and>
   gs_aliases (snd (stage (sample_env ''d9'' 50) (sample_args ''shop'' (Some 1) ''main'' True) live_site)) = gs_aliases live_site \<and>
   fst (stage (sample_env ''d9'' 50) (sample_args ''shop'' (Some 1) ''main'' True) live_site) = Some ''d9''"
proof -
  have h: "tget (gs_deployments live_site) (de_id (sample_env ''d9'' 50)) = None" by code_simp
  have f: "fst (stage (sample_env ''d9'' 50) (sample_args ''shop'' (Some 1) ''main'' True) live_site) = Some ''d9''" by code_simp
  show ?thesis using h f stage_is_hidden [OF h, of "sample_args ''shop'' (Some 1) ''main'' True"] by blast
qed

definition staged_site :: gw_deployment where
  "staged_site = the (tget (gs_deployments live_site) ''d2'')"

lemma staged_site: "tget (gs_deployments live_site) ''d2'' = Some staged_site" "gd_state staged_site = Ds_Building" "gd_project staged_site = ''shop''"
proof -
  have "tget (gs_deployments live_site) ''d2'' \<noteq> None" by code_simp
  then show "tget (gs_deployments live_site) ''d2'' = Some staged_site" unfolding staged_site_def by (rule option.collapse [symmetric])
  show "gd_state staged_site = Ds_Building" "gd_project staged_site = ''shop''" by code_simp+
qed

lemma publication_serves_witness:
  "gw_reach live_site \<and> gs_accepting live_site \<and> tget (gs_deployments live_site) ''d2'' = Some staged_site \<and> gd_state staged_site = Ds_Building \<and>
   (case select (Some ''shop.host'') (snd (publish_staged ''d2'' (Some True) live_site)) of
      Some s \<Rightarrow> sd_deployment s = staged_site\<lparr>gd_state := Ds_Ready, gd_production := True\<rparr> | None \<Rightarrow> False)"
proof -
  have h: "gs_accepting live_site" "host_name ''shop.host'' = ''shop.host''" "tget (gs_aliases_full live_site) (to_lowercase ''shop.host'') = None"
    by code_simp+
  have l: "first_label ''shop.host'' = gd_project staged_site" unfolding staged_site(3) by code_simp
  show ?thesis
    using live_site_reach h(1) staged_site publication_serves [OF live_site_reach h(1) staged_site(1,2) h(2) l h(3)] by blast
qed

lemma keepwarm_only_production_witness:
  "gw_orderly live_site \<and> map fst (reconcile_keepwarm live_site) = concat (map (\<lambda>(i, d). function_keys d) (gs_deployments live_site))"
  using live_site_orderly keepwarm_only_production [OF live_site_orderly] by blast

lemma removal_leaves_nothing_witness:
  "gw_reach live_site \<and> host_deployment_id ''shop.example'' live_site = Some ''d1'' \<and>
   host_deployment_id ''shop.example'' (remove_finish ''d1'' ''shop'' live_site) \<noteq> Some ''d1''"
proof -
  have "host_deployment_id ''shop.example'' live_site = Some ''d1''" by code_simp
  then show ?thesis using live_site_reach removal_leaves_nothing [OF live_site_reach, of "''d1''" "''shop''"] by blast
qed

lemma custom_domain_keeps_project_witness:
  "gw_reach live_site \<and> tget (gs_aliases_full live_site) ''shop.example'' = Some ''d1'' \<and>
   (\<exists>d d'. tget (gs_deployments live_site) ''d1'' = Some d \<and>
      tget (gs_deployments (gw_step (Ev_Publish ''d2'' (Some True)) live_site)) ''d2'' = Some d' \<and> gd_project d' = gd_project d \<and>
      gd_state d' = Ds_Ready)"
proof -
  have h: "gw_ok (Ev_Publish ''d2'' (Some True)) live_site" "exact_event (Ev_Publish ''d2'' (Some True)) live_site"
    "incarnations_owned (gw_step (Ev_Publish ''d2'' (Some True)) live_site)"
    "tget (gs_aliases_full (gw_step (Ev_Publish ''d2'' (Some True)) live_site)) ''shop.example'' = Some ''d2''"
    by code_simp+
  have a: "tget (gs_aliases_full live_site) ''shop.example'' = Some ''d1''" by code_simp
  show ?thesis using live_site_reach a custom_domain_keeps_project [OF live_site_reach h] by (simp del: map_of_eq_Some_iff) blast
qed

end
