(* ===== verification/Gateway_Browser.thy ===== *)
theory Gateway_Browser
  imports Gateway_Registry Wire_Bytes
begin

text \<open>
  Browsers that serve functions (\<open>crates/fluid-gateway/src/lib.rs\<close>): the table of their registrations, the choice of a
  browser for a request with its circuit and quota, the request handed to it and the reading of its answer, with the base64 of the bodies.
  JSON is a parser given as parameter, and so is the check of header names and values (crate http).
\<close>

section \<open>Base64\<close>

definition b64_char :: "nat \<Rightarrow> char" where
  "b64_char n = ''ABCDEFGHIJKLMNOPQRSTUVWXYZabcdefghijklmnopqrstuvwxyz0123456789+/'' ! n"

text \<open>Bit fields are arithmetic: \<open>a >> 2\<close> is \<open>a div 4\<close>, and an or of disjoint fields is their sum.\<close>

fun base64_encode :: "string \<Rightarrow> string" where
  "base64_encode [] = []"
| "base64_encode [a] = [b64_char (of_char a div 4), b64_char (of_char a mod 4 * 16), CHR ''='', CHR ''='']"
| "base64_encode [a, b] = [b64_char (of_char a div 4), b64_char (of_char a mod 4 * 16 + of_char b div 16),
     b64_char (of_char b mod 16 * 4), CHR ''='']"
| "base64_encode (a # b # c # r) = b64_char (of_char a div 4) # b64_char (of_char a mod 4 * 16 + of_char b div 16)
     # b64_char (of_char b mod 16 * 4 + of_char c div 64) # b64_char (of_char c mod 64) # base64_encode r"

definition b64_value :: "char \<Rightarrow> nat option" where
  "b64_value x =
     (let n = of_char x
      in if 65 \<le> n \<and> n \<le> 90 then Some (n - 65)
         else if 97 \<le> n \<and> n \<le> 122 then Some (n - 97 + 26)
         else if 48 \<le> n \<and> n \<le> 57 then Some (n - 48 + 52)
         else if n = 43 then Some 62
         else if n = 47 then Some 63
         else None)"

text \<open>One chunk of four characters, the last one or not.\<close>

definition b64_chunk :: "bool \<Rightarrow> char \<Rightarrow> char \<Rightarrow> char \<Rightarrow> char \<Rightarrow> string option" where
  "b64_chunk final p q r s =
     (if r = CHR ''='' \<and> s \<noteq> CHR ''='' then None
      else
        (let padding = (if r = CHR ''='' then 2 else if s = CHR ''='' then 1 else (0::nat))
         in if \<not> final \<and> padding \<noteq> 0 then None
            else Option.bind (b64_value p) (\<lambda>a. Option.bind (b64_value q) (\<lambda>b.
              Option.bind (if padding = 2 then Some 0 else b64_value r) (\<lambda>c.
              Option.bind (if padding = 0 then b64_value s else Some 0) (\<lambda>d.
                if padding = 2 \<and> b mod 16 \<noteq> 0 \<or> padding = 1 \<and> c mod 4 \<noteq> 0 then None
                else Some (char_of (a * 4 + b div 16) #
                  (if padding < 2 then [char_of (b mod 16 * 16 + c div 4)] else []) @
                  (if padding = 0 then [char_of (c mod 4 * 64 + d)] else []))))))))"

fun b64_chunks :: "string \<Rightarrow> string option" where
  "b64_chunks [] = Some []"
| "b64_chunks (p # q # r # s # t) =
     Option.bind (b64_chunk (t = []) p q r s) (\<lambda>x. map_option (\<lambda>y. x @ y) (b64_chunks t))"
| "b64_chunks _ = None"

definition base64_decode :: "string \<Rightarrow> string option" where
  "base64_decode t = (if length t mod 4 \<noteq> 0 then None else b64_chunks t)"

section \<open>Registrations\<close>

datatype browser_scope = Team_Scope | Public_Scope

record browser_target =
  bt_tenant :: string
  bt_deployment :: string
  bt_function :: string
  bt_endpoint_id :: string
  bt_addr_json :: string
  bt_digest :: string
  bt_expires_ms :: nat
  bt_scope :: browser_scope

record browser_routes =
  br_invoker :: bool
  br_by_function :: "(string, browser_target list) table"
  br_circuit_until :: "(string, nat) table"
  br_invoke_quota :: "(string, nat \<times> nat) table"

definition browser_routes_default :: browser_routes where
  "browser_routes_default = \<lparr>br_invoker = False, br_by_function = [], br_circuit_until = [], br_invoke_quota = []\<rparr>"

definition MAX_BROWSER_TARGETS_PER_ENDPOINT :: nat where
  "MAX_BROWSER_TARGETS_PER_ENDPOINT = 64"

definition hex64 :: "string \<Rightarrow> bool" where
  "hex64 s \<longleftrightarrow> length s = 64 \<and> list_all (\<lambda>b. is_digit b \<or> (CHR ''a'' \<le> b \<and> b \<le> CHR ''f'')) s"

definition set_browser_invoker :: "browser_routes \<Rightarrow> browser_routes" where
  "set_browser_invoker br = br\<lparr>br_invoker := True\<rparr>"

definition target_valid :: "string \<Rightarrow> browser_target \<Rightarrow> bool" where
  "target_valid endpoint t \<longleftrightarrow>
     trim (bt_tenant t) \<noteq> [] \<and> trim (bt_deployment t) \<noteq> [] \<and> trim (bt_function t) \<noteq> [] \<and>
     bt_endpoint_id t = endpoint \<and> hex64 (bt_digest t)"

definition target_key :: "browser_target \<Rightarrow> string" where
  "target_key t = func_key (bt_deployment t) (bt_function t)"

fun validate_targets :: "string \<Rightarrow> (string \<times> browser_target) list \<Rightarrow> browser_target list \<Rightarrow> string + (string \<times> browser_target) list" where
  "validate_targets endpoint acc [] = Inr acc"
| "validate_targets endpoint acc (t # ts) =
     (if \<not> target_valid endpoint t then Inl ''invalid browser serving target''
      else if list_ex (\<lambda>(k, x). k = target_key t) acc then Inl ''duplicate browser serving target for one function''
      else validate_targets endpoint (acc @ [(target_key t, t)]) ts)"

definition drop_endpoint :: "string \<Rightarrow> (string, browser_target list) table \<Rightarrow> (string, browser_target list) table" where
  "drop_endpoint endpoint m = tretain (\<lambda>k ts. ts \<noteq> []) (map (\<lambda>(k, ts). (k, filter (\<lambda>t. bt_endpoint_id t \<noteq> endpoint) ts)) m)"

definition add_target :: "string \<times> browser_target \<Rightarrow> (string, browser_target list) table \<Rightarrow> (string, browser_target list) table" where
  "add_target kt m =
     (case kt of (key, t) \<Rightarrow>
        tput key (sort_key (\<lambda>t. (bt_endpoint_id t, bt_digest t)) ((case tget m key of Some ts \<Rightarrow> ts | None \<Rightarrow> []) @ [t])) m)"

definition set_browser_targets :: "string \<Rightarrow> browser_target list \<Rightarrow> browser_routes \<Rightarrow> (string + unit) \<times> browser_routes" where
  "set_browser_targets endpoint ts br =
     (if \<not> hex64 endpoint then (Inl ''invalid browser serving endpoint id'', br)
      else if length ts > MAX_BROWSER_TARGETS_PER_ENDPOINT then (Inl ''too many browser serving targets for one endpoint'', br)
      else (case validate_targets endpoint [] ts of
              Inl e \<Rightarrow> (Inl e, br)
            | Inr validated \<Rightarrow> (Inr (), br\<lparr>br_by_function := fold add_target validated (drop_endpoint endpoint (br_by_function br))\<rparr>)))"

definition upsert_browser_target :: "browser_target \<Rightarrow> browser_routes \<Rightarrow> (string + unit) \<times> browser_routes" where
  "upsert_browser_target t = set_browser_targets (bt_endpoint_id t) [t]"

definition remove_browser_endpoint :: "string \<Rightarrow> browser_routes \<Rightarrow> nat \<times> browser_routes" where
  "remove_browser_endpoint endpoint br =
     (sum_list (map (\<lambda>(k, ts). length ts - length (filter (\<lambda>t. bt_endpoint_id t \<noteq> endpoint) ts)) (br_by_function br)),
      br\<lparr>br_by_function := drop_endpoint endpoint (br_by_function br),
         br_circuit_until := tretain (\<lambda>k v. \<not> starts_with endpoint k) (br_circuit_until br),
         br_invoke_quota := tdel endpoint (br_invoke_quota br)\<rparr>)"

definition browser_targets :: "browser_routes \<Rightarrow> browser_target list" where
  "browser_targets br =
     sort_key (\<lambda>t. (bt_tenant t, bt_deployment t, bt_function t, bt_endpoint_id t, bt_digest t)) (concat (map snd (br_by_function br)))"

section \<open>Choosing a browser\<close>

definition circuit_key :: "browser_target \<Rightarrow> string" where
  "circuit_key t = bt_endpoint_id t @ '':'' @ bt_digest t"

definition quota_open :: "nat \<Rightarrow> nat \<Rightarrow> nat \<Rightarrow> browser_routes \<Rightarrow> string \<Rightarrow> bool" where
  "quota_open now window quota br endpoint \<longleftrightarrow>
     (case tget (br_invoke_quota br) endpoint of
        None \<Rightarrow> True
      | Some (start, used) \<Rightarrow> now - start \<ge> window \<or> used < quota)"

definition target_usable :: "nat \<Rightarrow> nat \<Rightarrow> nat \<Rightarrow> string option \<Rightarrow> gw_deployment \<Rightarrow> string \<Rightarrow> browser_routes \<Rightarrow> browser_target \<Rightarrow> bool" where
  "target_usable now window quota caller dep name br t \<longleftrightarrow>
     bt_tenant t = gd_tenant dep \<and> bt_deployment t = gd_id dep \<and> bt_function t = name \<and>
     (case bt_scope t of Public_Scope \<Rightarrow> True | Team_Scope \<Rightarrow> caller = Some (bt_tenant t)) \<and>
     bt_expires_ms t > now \<and>
     (case tget (br_circuit_until br) (circuit_key t) of Some u \<Rightarrow> u \<le> now | None \<Rightarrow> True) \<and>
     quota_open now window quota br (bt_endpoint_id t)"

definition pick_browser :: "nat \<Rightarrow> nat \<Rightarrow> nat \<Rightarrow> string option \<Rightarrow> gw_deployment \<Rightarrow> string \<Rightarrow> browser_routes \<Rightarrow> browser_target option" where
  "pick_browser now window quota caller dep name br =
     (if \<not> br_invoker br then None
      else (case tget (br_by_function br) (func_key (gd_id dep) name) of
              None \<Rightarrow> None
            | Some ts \<Rightarrow> find (target_usable now window quota caller dep name br) ts))"

text \<open>The invocation is counted under a lock of its own, after the choice.\<close>

definition charge_browser :: "nat \<Rightarrow> nat \<Rightarrow> browser_target \<Rightarrow> browser_routes \<Rightarrow> browser_routes" where
  "charge_browser now window t br =
     (let (start, used) = (case tget (br_invoke_quota br) (bt_endpoint_id t) of Some e \<Rightarrow> e | None \<Rightarrow> (now, 0))
      in br\<lparr>br_invoke_quota := tput (bt_endpoint_id t) (if now - start \<ge> window then (now, 1) else (start, used + 1)) (br_invoke_quota br)\<rparr>)"

definition open_circuit :: "nat \<Rightarrow> nat \<Rightarrow> browser_target \<Rightarrow> browser_routes \<Rightarrow> browser_routes" where
  "open_circuit now circuit_ms t br =
     br\<lparr>br_circuit_until := tput (circuit_key t) (min (2 ^ 64 - 1) (now + circuit_ms)) (br_circuit_until br)\<rparr>"

section \<open>Requests and answers\<close>

record browser_request =
  bq_method :: string
  bq_path :: string
  bq_headers :: "(string, string) table"
  bq_body :: string
  bq_body_base64 :: string

definition withheld :: "string list" where
  "withheld = [''connection'', ''content-length'', ''host'', ''transfer-encoding'', ''upgrade'', ''authorization'', ''cookie'',
     ''proxy-authorization'']"

text \<open>Names are in lower case in a header map, and a value that is not text has none here.\<close>

type_synonym header_map = "(string \<times> string option) list"

definition browser_request_of :: "string \<Rightarrow> string \<Rightarrow> header_map \<Rightarrow> string \<Rightarrow> browser_request" where
  "browser_request_of method path_q hs body =
     \<lparr>bq_method = method, bq_path = path_q,
      bq_headers = fold (\<lambda>(n, v) m. case v of Some s \<Rightarrow> tput n s m | None \<Rightarrow> m) (filter (\<lambda>(n, v). n \<notin> set withheld) hs) [],
      bq_body = (if utf8_valid body then body else []), bq_body_base64 = base64_encode body\<rparr>"

record browser_envelope =
  be_status :: nat
  be_headers :: "(string \<times> string) list"
  be_body :: string
  be_body_base64 :: "string option"

record gw_response =
  re_status :: nat
  re_headers :: "(string \<times> string) list"
  re_body :: string

definition header_put :: "string \<Rightarrow> string \<Rightarrow> gw_response \<Rightarrow> gw_response" where
  "header_put k v r = r\<lparr>re_headers := filter (\<lambda>(n, x). n \<noteq> k) (re_headers r) @ [(k, v)]\<rparr>"

definition browser_hop_headers :: "string list" where
  "browser_hop_headers = [''connection'', ''keep-alive'', ''proxy-authenticate'', ''proxy-authorization'', ''te'', ''trailer'',
     ''transfer-encoding'', ''upgrade'', ''content-length'']"

fun browser_headers ::
    "(string \<Rightarrow> bool) \<Rightarrow> (string \<Rightarrow> bool) \<Rightarrow> (string \<times> string) list \<Rightarrow> string + (string \<times> string) list" where
  "browser_headers name_ok value_ok [] = Inr []"
| "browser_headers name_ok value_ok ((n, v) # hs) =
     (let lower = to_lowercase n
      in if lower \<in> set browser_hop_headers then browser_headers name_ok value_ok hs
         else if \<not> name_ok lower then Inl (''invalid browser response header name: '' @ n)
         else if \<not> value_ok v then Inl (''invalid browser response header value: '' @ lower)
         else (case browser_headers name_ok value_ok hs of Inl e \<Rightarrow> Inl e | Inr r \<Rightarrow> Inr ((lower, v) # r)))"

definition browser_response ::
    "(string \<Rightarrow> browser_envelope option) \<Rightarrow> (string \<Rightarrow> bool) \<Rightarrow> (string \<Rightarrow> bool) \<Rightarrow> string \<Rightarrow> string + gw_response" where
  "browser_response parse name_ok value_ok bytes =
     (case parse bytes of
        None \<Rightarrow> Inl ''malformed browser response''
      | Some e \<Rightarrow>
          if \<not> (100 \<le> be_status e \<and> be_status e \<le> 599) then Inl ''browser response status is outside 100..599''
          else (case (case be_body_base64 e of Some t \<Rightarrow> base64_decode t | None \<Rightarrow> Some (be_body e)) of
                  None \<Rightarrow> Inl ''browser response bodyBase64 is not canonical base64''
                | Some body \<Rightarrow>
                    if length body > 2 ^ 20 then Inl ''browser response body exceeds frame limit''
                    else (case browser_headers name_ok value_ok (be_headers e) of
                            Inl err \<Rightarrow> Inl err
                          | Inr hs \<Rightarrow> Inr (header_put ''x-hive-runtime'' ''browser'' \<lparr>re_status = be_status e, re_headers = hs, re_body = body\<rparr>))))"

datatype browser_failure = Browser_Failure bool string
datatype browser_attempt = Attempt_None | Attempt_Response gw_response | Attempt_Failed browser_failure

text \<open>The choice holds the lock for reading, the count and the circuit take it for writing, each on its own. \<open>bw_between\<close> is what
  other tasks do to the table between the choice and the count, \<open>bw_meanwhile\<close> what they do during the invocation.\<close>

record browser_env =
  bw_now :: nat
  bw_window_ms :: nat
  bw_quota :: nat
  bw_circuit_ms :: nat
  bw_caller :: "string option"
  bw_invoke :: "browser_target \<Rightarrow> browser_request \<Rightarrow> browser_failure + string"
  bw_between :: "browser_routes \<Rightarrow> browser_routes"
  bw_meanwhile :: "browser_routes \<Rightarrow> browser_routes"
  bw_later :: nat
  bw_parse :: "string \<Rightarrow> browser_envelope option"
  bw_name_ok :: "string \<Rightarrow> bool"
  bw_value_ok :: "string \<Rightarrow> bool"

definition try_browser ::
    "browser_env \<Rightarrow> gw_deployment \<Rightarrow> string \<Rightarrow> string \<Rightarrow> string \<Rightarrow> header_map \<Rightarrow> string \<Rightarrow> browser_routes \<Rightarrow> browser_attempt \<times> browser_routes" where
  "try_browser w dep name method path_q hs body br =
     (case pick_browser (bw_now w) (bw_window_ms w) (bw_quota w) (bw_caller w) dep name br of
        None \<Rightarrow> (Attempt_None, br)
      | Some t \<Rightarrow>
          (let br1 = bw_meanwhile w (charge_browser (bw_now w) (bw_window_ms w) t (bw_between w br));
               answer = (case bw_invoke w t (browser_request_of method path_q hs body) of
                           Inl f \<Rightarrow> Inl f
                         | Inr bytes \<Rightarrow> (case browser_response (bw_parse w) (bw_name_ok w) (bw_value_ok w) bytes of
                                          Inl e \<Rightarrow> Inl (Browser_Failure True e)
                                        | Inr r \<Rightarrow> Inr r))
           in case answer of
                Inr r \<Rightarrow> (Attempt_Response r, br1)
              | Inl f \<Rightarrow> (Attempt_Failed f, open_circuit (bw_later w) (bw_circuit_ms w) t br1)))"

end
