(* ===== verification/Gateway_Browser_Props.thy ===== *)
theory Gateway_Browser_Props
  imports Gateway_Browser
begin

text \<open>
  What the gateway promises about browsers that serve functions: base64 is exact, the registrations of a browser are replaced as a whole,
  only a browser that may serve a request gets it, without the credentials of the caller, and quotas hold.
\<close>

section \<open>Base64\<close>

lemma b64_value_char:
  assumes "k < 64"
  shows "b64_value (b64_char k) = Some k"
proof -
  have h: "\<forall>k \<in> set [0..<64]. b64_value (b64_char k) = Some k" by (simp add: upt_conv_Cons b64_char_def b64_value_def)
  have m: "k \<in> set [0..<64]" using assms by simp
  show ?thesis by (rule bspec [OF h m])
qed

lemma b64_chars_upper:
  assumes "65 \<le> k" and "k < 91"
  shows "of_char (b64_char (k - 65)) = k"
proof -
  have h: "\<forall>k \<in> set [65..<91]. of_char (b64_char (k - 65)) = k" by code_simp
  have m: "k \<in> set [65..<91]" using assms by (simp only: set_upt atLeastLessThan_iff simp_thms)
  show ?thesis by (rule bspec [OF h m])
qed

lemma b64_chars_lower:
  assumes "97 \<le> k" and "k < 123"
  shows "of_char (b64_char (k - 71)) = k"
proof -
  have h: "\<forall>k \<in> set [97..<123]. of_char (b64_char (k - 71)) = k" by code_simp
  have m: "k \<in> set [97..<123]" using assms by (simp only: set_upt atLeastLessThan_iff simp_thms)
  show ?thesis by (rule bspec [OF h m])
qed

lemma b64_chars_digit:
  assumes "48 \<le> k" and "k < 58"
  shows "of_char (b64_char (k + 4)) = k"
proof -
  have h: "\<forall>k \<in> set [48..<58]. of_char (b64_char (k + 4)) = k" by code_simp
  have m: "k \<in> set [48..<58]" using assms by (simp only: set_upt atLeastLessThan_iff simp_thms)
  show ?thesis by (rule bspec [OF h m])
qed

lemma b64_char_value:
  assumes "b64_value x = Some n"
  shows "n < 64 \<and> b64_char n = x"
proof -
  define k :: nat where "k = of_char x"
  have e: "of_char (b64_char 62) = (43::nat)" "of_char (b64_char 63) = (47::nat)" by code_simp+
  consider "65 \<le> k" "k < 91" "n = k - 65" | "97 \<le> k" "k < 123" "n = k - 71" | "48 \<le> k" "k < 58" "n = k + 4" | "k = 43" "n = 62" | "k = 47" "n = 63"
    using assms by (auto simp: b64_value_def Let_def k_def [symmetric] split: if_splits)
  then have "n < 64 \<and> of_char (b64_char n) = k"
    using b64_chars_upper [of k] b64_chars_lower [of k] b64_chars_digit [of k] e by cases auto
  then show ?thesis unfolding k_def by (simp add: of_char_eq_iff)
qed

lemma b64_char_not_pad: "k < 64 \<Longrightarrow> b64_char k \<noteq> CHR ''=''"
  using b64_value_char [of k] by (auto simp: b64_value_def)

lemma of_char_lt [simp]: "(of_char (c::char) :: nat) < 256"
  using of_char_mod_256 [of c, where 'a = nat] mod_less_divisor [of 256 "of_char c"] by simp

lemma of_char_bounds [simp]: "(of_char (c::char) :: nat) div 4 < 64" "(of_char (c::char) :: nat) div 16 < 16" "(of_char (c::char) :: nat) div 64 < 4"
  using of_char_lt [of c] by (auto simp: less_mult_imp_div_less)

lemma field_lt: "x < m \<Longrightarrow> a mod k * m + x < k * m" if "0 < k" for x m a k :: nat
proof -
  assume x: "x < m"
  have "a mod k + 1 \<le> k" using that by (simp add: Suc_le_eq)
  then have "(a mod k + 1) * m \<le> k * m" by (rule mult_le_mono1)
  then show ?thesis using x by (simp add: algebra_simps)
qed

lemma b64_chunk_full:
  fixes a b c :: char
  shows "b64_chunk l (b64_char (of_char a div 4)) (b64_char (of_char a mod 4 * 16 + of_char b div 16))
     (b64_char (of_char b mod 16 * 4 + of_char c div 64)) (b64_char (of_char c mod 64)) = Some [a, b, c]"
proof -
  have l: "(of_char a :: nat) mod 4 * 16 + of_char b div 16 < 64" "(of_char b :: nat) mod 16 * 4 + of_char c div 64 < 64" "(of_char c :: nat) mod 64 < 64"
    using field_lt [of 4 "of_char b div 16" 16 "of_char a"] field_lt [of 16 "of_char c div 64" 4 "of_char b"] by simp_all
  have v: "(of_char a :: nat) div 4 * 4 + (of_char a mod 4 * 16 + of_char b div 16) div 16 = of_char a"
    "((of_char a :: nat) mod 4 * 16 + of_char b div 16) mod 16 * 16 + (of_char b mod 16 * 4 + of_char c div 64) div 4 = of_char b"
    "((of_char b :: nat) mod 16 * 4 + of_char c div 64) mod 4 * 64 + of_char c mod 64 = of_char c"
    using of_char_bounds [of b] of_char_bounds [of c] by (simp_all add: mod_mult_right_eq)
  show ?thesis using l v by (simp add: b64_chunk_def b64_value_char b64_char_not_pad)
qed

lemma b64_chunk_two:
  fixes a b :: char
  shows "b64_chunk True (b64_char (of_char a div 4)) (b64_char (of_char a mod 4 * 16 + of_char b div 16))
     (b64_char (of_char b mod 16 * 4)) CHR ''='' = Some [a, b]"
proof -
  have l: "(of_char a :: nat) mod 4 * 16 + of_char b div 16 < 64" "(of_char b :: nat) mod 16 * 4 < 64"
    using field_lt [of 4 "of_char b div 16" 16 "of_char a"] field_lt [of 16 0 4 "of_char b"] by simp_all
  have v: "(of_char a :: nat) div 4 * 4 + (of_char a mod 4 * 16 + of_char b div 16) div 16 = of_char a"
    "((of_char a :: nat) mod 4 * 16 + of_char b div 16) mod 16 * 16 + of_char b mod 16 * 4 div 4 = of_char b"
    using of_char_bounds [of b] by (simp_all add: mod_mult_right_eq)
  show ?thesis using l v by (simp add: b64_chunk_def b64_value_char b64_char_not_pad)
qed

lemma b64_chunk_one:
  fixes a :: char
  shows "b64_chunk True (b64_char (of_char a div 4)) (b64_char (of_char a mod 4 * 16)) CHR ''='' CHR ''='' = Some [a]"
proof -
  have l: "(of_char a :: nat) mod 4 * 16 < 64" using field_lt [of 4 0 16 "of_char a"] by simp
  have v: "(of_char a :: nat) div 4 * 4 + of_char a mod 4 * 16 div 16 = of_char a" by simp
  show ?thesis using l v by (simp add: b64_chunk_def b64_value_char b64_char_not_pad)
qed

lemma b64_chunks_encode: "b64_chunks (base64_encode x) = Some x"
  by (induction x rule: base64_encode.induct) (simp_all add: b64_chunk_full b64_chunk_two b64_chunk_one)

lemma length_base64_encode: "length (base64_encode x) mod 4 = 0"
  by (induction x rule: base64_encode.induct) simp_all

text \<open>The fields of a byte come back out of the sextets they were put into.\<close>

lemma sextet_fields:
  fixes a b c d :: nat
  assumes "a < 64" "b < 64" "c < 64" "d < 64"
  shows "a * 4 + b div 16 < 256" "b mod 16 * 16 + c div 4 < 256" "c mod 4 * 64 + d < 256"
    "(a * 4 + b div 16) div 4 = a" "(a * 4 + b div 16) mod 4 * 16 + (b mod 16 * 16 + c div 4) div 16 = b"
    "(b mod 16 * 16 + c div 4) mod 16 * 4 + (c mod 4 * 64 + d) div 64 = c" "(c mod 4 * 64 + d) mod 64 = d"
proof -
  have "b div 16 < 4" "c div 4 < 16" using assms by (auto simp: less_mult_imp_div_less)
  moreover from this have "b mod 16 * 16 + c div 4 < 16 * 16" "c mod 4 * 64 + d < 4 * 64"
    using assms by (intro field_lt; simp)+
  ultimately show "a * 4 + b div 16 < 256" "b mod 16 * 16 + c div 4 < 256" "c mod 4 * 64 + d < 256"
    "(a * 4 + b div 16) div 4 = a" "(a * 4 + b div 16) mod 4 * 16 + (b mod 16 * 16 + c div 4) div 16 = b"
    "(b mod 16 * 16 + c div 4) mod 16 * 4 + (c mod 4 * 64 + d) div 64 = c" "(c mod 4 * 64 + d) mod 64 = d"
    using assms by simp_all
qed

lemma of_char_of_small: "n < 256 \<Longrightarrow> of_char (char_of n) = (n :: nat)"
  by simp

lemma b64_chunk_canonical:
  assumes "b64_chunk l p q r s = Some x"
  shows "base64_encode (x @ (if l then [] else y)) = [p, q, r, s] @ (if l then [] else base64_encode y)"
proof -
  have np: "\<not> (r = CHR ''='' \<and> s \<noteq> CHR ''='')"
  proof
    assume "r = CHR ''='' \<and> s \<noteq> CHR ''=''"
    then have "b64_chunk l p q r s = None" unfolding b64_chunk_def by (simp only: simp_thms if_True)
    then show False using assms by simp
  qed
  consider (full) "r \<noteq> CHR ''=''" "s \<noteq> CHR ''=''" | (two) "r \<noteq> CHR ''=''" "s = CHR ''=''" | (one) "r = CHR ''=''" "s = CHR ''=''" using np by blast
  then show ?thesis
  proof cases
    case full
    obtain a b c d where v: "b64_value p = Some a" "b64_value q = Some b" "b64_value r = Some c" "b64_value s = Some d"
      and x: "x = [char_of (a * 4 + b div 16), char_of (b mod 16 * 16 + c div 4), char_of (c mod 4 * 64 + d)]"
      using assms full by (auto simp: b64_chunk_def bind_eq_Some_conv)
    note w = b64_char_value [OF v(1)] b64_char_value [OF v(2)] b64_char_value [OF v(3)] b64_char_value [OF v(4)]
    show ?thesis using w sextet_fields [of a b c d] unfolding x by (auto simp: of_char_of_small simp del: of_char_of)
  next
    case two
    obtain a b c where v: "b64_value p = Some a" "b64_value q = Some b" "b64_value r = Some c" and l: "l" "c mod 4 = 0"
      and x: "x = [char_of (a * 4 + b div 16), char_of (b mod 16 * 16 + c div 4)]"
      using assms two by (auto simp: b64_chunk_def bind_eq_Some_conv split: if_splits)
    note w = b64_char_value [OF v(1)] b64_char_value [OF v(2)] b64_char_value [OF v(3)]
    show ?thesis using w l two sextet_fields [of a b c 0] unfolding x by (auto simp: of_char_of_small simp del: of_char_of)
  next
    case one
    obtain a b where v: "b64_value p = Some a" "b64_value q = Some b" and l: "l" "b mod 16 = 0"
      and x: "x = [char_of (a * 4 + b div 16)]"
      using assms one by (auto simp: b64_chunk_def bind_eq_Some_conv split: if_splits)
    note w = b64_char_value [OF v(1)] b64_char_value [OF v(2)]
    show ?thesis using w l one sextet_fields [of a b 0 0] unfolding x by (auto simp: of_char_of_small simp del: of_char_of)
  qed
qed

lemma b64_chunks_canonical: "b64_chunks t = Some x \<Longrightarrow> base64_encode x = t"
proof (induction t arbitrary: x rule: b64_chunks.induct)
  case (2 p q r s t)
  obtain u y where u: "b64_chunk (t = []) p q r s = Some u" "b64_chunks t = Some y" "x = u @ y"
    using "2.prems" by (auto simp: bind_eq_Some_conv)
  have y: "base64_encode y = t" using "2.IH" [OF u(1) u(2)] .
  show ?case using b64_chunk_canonical [OF u(1), of y] u(2,3) y by (cases "t = []") auto
qed auto

text \<open>Base64 is exact: a text decodes to some bytes if and only if it is the encoding of those bytes. So decoding inverts encoding,
  no two texts decode to the same bytes, and every other text (bad alphabet, length, padding, or bits left over) is refused.\<close>
theorem base64_exact: "base64_decode t = Some x \<longleftrightarrow> t = base64_encode x"
proof
  assume "base64_decode t = Some x"
  then show "t = base64_encode x" using b64_chunks_canonical [of t x] by (simp add: base64_decode_def split: if_splits)
qed (simp add: base64_decode_def length_base64_encode b64_chunks_encode)

section \<open>Registrations\<close>

definition registered :: "browser_routes \<Rightarrow> browser_target \<Rightarrow> bool" where
  "registered br t \<longleftrightarrow> (\<exists>ts. tget (br_by_function br) (target_key t) = Some ts \<and> t \<in> set ts)"

text \<open>Registrations are stored under their function, once per browser, in order, and every one is valid.\<close>

definition targets_ok :: "string \<Rightarrow> browser_target list \<Rightarrow> bool" where
  "targets_ok key ts \<longleftrightarrow> ts \<noteq> [] \<and> (\<forall>t \<in> set ts. target_key t = key \<and> target_valid (bt_endpoint_id t) t \<and> hex64 (bt_endpoint_id t)) \<and>
     distinct (map bt_endpoint_id ts) \<and> sorted (map (\<lambda>t. (bt_endpoint_id t, bt_digest t)) ts)"

definition table_ok :: "(string, browser_target list) table \<Rightarrow> bool" where
  "table_ok m \<longleftrightarrow> distinct (tkeys m) \<and> (\<forall>key ts. tget m key = Some ts \<longrightarrow> targets_ok key ts)"

lemma validate_targets_ok:
  "validate_targets endpoint acc ts = Inr v \<Longrightarrow> (\<forall>(k, t) \<in> set acc. k = target_key t \<and> target_valid endpoint t) \<Longrightarrow> distinct (map fst acc) \<Longrightarrow>
   v = acc @ map (\<lambda>t. (target_key t, t)) ts \<and> (\<forall>(k, t) \<in> set v. k = target_key t \<and> target_valid endpoint t) \<and> distinct (map fst v)"
proof (induction endpoint acc ts rule: validate_targets.induct)
  case (2 endpoint acc t ts)
  then show ?case by (force simp: list_ex_iff split: if_splits)
qed auto

lemma distinct_filtered:
  assumes "distinct (tkeys m)"
  shows "distinct (tkeys (map (\<lambda>(k, ts). (k, filter (\<lambda>t. bt_endpoint_id t \<noteq> endpoint) ts)) m))"
proof -
  have k: "tkeys (map (\<lambda>(k, ts). (k, filter (\<lambda>t. bt_endpoint_id t \<noteq> endpoint) ts)) m) = tkeys m" by (induction m) auto
  show ?thesis unfolding k by (rule assms)
qed

lemma list_case_mem: "(\<exists>xs. (case ys of [] \<Rightarrow> None | z # zs \<Rightarrow> Some (z # zs)) = Some xs \<and> t \<in> set xs) \<longleftrightarrow> t \<in> set ys"
  by (cases ys) auto

lemma tget_map_filter:
  assumes "distinct (tkeys m)"
  shows "tget (drop_endpoint endpoint m) key =
     (case tget m key of None \<Rightarrow> None
      | Some ts \<Rightarrow> (case filter (\<lambda>t. bt_endpoint_id t \<noteq> endpoint) ts of [] \<Rightarrow> None | xs \<Rightarrow> Some xs))"
  unfolding drop_endpoint_def tget_tretain [OF distinct_filtered [OF assms]]
  by (simp add: map_of_map del: map_of_eq_Some_iff map_of_eq_None_iff split: option.splits list.splits)

lemma tget_add_target:
  "tget (add_target (k, t) m) key =
     (if key = k then Some (sort_key (\<lambda>t. (bt_endpoint_id t, bt_digest t)) ((case tget m k of Some ts \<Rightarrow> ts | None \<Rightarrow> []) @ [t])) else tget m key)"
  by (simp add: add_target_def)

lemma distinct_fold_add: "distinct (tkeys m) \<Longrightarrow> distinct (tkeys (fold add_target v m))"
  by (induction v arbitrary: m) (auto simp: add_target_def split: prod.splits)

lemma tget_fold_add:
  "distinct (map fst v) \<Longrightarrow> tget (fold add_target v m) key =
     (case tget v key of
        Some t \<Rightarrow> Some (sort_key (\<lambda>t. (bt_endpoint_id t, bt_digest t)) ((case tget m key of Some ts \<Rightarrow> ts | None \<Rightarrow> []) @ [t]))
      | None \<Rightarrow> tget m key)"
proof (induction v arbitrary: m)
  case (Cons x v)
  obtain k t where x: "x = (k, t)" by fastforce
  have n: "tget v k = None" using Cons.prems x by (simp add: tget_None_iff)
  show ?case
  proof (cases "key = k")
    case True
    then show ?thesis using Cons.IH [of "add_target x m"] Cons.prems x n by (simp add: tget_add_target del: map_of_eq_Some_iff map_of_eq_None_iff)
  next
    case False
    have e: "tget (add_target x m) key = tget m key" unfolding x tget_add_target using False by simp
    have v: "tget (x # v) key = tget v key" using False x by simp
    have d: "distinct (tkeys v)" using Cons.prems by simp
    show ?thesis using Cons.IH [OF d, of "add_target x m"] unfolding e v by simp
  qed
qed simp

lemma drop_endpoint_Some:
  assumes "distinct (tkeys m)" and "tget (drop_endpoint endpoint m) key = Some xs"
  shows "\<exists>ts. tget m key = Some ts \<and> xs = filter (\<lambda>t. bt_endpoint_id t \<noteq> endpoint) ts \<and> xs \<noteq> []"
  using assms by (auto simp: tget_map_filter simp del: map_of_eq_Some_iff split: option.splits list.splits)

lemma drop_endpoint_ok:
  assumes "table_ok m"
  shows "table_ok (drop_endpoint endpoint m)"
proof -
  have d: "distinct (tkeys m)" using assms by (simp add: table_ok_def)
  have "distinct (tkeys (drop_endpoint endpoint m))"
    unfolding drop_endpoint_def by (rule distinct_tretain [OF distinct_filtered [OF d]])
  moreover have "targets_ok key xs" if x: "tget (drop_endpoint endpoint m) key = Some xs" for key xs
  proof -
    obtain ts where ts: "tget m key = Some ts" "xs = filter (\<lambda>t. bt_endpoint_id t \<noteq> endpoint) ts" "xs \<noteq> []"
      using drop_endpoint_Some [OF d x] by blast
    have "targets_ok key ts" using assms ts(1) by (simp add: table_ok_def del: map_of_eq_Some_iff)
    then show ?thesis using ts(2,3) by (simp add: targets_ok_def distinct_map_filter sorted_filter)
  qed
  ultimately show ?thesis by (simp add: table_ok_def del: map_of_eq_Some_iff)
qed

lemma targets_ok_add:
  assumes "xs = [] \<or> targets_ok key xs" and "\<forall>x \<in> set xs. bt_endpoint_id x \<noteq> bt_endpoint_id t" and "target_key t = key"
    and "target_valid (bt_endpoint_id t) t" and "hex64 (bt_endpoint_id t)"
  shows "targets_ok key (sort_key (\<lambda>t. (bt_endpoint_id t, bt_digest t)) (xs @ [t]))"
proof -
  let ?f = "\<lambda>t. (bt_endpoint_id t, bt_digest t)"
  have "mset (map bt_endpoint_id (sort_key ?f (xs @ [t]))) = mset (map bt_endpoint_id (xs @ [t]))" by simp
  moreover have "distinct (map bt_endpoint_id (xs @ [t]))" using assms(1,2) by (auto simp: targets_ok_def)
  ultimately have "distinct (map bt_endpoint_id (sort_key ?f (xs @ [t])))" using mset_eq_imp_distinct_iff by blast
  moreover have "sort_key ?f (xs @ [t]) \<noteq> []" by (metis append_is_Nil_conv length_0_conv length_sort not_Cons_self2)
  ultimately show ?thesis using assms by (auto simp: targets_ok_def)
qed

lemma set_targets_table:
  assumes "table_ok m" and "hex64 endpoint" and "validate_targets endpoint [] ts = Inr v"
  shows "table_ok (fold add_target v (drop_endpoint endpoint m)) \<and>
    (\<forall>t. (\<exists>xs. tget (fold add_target v (drop_endpoint endpoint m)) (target_key t) = Some xs \<and> t \<in> set xs) \<longleftrightarrow>
       t \<in> set ts \<or> (bt_endpoint_id t \<noteq> endpoint \<and> (\<exists>xs. tget m (target_key t) = Some xs \<and> t \<in> set xs)))"
proof -
  let ?d = "drop_endpoint endpoint m"
  have v: "v = map (\<lambda>t. (target_key t, t)) ts" "\<forall>(k, t) \<in> set v. k = target_key t \<and> target_valid endpoint t" "distinct (map fst v)"
    using validate_targets_ok [OF assms(3)] by auto
  have dm: "distinct (tkeys m)" using assms(1) by (simp add: table_ok_def)
  have ok: "table_ok ?d" by (rule drop_endpoint_ok [OF assms(1)])
  have old: "bt_endpoint_id x \<noteq> endpoint" if "tget ?d key = Some xs" "x \<in> set xs" for key xs x
    using drop_endpoint_Some [OF dm that(1)] that(2) by auto
  have new: "target_key t = key \<and> target_valid endpoint t \<and> t \<in> set ts \<and> bt_endpoint_id t = endpoint" if "tget v key = Some t" for key t
    using map_of_SomeD [OF that] v by (auto simp: target_valid_def)
  have t1: "targets_ok key xs" if x: "tget (fold add_target v ?d) key = Some xs" for key xs
  proof (cases "tget v key")
    case (Some t)
    define ys where "ys = (case tget ?d key of Some ts \<Rightarrow> ts | None \<Rightarrow> [])"
    have "ys = [] \<or> targets_ok key ys" using ok by (auto simp: ys_def table_ok_def simp del: map_of_eq_Some_iff split: option.splits)
    moreover have "\<forall>x \<in> set ys. bt_endpoint_id x \<noteq> bt_endpoint_id t"
      using new [OF Some] old [of key] unfolding ys_def by (cases "tget ?d key") (simp_all del: map_of_eq_Some_iff)
    moreover have "xs = sort_key (\<lambda>t. (bt_endpoint_id t, bt_digest t)) (ys @ [t])" using x Some by (simp add: tget_fold_add [OF v(3)] ys_def del: map_of_eq_Some_iff)
    ultimately show ?thesis using targets_ok_add [of ys key t] new [OF Some] assms(2) by auto
  next
    case None
    then show ?thesis using x ok by (simp add: tget_fold_add [OF v(3)] table_ok_def del: map_of_eq_Some_iff map_of_eq_None_iff)
  qed
  have self: "tget v (target_key t) = Some t" if "t \<in> set ts" for t
    using that v(1,3) by (intro map_of_is_SomeI) auto
  have t2: "(\<exists>xs. tget (fold add_target v ?d) (target_key t) = Some xs \<and> t \<in> set xs) \<longleftrightarrow>
       t \<in> set ts \<or> (bt_endpoint_id t \<noteq> endpoint \<and> (\<exists>xs. tget m (target_key t) = Some xs \<and> t \<in> set xs))" (is "?L \<longleftrightarrow> ?R") for t
  proof -
    have k: "(\<exists>xs. tget ?d (target_key t) = Some xs \<and> t \<in> set xs) \<longleftrightarrow> bt_endpoint_id t \<noteq> endpoint \<and> (\<exists>xs. tget m (target_key t) = Some xs \<and> t \<in> set xs)"
      unfolding tget_map_filter [OF dm]
      by (cases "tget m (target_key t)") (auto simp: list_case_mem simp del: map_of_eq_Some_iff map_of_eq_None_iff)
    show ?thesis
    proof (cases "tget v (target_key t)")
      case None
      then show ?thesis using k self [of t] by (auto simp: tget_fold_add [OF v(3)] simp del: map_of_eq_Some_iff map_of_eq_None_iff)
    next
      case (Some u)
      have "?L \<longleftrightarrow> t = u \<or> (\<exists>xs. tget ?d (target_key t) = Some xs \<and> t \<in> set xs)"
        using Some by (auto simp: tget_fold_add [OF v(3)] simp del: map_of_eq_Some_iff map_of_eq_None_iff split: option.splits)
      then show ?thesis using k new [OF Some] self [of t] Some by auto
    qed
  qed
  show ?thesis unfolding table_ok_def using t1 t2 distinct_fold_add [of ?d v] ok by (simp add: table_ok_def del: map_of_eq_Some_iff)
qed

text \<open>Replacing the registrations of a browser is atomic: a refused set changes nothing; an accepted one leaves the browser registered for exactly
  the functions of the set and every other browser as it was, with the table well-formed: every function has each browser at most
  once, in a fixed order, and only valid registrations. A removed browser is registered nowhere.\<close>
theorem registrations_replaced:
  assumes "table_ok (br_by_function br)"
  shows "(case set_browser_targets endpoint ts br of
      (Inl e, br') \<Rightarrow> br' = br
    | (Inr u, br') \<Rightarrow> table_ok (br_by_function br') \<and> length ts \<le> 64 \<and>
        (\<forall>t. registered br' t \<longleftrightarrow> t \<in> set ts \<or> (registered br t \<and> bt_endpoint_id t \<noteq> endpoint))) \<and>
    table_ok (br_by_function (snd (remove_browser_endpoint endpoint br))) \<and>
    (\<forall>t. registered (snd (remove_browser_endpoint endpoint br)) t \<longleftrightarrow> registered br t \<and> bt_endpoint_id t \<noteq> endpoint)"
proof -
  have d: "distinct (tkeys (br_by_function br))" using assms by (simp add: table_ok_def)
  have rm: "registered (snd (remove_browser_endpoint endpoint br)) t \<longleftrightarrow> registered br t \<and> bt_endpoint_id t \<noteq> endpoint" for t
    unfolding registered_def remove_browser_endpoint_def snd_conv browser_routes.simps tget_map_filter [OF d]
    by (cases "tget (br_by_function br) (target_key t)") (auto simp: list_case_mem tget_map_filter [OF d] simp del: map_of_eq_Some_iff map_of_eq_None_iff)
  have rt: "table_ok (br_by_function (snd (remove_browser_endpoint endpoint br)))"
    using drop_endpoint_ok [OF assms] by (simp add: remove_browser_endpoint_def)
  have "case set_browser_targets endpoint ts br of
      (Inl e, br') \<Rightarrow> br' = br
    | (Inr u, br') \<Rightarrow> table_ok (br_by_function br') \<and> length ts \<le> 64 \<and>
        (\<forall>t. registered br' t \<longleftrightarrow> t \<in> set ts \<or> (registered br t \<and> bt_endpoint_id t \<noteq> endpoint))"
  proof (cases "hex64 endpoint \<and> length ts \<le> 64")
    case True
    show ?thesis
    proof (cases "validate_targets endpoint [] ts")
      case (Inr v)
      then show ?thesis using True set_targets_table [OF assms _ Inr]
        by (auto simp: set_browser_targets_def MAX_BROWSER_TARGETS_PER_ENDPOINT_def registered_def simp del: map_of_eq_Some_iff)
    qed (use True in \<open>simp add: set_browser_targets_def MAX_BROWSER_TARGETS_PER_ENDPOINT_def\<close>)
  qed (auto simp: set_browser_targets_def MAX_BROWSER_TARGETS_PER_ENDPOINT_def)
  then show ?thesis using rm rt by blast
qed

section \<open>Requests\<close>

lemma tget_fold_headers:
  "tget (fold (\<lambda>(n, v) m. case v of Some s \<Rightarrow> tput n s m | None \<Rightarrow> m) hs m) k = Some s \<Longrightarrow> (k, Some s) \<in> set hs \<or> tget m k = Some s"
  by (induction hs arbitrary: m) (force simp del: map_of_eq_Some_iff split: option.splits if_splits)+

text \<open>What lets a browser serve a request, in the words of the design.\<close>

definition may_serve :: "browser_env \<Rightarrow> gw_deployment \<Rightarrow> string \<Rightarrow> browser_routes \<Rightarrow> browser_target \<Rightarrow> bool" where
  "may_serve w dep name br t \<longleftrightarrow>
     bt_tenant t = gd_tenant dep \<and> bt_deployment t = gd_id dep \<and> bt_function t = name \<and> bw_now w < bt_expires_ms t \<and>
     (bt_scope t = Public_Scope \<or> bw_caller w = Some (gd_tenant dep)) \<and>
     (case tget (br_circuit_until br) (bt_endpoint_id t @ '':'' @ bt_digest t) of None \<Rightarrow> True | Some until_ms \<Rightarrow> until_ms \<le> bw_now w) \<and>
     (case tget (br_invoke_quota br) (bt_endpoint_id t) of
        None \<Rightarrow> True
      | Some (start, used) \<Rightarrow> bw_window_ms w \<le> bw_now w - start \<or> used < bw_quota w)"

lemma usable_may_serve: "target_usable (bw_now w) (bw_window_ms w) (bw_quota w) (bw_caller w) dep name br t \<longleftrightarrow> may_serve w dep name br t"
  by (cases "bt_scope t") (auto simp: target_usable_def may_serve_def quota_open_def circuit_key_def)

lemma pick_browser_exact:
  "case pick_browser (bw_now w) (bw_window_ms w) (bw_quota w) (bw_caller w) dep name br of
     None \<Rightarrow> \<not> br_invoker br \<or> (case tget (br_by_function br) (func_key (gd_id dep) name) of
       None \<Rightarrow> True | Some ts \<Rightarrow> list_all (\<lambda>t. \<not> may_serve w dep name br t) ts)
   | Some t \<Rightarrow> may_serve w dep name br t \<and> (\<exists>ts. tget (br_by_function br) (func_key (gd_id dep) name) = Some ts \<and> t \<in> set ts)"
proof (cases "tget (br_by_function br) (func_key (gd_id dep) name)")
  case (Some ts)
  have "\<And>t. find (target_usable (bw_now w) (bw_window_ms w) (bw_quota w) (bw_caller w) dep name br) ts = Some t \<Longrightarrow> may_serve w dep name br t \<and> t \<in> set ts"
    by (auto simp: find_Some_iff usable_may_serve)
  then show ?thesis using Some
    by (simp add: pick_browser_def find_None_iff usable_may_serve list_all_iff del: map_of_eq_Some_iff split: option.split)
qed (simp add: pick_browser_def del: map_of_eq_None_iff)

text \<open>What a browser is told of a request.\<close>

definition told :: "string \<Rightarrow> string \<Rightarrow> header_map \<Rightarrow> string \<Rightarrow> browser_request \<Rightarrow> bool" where
  "told method path_q hs body rq \<longleftrightarrow>
     bq_method rq = method \<and> bq_path rq = path_q \<and> base64_decode (bq_body_base64 rq) = Some body \<and>
     list_all (\<lambda>secret. tget (bq_headers rq) secret = None)
       [''authorization'', ''proxy-authorization'', ''cookie'', ''host'', ''connection'', ''content-length'', ''transfer-encoding'', ''upgrade''] \<and>
     (\<forall>k s. tget (bq_headers rq) k = Some s \<longrightarrow> (k, Some s) \<in> set hs) \<and>
     list_all (\<lambda>(k, v). v = None \<or> tget (bq_headers rq) k \<noteq> None \<or>
        k \<in> set [''authorization'', ''proxy-authorization'', ''cookie'', ''host'', ''connection'', ''content-length'', ''transfer-encoding'', ''upgrade'']) hs"

lemma fold_headers_kept:
  "tget m k \<noteq> None \<or> (k, Some s) \<in> set hs \<Longrightarrow> tget (fold (\<lambda>(n, v) m. case v of Some s \<Rightarrow> tput n s m | None \<Rightarrow> m) hs m) k \<noteq> None"
proof (induction hs arbitrary: m)
  case (Cons x hs)
  obtain n v where x: "x = (n, v)" by fastforce
  show ?case using Cons.IH [of "case v of Some s \<Rightarrow> tput n s m | None \<Rightarrow> m"] Cons.prems
    by (cases v) (auto simp: x simp del: map_of_eq_None_iff)
qed simp

lemma request_told: "told method path_q hs body (browser_request_of method path_q hs body)"
proof -
  let ?rq = "browser_request_of method path_q hs body"
  have h: "(k, Some s) \<in> set hs \<and> k \<notin> set withheld" if "tget (bq_headers ?rq) k = Some s" for k s
    using tget_fold_headers [of "filter (\<lambda>(n, v). n \<notin> set withheld) hs" "[]" k s] that by (auto simp: browser_request_of_def)
  have none: "tget (bq_headers ?rq) k = None" if "k \<in> set withheld" for k
    using h [of k] that by (cases "tget (bq_headers ?rq) k") auto
  have w: "list_all (\<lambda>k. k \<in> set withheld)
       [''authorization'', ''proxy-authorization'', ''cookie'', ''host'', ''connection'', ''content-length'', ''transfer-encoding'', ''upgrade'']"
    by (simp add: withheld_def)
  have l: "list_all (\<lambda>secret. tget (bq_headers ?rq) secret = None)
       [''authorization'', ''proxy-authorization'', ''cookie'', ''host'', ''connection'', ''content-length'', ''transfer-encoding'', ''upgrade'']"
    by (rule list.pred_mono_strong [OF w]) (rule none)
  have e: "set withheld = set [''authorization'', ''proxy-authorization'', ''cookie'', ''host'', ''connection'', ''content-length'', ''transfer-encoding'', ''upgrade'']"
    by (auto simp: withheld_def)
  have p: "tget (bq_headers ?rq) k \<noteq> None" if "(k, Some s) \<in> set hs" "k \<notin> set withheld" for k s
    unfolding browser_request_of_def browser_request.simps by (rule fold_headers_kept) (use that in simp)
  have a: "list_all (\<lambda>(k, v). v = None \<or> tget (bq_headers ?rq) k \<noteq> None \<or> k \<in> set withheld) hs"
    unfolding list_all_iff
  proof (rule ballI)
    fix x
    assume x: "x \<in> set hs"
    obtain k v where kv: "x = (k, v)" by fastforce
    show "case x of (k, v) \<Rightarrow> v = None \<or> tget (bq_headers ?rq) k \<noteq> None \<or> k \<in> set withheld"
    proof (cases v)
      case (Some s)
      then show ?thesis unfolding kv prod.case using p [of k s] x kv by blast
    qed (simp add: kv)
  qed
  have f: "bq_method ?rq = method \<and> bq_path ?rq = path_q \<and> base64_decode (bq_body_base64 ?rq) = Some body"
    by (simp add: base64_decode_def length_base64_encode b64_chunks_encode browser_request_of_def)
  show ?thesis unfolding told_def using f l h a [unfolded e] by blast
qed

text \<open>C36: A browser gets a request only if it is registered for the function, belongs to that very deployment and tenant, its
  registration has not expired, its circuit for this content is not open, its invocations of the running window are below the quota, and, when it
  serves its team only, the caller is an authenticated member of the team; and when no browser gets the request, none registered for the function
  may. It is told the method, the path, the body byte for byte and headers that were sent, but never the credentials of the
  caller (\<open>authorization\<close>, \<open>proxy-authorization\<close>, \<open>cookie\<close>) nor the headers of the connection; the answer is what it returns for
  that. The request is counted after the choice, in the table as other tasks have left it by then (so requests that choose at once can exceed the
  quota), and a failure opens the circuit of this browser for this content.\<close>
theorem browser_invocation_sound:
  "(case pick_browser (bw_now w) (bw_window_ms w) (bw_quota w) (bw_caller w) dep name br of
      None \<Rightarrow> try_browser w dep name method path_q hs body br = (Attempt_None, br) \<and>
        (br_invoker br = False \<or> (case tget (br_by_function br) (func_key (gd_id dep) name) of
           None \<Rightarrow> True | Some ts \<Rightarrow> list_all (\<lambda>t. \<not> may_serve w dep name br t) ts))
    | Some t \<Rightarrow>
        (\<exists>ts. tget (br_by_function br) (func_key (gd_id dep) name) = Some ts \<and> t \<in> set ts) \<and> may_serve w dep name br t \<and>
        (\<exists>rq answer counted. told method path_q hs body rq \<and> answer = bw_invoke w t rq \<and>
           counted = charge_browser (bw_now w) (bw_window_ms w) t (bw_between w br) \<and>
           tget (br_invoke_quota counted) (bt_endpoint_id t) =
             Some (case tget (br_invoke_quota (bw_between w br)) (bt_endpoint_id t) of
                     None \<Rightarrow> (bw_now w, 1)
                   | Some (start, used) \<Rightarrow> if bw_now w - start < bw_window_ms w then (start, used + 1) else (bw_now w, 1)) \<and>
           (case fst (try_browser w dep name method path_q hs body br) of
              Attempt_None \<Rightarrow> False
            | Attempt_Response r \<Rightarrow> snd (try_browser w dep name method path_q hs body br) = bw_meanwhile w counted \<and>
                (\<exists>bytes. answer = Inr bytes \<and> browser_response (bw_parse w) (bw_name_ok w) (bw_value_ok w) bytes = Inr r)
            | Attempt_Failed f \<Rightarrow>
                (answer = Inl f \<or> (\<exists>bytes e. answer = Inr bytes \<and> f = Browser_Failure True e \<and>
                   browser_response (bw_parse w) (bw_name_ok w) (bw_value_ok w) bytes = Inl e)) \<and>
                tget (br_circuit_until (snd (try_browser w dep name method path_q hs body br))) (bt_endpoint_id t @ '':'' @ bt_digest t) =
                  Some (min (2 ^ 64 - 1) (bw_later w + bw_circuit_ms w)))))"
proof (cases "pick_browser (bw_now w) (bw_window_ms w) (bw_quota w) (bw_caller w) dep name br")
  case None
  then show ?thesis using pick_browser_exact [where w = w and dep = dep and name = name and br = br] by (simp add: try_browser_def)
next
  case (Some t)
  let ?rq = "browser_request_of method path_q hs body"
  let ?c = "charge_browser (bw_now w) (bw_window_ms w) t (bw_between w br)"
  let ?r = "try_browser w dep name method path_q hs body br"
  have q: "tget (br_invoke_quota ?c) (bt_endpoint_id t) =
      Some (case tget (br_invoke_quota (bw_between w br)) (bt_endpoint_id t) of
              None \<Rightarrow> (bw_now w, 1)
            | Some (start, used) \<Rightarrow> if bw_now w - start < bw_window_ms w then (start, used + 1) else (bw_now w, 1))"
    by (cases "tget (br_invoke_quota (bw_between w br)) (bt_endpoint_id t)")
      (auto simp: charge_browser_def Let_def split: prod.splits simp del: map_of_eq_Some_iff)
  have o: "case fst ?r of
      Attempt_None \<Rightarrow> False
    | Attempt_Response r \<Rightarrow> snd ?r = bw_meanwhile w ?c \<and>
        (\<exists>bytes. bw_invoke w t ?rq = Inr bytes \<and> browser_response (bw_parse w) (bw_name_ok w) (bw_value_ok w) bytes = Inr r)
    | Attempt_Failed f \<Rightarrow>
        (bw_invoke w t ?rq = Inl f \<or> (\<exists>bytes e. bw_invoke w t ?rq = Inr bytes \<and> f = Browser_Failure True e \<and>
           browser_response (bw_parse w) (bw_name_ok w) (bw_value_ok w) bytes = Inl e)) \<and>
        tget (br_circuit_until (snd ?r)) (bt_endpoint_id t @ '':'' @ bt_digest t) = Some (min (2 ^ 64 - 1) (bw_later w + bw_circuit_ms w))"
    unfolding try_browser_def Some option.case Let_def
    by (simp add: open_circuit_def circuit_key_def del: map_of_eq_Some_iff split: sum.split)
  show ?thesis unfolding Some option.case using pick_browser_exact [where w = w and dep = dep and name = name and br = br, unfolded Some option.case] request_told q o by blast
qed

section \<open>Concrete browsers\<close>

definition sample_target :: "string \<Rightarrow> string \<Rightarrow> browser_target" where
  "sample_target endpoint function =
     \<lparr>bt_tenant = ''acme'', bt_deployment = ''d1'', bt_function = function, bt_endpoint_id = endpoint, bt_addr_json = ''[]'',
      bt_digest = replicate 64 CHR ''0'', bt_expires_ms = 1000, bt_scope = Public_Scope\<rparr>"

definition sample_browsers :: browser_routes where
  "sample_browsers = set_browser_invoker (snd (set_browser_targets (replicate 64 CHR ''a'') [sample_target (replicate 64 CHR ''a'') ''web''] browser_routes_default))"

definition sample_deployment :: gw_deployment where
  "sample_deployment = \<lparr>gd_id = ''d1'', gd_project = ''shop'', gd_incarnation = None, gd_root = [], gd_workdir = None, gd_functions = [],
     gd_image = None, gd_created = 0, gd_state = Ds_Ready, gd_creator = [], gd_git = None, gd_production = True, gd_target = ''production'',
     gd_tenant = ''acme''\<rparr>"

lemma registrations_replaced_witness:
  "table_ok (br_by_function browser_routes_default) \<and>
   fst (set_browser_targets (replicate 64 CHR ''a'') [sample_target (replicate 64 CHR ''a'') ''web''] browser_routes_default) = Inr () \<and>
   registered (snd (set_browser_targets (replicate 64 CHR ''a'') [sample_target (replicate 64 CHR ''a'') ''web''] browser_routes_default))
     (sample_target (replicate 64 CHR ''a'') ''web'')"
proof -
  have ok: "table_ok (br_by_function browser_routes_default)" by (simp add: table_ok_def browser_routes_default_def)
  obtain r br' where e: "set_browser_targets (replicate 64 CHR ''a'') [sample_target (replicate 64 CHR ''a'') ''web''] browser_routes_default = (r, br')"
    by fastforce
  have "isl (fst (set_browser_targets (replicate 64 CHR ''a'') [sample_target (replicate 64 CHR ''a'') ''web''] browser_routes_default)) = False"
    by code_simp
  then have "r = Inr ()" using e by (cases r) auto
  then show ?thesis
    using ok e registrations_replaced [OF ok, where endpoint = "replicate 64 CHR ''a''" and ts = "[sample_target (replicate 64 CHR ''a'') ''web'']"] by simp
qed

text \<open>Two requests that choose before either is counted both pass a quota of one: the second one runs where the first has chosen and not
  counted yet.\<close>

definition race_env :: "(browser_routes \<Rightarrow> browser_routes) \<Rightarrow> browser_env" where
  "race_env others = \<lparr>bw_now = 10, bw_window_ms = 1000, bw_quota = 1, bw_circuit_ms = 1000, bw_caller = None, bw_invoke = (\<lambda>_ _. Inr []),
     bw_between = others, bw_meanwhile = (\<lambda>br. br), bw_later = 10,
     bw_parse = (\<lambda>_. Some \<lparr>be_status = 200, be_headers = [], be_body = [], be_body_base64 = None\<rparr>),
     bw_name_ok = (\<lambda>_. True), bw_value_ok = (\<lambda>_. True)\<rparr>"

lemma quota_race:
  "tget (br_invoke_quota (snd (try_browser (race_env (\<lambda>br. snd (try_browser (race_env (\<lambda>br. br)) sample_deployment ''web'' ''GET'' ''/'' [] [] br)))
     sample_deployment ''web'' ''GET'' ''/'' [] [] sample_browsers))) (replicate 64 CHR ''a'') = Some (10, 2)"
  by code_simp

end
