(* ===== verification/Gateway_Proxy.thy ===== *)
theory Gateway_Proxy
  imports Gateway_Browser
begin

text \<open>
  One request to a function (\<open>proxy_function\<close> and \<open>build_response\<close> of \<open>crates/fluid-gateway/src/lib.rs\<close>, \<open>FailureClass\<close> of
  \<open>crates/fluid-core/src/lib.rs\<close>): the headers forwarded, the browser tried first, the bounded attempts on leased instances
  with what they do to Fluid and the tunnels, the classification of failures, and the response built. What a lease, a tunnel and the clock
  answer to each attempt is an argument.
\<close>

section \<open>Failures\<close>

datatype failure_class =
    Tenant_Throttled | Capacity_Exhausted | Deployment_Circuit_Open | Node_Image_Missing | Node_Backend_Unavailable
  | Node_Lock_Pool_Exhausted | Node_Runtime_Missing | No_Healthy_Peer | No_Healthy_Region | Runtime_Tunnel_Failed
  | Function_No_Response | Peer_Unreachable | Not_Retryable | Deadline_Exceeded | Deployment_Not_Found | Host_Rejected

fun class_status :: "failure_class \<Rightarrow> nat" where
  "class_status Tenant_Throttled = 429"
| "class_status Capacity_Exhausted = 503"
| "class_status Deployment_Circuit_Open = 503"
| "class_status Node_Image_Missing = 503"
| "class_status Node_Backend_Unavailable = 503"
| "class_status Node_Lock_Pool_Exhausted = 503"
| "class_status Node_Runtime_Missing = 503"
| "class_status No_Healthy_Peer = 503"
| "class_status No_Healthy_Region = 503"
| "class_status Runtime_Tunnel_Failed = 502"
| "class_status Peer_Unreachable = 502"
| "class_status Not_Retryable = 502"
| "class_status Deadline_Exceeded = 504"
| "class_status Function_No_Response = 504"
| "class_status Deployment_Not_Found = 404"
| "class_status Host_Rejected = 404"

fun class_code :: "failure_class \<Rightarrow> string" where
  "class_code Tenant_Throttled = ''TENANT_THROTTLED''"
| "class_code Capacity_Exhausted = ''CAPACITY_EXHAUSTED''"
| "class_code Deployment_Circuit_Open = ''DEPLOYMENT_CIRCUIT_OPEN''"
| "class_code Node_Image_Missing = ''NODE_IMAGE_MISSING''"
| "class_code Node_Backend_Unavailable = ''NODE_BACKEND_UNAVAILABLE''"
| "class_code Node_Lock_Pool_Exhausted = ''NODE_LOCK_POOL_EXHAUSTED''"
| "class_code Node_Runtime_Missing = ''NODE_RUNTIME_MISSING''"
| "class_code No_Healthy_Peer = ''NO_HEALTHY_PEER''"
| "class_code No_Healthy_Region = ''NO_HEALTHY_REGION''"
| "class_code Runtime_Tunnel_Failed = ''RUNTIME_TUNNEL_FAILED''"
| "class_code Function_No_Response = ''FUNCTION_NO_RESPONSE''"
| "class_code Peer_Unreachable = ''PEER_UNREACHABLE''"
| "class_code Not_Retryable = ''NOT_RETRYABLE''"
| "class_code Deadline_Exceeded = ''DEADLINE_EXCEEDED''"
| "class_code Deployment_Not_Found = ''DEPLOYMENT_NOT_FOUND''"
| "class_code Host_Rejected = ''HOST_REJECTED''"

definition classify_lease_error :: "string \<Rightarrow> failure_class" where
  "classify_lease_error es =
     (if str_contains es ''TenantQuota'' then Tenant_Throttled
      else if str_contains es ''NodeImageMissing'' then Node_Image_Missing
      else if str_contains es ''NodeBackendUnavailable'' then Node_Backend_Unavailable
      else if str_contains es ''NodeLockPoolExhausted'' then Node_Lock_Pool_Exhausted
      else if str_contains es ''NodeRuntimeMissing'' then Node_Runtime_Missing
      else if str_contains es ''DeploymentCircuitOpen'' \<or> str_contains es ''DeploymentStartFailed'' then Deployment_Circuit_Open
      else if str_contains es ''no such function'' then Deployment_Not_Found
      else Capacity_Exhausted)"

definition coded_response :: "nat \<Rightarrow> string \<Rightarrow> gw_response" where
  "coded_response status code = \<lparr>re_status = status, re_headers = [(''x-hive-error'', code)], re_body = code\<rparr>"

definition class_response :: "failure_class \<Rightarrow> gw_response" where
  "class_response c = coded_response (class_status c) (class_code c)"

section \<open>Forwarded headers\<close>

definition never_forwarded :: "string list" where
  "never_forwarded = [''connection'', ''content-length'', ''host'', ''x-forwarded-host'', ''x-forwarded-proto'']"

definition header_text :: "string \<Rightarrow> header_map \<Rightarrow> string option" where
  "header_text k hs = (case find (\<lambda>(n, v). n = k) hs of Some (n, v) \<Rightarrow> v | None \<Rightarrow> None)"

definition forward_headers :: "header_map \<Rightarrow> (string \<times> string) list" where
  "forward_headers hs =
     concat (map (\<lambda>(n, v). case v of Some s \<Rightarrow> [(n, s)] | None \<Rightarrow> []) (filter (\<lambda>(n, v). n \<notin> set never_forwarded) hs)) @
     (case header_text ''host'' hs of
        Some h \<Rightarrow> if trim h \<noteq> [] then [(''host'', h), (''x-forwarded-host'', h), (''x-forwarded-proto'', ''https'')] else []
      | None \<Rightarrow> [])"

section \<open>Building the response\<close>

record tunnel_head =
  th_status :: nat
  th_headers :: "(string \<times> string) list"
  th_wait_until_ms :: nat

record response_scan =
  sc_headers :: "(string \<times> string) list"
  sc_sized :: bool
  sc_streamed :: bool

definition scan_header :: "(string \<Rightarrow> bool) \<Rightarrow> (string \<Rightarrow> bool) \<Rightarrow> string \<times> string \<Rightarrow> response_scan \<Rightarrow> response_scan" where
  "scan_header name_ok value_ok kv s =
     (case kv of (k, v) \<Rightarrow>
        (let kl = to_lowercase k; vl = to_lowercase v
         in if kl = ''content-length'' then s\<lparr>sc_sized := True\<rparr>
            else if kl = ''transfer-encoding'' then (if str_contains vl ''chunked'' then s\<lparr>sc_streamed := True\<rparr> else s)
            else if kl = ''connection'' then s
            else
              (let s1 = (if kl = ''content-type'' \<and> (str_contains vl ''event-stream'' \<or> str_contains vl ''x-component'' \<or> str_contains vl ''stream'')
                         then s\<lparr>sc_streamed := True\<rparr> else s)
               in if name_ok k \<and> value_ok v then s1\<lparr>sc_headers := sc_headers s1 @ [(kl, v)]\<rparr> else s1)))"

definition scan_headers :: "(string \<Rightarrow> bool) \<Rightarrow> (string \<Rightarrow> bool) \<Rightarrow> (string \<times> string) list \<Rightarrow> response_scan" where
  "scan_headers name_ok value_ok hs = fold (scan_header name_ok value_ok) hs \<lparr>sc_headers = [], sc_sized = False, sc_streamed = False\<rparr>"

definition put_header :: "string \<Rightarrow> string \<Rightarrow> (string \<times> string) list \<Rightarrow> (string \<times> string) list" where
  "put_header k v hs = filter (\<lambda>(n, x). n \<noteq> k) hs @ [(k, v)]"

text \<open>The body is what the tunnel delivers until it ends; \<open>ends_in_time\<close> tells whether it does within the maximal duration. A
  response is streamed or sized. The delay of the release by \<open>waitUntil\<close> is read from the head and concerns the clock only.\<close>

datatype built = Streamed gw_response | Sized gw_response

definition build_response ::
    "(string \<Rightarrow> bool) \<Rightarrow> (string \<Rightarrow> bool) \<Rightarrow> string \<Rightarrow> bool \<Rightarrow> nat \<Rightarrow> tunnel_head \<Rightarrow> string \<Rightarrow> bool \<Rightarrow> built" where
  "build_response name_ok value_ok cell reused attempt head body ends_in_time =
     (let s = scan_headers name_ok value_ok (th_headers head);
          h1 = put_header ''x-fluid-instance'' (if value_ok cell then cell else ''?'') (sc_headers s);
          h2 = put_header ''x-fluid-reused'' (if reused then ''true'' else ''false'') h1;
          h3 = (if attempt > 0 then put_header ''x-fluid-rerouted'' (nat_to_string attempt) h2 else h2);
          status = (if 100 \<le> th_status head \<and> th_status head \<le> 999 then th_status head else 502)
      in if sc_streamed s \<or> \<not> sc_sized s then Streamed \<lparr>re_status = status, re_headers = h3, re_body = body\<rparr>
         else if \<not> ends_in_time then Sized \<lparr>re_status = 504, re_headers = [], re_body = ''upstream timed out''\<rparr>
         else Sized \<lparr>re_status = status, re_headers = h3, re_body = body\<rparr>)"

section \<open>Attempts\<close>

text \<open>What the environment answers to one attempt: the lease fails, the tunnel does not connect, the invocation exceeds its budget,
  the instance responds, or the request fails with the tunnel open or closed.\<close>

datatype attempt_answer =
    No_Lease string
  | No_Tunnel string
  | Over_Budget string
  | Answered string bool tunnel_head string bool
  | Request_Failed string bool

text \<open>What is asked of Fluid and of the tunnels: a lease of a pool, given or refused, the request put into the tunnel of a cell, and what
  follows.\<close>

record tunnel_request =
  tq_method :: string
  tq_path :: string
  tq_headers :: "(string \<times> string) list"
  tq_body :: string

datatype proxy_effect =
    Lease_Refused string
  | Leased string string
  | Dispatched string tunnel_request
  | Released string
  | Marked_Dead string string
  | Dropped_Tunnel string

definition MAX_REROUTES :: nat where
  "MAX_REROUTES = 3"

text \<open>The cell of an attempt is part of its answer; a request reaches the instance when the tunnel is up.\<close>

definition idempotent :: "string \<Rightarrow> bool" where
  "idempotent method \<longleftrightarrow> method = ''GET'' \<or> method = ''HEAD''"

definition give_up :: "bool \<Rightarrow> gw_response" where
  "give_up silent = class_response (if silent then Function_No_Response else Runtime_Tunnel_Failed)"

fun attempts ::
    "(string \<Rightarrow> bool) \<Rightarrow> (string \<Rightarrow> bool) \<Rightarrow> string \<Rightarrow> tunnel_request \<Rightarrow> nat \<Rightarrow> bool \<Rightarrow> attempt_answer list \<Rightarrow> built \<times> proxy_effect list" where
  "attempts name_ok value_ok key rq i silent [] = (Sized (give_up silent), [])"
| "attempts name_ok value_ok key rq i silent (a # rest) =
     (case a of
        No_Lease es \<Rightarrow> (Sized (class_response (classify_lease_error es)), [Lease_Refused key])
      | No_Tunnel cell \<Rightarrow>
          (let (r, es) = attempts name_ok value_ok key rq (Suc i) False rest
           in (r, [Leased key cell, Released cell, Marked_Dead key cell, Dropped_Tunnel cell] @ es))
      | Over_Budget cell \<Rightarrow>
          (Sized \<lparr>re_status = 504, re_headers = [], re_body = ''FUNCTION_INVOCATION_TIMEOUT''\<rparr>,
           [Leased key cell, Dispatched cell rq, Released cell])
      | Answered cell reused head body ends_in_time \<Rightarrow>
          (build_response name_ok value_ok cell reused i head body ends_in_time, [Leased key cell, Dispatched cell rq, Released cell])
      | Request_Failed cell gone \<Rightarrow>
          if gone
          then (let (r, es) = attempts name_ok value_ok key rq (Suc i) False rest
                in (r, [Leased key cell, Dispatched cell rq, Released cell, Marked_Dead key cell, Dropped_Tunnel cell] @ es))
          else if \<not> idempotent (tq_method rq) then (Sized (give_up True), [Leased key cell, Dispatched cell rq, Released cell])
          else (let (r, es) = attempts name_ok value_ok key rq (Suc i) True rest
                in (r, [Leased key cell, Dispatched cell rq, Released cell] @ es)))"

text \<open>\<open>answers\<close> gives the answer to every attempt, of which the first three are asked for.\<close>

definition proxy_function ::
    "browser_env \<Rightarrow> gw_deployment \<Rightarrow> string \<Rightarrow> string \<Rightarrow> string \<Rightarrow> header_map \<Rightarrow> string \<Rightarrow> (nat \<Rightarrow> attempt_answer) \<Rightarrow> browser_routes
      \<Rightarrow> built \<times> proxy_effect list \<times> browser_routes" where
  "proxy_function w dep name method path_q hs body answers br =
     (let key = func_key (gd_id dep) name;
          rq = \<lparr>tq_method = method, tq_path = path_q, tq_headers = forward_headers hs, tq_body = body\<rparr>
      in case try_browser w dep name method path_q hs body br of
           (Attempt_Response r, br1) \<Rightarrow> (Sized r, [], br1)
         | (Attempt_Failed (Browser_Failure sent e), br1) \<Rightarrow>
             if sent \<and> \<not> idempotent method
             then (Sized (coded_response 502 ''BROWSER_EXECUTION_UNCERTAIN''), [], br1)
             else (let (r, es) = attempts (bw_name_ok w) (bw_value_ok w) key rq 0 False (map answers [0..<MAX_REROUTES]) in (r, es, br1))
         | (Attempt_None, br1) \<Rightarrow>
             (let (r, es) = attempts (bw_name_ok w) (bw_value_ok w) key rq 0 False (map answers [0..<MAX_REROUTES]) in (r, es, br1)))"

end
