(* ===== verification/Gateway_Proxy_Props.thy ===== *)
theory Gateway_Proxy_Props
  imports Gateway_Proxy
begin

text \<open>
  What the gateway promises about a request to a function: the attempts are bounded and classified, and a request that
  changes state is not sent again while its instance may still work on it.
\<close>

section \<open>Attempts\<close>

definition undecided :: "string \<Rightarrow> attempt_answer \<Rightarrow> bool" where
  "undecided method a \<longleftrightarrow>
     (case a of No_Tunnel c \<Rightarrow> True | Request_Failed c gone \<Rightarrow> gone \<or> idempotent method | _ \<Rightarrow> False)"

definition was_silent :: "attempt_answer \<Rightarrow> bool" where
  "was_silent a \<longleftrightarrow> (case a of Request_Failed c gone \<Rightarrow> \<not> gone | _ \<Rightarrow> False)"

definition decided_response :: "(string \<Rightarrow> bool) \<Rightarrow> (string \<Rightarrow> bool) \<Rightarrow> nat \<Rightarrow> attempt_answer \<Rightarrow> built" where
  "decided_response name_ok value_ok i a =
     (case a of
        No_Lease es \<Rightarrow> Sized (class_response (classify_lease_error es))
      | Over_Budget c \<Rightarrow> Sized \<lparr>re_status = 504, re_headers = [], re_body = ''FUNCTION_INVOCATION_TIMEOUT''\<rparr>
      | Answered c reused head body ends \<Rightarrow> build_response name_ok value_ok c reused i head body ends
      | _ \<Rightarrow> Sized (give_up True))"

lemma attempts_response:
  "fst (attempts name_ok value_ok key rq i silent as) =
     (case dropWhile (undecided (tq_method rq)) as of
        [] \<Rightarrow> Sized (give_up (if as = [] then silent else was_silent (last as)))
      | a # rest \<Rightarrow> decided_response name_ok value_ok (i + length (takeWhile (undecided (tq_method rq)) as)) a)"
proof (induction as arbitrary: i silent)
  case (Cons a as)
  show ?case
  proof (cases "undecided (tq_method rq) a")
    case True
    have e: "fst (attempts name_ok value_ok key rq i silent (a # as)) = fst (attempts name_ok value_ok key rq (Suc i) (was_silent a) as)"
      using True by (cases a) (auto simp: undecided_def was_silent_def case_prod_beta)
    show ?thesis unfolding e Cons.IH using True by (cases "dropWhile (undecided (tq_method rq)) as") (simp_all del: dropWhile_eq_Nil_conv)
  next
    case False
    have "fst (attempts name_ok value_ok key rq i silent (a # as)) = decided_response name_ok value_ok i a"
      using False by (cases a) (auto simp: undecided_def decided_response_def)
    then show ?thesis using False by simp
  qed
qed simp

text \<open>The gateway answers with the first attempt that decides the request, whatever failed before it: an instance that responds,
  an invocation over its budget, a lease that fails (reported by its class), or a silent instance when the request must not be
  repeated. When the three attempts decide nothing, the answer names what the last one met: a silent function or a broken tunnel. A browser that
  has answered is the answer, and one that may have executed a request that changes state ends it.\<close>
definition decided_by :: "browser_env \<Rightarrow> string \<Rightarrow> (nat \<Rightarrow> attempt_answer) \<Rightarrow> built" where
  "decided_by w method answers =
     (case dropWhile (undecided method) (map answers [0..<3]) of
        [] \<Rightarrow> Sized (give_up (was_silent (answers 2)))
      | a # rest \<Rightarrow> decided_response (bw_name_ok w) (bw_value_ok w) (length (takeWhile (undecided method) (map answers [0..<3]))) a)"

theorem proxy_answer_exact:
  "fst (proxy_function w dep name method path_q hs body answers br) =
     (case fst (try_browser w dep name method path_q hs body br) of
        Attempt_Response r \<Rightarrow> Sized r
      | Attempt_Failed (Browser_Failure sent e) \<Rightarrow>
          if sent \<and> \<not> idempotent method then Sized (coded_response 502 ''BROWSER_EXECUTION_UNCERTAIN'')
          else decided_by w method answers
      | Attempt_None \<Rightarrow> decided_by w method answers)"
proof -
  have l: "map answers [0..<3] \<noteq> []" "last (map answers [0..<3]) = answers 2" by (simp_all add: upt_conv_Cons numeral_3_eq_3 numeral_2_eq_2)
  have "fst (attempts (bw_name_ok w) (bw_value_ok w) key rq 0 False (map answers [0..<3])) = decided_by w (tq_method rq) answers" for key rq
    unfolding attempts_response decided_by_def l(2) if_not_P [OF l(1)] add_0 by (rule refl)
  moreover obtain att br1 where "try_browser w dep name method path_q hs body br = (att, br1)" by fastforce
  ultimately show ?thesis
    by (simp add: proxy_function_def MAX_REROUTES_def case_prod_beta Let_def split: browser_attempt.split browser_failure.split)
qed

section \<open>Nothing is sent twice\<close>

fun is_dispatch :: "proxy_effect \<Rightarrow> bool" where
  "is_dispatch (Dispatched c rq) \<longleftrightarrow> True"
| "is_dispatch _ \<longleftrightarrow> False"

text \<open>A request that was dispatched is dispatched again only when the instance is declared dead first.\<close>

fun dead_before_resend :: "proxy_effect list \<Rightarrow> bool" where
  "dead_before_resend [] \<longleftrightarrow> True"
| "dead_before_resend (Dispatched c rq # es) \<longleftrightarrow>
     (if list_ex is_dispatch es then \<exists>key. take 2 es = [Released c, Marked_Dead key c] else True) \<and> dead_before_resend es"
| "dead_before_resend (_ # es) \<longleftrightarrow> dead_before_resend es"

lemma attempts_resend: "\<not> idempotent (tq_method rq) \<Longrightarrow> dead_before_resend (snd (attempts name_ok value_ok key rq i silent as))"
  by (induction as arbitrary: i silent) (auto simp: case_prod_beta split: attempt_answer.splits)

text \<open>Every leased instance is released before the next lease.\<close>

fun lease_trace :: "proxy_effect list \<Rightarrow> (bool \<times> string) list" where
  "lease_trace [] = []"
| "lease_trace (Leased key c # es) = (True, c) # lease_trace es"
| "lease_trace (Released c # es) = (False, c) # lease_trace es"
| "lease_trace (_ # es) = lease_trace es"

lemma attempts_leases:
  "\<exists>cells. length cells \<le> length as \<and>
     lease_trace (snd (attempts name_ok value_ok key rq i silent as)) = concat (map (\<lambda>c. [(True, c), (False, c)]) cells)"
proof (induction as arbitrary: i silent)
  case (Cons a as)
  have step: "\<exists>cells. length cells \<le> length (a # as) \<and> (True, c) # (False, c) # lease_trace (snd (attempts name_ok value_ok key rq (Suc i) s as)) =
      concat (map (\<lambda>c. [(True, c), (False, c)]) cells)" for c s
  proof -
    obtain cells where "length cells \<le> length as"
      "lease_trace (snd (attempts name_ok value_ok key rq (Suc i) s as)) = concat (map (\<lambda>c. [(True, c), (False, c)]) cells)"
      using Cons.IH by blast
    then show ?thesis by (intro exI [of _ "c # cells"]) simp
  qed
  have one: "\<exists>cells. length cells \<le> length (a # as) \<and> [(True, c), (False, c)] = concat (map (\<lambda>c. [(True, c), (False, c)]) cells)" for c
    by (rule exI [of _ "[c]"]) simp
  have none: "\<exists>cells. length cells \<le> length (a # as) \<and> [] = concat (map (\<lambda>c. [(True, c), (False, c)]) cells)"
    by (rule exI [of _ "[]"]) simp
  show ?case
  proof (cases a)
    case (No_Tunnel c)
    then show ?thesis using step [of c False] by (simp add: case_prod_beta)
  next
    case (Request_Failed c gone)
    then show ?thesis using step [of c False] step [of c True] one [of c] by (simp add: case_prod_beta)
  qed (use one none in \<open>simp_all\<close>)
qed (rule exI [of _ "[]"], simp)

text \<open>C35: A request that changes state (any method but GET and HEAD) reaches a second instance only when the tunnel of the first one closed, and
  then that instance was declared dead before; a browser that may have executed it ends it. Every request is sent to at most three
  instances, and each leased instance is released before the next one is leased.\<close>
theorem request_not_repeated:
  "(if idempotent method then True else dead_before_resend (fst (snd (proxy_function w dep name method path_q hs body answers br)))) \<and>
   (case fst (try_browser w dep name method path_q hs body br) of
      Attempt_Response r \<Rightarrow> fst (snd (proxy_function w dep name method path_q hs body answers br)) = []
    | Attempt_Failed (Browser_Failure sent e) \<Rightarrow>
        (if sent \<and> \<not> idempotent method then fst (snd (proxy_function w dep name method path_q hs body answers br)) = [] else True)
    | Attempt_None \<Rightarrow> True) \<and>
   (\<exists>cells. length cells \<le> 3 \<and>
      lease_trace (fst (snd (proxy_function w dep name method path_q hs body answers br))) = concat (map (\<lambda>c. [(True, c), (False, c)]) cells))"
proof -
  define es where "es = snd (attempts (bw_name_ok w) (bw_value_ok w) (func_key (gd_id dep) name)
    \<lparr>tq_method = method, tq_path = path_q, tq_headers = forward_headers hs, tq_body = body\<rparr> 0 False (map answers [0..<3]))"
  obtain att br1 where t: "try_browser w dep name method path_q hs body br = (att, br1)" by fastforce
  have e: "fst (snd (proxy_function w dep name method path_q hs body answers br)) =
     (case att of
        Attempt_Response r \<Rightarrow> []
      | Attempt_Failed (Browser_Failure sent e) \<Rightarrow> if sent \<and> \<not> idempotent method then [] else es
      | Attempt_None \<Rightarrow> es)"
    using t by (simp add: proxy_function_def MAX_REROUTES_def es_def case_prod_beta Let_def split: browser_attempt.split browser_failure.split)
  have none: "\<exists>cells. length cells \<le> 3 \<and> lease_trace [] = concat (map (\<lambda>c. [(True, c), (False, c)]) cells)"
    by (rule exI [of _ "[]"]) simp
  have some: "\<exists>cells. length cells \<le> 3 \<and> lease_trace es = concat (map (\<lambda>c. [(True, c), (False, c)]) cells)"
    using attempts_leases [of "map answers [0..<3]"] by (simp add: es_def)
  have r: "dead_before_resend es" if "\<not> idempotent method" unfolding es_def by (rule attempts_resend) (simp add: that)
  show ?thesis unfolding e using r none some t by (auto split: browser_attempt.splits browser_failure.splits)
qed

text \<open>Whatever is asked of Fluid and of the tunnels is asked for this function, and every request put into a tunnel is the one
  received, with the headers forwarded. And it is asked, unless a browser had the request.\<close>

definition asked_for :: "string \<Rightarrow> tunnel_request \<Rightarrow> proxy_effect \<Rightarrow> bool" where
  "asked_for key rq e \<longleftrightarrow>
     (case e of
        Lease_Refused k \<Rightarrow> k = key
      | Leased k c \<Rightarrow> k = key
      | Dispatched c r \<Rightarrow> r = rq
      | Marked_Dead k c \<Rightarrow> k = key
      | _ \<Rightarrow> True)"

lemma attempts_asked: "list_all (asked_for key rq) (snd (attempts name_ok value_ok key rq i silent as))"
  by (induction as arbitrary: i silent) (auto simp: asked_for_def case_prod_beta split: attempt_answer.splits)

lemma attempts_ask: "as \<noteq> [] \<Longrightarrow> snd (attempts name_ok value_ok key rq i silent as) \<noteq> []"
  by (cases as) (auto simp: case_prod_beta split: attempt_answer.splits)

lemma proxy_asked:
  fixes w dep name meth path_q hs body answers br
  defines "r \<equiv> proxy_function w dep name meth path_q hs body answers br"
  shows "list_all (asked_for (func_key (gd_id dep) name) \<lparr>tq_method = meth, tq_path = path_q, tq_headers = forward_headers hs, tq_body = body\<rparr>)
      (fst (snd r))"
    and "fst (try_browser w dep name meth path_q hs body br) = Attempt_None \<Longrightarrow> fst (snd r) \<noteq> []"
    and "snd (snd r) = snd (try_browser w dep name meth path_q hs body br)"
proof -
  obtain att br1 where t: "try_browser w dep name meth path_q hs body br = (att, br1)" by fastforce
  have n: "map answers [0..<3] \<noteq> []" by (simp add: upt_conv_Cons numeral_3_eq_3)
  show "list_all (asked_for (func_key (gd_id dep) name) \<lparr>tq_method = meth, tq_path = path_q, tq_headers = forward_headers hs, tq_body = body\<rparr>)
      (fst (snd r))"
    using t attempts_asked by (simp add: r_def proxy_function_def Let_def case_prod_beta split: browser_attempt.split browser_failure.split)
  show "fst (snd r) \<noteq> []" if "fst (try_browser w dep name meth path_q hs body br) = Attempt_None"
    using t that attempts_ask [OF n] by (simp add: r_def proxy_function_def MAX_REROUTES_def Let_def case_prod_beta)
  show "snd (snd r) = snd (try_browser w dep name meth path_q hs body br)"
    using t by (simp add: r_def proxy_function_def Let_def case_prod_beta split: browser_attempt.split browser_failure.split)
qed

text \<open>A tunnel can close after the instance has begun to work on the request: the request is sent again all the same.\<close>

lemma closed_tunnel_replays:
  "let rq = \<lparr>tq_method = ''POST'', tq_path = ''/pay'', tq_headers = [], tq_body = []\<rparr>
   in filter is_dispatch (snd (attempts n v ''d1/pay'' rq 0 False [Request_Failed ''c1'' True, Request_Failed ''c2'' True, Over_Budget ''c3'']))
     = [Dispatched ''c1'' rq, Dispatched ''c2'' rq, Dispatched ''c3'' rq]"
  by (simp add: idempotent_def Let_def)

section \<open>Responses\<close>

definition connection_headers :: "string set" where
  "connection_headers = {''content-length'', ''transfer-encoding'', ''connection''}"

definition declares_length :: "(string \<times> string) list \<Rightarrow> bool" where
  "declares_length hs = list_ex (\<lambda>(k, v). to_lowercase k = ''content-length'') hs"

definition declares_stream :: "(string \<times> string) list \<Rightarrow> bool" where
  "declares_stream hs = list_ex (\<lambda>(k, v).
     (to_lowercase k = ''transfer-encoding'' \<and> str_contains (to_lowercase v) ''chunked'') \<or>
     (to_lowercase k = ''content-type'' \<and> (str_contains (to_lowercase v) ''stream'' \<or> str_contains (to_lowercase v) ''x-component''))) hs"

lemma stream_contains: "str_contains v ''event-stream'' \<Longrightarrow> str_contains v ''stream''"
proof -
  assume "str_contains v ''event-stream''"
  then obtain a b where "v = a @ ''event-stream'' @ b" unfolding str_contains_iff by blast
  then have "v = (a @ ''event-'') @ ''stream'' @ b" by simp
  then show ?thesis unfolding str_contains_iff by blast
qed

lemma scan_headers_exact:
  "sc_sized (fold (scan_header n v) hs s) = (sc_sized s \<or> declares_length hs) \<and>
   sc_streamed (fold (scan_header n v) hs s) = (sc_streamed s \<or> declares_stream hs) \<and>
   (fst ` set (sc_headers s) \<inter> connection_headers = {} \<longrightarrow> fst ` set (sc_headers (fold (scan_header n v) hs s)) \<inter> connection_headers = {})"
proof (induction hs arbitrary: s)
  case (Cons x hs)
  obtain k u where x: "x = (k, u)" by fastforce
  let ?s = "scan_header n v x s"
  have a: "sc_sized ?s = (sc_sized s \<or> to_lowercase k = ''content-length'')"
    by (simp add: x scan_header_def Let_def)
  have b: "sc_streamed ?s = (sc_streamed s \<or> declares_stream [x])"
    using stream_contains [of "to_lowercase u"] by (auto simp: x scan_header_def declares_stream_def Let_def)
  have c: "fst ` set (sc_headers s) \<inter> connection_headers = {} \<longrightarrow> fst ` set (sc_headers ?s) \<inter> connection_headers = {}"
    by (simp add: x scan_header_def connection_headers_def Let_def)
  show ?case using Cons.IH [of ?s] a b c by (auto simp: declares_length_def declares_stream_def x)
qed (simp add: declares_length_def declares_stream_def)

text \<open>A response is sent sized exactly when the function declared a length and neither a chunked encoding nor a streaming type; then it
  has the whole body, or is a timeout when that does not end. It never carries the connection headers of the function, its status is valid, and
  it names the instance.\<close>
theorem response_framing_exact:
  "(case build_response n v cell reused i head body ends of
      Sized r \<Rightarrow> declares_length (th_headers head) \<and> \<not> declares_stream (th_headers head) \<and>
        (if ends then re_body r = body else re_status r = 504 \<and> re_headers r = [])
    | Streamed r \<Rightarrow> (declares_length (th_headers head) = False \<or> declares_stream (th_headers head)) \<and> re_body r = body) \<and>
   (let r = (case build_response n v cell reused i head body ends of Sized r \<Rightarrow> r | Streamed r \<Rightarrow> r)
    in fst ` set (re_headers r) \<inter> connection_headers = {} \<and> 100 \<le> re_status r \<and> re_status r \<le> 999 \<and>
       (re_headers r = [] \<or> ''x-fluid-instance'' \<in> fst ` set (re_headers r)))"
proof -
  define s where "s = scan_headers n v (th_headers head)"
  have s: "sc_sized s = declares_length (th_headers head)" "sc_streamed s = declares_stream (th_headers head)"
    "fst ` set (sc_headers s) \<inter> connection_headers = {}"
    using scan_headers_exact [of n v "th_headers head" "\<lparr>sc_headers = [], sc_sized = False, sc_streamed = False\<rparr>"]
    by (simp_all add: s_def scan_headers_def)
  define h where "h = (if i > 0 then put_header ''x-fluid-rerouted'' (nat_to_string i)
      (put_header ''x-fluid-reused'' (if reused then ''true'' else ''false'') (put_header ''x-fluid-instance'' (if v cell then cell else ''?'') (sc_headers s)))
    else put_header ''x-fluid-reused'' (if reused then ''true'' else ''false'') (put_header ''x-fluid-instance'' (if v cell then cell else ''?'') (sc_headers s)))"
  have h: "fst ` set h \<inter> connection_headers = {}" "''x-fluid-instance'' \<in> fst ` set h"
    using s(3) by (auto simp: h_def put_header_def connection_headers_def)
  have e: "build_response n v cell reused i head body ends =
      (let status = (if 100 \<le> th_status head \<and> th_status head \<le> 999 then th_status head else 502)
       in if sc_streamed s \<or> \<not> sc_sized s then Streamed \<lparr>re_status = status, re_headers = h, re_body = body\<rparr>
          else if \<not> ends then Sized \<lparr>re_status = 504, re_headers = [], re_body = ''upstream timed out''\<rparr>
          else Sized \<lparr>re_status = status, re_headers = h, re_body = body\<rparr>)"
    by (simp add: build_response_def s_def h_def Let_def)
  show ?thesis using h s(1,2) unfolding e by (auto simp: Let_def)
qed

text \<open>A sized download of an unspecified type is streamed without its length.\<close>

lemma octet_stream_loses_length:
  "build_response (\<lambda>_. True) (\<lambda>_. True) ''c1'' False 0
     \<lparr>th_status = 200, th_headers = [(''Content-Type'', ''application/octet-stream''), (''Content-Length'', ''3'')], th_wait_until_ms = 0\<rparr> ''abc'' True =
   Streamed \<lparr>re_status = 200, re_headers = [(''content-type'', ''application/octet-stream''), (''x-fluid-instance'', ''c1''), (''x-fluid-reused'', ''false'')],
     re_body = ''abc''\<rparr>"
  by code_simp

end
