(* ===== verification/Gateway_Files.thy ===== *)
theory Gateway_Files
  imports Build_Schema
begin

text \<open>
  Reading a file of a deployment (\<open>crates/fluid-gateway/src/static_files.rs\<close>, the Linux variant): the check of the paths, the calls of
  \<open>openat2\<close>, \<open>fstat\<close> and \<open>read\<close> with their retries, the proof that the file did not change while it was read, and the class
  of an error. What the kernel answers to each call is a list of answers; \<open>None\<close> is a call that has not returned when they end.
\<close>

section \<open>Errors and paths\<close>

datatype read_error = Read_Missing | Read_Forbidden | Read_Unavailable

datatype io_error =
    Io_Not_Found | Io_Permission_Denied | Io_Exdev | Io_Eloop | Io_Enotdir | Io_Interrupted | Io_Eagain | Io_Other nat

definition MAX_STATIC_FILE_BYTES :: nat where
  "MAX_STATIC_FILE_BYTES = 256 * 1024 * 1024"

definition MAX_EAGAIN_RETRIES :: nat where
  "MAX_EAGAIN_RETRIES = 8"

definition classify_io :: "bool \<Rightarrow> io_error \<Rightarrow> read_error" where
  "classify_io opened e =
     (if e = Io_Not_Found then (if opened then Read_Unavailable else Read_Missing)
      else if e \<in> {Io_Permission_Denied, Io_Exdev, Io_Eloop, Io_Enotdir} then Read_Forbidden
      else Read_Unavailable)"

text \<open>\<open>Path::components\<close> of the standard library on Unix.\<close>

datatype path_component = Root_Dir | Cur_Dir | Parent_Dir | Normal_Component string

definition path_components :: "string \<Rightarrow> path_component list" where
  "path_components p =
     (if starts_with ''/'' p then [Root_Dir] else if hd (split_on CHR ''/'' p) = ''.'' then [Cur_Dir] else []) @
     map (\<lambda>s. if s = ''..'' then Parent_Dir else Normal_Component s)
       (filter (\<lambda>s. s \<noteq> [] \<and> s \<noteq> ''.'') (split_on CHR ''/'' p))"

definition validate_relative :: "string \<Rightarrow> io_error + unit" where
  "validate_relative p =
     (if p = [] \<or> list_ex (\<lambda>c. c = Parent_Dir \<or> c = Root_Dir) (path_components p) then Inl Io_Permission_Denied else Inr ())"

section \<open>Calls of the kernel\<close>

text \<open>A call is repeated when it was interrupted, and a bounded number of times when it would block.\<close>

fun retry_io :: "nat \<Rightarrow> (io_error + 'a) list \<Rightarrow> (io_error + 'a) option" where
  "retry_io k [] = None"
| "retry_io k (Inr a # rs) = Some (Inr a)"
| "retry_io k (Inl e # rs) =
     (if e = Io_Interrupted then retry_io k rs
      else if e = Io_Eagain \<and> 0 < k then retry_io (k - 1) rs
      else Some (Inl e))"

record generation =
  gn_len :: nat
  gn_modified :: "nat option"
  gn_dev :: nat
  gn_ino :: nat
  gn_ctime :: int
  gn_ctime_nsec :: int

record file_metadata =
  md_is_file :: bool
  md_generation :: generation

record contained_file =
  cf_bytes :: string
  cf_modified :: "nat option"
  cf_generation :: generation

text \<open>A call of \<open>openat2\<close>: the directory it starts from, the path, the flags and how the path is resolved. Directories and files are
  numbered; the flags are those the code uses.\<close>

datatype open_flag = O_Path | O_Directory | O_Rdonly | O_Cloexec
datatype resolve_flag = Resolve_No_Magiclinks | Resolve_Beneath

record open_how =
  oh_parent :: nat
  oh_path :: string
  oh_flags :: "open_flag list"
  oh_resolve :: "resolve_flag list"

text \<open>The answers of the kernel: to the repetitions of a call that opens, to both looks at the metadata of an open file, and to the reads of it
  (an empty read is the end of the file). \<open>fa_root\<close> is the directory of the deployment.\<close>

record file_answers =
  fa_root :: nat
  fa_openat2 :: "open_how \<Rightarrow> (io_error + nat) list"
  fa_before :: "nat \<Rightarrow> (io_error + file_metadata) list"
  fa_reads :: "nat \<Rightarrow> (io_error + string) list"
  fa_after :: "nat \<Rightarrow> (io_error + file_metadata) list"

definition open_beneath :: "file_answers \<Rightarrow> nat \<Rightarrow> string \<Rightarrow> open_flag list \<Rightarrow> (io_error + nat) option" where
  "open_beneath fa parent path flags =
     (if CHR 0x00 \<in> set path then Some (Inl Io_Permission_Denied)
      else retry_io MAX_EAGAIN_RETRIES (fa_openat2 fa
        \<lparr>oh_parent = parent, oh_path = path, oh_flags = flags, oh_resolve = [Resolve_No_Magiclinks, Resolve_Beneath]\<rparr>))"

definition open_regular :: "string \<Rightarrow> string \<Rightarrow> file_answers \<Rightarrow> (io_error + nat) option" where
  "open_regular static_dir relative fa =
     (case validate_relative static_dir of
        Inl e \<Rightarrow> Some (Inl e)
      | Inr _ \<Rightarrow>
          (case validate_relative relative of
             Inl e \<Rightarrow> Some (Inl e)
           | Inr _ \<Rightarrow>
               (case open_beneath fa (fa_root fa) static_dir [O_Path, O_Directory, O_Cloexec] of
                  None \<Rightarrow> None
                | Some (Inl e) \<Rightarrow> Some (Inl e)
                | Some (Inr base) \<Rightarrow> open_beneath fa base relative [O_Rdonly, O_Cloexec])))"

definition metadata_retry :: "(io_error + file_metadata) list \<Rightarrow> (io_error + file_metadata) option" where
  "metadata_retry answers = retry_io MAX_EAGAIN_RETRIES answers"

definition CHUNK_BYTES :: nat where
  "CHUNK_BYTES = 64 * 1024"

text \<open>The loop of reads stops at the end of the file, or one byte behind the expected size.\<close>

fun read_loop :: "nat \<Rightarrow> nat \<Rightarrow> string \<Rightarrow> (io_error + string) list \<Rightarrow> (io_error + string) option" where
  "read_loop expected k bytes [] = (if length bytes \<le> expected then None else Some (Inr bytes))"
| "read_loop expected k bytes (r # rs) =
     (if length bytes \<le> expected
      then (case r of
              Inr chunk \<Rightarrow>
                if chunk = [] then Some (Inr bytes)
                else read_loop expected k (bytes @ take (min (expected + 1 - length bytes) CHUNK_BYTES) chunk) rs
            | Inl e \<Rightarrow>
                if e = Io_Interrupted then read_loop expected k bytes rs
                else if e = Io_Eagain \<and> 0 < k then read_loop expected (k - 1) bytes rs
                else Some (Inl e))
      else Some (Inr bytes))"

definition read_blocking :: "string \<Rightarrow> string \<Rightarrow> file_answers \<Rightarrow> (read_error + contained_file) option" where
  "read_blocking static_dir relative fa =
     (case open_regular static_dir relative fa of
        None \<Rightarrow> None
      | Some (Inl e) \<Rightarrow> Some (Inl (classify_io False e))
      | Some (Inr file) \<Rightarrow>
     (case metadata_retry (fa_before fa file) of
        None \<Rightarrow> None
      | Some (Inl e) \<Rightarrow> Some (Inl (classify_io True e))
      | Some (Inr before) \<Rightarrow>
          if \<not> md_is_file before then Some (Inl Read_Missing)
          else if MAX_STATIC_FILE_BYTES < gn_len (md_generation before) then Some (Inl Read_Unavailable)
          else
     (case read_loop (gn_len (md_generation before)) MAX_EAGAIN_RETRIES [] (fa_reads fa file) of
        None \<Rightarrow> None
      | Some (Inl e) \<Rightarrow> Some (Inl (classify_io True e))
      | Some (Inr bytes) \<Rightarrow>
     (case metadata_retry (fa_after fa file) of
        None \<Rightarrow> None
      | Some (Inl e) \<Rightarrow> Some (Inl (classify_io True e))
      | Some (Inr after) \<Rightarrow>
          if length bytes \<noteq> gn_len (md_generation before) \<or> md_generation before \<noteq> md_generation after
          then Some (Inl Read_Unavailable)
          else Some (Inr \<lparr>cf_bytes = bytes, cf_modified = gn_modified (md_generation before),
                 cf_generation = md_generation before\<rparr>)))))"

definition exists_blocking :: "string \<Rightarrow> string \<Rightarrow> file_answers \<Rightarrow> bool option" where
  "exists_blocking static_dir relative fa =
     (case open_regular static_dir relative fa of
        None \<Rightarrow> None
      | Some (Inl e) \<Rightarrow> Some False
      | Some (Inr file) \<Rightarrow>
          (case metadata_retry (fa_before fa file) of
             None \<Rightarrow> None
           | Some (Inl e) \<Rightarrow> Some False
           | Some (Inr m) \<Rightarrow> Some (md_is_file m)))"

text \<open>A precompressed copy is read, then the source is opened again (answers \<open>again\<close>).\<close>

definition read_variant ::
    "string \<Rightarrow> string \<Rightarrow> file_answers \<Rightarrow> string \<Rightarrow> file_answers \<Rightarrow> contained_file \<Rightarrow> (read_error + contained_file) option" where
  "read_variant static_dir relative fa source_relative again source =
     (case read_blocking static_dir relative fa of
        None \<Rightarrow> None
      | Some (Inl e) \<Rightarrow> Some (Inl e)
      | Some (Inr variant) \<Rightarrow>
     (case open_regular static_dir source_relative again of
        None \<Rightarrow> None
      | Some (Inl e) \<Rightarrow> Some (Inl (classify_io True e))
      | Some (Inr file) \<Rightarrow>
     (case metadata_retry (fa_before again file) of
        None \<Rightarrow> None
      | Some (Inl e) \<Rightarrow> Some (Inl (classify_io True e))
      | Some (Inr current) \<Rightarrow>
          if md_generation current \<noteq> cf_generation source then Some (Inl Read_Unavailable) else Some (Inr variant))))"

section \<open>What a read promises\<close>

text \<open>A path stays below the directory it is resolved in: its depth never becomes negative.\<close>

fun stays_below :: "nat \<Rightarrow> path_component list \<Rightarrow> bool" where
  "stays_below d [] \<longleftrightarrow> True"
| "stays_below d (Root_Dir # cs) \<longleftrightarrow> False"
| "stays_below d (Cur_Dir # cs) \<longleftrightarrow> stays_below d cs"
| "stays_below d (Parent_Dir # cs) \<longleftrightarrow> 0 < d \<and> stays_below (d - 1) cs"
| "stays_below d (Normal_Component s # cs) \<longleftrightarrow> stays_below (Suc d) cs"

lemma stays_below_plain: "\<not> list_ex (\<lambda>c. c = Parent_Dir \<or> c = Root_Dir) cs \<Longrightarrow> stays_below d cs"
  by (induction d cs rule: stays_below.induct) auto

lemma validate_relative_below: "validate_relative p = Inr u \<Longrightarrow> p \<noteq> [] \<and> stays_below 0 (path_components p)"
  using stays_below_plain [of "path_components p" 0] by (auto simp: validate_relative_def split: if_splits)

text \<open>What the kernel promises of \<open>openat2\<close>: a path that is resolved beneath a directory, without magic links, leads to an object
  below that directory.\<close>

definition resolves_beneath :: "(nat \<Rightarrow> nat \<Rightarrow> bool) \<Rightarrow> file_answers \<Rightarrow> bool" where
  "resolves_beneath below fa \<longleftrightarrow>
     (\<forall>how h. Resolve_Beneath \<in> set (oh_resolve how) \<and> Resolve_No_Magiclinks \<in> set (oh_resolve how) \<and>
        Inr h \<in> set (fa_openat2 fa how) \<longrightarrow> below (oh_parent how) h)"

lemma retry_io_answer: "retry_io k rs = Some (Inr h) \<Longrightarrow> Inr h \<in> set rs"
  by (induction k rs rule: retry_io.induct) (auto split: if_splits)

lemma open_beneath_below:
  assumes "resolves_beneath below fa" and "open_beneath fa parent path flags = Some (Inr h)"
  shows "below parent h \<and> CHR 0x00 \<notin> set path"
proof -
  define how where "how = \<lparr>oh_parent = parent, oh_path = path, oh_flags = flags, oh_resolve = [Resolve_No_Magiclinks, Resolve_Beneath]\<rparr>"
  have r: "CHR 0x00 \<notin> set path" "retry_io MAX_EAGAIN_RETRIES (fa_openat2 fa how) = Some (Inr h)"
    using assms(2) by (auto simp: open_beneath_def how_def split: if_splits)
  have "Resolve_Beneath \<in> set (oh_resolve how) \<and> Resolve_No_Magiclinks \<in> set (oh_resolve how) \<and> oh_parent how = parent"
    by (simp add: how_def)
  then show ?thesis using assms(1) retry_io_answer [OF r(2)] r(1) unfolding resolves_beneath_def by blast
qed

lemma open_regular_contained:
  assumes "resolves_beneath below fa" and "open_regular static_dir relative fa = Some (Inr h)"
  shows "stays_below 0 (path_components static_dir) \<and> stays_below 0 (path_components relative) \<and>
     (\<exists>base. below (fa_root fa) base \<and> below base h \<and>
        open_beneath fa (fa_root fa) static_dir [O_Path, O_Directory, O_Cloexec] = Some (Inr base))"
proof -
  obtain u v where v: "validate_relative static_dir = Inr u" "validate_relative relative = Inr v"
    using assms(2) by (auto simp: open_regular_def split: sum.splits)
  obtain base where b: "open_beneath fa (fa_root fa) static_dir [O_Path, O_Directory, O_Cloexec] = Some (Inr base)"
    "open_beneath fa base relative [O_Rdonly, O_Cloexec] = Some (Inr h)"
    using assms(2) v by (auto simp: open_regular_def split: option.splits sum.splits)
  show ?thesis using validate_relative_below [OF v(1)] validate_relative_below [OF v(2)] b(1)
      open_beneath_below [OF assms(1) b(1)] open_beneath_below [OF assms(1) b(2)] by blast
qed

text \<open>The chunks a file delivers before its end.\<close>

fun delivered :: "(io_error + string) list \<Rightarrow> string" where
  "delivered [] = []"
| "delivered (Inr chunk # rs) = (if chunk = [] then [] else chunk @ delivered rs)"
| "delivered (Inl e # rs) = delivered rs"

definition chunks_fit :: "(io_error + string) list \<Rightarrow> bool" where
  "chunks_fit rs = list_all (\<lambda>r. case r of Inr chunk \<Rightarrow> length chunk \<le> CHUNK_BYTES | Inl e \<Rightarrow> True) rs"

lemma read_loop_delivered:
  assumes "read_loop expected k bytes rs = Some (Inr out)" and "length out \<le> expected" and "chunks_fit rs"
  shows "out = bytes @ delivered rs"
  using assms
proof (induction expected k bytes rs rule: read_loop.induct)
  case (2 expected k bytes r rs)
  show ?case
  proof (cases "length bytes \<le> expected")
    case le: True
    show ?thesis
    proof (cases r)
      case (Inl e)
      have f: "chunks_fit rs" using "2.prems"(3) by (simp add: chunks_fit_def)
      show ?thesis
      proof (cases "e = Io_Interrupted")
        case True
        then have "read_loop expected k bytes rs = Some (Inr out)" using "2.prems"(1) Inl le by simp
        then have "out = bytes @ delivered rs" using "2.prems"(2) f by (rule "2.IH"(1) [OF le Inl True])
        then show ?thesis using Inl by simp
      next
        case False
        then have e: "e = Io_Eagain \<and> 0 < k" and r: "read_loop expected (k - 1) bytes rs = Some (Inr out)"
          using "2.prems"(1) Inl le by (auto split: if_splits)
        have "out = bytes @ delivered rs" using r "2.prems"(2) f by (rule "2.IH"(2) [OF le Inl False e])
        then show ?thesis using Inl by simp
      qed
    next
      case (Inr chunk)
      show ?thesis
      proof (cases "chunk = []")
        case False
        define t where "t = take (min (expected + 1 - length bytes) CHUNK_BYTES) chunk"
        have r: "read_loop expected k (bytes @ take (min (expected + 1 - length bytes) CHUNK_BYTES) chunk) rs = Some (Inr out)"
          using "2.prems"(1) Inr False le by simp
        have f: "chunks_fit rs" using "2.prems"(3) by (simp add: chunks_fit_def)
        have o: "out = (bytes @ t) @ delivered rs"
          unfolding t_def by (rule "2.IH"(3) [OF le Inr False r "2.prems"(2) f])
        have le_out: "length bytes + length t \<le> length out" unfolding o by simp
        have s: "length bytes + length t \<le> expected" using le_out "2.prems"(2) by (rule le_trans)
        have c: "length chunk \<le> CHUNK_BYTES" using "2.prems"(3) Inr by (simp add: chunks_fit_def)
        have l: "length t = min (length chunk) (expected + 1 - length bytes)" using c by (simp add: t_def)
        have "length chunk \<le> expected + 1 - length bytes" using s l le by linarith
        then have "t = chunk" using c by (simp add: t_def)
        then show ?thesis using o Inr False by simp
      qed (use "2.prems"(1) Inr le in simp)
    qed
  qed (use "2.prems"(1,2) in simp)
qed (simp split: if_splits)

lemma classify_io_missing: "classify_io opened e = Read_Missing \<longleftrightarrow> e = Io_Not_Found \<and> \<not> opened"
  by (auto simp: classify_io_def)

text \<open>C39: A file is read only from below its directory, whole and unchanged: by what the kernel promises of \<open>openat2\<close> (a path
  resolved beneath a directory and without magic links leads below that directory) it lies below the static directory, and that below the directory of the deployment; neither path
  climbs. The bytes are those the reads of it delivered, as many as it had before and after, within the limit, and both looks at it
  saw the same generation of a regular file. A file is missing exactly when it could not be found when it was opened, or what was opened is no regular
  file.\<close>
theorem static_read_exact:
  assumes "resolves_beneath below fa"
  shows "(case read_blocking static_dir relative fa of
      Some (Inr f) \<Rightarrow>
        stays_below 0 (path_components static_dir) \<and> stays_below 0 (path_components relative) \<and>
        (\<exists>base fd before after. below (fa_root fa) base \<and> below base fd \<and>
           open_beneath fa (fa_root fa) static_dir [O_Path, O_Directory, O_Cloexec] = Some (Inr base) \<and>
           open_regular static_dir relative fa = Some (Inr fd) \<and>
           retry_io 8 (fa_before fa fd) = Some (Inr before) \<and> retry_io 8 (fa_after fa fd) = Some (Inr after) \<and>
           md_is_file before \<and> md_generation before = cf_generation f \<and> md_generation after = cf_generation f \<and>
           (if chunks_fit (fa_reads fa fd) then cf_bytes f = delivered (fa_reads fa fd) else True)) \<and>
        length (cf_bytes f) = gn_len (cf_generation f) \<and> gn_len (cf_generation f) \<le> MAX_STATIC_FILE_BYTES
    | _ \<Rightarrow> True) \<and>
    (read_blocking static_dir relative fa = Some (Inl Read_Missing) \<longleftrightarrow>
       (case open_regular static_dir relative fa of
          None \<Rightarrow> False
        | Some (Inl e) \<Rightarrow> e = Io_Not_Found
        | Some (Inr fd) \<Rightarrow> (case retry_io 8 (fa_before fa fd) of Some (Inr m) \<Rightarrow> \<not> md_is_file m | _ \<Rightarrow> False)))"
proof
  show "case read_blocking static_dir relative fa of
      Some (Inr f) \<Rightarrow>
        stays_below 0 (path_components static_dir) \<and> stays_below 0 (path_components relative) \<and>
        (\<exists>base fd before after. below (fa_root fa) base \<and> below base fd \<and>
           open_beneath fa (fa_root fa) static_dir [O_Path, O_Directory, O_Cloexec] = Some (Inr base) \<and>
           open_regular static_dir relative fa = Some (Inr fd) \<and>
           retry_io 8 (fa_before fa fd) = Some (Inr before) \<and> retry_io 8 (fa_after fa fd) = Some (Inr after) \<and>
           md_is_file before \<and> md_generation before = cf_generation f \<and> md_generation after = cf_generation f \<and>
           (if chunks_fit (fa_reads fa fd) then cf_bytes f = delivered (fa_reads fa fd) else True)) \<and>
        length (cf_bytes f) = gn_len (cf_generation f) \<and> gn_len (cf_generation f) \<le> MAX_STATIC_FILE_BYTES
    | _ \<Rightarrow> True"
  proof (cases "\<exists>f. read_blocking static_dir relative fa = Some (Inr f)")
    case True
    then obtain f where f: "read_blocking static_dir relative fa = Some (Inr f)" by blast
    then obtain fd before bytes after where
      o: "open_regular static_dir relative fa = Some (Inr fd)" and
      b: "metadata_retry (fa_before fa fd) = Some (Inr before)" "md_is_file before" "\<not> MAX_STATIC_FILE_BYTES < gn_len (md_generation before)" and
      l: "read_loop (gn_len (md_generation before)) MAX_EAGAIN_RETRIES [] (fa_reads fa fd) = Some (Inr bytes)" and
      a: "metadata_retry (fa_after fa fd) = Some (Inr after)" and
      e: "length bytes = gn_len (md_generation before)" "md_generation before = md_generation after" and
      g: "f = \<lparr>cf_bytes = bytes, cf_modified = gn_modified (md_generation before), cf_generation = md_generation before\<rparr>"
      by (auto simp: read_blocking_def split: option.splits sum.splits if_splits)
    have d: "bytes = delivered (fa_reads fa fd)" if "chunks_fit (fa_reads fa fd)"
      using read_loop_delivered [OF l _ that] e(1) by simp
    note c = open_regular_contained [OF assms o]
    obtain base where base: "below (fa_root fa) base" "below base fd"
      "open_beneath fa (fa_root fa) static_dir [O_Path, O_Directory, O_Cloexec] = Some (Inr base)" using c by blast
    show ?thesis unfolding f option.case sum.case
      using c base o a b d e by (intro conjI exI [of _ base] exI [of _ fd] exI [of _ before] exI [of _ after])
        (simp_all add: g metadata_retry_def MAX_EAGAIN_RETRIES_def)
  qed (auto split: option.split sum.split)
  show "read_blocking static_dir relative fa = Some (Inl Read_Missing) \<longleftrightarrow>
       (case open_regular static_dir relative fa of
          None \<Rightarrow> False
        | Some (Inl e) \<Rightarrow> e = Io_Not_Found
        | Some (Inr fd) \<Rightarrow> (case retry_io 8 (fa_before fa fd) of Some (Inr m) \<Rightarrow> \<not> md_is_file m | _ \<Rightarrow> False))"
    by (auto simp: read_blocking_def metadata_retry_def MAX_EAGAIN_RETRIES_def classify_io_missing
        split: option.splits sum.splits if_splits)
qed

text \<open>A deployment (0) with a static directory (1) and one file in it (2).\<close>

definition demo_metadata :: file_metadata where
  "demo_metadata = \<lparr>md_is_file = True, md_generation = \<lparr>gn_len = 2, gn_modified = None, gn_dev = 1, gn_ino = 2, gn_ctime = 0, gn_ctime_nsec = 0\<rparr>\<rparr>"

definition demo_kernel :: file_answers where
  "demo_kernel = \<lparr>fa_root = 0,
     fa_openat2 = (\<lambda>how. if oh_parent how = 0 \<and> oh_path how = ''public'' then [Inl Io_Interrupted, Inr 1]
                         else if oh_parent how = 1 \<and> oh_path how = ''a.txt'' then [Inl Io_Eagain, Inr 2] else [Inl Io_Not_Found]),
     fa_before = (\<lambda>h. [Inr demo_metadata]), fa_reads = (\<lambda>h. [Inr ''h'', Inl Io_Eagain, Inr ''i'', Inr []]), fa_after = (\<lambda>h. [Inr demo_metadata])\<rparr>"

theorem static_read_exact_witness:
  "resolves_beneath (\<lambda>d f. f = Suc d) demo_kernel \<and> map_option (map_sum id cf_bytes) (read_blocking ''public'' ''a.txt'' demo_kernel) = Some (Inr ''hi'') \<and>
   (\<exists>base fd. base = Suc 0 \<and> fd = Suc base \<and> open_regular ''public'' ''a.txt'' demo_kernel = Some (Inr fd))"
proof -
  have k: "resolves_beneath (\<lambda>d f. f = Suc d) demo_kernel" by (auto simp: resolves_beneath_def demo_kernel_def)
  have r: "map_option (map_sum id cf_bytes) (read_blocking ''public'' ''a.txt'' demo_kernel) = Some (Inr ''hi'')" by code_simp
  then obtain f where f: "read_blocking ''public'' ''a.txt'' demo_kernel = Some (Inr f)"
    by (cases "read_blocking ''public'' ''a.txt'' demo_kernel") (auto simp: map_sum_def split: sum.splits)
  have z: "fa_root demo_kernel = 0" by (simp add: demo_kernel_def)
  show ?thesis using k r static_read_exact [OF k, of "''public''" "''a.txt''"] unfolding f option.case sum.case z by auto
qed

section \<open>Reads end\<close>

text \<open>Interruptions apart, how many answers a call got.\<close>

definition answered :: "(io_error + 'a) list \<Rightarrow> nat" where
  "answered rs = length (filter (\<lambda>r. case r of Inl e \<Rightarrow> e \<noteq> Io_Interrupted | Inr a \<Rightarrow> True) rs)"

lemma answered_simps [simp]:
  "answered [] = 0" "answered (Inr a # rs) = Suc (answered rs)"
  "answered (Inl e # rs) = (if e = Io_Interrupted then answered rs else Suc (answered rs))"
  by (simp_all add: answered_def)

lemma retry_io_returns: "k < answered rs \<Longrightarrow> retry_io k rs \<noteq> None"
  by (induction k rs rule: retry_io.induct) (auto split: if_splits)

lemma read_loop_returns: "expected + 1 + k \<le> answered rs + length bytes \<Longrightarrow> k \<le> answered rs \<Longrightarrow> read_loop expected k bytes rs \<noteq> None"
proof (induction expected k bytes rs rule: read_loop.induct)
  case (2 expected k bytes r rs)
  show ?case
  proof (cases "length bytes \<le> expected")
    case le: True
    show ?thesis
    proof (cases r)
      case (Inl e)
      then show ?thesis using 2 le by (cases e; cases "0 < k") auto
    next
      case (Inr chunk)
      show ?thesis
      proof (cases "chunk = []")
        case False
        let ?t = "take (min (expected + 1 - length bytes) CHUNK_BYTES) chunk"
        have "1 \<le> length ?t" using False le by (cases chunk) (auto simp: CHUNK_BYTES_def)
        then show ?thesis using "2.IH"(3) [OF le Inr False] "2.prems" Inr False le by auto
      qed (use Inr le in simp)
    qed
  qed simp
qed (auto split: if_splits)

lemma open_beneath_returns:
  assumes "\<And>how. 8 < answered (fa_openat2 fa how)"
  shows "open_beneath fa parent path flags \<noteq> None"
  using retry_io_returns [OF assms] by (simp add: open_beneath_def MAX_EAGAIN_RETRIES_def del: not_None_eq)

lemma open_regular_returns:
  assumes "\<And>how. 8 < answered (fa_openat2 fa how)"
  shows "open_regular static_dir relative fa \<noteq> None"
  using open_beneath_returns [OF assms] by (auto simp: open_regular_def simp del: not_None_eq split: sum.splits option.splits)

text \<open>Reading a file ends: nine answers to each call that opens or looks at it and as many reads as the file may have bytes, plus
  nine, are enough, whatever they are; only a call that is interrupted again and again goes on.\<close>
theorem static_read_terminates:
  assumes "\<And>how. 8 < answered (fa_openat2 fa how)" and "\<And>h. 8 < answered (fa_before fa h)" and "\<And>h. 8 < answered (fa_after fa h)"
    and "\<And>h. MAX_STATIC_FILE_BYTES + 9 \<le> answered (fa_reads fa h)"
  shows "\<exists>r. read_blocking static_dir relative fa = Some r"
proof -
  have l: "read_loop n MAX_EAGAIN_RETRIES [] (fa_reads fa h) \<noteq> None" if "\<not> MAX_STATIC_FILE_BYTES < n" for n h
    by (rule read_loop_returns) (use that assms(4) [of h] in \<open>simp_all add: MAX_EAGAIN_RETRIES_def\<close>)
  have m: "metadata_retry (fa_before fa h) \<noteq> None" "metadata_retry (fa_after fa h) \<noteq> None" for h
    unfolding metadata_retry_def MAX_EAGAIN_RETRIES_def by (rule retry_io_returns, rule assms)+
  have "read_blocking static_dir relative fa \<noteq> None"
    using open_regular_returns [OF assms(1), of static_dir relative] l m
    by (auto simp: read_blocking_def simp del: not_None_eq split: option.splits sum.splits)
  then show ?thesis by blast
qed

end
