(* ===== verification/Gateway_Static.thy ===== *)
theory Gateway_Static
  imports Gateway_Files Gateway_Proxy Fluid_Routes Build_Output
begin

text \<open>
  Static files of a deployment (\<open>crates/fluid-gateway/src/lib.rs\<close>): the encodings a client accepts, the choice of a
  precompressed copy or of compression, caching by name, and which file answers a path. Reading a file is a parameter here (\<open>Gateway_Files\<close>
  models it), as are the compressors (crates brotli and flate2). The \<open>content-type\<close> that axum adds to a plain text body is left out.
\<close>

section \<open>The deployment that serves\<close>

record remote_pattern =
  rp_protocol :: "string option"
  rp_hostname :: string
  rp_port :: "string option"
  rp_pathname :: "string option"
  rp_search :: "string option"

record local_pattern =
  lp_pathname :: "string option"
  lp_search :: "string option"

record images_config =
  ic_sizes :: "nat list"
  ic_qualities :: "nat list"
  ic_formats :: "string list"
  ic_minimum_cache_ttl :: "nat option"
  ic_domains :: "string list"
  ic_remote_patterns :: "remote_pattern list"
  ic_local_patterns :: "local_pattern list"
  ic_allow_svg :: "bool option"
  ic_csp :: "string option"
  ic_disposition :: "string option"

text \<open>The part of a manifest that routing and static serving read, by deployment.\<close>

record site_config =
  sm_manifest :: manifest
  sm_clean_urls :: bool
  sm_static_dir :: "string option"
  sm_origin_function :: "string option"
  sm_images :: "images_config option"
  sm_build_output :: "build_output option"

record site = selected +
  st_config :: site_config

definition site_of :: "(deployment_id \<Rightarrow> site_config) \<Rightarrow> selected \<Rightarrow> site" where
  "site_of configs s =
     \<lparr>sd_deployment = sd_deployment s, sd_root = sd_root s, sd_v3 = sd_v3 s, st_config = configs (gd_id (sd_deployment s))\<rparr>"

abbreviation sd_manifest :: "site \<Rightarrow> manifest" where "sd_manifest dep \<equiv> sm_manifest (st_config dep)"
abbreviation sd_clean_urls :: "site \<Rightarrow> bool" where "sd_clean_urls dep \<equiv> sm_clean_urls (st_config dep)"
abbreviation sd_static_dir :: "site \<Rightarrow> string option" where "sd_static_dir dep \<equiv> sm_static_dir (st_config dep)"
abbreviation sd_origin_function :: "site \<Rightarrow> string option" where "sd_origin_function dep \<equiv> sm_origin_function (st_config dep)"
abbreviation sd_images :: "site \<Rightarrow> images_config option" where "sd_images dep \<equiv> sm_images (st_config dep)"
abbreviation sd_build_output :: "site \<Rightarrow> build_output option" where "sd_build_output dep \<equiv> sm_build_output (st_config dep)"
abbreviation sd_static_root :: "site \<Rightarrow> bool" where "sd_static_root dep \<equiv> sd_root dep \<noteq> None"

definition static_dir_path :: "site \<Rightarrow> string" where
  "static_dir_path dep =
     (case sd_static_dir dep of Some p \<Rightarrow> if trim p \<noteq> [] then p else ''.'' | None \<Rightarrow> ''.'')"

text \<open>\<open>PathBuf::join\<close>, \<open>Path::extension\<close>.\<close>

definition path_join :: "string \<Rightarrow> string \<Rightarrow> string" where
  "path_join a b =
     (if starts_with ''/'' b then b else if a = [] \<or> ends_with ''/'' a then a @ b else a @ ''/'' @ b)"

definition path_extension :: "string \<Rightarrow> string option" where
  "path_extension p =
     (case rev (path_components p) of
        Normal_Component f # _ \<Rightarrow>
          (let parts = split_on CHR ''.'' f
           in if length parts = 1 \<or> (length parts = 2 \<and> hd parts = []) then None else Some (last parts))
      | _ \<Rightarrow> None)"

definition content_type :: "string \<Rightarrow> string" where
  "content_type file =
     (case path_extension file of
        None \<Rightarrow> ''application/octet-stream''
      | Some e \<Rightarrow>
          if e \<in> {''html'', ''htm''} then ''text/html; charset=utf-8''
          else if e = ''css'' then ''text/css''
          else if e \<in> {''js'', ''mjs''} then ''text/javascript''
          else if e = ''json'' then ''application/json''
          else if e = ''svg'' then ''image/svg+xml''
          else if e = ''png'' then ''image/png''
          else if e \<in> {''jpg'', ''jpeg''} then ''image/jpeg''
          else if e = ''gif'' then ''image/gif''
          else if e = ''ico'' then ''image/x-icon''
          else if e = ''txt'' then ''text/plain; charset=utf-8''
          else if e = ''wasm'' then ''application/wasm''
          else ''application/octet-stream'')"

section \<open>Encodings and caching\<close>

text \<open>\<open>v.parse::<f32>()\<close> and \<open>v <= 0.0\<close>: the decimal is negative, zero, or rounds to zero.\<close>

definition split_sign :: "string \<Rightarrow> bool \<times> string" where
  "split_sign s = (case s of [] \<Rightarrow> (False, []) | c # r \<Rightarrow> if c = CHR ''-'' then (True, r) else if c = CHR ''+'' then (False, r) else (False, s))"

definition parse_exponent :: "string \<Rightarrow> int option" where
  "parse_exponent s =
     (case s of
        [] \<Rightarrow> Some 0
      | c # t \<Rightarrow>
          if c = CHR ''e'' \<or> c = CHR ''E'' then
            (case split_sign t of (neg, ds) \<Rightarrow>
               if ds = [] \<or> \<not> list_all is_digit ds then None
               else Some (if neg then - int (digits_val 0 ds) else int (digits_val 0 ds)))
          else None)"

definition f32_nonpositive :: "string \<Rightarrow> bool" where
  "f32_nonpositive s =
     (case split_sign s of (neg, r) \<Rightarrow>
        if to_lowercase r = ''inf'' \<or> to_lowercase r = ''infinity'' then neg
        else
          (let ip = takeWhile is_digit r; r1 = dropWhile is_digit r;
               dot = starts_with ''.'' r1;
               frac = (if dot then takeWhile is_digit (tl r1) else []);
               r2 = (if dot then dropWhile is_digit (tl r1) else r1)
           in if ip @ frac = [] then False
              else (case parse_exponent r2 of
                      None \<Rightarrow> False
                    | Some x \<Rightarrow>
                        (let m = digits_val 0 (ip @ frac); e = x - int (length frac)
                         in neg \<or> m = 0 \<or> (e < 0 \<and> m * 2 ^ 150 \<le> 10 ^ nat (- e))))))"

record accepted_encodings =
  ae_br :: bool
  ae_gzip :: bool

definition part_refused :: "string list \<Rightarrow> bool" where
  "part_refused params = list_ex (\<lambda>p. case strip_prefix ''q='' (to_lowercase (trim p)) of Some q \<Rightarrow> f32_nonpositive q | None \<Rightarrow> False) params"

definition accept_part :: "string \<Rightarrow> accepted_encodings \<Rightarrow> accepted_encodings" where
  "accept_part part enc =
     (case split_on CHR '';'' part of
        [] \<Rightarrow> enc
      | n # params \<Rightarrow>
          (let name = to_lowercase (trim n)
           in if part_refused params then enc
              else if name = ''br'' then enc\<lparr>ae_br := True\<rparr>
              else if name = ''gzip'' then enc\<lparr>ae_gzip := True\<rparr>
              else if name = ''*'' then \<lparr>ae_br = True, ae_gzip = True\<rparr>
              else enc))"

definition accepted_encodings_of :: "header_map \<Rightarrow> accepted_encodings" where
  "accepted_encodings_of hs =
     fold accept_part (split_on CHR '','' (case header_text ''accept-encoding'' hs of Some v \<Rightarrow> v | None \<Rightarrow> []))
       \<lparr>ae_br = False, ae_gzip = False\<rparr>"

definition is_compressible :: "string \<Rightarrow> bool" where
  "is_compressible ctype =
     (let c = trim (hd (split_on CHR '';'' ctype))
      in starts_with ''text/'' c \<or>
         c \<in> {''application/javascript'', ''text/javascript'', ''application/json'', ''application/manifest+json'',
               ''application/ld+json'', ''application/xml'', ''application/rss+xml'', ''application/atom+xml'', ''image/svg+xml'',
               ''application/wasm'', ''application/x-font-ttf'', ''font/ttf'', ''font/otf''})"

definition MIN_COMPRESS_BYTES :: nat where
  "MIN_COMPRESS_BYTES = 1024"

definition MAX_INLINE_COMPRESS_BYTES :: nat where
  "MAX_INLINE_COMPRESS_BYTES = 8 * 1024 * 1024"

text \<open>The file name is cut at dots and dashes.\<close>

definition is_hashed_asset :: "string \<Rightarrow> bool" where
  "is_hashed_asset file =
     list_ex (\<lambda>seg. 8 \<le> length seg \<and> list_all (\<lambda>b. hex_digit b \<noteq> None) seg \<and> list_ex is_digit seg)
       (concat (map (split_on CHR ''-'') (split_on CHR ''.'' file)))"

definition static_cache_control :: "string \<Rightarrow> string" where
  "static_cache_control path =
     (if str_contains path ''/_next/static/'' \<or> is_hashed_asset (last (split_on CHR ''/'' path))
      then ''public, max-age=31536000, immutable''
      else ''public, max-age=0, must-revalidate'')"

section \<open>Responses\<close>

record static_world =
  sw_value_ok :: "string \<Rightarrow> bool"
  sw_compress :: "bool \<Rightarrow> string \<Rightarrow> string option"
  sw_read :: "string \<Rightarrow> string \<Rightarrow> read_error + contained_file"
  sw_variant :: "string \<Rightarrow> string \<Rightarrow> string \<Rightarrow> contained_file \<Rightarrow> read_error + contained_file"
  sw_exists :: "string \<Rightarrow> string \<Rightarrow> bool"
  sw_detail :: "refusal \<Rightarrow> string"

definition static_read_error :: "read_error \<Rightarrow> gw_response" where
  "static_read_error e =
     (case e of
        Read_Missing \<Rightarrow> \<lparr>re_status = 404, re_headers = [(''x-hive-error'', ''NOT_FOUND'')], re_body = ''not found''\<rparr>
      | Read_Forbidden \<Rightarrow> \<lparr>re_status = 403, re_headers = [(''x-hive-error'', ''STATIC_FORBIDDEN'')], re_body = ''forbidden''\<rparr>
      | Read_Unavailable \<Rightarrow>
          \<lparr>re_status = 503, re_headers = [(''x-hive-error'', ''STATIC_UNAVAILABLE'')], re_body = ''static asset unavailable''\<rparr>)"

text \<open>The details of a refusal, which the model of refusals leaves out, are \<open>sw_detail\<close>.\<close>

definition build_output_v3_refusal_response :: "static_world \<Rightarrow> refusal \<Rightarrow> gw_response" where
  "build_output_v3_refusal_response w r =
     (case r of
        Refusal_Unsupported feature \<Rightarrow>
          \<lparr>re_status = 501, re_headers = [(''x-hive-error'', refusal_code r)], re_body = refusal_code r @ '': '' @ feature\<rparr>
      | Refusal_Invalid field \<Rightarrow>
          \<lparr>re_status = 500, re_headers = [(''x-hive-error'', refusal_code r)],
           re_body = refusal_code r @ '' '' @ field @ '': '' @ sw_detail w r\<rparr>)"

definition fresh_sibling ::
    "static_world \<Rightarrow> string \<Rightarrow> string \<Rightarrow> string \<Rightarrow> contained_file \<Rightarrow> read_error + string option" where
  "fresh_sibling w static_dir relative source_relative source =
     (case sw_variant w static_dir relative source_relative source of
        Inl Read_Missing \<Rightarrow> Inr None
      | Inl e \<Rightarrow> Inl e
      | Inr sibling \<Rightarrow>
          (case (cf_modified source, cf_modified sibling) of
             (Some s, Some p) \<Rightarrow> Inr (if s \<le> p then Some (cf_bytes sibling) else None)
           | _ \<Rightarrow> Inr None))"

text \<open>The wanted copies in order, each with its extension and label.\<close>

fun find_sibling ::
    "static_world \<Rightarrow> string \<Rightarrow> string \<Rightarrow> contained_file \<Rightarrow> (bool \<times> string \<times> string) list \<Rightarrow> read_error + (string \<times> string) option" where
  "find_sibling w static_dir relative source [] = Inr None"
| "find_sibling w static_dir relative source ((want, ext, label) # rest) =
     (if \<not> want then find_sibling w static_dir relative source rest
      else (case fresh_sibling w static_dir (relative @ ''.'' @ ext) relative source of
              Inl e \<Rightarrow> Inl e
            | Inr (Some pre) \<Rightarrow> Inr (Some (label, pre))
            | Inr None \<Rightarrow> find_sibling w static_dir relative source rest))"

definition compressed_inline :: "static_world \<Rightarrow> accepted_encodings \<Rightarrow> string \<Rightarrow> (string \<times> string) option" where
  "compressed_inline w enc bytes =
     (if length bytes \<le> MAX_INLINE_COMPRESS_BYTES
      then (case sw_compress w (ae_br enc) bytes of
              Some out \<Rightarrow> if length out < length bytes then Some (if ae_br enc then ''br'' else ''gzip'', out) else None
            | None \<Rightarrow> None)
      else None)"

definition static_headers :: "static_world \<Rightarrow> string \<Rightarrow> string \<Rightarrow> (string \<times> string) list" where
  "static_headers w ctype cache_control =
     (if sw_value_ok w ctype then [(''content-type'', ctype)] else []) @
     (if sw_value_ok w cache_control then [(''cache-control'', cache_control)] else []) @ [(''vary'', ''Accept-Encoding'')]"

definition static_asset_response ::
    "static_world \<Rightarrow> string \<Rightarrow> string \<Rightarrow> contained_file \<Rightarrow> string \<Rightarrow> string \<Rightarrow> bool \<Rightarrow> accepted_encodings \<Rightarrow> read_error + gw_response" where
  "static_asset_response w static_dir relative source ctype cache_control allow_precompressed enc =
     (let hs = static_headers w ctype cache_control;
          identity = \<lparr>re_status = 200, re_headers = hs, re_body = cf_bytes source\<rparr>;
          encoded = (\<lambda>(label, body). \<lparr>re_status = 200, re_headers = hs @ [(''content-encoding'', label)], re_body = body\<rparr>)
      in if (ae_br enc \<or> ae_gzip enc) \<and> is_compressible ctype \<and> MIN_COMPRESS_BYTES \<le> length (cf_bytes source) then
           (case (if allow_precompressed
                  then find_sibling w static_dir relative source
                         [(ae_br enc, ''br'', ''br''), (ae_gzip enc, ''gz'', ''gzip'')]
                  else Inr None) of
              Inl e \<Rightarrow> Inl e
            | Inr (Some pre) \<Rightarrow> Inr (encoded pre)
            | Inr None \<Rightarrow> Inr (case compressed_inline w enc (cf_bytes source) of Some c \<Rightarrow> encoded c | None \<Rightarrow> identity))
         else Inr identity)"

section \<open>Which file answers\<close>

definition html_type :: string where
  "html_type = ''text/html; charset=utf-8''"

definition revalidate :: string where
  "revalidate = ''public, max-age=0, must-revalidate''"

definition logical_file :: "site \<Rightarrow> string \<Rightarrow> string" where
  "logical_file dep relative = path_join (path_join (gd_root (sd_deployment dep)) (static_dir_path dep)) relative"

definition or_error :: "read_error + gw_response \<Rightarrow> gw_response" where
  "or_error r = (case r of Inr resp \<Rightarrow> resp | Inl e \<Rightarrow> static_read_error e)"

definition serve_build_output_v3_asset ::
    "static_world \<Rightarrow> site \<Rightarrow> string \<Rightarrow> string option \<Rightarrow> string \<Rightarrow> accepted_encodings \<Rightarrow> gw_response" where
  "serve_build_output_v3_asset w dep asset override request_path enc =
     (if \<not> sd_static_root dep then static_read_error Read_Unavailable
      else case sw_read w (static_dir_path dep) asset of
        Inr source \<Rightarrow>
          or_error (static_asset_response w (static_dir_path dep) asset source
            (case override of Some t \<Rightarrow> t | None \<Rightarrow> content_type (logical_file dep asset)) (static_cache_control request_path) False enc)
      | Inl Read_Missing \<Rightarrow> coded_response 503 ''BUILD_OUTPUT_V3_OUTPUT_MISSING''
      | Inl e \<Rightarrow> static_read_error e)"

definition requested_file :: "string \<Rightarrow> string" where
  "requested_file path =
     (let rel = trim_start_matches CHR ''/'' path
      in if ends_with ''/'' path \<or> rel = [] then path_join rel ''index.html'' else rel)"

definition clean_url_applies :: "site \<Rightarrow> string \<Rightarrow> bool" where
  "clean_url_applies dep path \<longleftrightarrow> sd_clean_urls dep \<and> trim_start_matches CHR ''/'' path \<noteq> [] \<and> \<not> ends_with ''/'' path"

definition read_static_file :: "static_world \<Rightarrow> site \<Rightarrow> string \<Rightarrow> accepted_encodings \<Rightarrow> read_error + gw_response option" where
  "read_static_file w dep path enc =
     (if \<not> sd_static_root dep then Inl Read_Unavailable
      else case sw_read w (static_dir_path dep) (requested_file path) of
        Inr source \<Rightarrow>
          map_sum id Some (static_asset_response w (static_dir_path dep) (requested_file path) source
            (content_type (logical_file dep (requested_file path))) (static_cache_control path) True enc)
      | Inl Read_Missing \<Rightarrow>
          if clean_url_applies dep path then
            (let relative = trim_start_matches CHR ''/'' path @ ''.html''
             in case sw_read w (static_dir_path dep) relative of
                  Inr source \<Rightarrow>
                    map_sum id Some (static_asset_response w (static_dir_path dep) relative source html_type revalidate True enc)
                | Inl Read_Missing \<Rightarrow> Inr None
                | Inl e \<Rightarrow> Inl e)
          else Inr None
      | Inl e \<Rightarrow> Inl e)"

text \<open>\<open>{:?}\<close> of a string: quotes, backslashes and control characters are escaped. Bytes of longer characters are printed as they are.\<close>

definition debug_char :: "char \<Rightarrow> string" where
  "debug_char c =
     (if c = CHR 0x22 then [CHR 0x5C, CHR 0x22] else if c = CHR 0x5C then [CHR 0x5C, CHR 0x5C]
      else if c = CHR 0x0A then [CHR 0x5C, CHR ''n''] else if c = CHR 0x0D then [CHR 0x5C, CHR ''r'']
      else if c = CHR 0x09 then [CHR 0x5C, CHR ''t''] else if c = CHR 0x00 then [CHR 0x5C, CHR ''0'']
      else if is_control c then CHR 0x5C # ''u{'' @ nat_to_hex (of_char c) @ ''}''
      else [c])"

definition debug_str :: "string \<Rightarrow> string" where
  "debug_str s = [CHR 0x22] @ concat (map debug_char s) @ [CHR 0x22]"

fun join_str :: "string \<Rightarrow> string list \<Rightarrow> string" where
  "join_str sep [] = []"
| "join_str sep [s] = s"
| "join_str sep (s # t # r) = s @ sep @ join_str sep (t # r)"

definition no_static_file :: "site \<Rightarrow> string \<Rightarrow> gw_response" where
  "no_static_file dep path =
     (let mf = sd_manifest dep; nl = [CHR 0x0A]; q = [CHR 0x22]
      in if mf_functions mf = [] \<or> route_matched mf path
         then \<lparr>re_status = 404, re_headers = [(''x-hive-error'', ''NOT_FOUND'')], re_body = ''not found''\<rparr>
         else
           (let patterns = (if mf_routes mf = [] then ''none declared'' else join_str '', '' (map (\<lambda>r. debug_str (pr_pattern r)) (mf_routes mf)));
                functions = join_str '', '' (map fst (mf_functions mf));
                first = (case mf_functions mf of [] \<Rightarrow> ''web'' | (n, _) # _ \<Rightarrow> n)
            in \<lparr>re_status = 404, re_headers = [(''x-hive-error'', ''NO_ROUTE_MATCHED'')],
                 re_body = ''NO_ROUTE_MATCHED: no route in this deployment matches '' @ debug_str path @
                   '', and no static file exists there either.'' @ nl @ nl @ ''Declared routes: '' @ patterns @ nl @
                   ''Declared functions: '' @ functions @ nl @ nl @ ''Add a catch-all to fluid.json, e.g. '' @ q @ ''routes'' @ q @
                   '': [{ '' @ q @ ''pattern'' @ q @ '': '' @ q @ ''/*'' @ q @ '', '' @ q @ ''target'' @ q @ '': { '' @ q @ ''function'' @ q @
                   '': '' @ q @ first @ q @ '' } }]. Patterns are prefix matches: '' @ q @ ''/'' @ q @ '', '' @ q @ ''/*'' @ q @ '' and '' @
                   q @ ''*'' @ q @ '' match every path; '' @ q @ ''/api'' @ q @ '' and '' @ q @ ''/api/*'' @ q @ '' match /api and /api/...'' @ nl\<rparr>))"

definition serve_static :: "static_world \<Rightarrow> site \<Rightarrow> string \<Rightarrow> accepted_encodings \<Rightarrow> gw_response" where
  "serve_static w dep path enc =
     (if \<not> sd_static_root dep then static_read_error Read_Unavailable
      else
        (let dir = static_dir_path dep;
             index = (case sw_read w dir ''index.html'' of
                        Inr source \<Rightarrow> or_error (static_asset_response w dir ''index.html'' source ''text/html'' revalidate True enc)
                      | Inl Read_Missing \<Rightarrow> no_static_file dep path
                      | Inl e \<Rightarrow> static_read_error e)
         in case sw_read w dir (requested_file path) of
              Inr source \<Rightarrow>
                or_error (static_asset_response w dir (requested_file path) source (content_type (logical_file dep (requested_file path)))
                  (static_cache_control path) True enc)
            | Inl Read_Missing \<Rightarrow>
                if clean_url_applies dep path then
                  (case sw_read w dir (trim_start_matches CHR ''/'' path @ ''.html'') of
                     Inr source \<Rightarrow>
                       or_error (static_asset_response w dir (trim_start_matches CHR ''/'' path @ ''.html'') source html_type revalidate True enc)
                   | Inl Read_Missing \<Rightarrow> index
                   | Inl e \<Rightarrow> static_read_error e)
                else index
            | Inl e \<Rightarrow> static_read_error e))"

end
