(* ===== verification/Gateway_Static_Props.thy ===== *)
theory Gateway_Static_Props
  imports Gateway_Static
begin

text \<open>
  What static serving promises: a body is sent in an encoding the client accepts and is the selected file, a copy at least as new,
  or a smaller compression of it; the paths of both entry points agree; prebuilt outputs are served from the
  declared file alone.
\<close>

section \<open>Accepted encodings\<close>

definition offers :: "string \<Rightarrow> string \<Rightarrow> bool" where
  "offers name part \<longleftrightarrow>
     (case split_on CHR '';'' part of [] \<Rightarrow> False
      | n # params \<Rightarrow> \<not> part_refused params \<and> to_lowercase (trim n) \<in> {name, ''*''})"

lemma accept_part_offers:
  "ae_br (accept_part p enc) = (ae_br enc \<or> offers ''br'' p)" "ae_gzip (accept_part p enc) = (ae_gzip enc \<or> offers ''gzip'' p)"
  by (auto simp: accept_part_def offers_def Let_def split: list.splits)

lemma accept_fold:
  "ae_br (fold accept_part ps enc) = (ae_br enc \<or> list_ex (offers ''br'') ps)"
  "ae_gzip (fold accept_part ps enc) = (ae_gzip enc \<or> list_ex (offers ''gzip'') ps)"
  by (induction ps arbitrary: enc) (auto simp: accept_part_offers)

lemma accepted_encodings_exact:
  "ae_br (accepted_encodings_of hs) = list_ex (offers ''br'') (split_on CHR '','' (case header_text ''accept-encoding'' hs of Some v \<Rightarrow> v | None \<Rightarrow> []))"
  "ae_gzip (accepted_encodings_of hs) = list_ex (offers ''gzip'') (split_on CHR '','' (case header_text ''accept-encoding'' hs of Some v \<Rightarrow> v | None \<Rightarrow> []))"
  by (simp_all add: accepted_encodings_of_def accept_fold)

text \<open>A wildcard gives back an encoding that the same header refuses.\<close>

lemma refused_encoding_accepted: "ae_br (accepted_encodings_of [(''accept-encoding'', Some ''br;q=0, *'')])"
  by code_simp

lemma refused_encoding: "accepted_encodings_of [(''accept-encoding'', Some ''br;q=0.0, gzip'')] = \<lparr>ae_br = False, ae_gzip = True\<rparr>"
  by code_simp

section \<open>Bodies\<close>

lemma fresh_sibling_sound:
  "fresh_sibling w dir rel src_rel source = Inr (Some pre) \<Longrightarrow>
     \<exists>f s p. sw_variant w dir rel src_rel source = Inr f \<and> cf_bytes f = pre \<and> cf_modified source = Some s \<and> cf_modified f = Some p \<and> s \<le> p"
  by (auto simp: fresh_sibling_def split: sum.splits read_error.splits option.splits if_splits)

lemma find_sibling_sound:
  "find_sibling w dir rel source wanted = Inr (Some (label, pre)) \<Longrightarrow>
     \<exists>ext. (True, ext, label) \<in> set wanted \<and> fresh_sibling w dir (rel @ ''.'' @ ext) rel source = Inr (Some pre)"
  by (induction w dir rel source wanted rule: find_sibling.induct)
     (auto split: if_splits sum.splits option.splits)

text \<open>A body in an encoding: the copy of the file under its extension, no older than it, or a smaller compression.\<close>

definition encodes :: "static_world \<Rightarrow> string \<Rightarrow> string \<Rightarrow> contained_file \<Rightarrow> bool \<Rightarrow> string \<Rightarrow> string \<Rightarrow> bool \<Rightarrow> bool" where
  "encodes w dir rel source br ext body copies \<longleftrightarrow>
     (copies \<and> (\<exists>f s p. sw_variant w dir (rel @ ''.'' @ ext) rel source = Inr f \<and> cf_bytes f = body \<and>
        cf_modified source = Some s \<and> cf_modified f = Some p \<and> s \<le> p)) \<or>
     (sw_compress w br (cf_bytes source) = Some body \<and> length body < length (cf_bytes source))"

lemma static_headers_encoding: "''content-encoding'' \<notin> fst ` set (static_headers w ctype cc)"
  by (auto simp: static_headers_def)

text \<open>A static body is the selected file itself, or it is labelled with an encoding the client accepts; then it is a copy of
  the file that is not older (where copies are allowed) or a smaller compression of its bytes. Files below 1024 bytes and types that do not compress are
  sent as they are, and every response varies by the accepted encodings.\<close>
theorem static_body_negotiated:
  "case static_asset_response w dir rel source ctype cc copies enc of
     Inr r \<Rightarrow>
       re_status r = 200 \<and> (''vary'', ''Accept-Encoding'') \<in> set (re_headers r) \<and>
       (re_body r = cf_bytes source \<and> ''content-encoding'' \<notin> fst ` set (re_headers r) \<or>
        re_headers r = static_headers w ctype cc @ [(''content-encoding'', ''br'')] \<and> ae_br enc \<and> encodes w dir rel source True ''br'' (re_body r) copies \<or>
        re_headers r = static_headers w ctype cc @ [(''content-encoding'', ''gzip'')] \<and> ae_gzip enc \<and>
          encodes w dir rel source False ''gz'' (re_body r) copies) \<and>
       (if 1024 \<le> length (cf_bytes source) \<and> is_compressible ctype then True else re_body r = cf_bytes source)
   | Inl e \<Rightarrow> copies \<and> e \<noteq> Read_Missing"
proof -
  have vary: "(''vary'', ''Accept-Encoding'') \<in> set (static_headers w ctype cc)" by (simp add: static_headers_def)
  let ?wanted = "[(ae_br enc, ''br'', ''br''), (ae_gzip enc, ''gz'', ''gzip'')]"
  have sib: "label = ''br'' \<and> ae_br enc \<and> encodes w dir rel source True ''br'' pre True \<or>
      label = ''gzip'' \<and> ae_gzip enc \<and> encodes w dir rel source False ''gz'' pre True"
    if f: "find_sibling w dir rel source ?wanted = Inr (Some (label, pre))" for label pre
  proof -
    obtain ext where "(True, ext, label) \<in> set ?wanted" "fresh_sibling w dir (rel @ ''.'' @ ext) rel source = Inr (Some pre)"
      using find_sibling_sound [OF f] by blast
    then show ?thesis using fresh_sibling_sound [of w dir "rel @ ''.'' @ ext" rel source pre]
      unfolding encodes_def by auto
  qed
  have miss: "e \<noteq> Read_Missing" if "find_sibling w dir rel source wanted = Inl e" for e wanted
    using that by (induction w dir rel source wanted rule: find_sibling.induct)
      (auto simp: fresh_sibling_def split: if_splits sum.splits option.splits read_error.splits)
  have inl: "(label = ''br'' \<and> ae_br enc \<and> encodes w dir rel source True ''br'' body c \<or>
      label = ''gzip'' \<and> \<not> ae_br enc \<and> encodes w dir rel source False ''gz'' body c)"
    if "compressed_inline w enc (cf_bytes source) = Some (label, body)" for label body c
    using that by (auto simp: compressed_inline_def encodes_def split: if_splits option.splits)
  show ?thesis
  proof (cases "(ae_br enc \<or> ae_gzip enc) \<and> is_compressible ctype \<and> MIN_COMPRESS_BYTES \<le> length (cf_bytes source)")
    case False
    then show ?thesis using vary static_headers_encoding [of w ctype cc]
      unfolding static_asset_response_def Let_def if_not_P [OF False] by simp
  next
    case True
    define looked where "looked = (if copies then find_sibling w dir rel source ?wanted else Inr None)"
    have big: "\<not> length (cf_bytes source) < 1024" "is_compressible ctype" "ae_br enc \<or> ae_gzip enc" using True by (simp_all add: MIN_COMPRESS_BYTES_def)
    have r: "static_asset_response w dir rel source ctype cc copies enc =
        (case looked of Inl e \<Rightarrow> Inl e
         | Inr found \<Rightarrow> Inr (case (case found of Some pre \<Rightarrow> Some pre | None \<Rightarrow> compressed_inline w enc (cf_bytes source)) of
             Some (label, body) \<Rightarrow> \<lparr>re_status = 200, re_headers = static_headers w ctype cc @ [(''content-encoding'', label)], re_body = body\<rparr>
           | None \<Rightarrow> \<lparr>re_status = 200, re_headers = static_headers w ctype cc, re_body = cf_bytes source\<rparr>))"
      unfolding static_asset_response_def Let_def if_P [OF True] looked_def [symmetric] by (simp split: sum.split option.split)
    show ?thesis
    proof (cases looked)
      case (Inl e)
      then show ?thesis unfolding r using miss [of ?wanted e] by (simp add: looked_def split: if_splits)
    next
      case (Inr found)
      show ?thesis
      proof (cases found)
        case (Some lp)
        obtain label pre where lp: "lp = (label, pre)" by fastforce
        have "copies" "find_sibling w dir rel source ?wanted = Inr (Some (label, pre))"
          using Inr Some lp by (simp_all add: looked_def split: if_splits)
        then show ?thesis using sib [of label pre] vary big unfolding r Inr Some lp by auto
      next
        case None
        show ?thesis using inl [of _ _ copies] vary static_headers_encoding [of w ctype cc] big unfolding r Inr None
          by (cases "compressed_inline w enc (cf_bytes source)") auto
      qed
    qed
  qed
qed

section \<open>Paths\<close>

text \<open>Both ways to a static file agree: serving is reading the file of the path (or, with clean URLs, the same path with .html),
  and only when that is missing the root index; any other failure is reported as such, never covered by a fallback.\<close>
theorem serve_static_fallback:
  "serve_static w dep path enc =
     (case read_static_file w dep path enc of
        Inl e \<Rightarrow> static_read_error e
      | Inr (Some r) \<Rightarrow> r
      | Inr None \<Rightarrow>
          (case sw_read w (static_dir_path dep) ''index.html'' of
             Inr source \<Rightarrow> or_error (static_asset_response w (static_dir_path dep) ''index.html'' source ''text/html'' revalidate True enc)
           | Inl Read_Missing \<Rightarrow> no_static_file dep path
           | Inl e \<Rightarrow> static_read_error e))"
  by (auto simp: serve_static_def read_static_file_def or_error_def Let_def split: sum.splits read_error.splits)

definition plain_asset :: "static_world \<Rightarrow> contained_file \<Rightarrow> string \<Rightarrow> string \<Rightarrow> accepted_encodings \<Rightarrow> gw_response" where
  "plain_asset w source ctype cc enc =
     (case (if (ae_br enc \<or> ae_gzip enc) \<and> is_compressible ctype \<and> MIN_COMPRESS_BYTES \<le> length (cf_bytes source)
            then compressed_inline w enc (cf_bytes source) else None) of
        Some (label, body) \<Rightarrow> \<lparr>re_status = 200, re_headers = static_headers w ctype cc @ [(''content-encoding'', label)], re_body = body\<rparr>
      | None \<Rightarrow> \<lparr>re_status = 200, re_headers = static_headers w ctype cc, re_body = cf_bytes source\<rparr>)"

lemma no_copies: "static_asset_response w dir rel source ctype cc False enc = Inr (plain_asset w source ctype cc enc)"
  by (simp add: static_asset_response_def plain_asset_def Let_def split: option.split)

lemma plain_asset_status: "re_status (plain_asset w source ctype cc enc) = 200"
  by (simp add: plain_asset_def split: option.split)

lemma plain_asset_cong:
  "sw_compress w1 = sw_compress w2 \<Longrightarrow> sw_value_ok w1 = sw_value_ok w2 \<Longrightarrow> plain_asset w1 = plain_asset w2"
proof -
  assume c: "sw_compress w1 = sw_compress w2" and v: "sw_value_ok w1 = sw_value_ok w2"
  have "static_headers w1 = static_headers w2" "compressed_inline w1 = compressed_inline w2"
    by (intro ext, simp add: static_headers_def v) (intro ext, simp add: compressed_inline_def c)
  then show ?thesis by (intro ext) (simp only: plain_asset_def)
qed

text \<open>A prebuilt output is served from its declared file alone: nothing else in the directory, no copy beside it and no index, has
  an influence on the answer, and a missing file is a failure of the deployment, not a missing page.\<close>
theorem v3_asset_authoritative:
  "(if sw_read w1 (static_dir_path dep) asset = sw_read w2 (static_dir_path dep) asset \<and> sw_compress w1 = sw_compress w2 \<and> sw_value_ok w1 = sw_value_ok w2
    then serve_build_output_v3_asset w1 dep asset override path enc = serve_build_output_v3_asset w2 dep asset override path enc
    else True) \<and>
   re_status (serve_build_output_v3_asset w1 dep asset override path enc) \<noteq> 404"
proof -
  have c: "serve_build_output_v3_asset w dep asset override path enc =
      (if \<not> sd_static_root dep then static_read_error Read_Unavailable
       else case sw_read w (static_dir_path dep) asset of
         Inr source \<Rightarrow> plain_asset w source (case override of Some t \<Rightarrow> t | None \<Rightarrow> content_type (logical_file dep asset)) (static_cache_control path) enc
       | Inl Read_Missing \<Rightarrow> coded_response 503 ''BUILD_OUTPUT_V3_OUTPUT_MISSING''
       | Inl e \<Rightarrow> static_read_error e)" for w
    by (simp add: serve_build_output_v3_asset_def no_copies or_error_def split: sum.split)
  have s: "re_status (serve_build_output_v3_asset w1 dep asset override path enc) \<noteq> 404"
    unfolding c by (simp add: plain_asset_status static_read_error_def coded_response_def split: sum.split read_error.split)
  have e: "serve_build_output_v3_asset w1 dep asset override path enc = serve_build_output_v3_asset w2 dep asset override path enc"
    if "sw_read w1 (static_dir_path dep) asset = sw_read w2 (static_dir_path dep) asset" "sw_compress w1 = sw_compress w2"
      "sw_value_ok w1 = sw_value_ok w2"
    unfolding c that(1) plain_asset_cong [OF that(2,3)] by (rule refl)
  show ?thesis using s e by simp
qed

section \<open>Names that look like hashes\<close>

text \<open>A date is a token of eight digits: a plain file is cached for a year.\<close>

lemma dated_file_immutable: "static_cache_control ''/reports/report-20240101.pdf'' = ''public, max-age=31536000, immutable''"
  by code_simp

end
