(* ===== verification/Gateway_Images.thy ===== *)
theory Gateway_Images
  imports Gateway_Static Cloud_Lease
begin

text \<open>
  The image endpoint of the gateway (\<open>crates/fluid-gateway/src/lib.rs\<close>, with \<open>ImagesConfig\<close> of \<open>crates/fluid-core/src/lib.rs\<close>):
  the query, the allow lists for remote and local sources, the cache of optimised images and its key, and the response. Fetching a
  URL, the codecs of the crate image and the cache directory are parameters.
\<close>

section \<open>The query\<close>

fun pct_bytes :: "string \<Rightarrow> string" where
  "pct_bytes [] = []"
| "pct_bytes (c # s) =
     (if c = CHR ''%'' then
        (case s of
           h # l # r \<Rightarrow>
             (case (hex_digit h, hex_digit l) of
                (Some a, Some b) \<Rightarrow> char_of (a * 16 + b) # pct_bytes r
              | _ \<Rightarrow> c # pct_bytes s)
         | _ \<Rightarrow> c # pct_bytes s)
      else c # pct_bytes s)"

definition pct_decode :: "string \<Rightarrow> string" where
  "pct_decode s = from_utf8_lossy (pct_bytes (map (\<lambda>c. if c = CHR ''+'' then CHR '' '' else c) s))"

definition parse_query :: "string \<Rightarrow> (string \<times> string) list" where
  "parse_query q =
     map (\<lambda>pair. case split_once CHR ''='' pair of Some (k, v) \<Rightarrow> (pct_decode k, pct_decode v) | None \<Rightarrow> (pct_decode pair, pct_decode []))
       (filter (\<lambda>s. s \<noteq> []) (split_on CHR ''&'' q))"

section \<open>Allow lists\<close>

text \<open>\<open>s.split_once("://")\<close>.\<close>

definition split_scheme :: "string \<Rightarrow> (string \<times> string) option" where
  "split_scheme url = map_option (\<lambda>i. (take i url, drop (i + 3) url)) (find_sub ''://'' url)"

definition host_matches :: "string \<Rightarrow> string \<Rightarrow> bool" where
  "host_matches pattern host =
     (case strip_prefix ''**.'' pattern of
        Some suffix \<Rightarrow> host = suffix \<or> ends_with (CHR ''.'' # suffix) host
      | None \<Rightarrow>
          (case strip_prefix ''*.'' pattern of
             Some suffix \<Rightarrow>
               (case strip_suffix suffix host of
                  Some p \<Rightarrow> ends_with ''.'' p \<and> CHR ''.'' \<notin> set (butlast p)
                | None \<Rightarrow> False)
           | None \<Rightarrow> pattern = host))"

definition pattern_matches :: "string \<Rightarrow> string \<Rightarrow> bool" where
  "pattern_matches pattern val =
     (let pat = trim_end_matches CHR ''$'' (trim_start_matches CHR ''^'' pattern)
      in case strip_suffix ''.*'' pat of
           Some prefix \<Rightarrow> starts_with prefix val
         | None \<Rightarrow>
             (case strip_suffix ''/**'' pat of
                Some prefix \<Rightarrow> val = prefix \<or> starts_with (prefix @ ''/'') val
              | None \<Rightarrow>
                  (case strip_suffix ''/*'' pat of
                     Some prefix \<Rightarrow> (case strip_prefix (prefix @ ''/'') val of Some r \<Rightarrow> CHR ''/'' \<notin> set r | None \<Rightarrow> False)
                   | None \<Rightarrow> pat = val)))"

definition split_search :: "string \<Rightarrow> string \<times> string" where
  "split_search rest = (case split_once CHR ''?'' rest of Some (p, s) \<Rightarrow> (p, CHR ''?'' # s) | None \<Rightarrow> (rest, []))"

text \<open>Scheme, host, port, path and search of a URL the way the code cuts it.\<close>

record url_parts =
  up_scheme :: string
  up_host :: string
  up_port :: "string option"
  up_path :: string
  up_search :: string

definition url_parts_of :: "string \<Rightarrow> url_parts" where
  "url_parts_of url =
     (let (scheme, after) = (case split_scheme url of Some sa \<Rightarrow> sa | None \<Rightarrow> (url, []));
          (authority, rest) = (case split_once CHR ''/'' after of Some (a, r) \<Rightarrow> (a, CHR ''/'' # r) | None \<Rightarrow> (after, ''/''));
          (host, port) = (case split_once CHR '':'' authority of Some (h, p) \<Rightarrow> (h, Some p) | None \<Rightarrow> (authority, None));
          (pathname, search) = split_search rest
      in \<lparr>up_scheme = scheme, up_host = host, up_port = port, up_path = pathname, up_search = search\<rparr>)"

definition opt_holds :: "('a \<Rightarrow> bool) \<Rightarrow> 'a option \<Rightarrow> bool" where
  "opt_holds p x = (case x of Some a \<Rightarrow> p a | None \<Rightarrow> True)"

definition remote_pattern_allows :: "url_parts \<Rightarrow> remote_pattern \<Rightarrow> bool" where
  "remote_pattern_allows u p \<longleftrightarrow>
     opt_holds (\<lambda>pr. pr = up_scheme u) (rp_protocol p) \<and> host_matches (rp_hostname p) (up_host u) \<and>
     opt_holds (\<lambda>pt. pt = [] \<or> Some pt = up_port u) (rp_port p) \<and>
     opt_holds (\<lambda>pn. pattern_matches pn (up_path u)) (rp_pathname p) \<and>
     opt_holds (\<lambda>s. s = [] \<or> s = up_search u) (rp_search p)"

definition remote_allowed :: "images_config \<Rightarrow> string \<Rightarrow> bool" where
  "remote_allowed cfg url \<longleftrightarrow>
     up_host (url_parts_of url) \<in> set (ic_domains cfg) \<or> list_ex (remote_pattern_allows (url_parts_of url)) (ic_remote_patterns cfg)"

definition local_pattern_allows :: "string \<Rightarrow> string option \<Rightarrow> string option \<Rightarrow> bool" where
  "local_pattern_allows url path_pattern search_text \<longleftrightarrow>
     (case split_search url of (pathname, search) \<Rightarrow>
        opt_holds (\<lambda>pn. pattern_matches pn pathname) path_pattern \<and> opt_holds (\<lambda>s. s = [] \<or> s = search) search_text)"

definition local_allowed :: "images_config \<Rightarrow> string \<Rightarrow> bool" where
  "local_allowed cfg url \<longleftrightarrow> list_ex (\<lambda>p. local_pattern_allows url (lp_pathname p) (lp_search p)) (ic_local_patterns cfg)"

definition v3_local_allowed :: "site \<Rightarrow> string \<Rightarrow> bool option" where
  "v3_local_allowed dep url =
     (case sd_build_output dep of
        None \<Rightarrow> None
      | Some d \<Rightarrow>
          (case config_view d of
             Inl _ \<Rightarrow> None
           | Inr c \<Rightarrow>
               (case bg_images c of
                  None \<Rightarrow> None
                | Some i \<Rightarrow> map_option (list_ex (\<lambda>p. local_pattern_allows url (bl_pathname p) (bl_search p))) (bi_local_patterns i))))"

section \<open>Cache and encoding\<close>

fun le_bytes :: "nat \<Rightarrow> nat \<Rightarrow> string" where
  "le_bytes 0 n = []"
| "le_bytes (Suc k) n = char_of (n mod 256) # le_bytes k (n div 256)"

definition pad_hex16 :: "nat \<Rightarrow> string" where
  "pad_hex16 n = replicate (16 - length (nat_to_hex n)) CHR ''0'' @ nat_to_hex n"

definition cache_input :: "string \<Rightarrow> nat \<Rightarrow> nat \<Rightarrow> bool \<Rightarrow> string list \<Rightarrow> string" where
  "cache_input src width quality accept_webp formats =
     src @ le_bytes 4 width @ [char_of quality, if accept_webp then CHR 0x01 else CHR 0x00] @ concat formats"

definition image_cache_key :: "string \<Rightarrow> nat \<Rightarrow> nat \<Rightarrow> bool \<Rightarrow> string list \<Rightarrow> string" where
  "image_cache_key src width quality accept_webp formats =
     pad_hex16 (unat (fnv1a (cache_input src width quality accept_webp formats))) @ ''-'' @ nat_to_string width @ ''-'' @ nat_to_string quality"

text \<open>A header value that is not valid makes the builder fail, and its result is unwrapped: \<open>None\<close> is that panic.\<close>

definition image_response :: "static_world \<Rightarrow> string \<Rightarrow> string \<Rightarrow> images_config option \<Rightarrow> gw_response option" where
  "image_response w body ctype cfg =
     (let ttl = (case cfg of Some c \<Rightarrow> (case ic_minimum_cache_ttl c of Some t \<Rightarrow> t | None \<Rightarrow> 60) | None \<Rightarrow> 60);
          hs = [(''content-type'', ctype), (''cache-control'', ''public, max-age='' @ nat_to_string ttl @ '', must-revalidate'')] @
            (case cfg of None \<Rightarrow> []
             | Some c \<Rightarrow>
                 (case ic_disposition c of Some d \<Rightarrow> [(''content-disposition'', d)] | None \<Rightarrow> []) @
                 (case ic_csp c of Some p \<Rightarrow> [(''content-security-policy'', p)] | None \<Rightarrow> []))
      in if list_all (\<lambda>(k, v). sw_value_ok w v) hs
         then Some \<lparr>re_status = 200, re_headers = hs, re_body = body\<rparr>
         else None)"

text \<open>\<open>iw_fetch\<close> is the HTTP client (crate reqwest): for a URL it gives the URLs it requests after it by following redirects, which it does by
  default, and what it ends with: whether the status is a success, the content type, and the body unless it breaks off.
  A decoded image has a width, a height and maybe an alpha channel; the encoders get the source and the size to fit it in.\<close>

record image_world =
  iw_decode :: "string \<Rightarrow> (nat \<times> nat \<times> bool) option"
  iw_webp :: "string \<Rightarrow> (nat \<times> nat) option \<Rightarrow> string option"
  iw_png :: "string \<Rightarrow> (nat \<times> nat) option \<Rightarrow> string option"
  iw_jpeg :: "nat \<Rightarrow> string \<Rightarrow> (nat \<times> nat) option \<Rightarrow> string option"
  iw_fetch :: "string \<Rightarrow> string list \<times> (bool \<times> string option \<times> string option) option"
  iw_cached :: "string \<Rightarrow> string option"

definition fitted :: "nat \<Rightarrow> nat \<Rightarrow> nat \<Rightarrow> (nat \<times> nat) option" where
  "fitted width w h = (if width < w then Some (width, max (h * width div max w 1) 1 mod 2 ^ 32) else None)"

definition optimize_bytes :: "image_world \<Rightarrow> string \<Rightarrow> nat \<Rightarrow> nat \<Rightarrow> bool \<Rightarrow> string list \<Rightarrow> (string \<times> string) option" where
  "optimize_bytes iw bytes width quality accept_webp formats =
     (case iw_decode iw bytes of
        None \<Rightarrow> None
      | Some (w, h, alpha) \<Rightarrow>
          (let fit = fitted width w h;
               rest = (if alpha then map_option (\<lambda>b. (b, ''image/png'')) (iw_png iw bytes fit)
                       else map_option (\<lambda>b. (b, ''image/jpeg'')) (iw_jpeg iw quality bytes fit))
           in if accept_webp \<and> (formats = [] \<or> ''image/webp'' \<in> set formats)
              then (case iw_webp iw bytes fit of Some b \<Rightarrow> Some (b, ''image/webp'') | None \<Rightarrow> rest)
              else rest))"

section \<open>The endpoint\<close>

datatype image_effect = Fetched string | Redirected string | Read_Source string | Stored string string

definition bad_request :: "string \<Rightarrow> gw_response" where
  "bad_request m = \<lparr>re_status = 400, re_headers = [], re_body = m\<rparr>"

definition parse_u32 :: "string \<Rightarrow> nat option" where
  "parse_u32 s = (case parse_u64 s of Some n \<Rightarrow> if n < 2 ^ 32 then Some n else None | None \<Rightarrow> None)"

record image_query =
  iq_url :: string
  iq_width :: "nat option"
  iq_quality :: nat

definition query_pair :: "string \<times> string \<Rightarrow> image_query \<Rightarrow> image_query" where
  "query_pair kv q =
     (case kv of (k, v) \<Rightarrow>
        if k = ''url'' then q\<lparr>iq_url := v\<rparr>
        else if k = ''w'' then q\<lparr>iq_width := parse_u32 v\<rparr>
        else if k = ''q'' then (case parse_u32 v of Some n \<Rightarrow> q\<lparr>iq_quality := n\<rparr> | None \<Rightarrow> q)
        else q)"

definition read_image_query :: "string \<Rightarrow> image_query" where
  "read_image_query query = fold query_pair (parse_query query) \<lparr>iq_url = [], iq_width = None, iq_quality = 75\<rparr>"

definition check_image_query :: "images_config option \<Rightarrow> image_query \<Rightarrow> string + nat" where
  "check_image_query cfg q =
     (if iq_url q = [] then Inl ''missing `url`''
      else case iq_width q of
        None \<Rightarrow> Inl ''missing `w`''
      | Some width \<Rightarrow>
          if width = 0 \<or> 4096 < width then Inl ''invalid `w`''
          else (case cfg of
                  None \<Rightarrow> Inr width
                | Some c \<Rightarrow>
                    if ic_sizes c \<noteq> [] \<and> width \<notin> set (ic_sizes c) then Inl ''`w` not in images.sizes''
                    else if ic_qualities c \<noteq> [] \<and> iq_quality q \<notin> set (ic_qualities c) then Inl ''`q` not in images.qualities''
                    else Inr width))"

text \<open>The source of an image: its bytes and whether it is an SVG, or the response that refuses it.\<close>

definition remote_source :: "image_world \<Rightarrow> images_config option \<Rightarrow> string \<Rightarrow> (gw_response + string \<times> bool) \<times> image_effect list" where
  "remote_source iw cfg url =
     (if \<not> (case cfg of Some c \<Rightarrow> remote_allowed c url | None \<Rightarrow> False)
      then (Inl (bad_request ''remote url not allowed by images.remotePatterns/domains''), [])
      else
        ((case snd (iw_fetch iw url) of
            Some (True, ctype, Some b) \<Rightarrow>
              if length b \<le> 16 * 1024 * 1024
              then Inr (b, (case ctype of Some t \<Rightarrow> str_contains t ''svg'' | None \<Rightarrow> False) \<or> ends_with ''.svg'' url)
              else Inl \<lparr>re_status = 502, re_headers = [], re_body = ''image too large''\<rparr>
          | Some (True, ctype, None) \<Rightarrow> Inl \<lparr>re_status = 502, re_headers = [], re_body = ''image too large''\<rparr>
          | _ \<Rightarrow> Inl \<lparr>re_status = 502, re_headers = [], re_body = ''image fetch failed''\<rparr>), Fetched url # map Redirected (fst (iw_fetch iw url))))"

definition local_path :: "static_world \<Rightarrow> site \<Rightarrow> string \<Rightarrow> gw_response + string" where
  "local_path w dep requested =
     (if sd_build_output dep \<noteq> None then
        (case sd_v3 dep of
           Some (V3_Ready ev) \<Rightarrow>
             (case resolve_output ev ''GET'' requested of
                Inl r \<Rightarrow> Inl (build_output_v3_refusal_response w r)
              | Inr res \<Rightarrow>
                  (case rs_target res of
                     Some (Target_Static path _) \<Rightarrow> Inr path
                   | _ \<Rightarrow> Inl (bad_request ''local image source is not a declared static output'')))
         | _ \<Rightarrow> Inl (build_output_v3_refusal_response w (Refusal_Invalid ''gateway route state'')))
      else Inr (trim_start_matches CHR ''/'' requested))"

definition local_refused :: "images_config option \<Rightarrow> site \<Rightarrow> string \<Rightarrow> bool" where
  "local_refused cfg dep url \<longleftrightarrow>
     (case v3_local_allowed dep url of
        Some allowed \<Rightarrow> \<not> allowed
      | None \<Rightarrow> (case cfg of Some c \<Rightarrow> ic_local_patterns c \<noteq> [] \<and> \<not> local_allowed c url | None \<Rightarrow> False))"

definition local_source ::
    "static_world \<Rightarrow> images_config option \<Rightarrow> site \<Rightarrow> string \<Rightarrow> (gw_response + string \<times> bool) \<times> image_effect list" where
  "local_source w cfg dep url =
     (if local_refused cfg dep url then (Inl (bad_request ''local url not allowed by images.localPatterns''), [])
      else if \<not> sd_static_root dep then (Inl (static_read_error Read_Unavailable), [])
      else case local_path w dep (hd (split_on CHR ''?'' url)) of
        Inl r \<Rightarrow> (Inl r, [])
      | Inr rel \<Rightarrow>
          (case sw_read w (static_dir_path dep) rel of
             Inr source \<Rightarrow> (Inr (cf_bytes source, ends_with ''.svg'' rel), [Read_Source rel])
           | Inl e \<Rightarrow> (Inl (static_read_error e), [Read_Source rel])))"

definition cached_image :: "image_world \<Rightarrow> string \<Rightarrow> (string \<times> string) option" where
  "cached_image iw key =
     (case iw_cached iw key of
        None \<Rightarrow> None
      | Some hit \<Rightarrow>
          (case split_once CHR 0x0A hit of
             Some (ct, body) \<Rightarrow> if utf8_valid ct then Some (body, ct) else None
           | None \<Rightarrow> None))"

definition image_from ::
    "static_world \<Rightarrow> image_world \<Rightarrow> images_config option \<Rightarrow> header_map \<Rightarrow> nat \<Rightarrow> nat \<Rightarrow> string \<Rightarrow> gw_response option \<times> image_effect list" where
  "image_from w iw cfg hs width q bytes =
     (let accept_webp = (case header_text ''accept'' hs of Some a \<Rightarrow> str_contains a ''image/webp'' | None \<Rightarrow> False);
          formats = (case cfg of Some c \<Rightarrow> ic_formats c | None \<Rightarrow> []);
          key = image_cache_key bytes width q accept_webp formats
      in case cached_image iw key of
           Some (body, ct) \<Rightarrow> (image_response w body ct cfg, [])
         | None \<Rightarrow>
             (case optimize_bytes iw bytes width q accept_webp formats of
                Some (out, ctype) \<Rightarrow> (image_response w out ctype cfg, [Stored key (ctype @ CHR 0x0A # out)])
              | None \<Rightarrow> (Some \<lparr>re_status = 422, re_headers = [], re_body = ''could not process image''\<rparr>, [])))"

definition serve_optimized_image ::
    "static_world \<Rightarrow> image_world \<Rightarrow> site \<Rightarrow> string \<Rightarrow> header_map \<Rightarrow> gw_response option \<times> image_effect list" where
  "serve_optimized_image w iw dep query hs =
     (let q = read_image_query query; cfg = sd_images dep
      in case check_image_query cfg q of
           Inl m \<Rightarrow> (Some (bad_request m), [])
         | Inr width \<Rightarrow>
             (let quality = max 1 (min 100 (iq_quality q));
                  (source, es) = (if starts_with ''http://'' (iq_url q) \<or> starts_with ''https://'' (iq_url q)
                                  then remote_source iw cfg (iq_url q) else local_source w cfg dep (iq_url q))
              in case source of
                   Inl r \<Rightarrow> (Some r, es)
                 | Inr (bytes, is_svg) \<Rightarrow>
                     if is_svg then
                       (if (case cfg of Some c \<Rightarrow> ic_allow_svg c = Some True | None \<Rightarrow> False)
                        then (image_response w bytes ''image/svg+xml'' cfg, es)
                        else (Some (bad_request ''SVG optimization disabled (set images.dangerouslyAllowSVG)''), es))
                     else (case image_from w iw cfg hs width quality bytes of (r, fs) \<Rightarrow> (r, es @ fs))))"

end
