(* ===== verification/Gateway_Images_Props.thy ===== *)
theory Gateway_Images_Props
  imports Gateway_Images
begin

text \<open>
  What the image endpoint promises: sources are fetched or read only from where the configuration allows, the host that is
  checked is the host that is fetched unless the authority holds a delimiter the code does not know, and the cache gives back what was
  stored.
\<close>

section \<open>Sources\<close>

definition effect_allowed :: "static_world \<Rightarrow> site \<Rightarrow> string \<Rightarrow> image_effect \<Rightarrow> bool" where
  "effect_allowed w dep url e \<longleftrightarrow>
     (case e of
        Fetched u \<Rightarrow> u = url \<and> (\<exists>c. sd_images dep = Some c \<and> remote_allowed c url)
      | Read_Source rel \<Rightarrow>
          \<not> local_refused (sd_images dep) dep url \<and>
          (case sd_build_output dep of
             None \<Rightarrow> rel = trim_start_matches CHR ''/'' (path_only url)
           | Some d \<Rightarrow> (\<exists>ev ctype. sd_v3 dep = Some (V3_Ready ev) \<and>
               map_sum id rs_target (resolve_output ev ''GET'' (path_only url)) = Inr (Some (Target_Static rel ctype))))
      | Redirected u \<Rightarrow> \<exists>c. sd_images dep = Some c \<and> remote_allowed c url
      | Stored key payload \<Rightarrow> True)"

fun requested :: "image_effect \<Rightarrow> string option" where
  "requested (Fetched u) = Some u"
| "requested (Redirected u) = Some u"
| "requested _ = None"

lemma split_on_head: "hd (split_on c s) = (case split_once c s of Some (a, b) \<Rightarrow> a | None \<Rightarrow> s)"
proof (induction c s rule: split_on.induct)
  case (2 c x s)
  have "split_on c s \<noteq> []" by (induction s) (auto split: list.splits)
  then show ?case using 2 by (cases "split_on c s") (auto split: option.splits)
qed simp

lemma remote_source_allowed: "e \<in> set (snd (remote_source iw (sd_images dep) url)) \<Longrightarrow> effect_allowed w dep url e"
  by (auto simp: remote_source_def effect_allowed_def split: option.splits if_splits)

lemma local_path_allowed:
  "local_path w dep (path_only url) = Inr rel \<Longrightarrow> \<not> local_refused (sd_images dep) dep url \<Longrightarrow> effect_allowed w dep url (Read_Source rel)"
  by (auto simp: local_path_def effect_allowed_def split: if_splits option.splits v3_state.splits sum.splits bo_target.splits)

lemma local_source_allowed: "e \<in> set (snd (local_source w (sd_images dep) dep url)) \<Longrightarrow> effect_allowed w dep url e"
  using local_path_allowed [of w dep url]
  by (auto simp: local_source_def split_on_head path_only_def split: if_splits sum.splits option.splits)

lemma image_from_stores: "e \<in> set (snd (image_from w iw cfg hs width q bytes)) \<Longrightarrow> \<exists>k p. e = Stored k p"
  by (auto simp: image_from_def Let_def split: option.splits if_splits)

lemma requested_simps: "List.map_filter requested (map Redirected us) = us"
  by (induction us) simp_all

lemma remote_source_requested:
  "List.map_filter requested (snd (remote_source iw cfg url)) \<in> {[], url # fst (iw_fetch iw url)}"
  by (auto simp: remote_source_def requested_simps)

lemma local_source_requested: "List.map_filter requested (snd (local_source w cfg dep url)) = []"
  by (auto simp: local_source_def split: sum.splits)

lemma image_from_requested: "List.map_filter requested (snd (image_from w iw cfg hs width q bytes)) = []"
  by (auto simp: image_from_def Let_def split: option.splits)

text \<open>C38: The image endpoint hands a URL to the HTTP client only if it is the one asked for and an image configuration allows it: what the
  client requests is nothing, or that URL and then what the redirects of its answers lead to, which the endpoint does not check. It reads a file
  only if no local pattern refuses it; on a prebuilt deployment that file is the declared static output the URL resolves to. Nothing is fetched or
  read for a width or quality the configuration does not list, nor for a width above 4096.\<close>
theorem image_sources_confined:
  "list_all (effect_allowed w dep (iq_url (read_image_query query))) (snd (serve_optimized_image w iw dep query hs)) \<and>
   List.map_filter requested (snd (serve_optimized_image w iw dep query hs)) \<in>
     {[], iq_url (read_image_query query) # fst (iw_fetch iw (iq_url (read_image_query query)))} \<and>
   (case check_image_query (sd_images dep) (read_image_query query) of
      Inl m \<Rightarrow> serve_optimized_image w iw dep query hs = (Some (bad_request m), [])
    | Inr width \<Rightarrow> iq_width (read_image_query query) = Some width \<and> 1 \<le> width \<and> width \<le> 4096 \<and>
        (case sd_images dep of None \<Rightarrow> True
         | Some c \<Rightarrow> (ic_sizes c = [] \<or> width \<in> set (ic_sizes c)) \<and>
             (ic_qualities c = [] \<or> iq_quality (read_image_query query) \<in> set (ic_qualities c))))"
proof -
  have st: "effect_allowed w dep url e" if "e \<in> set (snd (image_from w iw (sd_images dep) hs width q bytes))" for url e width q bytes
    using image_from_stores [OF that] by (auto simp: effect_allowed_def)
  have "list_all (effect_allowed w dep (iq_url (read_image_query query))) (snd (serve_optimized_image w iw dep query hs))"
    unfolding list_all_iff serve_optimized_image_def Let_def
    using remote_source_allowed [of _ iw dep "iq_url (read_image_query query)" w] local_source_allowed [of _ w dep "iq_url (read_image_query query)"] st
    by (force simp: case_prod_beta split: sum.splits if_splits prod.splits)
  moreover have "List.map_filter requested (snd (serve_optimized_image w iw dep query hs)) \<in>
     {[], iq_url (read_image_query query) # fst (iw_fetch iw (iq_url (read_image_query query)))}"
  proof (cases "check_image_query (sd_images dep) (read_image_query query)")
    case (Inr width)
    define url where "url = iq_url (read_image_query query)"
    have src: "List.map_filter requested (snd (if remote then remote_source iw cfg url else local_source w cfg dep url)) \<in> {[], url # fst (iw_fetch iw url)}"
      for remote cfg using remote_source_requested [of iw cfg url] local_source_requested [of w cfg dep url] by (cases remote) simp_all
    have app: "List.map_filter requested (xs @ snd (image_from w iw cfg hs width q bytes)) = List.map_filter requested xs" for xs cfg width q bytes
      by (induction xs) (simp_all add: image_from_requested split: option.split)
    show ?thesis unfolding serve_optimized_image_def Let_def Inr sum.case url_def [symmetric]
      using src [of "starts_with ''http://'' url \<or> starts_with ''https://'' url" "sd_images dep"] app
      by (auto simp: case_prod_beta split: sum.splits if_splits)
  qed (simp add: serve_optimized_image_def Let_def)
  moreover have "case check_image_query (sd_images dep) (read_image_query query) of
      Inl m \<Rightarrow> serve_optimized_image w iw dep query hs = (Some (bad_request m), [])
    | Inr width \<Rightarrow> iq_width (read_image_query query) = Some width \<and> 1 \<le> width \<and> width \<le> 4096 \<and>
        (case sd_images dep of None \<Rightarrow> True
         | Some c \<Rightarrow> (ic_sizes c = [] \<or> width \<in> set (ic_sizes c)) \<and>
             (ic_qualities c = [] \<or> iq_quality (read_image_query query) \<in> set (ic_qualities c)))"
    by (auto simp: serve_optimized_image_def check_image_query_def Let_def split: sum.splits option.splits if_splits)
  ultimately show ?thesis by blast
qed

section \<open>Hosts\<close>

text \<open>The host of a URL by RFC 3986 and the URL standard: the authority ends at a slash, a backslash, a question mark or a hash, the
  user information ends at its last at sign, the port begins at the colon.\<close>

definition after_last :: "char \<Rightarrow> string \<Rightarrow> string" where
  "after_last c s = rev (takeWhile (\<lambda>x. x \<noteq> c) (rev s))"

definition url_authority :: "string \<Rightarrow> string" where
  "url_authority url =
     (case split_scheme url of
        None \<Rightarrow> []
      | Some (scheme, after) \<Rightarrow> takeWhile (\<lambda>c. c \<notin> {CHR ''/'', CHR 0x5C, CHR ''?'', CHR ''#''}) after)"

definition url_host :: "string \<Rightarrow> string" where
  "url_host url = takeWhile (\<lambda>c. c \<noteq> CHR '':'') (after_last CHR ''@'' (url_authority url))"

definition cut_authority :: "string \<Rightarrow> string" where
  "cut_authority url = (case split_scheme url of None \<Rightarrow> [] | Some (scheme, after) \<Rightarrow> takeWhile (\<lambda>c. c \<noteq> CHR ''/'') after)"

lemma split_once_takeWhile: "(case split_once c s of Some (a, b) \<Rightarrow> a | None \<Rightarrow> s) = takeWhile (\<lambda>x. x \<noteq> c) s"
  by (induction c s rule: split_once.induct) (auto split: option.splits)

lemma up_host_cut: "up_host (url_parts_of url) = takeWhile (\<lambda>c. c \<noteq> CHR '':'') (cut_authority url)"
proof -
  have a: "fst (case split_once c s of Some (a, r) \<Rightarrow> (a, f r) | None \<Rightarrow> (s, y)) = takeWhile (\<lambda>x. x \<noteq> c) s" for c s f and y :: 'b
    using split_once_takeWhile [where c = c and s = s] by (auto split: option.splits)
  show ?thesis
    by (cases "split_scheme url") (auto simp: url_parts_of_def cut_authority_def case_prod_beta Let_def a)
qed

lemma after_last_absent: "c \<notin> set s \<Longrightarrow> after_last c s = s"
proof -
  assume "c \<notin> set s"
  then have "takeWhile (\<lambda>x. x \<noteq> c) (rev s) = rev s" by (intro takeWhile_eq_all_conv [THEN iffD2]) auto
  then show ?thesis unfolding after_last_def by (simp only: rev_rev_ident)
qed

text \<open>The host that the allow list checks is the host that is fetched, whenever the authority of the URL, as the code cuts it, has no
  user information, backslash, question mark or hash: then an allowed URL leads to a listed domain or a host of a listed pattern.\<close>
theorem remote_host_checked:
  "if list_ex (\<lambda>c. c \<in> {CHR ''@'', CHR 0x5C, CHR ''?'', CHR ''#''}) (cut_authority url) then True
   else up_host (url_parts_of url) = url_host url \<and>
     (if remote_allowed cfg url
      then url_host url \<in> set (ic_domains cfg) \<or> (\<exists>p \<in> set (ic_remote_patterns cfg). host_matches (rp_hostname p) (url_host url))
      else True)"
proof -
  have "up_host (url_parts_of url) = url_host url"
    if n: "\<not> list_ex (\<lambda>c. c \<in> {CHR ''@'', CHR 0x5C, CHR ''?'', CHR ''#''}) (cut_authority url)"
  proof -
    have "url_authority url = cut_authority url"
    proof (cases "split_scheme url")
      case (Some sa)
      obtain scheme after where sa: "sa = (scheme, after)" by fastforce
      have t: "takeWhile (\<lambda>c. c \<notin> {CHR ''/'', CHR 0x5C, CHR ''?'', CHR ''#''}) after = takeWhile (\<lambda>c. c \<noteq> CHR ''/'') after"
        if "\<forall>c \<in> set (takeWhile (\<lambda>c. c \<noteq> CHR ''/'') after). c \<notin> {CHR 0x5C, CHR ''?'', CHR ''#''}"
        using that by (induction after) auto
      show ?thesis using n t by (auto simp: url_authority_def cut_authority_def Some sa list_ex_iff)
    qed (simp add: url_authority_def cut_authority_def)
    moreover have "CHR ''@'' \<notin> set (cut_authority url)" using n by (auto simp: list_ex_iff)
    ultimately show ?thesis by (simp add: up_host_cut url_host_def after_last_absent)
  qed
  then show ?thesis by (auto simp: remote_allowed_def remote_pattern_allows_def list_ex_iff)
qed

definition plain_config :: images_config where
  "plain_config = \<lparr>ic_sizes = [], ic_qualities = [], ic_formats = [], ic_minimum_cache_ttl = None, ic_domains = [''img.example.com''],
     ic_remote_patterns = [\<lparr>rp_protocol = None, rp_hostname = ''**.example.org'', rp_port = None, rp_pathname = None, rp_search = None\<rparr>],
     ic_local_patterns = [], ic_allow_svg = None, ic_csp = None, ic_disposition = None\<rparr>"

text \<open>User information and the other delimiters lead to a host of the caller's choice.\<close>

lemma user_info_bypasses:
  "remote_allowed plain_config ''http://img.example.com:80@10.0.0.1/latest/'' \<and> url_host ''http://img.example.com:80@10.0.0.1/latest/'' = ''10.0.0.1''"
  by code_simp

lemma hash_bypasses:
  "remote_allowed plain_config ''http://10.0.0.1#.example.org/'' \<and> url_host ''http://10.0.0.1#.example.org/'' = ''10.0.0.1''"
  by code_simp

text \<open>So do redirects.\<close>

definition redirecting :: "image_world \<Rightarrow> image_world" where
  "redirecting iw = iw\<lparr>iw_fetch := (\<lambda>url. ([''http://10.0.0.1/latest/''], Some (True, Some ''image/png'', Some ''secret'')))\<rparr>"

lemma redirects_unchecked:
  "\<not> remote_allowed plain_config ''http://10.0.0.1/latest/'' \<and>
   remote_source (redirecting iw) (Some plain_config) ''http://img.example.com/a'' =
     (Inr (''secret'', False), [Fetched ''http://img.example.com/a'', Redirected ''http://10.0.0.1/latest/''])"
proof -
  have a: "\<not> remote_allowed plain_config ''http://10.0.0.1/latest/''" "remote_allowed plain_config ''http://img.example.com/a''"
    "\<not> str_contains ''image/png'' ''svg''" "\<not> ends_with ''.svg'' ''http://img.example.com/a''" by code_simp+
  then show ?thesis by (simp add: remote_source_def redirecting_def)
qed

section \<open>The cache\<close>

text \<open>Two different sources with different formats have the same key.\<close>

definition format_suffix :: string where
  "format_suffix = le_bytes 4 64 @ [char_of (75 :: nat), CHR 0x01]"

lemma image_keys_collide:
  "image_cache_key src 64 75 True [format_suffix] = image_cache_key (src @ format_suffix) 64 75 True []"
  by (simp add: image_cache_key_def cache_input_def format_suffix_def)

definition with_cached :: "string \<Rightarrow> string \<Rightarrow> image_world \<Rightarrow> image_world" where
  "with_cached key payload iw = iw\<lparr>iw_cached := (iw_cached iw)(key \<mapsto> payload)\<rparr>"

lemma split_once_first: "c \<notin> set a \<Longrightarrow> split_once c (a @ c # b) = Some (a, b)"
  by (induction a) auto

lemma optimize_types:
  "optimize_bytes iw bytes width q webp formats = Some (out, ctype) \<Longrightarrow> ctype \<in> {''image/webp'', ''image/png'', ''image/jpeg''}"
  by (auto simp: optimize_bytes_def Let_def split: option.splits if_splits)

lemma types_utf8: "utf8_valid ''image/webp'' \<and> utf8_valid ''image/png'' \<and> utf8_valid ''image/jpeg''"
  by code_simp

lemma cached_stored:
  "ctype \<in> {''image/webp'', ''image/png'', ''image/jpeg''} \<Longrightarrow> cached_image (with_cached key (ctype @ CHR 0x0A # out) iw) key = Some (out, ctype)"
  using split_once_first [of "CHR 0x0A" ctype out] types_utf8
  by (auto simp: cached_image_def with_cached_def)

lemma image_from_cached:
  "Stored key payload \<in> set (snd (image_from w iw cfg hs width q bytes)) \<Longrightarrow>
     image_from w (with_cached key payload iw) cfg hs width q bytes = (fst (image_from w iw cfg hs width q bytes), [])"
proof -
  assume s: "Stored key payload \<in> set (snd (image_from w iw cfg hs width q bytes))"
  define webp where "webp = (case header_text ''accept'' hs of Some a \<Rightarrow> str_contains a ''image/webp'' | None \<Rightarrow> False)"
  define formats where "formats = (case cfg of Some c \<Rightarrow> ic_formats c | None \<Rightarrow> [])"
  define k where "k = image_cache_key bytes width q webp formats"
  have e: "image_from w iw cfg hs width q bytes =
      (case cached_image iw k of
         Some (body, ct) \<Rightarrow> (image_response w body ct cfg, [])
       | None \<Rightarrow>
           (case optimize_bytes iw bytes width q webp formats of
              Some (out, ctype) \<Rightarrow> (image_response w out ctype cfg, [Stored k (ctype @ CHR 0x0A # out)])
            | None \<Rightarrow> (Some \<lparr>re_status = 422, re_headers = [], re_body = ''could not process image''\<rparr>, [])))" for iw
    unfolding image_from_def Let_def k_def webp_def formats_def by (rule refl)
  obtain out ctype where o: "optimize_bytes iw bytes width q webp formats = Some (out, ctype)" "cached_image iw k = None"
    "key = k" "payload = ctype @ CHR 0x0A # out"
    using s unfolding e [of iw] by (auto split: option.splits)
  show ?thesis unfolding e o(3,4) cached_stored [OF optimize_types [OF o(1)]] by (simp add: o(1,2))
qed

definition stores :: "image_effect \<Rightarrow> bool" where
  "stores e \<longleftrightarrow> (case e of Stored k p \<Rightarrow> True | _ \<Rightarrow> False)"

lemma source_stores:
  "e \<in> set (snd (if remote then remote_source iw cfg url else local_source w cfg dep url)) \<Longrightarrow> \<not> stores e"
  by (auto simp: stores_def remote_source_def local_source_def split: if_splits option.splits sum.splits)

lemma remote_source_with_cached: "remote_source (with_cached k p iw) = remote_source iw"
  by (intro ext) (simp add: remote_source_def with_cached_def)

text \<open>The image cache is transparent: a request that stores an entry is answered, once that entry can be read, with the
  same response without decoding anything again, and stores nothing more.\<close>
theorem image_cache_transparent:
  "case find stores (snd (serve_optimized_image w iw dep query hs)) of
     Some (Stored k p) \<Rightarrow>
       fst (serve_optimized_image w (with_cached k p iw) dep query hs) = fst (serve_optimized_image w iw dep query hs) \<and>
       list_all (\<lambda>e. \<not> stores e) (snd (serve_optimized_image w (with_cached k p iw) dep query hs))
   | _ \<Rightarrow> True"
proof (cases "check_image_query (sd_images dep) (read_image_query query)")
  case (Inl m)
  then show ?thesis by (simp add: serve_optimized_image_def Let_def)
next
  case (Inr width)
  define url where "url = iq_url (read_image_query query)"
  obtain source es where src: "(if starts_with ''http://'' url \<or> starts_with ''https://'' url
      then remote_source iw (sd_images dep) url else local_source w (sd_images dep) dep url) = (source, es)" by fastforce
  have src': "(if starts_with ''http://'' url \<or> starts_with ''https://'' url
      then remote_source (with_cached k p iw) (sd_images dep) url else local_source w (sd_images dep) dep url) = (source, es)" for k p
    using src unfolding remote_source_with_cached .
  have quiet: "\<not> stores e" if "e \<in> set es" for e
    using source_stores [of e "starts_with ''http://'' url \<or> starts_with ''https://'' url" iw "sd_images dep" url w dep] that
    unfolding src by simp
  define q where "q = max 1 (min 100 (iq_quality (read_image_query query)))"
  have r: "serve_optimized_image w iw' dep query hs =
      (case source of Inl r \<Rightarrow> (Some r, es)
       | Inr (bytes, is_svg) \<Rightarrow>
           if is_svg then
             (if (case sd_images dep of Some c \<Rightarrow> ic_allow_svg c = Some True | None \<Rightarrow> False)
              then (image_response w bytes ''image/svg+xml'' (sd_images dep), es)
              else (Some (bad_request ''SVG optimization disabled (set images.dangerouslyAllowSVG)''), es))
           else (fst (image_from w iw' (sd_images dep) hs width q bytes), es @ snd (image_from w iw' (sd_images dep) hs width q bytes)))"
    if "(if starts_with ''http://'' url \<or> starts_with ''https://'' url
      then remote_source iw' (sd_images dep) url else local_source w (sd_images dep) dep url) = (source, es)" for iw'
    unfolding serve_optimized_image_def Let_def Inr sum.case url_def [symmetric] q_def [symmetric] that prod.case case_prod_beta fst_conv snd_conv by (rule refl)
  show ?thesis
  proof (cases "find stores (snd (serve_optimized_image w iw dep query hs))")
    case None
    then show ?thesis by simp
  next
    case (Some e)
    then have e: "e \<in> set (snd (serve_optimized_image w iw dep query hs))" "stores e" by (auto simp: find_Some_iff)
    then obtain k p where kp: "e = Stored k p" by (auto simp: stores_def split: image_effect.splits)
    obtain bytes where b: "source = Inr (bytes, False)" "Stored k p \<in> set (snd (image_from w iw (sd_images dep) hs width q bytes))"
      using e quiet unfolding r [OF src] kp by (auto split: sum.splits if_splits)
    have "list_all (\<lambda>e. \<not> stores e) es" using quiet by (simp add: list_all_iff)
    then show ?thesis using Some image_from_cached [OF b(2)] r [OF src] r [OF src'] b(1) kp
      by (simp add: list_all_iff)
  qed
qed

text \<open>A policy or disposition of the configuration that is no header value aborts the request.\<close>

lemma image_policy_panics:
  "image_response (w\<lparr>sw_value_ok := (\<lambda>v. CHR 0x0A \<notin> set v)\<rparr>) body ''image/png''
     (Some (plain_config\<lparr>ic_csp := Some [CHR ''a'', CHR 0x0A]\<rparr>)) = None"
  by (simp add: image_response_def plain_config_def)

end
