(* ===== verification/Gateway_Public.thy ===== *)
theory Gateway_Public
  imports Gateway_Images
begin

text \<open>
  A public request from its arrival to its response (\<open>handle_public\<close> of \<open>crates/fluid-gateway/src/lib.rs\<close>): the endpoints of the
  analytics packages, the choice of the deployment, images, trailing slashes and clean URLs, redirects, rewrites, prebuilt outputs, routes,
  functions and static files, and the headers put on the response. Everything the gateway asks outside is gathered in \<open>public_world\<close>; what it
  does is a list of effects.
\<close>

section \<open>Requests\<close>

record public_request =
  pq_method :: string
  pq_path :: string
  pq_query :: "string option"
  pq_headers :: header_map
  pq_body :: "string option"

text \<open>A request target without path and query, as \<open>CONNECT\<close> has it, counts as \<open>/\<close>.\<close>

definition path_and_query :: "public_request \<Rightarrow> string" where
  "path_and_query req =
     (let pq = pq_path req @ (case pq_query req of Some q \<Rightarrow> CHR ''?'' # q | None \<Rightarrow> []) in if pq = [] then ''/'' else pq)"

definition query_text :: "public_request \<Rightarrow> string" where
  "query_text req = (case pq_query req of Some q \<Rightarrow> q | None \<Rightarrow> [])"

text \<open>\<open>axum::body::to_bytes\<close> with its limit; \<open>pq_body\<close> is \<open>None\<close> when the body breaks off.\<close>

definition read_body :: "nat \<Rightarrow> public_request \<Rightarrow> string option" where
  "read_body limit req = (case pq_body req of Some b \<Rightarrow> if length b \<le> limit then Some b else None | None \<Rightarrow> None)"

definition MAX_BODY :: nat where
  "MAX_BODY = 16 * 1024 * 1024"

datatype rum_device = Desktop | Mobile

definition device_from_user_agent :: "string \<Rightarrow> rum_device" where
  "device_from_user_agent ua =
     (let u = to_lowercase ua
      in if str_contains u ''mobi'' \<or> str_contains u ''android'' \<or> str_contains u ''iphone'' then Mobile else Desktop)"

datatype public_effect =
    Vitals string rum_device string
  | Imaged image_effect
  | Proxied proxy_effect

record public_world =
  pw_static :: static_world
  pw_image :: image_world
  pw_browser :: browser_env
  pw_answers :: "nat \<Rightarrow> attempt_answer"
  pw_escape :: "string \<Rightarrow> string"
  pw_regex :: regex_engine
  pw_location_ok :: "string \<Rightarrow> bool"
  pw_script :: "string \<Rightarrow> string"

section \<open>Responses\<close>

definition plain :: "nat \<Rightarrow> string \<Rightarrow> gw_response" where
  "plain status body = \<lparr>re_status = status, re_headers = [], re_body = body\<rparr>"

text \<open>The two scripts are left to \<open>pw_script\<close>.\<close>

definition vercel_insights :: "public_world \<Rightarrow> string \<Rightarrow> string \<Rightarrow> gw_response option" where
  "vercel_insights w method path =
     (let js = (\<lambda>name. \<lparr>re_status = 200,
            re_headers = [(''content-type'', ''application/javascript; charset=utf-8''), (''cache-control'', ''public, max-age=3600'')],
            re_body = pw_script w name\<rparr>);
          accepted = \<lparr>re_status = 202, re_headers = [(''content-type'', ''text/plain'')], re_body = ''ok''\<rparr>
      in if method = ''GET'' \<and> path = ''/_vercel/insights/script.js'' then Some (js ''analytics'')
         else if method = ''GET'' \<and> path = ''/_vercel/speed-insights/script.js'' then Some (js ''speed'')
         else if method = ''POST'' \<and> path \<in> {''/_vercel/insights/view'', ''/_vercel/insights/event'', ''/_vercel/speed-insights/vitals''}
         then Some accepted
         else if path = ''/_vercel/image'' then None
         else Some (plain 204 []))"

definition build_output_v3_miss_response :: "string \<Rightarrow> gw_response" where
  "build_output_v3_miss_response path =
     \<lparr>re_status = 404, re_headers = [(''x-hive-error'', ''BUILD_OUTPUT_V3_NO_MATCH'')],
      re_body = ''BUILD_OUTPUT_V3_NO_MATCH: no declared output serves '' @ debug_str path\<rparr>"

definition build_output_v3_status_response :: "public_world \<Rightarrow> nat \<Rightarrow> string option \<Rightarrow> gw_response" where
  "build_output_v3_status_response w status location =
     (let code = (if 100 \<le> status \<and> status \<le> 999 then status else 500)
      in case location of
           None \<Rightarrow> plain code []
         | Some l \<Rightarrow>
             if sw_value_ok (pw_static w) l then \<lparr>re_status = code, re_headers = [(''location'', l)], re_body = []\<rparr>
             else build_output_v3_refusal_response (pw_static w) (Refusal_Invalid ''route location''))"

text \<open>A redirect whose location is no header value makes the builder fail, and its result is unwrapped: \<open>None\<close> is that panic.\<close>

definition redirect_response :: "public_world \<Rightarrow> nat \<Rightarrow> string \<Rightarrow> gw_response option" where
  "redirect_response w status location =
     (let code = (if 100 \<le> status \<and> status \<le> 999 then status else 307)
      in if pw_location_ok w location then Some \<lparr>re_status = code, re_headers = [(''location'', location)], re_body = []\<rparr> else None)"

definition apply_route_policy :: "public_world \<Rightarrow> manifest \<Rightarrow> string \<Rightarrow> gw_response \<Rightarrow> gw_response" where
  "apply_route_policy w mf path r =
     (case route_policy mf path of
        None \<Rightarrow> r
      | Some p \<Rightarrow>
          (let r1 = header_put ''x-hive-route-class'' (class_name (re_class p)) r
           in if \<not> (200 \<le> re_status r1 \<and> re_status r1 \<le> 299) \<or> ''cache-control'' \<in> fst ` set (re_headers r1) then r1
              else (case policy_cache_control (class_cache_policy (re_revalidate p) (re_class p)) of
                      Some cc \<Rightarrow> if sw_value_ok (pw_static w) cc then header_put ''cache-control'' cc r1 else r1
                    | None \<Rightarrow> r1)))"

definition inject_header :: "public_world \<Rightarrow> string \<times> string \<Rightarrow> gw_response \<Rightarrow> gw_response" where
  "inject_header w kv r =
     (case kv of (k, v) \<Rightarrow>
        if bw_name_ok (pw_browser w) k \<and> sw_value_ok (pw_static w) v then header_put (to_lowercase k) v r else r)"

definition inject_headers :: "public_world \<Rightarrow> (string \<times> string) list \<Rightarrow> gw_response \<Rightarrow> gw_response" where
  "inject_headers w extra r = fold (inject_header w) extra r"

fun map_built :: "(gw_response \<Rightarrow> gw_response) \<Rightarrow> built \<Rightarrow> built" where
  "map_built f (Streamed r) = Streamed (f r)"
| "map_built f (Sized r) = Sized (f r)"

section \<open>Before routing\<close>

definition public_ctx :: "public_request \<Rightarrow> req_ctx" where
  "public_ctx req =
     \<lparr>cx_host = (case header_text ''host'' (pq_headers req) of Some h \<Rightarrow> h | None \<Rightarrow> []),
      cx_headers = fold (\<lambda>(k, v) m. case v of Some s \<Rightarrow> tput (to_lowercase k) s m | None \<Rightarrow> m) (pq_headers req) [],
      cx_query = query_text req\<rparr>"

definition with_query :: "public_request \<Rightarrow> string \<Rightarrow> string" where
  "with_query req loc = (if query_text req = [] then loc else loc @ CHR ''?'' # query_text req)"

lemma strip_suffix_shorter: "strip_suffix p s = Some r \<Longrightarrow> length s = length r + length p"
  using strip_prefix_iff [of "rev p" "rev s"] by (auto simp: strip_suffix_def dest: arg_cong [of _ _ length])

text \<open>\<open>path.trim_end_matches(".html")\<close> removes every repetition.\<close>

function trim_html :: "string \<Rightarrow> string" where
  "trim_html s = (case strip_suffix ''.html'' s of Some p \<Rightarrow> trim_html p | None \<Rightarrow> s)"
  by pat_completeness auto

termination
  by (relation "measure length") (auto dest: strip_suffix_shorter)

declare trim_html.simps [simp del]

definition clean_url :: "string \<Rightarrow> string" where
  "clean_url path =
     (let c = trim_html path;
          d = (if ends_with ''/index'' c then take (length c - length ''index'') c else c)
      in if d = [] then ''/'' else d)"

text \<open>The redirect that comes before routing, if any.\<close>

definition early_redirect :: "public_world \<Rightarrow> site \<Rightarrow> public_request \<Rightarrow> (nat \<times> string) option" where
  "early_redirect w dep req =
     (let path = pq_path req
      in case trailing_slash_redirect (sd_manifest dep) path of
           Some p \<Rightarrow> Some (308, with_query req p)
         | None \<Rightarrow>
             if sd_clean_urls dep \<and> ends_with ''.html'' path \<and> clean_url path \<noteq> path
             then Some (308, with_query req (clean_url path))
             else map_option (\<lambda>(location, status). (status, location))
                    (redirect_for_ctx (pw_escape w) (pw_regex w) (sd_manifest dep) path (public_ctx req)))"

definition real_asset :: "public_world \<Rightarrow> site \<Rightarrow> string \<Rightarrow> bool" where
  "real_asset w dep path \<longleftrightarrow>
     trim_start_matches CHR ''/'' path \<noteq> [] \<and> sd_static_root dep \<and>
     sw_exists (pw_static w) (static_dir_path dep) (trim_start_matches CHR ''/'' path)"

definition internal_path :: "public_world \<Rightarrow> site \<Rightarrow> public_request \<Rightarrow> string" where
  "internal_path w dep req =
     (if real_asset w dep (pq_path req) then pq_path req
      else rewrite_path_ctx (pw_escape w) (pw_regex w) (sd_manifest dep) (pq_path req) (public_ctx req))"

section \<open>Routing\<close>

text \<open>An answer is final (\<open>Inl\<close>) or gets the headers of the route (\<open>Inr\<close>).\<close>

type_synonym routed = "(gw_response + built) \<times> public_effect list \<times> browser_routes"

definition call_function :: "public_world \<Rightarrow> site \<Rightarrow> string \<Rightarrow> string \<Rightarrow> public_request \<Rightarrow> browser_routes \<Rightarrow> routed" where
  "call_function w dep name path_q req br =
     (case read_body MAX_BODY req of
        None \<Rightarrow> (Inl (plain 400 ''body too large''), [], br)
      | Some body \<Rightarrow>
          (case proxy_function (pw_browser w) (sd_deployment dep) name (pq_method req) path_q (pq_headers req) body (pw_answers w) br of
             (r, es, br1) \<Rightarrow> (Inr r, map Proxied es, br1)))"

definition route_prebuilt ::
    "public_world \<Rightarrow> site \<Rightarrow> public_request \<Rightarrow> string \<Rightarrow> browser_routes \<Rightarrow> routed \<times> (string \<times> string) list" where
  "route_prebuilt w dep req path br =
     (case sd_v3 dep of
        None \<Rightarrow> ((Inl (build_output_v3_refusal_response (pw_static w) (Refusal_Invalid ''gateway route state'')), [], br), [])
      | Some (V3_Refused r) \<Rightarrow> ((Inl (build_output_v3_refusal_response (pw_static w) r), [], br), [])
      | Some (V3_Ready ev) \<Rightarrow>
          (case resolve_output ev (pq_method req) path of
             Inl r \<Rightarrow> ((Inl (build_output_v3_refusal_response (pw_static w) r), [], br), [])
           | Inr res \<Rightarrow>
               ((case rs_target res of
                   Some (Target_Static asset ctype) \<Rightarrow>
                     (Inr (Sized (serve_build_output_v3_asset (pw_static w) dep asset ctype (pq_path req)
                        (accepted_encodings_of (pq_headers req)))), [], br)
                 | Some (Target_Function name) \<Rightarrow>
                     call_function w dep name
                       (if CHR ''?'' \<in> set (rs_path res) \<or> query_text req = [] then rs_path res
                        else rs_path res @ CHR ''?'' # query_text req) req br
                 | Some (Target_Response status location) \<Rightarrow>
                     (Inr (Sized (build_output_v3_status_response w status location)), [], br)
                 | None \<Rightarrow> (Inr (Sized (build_output_v3_miss_response (rs_path res))), [], br)), rs_headers res)))"

text \<open>A deployment without routes, static directory and origin answers with its function \<open>web\<close>, or the first.\<close>

definition implicit_function :: "site \<Rightarrow> string \<Rightarrow> string option" where
  "implicit_function dep path =
     (if \<not> route_matched (sd_manifest dep) path \<and> sd_static_dir dep = None \<and> sd_origin_function dep = None
      then (let fs = map fst (mf_functions (sd_manifest dep))
            in case find (\<lambda>n. n = ''web'') fs of Some n \<Rightarrow> Some n | None \<Rightarrow> (case fs of [] \<Rightarrow> None | n # _ \<Rightarrow> Some n))
      else None)"

definition route_legacy :: "public_world \<Rightarrow> site \<Rightarrow> public_request \<Rightarrow> string \<Rightarrow> browser_routes \<Rightarrow> routed" where
  "route_legacy w dep req path br =
     (let enc = accepted_encodings_of (pq_headers req); sw = pw_static w
      in case mf_resolve (sd_manifest dep) path of
           Function_Target name \<Rightarrow> call_function w dep name (path_and_query req) req br
         | Static_Target \<Rightarrow>
             (case implicit_function dep path of
                Some name \<Rightarrow> call_function w dep name (path_and_query req) req br
              | None \<Rightarrow>
                  (case sd_origin_function dep of
                     None \<Rightarrow> (Inr (Sized (serve_static sw dep path enc)), [], br)
                   | Some origin \<Rightarrow>
                       (case read_static_file sw dep path enc of
                          Inr (Some r) \<Rightarrow> (Inr (Sized r), [], br)
                        | Inr None \<Rightarrow> call_function w dep origin (path_and_query req) req br
                        | Inl e \<Rightarrow> (Inr (Sized (static_read_error e)), [], br)))))"

definition finish_response :: "public_world \<Rightarrow> site \<Rightarrow> public_request \<Rightarrow> (string \<times> string) list \<Rightarrow> gw_response + built \<Rightarrow> built" where
  "finish_response w dep req hs r =
     (case r of
        Inl resp \<Rightarrow> Sized resp
      | Inr b \<Rightarrow> map_built (\<lambda>x. inject_headers w hs (apply_route_policy w (sd_manifest dep) (pq_path req) x)) b)"

text \<open>What happens to a request once its deployment is known and it asks for no image.\<close>

definition serve_site :: "public_world \<Rightarrow> site \<Rightarrow> public_request \<Rightarrow> browser_routes \<Rightarrow> built option \<times> public_effect list \<times> browser_routes" where
  "serve_site w dep req br =
     (case early_redirect w dep req of
        Some (status, location) \<Rightarrow> (map_option Sized (redirect_response w status location), [], br)
      | None \<Rightarrow>
          (let path = internal_path w dep req;
               extra = headers_for (pw_escape w) (pw_regex w) (sd_manifest dep) (pq_path req) (public_ctx req)
           in if sd_build_output dep \<noteq> None then
                (case route_prebuilt w dep req path br of
                   ((r, es, br1), hs) \<Rightarrow> (Some (finish_response w dep req (hs @ extra) r), es, br1))
              else
                (case route_legacy w dep req path br of
                   (r, es, br1) \<Rightarrow> (Some (finish_response w dep req extra r), es, br1))))"

definition serve_image :: "public_world \<Rightarrow> site \<Rightarrow> public_request \<Rightarrow> browser_routes \<Rightarrow> built option \<times> public_effect list \<times> browser_routes" where
  "serve_image w dep req br =
     (let ok = (case serve_optimized_image (pw_static w) (pw_image w) dep (query_text req) (pq_headers req) of
                  (r, es) \<Rightarrow> (map_option Sized r, map Imaged es, br));
          refuse = (\<lambda>r. (Some (Sized (build_output_v3_refusal_response (pw_static w) r)), [], br))
      in if sd_build_output dep = None then ok
         else (case sd_v3 dep of
                 None \<Rightarrow> refuse (Refusal_Invalid ''gateway route state'')
               | Some (V3_Refused r) \<Rightarrow> refuse r
               | Some (V3_Ready ev) \<Rightarrow>
                   if sd_images dep = None then (Some (Sized (coded_response 404 ''BUILD_OUTPUT_V3_IMAGE_CONFIG_ABSENT'')), [], br) else ok))"

definition record_vitals :: "gw_state \<Rightarrow> public_request \<Rightarrow> public_effect list" where
  "record_vitals st req =
     (case select (header_text ''host'' (pq_headers req)) st of
        None \<Rightarrow> []
      | Some s \<Rightarrow>
          (case read_body (64 * 1024) req of
             None \<Rightarrow> []
           | Some bytes \<Rightarrow>
               [Vitals (gd_tenant (sd_deployment s))
                  (case header_text ''user-agent'' (pq_headers req) of Some ua \<Rightarrow> device_from_user_agent ua | None \<Rightarrow> Desktop) bytes]))"

definition handle_selected ::
    "public_world \<Rightarrow> (deployment_id \<Rightarrow> site_config) \<Rightarrow> gw_state \<Rightarrow> public_request \<Rightarrow> browser_routes
      \<Rightarrow> built option \<times> public_effect list \<times> browser_routes" where
  "handle_selected w configs st req br =
     (case select (header_text ''host'' (pq_headers req)) st of
        None \<Rightarrow> (Some (Sized (plain 404 ''no deployment'')), [], br)
      | Some s \<Rightarrow>
          if pq_path req = ''/_vercel/image'' \<or> pq_path req = ''/_next/image''
          then serve_image w (site_of configs s) req br
          else serve_site w (site_of configs s) req br)"

definition handle_public ::
    "public_world \<Rightarrow> (deployment_id \<Rightarrow> site_config) \<Rightarrow> gw_state \<Rightarrow> public_request \<Rightarrow> browser_routes
      \<Rightarrow> built option \<times> public_effect list \<times> browser_routes" where
  "handle_public w configs st req br =
     (if starts_with ''/_vercel/'' (pq_path req) then
        (if pq_method req = ''POST'' \<and> pq_path req = ''/_vercel/speed-insights/vitals''
         then (Some (Sized \<lparr>re_status = 202, re_headers = [(''content-type'', ''text/plain'')], re_body = ''ok''\<rparr>), record_vitals st req, br)
         else case vercel_insights w (pq_method req) (pq_path req) of
                Some r \<Rightarrow> (Some (Sized r), [], br)
              | None \<Rightarrow> handle_selected w configs st req br)
      else handle_selected w configs st req br)"

section \<open>Leases for upgrades\<close>

definition upgrade_target :: "site \<Rightarrow> string \<Rightarrow> string option" where
  "upgrade_target dep path =
     (case sd_v3 dep of
        Some (V3_Ready ev) \<Rightarrow>
          (case resolve_output ev ''GET'' path of
             Inr res \<Rightarrow> (case rs_target res of Some (Target_Function name) \<Rightarrow> Some name | _ \<Rightarrow> None)
           | Inl _ \<Rightarrow> None)
      | Some (V3_Refused _) \<Rightarrow> None
      | None \<Rightarrow>
          if sd_build_output dep \<noteq> None then None
          else (case mf_resolve (sd_manifest dep) path of Function_Target name \<Rightarrow> Some name | Static_Target \<Rightarrow> None))"

text \<open>The key of the pool that is leased from.\<close>

definition lease_for_path :: "(deployment_id \<Rightarrow> site_config) \<Rightarrow> gw_state \<Rightarrow> string option \<Rightarrow> string \<Rightarrow> string option" where
  "lease_for_path configs st host path =
     (case select host st of
        None \<Rightarrow> None
      | Some s \<Rightarrow> map_option (func_key (gd_id (sd_deployment s))) (upgrade_target (site_of configs s) path))"

end
