(* ===== verification/Gateway_Public_Props.thy ===== *)
theory Gateway_Public_Props
  imports Gateway_Public Gateway_Proxy_Props Fluid_Routes_Props
begin

text \<open>
  What the public entry point promises: only declared functions are called, and once; files are not shadowed by rewrites; configured
  headers win and route policies do not override; normalising redirects come to an end; upgrades are leased where a plain request would
  go, with the exceptions shown.
\<close>

section \<open>Calls\<close>

text \<open>What a request asks of Fluid and of the tunnels.\<close>

definition proxied :: "public_effect list \<Rightarrow> proxy_effect list" where
  "proxied es = List.map_filter (\<lambda>e. case e of Proxied x \<Rightarrow> Some x | _ \<Rightarrow> None) es"

lemma proxied_simps [simp]: "proxied [] = []" "proxied (map Proxied es) = es" "proxied (map Imaged is) = []"
proof -
  show "proxied (map Proxied es) = es" by (induction es) (simp_all add: proxied_def)
  show "proxied (map Imaged is) = []" by (induction "is") (simp_all add: proxied_def)
qed (simp add: proxied_def)

text \<open>The function a deployment declares for a request, and the path it is given. Without a prebuilt output it is the
  function of the longest matching route; without any matching route, when there is neither a directory nor an origin, it is \<open>web\<close> or
  else the first function; otherwise it is the origin, when the file is missing.\<close>

definition routed_path :: "public_world \<Rightarrow> site \<Rightarrow> public_request \<Rightarrow> string" where
  "routed_path w dep req =
     (let file = trim_start_matches CHR ''/'' (pq_path req)
      in if file \<noteq> [] \<and> sd_static_root dep \<and> sw_exists (pw_static w) (static_dir_path dep) file then pq_path req
         else rewrite_path_ctx (pw_escape w) (pw_regex w) (sd_manifest dep) (pq_path req) (public_ctx req))"

definition origin_call :: "public_world \<Rightarrow> site \<Rightarrow> public_request \<Rightarrow> string option" where
  "origin_call w dep req =
     (case sd_origin_function dep of
        None \<Rightarrow> None
      | Some origin \<Rightarrow>
          if read_static_file (pw_static w) dep (routed_path w dep req) (accepted_encodings_of (pq_headers req)) = Inr None then Some origin else None)"

definition declared_function :: "public_world \<Rightarrow> site \<Rightarrow> public_request \<Rightarrow> string option" where
  "declared_function w dep req =
     (case longest_route (routed_path w dep req) (mf_routes (sd_manifest dep)) of
        Some r \<Rightarrow> (case pr_target r of Function_Target name \<Rightarrow> Some name | Static_Target \<Rightarrow> origin_call w dep req)
      | None \<Rightarrow>
          if sd_static_dir dep = None \<and> sd_origin_function dep = None \<and> mf_functions (sd_manifest dep) \<noteq> []
          then Some (if ''web'' \<in> fst ` set (mf_functions (sd_manifest dep)) then ''web'' else fst (hd (mf_functions (sd_manifest dep))))
          else origin_call w dep req)"

definition prebuilt_call :: "site \<Rightarrow> public_request \<Rightarrow> string \<Rightarrow> (string \<times> string) option" where
  "prebuilt_call dep req path =
     (case sd_v3 dep of
        Some (V3_Ready ev) \<Rightarrow>
          (case resolve_output ev (pq_method req) path of
             Inr res \<Rightarrow>
               (case rs_target res of
                  Some (Target_Function name) \<Rightarrow>
                    Some (name, if CHR ''?'' \<in> set (rs_path res) \<or> query_text req = [] then rs_path res else rs_path res @ CHR ''?'' # query_text req)
                | _ \<Rightarrow> None)
           | Inl _ \<Rightarrow> None)
      | _ \<Rightarrow> None)"

definition declared_call :: "public_world \<Rightarrow> site \<Rightarrow> public_request \<Rightarrow> (string \<times> string) option" where
  "declared_call w dep req =
     (if early_redirect w dep req \<noteq> None then None
      else if sd_build_output dep \<noteq> None then prebuilt_call dep req (routed_path w dep req)
      else map_option (\<lambda>name. (name, path_and_query req)) (declared_function w dep req))"

lemma implicit_function_declared:
  "implicit_function dep path =
     (if longest_route path (mf_routes (sd_manifest dep)) = None \<and> sd_static_dir dep = None \<and> sd_origin_function dep = None \<and>
         mf_functions (sd_manifest dep) \<noteq> []
      then Some (if ''web'' \<in> fst ` set (mf_functions (sd_manifest dep)) then ''web'' else fst (hd (mf_functions (sd_manifest dep))))
      else None)"
proof -
  have f: "(case find (\<lambda>n. n = ''web'') ns of Some n \<Rightarrow> Some n | None \<Rightarrow> (case ns of [] \<Rightarrow> None | n # _ \<Rightarrow> Some n)) =
      (if ns = [] then None else Some (if ''web'' \<in> set ns then ''web'' else hd ns))" for ns :: "string list"
  proof (cases "''web'' \<in> set ns")
    case True
    then have "find (\<lambda>n. n = ''web'') ns = Some ''web''" by (induction ns) auto
    then show ?thesis using True by auto
  next
    case False
    then have "find (\<lambda>n. n = ''web'') ns = None" by (auto simp: find_None_iff)
    then show ?thesis using False by (cases ns) auto
  qed
  have h: "ns \<noteq> [] \<Longrightarrow> hd (map fst ns) = fst (hd ns)" for ns :: "(string \<times> fn_config) list" by (cases ns) auto
  show ?thesis using h [of "mf_functions (sd_manifest dep)"]
    by (simp add: implicit_function_def Let_def f conjunct2 [OF resolve_longest_prefix])
qed

text \<open>What the handler does is what the proxy does for that function.\<close>

definition called :: "public_world \<Rightarrow> site \<Rightarrow> public_request \<Rightarrow> browser_routes \<Rightarrow> (string \<times> string) option \<Rightarrow> routed \<Rightarrow> bool" where
  "called w dep req br np out \<longleftrightarrow>
     (case np of
        None \<Rightarrow> fst (snd out) = [] \<and> snd (snd out) = br
      | Some (name, path_q) \<Rightarrow> out = call_function w dep name path_q req br)"

lemma route_prebuilt_called: "called w dep req br (prebuilt_call dep req path) (fst (route_prebuilt w dep req path br))"
  by (auto simp: route_prebuilt_def prebuilt_call_def called_def split: option.splits v3_state.splits sum.splits bo_target.splits)

lemma route_legacy_called:
  "called w dep req br (map_option (\<lambda>name. (name, path_and_query req)) (declared_function w dep req)) (route_legacy w dep req (routed_path w dep req) br)"
proof (cases "longest_route (routed_path w dep req) (mf_routes (sd_manifest dep))")
  case None
  then show ?thesis
    by (auto simp: route_legacy_def declared_function_def origin_call_def called_def implicit_function_declared conjunct1 [OF resolve_longest_prefix] Let_def
        split: option.splits sum.splits)
next
  case (Some r)
  then show ?thesis
    by (cases "pr_target r")
      (auto simp: route_legacy_def declared_function_def origin_call_def called_def implicit_function_declared conjunct1 [OF resolve_longest_prefix] Let_def
        split: option.splits sum.splits)
qed

text \<open>The answer of the site, given what the proxy made of the call.\<close>

definition site_answer :: "public_world \<Rightarrow> site \<Rightarrow> public_request \<Rightarrow> browser_routes \<Rightarrow> built option \<times> public_effect list \<times> browser_routes \<Rightarrow> bool" where
  "site_answer w dep req br out \<longleftrightarrow>
     (case declared_call w dep req of
        None \<Rightarrow> proxied (fst (snd out)) = [] \<and> snd (snd out) = br
      | Some (name, path_q) \<Rightarrow>
          (case read_body MAX_BODY req of
             None \<Rightarrow> out = (Some (Sized (plain 400 ''body too large'')), [], br)
           | Some body \<Rightarrow>
               (case proxy_function (pw_browser w) (sd_deployment dep) name (pq_method req) path_q (pq_headers req) body (pw_answers w) br of
                  (r, es, br1) \<Rightarrow> \<exists>hs. out = (Some (finish_response w dep req hs (Inr r)), map Proxied es, br1))))"

lemma serve_site_answer: "site_answer w dep req br (serve_site w dep req br)"
proof (cases "early_redirect w dep req")
  case (Some r)
  then show ?thesis by (simp add: site_answer_def declared_call_def serve_site_def case_prod_beta)
next
  case None
  have i: "internal_path w dep req = routed_path w dep req" by (simp add: internal_path_def real_asset_def routed_path_def Let_def)
  have fin: "site_answer w dep req br (Some (finish_response w dep req hs (fst out)), fst (snd out), snd (snd out))"
    if c: "called w dep req br (declared_call w dep req) out" for out hs
  proof (cases "declared_call w dep req")
    case (Some np)
    obtain name path_q where np: "np = (name, path_q)" by fastforce
    have o: "out = call_function w dep name path_q req br" using c Some np by (simp add: called_def)
    show ?thesis
    proof (cases "read_body MAX_BODY req")
      case b: (Some body)
      show ?thesis unfolding site_answer_def Some np option.case prod.case o call_function_def b by (auto simp: case_prod_beta)
    qed (simp add: site_answer_def Some np o call_function_def finish_response_def)
  qed (use c in \<open>simp add: called_def site_answer_def\<close>)
  show ?thesis
  proof (cases "sd_build_output dep = None")
    case True
    have "declared_call w dep req = map_option (\<lambda>name. (name, path_and_query req)) (declared_function w dep req)"
      using None True by (simp add: declared_call_def)
    then show ?thesis using fin [of "route_legacy w dep req (routed_path w dep req) br"] route_legacy_called [of w dep req br] None True
      by (simp add: serve_site_def i case_prod_beta Let_def)
  next
    case False
    have "declared_call w dep req = prebuilt_call dep req (routed_path w dep req)" using None False by (simp add: declared_call_def)
    then show ?thesis using fin [of "fst (route_prebuilt w dep req (routed_path w dep req) br)"] route_prebuilt_called [of w dep req br "routed_path w dep req"] None False
      by (simp add: serve_site_def i case_prod_beta Let_def)
  qed
qed

lemma serve_image_calls: "proxied (fst (snd (serve_image w dep req br))) = [] \<and> snd (snd (serve_image w dep req br)) = br"
  by (auto simp: serve_image_def Let_def case_prod_beta split: option.split v3_state.split)

lemma record_vitals_calls: "proxied (record_vitals st req) = []"
  by (simp add: record_vitals_def proxied_def split: option.split)

lemma insights_image: "vercel_insights w m p = None \<Longrightarrow> p = ''/_vercel/image''"
  by (auto simp: vercel_insights_def Let_def split: if_splits)


section \<open>Files\<close>

text \<open>A file that exists under the path of a request is what a static site answers with: no rewrite, also not one that catches
  everything, sends the request elsewhere, and no function runs.\<close>
theorem real_file_wins:
  "if early_redirect w dep req = None \<and> sd_build_output dep = None \<and> real_asset w dep (pq_path req) \<and> \<not> ends_with ''/'' (pq_path req) \<and>
      mf_resolve (sd_manifest dep) (pq_path req) = Static_Target \<and> implicit_function dep (pq_path req) = None
   then (case sw_read (pw_static w) (static_dir_path dep) (trim_start_matches CHR ''/'' (pq_path req)) of
           Inl _ \<Rightarrow> True
         | Inr source \<Rightarrow>
             serve_site w dep req br =
               (Some (finish_response w dep req (headers_for (pw_escape w) (pw_regex w) (sd_manifest dep) (pq_path req) (public_ctx req))
                  (Inr (Sized (or_error (static_asset_response (pw_static w) (static_dir_path dep) (trim_start_matches CHR ''/'' (pq_path req)) source
                     (content_type (logical_file dep (trim_start_matches CHR ''/'' (pq_path req)))) (static_cache_control (pq_path req)) True
                     (accepted_encodings_of (pq_headers req))))))), [], br))
   else True"
proof -
  have "serve_site w dep req br =
      (Some (finish_response w dep req (headers_for (pw_escape w) (pw_regex w) (sd_manifest dep) (pq_path req) (public_ctx req))
         (Inr (Sized (or_error (static_asset_response (pw_static w) (static_dir_path dep) (trim_start_matches CHR ''/'' (pq_path req)) source
            (content_type (logical_file dep (trim_start_matches CHR ''/'' (pq_path req)))) (static_cache_control (pq_path req)) True
            (accepted_encodings_of (pq_headers req))))))), [], br)"
    if e: "early_redirect w dep req = None" and b: "sd_build_output dep = None" and a: "real_asset w dep (pq_path req)"
      and s: "\<not> ends_with ''/'' (pq_path req)" and m: "mf_resolve (sd_manifest dep) (pq_path req) = Static_Target"
      and i: "implicit_function dep (pq_path req) = None"
      and r: "sw_read (pw_static w) (static_dir_path dep) (trim_start_matches CHR ''/'' (pq_path req)) = Inr source" for source
  proof -
    have p: "internal_path w dep req = pq_path req" using a by (simp add: internal_path_def)
    have root: "sd_static_root dep" "trim_start_matches CHR ''/'' (pq_path req) \<noteq> []" using a by (simp_all add: real_asset_def)
    have f: "requested_file (pq_path req) = trim_start_matches CHR ''/'' (pq_path req)" using s root(2) by (simp add: requested_file_def Let_def)
    show ?thesis using e b m i r root f
      by (cases "sd_origin_function dep")
         (auto simp: serve_site_def p route_legacy_def serve_static_def read_static_file_def Let_def or_error_def finish_response_def
           split: sum.splits)
  qed
  then show ?thesis by (simp split: sum.split)
qed

section \<open>Headers\<close>

definition valid_header :: "public_world \<Rightarrow> string \<Rightarrow> string \<times> string \<Rightarrow> bool" where
  "valid_header w name kv \<longleftrightarrow>
     (case kv of (k, v) \<Rightarrow> to_lowercase k = name \<and> bw_name_ok (pw_browser w) k \<and> sw_value_ok (pw_static w) v)"

definition header_values :: "string \<Rightarrow> gw_response \<Rightarrow> string list" where
  "header_values name r = map snd (filter (\<lambda>(n, v). n = name) (re_headers r))"

lemma header_values_put: "header_values name (header_put k v r) = (if k = name then [v] else header_values name r)"
proof -
  have "filter (\<lambda>(n, x). n = name) (filter (\<lambda>(n, x). n \<noteq> k) hs) = (if k = name then [] else filter (\<lambda>(n, x). n = name) hs)"
    for hs :: "(string \<times> string) list"
    by (induction hs) auto
  then show ?thesis by (simp add: header_values_def header_put_def)
qed

lemma inject_header_values:
  "header_values name (inject_header w kv r) = (if valid_header w name kv then [snd kv] else header_values name r)"
  by (cases kv) (auto simp: inject_header_def valid_header_def header_values_put)

text \<open>Configured headers win: for every name the response carries the last valid value configured for it and no other, and
  what it had when none is configured; its status and body stay.\<close>
theorem configured_headers_win:
  "header_values name (inject_headers w extra r) =
     (case rev (filter (valid_header w name) extra) of [] \<Rightarrow> header_values name r | kv # _ \<Rightarrow> [snd kv]) \<and>
   re_status (inject_headers w extra r) = re_status r \<and> re_body (inject_headers w extra r) = re_body r"
proof -
  have "header_values name (inject_headers w extra r) =
      (case rev (filter (valid_header w name) extra) of [] \<Rightarrow> header_values name r | kv # _ \<Rightarrow> [snd kv])"
    unfolding inject_headers_def
    by (induction extra rule: rev_induct) (auto simp: inject_header_values split: list.splits)
  moreover have "re_status (fold (inject_header w) extra r) = re_status r \<and> re_body (fold (inject_header w) extra r) = re_body r"
    by (induction extra arbitrary: r) (auto simp: inject_header_def header_put_def)
  ultimately show ?thesis by (simp add: inject_headers_def)
qed

text \<open>A route policy never overrides a response: status and body stay, a response with a cache policy of its own keeps it, and one that
  is no success gets none; the synthesised policy belongs to the class of the route that is named beside it.\<close>
theorem route_policy_additive:
  "re_status (apply_route_policy w mf path r) = re_status r \<and> re_body (apply_route_policy w mf path r) = re_body r \<and>
   (if header_values ''cache-control'' r \<noteq> [] \<or> re_status r < 200 \<or> 299 < re_status r
    then header_values ''cache-control'' (apply_route_policy w mf path r) = header_values ''cache-control'' r
    else case header_values ''cache-control'' (apply_route_policy w mf path r) of
           [] \<Rightarrow> True
         | cc # rest \<Rightarrow> rest = [] \<and>
             (\<exists>p. route_policy mf path = Some p \<and> policy_cache_control (class_cache_policy (re_revalidate p) (re_class p)) = Some cc \<and>
                header_values ''x-hive-route-class'' (apply_route_policy w mf path r) = [class_name (re_class p)]))"
proof (cases "route_policy mf path")
  case (Some p)
  define r1 where "r1 = header_put ''x-hive-route-class'' (class_name (re_class p)) r"
  have r1: "re_status r1 = re_status r" "re_body r1 = re_body r" "header_values ''cache-control'' r1 = header_values ''cache-control'' r"
    "header_values ''x-hive-route-class'' r1 = [class_name (re_class p)]"
    unfolding r1_def header_values_put by (simp_all add: header_put_def)
  have c: "''cache-control'' \<in> fst ` set (re_headers r1) \<longleftrightarrow> header_values ''cache-control'' r \<noteq> []"
    unfolding r1(3) [symmetric] by (force simp: header_values_def filter_empty_conv)
  have e: "apply_route_policy w mf path r =
      (if \<not> (200 \<le> re_status r \<and> re_status r \<le> 299) \<or> header_values ''cache-control'' r \<noteq> [] then r1
       else (case policy_cache_control (class_cache_policy (re_revalidate p) (re_class p)) of
               Some cc \<Rightarrow> if sw_value_ok (pw_static w) cc then header_put ''cache-control'' cc r1 else r1
             | None \<Rightarrow> r1))"
    unfolding apply_route_policy_def Some option.case Let_def r1_def [symmetric] c r1(1) by (rule refl)
  have s: "re_status (header_put k v r1) = re_status r" "re_body (header_put k v r1) = re_body r" for k v
    using r1 by (simp_all add: header_put_def)
  show ?thesis unfolding e using r1 s by (auto simp: header_values_put Some split: option.splits list.splits)
qed (auto simp: apply_route_policy_def split: list.splits)

section \<open>Redirects\<close>

definition normalise_step :: "site \<Rightarrow> string \<Rightarrow> string option" where
  "normalise_step dep path =
     (case trailing_slash_redirect (sd_manifest dep) path of
        Some p \<Rightarrow> Some p
      | None \<Rightarrow> if sd_clean_urls dep \<and> ends_with ''.html'' path \<and> clean_url path \<noteq> path then Some (clean_url path) else None)"

definition configured_redirect :: "public_world \<Rightarrow> site \<Rightarrow> public_request \<Rightarrow> (nat \<times> string) option" where
  "configured_redirect w dep req =
     map_option (\<lambda>(location, status). (status, location)) (redirect_for_ctx (pw_escape w) (pw_regex w) (sd_manifest dep) (pq_path req) (public_ctx req))"

lemma early_redirect_step:
  "early_redirect w dep req =
     (case normalise_step dep (pq_path req) of Some p \<Rightarrow> Some (308, with_query req p) | None \<Rightarrow> configured_redirect w dep req)"
  by (auto simp: normalise_step_def early_redirect_def configured_redirect_def Let_def split: option.splits if_splits)

lemma trim_html_length: "length (trim_html s) \<le> length s"
proof (induction s rule: trim_html.induct)
  case (1 s)
  then show ?case by (subst trim_html.simps) (auto simp: strip_suffix_iff split: option.splits)
qed

lemma ends_with_some: "ends_with p s \<Longrightarrow> \<exists>r. strip_suffix p s = Some r"
  by (cases "strip_suffix p s") (simp_all add: ends_with_def)

lemma clean_url_shorter: "ends_with ''.html'' s \<Longrightarrow> length (clean_url s) < length s"
proof -
  assume "ends_with ''.html'' s"
  then obtain r where r: "strip_suffix ''.html'' s = Some r" using ends_with_some by blast
  have "length (trim_html s) \<le> length r" using trim_html_length [of r] r by (subst trim_html.simps) simp
  moreover have "length s = length r + 5" using strip_suffix_shorter [OF r] by simp
  ultimately show ?thesis by (auto simp: clean_url_def Let_def)
qed

lemma ends_with_slash: "ends_with [c] s \<Longrightarrow> \<exists>q. s = q @ [c]"
  using ends_with_some [of "[c]" s] by (auto simp: strip_suffix_iff)

lemma html_no_slash: "\<not> ends_with ''.html'' (s @ ''/'')"
  by (auto simp: ends_with_def strip_suffix_iff append_eq_append_conv2)

text \<open>A path that a client resolves on the same host: one slash at its beginning, not two.\<close>

definition host_path :: "string \<Rightarrow> bool" where
  "host_path p \<longleftrightarrow> starts_with ''/'' p \<and> \<not> starts_with ''//'' p"

lemma host_path_append:
  assumes "host_path (a @ b)" and "a \<noteq> []"
  shows "host_path a"
  using assms by (cases a) (auto simp: host_path_def starts_with_iff)

lemma trim_html_prefix: "\<exists>r. s = trim_html s @ r"
proof (induction s rule: trim_html.induct)
  case (1 s)
  show ?case
  proof (cases "strip_suffix ''.html'' s")
    case (Some p)
    have "trim_html s = trim_html p" by (subst trim_html.simps) (simp add: Some)
    moreover obtain r where "p = trim_html p @ r" using "1.IH" [OF Some] by blast
    ultimately have "s = trim_html s @ (r @ ''.html'')" using Some by (simp add: strip_suffix_iff)
    then show ?thesis by blast
  next
    case None
    then have "trim_html s = s" by (subst trim_html.simps) simp
    then show ?thesis by simp
  qed
qed

lemma clean_url_host: "host_path s \<Longrightarrow> host_path (clean_url s)"
proof -
  assume h: "host_path s"
  define c where "c = trim_html s"
  define d where "d = (if ends_with ''/index'' c then take (length c - length ''index'') c else c)"
  obtain r where "s = c @ r" using trim_html_prefix [of s] unfolding c_def by blast
  moreover have "\<exists>r'. c = d @ r'" unfolding d_def by (cases "ends_with ''/index'' c") (auto intro: exI [of _ "drop (length c - length ''index'') c"])
  then obtain r' where "c = d @ r'" by blast
  ultimately have s: "s = d @ (r' @ r)" by simp
  have "clean_url s = (if d = [] then ''/'' else d)" by (simp add: clean_url_def c_def d_def Let_def)
  then show ?thesis using host_path_append [of d "r' @ r"] h s by (auto simp: host_path_def starts_with_iff)
qed

lemma trim_slash_host:
  assumes "host_path s" and "s \<noteq> ''/''"
  shows "host_path (trim_end_matches CHR ''/'' s)"
proof -
  obtain r where s: "s = CHR ''/'' # r" using assms(1) by (auto simp: host_path_def starts_with_iff)
  then obtain x u where r: "r = x # u" "x \<noteq> CHR ''/''" using assms by (cases r) (auto simp: host_path_def starts_with_iff)
  have n: "trim_end_matches CHR ''/'' s \<noteq> []" unfolding trim_end_matches_def s r(1) using r(2) by (auto simp: dropWhile_eq_Nil_conv)
  have "s = trim_end_matches CHR ''/'' s @ rev (takeWhile (\<lambda>c. c = CHR ''/'') (rev s))"
    unfolding trim_end_matches_def by (metis rev_append rev_rev_ident takeWhile_dropWhile_id)
  then show ?thesis using host_path_append n assms(1) by metis
qed

lemma trim_slash_shorter: "ends_with ''/'' path \<Longrightarrow> length (trim_end_matches CHR ''/'' path) < length path"
proof -
  assume "ends_with ''/'' path"
  then obtain q where "path = q @ ''/''" using ends_with_slash by blast
  then show ?thesis using length_dropWhile_le [of "\<lambda>x. x = CHR ''/''" "rev q"] by (simp add: trim_end_matches_def)
qed

lemma normalise_step_cases:
  assumes "normalise_step dep path = Some p" and "host_path path"
  shows "host_path p \<and> (length p < length path \<or> normalise_step dep p = None)"
proof (cases "trailing_slash_redirect (sd_manifest dep) path")
  case None
  then show ?thesis using assms clean_url_host [of path] clean_url_shorter [of path] by (auto simp: normalise_step_def split: if_splits)
next
  case (Some q)
  then have q: "q = p" using assms(1) by (simp add: normalise_step_def)
  consider (add) "mf_trailing_slash (sd_manifest dep) = Some True" "p = path @ ''/''" "path \<noteq> ''/''"
    | (remove) "ends_with ''/'' path" "p = trim_end_matches CHR ''/'' path" "path \<noteq> ''/''"
    using Some q by (auto simp: trailing_slash_redirect_def split: option.splits if_splits)
  then show ?thesis
  proof cases
    case add
    have "normalise_step dep (path @ ''/'') = None"
      using add(1) html_no_slash [of path] by (auto simp: normalise_step_def trailing_slash_redirect_def ends_with_def strip_suffix_iff)
    moreover have "host_path (path @ ''/'')" using assms(2) add(3) by (cases path) (auto simp: host_path_def starts_with_iff append_eq_Cons_conv)
    ultimately show ?thesis using add by simp
  next
    case remove
    then show ?thesis using trim_slash_host [OF assms(2)] trim_slash_shorter by simp
  qed
qed

text \<open>The requests of a client that follows normalising redirects: each is redirected to the next, on the same host and with the same
  query, and the last one is not redirected, or only as the manifest configures.\<close>

fun visits :: "public_world \<Rightarrow> site \<Rightarrow> public_request list \<Rightarrow> bool" where
  "visits w dep [] \<longleftrightarrow> False"
| "visits w dep [a] \<longleftrightarrow> early_redirect w dep a = configured_redirect w dep a"
| "visits w dep (a # b # rs) \<longleftrightarrow>
     early_redirect w dep a = Some (308, with_query a (pq_path b)) \<and> b = a\<lparr>pq_path := pq_path b\<rparr> \<and> host_path (pq_path b) \<and> visits w dep (b # rs)"

text \<open>C40: Normalising redirects end: a client that asks for a path with one slash at its beginning and follows the redirects for
  trailing slashes and clean URLs is sent on at most as often as the path is long, each time to a path on the same host with the same
  query, and then is redirected no more, unless by a redirect the manifest configures. (A path that begins with two slashes is
  excluded: its redirect can be empty, which leads back to it, or name another host.)\<close>
theorem normalising_redirects_end:
  assumes "host_path (pq_path req)"
  shows "\<exists>rs. visits w dep (req # rs) \<and> length rs \<le> length (pq_path req)"
  using assms
proof (induction "length (pq_path req)" arbitrary: req rule: less_induct)
  case less
  show ?case
  proof (cases "normalise_step dep (pq_path req)")
    case None
    then have "visits w dep [req]" by (simp add: early_redirect_step)
    then show ?thesis by (intro exI [of _ "[]"]) simp
  next
    case (Some p)
    let ?b = "req\<lparr>pq_path := p\<rparr>"
    have e: "early_redirect w dep req = Some (308, with_query req (pq_path ?b))" using Some by (simp add: early_redirect_step)
    have h: "host_path p" using normalise_step_cases [OF Some less.prems] by simp
    show ?thesis
    proof (cases "length p < length (pq_path req)")
      case True
      obtain rs where "visits w dep (?b # rs)" "length rs \<le> length p" using less.hyps [of ?b] True h by auto
      then show ?thesis using e h True by (intro exI [of _ "?b # rs"]) simp
    next
      case False
      then have "normalise_step dep p = None" using normalise_step_cases [OF Some less.prems] by simp
      then have "visits w dep [?b]" by (simp add: early_redirect_step)
      moreover have "1 \<le> length (pq_path req)" using less.prems by (auto simp: host_path_def starts_with_iff)
      ultimately show ?thesis using e h by (intro exI [of _ "[?b]"]) simp
    qed
  qed
qed

section \<open>Upgrades\<close>

text \<open>An upgrade is leased from the function that a plain request calls, wherever no redirect or rewrite applies: both are given the
  same declaration of the route.\<close>
theorem upgrade_agrees:
  "if pq_method req = ''GET'' \<and> early_redirect w dep req = None \<and> internal_path w dep req = pq_path req \<and>
      (sd_build_output dep = None \<longleftrightarrow> sd_v3 dep = None) \<and> implicit_function dep (pq_path req) = None \<and> sd_origin_function dep = None
   then upgrade_target dep (pq_path req) = map_option fst (declared_call w dep req)
   else True"
proof -
  have i: "routed_path w dep req = internal_path w dep req" by (simp add: internal_path_def real_asset_def routed_path_def Let_def)
  have "upgrade_target dep (pq_path req) = map_option fst (declared_call w dep req)"
    if g: "pq_method req = ''GET''" "early_redirect w dep req = None" "internal_path w dep req = pq_path req"
      "sd_build_output dep = None \<longleftrightarrow> sd_v3 dep = None" "implicit_function dep (pq_path req) = None" "sd_origin_function dep = None"
  proof (cases "sd_v3 dep")
    case None
    have "declared_function w dep req =
        (case longest_route (pq_path req) (mf_routes (sd_manifest dep)) of None \<Rightarrow> None
         | Some r \<Rightarrow> (case pr_target r of Function_Target name \<Rightarrow> Some name | Static_Target \<Rightarrow> None))"
      using g(3,5,6) unfolding declared_function_def i implicit_function_declared origin_call_def
      by (auto split: option.splits if_splits)
    then show ?thesis using None g(2,4) conjunct1 [OF resolve_longest_prefix, of "sd_manifest dep" "pq_path req"]
      by (auto simp: upgrade_target_def declared_call_def split: option.splits route_target.splits)
  next
    case (Some v)
    have "declared_call w dep req = prebuilt_call dep req (pq_path req)" using Some g(2,3,4) by (simp add: declared_call_def i)
    then show ?thesis using Some g(1)
      by (cases v) (auto simp: upgrade_target_def prebuilt_call_def split: option.splits sum.splits bo_target.splits)
  qed
  then show ?thesis by simp
qed

section \<open>Concrete sites\<close>

definition demo_files :: "string \<Rightarrow> string \<Rightarrow> read_error + contained_file" where
  "demo_files dir rel =
     (if rel = ''about.html''
      then Inr \<lparr>cf_bytes = ''about'', cf_modified = None, cf_generation =
        \<lparr>gn_len = 5, gn_modified = None, gn_dev = 1, gn_ino = 1, gn_ctime = 0, gn_ctime_nsec = 0\<rparr>\<rparr>
      else Inl Read_Missing)"

definition demo_static :: static_world where
  "demo_static = \<lparr>sw_value_ok = (\<lambda>_. True), sw_compress = (\<lambda>_ _. None), sw_read = demo_files,
     sw_variant = (\<lambda>_ _ _ _. Inl Read_Missing), sw_exists = (\<lambda>dir rel. rel = ''about.html''), sw_detail = (\<lambda>_. [])\<rparr>"

definition demo_images :: image_world where
  "demo_images = \<lparr>iw_decode = (\<lambda>_. None), iw_webp = (\<lambda>_ _. None), iw_png = (\<lambda>_ _. None), iw_jpeg = (\<lambda>_ _ _. None),
     iw_fetch = (\<lambda>_. ([], None)), iw_cached = (\<lambda>_. None)\<rparr>"

definition demo_browser :: browser_env where
  "demo_browser = \<lparr>bw_now = 0, bw_window_ms = 60000, bw_quota = 600, bw_circuit_ms = 30000, bw_caller = None,
     bw_invoke = (\<lambda>_ _. Inl (Browser_Failure False [])), bw_between = (\<lambda>br. br), bw_meanwhile = (\<lambda>br. br), bw_later = 0, bw_parse = (\<lambda>_. None), bw_name_ok = (\<lambda>_. True), bw_value_ok = (\<lambda>_. True)\<rparr>"

definition demo_world :: public_world where
  "demo_world = \<lparr>pw_static = demo_static, pw_image = demo_images, pw_browser = demo_browser,
     pw_answers = (\<lambda>_. Answered ''c1'' True \<lparr>th_status = 200, th_headers = [(''content-length'', ''2'')], th_wait_until_ms = 0\<rparr> ''hi'' True),
     pw_escape = (\<lambda>s. s), pw_regex = (\<lambda>_. None), pw_location_ok = (\<lambda>_. True), pw_script = (\<lambda>_. [])\<rparr>"

definition demo_mf :: "bool option \<Rightarrow> (string \<times> fn_config) list \<Rightarrow> manifest" where
  "demo_mf slash fns = \<lparr>mf_functions = fns, mf_routes = [], mf_redirects = [], mf_rewrites = [], mf_headers = [],
     mf_trailing_slash = slash, mf_route_policies = []\<rparr>"

definition demo_deployment :: gw_deployment where
  "demo_deployment = \<lparr>gd_id = ''d1'', gd_project = ''shop'', gd_incarnation = None, gd_root = ''/srv'', gd_workdir = None, gd_functions = [],
     gd_image = None, gd_created = 0, gd_state = Ds_Ready, gd_creator = [], gd_git = None, gd_production = True, gd_target = ''production'',
     gd_tenant = ''acme''\<rparr>"

definition demo_site :: "bool \<Rightarrow> manifest \<Rightarrow> site" where
  "demo_site clean mf = \<lparr>sd_deployment = demo_deployment, sd_root = Some ''/srv'', sd_v3 = None,
     st_config = \<lparr>sm_manifest = mf, sm_clean_urls = clean, sm_static_dir = None, sm_origin_function = None, sm_images = None, sm_build_output = None\<rparr>\<rparr>"

definition demo_request :: "string \<Rightarrow> public_request" where
  "demo_request path = \<lparr>pq_method = ''GET'', pq_path = path, pq_query = None, pq_headers = [], pq_body = Some []\<rparr>"

definition served :: "built option \<times> public_effect list \<times> browser_routes \<Rightarrow> (nat \<times> string) option" where
  "served r = map_option (\<lambda>b. case b of Streamed x \<Rightarrow> (re_status x, re_body x) | Sized x \<Rightarrow> (re_status x, re_body x)) (fst r)"

text \<open>With clean URLs a page answers under its name without extension. With a trailing slash wanted as well, that name is redirected to the
  name with the slash, which is looked up as a directory: the page cannot be reached.\<close>

lemma clean_url_page:
  "served (serve_site demo_world (demo_site True (demo_mf None [])) (demo_request ''/about'') browser_routes_default) = Some (200, ''about'')"
  by code_simp

lemma clean_url_behind_slash:
  "normalise_step (demo_site True (demo_mf (Some True) [])) ''/about.html'' = Some ''/about'' \<and>
   normalise_step (demo_site True (demo_mf (Some True) [])) ''/about'' = Some ''/about/'' \<and>
   served (serve_site demo_world (demo_site True (demo_mf (Some True) [])) (demo_request ''/about/'') browser_routes_default) = Some (404, ''not found'')"
  by code_simp

text \<open>A plain request reaches the implicit function of a deployment without routes, an upgrade does not.\<close>

lemma upgrade_misses_implicit_function:
  "declared_call demo_world (demo_site False (demo_mf None [(''web'', f)])) (demo_request ''/ws'') = Some (''web'', ''/ws'') \<and>
   upgrade_target (demo_site False (demo_mf None [(''web'', f)])) ''/ws'' = None"
  by (simp add: declared_call_def declared_function_def longest_route_def early_redirect_def trailing_slash_redirect_def redirect_for_ctx_def Let_def
      demo_site_def demo_mf_def demo_request_def path_and_query_def upgrade_target_def mf_resolve_def)

lemma normalising_redirects_end_witness:
  "\<exists>rs. visits demo_world (demo_site True (demo_mf (Some False) [])) (demo_request ''/a/index.html'' # rs) \<and> length rs \<le> 13"
proof -
  have h: "host_path (pq_path (demo_request ''/a/index.html''))" by code_simp
  have l: "length (pq_path (demo_request ''/a/index.html'')) = 13" by code_simp
  show ?thesis using normalising_redirects_end [OF h, of demo_world "demo_site True (demo_mf (Some False) [])"] unfolding l .
qed

end
