(* ===== verification/Cloud_Raw_Ports.thy ===== *)
theory Cloud_Raw_Ports
  imports Fluid_Pool
begin

text \<open>
  The public ports of raw services (\<open>crates/hive-cloud/src/raw_ports.rs\<close>): the registry of claims with its quarantine and its file on
  disk, the scan for a free port, a batch of claims with its rollback, retirement, and the adoption of claims made elsewhere. The probes of the
  operating system, the clock, the outcome of a write and the answers of the leader are arguments. JSON is left out: the file is its
  record.
\<close>

section \<open>The registry\<close>

record raw_alloc =
  ra_project :: string
  ra_function :: string
  ra_container_port :: nat
  ra_protocol :: service_protocol
  ra_public_port :: nat
  ra_label :: "string option"
  ra_allocated_ms :: nat

record registry_file =
  rf_allocs :: "raw_alloc list"
  rf_quarantined :: "nat set"

record raw_registry =
  rr_by_key :: "(string, raw_alloc) table"
  rr_in_use :: "nat set"
  rr_quarantined :: "nat set"
  rr_cursor :: nat

text \<open>The registry of a node and the file it was last written to, if there is one that can be read.\<close>

record raw_node =
  rn_registry :: raw_registry
  rn_file :: "registry_file option"

definition unit_separator :: char where
  "unit_separator = CHR 0x1F"

definition alloc_key :: "string \<Rightarrow> string \<Rightarrow> nat \<Rightarrow> service_protocol \<Rightarrow> string" where
  "alloc_key project function container_port protocol =
     project @ unit_separator # function @ unit_separator # nat_to_string container_port @ unit_separator # protocol_str protocol"

definition key_of :: "raw_alloc \<Rightarrow> string" where
  "key_of a = alloc_key (ra_project a) (ra_function a) (ra_container_port a) (ra_protocol a)"

definition DEFAULT_RANGE :: "nat \<times> nat" where
  "DEFAULT_RANGE = (20000, 29999)"

definition parse_port_number :: "string \<Rightarrow> nat option" where
  "parse_port_number s = (case parse_u64 s of Some n \<Rightarrow> if n < 2 ^ 16 then Some n else None | None \<Rightarrow> None)"

fun split_dash :: "string \<Rightarrow> (string \<times> string) option" where
  "split_dash [] = None"
| "split_dash (c # s) = (if c = CHR ''-'' then Some ([], s) else map_option (\<lambda>(a, b). (c # a, b)) (split_dash s))"

definition parse_range :: "string \<Rightarrow> (nat \<times> nat) option" where
  "parse_range s =
     Option.bind (split_dash (trim s)) (\<lambda>(a, b).
       Option.bind (parse_port_number (trim a)) (\<lambda>lo.
         Option.bind (parse_port_number (trim b)) (\<lambda>hi. if lo < 1024 \<or> hi < lo then None else Some (lo, hi))))"

text \<open>The environment variable, if it is set.\<close>

definition port_range :: "string option \<Rightarrow> nat \<times> nat" where
  "port_range env =
     (case env of
        Some raw \<Rightarrow> if trim raw \<noteq> [] then (case parse_range raw of Some r \<Rightarrow> r | None \<Rightarrow> DEFAULT_RANGE) else DEFAULT_RANGE
      | None \<Rightarrow> DEFAULT_RANGE)"

text \<open>Loading takes each claim whose port is not in use yet.\<close>

definition load_claim :: "raw_alloc \<Rightarrow> raw_registry \<Rightarrow> raw_registry" where
  "load_claim a reg =
     (if ra_public_port a \<in> rr_in_use reg then reg
      else reg\<lparr>rr_in_use := insert (ra_public_port a) (rr_in_use reg), rr_by_key := tput (key_of a) a (rr_by_key reg)\<rparr>)"

definition registry_load :: "registry_file option \<Rightarrow> raw_registry" where
  "registry_load file =
     (case file of
        Some f \<Rightarrow> fold load_claim (rf_allocs f)
          \<lparr>rr_by_key = [], rr_in_use = rf_quarantined f, rr_quarantined = rf_quarantined f, rr_cursor = 0\<rparr>
      | None \<Rightarrow> \<lparr>rr_by_key = [], rr_in_use = {}, rr_quarantined = {}, rr_cursor = 0\<rparr>)"

text \<open>The values of the map in the order of its keys.\<close>

definition claims_sorted :: "raw_registry \<Rightarrow> (string \<times> raw_alloc) list" where
  "claims_sorted reg = sort_key fst (rr_by_key reg)"

definition registry_file_of :: "raw_registry \<Rightarrow> registry_file" where
  "registry_file_of reg = \<lparr>rf_allocs = map snd (claims_sorted reg), rf_quarantined = rr_quarantined reg\<rparr>"

text \<open>Writing replaces the file as a whole or leaves it.\<close>

definition save_registry :: "bool \<Rightarrow> raw_registry \<Rightarrow> registry_file option \<Rightarrow> registry_file option" where
  "save_registry ok reg file = (if ok then Some (registry_file_of reg) else file)"

section \<open>Claims\<close>

definition reserved_public_port :: "nat \<Rightarrow> bool" where
  "reserved_public_port p \<longleftrightarrow>
     p < 1024 \<or> p \<in> {3000, 3340, 3343, 3350, 5432, 6379, 8786, 8787, 50052, 9090} \<or>
     (7799 \<le> p \<and> p \<le> 7804) \<or> (50100 \<le> p \<and> p \<le> 50999)"

fun scan_ports :: "(nat \<Rightarrow> bool) \<Rightarrow> nat set \<Rightarrow> nat list \<Rightarrow> nat option" where
  "scan_ports probe used [] = None"
| "scan_ports probe used (c # cs) =
     (if c \<in> used then scan_ports probe used cs
      else if \<not> probe c then scan_ports probe used cs
      else Some c)"

definition candidates :: "nat \<times> nat \<Rightarrow> nat \<Rightarrow> nat list" where
  "candidates rng cursor =
     (case rng of (lo, hi) \<Rightarrow>
        (let span = hi - lo + 1 in map (\<lambda>i. (lo + wadd32 cursor i mod span) mod 2 ^ 16) [0..<span]))"

definition next_free :: "nat \<times> nat \<Rightarrow> (nat \<Rightarrow> bool) \<Rightarrow> raw_registry \<Rightarrow> (nat \<times> raw_registry) option" where
  "next_free rng probe reg =
     (case scan_ports probe (rr_in_use reg) (candidates rng (rr_cursor reg)) of
        None \<Rightarrow> None
      | Some c \<Rightarrow> Some (c, reg\<lparr>rr_cursor := (c - fst rng + 1) mod (snd rng - fst rng + 1)\<rparr>))"

text \<open>The raw targets of a manifest, as function and port.\<close>

definition raw_targets :: "(string \<times> fn_config) list \<Rightarrow> (string \<times> port_spec) list" where
  "raw_targets fns =
     concat (map (\<lambda>(name, f). map (\<lambda>spec. (name, spec))
       (filter (\<lambda>spec. needs_raw_proxy (pt_protocol spec) \<or> pt_preferred_public_port spec \<noteq> None) (fc_ports f))) fns)"

text \<open>What the node sees while it handles one target: whether the preferred port can be bound, which ports can be bound when it
  scans, and the time.\<close>

record claim_env =
  ce_preferred :: "nat \<Rightarrow> bool"
  ce_probe :: "nat \<Rightarrow> bool"
  ce_now :: nat

text \<open>One claim made by the batch: its key, its port, and the claim it displaced.\<close>

type_synonym new_claim = "string \<times> nat \<times> raw_alloc option"

definition undo_claim :: "new_claim \<Rightarrow> raw_registry \<Rightarrow> raw_registry" where
  "undo_claim c reg =
     (case c of (k, p, displaced) \<Rightarrow>
        (let reg1 = reg\<lparr>rr_by_key := tdel k (rr_by_key reg), rr_in_use := rr_in_use reg - {p}\<rparr>
         in case displaced of
              None \<Rightarrow> reg1
            | Some old \<Rightarrow>
                reg1\<lparr>rr_quarantined := rr_quarantined reg1 - {ra_public_port old},
                  rr_in_use := insert (ra_public_port old) (rr_in_use reg1), rr_by_key := tput k old (rr_by_key reg1)\<rparr>))"

definition rollback :: "new_claim list \<Rightarrow> raw_registry \<Rightarrow> raw_registry" where
  "rollback newly reg = fold undo_claim (rev newly) reg"

definition preferred_ok :: "claim_env \<Rightarrow> port_spec \<Rightarrow> raw_registry \<Rightarrow> nat option" where
  "preferred_ok env spec reg =
     (case pt_preferred_public_port spec of
        Some p \<Rightarrow> if \<not> reserved_public_port p \<and> p \<notin> rr_in_use reg \<and> ce_preferred env p then Some p else None
      | None \<Rightarrow> None)"

definition insert_claim :: "string \<Rightarrow> raw_alloc \<Rightarrow> raw_alloc option \<Rightarrow> raw_registry \<Rightarrow> raw_registry" where
  "insert_claim k a displaced reg =
     (let reg1 = (case displaced of
                    Some old \<Rightarrow> reg\<lparr>rr_quarantined := insert (ra_public_port old) (rr_quarantined reg)\<rparr>
                  | None \<Rightarrow> reg)
      in reg1\<lparr>rr_in_use := insert (ra_public_port a) (rr_in_use reg1), rr_by_key := tput k a (rr_by_key reg1)\<rparr>)"

text \<open>One target: the standing claim, or a new one with the registry that holds it; \<open>None\<close> when the range is exhausted.\<close>

definition claim_target ::
    "nat \<times> nat \<Rightarrow> string \<Rightarrow> string \<times> port_spec \<Rightarrow> claim_env \<Rightarrow> raw_registry
      \<Rightarrow> (raw_alloc \<times> new_claim option \<times> raw_registry) option" where
  "claim_target rng project target env reg =
     (case target of (name, spec) \<Rightarrow>
        (let key = alloc_key project name (pt_container_port spec) (pt_protocol spec);
             pref = preferred_ok env spec reg;
             prior = tget (rr_by_key reg) key
         in case (case prior of
                    Some existing \<Rightarrow> if pref = None \<or> pref = Some (ra_public_port existing) then Some existing else None
                  | None \<Rightarrow> None) of
              Some existing \<Rightarrow> Some (existing, None, reg)
            | None \<Rightarrow>
                (case (case pref of Some p \<Rightarrow> Some (p, reg) | None \<Rightarrow> next_free rng (ce_probe env) reg) of
                   None \<Rightarrow> None
                 | Some (p, reg1) \<Rightarrow>
                     (let a = \<lparr>ra_project = project, ra_function = name, ra_container_port = pt_container_port spec,
                               ra_protocol = pt_protocol spec, ra_public_port = p, ra_label = pt_label spec, ra_allocated_ms = ce_now env\<rparr>
                      in Some (a, Some (key, p, prior), insert_claim key a prior reg1)))))"

text \<open>The batch: the claims so far, those made new, and the registry; an exhausted range rolls all of them back.\<close>

fun claim_batch ::
    "nat \<times> nat \<Rightarrow> string \<Rightarrow> (string \<times> port_spec) list \<Rightarrow> (nat \<Rightarrow> claim_env) \<Rightarrow> nat \<Rightarrow> new_claim list \<Rightarrow> raw_registry
      \<Rightarrow> (raw_alloc list \<times> new_claim list) option \<times> raw_registry" where
  "claim_batch rng project [] envs n newly reg = (Some ([], newly), reg)"
| "claim_batch rng project (t # ts) envs n newly reg =
     (case claim_target rng project t (envs n) reg of
        None \<Rightarrow> (None, rollback newly reg)
      | Some (a, made, reg1) \<Rightarrow>
          (case claim_batch rng project ts envs (Suc n) (newly @ (case made of Some c \<Rightarrow> [c] | None \<Rightarrow> [])) reg1 of
             (None, reg2) \<Rightarrow> (None, reg2)
           | (Some (as, all), reg2) \<Rightarrow> (Some (a # as, all), reg2)))"

datatype claim_error = Range_Exhausted | Not_Persisted

definition claim_local ::
    "nat \<times> nat \<Rightarrow> string \<Rightarrow> (string \<times> port_spec) list \<Rightarrow> (nat \<Rightarrow> claim_env) \<Rightarrow> bool \<Rightarrow> raw_node
      \<Rightarrow> (claim_error + raw_alloc list) \<times> raw_node" where
  "claim_local rng project targets envs save_ok nd =
     (case claim_batch rng project targets envs 0 [] (rn_registry nd) of
        (None, reg) \<Rightarrow> (Inl Range_Exhausted, nd\<lparr>rn_registry := reg\<rparr>)
      | (Some (as, newly), reg) \<Rightarrow>
          if newly = [] then (Inr as, nd\<lparr>rn_registry := reg\<rparr>)
          else if save_ok then (Inr as, nd\<lparr>rn_registry := reg, rn_file := save_registry True reg (rn_file nd)\<rparr>)
          else (Inl Not_Persisted, nd\<lparr>rn_registry := rollback newly reg\<rparr>))"

section \<open>Retirement and adoption\<close>

definition retire :: "string \<times> raw_alloc \<Rightarrow> raw_registry \<Rightarrow> raw_registry" where
  "retire ka reg =
     (case ka of (k, a) \<Rightarrow>
        reg\<lparr>rr_by_key := tdel k (rr_by_key reg), rr_quarantined := insert (ra_public_port a) (rr_quarantined reg),
          rr_in_use := insert (ra_public_port a) (rr_in_use reg)\<rparr>)"

definition doomed :: "string \<Rightarrow> raw_registry \<Rightarrow> (string \<times> raw_alloc) list" where
  "doomed project reg = filter (\<lambda>(k, a). ra_project a = project) (claims_sorted reg)"

definition release_raw_ports :: "string \<Rightarrow> bool \<Rightarrow> raw_node \<Rightarrow> nat list \<times> raw_node" where
  "release_raw_ports project save_ok nd =
     (let gone = doomed project (rn_registry nd)
      in if gone = [] then ([], nd)
         else (let reg = fold retire gone (rn_registry nd)
               in (map (\<lambda>(k, a). ra_public_port a) gone, nd\<lparr>rn_registry := reg, rn_file := save_registry save_ok reg (rn_file nd)\<rparr>)))"

definition adopt_one :: "raw_alloc \<Rightarrow> raw_registry \<Rightarrow> bool \<times> raw_registry" where
  "adopt_one a reg =
     (if tget (rr_by_key reg) (key_of a) \<noteq> None then (False, reg)
      else if ra_public_port a \<in> rr_quarantined reg then (False, reg)
      else if ra_public_port a \<in> rr_in_use reg then (False, reg)
      else (True, reg\<lparr>rr_in_use := insert (ra_public_port a) (rr_in_use reg), rr_by_key := tput (key_of a) a (rr_by_key reg)\<rparr>))"

fun adopt_all :: "raw_alloc list \<Rightarrow> raw_registry \<Rightarrow> bool \<times> raw_registry" where
  "adopt_all [] reg = (False, reg)"
| "adopt_all (a # as) reg =
     (case adopt_one a reg of (c, reg1) \<Rightarrow> (case adopt_all as reg1 of (d, reg2) \<Rightarrow> (c \<or> d, reg2)))"

definition adopt_allocations :: "raw_alloc list \<Rightarrow> bool \<Rightarrow> raw_node \<Rightarrow> raw_node" where
  "adopt_allocations as save_ok nd =
     (case adopt_all as (rn_registry nd) of (changed, reg) \<Rightarrow>
        nd\<lparr>rn_registry := reg, rn_file := (if changed then save_registry save_ok reg (rn_file nd) else rn_file nd)\<rparr>)"

definition record_allocs :: "string \<Rightarrow> nat \<Rightarrow> (string \<times> fn_config) list \<Rightarrow> raw_alloc list" where
  "record_allocs project created fns =
     concat (map (\<lambda>(name, f). List.map_filter (\<lambda>spec. map_option (\<lambda>p.
       \<lparr>ra_project = project, ra_function = name, ra_container_port = pt_container_port spec, ra_protocol = pt_protocol spec,
        ra_public_port = p, ra_label = pt_label spec, ra_allocated_ms = created\<rparr>) (pt_public_port spec)) (fc_ports f)) fns)"

definition adopt_record :: "string \<Rightarrow> nat \<Rightarrow> (string \<times> fn_config) list \<Rightarrow> bool \<Rightarrow> raw_node \<Rightarrow> raw_node" where
  "adopt_record project created fns save_ok nd = adopt_allocations (record_allocs project created fns) save_ok nd"

definition raw_lookup :: "nat \<Rightarrow> raw_registry \<Rightarrow> raw_alloc option" where
  "raw_lookup port reg = find (\<lambda>a. ra_public_port a = port) (map snd (claims_sorted reg))"

definition udp_allocations :: "raw_registry \<Rightarrow> raw_alloc list" where
  "udp_allocations reg = filter (\<lambda>a. ra_protocol a = Udp) (map snd (claims_sorted reg))"

section \<open>Coordination\<close>

text \<open>The answer of the leader: none, an error, or the claims.\<close>

datatype leader_answer = No_Answer | Malformed | Refused_By_Leader string | Granted_By_Leader "raw_alloc list"

datatype coordination_error = Claim_Failed claim_error | Leader_Unreachable | Leader_Silent | Bad_Answer | Leader_Refused string | Wrong_Count

text \<open>Stamping writes the granted ports to the raw ports of the manifest in order.\<close>

fun stamp_ports :: "port_spec list \<Rightarrow> raw_alloc list \<Rightarrow> port_spec list \<times> raw_alloc list" where
  "stamp_ports [] as = ([], as)"
| "stamp_ports (spec # ps) as =
     (if needs_raw_proxy (pt_protocol spec) \<or> pt_preferred_public_port spec \<noteq> None
      then (case as of
              [] \<Rightarrow> (case stamp_ports ps [] of (qs, r) \<Rightarrow> (spec # qs, r))
            | a # r \<Rightarrow> (case stamp_ports ps r of (qs, r') \<Rightarrow> (spec\<lparr>pt_public_port := Some (ra_public_port a)\<rparr> # qs, r')))
      else (case stamp_ports ps as of (qs, r) \<Rightarrow> (spec # qs, r)))"

fun stamp :: "(string \<times> fn_config) list \<Rightarrow> raw_alloc list \<Rightarrow> (string \<times> fn_config) list" where
  "stamp [] as = []"
| "stamp ((name, f) # fns) as =
     (case stamp_ports (fc_ports f) as of (ps, r) \<Rightarrow> (name, f\<lparr>fc_ports := ps\<rparr>) # stamp fns r)"

definition allocate_raw_ports_records ::
    "nat \<times> nat \<Rightarrow> string \<Rightarrow> (string \<times> fn_config) list \<Rightarrow> (nat \<Rightarrow> claim_env) \<Rightarrow> bool \<Rightarrow> raw_node
      \<Rightarrow> (claim_error + raw_alloc list) \<times> raw_node" where
  "allocate_raw_ports_records rng project fns envs save_ok nd =
     (if raw_targets fns = [] then (Inr [], nd) else claim_local rng project (raw_targets fns) envs save_ok nd)"

definition allocate_raw_ports_coordinated ::
    "nat \<times> nat \<Rightarrow> bool \<Rightarrow> bool \<Rightarrow> leader_answer \<Rightarrow> string \<Rightarrow> (string \<times> fn_config) list \<Rightarrow> (nat \<Rightarrow> claim_env) \<Rightarrow> bool \<Rightarrow> raw_node
      \<Rightarrow> (coordination_error + nat list \<times> (string \<times> fn_config) list) \<times> raw_node" where
  "allocate_raw_ports_coordinated rng leader reachable answer project fns envs save_ok nd =
     (if raw_targets fns = [] then (Inr ([], fns), nd)
      else if leader then
        (case claim_local rng project (raw_targets fns) envs save_ok nd of
           (Inl e, nd1) \<Rightarrow> (Inl (Claim_Failed e), nd1)
         | (Inr as, nd1) \<Rightarrow> (Inr (map ra_public_port as, stamp fns as), nd1))
      else if \<not> reachable then (Inl Leader_Unreachable, nd)
      else (case answer of
              No_Answer \<Rightarrow> (Inl Leader_Silent, nd)
            | Malformed \<Rightarrow> (Inl Bad_Answer, nd)
            | Refused_By_Leader e \<Rightarrow> (Inl (Leader_Refused e), nd)
            | Granted_By_Leader as \<Rightarrow>
                if length as \<noteq> length (raw_targets fns) then (Inl Wrong_Count, nd)
                else (Inr (map ra_public_port as, stamp fns as), adopt_allocations as save_ok nd)))"

text \<open>Retirement is local first; whether the leader confirms concerns its own registry only.\<close>

definition release_raw_ports_coordinated :: "string \<Rightarrow> bool \<Rightarrow> raw_node \<Rightarrow> nat list \<times> raw_node" where
  "release_raw_ports_coordinated project save_ok nd = release_raw_ports project save_ok nd"

end
