(* ===== verification/Cloud_Raw_Ports_Props.thy ===== *)
theory Cloud_Raw_Ports_Props
  imports Cloud_Raw_Ports
begin

text \<open>
  The invariant of the port registry, the exactness of its rollback and of its file, and what they give: a port once granted is never
  granted to another service, however claims, retirements, adoptions, failed writes and restarts follow each other.
\<close>

section \<open>The invariant of the registry\<close>

definition reg_ok :: "raw_registry \<Rightarrow> bool" where
  "reg_ok reg \<longleftrightarrow>
     distinct (tkeys (rr_by_key reg)) \<and> rr_quarantined reg \<subseteq> rr_in_use reg \<and>
     (\<forall>k a. tget (rr_by_key reg) k = Some a \<longrightarrow>
        key_of a = k \<and> ra_public_port a \<in> rr_in_use reg \<and> ra_public_port a \<notin> rr_quarantined reg) \<and>
     (\<forall>k a k' a'. tget (rr_by_key reg) k = Some a \<longrightarrow> tget (rr_by_key reg) k' = Some a' \<longrightarrow>
        ra_public_port a = ra_public_port a' \<longrightarrow> k = k')"

text \<open>The same claims: everything but the cursor and the order of the table.\<close>

definition same_claims :: "raw_registry \<Rightarrow> raw_registry \<Rightarrow> bool" where
  "same_claims r r' \<longleftrightarrow>
     tget (rr_by_key r) = tget (rr_by_key r') \<and> rr_in_use r = rr_in_use r' \<and> rr_quarantined r = rr_quarantined r'"

text \<open>A port is bound to a key when it is live for that key alone, or retired.\<close>

definition live_port :: "raw_registry \<Rightarrow> nat \<Rightarrow> bool" where
  "live_port reg p \<longleftrightarrow> (\<exists>k a. tget (rr_by_key reg) k = Some a \<and> ra_public_port a = p)"

definition bound_to :: "raw_registry \<Rightarrow> nat \<Rightarrow> string \<Rightarrow> bool" where
  "bound_to reg p k \<longleftrightarrow>
     (live_port reg p \<or> p \<in> rr_quarantined reg) \<and>
     (\<forall>k' a. tget (rr_by_key reg) k' = Some a \<longrightarrow> ra_public_port a = p \<longrightarrow> k' = k)"

lemma reg_okD:
  assumes "reg_ok reg" "tget (rr_by_key reg) k = Some a"
  shows "key_of a = k" "ra_public_port a \<in> rr_in_use reg" "ra_public_port a \<notin> rr_quarantined reg"
  using assms by (auto simp add: reg_ok_def simp del: map_of_eq_Some_iff)

lemma reg_ok_ports:
  assumes "reg_ok reg" "tget (rr_by_key reg) k = Some a" "tget (rr_by_key reg) k' = Some a'" "ra_public_port a = ra_public_port a'"
  shows "k = k'"
  using assms unfolding reg_ok_def by blast

lemma reg_ok_simple: "reg_ok reg \<Longrightarrow> distinct (tkeys (rr_by_key reg))" "reg_ok reg \<Longrightarrow> rr_quarantined reg \<subseteq> rr_in_use reg"
  by (auto simp: reg_ok_def)

lemma reg_okI:
  assumes "distinct (tkeys (rr_by_key reg))" "rr_quarantined reg \<subseteq> rr_in_use reg"
    and "\<And>k a. tget (rr_by_key reg) k = Some a \<Longrightarrow>
      key_of a = k \<and> ra_public_port a \<in> rr_in_use reg \<and> ra_public_port a \<notin> rr_quarantined reg"
    and "\<And>k a k' a'. tget (rr_by_key reg) k = Some a \<Longrightarrow> tget (rr_by_key reg) k' = Some a' \<Longrightarrow>
      ra_public_port a = ra_public_port a' \<Longrightarrow> k = k'"
  shows "reg_ok reg"
  unfolding reg_ok_def using assms by blast

lemma same_claims_refl [simp]: "same_claims r r"
  by (simp add: same_claims_def)

lemma same_claims_trans: "same_claims r r' \<Longrightarrow> same_claims r' r'' \<Longrightarrow> same_claims r r''"
  by (simp add: same_claims_def)

lemma same_claims_sym: "same_claims r r' \<Longrightarrow> same_claims r' r"
  by (simp add: same_claims_def)

lemma same_claims_bound: "same_claims r r' \<Longrightarrow> bound_to r' p k \<Longrightarrow> bound_to r p k"
  by (simp add: same_claims_def bound_to_def live_port_def)

lemma bound_in_use: "reg_ok reg \<Longrightarrow> bound_to reg p k \<Longrightarrow> p \<in> rr_in_use reg"
  unfolding bound_to_def live_port_def using reg_okD(2) reg_ok_simple(2) by blast

lemma bound_live:
  assumes "reg_ok reg" "tget (rr_by_key reg) k = Some a"
  shows "bound_to reg (ra_public_port a) k"
  unfolding bound_to_def live_port_def using assms reg_ok_ports [OF assms(1)] by blast

lemma bound_unique:
  assumes "bound_to reg p k" "tget (rr_by_key reg) k' = Some a" "ra_public_port a = p"
  shows "k' = k"
  using assms unfolding bound_to_def by blast

text \<open>Within a set of claims a port has one key; against a registry, the key its ports are bound to.\<close>

definition one_key :: "raw_alloc set \<Rightarrow> bool" where
  "one_key A \<longleftrightarrow> (\<forall>a\<in>A. \<forall>b\<in>A. ra_public_port b = ra_public_port a \<longrightarrow> key_of b = key_of a)"

definition agrees :: "raw_registry \<Rightarrow> raw_alloc set \<Rightarrow> bool" where
  "agrees reg A \<longleftrightarrow> (\<forall>a\<in>A. \<forall>k. bound_to reg (ra_public_port a) k \<longrightarrow> k = key_of a)"

lemma one_key_empty [simp]: "one_key {}" "agrees reg {}"
  by (simp_all add: one_key_def agrees_def)

lemma one_key_join:
  assumes "one_key A" "one_key B" "agrees reg B" "\<forall>a\<in>A. bound_to reg (ra_public_port a) (key_of a)"
  shows "one_key (A \<union> B)"
  using assms unfolding one_key_def agrees_def by (metis Un_iff)

section \<open>The steps\<close>

text \<open>Entering a claim on a number that is not in use, with the displaced claim of the same key retired.\<close>

definition entered :: "string \<Rightarrow> raw_alloc \<Rightarrow> raw_registry \<Rightarrow> raw_registry" where
  "entered k a reg = insert_claim k a (tget (rr_by_key reg) k) reg"

lemma entered_fields:
  "rr_by_key (entered k a reg) = tput k a (rr_by_key reg)"
  "rr_in_use (entered k a reg) = insert (ra_public_port a) (rr_in_use reg)"
  "rr_quarantined (entered k a reg) =
     (case tget (rr_by_key reg) k of Some old \<Rightarrow> insert (ra_public_port old) (rr_quarantined reg) | None \<Rightarrow> rr_quarantined reg)"
  by (simp_all add: entered_def insert_claim_def Let_def split: option.splits)

lemma entered_ok:
  assumes ok: "reg_ok reg" and fresh: "ra_public_port a \<notin> rr_in_use reg" and key: "key_of a = k"
  shows "reg_ok (entered k a reg)"
proof (rule reg_okI)
  show "distinct (tkeys (rr_by_key (entered k a reg)))"
    using reg_ok_simple(1) [OF ok] by (simp add: entered_fields)
  show "rr_quarantined (entered k a reg) \<subseteq> rr_in_use (entered k a reg)"
    using reg_ok_simple(2) [OF ok] reg_okD(2) [OF ok, of k] by (auto simp: entered_fields split: option.splits)
next
  fix k' b assume b: "tget (rr_by_key (entered k a reg)) k' = Some b"
  show "key_of b = k' \<and> ra_public_port b \<in> rr_in_use (entered k a reg) \<and> ra_public_port b \<notin> rr_quarantined (entered k a reg)"
  proof (cases "k' = k")
    case True
    then have "b = a" using b by (simp add: entered_fields)
    moreover have "ra_public_port a \<notin> rr_quarantined (entered k a reg)"
      using fresh reg_ok_simple(2) [OF ok] reg_okD(2) [OF ok, of k] by (auto simp: entered_fields split: option.splits)
    ultimately show ?thesis using True key by (simp add: entered_fields)
  next
    case False
    then have b': "tget (rr_by_key reg) k' = Some b" using b by (simp add: entered_fields)
    have "ra_public_port b \<notin> rr_quarantined (entered k a reg)"
      using reg_okD(3) [OF ok b'] reg_ok_ports [OF ok b'] False by (auto simp: entered_fields split: option.splits)
    then show ?thesis using reg_okD(1,2) [OF ok b'] by (simp add: entered_fields)
  qed
next
  fix k1 a1 k2 a2
  assume "tget (rr_by_key (entered k a reg)) k1 = Some a1" "tget (rr_by_key (entered k a reg)) k2 = Some a2"
    and "ra_public_port a1 = ra_public_port a2"
  then show "k1 = k2"
    using reg_ok_ports [OF ok, of k1 a1 k2 a2] reg_okD(2) [OF ok, of k1 a1] reg_okD(2) [OF ok, of k2 a2] fresh
    by (simp add: entered_fields del: map_of_eq_Some_iff split: if_splits)
qed

lemma entered_bound:
  assumes ok: "reg_ok reg" and fresh: "ra_public_port a \<notin> rr_in_use reg" and b: "bound_to reg p k0"
  shows "bound_to (entered k a reg) p k0"
proof -
  have ne: "ra_public_port a \<noteq> p" using fresh bound_in_use [OF ok b] by blast
  have "live_port (entered k a reg) p \<or> p \<in> rr_quarantined (entered k a reg)"
  proof (cases "p \<in> rr_quarantined reg")
    case True
    then show ?thesis by (simp add: entered_fields split: option.splits)
  next
    case False
    then obtain k1 a1 where k1: "tget (rr_by_key reg) k1 = Some a1" "ra_public_port a1 = p"
      using b unfolding bound_to_def live_port_def by blast
    show ?thesis
    proof (cases "k1 = k")
      case True
      then show ?thesis using k1 by (simp add: entered_fields del: map_of_eq_Some_iff)
    next
      case False
      then have "tget (rr_by_key (entered k a reg)) k1 = Some a1" using k1(1) by (simp add: entered_fields)
      then show ?thesis using k1(2) unfolding live_port_def by blast
    qed
  qed
  moreover have "k1 = k0" if "tget (rr_by_key (entered k a reg)) k1 = Some a1" "ra_public_port a1 = p" for k1 a1
    using that ne bound_unique [OF b] by (simp add: entered_fields del: map_of_eq_Some_iff split: if_splits)
  ultimately show ?thesis unfolding bound_to_def by blast
qed

lemma entered_undone:
  assumes ok: "reg_ok reg" and fresh: "ra_public_port a \<notin> rr_in_use reg" and like: "same_claims r (entered k a reg)"
  shows "same_claims (undo_claim (k, ra_public_port a, tget (rr_by_key reg) k) r) reg"
proof (cases "tget (rr_by_key reg) k")
  case None
  then show ?thesis using like fresh
    by (auto simp add: same_claims_def undo_claim_def Let_def entered_fields fun_eq_iff simp del: map_of_eq_None_iff)
next
  case (Some old)
  note o = reg_okD [OF ok Some]
  show ?thesis using like fresh Some o
    by (auto simp add: same_claims_def undo_claim_def Let_def entered_fields fun_eq_iff simp del: map_of_eq_Some_iff)
qed

lemma undo_same: "same_claims r r' \<Longrightarrow> same_claims (undo_claim c r) (undo_claim c r')"
  by (auto simp add: same_claims_def undo_claim_def Let_def fun_eq_iff split: prod.splits option.splits)

lemma undo_fold_same: "same_claims r r' \<Longrightarrow> same_claims (fold undo_claim cs r) (fold undo_claim cs r')"
  by (induction cs arbitrary: r r') (auto intro: undo_same)

lemma rollback_same: "same_claims r r' \<Longrightarrow> same_claims (rollback cs r) (rollback cs r')"
  unfolding rollback_def by (rule undo_fold_same)

lemma rollback_snoc: "rollback (cs @ [c]) r = rollback cs (undo_claim c r)"
  by (simp add: rollback_def)

lemma rollback_distinct: "distinct (tkeys (rr_by_key r)) \<Longrightarrow> distinct (tkeys (rr_by_key (rollback cs r)))"
proof -
  have "distinct (tkeys (rr_by_key (fold undo_claim xs r)))" if "distinct (tkeys (rr_by_key r))" for xs r
    using that
  proof (induction xs arbitrary: r)
    case Nil
    then show ?case by simp
  next
    case (Cons x xs)
    have "distinct (tkeys (rr_by_key (undo_claim x r)))"
      using Cons.prems by (simp add: undo_claim_def Let_def split: prod.split option.split)
    then show ?case using Cons.IH by simp
  qed
  then show "distinct (tkeys (rr_by_key r)) \<Longrightarrow> ?thesis" by (simp add: rollback_def)
qed

lemma same_reg_ok: "same_claims r r' \<Longrightarrow> distinct (tkeys (rr_by_key r)) \<Longrightarrow> reg_ok r' \<Longrightarrow> reg_ok r"
  unfolding same_claims_def reg_ok_def by metis

text \<open>The cursor is not part of a claim.\<close>

lemma cursor_irrelevant:
  "reg_ok (reg\<lparr>rr_cursor := c\<rparr>) = reg_ok reg"
  "same_claims (reg\<lparr>rr_cursor := c\<rparr>) r = same_claims reg r"
  "bound_to (reg\<lparr>rr_cursor := c\<rparr>) p k = bound_to reg p k"
  by (simp_all add: reg_ok_def same_claims_def bound_to_def live_port_def)

section \<open>The scan\<close>

lemma scan_ports_Some: "scan_ports probe used cs = Some c \<Longrightarrow> c \<in> set cs \<and> c \<notin> used \<and> probe c"
  by (induction cs) (auto split: if_splits)

lemma scan_ports_None: "scan_ports probe used cs = None \<longleftrightarrow> (\<forall>c\<in>set cs. c \<in> used \<or> \<not> probe c)"
  by (induction cs) auto

lemma nat_mod_eq_shift:
  fixes c i j s :: nat
  assumes "(c + i) mod s = (c + j) mod s" "i < s" "j < s"
  shows "i = j"
proof -
  obtain q r where "c + i + s * q = c + j + s * r" using assms(1) unfolding nat_mod_eq_iff by blast
  then have "(i + s * q) mod s = (j + s * r) mod s" by (simp add: add.assoc)
  then show ?thesis using assms(2,3) by simp
qed

lemma rotation_covers:
  assumes "0 < (s::nat)"
  shows "(\<lambda>i. (c + i) mod s) ` {0..<s} = {0..<s}"
proof -
  have "inj_on (\<lambda>i. (c + i) mod s) {0..<s}"
  proof (rule inj_onI)
    fix i j assume "i \<in> {0..<s}" "j \<in> {0..<s}" "(c + i) mod s = (c + j) mod s"
    then show "i = j" using nat_mod_eq_shift [of c i s j] by simp
  qed
  moreover have "(\<lambda>i. (c + i) mod s) ` {0..<s} \<subseteq> {0..<s}" using assms by auto
  ultimately show ?thesis by (meson endo_inj_surj finite_atLeastLessThan)
qed

lemma candidates_set:
  assumes "lo \<le> hi" "hi < 2 ^ 16" "cursor \<le> hi - lo"
  shows "set (candidates (lo, hi) cursor) = {lo..hi}"
proof -
  let ?s = "hi - lo + 1"
  have "wadd32 cursor i mod ?s = (cursor + i) mod ?s" if "i < ?s" for i
    using that assms by (simp add: wadd32_def)
  then have "set (candidates (lo, hi) cursor) = (\<lambda>i. (lo + (cursor + i) mod ?s) mod 2 ^ 16) ` {0..<?s}"
    unfolding candidates_def Let_def prod.case set_map set_upt by (intro image_cong refl) simp
  also have "\<dots> = (\<lambda>j. (lo + j) mod 2 ^ 16) ` (\<lambda>i. (cursor + i) mod ?s) ` {0..<?s}" by (simp add: image_image)
  also have "\<dots> = (\<lambda>j. (lo + j) mod 2 ^ 16) ` {0..<?s}" by (subst rotation_covers) simp_all
  also have "\<dots> = (\<lambda>j. lo + j) ` {0..<?s}" using assms by (intro image_cong) auto
  also have "\<dots> = {lo..<lo + ?s}" by (simp add: image_add_atLeastLessThan add.commute)
  also have "\<dots> = {lo..hi}" using assms(1) by auto
  finally show ?thesis .
qed

lemma next_free_fields:
  assumes "next_free rng probe reg = Some (p, reg')"
  shows "p \<notin> rr_in_use reg" "\<exists>c. reg' = reg\<lparr>rr_cursor := c\<rparr>"
  using assms scan_ports_Some unfolding next_free_def by (auto split: option.splits)

section \<open>A batch of claims\<close>

lemma preferred_fresh: "preferred_ok env spec reg = Some p \<Longrightarrow> p \<notin> rr_in_use reg"
  by (auto simp: preferred_ok_def split: option.splits if_splits)

text \<open>What one target does to the registry: nothing, or a number that was not in use is entered under its key.\<close>

lemma claim_target_cases:
  assumes ct: "claim_target rng project (name, spec) env reg = Some (a, made, reg1)"
    and key: "key = alloc_key project name (pt_container_port spec) (pt_protocol spec)"
  obtains (standing) "made = None" "reg1 = reg" "tget (rr_by_key reg) key = Some a"
  | (granted) c where "made = Some (key, ra_public_port a, tget (rr_by_key reg) key)"
      "reg1 = entered key a (reg\<lparr>rr_cursor := c\<rparr>)" "ra_public_port a \<notin> rr_in_use reg" "key_of a = key"
proof -
  let ?pref = "preferred_ok env spec reg" and ?prior = "tget (rr_by_key reg) key"
  show ?thesis
  proof (cases "\<exists>e. ?prior = Some e \<and> (?pref = None \<or> ?pref = Some (ra_public_port e))")
    case True
    then show ?thesis using ct standing unfolding key claim_target_def Let_def by (auto simp del: map_of_eq_Some_iff)
  next
    case False
    then have no: "(case ?prior of Some e \<Rightarrow> if ?pref = None \<or> ?pref = Some (ra_public_port e) then Some e else None | None \<Rightarrow> None) = None"
      by (auto split: option.splits)
    obtain p reg0 where src: "(case ?pref of Some p \<Rightarrow> Some (p, reg) | None \<Rightarrow> next_free rng (ce_probe env) reg) = Some (p, reg0)"
      and a: "a = \<lparr>ra_project = project, ra_function = name, ra_container_port = pt_container_port spec,
               ra_protocol = pt_protocol spec, ra_public_port = p, ra_label = pt_label spec, ra_allocated_ms = ce_now env\<rparr>"
      and made: "made = Some (key, p, ?prior)" and reg1: "reg1 = insert_claim key a ?prior reg0"
      using ct no unfolding claim_target_def Let_def prod.case key [symmetric] by (auto split: option.splits)
    have "\<exists>c. reg0 = reg\<lparr>rr_cursor := c\<rparr> \<and> p \<notin> rr_in_use reg"
    proof (cases ?pref)
      case None
      then show ?thesis using src next_free_fields [of rng "ce_probe env" reg p reg0] by auto
    next
      case (Some q)
      then show ?thesis using src preferred_fresh [OF Some] by (auto intro: exI [of _ "rr_cursor reg"])
    qed
    then obtain c where c: "reg0 = reg\<lparr>rr_cursor := c\<rparr>" "p \<notin> rr_in_use reg" by blast
    show ?thesis
    proof (rule granted)
      show "made = Some (key, ra_public_port a, ?prior)" using made a by simp
      show "reg1 = entered key a (reg\<lparr>rr_cursor := c\<rparr>)" using reg1 c by (simp add: entered_def)
      show "ra_public_port a \<notin> rr_in_use reg" using a c by simp
      show "key_of a = key" using a key by (simp add: key_of_def)
    qed
  qed
qed

lemma claim_target_step:
  assumes ct: "claim_target rng project (name, spec) env reg = Some (a, made, reg1)" and ok: "reg_ok reg"
  shows "reg_ok reg1" "bound_to reg p k \<Longrightarrow> bound_to reg1 p k"
    "bound_to reg1 (ra_public_port a) (key_of a)" "tget (rr_by_key reg1) (key_of a) = Some a"
    "key_of a = alloc_key project name (pt_container_port spec) (pt_protocol spec)"
    "same_claims r reg1 \<Longrightarrow> same_claims (case made of Some c \<Rightarrow> undo_claim c r | None \<Rightarrow> r) reg"
    "made = None \<Longrightarrow> reg1 = reg" "bound_to reg (ra_public_port a) k \<Longrightarrow> k = key_of a"
proof -
  let ?key = "alloc_key project name (pt_container_port spec) (pt_protocol spec)"
  have all: "reg_ok reg1 \<and> (\<forall>p k. bound_to reg p k \<longrightarrow> bound_to reg1 p k) \<and> tget (rr_by_key reg1) (key_of a) = Some a \<and>
      key_of a = ?key \<and>
      (\<forall>r. same_claims r reg1 \<longrightarrow> same_claims (case made of Some c \<Rightarrow> undo_claim c r | None \<Rightarrow> r) reg) \<and> (made = None \<longrightarrow> reg1 = reg)"
    using ct refl [of ?key]
  proof (cases rule: claim_target_cases)
    case standing
    then show ?thesis using ok reg_okD(1) [OF ok standing(3)] by (simp del: map_of_eq_Some_iff)
  next
    case (granted c)
    let ?r0 = "reg\<lparr>rr_cursor := c\<rparr>"
    have ok0: "reg_ok ?r0" and fresh: "ra_public_port a \<notin> rr_in_use ?r0" using ok granted(3) by (simp_all add: cursor_irrelevant)
    have undo: "same_claims (undo_claim (?key, ra_public_port a, tget (rr_by_key ?r0) ?key) r) ?r0" if "same_claims r reg1" for r
      using entered_undone [OF ok0 fresh] that granted(2) by blast
    have "same_claims (undo_claim (?key, ra_public_port a, tget (rr_by_key reg) ?key) r) reg" if "same_claims r reg1" for r
      using undo [OF that] by (simp add: same_claims_def)
    moreover have "bound_to reg1 p k" if "bound_to reg p k" for p k
      using entered_bound [OF ok0 fresh] that granted(2) by (simp add: cursor_irrelevant)
    moreover have "reg_ok reg1" using entered_ok [OF ok0 fresh granted(4)] granted(2) by simp
    ultimately show ?thesis using granted by (simp add: entered_fields)
  qed
  show "reg_ok reg1" "bound_to reg p k \<Longrightarrow> bound_to reg1 p k" "tget (rr_by_key reg1) (key_of a) = Some a" "key_of a = ?key"
    "same_claims r reg1 \<Longrightarrow> same_claims (case made of Some c \<Rightarrow> undo_claim c r | None \<Rightarrow> r) reg" "made = None \<Longrightarrow> reg1 = reg"
    using all by blast+
  show "bound_to reg1 (ra_public_port a) (key_of a)" using all bound_live by blast
  assume b: "bound_to reg (ra_public_port a) k"
  show "k = key_of a"
    using ct refl [of ?key]
  proof (cases rule: claim_target_cases)
    case standing
    then show ?thesis using bound_unique [OF b standing(3) refl] reg_okD(1) [OF ok standing(3)] by simp
  next
    case granted
    then show ?thesis using bound_in_use [OF ok b] by blast
  qed
qed

definition claim_key :: "string \<Rightarrow> string \<times> port_spec \<Rightarrow> string" where
  "claim_key project t = alloc_key project (fst t) (pt_container_port (snd t)) (pt_protocol (snd t))"

lemma claim_batch_done:
  assumes "claim_batch rng project ts envs n newly reg = (Some (as, all), reg2)" "reg_ok reg"
  shows "reg_ok reg2 \<and> (\<forall>p k. bound_to reg p k \<longrightarrow> bound_to reg2 p k) \<and>
    (\<forall>a\<in>set as. bound_to reg2 (ra_public_port a) (key_of a)) \<and> map key_of as = map (claim_key project) ts \<and>
    (\<forall>r. same_claims r reg2 \<longrightarrow> same_claims (rollback all r) (rollback newly reg)) \<and>
    (\<exists>zs. all = newly @ zs \<and> (zs = [] \<longrightarrow> reg2 = reg \<and> (\<forall>a\<in>set as. tget (rr_by_key reg) (key_of a) = Some a))) \<and>
    agrees reg (set as) \<and>
    one_key (set as)"
  using assms
proof (induction ts arbitrary: n newly reg as all)
  case Nil
  then show ?case by (simp add: rollback_same)
next
  case (Cons t ts)
  obtain name spec where t: "t = (name, spec)" by (cases t)
  obtain a made reg1 as' where ct: "claim_target rng project (name, spec) (envs n) reg = Some (a, made, reg1)"
    and cb: "claim_batch rng project ts envs (Suc n) (newly @ (case made of Some c \<Rightarrow> [c] | None \<Rightarrow> [])) reg1 = (Some (as', all), reg2)"
    and as: "as = a # as'"
    using Cons.prems(1) unfolding t claim_batch.simps by (auto split: option.splits prod.splits)
  note st = claim_target_step [OF ct Cons.prems(2)]
  let ?newly = "newly @ (case made of Some c \<Rightarrow> [c] | None \<Rightarrow> [])"
  note ih = Cons.IH [OF cb st(1)]
  have "same_claims (rollback all r) (rollback newly reg)" if r: "same_claims r reg2" for r
  proof -
    have "same_claims (rollback all r) (rollback ?newly reg1)" using ih r by blast
    moreover have "same_claims (rollback ?newly reg1) (rollback newly reg)"
      using st(6) [OF same_claims_refl] by (cases made) (simp_all add: rollback_snoc rollback_same)
    ultimately show ?thesis by (rule same_claims_trans)
  qed
  moreover have "\<exists>zs. all = newly @ zs \<and>
      (zs = [] \<longrightarrow> reg2 = reg \<and> (\<forall>a\<in>set as. tget (rr_by_key reg) (key_of a) = Some a))"
    using ih st(4,7) as by (cases made) (auto simp del: map_of_eq_Some_iff)
  moreover have "agrees reg (set as)"
    using ih st(2,8) unfolding as agrees_def by auto
  moreover have "one_key (set as)"
  proof -
    have "one_key ({a} \<union> set as')"
      using ih st(3) by (intro one_key_join [where reg = reg1]) (simp_all add: one_key_def [of "{_}"])
    then show ?thesis by (simp add: as)
  qed
  ultimately show ?case using ih st(2,3,5) t as by (simp add: claim_key_def)
qed

lemma claim_batch_failed:
  assumes "claim_batch rng project ts envs n newly reg = (None, reg2)" "reg_ok reg"
  shows "same_claims reg2 (rollback newly reg) \<and> distinct (tkeys (rr_by_key reg2))"
  using assms
proof (induction ts arbitrary: n newly reg)
  case Nil
  then show ?case by simp
next
  case (Cons t ts)
  obtain name spec where t: "t = (name, spec)" by (cases t)
  show ?case
  proof (cases "claim_target rng project (name, spec) (envs n) reg")
    case None
    then show ?thesis using Cons.prems(1) t rollback_distinct [OF reg_ok_simple(1) [OF Cons.prems(2)]] by auto
  next
    case (Some x)
    obtain a made reg1 where x: "x = (a, made, reg1)" by (cases x)
    let ?newly = "newly @ (case made of Some c \<Rightarrow> [c] | None \<Rightarrow> [])"
    note ct = Some [unfolded x]
    note st = claim_target_step [OF ct Cons.prems(2)]
    have "claim_batch rng project ts envs (Suc n) ?newly reg1 = (None, reg2)"
      using Cons.prems(1) ct unfolding t by (auto split: option.splits prod.splits)
    then have "same_claims reg2 (rollback ?newly reg1) \<and> distinct (tkeys (rr_by_key reg2))" by (rule Cons.IH [OF _ st(1)])
    moreover have "same_claims (rollback ?newly reg1) (rollback newly reg)"
      using st(6) [OF same_claims_refl] by (cases made) (simp_all add: rollback_snoc rollback_same)
    ultimately show ?thesis using same_claims_trans by blast
  qed
qed

section \<open>The file\<close>

lemma claims_sorted_props:
  assumes "distinct (tkeys (rr_by_key reg))"
  shows "set (claims_sorted reg) = set (rr_by_key reg)" "distinct (map fst (claims_sorted reg))"
    "(k, a) \<in> set (claims_sorted reg) \<longleftrightarrow> tget (rr_by_key reg) k = Some a"
proof -
  have m: "mset (map fst (claims_sorted reg)) = mset (tkeys (rr_by_key reg))"
    by (simp add: claims_sorted_def mset_map)
  show "set (claims_sorted reg) = set (rr_by_key reg)" by (simp add: claims_sorted_def)
  show "distinct (map fst (claims_sorted reg))" using m assms by (metis mset_eq_imp_distinct_iff)
  show "(k, a) \<in> set (claims_sorted reg) \<longleftrightarrow> tget (rr_by_key reg) k = Some a"
    using assms by (simp add: claims_sorted_def)
qed

lemma load_fold:
  assumes "distinct (map ra_public_port as)" "distinct (map key_of as)"
    and "\<forall>a\<in>set as. ra_public_port a \<notin> rr_in_use reg" "\<forall>a\<in>set as. tget (rr_by_key reg) (key_of a) = None"
  shows "rr_in_use (fold load_claim as reg) = rr_in_use reg \<union> ra_public_port ` set as"
    "rr_quarantined (fold load_claim as reg) = rr_quarantined reg"
    "tget (rr_by_key (fold load_claim as reg)) k = Some a \<longleftrightarrow> a \<in> set as \<and> key_of a = k \<or> tget (rr_by_key reg) k = Some a"
proof -
  have "rr_in_use (fold load_claim as reg) = rr_in_use reg \<union> ra_public_port ` set as \<and>
    rr_quarantined (fold load_claim as reg) = rr_quarantined reg \<and>
    (tget (rr_by_key (fold load_claim as reg)) k = Some a \<longleftrightarrow> a \<in> set as \<and> key_of a = k \<or> tget (rr_by_key reg) k = Some a)"
    using assms
  proof (induction as arbitrary: reg)
    case Nil
    then show ?case by simp
  next
    case (Cons b bs)
    have lb: "load_claim b reg = reg\<lparr>rr_in_use := insert (ra_public_port b) (rr_in_use reg), rr_by_key := tput (key_of b) b (rr_by_key reg)\<rparr>"
      using Cons.prems(3) by (simp add: load_claim_def)
    have nb: "tget (rr_by_key reg) (key_of b) = None" using Cons.prems(4) by simp
    have "\<forall>x\<in>set bs. ra_public_port x \<notin> rr_in_use (load_claim b reg)" using Cons.prems(1,3) by (force simp: lb image_iff)
    moreover have "\<forall>x\<in>set bs. tget (rr_by_key (load_claim b reg)) (key_of x) = None"
      using Cons.prems(2,4) by (force simp add: lb image_iff simp del: map_of_eq_None_iff)
    ultimately show ?case using Cons.IH [of "load_claim b reg"] Cons.prems(1,2) nb
      by (auto simp add: lb simp del: map_of_eq_Some_iff map_of_eq_None_iff split: if_splits)
  qed
  then show "rr_in_use (fold load_claim as reg) = rr_in_use reg \<union> ra_public_port ` set as"
    "rr_quarantined (fold load_claim as reg) = rr_quarantined reg"
    "tget (rr_by_key (fold load_claim as reg)) k = Some a \<longleftrightarrow> a \<in> set as \<and> key_of a = k \<or> tget (rr_by_key reg) k = Some a"
    by blast+
qed

text \<open>Whatever the file holds, the registry loaded from it is well formed.\<close>

lemma load_claim_ok:
  assumes ok: "reg_ok reg"
  shows "reg_ok (load_claim a reg)"
proof (cases "ra_public_port a \<in> rr_in_use reg")
  case True
  then show ?thesis using ok by (simp add: load_claim_def)
next
  case False
  have fresh: "ra_public_port b \<noteq> ra_public_port a" if "tget (rr_by_key reg) k = Some b" for k b
    using reg_okD(2) [OF ok that] False by metis
  have l: "load_claim a reg =
      reg\<lparr>rr_in_use := insert (ra_public_port a) (rr_in_use reg), rr_by_key := tput (key_of a) a (rr_by_key reg)\<rparr>"
    using False by (simp add: load_claim_def)
  have q: "ra_public_port a \<notin> rr_quarantined reg" using reg_ok_simple(2) [OF ok] False by blast
  show ?thesis
  proof (rule reg_okI)
    show "distinct (tkeys (rr_by_key (load_claim a reg)))" using reg_ok_simple(1) [OF ok] by (simp add: l)
    show "rr_quarantined (load_claim a reg) \<subseteq> rr_in_use (load_claim a reg)" using reg_ok_simple(2) [OF ok] by (auto simp: l)
  next
    fix k b assume "tget (rr_by_key (load_claim a reg)) k = Some b"
    then show "key_of b = k \<and> ra_public_port b \<in> rr_in_use (load_claim a reg) \<and> ra_public_port b \<notin> rr_quarantined (load_claim a reg)"
      using q reg_okD [OF ok, of k b] by (simp add: l del: map_of_eq_Some_iff split: if_splits)
  next
    fix k b k' b'
    assume "tget (rr_by_key (load_claim a reg)) k = Some b" "tget (rr_by_key (load_claim a reg)) k' = Some b'"
      and "ra_public_port b = ra_public_port b'"
    then show "k = k'" using fresh [of k b] fresh [of k' b'] reg_ok_ports [OF ok, of k b k' b']
      by (simp add: l del: map_of_eq_Some_iff split: if_splits)
  qed
qed

lemma load_ok: "reg_ok (registry_load file)"
proof -
  have "reg_ok (fold load_claim as reg)" if "reg_ok reg" for as reg
    using that
  proof (induction as arbitrary: reg)
    case Nil
    then show ?case by simp
  next
    case (Cons a as)
    then show ?case using Cons.IH [OF load_claim_ok [OF Cons.prems]] by simp
  qed
  moreover have "reg_ok \<lparr>rr_by_key = [], rr_in_use = q, rr_quarantined = q, rr_cursor = 0\<rparr>" for q by (simp add: reg_ok_def)
  ultimately show ?thesis unfolding registry_load_def by (simp split: option.split)
qed

lemma map_same: "(\<And>k a. m k = Some a \<longleftrightarrow> m' k = Some a) \<Longrightarrow> m = m'"
  by (rule ext) (metis not_Some_eq)

text \<open>Loading what was saved gives the claims back.\<close>

lemma load_saved:
  assumes ok: "reg_ok reg"
  shows "tget (rr_by_key (registry_load (Some (registry_file_of reg)))) = tget (rr_by_key reg)"
    "rr_quarantined (registry_load (Some (registry_file_of reg))) = rr_quarantined reg"
    "reg_ok (registry_load (Some (registry_file_of reg)))"
proof -
  let ?as = "map snd (claims_sorted reg)"
  let ?r0 = "\<lparr>rr_by_key = [], rr_in_use = rr_quarantined reg, rr_quarantined = rr_quarantined reg, rr_cursor = 0\<rparr>"
  note cs = claims_sorted_props [OF reg_ok_simple(1) [OF ok]]
  have L: "registry_load (Some (registry_file_of reg)) = fold load_claim ?as ?r0"
    by (simp add: registry_load_def registry_file_of_def)
  have keys: "map key_of ?as = map fst (claims_sorted reg)"
    using cs(3) reg_okD(1) [OF ok] by (auto simp del: map_of_eq_Some_iff)
  have dk: "distinct (map key_of ?as)" unfolding keys by (rule cs(2))
  have "inj_on ra_public_port (set ?as)"
    using cs(3) reg_okD(1) [OF ok] reg_ok_ports [OF ok] cs(2)
    by (intro inj_onI) (auto simp del: map_of_eq_Some_iff, metis option.inject)
  moreover have "distinct ?as" using dk distinct_map by blast
  ultimately have dp: "distinct (map ra_public_port ?as)" using distinct_map by blast
  have nq: "\<forall>a\<in>set ?as. ra_public_port a \<notin> rr_in_use ?r0"
    using cs(3) reg_okD(3) [OF ok] by (auto simp del: map_of_eq_Some_iff)
  have nk: "\<forall>a\<in>set ?as. tget (rr_by_key ?r0) (key_of a) = None" by simp
  note lf = load_fold [OF dp dk nq nk]
  have get: "tget (rr_by_key (fold load_claim ?as ?r0)) k = Some a \<longleftrightarrow> tget (rr_by_key reg) k = Some a" for k a
  proof -
    have "tget (rr_by_key (fold load_claim ?as ?r0)) k = Some a \<longleftrightarrow> a \<in> set ?as \<and> key_of a = k" using lf(3) by simp
    also have "\<dots> \<longleftrightarrow> tget (rr_by_key reg) k = Some a"
      using cs(3) reg_okD(1) [OF ok] by (force simp del: map_of_eq_Some_iff)
    finally show ?thesis .
  qed
  then show gets: "tget (rr_by_key (registry_load (Some (registry_file_of reg)))) = tget (rr_by_key reg)"
    unfolding L by (rule map_same)
  show quar: "rr_quarantined (registry_load (Some (registry_file_of reg))) = rr_quarantined reg" using lf(2) L by simp
  show "reg_ok (registry_load (Some (registry_file_of reg)))" by (rule load_ok)
qed

lemma load_saved_bound:
  assumes "reg_ok reg"
  shows "bound_to (registry_load (Some (registry_file_of reg))) p k \<longleftrightarrow> bound_to reg p k"
  using load_saved [OF assms] by (simp add: bound_to_def live_port_def)

section \<open>Retirement and adoption\<close>

lemma retire_step:
  assumes ok: "reg_ok reg" and k: "tget (rr_by_key reg) k = Some a"
  shows "reg_ok (retire (k, a) reg)" "bound_to reg p k0 \<Longrightarrow> bound_to (retire (k, a) reg) p k0"
    "tget (rr_by_key (retire (k, a) reg)) k' = (if k' = k then None else tget (rr_by_key reg) k')"
    "ra_public_port a \<in> rr_quarantined (retire (k, a) reg)" "rr_quarantined reg \<subseteq> rr_quarantined (retire (k, a) reg)"
proof -
  have f: "rr_by_key (retire (k, a) reg) = tdel k (rr_by_key reg)"
    "rr_quarantined (retire (k, a) reg) = insert (ra_public_port a) (rr_quarantined reg)"
    "rr_in_use (retire (k, a) reg) = insert (ra_public_port a) (rr_in_use reg)" by (simp_all add: retire_def)
  show "tget (rr_by_key (retire (k, a) reg)) k' = (if k' = k then None else tget (rr_by_key reg) k')" by (simp add: f)
  show "ra_public_port a \<in> rr_quarantined (retire (k, a) reg)" "rr_quarantined reg \<subseteq> rr_quarantined (retire (k, a) reg)"
    by (auto simp: f)
  show "reg_ok (retire (k, a) reg)"
  proof (rule reg_okI)
    show "distinct (tkeys (rr_by_key (retire (k, a) reg)))" using reg_ok_simple(1) [OF ok] by (simp add: f)
    show "rr_quarantined (retire (k, a) reg) \<subseteq> rr_in_use (retire (k, a) reg)" using reg_ok_simple(2) [OF ok] by (auto simp: f)
  next
    fix k1 b assume "tget (rr_by_key (retire (k, a) reg)) k1 = Some b"
    then have b: "tget (rr_by_key reg) k1 = Some b" "k1 \<noteq> k" by (simp_all add: f del: map_of_eq_Some_iff split: if_splits)
    then show "key_of b = k1 \<and> ra_public_port b \<in> rr_in_use (retire (k, a) reg) \<and> ra_public_port b \<notin> rr_quarantined (retire (k, a) reg)"
      using reg_okD [OF ok b(1)] reg_ok_ports [OF ok b(1) k] by (auto simp: f)
  next
    fix k1 b k2 c
    assume "tget (rr_by_key (retire (k, a) reg)) k1 = Some b" "tget (rr_by_key (retire (k, a) reg)) k2 = Some c"
      and "ra_public_port b = ra_public_port c"
    then show "k1 = k2" using reg_ok_ports [OF ok, of k1 b k2 c] by (simp add: f del: map_of_eq_Some_iff split: if_splits)
  qed
  assume b: "bound_to reg p k0"
  have "live_port (retire (k, a) reg) p \<or> p \<in> rr_quarantined (retire (k, a) reg)"
  proof (cases "p \<in> rr_quarantined reg \<or> p = ra_public_port a")
    case True
    then show ?thesis by (auto simp: f)
  next
    case False
    then obtain k1 b1 where k1: "tget (rr_by_key reg) k1 = Some b1" "ra_public_port b1 = p"
      using b unfolding bound_to_def live_port_def by blast
    then have "k1 \<noteq> k" using False k by auto
    then have "tget (rr_by_key (retire (k, a) reg)) k1 = Some b1" using k1 by (simp add: f)
    then show ?thesis using k1(2) unfolding live_port_def by blast
  qed
  moreover have "k1 = k0" if "tget (rr_by_key (retire (k, a) reg)) k1 = Some b1" "ra_public_port b1 = p" for k1 b1
    using that bound_unique [OF b] by (simp add: f del: map_of_eq_Some_iff split: if_splits)
  ultimately show "bound_to (retire (k, a) reg) p k0" unfolding bound_to_def by blast
qed

lemma retire_fold:
  assumes "reg_ok reg" "distinct (map fst gone)" "\<forall>(k, a)\<in>set gone. tget (rr_by_key reg) k = Some a"
  shows "reg_ok (fold retire gone reg) \<and> (\<forall>p k0. bound_to reg p k0 \<longrightarrow> bound_to (fold retire gone reg) p k0) \<and>
    (\<forall>k. tget (rr_by_key (fold retire gone reg)) k = (if k \<in> fst ` set gone then None else tget (rr_by_key reg) k)) \<and>
    (\<forall>(k, a)\<in>set gone. ra_public_port a \<in> rr_quarantined (fold retire gone reg)) \<and>
    rr_quarantined reg \<subseteq> rr_quarantined (fold retire gone reg)"
  using assms
proof (induction gone arbitrary: reg)
  case Nil
  then show ?case by simp
next
  case (Cons x gone)
  obtain k a where x: "x = (k, a)" by (cases x)
  have ka: "tget (rr_by_key reg) k = Some a" using Cons.prems(3) x by simp
  note st = retire_step [OF Cons.prems(1) ka]
  have "\<forall>(k', a')\<in>set gone. tget (rr_by_key (retire (k, a) reg)) k' = Some a'"
    using Cons.prems(2,3) x st(3) by (force simp del: map_of_eq_Some_iff)
  note ih = Cons.IH [OF st(1) _ this]
  have d: "distinct (map fst gone)" "k \<notin> fst ` set gone" using Cons.prems(2) x by simp_all
  show ?case using ih [OF d(1)] st d(2) x by (auto simp del: map_of_eq_Some_iff)
qed

lemma doomed_props:
  assumes "reg_ok reg"
  shows "distinct (map fst (doomed project reg))"
    "(k, a) \<in> set (doomed project reg) \<longleftrightarrow> tget (rr_by_key reg) k = Some a \<and> ra_project a = project"
  using claims_sorted_props [OF reg_ok_simple(1) [OF assms]] 
  by (auto simp add: doomed_def distinct_map_filter simp del: map_of_eq_Some_iff)

lemma release_step:
  assumes ok: "reg_ok (rn_registry nd)" and r: "release_raw_ports project save_ok nd = (ports, nd')"
  shows "reg_ok (rn_registry nd')" "bound_to (rn_registry nd) p k \<Longrightarrow> bound_to (rn_registry nd') p k"
    "tget (rr_by_key (rn_registry nd')) k = Some a \<longleftrightarrow> tget (rr_by_key (rn_registry nd)) k = Some a \<and> ra_project a \<noteq> project"
    "p \<in> set ports \<longleftrightarrow> (\<exists>k a. tget (rr_by_key (rn_registry nd)) k = Some a \<and> ra_project a = project \<and> ra_public_port a = p)"
    "set ports \<subseteq> rr_quarantined (rn_registry nd')" "rr_quarantined (rn_registry nd) \<subseteq> rr_quarantined (rn_registry nd')"
    "rn_file nd' = rn_file nd \<or> rn_file nd' = Some (registry_file_of (rn_registry nd'))"
proof -
  let ?gone = "doomed project (rn_registry nd)"
  note dp = doomed_props [OF ok, where project = project]
  have all: "\<forall>(k, a)\<in>set ?gone. tget (rr_by_key (rn_registry nd)) k = Some a"
    using dp(2) by (auto simp del: map_of_eq_Some_iff)
  note f = retire_fold [OF ok dp(1) all]
  have R: "rn_registry nd' = fold retire ?gone (rn_registry nd)" and ports: "ports = map (\<lambda>(k, a). ra_public_port a) ?gone"
    using r by (auto simp: release_raw_ports_def Let_def split: if_splits)
  show "reg_ok (rn_registry nd')" "bound_to (rn_registry nd) p k \<Longrightarrow> bound_to (rn_registry nd') p k"
    "rr_quarantined (rn_registry nd) \<subseteq> rr_quarantined (rn_registry nd')"
    using f R by simp_all
  show "set ports \<subseteq> rr_quarantined (rn_registry nd')" using f unfolding R ports by auto
  show "p \<in> set ports \<longleftrightarrow> (\<exists>k a. tget (rr_by_key (rn_registry nd)) k = Some a \<and> ra_project a = project \<and> ra_public_port a = p)"
    using dp(2) unfolding ports by (force simp del: map_of_eq_Some_iff)
  show "tget (rr_by_key (rn_registry nd')) k = Some a \<longleftrightarrow> tget (rr_by_key (rn_registry nd)) k = Some a \<and> ra_project a \<noteq> project"
  proof -
    have get: "tget (rr_by_key (rn_registry nd')) k = (if k \<in> fst ` set ?gone then None else tget (rr_by_key (rn_registry nd)) k)"
      unfolding R using f by (elim conjE allE)
    have mem: "k \<in> fst ` set ?gone \<longleftrightarrow> (\<exists>b. tget (rr_by_key (rn_registry nd)) k = Some b \<and> ra_project b = project)"
      using dp(2) by (force simp del: map_of_eq_Some_iff)
    show ?thesis
    proof (cases "k \<in> fst ` set ?gone")
      case True
      then obtain b where "tget (rr_by_key (rn_registry nd)) k = Some b" "ra_project b = project" using mem by blast
      then show ?thesis using get True by auto
    next
      case False
      then have ne: "ra_project a \<noteq> project" if "tget (rr_by_key (rn_registry nd)) k = Some a" using that mem by blast
      have "tget (rr_by_key (rn_registry nd')) k = tget (rr_by_key (rn_registry nd)) k" using get False by (simp only: if_False)
      then show ?thesis using ne by metis
    qed
  qed
  show "rn_file nd' = rn_file nd \<or> rn_file nd' = Some (registry_file_of (rn_registry nd'))"
    using r by (auto simp: release_raw_ports_def Let_def save_registry_def split: if_splits)
qed

lemma adopt_one_step:
  assumes ok: "reg_ok reg" and ad: "adopt_one a reg = (c, reg')"
  shows "reg_ok reg'" "bound_to reg p k \<Longrightarrow> bound_to reg' p k" "\<not> c \<Longrightarrow> reg' = reg"
proof -
  have "(\<not> c \<and> reg' = reg) \<or> (ra_public_port a \<notin> rr_in_use reg \<and> reg' = entered (key_of a) a reg)"
    using ad by (auto simp add: adopt_one_def entered_def insert_claim_def Let_def simp del: map_of_eq_None_iff split: if_splits)
  then show "reg_ok reg'" "bound_to reg p k \<Longrightarrow> bound_to reg' p k" using entered_ok [OF ok _ refl] entered_bound [OF ok] ok by auto
  show "\<not> c \<Longrightarrow> reg' = reg" using ad by (auto simp: adopt_one_def split: if_splits)
qed

lemma adopt_all_step:
  assumes "reg_ok reg" "adopt_all as reg = (c, reg')"
  shows "reg_ok reg' \<and> (\<forall>p k. bound_to reg p k \<longrightarrow> bound_to reg' p k) \<and> (\<not> c \<longrightarrow> reg' = reg)"
  using assms
proof (induction as arbitrary: reg c)
  case Nil
  then show ?case by simp
next
  case (Cons a as)
  obtain c1 reg1 where a: "adopt_one a reg = (c1, reg1)" by fastforce
  obtain c2 where b: "adopt_all as reg1 = (c2, reg')" "c = (c1 \<or> c2)" using Cons.prems(2) a by (auto split: prod.splits)
  note st = adopt_one_step [OF Cons.prems(1) a]
  show ?case using Cons.IH [OF st(1) b(1)] st b(2) by auto
qed

section \<open>Claims of a node\<close>

lemma claim_local_cases:
  assumes ok: "reg_ok (rn_registry nd)" and cl: "claim_local rng project targets envs save_ok nd = (r, nd')"
  shows "case r of
      Inl e \<Rightarrow> same_claims (rn_registry nd') (rn_registry nd) \<and> reg_ok (rn_registry nd') \<and> rn_file nd' = rn_file nd
    | Inr as \<Rightarrow> reg_ok (rn_registry nd') \<and> (\<forall>p k. bound_to (rn_registry nd) p k \<longrightarrow> bound_to (rn_registry nd') p k) \<and>
        (\<forall>a\<in>set as. bound_to (rn_registry nd') (ra_public_port a) (key_of a)) \<and> map key_of as = map (claim_key project) targets \<and>
        agrees (rn_registry nd) (set as) \<and>
        one_key (set as) \<and>
        (nd' = nd \<and> (\<forall>a\<in>set as. tget (rr_by_key (rn_registry nd)) (key_of a) = Some a) \<or>
         rn_file nd' = Some (registry_file_of (rn_registry nd')))"
proof -
  obtain ans reg where cb: "claim_batch rng project targets envs 0 [] (rn_registry nd) = (ans, reg)" by fastforce
  show ?thesis
  proof (cases ans)
    case None
    then have "same_claims reg (rn_registry nd)" "distinct (tkeys (rr_by_key reg))"
      using claim_batch_failed [of rng project targets envs 0 "[]" "rn_registry nd" reg] ok cb by (simp_all add: rollback_def)
    moreover have "r = Inl Range_Exhausted" "nd' = nd\<lparr>rn_registry := reg\<rparr>" using cl cb None by (simp_all add: claim_local_def)
    ultimately show ?thesis using same_reg_ok ok by simp
  next
    case (Some x)
    obtain as newly where x: "x = (as, newly)" by (cases x)
    note d = claim_batch_done [OF cb [unfolded Some x] ok]
    have run: "claim_local rng project targets envs save_ok nd =
        (if newly = [] then (Inr as, nd\<lparr>rn_registry := reg\<rparr>)
         else if save_ok then (Inr as, nd\<lparr>rn_registry := reg, rn_file := save_registry True reg (rn_file nd)\<rparr>)
         else (Inl Not_Persisted, nd\<lparr>rn_registry := rollback newly reg\<rparr>))"
      using cb Some x by (simp add: claim_local_def)
    consider (none) "newly = []" | (saved) "newly \<noteq> []" save_ok | (failed) "newly \<noteq> []" "\<not> save_ok" by blast
    then show ?thesis
    proof cases
      case none
      then have same: "reg = rn_registry nd" "\<forall>a\<in>set as. tget (rr_by_key (rn_registry nd)) (key_of a) = Some a"
        using d by (simp_all del: map_of_eq_Some_iff)
      then have r: "r = Inr as" "nd' = nd" using cl run none by simp_all
      show ?thesis unfolding r sum.case using d same by blast
    next
      case saved
      then have "r = Inr as" "nd' = nd\<lparr>rn_registry := reg, rn_file := Some (registry_file_of reg)\<rparr>"
        using cl run by (simp_all add: save_registry_def)
      then show ?thesis using d by simp
    next
      case failed
      then have r: "r = Inl Not_Persisted" "nd' = nd\<lparr>rn_registry := rollback newly reg\<rparr>" using cl run by simp_all
      have "same_claims (rollback newly reg) (rollback [] (rn_registry nd))" using d same_claims_refl by blast
      then have sc: "same_claims (rollback newly reg) (rn_registry nd)" by (simp add: rollback_def)
      have "distinct (tkeys (rr_by_key reg))" using d reg_ok_simple(1) by blast
      then have "reg_ok (rollback newly reg)" using same_reg_ok [OF sc rollback_distinct ok] by blast
      then show ?thesis using sc r by simp
    qed
  qed
qed

section \<open>Runs\<close>

text \<open>What can happen on the node that grants: a claim, the retirement of a project, an adoption of claims made elsewhere or restored
  from a record, and a restart. The flags say whether the file could be written.\<close>

datatype raw_event =
    Claim_Ports string "(string \<times> port_spec) list" "nat \<Rightarrow> claim_env" bool
  | Retire_Project string bool
  | Adopt_Claims "raw_alloc list" bool
  | Restart_Node

definition raw_step :: "nat \<times> nat \<Rightarrow> raw_event \<Rightarrow> raw_node \<Rightarrow> raw_alloc list \<times> raw_node" where
  "raw_step rng e nd =
     (case e of
        Claim_Ports project targets envs save_ok \<Rightarrow>
          (case claim_local rng project targets envs save_ok nd of (Inl _, nd1) \<Rightarrow> ([], nd1) | (Inr as, nd1) \<Rightarrow> (as, nd1))
      | Retire_Project project save_ok \<Rightarrow> ([], snd (release_raw_ports project save_ok nd))
      | Adopt_Claims as save_ok \<Rightarrow> ([], adopt_allocations as save_ok nd)
      | Restart_Node \<Rightarrow> ([], nd\<lparr>rn_registry := registry_load (rn_file nd)\<rparr>))"

fun raw_run :: "nat \<times> nat \<Rightarrow> raw_event list \<Rightarrow> raw_node \<Rightarrow> raw_alloc list \<times> raw_node" where
  "raw_run rng [] nd = ([], nd)"
| "raw_run rng (e # es) nd =
     (case raw_step rng e nd of (as, nd1) \<Rightarrow> (case raw_run rng es nd1 of (bs, nd2) \<Rightarrow> (as @ bs, nd2)))"

definition boot_node :: "registry_file option \<Rightarrow> raw_node" where
  "boot_node file = \<lparr>rn_registry = registry_load file, rn_file = file\<rparr>"

fun adoption_written :: "raw_event \<Rightarrow> bool" where
  "adoption_written (Adopt_Claims as save_ok) = save_ok"
| "adoption_written _ = True"

text \<open>What was granted is bound in memory and on disk, and what is live in memory is bound on disk.\<close>

definition grants_ok :: "raw_alloc set \<Rightarrow> raw_node \<Rightarrow> bool" where
  "grants_ok granted nd \<longleftrightarrow>
     reg_ok (rn_registry nd) \<and>
     (\<forall>a\<in>granted. bound_to (rn_registry nd) (ra_public_port a) (key_of a) \<and>
        bound_to (registry_load (rn_file nd)) (ra_public_port a) (key_of a)) \<and>
     (\<forall>k a. tget (rr_by_key (rn_registry nd)) k = Some a \<longrightarrow> bound_to (registry_load (rn_file nd)) (ra_public_port a) k) \<and>
     one_key granted"

lemma grants_boot: "grants_ok {} (boot_node file)"
  using bound_live [OF load_ok] by (simp add: grants_ok_def boot_node_def load_ok)

lemma grants_saved:
  assumes "reg_ok reg" "\<forall>a\<in>granted. bound_to reg (ra_public_port a) (key_of a)"
    "rn_registry nd = reg" "rn_file nd = Some (registry_file_of reg)"
    "one_key granted"
  shows "grants_ok granted nd"
  using assms bound_live [OF assms(1)] by (simp add: grants_ok_def load_saved_bound)

lemma grants_same:
  assumes "grants_ok granted nd" "same_claims (rn_registry nd') (rn_registry nd)" "reg_ok (rn_registry nd')" "rn_file nd' = rn_file nd"
  shows "grants_ok granted nd'"
  using assms unfolding grants_ok_def by (simp add: same_claims_def bound_to_def live_port_def)

lemma adopt_allocations_step:
  assumes ok: "reg_ok (rn_registry nd)"
  shows "reg_ok (rn_registry (adopt_allocations as save_ok nd))"
    "bound_to (rn_registry nd) p k \<Longrightarrow> bound_to (rn_registry (adopt_allocations as save_ok nd)) p k"
    "save_ok \<Longrightarrow> adopt_allocations as save_ok nd = nd \<or>
      rn_file (adopt_allocations as save_ok nd) = Some (registry_file_of (rn_registry (adopt_allocations as save_ok nd)))"
proof -
  obtain c reg where ad: "adopt_all as (rn_registry nd) = (c, reg)" by fastforce
  have new: "adopt_allocations as save_ok nd =
      nd\<lparr>rn_registry := reg, rn_file := (if c then save_registry save_ok reg (rn_file nd) else rn_file nd)\<rparr>"
    using ad by (simp add: adopt_allocations_def)
  note st = adopt_all_step [OF ok ad]
  show "reg_ok (rn_registry (adopt_allocations as save_ok nd))"
    "bound_to (rn_registry nd) p k \<Longrightarrow> bound_to (rn_registry (adopt_allocations as save_ok nd)) p k"
    using st new by simp_all
  show "adopt_allocations as save_ok nd = nd \<or>
      rn_file (adopt_allocations as save_ok nd) = Some (registry_file_of (rn_registry (adopt_allocations as save_ok nd)))" if save_ok
    using st new that by (cases c) (simp_all add: save_registry_def)
qed

lemma raw_step_grants:
  assumes g: "grants_ok granted nd" and st: "raw_step rng e nd = (as, nd')" and w: "adoption_written e"
  shows "grants_ok (granted \<union> set as) nd'"
proof -
  have ok: "reg_ok (rn_registry nd)"
    and mem: "\<forall>a\<in>granted. bound_to (rn_registry nd) (ra_public_port a) (key_of a)"
    and disk: "\<forall>a\<in>granted. bound_to (registry_load (rn_file nd)) (ra_public_port a) (key_of a)"
    and live: "\<And>k a. tget (rr_by_key (rn_registry nd)) k = Some a \<Longrightarrow> bound_to (registry_load (rn_file nd)) (ra_public_port a) k"
    and pairs: "one_key granted"
    using g unfolding grants_ok_def by blast+
  show ?thesis
  proof (cases e)
    case (Claim_Ports project targets envs save_ok)
    obtain r nd1 where cl: "claim_local rng project targets envs save_ok nd = (r, nd1)" by fastforce
    note c = claim_local_cases [OF ok cl]
    show ?thesis
    proof (cases r)
      case (Inl err)
      then have "as = []" "nd' = nd1" using st cl Claim_Ports by (simp_all add: raw_step_def)
      then show ?thesis using grants_same [OF g] c Inl by simp
    next
      case (Inr bs)
      then have r: "as = bs" "nd' = nd1" using st cl Claim_Ports by (simp_all add: raw_step_def)
      have ok1: "reg_ok (rn_registry nd1)" and all: "\<forall>a\<in>granted \<union> set bs. bound_to (rn_registry nd1) (ra_public_port a) (key_of a)"
        using c Inr mem by auto
      have "agrees (rn_registry nd) (set bs)" "one_key (set bs)" using c Inr by simp_all
      then have pairs': "one_key (granted \<union> set bs)" using one_key_join pairs mem by blast
      have "nd1 = nd \<and> (\<forall>a\<in>set bs. tget (rr_by_key (rn_registry nd)) (key_of a) = Some a) \<or>
          rn_file nd1 = Some (registry_file_of (rn_registry nd1))"
        using c Inr by (simp del: map_of_eq_Some_iff)
      then show ?thesis
      proof
        assume same: "nd1 = nd \<and> (\<forall>a\<in>set bs. tget (rr_by_key (rn_registry nd)) (key_of a) = Some a)"
        then have "\<forall>a\<in>set bs. bound_to (registry_load (rn_file nd)) (ra_public_port a) (key_of a)" using live by blast
        then show ?thesis unfolding grants_ok_def r using same ok all disk live pairs' by blast
      next
        assume "rn_file nd1 = Some (registry_file_of (rn_registry nd1))"
        then show ?thesis using grants_saved [OF ok1 all refl _ pairs'] r by simp
      qed
    qed
  next
    case (Retire_Project project save_ok)
    obtain ports nd1 where rl: "release_raw_ports project save_ok nd = (ports, nd1)" by fastforce
    then have r: "as = []" "nd' = nd1" using st Retire_Project by (simp_all add: raw_step_def)
    note s = release_step [OF ok rl]
    have all: "\<forall>a\<in>granted. bound_to (rn_registry nd1) (ra_public_port a) (key_of a)" using s(2) mem by blast
    from s(7) show ?thesis
    proof
      assume "rn_file nd1 = rn_file nd"
      then show ?thesis using s(1,3) all disk live pairs r unfolding grants_ok_def by simp
    next
      assume "rn_file nd1 = Some (registry_file_of (rn_registry nd1))"
      then show ?thesis using grants_saved [OF s(1) all refl _ pairs] r by simp
    qed
  next
    case (Adopt_Claims cs save_ok)
    then have r: "as = []" "nd' = adopt_allocations cs save_ok nd" using st by (simp_all add: raw_step_def)
    note s = adopt_allocations_step [OF ok]
    have all: "\<forall>a\<in>granted. bound_to (rn_registry nd') (ra_public_port a) (key_of a)" using s(2) mem r by blast
    have "nd' = nd \<or> rn_file nd' = Some (registry_file_of (rn_registry nd'))" using s(3) w Adopt_Claims r by simp
    then show ?thesis
    proof
      assume "nd' = nd"
      then show ?thesis using g r by simp
    next
      assume "rn_file nd' = Some (registry_file_of (rn_registry nd'))"
      then show ?thesis using grants_saved [OF s(1) [of cs save_ok, folded r(2)] all refl _ pairs] r by simp
    qed
  next
    case Restart_Node
    then have "as = []" "nd' = nd\<lparr>rn_registry := registry_load (rn_file nd)\<rparr>" using st by (simp_all add: raw_step_def)
    then show ?thesis using disk load_ok bound_live [OF load_ok] pairs by (simp add: grants_ok_def)
  qed
qed

lemma raw_run_grants:
  assumes "grants_ok granted nd" "raw_run rng es nd = (as, nd')" "\<forall>e\<in>set es. adoption_written e"
  shows "grants_ok (granted \<union> set as) nd'"
  using assms
proof (induction es arbitrary: nd granted as)
  case Nil
  then show ?case by simp
next
  case (Cons e es)
  obtain bs nd1 where st: "raw_step rng e nd = (bs, nd1)" by fastforce
  obtain cs where rest: "raw_run rng es nd1 = (cs, nd')" "as = bs @ cs" using Cons.prems(2) st by (auto split: prod.splits)
  have "grants_ok (granted \<union> set bs) nd1" using raw_step_grants [OF Cons.prems(1) st] Cons.prems(3) by simp
  then have "grants_ok (granted \<union> set bs \<union> set cs) nd'" using Cons.IH rest(1) Cons.prems(3) by simp
  then show ?case using rest(2) by (simp add: Un_assoc)
qed

lemma raw_lookup_live:
  assumes "reg_ok reg" "raw_lookup p reg = Some a"
  shows "tget (rr_by_key reg) (key_of a) = Some a \<and> ra_public_port a = p"
proof -
  have "a \<in> snd ` set (claims_sorted reg)" "ra_public_port a = p"
    using assms(2) unfolding raw_lookup_def find_Some_iff by (auto intro!: imageI nth_mem)
  then obtain k where "(k, a) \<in> set (claims_sorted reg)" by auto
  then have "tget (rr_by_key reg) k = Some a" using claims_sorted_props(3) [OF reg_ok_simple(1) [OF assms(1)]] by blast
  then show ?thesis using reg_okD(1) [OF assms(1)] \<open>ra_public_port a = p\<close> by blast
qed

section \<open>The statements\<close>

text \<open>C21: A public port is granted to one service for good. Start the node from whatever its file holds and let claims, retirements,
  adoptions and restarts follow in any order, with any write of a claim or a retirement failing (an adoption has to reach the file): all
  claims ever answered with the same port have the same key, also across restarts and after the service is gone, and whatever the
  registry looks up under that port at the end belongs to that key.\<close>
theorem raw_port_granted_once:
  assumes "raw_run rng es (boot_node file) = (granted, nd)" "\<forall>e\<in>set es. adoption_written e"
    and "a \<in> set granted"
  shows "(\<forall>b\<in>set granted. ra_public_port b = ra_public_port a \<longrightarrow> key_of b = key_of a) \<and>
    (\<forall>c. raw_lookup (ra_public_port a) (rn_registry nd) = Some c \<longrightarrow> key_of c = key_of a)"
proof -
  have g: "grants_ok (set granted) nd" using raw_run_grants [OF grants_boot assms(1,2)] by simp
  then have ok: "reg_ok (rn_registry nd)" by (simp add: grants_ok_def)
  have "bound_to (rn_registry nd) (ra_public_port a) (key_of a)" using g assms(3) unfolding grants_ok_def by blast
  then have "key_of c = key_of a" if "raw_lookup (ra_public_port a) (rn_registry nd) = Some c" for c
    using bound_unique raw_lookup_live [OF ok that] by blast
  moreover have "\<forall>b\<in>set granted. ra_public_port b = ra_public_port a \<longrightarrow> key_of b = key_of a"
    using g assms(3) unfolding grants_ok_def one_key_def by blast
  ultimately show ?thesis by blast
qed

text \<open>Ports and claims of the examples.\<close>

definition ex_spec :: "nat option \<Rightarrow> port_spec" where
  "ex_spec preferred = \<lparr>pt_container_port = 9000, pt_protocol = Tcp, pt_label = None, pt_public_port = None,
     pt_preferred_public_port = preferred\<rparr>"

definition ex_env :: "nat \<Rightarrow> claim_env" where
  "ex_env n = \<lparr>ce_preferred = (\<lambda>_. True), ce_probe = (\<lambda>_. True), ce_now = 7\<rparr>"

definition ex_alloc :: "string \<Rightarrow> nat \<Rightarrow> raw_alloc" where
  "ex_alloc project p = \<lparr>ra_project = project, ra_function = ''db'', ra_container_port = 9000, ra_protocol = Tcp,
     ra_public_port = p, ra_label = None, ra_allocated_ms = 7\<rparr>"

definition ex_events :: "raw_event list" where
  "ex_events = [Claim_Ports ''a'' [(''db'', ex_spec None)] ex_env True, Retire_Project ''a'' True, Restart_Node,
     Claim_Ports ''b'' [(''db'', ex_spec None)] ex_env True]"

lemma ex_granted:
  "fst (raw_run (20000, 20002) ex_events (boot_node None)) = [ex_alloc ''a'' 20000, ex_alloc ''b'' 20001]"
  by code_simp

theorem raw_port_granted_once_witness:
  "\<exists>c. raw_lookup 20001 (rn_registry (snd (raw_run (20000, 20002) ex_events (boot_node None)))) = Some c \<and>
     key_of c = key_of (ex_alloc ''b'' 20001)"
proof -
  let ?nd = "snd (raw_run (20000, 20002) ex_events (boot_node None))"
  have run: "raw_run (20000, 20002) ex_events (boot_node None) = ([ex_alloc ''a'' 20000, ex_alloc ''b'' 20001], ?nd)"
    by (metis ex_granted prod.collapse)
  have "raw_lookup 20001 (rn_registry ?nd) \<noteq> None" by code_simp
  then obtain c where c: "raw_lookup 20001 (rn_registry ?nd) = Some c" by blast
  from raw_port_granted_once [OF run, of "ex_alloc ''b'' 20001"] show ?thesis
    using c by (simp add: ex_events_def ex_alloc_def)
qed

text \<open>C22: A claim is all or nothing. On a well formed registry a batch either fails, for want of a port or because the file could not
  be written, and then the claims, the numbers in use, the retired numbers and the file are what they were; or it answers one claim per
  target, in order, under the key of that target, each bound to its key in the registry it leaves, which is well formed again and is on
  disk unless the node is as it was.\<close>
theorem claim_atomic:
  assumes "reg_ok (rn_registry nd)" "claim_local rng project targets envs save_ok nd = (r, nd')"
  shows "case r of
      Inl e \<Rightarrow> same_claims (rn_registry nd') (rn_registry nd) \<and> rn_file nd' = rn_file nd
    | Inr as \<Rightarrow> reg_ok (rn_registry nd') \<and> map key_of as = map (claim_key project) targets \<and>
        (\<forall>a\<in>set as. bound_to (rn_registry nd') (ra_public_port a) (key_of a)) \<and>
        (nd' = nd \<or> rn_file nd' = Some (registry_file_of (rn_registry nd')))"
proof (cases r)
  case (Inl e)
  then show ?thesis using claim_local_cases [OF assms] by simp
next
  case (Inr as)
  then show ?thesis using claim_local_cases [OF assms] by auto
qed

theorem claim_atomic_witness:
  "same_claims (rn_registry (snd (claim_local (20000, 20000) ''a'' [(''db'', ex_spec None), (''x'', ex_spec None)] ex_env True (boot_node None))))
     (rn_registry (boot_node None))"
proof -
  have ok: "reg_ok (rn_registry (boot_node None))" by (simp add: boot_node_def load_ok)
  have run: "fst (claim_local (20000, 20000) ''a'' [(''db'', ex_spec None), (''x'', ex_spec None)] ex_env True (boot_node None)) =
      Inl Range_Exhausted" by code_simp
  from claim_atomic [OF ok prod.collapse [symmetric], of "(20000, 20000)" "''a''" "[(''db'', ex_spec None), (''x'', ex_spec None)]" ex_env True]
  show ?thesis unfolding run by simp
qed

text \<open>The scan finds a port exactly when there is one, within the range, and its cursor stays within it.\<close>

theorem next_free_exact:
  assumes "lo \<le> hi" "hi < 2 ^ 16" "rr_cursor reg \<le> hi - lo"
  shows "case next_free (lo, hi) probe reg of
      None \<Rightarrow> \<forall>p\<in>{lo..hi}. p \<in> rr_in_use reg \<or> \<not> probe p
    | Some (p, reg') \<Rightarrow> lo \<le> p \<and> p \<le> hi \<and> p \<notin> rr_in_use reg \<and> probe p \<and> rr_cursor reg' \<le> hi - lo \<and> same_claims reg' reg"
proof (cases "scan_ports probe (rr_in_use reg) (candidates (lo, hi) (rr_cursor reg))")
  case None
  then have "\<forall>p\<in>{lo..hi}. p \<in> rr_in_use reg \<or> \<not> probe p" unfolding scan_ports_None candidates_set [OF assms] .
  then show ?thesis using None by (simp add: next_free_def)
next
  case (Some p)
  have "(p - lo + 1) mod (hi - lo + 1) < hi - lo + 1" by (rule mod_less_divisor) simp
  then show ?thesis using scan_ports_Some [OF Some] candidates_set [OF assms] Some
    by (auto simp: next_free_def cursor_irrelevant less_Suc_eq_le)
qed

text \<open>Keys of different services differ as long as the names are free of the unit separator.\<close>

lemma append_sep_inj:
  assumes "c \<notin> set a" "c \<notin> set b" "a @ c # x = b @ c # y"
  shows "a = b \<and> x = y"
  using assms by (induction a arbitrary: b) (case_tac b; auto)+

theorem alloc_key_injective:
  assumes "unit_separator \<notin> set p1 \<union> set f1 \<union> set p2 \<union> set f2" "alloc_key p1 f1 c1 r1 = alloc_key p2 f2 c2 r2"
  shows "p1 = p2 \<and> f1 = f2 \<and> c1 = c2 \<and> r1 = r2"
proof -
  have digits: "unit_separator \<notin> set (nat_to_string n)" for n
  proof
    assume "unit_separator \<in> set (nat_to_string n)"
    then have "is_digit unit_separator" using nat_to_string_digits [of n] by (simp add: list_all_iff)
    then show False by code_simp
  qed
  have n: "unit_separator \<notin> set p1" "unit_separator \<notin> set f1" "unit_separator \<notin> set p2" "unit_separator \<notin> set f2"
    using assms(1) by auto
  have "p1 = p2" and r: "f1 @ unit_separator # nat_to_string c1 @ unit_separator # protocol_str r1 =
      f2 @ unit_separator # nat_to_string c2 @ unit_separator # protocol_str r2"
    using append_sep_inj [OF n(1,3) assms(2) [unfolded alloc_key_def]] by blast+
  have "f1 = f2" and r': "nat_to_string c1 @ unit_separator # protocol_str r1 = nat_to_string c2 @ unit_separator # protocol_str r2"
    using append_sep_inj [OF n(2,4) r] by blast+
  have "nat_to_string c1 = nat_to_string c2" and pr: "protocol_str r1 = protocol_str r2"
    using append_sep_inj [OF digits digits r'] by blast+
  then have "c1 = c2" by (metis digits_val_nat_to_string)
  moreover have "r1 = r2" using pr by (cases r1; cases r2) simp_all
  ultimately show ?thesis using \<open>p1 = p2\<close> \<open>f1 = f2\<close> by blast
qed

section \<open>What adoption misses\<close>

text \<open>A follower that adopted the first number of a service does not take its next one: the claim it holds wins. When it becomes the
  leader it grants the number the service moved to to another project.\<close>

theorem failover_regrants:
  "let (first, leader1) = claim_local (20000, 20002) ''a'' [(''db'', ex_spec (Some 9001))] ex_env True (boot_node None);
       (second, leader2) = claim_local (20000, 20002) ''a'' [(''db'', ex_spec (Some 9002))] ex_env True leader1;
       follower = adopt_allocations [ex_alloc ''a'' 9002] True (adopt_allocations [ex_alloc ''a'' 9001] True (boot_node None));
       (other, follower2) = claim_local (20000, 20002) ''b'' [(''db'', ex_spec (Some 9002))] ex_env True follower
   in first = Inr [ex_alloc ''a'' 9001] \<and> second = Inr [ex_alloc ''a'' 9002] \<and> other = Inr [ex_alloc ''b'' 9002]"
  by code_simp

text \<open>An adoption that does not reach the file and is then answered from memory is forgotten by a restart: the port goes to another project.\<close>

theorem unsaved_adoption_regrants:
  "fst (raw_run (20000, 20002)
     [Adopt_Claims [ex_alloc ''a'' 20000] False, Claim_Ports ''a'' [(''db'', ex_spec None)] ex_env True, Restart_Node,
      Claim_Ports ''b'' [(''db'', ex_spec None)] ex_env True] (boot_node None)) = [ex_alloc ''a'' 20000, ex_alloc ''b'' 20000]"
  by code_simp

end
