(* ===== verification/Build_Snapshot.thy ===== *)
theory Build_Snapshot
  imports Gateway_Static
begin

text \<open>
  What a build may run and where, and the seals of a build: paths, commands and output directories
  (\<open>crates/fluid-build/src/repository_snapshot.rs\<close>, \<open>OutputDirectory\<close> of \<open>crates/fluid-build/src/lib.rs\<close>), and the snapshot of a deployment
  (\<open>deployment_snapshot.rs\<close>). SHA-256, written in hexadecimal, and the JSON encoding of a contract are arguments. Strings are byte strings.
\<close>

section \<open>Errors\<close>

datatype bc_code =
    Invalid_Metadata | Invalid_Framework | Invalid_Output_Directory | Invalid_Build_Output | Unsupported_Build_Output
  | Invalid_Forwarded_Settings

record bc_error =
  be_code :: bc_code
  be_operation :: string
  be_detail :: string

definition invalid_metadata :: "string \<Rightarrow> string \<Rightarrow> bc_error" where
  "invalid_metadata operation detail = \<lparr>be_code = Invalid_Metadata, be_operation = operation, be_detail = detail\<rparr>"

definition bc_code_str :: "bc_code \<Rightarrow> string" where
  "bc_code_str c =
     (case c of
        Invalid_Metadata \<Rightarrow> ''BUILD_CONTRACT_INVALID_METADATA''
      | Invalid_Framework \<Rightarrow> ''BUILD_CONTRACT_INVALID_FRAMEWORK''
      | Invalid_Output_Directory \<Rightarrow> ''BUILD_CONTRACT_INVALID_OUTPUT_DIRECTORY''
      | Invalid_Build_Output \<Rightarrow> ''BUILD_CONTRACT_INVALID_BUILD_OUTPUT''
      | Unsupported_Build_Output \<Rightarrow> ''BUILD_CONTRACT_UNSUPPORTED_BUILD_OUTPUT''
      | Invalid_Forwarded_Settings \<Rightarrow> ''BUILD_CONTRACT_INVALID_FORWARDED_SETTINGS'')"

definition bc_display :: "bc_error \<Rightarrow> string" where
  "bc_display e = bc_code_str (be_code e) @ '': '' @ be_operation e @ '': '' @ be_detail e"

text \<open>Checks in order: the first that fails decides.\<close>

definition need :: "bool \<Rightarrow> 'e \<Rightarrow> 'e option" where
  "need ok e = (if ok then None else Some e)"

fun first_error :: "'e option list \<Rightarrow> 'e option" where
  "first_error [] = None"
| "first_error (None # cs) = first_error cs"
| "first_error (Some e # cs) = Some e"

definition checked :: "'e option \<Rightarrow> 'a \<Rightarrow> 'e + 'a" where
  "checked c a = (case c of Some e \<Rightarrow> Inl e | None \<Rightarrow> Inr a)"

definition bind_result :: "'e + 'a \<Rightarrow> ('a \<Rightarrow> 'e + 'b) \<Rightarrow> 'e + 'b" where
  "bind_result r f = (case r of Inl e \<Rightarrow> Inl e | Inr a \<Rightarrow> f a)"

lemma need_None [simp]: "need ok e = None \<longleftrightarrow> ok"
  by (simp add: need_def)

lemma need_True [simp]: "need True e = None"
  by (simp add: need_def)

lemma first_error_None: "first_error cs = None \<longleftrightarrow> (\<forall>c\<in>set cs. c = None)"
  by (induction cs rule: first_error.induct) auto

lemma checked_Inr [simp]: "checked c a = Inr b \<longleftrightarrow> c = None \<and> b = a"
  by (auto simp: checked_def split: option.splits)

lemma bind_result_Inr: "bind_result r f = Inr b \<longleftrightarrow> (\<exists>a. r = Inr a \<and> f a = Inr b)"
  by (auto simp: bind_result_def split: sum.splits)

section \<open>Output directories\<close>

definition OUTPUT_MAX_BYTES :: nat where
  "OUTPUT_MAX_BYTES = 4096"

definition output_error :: "string \<Rightarrow> bc_error" where
  "output_error detail =
     \<lparr>be_code = Invalid_Output_Directory, be_operation = ''normalize outputDirectory'', be_detail = detail\<rparr>"

definition backslashes :: "string \<Rightarrow> string" where
  "backslashes s = map (\<lambda>c. if c = CHR 0x5C then CHR ''/'' else c) s"

definition ascii_alpha :: "char \<Rightarrow> bool" where
  "ascii_alpha c \<longleftrightarrow> (let n = (of_char c :: nat) in 65 \<le> n \<and> n \<le> 90 \<or> 97 \<le> n \<and> n \<le> 122)"

definition windows_absolute :: "string \<Rightarrow> bool" where
  "windows_absolute v = (case v of a # b # r \<Rightarrow> b = CHR '':'' \<and> ascii_alpha a | _ \<Rightarrow> False)"

text \<open>The components that count, or that the path climbs.\<close>

fun output_components :: "string list \<Rightarrow> string list option" where
  "output_components [] = Some []"
| "output_components (c # cs) =
     (if c = [] \<or> c = ''.'' then output_components cs
      else if c = ''..'' then None
      else map_option ((#) c) (output_components cs))"

text \<open>\<open>value.chars().any(char::is_control)\<close> on the bytes of a text in UTF-8: the control characters are those of ASCII
  and \<open>U+0080\<close> to \<open>U+009F\<close>, which are encoded as the byte \<open>0xC2\<close> and a byte from \<open>0x80\<close> to \<open>0x9F\<close>.\<close>

fun has_control :: "string \<Rightarrow> bool" where
  "has_control [] \<longleftrightarrow> False"
| "has_control [c] \<longleftrightarrow> is_control c"
| "has_control (c # d # cs) \<longleftrightarrow>
     is_control c \<or> c = CHR 0xC2 \<and> 128 \<le> (of_char d :: nat) \<and> (of_char d :: nat) < 160 \<or> has_control (d # cs)"

definition dot_or_join :: "string list \<Rightarrow> string" where
  "dot_or_join cs = (if cs = [] then ''.'' else join_str ''/'' cs)"

definition parse_output_dir :: "string \<Rightarrow> bc_error + string" where
  "parse_output_dir value =
     (if OUTPUT_MAX_BYTES < length value \<or> has_control value
      then Inl (output_error (''outputDirectory must be at most 4096 bytes and contain no control characters''))
      else
        (let v = backslashes (trim value)
         in if starts_with ''/'' v \<or> windows_absolute v
            then Inl (output_error (''outputDirectory '' @ debug_str v @ '' must be checkout-relative''))
            else
              (case output_components (split_on CHR ''/'' v) of
                 None \<Rightarrow> Inl (output_error (''outputDirectory '' @ debug_str v @ '' may not traverse above the checkout''))
               | Some cs \<Rightarrow>
                   if OUTPUT_MAX_BYTES < length (dot_or_join cs)
                   then Inl (output_error ''normalized outputDirectory exceeds the 4096-byte limit'')
                   else Inr (dot_or_join cs))))"

section \<open>Paths and commands\<close>

definition MAX_PATH_BYTES :: nat where "MAX_PATH_BYTES = 4096"
definition MAX_COMMAND_BYTES :: nat where "MAX_COMMAND_BYTES = 16 * 1024"
definition MAX_ARG_BYTES :: nat where "MAX_ARG_BYTES = 4096"
definition MAX_ARGS :: nat where "MAX_ARGS = 64"

definition path_error :: "string \<Rightarrow> bc_error" where
  "path_error detail = invalid_metadata ''normalize repository path'' detail"

text \<open>The names of a path; a name that is no text is refused before the rest (the argument says which bytes are UTF-8).\<close>

fun path_names :: "(string \<Rightarrow> bool) \<Rightarrow> path_component list \<Rightarrow> bc_error + string list" where
  "path_names utf8 [] = Inr []"
| "path_names utf8 (Normal_Component v # cs) =
     (if \<not> utf8 v then Inl (path_error ''repository paths must be valid UTF-8'')
      else if has_control v then Inl (path_error ''repository paths may not contain control characters'')
      else bind_result (path_names utf8 cs) (\<lambda>r. Inr (v # r)))"
| "path_names utf8 (Cur_Dir # cs) = path_names utf8 cs"
| "path_names utf8 (Parent_Dir # cs) = Inl (path_error ''repository paths must be normalized and checkout-relative'')"
| "path_names utf8 (Root_Dir # cs) = Inl (path_error ''repository paths must be normalized and checkout-relative'')"

definition parse_repository_path :: "(string \<Rightarrow> bool) \<Rightarrow> string \<Rightarrow> bc_error + string" where
  "parse_repository_path utf8 path =
     bind_result (path_names utf8 (path_components path)) (\<lambda>names.
       if MAX_PATH_BYTES < length (dot_or_join names) then Inl (path_error ''repository path exceeds 4096 bytes'')
       else Inr (dot_or_join names))"

definition parent_path :: "nat \<Rightarrow> bc_error + string" where
  "parent_path depth =
     (if 64 < depth
      then Inl (invalid_metadata ''derive repository path from selected application'' ''selected application exceeds 64 path components'')
      else Inr (if depth = 0 then ''.'' else join_str ''/'' (replicate depth ''..'')))"

definition parse_shell_command :: "string \<Rightarrow> bc_error + string" where
  "parse_shell_command value =
     (if value = [] \<or> MAX_COMMAND_BYTES < length value \<or> CHR 0x00 \<in> set value
      then Inl (invalid_metadata ''validate explicit build command'' ''explicit command must be 1..=16384 bytes and contain no NUL'')
      else Inr value)"

definition parse_fixed_argv :: "string list \<Rightarrow> bc_error + string list" where
  "parse_fixed_argv values =
     (if values = [] \<or> MAX_ARGS < length values \<or>
        list_ex (\<lambda>v. v = [] \<or> MAX_ARG_BYTES < length v \<or> CHR 0x00 \<in> set v) values
      then Inl (invalid_metadata ''validate generated build command''
        ''generated argv must contain 1..=64 nonempty arguments of at most 4096 bytes'')
      else Inr values)"

datatype generated_step = Install_Step bool | Run_Build_Script | Framework_Exec "string list" | Turbo_Build string

datatype step_authority = No_Authority | Explicit_Step string | Generated_Step generated_step

definition explicit_step :: "string option \<Rightarrow> bc_error + step_authority option" where
  "explicit_step value =
     (case value of
        None \<Rightarrow> Inr None
      | Some v \<Rightarrow> bind_result (parse_shell_command v) (\<lambda>c. Inr (Some (Explicit_Step c))))"

section \<open>The contract of a repository build\<close>

datatype pm_source =
    Pm_Package_Json | Pm_Corepack | Pm_Bun_Lock | Pm_Pnpm_Lock | Pm_Yarn_Lock | Pm_Npm_Lock | Pm_Pnpm_Workspace | Pm_Default
  | Pm_Invalid_Declaration

datatype pm_lockfile = Lock_Bun | Lock_Pnpm | Lock_Yarn_Classic | Lock_Yarn_Modern | Lock_Npm

record pm_declaration =
  pd_raw :: string
  pd_version :: string
  pd_integrity :: "string option"

record pm_detection =
  pm_manager :: string
  pm_source_of :: pm_source
  pm_declared :: "pm_declaration option"
  pm_lock :: "pm_lockfile option"
  pm_conflict :: "string option"
  pm_invalid :: "string option"

record pm_snapshot =
  ps_manager :: string
  ps_source :: pm_source
  ps_declaration :: "pm_declaration option"
  ps_lockfile :: "pm_lockfile option"
  ps_diagnostics :: "string list"

definition pm_snapshot_of :: "pm_detection \<Rightarrow> pm_snapshot" where
  "pm_snapshot_of d =
     \<lparr>ps_manager = pm_manager d, ps_source = pm_source_of d, ps_declaration = pm_declared d, ps_lockfile = pm_lock d,
      ps_diagnostics = remdups_adj (sort
        ((case pm_conflict d of Some w \<Rightarrow> [w] | None \<Rightarrow> []) @ (case pm_invalid d of Some w \<Rightarrow> [w] | None \<Rightarrow> [])))\<rparr>"

record workspace_snapshot =
  ws_source :: string
  ws_members :: "string list"

fun parse_members :: "(string \<Rightarrow> bool) \<Rightarrow> string list \<Rightarrow> bc_error + string list" where
  "parse_members utf8 [] = Inr []"
| "parse_members utf8 (m # ms) =
     bind_result (parse_repository_path utf8 m) (\<lambda>p. bind_result (parse_members utf8 ms) (\<lambda>ps. Inr (p # ps)))"

definition workspace_new :: "(string \<Rightarrow> bool) \<Rightarrow> string \<Rightarrow> string list \<Rightarrow> bc_error + workspace_snapshot" where
  "workspace_new utf8 source members =
     bind_result (parse_members utf8 members) (\<lambda>ps. Inr \<lparr>ws_source = source, ws_members = remdups_adj (sort ps)\<rparr>)"

record application_snapshot =
  ap_selected :: string
  ap_source :: string
  ap_evidence :: "string list"
  ap_decision_digest :: "string option"

record framework_snapshot =
  fw_slug :: string
  fw_name :: string
  fw_source :: string

record build_steps =
  bs_install :: step_authority
  bs_build :: step_authority

record repository_coordinates =
  rc_checkout_root :: string
  rc_install_root :: string
  rc_selected_app :: string
  rc_build_cwd :: string
  rc_output_root :: string
  rc_runtime_artifact_base :: string
  rc_function_cwd :: string

record metadata_seal =
  ms_path :: string
  ms_sha256 :: string
  ms_bytes :: nat

record repository_contract =
  rp_schema :: nat
  rp_package_manager :: pm_snapshot
  rp_workspace :: "workspace_snapshot option"
  rp_application :: application_snapshot
  rp_framework :: framework_snapshot
  rp_steps :: build_steps
  rp_output :: string
  rp_coordinates :: repository_coordinates
  rp_metadata :: "metadata_seal list"

record repository_snapshot =
  rs_digest :: string
  rs_contract :: repository_contract

definition REPOSITORY_SCHEMA :: nat where "REPOSITORY_SCHEMA = 1"

definition REPOSITORY_DOMAIN :: string where
  "REPOSITORY_DOMAIN = ''hive-repository-build-v1'' @ [CHR 0x00]"

definition repository_normal :: "repository_contract \<Rightarrow> repository_contract" where
  "repository_normal c =
     c\<lparr>rp_schema := REPOSITORY_SCHEMA,
       rp_application := (rp_application c)\<lparr>ap_evidence := remdups_adj (sort (ap_evidence (rp_application c)))\<rparr>,
       rp_metadata := sort_key ms_path (rp_metadata c)\<rparr>"

definition repository_seal ::
    "(string \<Rightarrow> string) \<Rightarrow> (repository_contract \<Rightarrow> string) \<Rightarrow> repository_contract \<Rightarrow> bc_error + repository_snapshot" where
  "repository_seal sha encode c =
     (let n = repository_normal c
      in checked
        (need (distinct (map ms_path (rp_metadata n)))
          (invalid_metadata ''seal repository build metadata'' ''repository metadata inputs contain duplicate paths''))
        \<lparr>rs_digest = sha (REPOSITORY_DOMAIN @ encode n), rs_contract = n\<rparr>)"

definition repository_verify ::
    "(string \<Rightarrow> string) \<Rightarrow> (repository_contract \<Rightarrow> string) \<Rightarrow> repository_snapshot \<Rightarrow> bc_error + unit" where
  "repository_verify sha encode s =
     bind_result (repository_seal sha encode (rs_contract s)) (\<lambda>rebuilt.
       if rs_digest rebuilt \<noteq> rs_digest s \<or> encode (rs_contract s) \<noteq> encode (rs_contract rebuilt)
       then Inl (invalid_metadata ''verify repository build snapshot''
         ''repository build snapshot digest or canonical ordering does not match its contract'')
       else Inr ())"

section \<open>The contract of a deployment\<close>

definition DEPLOYMENT_SCHEMA :: nat where "DEPLOYMENT_SCHEMA = 2"

definition DEPLOYMENT_DOMAIN :: string where
  "DEPLOYMENT_DOMAIN = ''hive-deployment-build-v2'' @ [CHR 0x00]"

definition MAX_IDENTITY_BYTES :: nat where "MAX_IDENTITY_BYTES = 16 * 1024"

definition seal_error :: "string \<Rightarrow> bc_error" where
  "seal_error detail = invalid_metadata ''seal deployment build snapshot'' detail"

definition lower_hex :: "string \<Rightarrow> bool" where
  "lower_hex s \<longleftrightarrow> list_all (\<lambda>b. is_digit b \<or> (CHR ''a'' \<le> b \<and> b \<le> CHR ''f'')) s"

definition check_sha256 :: "string \<Rightarrow> string \<Rightarrow> bc_error option" where
  "check_sha256 value label =
     need (length value = 64 \<and> lower_hex value) (seal_error (label @ '' must be a 64-character lowercase hexadecimal SHA-256''))"

definition check_git_object :: "string \<Rightarrow> string \<Rightarrow> bc_error option" where
  "check_git_object value label =
     need ((length value = 40 \<or> length value = 64) \<and> lower_hex value)
       (seal_error (label @ '' must be a 40- or 64-character lowercase hexadecimal object id''))"

definition check_oci_digest :: "string \<Rightarrow> string \<Rightarrow> bc_error option" where
  "check_oci_digest value label =
     (case strip_prefix ''sha256:'' value of
        None \<Rightarrow> Some (seal_error (label @ '' must use sha256''))
      | Some d \<Rightarrow> check_sha256 d label)"

definition check_identity :: "string \<Rightarrow> string \<Rightarrow> bc_error option" where
  "check_identity value label =
     need (value \<noteq> [] \<and> length value \<le> MAX_IDENTITY_BYTES \<and> \<not> has_control value)
       (seal_error (label @ '' must be 1..=16384 bytes with no control characters''))"

definition check_metadata :: "metadata_seal \<Rightarrow> string \<Rightarrow> bc_error option" where
  "check_metadata m label =
     first_error [check_sha256 (ms_sha256 m) label, need (ms_path m \<noteq> []) (seal_error (label @ '' metadata path is empty''))]"

record content_seal =
  cs_sha256 :: string
  cs_bytes :: nat

definition content_seal_new :: "string \<Rightarrow> nat \<Rightarrow> bc_error + content_seal" where
  "content_seal_new sha256 bytes = checked (check_sha256 sha256 ''content seal'') \<lparr>cs_sha256 = sha256, cs_bytes = bytes\<rparr>"

record oci_identity =
  oi_platform :: string
  oi_manifest :: string
  oi_config :: string

definition check_oci :: "oci_identity \<Rightarrow> bc_error option" where
  "check_oci i = first_error [check_identity (oi_platform i) ''OCI platform'',
     check_oci_digest (oi_manifest i) ''OCI manifest digest'', check_oci_digest (oi_config i) ''OCI config digest'']"

datatype source_snapshot =
    Git_Source string "string option" string string
  | Zip_Source content_seal
  | Oci_Source string oci_identity

definition check_sealed_source :: "source_snapshot \<Rightarrow> bc_error option" where
  "check_sealed_source s =
     (case s of
        Git_Source repository branch commit tree \<Rightarrow>
          first_error [check_identity repository ''Git repository'',
            (case branch of Some b \<Rightarrow> check_identity b ''Git branch'' | None \<Rightarrow> None),
            check_git_object commit ''Git commit'', check_git_object tree ''Git tree'']
      | Zip_Source archive \<Rightarrow> check_sha256 (cs_sha256 archive) ''ZIP archive''
      | Oci_Source requested resolved \<Rightarrow> first_error [check_identity requested ''requested OCI reference'', check_oci resolved])"

record inventory_seals =
  iv_config :: content_seal
  iv_functions :: content_seal
  iv_static :: content_seal

definition check_inventory :: "inventory_seals \<Rightarrow> bc_error option" where
  "check_inventory i = first_error [check_sha256 (cs_sha256 (iv_config i)) ''Build Output config inventory'',
     check_sha256 (cs_sha256 (iv_functions i)) ''Build Output function inventory'',
     check_sha256 (cs_sha256 (iv_static i)) ''Build Output static inventory'']"

type_synonym compose_service = "string \<times> oci_identity"

datatype build_authority =
    Detected_Application repository_snapshot string
  | Explicit_Manifest metadata_seal string
  | Build_Output_V3 inventory_seals string string
  | Dockerfile_Build metadata_seal content_seal string string oci_identity string
  | Compose_Build metadata_seal string "compose_service list" string
  | Prebuilt_Oci oci_identity string

fun authority_normal :: "build_authority \<Rightarrow> build_authority" where
  "authority_normal (Compose_Build f t services m) = Compose_Build f t (sort_key fst services) m"
| "authority_normal a = a"

fun manifest_digest :: "build_authority \<Rightarrow> string" where
  "manifest_digest (Detected_Application r m) = m"
| "manifest_digest (Explicit_Manifest f m) = m"
| "manifest_digest (Build_Output_V3 i d m) = m"
| "manifest_digest (Dockerfile_Build f c p b i m) = m"
| "manifest_digest (Compose_Build f t s m) = m"
| "manifest_digest (Prebuilt_Oci i m) = m"

fun check_services :: "string set \<Rightarrow> compose_service list \<Rightarrow> bc_error option" where
  "check_services names [] = None"
| "check_services names ((service, img) # rest) =
     first_error [check_identity service ''Compose service name'',
       need (service \<notin> names) (seal_error ''Compose authority contains duplicate service names''),
       check_oci img, check_services (insert service names) rest]"

definition check_authority ::
    "(string \<Rightarrow> string) \<Rightarrow> (repository_contract \<Rightarrow> string) \<Rightarrow> build_authority \<Rightarrow> bc_error option" where
  "check_authority sha encode a =
     first_error
       [(case a of
           Detected_Application r m \<Rightarrow> (case repository_verify sha encode r of Inl e \<Rightarrow> Some e | Inr _ \<Rightarrow> None)
         | Explicit_Manifest f m \<Rightarrow> check_metadata f ''fluid.json''
         | Build_Output_V3 i d m \<Rightarrow> first_error [check_inventory i, check_sha256 d ''Build Output descriptor'']
         | Dockerfile_Build f c p b i m \<Rightarrow>
             first_error [check_metadata f ''Dockerfile'', check_sha256 (cs_sha256 c) ''Docker build context'',
               check_identity p ''Docker target platform'', check_sha256 b ''Docker build inputs'', check_oci i,
               need (oi_platform i = p) (seal_error ''Docker resolved image platform differs from build platform'')]
         | Compose_Build f t services m \<Rightarrow>
             first_error [check_metadata f ''Compose file'', check_sha256 t ''Compose service topology'',
               need (services \<noteq> []) (seal_error ''Compose authority has no resolved services''), check_services {} services]
         | Prebuilt_Oci i m \<Rightarrow> check_oci i),
        check_sha256 (manifest_digest a) ''normalized deployment manifest'']"

record deployment_contract =
  dc_schema :: nat
  dc_source :: source_snapshot
  dc_authority :: build_authority

record deployment_snapshot =
  ds_digest :: string
  ds_contract :: deployment_contract

definition check_same_image :: "source_snapshot \<Rightarrow> build_authority \<Rightarrow> bc_error option" where
  "check_same_image s a =
     (case s of
        Oci_Source requested resolved \<Rightarrow>
          (case a of
             Prebuilt_Oci i m \<Rightarrow> need (resolved = i) (seal_error ''prebuilt OCI source and build authority resolve to different identities'')
           | _ \<Rightarrow> Some (seal_error ''prebuilt OCI source requires prebuilt OCI build authority''))
      | _ \<Rightarrow> None)"

definition deployment_normal :: "deployment_contract \<Rightarrow> deployment_contract" where
  "deployment_normal c = c\<lparr>dc_schema := DEPLOYMENT_SCHEMA, dc_authority := authority_normal (dc_authority c)\<rparr>"

definition deployment_seal ::
    "(string \<Rightarrow> string) \<Rightarrow> (repository_contract \<Rightarrow> string) \<Rightarrow> (deployment_contract \<Rightarrow> string) \<Rightarrow> deployment_contract
      \<Rightarrow> bc_error + deployment_snapshot" where
  "deployment_seal sha encode_repository encode c =
     (let n = deployment_normal c
      in checked
        (first_error [check_sealed_source (dc_source n), check_authority sha encode_repository (dc_authority n),
           check_same_image (dc_source n) (dc_authority n)])
        \<lparr>ds_digest = sha (DEPLOYMENT_DOMAIN @ encode n), ds_contract = n\<rparr>)"

definition deployment_verify ::
    "(string \<Rightarrow> string) \<Rightarrow> (repository_contract \<Rightarrow> string) \<Rightarrow> (deployment_contract \<Rightarrow> string) \<Rightarrow> deployment_snapshot
      \<Rightarrow> bc_error + unit" where
  "deployment_verify sha encode_repository encode s =
     bind_result (deployment_seal sha encode_repository encode (ds_contract s)) (\<lambda>rebuilt.
       if ds_digest s \<noteq> ds_digest rebuilt \<or> encode (ds_contract s) \<noteq> encode (ds_contract rebuilt)
       then Inl (seal_error ''deployment build snapshot digest or canonical ordering does not match its contract'')
       else Inr ())"

definition canonical_contract_bytes ::
    "(string \<Rightarrow> string) \<Rightarrow> (repository_contract \<Rightarrow> string) \<Rightarrow> (deployment_contract \<Rightarrow> string) \<Rightarrow> deployment_snapshot
      \<Rightarrow> bc_error + string" where
  "canonical_contract_bytes sha encode_repository encode s =
     bind_result (deployment_verify sha encode_repository encode s) (\<lambda>_. Inr (encode (ds_contract s)))"

end
