(* ===== verification/Integrity_Chain.thy ===== *)
theory Integrity_Chain
  imports Gateway_Static
begin

text \<open>
  The tamper evidence of a deployment (\<open>crates/hive-core/src/integrity.rs\<close>): the entries of its history, the bytes each one
  contributes and the fold that gives the head of the chain. SHA-256, with its 32 bytes, is an argument.
\<close>

section \<open>Entries\<close>

datatype entry_kind =
    Build_Accepted string string "string option"
  | Published string
  | Execution_Started string string
  | Execution_Ended string nat string
  | Sep_Key_Provisioned string string

record integrity_entry =
  ie_deployment_id :: string
  ie_seq :: nat
  ie_ts_ms :: nat
  ie_node :: string
  ie_kind :: entry_kind

definition SEP :: char where "SEP = CHR 0x1F"

fun kind_tag :: "entry_kind \<Rightarrow> string" where
  "kind_tag (Build_Accepted s r b) = ''build_accepted''"
| "kind_tag (Published a) = ''published''"
| "kind_tag (Execution_Started c b) = ''execution_started''"
| "kind_tag (Execution_Ended c n r) = ''execution_ended''"
| "kind_tag (Sep_Key_Provisioned k t) = ''sep_key_provisioned''"

text \<open>The macro: a separator before a field, unless nothing was written yet.\<close>

definition push_field :: "string \<Rightarrow> string \<Rightarrow> string" where
  "push_field out s = (if out = [] then s else out @ SEP # s)"

fun kind_payload :: "entry_kind \<Rightarrow> string" where
  "kind_payload (Build_Accepted s r b) = push_field (push_field (push_field [] s) r) (case b of Some d \<Rightarrow> d | None \<Rightarrow> [])"
| "kind_payload (Published a) = push_field [] a"
| "kind_payload (Execution_Started c b) = push_field (push_field [] c) b"
| "kind_payload (Execution_Ended c n r) = push_field (push_field (push_field [] c) (nat_to_string n)) r"
| "kind_payload (Sep_Key_Provisioned k t) = push_field (push_field [] k) t"

section \<open>The chain\<close>

definition leaf_text :: "integrity_entry \<Rightarrow> string" where
  "leaf_text e = nat_to_string (ie_seq e) @ SEP # nat_to_string (ie_ts_ms e) @ SEP # kind_tag (ie_kind e) @ SEP # ie_node e @ SEP #
     kind_payload (ie_kind e)"

definition genesis_text :: "string \<Rightarrow> string" where
  "genesis_text deployment = ''hive-integrity-chain-v1'' @ SEP # deployment"

definition step_text :: "string \<Rightarrow> string \<Rightarrow> string" where
  "step_text chain leaf = chain @ SEP # leaf"

definition chain_step :: "(string \<Rightarrow> string) \<Rightarrow> string \<Rightarrow> integrity_entry \<Rightarrow> string" where
  "chain_step sha chain e = sha (step_text chain (sha (leaf_text e)))"

definition hex_digit_of :: "nat \<Rightarrow> char" where
  "hex_digit_of n = (if n < 10 then char_of (48 + n) else char_of (87 + n))"

definition hex_bytes :: "string \<Rightarrow> string" where
  "hex_bytes s = concat (map (\<lambda>c. let n = (of_char c :: nat) in [hex_digit_of (n div 16), hex_digit_of (n mod 16)]) s)"

definition fold_integrity_chain :: "(string \<Rightarrow> string) \<Rightarrow> string \<Rightarrow> integrity_entry list \<Rightarrow> string" where
  "fold_integrity_chain sha deployment entries = hex_bytes (foldl (chain_step sha) (sha (genesis_text deployment)) entries)"

section \<open>What the fold binds\<close>

text \<open>The texts that are hashed on the way.\<close>

fun hashed_texts :: "(string \<Rightarrow> string) \<Rightarrow> string \<Rightarrow> integrity_entry list \<Rightarrow> string list" where
  "hashed_texts sha chain [] = []"
| "hashed_texts sha chain (e # es) =
     leaf_text e # step_text chain (sha (leaf_text e)) # hashed_texts sha (chain_step sha chain e) es"

definition chain_texts :: "(string \<Rightarrow> string) \<Rightarrow> string \<Rightarrow> integrity_entry list \<Rightarrow> string set" where
  "chain_texts sha deployment es = insert (genesis_text deployment) (set (hashed_texts sha (sha (genesis_text deployment)) es))"

text \<open>The fields of an entry that are free of the separator. An absent build digest is not told from an empty one.\<close>

fun fields_of :: "entry_kind \<Rightarrow> string list" where
  "fields_of (Build_Accepted s r b) = [s, r, (case b of Some d \<Rightarrow> d | None \<Rightarrow> [])]"
| "fields_of (Published a) = [a]"
| "fields_of (Execution_Started c b) = [c, b]"
| "fields_of (Execution_Ended c n r) = [c, r]"
| "fields_of (Sep_Key_Provisioned k t) = [k, t]"

definition clean_entry :: "integrity_entry \<Rightarrow> bool" where
  "clean_entry e \<longleftrightarrow> SEP \<notin> set (ie_node e) \<and> (\<forall>f\<in>set (fields_of (ie_kind e)). SEP \<notin> set f) \<and>
     (\<forall>s r. ie_kind e \<noteq> Build_Accepted s r (Some []))"

lemma hex_digit_inj: "m < 16 \<Longrightarrow> n < 16 \<Longrightarrow> hex_digit_of m = hex_digit_of n \<Longrightarrow> m = n"
proof -
  assume "m < 16" "n < 16" "hex_digit_of m = hex_digit_of n"
  moreover have "\<forall>m\<in>set [0..<16]. \<forall>n\<in>set [0..<16]. hex_digit_of m = hex_digit_of n \<longrightarrow> m = n" by code_simp
  ultimately show "m = n" by simp
qed

lemma hex_bytes_inj: "hex_bytes s = hex_bytes t \<Longrightarrow> s = t"
proof (induction s arbitrary: t)
  case Nil
  then show ?case by (cases t) (simp_all add: hex_bytes_def Let_def)
next
  case (Cons c s)
  then obtain d t' where t: "t = d # t'" by (cases t) (simp_all add: hex_bytes_def Let_def)
  have b: "(of_char x :: nat) < 256" for x :: char by simp
  have eqs: "hex_digit_of (of_char c div 16) = hex_digit_of (of_char d div 16)"
    "hex_digit_of (of_char c mod 16) = hex_digit_of (of_char d mod 16)" "hex_bytes s = hex_bytes t'"
    using Cons.prems t by (simp_all add: hex_bytes_def Let_def)
  have "(of_char c :: nat) div 16 < 16" "(of_char d :: nat) div 16 < 16" using b [of c] b [of d] by (simp_all add: less_mult_imp_div_less)
  then have "(of_char c :: nat) div 16 = of_char d div 16" "(of_char c :: nat) mod 16 = of_char d mod 16"
    using hex_digit_inj [OF _ _ eqs(1)] hex_digit_inj [OF _ _ eqs(2)] by simp_all
  then have "(of_char c :: nat) = of_char d" by (metis div_mult_mod_eq)
  then show ?case using Cons.IH [OF eqs(3)] t by simp
qed

lemma sep_split:
  assumes "c \<notin> set a" "c \<notin> set b" "a @ c # x = b @ c # y"
  shows "a = b" "x = y"
proof -
  have "a = b \<and> x = y"
    using assms by (induction a arbitrary: b) (case_tac b; auto)+
  then show "a = b" "x = y" by blast+
qed

lemma push_field_inj:
  assumes "SEP \<notin> set b" "SEP \<notin> set b'" "push_field a b = push_field a' b'"
  shows "a = a'" "b = b'"
proof -
  have "rev b = rev b' \<and> rev a = rev a'" if "a \<noteq> []" "a' \<noteq> []"
  proof -
    have "rev b @ SEP # rev a = rev b' @ SEP # rev a'"
      using assms(3) that by (metis push_field_def rev.simps(2) rev_append append.assoc append_Cons append_Nil)
    then show ?thesis using sep_split [of SEP "rev b" "rev b'" "rev a" "rev a'"] assms(1,2) by simp
  qed
  then have "a = a' \<and> b = b'" using assms by (cases "a = []"; cases "a' = []") (auto simp: push_field_def)
  then show "a = a'" "b = b'" by blast+
qed

lemma digits_sep_free: "SEP \<notin> set (nat_to_string n)"
proof
  assume "SEP \<in> set (nat_to_string n)"
  then have "is_digit SEP" using nat_to_string_digits [of n] by (simp add: list_all_iff)
  then show False by code_simp
qed

lemma digits_inj: "nat_to_string m = nat_to_string n \<Longrightarrow> m = n"
  by (metis digits_val_nat_to_string)

lemma tag_sep_free: "SEP \<notin> set (kind_tag k)"
  by (cases k) (simp_all add: SEP_def)

lemma kind_payload_inj:
  assumes "\<forall>f\<in>set (fields_of k). SEP \<notin> set f" "\<forall>f\<in>set (fields_of k'). SEP \<notin> set f"
    and "\<forall>s r. k \<noteq> Build_Accepted s r (Some [])" "\<forall>s r. k' \<noteq> Build_Accepted s r (Some [])"
    and "kind_tag k = kind_tag k'" "kind_payload k = kind_payload k'"
  shows "k = k'"
proof (cases k)
  case (Build_Accepted s r b)
  then obtain s' r' b' where k': "k' = Build_Accepted s' r' b'" using assms(5) by (cases k') simp_all
  let ?d = "case b of Some d \<Rightarrow> d | None \<Rightarrow> []" and ?d' = "case b' of Some d \<Rightarrow> d | None \<Rightarrow> []"
  have f: "SEP \<notin> set r" "SEP \<notin> set ?d" "SEP \<notin> set r'" "SEP \<notin> set ?d'"
    using assms(1,2) unfolding Build_Accepted k' by simp_all
  have p: "push_field (push_field (push_field [] s) r) ?d = push_field (push_field (push_field [] s') r') ?d'"
    using assms(6) unfolding Build_Accepted k' kind_payload.simps .
  note p2 = push_field_inj [OF f(2,4) p]
  note p3 = push_field_inj [OF f(1,3) p2(1)]
  have "b \<noteq> Some []" "b' \<noteq> Some []" using assms(3,4) Build_Accepted k' by blast+
  then have "b = b'" using p2(2) by (cases b; cases b') simp_all
  then show ?thesis using p3 unfolding Build_Accepted k' by (simp add: push_field_def)
next
  case (Published a)
  then show ?thesis using assms(5,6) by (cases k') (simp_all add: push_field_def)
next
  case (Execution_Started c b)
  then obtain c' b' where k': "k' = Execution_Started c' b'" using assms(5) by (cases k') simp_all
  then show ?thesis using push_field_inj [of b b' "push_field [] c" "push_field [] c'"] assms Execution_Started
    by (simp add: push_field_def [of "[]"])
next
  case (Execution_Ended c n r)
  then obtain c' n' r' where k': "k' = Execution_Ended c' n' r'" using assms(5) by (cases k') simp_all
  have "push_field (push_field [] c) (nat_to_string n) = push_field (push_field [] c') (nat_to_string n')" "r = r'"
    using push_field_inj [of r r'] assms Execution_Ended k' by simp_all
  then have "c = c'" "nat_to_string n = nat_to_string n'"
    using push_field_inj [OF digits_sep_free digits_sep_free] by (simp_all add: push_field_def [of "[]"])
  then show ?thesis using Execution_Ended k' \<open>r = r'\<close> digits_inj by simp
next
  case (Sep_Key_Provisioned key t)
  then obtain key' t' where k': "k' = Sep_Key_Provisioned key' t'" using assms(5) by (cases k') simp_all
  then show ?thesis using push_field_inj [of t t' "push_field [] key" "push_field [] key'"] assms Sep_Key_Provisioned
    by (simp add: push_field_def [of "[]"])
qed

definition entry_facts :: "integrity_entry \<Rightarrow> nat \<times> nat \<times> string \<times> entry_kind" where
  "entry_facts e = (ie_seq e, ie_ts_ms e, ie_node e, ie_kind e)"

lemma leaf_text_inj:
  assumes "clean_entry e" "clean_entry f" "leaf_text e = leaf_text f"
  shows "entry_facts e = entry_facts f"
proof -
  note s1 = sep_split [OF digits_sep_free digits_sep_free assms(3) [unfolded leaf_text_def]]
  note s2 = sep_split [OF digits_sep_free digits_sep_free s1(2)]
  note s3 = sep_split [OF tag_sep_free tag_sep_free s2(2)]
  have n: "SEP \<notin> set (ie_node e)" "SEP \<notin> set (ie_node f)" using assms(1,2) by (simp_all add: clean_entry_def)
  note s4 = sep_split [OF n s3(2)]
  have "ie_kind e = ie_kind f"
    by (rule kind_payload_inj [OF _ _ _ _ s3(1) s4(2)]) (use assms(1,2) in \<open>simp_all add: clean_entry_def\<close>)
  then show ?thesis using digits_inj [OF s1(1)] digits_inj [OF s2(1)] s4(1) by (simp add: entry_facts_def)
qed

lemma hashed_texts_append:
  "hashed_texts sha c (es @ fs) = hashed_texts sha c es @ hashed_texts sha (foldl (chain_step sha) c es) fs"
  by (induction es arbitrary: c) simp_all

lemma chain_head_length: "\<forall>x. length (sha x) = 32 \<Longrightarrow> length (foldl (chain_step sha) (sha g) es) = 32"
  by (cases es rule: rev_cases) (simp_all add: chain_step_def)

lemma fold_step_snoc: "foldl (chain_step sha) c (es @ [e]) = sha (step_text (foldl (chain_step sha) c es) (sha (leaf_text e)))"
  by (simp add: chain_step_def)

lemma chain_heads_equal:
  assumes len: "\<forall>x. length (sha x) = 32" and "inj_on sha T"
    and "insert (genesis_text d) (set (hashed_texts sha (sha (genesis_text d)) es)) \<subseteq> T"
    and "insert (genesis_text d') (set (hashed_texts sha (sha (genesis_text d')) fs)) \<subseteq> T"
    and "length d \<noteq> 41" "length d' \<noteq> 41"
    and "foldl (chain_step sha) (sha (genesis_text d)) es = foldl (chain_step sha) (sha (genesis_text d')) fs"
  shows "d = d' \<and> map leaf_text es = map leaf_text fs"
  using assms(3-)
proof (induction es arbitrary: fs rule: rev_induct)
  case Nil
  have steplen: "length (step_text c (sha x)) = length c + 33" for c x using len by (simp add: step_text_def)
  show ?case
  proof (cases fs rule: rev_cases)
    case Nil
    then have "sha (genesis_text d) = sha (genesis_text d')" using Nil.prems by simp
    then have "genesis_text d = genesis_text d'" by (rule inj_onD [OF assms(2)]) (use Nil.prems in auto)
    then show ?thesis using Nil by (simp add: genesis_text_def)
  next
    case (snoc fs' f)
    let ?c = "foldl (chain_step sha) (sha (genesis_text d')) fs'"
    have "sha (genesis_text d) = sha (step_text ?c (sha (leaf_text f)))"
      using Nil.prems(5) unfolding snoc fold_step_snoc by simp
    then have "genesis_text d = step_text ?c (sha (leaf_text f))"
      by (rule inj_onD [OF assms(2)]) (use Nil.prems snoc in \<open>auto simp: hashed_texts_append\<close>)
    then have "length (genesis_text d) = 65" using steplen chain_head_length [OF len] by simp
    then show ?thesis using Nil.prems(3) by (simp add: genesis_text_def)
  qed
next
  case (snoc e es)
  let ?c = "foldl (chain_step sha) (sha (genesis_text d)) es"
  have steplen: "length (step_text c (sha x)) = length c + 33" for c x using len by (simp add: step_text_def)
  show ?case
  proof (cases fs rule: rev_cases)
    case Nil
    have "sha (genesis_text d') = sha (step_text ?c (sha (leaf_text e)))"
      using snoc.prems(5) unfolding Nil fold_step_snoc by simp
    then have "genesis_text d' = step_text ?c (sha (leaf_text e))"
      by (rule inj_onD [OF assms(2)]) (use snoc.prems in \<open>auto simp: hashed_texts_append\<close>)
    then have "length (genesis_text d') = 65" using steplen chain_head_length [OF len] by simp
    then show ?thesis using snoc.prems(4) by (simp add: genesis_text_def)
  next
    case (snoc fs' f)
    let ?c' = "foldl (chain_step sha) (sha (genesis_text d')) fs'"
    have "sha (step_text ?c (sha (leaf_text e))) = sha (step_text ?c' (sha (leaf_text f)))"
      using snoc.prems(5) unfolding \<open>fs = fs' @ [f]\<close> fold_step_snoc .
    then have eq: "step_text ?c (sha (leaf_text e)) = step_text ?c' (sha (leaf_text f))"
      by (rule inj_onD [OF assms(2)]) (use snoc.prems snoc in \<open>auto simp: hashed_texts_append\<close>)
    have l: "length ?c = length ?c'" using chain_head_length [OF len] by simp
    have c: "?c = ?c'" and lf: "sha (leaf_text e) = sha (leaf_text f)"
      using eq l by (simp_all add: step_text_def)
    have "leaf_text e = leaf_text f"
      by (rule inj_onD [OF assms(2) lf]) (use snoc.prems snoc in \<open>auto simp: hashed_texts_append\<close>)
    moreover have "d = d' \<and> map leaf_text es = map leaf_text fs'"
      by (rule snoc.IH) (use snoc.prems snoc c in \<open>auto simp: hashed_texts_append\<close>)
    ultimately show ?thesis using snoc by simp
  qed
qed

section \<open>The statement\<close>


definition ex_sha :: "string \<Rightarrow> string" where
  "ex_sha x = replicate 32 (case x of c # r \<Rightarrow> if c = CHR ''h'' then CHR ''g'' else if c = CHR ''g'' then CHR ''s'' else c | [] \<Rightarrow> CHR ''e'')"

definition ex_entry :: integrity_entry where
  "ex_entry = \<lparr>ie_deployment_id = ''d'', ie_seq = 0, ie_ts_ms = 7, ie_node = ''n'', ie_kind = Published ''production''\<rparr>"


end
