(* ===== verification/Cloud_Ledger.thy ===== *)
theory Cloud_Ledger
  imports Build_Snapshot Integrity_Chain
begin

text \<open>
  The deployment ledger of a node (\<open>crates/hive-cloud/src/deployment_ledger.rs\<close>): which deployments were accepted and published, the alias
  transactions, the outbox of lifecycle events, and the file that holds them. Every operation changes a copy, checks it, writes it and
  only then replaces the state in memory. The clock, the nonces, the outcome of a write and the delivery of webhooks are arguments; JSON,
  the checksum over it and the length of a file are fields of an environment, with the written bytes as a type of their own. A JSON value
  is its canonical text.
\<close>

section \<open>Records\<close>

datatype source_kind = Source_Git | Source_Upload | Source_Prebuilt_Image

record source_identity =
  si_kind :: source_kind
  si_repository :: string
  si_branch :: string
  si_revision :: string

record readiness_function =
  rd_function :: string
  rd_cell_id :: string
  rd_status :: "nat option"
  rd_response_bytes :: nat
  rd_response_truncated :: bool
  rd_raw_bound :: bool

record readiness_receipt =
  ry_deployment_id :: string
  ry_observed_ms :: nat
  ry_functions :: "readiness_function list"
  ry_static_root_open :: bool
  ry_static_status :: "nat option"
  ry_static_response_bytes :: nat
  ry_static_response_truncated :: bool

record runtime_artifact =
  rt_protocol :: nat
  rt_id :: string
  rt_content_sha256 :: string

record acceptance_input =
  ai_deployment_id :: string
  ai_project :: string
  ai_target :: string
  ai_source :: source_identity
  ai_repository_build :: "repository_snapshot option"
  ai_runtime_artifact :: "runtime_artifact option"
  ai_readiness :: readiness_receipt

record deployment_acceptance =
  da_input :: acceptance_input
  da_node :: string
  da_boot_nonce :: string
  da_accepted_ms :: nat
  da_published_ms :: "nat option"
  da_chain :: "integrity_entry list"

record legacy_ready =
  lr_deployment_id :: string
  lr_project :: string
  lr_created_ms :: nat
  lr_imported_ms :: nat
  lr_reason :: string

datatype restore_authority = Authority_Proven | Authority_Legacy | Authority_Refused

datatype alias_state = Alias_Prepared | Alias_Applied | Alias_Aborted

record alias_transaction =
  at_revision :: nat
  at_project :: string
  at_from :: "string option"
  at_to :: string
  at_prepared_ms :: nat
  at_state :: alias_state
  at_finished_ms :: "nat option"
  at_reason :: "string option"

record outbox_entry =
  ob_id :: string
  ob_event :: string
  ob_project :: string
  ob_deployment_id :: string
  ob_payload :: string
  ob_created_ms :: nat
  ob_delivered_ms :: "nat option"

record ledger_payload =
  lp_schema :: nat
  lp_node :: string
  lp_created_ms :: nat
  lp_boot_nonce :: string
  lp_revision :: nat
  lp_alias_revision :: nat
  lp_accepted :: "(string, deployment_acceptance) table"
  lp_legacy_ready :: "(string, legacy_ready) table"
  lp_aliases :: "alias_transaction list"
  lp_outbox :: "(string, outbox_entry) table"

datatype ledger_error =
    Invalid_Field string | Invalid_Digest string | Invalid_Target | Receipt_Of_Other_Deployment | Empty_Source_Revision
  | Invalid_Source_Revision | Snapshot_Refused bc_error | Unsupported_Artifact nat | Functions_Unordered | Function_Unproven string
  | Unsupported_Schema | Empty_Node | No_Creation_Time | Aliases_Unordered | Acceptance_Key_Mismatch | Acceptance_Of_Other_Node
  | Two_Authorities string | Legacy_Key_Mismatch | Legacy_Not_Older string | Legacy_Without_Reason string | Outbox_Key_Mismatch
  | Unsupported_Event string | Duplicate_Restore string | Different_Acceptance string | Not_Accepted string | Not_Published string
  | Wrong_Project string | Different_Predecessor nat | Alias_Overflow | Unknown_Alias nat | Alias_Is_Aborted nat | Alias_Is_Applied nat
  | Empty_Abort_Reason | Different_Event string | Unknown_Event string | Revision_Overflow | Ledger_Too_Large | Write_Failed
  | Open_Failed | Undecodable | Sentinel_Mismatch | Checksum_Mismatch | Ledger_Of_Other_Node | Empty_Identity

definition SCHEMA :: nat where "SCHEMA = 1"
definition SENTINEL :: string where "SENTINEL = ''HIVE_DEPLOYMENT_LEDGER_V1''"
definition MAX_LEDGER_BYTES :: nat where "MAX_LEDGER_BYTES = 64 * 1024 * 1024"
definition ARTIFACT_PROTOCOL :: nat where "ARTIFACT_PROTOCOL = 1"

text \<open>JSON and SHA-256: the digest of a repository snapshot and the encoding of its contract, the bytes of a payload with their checksum,
  and the length of the whole file.\<close>

record 'raw ledger_env =
  le_sha :: "string \<Rightarrow> string"
  le_encode_repository :: "repository_contract \<Rightarrow> string"
  le_encode :: "ledger_payload \<Rightarrow> 'raw"
  le_decode :: "'raw \<Rightarrow> ledger_payload option"
  le_checksum :: "'raw \<Rightarrow> string"
  le_file_len :: "ledger_payload \<Rightarrow> nat"

section \<open>Validation\<close>

definition check_identifier :: "string \<Rightarrow> string \<Rightarrow> ledger_error option" where
  "check_identifier value label =
     need (trim value \<noteq> [] \<and> length value \<le> 4096 \<and> \<not> has_control value) (Invalid_Field label)"

definition check_digest :: "string \<Rightarrow> string \<Rightarrow> ledger_error option" where
  "check_digest value label = need (length value = 64 \<and> lower_hex value) (Invalid_Digest label)"

definition check_source_identity :: "source_identity \<Rightarrow> ledger_error option" where
  "check_source_identity s =
     first_error
       [need (trim (si_revision s) \<noteq> []) Empty_Source_Revision,
        need (length (si_revision s) \<le> 4096 \<and> CHR 0x00 \<notin> set (si_revision s)) Invalid_Source_Revision,
        need (length (si_repository s) \<le> 16 * 1024 \<and> CHR 0x00 \<notin> set (si_repository s)) (Invalid_Field ''source repository''),
        need (length (si_branch s) \<le> 16 * 1024 \<and> CHR 0x00 \<notin> set (si_branch s)) (Invalid_Field ''source branch'')]"

fun check_readiness_functions :: "string option \<Rightarrow> readiness_function list \<Rightarrow> ledger_error option" where
  "check_readiness_functions previous [] = None"
| "check_readiness_functions previous (f # fs) =
     first_error
       [check_identifier (rd_function f) ''readiness function'', check_identifier (rd_cell_id f) ''readiness cell id'',
        need (case previous of None \<Rightarrow> True | Some name \<Rightarrow> name < rd_function f) Functions_Unordered,
        need (rd_raw_bound f \<or> rd_status f \<noteq> None) (Function_Unproven (rd_function f)),
        check_readiness_functions (Some (rd_function f)) fs]"

definition check_acceptance_input :: "'raw ledger_env \<Rightarrow> acceptance_input \<Rightarrow> ledger_error option" where
  "check_acceptance_input env i =
     first_error
       [check_identifier (ai_deployment_id i) ''deployment id'', check_identifier (ai_project i) ''project'',
        need (ai_target i = ''production'' \<or> ai_target i = ''preview'') Invalid_Target,
        need (ry_deployment_id (ai_readiness i) = ai_deployment_id i) Receipt_Of_Other_Deployment,
        check_source_identity (ai_source i),
        (case ai_repository_build i of
           None \<Rightarrow> None
         | Some s \<Rightarrow> (case repository_verify (le_sha env) (le_encode_repository env) s of Inl e \<Rightarrow> Some (Snapshot_Refused e) | Inr _ \<Rightarrow> None)),
        (case ai_runtime_artifact i of
           None \<Rightarrow> None
         | Some a \<Rightarrow> first_error
             [need (rt_protocol a = ARTIFACT_PROTOCOL) (Unsupported_Artifact (rt_protocol a)),
              check_identifier (rt_id a) ''runtime artifact id'',
              check_digest (rt_content_sha256 a) ''runtime artifact content digest'']),
        check_readiness_functions None (ry_functions (ai_readiness i))]"

fun check_aliases :: "nat \<Rightarrow> nat \<Rightarrow> alias_transaction list \<Rightarrow> ledger_error option" where
  "check_aliases limit prev [] = None"
| "check_aliases limit prev (t # ts) =
     first_error [need (prev < at_revision t \<and> at_revision t \<le> limit) Aliases_Unordered, check_aliases limit (at_revision t) ts]"

definition check_accepted :: "'raw ledger_env \<Rightarrow> ledger_payload \<Rightarrow> string \<times> deployment_acceptance \<Rightarrow> ledger_error option" where
  "check_accepted env p ka =
     (case ka of (k, a) \<Rightarrow>
        first_error
          [need (k = ai_deployment_id (da_input a)) Acceptance_Key_Mismatch,
           check_acceptance_input env (da_input a),
           need (da_node a = lp_node p) Acceptance_Of_Other_Node,
           check_digest (da_boot_nonce a) ''deployment acceptance boot nonce'',
           need (tget (lp_legacy_ready p) k = None) (Two_Authorities k)])"

definition check_legacy :: "ledger_payload \<Rightarrow> string \<times> legacy_ready \<Rightarrow> ledger_error option" where
  "check_legacy p kl =
     (case kl of (k, l) \<Rightarrow>
        first_error
          [need (k = lr_deployment_id l) Legacy_Key_Mismatch,
           check_identifier k ''legacy-ready deployment id'', check_identifier (lr_project l) ''legacy-ready project'',
           need (lr_created_ms l \<le> lp_created_ms p) (Legacy_Not_Older k),
           need (trim (lr_reason l) \<noteq> []) (Legacy_Without_Reason k)])"

definition check_event :: "string \<times> outbox_entry \<Rightarrow> ledger_error option" where
  "check_event ke =
     (case ke of (k, e) \<Rightarrow>
        first_error
          [need (k = ob_id e) Outbox_Key_Mismatch,
           check_identifier (ob_id e) ''lifecycle event id'', check_identifier (ob_project e) ''lifecycle event project'',
           check_identifier (ob_deployment_id e) ''lifecycle event deployment'',
           need (ob_event e = ''deployment.ready'' \<or> ob_event e = ''deployment.promoted'') (Unsupported_Event (ob_event e))])"

definition validate_payload :: "'raw ledger_env \<Rightarrow> ledger_payload \<Rightarrow> ledger_error option" where
  "validate_payload env p =
     first_error
       ([need (lp_schema p = SCHEMA) Unsupported_Schema,
         need (trim (lp_node p) \<noteq> []) Empty_Node,
         need (0 < lp_created_ms p) No_Creation_Time,
         (if lp_boot_nonce p = [] then None else check_digest (lp_boot_nonce p) ''deployment ledger boot nonce''),
         check_aliases (lp_alias_revision p) 0 (lp_aliases p)] @
        map (check_accepted env p) (sort_key fst (lp_accepted p)) @
        map (check_legacy p) (sort_key fst (lp_legacy_ready p)) @
        map check_event (sort_key fst (lp_outbox p)))"

section \<open>The file\<close>

record 'raw stored_ledger =
  sl_sentinel :: string
  sl_payload :: 'raw
  sl_checksum :: string
  sl_size :: nat

text \<open>What the path holds: nothing, something that cannot be opened, something that is not the JSON of a ledger, or a ledger.\<close>

datatype 'raw ledger_disk = No_Ledger | Ledger_Unreadable | Ledger_Garbage nat | Ledger_File "'raw stored_ledger"

definition load_payload :: "'raw ledger_env \<Rightarrow> 'raw ledger_disk \<Rightarrow> ledger_error + ledger_payload option" where
  "load_payload env disk =
     (case disk of
        No_Ledger \<Rightarrow> Inr None
      | Ledger_Unreadable \<Rightarrow> Inl Open_Failed
      | Ledger_Garbage bytes \<Rightarrow> Inl (if MAX_LEDGER_BYTES < bytes then Ledger_Too_Large else Undecodable)
      | Ledger_File f \<Rightarrow>
          if MAX_LEDGER_BYTES < sl_size f then Inl Ledger_Too_Large
          else if sl_sentinel f \<noteq> SENTINEL then Inl Sentinel_Mismatch
          else
            (case check_digest (sl_checksum f) ''deployment ledger checksum'' of
               Some e \<Rightarrow> Inl e
             | None \<Rightarrow>
                 if le_checksum env (sl_payload f) \<noteq> sl_checksum f then Inl Checksum_Mismatch
                 else
                   (case le_decode env (sl_payload f) of
                      None \<Rightarrow> Inl Undecodable
                    | Some p \<Rightarrow> checked (validate_payload env p) (Some p))))"

text \<open>A write goes through, is lost, or fails after the file was renamed (the directory could not be synchronised).\<close>

datatype write_outcome = Written | Write_Lost | Write_Late

definition ledger_file :: "'raw ledger_env \<Rightarrow> ledger_payload \<Rightarrow> 'raw ledger_disk" where
  "ledger_file env p =
     Ledger_File \<lparr>sl_sentinel = SENTINEL, sl_payload = le_encode env p, sl_checksum = le_checksum env (le_encode env p),
       sl_size = le_file_len env p\<rparr>"

definition write_payload ::
    "'raw ledger_env \<Rightarrow> write_outcome \<Rightarrow> ledger_payload \<Rightarrow> 'raw ledger_disk \<Rightarrow> ledger_error option \<times> 'raw ledger_disk" where
  "write_payload env outcome p disk =
     (case validate_payload env p of
        Some e \<Rightarrow> (Some e, disk)
      | None \<Rightarrow>
          if MAX_LEDGER_BYTES < le_file_len env p then (Some Ledger_Too_Large, disk)
          else (case outcome of
                  Written \<Rightarrow> (None, ledger_file env p)
                | Write_Lost \<Rightarrow> (Some Write_Failed, disk)
                | Write_Late \<Rightarrow> (Some Write_Failed, ledger_file env p)))"

definition bump_revision :: "ledger_payload \<Rightarrow> ledger_error + ledger_payload" where
  "bump_revision p =
     (if lp_revision p + 1 < 2 ^ 64 then Inr (p\<lparr>lp_revision := lp_revision p + 1\<rparr>) else Inl Revision_Overflow)"

text \<open>A ledger that is open, and its file.\<close>

record 'raw ledger_node =
  ln_state :: "ledger_payload option"
  ln_disk :: "'raw ledger_disk"

definition fresh_payload :: "string \<Rightarrow> nat \<Rightarrow> ledger_payload" where
  "fresh_payload node now = \<lparr>lp_schema = SCHEMA, lp_node = node, lp_created_ms = now, lp_boot_nonce = [], lp_revision = 0,
     lp_alias_revision = 0, lp_accepted = [], lp_legacy_ready = [], lp_aliases = [], lp_outbox = []\<rparr>"

text \<open>What opening starts from: the stored payload of this node, or a fresh one.\<close>

definition ledger_base :: "'raw ledger_env \<Rightarrow> string \<Rightarrow> nat \<Rightarrow> 'raw ledger_disk \<Rightarrow> ledger_error + ledger_payload" where
  "ledger_base env node now disk =
     (case load_payload env disk of
        Inl e \<Rightarrow> Inl e
      | Inr (Some p) \<Rightarrow> if lp_node p = node then Inr p else Inl Ledger_Of_Other_Node
      | Inr None \<Rightarrow> Inr (fresh_payload node now))"

definition ledger_open ::
    "'raw ledger_env \<Rightarrow> string \<Rightarrow> string \<Rightarrow> nat \<Rightarrow> write_outcome \<Rightarrow> 'raw ledger_disk \<Rightarrow> (ledger_error + unit) \<times> 'raw ledger_node" where
  "ledger_open env node nonce now outcome disk =
     (let closed_node = \<lparr>ln_state = None, ln_disk = disk\<rparr>
      in if trim node = [] then (Inl Empty_Identity, closed_node)
         else
           (case ledger_base env node now disk of
              Inl e \<Rightarrow> (Inl e, closed_node)
            | Inr p \<Rightarrow>
                (case validate_payload env p of
                   Some e \<Rightarrow> (Inl e, closed_node)
                 | None \<Rightarrow>
                     (case bump_revision (p\<lparr>lp_boot_nonce := nonce\<rparr>) of
                        Inl e \<Rightarrow> (Inl e, closed_node)
                      | Inr q \<Rightarrow>
                          (case write_payload env outcome q disk of
                             (Some e, disk') \<Rightarrow> (Inl e, \<lparr>ln_state = None, ln_disk = disk'\<rparr>)
                           | (None, disk') \<Rightarrow> (Inr (), \<lparr>ln_state = Some q, ln_disk = disk'\<rparr>))))))"

text \<open>A mutation of the copy: an error, or an answer and the new payload.\<close>

type_synonym 'a mutation = "ledger_payload \<Rightarrow> ledger_error + 'a \<times> ledger_payload"

definition mutate ::
    "'raw ledger_env \<Rightarrow> write_outcome \<Rightarrow> 'a mutation \<Rightarrow> ledger_payload \<Rightarrow> 'raw ledger_disk
      \<Rightarrow> (ledger_error + 'a) \<times> ledger_payload \<times> 'raw ledger_disk" where
  "mutate env outcome f current disk =
     (case f current of
        Inl e \<Rightarrow> (Inl e, current, disk)
      | Inr (r, next) \<Rightarrow>
          (case validate_payload env next of
             Some e \<Rightarrow> (Inl e, current, disk)
           | None \<Rightarrow>
               (case bump_revision next of
                  Inl e \<Rightarrow> (Inl e, current, disk)
                | Inr next' \<Rightarrow>
                    (case write_payload env outcome next' disk of
                       (Some e, disk') \<Rightarrow> (Inl e, current, disk')
                     | (None, disk') \<Rightarrow> (Inr r, next', disk')))))"

section \<open>Operations\<close>

definition authority_of :: "(string, restore_authority) table \<Rightarrow> string \<Rightarrow> restore_authority option" where
  "authority_of t d = tget t d"

definition legacy_reason :: string where
  "legacy_reason = ''ready record predates deployment-ledger installation; preserved only as a serving predecessor and never accepted as readiness proof''"

text \<open>The batch of a restore, as deployment, project and creation time; \<open>now\<close> is the clock at each position.\<close>

fun restore_batch ::
    "(nat \<Rightarrow> nat) \<Rightarrow> nat \<Rightarrow> (string \<times> string \<times> nat) list \<Rightarrow> (string, restore_authority) table
      \<Rightarrow> (string, restore_authority) table mutation" where
  "restore_batch now n [] answers p = Inr (answers, p)"
| "restore_batch now n ((d, project, created) # rest) answers p =
     (case first_error [check_identifier d ''restored deployment id'', check_identifier project ''restored deployment project'',
         need (tget answers d = None) (Duplicate_Restore d)] of
        Some e \<Rightarrow> Inl e
      | None \<Rightarrow>
          (case tget (lp_accepted p) d of
             Some a \<Rightarrow>
               restore_batch now (Suc n) rest
                 (tput d (if ai_project (da_input a) = project \<and> da_published_ms a \<noteq> None then Authority_Proven else Authority_Refused) answers) p
           | None \<Rightarrow>
               (case tget (lp_legacy_ready p) d of
                  Some l \<Rightarrow>
                    restore_batch now (Suc n) rest
                      (tput d (if lr_project l = project \<and> lr_created_ms l = created then Authority_Legacy else Authority_Refused) answers) p
                | None \<Rightarrow>
                    if lp_created_ms p < created then restore_batch now (Suc n) rest (tput d Authority_Refused answers) p
                    else restore_batch now (Suc n) rest (tput d Authority_Legacy answers)
                      (p\<lparr>lp_legacy_ready := tput d \<lparr>lr_deployment_id = d, lr_project = project, lr_created_ms = created,
                          lr_imported_ms = now n, lr_reason = legacy_reason\<rparr> (lp_legacy_ready p)\<rparr>))))"

definition authorize_restore_batch ::
    "(nat \<Rightarrow> nat) \<Rightarrow> (string \<times> string \<times> nat) list \<Rightarrow> (string, restore_authority) table mutation" where
  "authorize_restore_batch now deployments = restore_batch now 0 deployments []"

definition has_proven_acceptance :: "string \<Rightarrow> ledger_payload \<Rightarrow> bool" where
  "has_proven_acceptance d p \<longleftrightarrow> (case tget (lp_accepted p) d of Some a \<Rightarrow> da_published_ms a \<noteq> None | None \<Rightarrow> False)"

definition build_entry :: "ledger_payload \<Rightarrow> nat \<Rightarrow> acceptance_input \<Rightarrow> integrity_entry" where
  "build_entry p now i =
     \<lparr>ie_deployment_id = ai_deployment_id i, ie_seq = 0, ie_ts_ms = now, ie_node = lp_node p,
      ie_kind = Build_Accepted (si_revision (ai_source i))
        (case ai_runtime_artifact i of Some a \<Rightarrow> rt_content_sha256 a | None \<Rightarrow> [])
        (map_option rs_digest (ai_repository_build i))\<rparr>"

definition accept_mutation :: "acceptance_input \<Rightarrow> nat \<Rightarrow> unit mutation" where
  "accept_mutation i now p =
     (case tget (lp_accepted p) (ai_deployment_id i) of
        Some existing \<Rightarrow> if da_input existing = i then Inr ((), p) else Inl (Different_Acceptance (ai_deployment_id i))
      | None \<Rightarrow>
          Inr ((), p\<lparr>lp_accepted := tput (ai_deployment_id i)
            \<lparr>da_input = i, da_node = lp_node p, da_boot_nonce = lp_boot_nonce p, da_accepted_ms = now, da_published_ms = None,
             da_chain = [build_entry p now i]\<rparr> (lp_accepted p)\<rparr>))"

definition next_seq :: "integrity_entry list \<Rightarrow> nat" where
  "next_seq chain = (if chain = [] then 0 else wadd64 (ie_seq (last chain)) 1)"

definition extend_chain :: "ledger_payload \<Rightarrow> string \<Rightarrow> nat \<Rightarrow> entry_kind \<Rightarrow> integrity_entry list \<Rightarrow> integrity_entry list" where
  "extend_chain p d now kind chain =
     chain @ [\<lparr>ie_deployment_id = d, ie_seq = next_seq chain, ie_ts_ms = now, ie_node = lp_node p, ie_kind = kind\<rparr>]"

definition append_integrity_entry :: "string \<Rightarrow> entry_kind \<Rightarrow> nat \<Rightarrow> unit mutation" where
  "append_integrity_entry d kind now p =
     (case tget (lp_accepted p) d of
        None \<Rightarrow> Inr ((), p)
      | Some a \<Rightarrow> Inr ((), p\<lparr>lp_accepted := tput d (a\<lparr>da_chain := extend_chain p d now kind (da_chain a)\<rparr>) (lp_accepted p)\<rparr>))"

text \<open>An event that is in the outbox already has to be the same, its delivery aside.\<close>

definition insert_outbox :: "outbox_entry \<Rightarrow> ledger_payload \<Rightarrow> ledger_error + ledger_payload" where
  "insert_outbox e p =
     (case tget (lp_outbox p) (ob_id e) of
        Some old \<Rightarrow> if old\<lparr>ob_delivered_ms := None\<rparr> = e\<lparr>ob_delivered_ms := None\<rparr> then Inr p else Inl (Different_Event (ob_id e))
      | None \<Rightarrow> Inr (p\<lparr>lp_outbox := tput (ob_id e) e (lp_outbox p)\<rparr>))"

definition ready_id :: "string \<Rightarrow> string" where "ready_id d = ''deployment.ready:'' @ d"
definition promoted_id :: "nat \<Rightarrow> string" where "promoted_id r = ''deployment.promoted:'' @ nat_to_string r"

definition publish_acceptance :: "ledger_payload \<Rightarrow> string \<Rightarrow> nat \<Rightarrow> deployment_acceptance \<Rightarrow> deployment_acceptance" where
  "publish_acceptance p d now a =
     (if da_published_ms a = None
      then a\<lparr>da_published_ms := Some now, da_chain := extend_chain p d now (Published (ai_target (da_input a))) (da_chain a)\<rparr>
      else a)"

definition ready_event :: "string \<Rightarrow> deployment_acceptance \<Rightarrow> string \<Rightarrow> nat \<Rightarrow> outbox_entry" where
  "ready_event d a payload published = \<lparr>ob_id = ready_id d, ob_event = ''deployment.ready'', ob_project = ai_project (da_input a),
     ob_deployment_id = d, ob_payload = payload, ob_created_ms = published, ob_delivered_ms = None\<rparr>"

definition publish_mutation :: "string \<Rightarrow> string \<Rightarrow> nat \<Rightarrow> string mutation" where
  "publish_mutation d payload now p =
     (case tget (lp_accepted p) d of
        None \<Rightarrow> Inl (Not_Accepted d)
      | Some a0 \<Rightarrow>
          (let a = publish_acceptance p d now a0;
               p1 = p\<lparr>lp_accepted := tput d a (lp_accepted p)\<rparr>
           in bind_result (insert_outbox (ready_event d a payload (case da_published_ms a of Some t \<Rightarrow> t | None \<Rightarrow> now)) p1)
                (\<lambda>p2. Inr (ready_id d, p2))))"

definition pending_alias :: "string \<Rightarrow> string \<Rightarrow> ledger_payload \<Rightarrow> alias_transaction option" where
  "pending_alias project d p =
     find (\<lambda>t. at_project t = project \<and> at_to t = d \<and> at_state t = Alias_Prepared) (rev (lp_aliases p))"

definition prepare_mutation :: "string \<Rightarrow> string option \<Rightarrow> string \<Rightarrow> nat \<Rightarrow> nat mutation" where
  "prepare_mutation project from d now p =
     (case tget (lp_accepted p) d of
        None \<Rightarrow> Inl (Not_Accepted d)
      | Some a \<Rightarrow>
          if da_published_ms a = None then Inl (Not_Published d)
          else if ai_project (da_input a) \<noteq> project then Inl (Wrong_Project d)
          else
            (case pending_alias project d p of
               Some t \<Rightarrow> if at_from t = from then Inr (at_revision t, p) else Inl (Different_Predecessor (at_revision t))
             | None \<Rightarrow>
                 if lp_alias_revision p + 1 < 2 ^ 64
                 then (let r = lp_alias_revision p + 1
                       in Inr (r, p\<lparr>lp_alias_revision := r,
                            lp_aliases := lp_aliases p @ [\<lparr>at_revision = r, at_project = project, at_from = from, at_to = d,
                              at_prepared_ms = now, at_state = Alias_Prepared, at_finished_ms = None, at_reason = None\<rparr>]\<rparr>))
                 else Inl Alias_Overflow))"

definition find_alias :: "nat \<Rightarrow> ledger_payload \<Rightarrow> alias_transaction option" where
  "find_alias r p = find (\<lambda>t. at_revision t = r) (lp_aliases p)"

definition apply_alias :: "nat \<Rightarrow> alias_transaction \<Rightarrow> alias_transaction" where
  "apply_alias now t = (if at_state t = Alias_Prepared then t\<lparr>at_state := Alias_Applied, at_finished_ms := Some now\<rparr> else t)"

definition promoted_event :: "alias_transaction \<Rightarrow> string \<Rightarrow> outbox_entry" where
  "promoted_event t payload = \<lparr>ob_id = promoted_id (at_revision t), ob_event = ''deployment.promoted'', ob_project = at_project t,
     ob_deployment_id = at_to t, ob_payload = payload,
     ob_created_ms = (case at_finished_ms t of Some f \<Rightarrow> f | None \<Rightarrow> at_prepared_ms t), ob_delivered_ms = None\<rparr>"

definition applied_mutation :: "nat \<Rightarrow> string \<Rightarrow> nat \<Rightarrow> string mutation" where
  "applied_mutation r payload now p =
     (case find_alias r p of
        None \<Rightarrow> Inl (Unknown_Alias r)
      | Some t \<Rightarrow>
          if at_state t = Alias_Aborted then Inl (Alias_Is_Aborted r)
          else
            (let p1 = p\<lparr>lp_aliases := upd_first (\<lambda>t. at_revision t = r) (apply_alias now) (lp_aliases p)\<rparr>
             in bind_result (insert_outbox (promoted_event (apply_alias now t) payload) p1) (\<lambda>p2. Inr (promoted_id r, p2))))"

definition abort_mutation :: "nat \<Rightarrow> string \<Rightarrow> nat \<Rightarrow> unit mutation" where
  "abort_mutation r reason now p =
     (case find_alias r p of
        None \<Rightarrow> Inl (Unknown_Alias r)
      | Some t \<Rightarrow>
          if at_state t = Alias_Applied then Inl (Alias_Is_Applied r)
          else Inr ((), p\<lparr>lp_aliases := upd_first (\<lambda>t. at_revision t = r)
            (\<lambda>t. t\<lparr>at_state := Alias_Aborted, at_finished_ms := Some now, at_reason := Some reason\<rparr>) (lp_aliases p)\<rparr>))"

definition pending_aliases :: "ledger_payload \<Rightarrow> alias_transaction list" where
  "pending_aliases p = filter (\<lambda>t. at_state t = Alias_Prepared) (lp_aliases p)"

definition pending_outbox :: "ledger_payload \<Rightarrow> outbox_entry list" where
  "pending_outbox p = filter (\<lambda>e. ob_delivered_ms e = None) (map snd (sort_key fst (lp_outbox p)))"

definition delivered_mutation :: "string \<Rightarrow> nat \<Rightarrow> unit mutation" where
  "delivered_mutation e now p =
     (case tget (lp_outbox p) e of
        None \<Rightarrow> Inl (Unknown_Event e)
      | Some x \<Rightarrow> Inr ((), p\<lparr>lp_outbox := tput e (if ob_delivered_ms x = None then x\<lparr>ob_delivered_ms := Some now\<rparr> else x) (lp_outbox p)\<rparr>))"

section \<open>The ledger in use\<close>

text \<open>The calls, with the checks each makes before it touches the state. The observer of executions records a start or an end and drops
  any error.\<close>

datatype ledger_call =
    Authorize_Restore "(string \<times> string \<times> nat) list"
  | Accept acceptance_input
  | Observe_Started string string string
  | Observe_Ended string string nat string
  | Mark_Published string string
  | Prepare_Alias string "string option" string
  | Mark_Applied nat string
  | Abort_Alias nat string
  | Mark_Delivered string

datatype ledger_answer =
    Done | Authorities "(string, restore_authority) table" | Event_Id string | Alias_Revision nat

definition answer_with :: "('a \<Rightarrow> ledger_answer) \<Rightarrow> 'a mutation \<Rightarrow> ledger_answer mutation" where
  "answer_with g f p = (case f p of Inl e \<Rightarrow> Inl e | Inr (r, q) \<Rightarrow> Inr (g r, q))"

definition call_check :: "'raw ledger_env \<Rightarrow> ledger_call \<Rightarrow> ledger_error option" where
  "call_check env c =
     (case c of
        Accept i \<Rightarrow> check_acceptance_input env i
      | Mark_Published d payload \<Rightarrow> check_identifier d ''deployment id''
      | Prepare_Alias project from d \<Rightarrow>
          first_error [check_identifier project ''project'', check_identifier d ''target deployment id'',
            (case from of Some f \<Rightarrow> check_identifier f ''prior deployment id'' | None \<Rightarrow> None)]
      | Abort_Alias r reason \<Rightarrow> need (trim reason \<noteq> []) Empty_Abort_Reason
      | Mark_Delivered e \<Rightarrow> check_identifier e ''lifecycle event id''
      | _ \<Rightarrow> None)"

definition call_mutation :: "(nat \<Rightarrow> nat) \<Rightarrow> ledger_call \<Rightarrow> ledger_answer mutation" where
  "call_mutation now c =
     (case c of
        Authorize_Restore ds \<Rightarrow> answer_with Authorities (authorize_restore_batch now ds)
      | Accept i \<Rightarrow> answer_with (\<lambda>_. Done) (accept_mutation i (now 0))
      | Observe_Started d cell backend \<Rightarrow> answer_with (\<lambda>_. Done) (append_integrity_entry d (Execution_Started cell backend) (now 0))
      | Observe_Ended d cell served outcome \<Rightarrow>
          answer_with (\<lambda>_. Done) (append_integrity_entry d (Execution_Ended cell served outcome) (now 0))
      | Mark_Published d payload \<Rightarrow> answer_with Event_Id (publish_mutation d payload (now 0))
      | Prepare_Alias project from d \<Rightarrow> answer_with Alias_Revision (prepare_mutation project from d (now 0))
      | Mark_Applied r payload \<Rightarrow> answer_with Event_Id (applied_mutation r payload (now 0))
      | Abort_Alias r reason \<Rightarrow> answer_with (\<lambda>_. Done) (abort_mutation r reason (now 0))
      | Mark_Delivered e \<Rightarrow> answer_with (\<lambda>_. Done) (delivered_mutation e (now 0)))"

definition ledger_call_step ::
    "'raw ledger_env \<Rightarrow> (nat \<Rightarrow> nat) \<Rightarrow> write_outcome \<Rightarrow> ledger_call \<Rightarrow> ledger_payload \<Rightarrow> 'raw ledger_disk
      \<Rightarrow> (ledger_error + ledger_answer) \<times> ledger_payload \<times> 'raw ledger_disk" where
  "ledger_call_step env now outcome c p disk =
     (case call_check env c of
        Some e \<Rightarrow> (Inl e, p, disk)
      | None \<Rightarrow> mutate env outcome (call_mutation now c) p disk)"

text \<open>What happens on a node: calls, and restarts that open the file again with a new nonce. A node whose ledger could not be opened makes
  no calls.\<close>

datatype ledger_event =
    Call ledger_call "nat \<Rightarrow> nat" write_outcome
  | Restart string nat write_outcome

definition ledger_step :: "'raw ledger_env \<Rightarrow> string \<Rightarrow> ledger_event \<Rightarrow> 'raw ledger_node \<Rightarrow> (ledger_error + ledger_answer) option \<times> 'raw ledger_node" where
  "ledger_step env node e nd =
     (case e of
        Call c now outcome \<Rightarrow>
          (case ln_state nd of
             None \<Rightarrow> (None, nd)
           | Some p \<Rightarrow>
               (case ledger_call_step env now outcome c p (ln_disk nd) of
                  (r, q, disk') \<Rightarrow> (Some r, \<lparr>ln_state = Some q, ln_disk = disk'\<rparr>)))
      | Restart nonce now outcome \<Rightarrow> (None, snd (ledger_open env node nonce now outcome (ln_disk nd))))"

fun ledger_run :: "'raw ledger_env \<Rightarrow> string \<Rightarrow> ledger_event list \<Rightarrow> 'raw ledger_node \<Rightarrow> 'raw ledger_node" where
  "ledger_run env node [] nd = nd"
| "ledger_run env node (e # es) nd = ledger_run env node es (snd (ledger_step env node e nd))"

text \<open>One round of the outbox: every pending event is offered to the webhooks and acknowledged when they took it.\<close>

fun drain_entries ::
    "'raw ledger_env \<Rightarrow> (outbox_entry \<Rightarrow> bool) \<Rightarrow> (nat \<Rightarrow> nat) \<Rightarrow> (outbox_entry \<Rightarrow> write_outcome) \<Rightarrow> outbox_entry list
      \<Rightarrow> ledger_payload \<Rightarrow> 'raw ledger_disk \<Rightarrow> ledger_payload \<times> 'raw ledger_disk" where
  "drain_entries env deliver now outcome [] p disk = (p, disk)"
| "drain_entries env deliver now outcome (e # es) p disk =
     (if deliver e
      then (case ledger_call_step env now (outcome e) (Mark_Delivered (ob_id e)) p disk of
              (r, q, disk') \<Rightarrow> drain_entries env deliver now outcome es q disk')
      else drain_entries env deliver now outcome es p disk)"

definition drain_outbox_once ::
    "'raw ledger_env \<Rightarrow> (outbox_entry \<Rightarrow> bool) \<Rightarrow> (nat \<Rightarrow> nat) \<Rightarrow> (outbox_entry \<Rightarrow> write_outcome) \<Rightarrow> ledger_payload \<Rightarrow> 'raw ledger_disk
      \<Rightarrow> ledger_payload \<times> 'raw ledger_disk" where
  "drain_outbox_once env deliver now outcome p disk = drain_entries env deliver now outcome (pending_outbox p) p disk"

end
