(* ===== verification/Cloud_Ledger_Props.thy ===== *)
theory Cloud_Ledger_Props
  imports Cloud_Ledger
begin

text \<open>
  What the deployment ledger promises: nothing in it is ever taken back, whatever writes fail and however often the node restarts; what a
  call answered is on disk; and the evidence it holds fits together.
\<close>

section \<open>Growing\<close>

definition acceptance_le :: "deployment_acceptance \<Rightarrow> deployment_acceptance \<Rightarrow> bool" where
  "acceptance_le a b \<longleftrightarrow>
     da_input b = da_input a \<and> da_node b = da_node a \<and> da_boot_nonce b = da_boot_nonce a \<and> da_accepted_ms b = da_accepted_ms a \<and>
     (da_published_ms a = None \<or> da_published_ms b = da_published_ms a) \<and> (\<exists>more. da_chain b = da_chain a @ more)"

definition alias_le :: "alias_transaction \<Rightarrow> alias_transaction \<Rightarrow> bool" where
  "alias_le t u \<longleftrightarrow>
     at_revision u = at_revision t \<and> at_project u = at_project t \<and> at_from u = at_from t \<and> at_to u = at_to t \<and>
     at_prepared_ms u = at_prepared_ms t \<and>
     (case at_state t of Alias_Prepared \<Rightarrow> True | Alias_Applied \<Rightarrow> u = t | Alias_Aborted \<Rightarrow> at_state u = Alias_Aborted)"

definition event_le :: "outbox_entry \<Rightarrow> outbox_entry \<Rightarrow> bool" where
  "event_le e f \<longleftrightarrow>
     f\<lparr>ob_delivered_ms := None\<rparr> = e\<lparr>ob_delivered_ms := None\<rparr> \<and> (ob_delivered_ms e = None \<or> ob_delivered_ms f = ob_delivered_ms e)"

definition ledger_le :: "ledger_payload \<Rightarrow> ledger_payload \<Rightarrow> bool" where
  "ledger_le p q \<longleftrightarrow>
     lp_node q = lp_node p \<and> lp_created_ms q = lp_created_ms p \<and> lp_revision p \<le> lp_revision q \<and>
     lp_alias_revision p \<le> lp_alias_revision q \<and>
     (\<forall>d a. tget (lp_accepted p) d = Some a \<longrightarrow> (\<exists>b. tget (lp_accepted q) d = Some b \<and> acceptance_le a b)) \<and>
     (\<forall>d l. tget (lp_legacy_ready p) d = Some l \<longrightarrow> tget (lp_legacy_ready q) d = Some l) \<and>
     length (lp_aliases p) \<le> length (lp_aliases q) \<and>
     (\<forall>i < length (lp_aliases p). alias_le (lp_aliases p ! i) (lp_aliases q ! i)) \<and>
     (\<forall>k e. tget (lp_outbox p) k = Some e \<longrightarrow> (\<exists>f. tget (lp_outbox q) k = Some f \<and> event_le e f))"

lemma acceptance_le_refl [simp]: "acceptance_le a a"
  by (simp add: acceptance_le_def)

lemma acceptance_le_trans: "acceptance_le a b \<Longrightarrow> acceptance_le b c \<Longrightarrow> acceptance_le a c"
  unfolding acceptance_le_def by auto

lemma alias_le_refl [simp]: "alias_le t t"
  by (simp add: alias_le_def split: alias_state.splits)

lemma alias_le_trans: "alias_le t u \<Longrightarrow> alias_le u v \<Longrightarrow> alias_le t v"
  unfolding alias_le_def by (cases "at_state t") auto

lemma event_le_refl [simp]: "event_le e e"
  by (simp add: event_le_def)

lemma event_le_trans: "event_le e f \<Longrightarrow> event_le f g \<Longrightarrow> event_le e g"
  unfolding event_le_def by auto

lemma ledger_le_refl [simp]: "ledger_le p p"
  unfolding ledger_le_def using acceptance_le_refl event_le_refl by auto

lemma ledger_le_trans:
  assumes "ledger_le p q" "ledger_le q r"
  shows "ledger_le p r"
proof -
  note a = assms(1) [unfolded ledger_le_def] and b = assms(2) [unfolded ledger_le_def]
  have "\<exists>y. tget (lp_accepted r) d = Some y \<and> acceptance_le x y" if x: "tget (lp_accepted p) d = Some x" for d x
  proof -
    obtain y where y: "tget (lp_accepted q) d = Some y" "acceptance_le x y" using a x by blast
    obtain z where "tget (lp_accepted r) d = Some z" "acceptance_le y z" using b y(1) by blast
    then show ?thesis using acceptance_le_trans y(2) by blast
  qed
  moreover have "\<exists>y. tget (lp_outbox r) k = Some y \<and> event_le x y" if x: "tget (lp_outbox p) k = Some x" for k x
  proof -
    obtain y where y: "tget (lp_outbox q) k = Some y" "event_le x y" using a x by blast
    obtain z where "tget (lp_outbox r) k = Some z" "event_le y z" using b y(1) by blast
    then show ?thesis using event_le_trans y(2) by blast
  qed
  moreover have "alias_le (lp_aliases p ! i) (lp_aliases r ! i)" if "i < length (lp_aliases p)" for i
  proof -
    have "i < length (lp_aliases q)" using a that by linarith
    then have "alias_le (lp_aliases q ! i) (lp_aliases r ! i)" using b by blast
    moreover have "alias_le (lp_aliases p ! i) (lp_aliases q ! i)" using a that by blast
    ultimately show ?thesis using alias_le_trans by blast
  qed
  moreover have "tget (lp_legacy_ready r) d = Some l" if "tget (lp_legacy_ready p) d = Some l" for d l
    using a b that by blast
  moreover have "lp_node r = lp_node p \<and> lp_created_ms r = lp_created_ms p \<and> lp_revision p \<le> lp_revision r \<and>
      lp_alias_revision p \<le> lp_alias_revision r \<and> length (lp_aliases p) \<le> length (lp_aliases r)"
  proof -
    have "lp_node q = lp_node p" "lp_created_ms q = lp_created_ms p" "lp_revision p \<le> lp_revision q"
      "lp_alias_revision p \<le> lp_alias_revision q" "length (lp_aliases p) \<le> length (lp_aliases q)" using a by blast+
    moreover have "lp_node r = lp_node q" "lp_created_ms r = lp_created_ms q" "lp_revision q \<le> lp_revision r"
      "lp_alias_revision q \<le> lp_alias_revision r" "length (lp_aliases q) \<le> length (lp_aliases r)" using b by blast+
    ultimately show ?thesis by simp
  qed
  ultimately show ?thesis unfolding ledger_le_def by blast
qed

text \<open>A table that grows in one place.\<close>

lemma ledger_leI:
  assumes "lp_node q = lp_node p" "lp_created_ms q = lp_created_ms p" "lp_revision q = lp_revision p" "lp_alias_revision p \<le> lp_alias_revision q"
    and "\<And>d a. tget (lp_accepted p) d = Some a \<Longrightarrow> \<exists>b. tget (lp_accepted q) d = Some b \<and> acceptance_le a b"
    and "\<And>d l. tget (lp_legacy_ready p) d = Some l \<Longrightarrow> tget (lp_legacy_ready q) d = Some l"
    and "length (lp_aliases p) \<le> length (lp_aliases q)"
    and "\<And>i. i < length (lp_aliases p) \<Longrightarrow> alias_le (lp_aliases p ! i) (lp_aliases q ! i)"
    and "\<And>k e. tget (lp_outbox p) k = Some e \<Longrightarrow> \<exists>f. tget (lp_outbox q) k = Some f \<and> event_le e f"
  shows "ledger_le p q"
  using assms unfolding ledger_le_def by simp

lemma accepted_le:
  assumes "\<And>a. tget (lp_accepted p) d = Some a \<Longrightarrow> acceptance_le a b"
  shows "ledger_le p (p\<lparr>lp_accepted := tput d b (lp_accepted p)\<rparr>)"
  using assms by (intro ledger_leI) (auto simp del: map_of_eq_Some_iff)

lemma outbox_le:
  assumes "\<And>e. tget (lp_outbox p) k = Some e \<Longrightarrow> event_le e f"
  shows "ledger_le p (p\<lparr>lp_outbox := tput k f (lp_outbox p)\<rparr>)"
  using assms by (intro ledger_leI) (auto simp del: map_of_eq_Some_iff)

lemma upd_first_find:
  assumes "\<And>x. find P xs = Some x \<Longrightarrow> R x (f x)" "\<And>x. R x x" "i < length xs"
  shows "R (xs ! i) (upd_first P f xs ! i)"
  using assms
proof (induction xs arbitrary: i)
  case Nil
  then show ?case by simp
next
  case (Cons x xs)
  then show ?case by (cases i) (auto split: if_splits)
qed

lemma aliases_le:
  assumes "\<And>t. find_alias r p = Some t \<Longrightarrow> alias_le t (f t)"
  shows "ledger_le p (p\<lparr>lp_aliases := upd_first (\<lambda>t. at_revision t = r) f (lp_aliases p)\<rparr>)"
  using assms upd_first_find [of "\<lambda>t. at_revision t = r" "lp_aliases p" alias_le f]
  by (intro ledger_leI) (auto simp: find_alias_def)

section \<open>Every mutation grows the ledger\<close>

lemma insert_outbox_facts:
  assumes "insert_outbox e p = Inr q"
  shows "ledger_le p q" "q = p\<lparr>lp_outbox := lp_outbox q\<rparr>"
    "\<exists>f. tget (lp_outbox q) (ob_id e) = Some f \<and> f\<lparr>ob_delivered_ms := None\<rparr> = e\<lparr>ob_delivered_ms := None\<rparr>"
    "k \<noteq> ob_id e \<Longrightarrow> tget (lp_outbox q) k = tget (lp_outbox p) k"
proof -
  consider (old) f where "tget (lp_outbox p) (ob_id e) = Some f" "f\<lparr>ob_delivered_ms := None\<rparr> = e\<lparr>ob_delivered_ms := None\<rparr>" "q = p"
    | (new) "tget (lp_outbox p) (ob_id e) = None" "q = p\<lparr>lp_outbox := tput (ob_id e) e (lp_outbox p)\<rparr>"
    using assms unfolding insert_outbox_def by (auto split: option.splits if_splits simp del: map_of_eq_None_iff map_of_eq_Some_iff)
  then have "ledger_le p q \<and> q = p\<lparr>lp_outbox := lp_outbox q\<rparr> \<and>
    (\<exists>f. tget (lp_outbox q) (ob_id e) = Some f \<and> f\<lparr>ob_delivered_ms := None\<rparr> = e\<lparr>ob_delivered_ms := None\<rparr>) \<and>
    (k \<noteq> ob_id e \<longrightarrow> tget (lp_outbox q) k = tget (lp_outbox p) k)"
  proof cases
    case old
    then show ?thesis by auto
  next
    case new
    have "ledger_le p q" unfolding new(2) using new(1) by (intro outbox_le) simp
    then show ?thesis using new by simp
  qed
  then show "ledger_le p q" "q = p\<lparr>lp_outbox := lp_outbox q\<rparr>"
    "\<exists>f. tget (lp_outbox q) (ob_id e) = Some f \<and> f\<lparr>ob_delivered_ms := None\<rparr> = e\<lparr>ob_delivered_ms := None\<rparr>"
    "k \<noteq> ob_id e \<Longrightarrow> tget (lp_outbox q) k = tget (lp_outbox p) k" by blast+
qed

lemma restore_batch_le: "restore_batch now n ds answers p = Inr (r, q) \<Longrightarrow> ledger_le p q"
proof (induction now n ds answers p rule: restore_batch.induct)
  case (1 now n answers p)
  then show ?case by simp
next
  case (2 now n d project created rest answers p)
  show ?case
  proof (cases "tget (lp_accepted p) d = None \<and> tget (lp_legacy_ready p) d = None \<and> created \<le> lp_created_ms p")
    case True
    let ?l = "\<lparr>lr_deployment_id = d, lr_project = project, lr_created_ms = created, lr_imported_ms = now n, lr_reason = legacy_reason\<rparr>"
    let ?p = "p\<lparr>lp_legacy_ready := tput d ?l (lp_legacy_ready p)\<rparr>"
    have "ledger_le p ?p" using True by (intro ledger_leI) (auto simp del: map_of_eq_Some_iff map_of_eq_None_iff split: if_splits)
    moreover have "ledger_le ?p q"
      using 2 True by (auto split: option.splits if_splits simp del: map_of_eq_Some_iff map_of_eq_None_iff)
    ultimately show ?thesis by (rule ledger_le_trans)
  next
    case False
    then show ?thesis using 2 by (auto split: option.splits if_splits simp del: map_of_eq_Some_iff map_of_eq_None_iff)
  qed
qed

lemma publish_acceptance_le: "acceptance_le a (publish_acceptance p d now a)"
  by (simp add: publish_acceptance_def acceptance_le_def extend_chain_def)

lemma accept_le: "accept_mutation i now p = Inr (r, q) \<Longrightarrow> ledger_le p q"
  unfolding accept_mutation_def
  by (auto split: option.splits if_splits simp del: map_of_eq_Some_iff map_of_eq_None_iff intro!: accepted_le)

lemma append_le: "append_integrity_entry d kind now p = Inr (r, q) \<Longrightarrow> ledger_le p q"
  unfolding append_integrity_entry_def
  by (auto split: option.splits simp del: map_of_eq_Some_iff map_of_eq_None_iff intro!: accepted_le simp: acceptance_le_def extend_chain_def)

lemma publish_le: "publish_mutation d payload now p = Inr (r, q) \<Longrightarrow> ledger_le p q"
proof -
  assume m: "publish_mutation d payload now p = Inr (r, q)"
  then obtain a e where a: "tget (lp_accepted p) d = Some a"
    and i: "insert_outbox e (p\<lparr>lp_accepted := tput d (publish_acceptance p d now a) (lp_accepted p)\<rparr>) = Inr q"
    unfolding publish_mutation_def Let_def
    by (auto simp: bind_result_Inr split: option.splits simp del: map_of_eq_Some_iff map_of_eq_None_iff)
  have "ledger_le p (p\<lparr>lp_accepted := tput d (publish_acceptance p d now a) (lp_accepted p)\<rparr>)"
    using a publish_acceptance_le by (intro accepted_le) simp
  then show ?thesis using insert_outbox_facts(1) [OF i] by (rule ledger_le_trans)
qed

lemma prepare_le: "prepare_mutation project from d now p = Inr (r, q) \<Longrightarrow> ledger_le p q"
  unfolding prepare_mutation_def Let_def
  by (auto split: option.splits if_splits simp del: map_of_eq_Some_iff map_of_eq_None_iff intro!: ledger_leI simp: nth_append)

lemma applied_le: "applied_mutation r payload now p = Inr (x, q) \<Longrightarrow> ledger_le p q"
proof -
  assume m: "applied_mutation r payload now p = Inr (x, q)"
  then obtain t e where t: "find_alias r p = Some t" "at_state t \<noteq> Alias_Aborted"
    and i: "insert_outbox e (p\<lparr>lp_aliases := upd_first (\<lambda>t. at_revision t = r) (apply_alias now) (lp_aliases p)\<rparr>) = Inr q"
    unfolding applied_mutation_def Let_def by (auto simp: bind_result_Inr split: option.splits if_splits)
  have "ledger_le p (p\<lparr>lp_aliases := upd_first (\<lambda>t. at_revision t = r) (apply_alias now) (lp_aliases p)\<rparr>)"
    by (rule aliases_le) (use t in \<open>auto simp: alias_le_def apply_alias_def split: alias_state.splits\<close>)
  then show ?thesis using insert_outbox_facts(1) [OF i] by (rule ledger_le_trans)
qed

lemma abort_le: "abort_mutation r reason now p = Inr (x, q) \<Longrightarrow> ledger_le p q"
  unfolding abort_mutation_def
  by (auto split: option.splits if_splits intro!: aliases_le simp: alias_le_def split: alias_state.splits)

lemma delivered_le: "delivered_mutation e now p = Inr (x, q) \<Longrightarrow> ledger_le p q"
  unfolding delivered_mutation_def
  by (auto split: option.splits simp del: map_of_eq_Some_iff map_of_eq_None_iff intro!: outbox_le simp: event_le_def)

lemma call_le:
  assumes "call_mutation now c p = Inr (r, q)"
  shows "ledger_le p q"
  using assms
  by (cases c)
    (auto simp: call_mutation_def answer_with_def authorize_restore_batch_def split: sum.splits
      dest: restore_batch_le accept_le append_le publish_le prepare_le applied_le abort_le delivered_le)

section \<open>The file\<close>

text \<open>What the environment promises: reading back what was written gives the payload, and a checksum is 64 hexadecimal digits.\<close>

definition env_ok :: "'raw ledger_env \<Rightarrow> bool" where
  "env_ok env \<longleftrightarrow> (\<forall>p. le_decode env (le_encode env p) = Some p) \<and> (\<forall>r. length (le_checksum env r) = 64 \<and> lower_hex (le_checksum env r))"

definition storable :: "'raw ledger_env \<Rightarrow> ledger_payload \<Rightarrow> bool" where
  "storable env p \<longleftrightarrow> validate_payload env p = None \<and> le_file_len env p \<le> MAX_LEDGER_BYTES"

lemma load_file: "env_ok env \<Longrightarrow> storable env p \<Longrightarrow> load_payload env (ledger_file env p) = Inr (Some p)"
  by (simp add: load_payload_def ledger_file_def env_ok_def storable_def check_digest_def need_def checked_def)

lemma write_cases:
  assumes "write_payload env outcome p disk = (r, disk')"
  shows "(r = None \<and> storable env p \<and> disk' = ledger_file env p) \<or> (r \<noteq> None \<and> disk' = disk) \<or>
    (r \<noteq> None \<and> outcome = Write_Late \<and> storable env p \<and> disk' = ledger_file env p)"
  using assms by (auto simp: write_payload_def storable_def split: option.splits if_splits write_outcome.splits)

lemma bump_facts: "bump_revision p = Inr q \<Longrightarrow> q = p\<lparr>lp_revision := lp_revision p + 1\<rparr>"
  by (auto simp: bump_revision_def split: if_splits)

lemma nonce_le: "ledger_le p (p\<lparr>lp_boot_nonce := nonce, lp_revision := lp_revision p + 1\<rparr>)"
  using ledger_le_refl [of p] by (simp add: ledger_le_def)

lemma revision_le: "ledger_le p (p\<lparr>lp_revision := lp_revision p + 1\<rparr>)"
  using ledger_le_refl [of p] by (simp add: ledger_le_def)

lemma bump_le: "bump_revision p = Inr q \<Longrightarrow> ledger_le p q"
  using revision_le bump_facts by metis

text \<open>A call: an error leaves the memory alone, and an answer is on disk. On a late failure the file is ahead.\<close>

lemma call_step_cases:
  assumes "ledger_call_step env now outcome c p disk = (r, q, disk')"
  obtains (refused) e where "r = Inl e" "q = p" "disk' = disk"
  | (answered) a n where "r = Inr a" "call_mutation now c p = Inr (a, n)" "bump_revision n = Inr q" "storable env q" "disk' = ledger_file env q"
  | (late) e a n m where "r = Inl e" "q = p" "call_mutation now c p = Inr (a, n)" "bump_revision n = Inr m" "storable env m"
      "disk' = ledger_file env m" "outcome = Write_Late"
proof -
  show ?thesis
  proof (cases "call_check env c")
    case (Some e)
    then show ?thesis using assms refused [of e] by (simp add: ledger_call_step_def)
  next
    case None
    then have m: "mutate env outcome (call_mutation now c) p disk = (r, q, disk')" using assms by (simp add: ledger_call_step_def)
    show ?thesis
    proof (cases "call_mutation now c p")
      case (Inl e)
      then show ?thesis using m refused [of e] by (simp add: mutate_def)
    next
      case (Inr x)
      obtain a n where x: "x = (a, n)" by (cases x)
      show ?thesis
      proof (cases "validate_payload env n = None \<and> (\<exists>k. bump_revision n = Inr k)")
        case False
        then show ?thesis using m Inr x refused by (auto simp: mutate_def split: option.splits sum.splits)
      next
        case True
        then obtain k where k: "bump_revision n = Inr k" by blast
        obtain w d where w: "write_payload env outcome k disk = (w, d)" by fastforce
        have run: "(case w of Some e \<Rightarrow> (Inl e, p, d) | None \<Rightarrow> (Inr a, k, d)) = (r, q, disk')"
          using m Inr x True k w by (simp add: mutate_def)
        show ?thesis
        proof (cases w)
          case None
          then show ?thesis using run write_cases [OF w] answered [of a n] Inr x k by auto
        next
          case (Some e)
          then show ?thesis using run write_cases [OF w] refused [of e] late [of e a n k] Inr x k by auto
        qed
      qed
    qed
  qed
qed

lemma open_cases:
  assumes "ledger_open env node nonce now outcome disk = (r, nd)"
  obtains (closed) "ln_state nd = None" "ln_disk nd = disk"
  | (opened) p q where "load_payload env disk = Inr (Some p) \<or> load_payload env disk = Inr None \<and> p = fresh_payload node now"
      "q = p\<lparr>lp_boot_nonce := nonce, lp_revision := lp_revision p + 1\<rparr>" "storable env q" "ln_disk nd = ledger_file env q"
      "ln_state nd = Some q \<or> ln_state nd = None"
proof -
  consider (none) "trim node = []" | (failed) e where "trim node \<noteq> []" "ledger_base env node now disk = Inl e"
    | (invalid) p where "trim node \<noteq> []" "ledger_base env node now disk = Inr p"
        "validate_payload env p \<noteq> None \<or> (\<exists>e. bump_revision (p\<lparr>lp_boot_nonce := nonce\<rparr>) = Inl e)"
    | (fine) p q where "trim node \<noteq> []" "ledger_base env node now disk = Inr p" "validate_payload env p = None"
        "bump_revision (p\<lparr>lp_boot_nonce := nonce\<rparr>) = Inr q"
    by (metis sum.exhaust)
  then show ?thesis
  proof cases
    case none
    then show ?thesis using assms closed by (simp add: ledger_open_def Let_def) auto
  next
    case (failed e)
    then show ?thesis using assms closed by (simp add: ledger_open_def Let_def) auto
  next
    case (invalid p)
    then show ?thesis using assms closed by (auto simp add: ledger_open_def Let_def split: option.splits)
  next
    case (fine p q)
    have src: "load_payload env disk = Inr (Some p) \<or> load_payload env disk = Inr None \<and> p = fresh_payload node now"
      using fine(2) by (auto simp: ledger_base_def split: sum.splits option.splits if_splits)
    have q': "q = p\<lparr>lp_boot_nonce := nonce, lp_revision := lp_revision p + 1\<rparr>" using bump_facts [OF fine(4)] by simp
    obtain w d where w: "write_payload env outcome q disk = (w, d)" by fastforce
    have run: "(case w of Some e \<Rightarrow> (Inl e, \<lparr>ln_state = None, ln_disk = d\<rparr>) | None \<Rightarrow> (Inr (), \<lparr>ln_state = Some q, ln_disk = d\<rparr>)) = (r, nd)"
      using assms fine w by (simp add: ledger_open_def Let_def)
    show ?thesis
    proof (cases w)
      case None
      then have "nd = \<lparr>ln_state = Some q, ln_disk = d\<rparr>" using run by simp
      then show ?thesis using None write_cases [OF w] opened [OF src q'] by auto
    next
      case (Some e)
      then have "nd = \<lparr>ln_state = None, ln_disk = d\<rparr>" using run by simp
      then show ?thesis using Some write_cases [OF w] opened [OF src q'] closed by auto
    qed
  qed
qed

section \<open>Runs\<close>

text \<open>The file is never behind the memory, and both are past the payload the run began with.\<close>

definition grown :: "'raw ledger_env \<Rightarrow> ledger_payload \<Rightarrow> 'raw ledger_node \<Rightarrow> bool" where
  "grown env p0 nd \<longleftrightarrow>
     (\<exists>D. ln_disk nd = ledger_file env D \<and> storable env D \<and> ledger_le p0 D \<and>
        (\<forall>p. ln_state nd = Some p \<longrightarrow> ledger_le p0 p \<and> ledger_le p D))"

lemma grown_step:
  assumes env: "env_ok env" and g: "grown env p0 nd"
  shows "grown env p0 (snd (ledger_step env node e nd))"
proof -
  obtain D where D: "ln_disk nd = ledger_file env D" "storable env D" "ledger_le p0 D"
    and mem: "\<And>p. ln_state nd = Some p \<Longrightarrow> ledger_le p0 p \<and> ledger_le p D"
    using g unfolding grown_def by blast
  show ?thesis
  proof (cases e)
    case (Call c now outcome)
    show ?thesis
    proof (cases "ln_state nd")
      case None
      then show ?thesis using Call g by (simp add: ledger_step_def)
    next
      case (Some p)
      obtain r q disk' where st: "ledger_call_step env now outcome c p (ln_disk nd) = (r, q, disk')" by (metis prod_cases3)
      have nd': "snd (ledger_step env node e nd) = \<lparr>ln_state = Some q, ln_disk = disk'\<rparr>" using Call Some st by (simp add: ledger_step_def)
      note m = mem [OF Some]
      from st show ?thesis
      proof (cases rule: call_step_cases)
        case (refused e)
        then show ?thesis unfolding nd' grown_def using D m by (intro exI [of _ D]) simp
      next
        case (answered a n)
        have "ledger_le p q" using call_le [OF answered(2)] bump_le [OF answered(3)] by (rule ledger_le_trans)
        then have "ledger_le p0 q" using m ledger_le_trans by blast
        then show ?thesis unfolding nd' grown_def using answered(4,5) by (intro exI [of _ q]) simp
      next
        case (late e a n k)
        have "ledger_le p k" using call_le [OF late(3)] bump_le [OF late(4)] by (rule ledger_le_trans)
        then have "ledger_le p0 k" "ledger_le q k" using m ledger_le_trans late(2) by blast+
        then show ?thesis unfolding nd' grown_def using late(2,5,6) m by (intro exI [of _ k]) simp
      qed
    qed
  next
    case (Restart nonce now outcome)
    obtain r nd' where op: "ledger_open env node nonce now outcome (ln_disk nd) = (r, nd')" by fastforce
    have nd': "snd (ledger_step env node e nd) = nd'" using Restart op by (simp add: ledger_step_def)
    from op have "grown env p0 nd'"
    proof (cases rule: open_cases)
      case closed
      then show ?thesis unfolding grown_def using D by (intro exI [of _ D]) simp
    next
      case (opened p q)
      have "p = D" using opened(1) load_file [OF env D(2)] D(1) by simp
      then have "ledger_le p0 q" using nonce_le [of D nonce] opened(2) D(3) ledger_le_trans by simp
      then show ?thesis unfolding grown_def using opened(3-5) by (intro exI [of _ q]) auto
    qed
    then show ?thesis using nd' by simp
  qed
qed

lemma grown_run: "env_ok env \<Longrightarrow> grown env p0 nd \<Longrightarrow> grown env p0 (ledger_run env node es nd)"
  by (induction es arbitrary: nd) (simp_all add: grown_step)

section \<open>Evidence that fits together\<close>

definition is_published :: "integrity_entry \<Rightarrow> bool" where
  "is_published e = (case ie_kind e of Published _ \<Rightarrow> True | _ \<Rightarrow> False)"

definition is_build :: "integrity_entry \<Rightarrow> bool" where
  "is_build e = (case ie_kind e of Build_Accepted _ _ _ \<Rightarrow> True | _ \<Rightarrow> False)"

text \<open>A chain is numbered without a gap, is of one deployment and one node, begins with the accepted build, and records the publication
  once, when there was one.\<close>

definition chain_ok :: "string \<Rightarrow> string \<Rightarrow> deployment_acceptance \<Rightarrow> bool" where
  "chain_ok node d a \<longleftrightarrow>
     map ie_seq (da_chain a) = map (\<lambda>i. i mod 2 ^ 64) [0..<length (da_chain a)] \<and>
     (\<forall>e\<in>set (da_chain a). ie_deployment_id e = d \<and> ie_node e = node) \<and>
     da_chain a \<noteq> [] \<and> is_build (hd (da_chain a)) \<and> list_all (\<lambda>e. \<not> is_build e) (tl (da_chain a)) \<and>
     length (filter is_published (da_chain a)) = (if da_published_ms a = None then 0 else 1)"

definition ready_in :: "ledger_payload \<Rightarrow> string \<Rightarrow> deployment_acceptance \<Rightarrow> bool" where
  "ready_in p d a \<longleftrightarrow>
     (\<exists>e. tget (lp_outbox p) (ready_id d) = Some e \<and> ob_event e = ''deployment.ready'' \<and> ob_deployment_id e = d \<and>
        ob_project e = ai_project (da_input a) \<and> da_published_ms a = Some (ob_created_ms e))"

definition promoted_in :: "ledger_payload \<Rightarrow> alias_transaction \<Rightarrow> bool" where
  "promoted_in p t \<longleftrightarrow>
     (\<exists>e. tget (lp_outbox p) (promoted_id (at_revision t)) = Some e \<and> ob_event e = ''deployment.promoted'' \<and>
        ob_deployment_id e = at_to t \<and> ob_project e = at_project t \<and> at_finished_ms t = Some (ob_created_ms e))"

definition target_ok :: "ledger_payload \<Rightarrow> alias_transaction \<Rightarrow> bool" where
  "target_ok p t \<longleftrightarrow>
     (\<exists>a. tget (lp_accepted p) (at_to t) = Some a \<and> da_published_ms a \<noteq> None \<and> ai_project (da_input a) = at_project t)"

definition accepted_ok :: "ledger_payload \<Rightarrow> bool" where
  "accepted_ok p \<longleftrightarrow>
     (\<forall>d a. tget (lp_accepted p) d = Some a \<longrightarrow>
        chain_ok (lp_node p) d a \<and> ai_deployment_id (da_input a) = d \<and> (da_published_ms a \<noteq> None \<longrightarrow> ready_in p d a))"

definition aliases_ok :: "ledger_payload \<Rightarrow> bool" where
  "aliases_ok p \<longleftrightarrow>
     map at_revision (lp_aliases p) = [1..<Suc (lp_alias_revision p)] \<and>
     (\<forall>t\<in>set (lp_aliases p). target_ok p t \<and> (at_state t = Alias_Applied \<longrightarrow> promoted_in p t))"

definition event_reason :: "ledger_payload \<Rightarrow> string \<Rightarrow> bool" where
  "event_reason p k \<longleftrightarrow>
     (\<exists>d. k = ready_id d \<and> has_proven_acceptance d p) \<or>
     (\<exists>t\<in>set (lp_aliases p). k = promoted_id (at_revision t) \<and> at_state t = Alias_Applied)"

definition outbox_ok :: "ledger_payload \<Rightarrow> bool" where
  "outbox_ok p \<longleftrightarrow> (\<forall>k e. tget (lp_outbox p) k = Some e \<longrightarrow> event_reason p k)"

definition evidence_ok :: "ledger_payload \<Rightarrow> bool" where
  "evidence_ok p \<longleftrightarrow> accepted_ok p \<and> aliases_ok p \<and> outbox_ok p"

text \<open>What a grown ledger keeps.\<close>

lemma outbox_kept:
  assumes "ledger_le p q" "tget (lp_outbox p) k = Some e"
  shows "\<exists>f. tget (lp_outbox q) k = Some f \<and> f\<lparr>ob_delivered_ms := None\<rparr> = e\<lparr>ob_delivered_ms := None\<rparr>"
  using assms unfolding ledger_le_def event_le_def by blast

lemma same_event: "f\<lparr>ob_delivered_ms := None\<rparr> = e\<lparr>ob_delivered_ms := None\<rparr> \<Longrightarrow>
    ob_event f = ob_event e \<and> ob_deployment_id f = ob_deployment_id e \<and> ob_project f = ob_project e \<and> ob_created_ms f = ob_created_ms e"
  by (cases e; cases f) simp

lemma ready_kept:
  assumes "ledger_le p q" "ready_in p d a" "acceptance_le a b"
  shows "ready_in q d b"
proof -
  obtain e where e: "tget (lp_outbox p) (ready_id d) = Some e" "ob_event e = ''deployment.ready''" "ob_deployment_id e = d"
    "ob_project e = ai_project (da_input a)" "da_published_ms a = Some (ob_created_ms e)"
    using assms(2) unfolding ready_in_def by blast
  obtain f where f: "tget (lp_outbox q) (ready_id d) = Some f" "f\<lparr>ob_delivered_ms := None\<rparr> = e\<lparr>ob_delivered_ms := None\<rparr>"
    using outbox_kept [OF assms(1) e(1)] by blast
  show ?thesis unfolding ready_in_def using e f same_event [OF f(2)] assms(3) by (intro exI [of _ f]) (auto simp: acceptance_le_def)
qed

lemma promoted_kept:
  assumes "ledger_le p q" "promoted_in p t"
  shows "promoted_in q t"
proof -
  obtain e where e: "tget (lp_outbox p) (promoted_id (at_revision t)) = Some e" "ob_event e = ''deployment.promoted''"
    "ob_deployment_id e = at_to t" "ob_project e = at_project t" "at_finished_ms t = Some (ob_created_ms e)"
    using assms(2) unfolding promoted_in_def by blast
  obtain f where f: "tget (lp_outbox q) (promoted_id (at_revision t)) = Some f" "f\<lparr>ob_delivered_ms := None\<rparr> = e\<lparr>ob_delivered_ms := None\<rparr>"
    using outbox_kept [OF assms(1) e(1)] by blast
  show ?thesis unfolding promoted_in_def using e f same_event [OF f(2)] by (intro exI [of _ f]) simp
qed

lemma accepted_kept:
  assumes "ledger_le p q" "tget (lp_accepted p) d = Some a"
  obtains b where "tget (lp_accepted q) d = Some b" "acceptance_le a b"
  using assms unfolding ledger_le_def by blast

lemma target_kept:
  assumes "ledger_le p q" "target_ok p t" "at_to u = at_to t" "at_project u = at_project t"
  shows "target_ok q u"
proof -
  obtain a where a: "tget (lp_accepted p) (at_to t) = Some a" "da_published_ms a \<noteq> None" "ai_project (da_input a) = at_project t"
    using assms(2) unfolding target_ok_def by blast
  obtain b where "tget (lp_accepted q) (at_to t) = Some b" "acceptance_le a b" using accepted_kept [OF assms(1) a(1)] .
  then show ?thesis using a assms(3,4) unfolding target_ok_def by (intro exI [of _ b]) (auto simp: acceptance_le_def)
qed

lemma reason_kept:
  assumes "ledger_le p q" "event_reason p k"
  shows "event_reason q k"
proof -
  from assms(2) consider (ready) d where "k = ready_id d" "has_proven_acceptance d p"
    | (promoted) t where "t \<in> set (lp_aliases p)" "k = promoted_id (at_revision t)" "at_state t = Alias_Applied"
    unfolding event_reason_def by blast
  then show ?thesis
  proof cases
    case ready
    then obtain a where a: "tget (lp_accepted p) d = Some a" "da_published_ms a \<noteq> None"
      unfolding has_proven_acceptance_def by (auto split: option.splits simp del: map_of_eq_Some_iff)
    obtain b where "tget (lp_accepted q) d = Some b" "acceptance_le a b" using accepted_kept [OF assms(1) a(1)] .
    then have "has_proven_acceptance d q" using a(2) by (auto simp: has_proven_acceptance_def acceptance_le_def simp del: map_of_eq_Some_iff)
    then show ?thesis using ready(1) unfolding event_reason_def by blast
  next
    case promoted
    then obtain i where i: "i < length (lp_aliases p)" "t = lp_aliases p ! i" by (metis in_set_conv_nth)
    then have "alias_le t (lp_aliases q ! i)" "i < length (lp_aliases q)" using assms(1) unfolding ledger_le_def by auto
    then have "t \<in> set (lp_aliases q)" using promoted(3) by (auto simp: alias_le_def in_set_conv_nth)
    then show ?thesis using promoted unfolding event_reason_def by blast
  qed
qed

text \<open>Changes of one acceptance, of one event, of the aliases.\<close>

lemma accepted_ok_update:
  assumes ok: "accepted_ok p" and le: "ledger_le p q" and node: "lp_node q = lp_node p"
    and acc: "lp_accepted q = tput d b (lp_accepted p)"
    and b: "chain_ok (lp_node p) d b" "ai_deployment_id (da_input b) = d" "da_published_ms b \<noteq> None \<Longrightarrow> ready_in q d b"
  shows "accepted_ok q"
  unfolding accepted_ok_def
proof (intro allI impI)
  fix d' a assume "tget (lp_accepted q) d' = Some a"
  then consider "d' = d" "a = b" | "d' \<noteq> d" "tget (lp_accepted p) d' = Some a" unfolding acc by (auto split: if_splits simp del: map_of_eq_Some_iff)
  then show "chain_ok (lp_node q) d' a \<and> ai_deployment_id (da_input a) = d' \<and> (da_published_ms a \<noteq> None \<longrightarrow> ready_in q d' a)"
  proof cases
    case 1
    then show ?thesis using b node by simp
  next
    case 2
    then have "chain_ok (lp_node p) d' a \<and> ai_deployment_id (da_input a) = d' \<and> (da_published_ms a \<noteq> None \<longrightarrow> ready_in p d' a)"
      using ok unfolding accepted_ok_def by blast
    then show ?thesis using node ready_kept [OF le _ acceptance_le_refl] by auto
  qed
qed

lemma accepted_ok_same:
  assumes "accepted_ok p" "ledger_le p q" "lp_node q = lp_node p" "lp_accepted q = lp_accepted p"
  shows "accepted_ok q"
  unfolding accepted_ok_def
proof (intro allI impI)
  fix d a assume "tget (lp_accepted q) d = Some a"
  then have "chain_ok (lp_node p) d a \<and> ai_deployment_id (da_input a) = d \<and> (da_published_ms a \<noteq> None \<longrightarrow> ready_in p d a)"
    using assms(1) unfolding accepted_ok_def assms(4) by blast
  then show "chain_ok (lp_node q) d a \<and> ai_deployment_id (da_input a) = d \<and> (da_published_ms a \<noteq> None \<longrightarrow> ready_in q d a)"
    using assms(3) ready_kept [OF assms(2) _ acceptance_le_refl] by auto
qed

lemma aliases_ok_same:
  assumes "aliases_ok p" "ledger_le p q" "lp_aliases q = lp_aliases p" "lp_alias_revision q = lp_alias_revision p"
  shows "aliases_ok q"
  using assms target_kept [OF assms(2)] promoted_kept [OF assms(2)] unfolding aliases_ok_def by metis

lemma outbox_ok_update:
  assumes "outbox_ok p" "ledger_le p q" "event_reason q kk" "\<And>k. k \<noteq> kk \<Longrightarrow> tget (lp_outbox q) k = tget (lp_outbox p) k"
  shows "outbox_ok q"
  unfolding outbox_ok_def
proof (intro allI impI)
  fix k e assume e: "tget (lp_outbox q) k = Some e"
  show "event_reason q k"
  proof (cases "k = kk")
    case False
    then have "tget (lp_outbox p) k = Some e" using e assms(4) by simp
    then show ?thesis using assms(1) reason_kept [OF assms(2)] unfolding outbox_ok_def by blast
  qed (use assms(3) in simp)
qed

lemma outbox_ok_same:
  assumes "outbox_ok p" "ledger_le p q" "lp_outbox q = lp_outbox p"
  shows "outbox_ok q"
  using assms reason_kept unfolding outbox_ok_def by metis

section \<open>Every call keeps the evidence\<close>

lemma restore_batch_same: "restore_batch now n ds answers p = Inr (r, q) \<Longrightarrow> q = p\<lparr>lp_legacy_ready := lp_legacy_ready q\<rparr>"
proof (induction now n ds answers p rule: restore_batch.induct)
  case (1 now n answers p)
  then show ?case by simp
next
  case (2 now n d project created rest answers p)
  show ?case
  proof (cases "tget (lp_accepted p) d = None \<and> tget (lp_legacy_ready p) d = None \<and> created \<le> lp_created_ms p")
    case True
    let ?l = "\<lparr>lr_deployment_id = d, lr_project = project, lr_created_ms = created, lr_imported_ms = now n, lr_reason = legacy_reason\<rparr>"
    let ?p = "p\<lparr>lp_legacy_ready := tput d ?l (lp_legacy_ready p)\<rparr>"
    have "q = ?p\<lparr>lp_legacy_ready := lp_legacy_ready q\<rparr>"
      using 2 True by (auto split: option.splits if_splits simp del: map_of_eq_Some_iff map_of_eq_None_iff)
    then show ?thesis by simp
  next
    case False
    then show ?thesis using 2 by (auto split: option.splits if_splits simp del: map_of_eq_Some_iff map_of_eq_None_iff)
  qed
qed

lemma evidence_same:
  assumes "evidence_ok p" "ledger_le p q" "lp_node q = lp_node p" "lp_accepted q = lp_accepted p" "lp_aliases q = lp_aliases p"
    "lp_alias_revision q = lp_alias_revision p" "lp_outbox q = lp_outbox p"
  shows "evidence_ok q"
  using assms accepted_ok_same aliases_ok_same outbox_ok_same unfolding evidence_ok_def by metis

lemma next_seq_ok:
  assumes "map ie_seq chain = map (\<lambda>i. i mod 2 ^ 64) [0..<length chain]"
  shows "next_seq chain = length chain mod 2 ^ 64"
proof (cases chain rule: rev_cases)
  case Nil
  then show ?thesis by (simp add: next_seq_def)
next
  case (snoc c e)
  have "ie_seq e = length c mod 2 ^ 64" using arg_cong [OF assms, of last] by (simp add: snoc)
  then show ?thesis unfolding snoc next_seq_def by (simp add: wadd64_def mod_Suc_eq)
qed

lemma chain_ok_extend:
  assumes "chain_ok (lp_node p) d a" "\<And>e. ie_kind e = kind \<Longrightarrow> \<not> is_build e"
    and "da_chain b = extend_chain p d now kind (da_chain a)"
    and "(if da_published_ms b = None then 0 else 1) =
      (if da_published_ms a = None then 0 else 1) + (if \<exists>alias. kind = Published alias then 1 else (0 :: nat))"
  shows "chain_ok (lp_node p) d b"
proof -
  let ?e = "\<lparr>ie_deployment_id = d, ie_seq = next_seq (da_chain a), ie_ts_ms = now, ie_node = lp_node p, ie_kind = kind\<rparr>"
  have c: "da_chain b = da_chain a @ [?e]" using assms(3) by (simp add: extend_chain_def)
  note a = assms(1) [unfolded chain_ok_def]
  have "is_published ?e = (\<exists>alias. kind = Published alias)" by (simp add: is_published_def split: entry_kind.splits)
  then have 1: "length (filter is_published (da_chain b)) = (if da_published_ms b = None then 0 else 1)"
    using a assms(4) unfolding c by simp
  have 2: "map ie_seq (da_chain b) = map (\<lambda>i. i mod 2 ^ 64) [0..<length (da_chain b)]"
    unfolding c using a next_seq_ok by simp
  have 3: "list_all (\<lambda>e. \<not> is_build e) (tl (da_chain b))" "is_build (hd (da_chain b))" "da_chain b \<noteq> []"
    unfolding c using a assms(2) [of ?e] by simp_all
  have 4: "\<forall>e\<in>set (da_chain b). ie_deployment_id e = d \<and> ie_node e = lp_node p" unfolding c using a by simp
  show ?thesis unfolding chain_ok_def using 1 2 3 4 by blast
qed

lemma accept_evidence:
  assumes m: "accept_mutation i now p = Inr (r, q)" and ok: "evidence_ok p"
  shows "evidence_ok q"
proof (cases "tget (lp_accepted p) (ai_deployment_id i)")
  case (Some a)
  then have "q = p" using m by (auto simp: accept_mutation_def split: if_splits simp del: map_of_eq_Some_iff)
  then show ?thesis using ok by simp
next
  case None
  let ?b = "\<lparr>da_input = i, da_node = lp_node p, da_boot_nonce = lp_boot_nonce p, da_accepted_ms = now, da_published_ms = None,
    da_chain = [build_entry p now i]\<rparr>"
  have q: "q = p\<lparr>lp_accepted := tput (ai_deployment_id i) ?b (lp_accepted p)\<rparr>" using m None by (simp add: accept_mutation_def)
  note le = accept_le [OF m]
  have "chain_ok (lp_node p) (ai_deployment_id i) ?b"
    by (simp add: chain_ok_def build_entry_def is_build_def is_published_def)
  then have "accepted_ok q"
    using ok q by (intro accepted_ok_update [OF _ le, where b = ?b]) (simp_all add: evidence_ok_def)
  then show ?thesis using ok q aliases_ok_same [OF _ le] outbox_ok_same [OF _ le] by (simp add: evidence_ok_def)
qed

lemma append_evidence:
  assumes m: "append_integrity_entry d kind now p = Inr (r, q)" and ok: "evidence_ok p"
    and kind: "\<And>e. ie_kind e = kind \<Longrightarrow> \<not> is_build e" "\<nexists>alias. kind = Published alias"
  shows "evidence_ok q"
proof (cases "tget (lp_accepted p) d")
  case None
  then show ?thesis using m ok by (simp add: append_integrity_entry_def)
next
  case (Some a)
  let ?b = "a\<lparr>da_chain := extend_chain p d now kind (da_chain a)\<rparr>"
  have q: "q = p\<lparr>lp_accepted := tput d ?b (lp_accepted p)\<rparr>" using m Some by (simp add: append_integrity_entry_def)
  note le = append_le [OF m]
  have a: "chain_ok (lp_node p) d a" "ai_deployment_id (da_input a) = d" "da_published_ms a \<noteq> None \<Longrightarrow> ready_in p d a"
    using ok Some unfolding evidence_ok_def accepted_ok_def by blast+
  have c: "chain_ok (lp_node p) d ?b" by (rule chain_ok_extend [OF a(1) kind(1)]) (use kind(2) in simp_all)
  have rd: "ready_in q d ?b" if "da_published_ms ?b \<noteq> None"
  proof -
    have "ready_in p d a" using a(3) that by simp
    then show ?thesis by (rule ready_kept [OF le]) (simp add: acceptance_le_def extend_chain_def)
  qed
  have "accepted_ok q" by (rule accepted_ok_update [OF _ le _ _ c _ rd]) (use ok q a(2) in \<open>simp_all add: evidence_ok_def\<close>)
  then show ?thesis using ok q aliases_ok_same [OF _ le] outbox_ok_same [OF _ le] by (simp add: evidence_ok_def)
qed

lemma publish_evidence:
  assumes m: "publish_mutation d payload now p = Inr (r, q)" and ok: "evidence_ok p"
  shows "evidence_ok q"
proof -
  obtain a0 where a0: "tget (lp_accepted p) d = Some a0" using m by (auto simp: publish_mutation_def split: option.splits simp del: map_of_eq_Some_iff)
  define a where "a = publish_acceptance p d now a0"
  obtain t where t: "da_published_ms a = Some t" unfolding a_def publish_acceptance_def by (cases "da_published_ms a0") auto
  let ?p1 = "p\<lparr>lp_accepted := tput d a (lp_accepted p)\<rparr>"
  have i: "insert_outbox (ready_event d a payload t) ?p1 = Inr q"
    using m a0 t unfolding publish_mutation_def Let_def a_def
    by (auto simp: bind_result_Inr split: option.splits simp del: map_of_eq_Some_iff)
  note f = insert_outbox_facts [OF i]
  note le = publish_le [OF m]
  have q: "lp_node q = lp_node p" "lp_accepted q = tput d a (lp_accepted p)" "lp_aliases q = lp_aliases p"
    "lp_alias_revision q = lp_alias_revision p"
    using arg_cong [OF f(2), of lp_node] arg_cong [OF f(2), of lp_accepted] arg_cong [OF f(2), of lp_aliases]
      arg_cong [OF f(2), of lp_alias_revision] by simp_all
  obtain e where e: "tget (lp_outbox q) (ready_id d) = Some e"
      "e\<lparr>ob_delivered_ms := None\<rparr> = (ready_event d a payload t)\<lparr>ob_delivered_ms := None\<rparr>"
    using f(3) by (auto simp: ready_event_def)
  have ready: "ready_in q d a"
    unfolding ready_in_def using e(1) same_event [OF e(2)] t by (intro exI [of _ e]) (simp add: ready_event_def)
  have old: "chain_ok (lp_node p) d a0" "ai_deployment_id (da_input a0) = d"
    using ok a0 unfolding evidence_ok_def accepted_ok_def by blast+
  have chain: "chain_ok (lp_node p) d a"
  proof (cases "da_published_ms a0")
    case None
    then show ?thesis
      by (intro chain_ok_extend [OF old(1), where kind = "Published (ai_target (da_input a0))" and now = now])
        (auto simp: a_def publish_acceptance_def is_build_def)
  next
    case (Some t)
    then show ?thesis using old by (simp add: a_def publish_acceptance_def)
  qed
  have "ai_deployment_id (da_input a) = d" using old(2) by (simp add: a_def publish_acceptance_def)
  then have "accepted_ok q" using ok ready by (intro accepted_ok_update [OF _ le q(1,2) chain]) (simp_all add: evidence_ok_def)
  moreover have "event_reason q (ready_id d)" using q(2) t by (auto simp: event_reason_def has_proven_acceptance_def)
  then have "outbox_ok q"
    using ok f(4) by (intro outbox_ok_update [OF _ le, where kk = "ready_id d"]) (simp_all add: evidence_ok_def ready_event_def)
  ultimately show ?thesis using ok aliases_ok_same [OF _ le q(3,4)] by (simp add: evidence_ok_def)
qed

lemma prepare_evidence:
  assumes m: "prepare_mutation project from d now p = Inr (r, q)" and ok: "evidence_ok p"
  shows "evidence_ok q"
proof -
  note le = prepare_le [OF m]
  obtain a where a: "tget (lp_accepted p) d = Some a" "da_published_ms a \<noteq> None" "ai_project (da_input a) = project"
    using m by (auto simp: prepare_mutation_def split: option.splits if_splits simp del: map_of_eq_Some_iff)
  let ?t = "\<lparr>at_revision = lp_alias_revision p + 1, at_project = project, at_from = from, at_to = d, at_prepared_ms = now,
    at_state = Alias_Prepared, at_finished_ms = None, at_reason = None\<rparr>"
  consider "q = p" | "q = p\<lparr>lp_alias_revision := lp_alias_revision p + 1, lp_aliases := lp_aliases p @ [?t]\<rparr>"
    using m a by (auto simp: prepare_mutation_def Let_def split: option.splits if_splits simp del: map_of_eq_Some_iff)
  then show ?thesis
  proof cases
    case 1
    then show ?thesis using ok by simp
  next
    case 2
    have al: "map at_revision (lp_aliases p) = [1..<Suc (lp_alias_revision p)]"
      "\<forall>t\<in>set (lp_aliases p). target_ok p t \<and> (at_state t = Alias_Applied \<longrightarrow> promoted_in p t)"
      using ok by (simp_all add: evidence_ok_def aliases_ok_def)
    have "target_ok q ?t" using a 2 by (auto simp: target_ok_def simp del: map_of_eq_Some_iff)
    moreover have "\<forall>t\<in>set (lp_aliases p). target_ok q t \<and> (at_state t = Alias_Applied \<longrightarrow> promoted_in q t)"
      using al(2) target_kept [OF le] promoted_kept [OF le] by blast
    ultimately have "aliases_ok q" using al(1) 2 by (simp add: aliases_ok_def)
    then show ?thesis using ok 2 accepted_ok_same [OF _ le] outbox_ok_same [OF _ le] by (simp add: evidence_ok_def)
  qed
qed

lemma find_upd_first: "find P xs = Some t \<Longrightarrow> f t \<in> set (upd_first P f xs)"
  by (induction xs) (auto split: if_splits)

lemma find_alias_props: "find_alias r p = Some t \<Longrightarrow> t \<in> set (lp_aliases p) \<and> at_revision t = r"
  unfolding find_alias_def find_Some_iff by auto

text \<open>A change of one alias that keeps its identity.\<close>

lemma aliases_ok_upd:
  assumes ok: "aliases_ok p" and le: "ledger_le p q" and f: "find_alias r p = Some t"
    and q: "lp_aliases q = upd_first (\<lambda>t. at_revision t = r) g (lp_aliases p)" "lp_alias_revision q = lp_alias_revision p"
    and g: "\<And>t. at_revision (g t) = at_revision t \<and> at_to (g t) = at_to t \<and> at_project (g t) = at_project t"
    and p: "at_state (g t) = Alias_Applied \<Longrightarrow> promoted_in q (g t)"
  shows "aliases_ok q"
proof -
  have al: "map at_revision (lp_aliases p) = [1..<Suc (lp_alias_revision p)]"
    "\<And>t. t \<in> set (lp_aliases p) \<Longrightarrow> target_ok p t \<and> (at_state t = Alias_Applied \<longrightarrow> promoted_in p t)"
    using ok by (simp_all add: aliases_ok_def)
  have "distinct (map at_revision (lp_aliases p))" unfolding al(1) by simp
  then have uniq: "u = t" if "u \<in> set (lp_aliases p)" "at_revision u = r" for u
    using that find_alias_props [OF f] by (metis distinct_map inj_onD)
  have "map at_revision (lp_aliases q) = map at_revision (lp_aliases p)" unfolding q(1) by (rule map_upd_first) (simp add: g)
  moreover have "target_ok q u \<and> (at_state u = Alias_Applied \<longrightarrow> promoted_in q u)" if u: "u \<in> set (lp_aliases q)" for u
  proof (cases "u \<in> set (lp_aliases p)")
    case True
    then show ?thesis using al(2) target_kept [OF le] promoted_kept [OF le] by blast
  next
    case False
    then obtain v where v: "v \<in> set (lp_aliases p)" "at_revision v = r" "u = g v"
      using set_upd_first [OF u [unfolded q(1)]] by blast
    then have ug: "u = g t" and mt: "t \<in> set (lp_aliases p)" using uniq [OF v(1,2)] by simp_all
    have "target_ok q u" by (rule target_kept [OF le, of t]) (use al(2) [OF mt] g ug in simp_all)
    then show ?thesis using p ug by blast
  qed
  ultimately show ?thesis using al(1) q(2) by (simp add: aliases_ok_def)
qed

lemma applied_evidence:
  assumes m: "applied_mutation r payload now p = Inr (x, q)" and ok: "evidence_ok p"
  shows "evidence_ok q"
proof -
  obtain t where t: "find_alias r p = Some t" "at_state t \<noteq> Alias_Aborted"
    and i: "insert_outbox (promoted_event (apply_alias now t) payload)
      (p\<lparr>lp_aliases := upd_first (\<lambda>t. at_revision t = r) (apply_alias now) (lp_aliases p)\<rparr>) = Inr q"
    using m unfolding applied_mutation_def Let_def by (auto simp: bind_result_Inr split: option.splits if_splits)
  note f = insert_outbox_facts [OF i]
  note le = applied_le [OF m]
  have q: "lp_node q = lp_node p" "lp_accepted q = lp_accepted p" "lp_alias_revision q = lp_alias_revision p"
    "lp_aliases q = upd_first (\<lambda>t. at_revision t = r) (apply_alias now) (lp_aliases p)"
    using arg_cong [OF f(2), of lp_node] arg_cong [OF f(2), of lp_accepted] arg_cong [OF f(2), of lp_aliases]
      arg_cong [OF f(2), of lp_alias_revision] by simp_all
  let ?u = "apply_alias now t"
  have u: "at_revision ?u = r" "at_state ?u = Alias_Applied"
    using find_alias_props [OF t(1)] t(2) by (auto simp: apply_alias_def intro: alias_state.exhaust)
  have fin: "at_finished_ms ?u \<noteq> None"
  proof (cases "at_state t")
    case Alias_Applied
    then have "promoted_in p t" using ok find_alias_props [OF t(1)] by (auto simp: evidence_ok_def aliases_ok_def)
    then show ?thesis using Alias_Applied by (auto simp: promoted_in_def apply_alias_def)
  qed (use t(2) in \<open>simp_all add: apply_alias_def\<close>)
  obtain e where e: "tget (lp_outbox q) (promoted_id r) = Some e"
      "e\<lparr>ob_delivered_ms := None\<rparr> = (promoted_event ?u payload)\<lparr>ob_delivered_ms := None\<rparr>"
    using f(3) u(1) by (auto simp: promoted_event_def)
  have pr: "promoted_in q ?u"
    unfolding promoted_in_def u(1) using e(1) same_event [OF e(2)] fin by (intro exI [of _ e]) (auto simp: promoted_event_def)
  have "aliases_ok q"
    by (rule aliases_ok_upd [OF _ le t(1) q(4,3)]) (use ok pr in \<open>auto simp: evidence_ok_def apply_alias_def\<close>)
  moreover have "?u \<in> set (lp_aliases q)" unfolding q(4) by (rule find_upd_first) (use t(1) in \<open>simp add: find_alias_def\<close>)
  then have "event_reason q (promoted_id r)" using u unfolding event_reason_def by blast
  then have "outbox_ok q"
    using ok f(4) u(1) by (intro outbox_ok_update [OF _ le, where kk = "promoted_id r"]) (simp_all add: evidence_ok_def promoted_event_def)
  ultimately show ?thesis using ok accepted_ok_same [OF _ le q(1,2)] by (simp add: evidence_ok_def)
qed

lemma abort_evidence:
  assumes m: "abort_mutation r reason now p = Inr (x, q)" and ok: "evidence_ok p"
  shows "evidence_ok q"
proof -
  let ?g = "\<lambda>t. t\<lparr>at_state := Alias_Aborted, at_finished_ms := Some now, at_reason := Some reason\<rparr>"
  obtain t where t: "find_alias r p = Some t" and q: "q = p\<lparr>lp_aliases := upd_first (\<lambda>t. at_revision t = r) ?g (lp_aliases p)\<rparr>"
    using m by (auto simp: abort_mutation_def split: option.splits if_splits)
  note le = abort_le [OF m]
  have "aliases_ok q" by (rule aliases_ok_upd [OF _ le t, where g = ?g]) (use ok q in \<open>simp_all add: evidence_ok_def\<close>)
  then show ?thesis using ok q accepted_ok_same [OF _ le] outbox_ok_same [OF _ le] by (simp add: evidence_ok_def)
qed

lemma delivered_evidence:
  assumes m: "delivered_mutation e now p = Inr (x, q)" and ok: "evidence_ok p"
  shows "evidence_ok q"
proof -
  obtain y where y: "tget (lp_outbox p) e = Some y"
    and q: "q = p\<lparr>lp_outbox := tput e (if ob_delivered_ms y = None then y\<lparr>ob_delivered_ms := Some now\<rparr> else y) (lp_outbox p)\<rparr>"
    using m by (auto simp: delivered_mutation_def split: option.splits simp del: map_of_eq_Some_iff)
  note le = delivered_le [OF m]
  have "event_reason p e" using ok y unfolding evidence_ok_def outbox_ok_def by blast
  then have "event_reason q e" by (rule reason_kept [OF le])
  then have "outbox_ok q" using ok q by (intro outbox_ok_update [OF _ le, where kk = e]) (simp_all add: evidence_ok_def)
  then show ?thesis using ok q accepted_ok_same [OF _ le] aliases_ok_same [OF _ le] by (simp add: evidence_ok_def)
qed

lemma call_evidence:
  assumes m: "call_mutation now c p = Inr (r, q)" and ok: "evidence_ok p"
  shows "evidence_ok q"
proof (cases c)
  case (Authorize_Restore ds)
  then obtain x where x: "restore_batch now 0 ds [] p = Inr (x, q)"
    using m by (auto simp: call_mutation_def answer_with_def authorize_restore_batch_def split: sum.splits)
  note s = restore_batch_same [OF x]
  show ?thesis
    by (rule evidence_same [OF ok restore_batch_le [OF x]])
      (use arg_cong [OF s, of lp_node] arg_cong [OF s, of lp_accepted] arg_cong [OF s, of lp_aliases] arg_cong [OF s, of lp_alias_revision]
        arg_cong [OF s, of lp_outbox] in simp_all)
next
  case (Observe_Started d cell backend)
  then obtain x where "append_integrity_entry d (Execution_Started cell backend) (now 0) p = Inr (x, q)"
    using m by (auto simp: call_mutation_def answer_with_def split: sum.splits)
  then show ?thesis by (rule append_evidence [OF _ ok]) (simp_all add: is_build_def)
next
  case (Observe_Ended d cell served outcome)
  then obtain x where "append_integrity_entry d (Execution_Ended cell served outcome) (now 0) p = Inr (x, q)"
    using m by (auto simp: call_mutation_def answer_with_def split: sum.splits)
  then show ?thesis by (rule append_evidence [OF _ ok]) (simp_all add: is_build_def)
qed (use m ok in \<open>auto simp: call_mutation_def answer_with_def split: sum.splits
      dest: accept_evidence publish_evidence prepare_evidence applied_evidence abort_evidence delivered_evidence\<close>)

lemma evidence_fields: "evidence_ok (p\<lparr>lp_revision := n\<rparr>) = evidence_ok p" "evidence_ok (p\<lparr>lp_boot_nonce := x\<rparr>) = evidence_ok p"
  by (simp_all add: evidence_ok_def accepted_ok_def aliases_ok_def outbox_ok_def ready_in_def promoted_in_def target_ok_def
      event_reason_def has_proven_acceptance_def)

definition evident :: "'raw ledger_env \<Rightarrow> 'raw ledger_node \<Rightarrow> bool" where
  "evident env nd \<longleftrightarrow>
     (\<forall>p. ln_state nd = Some p \<longrightarrow> evidence_ok p) \<and>
     (ln_disk nd = No_Ledger \<or> (\<exists>D. ln_disk nd = ledger_file env D \<and> storable env D \<and> evidence_ok D))"

lemma evident_step:
  assumes env: "env_ok env" and g: "evident env nd"
  shows "evident env (snd (ledger_step env node e nd))"
proof (cases e)
  case (Call c now outcome)
  show ?thesis
  proof (cases "ln_state nd")
    case None
    then show ?thesis using Call g by (simp add: ledger_step_def)
  next
    case (Some p)
    obtain r q disk' where st: "ledger_call_step env now outcome c p (ln_disk nd) = (r, q, disk')" by (metis prod_cases3)
    have nd': "snd (ledger_step env node e nd) = \<lparr>ln_state = Some q, ln_disk = disk'\<rparr>" using Call Some st by (simp add: ledger_step_def)
    have p: "evidence_ok p" using g Some unfolding evident_def by blast
    from st show ?thesis
    proof (cases rule: call_step_cases)
      case (refused e)
      then show ?thesis unfolding nd' using g p by (simp add: evident_def)
    next
      case (answered a n)
      have "evidence_ok q" using call_evidence [OF answered(2) p] bump_facts [OF answered(3)] by (simp add: evidence_fields)
      then show ?thesis unfolding nd' evident_def using answered(4,5) by auto
    next
      case (late e a n k)
      have "evidence_ok k" using call_evidence [OF late(3) p] bump_facts [OF late(4)] by (simp add: evidence_fields)
      then show ?thesis unfolding nd' evident_def using late(2,5,6) p by auto
    qed
  qed
next
  case (Restart nonce now outcome)
  obtain r nd' where op: "ledger_open env node nonce now outcome (ln_disk nd) = (r, nd')" by fastforce
  have nd': "snd (ledger_step env node e nd) = nd'" using Restart op by (simp add: ledger_step_def)
  from op have "evident env nd'"
  proof (cases rule: open_cases)
    case closed
    then show ?thesis using g by (simp add: evident_def)
  next
    case (opened p q)
    have fresh: "evidence_ok (fresh_payload node now)"
      by (simp add: fresh_payload_def evidence_ok_def accepted_ok_def aliases_ok_def outbox_ok_def)
    have "evidence_ok p"
    proof (cases "ln_disk nd = No_Ledger")
      case True
      then have "p = fresh_payload node now" using opened(1) by (simp add: load_payload_def)
      then show ?thesis using fresh by simp
    next
      case False
      then obtain D where D: "ln_disk nd = ledger_file env D" "storable env D" "evidence_ok D" using g unfolding evident_def by blast
      then show ?thesis using opened(1) load_file [OF env D(2)] by simp
    qed
    then have "evidence_ok q" using opened(2) by (simp add: evidence_ok_def accepted_ok_def aliases_ok_def outbox_ok_def ready_in_def
          promoted_in_def target_ok_def event_reason_def has_proven_acceptance_def)
    then show ?thesis unfolding evident_def using opened(3-5) by auto
  qed
  then show ?thesis using nd' by simp
qed

lemma evident_run: "env_ok env \<Longrightarrow> evident env nd \<Longrightarrow> evident env (ledger_run env node es nd)"
  by (induction es arbitrary: nd) (simp_all add: evident_step)

section \<open>Restoring\<close>

definition authority_spec :: "ledger_payload \<Rightarrow> string \<times> string \<times> nat \<Rightarrow> restore_authority" where
  "authority_spec p x =
     (case x of (d, project, created) \<Rightarrow>
        (case tget (lp_accepted p) d of
           Some a \<Rightarrow> if ai_project (da_input a) = project \<and> da_published_ms a \<noteq> None then Authority_Proven else Authority_Refused
         | None \<Rightarrow>
             (case tget (lp_legacy_ready p) d of
                Some l \<Rightarrow> if lr_project l = project \<and> lr_created_ms l = created then Authority_Legacy else Authority_Refused
              | None \<Rightarrow> if lp_created_ms p < created then Authority_Refused else Authority_Legacy)))"

lemma restore_step:
  assumes "restore_batch now n ((d, project, created) # rest) answers p = Inr (ans, q)"
  obtains p' where "restore_batch now (Suc n) rest (tput d (authority_spec p (d, project, created)) answers) p' = Inr (ans, q)"
    "tget answers d = None" "lp_accepted p' = lp_accepted p" "lp_created_ms p' = lp_created_ms p"
    "\<And>d'. d' \<noteq> d \<Longrightarrow> tget (lp_legacy_ready p') d' = tget (lp_legacy_ready p) d'"
    "authority_spec p' (d, project, created) = authority_spec p (d, project, created)"
proof (cases "tget (lp_accepted p) d = None \<and> tget (lp_legacy_ready p) d = None \<and> created \<le> lp_created_ms p")
  case True
  let ?l = "\<lparr>lr_deployment_id = d, lr_project = project, lr_created_ms = created, lr_imported_ms = now n, lr_reason = legacy_reason\<rparr>"
  let ?p = "p\<lparr>lp_legacy_ready := tput d ?l (lp_legacy_ready p)\<rparr>"
  have "restore_batch now (Suc n) rest (tput d Authority_Legacy answers) ?p = Inr (ans, q)" "tget answers d = None"
    using assms True by (auto simp: first_error_None split: option.splits if_splits simp del: map_of_eq_Some_iff map_of_eq_None_iff)
  moreover have "authority_spec p (d, project, created) = Authority_Legacy" "authority_spec ?p (d, project, created) = Authority_Legacy"
    using True by (simp_all add: authority_spec_def del: map_of_eq_None_iff)
  ultimately show ?thesis using that [of ?p] by simp
next
  case False
  have "restore_batch now (Suc n) rest (tput d (authority_spec p (d, project, created)) answers) p = Inr (ans, q) \<and> tget answers d = None"
    using assms False
    by (auto simp: authority_spec_def first_error_None split: option.splits if_splits simp del: map_of_eq_Some_iff map_of_eq_None_iff)
  then show ?thesis using that [of p] by simp
qed

lemma authority_spec_cong:
  assumes "lp_accepted p' = lp_accepted p" "lp_created_ms p' = lp_created_ms p"
    "tget (lp_legacy_ready p') (fst x) = tget (lp_legacy_ready p) (fst x)"
  shows "authority_spec p' x = authority_spec p x"
proof -
  obtain a b c where x: "x = (a, b, c)" by (metis prod_cases3)
  have "tget (lp_legacy_ready p') a = tget (lp_legacy_ready p) a" using assms(3) unfolding x by (simp only: fst_conv)
  then show ?thesis unfolding x authority_spec_def prod.case assms(1,2) by (simp only:)
qed

lemma restore_batch_exact:
  assumes "restore_batch now n ds answers p = Inr (ans, q)"
  shows "(\<forall>d v. tget answers d = Some v \<longrightarrow> tget ans d = Some v) \<and> (\<forall>x\<in>set ds. tget answers (fst x) = None) \<and>
    distinct (map fst ds) \<and> (\<forall>x\<in>set ds. tget ans (fst x) = Some (authority_spec p x) \<and> authority_spec q x = authority_spec p x) \<and>
    lp_accepted q = lp_accepted p \<and> lp_created_ms q = lp_created_ms p \<and>
    (\<forall>d. d \<notin> fst ` set ds \<longrightarrow> tget (lp_legacy_ready q) d = tget (lp_legacy_ready p) d)"
  using assms
proof (induction ds arbitrary: n answers p)
  case Nil
  then show ?case by simp
next
  case (Cons x ds)
  obtain d project created where x: "x = (d, project, created)" by (metis prod_cases3)
  obtain p' where st: "restore_batch now (Suc n) ds (tput d (authority_spec p x) answers) p' = Inr (ans, q)"
    "tget answers d = None" "lp_accepted p' = lp_accepted p" "lp_created_ms p' = lp_created_ms p"
    "\<And>d'. d' \<noteq> d \<Longrightarrow> tget (lp_legacy_ready p') d' = tget (lp_legacy_ready p) d'" "authority_spec p' x = authority_spec p x"
    using restore_step [OF Cons.prems [unfolded x]] unfolding x by metis
  note ih = Cons.IH [OF st(1)]
  have new: "fst y \<noteq> d \<and> tget answers (fst y) = None" if "y \<in> set ds" for y
    using ih that by (auto simp del: map_of_eq_None_iff split: if_splits)
  have same: "authority_spec p' y = authority_spec p y" if "y \<in> set ds" for y
    using new [OF that] by (intro authority_spec_cong st) blast+
  have notin: "d \<notin> fst ` set ds" using new by blast
  have "authority_spec q x = authority_spec p' x" using ih notin x
    by (intro authority_spec_cong) (blast | simp only: fst_conv)+
  then have self: "authority_spec q x = authority_spec p x" using st(6) by (rule trans)
  have ans: "tget ans d = Some (authority_spec p x)" using ih by simp
  have keep: "tget ans k = Some v" if "tget answers k = Some v" for k v
  proof -
    have "k \<noteq> d" using that st(2) by auto
    then show ?thesis using ih that by simp
  qed
  have free: "\<forall>y\<in>set (x # ds). tget answers (fst y) = None" using new st(2) unfolding x by (simp only: list.set ball_simps fst_conv) blast
  have dist: "distinct (map fst (x # ds))" using ih notin unfolding x by simp
  have each: "\<forall>y\<in>set (x # ds). tget ans (fst y) = Some (authority_spec p y) \<and> authority_spec q y = authority_spec p y"
  proof
    fix y assume "y \<in> set (x # ds)"
    then consider "y = x" | "y \<in> set ds" by fastforce
    then show "tget ans (fst y) = Some (authority_spec p y) \<and> authority_spec q y = authority_spec p y"
    proof cases
      case 1
      then show ?thesis using ans self x by (metis fst_conv)
    next
      case 2
      then show ?thesis using ih same by metis
    qed
  qed
  have rest: "tget (lp_legacy_ready q) k = tget (lp_legacy_ready p) k" if "k \<notin> fst ` set (x # ds)" for k
  proof -
    have "k \<noteq> d" "k \<notin> fst ` set ds" using that unfolding x by auto
    then show ?thesis using ih st(5) by metis
  qed
  have "lp_accepted q = lp_accepted p" "lp_created_ms q = lp_created_ms p" using ih st(3,4) by (metis, metis)
  then show ?case using keep free dist each rest by blast
qed

section \<open>The statements\<close>

text \<open>C17: Nothing in the ledger is ever taken back. From an open ledger that is on disk, let calls and restarts follow in any order, writes be
  lost or fail late, and opens fail: what the memory holds at the end, if the ledger is open, and what the file holds have every
  acceptance with its evidence, its publication and its chain as a prefix, every legacy record, every alias transaction with its outcome
  when it had one, and every event with its delivery.\<close>
theorem ledger_append_only:
  assumes "env_ok env" "storable env p" "ledger_run env node es \<lparr>ln_state = Some p, ln_disk = ledger_file env p\<rparr> = nd"
  shows "(case ln_state nd of None \<Rightarrow> True | Some q \<Rightarrow> ledger_le p q) \<and>
    (case load_payload env (ln_disk nd) of Inr (Some D) \<Rightarrow> ledger_le p D | _ \<Rightarrow> False)"
proof -
  have "grown env p \<lparr>ln_state = Some p, ln_disk = ledger_file env p\<rparr>" unfolding grown_def using assms(2) by (intro exI [of _ p]) simp
  then have "grown env p nd" using grown_run [OF assms(1)] assms(3) by blast
  then obtain D where "ln_disk nd = ledger_file env D" "storable env D" "ledger_le p D" "\<forall>q. ln_state nd = Some q \<longrightarrow> ledger_le p q"
    unfolding grown_def by blast
  moreover from this have "load_payload env (ln_disk nd) = Inr (Some D)" using load_file [OF assms(1)] by metis
  ultimately show ?thesis by (cases "ln_state nd") (simp_all only: option.case sum.case simp_thms option.inject)
qed

text \<open>An environment for the examples: the bytes of a payload are the payload.\<close>

definition ex_ledger_env :: "ledger_payload ledger_env" where
  "ex_ledger_env = \<lparr>le_sha = (\<lambda>x. x), le_encode_repository = (\<lambda>_. []), le_encode = (\<lambda>p. p), le_decode = Some,
     le_checksum = (\<lambda>_. replicate 64 CHR ''0''), le_file_len = (\<lambda>_. 10)\<rparr>"

lemma ex_env_ok: "env_ok ex_ledger_env"
proof -
  have "is_digit CHR ''0''" by code_simp
  then show ?thesis by (simp add: env_ok_def ex_ledger_env_def lower_hex_def list_all_iff)
qed

definition ex_input :: acceptance_input where
  "ex_input = \<lparr>ai_deployment_id = ''d1'', ai_project = ''web'', ai_target = ''production'',
     ai_source = \<lparr>si_kind = Source_Git, si_repository = ''r'', si_branch = ''main'', si_revision = ''abc''\<rparr>,
     ai_repository_build = None, ai_runtime_artifact = None,
     ai_readiness = \<lparr>ry_deployment_id = ''d1'', ry_observed_ms = 3,
       ry_functions = [\<lparr>rd_function = ''api'', rd_cell_id = ''c'', rd_status = Some 200, rd_response_bytes = 2,
         rd_response_truncated = False, rd_raw_bound = False\<rparr>],
       ry_static_root_open = False, ry_static_status = None, ry_static_response_bytes = 0, ry_static_response_truncated = False\<rparr>\<rparr>"

definition ex_ledger_events :: "ledger_event list" where
  "ex_ledger_events =
     [Restart (replicate 64 CHR ''a'') 5 Written, Call (Accept ex_input) (\<lambda>_. 6) Written, Call (Mark_Published ''d1'' ''{}'') (\<lambda>_. 7) Write_Late,
      Restart (replicate 64 CHR ''b'') 8 Written, Call (Prepare_Alias ''web'' None ''d1'') (\<lambda>_. 9) Written,
      Call (Mark_Applied 1 ''{}'') (\<lambda>_. 10) Write_Lost, Call (Mark_Applied 1 ''{}'') (\<lambda>_. 11) Written]"

lemma ex_fresh_storable: "storable ex_ledger_env (fresh_payload ''n'' 5)"
proof -
  have "trim ''n'' \<noteq> []" by code_simp
  then show ?thesis by (simp add: storable_def validate_payload_def fresh_payload_def first_error_None ex_ledger_env_def MAX_LEDGER_BYTES_def)
qed

theorem ledger_append_only_witness:
  "case load_payload ex_ledger_env (ln_disk (ledger_run ex_ledger_env ''n'' ex_ledger_events
      \<lparr>ln_state = Some (fresh_payload ''n'' 5), ln_disk = ledger_file ex_ledger_env (fresh_payload ''n'' 5)\<rparr>)) of
     Inr (Some D) \<Rightarrow> ledger_le (fresh_payload ''n'' 5) D | _ \<Rightarrow> False"
  using ledger_append_only [OF ex_env_ok ex_fresh_storable refl] by blast

text \<open>C19: An answer is on disk before it is given. A call that answers leaves the file holding exactly the state in memory, which is past the
  one before; a call that fails leaves the memory as it was, and the file too unless the write failed after the file had been renamed.\<close>
theorem answer_is_durable:
  assumes "env_ok env" "ledger_call_step env now outcome c p disk = (r, q, disk')"
  shows "case r of
      Inr a \<Rightarrow> load_payload env disk' = Inr (Some q) \<and> ledger_le p q \<and> lp_revision p < lp_revision q
    | Inl e \<Rightarrow> q = p \<and> (outcome = Write_Late \<or> disk' = disk)"
  using assms(2)
proof (cases rule: call_step_cases)
  case (refused e)
  then show ?thesis by simp
next
  case (answered a n)
  note le = call_le [OF answered(2)]
  have "ledger_le p q" using le bump_le [OF answered(3)] by (rule ledger_le_trans)
  moreover have "lp_revision p \<le> lp_revision n" using le unfolding ledger_le_def by blast
  then have "lp_revision p < lp_revision q" using bump_facts [OF answered(3)] by simp
  ultimately show ?thesis using answered load_file [OF assms(1) answered(4)] by simp
next
  case (late e a n m)
  then show ?thesis by simp
qed

theorem answer_is_durable_witness:
  "\<exists>a q disk'. ledger_call_step ex_ledger_env (\<lambda>_. 6) Written (Authorize_Restore [(''d0'', ''web'', 4)])
      (fresh_payload ''n'' 5) No_Ledger = (Inr a, q, disk') \<and> load_payload ex_ledger_env disk' = Inr (Some q)"
proof -
  obtain r q disk' where st: "ledger_call_step ex_ledger_env (\<lambda>_. 6) Written (Authorize_Restore [(''d0'', ''web'', 4)])
      (fresh_payload ''n'' 5) No_Ledger = (r, q, disk')" by (metis prod_cases3)
  have "(case fst (ledger_call_step ex_ledger_env (\<lambda>_. 6) Written (Authorize_Restore [(''d0'', ''web'', 4)])
      (fresh_payload ''n'' 5) No_Ledger) of Inr _ \<Rightarrow> True | Inl _ \<Rightarrow> False)" by code_simp
  then obtain a where "r = Inr a" using st by (auto split: sum.splits)
  then show ?thesis using answer_is_durable [OF ex_env_ok st] st by auto
qed

text \<open>C18: The evidence fits together at every moment. Start without a file and let opens, calls and restarts follow in any order, with any
  writes failing: in memory, every chain is numbered without a gap, begins with the accepted build and records the publication exactly
  when the deployment is published; a published deployment has its ready event, an applied alias its promotion, and there is no other event;
  the alias revisions are 1, 2, 3 and so on; and every alias points to a published deployment of its own project.\<close>
theorem ledger_evidence:
  assumes "env_ok env" "ledger_run env node es \<lparr>ln_state = None, ln_disk = No_Ledger\<rparr> = nd" "ln_state nd = Some p"
  shows "(\<forall>d a. tget (lp_accepted p) d = Some a \<longrightarrow> chain_ok (lp_node p) d a \<and> (da_published_ms a \<noteq> None \<longrightarrow> ready_in p d a)) \<and>
    (\<forall>t\<in>set (lp_aliases p). target_ok p t \<and> (at_state t = Alias_Applied \<longrightarrow> promoted_in p t)) \<and>
    map at_revision (lp_aliases p) = [1..<Suc (lp_alias_revision p)] \<and>
    (\<forall>k e. tget (lp_outbox p) k = Some e \<longrightarrow> event_reason p k)"
proof -
  have "evident env \<lparr>ln_state = None, ln_disk = No_Ledger\<rparr>" by (simp add: evident_def)
  then have "evidence_ok p" using evident_run [OF assms(1)] assms(2,3) unfolding evident_def by blast
  then show ?thesis unfolding evidence_ok_def accepted_ok_def aliases_ok_def outbox_ok_def by blast
qed

theorem ledger_evidence_witness:
  "\<exists>p. ln_state (ledger_run ex_ledger_env ''n'' ex_ledger_events \<lparr>ln_state = None, ln_disk = No_Ledger\<rparr>) = Some p \<and>
     map at_revision (lp_aliases p) = [1..<Suc (lp_alias_revision p)] \<and> map at_state (lp_aliases p) = [Alias_Applied]"
proof -
  have "case ln_state (ledger_run ex_ledger_env ''n'' ex_ledger_events \<lparr>ln_state = None, ln_disk = No_Ledger\<rparr>) of
      None \<Rightarrow> False | Some p \<Rightarrow> map at_state (lp_aliases p) = [Alias_Applied]" by code_simp
  then obtain p where p: "ln_state (ledger_run ex_ledger_env ''n'' ex_ledger_events \<lparr>ln_state = None, ln_disk = No_Ledger\<rparr>) = Some p"
      "map at_state (lp_aliases p) = [Alias_Applied]" by (auto split: option.splits)
  from ledger_evidence [OF ex_env_ok refl p(1)] show ?thesis using p by (intro exI [of _ p]) (simp only: simp_thms)
qed

text \<open>C20: What a restore may trust is decided by the ledger alone. A batch that is answered names every deployment once; a deployment the
  ledger accepted is proven exactly when it is published and of the same project; one it does not know is a legacy predecessor exactly when
  it is not younger than the ledger and agrees with what was imported before; all others are refused. Nothing that was accepted changes,
  and asking again gives the same answers.\<close>
theorem restore_authority_exact:
  assumes "authorize_restore_batch now ds p = Inr (answers, q)"
  shows "distinct (map fst ds) \<and> lp_accepted q = lp_accepted p \<and>
    (\<forall>x\<in>set ds. tget answers (fst x) = Some (authority_spec p x) \<and> authority_spec q x = authority_spec p x)"
  using restore_batch_exact [OF assms [unfolded authorize_restore_batch_def]] by blast

theorem restore_authority_exact_witness:
  "\<exists>answers q. authorize_restore_batch (\<lambda>_. 9) [(''old'', ''web'', 4), (''new'', ''web'', 6)] (fresh_payload ''n'' 5) = Inr (answers, q) \<and>
     tget answers ''old'' = Some Authority_Legacy \<and> tget answers ''new'' = Some Authority_Refused"
proof -
  have "case authorize_restore_batch (\<lambda>_. 9) [(''old'', ''web'', 4), (''new'', ''web'', 6)] (fresh_payload ''n'' 5) of
      Inl _ \<Rightarrow> False | Inr _ \<Rightarrow> True" by code_simp
  then obtain answers q where r: "authorize_restore_batch (\<lambda>_. 9) [(''old'', ''web'', 4), (''new'', ''web'', 6)] (fresh_payload ''n'' 5) = Inr (answers, q)"
    by (auto split: sum.splits)
  from restore_authority_exact [OF r] show ?thesis using r by (auto simp: authority_spec_def fresh_payload_def)
qed

end
