(* ===== verification/Build_Coordinates.thy ===== *)
theory Build_Coordinates
  imports Gateway_Static
begin

text \<open>
  The coordinates of the selected application in its checkout (\<open>crates/hive-cloud/src/build_coordinates.rs\<close>): every role is kept
  relative to the checkout and joined to it on use. A path is its string; the operations of the standard library on paths (components,
  \<open>push\<close>, \<open>join\<close>, \<open>strip_prefix\<close>) are written out for Unix.
\<close>

section \<open>Paths of the standard library\<close>

definition is_absolute :: "string \<Rightarrow> bool" where
  "is_absolute p \<longleftrightarrow> starts_with ''/'' p"

definition path_push :: "string \<Rightarrow> string \<Rightarrow> string" where
  "path_push p q =
     (if is_absolute q then q else if p = [] \<or> ends_with ''/'' p then p @ q else p @ ''/'' @ q)"

fun component_str :: "path_component \<Rightarrow> string" where
  "component_str Root_Dir = ''/''"
| "component_str Cur_Dir = ''.''"
| "component_str Parent_Dir = ''..''"
| "component_str (Normal_Component s) = s"

definition path_of :: "path_component list \<Rightarrow> string" where
  "path_of cs = foldl (\<lambda>p c. path_push p (component_str c)) [] cs"

fun strip_components :: "path_component list \<Rightarrow> path_component list \<Rightarrow> path_component list option" where
  "strip_components [] cs = Some cs"
| "strip_components (b # bs) [] = None"
| "strip_components (b # bs) (c # cs) = (if b = c then strip_components bs cs else None)"

definition path_strip_prefix :: "string \<Rightarrow> string \<Rightarrow> string option" where
  "path_strip_prefix base p = map_option path_of (strip_components (path_components base) (path_components p))"

section \<open>Roles\<close>

datatype coordinate_error =
    Not_Absolute string | Not_Normalized string | Not_Relative string | Contains_Traversal string | Outside_Checkout string
  | Empty_Function_Cwd

definition bind_coord :: "coordinate_error + 'a \<Rightarrow> ('a \<Rightarrow> coordinate_error + 'b) \<Rightarrow> coordinate_error + 'b" where
  "bind_coord r f = (case r of Inl e \<Rightarrow> Inl e | Inr a \<Rightarrow> f a)"

fun push_absolute :: "string \<Rightarrow> string \<Rightarrow> path_component list \<Rightarrow> coordinate_error + string" where
  "push_absolute label p [] = Inr p"
| "push_absolute label p (Root_Dir # cs) = push_absolute label (path_push p ''/'') cs"
| "push_absolute label p (Normal_Component s # cs) = push_absolute label (path_push p s) cs"
| "push_absolute label p (Cur_Dir # cs) = Inl (Not_Normalized label)"
| "push_absolute label p (Parent_Dir # cs) = Inl (Not_Normalized label)"

definition normalized_absolute :: "string \<Rightarrow> string \<Rightarrow> coordinate_error + string" where
  "normalized_absolute path label =
     (if \<not> is_absolute path then Inl (Not_Absolute label) else push_absolute label [] (path_components path))"

fun push_relative :: "string \<Rightarrow> string \<Rightarrow> path_component list \<Rightarrow> coordinate_error + string" where
  "push_relative label p [] = Inr p"
| "push_relative label p (Normal_Component s # cs) = push_relative label (path_push p s) cs"
| "push_relative label p (Cur_Dir # cs) = push_relative label p cs"
| "push_relative label p (Root_Dir # cs) = Inl (Contains_Traversal label)"
| "push_relative label p (Parent_Dir # cs) = Inl (Contains_Traversal label)"

definition normalized_relative :: "string \<Rightarrow> string \<Rightarrow> coordinate_error + string" where
  "normalized_relative path label =
     (if is_absolute path then Inl (Not_Relative label) else push_relative label [] (path_components path))"

definition relative_role :: "string \<Rightarrow> string \<Rightarrow> string \<Rightarrow> coordinate_error + string" where
  "relative_role checkout path label =
     bind_coord (normalized_absolute path label) (\<lambda>absolute.
       case path_strip_prefix checkout absolute of
         None \<Rightarrow> Inl (Outside_Checkout label)
       | Some relative \<Rightarrow> normalized_relative relative label)"

definition compose_relative :: "string \<Rightarrow> string \<Rightarrow> string \<Rightarrow> coordinate_error + string" where
  "compose_relative base suffix label =
     bind_coord (normalized_relative base label) (\<lambda>b.
       bind_coord (normalized_relative suffix label) (\<lambda>s.
         normalized_relative (if b = [] then s else if s = [] then b else path_push b s) label))"

record monorepo_coordinates =
  mc_checkout :: string
  mc_install :: string
  mc_app :: string
  mc_build :: string
  mc_output :: string
  mc_artifact :: string

definition coordinates_new ::
    "string \<Rightarrow> string \<Rightarrow> string \<Rightarrow> string \<Rightarrow> string \<Rightarrow> coordinate_error + monorepo_coordinates" where
  "coordinates_new checkout selected_app install_root build_cwd output_relative =
     bind_coord (normalized_absolute checkout ''checkout root'') (\<lambda>checkout.
     bind_coord (relative_role checkout selected_app ''selected application'') (\<lambda>app.
     bind_coord (relative_role checkout install_root ''package-manager install root'') (\<lambda>install.
     bind_coord (relative_role checkout build_cwd ''build cwd'') (\<lambda>build.
     bind_coord (normalized_relative output_relative ''output path'') (\<lambda>suffix.
     bind_coord (compose_relative app suffix ''selected application output'') (\<lambda>output.
       Inr \<lparr>mc_checkout = checkout, mc_install = install, mc_app = app, mc_build = build, mc_output = output,
         mc_artifact = app\<rparr>))))))"

definition coordinates_selected :: "string \<Rightarrow> string \<Rightarrow> coordinate_error + monorepo_coordinates" where
  "coordinates_selected checkout selected_app = coordinates_new checkout selected_app selected_app selected_app ''.''"

definition absolute_of :: "monorepo_coordinates \<Rightarrow> string \<Rightarrow> string" where
  "absolute_of c relative = (if relative = [] then mc_checkout c else path_push (mc_checkout c) relative)"

definition selected_app_path :: "monorepo_coordinates \<Rightarrow> string" where "selected_app_path c = absolute_of c (mc_app c)"
definition install_root_path :: "monorepo_coordinates \<Rightarrow> string" where "install_root_path c = absolute_of c (mc_install c)"
definition build_cwd_path :: "monorepo_coordinates \<Rightarrow> string" where "build_cwd_path c = absolute_of c (mc_build c)"
definition output_root_path :: "monorepo_coordinates \<Rightarrow> string" where "output_root_path c = absolute_of c (mc_output c)"

definition runtime_artifact_base :: "monorepo_coordinates \<Rightarrow> string" where
  "runtime_artifact_base c = absolute_of c (mc_artifact c)"

text \<open>\<open>None\<close> is the panic of the \<open>expect\<close>.\<close>

definition wire_path :: "string \<Rightarrow> string" where
  "wire_path p = (if p = [] then ''.'' else map (\<lambda>c. if c = CHR 0x5C then CHR ''/'' else c) p)"

definition output_relative_to_app :: "monorepo_coordinates \<Rightarrow> string option" where
  "output_relative_to_app c = map_option wire_path (path_strip_prefix (mc_app c) (mc_output c))"

definition is_workspace_member :: "monorepo_coordinates \<Rightarrow> bool" where
  "is_workspace_member c \<longleftrightarrow> mc_app c \<noteq> []"

definition is_monorepo :: "monorepo_coordinates \<Rightarrow> bool" where
  "is_monorepo c \<longleftrightarrow> is_workspace_member c \<and> mc_install c = []"

definition parse_function_cwd :: "string \<Rightarrow> coordinate_error + string" where
  "parse_function_cwd value =
     (if trim value = [] then Inl Empty_Function_Cwd else normalized_relative (trim value) ''function cwd'')"

text \<open>The working directories of the functions, in order; the first that is refused ends it.\<close>

fun normalize_function_cwds :: "string option list \<Rightarrow> coordinate_error + string option list" where
  "normalize_function_cwds [] = Inr []"
| "normalize_function_cwds (cwd # rest) =
     bind_coord (parse_function_cwd (case cwd of Some s \<Rightarrow> s | None \<Rightarrow> ''.'')) (\<lambda>p.
       bind_coord (normalize_function_cwds rest) (\<lambda>r. Inr (Some (wire_path p) # r)))"

end
