(* ===== verification/Build_Coordinates_Props.thy ===== *)
theory Build_Coordinates_Props
  imports Build_Coordinates
begin

text \<open>
  Components and strings: what a normalised path is, and that the roles of a monorepo stay inside the checkout and name the
  directories they were made from.
\<close>

section \<open>Names and their joins\<close>

definition path_name :: "string \<Rightarrow> bool" where
  "path_name s \<longleftrightarrow> s \<noteq> [] \<and> s \<noteq> ''.'' \<and> s \<noteq> ''..'' \<and> CHR ''/'' \<notin> set s"

lemma parts_nonempty: "split_on c s \<noteq> []"
  by (induction s) (auto split: list.splits)

lemma parts_free: "w \<in> set (split_on c s) \<Longrightarrow> c \<notin> set w"
  by (induction s arbitrary: w) (auto split: list.splits if_splits)

lemma parts_whole: "c \<notin> set s \<Longrightarrow> split_on c s = [s]"
  by (induction s) auto

lemma parts_sep: "split_on c (a @ c # b) = split_on c a @ split_on c b"
proof (induction a)
  case Nil
  then show ?case by simp
next
  case (Cons x a)
  then show ?case using parts_nonempty [of c a] by (cases "split_on c a") simp_all
qed

lemma parts_join:
  assumes "\<forall>n\<in>set ns. CHR ''/'' \<notin> set n" "ns \<noteq> []"
  shows "split_on CHR ''/'' (join_str ''/'' ns) = ns"
  using assms
proof (induction "''/''" ns rule: join_str.induct)
  case 1
  then show ?case by simp
next
  case (2 s)
  then show ?case by (simp add: parts_whole)
next
  case (3 s t r)
  have "split_on CHR ''/'' (s @ CHR ''/'' # join_str ''/'' (t # r)) = s # t # r"
    unfolding parts_sep using 3 by (simp add: parts_whole)
  then show ?case by simp
qed

lemma join_head: "\<forall>n\<in>set ns. path_name n \<Longrightarrow> ns \<noteq> [] \<Longrightarrow> \<exists>c r. join_str ''/'' ns = c # r \<and> c \<noteq> CHR ''/''"
proof (induction "''/''" ns rule: join_str.induct)
  case 1
  then show ?case by simp
next
  case (2 s)
  then show ?case by (cases s) (auto simp: path_name_def)
next
  case (3 s t r)
  then show ?case by (cases s) (auto simp: path_name_def)
qed

lemma path_name_component: "path_name s \<Longrightarrow> (if s = ''..'' then Parent_Dir else Normal_Component s) = Normal_Component s"
  by (simp add: path_name_def)

lemma components_join:
  assumes "\<forall>n\<in>set ns. path_name n"
  shows "path_components (join_str ''/'' ns) = map Normal_Component ns"
proof (cases "ns = []")
  case True
  then show ?thesis by (simp add: path_components_def starts_with_iff)
next
  case False
  have free: "\<forall>n\<in>set ns. CHR ''/'' \<notin> set n" using assms by (simp add: path_name_def)
  have "\<not> starts_with ''/'' (join_str ''/'' ns)" using join_head [OF assms False] by (auto simp: starts_with_iff)
  moreover have "hd ns \<noteq> ''.''" using assms False by (cases ns) (auto simp: path_name_def)
  moreover have "filter (\<lambda>s. s \<noteq> [] \<and> s \<noteq> ''.'') ns = ns" using assms by (auto simp: path_name_def intro: filter_True)
  moreover have "map (\<lambda>s. if s = ''..'' then Parent_Dir else Normal_Component s) ns = map Normal_Component ns"
    using assms by (auto simp: path_name_def)
  ultimately show ?thesis unfolding path_components_def parts_join [OF free False] by simp
qed

lemma components_rooted:
  assumes "\<forall>n\<in>set ns. path_name n"
  shows "path_components (CHR ''/'' # join_str ''/'' ns) = Root_Dir # map Normal_Component ns"
proof -
  have "split_on CHR ''/'' (CHR ''/'' # join_str ''/'' ns) = [] # split_on CHR ''/'' (join_str ''/'' ns)" by simp
  moreover have "filter (\<lambda>s. s \<noteq> [] \<and> s \<noteq> ''.'') (split_on CHR ''/'' (join_str ''/'' ns)) = ns"
  proof (cases "ns = []")
    case False
    have free: "\<forall>n\<in>set ns. CHR ''/'' \<notin> set n" using assms by (simp add: path_name_def)
    show ?thesis unfolding parts_join [OF free False] using assms by (auto simp: path_name_def intro: filter_True)
  qed simp
  moreover have "map (\<lambda>s. if s = ''..'' then Parent_Dir else Normal_Component s) ns = map Normal_Component ns"
    using assms by (auto simp: path_name_def)
  ultimately show ?thesis by (simp add: path_components_def starts_with_iff)
qed

lemma component_names:
  "Normal_Component s \<in> set (path_components p) \<Longrightarrow> path_name s"
  using parts_free [of s "CHR ''/''" p]
  by (auto simp: path_components_def path_name_def split: if_splits)

lemma components_shape:
  "path_components p = Root_Dir # cs \<and> Root_Dir \<notin> set cs \<and> Cur_Dir \<notin> set cs \<or>
   path_components p = Cur_Dir # cs \<and> Root_Dir \<notin> set cs \<and> Cur_Dir \<notin> set cs \<or>
   Root_Dir \<notin> set (path_components p) \<and> Cur_Dir \<notin> set (path_components p)"
  if "cs = map (\<lambda>s. if s = ''..'' then Parent_Dir else Normal_Component s) (filter (\<lambda>s. s \<noteq> [] \<and> s \<noteq> ''.'') (split_on CHR ''/'' p))"
  using that by (auto simp: path_components_def split: if_splits)

section \<open>Pushing names\<close>

lemma join_last:
  assumes "\<forall>n\<in>set ns. path_name n" "ns \<noteq> []"
  shows "\<exists>r c. join_str ''/'' ns = r @ [c] \<and> c \<noteq> CHR ''/''"
  using assms
proof (induction "''/''" ns rule: join_str.induct)
  case 1
  then show ?case by simp
next
  case (2 s)
  then show ?case by (cases s rule: rev_cases) (auto simp: path_name_def)
next
  case (3 s t r)
  then obtain q c where "join_str ''/'' (t # r) = q @ [c]" "c \<noteq> CHR ''/''" by auto
  then show ?case by (intro exI [of _ "s @ ''/'' @ q"] exI [of _ c]) simp
qed

lemma join_snoc: "ns \<noteq> [] \<Longrightarrow> join_str ''/'' (ns @ [n]) = join_str ''/'' ns @ ''/'' @ n"
  by (induction "''/''" ns rule: join_str.induct) simp_all

lemma join_append: "ns \<noteq> [] \<Longrightarrow> ms \<noteq> [] \<Longrightarrow> join_str ''/'' (ns @ ms) = join_str ''/'' ns @ ''/'' @ join_str ''/'' ms"
proof (induction "''/''" ns rule: join_str.induct)
  case 1
  then show ?case by simp
next
  case (2 s)
  then show ?case by (cases ms) simp_all
next
  case (3 s t r)
  then show ?case by simp
qed

lemma not_absolute_name: "path_name n \<Longrightarrow> \<not> is_absolute n"
  by (auto simp: is_absolute_def starts_with_iff path_name_def)

lemma not_absolute_join: "\<forall>n\<in>set ns. path_name n \<Longrightarrow> \<not> is_absolute (join_str ''/'' ns)"
  using join_head [of ns] by (cases "ns = []") (auto simp: is_absolute_def starts_with_iff)

lemma ends_slash: "ends_with ''/'' p \<longleftrightarrow> (\<exists>r. p = r @ ''/'')"
  by (auto simp: ends_with_def strip_suffix_iff split: option.splits)

lemma push_join:
  assumes "\<forall>n\<in>set ns. path_name n" "path_name m"
  shows "path_push (join_str ''/'' ns) m = join_str ''/'' (ns @ [m])"
proof (cases "ns = []")
  case True
  then show ?thesis using not_absolute_name [OF assms(2)] by (simp add: path_push_def)
next
  case False
  have "\<not> ends_with ''/'' (join_str ''/'' ns)" "join_str ''/'' ns \<noteq> []"
    using join_last [OF assms(1) False] by (auto simp: ends_slash)
  then show ?thesis using not_absolute_name [OF assms(2)] join_snoc [OF False] by (simp add: path_push_def)
qed

lemma push_rooted:
  assumes "\<forall>n\<in>set ns. path_name n" "path_name m"
  shows "path_push (CHR ''/'' # join_str ''/'' ns) m = CHR ''/'' # join_str ''/'' (ns @ [m])"
proof (cases "ns = []")
  case True
  then show ?thesis using not_absolute_name [OF assms(2)] by (simp add: path_push_def ends_slash)
next
  case False
  have "\<not> ends_with ''/'' (CHR ''/'' # join_str ''/'' ns)"
  proof -
    obtain r c where "join_str ''/'' ns = r @ [c]" "c \<noteq> CHR ''/''" using join_last [OF assms(1) False] by blast
    then show ?thesis by (auto simp: ends_slash Cons_eq_append_conv)
  qed
  then show ?thesis using not_absolute_name [OF assms(2)] join_snoc [OF False] by (simp add: path_push_def)
qed

lemma push_rooted_join:
  assumes "\<forall>n\<in>set ks. path_name n" "\<forall>m\<in>set ms. path_name m" "ms \<noteq> []"
  shows "path_push (CHR ''/'' # join_str ''/'' ks) (join_str ''/'' ms) = CHR ''/'' # join_str ''/'' (ks @ ms)"
proof (cases "ks = []")
  case True
  then show ?thesis using not_absolute_join [OF assms(2)] by (simp add: path_push_def ends_slash)
next
  case False
  obtain r c where "join_str ''/'' ks = r @ [c]" "c \<noteq> CHR ''/''" using join_last [OF assms(1) False] by blast
  then have "\<not> ends_with ''/'' (CHR ''/'' # join_str ''/'' ks)" by (auto simp: ends_slash Cons_eq_append_conv)
  then show ?thesis using not_absolute_join [OF assms(2)] join_append [OF False assms(3)] by (simp add: path_push_def)
qed

lemma push_relative_names:
  assumes "push_relative label (join_str ''/'' ns) cs = Inr q" "\<forall>n\<in>set ns. path_name n" "\<forall>s. Normal_Component s \<in> set cs \<longrightarrow> path_name s"
  shows "\<exists>ms. q = join_str ''/'' (ns @ ms) \<and> filter (\<lambda>c. c \<noteq> Cur_Dir) cs = map Normal_Component ms \<and> (\<forall>m\<in>set ms. path_name m)"
  using assms
proof (induction label "join_str ''/'' ns" cs arbitrary: ns rule: push_relative.induct)
  case (1 label)
  then show ?case by simp
next
  case (2 label s cs)
  have s: "path_name s" using "2.prems"(3) by simp
  have pj: "path_push (join_str ''/'' ns) s = join_str ''/'' (ns @ [s])" by (rule push_join [OF "2.prems"(2) s])
  obtain ms where "q = join_str ''/'' ((ns @ [s]) @ ms)" "filter (\<lambda>c. c \<noteq> Cur_Dir) cs = map Normal_Component ms" "\<forall>m\<in>set ms. path_name m"
    using "2.hyps" [OF pj] "2.prems" s pj by auto
  then show ?case using s by (intro exI [of _ "s # ms"]) simp
next
  case (3 label cs)
  then show ?case by simp
next
  case (4 label cs)
  then show ?case by simp
next
  case (5 label cs)
  then show ?case by simp
qed

lemma push_absolute_names:
  assumes "push_absolute label (CHR ''/'' # join_str ''/'' ns) cs = Inr q" "\<forall>n\<in>set ns. path_name n"
    "\<forall>s. Normal_Component s \<in> set cs \<longrightarrow> path_name s" "Root_Dir \<notin> set cs"
  shows "\<exists>ms. q = CHR ''/'' # join_str ''/'' (ns @ ms) \<and> cs = map Normal_Component ms \<and> (\<forall>m\<in>set ms. path_name m)"
  using assms
proof (induction label "CHR ''/'' # join_str ''/'' ns" cs arbitrary: ns rule: push_absolute.induct)
  case (1 label)
  then show ?case by simp
next
  case (2 label cs)
  then show ?case by simp
next
  case (3 label s cs)
  have s: "path_name s" using "3.prems"(3) by simp
  have pj: "path_push (CHR ''/'' # join_str ''/'' ns) s = CHR ''/'' # join_str ''/'' (ns @ [s])" by (rule push_rooted [OF "3.prems"(2) s])
  obtain ms where "q = CHR ''/'' # join_str ''/'' ((ns @ [s]) @ ms)" "cs = map Normal_Component ms" "\<forall>m\<in>set ms. path_name m"
    using "3.hyps" [OF pj] "3.prems" s pj by auto
  then show ?case using s by (intro exI [of _ "s # ms"]) simp
next
  case (4 label cs)
  then show ?case by simp
next
  case (5 label cs)
  then show ?case by simp
qed

section \<open>Normal paths\<close>

lemma normalized_relative_names:
  assumes "normalized_relative p label = Inr q"
  shows "\<exists>ms. q = join_str ''/'' ms \<and> (\<forall>m\<in>set ms. path_name m) \<and>
    filter (\<lambda>c. c \<noteq> Cur_Dir) (path_components p) = map Normal_Component ms"
proof -
  have "push_relative label (join_str ''/'' []) (path_components p) = Inr q"
    using assms by (simp add: normalized_relative_def split: if_splits)
  from push_relative_names [OF this] component_names show ?thesis by auto
qed

lemma push_relative_all:
  "\<forall>m\<in>set ms. path_name m \<Longrightarrow> \<forall>n\<in>set ns. path_name n \<Longrightarrow>
    push_relative label (join_str ''/'' ns) (map Normal_Component ms) = Inr (join_str ''/'' (ns @ ms))"
  by (induction ms arbitrary: ns) (simp_all add: push_join)

lemma normalized_relative_join:
  assumes "\<forall>m\<in>set ms. path_name m"
  shows "normalized_relative (join_str ''/'' ms) label = Inr (join_str ''/'' ms)"
  using push_relative_all [OF assms, of "[]"] not_absolute_join [OF assms]
  by (simp add: normalized_relative_def components_join [OF assms])

lemma normalized_absolute_names:
  assumes "normalized_absolute p label = Inr q"
  shows "\<exists>ms. q = CHR ''/'' # join_str ''/'' ms \<and> (\<forall>m\<in>set ms. path_name m) \<and> path_components p = Root_Dir # map Normal_Component ms"
proof -
  have ab: "is_absolute p" and run: "push_absolute label [] (path_components p) = Inr q"
    using assms by (simp_all add: normalized_absolute_def split: if_splits)
  define cs where "cs = map (\<lambda>s. if s = ''..'' then Parent_Dir else Normal_Component s)
    (filter (\<lambda>s. s \<noteq> [] \<and> s \<noteq> ''.'') (split_on CHR ''/'' p))"
  have pc: "path_components p = Root_Dir # cs" using ab by (simp add: path_components_def cs_def is_absolute_def)
  have nr: "Root_Dir \<notin> set cs" by (auto simp: cs_def)
  have "path_push [] ''/'' = CHR ''/'' # join_str ''/'' []" by (simp add: path_push_def)
  then have "push_absolute label (CHR ''/'' # join_str ''/'' []) cs = Inr q" using run pc by simp
  from push_absolute_names [OF this _ _ nr] component_names [of _ p] pc show ?thesis by auto
qed

lemma path_of_names:
  assumes "\<forall>m\<in>set ms. path_name m"
  shows "path_of (map Normal_Component ms) = join_str ''/'' ms"
proof -
  have "foldl (\<lambda>p c. path_push p (component_str c)) (join_str ''/'' ns) (map Normal_Component ms) = join_str ''/'' (ns @ ms)"
    if "\<forall>n\<in>set ns. path_name n" for ns
    using assms that by (induction ms arbitrary: ns) (simp_all add: push_join)
  from this [of "[]"] show ?thesis by (simp add: path_of_def)
qed

lemma strip_names:
  "strip_components (map Normal_Component ks) (map Normal_Component ps) = Some cs \<longleftrightarrow>
     (\<exists>ms. ps = ks @ ms \<and> cs = map Normal_Component ms)"
  by (induction ks arbitrary: ps) (case_tac ps; auto)+

lemma strip_prefix_names:
  assumes "\<forall>n\<in>set ks. path_name n" "\<forall>m\<in>set ms. path_name m"
  shows "path_strip_prefix (join_str ''/'' ks) (join_str ''/'' (ks @ ms)) = Some (join_str ''/'' ms)"
proof -
  have "\<forall>n\<in>set (ks @ ms). path_name n" using assms by auto
  moreover have "strip_components (map Normal_Component ks) (map Normal_Component (ks @ ms)) = Some (map Normal_Component ms)"
    by (simp add: strip_names del: map_append)
  ultimately show ?thesis unfolding path_strip_prefix_def components_join [OF assms(1)]
    by (simp add: components_join path_of_names [OF assms(2)] del: map_append)
qed

lemma relative_role_names:
  assumes "relative_role (CHR ''/'' # join_str ''/'' ks) p label = Inr q" "\<forall>k\<in>set ks. path_name k"
  shows "\<exists>ms. q = join_str ''/'' ms \<and> (\<forall>m\<in>set ms. path_name m) \<and> path_components p = Root_Dir # map Normal_Component (ks @ ms)"
proof -
  obtain a r where a: "normalized_absolute p label = Inr a"
    and r: "path_strip_prefix (CHR ''/'' # join_str ''/'' ks) a = Some r" and q: "normalized_relative r label = Inr q"
    using assms(1) by (auto simp: relative_role_def bind_coord_def split: sum.splits option.splits)
  obtain ps where ps: "a = CHR ''/'' # join_str ''/'' ps" "\<forall>m\<in>set ps. path_name m" "path_components p = Root_Dir # map Normal_Component ps"
    using normalized_absolute_names [OF a] by blast
  obtain cs where "strip_components (map Normal_Component ks) (map Normal_Component ps) = Some cs" "r = path_of cs"
    using r unfolding path_strip_prefix_def ps(1) components_rooted [OF assms(2)] components_rooted [OF ps(2)] by auto
  then obtain ms where ms: "ps = ks @ ms" "r = path_of (map Normal_Component ms)" unfolding strip_names by blast
  have names: "\<forall>m\<in>set ms. path_name m" using ps(2) ms(1) by simp
  then have "q = join_str ''/'' ms" using q normalized_relative_join unfolding ms(2) path_of_names [OF names] by auto
  then show ?thesis using names ps(3) ms(1) by blast
qed

lemma compose_names:
  assumes "compose_relative (join_str ''/'' ks) (join_str ''/'' ms) label = Inr q" "\<forall>k\<in>set ks. path_name k" "\<forall>m\<in>set ms. path_name m"
  shows "q = join_str ''/'' (ks @ ms)"
proof -
  have "\<forall>n\<in>set (ks @ ms). path_name n" using assms by auto
  note nj = normalized_relative_join [OF this]
  have push: "path_push (join_str ''/'' ks) (join_str ''/'' ms) = join_str ''/'' (ks @ ms)" if "ks \<noteq> []" "ms \<noteq> []"
  proof -
    have "\<not> ends_with ''/'' (join_str ''/'' ks)" "join_str ''/'' ks \<noteq> []"
      using join_last [OF assms(2) that(1)] by (auto simp: ends_slash)
    then show ?thesis using not_absolute_join [OF assms(3)] join_append [OF that] by (simp add: path_push_def)
  qed
  have e: "join_str ''/'' ks = [] \<longleftrightarrow> ks = []" "join_str ''/'' ms = [] \<longleftrightarrow> ms = []"
    using join_head [OF assms(2)] join_head [OF assms(3)] by fastforce+
  have "(if join_str ''/'' ks = [] then join_str ''/'' ms else if join_str ''/'' ms = [] then join_str ''/'' ks
     else path_push (join_str ''/'' ks) (join_str ''/'' ms)) = join_str ''/'' (ks @ ms)"
    unfolding e using push by (auto simp: e)
  then show ?thesis using assms nj
    by (simp add: compose_relative_def bind_coord_def normalized_relative_join)
qed

section \<open>The statement\<close>

text \<open>C26: The coordinates of an application never leave its checkout. When they can be made, every path they compose has exactly the
  components of the directory it was made from; it starts at the root, none of its components is \<open>.\<close> or \<open>..\<close>, also in the part that names
  the checkout, and those of the checkout come first; the output directory is that
  of the application followed by the relative output path, so the panic of \<open>output_relative_to_app\<close> cannot happen; and the base of the
  runtime artifact is the application.\<close>
theorem coordinates_confined:
  assumes "coordinates_new checkout app install build output = Inr c"
  shows "(\<forall>(composed, given)\<in>{(selected_app_path c, app), (install_root_path c, install), (build_cwd_path c, build)}.
      path_components composed = path_components given) \<and>
    path_components (output_root_path c) = path_components app @ filter (\<lambda>p. p \<noteq> Cur_Dir) (path_components output) \<and>
    (\<forall>composed\<in>{selected_app_path c, install_root_path c, build_cwd_path c, output_root_path c}.
      hd (path_components composed) = Root_Dir \<and> Cur_Dir \<notin> set (path_components composed) \<and>
      Parent_Dir \<notin> set (path_components composed) \<and>
      (\<exists>names. path_components composed = path_components checkout @ map Normal_Component names)) \<and>
    runtime_artifact_base c = selected_app_path c \<and> output_relative_to_app c \<noteq> None"
proof -
  obtain ck where ck: "normalized_absolute checkout ''checkout root'' = Inr ck"
    and ap: "relative_role ck app ''selected application'' = Inr (mc_app c)"
    and ins: "relative_role ck install ''package-manager install root'' = Inr (mc_install c)"
    and bu: "relative_role ck build ''build cwd'' = Inr (mc_build c)"
    and out: "\<exists>suffix. normalized_relative output ''output path'' = Inr suffix \<and>
      compose_relative (mc_app c) suffix ''selected application output'' = Inr (mc_output c)"
    and c: "mc_checkout c = ck" "mc_artifact c = mc_app c"
    using assms by (auto simp: coordinates_new_def bind_coord_def split: sum.splits)
  obtain ks where ks: "ck = CHR ''/'' # join_str ''/'' ks" "\<forall>k\<in>set ks. path_name k" "path_components checkout = Root_Dir # map Normal_Component ks"
    using normalized_absolute_names [OF ck] by blast
  have abs: "path_components (absolute_of c (join_str ''/'' ms)) = path_components checkout @ map Normal_Component ms"
    if ms: "\<forall>m\<in>set ms. path_name m" for ms
  proof -
    have all: "\<forall>n\<in>set (ks @ ms). path_name n" using ks(2) ms by auto
    have "absolute_of c (join_str ''/'' ms) = CHR ''/'' # join_str ''/'' (ks @ ms)"
    proof (cases "ms = []")
      case True
      then show ?thesis using ks(1) c(1) by (simp add: absolute_of_def)
    next
      case False
      have "join_str ''/'' ms \<noteq> []" using join_head [OF ms False] by auto
      then show ?thesis using push_rooted_join [OF ks(2) ms False] ks(1) c(1) by (simp add: absolute_of_def)
    qed
    then show ?thesis using components_rooted [OF all] ks(3) by simp
  qed
  obtain as where as: "mc_app c = join_str ''/'' as" "\<forall>m\<in>set as. path_name m" "path_components app = Root_Dir # map Normal_Component (ks @ as)"
    using relative_role_names [OF ap [unfolded ks(1)] ks(2)] by blast
  obtain js where js: "mc_install c = join_str ''/'' js" "\<forall>m\<in>set js. path_name m" "path_components install = Root_Dir # map Normal_Component (ks @ js)"
    using relative_role_names [OF ins [unfolded ks(1)] ks(2)] by blast
  obtain bs where bs: "mc_build c = join_str ''/'' bs" "\<forall>m\<in>set bs. path_name m" "path_components build = Root_Dir # map Normal_Component (ks @ bs)"
    using relative_role_names [OF bu [unfolded ks(1)] ks(2)] by blast
  obtain suffix where suf: "normalized_relative output ''output path'' = Inr suffix"
    and co: "compose_relative (mc_app c) suffix ''selected application output'' = Inr (mc_output c)" using out by blast
  obtain os where so: "suffix = join_str ''/'' os"
    and os: "\<forall>m\<in>set os. path_name m" "filter (\<lambda>p. p \<noteq> Cur_Dir) (path_components output) = map Normal_Component os"
    using normalized_relative_names [OF suf] by blast
  have mo: "mc_output c = join_str ''/'' (as @ os)" using compose_names [OF co [unfolded as(1) so] as(2) os(1)] .
  have all: "\<forall>m\<in>set (as @ os). path_name m" using as(2) os(1) by auto
  have "output_relative_to_app c \<noteq> None" using strip_prefix_names [OF as(2) os(1)] by (simp add: output_relative_to_app_def as(1) mo)
  then show ?thesis
    using abs [OF as(2)] abs [OF js(2)] abs [OF bs(2)] abs [OF all] as js bs os mo ks(3) c(2)
    by (auto simp: selected_app_path_def install_root_path_def build_cwd_path_def output_root_path_def runtime_artifact_base_def
        intro: exI [of _ "as @ os"])
qed

theorem coordinates_confined_witness:
  "\<exists>c. coordinates_new ''/w/repo'' ''/w/repo/apps/web'' ''/w/repo'' ''/w//repo/apps/web/'' ''./dist/out'' = Inr c \<and>
     path_components (output_root_path c) = map (\<lambda>s. if s = ''/'' then Root_Dir else Normal_Component s)
       [''/'', ''w'', ''repo'', ''apps'', ''web'', ''dist'', ''out'']"
proof -
  let ?c = "\<lparr>mc_checkout = ''/w/repo'', mc_install = [], mc_app = ''apps/web'', mc_build = ''apps/web'',
    mc_output = ''apps/web/dist/out'', mc_artifact = ''apps/web''\<rparr>"
  have c: "coordinates_new ''/w/repo'' ''/w/repo/apps/web'' ''/w/repo'' ''/w//repo/apps/web/'' ''./dist/out'' = Inr ?c" by code_simp
  have "path_components ''/w/repo/apps/web'' @ filter (\<lambda>p. p \<noteq> Cur_Dir) (path_components ''./dist/out'') =
      map (\<lambda>s. if s = ''/'' then Root_Dir else Normal_Component s) [''/'', ''w'', ''repo'', ''apps'', ''web'', ''dist'', ''out'']"
    by code_simp
  with coordinates_confined [OF c] show ?thesis using c by metis
qed

text \<open>What a function cwd becomes: relative, without a step up, and stable.\<close>

theorem function_cwd_normal:
  assumes "parse_function_cwd value = Inr p"
  shows "(\<exists>names. path_components p = map Normal_Component names) \<and> normalized_relative p label = Inr p"
proof -
  have "normalized_relative (trim value) ''function cwd'' = Inr p" using assms by (simp add: parse_function_cwd_def split: if_splits)
  then obtain ms where "p = join_str ''/'' ms" "\<forall>m\<in>set ms. path_name m" using normalized_relative_names by blast
  then show ?thesis using components_join [of ms] normalized_relative_join [of ms] by auto
qed

end
