(* ===== verification/Build_Snapshot_Props.thy ===== *)
theory Build_Snapshot_Props
  imports Build_Snapshot Build_Coordinates_Props
begin

text \<open>
  What the seals of a build promise: a sealed contract verifies, a digest binds its contract up to a collision of the hash, the order
  in which sets are given does not matter, and what was sealed was checked. And what normalised paths look like.
\<close>

section \<open>Normal forms\<close>

lemma dedup_dedup: "remdups_adj (remdups_adj xs) = remdups_adj xs"
  using distinct_adj_remdups_adj distinct_adj_altdef by blast

lemma sorted_dedup: "sorted xs \<Longrightarrow> remdups_adj (sort (remdups_adj xs)) = remdups_adj xs"
  for xs :: "string list"
  by (simp add: sorted_remdups_adj sort_key_id_if_sorted dedup_dedup)

lemma repository_normal_idem: "repository_normal (repository_normal c) = repository_normal c"
  by (simp add: repository_normal_def dedup_dedup sort_key_id_if_sorted)

lemma authority_normal_idem: "authority_normal (authority_normal a) = authority_normal a"
  by (cases a) (simp_all add: sort_key_id_if_sorted)

lemma deployment_normal_idem: "deployment_normal (deployment_normal c) = deployment_normal c"
  by (simp add: deployment_normal_def authority_normal_idem)

lemma repository_sealD:
  assumes "repository_seal sha encode c = Inr s"
  shows "rs_contract s = repository_normal c" "rs_digest s = sha (REPOSITORY_DOMAIN @ encode (repository_normal c))"
    "distinct (map ms_path (rp_metadata (repository_normal c)))"
  using assms by (auto simp: repository_seal_def Let_def)

lemma repository_seal_normal: "repository_seal sha encode (repository_normal c) = repository_seal sha encode c"
  by (simp add: repository_seal_def repository_normal_idem)

lemma repository_verifyD:
  assumes "repository_verify sha encode s = Inr u" "inj_on encode {rs_contract s, repository_normal (rs_contract s)}"
  shows "rs_contract s = repository_normal (rs_contract s)" "rs_digest s = sha (REPOSITORY_DOMAIN @ encode (rs_contract s))"
proof -
  obtain r where r: "repository_seal sha encode (rs_contract s) = Inr r" "rs_digest r = rs_digest s"
      "encode (rs_contract s) = encode (rs_contract r)"
    using assms(1) by (auto simp: repository_verify_def bind_result_Inr split: if_splits)
  note d = repository_sealD [OF r(1)]
  have c: "rs_contract s = rs_contract r" using r(3) d(1) by (intro inj_onD [OF assms(2)]) simp_all
  show "rs_contract s = repository_normal (rs_contract s)" using d(1) c by (rule trans [rotated])
  show "rs_digest s = sha (REPOSITORY_DOMAIN @ encode (rs_contract s))" using d(1,2) c r(2) by metis
qed

lemma repository_seal_verifies: "repository_seal sha encode c = Inr s \<Longrightarrow> repository_verify sha encode s = Inr ()"
proof -
  assume s: "repository_seal sha encode c = Inr s"
  then have "repository_seal sha encode (rs_contract s) = Inr s" using repository_sealD(1) [OF s] by (simp add: repository_seal_normal)
  then show ?thesis by (simp add: repository_verify_def bind_result_def)
qed

lemma deployment_sealD:
  assumes "deployment_seal sha er encode c = Inr s"
  shows "ds_contract s = deployment_normal c" "ds_digest s = sha (DEPLOYMENT_DOMAIN @ encode (deployment_normal c))"
    "check_sealed_source (dc_source c) = None" "check_authority sha er (authority_normal (dc_authority c)) = None"
    "check_same_image (dc_source c) (authority_normal (dc_authority c)) = None"
  using assms by (auto simp: deployment_seal_def Let_def first_error_None deployment_normal_def)

lemma deployment_seal_normal: "deployment_seal sha er encode (deployment_normal c) = deployment_seal sha er encode c"
  by (simp add: deployment_seal_def deployment_normal_idem)

lemma deployment_verifyD:
  assumes "deployment_verify sha er encode s = Inr u" "inj_on encode {ds_contract s, deployment_normal (ds_contract s)}"
  shows "ds_contract s = deployment_normal (ds_contract s)" "ds_digest s = sha (DEPLOYMENT_DOMAIN @ encode (ds_contract s))"
    "deployment_seal sha er encode (ds_contract s) = Inr s"
proof -
  obtain r where r: "deployment_seal sha er encode (ds_contract s) = Inr r" "ds_digest s = ds_digest r"
      "encode (ds_contract s) = encode (ds_contract r)"
    using assms(1) by (auto simp: deployment_verify_def bind_result_Inr split: if_splits)
  note d = deployment_sealD [OF r(1)]
  have c: "ds_contract s = ds_contract r" using r(3) d(1) by (intro inj_onD [OF assms(2)]) simp_all
  show "ds_contract s = deployment_normal (ds_contract s)" using d(1) c by (rule trans [rotated])
  show "ds_digest s = sha (DEPLOYMENT_DOMAIN @ encode (ds_contract s))" using d(1,2) c r(2) by metis
  have "r = s" using r(2) c by (intro deployment_snapshot.equality) simp_all
  then show "deployment_seal sha er encode (ds_contract s) = Inr s" using r(1) by simp
qed

lemma domains_differ: "REPOSITORY_DOMAIN @ x \<noteq> DEPLOYMENT_DOMAIN @ y"
  by (simp add: REPOSITORY_DOMAIN_def DEPLOYMENT_DOMAIN_def)

section \<open>The statements\<close>

text \<open>C25: Sealing and verifying a deployment agree. What was sealed verifies, gives back as canonical bytes the encoding of its contract,
  and sealing its contract once more gives the same seal.\<close>
theorem sealed_verifies:
  assumes "deployment_seal sha encode_repository encode contract = Inr s"
  shows "deployment_verify sha encode_repository encode s = Inr () \<and>
    canonical_contract_bytes sha encode_repository encode s = Inr (encode (ds_contract s)) \<and>
    deployment_seal sha encode_repository encode (ds_contract s) = Inr s \<and>
    ds_digest s = sha (DEPLOYMENT_DOMAIN @ encode (ds_contract s))"
proof -
  have again: "deployment_seal sha encode_repository encode (ds_contract s) = Inr s"
    using assms deployment_sealD(1) [OF assms] by (simp add: deployment_seal_normal)
  then have "deployment_verify sha encode_repository encode s = Inr ()" by (simp add: deployment_verify_def bind_result_def)
  then show ?thesis using again deployment_sealD(1,2) [OF assms] by (simp add: canonical_contract_bytes_def bind_result_def)
qed

text \<open>C24: A digest binds what it seals. Take encodings that tell apart the contracts at hand and their normal forms, and a hash that does
  not collide on the three texts at hand. Two deployments that verify and show the same digest are the same snapshot, and a repository
  snapshot that verifies does not show the digest of a deployment that does.\<close>
theorem digest_binds:
  assumes "deployment_verify sha encode_repository encode s = Inr ()" "deployment_verify sha encode_repository encode s' = Inr ()"
    and "repository_verify sha encode_repository r = Inr ()"
    and "inj_on encode {ds_contract s, deployment_normal (ds_contract s), ds_contract s', deployment_normal (ds_contract s')}"
    and "inj_on encode_repository {rs_contract r, repository_normal (rs_contract r)}"
    and "inj_on sha {DEPLOYMENT_DOMAIN @ encode (ds_contract s), DEPLOYMENT_DOMAIN @ encode (ds_contract s'),
      REPOSITORY_DOMAIN @ encode_repository (rs_contract r)}"
  shows "(ds_digest s' = ds_digest s) = (s' = s) \<and> rs_digest r \<noteq> ds_digest s"
proof -
  have v: "ds_digest s = sha (DEPLOYMENT_DOMAIN @ encode (ds_contract s))"
    by (rule deployment_verifyD(2) [OF assms(1) inj_on_subset [OF assms(4)]]) simp
  have v': "ds_digest s' = sha (DEPLOYMENT_DOMAIN @ encode (ds_contract s'))"
    by (rule deployment_verifyD(2) [OF assms(2) inj_on_subset [OF assms(4)]]) simp
  have "s' = s" if same: "ds_digest s' = ds_digest s"
  proof -
    have "sha (DEPLOYMENT_DOMAIN @ encode (ds_contract s')) = sha (DEPLOYMENT_DOMAIN @ encode (ds_contract s))"
      using same v v' by metis
    then have "DEPLOYMENT_DOMAIN @ encode (ds_contract s') = DEPLOYMENT_DOMAIN @ encode (ds_contract s)"
      by (rule inj_onD [OF assms(6)]) simp_all
    then have "ds_contract s' = ds_contract s" by (intro inj_onD [OF assms(4)]) simp_all
    then show ?thesis using same by (intro deployment_snapshot.equality) simp_all
  qed
  moreover have "rs_digest r \<noteq> ds_digest s"
  proof
    assume "rs_digest r = ds_digest s"
    then have "sha (REPOSITORY_DOMAIN @ encode_repository (rs_contract r)) = sha (DEPLOYMENT_DOMAIN @ encode (ds_contract s))"
      using repository_verifyD(2) [OF assms(3,5)] v by metis
    then have "REPOSITORY_DOMAIN @ encode_repository (rs_contract r) = DEPLOYMENT_DOMAIN @ encode (ds_contract s)"
      by (rule inj_onD [OF assms(6)]) simp_all
    then show False using domains_differ by blast
  qed
  ultimately show ?thesis by blast
qed

text \<open>Examples.\<close>

definition ex_hex :: string where "ex_hex = replicate 64 CHR ''a''"

definition ex_image :: oci_identity where
  "ex_image = \<lparr>oi_platform = ''linux/amd64'', oi_manifest = ''sha256:'' @ ex_hex, oi_config = ''sha256:'' @ ex_hex\<rparr>"

definition ex_compose :: "string \<Rightarrow> string \<Rightarrow> deployment_contract" where
  "ex_compose a b = \<lparr>dc_schema = 0, dc_source = Git_Source ''repo'' None (replicate 40 CHR ''0'') ex_hex,
     dc_authority = Compose_Build \<lparr>ms_path = ''compose.yml'', ms_sha256 = ex_hex, ms_bytes = 3\<rparr> ex_hex
       [(a, ex_image), (b, ex_image)] ex_hex\<rparr>"

definition ex_encode :: "deployment_contract \<Rightarrow> string" where
  "ex_encode c = (case dc_authority c of Compose_Build f t services m \<Rightarrow> concat (map fst services) | _ \<Rightarrow> [])"

definition ex_repository :: repository_contract where
  "ex_repository = \<lparr>rp_schema = 1,
     rp_package_manager = \<lparr>ps_manager = ''npm'', ps_source = Pm_Default, ps_declaration = None, ps_lockfile = None, ps_diagnostics = []\<rparr>,
     rp_workspace = None,
     rp_application = \<lparr>ap_selected = ''.'', ap_source = ''root'', ap_evidence = [''a''], ap_decision_digest = None\<rparr>,
     rp_framework = \<lparr>fw_slug = ''static'', fw_name = ''Static'', fw_source = ''preset''\<rparr>,
     rp_steps = \<lparr>bs_install = No_Authority, bs_build = Generated_Step Run_Build_Script\<rparr>, rp_output = ''dist'',
     rp_coordinates = \<lparr>rc_checkout_root = ''.'', rc_install_root = ''.'', rc_selected_app = ''.'', rc_build_cwd = ''.'',
       rc_output_root = ''dist'', rc_runtime_artifact_base = ''.'', rc_function_cwd = ''.''\<rparr>,
     rp_metadata = [\<lparr>ms_path = ''package.json'', ms_sha256 = ex_hex, ms_bytes = 2\<rparr>]\<rparr>"

definition ex_sealed :: "string \<Rightarrow> string \<Rightarrow> deployment_snapshot" where
  "ex_sealed a b = \<lparr>ds_digest = DEPLOYMENT_DOMAIN @ a @ b, ds_contract = (ex_compose a b)\<lparr>dc_schema := 2\<rparr>\<rparr>"

definition ex_repo_sealed :: repository_snapshot where
  "ex_repo_sealed = \<lparr>rs_digest = REPOSITORY_DOMAIN @ ''j'', rs_contract = ex_repository\<rparr>"

lemma ex_hex_ok: "length ex_hex = 64" "lower_hex ex_hex"
proof -
  have "is_digit CHR ''a'' \<or> CHR ''a'' \<le> CHR ''a'' \<and> CHR ''a'' \<le> CHR ''f''" by code_simp
  then show "lower_hex ex_hex" by (simp add: lower_hex_def ex_hex_def list_all_iff)
  show "length ex_hex = 64" by (simp add: ex_hex_def)
qed

lemma ex_image_ok: "check_oci ex_image = None"
proof -
  have "check_identity ''linux/amd64'' ''OCI platform'' = None" by code_simp
  then show ?thesis
    by (simp add: check_oci_def ex_image_def check_oci_digest_def check_sha256_def ex_hex_ok first_error_None strip_prefix_iff)
qed

lemma ex_parts_ok:
  "check_identity ''repo'' ''Git repository'' = None" "check_identity ''web'' ''Compose service name'' = None"
  "check_identity ''db'' ''Compose service name'' = None" "check_identity ''x'' ''Compose service name'' = None"
  "lower_hex (replicate 40 CHR ''0'')"
  "sort_key fst [(''web'', ex_image), (''db'', ex_image)] = [(''db'', ex_image), (''web'', ex_image)]"
  "sort_key fst [(''db'', ex_image), (''web'', ex_image)] = [(''db'', ex_image), (''web'', ex_image)]"
  "sort_key fst [(''db'', ex_image), (''x'', ex_image)] = [(''db'', ex_image), (''x'', ex_image)]"
  by code_simp+

lemma ex_seals:
  "deployment_seal (\<lambda>x. x) (\<lambda>_. ''j'') ex_encode (ex_compose ''web'' ''db'') = Inr (ex_sealed ''db'' ''web'')"
  "deployment_seal (\<lambda>x. x) (\<lambda>_. ''j'') ex_encode (ds_contract (ex_sealed ''db'' ''web'')) = Inr (ex_sealed ''db'' ''web'')"
  "deployment_seal (\<lambda>x. x) (\<lambda>_. ''j'') ex_encode (ds_contract (ex_sealed ''db'' ''x'')) = Inr (ex_sealed ''db'' ''x'')"
  "deployment_normal (ds_contract (ex_sealed ''db'' ''web'')) = ds_contract (ex_sealed ''db'' ''web'')"
  "deployment_normal (ds_contract (ex_sealed ''db'' ''x'')) = ds_contract (ex_sealed ''db'' ''x'')"
  by (simp_all add: deployment_seal_def deployment_normal_def ex_compose_def ex_sealed_def Let_def checked_def first_error_None
      check_sealed_source_def check_git_object_def check_authority_def check_metadata_def check_sha256_def check_same_image_def
      ex_parts_ok ex_hex_ok ex_image_ok ex_encode_def DEPLOYMENT_SCHEMA_def)

lemma ex_verified:
  "deployment_verify (\<lambda>x. x) (\<lambda>_. ''j'') ex_encode (ex_sealed ''db'' ''web'') = Inr ()"
  "deployment_verify (\<lambda>x. x) (\<lambda>_. ''j'') ex_encode (ex_sealed ''db'' ''x'') = Inr ()"
  using ex_seals(2,3) by (simp_all add: deployment_verify_def bind_result_def)

lemma ex_repository_ok:
  "repository_normal ex_repository = ex_repository"
  "repository_verify (\<lambda>x. x) (\<lambda>_. ''j'') ex_repo_sealed = Inr ()"
  by (simp_all add: repository_verify_def repository_seal_def Let_def checked_def bind_result_def repository_normal_def ex_repository_def
      ex_repo_sealed_def REPOSITORY_SCHEMA_def)

theorem sealed_verifies_witness:
  "deployment_seal (\<lambda>x. x) (\<lambda>_. ''j'') ex_encode (ds_contract (ex_sealed ''db'' ''web'')) = Inr (ex_sealed ''db'' ''web'')"
  using sealed_verifies [OF ex_seals(1)] by blast

theorem digest_binds_witness:
  "rs_digest ex_repo_sealed \<noteq> ds_digest (ex_sealed ''db'' ''web'') \<and>
   (ds_digest (ex_sealed ''db'' ''x'') = ds_digest (ex_sealed ''db'' ''web'')) = (ex_sealed ''db'' ''x'' = ex_sealed ''db'' ''web'')"
proof -
  have "ex_encode (ds_contract (ex_sealed ''db'' ''web'')) \<noteq> ex_encode (ds_contract (ex_sealed ''db'' ''x''))" by code_simp
  then have "inj_on ex_encode {ds_contract (ex_sealed ''db'' ''web''), deployment_normal (ds_contract (ex_sealed ''db'' ''web'')),
      ds_contract (ex_sealed ''db'' ''x''), deployment_normal (ds_contract (ex_sealed ''db'' ''x''))}"
    unfolding ex_seals(4,5) by (auto simp: inj_on_def)
  from digest_binds [OF ex_verified ex_repository_ok(2) this _ inj_on_id2] show ?thesis by (simp add: ex_repo_sealed_def ex_repository_ok(1))
qed

text \<open>The order in which a Compose build lists its services does not matter. Two lists of the same services, all with different names,
  seal to the same result: the same refusal, or the same digest and contract.\<close>
theorem service_order_irrelevant:
  assumes "mset services = mset services'" "distinct (map fst services)"
  shows "deployment_seal sha encode_repository encode \<lparr>dc_schema = n, dc_source = source, dc_authority = Compose_Build f t services m\<rparr> =
    deployment_seal sha encode_repository encode \<lparr>dc_schema = n', dc_source = source, dc_authority = Compose_Build f t services' m\<rparr>"
proof -
  have same: "set services = set services'" using assms(1) by (rule mset_eq_setD)
  have d': "distinct (map fst services')" using assms by (metis mset_eq_imp_distinct_iff mset_map)
  have "sort_key fst services = sort_key fst services'"
  proof (rule map_sorted_distinct_set_unique)
    show "inj_on fst (set (sort_key fst services) \<union> set (sort_key fst services'))"
      using assms(2) same by (simp add: distinct_map)
    show "distinct (map fst (sort_key fst services))" "distinct (map fst (sort_key fst services'))"
      using assms(2) d' by (simp_all add: distinct_map)
  qed (simp_all add: same)
  then show ?thesis by (simp add: deployment_seal_def deployment_normal_def)
qed

theorem service_order_irrelevant_witness:
  "deployment_seal (\<lambda>x. x) (\<lambda>_. ''j'') ex_encode \<lparr>dc_schema = 0, dc_source = Oci_Source ''i'' ex_image,
     dc_authority = Compose_Build \<lparr>ms_path = ''c'', ms_sha256 = ex_hex, ms_bytes = 3\<rparr> ex_hex [(''b'', ex_image), (''a'', ex_image)] ex_hex\<rparr> =
   deployment_seal (\<lambda>x. x) (\<lambda>_. ''j'') ex_encode \<lparr>dc_schema = 7, dc_source = Oci_Source ''i'' ex_image,
     dc_authority = Compose_Build \<lparr>ms_path = ''c'', ms_sha256 = ex_hex, ms_bytes = 3\<rparr> ex_hex [(''a'', ex_image), (''b'', ex_image)] ex_hex\<rparr>"
  by (rule service_order_irrelevant) simp_all

text \<open>What was sealed had been checked. The manifest digest is 64 lowercase hexadecimal digits; a deployment made from a prebuilt image
  serves that very image; a Docker build resolved to the platform it was built for; and a Compose build has at least one service, each
  once, in the order of their names.\<close>
theorem sealed_checked:
  assumes "deployment_seal sha encode_repository encode contract = Inr s"
  shows "length (manifest_digest (dc_authority (ds_contract s))) = 64 \<and> lower_hex (manifest_digest (dc_authority (ds_contract s))) \<and>
    (case dc_source (ds_contract s) of
       Oci_Source requested resolved \<Rightarrow> \<exists>m. dc_authority (ds_contract s) = Prebuilt_Oci resolved m
     | _ \<Rightarrow> True) \<and>
    (case dc_authority (ds_contract s) of
       Dockerfile_Build f c platform b img m \<Rightarrow> oi_platform img = platform
     | Compose_Build f t services m \<Rightarrow> services \<noteq> [] \<and> sorted (map fst services) \<and> distinct (map fst services)
     | _ \<Rightarrow> True)"
proof -
  note d = deployment_sealD [OF assms]
  have auth: "dc_authority (ds_contract s) = authority_normal (dc_authority contract)" "dc_source (ds_contract s) = dc_source contract"
    using d(1) by (simp_all add: deployment_normal_def)
  have services: "distinct (map fst xs) \<and> set (map fst xs) \<inter> names = {}" if "check_services names xs = None" for names xs
    using that by (induction names xs rule: check_services.induct) (auto simp: first_error_None)
  have "length (manifest_digest (authority_normal (dc_authority contract))) = 64 \<and>
      lower_hex (manifest_digest (authority_normal (dc_authority contract)))"
    using d(4) by (simp add: check_authority_def first_error_None check_sha256_def)
  moreover have "case dc_source contract of Oci_Source requested resolved \<Rightarrow> \<exists>m. authority_normal (dc_authority contract) = Prebuilt_Oci resolved m | _ \<Rightarrow> True"
    using d(5) by (auto simp: check_same_image_def split: source_snapshot.splits build_authority.splits)
  moreover have "case authority_normal (dc_authority contract) of
       Dockerfile_Build f c platform b img m \<Rightarrow> oi_platform img = platform
     | Compose_Build f t xs m \<Rightarrow> xs \<noteq> [] \<and> sorted (map fst xs) \<and> distinct (map fst xs)
     | _ \<Rightarrow> True"
  proof (cases "dc_authority contract")
    case (Compose_Build f t xs m)
    have "xs \<noteq> []" "check_services {} (sort_key fst xs) = None"
      using d(4) Compose_Build by (simp_all add: check_authority_def first_error_None) (metis sort_key_simps(1))
    moreover from this have "distinct (map fst (sort_key fst xs))" using services by blast
    moreover have "sort_key fst xs \<noteq> []" using \<open>xs \<noteq> []\<close> by (metis length_0_conv length_sort)
    ultimately show ?thesis using Compose_Build by simp
  qed (use d(4) in \<open>auto simp: check_authority_def first_error_None\<close>)
  ultimately show ?thesis unfolding auth by blast
qed

theorem sealed_checked_witness:
  "lower_hex (manifest_digest (dc_authority (ds_contract (ex_sealed ''db'' ''web''))))"
  using sealed_checked [OF ex_seals(1)] by blast

section \<open>Paths\<close>

lemma path_names_ok:
  "path_names utf8 cs = Inr ns \<longleftrightarrow>
     filter (\<lambda>c. c \<noteq> Cur_Dir) cs = map Normal_Component ns \<and> (\<forall>n\<in>set ns. utf8 n \<and> \<not> has_control n)"
proof (induction utf8 cs arbitrary: ns rule: path_names.induct)
  case (1 utf8)
  then show ?case by auto
next
  case (2 utf8 v cs)
  show ?case
  proof (cases "utf8 v \<and> \<not> has_control v")
    case True
    then have "path_names utf8 (Normal_Component v # cs) = Inr ns \<longleftrightarrow> (\<exists>r. path_names utf8 cs = Inr r \<and> ns = v # r)"
      by (auto simp: bind_result_Inr)
    also have "\<dots> \<longleftrightarrow> (\<exists>r. (filter (\<lambda>c. c \<noteq> Cur_Dir) cs = map Normal_Component r \<and> (\<forall>n\<in>set r. utf8 n \<and> \<not> has_control n)) \<and> ns = v # r)"
      using "2.IH" True by simp
    also have "\<dots> \<longleftrightarrow> filter (\<lambda>c. c \<noteq> Cur_Dir) (Normal_Component v # cs) = map Normal_Component ns \<and> (\<forall>n\<in>set ns. utf8 n \<and> \<not> has_control n)"
      using True by (cases ns) auto
    finally show ?thesis .
  next
    case False
    then show ?thesis by (cases ns) auto
  qed
next
  case (3 utf8 cs)
  then show ?case by simp
next
  case (4 utf8 cs)
  then show ?case by (cases ns) auto
next
  case (5 utf8 cs)
  then show ?case by (cases ns) auto
qed

text \<open>A repository path is normalised once and for all. What parsing gives is a path of names only, none of them empty, \<open>.\<close> or \<open>..\<close>, the
  components of the given path in order and without control characters; it is at most 4096 bytes long; and parsing it again gives it back.\<close>
theorem repository_path_normal:
  assumes "parse_repository_path utf8 path = Inr p"
  shows "\<exists>names. p = dot_or_join names \<and> (\<forall>n\<in>set names. path_name n \<and> \<not> has_control n) \<and>
    filter (\<lambda>c. c \<noteq> Cur_Dir) (path_components path) = map Normal_Component names \<and>
    length p \<le> 4096 \<and> parse_repository_path utf8 p = Inr p"
proof -
  obtain names where n: "path_names utf8 (path_components path) = Inr names" "p = dot_or_join names" "length p \<le> MAX_PATH_BYTES"
    using assms by (auto simp: parse_repository_path_def bind_result_Inr split: if_splits)
  note k = n(1) [unfolded path_names_ok]
  have names: "\<forall>n\<in>set names. path_name n"
  proof
    fix m assume "m \<in> set names"
    then have "Normal_Component m \<in> set (filter (\<lambda>c. c \<noteq> Cur_Dir) (path_components path))" using k by simp
    then show "path_name m" using component_names by auto
  qed
  have "filter (\<lambda>c. c \<noteq> Cur_Dir) (path_components p) = map Normal_Component names"
  proof (cases "names = []")
    case True
    have "filter (\<lambda>c. c \<noteq> Cur_Dir) (path_components ''.'') = []" by code_simp
    then show ?thesis using True n(2) by (simp add: dot_or_join_def)
  next
    case False
    have "filter (\<lambda>c. c \<noteq> Cur_Dir) (map Normal_Component names) = map Normal_Component names" by (simp add: filter_map o_def)
    then show ?thesis using False n(2) components_join [OF names] by (simp add: dot_or_join_def)
  qed
  then have "path_names utf8 (path_components p) = Inr names" using k by (simp add: path_names_ok)
  then have "parse_repository_path utf8 p = Inr p"
    using n(2,3) by (simp add: parse_repository_path_def bind_result_def)
  then show ?thesis using k names n(2,3) by (auto simp: MAX_PATH_BYTES_def)
qed

theorem repository_path_normal_witness:
  "\<exists>names. ''apps/web'' = dot_or_join names \<and> filter (\<lambda>c. c \<noteq> Cur_Dir) (path_components ''./apps//web/.'') = map Normal_Component names"
proof -
  have "parse_repository_path (\<lambda>_. True) ''./apps//web/.'' = Inr ''apps/web''" by code_simp
  from repository_path_normal [OF this] show ?thesis by blast
qed

lemma output_components_names:
  "output_components cs = Some ns \<Longrightarrow> \<forall>c\<in>set cs. CHR ''/'' \<notin> set c \<Longrightarrow> \<forall>n\<in>set ns. path_name n"
  by (induction cs arbitrary: ns) (auto simp: path_name_def split: if_splits)

text \<open>An output directory stays below the application: it is made of names.\<close>

theorem output_dir_below:
  assumes "parse_output_dir value = Inr p"
  shows "\<exists>names. p = dot_or_join names \<and> (\<forall>n\<in>set names. path_name n) \<and> length p \<le> 4096"
proof -
  obtain v cs where "output_components (split_on CHR ''/'' v) = Some cs" "p = dot_or_join cs" "length p \<le> OUTPUT_MAX_BYTES"
    using assms by (auto simp: parse_output_dir_def Let_def split: if_splits option.splits)
  moreover have "\<forall>c\<in>set (split_on CHR ''/'' v). CHR ''/'' \<notin> set c" using parts_free by blast
  ultimately show ?thesis using output_components_names [of "split_on CHR ''/'' v" cs] by (auto simp: OUTPUT_MAX_BYTES_def)
qed

text \<open>It is not a normal form: it can begin with a drive letter or with a space, and is then refused or changed when parsed again.\<close>

theorem output_dir_unstable:
  "parse_output_dir ''./C:/x'' = Inr ''C:/x'' \<and> (\<exists>e. parse_output_dir ''C:/x'' = Inl e) \<and>
   parse_output_dir ''./ dist'' = Inr '' dist'' \<and> parse_output_dir '' dist'' = Inr ''dist''"
proof -
  have "case parse_output_dir ''C:/x'' of Inl e \<Rightarrow> True | Inr _ \<Rightarrow> False" by code_simp
  moreover have "parse_output_dir ''./C:/x'' = Inr ''C:/x''" "parse_output_dir ''./ dist'' = Inr '' dist''" "parse_output_dir '' dist'' = Inr ''dist''"
    by code_simp+
  ultimately show ?thesis by (auto split: sum.splits)
qed

end
