(* ===== verification/Edge_Nodes.thy ===== *)
theory Edge_Nodes
  imports Complex_Main Byte_Strings
begin

text \<open>
  The registry of nodes (\<open>crates/hive-edge/src/region.rs\<close>): what a node knows of itself and of its peers, gossip from a peer itself and
  relayed by others, the verdicts of health probes, and the choice of a node. The wall clock, the monotone clock of \<open>Instant\<close> and what
  peers report are arguments; coordinates and distances, \<open>f64\<close> in the code, are real numbers. The peers are a table, whose order stands
  for the order in which the hash map is traversed.
\<close>

section \<open>Records\<close>

record gpu_device =
  gd_vendor :: string
  gd_model :: string
  gd_count :: nat
  gd_vram_mib_each :: nat

record node_info =
  ni_id :: string
  ni_name :: string
  ni_region :: string
  ni_public_url :: string
  ni_public_ip :: "string option"
  ni_public_ip6 :: "string option"
  ni_peer_id :: "string option"
  ni_iroh_addr :: "string option"
  ni_guardian_iroh_addr :: "string option"
  ni_relay_url :: "string option"
  ni_dns_ns :: "string option"
  ni_dns_api :: bool
  ni_dns_attest :: "string list"
  ni_dashboard :: bool
  ni_cp_epoch :: nat
  ni_last_seen_ms :: nat
  ni_is_self :: bool
  ni_latency_ms :: nat
  ni_healthy :: bool
  ni_lat :: "real option"
  ni_lon :: "real option"
  ni_city :: "string option"
  ni_country :: "string option"
  ni_cpu_cores :: nat
  ni_cpu_model :: "string option"
  ni_cpu_physical_cores :: "nat option"
  ni_cpu_architecture :: "string option"
  ni_mem_total_mb :: nat
  ni_disk_total_gb :: nat
  ni_disk_free_gb :: nat
  ni_gpu_free_mb :: "nat option"
  ni_backend :: string
  ni_gpu_count :: nat
  ni_wasm_runtime :: "bool option"
  ni_bun_runtime :: "bool option"
  ni_runtime_artifact_protocol :: "nat option"
  ni_build_isolation_protocol :: "nat option"
  ni_artifact_transfer_protocol :: "nat option"
  ni_gpu_model :: "string option"
  ni_gpu_vram_mb :: nat
  ni_gpu_devices :: "gpu_device list"
  ni_started_ms :: nat
  ni_oom_restarts_24h :: nat
  ni_last_oom_ms :: "nat option"
  ni_provider :: "string option"
  ni_private_addr :: "string option"

record peer_identity =
  pi_name :: string
  pi_endpoint_id :: "string option"

datatype peer_demotion = Demotion_Missing | Gossip_Alive peer_identity | Demoted peer_identity

record node_registry =
  nr_me :: node_info
  nr_peers :: "(string, node_info) table"
  nr_received :: "(string, nat) table"

section \<open>Geography\<close>

definition radians :: "real \<Rightarrow> real" where
  "radians d = d * pi / 180"

definition haversine_km :: "real \<times> real \<Rightarrow> real \<times> real \<Rightarrow> real" where
  "haversine_km a b =
     (let lat1 = radians (fst a); lat2 = radians (fst b);
          dlat = lat2 - lat1; dlon = radians (snd b) - radians (snd a);
          h = (sin (dlat / 2))\<^sup>2 + cos lat1 * cos lat2 * (sin (dlon / 2))\<^sup>2
      in 2 * 6371 * arcsin (sqrt h))"

definition continent_of :: "real \<Rightarrow> real \<Rightarrow> string" where
  "continent_of lat lon =
     (if lat < -60 then ''Antarctica''
      else if lat < 0 \<and> 110 \<le> lon \<and> lon \<le> 180 then ''Oceania''
      else if 36 \<le> lat \<and> lat \<le> 72 \<and> -25 \<le> lon \<and> lon \<le> 60 then ''Europe''
      else if -35 \<le> lat \<and> lat < 36 \<and> -20 \<le> lon \<and> lon \<le> 52 then ''Africa''
      else if 52 < lon \<and> lon \<le> 180 then ''Asia''
      else if lat < 13 \<and> -82 \<le> lon \<and> lon \<le> -34 then ''South America''
      else if -170 \<le> lon \<and> lon \<le> -34 then ''North America''
      else ''Other'')"

definition CENTRAL_RELAY_URL :: string where
  "CENTRAL_RELAY_URL = ''https://relay.shadw.cloud''"

definition present :: "string option \<Rightarrow> string option" where
  "present u = (case u of Some s \<Rightarrow> if trim s = [] then None else Some (trim s) | None \<Rightarrow> None)"

text \<open>The nearest of the nodes that have a relay and a position; a later one has to be strictly nearer.\<close>

fun nearest_relay :: "real \<Rightarrow> real \<Rightarrow> (real \<times> string) option \<Rightarrow> node_info list \<Rightarrow> (real \<times> string) option" where
  "nearest_relay tlat tlon best [] = best"
| "nearest_relay tlat tlon best (n # ns) =
     (case (present (ni_relay_url n), ni_lat n, ni_lon n) of
        (Some r, Some lat, Some lon) \<Rightarrow>
          (let d = (lat - tlat)\<^sup>2 + (lon - tlon)\<^sup>2
           in nearest_relay tlat tlon (case best of Some (bd, br) \<Rightarrow> if d < bd then Some (d, r) else Some (bd, br) | None \<Rightarrow> Some (d, r)) ns)
      | _ \<Rightarrow> nearest_relay tlat tlon best ns)"

definition first_relay :: "node_info list \<Rightarrow> string option" where
  "first_relay ns = (case List.map_filter (\<lambda>n. present (ni_relay_url n)) ns of r # _ \<Rightarrow> Some r | [] \<Rightarrow> None)"

definition select_relay_hint :: "node_info \<Rightarrow> node_info list \<Rightarrow> node_info \<Rightarrow> string" where
  "select_relay_hint target nodes me =
     (case present (ni_relay_url target) of
        Some r \<Rightarrow> r
      | None \<Rightarrow>
          (let others = filter (\<lambda>n. ni_id n \<noteq> ni_id target \<and> ni_id n \<noteq> ni_id me) nodes;
               near = (case (ni_lat target, ni_lon target) of
                         (Some tlat, Some tlon) \<Rightarrow> nearest_relay tlat tlon None others
                       | _ \<Rightarrow> None)
           in case near of
                Some (d, r) \<Rightarrow> r
              | None \<Rightarrow> (case first_relay others of Some r \<Rightarrow> r | None \<Rightarrow> CENTRAL_RELAY_URL)))"

section \<open>Freshness and latency\<close>

definition U64_MAX :: nat where "U64_MAX = 2 ^ 64 - 1"
definition RESTORED_LATENCY_MS :: nat where "RESTORED_LATENCY_MS = U64_MAX - 1"
definition MAX_GOSSIP_FUTURE_SKEW_MS :: nat where "MAX_GOSSIP_FUTURE_SKEW_MS = 5000"

definition sat_add64 :: "nat \<Rightarrow> nat \<Rightarrow> nat" where
  "sat_add64 a b = min U64_MAX (a + b)"

definition gossip_timestamp_fresh :: "nat \<Rightarrow> nat \<Rightarrow> nat \<Rightarrow> bool" where
  "gossip_timestamp_fresh last_seen now max_age \<longleftrightarrow>
     last_seen \<le> sat_add64 now MAX_GOSSIP_FUTURE_SKEW_MS \<and> now - last_seen < max_age"

definition peer_latency_sort_key :: "nat \<Rightarrow> nat \<times> nat" where
  "peer_latency_sort_key latency = (if latency = 0 \<or> RESTORED_LATENCY_MS \<le> latency then (1, latency) else (0, latency))"

section \<open>This node\<close>

definition registry_new :: "node_info \<Rightarrow> node_registry" where
  "registry_new me = \<lparr>nr_me = me, nr_peers = [], nr_received = []\<rparr>"

definition me_now :: "nat \<Rightarrow> node_registry \<Rightarrow> node_info" where
  "me_now now reg = (nr_me reg)\<lparr>ni_is_self := True, ni_last_seen_ms := now, ni_latency_ms := 0, ni_healthy := True\<rparr>"

text \<open>What the node may publish about itself.\<close>

datatype self_report =
    Self_Guardian_Addr "string option" | Self_Iroh_Addr string | Self_Relay_Url "string option" | Self_Dns_Attest "string list"
  | Self_Dashboard bool | Self_Cp_Epoch nat | Self_Geo real real string string | Self_Disk_Free nat | Self_Gpu_Free "nat option"
  | Self_Capabilities "bool option" "bool option" "nat option" | Self_Transfer_Protocol "nat option"
  | Self_Restart_Audit nat nat "nat option"

fun set_self :: "self_report \<Rightarrow> node_info \<Rightarrow> node_info" where
  "set_self (Self_Guardian_Addr a) me = me\<lparr>ni_guardian_iroh_addr := a\<rparr>"
| "set_self (Self_Iroh_Addr a) me = me\<lparr>ni_iroh_addr := Some a\<rparr>"
| "set_self (Self_Relay_Url u) me = me\<lparr>ni_relay_url := u\<rparr>"
| "set_self (Self_Dns_Attest xs) me = me\<lparr>ni_dns_attest := xs\<rparr>"
| "set_self (Self_Dashboard ok) me = me\<lparr>ni_dashboard := ok\<rparr>"
| "set_self (Self_Cp_Epoch e) me = me\<lparr>ni_cp_epoch := e\<rparr>"
| "set_self (Self_Geo lat lon city country) me =
     (if ni_lat me \<noteq> Some lat \<or> ni_lon me \<noteq> Some lon
      then me\<lparr>ni_lat := Some lat, ni_lon := Some lon, ni_city := Some city, ni_country := Some country\<rparr> else me)"
| "set_self (Self_Disk_Free g) me = me\<lparr>ni_disk_free_gb := g\<rparr>"
| "set_self (Self_Gpu_Free g) me = me\<lparr>ni_gpu_free_mb := g\<rparr>"
| "set_self (Self_Capabilities w b a) me =
     me\<lparr>ni_wasm_runtime := w, ni_bun_runtime := b, ni_runtime_artifact_protocol := a\<rparr>"
| "set_self (Self_Transfer_Protocol p) me = me\<lparr>ni_artifact_transfer_protocol := p\<rparr>"
| "set_self (Self_Restart_Audit s n l) me = me\<lparr>ni_started_ms := s, ni_oom_restarts_24h := n, ni_last_oom_ms := l\<rparr>"

section \<open>Identity of peers\<close>

definition nonempty :: "string option \<Rightarrow> string option" where
  "nonempty s = (case s of Some [] \<Rightarrow> None | _ \<Rightarrow> s)"

definition peer_name_for :: "(string, node_info) table \<Rightarrow> string \<Rightarrow> string option" where
  "peer_name_for peers i =
     (case find (\<lambda>(k, p). ni_peer_id p = Some i) peers of
        Some (k, p) \<Rightarrow> Some k
      | None \<Rightarrow> if tget peers i \<noteq> None then Some i else None)"

definition identity_of :: "node_info \<Rightarrow> peer_identity" where
  "identity_of p = \<lparr>pi_name = ni_id p, pi_endpoint_id = nonempty (ni_peer_id p)\<rparr>"

definition peer_of :: "string \<Rightarrow> node_registry \<Rightarrow> node_info option" where
  "peer_of i reg = Option.bind (peer_name_for (nr_peers reg) i) (tget (nr_peers reg))"

definition peer_identity_of :: "string \<Rightarrow> node_registry \<Rightarrow> peer_identity option" where
  "peer_identity_of i reg = map_option identity_of (peer_of i reg)"

definition peer_last_seen_ms :: "string \<Rightarrow> node_registry \<Rightarrow> nat option" where
  "peer_last_seen_ms i reg = map_option ni_last_seen_ms (peer_of i reg)"

definition gossip_evidence_snapshot :: "nat \<Rightarrow> node_registry \<Rightarrow> (string \<times> nat) list" where
  "gossip_evidence_snapshot inst reg = sort_key fst (map (\<lambda>(e, t). (e, inst - t)) (nr_received reg))"

section \<open>Health\<close>

definition demote_if_gossip_stale ::
    "string \<Rightarrow> string option \<Rightarrow> nat option \<Rightarrow> nat \<Rightarrow> nat \<Rightarrow> node_registry \<Rightarrow> peer_demotion \<times> node_registry" where
  "demote_if_gossip_stale i expected observed max_age now reg =
     (case (case expected of
              Some e \<Rightarrow> (case tget (nr_peers reg) i of Some p \<Rightarrow> if ni_peer_id p = Some e then Some i else None | None \<Rightarrow> None)
            | None \<Rightarrow> peer_name_for (nr_peers reg) i) of
        None \<Rightarrow> (Demotion_Missing, reg)
      | Some name \<Rightarrow>
          (case tget (nr_peers reg) name of
             None \<Rightarrow> (Demotion_Missing, reg)
           | Some p \<Rightarrow>
               if gossip_timestamp_fresh (ni_last_seen_ms p) now max_age \<or>
                  (case observed of Some s \<Rightarrow> gossip_timestamp_fresh s now max_age | None \<Rightarrow> False)
               then (Gossip_Alive (identity_of p), reg)
               else (Demoted (identity_of p),
                 reg\<lparr>nr_peers := tput name (p\<lparr>ni_latency_ms := U64_MAX, ni_healthy := False\<rparr>) (nr_peers reg)\<rparr>)))"

definition restore_peer :: "node_info \<Rightarrow> node_info" where
  "restore_peer p = p\<lparr>ni_healthy := True,
     ni_latency_ms := (if ni_latency_ms p = U64_MAX \<or> ni_latency_ms p = 0 then RESTORED_LATENCY_MS else ni_latency_ms p)\<rparr>"

definition restorable :: "nat \<Rightarrow> nat \<Rightarrow> node_info \<Rightarrow> bool" where
  "restorable max_age now p \<longleftrightarrow>
     \<not> ni_healthy p \<and> gossip_timestamp_fresh (ni_last_seen_ms p) now max_age \<and> nonempty (ni_peer_id p) \<noteq> None"

definition restore_gossip_fresh :: "nat \<Rightarrow> nat \<Rightarrow> node_registry \<Rightarrow> string list \<times> node_registry" where
  "restore_gossip_fresh max_age now reg =
     (List.map_filter (\<lambda>(k, p). if restorable max_age now p then ni_peer_id p else None) (nr_peers reg),
      reg\<lparr>nr_peers := map (\<lambda>(k, p). (k, if restorable max_age now p then restore_peer p else p)) (nr_peers reg)\<rparr>)"

definition gossip_fresh_unhealthy :: "nat \<Rightarrow> nat \<Rightarrow> node_registry \<Rightarrow> string list" where
  "gossip_fresh_unhealthy max_age now reg =
     List.map_filter (\<lambda>(k, p). nonempty (ni_peer_id p))
       (filter (\<lambda>(k, p). \<not> ni_healthy p \<and> gossip_timestamp_fresh (ni_last_seen_ms p) now max_age) (nr_peers reg))"

definition withdrawn_as :: "string \<Rightarrow> string \<times> node_info \<Rightarrow> bool" where
  "withdrawn_as i kp \<longleftrightarrow> ni_peer_id (snd kp) = Some i \<and> \<not> ni_healthy (snd kp)"

fun restore_only :: "string list \<Rightarrow> node_registry \<Rightarrow> string list \<times> node_registry" where
  "restore_only [] reg = ([], reg)"
| "restore_only (i # rest) reg =
     (if list_ex (withdrawn_as i) (nr_peers reg)
      then (case restore_only rest (reg\<lparr>nr_peers := upd_first (withdrawn_as i) (map_prod id restore_peer) (nr_peers reg)\<rparr>) of
              (out, reg') \<Rightarrow> (i # out, reg'))
      else restore_only rest reg)"

definition update_health :: "nat \<Rightarrow> bool \<Rightarrow> nat \<Rightarrow> node_info \<Rightarrow> node_info" where
  "update_health latency healthy now p =
     (let p1 = p\<lparr>ni_latency_ms := (if healthy \<and> latency = U64_MAX then RESTORED_LATENCY_MS else latency), ni_healthy := healthy\<rparr>
      in if healthy then p1\<lparr>ni_last_seen_ms := now\<rparr> else p1)"

definition set_health :: "string \<Rightarrow> nat \<Rightarrow> bool \<Rightarrow> nat \<Rightarrow> node_registry \<Rightarrow> node_registry" where
  "set_health i latency healthy now reg =
     (case peer_name_for (nr_peers reg) i of
        None \<Rightarrow> reg
      | Some name \<Rightarrow> reg\<lparr>nr_peers := tmod name (update_health latency healthy now) (nr_peers reg)\<rparr>)"

definition set_health_if_endpoint :: "string \<Rightarrow> string \<Rightarrow> nat \<Rightarrow> bool \<Rightarrow> nat \<Rightarrow> node_registry \<Rightarrow> bool \<times> node_registry" where
  "set_health_if_endpoint name expected latency healthy now reg =
     (case tget (nr_peers reg) name of
        None \<Rightarrow> (False, reg)
      | Some p \<Rightarrow>
          if ni_peer_id p \<noteq> Some expected then (False, reg)
          else (True, reg\<lparr>nr_peers := tput name (update_health latency healthy now p) (nr_peers reg)\<rparr>))"

section \<open>Gossip\<close>

definition or_else :: "'a option \<Rightarrow> 'a option \<Rightarrow> 'a option" where
  "or_else a b = (case a of None \<Rightarrow> b | Some x \<Rightarrow> Some x)"

text \<open>The record that replaces the one the registry has.\<close>

definition merge_peer :: "nat \<Rightarrow> node_info \<Rightarrow> node_info \<Rightarrow> node_info" where
  "merge_peer now old peer =
     (let seen = (if sat_add64 now MAX_GOSSIP_FUTURE_SKEW_MS < ni_last_seen_ms old then now else ni_last_seen_ms old)
      in peer\<lparr>ni_peer_id := (if nonempty (ni_peer_id peer) = None then ni_peer_id old else ni_peer_id peer),
           ni_healthy := ni_healthy old, ni_latency_ms := ni_latency_ms old,
           ni_dns_attest := (if ni_last_seen_ms peer < seen then ni_dns_attest old else ni_dns_attest peer),
           ni_last_seen_ms := max (ni_last_seen_ms peer) seen,
           ni_guardian_iroh_addr := or_else (ni_guardian_iroh_addr peer) (ni_guardian_iroh_addr old),
           ni_wasm_runtime := or_else (ni_wasm_runtime peer) (ni_wasm_runtime old),
           ni_bun_runtime := or_else (ni_bun_runtime peer) (ni_bun_runtime old),
           ni_runtime_artifact_protocol := or_else (ni_runtime_artifact_protocol peer) (ni_runtime_artifact_protocol old),
           ni_build_isolation_protocol := or_else (ni_build_isolation_protocol peer) (ni_build_isolation_protocol old),
           ni_artifact_transfer_protocol := or_else (ni_artifact_transfer_protocol peer) (ni_artifact_transfer_protocol old)\<rparr>)"

definition healthy_latency :: "node_info \<Rightarrow> node_info" where
  "healthy_latency p = (if ni_healthy p \<and> ni_latency_ms p = U64_MAX then p\<lparr>ni_latency_ms := RESTORED_LATENCY_MS\<rparr> else p)"

definition renamed_elsewhere :: "node_info \<Rightarrow> (string, node_info) table \<Rightarrow> bool" where
  "renamed_elsewhere peer peers \<longleftrightarrow>
     (case nonempty (ni_peer_id peer) of
        Some e \<Rightarrow> list_ex (\<lambda>(k, v). k \<noteq> ni_id peer \<and> ni_peer_id v = Some e) peers
      | None \<Rightarrow> False)"

definition endpoints_differ :: "node_info \<Rightarrow> node_info \<Rightarrow> bool" where
  "endpoints_differ old peer \<longleftrightarrow>
     (case (nonempty (ni_peer_id old), nonempty (ni_peer_id peer)) of (Some a, Some b) \<Rightarrow> a \<noteq> b | _ \<Rightarrow> False)"

definition upsert_peer :: "nat \<Rightarrow> node_info \<Rightarrow> node_registry \<Rightarrow> node_registry" where
  "upsert_peer now peer0 reg =
     (let peer = peer0\<lparr>ni_is_self := False\<rparr>
      in if sat_add64 now MAX_GOSSIP_FUTURE_SKEW_MS < ni_last_seen_ms peer then reg
         else if renamed_elsewhere peer (nr_peers reg) then reg
         else
           (case tget (nr_peers reg) (ni_id peer) of
              None \<Rightarrow> reg\<lparr>nr_peers := tput (ni_id peer) (healthy_latency peer) (nr_peers reg)\<rparr>
            | Some old \<Rightarrow>
                if endpoints_differ old peer then reg
                else reg\<lparr>nr_peers := tput (ni_id peer) (healthy_latency (merge_peer now old peer)) (nr_peers reg)\<rparr>))"

text \<open>A report of the peer itself takes three locks one after the other: the old names of its endpoint go, the record is merged, and the
  receipt is noted.\<close>

definition evict_names :: "string \<Rightarrow> string \<Rightarrow> node_registry \<Rightarrow> node_registry" where
  "evict_names e i reg =
     reg\<lparr>nr_peers := tretain (\<lambda>name p. if name = i then ni_peer_id p = Some e else ni_peer_id p \<noteq> Some e) (nr_peers reg)\<rparr>"

definition note_received :: "string \<Rightarrow> nat \<Rightarrow> node_registry \<Rightarrow> node_registry" where
  "note_received e inst reg =
     reg\<lparr>nr_received := tput e inst (tretain (\<lambda>_ t. inst - t \<le> 24 * 60 * 60 * 1000) (nr_received reg))\<rparr>"

definition upsert_peer_self_report :: "nat \<Rightarrow> nat \<Rightarrow> nat \<Rightarrow> node_info \<Rightarrow> node_registry \<Rightarrow> node_registry" where
  "upsert_peer_self_report now now2 inst peer0 reg =
     (let peer = peer0\<lparr>ni_last_seen_ms := now\<rparr>
      in case nonempty (ni_peer_id peer) of
           Some e \<Rightarrow> note_received e inst (upsert_peer now2 peer (evict_names e (ni_id peer) reg))
         | None \<Rightarrow> upsert_peer now2 peer reg)"

section \<open>Choosing a node\<close>

definition STALE_MS :: nat where "STALE_MS = 30000"

definition registry_nodes :: "nat \<Rightarrow> nat \<Rightarrow> node_registry \<Rightarrow> node_info list" where
  "registry_nodes now now2 reg =
     me_now now2 reg # sort_key (\<lambda>p. (ni_region p, ni_name p))
       (filter (\<lambda>p. gossip_timestamp_fresh (ni_last_seen_ms p) now STALE_MS) (map snd (nr_peers reg)))"

definition latency_key :: "node_info \<Rightarrow> nat \<times> nat" where
  "latency_key n = (if ni_is_self n then (0, 0) else peer_latency_sort_key (ni_latency_ms n))"

definition prefer_region :: "string option \<Rightarrow> node_info list \<Rightarrow> node_info option" where
  "prefer_region preferred ns =
     (case (case preferred of Some r \<Rightarrow> find (\<lambda>n. ni_region n = r) ns | None \<Rightarrow> None) of
        Some n \<Rightarrow> Some n
      | None \<Rightarrow> (case ns of n # _ \<Rightarrow> Some n | [] \<Rightarrow> None))"

definition anycast :: "nat \<Rightarrow> nat \<Rightarrow> string option \<Rightarrow> node_registry \<Rightarrow> node_info option" where
  "anycast now now2 preferred reg = prefer_region preferred (sort_key latency_key (filter ni_healthy (registry_nodes now now2 reg)))"

definition routing_table :: "nat \<Rightarrow> nat \<Rightarrow> node_registry \<Rightarrow> node_info list" where
  "routing_table now now2 reg = sort_key (\<lambda>n. (\<not> ni_healthy n, latency_key n)) (registry_nodes now now2 reg)"

definition regions_of :: "nat \<Rightarrow> nat \<Rightarrow> node_registry \<Rightarrow> string list" where
  "regions_of now now2 reg = remdups_adj (sort (map ni_region (registry_nodes now now2 reg)))"

definition pick_for_region :: "nat \<Rightarrow> nat \<Rightarrow> string option \<Rightarrow> node_registry \<Rightarrow> node_info option" where
  "pick_for_region now now2 preferred reg = prefer_region preferred (registry_nodes now now2 reg)"

end
