(* ===== verification/Cloud_Placement.thy ===== *)
theory Cloud_Placement
  imports Edge_Nodes Cloud_Lease
begin

text \<open>
  The placement of deployments (\<open>crates/hive-cloud/src/schedule.rs\<close>): which nodes may host one, the choice for the regions of a project or
  the nearest node, the stickiness to the holder of a lease, and the order of fallbacks. It reads the registry of nodes, the leases, the
  routes of the gateway and the known admin addresses; log lines are left out. The function that computes distances is an argument: the
  code passes \<open>haversine_km\<close>, computed in \<open>f64\<close>; an unknown distance is the largest finite \<open>f64\<close>.
\<close>

section \<open>What is read\<close>

record placement_cloud =
  pc_node_name :: string
  pc_registry :: node_registry
  pc_served_hosts :: nat
  pc_peer_routes :: "(string, string list) table"
  pc_node_admins :: "(string, string) table"
  pc_leases :: lease_store

record interpreter_needs =
  nd_wasm :: bool
  nd_bun :: bool

definition interpreter_needs_of :: "bool \<Rightarrow> interpreter_needs" where
  "interpreter_needs_of wasm = \<lparr>nd_wasm = wasm, nd_bun = False\<rparr>"

text \<open>The arguments of a placement; the allow list is a list of node identifiers.\<close>

record placement_request =
  pr_regions :: "string list"
  pr_container :: bool
  pr_stateful :: bool
  pr_gpu :: bool
  pr_interpreter :: interpreter_needs
  pr_artifact :: bool
  pr_isolation :: bool
  pr_approved :: "string list option"

record placement_target =
  tg_node :: string
  tg_admin :: "string option"
  tg_iroh :: "(string \<times> string) option"

section \<open>Capability\<close>

definition MEM_FLOOR_MB :: nat where "MEM_FLOOR_MB = 1024"
definition RUNTIME_ARTIFACT_PROTOCOL :: nat where "RUNTIME_ARTIFACT_PROTOCOL = 1"

definition wasm_capable :: "node_info \<Rightarrow> bool \<Rightarrow> bool" where
  "wasm_capable n needed \<longleftrightarrow> \<not> needed \<or> ni_wasm_runtime n = Some True"

definition bun_capable :: "node_info \<Rightarrow> bool \<Rightarrow> bool" where
  "bun_capable n needed \<longleftrightarrow> \<not> needed \<or> ni_bun_runtime n = Some True"

definition runtime_artifact_capable :: "node_info \<Rightarrow> bool \<Rightarrow> bool" where
  "runtime_artifact_capable n needed \<longleftrightarrow> \<not> needed \<or> ni_runtime_artifact_protocol n = Some RUNTIME_ARTIFACT_PROTOCOL"

definition build_isolation_capable :: "node_info \<Rightarrow> bool \<Rightarrow> bool" where
  "build_isolation_capable n needed \<longleftrightarrow>
     \<not> needed \<or> ni_build_isolation_protocol n = Some 1 \<or> ni_backend n = ''mock'' \<or> ni_backend n = ''litebox''"

definition node_eligible :: "node_info \<Rightarrow> bool" where
  "node_eligible n \<longleftrightarrow>
     ni_healthy n \<and> (ni_backend n = ''firecracker'' \<or> (ni_backend n = ''litebox'' \<and> runtime_artifact_capable n True)) \<and>
     MEM_FLOOR_MB \<le> ni_mem_total_mb n"

text \<open>The environment variable, if it is set.\<close>

definition disk_floor_gb :: "string option \<Rightarrow> nat" where
  "disk_floor_gb env = (case Option.bind env (\<lambda>v. parse_u64 (trim v)) of Some g \<Rightarrow> g | None \<Rightarrow> 20)"

definition disk_low :: "nat \<Rightarrow> node_info \<Rightarrow> bool" where
  "disk_low disk_floor n \<longleftrightarrow> 0 < ni_disk_free_gb n \<and> ni_disk_free_gb n < disk_floor"

definition has_public :: "node_info \<Rightarrow> bool" where
  "has_public n \<longleftrightarrow> ni_public_ip n \<noteq> None \<or> ni_public_ip6 n \<noteq> None"

text \<open>The predicate of the fallbacks.\<close>

definition node_capable :: "nat \<Rightarrow> placement_request \<Rightarrow> node_info \<Rightarrow> bool" where
  "node_capable disk_floor r n \<longleftrightarrow>
     (if pr_gpu r \<and> ni_gpu_count n = 0 then False
      else if \<not> wasm_capable n (nd_wasm (pr_interpreter r)) then False
      else if \<not> bun_capable n (nd_bun (pr_interpreter r)) then False
      else if \<not> runtime_artifact_capable n (pr_artifact r) then False
      else if \<not> build_isolation_capable n (pr_isolation r) then False
      else if disk_low disk_floor n then False
      else if pr_container r then has_public n \<and> (node_eligible n \<or> (ni_healthy n \<and> ni_backend n = ''mock''))
      else node_eligible n \<or> (ni_healthy n \<and> ni_backend n = ''mock''))"

definition node_approved :: "placement_request \<Rightarrow> node_info \<Rightarrow> bool" where
  "node_approved r n \<longleftrightarrow> (case pr_approved r of Some ids \<Rightarrow> ni_id n \<in> set ids | None \<Rightarrow> True)"

text \<open>The predicate of a placement, a closure of its own.\<close>

definition place_capable :: "nat \<Rightarrow> placement_request \<Rightarrow> node_info \<Rightarrow> bool" where
  "place_capable disk_floor r n \<longleftrightarrow>
     (if \<not> node_approved r n then False
      else if pr_gpu r \<and> ni_gpu_count n = 0 then False
      else if \<not> wasm_capable n (nd_wasm (pr_interpreter r)) then False
      else if \<not> bun_capable n (nd_bun (pr_interpreter r)) then False
      else if \<not> runtime_artifact_capable n (pr_artifact r) then False
      else if \<not> build_isolation_capable n (pr_isolation r) then False
      else if disk_low disk_floor n then False
      else if pr_container r then has_public n \<and> (node_eligible n \<or> (ni_healthy n \<and> ni_backend n = ''mock''))
      else node_eligible n)"

section \<open>Routes, load and distance\<close>

definition iroh_route :: "node_info \<Rightarrow> (string \<times> string) option" where
  "iroh_route n = (case (ni_peer_id n, ni_iroh_addr n) of (Some i, Some a) \<Rightarrow> Some (i, a) | _ \<Rightarrow> None)"

definition target_of :: "placement_cloud \<Rightarrow> node_info \<Rightarrow> placement_target" where
  "target_of c n =
     (if ni_name n = pc_node_name c then \<lparr>tg_node = ni_name n, tg_admin = None, tg_iroh = None\<rparr>
      else \<lparr>tg_node = ni_name n, tg_admin = tget (pc_node_admins c) (ni_name n), tg_iroh = iroh_route n\<rparr>)"

definition node_reachable :: "placement_cloud \<Rightarrow> node_info \<Rightarrow> bool" where
  "node_reachable c n \<longleftrightarrow>
     ni_name n = pc_node_name c \<or> tget (pc_node_admins c) (ni_name n) \<noteq> None \<or> (ni_peer_id n \<noteq> None \<and> ni_iroh_addr n \<noteq> None)"

definition add_route :: "string \<Rightarrow> (string, nat) table \<Rightarrow> (string, nat) table" where
  "add_route i m = tput i ((case tget m i of Some v \<Rightarrow> v | None \<Rightarrow> 0) + 1) m"

definition load_map :: "placement_cloud \<Rightarrow> (string, nat) table" where
  "load_map c = fold add_route (concat (map snd (pc_peer_routes c))) [(pc_node_name c, pc_served_hosts c)]"

definition load_of :: "placement_cloud \<Rightarrow> string \<Rightarrow> nat" where
  "load_of c name = (case tget (load_map c) name of Some v \<Rightarrow> v | None \<Rightarrow> 0)"

definition F64_MAX :: real where
  "F64_MAX = 179769313486231570814527423731704356798070567525844996598917476803157260780028538760589558632766878171540458953514382464234321326889464182768467546703537516986049910576551282076245490090389328944075868508455133942304583236903222948165808559332123348274797826204144723168738177180919299881250404026184124858368"

definition geo_of :: "node_info \<Rightarrow> (real \<times> real) option" where
  "geo_of n = (case (ni_lat n, ni_lon n) of (Some a, Some b) \<Rightarrow> Some (a, b) | _ \<Rightarrow> None)"

definition self_geo :: "placement_cloud \<Rightarrow> node_info list \<Rightarrow> (real \<times> real) option" where
  "self_geo c nodes = Option.bind (find (\<lambda>n. ni_name n = pc_node_name c) nodes) geo_of"

definition distance_from :: "(real \<times> real \<Rightarrow> real \<times> real \<Rightarrow> real) \<Rightarrow> (real \<times> real) option \<Rightarrow> node_info \<Rightarrow> real" where
  "distance_from km s n = (case (s, geo_of n) of (Some a, Some b) \<Rightarrow> km a b | _ \<Rightarrow> F64_MAX)"

definition clean_regions :: "string list \<Rightarrow> string list" where
  "clean_regions rs = filter (\<lambda>r. r \<noteq> []) (map (\<lambda>r. to_lowercase (trim r)) rs)"

section \<open>Fallbacks\<close>

fun region_rank :: "string list \<Rightarrow> node_info \<Rightarrow> nat" where
  "region_rank [] n = 0"
| "region_rank (r # rs) n = (if eq_ignore_ascii_case (ni_region n) r then 0 else Suc (region_rank rs n))"

definition fallback_key :: "(real \<times> real \<Rightarrow> real \<times> real \<Rightarrow> real) \<Rightarrow> placement_cloud \<Rightarrow> node_info list \<Rightarrow> string list \<Rightarrow> node_info \<Rightarrow> nat \<times> real \<times> nat \<times> int \<times> string" where
  "fallback_key km c nodes regions n =
     (region_rank regions n, distance_from km (self_geo c nodes) n, load_of c (ni_name n), - int (ni_disk_free_gb n), ni_name n)"

definition fallback_candidate :: "placement_cloud \<Rightarrow> nat \<Rightarrow> placement_request \<Rightarrow> string list \<Rightarrow> node_info \<Rightarrow> bool" where
  "fallback_candidate c disk_floor r exclude n \<longleftrightarrow>
     \<not> ni_is_self n \<and> ni_name n \<noteq> pc_node_name c \<and> ni_healthy n \<and> \<not> list_ex (\<lambda>x. eq_ignore_ascii_case x (ni_name n)) exclude \<and>
     node_reachable c n \<and> node_capable disk_floor r n"

definition dispatch_fallbacks ::
    "(real \<times> real \<Rightarrow> real \<times> real \<Rightarrow> real) \<Rightarrow> placement_cloud \<Rightarrow> nat \<Rightarrow> nat \<Rightarrow> nat \<Rightarrow> placement_request \<Rightarrow> string list \<Rightarrow> placement_target list" where
  "dispatch_fallbacks km c disk_floor now now2 r exclude =
     (let nodes = registry_nodes now now2 (pc_registry c)
      in map (target_of c) (sort_key (fallback_key km c nodes (clean_regions (pr_regions r)))
           (filter (fallback_candidate c disk_floor r exclude) nodes)))"

section \<open>Placement\<close>

text \<open>The own node when it is in the pool, or else the first.\<close>

definition prefer_self :: "placement_cloud \<Rightarrow> node_info list \<Rightarrow> node_info" where
  "prefer_self c pool = (case find (\<lambda>n. ni_name n = pc_node_name c) pool of Some n \<Rightarrow> n | None \<Rightarrow> hd pool)"

definition hard_needs :: "placement_request \<Rightarrow> bool" where
  "hard_needs r \<longleftrightarrow> pr_approved r \<noteq> None \<or> pr_gpu r \<or> nd_wasm (pr_interpreter r) \<or> nd_bun (pr_interpreter r) \<or> pr_artifact r \<or> pr_isolation r"

text \<open>The choice for one region: nothing when nobody there is reachable, or when nobody is capable and the request may not be widened.\<close>

definition place_region :: "placement_cloud \<Rightarrow> nat \<Rightarrow> placement_request \<Rightarrow> node_info list \<Rightarrow> string \<Rightarrow> node_info option" where
  "place_region c disk_floor r nodes region =
     (let cands = filter (\<lambda>n. ni_healthy n \<and> eq_ignore_ascii_case (ni_region n) region \<and> node_reachable c n \<and> node_approved r n) nodes;
          eligibles = filter (place_capable disk_floor r) cands
      in if cands = [] then None
         else if eligibles = [] \<and> hard_needs r then None
         else Some (prefer_self c (sort_key (\<lambda>n. (load_of c (ni_name n), - int (ni_disk_free_gb n)))
           (if eligibles = [] then cands else eligibles))))"

fun place_regions :: "placement_cloud \<Rightarrow> nat \<Rightarrow> placement_request \<Rightarrow> node_info list \<Rightarrow> string list \<Rightarrow> string list \<Rightarrow> placement_target list" where
  "place_regions c disk_floor r nodes seen [] = []"
| "place_regions c disk_floor r nodes seen (region # rest) =
     (case place_region c disk_floor r nodes region of
        None \<Rightarrow> place_regions c disk_floor r nodes seen rest
      | Some n \<Rightarrow>
          if ni_name n \<in> set seen then place_regions c disk_floor r nodes seen rest
          else target_of c n # place_regions c disk_floor r nodes (ni_name n # seen) rest)"

definition nearest_key :: "(real \<times> real \<Rightarrow> real \<times> real \<Rightarrow> real) \<Rightarrow> placement_cloud \<Rightarrow> node_info list \<Rightarrow> node_info \<Rightarrow> real \<times> nat" where
  "nearest_key km c nodes n = (distance_from km (self_geo c nodes) n, load_of c (ni_name n))"

definition place_nearest :: "(real \<times> real \<Rightarrow> real \<times> real \<Rightarrow> real) \<Rightarrow> placement_cloud \<Rightarrow> nat \<Rightarrow> placement_request \<Rightarrow> node_info list \<Rightarrow> placement_target list" where
  "place_nearest km c disk_floor r nodes =
     (let elig = filter (\<lambda>n. place_capable disk_floor r n \<and> node_reachable c n) nodes
      in if elig = [] then [] else [target_of c (prefer_self c (sort_key (nearest_key km c nodes) elig))])"

definition place :: "(real \<times> real \<Rightarrow> real \<times> real \<Rightarrow> real) \<Rightarrow> placement_cloud \<Rightarrow> nat \<Rightarrow> nat \<Rightarrow> nat \<Rightarrow> placement_request \<Rightarrow> placement_target list" where
  "place km c disk_floor now now2 r =
     (let nodes = registry_nodes now now2 (pc_registry c); regions = clean_regions (pr_regions r)
      in if regions \<noteq> []
         then place_regions c disk_floor r nodes [] (if pr_stateful r \<and> 1 < length regions then take 1 regions else regions)
         else place_nearest km c disk_floor r nodes)"

definition holder_suits :: "placement_cloud \<Rightarrow> nat \<Rightarrow> placement_request \<Rightarrow> node_info \<Rightarrow> bool" where
  "holder_suits c disk_floor r n \<longleftrightarrow>
     ni_healthy n \<and> (pr_regions r = [] \<or> list_ex (\<lambda>x. eq_ignore_ascii_case (trim x) (ni_region n)) (pr_regions r)) \<and>
     node_reachable c n \<and> (\<not> pr_gpu r \<or> 0 < ni_gpu_count n) \<and>
     wasm_capable n (nd_wasm (pr_interpreter r)) \<and> bun_capable n (nd_bun (pr_interpreter r)) \<and>
     runtime_artifact_capable n (pr_artifact r) \<and> build_isolation_capable n (pr_isolation r) \<and>
     (ni_disk_free_gb n = 0 \<or> disk_floor \<le> ni_disk_free_gb n) \<and> node_approved r n"

definition place_for_project ::
    "(real \<times> real \<Rightarrow> real \<times> real \<Rightarrow> real) \<Rightarrow> placement_cloud \<Rightarrow> nat \<Rightarrow> nat \<Rightarrow> nat \<Rightarrow> string \<Rightarrow> placement_request \<Rightarrow> placement_target list" where
  "place_for_project km c disk_floor now now2 project r =
     (case Option.bind (owner_of now project (pc_leases c))
         (\<lambda>holder. find (\<lambda>n. ni_name n = holder) (registry_nodes now now2 (pc_registry c))) of
        Some n \<Rightarrow> if holder_suits c disk_floor r n then [target_of c n] else place km c disk_floor now now2 r
      | None \<Rightarrow> place km c disk_floor now now2 r)"

end
