(* ===== verification/Edge_Nodes_Props.thy ===== *)
theory Edge_Nodes_Props
  imports Edge_Nodes
begin

text \<open>
  What the registry of nodes promises: records stay under their own name and one endpoint has one record, a node of which nothing new is
  heard vanishes, gossip leaves the verdicts of the own probes alone, and the choice of a node. Distances are those of a sphere.
\<close>

lemma singleton_list:
  assumes "distinct xs" "x \<in> set xs" "\<And>y. y \<in> set xs \<Longrightarrow> y = x"
  shows "xs = [x]"
proof (cases xs)
  case (Cons y ys)
  then have "y = x" using assms(3) by simp
  moreover have "ys = []" using assms(1,3) Cons by (cases ys) auto
  ultimately show ?thesis using Cons by simp
qed (use assms(2) in simp)

section \<open>Events\<close>

text \<open>Every critical section is an event; a report of a peer itself is three of them, so that others can come in between.\<close>

datatype node_event =
    Publish_Self self_report
  | Relay nat node_info
  | Report_Begins node_info
  | Report_Merges nat nat node_info
  | Report_Ends nat node_info
  | Demote string "string option" "nat option" nat nat
  | Restore_Fresh nat nat
  | Restore_Named "string list"
  | Probe string nat bool nat
  | Probe_Endpoint string string nat bool nat

fun node_step :: "node_event \<Rightarrow> node_registry \<Rightarrow> node_registry" where
  "node_step (Publish_Self r) reg = reg\<lparr>nr_me := set_self r (nr_me reg)\<rparr>"
| "node_step (Relay now p) reg = upsert_peer now p reg"
| "node_step (Report_Begins p) reg = (case nonempty (ni_peer_id p) of Some e \<Rightarrow> evict_names e (ni_id p) reg | None \<Rightarrow> reg)"
| "node_step (Report_Merges now now2 p) reg = upsert_peer now2 (p\<lparr>ni_last_seen_ms := now\<rparr>) reg"
| "node_step (Report_Ends inst p) reg = (case nonempty (ni_peer_id p) of Some e \<Rightarrow> note_received e inst reg | None \<Rightarrow> reg)"
| "node_step (Demote i expected observed max_age now) reg = snd (demote_if_gossip_stale i expected observed max_age now reg)"
| "node_step (Restore_Fresh max_age now) reg = snd (restore_gossip_fresh max_age now reg)"
| "node_step (Restore_Named ids) reg = snd (restore_only ids reg)"
| "node_step (Probe i latency healthy now) reg = set_health i latency healthy now reg"
| "node_step (Probe_Endpoint name e latency healthy now) reg = snd (set_health_if_endpoint name e latency healthy now reg)"

definition node_run :: "node_event list \<Rightarrow> node_registry \<Rightarrow> node_registry" where
  "node_run es reg = fold node_step es reg"

lemma node_run_simps [simp]: "node_run [] reg = reg" "node_run (e # es) reg = node_run es (node_step e reg)"
  by (simp_all add: node_run_def)

lemma self_report_events:
  "upsert_peer_self_report now now2 inst p reg = node_run [Report_Begins p, Report_Merges now now2 p, Report_Ends inst p] reg"
  by (simp add: upsert_peer_self_report_def Let_def split: option.splits)

section \<open>The invariant\<close>

definition peer_ok :: "string \<Rightarrow> node_info \<Rightarrow> bool" where
  "peer_ok k p \<longleftrightarrow> ni_id p = k \<and> \<not> ni_is_self p \<and> (ni_healthy p \<longrightarrow> ni_latency_ms p \<noteq> U64_MAX)"

definition peers_ok :: "(string, node_info) table \<Rightarrow> bool" where
  "peers_ok t \<longleftrightarrow> distinct (tkeys t) \<and> (\<forall>k p. tget t k = Some p \<longrightarrow> peer_ok k p)"

definition endpoints_unique :: "(string, node_info) table \<Rightarrow> bool" where
  "endpoints_unique t \<longleftrightarrow>
     (\<forall>k p k' p' e. tget t k = Some p \<longrightarrow> tget t k' = Some p' \<longrightarrow> ni_peer_id p = Some e \<longrightarrow> ni_peer_id p' = Some e \<longrightarrow> e \<noteq> [] \<longrightarrow> k = k')"

definition registry_ok :: "node_registry \<Rightarrow> bool" where
  "registry_ok reg \<longleftrightarrow> peers_ok (nr_peers reg) \<and> endpoints_unique (nr_peers reg)"

lemma restored_differs: "RESTORED_LATENCY_MS \<noteq> U64_MAX"
  by (simp add: RESTORED_LATENCY_MS_def U64_MAX_def)

lemma nonempty_Some: "nonempty s = Some e \<longleftrightarrow> s = Some e \<and> e \<noteq> []"
  by (auto simp: nonempty_def split: option.splits list.splits)

lemma nonempty_None: "nonempty s = None \<longleftrightarrow> s = None \<or> s = Some []"
  by (auto simp: nonempty_def split: option.splits list.splits)

lemma healthy_latency_facts [simp]:
  "ni_id (healthy_latency p) = ni_id p" "ni_is_self (healthy_latency p) = ni_is_self p" "ni_peer_id (healthy_latency p) = ni_peer_id p"
  "ni_healthy (healthy_latency p) = ni_healthy p" "ni_last_seen_ms (healthy_latency p) = ni_last_seen_ms p"
  "ni_healthy p \<Longrightarrow> ni_latency_ms (healthy_latency p) \<noteq> U64_MAX"
  using restored_differs by (simp_all add: healthy_latency_def)

lemma restore_facts [simp]:
  "ni_id (restore_peer p) = ni_id p" "ni_is_self (restore_peer p) = ni_is_self p" "ni_peer_id (restore_peer p) = ni_peer_id p"
  "ni_last_seen_ms (restore_peer p) = ni_last_seen_ms p" "ni_healthy (restore_peer p)" "ni_latency_ms (restore_peer p) \<noteq> U64_MAX"
  using restored_differs by (simp_all add: restore_peer_def)

lemma update_health_facts [simp]:
  "ni_id (update_health l h now p) = ni_id p" "ni_is_self (update_health l h now p) = ni_is_self p"
  "ni_peer_id (update_health l h now p) = ni_peer_id p" "ni_healthy (update_health l h now p) = h"
  "ni_last_seen_ms (update_health l h now p) = (if h then now else ni_last_seen_ms p)"
  "h \<Longrightarrow> ni_latency_ms (update_health l h now p) \<noteq> U64_MAX"
  using restored_differs by (simp_all add: update_health_def Let_def)

lemma merge_peer_facts [simp]:
  "ni_id (merge_peer now old p) = ni_id p" "ni_is_self (merge_peer now old p) = ni_is_self p"
  "ni_healthy (merge_peer now old p) = ni_healthy old" "ni_latency_ms (merge_peer now old p) = ni_latency_ms old"
  "ni_peer_id (merge_peer now old p) = (if nonempty (ni_peer_id p) = None then ni_peer_id old else ni_peer_id p)"
  by (simp_all add: merge_peer_def Let_def)

lemma merge_seen: "ni_last_seen_ms old \<le> U64_MAX \<Longrightarrow> ni_last_seen_ms (merge_peer now old p) \<le> max (ni_last_seen_ms p) (ni_last_seen_ms old)"
  by (auto simp: merge_peer_def Let_def sat_add64_def)

text \<open>One lemma covers the steps that change records in place: the identity of each stays.\<close>

definition refines_in_place :: "(string, node_info) table \<Rightarrow> (string, node_info) table \<Rightarrow> bool" where
  "refines_in_place t t' \<longleftrightarrow> distinct (tkeys t') \<and>
     (\<forall>k p'. tget t' k = Some p' \<longrightarrow> (\<exists>p. tget t k = Some p \<and> ni_peer_id p' = ni_peer_id p \<and> (peer_ok k p \<longrightarrow> peer_ok k p')))"

lemma in_place_ok: "refines_in_place t t' \<Longrightarrow> peers_ok t \<and> endpoints_unique t \<Longrightarrow> peers_ok t' \<and> endpoints_unique t'"
proof -
  assume r: "refines_in_place t t'" and ok: "peers_ok t \<and> endpoints_unique t"
  have "peer_ok k p'" if "tget t' k = Some p'" for k p' using r ok that unfolding refines_in_place_def peers_ok_def by metis
  moreover have "k = k'" if "tget t' k = Some p" "tget t' k' = Some p'" "ni_peer_id p = Some e" "ni_peer_id p' = Some e" "e \<noteq> []" for k k' p p' e
    using r ok that unfolding refines_in_place_def endpoints_unique_def by metis
  ultimately show ?thesis using r unfolding refines_in_place_def peers_ok_def endpoints_unique_def by blast
qed

lemma in_place_refl: "distinct (tkeys t) \<Longrightarrow> refines_in_place t t"
  unfolding refines_in_place_def by blast

lemma in_place_trans: "refines_in_place t t' \<Longrightarrow> refines_in_place t' t'' \<Longrightarrow> refines_in_place t t''"
  unfolding refines_in_place_def by metis

lemma in_place_map:
  assumes "distinct (tkeys t)" "\<And>k p. ni_peer_id (f k p) = ni_peer_id p" "\<And>k p. peer_ok k p \<Longrightarrow> peer_ok k (f k p)"
  shows "refines_in_place t (map (\<lambda>(k, p). (k, f k p)) t)"
proof -
  have keys: "tkeys (map (\<lambda>(k, p). (k, f k p)) t) = tkeys t" by (simp add: case_prod_unfold comp_def)
  have "tget (map (\<lambda>(k, p). (k, f k p)) t) k = map_option (f k) (tget t k)" for k by (induction t) auto
  then show ?thesis using assms unfolding refines_in_place_def keys by auto
qed

lemma in_place_put:
  assumes "distinct (tkeys t)" "tget t k = Some p" "ni_peer_id p' = ni_peer_id p" "peer_ok k p \<Longrightarrow> peer_ok k p'"
  shows "refines_in_place t (tput k p' t)"
  using assms unfolding refines_in_place_def by auto

lemma in_place_upd_first:
  assumes "distinct (tkeys t)"
  shows "refines_in_place t (upd_first P (map_prod id restore_peer) t)"
proof -
  have keys: "tkeys (upd_first P (map_prod id restore_peer) t) = tkeys t" by (induction t) auto
  have "tget (upd_first P (map_prod id restore_peer) t) k = Some p' \<Longrightarrow> distinct (tkeys t) \<Longrightarrow>
      \<exists>p. tget t k = Some p \<and> (p' = p \<or> p' = restore_peer p)" for k p'
    by (induction t) (auto split: if_splits)
  then show ?thesis using assms keys unfolding refines_in_place_def by (metis peer_ok_def restore_facts(1,2,3,6))
qed

lemma in_place_retain:
  assumes "distinct (tkeys t)"
  shows "refines_in_place t (tretain P t)"
  using assms unfolding refines_in_place_def by (auto simp: tget_tretain split: option.splits if_splits)

lemma in_place_mod:
  assumes "distinct (tkeys t)" "\<And>p. ni_peer_id (f p) = ni_peer_id p" "\<And>p. peer_ok k p \<Longrightarrow> peer_ok k (f p)"
  shows "refines_in_place t (tmod k f t)"
  using assms unfolding refines_in_place_def by (auto split: if_splits)

lemma restore_only_in_place: "distinct (tkeys (nr_peers reg)) \<Longrightarrow> refines_in_place (nr_peers reg) (nr_peers (snd (restore_only ids reg)))"
proof (induction ids reg rule: restore_only.induct)
  case (1 reg)
  then show ?case by (simp add: in_place_refl)
next
  case (2 i rest reg)
  show ?case
  proof (cases "list_ex (withdrawn_as i) (nr_peers reg)")
    case True
    let ?reg = "reg\<lparr>nr_peers := upd_first (withdrawn_as i) (map_prod id restore_peer) (nr_peers reg)\<rparr>"
    have a: "refines_in_place (nr_peers reg) (nr_peers ?reg)" using 2(3) by (simp add: in_place_upd_first)
    then have "refines_in_place (nr_peers ?reg) (nr_peers (snd (restore_only rest ?reg)))"
      using "2.IH"(1) [OF True] unfolding refines_in_place_def by blast
    with a have "refines_in_place (nr_peers reg) (nr_peers (snd (restore_only rest ?reg)))" by (rule in_place_trans)
    then show ?thesis using True by (simp add: case_prod_unfold)
  next
    case False
    then show ?thesis using "2.IH"(2) 2(3) by simp
  qed
qed

lemma upsert_ok:
  assumes "registry_ok reg"
  shows "registry_ok (upsert_peer now p reg)"
proof -
  let ?t = "nr_peers reg" and ?i = "ni_id p"
  have new: "registry_ok (reg\<lparr>nr_peers := tput ?i q ?t\<rparr>)"
    if "peer_ok ?i q" and "\<And>e k v. ni_peer_id q = Some e \<Longrightarrow> e \<noteq> [] \<Longrightarrow> tget ?t k = Some v \<Longrightarrow> ni_peer_id v = Some e \<Longrightarrow> k = ?i" for q
    using assms that unfolding registry_ok_def peers_ok_def endpoints_unique_def by simp
  have elsewhere: "k = ?i"
    if "\<not> renamed_elsewhere (p\<lparr>ni_is_self := False\<rparr>) ?t" "ni_peer_id p = Some e" "e \<noteq> []" "tget ?t k = Some v" "ni_peer_id v = Some e" for e k v
  proof (rule ccontr)
    assume "k \<noteq> ?i"
    moreover have "(k, v) \<in> set ?t" using that(4) by (rule map_of_SomeD)
    ultimately show False using that nonempty_Some [of "ni_peer_id p" e] unfolding renamed_elsewhere_def by (auto simp: list_ex_iff)
  qed
  show ?thesis
  proof (cases "sat_add64 now MAX_GOSSIP_FUTURE_SKEW_MS < ni_last_seen_ms p \<or> renamed_elsewhere (p\<lparr>ni_is_self := False\<rparr>) ?t")
    case True
    then show ?thesis using assms by (auto simp: upsert_peer_def Let_def)
  next
    case False
    then have here: "\<not> renamed_elsewhere (p\<lparr>ni_is_self := False\<rparr>) ?t" by blast
    note away = elsewhere [OF here]
    show ?thesis
    proof (cases "tget ?t ?i")
      case None
      have "registry_ok (reg\<lparr>nr_peers := tput ?i (healthy_latency (p\<lparr>ni_is_self := False\<rparr>)) ?t\<rparr>)"
        by (rule new) (auto simp: peer_ok_def intro: away)
      then show ?thesis using False None by (simp add: upsert_peer_def Let_def)
    next
      case (Some old)
      show ?thesis
      proof (cases "endpoints_differ old (p\<lparr>ni_is_self := False\<rparr>)")
        case True
        then show ?thesis using False Some assms by (simp add: upsert_peer_def Let_def)
      next
        case ok: False
        have "registry_ok (reg\<lparr>nr_peers := tput ?i (healthy_latency (merge_peer now old (p\<lparr>ni_is_self := False\<rparr>))) ?t\<rparr>)"
        proof (rule new)
          fix e k v assume e: "ni_peer_id (healthy_latency (merge_peer now old (p\<lparr>ni_is_self := False\<rparr>))) = Some e" "e \<noteq> []"
            "tget ?t k = Some v" "ni_peer_id v = Some e"
          show "k = ?i"
          proof (cases "nonempty (ni_peer_id p) = None")
            case True
            then have "ni_peer_id old = Some e" using e(1) by simp
            then show ?thesis using assms Some e unfolding registry_ok_def endpoints_unique_def by blast
          next
            case False
            then have "ni_peer_id p = Some e" using e(1) by (auto split: if_splits)
            then show ?thesis using e(2-4) by (rule away)
          qed
        qed (simp add: peer_ok_def)
        then show ?thesis using False Some ok by (simp add: upsert_peer_def Let_def)
      qed
    qed
  qed
qed

lemma ok_in_place:
  "registry_ok reg \<Longrightarrow> refines_in_place (nr_peers reg) (nr_peers reg') \<Longrightarrow> registry_ok reg'"
  unfolding registry_ok_def using in_place_ok by blast

lemma registry_ok_distinct: "registry_ok reg \<Longrightarrow> distinct (tkeys (nr_peers reg))"
  unfolding registry_ok_def peers_ok_def by blast

lemma demote_cases:
  "snd (demote_if_gossip_stale i x ob a now reg) = reg \<or>
     (\<exists>name p. tget (nr_peers reg) name = Some p \<and> snd (demote_if_gossip_stale i x ob a now reg) =
        reg\<lparr>nr_peers := tput name (p\<lparr>ni_latency_ms := U64_MAX, ni_healthy := False\<rparr>) (nr_peers reg)\<rparr>)"
  unfolding demote_if_gossip_stale_def by (auto split: option.splits simp del: map_of_eq_Some_iff map_of_eq_None_iff)

lemma demote_in_place:
  assumes "distinct (tkeys (nr_peers reg))"
  shows "refines_in_place (nr_peers reg) (nr_peers (snd (demote_if_gossip_stale i x ob a now reg)))"
  using demote_cases [of i x ob a now reg] in_place_refl [OF assms] in_place_put [OF assms] by (force simp: peer_ok_def)

lemma step_ok:
  assumes "registry_ok reg"
  shows "registry_ok (node_step e reg)"
proof (cases e)
  case (Publish_Self r)
  then show ?thesis using assms by (simp add: registry_ok_def)
next
  case (Relay now p)
  then show ?thesis using assms by (simp add: upsert_ok)
next
  case (Report_Begins p)
  have "registry_ok (evict_names x i reg)" for x i
    by (rule ok_in_place [OF assms]) (simp add: evict_names_def in_place_retain registry_ok_distinct [OF assms])
  then show ?thesis using Report_Begins assms by (simp split: option.splits)
next
  case (Report_Merges now now2 p)
  then show ?thesis using assms by (simp add: upsert_ok)
next
  case (Report_Ends inst p)
  then show ?thesis using assms by (simp add: registry_ok_def note_received_def split: option.splits)
next
  case (Demote i x ob a now)
  then show ?thesis using ok_in_place [OF assms demote_in_place [OF registry_ok_distinct [OF assms]]] by simp
next
  case (Restore_Fresh a now)
  have "refines_in_place (nr_peers reg) (map (\<lambda>(k, p). (k, if restorable a now p then restore_peer p else p)) (nr_peers reg))"
    by (rule in_place_map [OF registry_ok_distinct [OF assms]]) (auto simp: peer_ok_def)
  then show ?thesis using Restore_Fresh ok_in_place [OF assms] by (simp add: restore_gossip_fresh_def)
next
  case (Restore_Named ids)
  then show ?thesis using ok_in_place [OF assms restore_only_in_place [OF registry_ok_distinct [OF assms]]] by simp
next
  case (Probe i l h now)
  have "registry_ok (reg\<lparr>nr_peers := tmod k (update_health l h now) (nr_peers reg)\<rparr>)" for k
    by (rule ok_in_place [OF assms]) (auto intro!: in_place_mod [OF registry_ok_distinct [OF assms]] simp: peer_ok_def)
  then show ?thesis using Probe assms by (simp add: set_health_def split: option.splits)
next
  case (Probe_Endpoint name x l h now)
  have "registry_ok (reg\<lparr>nr_peers := tput name (update_health l h now p) (nr_peers reg)\<rparr>)" if "tget (nr_peers reg) name = Some p" for p
    by (rule ok_in_place [OF assms]) (auto intro!: in_place_put [OF registry_ok_distinct [OF assms] that] simp: peer_ok_def)
  then show ?thesis using Probe_Endpoint assms by (auto simp: set_health_if_endpoint_def split: option.splits)
qed

lemma run_ok: "registry_ok reg \<Longrightarrow> registry_ok (node_run es reg)"
  by (induction es arbitrary: reg) (auto intro: step_ok)

lemma new_ok: "registry_ok (registry_new me)"
  by (simp add: registry_new_def registry_ok_def peers_ok_def endpoints_unique_def)

text \<open>C27: One endpoint has one record, under the name of the node. In every registry that a run of gossip, reports, probes, withdrawals and
  restorations can reach, whatever others send and however the parts of a report interleave, a record stands under its own name and does
  not carry the mark of the node itself (a relayed copy of the own record is kept like that of any other node), no two records share an
  endpoint, and a healthy record never has the latency of a withdrawn one.\<close>
theorem registry_identity:
  assumes "node_run es (registry_new me) = reg" "tget (nr_peers reg) k = Some p"
  shows "ni_id p = k \<and> \<not> ni_is_self p \<and> (if ni_healthy p then ni_latency_ms p \<noteq> U64_MAX else True) \<and>
    (case nonempty (ni_peer_id p) of
       None \<Rightarrow> True
     | Some e \<Rightarrow> filter (\<lambda>(k, v). ni_peer_id v = Some e) (nr_peers reg) = [(k, p)])"
proof -
  have ok: "registry_ok reg" using run_ok [OF new_ok] assms(1) by blast
  then have "peer_ok k p" using assms(2) unfolding registry_ok_def peers_ok_def by blast
  moreover have "filter (\<lambda>(k, v). ni_peer_id v = Some e) (nr_peers reg) = [(k, p)]" if e: "nonempty (ni_peer_id p) = Some e" for e
  proof -
    have d: "distinct (tkeys (nr_peers reg))" using ok by (rule registry_ok_distinct)
    have only: "x = (k, p)" if "x \<in> set (nr_peers reg)" "ni_peer_id (snd x) = Some e" for x
    proof -
      have "tget (nr_peers reg) (fst x) = Some (snd x)" using that(1) d by (simp del: map_of_eq_Some_iff add: map_of_is_SomeI)
      then show ?thesis using ok assms(2) that(2) e unfolding registry_ok_def endpoints_unique_def nonempty_Some
        by (metis option.inject prod.collapse)
    qed
    have "(k, p) \<in> set (filter (\<lambda>(k, v). ni_peer_id v = Some e) (nr_peers reg))"
      using map_of_SomeD [OF assms(2)] e by (simp add: nonempty_Some)
    moreover have "distinct (filter (\<lambda>(k, v). ni_peer_id v = Some e) (nr_peers reg))" using d by (simp add: distinct_map)
    moreover have "y = (k, p)" if "y \<in> set (filter (\<lambda>(k, v). ni_peer_id v = Some e) (nr_peers reg))" for y
      using that by (intro only) auto
    ultimately show ?thesis by (intro singleton_list)
  qed
  ultimately show ?thesis unfolding peer_ok_def by (simp split: option.splits)
qed

section \<open>Gossip and verdicts\<close>

text \<open>Whether an event brings news of a node that is later than \<open>T\<close>.\<close>

fun bears_witness :: "string \<Rightarrow> nat \<Rightarrow> node_event \<Rightarrow> node_registry \<Rightarrow> bool" where
  "bears_witness k T (Relay now p) reg \<longleftrightarrow> ni_id p = k \<and> T < ni_last_seen_ms p"
| "bears_witness k T (Report_Merges now now2 p) reg \<longleftrightarrow> ni_id p = k \<and> T < now"
| "bears_witness k T (Probe i latency healthy now) reg \<longleftrightarrow> healthy \<and> peer_name_for (nr_peers reg) i = Some k \<and> T < now"
| "bears_witness k T (Probe_Endpoint name e latency healthy now) reg \<longleftrightarrow> healthy \<and> name = k \<and> T < now"
| "bears_witness k T _ reg \<longleftrightarrow> False"

fun silent :: "string \<Rightarrow> nat \<Rightarrow> node_event list \<Rightarrow> node_registry \<Rightarrow> bool" where
  "silent k T [] reg \<longleftrightarrow> True"
| "silent k T (e # es) reg \<longleftrightarrow> \<not> bears_witness k T e reg \<and> silent k T es (node_step e reg)"

definition seen_by :: "string \<Rightarrow> nat \<Rightarrow> (string, node_info) table \<Rightarrow> bool" where
  "seen_by k T t \<longleftrightarrow> (case tget t k of Some p \<Rightarrow> ni_last_seen_ms p \<le> T | None \<Rightarrow> True)"

lemma upsert_seen:
  assumes "seen_by k T (nr_peers reg)" "T \<le> U64_MAX" "ni_id p = k \<Longrightarrow> ni_last_seen_ms p \<le> T"
  shows "seen_by k T (nr_peers (upsert_peer now p reg))"
proof (cases "ni_id p = k")
  case False
  then show ?thesis using assms(1) by (auto simp: upsert_peer_def seen_by_def Let_def split: option.splits)
next
  case True
  have "ni_last_seen_ms (merge_peer now old (p\<lparr>ni_is_self := False\<rparr>)) \<le> T" if "tget (nr_peers reg) k = Some old" for old
  proof -
    have old: "ni_last_seen_ms old \<le> T" using assms(1) that by (simp add: seen_by_def)
    then show ?thesis using merge_seen [of old now "p\<lparr>ni_is_self := False\<rparr>"] assms(2) assms(3) [OF True] by simp
  qed
  then show ?thesis using assms(1) assms(3) [OF True] True
    by (auto simp: upsert_peer_def seen_by_def Let_def split: option.splits)
qed

lemma upd_first_seen:
  "seen_by k T t \<Longrightarrow> seen_by k T (upd_first P (map_prod id restore_peer) t)"
proof (induction t)
  case (Cons x t)
  then show ?case by (cases x) (auto simp: seen_by_def split: option.splits if_splits)
qed simp

lemma restore_only_seen: "seen_by k T (nr_peers reg) \<Longrightarrow> seen_by k T (nr_peers (snd (restore_only ids reg)))"
proof (induction ids reg rule: restore_only.induct)
  case (2 i rest reg)
  then show ?case using "2.IH" upd_first_seen [OF 2(3)] by (auto simp: case_prod_unfold)
qed simp

lemma step_seen:
  assumes "seen_by k T (nr_peers reg)" "T \<le> U64_MAX" "\<not> bears_witness k T e reg" "distinct (tkeys (nr_peers reg))"
  shows "seen_by k T (nr_peers (node_step e reg))"
proof (cases e)
  case (Restore_Fresh a now)
  have "tget (map (\<lambda>(k, p). (k, f p)) t) k = map_option f (tget t k)" for f :: "node_info \<Rightarrow> node_info" and t by (induction t) auto
  then show ?thesis using assms(1) Restore_Fresh by (auto simp: restore_gossip_fresh_def seen_by_def split: option.splits)
next
  case (Restore_Named ids)
  then show ?thesis using assms(1) by (simp add: restore_only_seen)
next
  case (Relay now p)
  then show ?thesis using upsert_seen [OF assms(1,2), of p now] assms(3) by auto
next
  case (Report_Merges now now2 p)
  then show ?thesis using upsert_seen [OF assms(1,2), of "p\<lparr>ni_last_seen_ms := now\<rparr>" now2] assms(3) by auto
next
  case (Report_Begins p)
  have "seen_by k T (tretain P (nr_peers reg))" for P
    using assms(1,4) unfolding seen_by_def
    by (cases "tget (nr_peers reg) k") (simp_all add: tget_tretain del: map_of_eq_Some_iff map_of_eq_None_iff)
  then show ?thesis using Report_Begins assms(1) by (simp add: evict_names_def split: option.splits)
next
  case (Probe i l h now)
  then show ?thesis using assms(1,3) by (auto simp: set_health_def seen_by_def split: option.splits)
next
  case (Probe_Endpoint name x l h now)
  then show ?thesis using assms(1,3) by (auto simp: set_health_if_endpoint_def seen_by_def split: option.splits)
next
  case (Demote i x ob a now)
  then show ?thesis using assms(1) demote_cases [of i x ob a now reg] by (auto simp: seen_by_def)
next
  case (Publish_Self r)
  then show ?thesis using assms(1) by simp
next
  case (Report_Ends inst p)
  then show ?thesis using assms(1) by (simp add: note_received_def split: option.splits)
qed

lemma run_seen:
  "seen_by k T (nr_peers reg) \<Longrightarrow> T \<le> U64_MAX \<Longrightarrow> silent k T es reg \<Longrightarrow> registry_ok reg \<Longrightarrow> seen_by k T (nr_peers (node_run es reg))"
  by (induction es arbitrary: reg) (auto intro: step_seen step_ok registry_ok_distinct)

lemma registry_nodes_set:
  "set (registry_nodes now now2 reg) =
     insert (me_now now2 reg) {p \<in> snd ` set (nr_peers reg). gossip_timestamp_fresh (ni_last_seen_ms p) now STALE_MS}"
  by (auto simp: registry_nodes_def)

text \<open>C28: A dead node vanishes. Take a registry that can be reached whose record of a node is no younger than \<open>T\<close>, and let anything follow that
  brings no later news of it: no report or successful probe of its own after \<open>T\<close>, and only relayed copies that are as old, however often
  they are repeated and however they are restored. Thirty seconds after \<open>T\<close> the node is not among the peers that can be chosen.\<close>
theorem dead_node_vanishes:
  assumes "node_run es (registry_new me) = reg" "seen_by k T (nr_peers reg)" "silent k T later reg"
    and "T + 30000 \<le> now" "T \<le> U64_MAX"
  shows "filter (\<lambda>n. \<not> ni_is_self n \<and> ni_id n = k) (registry_nodes now now2 (node_run later reg)) = []"
  unfolding filter_empty_conv
proof
  fix n assume n: "n \<in> set (registry_nodes now now2 (node_run later reg))"
  have ok: "registry_ok (node_run later reg)" using run_ok [OF run_ok [OF new_ok]] assms(1) by blast
  show "\<not> (\<not> ni_is_self n \<and> ni_id n = k)"
  proof
    assume c: "\<not> ni_is_self n \<and> ni_id n = k"
    then obtain k' where k': "(k', n) \<in> set (nr_peers (node_run later reg))" and fresh: "gossip_timestamp_fresh (ni_last_seen_ms n) now STALE_MS"
      using n by (auto simp: registry_nodes_set me_now_def)
    then have g: "tget (nr_peers (node_run later reg)) k' = Some n" using ok by (simp del: map_of_eq_Some_iff add: registry_ok_distinct map_of_is_SomeI)
    then have "k' = k" using ok c unfolding registry_ok_def peers_ok_def peer_ok_def by blast
    then have "ni_last_seen_ms n \<le> T" using g run_seen [OF assms(2,5,3)] run_ok [OF new_ok] assms(1) by (auto simp: seen_by_def)
    moreover have "now - ni_last_seen_ms n < 30000" using fresh by (simp add: gossip_timestamp_fresh_def STALE_MS_def)
    ultimately show False using assms(4) by linarith
  qed
qed

text \<open>The verdict on a node is the own one. A copy that is relayed, or merged for a report, leaves every record of a reachable registry
  with the health and the latency it had, and never makes one older than it was when the clock is right; no record goes.\<close>
theorem gossip_keeps_verdict:
  assumes "node_run es (registry_new me) = reg" "tget (nr_peers reg) k = Some p" "ni_last_seen_ms p \<le> now"
  shows "case tget (nr_peers (upsert_peer now new reg)) k of
      None \<Rightarrow> False
    | Some q \<Rightarrow> ni_healthy q = ni_healthy p \<and> ni_latency_ms q = ni_latency_ms p \<and> ni_last_seen_ms p \<le> ni_last_seen_ms q"
proof -
  have "registry_ok reg" using run_ok [OF new_ok] assms(1) by blast
  then have ok: "ni_healthy p \<Longrightarrow> ni_latency_ms p \<noteq> U64_MAX" using assms(2) unfolding registry_ok_def peers_ok_def peer_ok_def by blast
  let ?q = "healthy_latency (merge_peer now p (new\<lparr>ni_is_self := False\<rparr>))"
  have "ni_last_seen_ms p \<le> ni_last_seen_ms ?q"
    using assms(3) by (auto simp: merge_peer_def Let_def sat_add64_def U64_MAX_def)
  moreover have "ni_latency_ms ?q = ni_latency_ms p" using ok by (auto simp: healthy_latency_def)
  moreover have "tget (nr_peers (upsert_peer now new reg)) k = (if ni_id new = k then Some ?q else Some p) \<or>
      tget (nr_peers (upsert_peer now new reg)) k = Some p"
    using assms(2) by (auto simp: upsert_peer_def Let_def simp del: map_of_eq_Some_iff map_of_eq_None_iff split: option.splits)
  ultimately show ?thesis by (auto split: if_splits simp del: map_of_eq_Some_iff)
qed

text \<open>A report of the peer itself renames it. On a reachable registry, with a clock that does not run back by five seconds on the way, the
  endpoint of the report has exactly one record afterwards, under the name it reported and at least as young as the report, whatever names
  it had before; records of other endpoints under other names stay.\<close>
theorem self_report_renames:
  assumes "node_run es (registry_new me) = reg" "nonempty (ni_peer_id new) = Some e" "now \<le> now2 + 5000" "now \<le> U64_MAX"
  shows "(case tget (nr_peers (upsert_peer_self_report now now2 inst new reg)) (ni_id new) of
       None \<Rightarrow> False
     | Some q \<Rightarrow> ni_peer_id q = Some e \<and> now \<le> ni_last_seen_ms q) \<and>
    (\<forall>k. k \<noteq> ni_id new \<longrightarrow> tget (nr_peers (upsert_peer_self_report now now2 inst new reg)) k =
       (case tget (nr_peers reg) k of Some p \<Rightarrow> if ni_peer_id p = Some e then None else Some p | None \<Rightarrow> None))"
proof -
  have d: "distinct (tkeys (nr_peers reg))" using run_ok [OF new_ok] assms(1) registry_ok_distinct by blast
  define i where "i = ni_id new"
  define t where "t = nr_peers (evict_names e i reg)"
  define p where "p = new\<lparr>ni_last_seen_ms := now, ni_is_self := False\<rparr>"
  have e: "ni_peer_id new = Some e" "e \<noteq> []" using assms(2) by (simp_all add: nonempty_Some)
  have t: "tget t k = (case tget (nr_peers reg) k of
      Some v \<Rightarrow> if (if k = i then ni_peer_id v = Some e else ni_peer_id v \<noteq> Some e) then Some v else None | None \<Rightarrow> None)" for k
    unfolding t_def evict_names_def using tget_tretain [OF d] by (auto split: option.splits simp del: map_of_eq_Some_iff map_of_eq_None_iff)
  have td: "distinct (tkeys t)" using d by (simp add: t_def evict_names_def)
  have pid: "ni_id p = i" by (simp add: p_def i_def)
  have late: "\<not> sat_add64 now2 MAX_GOSSIP_FUTURE_SKEW_MS < ni_last_seen_ms p"
    using assms(3,4) by (simp add: p_def sat_add64_def MAX_GOSSIP_FUTURE_SKEW_MS_def)
  have "\<not> renamed_elsewhere p t"
  proof
    assume "renamed_elsewhere p t"
    then obtain k v where kv: "(k, v) \<in> set t" "k \<noteq> i" "ni_peer_id v = Some e"
      using assms(2) by (auto simp: renamed_elsewhere_def p_def i_def list_ex_iff)
    then have "tget t k = Some v" using td by (simp del: map_of_eq_Some_iff add: map_of_is_SomeI)
    then show False using kv t [of k] by (auto split: option.splits if_splits simp del: map_of_eq_Some_iff map_of_eq_None_iff)
  qed
  moreover have same: "ni_peer_id old = Some e" if "tget t i = Some old" for old
    using that t [of i] by (auto split: option.splits if_splits simp del: map_of_eq_Some_iff map_of_eq_None_iff)
  moreover have differ: "\<not> endpoints_differ old p" if "tget t i = Some old" for old
    using same [OF that] e by (simp add: endpoints_differ_def p_def nonempty_def split: list.splits)
  ultimately have res: "nr_peers (upsert_peer_self_report now now2 inst new reg) =
      tput i (healthy_latency (case tget t i of Some old \<Rightarrow> merge_peer now2 old p | None \<Rightarrow> p)) t"
    using late assms(2) pid unfolding upsert_peer_self_report_def upsert_peer_def
    by (simp add: Let_def note_received_def p_def [symmetric] i_def [symmetric] t_def [symmetric] split: option.splits)
  have "ni_peer_id (case tget t i of Some old \<Rightarrow> merge_peer now2 old p | None \<Rightarrow> p) = Some e"
    using same e assms(2) by (auto simp: p_def split: option.splits)
  moreover have "now \<le> ni_last_seen_ms (case tget t i of Some old \<Rightarrow> merge_peer now2 old p | None \<Rightarrow> p)"
    by (auto simp: p_def merge_peer_def Let_def split: option.splits)
  ultimately show ?thesis using t unfolding res i_def [symmetric]
    by (auto split: option.splits if_splits simp del: map_of_eq_Some_iff map_of_eq_None_iff)
qed

section \<open>Choosing a node\<close>

lemma me_now_facts [simp]: "ni_is_self (me_now now reg)" "ni_healthy (me_now now reg)"
  by (simp_all add: me_now_def)

lemma find_sorted_least:
  assumes "find P (sort_key f xs) = Some x"
  shows "x \<in> set xs \<and> P x \<and> (\<forall>y\<in>set xs. P y \<longrightarrow> f x \<le> f y)"
proof -
  have "find P ys = Some x \<Longrightarrow> sorted (map f ys) \<Longrightarrow> x \<in> set ys \<and> P x \<and> (\<forall>y\<in>set ys. P y \<longrightarrow> f x \<le> f y)" for ys
    by (induction ys) (auto split: if_splits)
  from this [OF assms sorted_sort_key] show ?thesis by simp
qed

lemma prefer_region_sorted:
  assumes "prefer_region preferred (sort_key f xs) = Some n"
  shows "n \<in> set xs \<and>
    (if \<exists>m\<in>set xs. preferred = Some (ni_region m)
     then preferred = Some (ni_region n) \<and> (\<forall>m\<in>set xs. ni_region m = ni_region n \<longrightarrow> f n \<le> f m)
     else \<forall>m\<in>set xs. f n \<le> f m)"
proof -
  have first: "n \<in> set xs \<and> (\<forall>m\<in>set xs. f n \<le> f m)" if "(case sort_key f xs of n # _ \<Rightarrow> Some n | [] \<Rightarrow> None) = Some n"
    using that find_sorted_least [of "\<lambda>_. True" f xs n] by (auto split: list.splits)
  show ?thesis
  proof (cases preferred)
    case None
    then show ?thesis using assms first by (simp add: prefer_region_def)
  next
    case (Some r)
    show ?thesis
    proof (cases "find (\<lambda>n. ni_region n = r) (sort_key f xs)")
      case None
      then have "\<not> (\<exists>m\<in>set xs. preferred = Some (ni_region m))" using Some by (auto simp: find_None_iff)
      then show ?thesis using assms first Some None by (simp add: prefer_region_def)
    next
      case found: (Some m)
      then have "n = m" using assms Some by (simp add: prefer_region_def)
      then show ?thesis using find_sorted_least [OF found] Some by auto
    qed
  qed
qed

text \<open>Anycast finds the best node there is. It always finds one; the node is healthy, fresh or the own one; it is in the preferred region
  when a healthy node is; and none of those it could have taken has a lower latency, where the own node comes first and a latency that was
  not measured comes last.\<close>
theorem anycast_exact:
  "case anycast now now2 preferred reg of
     None \<Rightarrow> False
   | Some n \<Rightarrow> n \<in> set (registry_nodes now now2 reg) \<and> ni_healthy n \<and>
       (if \<exists>m\<in>set (filter ni_healthy (registry_nodes now now2 reg)). preferred = Some (ni_region m)
        then preferred = Some (ni_region n) \<and>
          filter (\<lambda>m. ni_region m = ni_region n \<and> latency_key m < latency_key n) (filter ni_healthy (registry_nodes now now2 reg)) = []
        else filter (\<lambda>m. latency_key m < latency_key n) (filter ni_healthy (registry_nodes now now2 reg)) = [])"
proof -
  let ?xs = "filter ni_healthy (registry_nodes now now2 reg)"
  have "sort_key latency_key ?xs \<noteq> []" by (metis (no_types) filter_empty_conv list.set_intros(1) me_now_facts(2) registry_nodes_def set_empty set_sort)
  then have "anycast now now2 preferred reg \<noteq> None"
    by (cases "sort_key latency_key ?xs") (simp_all add: anycast_def prefer_region_def split: option.split)
  then obtain n where n: "anycast now now2 preferred reg = Some n" by blast
  show ?thesis using prefer_region_sorted [OF n [unfolded anycast_def]] n by (auto simp: filter_empty_conv not_less)
qed

text \<open>The routing table lists the same nodes, the healthy ones first and each group by latency.\<close>
theorem routing_table_exact:
  "mset (routing_table now now2 reg) = mset (registry_nodes now now2 reg) \<and>
   sorted (map (\<lambda>n. (\<not> ni_healthy n, latency_key n)) (routing_table now now2 reg))"
  by (simp add: routing_table_def)

section \<open>Withdrawal and restoration\<close>

text \<open>Only a node that is silent is withdrawn. When a failed transport withdraws a node, the record it names had, and the caller had seen,
  no sign of life within the age given, and an endpoint that was named is still the one of the record; the record keeps everything but
  health and latency. Otherwise nothing changes.\<close>
theorem demotion_exact:
  "case demote_if_gossip_stale i expected observed max_age now reg of
     (Demoted x, reg') \<Rightarrow>
       (case (case expected of Some e \<Rightarrow> Some i | None \<Rightarrow> peer_name_for (nr_peers reg) i) of
          None \<Rightarrow> False
        | Some name \<Rightarrow>
            (case tget (nr_peers reg) name of
               None \<Rightarrow> False
             | Some p \<Rightarrow> x = identity_of p \<and> (expected = None \<or> ni_peer_id p = expected) \<and>
                 \<not> gossip_timestamp_fresh (ni_last_seen_ms p) now max_age \<and>
                 (case observed of Some s \<Rightarrow> \<not> gossip_timestamp_fresh s now max_age | None \<Rightarrow> True) \<and>
                 reg' = reg\<lparr>nr_peers := tput name (p\<lparr>ni_latency_ms := U64_MAX, ni_healthy := False\<rparr>) (nr_peers reg)\<rparr>))
   | (_, reg') \<Rightarrow> reg' = reg"
  unfolding demote_if_gossip_stale_def
  by (cases expected; cases "tget (nr_peers reg) i"; cases "peer_name_for (nr_peers reg) i")
    (auto split: option.splits simp del: map_of_eq_Some_iff map_of_eq_None_iff)

section \<open>The sphere\<close>

lemma haversine_term:
  fixes x y d :: real
  defines "h \<equiv> (sin ((y - x) / 2))\<^sup>2 + cos x * cos y * (sin (d / 2))\<^sup>2"
  shows "0 \<le> h \<and> h \<le> 1"
proof -
  have "2 * ((y - x) / 2) = y - x" by simp
  then have "cos (y - x) = 1 - 2 * (sin ((y - x) / 2))\<^sup>2" using cos_double_sin [of "(y - x) / 2"] by metis
  then have a: "(sin ((y - x) / 2))\<^sup>2 = (1 - cos (y - x)) / 2" by simp
  have c: "cos x * cos y = (cos (y - x) + cos (x + y)) / 2" by (simp add: cos_diff cos_add)
  let ?s = "(sin (d / 2))\<^sup>2"
  have s: "0 \<le> ?s" "?s \<le> 1" by (simp_all add: abs_square_le_1)
  have h: "h = (1 - cos (y - x)) / 2 + (cos (y - x) + cos (x + y)) / 2 * ?s" unfolding h_def a c ..
  have unit: "0 \<le> (1 + c) / 2 \<and> (1 + c) / 2 \<le> 1 \<and> 0 \<le> (1 - c) / 2 \<and> (1 - c) / 2 \<le> 1" if "c \<le> 1" "- 1 \<le> c" for c :: real
    using that by simp
  note in_unit = unit [OF cos_le_one cos_ge_minus_one]
  have u: "(1 - cos (y - x)) / 2 \<in> {0..1}" "(1 + cos (x + y)) / 2 \<in> {0..1}"
    using in_unit [of "y - x"] in_unit [of "x + y"] by (simp_all only: atLeastAtMost_iff)
  have "h = (1 - ?s) * ((1 - cos (y - x)) / 2) + ?s * ((1 + cos (x + y)) / 2)" unfolding h by (simp add: field_simps)
  moreover have "0 \<le> (1 - ?s) * ((1 - cos (y - x)) / 2) + ?s * ((1 + cos (x + y)) / 2)"
    using s u by (intro add_nonneg_nonneg mult_nonneg_nonneg) auto
  moreover have "(1 - ?s) * ((1 - cos (y - x)) / 2) + ?s * ((1 + cos (x + y)) / 2) \<le> (1 - ?s) * 1 + ?s * 1"
    using s u by (intro add_mono mult_left_mono) auto
  ultimately show ?thesis by simp
qed

text \<open>The distance is one on the sphere: never negative, never more than half the circumference, the same in both directions, and zero from
  a place to itself, for all coordinates.\<close>
theorem distance_on_sphere:
  "0 \<le> haversine_km a b \<and> haversine_km a b \<le> pi * 6371 \<and> haversine_km a b = haversine_km b a \<and> haversine_km a a = 0"
proof -
  let ?x = "radians (fst a)" and ?y = "radians (fst b)" and ?d = "radians (snd b) - radians (snd a)"
  define h where "h = (sin ((?y - ?x) / 2))\<^sup>2 + cos ?x * cos ?y * (sin (?d / 2))\<^sup>2"
  have h: "0 \<le> h" "h \<le> 1" using haversine_term [of ?y ?x ?d] by (simp_all add: h_def)
  have e: "haversine_km a b = 2 * 6371 * arcsin (sqrt h)" by (simp add: haversine_km_def h_def Let_def)
  have r: "0 \<le> sqrt h" "sqrt h \<le> 1" using h by (simp_all add: real_sqrt_le_1_iff)
  have "0 \<le> arcsin (sqrt h)" using r by (metis arcsin_0 arcsin_le_arcsin neg_le_0_iff_le zero_le_one order_trans)
  moreover have "arcsin (sqrt h) \<le> pi / 2" using r order_trans [of "-1" 0 "sqrt h"] by (intro arcsin_ubound) simp_all
  moreover have "haversine_km a b = haversine_km b a"
  proof -
    have "sin ((?y - ?x) / 2) = - sin ((?x - ?y) / 2)" "sin (?d / 2) = - sin ((radians (snd a) - radians (snd b)) / 2)"
      by (metis minus_diff_eq minus_divide_left sin_minus)+
    then show ?thesis by (simp add: haversine_km_def Let_def mult.commute)
  qed
  moreover have "haversine_km a a = 0" by (simp add: haversine_km_def Let_def)
  ultimately show ?thesis using e by simp
qed

text \<open>The boxes of the continents are coarse: places in Bali and Tehran.\<close>

theorem continents_coarse: "continent_of (-8) 115 = ''Oceania'' \<and> continent_of 35 51 = ''Africa''"
  by (simp add: continent_of_def)

section \<open>Examples\<close>

definition ex_node :: "string \<Rightarrow> string \<Rightarrow> nat \<Rightarrow> node_info" where
  "ex_node name endpoint seen =
     \<lparr>ni_id = name, ni_name = name, ni_region = ''fra'', ni_public_url = [], ni_public_ip = None, ni_public_ip6 = None,
      ni_peer_id = Some endpoint, ni_iroh_addr = None, ni_guardian_iroh_addr = None, ni_relay_url = None, ni_dns_ns = None,
      ni_dns_api = False, ni_dns_attest = [], ni_dashboard = False, ni_cp_epoch = 0, ni_last_seen_ms = seen, ni_is_self = False,
      ni_latency_ms = 7, ni_healthy = True, ni_lat = None, ni_lon = None, ni_city = None, ni_country = None, ni_cpu_cores = 4,
      ni_cpu_model = None, ni_cpu_physical_cores = None, ni_cpu_architecture = None, ni_mem_total_mb = 4096, ni_disk_total_gb = 100,
      ni_disk_free_gb = 50, ni_gpu_free_mb = None, ni_backend = ''firecracker'', ni_gpu_count = 0, ni_wasm_runtime = None,
      ni_bun_runtime = None, ni_runtime_artifact_protocol = None, ni_build_isolation_protocol = None,
      ni_artifact_transfer_protocol = None, ni_gpu_model = None, ni_gpu_vram_mb = 0, ni_gpu_devices = [], ni_started_ms = 0,
      ni_oom_restarts_24h = 0, ni_last_oom_ms = None, ni_provider = None, ni_private_addr = None\<rparr>"

definition ex_me :: node_info where "ex_me = ex_node ''self'' ''e0'' 0"

definition ex_node_events :: "node_event list" where
  "ex_node_events =
     [Relay 1000 (ex_node ''old'' ''e1'' 900), Report_Begins (ex_node ''new'' ''e1'' 0), Relay 1100 (ex_node ''old'' ''e1'' 900),
      Report_Merges 1200 1200 (ex_node ''new'' ''e1'' 0), Report_Ends 5 (ex_node ''new'' ''e1'' 0), Relay 1300 (ex_node ''old'' ''e1'' 1250),
      Probe ''e1'' 3 False 1400]"

theorem registry_identity_witness:
  "\<exists>p. tget (nr_peers (node_run ex_node_events (registry_new ex_me))) ''old'' = Some p \<and> ni_id p = ''old''"
proof -
  have "tget (nr_peers (node_run ex_node_events (registry_new ex_me))) ''old'' \<noteq> None" by code_simp
  then obtain p where "tget (nr_peers (node_run ex_node_events (registry_new ex_me))) ''old'' = Some p" by blast
  then show ?thesis using registry_identity [OF refl] by blast
qed

theorem dead_node_vanishes_witness:
  "filter (\<lambda>n. \<not> ni_is_self n \<and> ni_id n = ''old'') (registry_nodes 31250 31250
     (node_run [Relay 20000 (ex_node ''old'' ''e1'' 900), Restore_Named [''e1'']] (node_run ex_node_events (registry_new ex_me)))) = []"
proof (rule dead_node_vanishes [OF refl, where T = 1250])
  show "seen_by ''old'' 1250 (nr_peers (node_run ex_node_events (registry_new ex_me)))" by code_simp
  show "silent ''old'' 1250 [Relay 20000 (ex_node ''old'' ''e1'' 900), Restore_Named [''e1'']] (node_run ex_node_events (registry_new ex_me))"
    by code_simp
qed (simp_all add: U64_MAX_def)

theorem gossip_keeps_verdict_witness:
  "\<exists>p q. tget (nr_peers (node_run ex_node_events (registry_new ex_me))) ''old'' = Some p \<and>
     tget (nr_peers (upsert_peer 2000 (ex_node ''old'' ''e1'' 1900) (node_run ex_node_events (registry_new ex_me)))) ''old'' = Some q \<and>
     ni_healthy q = ni_healthy p"
proof -
  let ?reg = "node_run ex_node_events (registry_new ex_me)"
  have "case tget (nr_peers ?reg) ''old'' of Some p \<Rightarrow> ni_last_seen_ms p \<le> 2000 | None \<Rightarrow> False" by code_simp
  then obtain p where p: "tget (nr_peers ?reg) ''old'' = Some p" "ni_last_seen_ms p \<le> 2000"
    by (cases "tget (nr_peers ?reg) ''old''") simp_all
  from gossip_keeps_verdict [OF refl p, of "ex_node ''old'' ''e1'' 1900"] show ?thesis
    using p(1) by (cases "tget (nr_peers (upsert_peer 2000 (ex_node ''old'' ''e1'' 1900) ?reg)) ''old''") auto
qed

theorem self_report_renames_witness:
  "\<exists>q. tget (nr_peers (upsert_peer_self_report 2000 2000 9 (ex_node ''new'' ''e1'' 0) (node_run ex_node_events (registry_new ex_me)))) ''new'' = Some q
     \<and> ni_peer_id q = Some ''e1'' \<and> 2000 \<le> ni_last_seen_ms q"
proof -
  let ?reg = "upsert_peer_self_report 2000 2000 9 (ex_node ''new'' ''e1'' 0) (node_run ex_node_events (registry_new ex_me))"
  have id: "ni_id (ex_node ''new'' ''e1'' 0) = ''new''" by (simp add: ex_node_def)
  have "nonempty (ni_peer_id (ex_node ''new'' ''e1'' 0)) = Some ''e1''" by (simp add: ex_node_def nonempty_def)
  from conjunct1 [OF self_report_renames [OF refl this, where now = 2000 and ?now2.0 = 2000 and inst = 9 and es = ex_node_events and me = ex_me]]
  show ?thesis by (cases "tget (nr_peers ?reg) ''new''") (simp_all add: id U64_MAX_def)
qed

text \<open>The parts of a report are under different locks: a stale copy of the old name that comes in between takes the endpoint back, and the
  report is dropped.\<close>

theorem report_race:
  "map fst (nr_peers (node_run (take 5 ex_node_events) (registry_new ex_me))) = [''old'']"
  by code_simp

text \<open>The first word on an unknown node is taken from whoever relays it, with its verdict and its latency.\<close>

theorem relay_introduces_verdict:
  "map_option ni_latency_ms (anycast 1000 1000 (Some ''fra'')
     (upsert_peer 1000 ((ex_node ''far'' ''e9'' 900)\<lparr>ni_latency_ms := 1\<rparr>)
       (node_run [Relay 1000 (ex_node ''near'' ''e8'' 900)] (registry_new (ex_me\<lparr>ni_region := ''lax''\<rparr>))))) = Some 1"
  by code_simp

end
