(* ===== verification/Cloud_Placement_Props.thy ===== *)
theory Cloud_Placement_Props
  imports Cloud_Placement Edge_Nodes_Props
begin

text \<open>
  What a placement promises: its targets satisfy every hard need, a stateful service gets one node, the nearest node or the least loaded
  one is taken, fallbacks are exactly the other capable nodes in their order. The last section shows where the three ways to a node
  disagree.
\<close>

section \<open>Regions\<close>

lemma ascii_lower_idem [simp]: "ascii_lower (ascii_lower c) = ascii_lower c"
proof (cases "65 \<le> (of_char c :: nat) \<and> (of_char c :: nat) \<le> 90")
  case True
  define n where "n = (of_char c :: nat)"
  have "(n + 32) mod 256 = n + 32" using True by (simp add: n_def)
  then have "(of_char (char_of (n + 32) :: char) :: nat) = n + 32" by simp
  moreover have "ascii_lower c = char_of (n + 32)" using True by (simp add: ascii_lower_def n_def)
  ultimately show ?thesis using True by (simp add: ascii_lower_def n_def)
next
  case False
  then have "ascii_lower c = c" by (auto simp: ascii_lower_def)
  then show ?thesis by simp
qed

lemma eq_ignore_lower [simp]: "eq_ignore_ascii_case a (to_lowercase b) \<longleftrightarrow> eq_ignore_ascii_case a b"
  by (simp add: eq_ignore_ascii_case_def to_lowercase_def comp_def)

lemma eq_ignore_sym: "eq_ignore_ascii_case a b \<longleftrightarrow> eq_ignore_ascii_case b a"
  by (auto simp: eq_ignore_ascii_case_def)

definition in_regions :: "placement_request \<Rightarrow> node_info \<Rightarrow> bool" where
  "in_regions r n \<longleftrightarrow> list_ex (\<lambda>x. eq_ignore_ascii_case (trim x) (ni_region n)) (pr_regions r)"

lemma clean_region_in:
  assumes "x \<in> set (clean_regions (pr_regions r))" "eq_ignore_ascii_case (ni_region n) x"
  shows "in_regions r n"
  using assms eq_ignore_sym by (auto simp: clean_regions_def in_regions_def list_ex_iff)

section \<open>Needs\<close>

lemma F64_MAX_power: "F64_MAX = 2 ^ 1024 - 2 ^ 971"
  by (simp add: F64_MAX_def)

definition meets_needs :: "placement_request \<Rightarrow> node_info \<Rightarrow> bool" where
  "meets_needs r n \<longleftrightarrow>
     ni_healthy n \<and> node_approved r n \<and> (pr_gpu r \<longrightarrow> 0 < ni_gpu_count n) \<and> wasm_capable n (nd_wasm (pr_interpreter r)) \<and>
     bun_capable n (nd_bun (pr_interpreter r)) \<and> runtime_artifact_capable n (pr_artifact r) \<and> build_isolation_capable n (pr_isolation r)"

lemma capable_meets: "place_capable disk_floor r n \<Longrightarrow> meets_needs r n"
  by (auto simp: place_capable_def meets_needs_def node_eligible_def split: if_splits)

lemma unneeded_meets: "\<not> hard_needs r \<Longrightarrow> ni_healthy n \<Longrightarrow> meets_needs r n"
  by (simp add: meets_needs_def hard_needs_def node_approved_def wasm_capable_def bun_capable_def runtime_artifact_capable_def
      build_isolation_capable_def)

lemma holder_meets: "holder_suits c disk_floor r n \<Longrightarrow> meets_needs r n"
  by (auto simp: holder_suits_def meets_needs_def)

lemma prefer_self_in: "pool \<noteq> [] \<Longrightarrow> prefer_self c pool \<in> set pool"
  by (auto simp: prefer_self_def find_Some_iff split: option.splits)

lemma prefer_self_sorted: "pool \<noteq> [] \<Longrightarrow> prefer_self c (sort_key f pool) \<in> set pool"
  using prefer_self_in [of "sort_key f pool" c] by (metis set_empty set_sort)

lemma place_region_in:
  assumes "place_region c disk_floor r nodes region = Some n"
  shows "n \<in> set nodes \<and> meets_needs r n \<and> node_reachable c n \<and> eq_ignore_ascii_case (ni_region n) region"
proof -
  define cands where
    "cands = filter (\<lambda>n. ni_healthy n \<and> eq_ignore_ascii_case (ni_region n) region \<and> node_reachable c n \<and> node_approved r n) nodes"
  define el where "el = filter (place_capable disk_floor r) cands"
  have ne: "cands \<noteq> []" "el \<noteq> [] \<or> \<not> hard_needs r"
    and n: "n = prefer_self c (sort_key (\<lambda>n. (load_of c (ni_name n), - int (ni_disk_free_gb n))) (if el = [] then cands else el))"
    using assms unfolding place_region_def Let_def cands_def [symmetric] el_def [symmetric] by (auto split: if_splits)
  have "n \<in> set (if el = [] then cands else el)" unfolding n using ne(1) by (intro prefer_self_sorted) simp
  then have "n \<in> set cands" "meets_needs r n" using ne(2) capable_meets unneeded_meets
    by (auto simp: el_def cands_def split: if_splits)
  then show ?thesis by (auto simp: cands_def)
qed

lemma place_regions_in:
  assumes "t \<in> set (place_regions c disk_floor r nodes seen regions)"
  shows "\<exists>n region. n \<in> set nodes \<and> t = target_of c n \<and> meets_needs r n \<and> node_reachable c n \<and> region \<in> set regions \<and>
    eq_ignore_ascii_case (ni_region n) region"
  using assms
proof (induction regions arbitrary: seen)
  case (Cons region rest)
  show ?case
  proof (cases "place_region c disk_floor r nodes region")
    case None
    then show ?thesis using Cons by fastforce
  next
    case (Some n)
    then show ?thesis using Cons place_region_in [OF Some] by (cases "ni_name n \<in> set seen") fastforce+
  qed
qed simp

lemma target_node [simp]: "tg_node (target_of c n) = ni_name n"
  by (simp add: target_of_def)

lemma place_regions_distinct:
  "distinct (map tg_node (place_regions c disk_floor r nodes seen regions)) \<and>
   set (map tg_node (place_regions c disk_floor r nodes seen regions)) \<inter> set seen = {}"
proof (induction regions arbitrary: seen)
  case (Cons region rest)
  show ?case
  proof (cases "place_region c disk_floor r nodes region")
    case None
    then show ?thesis using Cons by simp
  next
    case (Some n)
    then show ?thesis using Cons [of seen] Cons [of "ni_name n # seen"] by auto
  qed
qed simp

lemma place_regions_length: "length (place_regions c disk_floor r nodes seen regions) \<le> length regions"
proof (induction regions arbitrary: seen)
  case (Cons region rest)
  show ?case
  proof (cases "place_region c disk_floor r nodes region")
    case (Some n)
    then show ?thesis using Cons [of seen] Cons [of "ni_name n # seen"] by (simp add: le_SucI)
  qed (use Cons in \<open>simp add: le_SucI\<close>)
qed simp

lemma place_nearest_in:
  assumes "t \<in> set (place_nearest km c disk_floor r nodes)"
  shows "\<exists>n. n \<in> set nodes \<and> t = target_of c n \<and> place_capable disk_floor r n \<and> node_reachable c n"
proof -
  define el where "el = filter (\<lambda>n. place_capable disk_floor r n \<and> node_reachable c n) nodes"
  have "el \<noteq> []" "t = target_of c (prefer_self c (sort_key (nearest_key km c nodes) el))"
    using assms unfolding place_nearest_def Let_def el_def [symmetric] by (auto split: if_splits)
  moreover from this have "prefer_self c (sort_key (nearest_key km c nodes) el) \<in> set el" by (intro prefer_self_sorted)
  ultimately show ?thesis by (auto simp: el_def)
qed

lemma place_in:
  assumes "t \<in> set (place km c disk_floor now now2 r)"
  shows "\<exists>n. n \<in> set (registry_nodes now now2 (pc_registry c)) \<and> t = target_of c n \<and> meets_needs r n \<and> node_reachable c n \<and>
    (clean_regions (pr_regions r) = [] \<or> in_regions r n)"
proof (cases "clean_regions (pr_regions r) = []")
  case True
  then show ?thesis using assms place_nearest_in [of t km c disk_floor r] capable_meets unfolding place_def Let_def by fastforce
next
  case False
  then obtain rs where "t \<in> set (place_regions c disk_floor r (registry_nodes now now2 (pc_registry c)) [] rs)"
    "set rs \<subseteq> set (clean_regions (pr_regions r))"
    using assms set_take_subset [of 1 "clean_regions (pr_regions r)"] unfolding place_def Let_def by (auto split: if_splits)
  from place_regions_in [OF this(1)] this(2) show ?thesis using clean_region_in by blast
qed

text \<open>C29: A placement never compromises on what a node must have. Whatever way leads to a target, by the holder of the lease, the regions of
  the project with their widening, or the nearest node, it is the route to a node of the registry that is healthy, reachable, approved by
  the allow list when there is one, and has the GPU, the interpreters, the artifact protocol and the build isolation the request needs;
  and a project that names regions stays inside them.\<close>
theorem cloud_placement_sound:
  assumes "t \<in> set (place_for_project km c disk_floor now now2 project r)"
  shows "\<exists>n. n \<in> set (registry_nodes now now2 (pc_registry c)) \<and> t = target_of c n \<and> meets_needs r n \<and> node_reachable c n \<and>
    (if clean_regions (pr_regions r) = [] then True else in_regions r n)"
proof (cases "Option.bind (owner_of now project (pc_leases c)) (\<lambda>h. find (\<lambda>n. ni_name n = h) (registry_nodes now now2 (pc_registry c)))")
  case None
  then show ?thesis using assms place_in [of t km c disk_floor now now2 r] by (auto simp: place_for_project_def)
next
  case (Some n)
  then have n: "n \<in> set (registry_nodes now now2 (pc_registry c))" by (auto simp: bind_eq_Some_conv find_Some_iff)
  show ?thesis
  proof (cases "holder_suits c disk_floor r n")
    case True
    then have "t = target_of c n" using assms Some by (simp add: place_for_project_def)
    moreover have "clean_regions (pr_regions r) \<noteq> [] \<Longrightarrow> in_regions r n" using True by (auto simp: holder_suits_def in_regions_def clean_regions_def)
    ultimately show ?thesis using n True holder_meets [OF True] by (auto simp: holder_suits_def)
  next
    case False
    then show ?thesis using assms Some place_in [of t km c disk_floor now now2 r] by (auto simp: place_for_project_def)
  qed
qed

text \<open>C30: A stateful service is placed once, and no service is placed twice on one node: the targets name different nodes, there is at most one
  for a stateful service, at most one without regions, and at most as many as regions otherwise.\<close>
theorem stateful_placed_once:
  "distinct (map tg_node (place_for_project km c disk_floor now now2 project r)) \<and>
   length (place_for_project km c disk_floor now now2 project r) \<le>
     (if pr_stateful r then 1 else max 1 (length (clean_regions (pr_regions r))))"
proof -
  have "distinct (map tg_node (place km c disk_floor now now2 r)) \<and>
      length (place km c disk_floor now now2 r) \<le> (if pr_stateful r then 1 else max 1 (length (clean_regions (pr_regions r))))"
  proof (cases "clean_regions (pr_regions r) = []")
    case True
    then show ?thesis by (simp add: place_def place_nearest_def Let_def)
  next
    case False
    let ?nodes = "registry_nodes now now2 (pc_registry c)" and ?rs = "clean_regions (pr_regions r)"
    define rs where "rs = (if pr_stateful r \<and> 1 < length ?rs then take 1 ?rs else ?rs)"
    have "place km c disk_floor now now2 r = place_regions c disk_floor r ?nodes [] rs" using False by (simp add: place_def rs_def Let_def)
    moreover have "length rs \<le> (if pr_stateful r then 1 else max 1 (length ?rs))" by (simp add: rs_def)
    ultimately show ?thesis
      using conjunct1 [OF place_regions_distinct [of c disk_floor r ?nodes "[]" rs]] place_regions_length [of c disk_floor r ?nodes "[]" rs]
      by (metis order_trans)
  qed
  then show ?thesis by (auto simp: place_for_project_def split: option.splits)
qed

section \<open>The choice\<close>

lemma hd_sort_least: "xs \<noteq> [] \<Longrightarrow> y \<in> set xs \<Longrightarrow> f (hd (sort_key f xs)) \<le> f y"
proof -
  assume "xs \<noteq> []" "y \<in> set xs"
  then obtain z zs where z: "sort_key f xs = z # zs" by (metis neq_Nil_conv set_empty set_sort)
  then have "y \<in> set (z # zs)" using \<open>y \<in> set xs\<close> by (metis set_sort)
  moreover have "sorted (map f (z # zs))" using z by (metis sorted_sort_key)
  ultimately show ?thesis using z by auto
qed

text \<open>Without regions and without a holder the nearest node is taken. There is no target exactly when no node is capable and reachable; else
  the target is the own node when it is among those, and otherwise one such that no other is nearer, or as near with less load.\<close>
theorem nearest_exact:
  assumes "clean_regions (pr_regions r) = []"
  shows "let nodes = registry_nodes now now2 (pc_registry c);
             fit = filter (\<lambda>n. place_capable disk_floor r n \<and> node_reachable c n) nodes
         in case place km c disk_floor now now2 r of
              [] \<Rightarrow> fit = []
            | [t] \<Rightarrow> (\<exists>n. n \<in> set fit \<and> t = target_of c n \<and>
                (if pc_node_name c \<in> set (map ni_name fit) then ni_name n = pc_node_name c
                 else filter (\<lambda>m. nearest_key km c nodes m < nearest_key km c nodes n) fit = []))
            | _ \<Rightarrow> False"
proof -
  define nodes where "nodes = registry_nodes now now2 (pc_registry c)"
  define fit where "fit = filter (\<lambda>n. place_capable disk_floor r n \<and> node_reachable c n) nodes"
  let ?pool = "sort_key (nearest_key km c nodes) fit"
  have p: "place km c disk_floor now now2 r = (if fit = [] then [] else [target_of c (prefer_self c ?pool)])"
    using assms by (simp add: place_def place_nearest_def Let_def nodes_def fit_def)
  have "prefer_self c ?pool \<in> set fit \<and>
      (if pc_node_name c \<in> set (map ni_name fit) then ni_name (prefer_self c ?pool) = pc_node_name c
       else filter (\<lambda>m. nearest_key km c nodes m < nearest_key km c nodes (prefer_self c ?pool)) fit = [])" if ne: "fit \<noteq> []"
  proof (cases "find (\<lambda>n. ni_name n = pc_node_name c) ?pool")
    case None
    then have none: "pc_node_name c \<notin> set (map ni_name fit)" by (auto simp: find_None_iff)
    have "hd ?pool \<in> set fit" using ne by (metis hd_in_set set_empty set_sort)
    moreover have "\<not> nearest_key km c nodes m < nearest_key km c nodes (hd ?pool)" if "m \<in> set fit" for m
      using hd_sort_least [OF ne that, of "nearest_key km c nodes"] by (simp add: not_less)
    ultimately show ?thesis using None none by (simp add: prefer_self_def filter_empty_conv)
  next
    case (Some n)
    then have n: "n \<in> set fit" "ni_name n = pc_node_name c" by (auto simp: find_Some_iff) (metis nth_mem set_sort length_sort)
    then have "pc_node_name c \<in> set (map ni_name fit)" by (metis image_eqI list.set_map)
    then show ?thesis using Some n by (simp only: prefer_self_def option.case if_True)
  qed
  then show ?thesis unfolding p Let_def nodes_def [symmetric] fit_def [symmetric] by auto
qed

text \<open>The fallbacks of a dispatch are all the others that can take it, in one order. They are the routes to exactly the nodes that are not
  the own one, healthy, reachable, capable and not excluded, each as often as the registry lists it, with those of the requested regions
  first, in the order of the request, then the nearer, the less loaded, the emptier, and by name.\<close>
theorem fallbacks_exact:
  "\<exists>ns. dispatch_fallbacks km c disk_floor now now2 r exclude = map (target_of c) ns \<and>
     mset ns = mset (filter (fallback_candidate c disk_floor r exclude) (registry_nodes now now2 (pc_registry c))) \<and>
     sorted (map (fallback_key km c (registry_nodes now now2 (pc_registry c)) (clean_regions (pr_regions r))) ns)"
  by (intro exI [of _ "sort_key (fallback_key km c (registry_nodes now now2 (pc_registry c)) (clean_regions (pr_regions r)))
        (filter (fallback_candidate c disk_floor r exclude) (registry_nodes now now2 (pc_registry c)))"])
    (simp add: dispatch_fallbacks_def Let_def)

section \<open>Examples\<close>

definition ex_request :: placement_request where
  "ex_request = \<lparr>pr_regions = [], pr_container = False, pr_stateful = False, pr_gpu = False, pr_interpreter = interpreter_needs_of False,
     pr_artifact = False, pr_isolation = True, pr_approved = None\<rparr>"

definition ex_km :: "real \<times> real \<Rightarrow> real \<times> real \<Rightarrow> real" where "ex_km a b = 0"

definition ex_placement :: "node_info list \<Rightarrow> lease_store \<Rightarrow> placement_cloud" where
  "ex_placement peers leases =
     \<lparr>pc_node_name = ''self'',
      pc_registry = node_run (map (Relay 1000) peers) (registry_new (ex_me\<lparr>ni_backend := ''mock'', ni_lat := None\<rparr>)),
      pc_served_hosts = 0, pc_peer_routes = [], pc_node_admins = map (\<lambda>n. (ni_name n, ''http'')) peers, pc_leases = leases\<rparr>"

definition ex_peer :: node_info where
  "ex_peer = (ex_node ''peer'' ''e1'' 1000)\<lparr>ni_build_isolation_protocol := Some 1\<rparr>"

definition ex_mock :: node_info where
  "ex_mock = (ex_node ''mock'' ''e2'' 1000)\<lparr>ni_backend := ''mock''\<rparr>"

definition ex_lease :: "string \<Rightarrow> lease_store" where
  "ex_lease owner = [(''app'', \<lparr>cl_key = ''app'', cl_owner = owner, cl_epoch = 1, cl_lease_region = ''fra'', cl_acquired_ms = 0,
     cl_expires_ms = 5000\<rparr>)]"

theorem cloud_placement_sound_witness:
  "\<exists>n. n \<in> set (registry_nodes 1000 1000 (pc_registry (ex_placement [ex_peer, ex_mock] []))) \<and> ni_name n = ''peer'' \<and> meets_needs ex_request n"
proof -
  let ?c = "ex_placement [ex_peer, ex_mock] []" and ?t = "\<lparr>tg_node = ''peer'', tg_admin = Some ''http'', tg_iroh = None\<rparr>"
  have "map tg_node (place_for_project ex_km ?c 20 1000 1000 ''app'' ex_request) = [''peer'']" by code_simp
  then obtain t where t: "t \<in> set (place_for_project ex_km ?c 20 1000 1000 ''app'' ex_request)" "tg_node t = ''peer''" by auto
  from cloud_placement_sound [OF t(1)] t(2) show ?thesis by auto
qed

theorem nearest_exact_witness:
  "\<exists>n. n \<in> set (registry_nodes 1000 1000 (pc_registry (ex_placement [ex_peer, ex_mock] []))) \<and> place_capable 20 ex_request n"
proof -
  let ?c = "ex_placement [ex_peer, ex_mock] []"
  have "length (place ex_km ?c 20 1000 1000 ex_request) = 1" by code_simp
  then obtain t where t: "place ex_km ?c 20 1000 1000 ex_request = [t]" by (metis length_0_conv length_Suc_conv One_nat_def)
  have "clean_regions (pr_regions ex_request) = []" by code_simp
  from nearest_exact [OF this, of 1000 1000 ?c 20 ex_km] show ?thesis by (auto simp: t Let_def)
qed

section \<open>Where the ways to a node disagree\<close>

text \<open>The fallbacks have a predicate of their own: they offer a mock node for a build that the placement refuses to it, and a node that is not
  on the allow list.\<close>

theorem fallback_outside_policy:
  "place ex_km (ex_placement [ex_mock] []) 20 1000 1000 ex_request = [] \<and>
   map tg_node (dispatch_fallbacks ex_km (ex_placement [ex_mock] []) 20 1000 1000 ex_request []) = [''mock''] \<and>
   place ex_km (ex_placement [ex_peer] []) 20 1000 1000 (ex_request\<lparr>pr_approved := Some [''other'']\<rparr>) = [] \<and>
   map tg_node (dispatch_fallbacks ex_km (ex_placement [ex_peer] []) 20 1000 1000 (ex_request\<lparr>pr_approved := Some [''other'']\<rparr>) []) = [''peer'']"
proof (intro conjI)
  show "place ex_km (ex_placement [ex_mock] []) 20 1000 1000 ex_request = []" by code_simp
  show "map tg_node (dispatch_fallbacks ex_km (ex_placement [ex_mock] []) 20 1000 1000 ex_request []) = [''mock'']" by code_simp
  show "place ex_km (ex_placement [ex_peer] []) 20 1000 1000 (ex_request\<lparr>pr_approved := Some [''other'']\<rparr>) = []" by code_simp
  show "map tg_node (dispatch_fallbacks ex_km (ex_placement [ex_peer] []) 20 1000 1000 (ex_request\<lparr>pr_approved := Some [''other'']\<rparr>) []) = [''peer'']"
    by code_simp
qed

text \<open>The holder of a lease is kept although the placement would refuse it: a container on a node without a public address.\<close>

theorem holder_outside_policy:
  "map tg_node (place_for_project ex_km (ex_placement [ex_peer] (ex_lease ''peer'')) 20 1000 1000 ''app'' (ex_request\<lparr>pr_container := True\<rparr>)) = [''peer''] \<and>
   place ex_km (ex_placement [ex_peer] (ex_lease ''peer'')) 20 1000 1000 (ex_request\<lparr>pr_container := True\<rparr>) = []"
  by (intro conjI; code_simp)

end
