(* ===== verification/Spec2Isabelle.thy ===== *)
theory Spec2Isabelle
  imports Control_Plane_Bounds Edge_Limits Edge_Rules Edge_Cache_Props Edge_Jobs_Props Cloud_Lease Cloud_Queues_Props Log_Capture Tunnel_Props Fluid_Props Fluid_Routes_Props Build_Serving Gateway_Props Gateway_Browser_Props Gateway_Proxy_Props Gateway_Static_Props Gateway_Images_Props Gateway_Public_Props
    Cloud_Raw_Ports_Props Cloud_Ledger_Props Integrity_Chain Build_Coordinates_Props Build_Snapshot_Props Cloud_Placement_Props
begin

text \<open>
  \<^bold>\<open>The core of Hive: build control plane, edge and cloud stores\<close>

  The repository is a self hosted deployment platform. Its core, which this library models, is the
  build control plane (boxes with cells that run build jobs), the edge in front of the
  deployments (limits, firewall, caches, cron, workflows), Fluid compute, which starts, shares and drains
  the instances of the functions, the tunnel that carries requests to the instances, the gateway that routes requests to deployments,
  the contracts and evidence of builds, and the stores of the cloud layer (leases, message queues, the deployment ledger, public ports).

  \<^bold>\<open>Theories and code\<close>

  \<^item> \<open>Prelude\<close>: machine integers, hash maps as tables with distinct keys, \<open>max_by_key\<close> and
    other iterator methods, with the lemmas all components share.
  \<^item> \<open>Byte_Strings\<close>: the string functions of the standard library the code calls (prefixes, trimming,
    splitting, ASCII case, parsing of \<open>u64\<close>).
  \<^item> \<open>Hive_Core\<close>: \<open>crates/hive-core\<close>, files \<open>state.rs\<close>, \<open>job.rs\<close> and the part of \<open>proto.rs\<close> that the
    control plane computes with.
  \<^item> \<open>Log_Bus\<close>: \<open>crates/hive-controlplane/src/logbus.rs\<close>, the bounded log of a job.
  \<^item> \<open>Box_Ledger\<close>: \<open>records.rs\<close> and \<open>config.rs\<close>; a locale states what the reservation ledger of a box
    promises, interpreted on \<open>reserve\<close> and \<open>release\<close>.
  \<^item> \<open>Control_Plane\<close>: \<open>crates/hive-controlplane/src/lib.rs\<close>. The state behind the mutex is the record
    \<open>hive\<close>; every critical section (\<open>submit\<close>, \<open>decide_one\<close>, the parts of a build between two awaits,
    \<open>reconcile_warm_pool\<close>, \<open>reap_finished_jobs\<close>) is one function, every spawned future is a task
    with its program counter, and the backend's answers, the clock and fresh identifiers are
    arguments. The step relation interleaves these in any order.
  \<^item> \<open>Control_Plane_Inv\<close>, \<open>Control_Plane_Phase\<close>: the invariants of reachable states (ledger, ownership of
    cells, where each job is, how far each cell has come); \<open>Control_Plane_Props\<close> and
    \<open>Control_Plane_Bounds\<close>: the properties that rest on them. A client may submit any identifier, also one in use
    (\<open>hive_step\<close>); an orderly run (\<open>hive_orderly\<close>) is one where every submitted identifier is new.
  \<^item> \<open>Edge_Limits\<close>: \<open>ratelimit.rs\<close> and \<open>concurrency.rs\<close> of \<open>crates/hive-edge\<close>; both are instances of
    the locale \<open>sliding_window\<close>.
  \<^item> \<open>Edge_Rules\<close>: \<open>routing.rs\<close>, \<open>waf.rs\<close>, \<open>bot.rs\<close>; the regular expression engine is a parameter.
  \<^item> \<open>Edge_Cache\<close>, \<open>Edge_Cache_Props\<close>: \<open>cdn.rs\<close> and \<open>runtime_cache.rs\<close>; the gzip decoder is a parameter.
  \<^item> \<open>Edge_Jobs\<close>, \<open>Edge_Jobs_Props\<close>: \<open>cron.rs\<close> (the calendar of the cron crate is a parameter) and
    \<open>workflows.rs\<close> (a run is a task that advances step by step, interleaved with others).
  \<^item> \<open>Cloud_Lease\<close>: \<open>lease.rs\<close> and \<open>retry.rs\<close> of \<open>crates/hive-cloud\<close>; epochs and expiry times are \<open>u64\<close> and wrap.
  \<^item> \<open>Cloud_Queues\<close>, \<open>Cloud_Queues_Props\<close>: \<open>queues.rs\<close>; commands to the GuardianDB mirror are returned, its
    contents are an argument. A world of calls, of periodic synchronisations with the mirror and of the parts of the delivery
    loop keeps a record of every settlement with its reason.
  \<^item> \<open>Wire_Bytes\<close>: big endian integers, streams of pieces, searching, UTF-8, hexadecimal; the locale
    \<open>self_delimiting\<close> states that an encoding tells its own end, and gives round trips of streams.
  \<^item> \<open>Log_Capture\<close>: \<open>crates/hive-core/src/logcap.rs\<close>, the bounded capture of subprocess output.
  \<^item> \<open>Tunnel_Codec\<close>, \<open>Tunnel_Client\<close>, \<open>Tunnel_Server\<close>: \<open>codec.rs\<close>, \<open>client.rs\<close> and \<open>server.rs\<close> of
    \<open>crates/fluid-tunnel\<close>: the frames, the demultiplexer of the gateway, and the instance that proxies
    each request to the local function (reading its answer, decoding chunks, retrying, metering). What the
    function sends is a list of reads, JSON is a pair of parameters. A request is begun in pieces (the test for a closed
    tunnel, the insertion, the frames it sends, any of which may find the writer gone), and the reader closes in two (the flag,
    then the pending requests). \<open>Tunnel_Props\<close> composes both ends.

  \<^item> \<open>Fluid_Pool\<close>: the records and the decisions of \<open>crates/fluid-compute/src/lib.rs\<close> on one pool or on the
    registry (leases, the circuit, cold starts and their ports, the scan of the autoscaler, adaptive
    concurrency), and protocols, ports and configuration of \<open>crates/fluid-core/src/lib.rs\<close>.
  \<^item> \<open>Fluid_Life\<close>: the struct \<open>Fluid\<close> with its tasks as one state machine: one event (\<open>fluid_event\<close>) is one
    critical section with what follows up to the next await; \<open>fluid_run\<close> takes any list of
    events, so every interleaving and every cancellation is a run. The termination worker sleeps until it is notified or told to stop,
    and goes back to sleep after a failed termination, as its loop does.
  \<^item> \<open>Fluid_Inv\<close> (identifiers), \<open>Fluid_Own\<close> (who owns a cell, permits), \<open>Fluid_Count\<close> and \<open>Fluid_Users\<close> (counters and
    what they count; the locale \<open>counting\<close> is used with \<open>\<le>\<close> and with \<open>=\<close>), \<open>Fluid_Drain\<close>, \<open>Fluid_Limits\<close>,
    \<open>Fluid_Worker\<close>: the invariants of its runs; \<open>Fluid_Props\<close>: the properties that rest on them.
  \<^item> \<open>Fluid_Routes\<close>, \<open>Fluid_Routes_Props\<close>: the routing of a deployment in \<open>crates/fluid-core/src/lib.rs\<close>: route
    classes, the rules of a \<open>Manifest\<close> with their conditions and parametrised sources, prefix routes, the
    patterns of Next.js and trailing slashes. The regular expression engine is a parameter.
  \<^item> \<open>Build_Schema\<close>, \<open>Build_Output\<close>: prebuilt deployments (Build Output API v3) in the same file: the descriptor as JSON and its
    structs with unknown fields kept, validation, compilation to routes and an index of outputs, and evaluation of
    a request. \<open>Build_Output_Props\<close> is about paths, \<open>Build_Serving\<close> about what is served.
  \<^item> \<open>Gateway_Registry\<close>: the deployments of \<open>crates/fluid-gateway/src/lib.rs\<close>, the aliases, custom domains and default
    of \<open>GwState\<close> with every operation on them, and the resolution of hosts. \<open>Gateway_Inv\<close> makes the operations
    events (\<open>gw_event\<close>) and proves the invariants of reachable registries, \<open>Gateway_Props\<close> the properties. Histories give every
    deployment a new identifier (\<open>gw_ok\<close>); only the theorem on warm pools also asks that nothing restored or adopted
    doubles a production deployment (\<open>gw_orderly\<close>).
  \<^item> \<open>Gateway_Browser\<close>, \<open>Gateway_Proxy\<close>: the same file on the way of one request to a function: browsers registered to serve
    it (base64, choice, quota, circuit), the headers forwarded, up to three attempts on leased instances, the
    classes of failure (\<open>FailureClass\<close> of \<open>fluid-core\<close>) and the response. What a browser, a lease and a
    tunnel answer is an argument, and each effect names the pool and the request it concerns. The choice of a browser, its count
    and its circuit are three critical sections; what other requests do between them is an argument too. \<open>Gateway_Browser_Props\<close> and \<open>Gateway_Proxy_Props\<close> hold the properties.
  \<^item> \<open>Gateway_Files\<close>: \<open>static_files.rs\<close> of the same crate, reading a file below a directory with \<open>openat2\<close>, whose resolve flags are
    in the model while the kernel that obeys them is a parameter; \<open>Gateway_Static\<close>: the static files
    of a deployment, \<open>Gateway_Images\<close>: the image endpoint, \<open>Gateway_Public\<close>: \<open>handle_public\<close>, which composes the registry, the
    rules of the manifest, the compiled outputs, static files and the call of a function; \<open>lease_for_path\<close>. What the kernel, the
    compressors, the image codecs and a remote server answer are parameters (\<open>static_world\<close>, \<open>image_world\<close>,
    \<open>public_world\<close>). Their properties are in \<open>Gateway_Static_Props\<close>, \<open>Gateway_Images_Props\<close> and \<open>Gateway_Public_Props\<close>.
  \<^item> \<open>Build_Snapshot\<close>, \<open>Build_Snapshot_Props\<close>: the contracts of a build, of \<open>crates/fluid-build\<close>: \<open>repository_snapshot.rs\<close> and
    \<open>deployment_snapshot.rs\<close> (what may be run, what is sealed, sealing and verifying) and \<open>OutputDirectory\<close> of \<open>lib.rs\<close>. SHA-256 and
    the JSON encoding of a contract are parameters. \<open>Build_Coordinates\<close> with its \<open>Build_Coordinates_Props\<close>: \<open>build_coordinates.rs\<close> of
    \<open>crates/hive-cloud\<close>, with the paths of the standard library as lists of components and as strings.
  \<^item> \<open>Integrity_Chain\<close>: \<open>crates/hive-core/src/integrity.rs\<close>, the hash chain of a deployment.
  \<^item> \<open>Cloud_Ledger\<close>: \<open>deployment_ledger.rs\<close> of \<open>crates/hive-cloud\<close>. Each method is a mutation of the payload (\<open>accept_mutation\<close> and
    so on) that \<open>mutate\<close> validates and writes before it replaces the state; a write goes through, is lost, or fails after the
    rename. \<open>ledger_run\<close> takes any list of calls and restarts. \<open>Cloud_Ledger_Props\<close> holds the invariants and the properties.
  \<^item> \<open>Cloud_Raw_Ports\<close>: \<open>raw_ports.rs\<close> of the same crate: the registry of public ports with its file, batches of claims with their
    rollback, retirement, adoption, and the coordination with the leader. \<open>Cloud_Raw_Ports_Props\<close> makes the operations events.
  \<^item> \<open>Edge_Nodes\<close>, \<open>Edge_Nodes_Props\<close>: the registry of nodes in \<open>crates/hive-edge/src/region.rs\<close>; every critical section is an event
    (\<open>node_event\<close>), a report of a peer itself is three. \<open>Cloud_Placement\<close>, \<open>Cloud_Placement_Props\<close>: \<open>schedule.rs\<close> of \<open>crates/hive-cloud\<close>
    on that registry and the leases; a placement reads the clock twice, for the freshness of peers and for the own record.

  \<^bold>\<open>What is shown\<close>

  \<^item> Control plane: in every reachable state the free capacity of each box is exact, a cell has at most
    one owner, concurrent builds are bounded, the state of a job and of a
    cell only moves forward; in orderly runs every cell has exactly one owner, no accepted job is lost and nothing leaks once
    all tasks are done; scheduling, placement, warm
    pool, reaper and retention do exactly what they promise.
  \<^item> Edge: the limiters admit at most the limit in every window and refuse only floods; the rule
    evaluators have closed characterisations; the CDN never serves a truncated or undecodable body
    and classifies by age; the runtime cache evicts the least recently used entry and isolates
    scopes; a cron job fires once per due time; a workflow run reports success only when all its
    steps succeeded, in order.
  \<^item> Cloud stores: over a whole history two terms of a lease never share an epoch, as long as epochs do not wrap, and merging
    converges; rendezvous hashing moves only the keys of a lost node; a message is in its queue or was settled for a recorded
    reason, whatever is synchronised, pulls are exclusive, acknowledgements and sweeps act exactly, deleted queues stay deleted.
  \<^item> Tunnel: frames and requests survive the wire; what one stream sees is an automaton of its own
    frames (a refinement), whatever the other streams do; chunked and plain bodies are forwarded exactly
    for every way the bytes arrive in pieces; a retry never duplicates a response; end to end, the caller
    receives exactly the head and body the function sent, or an error. Log capture equals the capture
    of the whole output line by line.
  \<^item> Fluid compute: no cell is lost and, unless an unregistration was cancelled, a successful shutdown leaves none; the counters of reservations and of
    requests in flight never exceed what they count, and equal it in orderly runs (no pool is replaced
    under a cold start, no instance leased before keep-warm is done with it); then a drained
    cell is unused and the limits of instances and concurrency hold; the termination queue empties once terminations stop failing and the worker is notified; the
    lease decision, the circuit and adaptive concurrency do exactly what they promise.
  \<^item> Routing: the longest prefix wins, a literal source needs no regular expression, Next.js patterns match segment
    by segment with a closed form of their score, a trailing slash is redirected at most once.
  \<^item> Build Output: a validated descriptor is bounded and portable, compilation ignores no field and keeps every route,
    the index is exact and conflicts are refused, a resolution serves only the inventory, headers cannot split a
    response, and normalised paths are canonical.
  \<^item> Gateway: one production deployment per project and incarnation, and only its pools are kept warm; a candidate is
    hidden until it is published and serves from then on; custom domains stay in their project; a removal leaves
    nothing behind; a restart finds the best deployment for every label; attribution agrees with serving.
  \<^item> Requests: a browser serves only what it is registered for, within its quota and while its circuit is closed, and never sees credentials, base64 is exact, the first attempt that
    decides a request is its answer, a request that changes state is repeated only after its instance was
    declared dead, and a response is sized exactly when its length was declared and it is no stream.
    A file is read whole, unchanged and from below its directory, if the kernel keeps the promise of the flags; a body is encoded
    only as the client accepts; the URL the image endpoint asks for is the one of the request and allowed (as far as the code and a
    URL agree on the host), while redirects its HTTP client follows are checked by nobody; the public entry calls exactly the
    function the deployment declares, with the request's own method, path and body, real files win over rewrites, configured
    headers win over others, and normalising redirects end for every path with one leading slash.
  \<^item> Builds: a seal verifies, binds everything it seals and forgets the order of services; coordinates and output directories stay
    below the checkout; the head of an integrity chain binds the whole history of its deployment.
  \<^item> Ledger: nothing is ever taken back, an answer is on disk before it is given, the evidence in memory fits together at every moment
    whatever writes fail, and the authority of a restore is decided by the ledger alone. Public ports: a number is granted to one
    service for good, and a batch of claims is all or nothing.
  \<^item> Nodes: a record stands under its own name and one endpoint has one record, a dead node vanishes however its record is
    repeated, gossip leaves the own verdicts alone, anycast finds the best node. A placement meets every hard need of the request and
    stays inside its regions, a stateful service is placed once, the nearest node is taken, and the fallbacks are exactly the others
    that can take a dispatch, in one order.
  \<^item> Some theorems exhibit defects of the code by evaluation (a chunk size that wraps, illegal cold path transition,
    duplicate job identifiers, ports granted twice after a change of leader, cells lost by a cancelled unregistration, a
    request that waits for ever because it began between the two halves of closing a tunnel, settled messages that return from the
    mirror, a failed termination nobody retries, redirects that leave the host or never end, images fetched from anywhere, a circuit that never closes, rules with invalid expressions, huge ages, tag slicing, leases taken
    over twice).

  \<^bold>\<open>Bounds and fuel\<close>

  No definition uses fuel: the loops are structural recursions over the collection they traverse, except
  the chunk decoder and the log reader, whose termination proof measures the bytes still to come.
  Widths are written out where a value can leave them (\<open>u32\<close> reservations, \<open>as u32\<close> casts of
  lengths, \<open>u64\<close> products of the cache, the FNV-1a hash as a 64 bit word); clocks are natural
  numbers, except for the expiry of a lease. The order of a hash map's iteration is the order of the table and so arbitrary;
  where the code takes a maximum over a hash map, the model takes the last of equals in that order.

  \<^bold>\<open>Not modelled\<close>

  HTTP handlers, sockets and processes (\<open>hive-api\<close>, \<open>hive-backend\<close>, \<open>hive-cell-agent\<close>, \<open>hived\<close>, the
  command lines), the broadcast channel of the log bus, metrics and persistence formats, the peer
  to peer and database bindings, the answers Fluid sends to waiting callers and its floating point
  statistics, and the remaining services of \<open>hive-cloud\<close> and \<open>fluid-*\<close>.
\<close>

end
